(* ===== verification/Go_Prelude.thy ===== *)
theory Go_Prelude
  imports Main "HOL-Library.Word" "HOL-Library.Monad_Syntax" "HOL-Library.Multiset"
begin

text \<open>
  Shared vocabulary of the development: the machine types of the Go program, the part of
  Go's standard library that the sources use (big-endian integers, slices with a spare
  capacity, checked slicing, decimal formatting and parsing), Go maps that are iterated
  (association lists) and the generic lemmas on which the component theories rest.
\<close>

section \<open>Machine types\<close>

type_synonym byte = "8 word"
type_synonym bytes = "byte list"
type_synonym u8 = "8 word"
type_synonym u16 = "16 word"
type_synonym u32 = "32 word"
type_synonym u64 = "64 word"

text \<open>
  Signed 64-bit and 32-bit values (balances, durations, item counts) are integers; every
  arithmetic operation of the source that can leave the range is wrapped explicitly.
\<close>

definition wrap_s64 :: "int \<Rightarrow> int" where
  "wrap_s64 x = (x + 2 ^ 63) mod 2 ^ 64 - 2 ^ 63"

definition wrap_s32 :: "int \<Rightarrow> int" where
  "wrap_s32 x = (x + 2 ^ 31) mod 2 ^ 32 - 2 ^ 31"

definition in_s64 :: "int \<Rightarrow> bool" where
  "in_s64 x \<longleftrightarrow> - (2 ^ 63) \<le> x \<and> x < 2 ^ 63"

definition in_s32 :: "int \<Rightarrow> bool" where
  "in_s32 x \<longleftrightarrow> - (2 ^ 31) \<le> x \<and> x < 2 ^ 31"

lemma wrap_s64_id [simp]: "in_s64 x \<Longrightarrow> wrap_s64 x = x"
  by (simp add: wrap_s64_def in_s64_def mod_pos_pos_trivial)

lemma wrap_s32_id [simp]: "in_s32 x \<Longrightarrow> wrap_s32 x = x"
  by (simp add: wrap_s32_def in_s32_def mod_pos_pos_trivial)

lemma in_s64_wrap [simp]: "in_s64 (wrap_s64 x)"
  by (simp add: wrap_s64_def in_s64_def algebra_simps)

lemma in_s32_wrap [simp]: "in_s32 (wrap_s32 x)"
  by (simp add: wrap_s32_def in_s32_def algebra_simps)

section \<open>Big-endian integers\<close>

text \<open>
  \<open>be_bytes n v\<close> is the \<open>n\<close>-byte big-endian encoding of \<open>v\<close> (modulo \<open>256 ^ n\<close>) that
  \<^verbatim>\<open>binary.BigEndian.PutUintN\<close> writes, \<open>be_nat\<close> what \<^verbatim>\<open>binary.BigEndian.UintN\<close> reads.
\<close>

fun be_bytes :: "nat \<Rightarrow> nat \<Rightarrow> bytes" where
  "be_bytes 0 v = []"
| "be_bytes (Suc n) v = be_bytes n (v div 256) @ [word_of_nat v]"

definition be_nat :: "bytes \<Rightarrow> nat" where
  "be_nat bs = foldl (\<lambda>a b. 256 * a + unat b) 0 bs"

lemma be_nat_Nil [simp]: "be_nat [] = 0"
  by (simp add: be_nat_def)

lemma be_nat_snoc [simp]: "be_nat (bs @ [b]) = 256 * be_nat bs + unat b"
  by (simp add: be_nat_def)

lemma length_be_bytes [simp]: "length (be_bytes n v) = n"
  by (induction n arbitrary: v) auto

lemma be_nat_be_bytes [simp]: "be_nat (be_bytes n v) = v mod 256 ^ n"
proof (induction n arbitrary: v)
  case (Suc n)
  have "256 * (v div 256 mod 256 ^ n) + v mod 256 = v mod (256 * 256 ^ n)"
    by (metis mod_mult2_eq add.commute)
  then show ?case by (simp add: Suc unat_of_nat)
qed simp

lemma be_nat_less: "be_nat bs < 256 ^ length bs"
proof (induction bs rule: rev_induct)
  case (snoc b bs)
  have "unat b < 256" using unsigned_less [of b, where ?'a = nat] by simp
  with snoc show ?case by simp
qed simp

lemma be_bytes_be_nat: "n = length bs \<Longrightarrow> be_bytes n (be_nat bs) = bs"
proof (induction bs arbitrary: n rule: rev_induct)
  case (snoc b bs)
  have b: "unat b < 256" using unsigned_less [of b, where ?'a = nat] by simp
  have "word_of_nat (256 * be_nat bs + unat b) = b"
  proof -
    have "unat (word_of_nat (256 * be_nat bs + unat b) :: byte) = unat b"
      using b by (simp add: unat_of_nat del: of_nat_add of_nat_mult)
    then show ?thesis by (simp only: word_unat_eq_iff)
  qed
  with snoc b show ?case by simp
qed simp

definition PutUint16 :: "u16 \<Rightarrow> bytes" where "PutUint16 v = be_bytes 2 (unat v)"
definition PutUint32 :: "u32 \<Rightarrow> bytes" where "PutUint32 v = be_bytes 4 (unat v)"
definition PutUint64 :: "u64 \<Rightarrow> bytes" where "PutUint64 v = be_bytes 8 (unat v)"
definition Uint16 :: "bytes \<Rightarrow> u16" where "Uint16 bs = word_of_nat (be_nat bs)"
definition Uint32 :: "bytes \<Rightarrow> u32" where "Uint32 bs = word_of_nat (be_nat bs)"
definition Uint64 :: "bytes \<Rightarrow> u64" where "Uint64 bs = word_of_nat (be_nat bs)"

lemma length_PutUint [simp]:
  "length (PutUint16 a) = 2" "length (PutUint32 b) = 4" "length (PutUint64 c) = 8"
  by (simp_all add: PutUint16_def PutUint32_def PutUint64_def)

lemma Uint16_Put [simp]: "Uint16 (PutUint16 v) = v"
  using unsigned_less [of v, where ?'a = nat] by (simp add: Uint16_def PutUint16_def)

lemma Uint32_Put [simp]: "Uint32 (PutUint32 v) = v"
  using unsigned_less [of v, where ?'a = nat] by (simp add: Uint32_def PutUint32_def)

lemma Uint64_Put [simp]: "Uint64 (PutUint64 v) = v"
  using unsigned_less [of v, where ?'a = nat] by (simp add: Uint64_def PutUint64_def)

lemma Put_Uint16: "length bs = 2 \<Longrightarrow> PutUint16 (Uint16 bs) = bs"
  using be_nat_less [of bs] by (simp add: Uint16_def PutUint16_def be_bytes_be_nat unat_of_nat)

lemma Put_Uint32: "length bs = 4 \<Longrightarrow> PutUint32 (Uint32 bs) = bs"
  using be_nat_less [of bs] by (simp add: Uint32_def PutUint32_def be_bytes_be_nat unat_of_nat)

lemma Put_Uint64: "length bs = 8 \<Longrightarrow> PutUint64 (Uint64 bs) = bs"
  using be_nat_less [of bs] by (simp add: Uint64_def PutUint64_def be_bytes_be_nat unat_of_nat)

section \<open>Checked slicing\<close>

text \<open>
  \<^verbatim>\<open>xs[i:j]\<close> panics when the bounds do not satisfy \<open>i \<le> j \<le> length xs\<close>, \<^verbatim>\<open>xs[i]\<close> when
  \<open>i\<close> is out of range. A panic is the value \<open>None\<close> of the option monad.
\<close>

definition slice :: "'a list \<Rightarrow> nat \<Rightarrow> nat \<Rightarrow> 'a list option" where
  "slice xs i j = (if i \<le> j \<and> j \<le> length xs then Some (take (j - i) (drop i xs)) else None)"

definition index :: "'a list \<Rightarrow> nat \<Rightarrow> 'a option" where
  "index xs i = (if i < length xs then Some (xs ! i) else None)"

lemma slice_ok [simp]: "i \<le> j \<Longrightarrow> j \<le> length xs \<Longrightarrow> slice xs i j = Some (take (j - i) (drop i xs))"
  by (simp add: slice_def)

lemma index_ok [simp]: "i < length xs \<Longrightarrow> index xs i = Some (xs ! i)"
  by (simp add: index_def)

text \<open>A field that stands after a prefix of known length is what the slice reads.\<close>

lemma slice_field:
  "i = length pre \<Longrightarrow> j = length pre + length fld \<Longrightarrow> slice (pre @ fld @ post) i j = Some fld"
  by (simp add: slice_def)

section \<open>Slices with spare capacity\<close>

text \<open>
  A byte slice that is appended to is its contents together with the spare part of the
  backing array behind it; \<^verbatim>\<open>cap\<close> is the sum of the two lengths. The spare bytes hold
  whatever an earlier use of the buffer left there.
\<close>

record gobuf =
  buf_data :: bytes
  buf_spare :: bytes

definition buf_cap :: "gobuf \<Rightarrow> nat" where
  "buf_cap b = length (buf_data b) + length (buf_spare b)"

abbreviation nil_buf :: gobuf where
  "nil_buf \<equiv> \<lparr>buf_data = [], buf_spare = []\<rparr>"

text \<open>\<open>patch pos bs xs\<close> is \<^verbatim>\<open>copy(xs[pos:], bs)\<close>.\<close>

definition patch :: "nat \<Rightarrow> 'a list \<Rightarrow> 'a list \<Rightarrow> 'a list" where
  "patch pos bs xs = take pos xs @ take (length xs - pos) bs @ drop (pos + length bs) xs"

definition buf_patch :: "nat \<Rightarrow> bytes \<Rightarrow> gobuf \<Rightarrow> gobuf" where
  "buf_patch pos bs b = b\<lparr>buf_data := patch pos bs (buf_data b)\<rparr>"

lemma patch_append [simp]:
  "pos = length pre \<Longrightarrow> length bs \<le> length g \<Longrightarrow>
   patch pos bs (pre @ g) = pre @ bs @ drop (length bs) g"
  by (simp add: patch_def)

lemma length_patch [simp]: "pos + length bs \<le> length xs \<Longrightarrow> length (patch pos bs xs) = length xs"
  by (simp add: patch_def)

text \<open>Fields written one after the other over a region of exactly their total length.\<close>

fun patch_all :: "nat \<Rightarrow> 'a list list \<Rightarrow> 'a list \<Rightarrow> 'a list" where
  "patch_all pos [] xs = xs"
| "patch_all pos (f # fs) xs = patch_all (pos + length f) fs (patch pos f xs)"

lemma patch_all_append:
  "pos = length pre \<Longrightarrow> length (concat fs) \<le> length g \<Longrightarrow>
   patch_all pos fs (pre @ g) = pre @ concat fs @ drop (length (concat fs)) g"
proof (induction fs arbitrary: pos pre g)
  case (Cons f fs)
  have "patch_all (pos + length f) fs ((pre @ f) @ drop (length f) g)
      = (pre @ f) @ concat fs @ drop (length (concat fs)) (drop (length f) g)"
    by (rule Cons.IH) (use Cons.prems in auto)
  then show ?case using Cons.prems by (simp add: add.commute)
qed simp

text \<open>
  Growing a slice by \<open>n\<close> bytes: when the capacity does not suffice a new zeroed array of at
  least twice the capacity is allocated and the contents copied, otherwise the slice is
  extended over its spare part. The same statements are written out in every appending
  encoder of the program.
\<close>

definition buf_grow :: "gobuf \<Rightarrow> nat \<Rightarrow> gobuf" where
  "buf_grow dst n =
     (let pos = length (buf_data dst); need = pos + n in
      if buf_cap dst < need then
        let newCap = (if buf_cap dst * 2 < need then need else buf_cap dst * 2)
        in \<lparr>buf_data = buf_data dst @ replicate n 0, buf_spare = replicate (newCap - need) 0\<rparr>
      else \<lparr>buf_data = buf_data dst @ take n (buf_spare dst), buf_spare = drop n (buf_spare dst)\<rparr>)"

lemma buf_grow_data: "\<exists>g. length g = n \<and> buf_data (buf_grow dst n) = buf_data dst @ g"
  by (auto simp: buf_grow_def buf_cap_def Let_def)

lemma buf_data_patch [simp]: "buf_data (buf_patch pos bs b) = patch pos bs (buf_data b)"
  by (simp add: buf_patch_def)

text \<open>Growing and then writing fields of exactly the requested total length appends the fields.\<close>

lemma buf_grow_patch_all:
  assumes "pos = length (buf_data dst)" and "n = length (concat fs)"
  shows "patch_all pos fs (buf_data (buf_grow dst n)) = buf_data dst @ concat fs"
proof -
  obtain g where "length g = n" "buf_data (buf_grow dst n) = buf_data dst @ g"
    using buf_grow_data by blast
  with assms show ?thesis by (simp add: patch_all_append)
qed

section \<open>Go maps that the program iterates over\<close>

text \<open>
  Maps that are only looked up are functions \<open>'k \<rightharpoonup> 'v\<close>. Maps the program ranges over or
  counts are association lists; \<open>map_of\<close> reads them. Go does not fix the iteration order:
  the list order is one of the orders the program may see.
\<close>

type_synonym ('k, 'v) gomap = "('k \<times> 'v) list"

definition mdel :: "'k \<Rightarrow> ('k, 'v) gomap \<Rightarrow> ('k, 'v) gomap" where
  "mdel k m = filter (\<lambda>p. fst p \<noteq> k) m"

definition mput :: "'k \<Rightarrow> 'v \<Rightarrow> ('k, 'v) gomap \<Rightarrow> ('k, 'v) gomap" where
  "mput k v m = (k, v) # mdel k m"

definition mkeys :: "('k, 'v) gomap \<Rightarrow> 'k list" where
  "mkeys m = map fst m"

definition wf_map :: "('k, 'v) gomap \<Rightarrow> bool" where
  "wf_map m \<longleftrightarrow> distinct (mkeys m)"

lemma map_of_mdel [simp]: "map_of (mdel k m) = (map_of m)(k := None)"
  by (induction m) (auto simp: mdel_def fun_eq_iff)

lemma map_of_mput [simp]: "map_of (mput k v m) = (map_of m)(k \<mapsto> v)"
  by (simp add: mput_def fun_eq_iff)

lemma set_mkeys: "set (mkeys m) = dom (map_of m)"
  by (simp add: mkeys_def dom_map_of_conv_image_fst)

lemma mem_mdel [simp]: "p \<in> set (mdel k m) \<longleftrightarrow> p \<in> set m \<and> fst p \<noteq> k"
  by (auto simp: mdel_def)

lemma wf_map_Nil [simp]: "wf_map []"
  by (simp add: wf_map_def mkeys_def)

lemma wf_map_filter [simp]: "wf_map m \<Longrightarrow> wf_map (filter P m)"
  by (simp add: wf_map_def mkeys_def distinct_map_filter)

lemma wf_map_mdel [simp]: "wf_map m \<Longrightarrow> wf_map (mdel k m)"
  by (simp add: mdel_def)

lemma wf_map_mput [simp]: "wf_map m \<Longrightarrow> wf_map (mput k v m)"
  using wf_map_mdel [of m k] by (auto simp: mput_def wf_map_def mkeys_def)

lemma wf_map_lookup: "wf_map m \<Longrightarrow> (k, v) \<in> set m \<longleftrightarrow> map_of m k = Some v"
  by (simp add: wf_map_def mkeys_def)

lemma map_of_filter_wf:
  "wf_map m \<Longrightarrow> map_of (filter P m) k = (case map_of m k of None \<Rightarrow> None | Some v \<Rightarrow> if P (k, v) then Some v else None)"
proof (induction m)
  case (Cons p m)
  obtain a b where p: "p = (a, b)" by (cases p)
  with Cons.prems have wf: "wf_map m" and fresh: "a \<notin> fst ` set m"
    by (auto simp: wf_map_def mkeys_def)
  from fresh have "map_of m a = None" by (simp add: map_of_eq_None_iff)
  moreover from fresh have "map_of (filter P m) a = None"
    by (auto simp: map_of_eq_None_iff)
  ultimately show ?case using Cons.IH [OF wf] p by (auto split: option.splits)
qed simp

lemma length_mdel_absent [simp]: "map_of m k = None \<Longrightarrow> mdel k m = m"
  by (induction m) (auto simp: mdel_def split: if_splits)

lemma length_mdel_present: "wf_map m \<Longrightarrow> map_of m k \<noteq> None \<Longrightarrow> Suc (length (mdel k m)) = length m"
proof (induction m)
  case (Cons p m)
  obtain a b where p: "p = (a, b)" by (cases p)
  with Cons.prems have wf: "wf_map m" and fresh: "map_of m a = None"
    by (auto simp: wf_map_def mkeys_def map_of_eq_None_iff)
  show ?case
  proof (cases "a = k")
    case True
    with fresh p show ?thesis using length_mdel_absent [of m k] by (simp add: mdel_def)
  next
    case False
    with Cons wf p show ?thesis by (simp add: mdel_def)
  qed
qed simp

text \<open>Removing the element at an index.\<close>

lemma remove_nth:
  assumes "i < length xs" and "distinct xs"
  shows "distinct (take i xs @ drop (Suc i) xs)" and "set (take i xs @ drop (Suc i) xs) = set xs - {xs ! i}"
proof -
  obtain a x b where "xs = a @ x # b" "i = length a" using id_take_nth_drop [OF assms(1)] assms(1) by (metis length_take min.absorb4)
  with assms(2) show "distinct (take i xs @ drop (Suc i) xs)" "set (take i xs @ drop (Suc i) xs) = set xs - {xs ! i}" by auto
qed

end
