(* ===== verification/Discovery.thy ===== *)
theory Discovery
  imports Go_Strconv
begin

text \<open>
  The member table of the RouterAgent (\<^verbatim>\<open>discovery/member_table.go\<close>) and the stateless
  resolver (\<^verbatim>\<open>discovery/resolver.go\<close>). The table is a map from node ids and, per server
  type, a list of nodes kept in strictly increasing node id order by binary search. The
  theory shows that the lists stay sorted, that the table refines a map of registrations per
  server type, and that node selection depends on the set of registered nodes only, not on
  the order in which the registrations arrived.
\<close>

section \<open>Data\<close>

record NodeInfo =
  NodeID :: u32
  RAAddr :: string
  StartAt :: int

record MemberTable =
  byNodeID :: "u32 \<rightharpoonup> NodeInfo"
  byServerType :: "(u32, NodeInfo list) gomap"

definition NewMemberTable :: MemberTable where
  "NewMemberTable = \<lparr>byNodeID = Map.empty, byServerType = []\<rparr>"

text \<open>Reading an absent key of a Go map of slices gives the nil slice.\<close>

definition items_of :: "MemberTable \<Rightarrow> u32 \<Rightarrow> NodeInfo list" where
  "items_of m st = (case map_of (byServerType m) st of None \<Rightarrow> [] | Some xs \<Rightarrow> xs)"

section \<open>Binary search\<close>

text \<open>The loop of Go's \<^verbatim>\<open>sort.Search\<close> with its two bounds.\<close>

function search_loop :: "(nat \<Rightarrow> bool) \<Rightarrow> nat \<Rightarrow> nat \<Rightarrow> nat" where
  "search_loop f i j =
     (if i < j then
        let h = (i + j) div 2 in
        if \<not> f h then search_loop f (h + 1) j else search_loop f i h
      else i)"
  by pat_completeness auto
termination by (relation "measure (\<lambda>(f, i, j). j - i)") auto

declare search_loop.simps [simp del]

definition sort_Search :: "nat \<Rightarrow> (nat \<Rightarrow> bool) \<Rightarrow> nat" where
  "sort_Search n f = search_loop f 0 n"

lemma search_loop_step:
  "i < j \<Longrightarrow> search_loop f i j =
     (if f ((i + j) div 2) then search_loop f i ((i + j) div 2) else search_loop f ((i + j) div 2 + 1) j)"
  by (subst search_loop.simps) (simp add: Let_def)

lemma search_loop_stop: "\<not> i < j \<Longrightarrow> search_loop f i j = i"
  by (simp add: search_loop.simps)

lemma search_loop_bounds: "i \<le> j \<Longrightarrow> i \<le> search_loop f i j \<and> search_loop f i j \<le> j"
proof (induction "j - i" arbitrary: i j rule: less_induct)
  case less
  show ?case
  proof (cases "i < j")
    case True
    define h where "h = (i + j) div 2"
    have h: "i \<le> h" "h < j" using True by (auto simp: h_def)
    have "i \<le> search_loop f i h \<and> search_loop f i h \<le> h" using h by (intro less) auto
    moreover have "h + 1 \<le> search_loop f (h + 1) j \<and> search_loop f (h + 1) j \<le> j"
      using h by (intro less) auto
    ultimately show ?thesis using h by (simp add: search_loop_step [OF True] h_def [symmetric])
  next
    case False
    with less show ?thesis by (simp add: search_loop_stop)
  qed
qed

text \<open>On a monotone predicate the loop returns the first index where it holds.\<close>

lemma search_loop_first:
  assumes mono: "\<And>a b. a \<le> b \<Longrightarrow> f a \<Longrightarrow> f b"
  shows "i \<le> j \<Longrightarrow> \<forall>k < i. \<not> f k \<Longrightarrow> j < n \<longrightarrow> f j \<Longrightarrow> j \<le> n \<Longrightarrow>
    (\<forall>k < search_loop f i j. \<not> f k) \<and> (search_loop f i j < n \<longrightarrow> f (search_loop f i j))"
proof (induction "j - i" arbitrary: i j rule: less_induct)
  case less
  show ?case
  proof (cases "i < j")
    case True
    define h where "h = (i + j) div 2"
    have h: "i \<le> h" "h < j" using True by (auto simp: h_def)
    note step = search_loop_step [OF True, of f, folded h_def]
    show ?thesis
    proof (cases "f h")
      case fh: True
      have "(\<forall>k < search_loop f i h. \<not> f k) \<and> (search_loop f i h < n \<longrightarrow> f (search_loop f i h))"
        using h fh less.prems by (intro less.hyps) auto
      with fh show ?thesis by (simp add: step)
    next
      case fh: False
      have "\<forall>k < h + 1. \<not> f k" using fh mono by (metis less_Suc_eq_le Suc_eq_plus1)
      then have "(\<forall>k < search_loop f (h + 1) j. \<not> f k) \<and>
          (search_loop f (h + 1) j < n \<longrightarrow> f (search_loop f (h + 1) j))"
        using h less.prems by (intro less.hyps) auto
      with fh show ?thesis by (simp add: step)
    qed
  next
    case False
    with less.prems have "i = j" by simp
    with False less.prems show ?thesis by (simp add: search_loop_stop)
  qed
qed

text \<open>Only the values below the upper bound matter.\<close>

lemma search_loop_cong:
  "\<forall>k < j. f k = g k \<Longrightarrow> search_loop f i j = search_loop g i j"
proof (induction "j - i" arbitrary: i j rule: less_induct)
  case less
  show ?case
  proof (cases "i < j")
    case True
    define h where "h = (i + j) div 2"
    have h: "i \<le> h" "h < j" using True by (auto simp: h_def)
    have "search_loop f i h = search_loop g i h" using h less.prems by (intro less.hyps) auto
    moreover have "search_loop f (h + 1) j = search_loop g (h + 1) j"
      using h less.prems by (intro less.hyps) auto
    ultimately show ?thesis using h less.prems
      by (simp add: search_loop_step [OF True] h_def [symmetric])
  next
    case False
    then show ?thesis by (simp add: search_loop_stop)
  qed
qed

section \<open>Operations\<close>

definition at_least :: "NodeInfo list \<Rightarrow> u32 \<Rightarrow> nat \<Rightarrow> bool" where
  "at_least items nid i \<longleftrightarrow> nid \<le> NodeID (items ! i)"

text \<open>
  \<^verbatim>\<open>Upsert\<close>: an entry with the same node id is overwritten in place, otherwise the list is
  extended by one slot, its tail shifted right by \<^verbatim>\<open>copy\<close> and the entry stored.
\<close>

definition upsert_items :: "NodeInfo \<Rightarrow> NodeInfo list \<Rightarrow> NodeInfo list" where
  "upsert_items info items =
     (let idx = sort_Search (length items) (at_least items (NodeID info)) in
      if idx < length items \<and> NodeID (items ! idx) = NodeID info then items[idx := info]
      else take idx items @ [info] @ drop idx items)"

definition Upsert :: "MemberTable \<Rightarrow> NodeInfo \<Rightarrow> u32 \<Rightarrow> MemberTable" where
  "Upsert m info serverType =
     m\<lparr>byNodeID := (byNodeID m)(NodeID info \<mapsto> info),
       byServerType := mput serverType (upsert_items info (items_of m serverType)) (byServerType m)\<rparr>"

fun delete_items :: "u32 \<Rightarrow> (u32, NodeInfo list) gomap \<Rightarrow> (u32, NodeInfo list) gomap" where
  "delete_items nodeID [] = []"
| "delete_items nodeID ((st, items) # m) =
     (let out = filter (\<lambda>it. NodeID it \<noteq> nodeID) items in
      if out = [] then delete_items nodeID m else (st, out) # delete_items nodeID m)"

definition MemberTable_Delete :: "MemberTable \<Rightarrow> u32 \<Rightarrow> MemberTable" where
  "MemberTable_Delete m nodeID =
     m\<lparr>byNodeID := (byNodeID m)(nodeID := None),
       byServerType := delete_items nodeID (byServerType m)\<rparr>"

definition GetByNodeID :: "MemberTable \<Rightarrow> u32 \<Rightarrow> NodeInfo option" where
  "GetByNodeID m i = byNodeID m i"

definition PickAnyByServerType :: "MemberTable \<Rightarrow> u32 \<Rightarrow> NodeInfo option" where
  "PickAnyByServerType m st = (let items = items_of m st in
     if length items = 0 then None else Some (items ! 0))"

text \<open>The FNV-1a hash over the bytes of the routing key, on 32-bit words.\<close>

unbundle bit_operations_syntax

definition hashString :: "string \<Rightarrow> u32" where
  "hashString s = foldl (\<lambda>h b. (h XOR ucast (b :: byte)) * 16777619) 2166136261 (str_bytes s)"

definition PickHashByServerType :: "MemberTable \<Rightarrow> u32 \<Rightarrow> string \<Rightarrow> NodeInfo option" where
  "PickHashByServerType m st key = (let items = items_of m st in
     if length items = 0 then None
     else if length items = 1 then Some (items ! 0)
     else Some (items ! unat (hashString key mod word_of_nat (length items))))"

definition ListNodeIDsByServerType :: "MemberTable \<Rightarrow> u32 \<Rightarrow> u32 list" where
  "ListNodeIDsByServerType m st = map NodeID (items_of m st)"

definition ListByServerType :: "MemberTable \<Rightarrow> u32 \<Rightarrow> NodeInfo list" where
  "ListByServerType m st = items_of m st"

definition PickAny :: "NodeInfo list \<Rightarrow> NodeInfo option" where
  "PickAny l = (if length l = 0 then None else Some (l ! 0))"

fun PickDirect :: "NodeInfo list \<Rightarrow> u32 \<Rightarrow> NodeInfo option" where
  "PickDirect [] nodeID = None"
| "PickDirect (info # l) nodeID = (if NodeID info = nodeID then Some info else PickDirect l nodeID)"

definition PickHash :: "NodeInfo list \<Rightarrow> string \<Rightarrow> NodeInfo option" where
  "PickHash l key =
     (if length l = 0 then None
      else if length l = 1 then Some (l ! 0)
      else Some (l ! unat (hashString key mod word_of_nat (length l))))"

definition PickBroadcast :: "NodeInfo list \<Rightarrow> NodeInfo list" where
  "PickBroadcast l = l"

section \<open>Sorted lists of nodes\<close>

definition ids_sorted :: "NodeInfo list \<Rightarrow> bool" where
  "ids_sorted xs \<longleftrightarrow> sorted_wrt (<) (map NodeID xs)"

lemma ids_sorted_simps [simp]:
  "ids_sorted []"
  "ids_sorted (x # xs) \<longleftrightarrow> (\<forall>y \<in> set xs. NodeID x < NodeID y) \<and> ids_sorted xs"
  by (auto simp: ids_sorted_def)

lemma ids_sorted_append:
  "ids_sorted (xs @ ys) \<longleftrightarrow>
     ids_sorted xs \<and> ids_sorted ys \<and> (\<forall>x \<in> set xs. \<forall>y \<in> set ys. NodeID x < NodeID y)"
  by (auto simp: ids_sorted_def sorted_wrt_append)

lemma ids_sorted_filter [simp]: "ids_sorted xs \<Longrightarrow> ids_sorted (filter P xs)"
  by (induction xs) auto

text \<open>The specification of the insertion: a strictly sorted list with the entry replaced.\<close>

fun insert_node :: "NodeInfo \<Rightarrow> NodeInfo list \<Rightarrow> NodeInfo list" where
  "insert_node info [] = [info]"
| "insert_node info (x # xs) =
     (if NodeID x < NodeID info then x # insert_node info xs
      else if NodeID x = NodeID info then info # xs
      else info # x # xs)"

lemma set_insert_node:
  "ids_sorted xs \<Longrightarrow> set (insert_node info xs) = insert info {x \<in> set xs. NodeID x \<noteq> NodeID info}"
  by (induction xs) (auto dest: less_imp_neq)

lemma ids_sorted_insert_node [simp]: "ids_sorted xs \<Longrightarrow> ids_sorted (insert_node info xs)"
  by (induction xs) (auto simp: set_insert_node)

lemma insert_node_append:
  "\<forall>x \<in> set xs. NodeID x < NodeID info \<Longrightarrow> insert_node info (xs @ ys) = xs @ insert_node info ys"
  by (induction xs) auto

lemma search_split:
  assumes "ids_sorted items" and idx: "idx = sort_Search (length items) (at_least items v)"
  shows "idx \<le> length items" and "\<forall>x \<in> set (take idx items). NodeID x < v"
    and "idx < length items \<Longrightarrow> v \<le> NodeID (items ! idx)"
proof -
  show le: "idx \<le> length items"
    using search_loop_bounds [of 0 "length items"] by (simp add: idx sort_Search_def)
  define f where "f i \<longleftrightarrow> length items \<le> i \<or> at_least items v i" for i
  have same: "search_loop (at_least items v) 0 (length items) = search_loop f 0 (length items)"
    by (rule search_loop_cong) (auto simp: f_def)
  have mono: "f b" if "a \<le> b" and "f a" for a b
  proof -
    consider "length items \<le> b" | "a = b" | "a < b" "b < length items"
      using \<open>a \<le> b\<close> le_neq_implies_less not_le by blast
    then show "f b"
    proof cases
      case 3
      then have "NodeID (items ! a) < NodeID (items ! b)"
        using assms(1) by (auto simp: ids_sorted_def sorted_wrt_iff_nth_less)
      with \<open>f a\<close> 3 show ?thesis by (auto simp: f_def at_least_def)
    qed (use \<open>f a\<close> in \<open>auto simp: f_def\<close>)
  qed
  have "(\<forall>k < idx. \<not> f k) \<and> (idx < length items \<longrightarrow> f idx)"
    using search_loop_first [of f 0 "length items" "length items"] mono
    by (simp add: idx sort_Search_def same)
  then show "\<forall>x \<in> set (take idx items). NodeID x < v" and "idx < length items \<Longrightarrow> v \<le> NodeID (items ! idx)"
    using le by (auto simp: f_def at_least_def in_set_conv_nth not_le)
qed

text \<open>The binary search with shifting computes the specification.\<close>

lemma upsert_items_eq: "ids_sorted items \<Longrightarrow> upsert_items info items = insert_node info items"
proof -
  assume s: "ids_sorted items"
  define idx where "idx = sort_Search (length items) (at_least items (NodeID info))"
  note p = search_split [OF s idx_def]
  have split: "insert_node info items = take idx items @ insert_node info (drop idx items)"
    using insert_node_append [OF p(2), of "drop idx items"] by simp
  show ?thesis
  proof (cases "idx < length items")
    case True
    then have d: "drop idx items = items ! idx # drop (Suc idx) items"
      by (simp add: Cons_nth_drop_Suc)
    with True p(3) show ?thesis
      by (auto simp: upsert_items_def idx_def [symmetric] Let_def split d upd_conv_take_nth_drop not_less)
  next
    case False
    with p(1) show ?thesis by (auto simp: upsert_items_def idx_def [symmetric] Let_def split)
  qed
qed

lemma ids_sorted_unique:
  "ids_sorted xs \<Longrightarrow> ids_sorted ys \<Longrightarrow> set xs = set ys \<Longrightarrow> xs = ys"
proof (induction xs arbitrary: ys)
  case (Cons x xs)
  then obtain y ys' where ys: "ys = y # ys'" by (cases ys) auto
  from Cons.prems ys have "x \<in> set (y # ys')" "y \<in> set (x # xs)" by auto
  with Cons.prems ys have xy: "x = y" by (metis ids_sorted_simps(2) less_asym set_ConsD)
  have "x \<notin> set xs" "y \<notin> set ys'" using Cons.prems ys by auto
  with Cons.prems ys xy have "set xs = set ys'" by auto
  with Cons ys xy show ?case by simp
qed simp

section \<open>The table invariant and its abstraction\<close>

text \<open>
  \<open>table_ok\<close>: every list is non-empty and strictly sorted, and every listed node is known by
  its node id. The abstraction reads a table as the map from server types to registered
  nodes.
\<close>

definition table_ok :: "MemberTable \<Rightarrow> bool" where
  "table_ok m \<longleftrightarrow> wf_map (byServerType m)
     \<and> (\<forall>(st, xs) \<in> set (byServerType m). xs \<noteq> [] \<and> ids_sorted xs)
     \<and> (\<forall>(st, xs) \<in> set (byServerType m). \<forall>x \<in> set xs. byNodeID m (NodeID x) \<noteq> None)"

definition registered :: "MemberTable \<Rightarrow> u32 \<Rightarrow> u32 \<rightharpoonup> NodeInfo" where
  "registered m st i = find (\<lambda>x. NodeID x = i) (items_of m st)"

lemma table_ok_items:
  assumes "table_ok m"
  shows "ids_sorted (items_of m st)" and "x \<in> set (items_of m st) \<Longrightarrow> byNodeID m (NodeID x) \<noteq> None"
proof -
  have "items_of m st = [] \<or> (st, items_of m st) \<in> set (byServerType m)"
    by (auto simp: items_of_def dest: map_of_SomeD split: option.splits)
  with assms show "ids_sorted (items_of m st)"
    and "x \<in> set (items_of m st) \<Longrightarrow> byNodeID m (NodeID x) \<noteq> None"
    by (auto simp: table_ok_def)
qed

lemma items_of_Upsert: "items_of (Upsert m info st) st' =
   (if st' = st then upsert_items info (items_of m st) else items_of m st')"
  by (simp add: items_of_def Upsert_def)

lemma mem_delete_items:
  "(st, ys) \<in> set (delete_items i m) \<longleftrightarrow>
     ys \<noteq> [] \<and> (\<exists>xs. (st, xs) \<in> set m \<and> ys = filter (\<lambda>it. NodeID it \<noteq> i) xs)"
  by (induction i m rule: delete_items.induct) (auto simp: Let_def)

lemma wf_map_delete_items: "wf_map m \<Longrightarrow> wf_map (delete_items i m)"
proof (induction i m rule: delete_items.induct)
  case (2 i st items m)
  then have "wf_map (delete_items i m)" "st \<notin> fst ` set m"
    by (cases "filter (\<lambda>it. NodeID it \<noteq> i) items = []"; simp add: wf_map_def mkeys_def)+
  moreover have "fst ` set (delete_items i m) \<subseteq> fst ` set m"
    by (force simp: mem_delete_items)
  ultimately show ?case by (auto simp: wf_map_def mkeys_def Let_def)
qed simp

lemma items_of_Delete:
  assumes "wf_map (byServerType m)"
  shows "items_of (MemberTable_Delete m i) st = filter (\<lambda>it. NodeID it \<noteq> i) (items_of m st)"
proof -
  let ?d = "delete_items i (byServerType m)"
  have wf: "wf_map ?d" using assms by (rule wf_map_delete_items)
  show ?thesis
  proof (cases "map_of ?d st")
    case None
    then have "\<And>ys. (st, ys) \<notin> set ?d" using wf by (simp add: wf_map_lookup)
    then have "map_of (byServerType m) st = Some xs \<Longrightarrow> filter (\<lambda>it. NodeID it \<noteq> i) xs = []" for xs
      using assms by (auto simp: mem_delete_items wf_map_lookup simp flip: wf_map_lookup)
    with None show ?thesis by (auto simp: items_of_def MemberTable_Delete_def split: option.splits)
  next
    case (Some ys)
    then obtain xs where "map_of (byServerType m) st = Some xs" "ys = filter (\<lambda>it. NodeID it \<noteq> i) xs"
      using wf assms by (auto simp: mem_delete_items simp flip: wf_map_lookup)
    with Some show ?thesis by (auto simp: items_of_def MemberTable_Delete_def split: option.splits)
  qed
qed

lemma table_ok_New [simp]: "table_ok NewMemberTable"
  by (simp add: table_ok_def NewMemberTable_def)

lemma table_ok_Upsert [simp]:
  assumes "table_ok m"
  shows "table_ok (Upsert m info st)"
proof -
  have s: "ids_sorted (items_of m st)" by (rule table_ok_items(1) [OF assms])
  have u: "upsert_items info (items_of m st) = insert_node info (items_of m st)"
    by (rule upsert_items_eq [OF s])
  have "insert_node info (items_of m st) \<noteq> []"
    by (cases "items_of m st") auto
  with assms u s show ?thesis
    by (auto simp: table_ok_def Upsert_def mput_def set_insert_node wf_map_def mkeys_def mdel_def
        distinct_map_filter dest: table_ok_items(2) [OF assms])
qed

lemma table_ok_Delete [simp]: "table_ok m \<Longrightarrow> table_ok (MemberTable_Delete m i)"
  by (fastforce simp: table_ok_def MemberTable_Delete_def wf_map_delete_items mem_delete_items)

lemma find_insert_node:
  "ids_sorted xs \<Longrightarrow> find (\<lambda>x. NodeID x = i) (insert_node info xs) =
     (if i = NodeID info then Some info else find (\<lambda>x. NodeID x = i) xs)"
  by (induction xs) (auto simp: find_None_iff)

lemma find_filter_node:
  "find (\<lambda>x. NodeID x = i) (filter (\<lambda>x. NodeID x \<noteq> j) xs) =
     (if i = j then None else find (\<lambda>x. NodeID x = i) xs)"
  by (induction xs) auto

lemma find_node_Some:
  "ids_sorted xs \<Longrightarrow> find (\<lambda>x. NodeID x = i) xs = Some x \<longleftrightarrow> x \<in> set xs \<and> NodeID x = i"
  by (induction xs) (auto dest: less_imp_neq)

text \<open>The list of a server type is determined by the abstraction.\<close>

lemma items_of_registered:
  assumes "table_ok m" "table_ok m'" "registered m st = registered m' st"
  shows "items_of m st = items_of m' st"
proof (rule ids_sorted_unique)
  show s: "ids_sorted (items_of m st)" "ids_sorted (items_of m' st)"
    by (rule table_ok_items(1) [OF assms(1)], rule table_ok_items(1) [OF assms(2)])
  have "x \<in> set (items_of m st) \<longleftrightarrow> x \<in> set (items_of m' st)" for x
    using find_node_Some [OF s(1), of "NodeID x" x] find_node_Some [OF s(2), of "NodeID x" x]
      fun_cong [OF assms(3), of "NodeID x"] by (simp add: registered_def)
  then show "set (items_of m st) = set (items_of m' st)" by blast
qed

lemma registered_Upsert:
  "table_ok m \<Longrightarrow> registered (Upsert m info st) st' =
     (if st' = st then (registered m st)(NodeID info \<mapsto> info) else registered m st')"
  using table_ok_items(1) [of m st]
  by (auto simp: registered_def fun_eq_iff items_of_Upsert upsert_items_eq find_insert_node)

lemma registered_Delete:
  "table_ok m \<Longrightarrow> registered (MemberTable_Delete m i) st = (registered m st)(i := None)"
  by (auto simp: registered_def fun_eq_iff table_ok_def items_of_Delete find_filter_node)

section \<open>Node selection as an interface\<close>

text \<open>
  A selection rule for one request: it picks a member of every non-empty list it can index.
  The laws of both routing modes of the resolver; the table lemmas are proved once.
\<close>

locale node_picker =
  fixes pick :: "NodeInfo list \<Rightarrow> NodeInfo option"
    and fits :: "NodeInfo list \<Rightarrow> bool"
  assumes pick_Nil: "pick [] = None"
    and pick_member: "xs \<noteq> [] \<Longrightarrow> fits xs \<Longrightarrow> \<exists>x \<in> set xs. pick xs = Some x"
begin

lemma pick_registered:
  assumes "table_ok m" and "fits (items_of m st)"
  shows "pick (items_of m st) = Some x \<Longrightarrow> registered m st (NodeID x) = Some x \<and> GetByNodeID m (NodeID x) \<noteq> None"
    and "pick (items_of m st) = None \<longleftrightarrow> registered m st = Map.empty"
proof -
  note s = table_ok_items(1) [OF assms(1), of st]
  have mem: "pick (items_of m st) = Some y \<Longrightarrow> y \<in> set (items_of m st)" for y
    using assms(2) pick_Nil pick_member [of "items_of m st"] by (cases "items_of m st = []") auto
  then show "pick (items_of m st) = Some x \<Longrightarrow>
      registered m st (NodeID x) = Some x \<and> GetByNodeID m (NodeID x) \<noteq> None"
    using find_node_Some [OF s] table_ok_items(2) [OF assms(1)]
    by (simp add: registered_def GetByNodeID_def)
  show "pick (items_of m st) = None \<longleftrightarrow> registered m st = Map.empty"
  proof (cases "items_of m st")
    case Nil
    then show ?thesis by (simp add: pick_Nil registered_def fun_eq_iff)
  next
    case (Cons y ys)
    then have "registered m st (NodeID y) = Some y" by (simp add: registered_def)
    moreover have "pick (items_of m st) \<noteq> None"
      using pick_member [of "items_of m st"] assms(2) Cons by auto
    ultimately show ?thesis by auto
  qed
qed

lemma pick_canonical:
  assumes "table_ok m" "table_ok m'" "registered m st = registered m' st"
  shows "pick (items_of m st) = pick (items_of m' st)"
  using items_of_registered [OF assms] by simp

end

lemma hash_index_less:
  assumes "0 < n" and "n < 2 ^ 32"
  shows "unat (h mod word_of_nat n :: u32) < n"
proof -
  have "unat (word_of_nat n :: u32) = n" using assms by (simp add: unat_of_nat)
  with assms show ?thesis by (simp add: unat_mod_distrib)
qed

interpretation any: node_picker PickAny "\<lambda>_. True"
  by unfold_locales (auto simp: PickAny_def)

interpretation hash: node_picker "\<lambda>l. PickHash l key" "\<lambda>l. length l < 2 ^ 32" for key
proof unfold_locales
  fix xs :: "NodeInfo list"
  assume "xs \<noteq> []" and "length xs < 2 ^ 32"
  then show "\<exists>x \<in> set xs. PickHash xs key = Some x"
    using hash_index_less [of "length xs" "hashString key"] by (auto simp: PickHash_def)
qed (simp add: PickHash_def)

text \<open>The selections of the table are the resolver's on the list of the server type.\<close>

lemma table_picks [simp]:
  "PickAnyByServerType m st = PickAny (items_of m st)"
  "PickHashByServerType m st key = PickHash (items_of m st) key"
  by (simp_all add: PickAnyByServerType_def PickAny_def PickHashByServerType_def PickHash_def Let_def)

section \<open>Event histories\<close>

text \<open>
  The table of an agent is the result of the registry's put and delete events, applied one
  after the other by the callbacks that \<^verbatim>\<open>Runtime.AfterInit\<close> gives to \<^verbatim>\<open>Registry.Discover\<close>.
\<close>

datatype member_event = PutNodeEvent NodeInfo u32 | DeleteNodeEvent u32

fun on_member_event :: "MemberTable \<Rightarrow> member_event \<Rightarrow> MemberTable" where
  "on_member_event m (PutNodeEvent info st) = Upsert m info st"
| "on_member_event m (DeleteNodeEvent i) = MemberTable_Delete m i"

fun reg_event :: "(u32 \<Rightarrow> u32 \<rightharpoonup> NodeInfo) \<Rightarrow> member_event \<Rightarrow> (u32 \<Rightarrow> u32 \<rightharpoonup> NodeInfo)" where
  "reg_event r (PutNodeEvent info st) = r(st := (r st)(NodeID info \<mapsto> info))"
| "reg_event r (DeleteNodeEvent i) = (\<lambda>st. (r st)(i := None))"

definition table_after :: "member_event list \<Rightarrow> MemberTable" where
  "table_after evs = foldl on_member_event NewMemberTable evs"

definition registered_after :: "member_event list \<Rightarrow> u32 \<Rightarrow> u32 \<rightharpoonup> NodeInfo" where
  "registered_after evs = foldl reg_event (\<lambda>_. Map.empty) evs"

lemma table_after_ok: "table_ok (table_after evs)"
proof -
  have "table_ok m \<Longrightarrow> table_ok (foldl on_member_event m evs)" for m
  proof (induction evs arbitrary: m)
    case (Cons e evs) then show ?case by (cases e) auto
  qed simp
  then show ?thesis by (simp add: table_after_def)
qed

lemma registered_table_after: "registered (table_after evs) = registered_after evs"
proof -
  have "table_ok m \<Longrightarrow> registered (foldl on_member_event m evs) = foldl reg_event (registered m) evs" for m
  proof (induction evs arbitrary: m)
    case (Cons e evs)
    then have "registered (on_member_event m e) = reg_event (registered m) e"
      by (cases e) (auto simp: registered_Upsert registered_Delete)
    moreover have "table_ok (on_member_event m e)" using Cons.prems by (cases e) auto
    ultimately show ?case using Cons.IH by simp
  qed simp
  moreover have "registered NewMemberTable = (\<lambda>_. Map.empty)"
    by (simp add: fun_eq_iff registered_def NewMemberTable_def items_of_def)
  ultimately show ?thesis by (simp add: table_after_def registered_after_def)
qed

text \<open>C33: The member table, maintained by binary search and shifting, refines a map of
  registrations: after every history of put and delete events each per-type list is strictly
  sorted by node id, holds exactly the nodes registered for that type with their latest
  data, and every listed node is found by its node id.\<close>

theorem member_table_refines:
  "ids_sorted (ListByServerType (table_after evs) st)
   \<and> set (ListByServerType (table_after evs) st) = ran (registered_after evs st)
   \<and> ListNodeIDsByServerType (table_after evs) st = map NodeID (ListByServerType (table_after evs) st)
   \<and> (\<forall>i. registered_after evs st i \<noteq> None \<longrightarrow> GetByNodeID (table_after evs) i \<noteq> None)"
proof -
  note ok = table_after_ok [of evs] and s = table_ok_items(1) [OF table_after_ok, of evs st]
  have mem: "registered_after evs st i = Some x \<longleftrightarrow> x \<in> set (items_of (table_after evs) st) \<and> NodeID x = i" for i x
    using find_node_Some [OF s, of i x] by (simp add: registered_table_after [symmetric] registered_def)
  then have "set (items_of (table_after evs) st) = ran (registered_after evs st)"
    by (auto simp: ran_def)
  moreover have "\<forall>i. registered_after evs st i \<noteq> None \<longrightarrow> GetByNodeID (table_after evs) i \<noteq> None"
    unfolding GetByNodeID_def
  proof (intro allI impI)
    fix i
    assume "registered_after evs st i \<noteq> None"
    then obtain x where "x \<in> set (items_of (table_after evs) st)" "NodeID x = i"
      using mem by blast
    with table_ok_items(2) [OF ok, of x st] show "byNodeID (table_after evs) i \<noteq> None" by simp
  qed
  ultimately show ?thesis
    using s by (simp add: ListByServerType_def ListNodeIDsByServerType_def)
qed

theorem member_table_refines_witness:
  "let a = \<lparr>NodeID = 7, RAAddr = ''ra1'', StartAt = 1\<rparr>; b = \<lparr>NodeID = 3, RAAddr = ''ra2'', StartAt = 2\<rparr>;
       evs = [PutNodeEvent a 2, PutNodeEvent b 2, PutNodeEvent a 4, DeleteNodeEvent 7]
   in registered_after evs 2 3 \<noteq> None \<and> GetByNodeID (table_after evs) 3 \<noteq> None"
proof -
  let ?a = "\<lparr>NodeID = 7, RAAddr = ''ra1'', StartAt = 1\<rparr>"
  let ?b = "\<lparr>NodeID = 3, RAAddr = ''ra2'', StartAt = 2\<rparr>"
  let ?evs = "[PutNodeEvent ?a 2, PutNodeEvent ?b 2, PutNodeEvent ?a 4, DeleteNodeEvent 7]"
  have "registered_after ?evs 2 3 \<noteq> None" by (simp add: registered_after_def)
  with member_table_refines [of ?evs 2] show ?thesis unfolding Let_def by blast
qed

text \<open>Node selection does not depend on the order of the registry events: two agents
  whose histories leave the same nodes registered for a server type select the same node in
  the any mode and, for every routing key, in the hash mode, and broadcast to the same list.\<close>

theorem routing_order_independent:
  assumes "registered_after evs st = registered_after evs' st"
  shows "PickAnyByServerType (table_after evs) st = PickAnyByServerType (table_after evs') st
    \<and> PickHashByServerType (table_after evs) st key = PickHashByServerType (table_after evs') st key
    \<and> ListNodeIDsByServerType (table_after evs) st = ListNodeIDsByServerType (table_after evs') st"
proof -
  have r: "registered (table_after evs) st = registered (table_after evs') st"
    using assms by (simp add: registered_table_after)
  show ?thesis
    using any.pick_canonical [OF table_after_ok table_after_ok r]
      hash.pick_canonical [OF table_after_ok table_after_ok r, of key]
      items_of_registered [OF table_after_ok table_after_ok r]
    by (simp add: ListNodeIDsByServerType_def)
qed

theorem routing_order_independent_witness:
  "let a = \<lparr>NodeID = 7, RAAddr = ''ra1'', StartAt = 1\<rparr>; b = \<lparr>NodeID = 3, RAAddr = ''ra2'', StartAt = 2\<rparr> in
   PickHashByServerType (table_after [PutNodeEvent a 2, PutNodeEvent b 2]) 2 ''uid:42''
     = PickHashByServerType (table_after [PutNodeEvent b 2, PutNodeEvent a 2]) 2 ''uid:42''"
proof -
  let ?a = "\<lparr>NodeID = 7, RAAddr = ''ra1'', StartAt = 1\<rparr>"
  let ?b = "\<lparr>NodeID = 3, RAAddr = ''ra2'', StartAt = 2\<rparr>"
  have "registered_after [PutNodeEvent ?a 2, PutNodeEvent ?b 2] 2
      = registered_after [PutNodeEvent ?b 2, PutNodeEvent ?a 2] 2"
    by (simp add: registered_after_def fun_eq_iff)
  from routing_order_independent [OF this, of "''uid:42''"] show ?thesis unfolding Let_def by blast
qed

text \<open>Hash routing is total and in range: with fewer than \<open>2\<^sup>3\<^sup>2\<close> nodes of a type the
  selection fails only when no node is registered, and the selected node is a registered one
  whose address lookup succeeds.\<close>

theorem hash_routing_total:
  assumes "length (ListByServerType (table_after evs) st) < 2 ^ 32"
  shows "(PickHashByServerType (table_after evs) st key = None \<longleftrightarrow> registered_after evs st = Map.empty)
    \<and> (\<forall>x. PickHashByServerType (table_after evs) st key = Some x \<longrightarrow>
         registered_after evs st (NodeID x) = Some x \<and> GetByNodeID (table_after evs) (NodeID x) \<noteq> None)"
proof -
  have len: "length (items_of (table_after evs) st) < 2 ^ 32"
    using assms by (simp add: ListByServerType_def)
  note pr = hash.pick_registered [OF table_after_ok len, of key]
  from pr(2) pr(1) show ?thesis by (simp add: registered_table_after)
qed

theorem hash_routing_total_witness:
  "PickHashByServerType (table_after [PutNodeEvent \<lparr>NodeID = 9, RAAddr = ''ra1'', StartAt = 1\<rparr> 2]) 2 ''k'' \<noteq> None"
proof -
  let ?evs = "[PutNodeEvent \<lparr>NodeID = 9, RAAddr = ''ra1'', StartAt = 1\<rparr> 2]"
  have items: "ListByServerType (table_after ?evs) 2 = [\<lparr>NodeID = 9, RAAddr = ''ra1'', StartAt = 1\<rparr>]"
    by (simp add: ListByServerType_def table_after_def items_of_Upsert upsert_items_eq)
       (simp add: items_of_def NewMemberTable_def upsert_items_eq)
  then have "length (ListByServerType (table_after ?evs) 2) < 2 ^ 32" by simp
  from hash_routing_total [OF this, of "''k''"] show ?thesis
    by (simp add: registered_after_def fun_eq_iff)
qed

end
