(* ===== verification/Event_Loop.thy ===== *)
theory Event_Loop
  imports Go_Prelude
begin

text \<open>
  The task queue of the main loops (\<^verbatim>\<open>pkg/taskqueue\<close>) and the event bus (\<^verbatim>\<open>pkg/event\<close>). The queue is
  a bounded channel between producer goroutines and one consumer; its producers are modelled
  with their position inside \<^verbatim>\<open>Post\<close>, and all interleavings are runs of a step relation.
\<close>

section \<open>Task queue\<close>

definition defaultSize :: nat where "defaultSize = 256"

text \<open>
  A producer is before the first \<^verbatim>\<open>select\<close> of \<^verbatim>\<open>Post\<close>, has found the channel full, or waits in the
  blocking send. \<open>q_recv\<close> are the tasks the consumer has taken, in order.
\<close>

datatype 'a producer = Posting 'a | FoundFull 'a | Blocked 'a

fun task_of :: "'a producer \<Rightarrow> 'a" where
  "task_of (Posting a) = a"
| "task_of (FoundFull a) = a"
| "task_of (Blocked a) = a"

record 'a Queue =
  q_ch :: "'a list"
  q_cap :: nat
  q_lastFullLog :: int
  q_fullHits :: u64
  q_posting :: "nat \<rightharpoonup> 'a producer"
  q_todo :: "nat \<Rightarrow> 'a list"
  q_sent :: "(nat \<times> 'a) list"
  q_recv :: "'a list"

definition NewQueue :: "int \<Rightarrow> (nat \<Rightarrow> 'a list) \<Rightarrow> 'a Queue" where
  "NewQueue sz todo = \<lparr>q_ch = [], q_cap = (if sz \<le> 0 then defaultSize else nat sz), q_lastFullLog = 0, q_fullHits = 0,
     q_posting = Map.empty, q_todo = todo, q_sent = [], q_recv = []\<rparr>"

text \<open>The non-blocking part of \<^verbatim>\<open>Post\<close>: the first case of the \<^verbatim>\<open>select\<close>, or the bookkeeping of its default.\<close>

definition send_task :: "'a Queue \<Rightarrow> nat \<Rightarrow> 'a \<Rightarrow> 'a Queue" where
  "send_task q g a = q\<lparr>q_ch := q_ch q @ [a], q_posting := (q_posting q)(g := None), q_sent := q_sent q @ [(g, a)]\<rparr>"

definition note_full :: "'a Queue \<Rightarrow> nat \<Rightarrow> 'a \<Rightarrow> int \<Rightarrow> 'a Queue" where
  "note_full q g a now =
     q\<lparr>q_lastFullLog := (if 10 ^ 9 < wrap_s64 (now - q_lastFullLog q) then now else q_lastFullLog q),
       q_fullHits := q_fullHits q + 1, q_posting := (q_posting q)(g \<mapsto> Blocked a)\<rparr>"

text \<open>
  One step: a producer calls \<^verbatim>\<open>Post\<close> with its next task, sends, finds the channel full, notes this,
  or is released from the blocking send; the main loop takes a task.
\<close>

inductive queue_step :: "'a Queue \<Rightarrow> 'a Queue \<Rightarrow> bool" where
  call: "q_posting q g = None \<Longrightarrow> q_todo q g = a # as \<Longrightarrow>
    queue_step q (q\<lparr>q_posting := (q_posting q)(g \<mapsto> Posting a), q_todo := (q_todo q)(g := as)\<rparr>)"
| fast: "q_posting q g = Some (Posting a) \<Longrightarrow> length (q_ch q) < q_cap q \<Longrightarrow> queue_step q (send_task q g a)"
| full: "q_posting q g = Some (Posting a) \<Longrightarrow> \<not> length (q_ch q) < q_cap q \<Longrightarrow>
    queue_step q (q\<lparr>q_posting := (q_posting q)(g \<mapsto> FoundFull a)\<rparr>)"
| noted: "q_posting q g = Some (FoundFull a) \<Longrightarrow> queue_step q (note_full q g a now)"
| released: "q_posting q g = Some (Blocked a) \<Longrightarrow> length (q_ch q) < q_cap q \<Longrightarrow> queue_step q (send_task q g a)"
| recv: "q_ch q = a # as \<Longrightarrow> queue_step q (q\<lparr>q_ch := as, q_recv := q_recv q @ [a]\<rparr>)"

text \<open>\<^verbatim>\<open>Flush\<close>: the loop that runs tasks until the channel is empty; \<open>run\<close> is the effect of a task, which may post.\<close>

fun Flush :: "nat \<Rightarrow> ('a \<Rightarrow> 'a list) \<Rightarrow> 'a list \<Rightarrow> 'a list \<times> 'a list" where
  "Flush 0 posts ch = ([], ch)"
| "Flush (Suc fuel) posts [] = ([], [])"
| "Flush (Suc fuel) posts (a # as) = (case Flush fuel posts (as @ posts a) of (as1, rest) \<Rightarrow> (a # as1, rest))"

definition Queue_Len :: "'a Queue \<Rightarrow> nat" where "Queue_Len q = length (q_ch q)"
definition Queue_Cap :: "'a Queue \<Rightarrow> nat" where "Queue_Cap q = q_cap q"

inductive_cases queue_stepE: "queue_step q q'"

text \<open>Reachable states.\<close>

inductive reach :: "'a Queue \<Rightarrow> 'a Queue \<Rightarrow> bool" for q0 where
  start: "reach q0 q0"
| step: "reach q0 q \<Longrightarrow> queue_step q q' \<Longrightarrow> reach q0 q'"

section \<open>Nothing is lost, duplicated or reordered\<close>

definition of_producer :: "nat \<Rightarrow> (nat \<times> 'a) list \<Rightarrow> 'a list" where
  "of_producer g l = map snd (filter (\<lambda>p. fst p = g) l)"

definition in_post :: "'a Queue \<Rightarrow> nat \<Rightarrow> 'a list" where
  "in_post q g = (case q_posting q g of None \<Rightarrow> [] | Some p \<Rightarrow> [task_of p])"

definition queue_ok :: "(nat \<Rightarrow> 'a list) \<Rightarrow> nat \<Rightarrow> 'a Queue \<Rightarrow> bool" where
  "queue_ok todo c q \<longleftrightarrow> map snd (q_sent q) = q_recv q @ q_ch q \<and> length (q_ch q) \<le> q_cap q \<and> q_cap q = c \<and>
     (\<forall>g. of_producer g (q_sent q) @ in_post q g @ q_todo q g = todo g)"

lemma producer_step:
  "queue_step q q' \<Longrightarrow> of_producer h (q_sent q') @ in_post q' h @ q_todo q' h = of_producer h (q_sent q) @ in_post q h @ q_todo q h"
  by (induction rule: queue_step.induct)
    (simp_all add: send_task_def note_full_def of_producer_def in_post_def)

lemma queue_ok_step: "queue_step q q' \<Longrightarrow> queue_ok todo c q \<Longrightarrow> queue_ok todo c q'"
proof -
  assume st: "queue_step q q'" and ok: "queue_ok todo c q"
  from st ok have "map snd (q_sent q') = q_recv q' @ q_ch q' \<and> length (q_ch q') \<le> q_cap q' \<and> q_cap q' = c"
    by (induction rule: queue_step.induct) (simp_all add: queue_ok_def send_task_def note_full_def)
  with ok producer_step [OF st] show ?thesis by (simp add: queue_ok_def)
qed

lemma queue_ok_reach: "reach q0 q \<Longrightarrow> queue_ok todo c q0 \<Longrightarrow> queue_ok todo c q"
  by (induction rule: reach.induct) (auto intro: queue_ok_step)


text \<open>Every step makes progress: the work left in the producers and in the channel decreases.\<close>

fun phase_weight :: "'a producer option \<Rightarrow> nat" where
  "phase_weight None = 0"
| "phase_weight (Some (Posting a)) = 4"
| "phase_weight (Some (FoundFull a)) = 3"
| "phase_weight (Some (Blocked a)) = 2"

definition work :: "nat set \<Rightarrow> 'a Queue \<Rightarrow> nat" where
  "work G q = (\<Sum>g\<in>G. 5 * length (q_todo q g) + phase_weight (q_posting q g)) + length (q_ch q)"

definition idle_outside :: "nat set \<Rightarrow> 'a Queue \<Rightarrow> bool" where
  "idle_outside G q \<longleftrightarrow> (\<forall>g. g \<notin> G \<longrightarrow> q_todo q g = [] \<and> q_posting q g = None)"

lemma sum_at:
  assumes "finite G" and "g \<in> G" and "\<And>h. h \<noteq> g \<Longrightarrow> f' h = f h"
  shows "(\<Sum>h\<in>G. f' h) + f g = (\<Sum>h\<in>G. f h) + (f' g :: nat)"
proof -
  have "(\<Sum>h\<in>G - {g}. f' h) = (\<Sum>h\<in>G - {g}. f h)" by (rule sum.cong) (use assms(3) in auto)
  then show ?thesis using assms(1,2) by (simp add: sum.remove)
qed

lemma work_decreases:
  assumes "queue_step q q'" and "finite G" and "idle_outside G q"
  shows "work G q' < work G q \<and> idle_outside G q'"
  using assms
proof (induction rule: queue_step.induct)
  case (call q g a as)
  then have g: "g \<in> G" by (force simp: idle_outside_def)
  let ?q = "q\<lparr>q_posting := (q_posting q)(g \<mapsto> Posting a), q_todo := (q_todo q)(g := as)\<rparr>"
  from sum_at [OF call.prems(1) g, of "\<lambda>h. 5 * length (q_todo ?q h) + phase_weight (q_posting ?q h)" "\<lambda>h. 5 * length (q_todo q h) + phase_weight (q_posting q h)"]
  show ?case using call g by (auto simp: work_def idle_outside_def)
next
  case (fast q g a)
  then have g: "g \<in> G" by (force simp: idle_outside_def)
  from sum_at [OF fast.prems(1) g, of "\<lambda>h. 5 * length (q_todo (send_task q g a) h) + phase_weight (q_posting (send_task q g a) h)"
      "\<lambda>h. 5 * length (q_todo q h) + phase_weight (q_posting q h)"]
  show ?case using fast g by (auto simp: work_def idle_outside_def send_task_def)
next
  case (full q g a)
  then have g: "g \<in> G" by (force simp: idle_outside_def)
  let ?q = "q\<lparr>q_posting := (q_posting q)(g \<mapsto> FoundFull a)\<rparr>"
  from sum_at [OF full.prems(1) g, of "\<lambda>h. 5 * length (q_todo ?q h) + phase_weight (q_posting ?q h)" "\<lambda>h. 5 * length (q_todo q h) + phase_weight (q_posting q h)"]
  show ?case using full g by (auto simp: work_def idle_outside_def)
next
  case (noted q g a now)
  then have g: "g \<in> G" by (force simp: idle_outside_def)
  from sum_at [OF noted.prems(1) g, of "\<lambda>h. 5 * length (q_todo (note_full q g a now) h) + phase_weight (q_posting (note_full q g a now) h)"
      "\<lambda>h. 5 * length (q_todo q h) + phase_weight (q_posting q h)"]
  show ?case using noted g by (auto simp: work_def idle_outside_def note_full_def)
next
  case (released q g a)
  then have g: "g \<in> G" by (force simp: idle_outside_def)
  from sum_at [OF released.prems(1) g, of "\<lambda>h. 5 * length (q_todo (send_task q g a) h) + phase_weight (q_posting (send_task q g a) h)"
      "\<lambda>h. 5 * length (q_todo q h) + phase_weight (q_posting q h)"]
  show ?case using released g by (auto simp: work_def idle_outside_def send_task_def)
next
  case (recv q a as)
  then show ?case by (simp add: work_def idle_outside_def)
qed

lemma idle_reach: "reach q0 q \<Longrightarrow> finite G \<Longrightarrow> idle_outside G q0 \<Longrightarrow> idle_outside G q"
  by (induction rule: reach.induct) (auto dest: work_decreases)

text \<open>Only a state in which all work is done has no next step.\<close>

lemma stuck_done:
  assumes "queue_ok todo c q" and "0 < c" and "\<nexists>q'. queue_step q q'"
  shows "q_ch q = [] \<and> (\<forall>g. q_posting q g = None \<and> q_todo q g = [])"
proof -
  have ch: "q_ch q = []"
  proof (rule ccontr)
    assume "q_ch q \<noteq> []"
    then obtain a as where "q_ch q = a # as" by (cases "q_ch q") auto
    from queue_step.recv [OF this] assms(3) show False by blast
  qed
  then have room: "length (q_ch q) < q_cap q" using assms(1,2) by (simp add: queue_ok_def)
  have p: "q_posting q g = None" for g
  proof (rule ccontr)
    assume "q_posting q g \<noteq> None"
    then obtain pr where pr: "q_posting q g = Some pr" by blast
    show False
    proof (cases pr)
      case (Posting a)
      from queue_step.fast [OF pr [unfolded this] room] assms(3) show ?thesis by blast
    next
      case (FoundFull a)
      from queue_step.noted [OF pr [unfolded this]] assms(3) show ?thesis by blast
    next
      case (Blocked a)
      from queue_step.released [OF pr [unfolded this] room] assms(3) show ?thesis by blast
    qed
  qed
  have "q_todo q g = []" for g
  proof (rule ccontr)
    assume "q_todo q g \<noteq> []"
    then obtain a as where "q_todo q g = a # as" by (cases "q_todo q g") auto
    from queue_step.call [OF p this] assms(3) show False by blast
  qed
  with ch p show ?thesis by blast
qed

text \<open>C24: The task queue loses nothing and stops. Whatever the capacity and the interleaving, with finitely
  many tasks to post every run of producers and main loop ends, and when it has ended the main
  loop has run every task exactly once, the tasks of each producer in the order in which it
  posted them. At every moment the channel is within its capacity and what has been run is
  exactly what left the channel.\<close>

theorem taskqueue_delivers:
  assumes "finite {g. todo g \<noteq> []}"
  shows "wfP (\<lambda>q' q. reach (NewQueue sz todo) q \<and> queue_step q q')
    \<and> (\<forall>q. reach (NewQueue sz todo) q \<longrightarrow> length (q_ch q) \<le> q_cap q \<and> map snd (q_sent q) = q_recv q @ q_ch q
        \<and> ((\<nexists>q'. queue_step q q') \<longrightarrow> map snd (q_sent q) = q_recv q \<and> (\<forall>g. of_producer g (q_sent q) = todo g)))"
proof -
  let ?G = "{g. todo g \<noteq> []}" and ?q0 = "NewQueue sz todo"
  define c where "c = q_cap ?q0"
  have c: "0 < c" by (simp add: c_def NewQueue_def defaultSize_def)
  have ok0: "queue_ok todo c ?q0" by (simp add: c_def NewQueue_def queue_ok_def of_producer_def in_post_def)
  have idle0: "idle_outside ?G ?q0" by (simp add: idle_outside_def NewQueue_def)
  have "wfP (\<lambda>q' q. reach ?q0 q \<and> queue_step q q')"
  proof (rule wfp_if_convertible_to_nat [where f = "work ?G"])
    fix q' q assume "reach ?q0 q \<and> queue_step q q'"
    then show "work ?G q' < work ?G q" using work_decreases [OF _ assms] idle_reach [OF _ assms idle0] by blast
  qed
  moreover have "length (q_ch q) \<le> q_cap q \<and> map snd (q_sent q) = q_recv q @ q_ch q
        \<and> ((\<nexists>q'. queue_step q q') \<longrightarrow> map snd (q_sent q) = q_recv q \<and> (\<forall>g. of_producer g (q_sent q) = todo g))" if "reach ?q0 q" for q
  proof -
    have ok: "queue_ok todo c q" by (rule queue_ok_reach [OF that ok0])
    moreover have "map snd (q_sent q) = q_recv q \<and> (\<forall>g. of_producer g (q_sent q) = todo g)" if stuck: "\<nexists>q'. queue_step q q'"
    proof -
      from stuck_done [OF ok c stuck] have d: "q_ch q = []" "\<And>g. in_post q g = [] \<and> q_todo q g = []" by (simp_all add: in_post_def)
      with ok show ?thesis by (simp add: queue_ok_def)
    qed
    ultimately show ?thesis by (simp add: queue_ok_def)
  qed
  ultimately show ?thesis by blast
qed

theorem taskqueue_delivers_witness:
  "wfP (\<lambda>q' q. reach (NewQueue 1 (\<lambda>g. if g < 2 then ''ab'' else [])) q \<and> queue_step q q')"
  using taskqueue_delivers [of "\<lambda>g. if g < 2 then ''ab'' else []" 1] by simp

text \<open>Emptying the channel runs the tasks in order and ends when the tasks that are posted meanwhile do.\<close>

lemma Flush_in_order: "length ch < fuel \<Longrightarrow> \<forall>a \<in> set ch. posts a = [] \<Longrightarrow> Flush fuel posts ch = (ch, [])"
  by (induction fuel posts ch rule: Flush.induct) auto

section \<open>Event bus\<close>

text \<open>A handler acts on a state and may panic (\<open>True\<close>) after some of its effects.\<close>

type_synonym ('s, 'e) event_handler = "'s \<Rightarrow> 'e \<Rightarrow> 's \<times> bool"

record ('s, 'e) Bus =
  eb_nextID :: u64
  eb_handlers :: "(u64, ('s, 'e) event_handler) gomap"

definition NewBus :: "('s, 'e) Bus" where
  "NewBus = \<lparr>eb_nextID = 0, eb_handlers = []\<rparr>"

definition Subscribe :: "('s, 'e) Bus \<Rightarrow> ('s, 'e) event_handler \<Rightarrow> ('s, 'e) Bus \<times> u64" where
  "Subscribe b fn = (let i = eb_nextID b + 1 in (b\<lparr>eb_nextID := i, eb_handlers := mput i fn (eb_handlers b)\<rparr>, i))"

definition Unsubscribe :: "('s, 'e) Bus \<Rightarrow> u64 \<Rightarrow> ('s, 'e) Bus" where
  "Unsubscribe b token = b\<lparr>eb_handlers := mdel token (eb_handlers b)\<rparr>"

definition safePublish :: "('s, 'e) event_handler \<Rightarrow> 's \<Rightarrow> 'e \<Rightarrow> 's" where
  "safePublish fn s ev = (case fn s ev of (s1, panicked) \<Rightarrow> s1)"

definition Publish :: "('s, 'e) Bus \<Rightarrow> 's \<Rightarrow> 'e \<Rightarrow> 's" where
  "Publish b s ev = foldl (\<lambda>s fn. safePublish fn s ev) s (map snd (eb_handlers b))"

definition Bus_Len :: "('s, 'e) Bus \<Rightarrow> nat" where
  "Bus_Len b = length (eb_handlers b)"

text \<open>Every subscriber sees the event exactly once, whichever of them panic: here each one notes its token.\<close>

definition noting :: "u64 \<Rightarrow> bool \<Rightarrow> (u64 list, 'e) event_handler" where
  "noting t panics s ev = (s @ [t], panics)"

lemma publish_reaches_all:
  assumes "\<forall>p \<in> set (eb_handlers b). \<exists>panics. snd p = noting (fst p) panics"
  shows "Publish b s ev = s @ mkeys (eb_handlers b)"
proof -
  have "foldl (\<lambda>s fn. safePublish fn s ev) s (map snd hs) = s @ map fst hs" if "\<forall>p \<in> set hs. \<exists>panics. snd p = noting (fst p) panics" for hs
    using that by (induction hs arbitrary: s) (auto simp: safePublish_def noting_def)
  with assms show ?thesis by (simp add: Publish_def mkeys_def)
qed

lemma subscribed_until_unsubscribed:
  assumes "Subscribe b fn = (b1, t)"
  shows "map_of (eb_handlers b1) t = Some fn" and "map_of (eb_handlers (Unsubscribe b1 t)) t = None"
  using assms by (auto simp: Subscribe_def Unsubscribe_def Let_def)

end
