(* ===== verification/Seq_Tables.thy ===== *)
theory Seq_Tables
  imports Go_Strconv
begin

text \<open>
  The correlation tables of the RouterAgent: \<^verbatim>\<open>remote_seq.go\<close> (which local connection waits
  for a sequence number sent to another agent), \<^verbatim>\<open>incoming_peer_seq.go\<close> (from which peer a
  request came in) and \<^verbatim>\<open>broadcast.go\<close> (collectors of broadcast acknowledgements and their
  wire format). The contract of an allocate-and-pop table is the locale \<open>seq_table\<close>.
\<close>

section \<open>Contract of a correlation table\<close>

text \<open>
  \<open>alloc\<close> stores a value under a new key, \<open>pop\<close> removes and returns it; \<open>view\<close> is the content,
  \<open>ok\<close> the invariant and \<open>room\<close> says that the key counter has not run out.
\<close>

datatype ('k, 'v) table_op = AllocOp 'v | PopOp 'k | DropOp "'v \<Rightarrow> bool"

locale seq_table =
  fixes alloc :: "'s \<Rightarrow> 'v \<Rightarrow> 's \<times> 'k"
    and pop :: "'s \<Rightarrow> 'k \<Rightarrow> 's \<times> 'v option"
    and drop_if :: "'s \<Rightarrow> ('v \<Rightarrow> bool) \<Rightarrow> 's"
    and view :: "'s \<Rightarrow> 'k \<rightharpoonup> 'v"
    and ok :: "'s \<Rightarrow> bool"
    and room :: "'s \<Rightarrow> nat"
  assumes alloc_fresh: "ok s \<Longrightarrow> 0 < room s \<Longrightarrow> view s (snd (alloc s v)) = None"
    and alloc_view: "ok s \<Longrightarrow> 0 < room s \<Longrightarrow> view (fst (alloc s v)) = (view s)(snd (alloc s v) \<mapsto> v)"
    and alloc_ok: "ok s \<Longrightarrow> 0 < room s \<Longrightarrow> ok (fst (alloc s v)) \<and> room s \<le> Suc (room (fst (alloc s v)))"
    and pop_result: "ok s \<Longrightarrow> snd (pop s k) = view s k"
    and pop_view: "ok s \<Longrightarrow> view (fst (pop s k)) = (view s)(k := None)"
    and pop_ok: "ok s \<Longrightarrow> ok (fst (pop s k)) \<and> room (fst (pop s k)) = room s"
    and drop_view: "ok s \<Longrightarrow> view (drop_if s P) k =
      (case view s k of None \<Rightarrow> None | Some v \<Rightarrow> if P v then None else Some v)"
    and drop_ok: "ok s \<Longrightarrow> ok (drop_if s P) \<and> room (drop_if s P) = room s"
begin

fun run :: "'s \<Rightarrow> ('k, 'v) table_op \<Rightarrow> 's" where
  "run s (AllocOp v) = fst (alloc s v)"
| "run s (PopOp k) = fst (pop s k)"
| "run s (DropOp P) = drop_if s P"

text \<open>Operations that do not take the entry \<open>(k, v)\<close> away.\<close>

fun spares :: "'k \<Rightarrow> 'v \<Rightarrow> ('k, 'v) table_op \<Rightarrow> bool" where
  "spares k v (AllocOp w) = True"
| "spares k v (PopOp j) = (j \<noteq> k)"
| "spares k v (DropOp P) = (\<not> P v)"

lemma run_keeps:
  "ok s \<Longrightarrow> length ops \<le> room s \<Longrightarrow> view s k = Some v \<Longrightarrow> list_all (spares k v) ops \<Longrightarrow>
   ok (foldl run s ops) \<and> view (foldl run s ops) k = Some v"
proof (induction ops arbitrary: s)
  case (Cons op ops)
  have "ok (run s op) \<and> length ops \<le> room (run s op) \<and> view (run s op) k = Some v"
  proof (cases op)
    case (AllocOp w)
    have "0 < room s" using Cons.prems by simp
    note al = alloc_ok [OF Cons.prems(1) this, of w] alloc_fresh [OF Cons.prems(1) this, of w]
      alloc_view [OF Cons.prems(1) this, of w]
    with Cons.prems AllocOp show ?thesis by auto
  next
    case (PopOp j)
    then show ?thesis
      using Cons.prems pop_ok [OF Cons.prems(1), of j] pop_view [OF Cons.prems(1), of j] by auto
  next
    case (DropOp P)
    then show ?thesis
      using Cons.prems drop_ok [OF Cons.prems(1), of P] drop_view [OF Cons.prems(1), of P k] by auto
  qed
  with Cons show ?case by simp
qed simp

text \<open>
  An allocated entry is returned to the caller that pops its key, whatever other
  allocations, pops of other keys and drops of other values happen in between, and only once.
\<close>

lemma alloc_pop_once:
  assumes "ok s" and "length ops < room s" and "alloc s v = (s', k)" and "list_all (spares k v) ops"
  shows "snd (pop (foldl run s' ops) k) = Some v"
    and "snd (pop (fst (pop (foldl run s' ops) k)) k) = None"
proof -
  have r: "0 < room s" using assms(2) by simp
  have s': "ok s'" "length ops \<le> room s'" "view s' k = Some v"
    using alloc_ok [OF assms(1) r, of v] alloc_view [OF assms(1) r, of v] assms by auto
  then have e: "ok (foldl run s' ops)" "view (foldl run s' ops) k = Some v"
    using run_keeps assms(4) by blast+
  then show "snd (pop (foldl run s' ops) k) = Some v" by (simp add: pop_result)
  show "snd (pop (fst (pop (foldl run s' ops) k)) k) = None"
    using e pop_ok [OF e(1), of k] by (simp add: pop_result pop_view)
qed

end

section \<open>RemoteSeqMap\<close>

text \<open>
  A connection is known by its pointer. \<^verbatim>\<open>pendingMetric\<close> is an optional pointer to the counter
  of the metrics: \<open>rs_pendingMetric\<close> is the counter it points to.
\<close>

type_synonym conn_ptr = nat

record remoteSeqEntry =
  rse_udsConn :: "conn_ptr option"
  rse_origSeqID :: u64

record RemoteSeqMap =
  rs_seq :: u64
  rs_pending :: int
  rs_pendingMetric :: "int option"
  rs_data :: "(u64, remoteSeqEntry) gomap"

definition NewRemoteSeqMap :: "int option \<Rightarrow> RemoteSeqMap" where
  "NewRemoteSeqMap metric = \<lparr>rs_seq = 0, rs_pending = 0, rs_pendingMetric = metric, rs_data = []\<rparr>"

definition addPending :: "RemoteSeqMap \<Rightarrow> int \<Rightarrow> RemoteSeqMap" where
  "addPending m delta = m\<lparr>rs_pending := wrap_s64 (rs_pending m + delta),
     rs_pendingMetric := map_option (\<lambda>c. wrap_s64 (c + delta)) (rs_pendingMetric m)\<rparr>"

definition Remote_Alloc :: "RemoteSeqMap \<Rightarrow> conn_ptr option \<Rightarrow> u64 \<Rightarrow> RemoteSeqMap \<times> u64" where
  "Remote_Alloc m c origSeqID =
     (let i = rs_seq m + 1;
          m1 = m\<lparr>rs_seq := i, rs_data := mput i \<lparr>rse_udsConn = c, rse_origSeqID = origSeqID\<rparr> (rs_data m)\<rparr>
      in (addPending m1 1, i))"

definition Remote_Pop :: "RemoteSeqMap \<Rightarrow> u64 \<Rightarrow> RemoteSeqMap \<times> remoteSeqEntry option" where
  "Remote_Pop m i =
     (case map_of (rs_data m) i of
        None \<Rightarrow> (m, None)
      | Some entry \<Rightarrow> (addPending (m\<lparr>rs_data := mdel i (rs_data m)\<rparr>) (- 1), Some entry))"

definition drop_entries :: "RemoteSeqMap \<Rightarrow> (remoteSeqEntry \<Rightarrow> bool) \<Rightarrow> RemoteSeqMap \<times> nat" where
  "drop_entries m P =
     (let count = length (filter (\<lambda>e. P (snd e)) (rs_data m));
          m1 = m\<lparr>rs_data := filter (\<lambda>e. \<not> P (snd e)) (rs_data m)\<rparr>
      in if 0 < count then (addPending m1 (- int count), count) else (m1, count))"

definition DeleteByConn :: "RemoteSeqMap \<Rightarrow> conn_ptr option \<Rightarrow> RemoteSeqMap \<times> nat" where
  "DeleteByConn m c = (if c = None then (m, 0) else drop_entries m (\<lambda>e. rse_udsConn e = c))"

definition PendingLen :: "RemoteSeqMap \<Rightarrow> int" where
  "PendingLen m = rs_pending m"

text \<open>
  Invariant: the counter and the gauge equal the number of entries, and every key has been
  handed out. The room is the number of keys left before the counter leaves the positive
  signed range.
\<close>

definition remote_ok :: "RemoteSeqMap \<Rightarrow> bool" where
  "remote_ok m \<longleftrightarrow> wf_map (rs_data m) \<and> unat (rs_seq m) < 2 ^ 63
     \<and> rs_pending m = int (length (rs_data m))
     \<and> (rs_pendingMetric m = None \<or> rs_pendingMetric m = Some (int (length (rs_data m))))
     \<and> (\<forall>k \<in> set (mkeys (rs_data m)). 0 < unat k \<and> unat k \<le> unat (rs_seq m))"

definition remote_room :: "RemoteSeqMap \<Rightarrow> nat" where
  "remote_room m = (2 ^ 63 - 1) - unat (rs_seq m)"

lemma remote_ok_New [simp]: "remote_ok (NewRemoteSeqMap None)" "remote_ok (NewRemoteSeqMap (Some 0))"
  by (simp_all add: remote_ok_def NewRemoteSeqMap_def mkeys_def)

lemma unat_suc_seq:
  assumes "0 < remote_room m"
  shows "unat (rs_seq m + 1) = Suc (unat (rs_seq m))" and "Suc (unat (rs_seq m)) < 2 ^ 63"
proof -
  show b: "Suc (unat (rs_seq m)) < 2 ^ 63" using assms by (simp add: remote_room_def)
  then have "Suc (unat (rs_seq m)) < 2 ^ 64" by simp
  then show "unat (rs_seq m + 1) = Suc (unat (rs_seq m))"
    by (simp add: unat_word_ariths)
qed

lemma remote_alloc_fresh:
  assumes "remote_ok m" and "0 < remote_room m"
  shows "map_of (rs_data m) (rs_seq m + 1) = None"
proof -
  have "rs_seq m + 1 \<notin> set (mkeys (rs_data m))"
    using assms(1) unat_suc_seq(1) [OF assms(2)] unfolding remote_ok_def by fastforce
  then show ?thesis by (auto simp: set_mkeys)
qed

text \<open>So there are never more entries than keys handed out.\<close>

lemma remote_len:
  assumes "remote_ok m"
  shows "length (rs_data m) \<le> unat (rs_seq m)"
proof -
  let ?K = "set (mkeys (rs_data m))"
  have "unat ` ?K \<subseteq> {1..unat (rs_seq m)}"
    using assms unfolding remote_ok_def by (metis (no_types, lifting) One_nat_def Suc_leI atLeastAtMost_iff image_subsetI)
  then have "card (unat ` ?K) \<le> card {1..unat (rs_seq m)}" by (rule card_mono [rotated]) simp
  moreover have "card (unat ` ?K) = card ?K" by (rule card_image) (simp add: inj_on_def word_unat_eq_iff)
  moreover have "card ?K = length (rs_data m)"
    using assms by (simp add: remote_ok_def wf_map_def distinct_card) (simp add: mkeys_def)
  ultimately show ?thesis by simp
qed

lemma in_s64_len: "remote_ok m \<Longrightarrow> n \<le> length (rs_data m) \<Longrightarrow> in_s64 (int n)"
  using remote_len [of m] by (simp add: remote_ok_def in_s64_def)

lemma remote_ok_Alloc:
  assumes "remote_ok m" and "0 < remote_room m"
  shows "remote_ok (fst (Remote_Alloc m c o'))" and "remote_room m \<le> Suc (remote_room (fst (Remote_Alloc m c o')))"
proof -
  note fr = remote_alloc_fresh [OF assms] and us = unat_suc_seq [OF assms(2)]
  define d where "d = mput (rs_seq m + 1) \<lparr>rse_udsConn = c, rse_origSeqID = o'\<rparr> (rs_data m)"
  have len: "length d = Suc (length (rs_data m))" using fr by (simp add: d_def mput_def)
  have "in_s64 (int (length (rs_data m)) + 1)"
    using remote_len [OF assms(1)] us(2) by (simp add: in_s64_def)
  moreover have "wf_map d" using assms(1) by (simp add: d_def remote_ok_def)
  moreover have "\<forall>k \<in> set (mkeys d). 0 < unat k \<and> unat k \<le> unat (rs_seq m + 1)"
    using assms(1) us(1) by (auto simp: d_def mput_def remote_ok_def mkeys_def intro: le_SucI)
  ultimately show "remote_ok (fst (Remote_Alloc m c o'))"
    using assms(1) us len by (auto simp: Remote_Alloc_def addPending_def Let_def remote_ok_def d_def add.commute)
  show "remote_room m \<le> Suc (remote_room (fst (Remote_Alloc m c o')))"
    using us by (simp add: remote_room_def Remote_Alloc_def addPending_def Let_def)
qed

lemma remote_ok_Pop:
  assumes "remote_ok m"
  shows "remote_ok (fst (Remote_Pop m i))" and "remote_room (fst (Remote_Pop m i)) = remote_room m"
proof -
  show "remote_ok (fst (Remote_Pop m i))"
  proof (cases "map_of (rs_data m) i")
    case (Some e)
    have wf: "wf_map (rs_data m)" using assms by (simp add: remote_ok_def)
    with Some have "Suc (length (mdel i (rs_data m))) = length (rs_data m)"
      by (intro length_mdel_present) auto
    then have "int (length (rs_data m)) - 1 = int (length (mdel i (rs_data m)))"
      and "in_s64 (int (length (mdel i (rs_data m))))"
      using in_s64_len [OF assms, of "length (mdel i (rs_data m))"] by linarith+
    then have "wrap_s64 (int (length (rs_data m)) - 1) = int (length (mdel i (rs_data m)))" by simp
    moreover have "set (mkeys (mdel i (rs_data m))) \<subseteq> set (mkeys (rs_data m))"
      by (auto simp: mkeys_def)
    ultimately show ?thesis using assms Some
      by (auto simp: Remote_Pop_def addPending_def remote_ok_def)
  qed (simp add: Remote_Pop_def assms)
  show "remote_room (fst (Remote_Pop m i)) = remote_room m"
    by (simp add: Remote_Pop_def addPending_def remote_room_def split: option.splits)
qed

lemma remote_ok_drop:
  assumes "remote_ok m"
  shows "remote_ok (fst (drop_entries m P))" and "remote_room (fst (drop_entries m P)) = remote_room m"
proof -
  let ?n = "length (filter (\<lambda>e. P (snd e)) (rs_data m))" and ?k = "length (filter (\<lambda>e. \<not> P (snd e)) (rs_data m))"
  have sum: "?n + ?k = length (rs_data m)" by (rule sum_length_filter_compl)
  have "in_s64 (int ?k)" by (rule in_s64_len [OF assms]) simp
  moreover have "int (length (rs_data m)) - int ?n = int ?k" using sum by linarith
  ultimately have w: "wrap_s64 (int (length (rs_data m)) - int ?n) = int ?k" by simp
  show "remote_ok (fst (drop_entries m P))"
    using assms w sum by (auto simp: drop_entries_def addPending_def Let_def remote_ok_def mkeys_def)
  show "remote_room (fst (drop_entries m P)) = remote_room m"
    by (simp add: drop_entries_def addPending_def Let_def remote_room_def)
qed

lemma remote_views [simp]:
  "rs_data (addPending m d) = rs_data m"
  "map_of (rs_data (fst (Remote_Alloc m c o'))) =
     (map_of (rs_data m))(rs_seq m + 1 \<mapsto> \<lparr>rse_udsConn = c, rse_origSeqID = o'\<rparr>)"
  "snd (Remote_Alloc m c o') = rs_seq m + 1"
  "snd (Remote_Pop m i) = map_of (rs_data m) i"
  "map_of (rs_data (fst (Remote_Pop m i))) = (map_of (rs_data m))(i := None)"
  "rs_data (fst (drop_entries m P)) = filter (\<lambda>e. \<not> P (snd e)) (rs_data m)"
  by (auto simp: addPending_def Remote_Alloc_def Remote_Pop_def drop_entries_def Let_def fun_eq_iff
      split: option.splits)

lemma remoteSeqEntry_eta [simp]: "\<lparr>rse_udsConn = rse_udsConn e, rse_origSeqID = rse_origSeqID e\<rparr> = e"
  by simp

interpretation remote: seq_table
  "\<lambda>m e. Remote_Alloc m (rse_udsConn e) (rse_origSeqID e)" Remote_Pop "\<lambda>m P. fst (drop_entries m P)"
  "\<lambda>m. map_of (rs_data m)" remote_ok remote_room
proof unfold_locales
  fix m :: RemoteSeqMap and P :: "remoteSeqEntry \<Rightarrow> bool" and k :: u64
  assume "remote_ok m"
  then have "wf_map (rs_data m)" by (simp add: remote_ok_def)
  then show "map_of (rs_data (fst (drop_entries m P))) k =
      (case map_of (rs_data m) k of None \<Rightarrow> None | Some v \<Rightarrow> if P v then None else Some v)"
    by (simp add: map_of_filter_wf split: option.splits)
qed (simp_all add: remote_alloc_fresh remote_ok_Alloc remote_ok_Pop remote_ok_drop)

text \<open>The operations the router performs on the table.\<close>

datatype remote_op = RemoteAlloc "conn_ptr option" u64 | RemotePop u64 | RemoteConnGone conn_ptr

fun remote_step :: "RemoteSeqMap \<Rightarrow> remote_op \<Rightarrow> RemoteSeqMap" where
  "remote_step m (RemoteAlloc c o') = fst (Remote_Alloc m c o')"
| "remote_step m (RemotePop i) = fst (Remote_Pop m i)"
| "remote_step m (RemoteConnGone c) = fst (DeleteByConn m (Some c))"

fun as_table_op :: "remote_op \<Rightarrow> (u64, remoteSeqEntry) table_op" where
  "as_table_op (RemoteAlloc c o') = AllocOp \<lparr>rse_udsConn = c, rse_origSeqID = o'\<rparr>"
| "as_table_op (RemotePop i) = PopOp i"
| "as_table_op (RemoteConnGone c) = DropOp (\<lambda>e. rse_udsConn e = Some c)"

lemma remote_step_run: "remote_step m op = remote.run m (as_table_op op)"
  by (cases op) (simp_all add: DeleteByConn_def)

lemma remote_steps_run: "foldl remote_step m ops = foldl remote.run m (map as_table_op ops)"
  by (induction ops arbitrary: m) (simp_all add: remote_step_run)

lemma remote_steps_ok:
  "remote_ok m \<Longrightarrow> length ops \<le> remote_room m \<Longrightarrow> remote_ok (foldl remote_step m ops)"
proof (induction ops arbitrary: m)
  case (Cons op ops)
  have "remote_ok (remote_step m op) \<and> length ops \<le> remote_room (remote_step m op)"
  proof (cases op)
    case (RemoteAlloc c o')
    have "0 < remote_room m" using Cons.prems by simp
    with RemoteAlloc Cons.prems remote_ok_Alloc [OF Cons.prems(1) this, of c o'] show ?thesis by simp
  qed (use Cons.prems in \<open>simp_all add: DeleteByConn_def remote_ok_Pop remote_ok_drop\<close>)
  with Cons show ?case by simp
qed simp

lemma remote_ops_spare:
  "RemotePop k \<notin> set ops \<Longrightarrow> RemoteConnGone c \<notin> set ops \<Longrightarrow>
   list_all (remote.spares k \<lparr>rse_udsConn = Some c, rse_origSeqID = o'\<rparr>) (map as_table_op ops)"
proof (induction ops)
  case (Cons op ops) then show ?case by (cases op) auto
qed simp

text \<open>A response finds its requester exactly once. The sequence number allocated for a
  request of connection \<open>c\<close> still resolves to \<open>c\<close> and the original number after any other
  allocations, responses to other numbers and disconnects of other connections; a second
  response with the same number resolves to nothing.\<close>

theorem remote_seq_exactly_once:
  assumes "remote_ok m" and "length ops < remote_room m"
    and "Remote_Alloc m (Some c) o' = (m', k)"
    and "RemotePop k \<notin> set ops" and "RemoteConnGone c \<notin> set ops"
  shows "snd (Remote_Pop (foldl remote_step m' ops) k) = Some \<lparr>rse_udsConn = Some c, rse_origSeqID = o'\<rparr>
    \<and> snd (Remote_Pop (fst (Remote_Pop (foldl remote_step m' ops) k)) k) = None"
proof -
  let ?e = "\<lparr>rse_udsConn = Some c, rse_origSeqID = o'\<rparr>"
  have "list_all (remote.spares k ?e) (map as_table_op ops)"
    using assms(4,5) by (rule remote_ops_spare)
  moreover have "Remote_Alloc m (rse_udsConn ?e) (rse_origSeqID ?e) = (m', k)" using assms(3) by simp
  ultimately show ?thesis
    using remote.alloc_pop_once [of m "map as_table_op ops" ?e m' k] assms(1,2)
    by (simp add: remote_steps_run)
qed

theorem remote_seq_exactly_once_witness:
  "snd (Remote_Pop (foldl remote_step (fst (Remote_Alloc (NewRemoteSeqMap None) (Some 1) 77))
     [RemoteAlloc (Some 2) 77, RemotePop 2, RemoteConnGone 2, RemotePop 9]) 1)
   = Some \<lparr>rse_udsConn = Some 1, rse_origSeqID = 77\<rparr>"
  by (rule remote_seq_exactly_once [where m = "NewRemoteSeqMap None", THEN conjunct1])
    (simp_all add: remote_room_def NewRemoteSeqMap_def remote_ok_def mkeys_def prod_eq_iff)

text \<open>The pending counter and the exported gauge are exact: after fewer than \<open>2\<^sup>6\<^sup>3\<close>
  operations both equal the number of requests that still wait for a response.\<close>

theorem remote_pending_exact:
  assumes "length ops < 2 ^ 63"
  shows "PendingLen (foldl remote_step (NewRemoteSeqMap (Some 0)) ops)
           = int (card (dom (map_of (rs_data (foldl remote_step (NewRemoteSeqMap (Some 0)) ops)))))
    \<and> rs_pendingMetric (foldl remote_step (NewRemoteSeqMap (Some 0)) ops)
           = Some (PendingLen (foldl remote_step (NewRemoteSeqMap (Some 0)) ops))"
proof -
  let ?m = "foldl remote_step (NewRemoteSeqMap (Some 0)) ops"
  have "length ops \<le> remote_room (NewRemoteSeqMap (Some 0))"
    using assms by (simp add: remote_room_def NewRemoteSeqMap_def)
  then have ok: "remote_ok ?m" by (intro remote_steps_ok) simp_all
  have "rs_pendingMetric m \<noteq> None \<Longrightarrow> rs_pendingMetric (foldl remote_step m ops) \<noteq> None" for m
  proof (induction ops arbitrary: m)
    case (Cons op ops)
    have "rs_pendingMetric (remote_step m op) \<noteq> None" using Cons.prems
      by (cases op) (auto simp: Remote_Alloc_def Remote_Pop_def DeleteByConn_def drop_entries_def
          addPending_def Let_def split: option.splits)
    with Cons.IH show ?case by simp
  qed simp
  then have "rs_pendingMetric ?m \<noteq> None" by (simp add: NewRemoteSeqMap_def)
  moreover have "card (dom (map_of (rs_data ?m))) = length (rs_data ?m)"
    using ok by (simp add: remote_ok_def wf_map_def distinct_card flip: set_mkeys) (simp add: mkeys_def)
  ultimately show ?thesis using ok by (auto simp: PendingLen_def remote_ok_def)
qed

theorem remote_pending_exact_witness:
  "PendingLen (foldl remote_step (NewRemoteSeqMap (Some 0)) [RemoteAlloc (Some 1) 5, RemoteAlloc (Some 2) 6, RemoteConnGone 2])
   = int (card (dom (map_of (rs_data (foldl remote_step (NewRemoteSeqMap (Some 0))
       [RemoteAlloc (Some 1) 5, RemoteAlloc (Some 2) 6, RemoteConnGone 2])))))"
  by (rule remote_pending_exact [THEN conjunct1]) simp

section \<open>IncomingPeerSeqStore\<close>

text \<open>
  Times are integers (nanoseconds); \<^verbatim>\<open>time.Time.Sub\<close> saturates at the range of a 64-bit
  duration.
\<close>

definition time_Sub :: "int \<Rightarrow> int \<Rightarrow> int" where
  "time_Sub a b = max (- (2 ^ 63)) (min (2 ^ 63 - 1) (a - b))"

record incomingPeerSeqEntry =
  ips_peerKey :: string
  ips_at :: int

type_synonym IncomingPeerSeqStore = "(u64, incomingPeerSeqEntry) gomap"

definition Track :: "IncomingPeerSeqStore \<Rightarrow> int \<Rightarrow> u64 \<Rightarrow> string \<Rightarrow> IncomingPeerSeqStore" where
  "Track s now seqID peerKey =
     (if seqID = 0 \<or> peerKey = [] then s
      else mput seqID \<lparr>ips_peerKey = peerKey, ips_at = now\<rparr> s)"

definition Incoming_Pop :: "IncomingPeerSeqStore \<Rightarrow> u64 \<Rightarrow> IncomingPeerSeqStore \<times> string \<times> bool" where
  "Incoming_Pop s seqID =
     (case map_of s seqID of
        None \<Rightarrow> (s, [], False)
      | Some entry \<Rightarrow> (mdel seqID s, ips_peerKey entry, True))"

definition CleanupByPeer :: "IncomingPeerSeqStore \<Rightarrow> string \<Rightarrow> IncomingPeerSeqStore" where
  "CleanupByPeer s peerKey = (if peerKey = [] then s else filter (\<lambda>e. ips_peerKey (snd e) \<noteq> peerKey) s)"

definition CleanupExpired :: "IncomingPeerSeqStore \<Rightarrow> int \<Rightarrow> int \<Rightarrow> IncomingPeerSeqStore" where
  "CleanupExpired s now retention = filter (\<lambda>e. \<not> time_Sub now (ips_at (snd e)) > retention) s"

definition Incoming_Len :: "IncomingPeerSeqStore \<Rightarrow> nat" where
  "Incoming_Len s = length s"

lemma wf_incoming [simp]:
  "wf_map s \<Longrightarrow> wf_map (Track s now i k)"
  "wf_map s \<Longrightarrow> wf_map (fst (Incoming_Pop s i))"
  "wf_map s \<Longrightarrow> wf_map (CleanupByPeer s k)"
  "wf_map s \<Longrightarrow> wf_map (CleanupExpired s now r)"
  by (simp_all add: Track_def Incoming_Pop_def CleanupByPeer_def CleanupExpired_def split: option.splits)

lemma Incoming_Pop_Track [simp]:
  "i \<noteq> 0 \<Longrightarrow> k \<noteq> [] \<Longrightarrow> snd (Incoming_Pop (Track s now i k) i) = (k, True)"
  by (simp add: Incoming_Pop_def Track_def)

lemma Incoming_Pop_found: "map_of s i = Some e \<Longrightarrow> Incoming_Pop s i = (mdel i s, ips_peerKey e, True)"
  by (simp add: Incoming_Pop_def)

lemma Incoming_Pop_missing: "map_of s i = None \<Longrightarrow> Incoming_Pop s i = (s, [], False)"
  by (simp add: Incoming_Pop_def)

lemma map_of_CleanupExpired:
  "wf_map s \<Longrightarrow> map_of (CleanupExpired s now r) i =
     (case map_of s i of None \<Rightarrow> None | Some e \<Rightarrow> if time_Sub now (ips_at e) > r then None else Some e)"
  by (simp add: CleanupExpired_def map_of_filter_wf split: option.splits)

text \<open>The periodic sweep of tracked requests removes exactly the entries older than the
  retention: a later pop still finds an entry if and only if it was tracked within the
  retention, and it yields the peer it was tracked with.\<close>

theorem cleanup_expired_exact:
  assumes "wf_map s" and "map_of s i = Some e" and "0 \<le> r" and "r < 2 ^ 63 - 1"
  shows "snd (Incoming_Pop (CleanupExpired s now r) i) =
    (if now - ips_at e \<le> r then (ips_peerKey e, True) else ([], False))"
proof -
  have "time_Sub now (ips_at e) > r \<longleftrightarrow> \<not> now - ips_at e \<le> r"
    using assms(3,4) by (auto simp: time_Sub_def)
  with map_of_CleanupExpired [OF assms(1), of now r i] assms(2) show ?thesis
    by (simp add: Incoming_Pop_def split: option.splits if_splits)
qed

theorem cleanup_expired_exact_witness:
  "snd (Incoming_Pop (CleanupExpired (Track (Track [] 5 1 ''a:1'') 20 2 ''b:1'') 21 10) 1) = ([], False)"
  using cleanup_expired_exact [of "Track (Track [] 5 1 ''a:1'') 20 2 ''b:1''" 1
      "\<lparr>ips_peerKey = ''a:1'', ips_at = 5\<rparr>" 10 21]
  by (simp add: Track_def)

section \<open>Broadcast acknowledgements\<close>

record BroadcastSentRecord =
  bsr_WaiterID :: u64
  bsr_NodeIDs :: "u32 list"

text \<open>The two sets of node ids are Go maps to empty structs; only their sizes are read.\<close>

record BroadcastWaiter =
  bw_id :: u64
  bw_nodes :: "u32 set"
  bw_received :: "u32 set"

definition NewBroadcastWaiter :: "u64 \<Rightarrow> u32 list \<Rightarrow> BroadcastWaiter" where
  "NewBroadcastWaiter i nodes = \<lparr>bw_id = i, bw_nodes = set nodes, bw_received = {}\<rparr>"

definition Mark :: "BroadcastWaiter \<Rightarrow> u32 \<Rightarrow> BroadcastWaiter" where
  "Mark w nodeID = w\<lparr>bw_received := insert nodeID (bw_received w)\<rparr>"

definition Waiter_Done :: "BroadcastWaiter \<Rightarrow> bool" where
  "Waiter_Done w \<longleftrightarrow> card (bw_received w) = card (bw_nodes w)"

definition EncodeBroadcastSent :: "u64 \<Rightarrow> u32 list \<Rightarrow> bytes" where
  "EncodeBroadcastSent waiterID nodeIDs =
     patch_all 0 ([PutUint64 waiterID, PutUint32 (word_of_nat (length nodeIDs))] @ map PutUint32 nodeIDs)
       (replicate (8 + 4 + 4 * length nodeIDs) 0)"

text \<open>
  The decoder reports a short body as the zero waiter without an error; \<open>None\<close> stands for
  an out-of-range slice expression.
\<close>

fun read_ids :: "nat \<Rightarrow> bytes \<Rightarrow> nat \<Rightarrow> u32 list option" where
  "read_ids i body 0 = Some []"
| "read_ids i body (Suc n) =
     do { b \<leftarrow> slice body (12 + i * 4) (16 + i * 4);
          rest \<leftarrow> read_ids (i + 1) body n;
          Some (Uint32 b # rest) }"

definition DecodeBroadcastSent :: "bytes \<Rightarrow> (u64 \<times> u32 list) option" where
  "DecodeBroadcastSent body =
     (if length body < 12 then Some (0, [])
      else do {
        w \<leftarrow> slice body 0 8;
        c \<leftarrow> slice body 8 12;
        let count = unat (Uint32 c);
        if length body < 12 + count * 4 then Some (0, [])
        else do { ids \<leftarrow> read_ids 0 body count; Some (Uint64 w, ids) } })"

lemma length_concat_PutUint32 [simp]: "length (concat (map PutUint32 ids)) = 4 * length ids"
  by (induction ids) auto

lemma EncodeBroadcastSent_eq:
  "EncodeBroadcastSent w ids = PutUint64 w @ PutUint32 (word_of_nat (length ids)) @ concat (map PutUint32 ids)"
  using patch_all_append [of 0 "[]" "[PutUint64 w, PutUint32 (word_of_nat (length ids))] @ map PutUint32 ids"
      "replicate (8 + 4 + 4 * length ids) 0"]
  by (simp add: EncodeBroadcastSent_def)

lemma read_ids_total: "12 + (i + n) * 4 \<le> length body \<Longrightarrow> \<exists>ids. read_ids i body n = Some ids"
proof (induction n arbitrary: i)
  case (Suc n)
  from Suc.IH [of "i + 1"] Suc.prems obtain ids where "read_ids (i + 1) body n = Some ids" by auto
  with Suc.prems show ?case by simp
qed simp

lemma DecodeBroadcastSent_total: "DecodeBroadcastSent body \<noteq> None"
proof (cases "length body < 12")
  case False
  define n where "n = unat (Uint32 (take 4 (drop 8 body)))"
  have "\<not> length body < 12 + n * 4 \<Longrightarrow> \<exists>ids. read_ids 0 body n = Some ids"
    using read_ids_total [of 0 n body] by simp
  with False show ?thesis by (auto simp: DecodeBroadcastSent_def Let_def n_def [symmetric])
qed (simp add: DecodeBroadcastSent_def)

lemma read_ids_encoded:
  "12 + i * 4 = length pre \<Longrightarrow> read_ids i (pre @ concat (map PutUint32 ids)) (length ids) = Some ids"
proof (induction ids arbitrary: i pre)
  case (Cons x ids)
  have "read_ids (i + 1) ((pre @ PutUint32 x) @ concat (map PutUint32 ids)) (length ids) = Some ids"
    by (rule Cons.IH) (use Cons.prems in simp)
  moreover have "slice (pre @ PutUint32 x @ concat (map PutUint32 ids)) (12 + i * 4) (16 + i * 4) = Some (PutUint32 x)"
    by (rule slice_field) (use Cons.prems in simp_all)
  ultimately show ?case by simp
qed simp

lemma DecodeBroadcastSent_Encode:
  assumes "length ids < 2 ^ 32"
  shows "DecodeBroadcastSent (EncodeBroadcastSent w ids) = Some (w, ids)"
proof -
  let ?b = "PutUint64 w @ PutUint32 (word_of_nat (length ids)) @ concat (map PutUint32 ids)"
  have "slice ?b 0 8 = Some (PutUint64 w)" by (simp add: slice_def)
  moreover have "slice ?b 8 12 = Some (PutUint32 (word_of_nat (length ids)))"
    by (rule slice_field) simp_all
  moreover have "unat (word_of_nat (length ids) :: u32) = length ids"
    using assms by (simp add: unat_of_nat)
  moreover have "read_ids 0 ?b (length ids) = Some ids"
    using read_ids_encoded [of 0 "PutUint64 w @ PutUint32 (word_of_nat (length ids))" ids] by simp
  ultimately have "DecodeBroadcastSent ?b = Some (w, ids)"
    by (simp add: DecodeBroadcastSent_def)
  then show ?thesis by (simp add: EncodeBroadcastSent_eq)
qed

text \<open>The notification that lists the nodes a broadcast was sent to decodes to the same
  waiter and nodes, in order; decoding never runs out of range on any body.\<close>

theorem broadcast_sent_roundtrip:
  assumes "length ids < 2 ^ 32"
  shows "DecodeBroadcastSent (EncodeBroadcastSent w ids) = Some (w, ids)
    \<and> (\<forall>body. DecodeBroadcastSent body \<noteq> None)"
  using DecodeBroadcastSent_Encode [OF assms] DecodeBroadcastSent_total by blast

theorem broadcast_sent_roundtrip_witness:
  "DecodeBroadcastSent (EncodeBroadcastSent 5 [16909060, 7]) = Some (5, [16909060, 7])"
  by (rule broadcast_sent_roundtrip [THEN conjunct1]) simp

definition mark_all :: "BroadcastWaiter \<Rightarrow> u32 list \<Rightarrow> BroadcastWaiter" where
  "mark_all w ids = foldl Mark w ids"

lemma mark_all_fields [simp]:
  "bw_received (mark_all w ids) = bw_received w \<union> set ids" "bw_nodes (mark_all w ids) = bw_nodes w"
  by (induction ids arbitrary: w) (auto simp: mark_all_def Mark_def)

lemma waiter_done_iff:
  "set ids \<subseteq> set nodes \<Longrightarrow> Waiter_Done (mark_all (NewBroadcastWaiter i nodes) ids) \<longleftrightarrow> set ids = set nodes"
  using card_subset_eq [of "set nodes" "set ids"] by (auto simp: Waiter_Done_def NewBroadcastWaiter_def)

text \<open>
  The test compares sizes only: acknowledgements of nodes that were never addressed complete
  a waiter although an addressed node is still missing.
\<close>

lemma waiter_done_unknown_nodes:
  "Waiter_Done (mark_all (NewBroadcastWaiter i [1, 2]) [1, 9])"
  by (simp add: Waiter_Done_def NewBroadcastWaiter_def)

end
