(* ===== verification/Node_Id.thy ===== *)
theory Node_Id
  imports Go_Strconv
begin

text \<open>
  \<^verbatim>\<open>internal/core/nodeid\<close>: the 32-bit node identifier \<open>world.serverType.serverIndex\<close>, and
  \<^verbatim>\<open>internal/core/errcode\<close>: the error codes shared by the framework and the services.
\<close>

unbundle bit_operations_syntax

section \<open>Node identifiers\<close>

definition worldBits :: nat where "worldBits = 16"
definition serverBits :: nat where "serverBits = 8"
definition indexBits :: nat where "indexBits = 8"
definition serverShift :: nat where "serverShift = indexBits"
definition worldShift :: nat where "worldShift = indexBits + serverBits"
definition worldMask :: u32 where "worldMask = push_bit worldBits 1 - 1"
definition serverMask :: u32 where "serverMask = push_bit serverBits 1 - 1"
definition indexMask :: u32 where "indexMask = push_bit indexBits 1 - 1"

lemmas nodeid_consts = worldBits_def serverBits_def indexBits_def serverShift_def worldShift_def
  worldMask_def serverMask_def indexMask_def

definition Encode :: "u32 \<Rightarrow> u32 \<Rightarrow> u32 \<Rightarrow> u32" where
  "Encode world serverType idx =
     (push_bit worldShift (world AND worldMask) OR push_bit serverShift (serverType AND serverMask))
       OR (idx AND indexMask)"

definition Decode :: "u32 \<Rightarrow> u32 \<times> u32 \<times> u32" where
  "Decode nid = (drop_bit worldShift nid AND worldMask,
                 drop_bit serverShift nid AND serverMask,
                 nid AND indexMask)"

definition nodeid_String :: "u32 \<Rightarrow> string" where
  "nodeid_String nid =
     (case Decode nid of (world, serverType, idx) \<Rightarrow>
        dec_nat (unat world) @ ''.'' @ dec_nat (unat serverType) @ ''.'' @ dec_nat (unat idx))"

datatype nodeid_error = InvalidFormat | ParseWorld | ParseServerType | ParseServerIndex

definition nodeid_Parse :: "string \<Rightarrow> nodeid_error + u32" where
  "nodeid_Parse s =
     (case split_on CHR ''.'' s of
        [p0, p1, p2] \<Rightarrow>
          (case ParseUint32 p0 of None \<Rightarrow> Inl ParseWorld
           | Some world \<Rightarrow>
              (case ParseUint32 p1 of None \<Rightarrow> Inl ParseServerType
               | Some serverType \<Rightarrow>
                  (case ParseUint32 p2 of None \<Rightarrow> Inl ParseServerIndex
                   | Some idx \<Rightarrow>
                      Inr (Encode (word_of_nat world) (word_of_nat serverType) (word_of_nat idx)))))
      | _ \<Rightarrow> Inl InvalidFormat)"

lemma masks_eq:
  "worldMask = mask 16" "serverMask = mask 8" "indexMask = mask 8"
  by (simp_all add: nodeid_consts mask_eq_exp_minus_1 push_bit_eq_mult)

lemma Decode_Encode:
  "Decode (Encode w s i) = (w AND mask 16, s AND mask 8, i AND mask 8)"
proof -
  have "drop_bit 16 ((push_bit 16 (w AND mask 16) OR push_bit 8 (s AND mask 8)) OR (i AND mask 8)) AND mask 16
      = w AND mask 16"
    by (rule bit_word_eqI) (auto simp: bit_simps)
  moreover have "drop_bit 8 ((push_bit 16 (w AND mask 16) OR push_bit 8 (s AND mask 8)) OR (i AND mask 8)) AND mask 8
      = s AND mask 8"
    by (rule bit_word_eqI) (auto simp: bit_simps)
  moreover have "((push_bit 16 (w AND mask 16) OR push_bit 8 (s AND mask 8)) OR (i AND mask 8)) AND mask 8
      = i AND mask 8"
    by (rule bit_word_eqI) (auto simp: bit_simps)
  ultimately show ?thesis
    unfolding Decode_def Encode_def masks_eq serverShift_def worldShift_def indexBits_def serverBits_def
    by simp
qed

lemma Encode_Decode:
  "(case Decode nid of (w, s, i) \<Rightarrow> Encode w s i) = nid"
proof -
  have "(push_bit 16 ((drop_bit 16 nid AND mask 16) AND mask 16)
          OR push_bit 8 ((drop_bit 8 nid AND mask 8) AND mask 8)) OR ((nid AND mask 8) AND mask 8) = nid"
  proof (rule bit_word_eqI)
    fix n
    assume "n < LENGTH(32)"
    then consider "n < 8" | "8 \<le> n" "n < 16" | "16 \<le> n" "n < 32" by fastforce
    then show "bit ((push_bit 16 ((drop_bit 16 nid AND mask 16) AND mask 16)
          OR push_bit 8 ((drop_bit 8 nid AND mask 8) AND mask 8)) OR ((nid AND mask 8) AND mask 8)) n
        = bit nid n"
      by cases (auto simp: bit_simps)
  qed
  then show ?thesis
    unfolding Decode_def Encode_def masks_eq serverShift_def worldShift_def indexBits_def serverBits_def
    by simp
qed

lemma and_mask_id: "unat w < 2 ^ n \<Longrightarrow> w AND mask n = w" for w :: "'a::len word"
  by (simp add: word_unat_eq_iff unsigned_take_bit_eq take_bit_nat_eq_self flip: take_bit_eq_mask)

text \<open>the three fields of a node identifier survive encoding whenever they are within their
  widths (16, 8 and 8 bits), and every 32-bit value is the encoding of its fields.\<close>

theorem nodeid_roundtrip:
  assumes "unat w < 2 ^ worldBits" and "unat s < 2 ^ serverBits" and "unat i < 2 ^ indexBits"
  shows "Decode (Encode w s i) = (w, s, i) \<and> (case Decode nid of (a, b, c) \<Rightarrow> Encode a b c) = nid"
  using assms Encode_Decode [of nid] by (simp add: Decode_Encode and_mask_id nodeid_consts)

theorem nodeid_roundtrip_witness:
  "Decode (Encode 7 3 250) = (7, 3, 250) \<and> (case Decode 0xDEADBEEF of (a, b, c) \<Rightarrow> Encode a b c) = 0xDEADBEEF"
  by (rule nodeid_roundtrip) (simp_all add: nodeid_consts)

text \<open>the dotted text of a node identifier parses back to the same identifier.\<close>

theorem nodeid_Parse_String: "nodeid_Parse (nodeid_String nid) = Inr nid"
proof -
  obtain w s i where d: "Decode nid = (w, s, i)" by (cases "Decode nid") auto
  have lt: "unat x < 2 ^ 32" for x :: u32
    using unsigned_less [of x, where ?'a = nat] by simp
  have "split_on CHR ''.'' (nodeid_String nid) = [dec_nat (unat w), dec_nat (unat s), dec_nat (unat i)]"
    using dec_nat_clean by (simp add: nodeid_String_def d)
  then show ?thesis
    using Encode_Decode [of nid] d ParseUint32_dec [OF lt] by (simp add: nodeid_Parse_def)
qed

section \<open>Error codes\<close>

text \<open>\<^verbatim>\<open>type ErrCode int32\<close>; the wire carries it as \<^verbatim>\<open>uint32\<close>, so it is a 32-bit word here.\<close>

type_synonym ErrCode = u32

definition OK :: ErrCode where "OK = 0"
definition ERR_INTERNAL :: ErrCode where "ERR_INTERNAL = 1"
definition ERR_TIMEOUT :: ErrCode where "ERR_TIMEOUT = 2"
definition ERR_NO_ROUTE :: ErrCode where "ERR_NO_ROUTE = 3"
definition ERR_UNAUTHED :: ErrCode where "ERR_UNAUTHED = 4"
definition ERR_UNMARSHAL :: ErrCode where "ERR_UNMARSHAL = 5"

lemmas errcode_consts = OK_def ERR_INTERNAL_def ERR_TIMEOUT_def ERR_NO_ROUTE_def ERR_UNAUTHED_def
  ERR_UNMARSHAL_def

text \<open>A Go error is absent, one that carries a code (\<^verbatim>\<open>codedError\<close>), or any other error.\<close>

datatype goerror = NoError | Coded ErrCode string | Plain string

definition errcode_New :: "ErrCode \<Rightarrow> string \<Rightarrow> goerror" where
  "errcode_New code msg = Coded code msg"

definition CodeOf :: "goerror \<Rightarrow> ErrCode" where
  "CodeOf err = (case err of NoError \<Rightarrow> OK | Coded c _ \<Rightarrow> c | Plain _ \<Rightarrow> ERR_INTERNAL)"

definition ErrCode_String :: "ErrCode \<Rightarrow> string" where
  "ErrCode_String c =
     (if c = OK then ''OK''
      else if c = ERR_INTERNAL then ''ERR_INTERNAL''
      else if c = ERR_TIMEOUT then ''ERR_TIMEOUT''
      else if c = ERR_NO_ROUTE then ''ERR_NO_ROUTE''
      else if c = ERR_UNAUTHED then ''ERR_UNAUTHED''
      else if c = ERR_UNMARSHAL then ''ERR_UNMARSHAL''
      else ''ErrCode('' @ dec_int (sint c) @ '')'')"

definition errcode_From :: "ErrCode \<Rightarrow> goerror" where
  "errcode_From code = Coded code (ErrCode_String code)"

lemma CodeOf_simps [simp]:
  "CodeOf NoError = OK" "CodeOf (Coded c m) = c" "CodeOf (Plain m) = ERR_INTERNAL"
  by (simp_all add: CodeOf_def)

lemma CodeOf_New [simp]: "CodeOf (errcode_New c m) = c" "CodeOf (errcode_From c) = c"
  by (simp_all add: errcode_New_def errcode_From_def)

end
