(* ===== verification/Codec.thy ===== *)
theory Codec
  imports Node_Id
begin

text \<open>
  \<^verbatim>\<open>internal/core/codec\<close>: the outer client packet (one type byte, a 24-bit length and a body)
  and the inner message (request, response or notify). Encoders append to a slice that may
  have spare capacity; decoders work on bytes from the network and return \<open>None\<close> where the
  Go code would panic.
\<close>

section \<open>Packets\<close>

type_synonym PacketType = u8

definition PacketHandshake :: PacketType where "PacketHandshake = 1"
definition PacketHandshakeAck :: PacketType where "PacketHandshakeAck = 2"
definition PacketHeartbeat :: PacketType where "PacketHeartbeat = 3"
definition PacketData :: PacketType where "PacketData = 4"
definition PacketKick :: PacketType where "PacketKick = 5"

record Packet =
  pkt_Type :: PacketType
  pkt_Body :: bytes

datatype codec_error =
    PacketTooLarge nat
  | PacketTooShort nat
  | PacketLengthMismatch nat nat
  | MessageTooShort
  | RequestTooShort
  | ResponseTooShort
  | NotifyTooShort
  | UnknownMessageType u8

definition putUint24 :: "u32 \<Rightarrow> bytes" where
  "putUint24 v = [ucast (drop_bit 16 v), ucast (drop_bit 8 v), ucast v]"

definition readUint24 :: "bytes \<Rightarrow> u32 option" where
  "readUint24 src = do {
     b0 \<leftarrow> index src 0; b1 \<leftarrow> index src 1; b2 \<leftarrow> index src 2;
     Some ((push_bit 16 (ucast b0) OR push_bit 8 (ucast b1)) OR ucast b2)
   }"

definition AppendPacket :: "gobuf \<Rightarrow> Packet \<Rightarrow> codec_error + gobuf" where
  "AppendPacket dst p =
     (if 0xFFFFFF < length (pkt_Body p) then Inl (PacketTooLarge (length (pkt_Body p)))
      else
        let pos = length (buf_data dst);
            d0 = buf_grow dst (4 + length (pkt_Body p));
            d1 = buf_patch pos [pkt_Type p] d0;
            d2 = buf_patch (pos + 1) (putUint24 (word_of_nat (length (pkt_Body p)))) d1;
            d3 = buf_patch (pos + 4) (pkt_Body p) d2
        in Inr d3)"

definition EncodePacket :: "Packet \<Rightarrow> codec_error + bytes" where
  "EncodePacket p = map_sum id buf_data (AppendPacket nil_buf p)"

definition DecodePacket :: "bytes \<Rightarrow> (codec_error + Packet) option" where
  "DecodePacket data =
     (if length data < 4 then Some (Inl (PacketTooShort (length data)))
      else do {
        hd3 \<leftarrow> slice data 1 4;
        len \<leftarrow> readUint24 hd3;
        let bodyLen = unat len;
        if length data \<noteq> 4 + bodyLen
        then Some (Inl (PacketLengthMismatch (4 + bodyLen) (length data)))
        else do {
          ty \<leftarrow> index data 0;
          body \<leftarrow> slice data 4 (length data);
          Some (Inr \<lparr>pkt_Type = ty, pkt_Body = body\<rparr>)
        }
      })"

subsection \<open>The 24-bit length\<close>

lemma length_putUint24 [simp]: "length (putUint24 v) = 3"
  by (simp add: putUint24_def)

lemma unat_ucast_byte: "unat (ucast (w :: u32) :: byte) = unat w mod 256"
  by (simp add: unsigned_ucast_eq take_bit_eq_mod)

lemma putUint24_be: "putUint24 v = be_bytes 3 (unat v)"
proof -
  have "be_bytes 3 n = [word_of_nat (n div 256 div 256), word_of_nat (n div 256), word_of_nat n]" for n
    by (simp add: numeral_3_eq_3)
  moreover have "ucast (drop_bit 16 v) = (word_of_nat (unat v div 65536) :: byte)"
    "ucast (drop_bit 8 v) = (word_of_nat (unat v div 256) :: byte)"
    by (simp_all add: word_unat_eq_iff unat_ucast_byte unat_of_nat drop_bit_eq_div unat_div_distrib)
  moreover have "ucast v = (word_of_nat (unat v) :: byte)"
    by (simp add: word_unat_eq_iff unat_ucast_byte unat_of_nat)
  ultimately show ?thesis by (simp add: putUint24_def div_mult2_eq [symmetric])
qed

lemma read24_nat:
  fixes a b c :: byte
  shows "(push_bit 16 (ucast a) OR push_bit 8 (ucast b)) OR ucast c = (word_of_nat (be_nat [a, b, c]) :: u32)"
proof -
  have 1: "push_bit 16 (ucast a) AND push_bit 8 (ucast b) = (0 :: u32)"
    by (rule bit_word_eqI) (auto simp: bit_simps dest: bit_imp_le_length)
  have 2: "(push_bit 16 (ucast a) OR push_bit 8 (ucast b)) AND ucast c = (0 :: u32)"
    by (rule bit_word_eqI) (auto simp: bit_simps dest: bit_imp_le_length)
  have "(push_bit 16 (ucast a) OR push_bit 8 (ucast b)) OR ucast c
      = (push_bit 16 (ucast a) + push_bit 8 (ucast b) + ucast c :: u32)"
    using 1 2 by (simp add: disjunctive_add_eq_or)
  also have "\<dots> = word_of_nat (256 * (256 * unat a + unat b) + unat c)"
    by (simp add: push_bit_eq_mult algebra_simps)
  finally show ?thesis by (simp add: be_nat_def)
qed

lemma readUint24_be: "length src = 3 \<Longrightarrow> readUint24 src = Some (word_of_nat (be_nat src))"
  by (auto simp: readUint24_def numeral_3_eq_3 length_Suc_conv read24_nat)

lemma readUint24_put: "v < 2 ^ 24 \<Longrightarrow> readUint24 (be_bytes 3 v) = Some (word_of_nat v)"
  by (simp add: readUint24_be)

subsection \<open>Packet encoding and decoding\<close>

text \<open>The bytes a packet stands for.\<close>

definition packet_bytes :: "Packet \<Rightarrow> bytes" where
  "packet_bytes p = pkt_Type p # be_bytes 3 (length (pkt_Body p)) @ pkt_Body p"

lemma AppendPacket_ok:
  assumes "length (pkt_Body p) \<le> 0xFFFFFF"
  shows "\<exists>d. AppendPacket dst p = Inr d \<and> buf_data d = buf_data dst @ packet_bytes p"
proof -
  let ?len = "putUint24 (word_of_nat (length (pkt_Body p)))"
  let ?fs = "[[pkt_Type p], ?len, pkt_Body p]"
  let ?pos = "length (buf_data dst)"
  have "patch_all ?pos ?fs (buf_data (buf_grow dst (4 + length (pkt_Body p)))) = buf_data dst @ concat ?fs"
    by (rule buf_grow_patch_all) simp_all
  moreover have "?len = be_bytes 3 (length (pkt_Body p))"
    using assms by (simp add: putUint24_be unat_of_nat)
  moreover have "patch (?pos + 4) (pkt_Body p) (patch (?pos + 1) ?len (patch ?pos [pkt_Type p] xs))
      = patch_all ?pos ?fs xs" for xs
    by (simp add: numeral_eq_Suc)
  ultimately show ?thesis using assms
    by (simp add: AppendPacket_def Let_def packet_bytes_def)
qed

lemma EncodePacket_eq:
  "EncodePacket p = (if 0xFFFFFF < length (pkt_Body p) then Inl (PacketTooLarge (length (pkt_Body p)))
                     else Inr (packet_bytes p))"
  using AppendPacket_ok [of p nil_buf] by (auto simp: EncodePacket_def AppendPacket_def)

text \<open>The length field of a packet.\<close>

definition pkt_len :: "bytes \<Rightarrow> nat" where
  "pkt_len data = be_nat (take 3 (drop 1 data))"

lemma DecodePacket_eq:
  "DecodePacket data =
     (if length data < 4 then Some (Inl (PacketTooShort (length data)))
      else if length data \<noteq> 4 + pkt_len data
        then Some (Inl (PacketLengthMismatch (4 + pkt_len data) (length data)))
        else Some (Inr \<lparr>pkt_Type = data ! 0, pkt_Body = drop 4 data\<rparr>))"
proof (cases "length data < 4")
  case False
  let ?h = "take 3 (drop 1 data)"
  from False have "length ?h = 3" by simp
  then have h: "readUint24 ?h = Some (word_of_nat (be_nat ?h))" and lt: "be_nat ?h < 2 ^ 32"
    using be_nat_less [of ?h] by (simp_all only: readUint24_be) simp
  have n: "unat (word_of_nat (be_nat ?h) :: u32) = be_nat ?h"
    using lt by (simp only: unat_of_nat) simp
  have s: "slice data 1 4 = Some ?h" "index data 0 = Some (data ! 0)"
    "slice data 4 (length data) = Some (drop 4 data)"
    using False by (auto simp: slice_def index_def)
  from False show ?thesis
    by (simp only: DecodePacket_def s h n Option.bind.simps Let_def if_False pkt_len_def)
qed (simp add: DecodePacket_def)

lemma length_packet_bytes [simp]: "length (packet_bytes p) = 4 + length (pkt_Body p)"
  by (simp add: packet_bytes_def)

lemma DecodePacket_packet_bytes:
  "length (pkt_Body p) \<le> 0xFFFFFF \<Longrightarrow> DecodePacket (packet_bytes p) = Some (Inr p)"
proof -
  assume a: "length (pkt_Body p) \<le> 0xFFFFFF"
  then have n: "pkt_len (packet_bytes p) = length (pkt_Body p)"
    by (simp add: packet_bytes_def pkt_len_def)
  have d: "drop 4 (packet_bytes p) = pkt_Body p" "packet_bytes p ! 0 = pkt_Type p"
    by (simp_all add: packet_bytes_def)
  show ?thesis
    by (subst DecodePacket_eq) (simp add: n d)
qed

lemma DecodePacket_SomeD:
  assumes "DecodePacket bs = Some (Inr p)"
  shows "length (pkt_Body p) \<le> 0xFFFFFF \<and> packet_bytes p = bs"
proof -
  from assms have p: "p = \<lparr>pkt_Type = bs ! 0, pkt_Body = drop 4 bs\<rparr>"
    and len: "length bs = 4 + pkt_len bs"
    by (auto simp: DecodePacket_eq split: if_splits)
  obtain b r where b: "bs = b # r" using len by (cases bs) auto
  have h3: "3 = length (take 3 r)" using len b by simp
  have pl: "pkt_len bs = be_nat (take 3 r)" by (simp add: pkt_len_def b)
  then have lt: "pkt_len bs < 256 ^ 3" using be_nat_less [of "take 3 r"] h3 by simp
  have "be_bytes 3 (pkt_len bs) = take 3 r" unfolding pl using h3 by (rule be_bytes_be_nat)
  moreover have "drop 4 bs = drop 3 r" by (simp add: b numeral_eq_Suc)
  moreover have "length (drop 4 bs) = pkt_len bs" using len by simp
  ultimately show ?thesis using lt by (simp add: p packet_bytes_def b)
qed

text \<open>encoding and decoding of client packets are inverse to each other: a packet encodes
  to exactly the byte strings that decode to it (so an encoded packet decodes to itself, no
  two packets share an encoding, and an oversized body is never accepted on either side).\<close>

theorem packet_roundtrip: "EncodePacket p = Inr bs \<longleftrightarrow> DecodePacket bs = Some (Inr p)"
proof
  assume "EncodePacket p = Inr bs"
  then have "length (pkt_Body p) \<le> 0xFFFFFF" "bs = packet_bytes p"
    by (auto simp: EncodePacket_eq split: if_splits)
  then show "DecodePacket bs = Some (Inr p)" by (simp add: DecodePacket_packet_bytes)
next
  assume "DecodePacket bs = Some (Inr p)"
  then show "EncodePacket p = Inr bs"
    using DecodePacket_SomeD by (fastforce simp: EncodePacket_eq)
qed

lemma DecodePacket_total: "DecodePacket data \<noteq> None"
  by (simp add: DecodePacket_eq)

section \<open>Messages\<close>

type_synonym MessageType = u8

definition MessageRequest :: MessageType where "MessageRequest = 1"
definition MessageResponse :: MessageType where "MessageResponse = 2"
definition MessageNotify :: MessageType where "MessageNotify = 3"

lemmas message_types = MessageRequest_def MessageResponse_def MessageNotify_def

record Message =
  msg_Type :: MessageType
  msg_SeqID :: u16
  msg_CmdID :: u32
  msg_ErrCode :: ErrCode
  msg_Body :: bytes

definition AppendMessage :: "gobuf \<Rightarrow> Message \<Rightarrow> codec_error + gobuf" where
  "AppendMessage dst m =
     (let pos = length (buf_data dst); body = msg_Body m in
      if msg_Type m = MessageRequest then
        let d0 = buf_grow dst (1 + 2 + 4 + length body);
            d1 = buf_patch pos [msg_Type m] d0;
            d2 = buf_patch (pos + 1) (PutUint16 (msg_SeqID m)) d1;
            d3 = buf_patch (pos + 3) (PutUint32 (msg_CmdID m)) d2
        in Inr (buf_patch (pos + 7) body d3)
      else if msg_Type m = MessageResponse then
        let d0 = buf_grow dst (1 + 2 + 4 + 4 + length body);
            d1 = buf_patch pos [msg_Type m] d0;
            d2 = buf_patch (pos + 1) (PutUint16 (msg_SeqID m)) d1;
            d3 = buf_patch (pos + 3) (PutUint32 (msg_CmdID m)) d2;
            d4 = buf_patch (pos + 7) (PutUint32 (msg_ErrCode m)) d3
        in Inr (buf_patch (pos + 11) body d4)
      else if msg_Type m = MessageNotify then
        let d0 = buf_grow dst (1 + 4 + length body);
            d1 = buf_patch pos [msg_Type m] d0;
            d2 = buf_patch (pos + 1) (PutUint32 (msg_CmdID m)) d1
        in Inr (buf_patch (pos + 5) body d2)
      else Inl (UnknownMessageType (msg_Type m)))"

definition EncodeMessage :: "Message \<Rightarrow> codec_error + bytes" where
  "EncodeMessage m = map_sum id buf_data (AppendMessage nil_buf m)"

definition encodedMessageLen :: "Message \<Rightarrow> codec_error + nat" where
  "encodedMessageLen m =
     (if msg_Type m = MessageRequest then Inr (1 + 2 + 4 + length (msg_Body m))
      else if msg_Type m = MessageResponse then Inr (1 + 2 + 4 + 4 + length (msg_Body m))
      else if msg_Type m = MessageNotify then Inr (1 + 4 + length (msg_Body m))
      else Inl (UnknownMessageType (msg_Type m)))"

definition EncodeDataMessagePacket :: "Message \<Rightarrow> codec_error + bytes" where
  "EncodeDataMessagePacket m =
     (case encodedMessageLen m of
        Inl e \<Rightarrow> Inl e
      | Inr msgLen \<Rightarrow>
          if 0xFFFFFF < msgLen then Inl (PacketTooLarge msgLen)
          else map_sum id buf_data
                 (AppendMessage
                    \<lparr>buf_data = PacketData # putUint24 (word_of_nat msgLen),
                     buf_spare = replicate msgLen 0\<rparr> m))"

definition DecodeMessage :: "bytes \<Rightarrow> (codec_error + Message) option" where
  "DecodeMessage data =
     (if length data < 1 then Some (Inl MessageTooShort)
      else do {
        msgType \<leftarrow> index data 0;
        if msgType = MessageRequest then
          if length data < 7 then Some (Inl RequestTooShort)
          else do {
            s \<leftarrow> slice data 1 3; c \<leftarrow> slice data 3 7; b \<leftarrow> slice data 7 (length data);
            Some (Inr \<lparr>msg_Type = msgType, msg_SeqID = Uint16 s, msg_CmdID = Uint32 c,
                       msg_ErrCode = 0, msg_Body = b\<rparr>)
          }
        else if msgType = MessageResponse then
          if length data < 11 then Some (Inl ResponseTooShort)
          else do {
            s \<leftarrow> slice data 1 3; c \<leftarrow> slice data 3 7; e \<leftarrow> slice data 7 11;
            b \<leftarrow> slice data 11 (length data);
            Some (Inr \<lparr>msg_Type = msgType, msg_SeqID = Uint16 s, msg_CmdID = Uint32 c,
                       msg_ErrCode = Uint32 e, msg_Body = b\<rparr>)
          }
        else if msgType = MessageNotify then
          if length data < 5 then Some (Inl NotifyTooShort)
          else do {
            c \<leftarrow> slice data 1 5; b \<leftarrow> slice data 5 (length data);
            Some (Inr \<lparr>msg_Type = msgType, msg_SeqID = 0, msg_CmdID = Uint32 c,
                       msg_ErrCode = 0, msg_Body = b\<rparr>)
          }
        else Some (Inl (UnknownMessageType msgType))
      })"

text \<open>The bytes of a message, and the part of a message that its type puts on the wire.\<close>

definition message_fields :: "Message \<Rightarrow> bytes list" where
  "message_fields m =
     (if msg_Type m = MessageRequest then
        [[msg_Type m], PutUint16 (msg_SeqID m), PutUint32 (msg_CmdID m), msg_Body m]
      else if msg_Type m = MessageResponse then
        [[msg_Type m], PutUint16 (msg_SeqID m), PutUint32 (msg_CmdID m), PutUint32 (msg_ErrCode m), msg_Body m]
      else [[msg_Type m], PutUint32 (msg_CmdID m), msg_Body m])"

definition known_type :: "Message \<Rightarrow> bool" where
  "known_type m \<longleftrightarrow> msg_Type m \<in> {MessageRequest, MessageResponse, MessageNotify}"

definition carried :: "Message \<Rightarrow> Message" where
  "carried m =
     (if msg_Type m = MessageRequest then m\<lparr>msg_ErrCode := 0\<rparr>
      else if msg_Type m = MessageNotify then m\<lparr>msg_SeqID := 0, msg_ErrCode := 0\<rparr>
      else m)"

lemma message_types_distinct [simp]:
  "MessageRequest \<noteq> MessageResponse" "MessageRequest \<noteq> MessageNotify" "MessageResponse \<noteq> MessageNotify"
  "MessageResponse \<noteq> MessageRequest" "MessageNotify \<noteq> MessageRequest" "MessageNotify \<noteq> MessageResponse"
  by (simp_all add: message_types)

lemma length_message_fields:
  "known_type m \<Longrightarrow> encodedMessageLen m = Inr (length (concat (message_fields m)))"
  by (auto simp: known_type_def encodedMessageLen_def message_fields_def)

lemma AppendMessage_ok:
  assumes "known_type m"
  shows "\<exists>d. AppendMessage dst m = Inr d \<and> buf_data d = buf_data dst @ concat (message_fields m)"
proof -
  let ?pos = "length (buf_data dst)"
  let ?n = "length (concat (message_fields m))"
  have "patch_all ?pos (message_fields m) (buf_data (buf_grow dst ?n))
      = buf_data dst @ concat (message_fields m)"
    by (rule buf_grow_patch_all) simp_all
  then show ?thesis
    using assms by (auto simp: known_type_def AppendMessage_def message_fields_def Let_def numeral_eq_Suc)
qed

lemma AppendMessage_unknown:
  "\<not> known_type m \<Longrightarrow> AppendMessage dst m = Inl (UnknownMessageType (msg_Type m))"
  by (simp add: known_type_def AppendMessage_def)

lemma EncodeMessage_eq:
  "EncodeMessage m = (if known_type m then Inr (concat (message_fields m))
                      else Inl (UnknownMessageType (msg_Type m)))"
  using AppendMessage_ok [of m nil_buf] by (auto simp: EncodeMessage_def AppendMessage_unknown)

lemma DecodeMessage_fields:
  assumes "known_type m"
  shows "DecodeMessage (concat (message_fields m)) = Some (Inr (carried m))"
proof -
  consider "msg_Type m = MessageRequest" | "msg_Type m = MessageResponse" | "msg_Type m = MessageNotify"
    using assms by (auto simp: known_type_def)
  then show ?thesis
    by cases (simp_all add: message_fields_def DecodeMessage_def carried_def numeral_eq_Suc)
qed

lemma DecodeMessage_total: "DecodeMessage data \<noteq> None"
  by (auto simp: DecodeMessage_def index_def)

text \<open>every message of a known type encodes, and decoding gives back the message with
  exactly the fields its type carries on the wire (a request loses its error code, a notify
  also its sequence number); a message of an unknown type is refused by the encoder.\<close>

theorem message_roundtrip:
  "if msg_Type m \<in> {MessageRequest, MessageResponse, MessageNotify}
   then \<exists>bs. EncodeMessage m = Inr bs \<and> DecodeMessage bs = Some (Inr (carried m))
   else EncodeMessage m = Inl (UnknownMessageType (msg_Type m))"
  using DecodeMessage_fields [of m] by (simp add: EncodeMessage_eq known_type_def)

lemma EncodeDataMessagePacket_eq:
  "EncodeDataMessagePacket m =
     (case EncodeMessage m of
        Inl e \<Rightarrow> Inl e
      | Inr bs \<Rightarrow> EncodePacket \<lparr>pkt_Type = PacketData, pkt_Body = bs\<rparr>)"
proof (cases "known_type m")
  case True
  let ?bs = "concat (message_fields m)"
  show ?thesis
  proof (cases "0xFFFFFF < length ?bs")
    case False
    then have "putUint24 (word_of_nat (length ?bs)) = be_bytes 3 (length ?bs)"
      by (simp add: putUint24_be unat_of_nat)
    moreover obtain d where
      "AppendMessage \<lparr>buf_data = PacketData # putUint24 (word_of_nat (length ?bs)),
                     buf_spare = replicate (length ?bs) 0\<rparr> m = Inr d"
      "buf_data d = (PacketData # putUint24 (word_of_nat (length ?bs))) @ ?bs"
      using AppendMessage_ok [OF True] by (metis gobuf.select_convs(1))
    ultimately show ?thesis
      using False True length_message_fields [OF True]
      by (simp add: EncodeDataMessagePacket_def EncodeMessage_eq EncodePacket_eq packet_bytes_def)
  qed (simp add: True EncodeDataMessagePacket_def EncodeMessage_eq EncodePacket_eq length_message_fields)
next
  case False
  then have "encodedMessageLen m = Inl (UnknownMessageType (msg_Type m))"
    by (simp add: known_type_def encodedMessageLen_def)
  with False show ?thesis
    by (simp add: EncodeDataMessagePacket_def EncodeMessage_eq)
qed

text \<open>the one-allocation encoder used for responses to clients agrees with encoding the
  message and wrapping it into a data packet, errors included.\<close>

theorem EncodeDataMessagePacket_refines:
  "EncodeDataMessagePacket m =
     (case EncodeMessage m of
        Inl e \<Rightarrow> Inl e
      | Inr bs \<Rightarrow> EncodePacket \<lparr>pkt_Type = PacketData, pkt_Body = bs\<rparr>)"
  by (rule EncodeDataMessagePacket_eq)

end
