(* ===== verification/Wire.thy ===== *)
theory Wire
  imports Codec
begin

text \<open>
  \<^verbatim>\<open>internal/core/ragent/wire\<close>: the frame format spoken between the business processes and
  the router agents and between router agents, and the RPC header inside a frame.
\<close>

section \<open>Frames\<close>

type_synonym FrameType = u8

definition FrameHandshake :: FrameType where "FrameHandshake = 1"
definition FrameHandshakeAck :: FrameType where "FrameHandshakeAck = 2"
definition FrameRpcRequest :: FrameType where "FrameRpcRequest = 3"
definition FrameRpcResponse :: FrameType where "FrameRpcResponse = 4"
definition FrameRpcNotify :: FrameType where "FrameRpcNotify = 5"
definition FrameHeartbeat :: FrameType where "FrameHeartbeat = 6"
definition FrameBroadcastSent :: FrameType where "FrameBroadcastSent = 7"

lemmas frame_types = FrameHandshake_def FrameHandshakeAck_def FrameRpcRequest_def
  FrameRpcResponse_def FrameRpcNotify_def FrameHeartbeat_def FrameBroadcastSent_def

record Frame =
  frm_Type :: FrameType
  frm_Header :: bytes
  frm_Body :: bytes

datatype wire_error =
    FrameHeaderTooLarge nat
  | FrameTooShort
  | FrameLengthMismatch
  | FrameBodyLengthInvalid
  | RouteBodyTooShort
  | RoutingKeyTooLarge nat
  | RouteTooLarge nat
  | RpcHeaderTooShort
  | RpcKeyLengthMismatch
  | RpcRouteLengthMismatch

definition AppendFrame :: "gobuf \<Rightarrow> Frame \<Rightarrow> wire_error + gobuf" where
  "AppendFrame dst f =
     (let headLen = length (frm_Header f); bodyLen = length (frm_Body f) in
      if 0xFFFF < headLen then Inl (FrameHeaderTooLarge headLen)
      else
        let len = 1 + 2 + headLen + bodyLen;
            pos = length (buf_data dst);
            d0 = buf_grow dst (4 + len);
            d1 = buf_patch pos (PutUint32 (word_of_nat len)) d0;
            d2 = buf_patch (pos + 4) [frm_Type f] d1;
            d3 = buf_patch (pos + 5) (PutUint16 (word_of_nat headLen)) d2;
            d4 = buf_patch (pos + 7) (frm_Header f) d3
        in Inr (buf_patch (pos + 7 + headLen) (frm_Body f) d4))"

definition EncodeFrame :: "Frame \<Rightarrow> wire_error + bytes" where
  "EncodeFrame f = map_sum id buf_data (AppendFrame nil_buf f)"

definition EncodeRPCFrame :: "FrameType \<Rightarrow> bytes \<Rightarrow> bytes \<Rightarrow> wire_error + bytes" where
  "EncodeRPCFrame typ header body =
     EncodeFrame \<lparr>frm_Type = typ, frm_Header = header, frm_Body = body\<rparr>"

definition DecodeFrame :: "bytes \<Rightarrow> (wire_error + Frame) option" where
  "DecodeFrame data =
     (if length data < 7 then Some (Inl FrameTooShort)
      else do {
        l4 \<leftarrow> slice data 0 4;
        let len = unat (Uint32 l4);
        if length data \<noteq> 4 + len then Some (Inl FrameLengthMismatch)
        else do {
          h2 \<leftarrow> slice data 5 7;
          let headLen = unat (Uint16 h2);
          let bodyLen = int len - 3 - int headLen;
          if bodyLen < 0 then Some (Inl FrameBodyLengthInvalid)
          else do {
            ty \<leftarrow> index data 4;
            header \<leftarrow> slice data 7 (7 + headLen);
            body \<leftarrow> slice data (7 + headLen) (7 + headLen + nat bodyLen);
            Some (Inr \<lparr>frm_Type = ty, frm_Header = header, frm_Body = body\<rparr>)
          }
        }
      })"

definition EncodeRouteBody :: "u32 \<Rightarrow> bytes \<Rightarrow> bytes" where
  "EncodeRouteBody nodeID payload =
     patch 4 payload (patch 0 (PutUint32 nodeID) (replicate (4 + length payload) 0))"

definition DecodeRouteBody :: "bytes \<Rightarrow> (wire_error + u32 \<times> bytes) option" where
  "DecodeRouteBody body =
     (if length body < 4 then Some (Inl RouteBodyTooShort)
      else do {
        n \<leftarrow> slice body 0 4; rest \<leftarrow> slice body 4 (length body);
        Some (Inr (Uint32 n, rest))
      })"

text \<open>The bytes of a frame, and the frames whose header and total length fit their fields.\<close>

definition frame_fields :: "Frame \<Rightarrow> bytes list" where
  "frame_fields f =
     [PutUint32 (word_of_nat (3 + length (frm_Header f) + length (frm_Body f))), [frm_Type f],
      PutUint16 (word_of_nat (length (frm_Header f))), frm_Header f, frm_Body f]"

definition frame_bytes :: "Frame \<Rightarrow> bytes" where
  "frame_bytes f = concat (frame_fields f)"

definition frame_fits :: "Frame \<Rightarrow> bool" where
  "frame_fits f \<longleftrightarrow> length (frm_Header f) \<le> 0xFFFF
     \<and> 3 + length (frm_Header f) + length (frm_Body f) < 2 ^ 32"

lemma length_frame_bytes [simp]:
  "length (frame_bytes f) = 7 + length (frm_Header f) + length (frm_Body f)"
  by (simp add: frame_bytes_def frame_fields_def)

lemma AppendFrame_ok:
  assumes "length (frm_Header f) \<le> 0xFFFF"
  shows "\<exists>d. AppendFrame dst f = Inr d \<and> buf_data d = buf_data dst @ frame_bytes f"
proof -
  let ?pos = "length (buf_data dst)"
  let ?h = "length (frm_Header f)" and ?b = "length (frm_Body f)"
  have "patch_all ?pos (frame_fields f) (buf_data (buf_grow dst (4 + (1 + 2 + ?h + ?b))))
      = buf_data dst @ frame_bytes f"
    unfolding frame_bytes_def by (rule buf_grow_patch_all) (simp_all add: frame_fields_def)
  moreover have "patch_all ?pos (frame_fields f) xs
      = patch (?pos + 7 + ?h) (frm_Body f) (patch (?pos + 7) (frm_Header f)
          (patch (?pos + 5) (PutUint16 (word_of_nat ?h)) (patch (?pos + 4) [frm_Type f]
             (patch ?pos (PutUint32 (word_of_nat (1 + 2 + ?h + ?b))) xs))))" for xs
  proof -
    have "3 + ?h + ?b = 1 + 2 + ?h + ?b" and "?pos + 4 + 1 = ?pos + 5" and "?pos + 5 + 2 = ?pos + 7"
      by simp_all
    then show ?thesis
      by (simp only: frame_fields_def patch_all.simps length_PutUint list.size(3,4) add_0 One_nat_def [symmetric])
  qed
  ultimately show ?thesis
    using assms by (simp only: AppendFrame_def Let_def not_less [symmetric] if_False buf_data_patch) simp
qed

lemma AppendFrame_too_large:
  "0xFFFF < length (frm_Header f) \<Longrightarrow> AppendFrame dst f = Inl (FrameHeaderTooLarge (length (frm_Header f)))"
  by (simp add: AppendFrame_def)

lemma EncodeFrame_eq:
  "EncodeFrame f = (if 0xFFFF < length (frm_Header f) then Inl (FrameHeaderTooLarge (length (frm_Header f)))
                    else Inr (frame_bytes f))"
  using AppendFrame_ok [of f nil_buf] by (auto simp: EncodeFrame_def AppendFrame_too_large)

text \<open>The two length fields of a frame.\<close>

definition frame_len :: "bytes \<Rightarrow> nat" where
  "frame_len data = unat (Uint32 (take 4 data))"

definition head_len :: "bytes \<Rightarrow> nat" where
  "head_len data = unat (Uint16 (take 2 (drop 5 data)))"

lemma DecodeFrame_eq:
  "DecodeFrame data =
     (if length data < 7 then Some (Inl FrameTooShort)
      else if length data \<noteq> 4 + frame_len data then Some (Inl FrameLengthMismatch)
      else if length data < 7 + head_len data then Some (Inl FrameBodyLengthInvalid)
      else Some (Inr \<lparr>frm_Type = data ! 4, frm_Header = take (head_len data) (drop 7 data),
                      frm_Body = drop (7 + head_len data) data\<rparr>))"
proof (cases "length data < 7 \<or> length data \<noteq> 4 + frame_len data")
  case True
  then show ?thesis by (auto simp: DecodeFrame_def frame_len_def slice_def)
next
  case False
  let ?l = "frame_len data" and ?h = "head_len data"
  from False have len: "\<not> length data < 7" "length data = 4 + ?l" by auto
  have s: "slice data 0 4 = Some (take 4 data)" "slice data 5 7 = Some (take 2 (drop 5 data))"
    "index data 4 = Some (data ! 4)"
    using len(1) by (auto simp: slice_def index_def)
  have hb: "unat (Uint16 (take 2 (drop 5 data))) = ?h" "unat (Uint32 (take 4 data)) = ?l"
    by (simp_all add: head_len_def frame_len_def)
  have neg: "int ?l - 3 - int ?h < 0 \<longleftrightarrow> length data < 7 + ?h" using len by linarith
  have body: "slice data 7 (7 + ?h) = Some (take ?h (drop 7 data))"
    "slice data (7 + ?h) (7 + ?h + nat (int ?l - 3 - int ?h)) = Some (drop (7 + ?h) data)"
    if "\<not> length data < 7 + ?h"
  proof -
    from that len have "7 + ?h + nat (int ?l - 3 - int ?h) = length data" by linarith
    with that show "slice data 7 (7 + ?h) = Some (take ?h (drop 7 data))"
      "slice data (7 + ?h) (7 + ?h + nat (int ?l - 3 - int ?h)) = Some (drop (7 + ?h) data)"
      by (auto simp: slice_def)
  qed
  show ?thesis
  proof (cases "length data < 7 + ?h")
    case True
    with len(1) False neg show ?thesis
      by (simp only: DecodeFrame_def s hb Option.bind.simps Let_def simp_thms if_False if_True)
  next
    case small: False
    with len(1) False neg body [OF small] show ?thesis
      by (simp only: DecodeFrame_def s hb Option.bind.simps Let_def simp_thms if_False if_True)
  qed
qed

lemma DecodeFrame_total: "DecodeFrame data \<noteq> None"
  by (simp add: DecodeFrame_eq)

lemma frame_lens_bytes:
  assumes "frame_fits f"
  shows "frame_len (frame_bytes f @ rest) = 3 + length (frm_Header f) + length (frm_Body f)"
    and "head_len (frame_bytes f @ rest) = length (frm_Header f)"
proof -
  have a: "unat (word_of_nat (3 + length (frm_Header f) + length (frm_Body f)) :: u32)
        = 3 + length (frm_Header f) + length (frm_Body f)"
    using assms by (simp add: frame_fits_def unat_of_nat del: of_nat_add)
  have b: "unat (word_of_nat (length (frm_Header f)) :: u16) = length (frm_Header f)"
    using assms by (simp add: frame_fits_def unat_of_nat)
  show "frame_len (frame_bytes f @ rest) = 3 + length (frm_Header f) + length (frm_Body f)"
    using a by (simp add: frame_len_def frame_bytes_def frame_fields_def del: of_nat_add)
  show "head_len (frame_bytes f @ rest) = length (frm_Header f)"
    using b by (simp add: head_len_def frame_bytes_def frame_fields_def)
qed

lemma DecodeFrame_frame_bytes:
  assumes "frame_fits f"
  shows "DecodeFrame (frame_bytes f) = Some (Inr f)"
proof -
  have l: "frame_len (frame_bytes f) = 3 + length (frm_Header f) + length (frm_Body f)"
    "head_len (frame_bytes f) = length (frm_Header f)"
    using frame_lens_bytes [OF assms, of "[]"] by simp_all
  let ?pre = "concat (butlast (frame_fields f))"
  have "frame_bytes f = ?pre @ frm_Body f" and pre: "length ?pre = 7 + length (frm_Header f)"
    by (simp_all add: frame_bytes_def frame_fields_def)
  then have body: "drop (7 + length (frm_Header f)) (frame_bytes f) = frm_Body f"
    by (metis append_eq_conv_conj)
  have parts: "frame_bytes f ! 4 = frm_Type f"
    "take (length (frm_Header f)) (drop 7 (frame_bytes f)) = frm_Header f"
    by (simp_all add: frame_bytes_def frame_fields_def nth_append)
  show ?thesis by (subst DecodeFrame_eq) (simp add: l parts body)
qed

lemma DecodeFrame_SomeD:
  assumes "DecodeFrame bs = Some (Inr f)"
  shows "frame_fits f \<and> frame_bytes f = bs"
proof -
  let ?l = "frame_len bs" and ?h = "head_len bs"
  from assms have f: "f = \<lparr>frm_Type = bs ! 4, frm_Header = take ?h (drop 7 bs), frm_Body = drop (7 + ?h) bs\<rparr>"
    and len: "7 \<le> length bs" "length bs = 4 + ?l" "7 + ?h \<le> length bs"
    by (auto simp: DecodeFrame_eq split: if_splits)
  have hl: "length (frm_Header f) = ?h" "3 + length (frm_Header f) + length (frm_Body f) = ?l"
    using f len by auto
  have lt: "?l < 2 ^ 32" "?h < 2 ^ 16"
    using unsigned_less [of "Uint32 (take 4 bs)", where ?'a = nat]
      unsigned_less [of "Uint16 (take 2 (drop 5 bs))", where ?'a = nat]
    by (simp_all add: frame_len_def head_len_def)
  have fld: "PutUint32 (word_of_nat ?l) = take 4 bs" "PutUint16 (word_of_nat ?h) = take 2 (drop 5 bs)"
    using len(1) by (simp_all add: frame_len_def head_len_def Put_Uint32 Put_Uint16)
  have "bs = take 4 bs @ [bs ! 4] @ take 2 (drop 5 bs) @ take ?h (drop 7 bs) @ drop (7 + ?h) bs"
  proof -
    have "drop 4 bs = bs ! 4 # drop 5 bs" using len(1) Cons_nth_drop_Suc [of 4 bs] by simp
    moreover have "drop 5 bs = take 2 (drop 5 bs) @ drop 7 bs"
      using append_take_drop_id [of 2 "drop 5 bs"] by simp
    moreover have "drop 7 bs = take ?h (drop 7 bs) @ drop (7 + ?h) bs"
      using append_take_drop_id [of ?h "drop 7 bs"] by (simp add: add.commute)
    ultimately show ?thesis by (metis append_Cons append_Nil append_take_drop_id)
  qed
  with f hl fld lt show ?thesis
    by (simp add: frame_fits_def frame_bytes_def frame_fields_def del: of_nat_add)
qed

text \<open>a frame decodes from a byte string exactly when its header and total length fit the
  16-bit and 32-bit length fields and the byte string is its encoding; in particular every
  frame that fits survives encoding and decoding.\<close>

theorem frame_roundtrip:
  "DecodeFrame bs = Some (Inr f) \<longleftrightarrow> frame_fits f \<and> EncodeFrame f = Inr bs"
proof
  assume "DecodeFrame bs = Some (Inr f)"
  then show "frame_fits f \<and> EncodeFrame f = Inr bs"
    using DecodeFrame_SomeD by (fastforce simp: EncodeFrame_eq frame_fits_def)
next
  assume "frame_fits f \<and> EncodeFrame f = Inr bs"
  then have "frame_fits f" "bs = frame_bytes f" by (auto simp: EncodeFrame_eq split: if_splits)
  then show "DecodeFrame bs = Some (Inr f)" by (simp add: DecodeFrame_frame_bytes)
qed

lemma EncodeRouteBody_eq: "EncodeRouteBody n p = PutUint32 n @ p"
proof -
  have "replicate (4 + length p) (0 :: byte) = [] @ replicate (4 + length p) 0" by simp
  then have "patch 0 (PutUint32 n) (replicate (4 + length p) 0) = PutUint32 n @ replicate (length p) 0"
    by (metis append_Nil drop_replicate length_PutUint(2) length_replicate le_add1 list.size(3) patch_append
        add_diff_cancel_left')
  then show ?thesis by (simp add: EncodeRouteBody_def)
qed

lemma DecodeRouteBody_Encode: "DecodeRouteBody (EncodeRouteBody n p) = Some (Inr (n, p))"
  by (simp add: DecodeRouteBody_def EncodeRouteBody_eq)

lemma DecodeRouteBody_total: "DecodeRouteBody body \<noteq> None"
  by (simp add: DecodeRouteBody_def)

end
