(* ===== verification/Rpc_Wire.thy ===== *)
theory Rpc_Wire
  imports Wire
begin

text \<open>
  \<^verbatim>\<open>internal/core/ragent/wire/rpc_wire.go\<close> and \<^verbatim>\<open>routing.go\<close>: the RPC header that travels in
  the header part of a request, response or notify frame, and the in-place frame encoder of
  the client SDK (\<^verbatim>\<open>internal/core/ragent/sdk/client.go\<close>), which writes that header straight into
  the frame buffer.
\<close>

section \<open>The RPC header\<close>

definition RoutingModeAny :: u8 where "RoutingModeAny = 0"
definition RoutingModeDirect :: u8 where "RoutingModeDirect = 1"
definition RoutingModeHash :: u8 where "RoutingModeHash = 2"
definition RoutingModeBroadcast :: u8 where "RoutingModeBroadcast = 3"

lemmas routing_modes = RoutingModeAny_def RoutingModeDirect_def RoutingModeHash_def
  RoutingModeBroadcast_def

record RPCWireHeader =
  hdr_SeqID :: u64
  hdr_ServerType :: u32
  hdr_RoutingMode :: u8
  hdr_DeadlineMs :: u64
  hdr_WaiterID :: u64
  hdr_SrcNodeID :: u32
  hdr_DestNodeID :: u32
  hdr_ErrCode :: u32
  hdr_RoutingKey :: string
  hdr_Route :: string

definition RPCWireHeaderLen :: "RPCWireHeader \<Rightarrow> wire_error + nat" where
  "RPCWireHeaderLen h =
     (let keyLen = length (hdr_RoutingKey h); routeLen = length (hdr_Route h) in
      if 0xFFFF < keyLen then Inl (RoutingKeyTooLarge keyLen)
      else if 0xFFFF < routeLen then Inl (RouteTooLarge routeLen)
      else Inr (8 + 4 + 1 + 8 + 8 + 4 + 4 + 4 + 2 + keyLen + 2 + routeLen))"

text \<open>The fields in the order in which the encoder writes them, advancing its position.\<close>

definition header_fields :: "RPCWireHeader \<Rightarrow> bytes list" where
  "header_fields h =
     [PutUint64 (hdr_SeqID h), PutUint32 (hdr_ServerType h), [hdr_RoutingMode h],
      PutUint64 (hdr_DeadlineMs h), PutUint64 (hdr_WaiterID h), PutUint32 (hdr_SrcNodeID h),
      PutUint32 (hdr_DestNodeID h), PutUint32 (hdr_ErrCode h),
      PutUint16 (word_of_nat (length (hdr_RoutingKey h))), str_bytes (hdr_RoutingKey h),
      PutUint16 (word_of_nat (length (hdr_Route h))), str_bytes (hdr_Route h)]"

definition AppendRPCWireHeader :: "gobuf \<Rightarrow> RPCWireHeader \<Rightarrow> wire_error + gobuf" where
  "AppendRPCWireHeader dst h =
     (case RPCWireHeaderLen h of
        Inl e \<Rightarrow> Inl e
      | Inr headerLen \<Rightarrow>
          let pos = length (buf_data dst); d = buf_grow dst headerLen
          in Inr (d\<lparr>buf_data := patch_all pos (header_fields h) (buf_data d)\<rparr>))"

text \<open>\<^verbatim>\<open>EncodeRPCWireHeader\<close> drops the error: a header that does not fit becomes the empty slice.\<close>

definition EncodeRPCWireHeader :: "RPCWireHeader \<Rightarrow> bytes" where
  "EncodeRPCWireHeader h =
     (case AppendRPCWireHeader nil_buf h of Inl _ \<Rightarrow> [] | Inr d \<Rightarrow> buf_data d)"

text \<open>
  The routing key and the route of a decoded header are values here. In the program they are strings over the bytes of the
  frame, without a copy, and stay valid as long as that buffer is not reused; theory \<open>Frame_Pool\<close> shows that the
  buffers of frames in use are not overwritten.
\<close>

definition DecodeRPCWireHeader :: "bytes \<Rightarrow> (wire_error + RPCWireHeader) option" where
  "DecodeRPCWireHeader data =
     (if length data < 8 + 4 + 1 + 8 + 8 + 4 + 4 + 4 + 2 + 2 then Some (Inl RpcHeaderTooShort)
      else do {
        seq \<leftarrow> slice data 0 8;
        st \<leftarrow> slice data 8 12;
        mode \<leftarrow> index data 12;
        dl \<leftarrow> slice data 13 21;
        wid \<leftarrow> slice data 21 29;
        src \<leftarrow> slice data 29 33;
        dst \<leftarrow> slice data 33 37;
        err \<leftarrow> slice data 37 41;
        kl \<leftarrow> slice data 41 43;
        let keyLen = unat (Uint16 kl);
        if length data < 43 + keyLen + 2 then Some (Inl RpcKeyLengthMismatch)
        else do {
          key \<leftarrow> slice data 43 (43 + keyLen);
          rl \<leftarrow> slice data (43 + keyLen) (43 + keyLen + 2);
          let routeLen = unat (Uint16 rl);
          if length data < 43 + keyLen + 2 + routeLen then Some (Inl RpcRouteLengthMismatch)
          else do {
            rt \<leftarrow> slice data (43 + keyLen + 2) (43 + keyLen + 2 + routeLen);
            Some (Inr \<lparr>hdr_SeqID = Uint64 seq, hdr_ServerType = Uint32 st, hdr_RoutingMode = mode,
                       hdr_DeadlineMs = Uint64 dl, hdr_WaiterID = Uint64 wid, hdr_SrcNodeID = Uint32 src,
                       hdr_DestNodeID = Uint32 dst, hdr_ErrCode = Uint32 err,
                       hdr_RoutingKey = bytes_str key, hdr_Route = bytes_str rt\<rparr>)
          }
        }
      })"

definition header_fits :: "RPCWireHeader \<Rightarrow> bool" where
  "header_fits h \<longleftrightarrow> length (hdr_RoutingKey h) \<le> 0xFFFF \<and> length (hdr_Route h) \<le> 0xFFFF"

definition header_bytes :: "RPCWireHeader \<Rightarrow> bytes" where
  "header_bytes h = concat (header_fields h)"

lemma length_header_bytes [simp]:
  "length (header_bytes h) = 45 + length (hdr_RoutingKey h) + length (hdr_Route h)"
  by (simp add: header_bytes_def header_fields_def)

lemma RPCWireHeaderLen_ok: "header_fits h \<Longrightarrow> RPCWireHeaderLen h = Inr (length (header_bytes h))"
  by (simp add: header_fits_def RPCWireHeaderLen_def)

lemma AppendRPCWireHeader_ok:
  assumes "header_fits h"
  shows "\<exists>d. AppendRPCWireHeader dst h = Inr d \<and> buf_data d = buf_data dst @ header_bytes h"
proof -
  have "patch_all (length (buf_data dst)) (header_fields h) (buf_data (buf_grow dst (length (header_bytes h))))
      = buf_data dst @ header_bytes h"
    unfolding header_bytes_def by (rule buf_grow_patch_all) simp_all
  with assms show ?thesis by (simp add: AppendRPCWireHeader_def RPCWireHeaderLen_ok)
qed

lemma EncodeRPCWireHeader_eq:
  "EncodeRPCWireHeader h = (if header_fits h then header_bytes h else [])"
proof (cases "header_fits h")
  case True
  then show ?thesis
    using AppendRPCWireHeader_ok [of h nil_buf] by (auto simp: EncodeRPCWireHeader_def)
next
  case False
  then show ?thesis
    by (auto simp: EncodeRPCWireHeader_def AppendRPCWireHeader_def header_fits_def RPCWireHeaderLen_def Let_def)
qed

lemma DecodeRPCWireHeader_bytes:
  assumes "header_fits h"
  shows "DecodeRPCWireHeader (header_bytes h @ rest) = Some (Inr h)"
proof -
  let ?k = "length (hdr_RoutingKey h)" and ?r = "length (hdr_Route h)"
  have kr: "unat (word_of_nat ?k :: u16) = ?k" "unat (word_of_nat ?r :: u16) = ?r"
    using assms by (simp_all add: header_fits_def unat_of_nat)
  let ?d = "header_bytes h @ rest"
  let ?pre = "concat (take 9 (header_fields h))"
  have d1: "?d = ?pre @ str_bytes (hdr_RoutingKey h) @ PutUint16 (word_of_nat ?r) @ str_bytes (hdr_Route h) @ rest"
    and d2: "?d = (?pre @ str_bytes (hdr_RoutingKey h)) @ PutUint16 (word_of_nat ?r) @ (str_bytes (hdr_Route h) @ rest)"
    and d3: "?d = (?pre @ str_bytes (hdr_RoutingKey h) @ PutUint16 (word_of_nat ?r)) @ str_bytes (hdr_Route h) @ rest"
    by (simp_all add: header_bytes_def header_fields_def)
  have pre: "length ?pre = 43" by (simp add: header_fields_def)
  have fixed: "slice ?d 0 8 = Some (PutUint64 (hdr_SeqID h))" "slice ?d 8 12 = Some (PutUint32 (hdr_ServerType h))"
    "index ?d 12 = Some (hdr_RoutingMode h)" "slice ?d 13 21 = Some (PutUint64 (hdr_DeadlineMs h))"
    "slice ?d 21 29 = Some (PutUint64 (hdr_WaiterID h))" "slice ?d 29 33 = Some (PutUint32 (hdr_SrcNodeID h))"
    "slice ?d 33 37 = Some (PutUint32 (hdr_DestNodeID h))" "slice ?d 37 41 = Some (PutUint32 (hdr_ErrCode h))"
    "slice ?d 41 43 = Some (PutUint16 (word_of_nat ?k))"
    by (simp_all add: header_bytes_def header_fields_def slice_def index_def nth_append)
  have var: "slice ?d 43 (43 + ?k) = Some (str_bytes (hdr_RoutingKey h))"
    "slice ?d (43 + ?k) (43 + ?k + 2) = Some (PutUint16 (word_of_nat ?r))"
    "slice ?d (43 + ?k + 2) (43 + ?k + 2 + ?r) = Some (str_bytes (hdr_Route h))"
    by (subst d1, rule slice_field, simp_all only: pre length_append length_str_bytes length_PutUint)
      (subst d2, rule slice_field, simp_all only: pre length_append length_str_bytes length_PutUint,
       subst d3, rule slice_field, simp_all only: pre length_append length_str_bytes length_PutUint add.assoc)
  have len: "\<not> length ?d < 8 + 4 + 1 + 8 + 8 + 4 + 4 + 4 + 2 + 2" "\<not> length ?d < 43 + ?k + 2"
    "\<not> length ?d < 43 + ?k + 2 + ?r"
    by simp_all
  show ?thesis
    unfolding DecodeRPCWireHeader_def
    by (simp only: len fixed var kr Option.bind.simps Let_def if_False Uint16_Put Uint32_Put Uint64_Put
        bytes_str_str_bytes RPCWireHeader.surjective [of h, symmetric]) simp
qed

lemma DecodeRPCWireHeader_total: "DecodeRPCWireHeader data \<noteq> None"
  by (auto simp: DecodeRPCWireHeader_def Let_def slice_def index_def)

text \<open>an RPC header whose routing key and route fit their 16-bit length fields is read back
  unchanged from its encoding; one that does not fit encodes to the empty slice (the encoder
  drops the error), which every receiver refuses as too short.\<close>

theorem rpc_header_roundtrip:
  "DecodeRPCWireHeader (EncodeRPCWireHeader h) =
     (if length (hdr_RoutingKey h) \<le> 0xFFFF \<and> length (hdr_Route h) \<le> 0xFFFF
      then Some (Inr h) else Some (Inl RpcHeaderTooShort))"
proof (cases "header_fits h")
  case True
  then show ?thesis
    using DecodeRPCWireHeader_bytes [OF True, of "[]"] by (simp add: EncodeRPCWireHeader_eq header_fits_def)
next
  case False
  then show ?thesis
    by (auto simp: EncodeRPCWireHeader_eq header_fits_def DecodeRPCWireHeader_def)
qed

section \<open>The in-place encoder of the client SDK\<close>

record outboundFrame =
  out_frame :: Frame
  out_wire :: RPCWireHeader
  out_hasWire :: bool

text \<open>
  \<^verbatim>\<open>dst[at:at]\<close>: an empty slice over the same backing array. What is appended to it lands in the
  array of \<^verbatim>\<open>dst\<close> as long as it fits the capacity; otherwise it goes to a fresh array and \<^verbatim>\<open>dst\<close>
  does not see it.
\<close>

definition sub_slice :: "gobuf \<Rightarrow> nat \<Rightarrow> gobuf" where
  "sub_slice d at = \<lparr>buf_data = [], buf_spare = drop at (buf_data d) @ buf_spare d\<rparr>"

definition write_back :: "gobuf \<Rightarrow> nat \<Rightarrow> gobuf \<Rightarrow> gobuf" where
  "write_back d at sub =
     (if length (buf_data sub) \<le> buf_cap (sub_slice d at) then
        let arr = take at (buf_data d) @ buf_data sub @ buf_spare sub; n = length (buf_data d)
        in \<lparr>buf_data = take n arr, buf_spare = drop n arr\<rparr>
      else d)"

definition appendOutboundFrame :: "gobuf \<Rightarrow> outboundFrame \<Rightarrow> wire_error + gobuf" where
  "appendOutboundFrame dst out =
     (if \<not> out_hasWire out then AppendFrame dst (out_frame out)
      else case RPCWireHeaderLen (out_wire out) of
        Inl e \<Rightarrow> Inl e
      | Inr headLen \<Rightarrow>
          if 0xFFFF < headLen then Inl (FrameHeaderTooLarge headLen)
          else
            let bodyLen = length (frm_Body (out_frame out));
                len = 1 + 2 + headLen + bodyLen;
                pos = length (buf_data dst);
                d0 = buf_grow dst (4 + len);
                d1 = buf_patch pos (PutUint32 (word_of_nat len)) d0;
                d2 = buf_patch (pos + 4) [frm_Type (out_frame out)] d1;
                d3 = buf_patch (pos + 5) (PutUint16 (word_of_nat headLen)) d2
            in case AppendRPCWireHeader (sub_slice d3 (pos + 7)) (out_wire out) of
                 Inl e \<Rightarrow> Inl e
               | Inr sub \<Rightarrow>
                   Inr (buf_patch (pos + 7 + headLen) (frm_Body (out_frame out)) (write_back d3 (pos + 7) sub)))"

lemma AppendRPCWireHeader_in_place:
  assumes "header_fits h" and "length (header_bytes h) \<le> length sp"
  shows "AppendRPCWireHeader \<lparr>buf_data = [], buf_spare = sp\<rparr> h
       = Inr \<lparr>buf_data = header_bytes h, buf_spare = drop (length (header_bytes h)) sp\<rparr>"
proof -
  let ?n = "length (header_bytes h)"
  have "buf_grow \<lparr>buf_data = [], buf_spare = sp\<rparr> ?n = \<lparr>buf_data = take ?n sp, buf_spare = drop ?n sp\<rparr>"
    using assms(2) by (simp add: buf_grow_def buf_cap_def Let_def del: length_header_bytes)
  moreover have "patch_all 0 (header_fields h) (take ?n sp) = header_bytes h"
    using patch_all_append [of 0 "[]" "header_fields h" "take ?n sp"] assms(2)
    by (simp add: header_bytes_def del: length_concat)
  ultimately show ?thesis
    using assms(1) by (simp add: AppendRPCWireHeader_def RPCWireHeaderLen_ok del: length_header_bytes)
qed

lemma write_back_in_place:
  assumes "at = length pre" and "length hb \<le> length g"
  shows "write_back \<lparr>buf_data = pre @ g, buf_spare = sp\<rparr> at \<lparr>buf_data = hb, buf_spare = drop (length hb) (g @ sp)\<rparr>
       = \<lparr>buf_data = pre @ hb @ drop (length hb) g, buf_spare = sp\<rparr>"
  using assms by (simp add: write_back_def sub_slice_def buf_cap_def Let_def)

text \<open>The seven fixed bytes of a frame written at the end of \<open>pre\<close>, and the two variable parts.\<close>

definition head_patched :: "nat \<Rightarrow> u32 \<Rightarrow> u8 \<Rightarrow> u16 \<Rightarrow> gobuf \<Rightarrow> gobuf" where
  "head_patched pos l t h d =
     buf_patch (pos + 5) (PutUint16 h) (buf_patch (pos + 4) [t] (buf_patch pos (PutUint32 l) d))"

lemma head_patched_eq:
  assumes "buf_data d = pre @ g" and "7 \<le> length g"
  shows "head_patched (length pre) l t h d
       = \<lparr>buf_data = (pre @ PutUint32 l @ [t] @ PutUint16 h) @ drop 7 g, buf_spare = buf_spare d\<rparr>"
proof -
  let ?hd = "[PutUint32 l, [t], PutUint16 h]"
  have "patch_all (length pre) ?hd (pre @ g) = pre @ concat ?hd @ drop (length (concat ?hd)) g"
    by (rule patch_all_append) (use assms(2) in simp_all)
  then show ?thesis
    using assms by (cases d) (simp add: head_patched_def buf_patch_def numeral_eq_Suc)
qed

lemma head_patched_in_place:
  assumes d: "buf_data d = pre @ g" and g: "length g = 7 + length hb + length body"
  shows "sub_slice (head_patched (length pre) l t h d) (length pre + 7)
       = \<lparr>buf_data = [], buf_spare = drop 7 g @ buf_spare d\<rparr>"
    and "buf_data (buf_patch (length pre + 7 + length hb) body
           (write_back (head_patched (length pre) l t h d) (length pre + 7)
              \<lparr>buf_data = hb, buf_spare = drop (length hb) (drop 7 g @ buf_spare d)\<rparr>))
       = pre @ PutUint32 l @ [t] @ PutUint16 h @ hb @ body"
proof -
  have g7: "7 \<le> length g" using g by simp
  have at: "length pre + 7 = length (pre @ PutUint32 l @ [t] @ PutUint16 h)" by simp
  have fit: "length hb \<le> length (drop 7 g)" using g by simp
  show "sub_slice (head_patched (length pre) l t h d) (length pre + 7)
      = \<lparr>buf_data = [], buf_spare = drop 7 g @ buf_spare d\<rparr>"
    unfolding head_patched_eq [OF d g7] sub_slice_def at by simp
  show "buf_data (buf_patch (length pre + 7 + length hb) body
           (write_back (head_patched (length pre) l t h d) (length pre + 7)
              \<lparr>buf_data = hb, buf_spare = drop (length hb) (drop 7 g @ buf_spare d)\<rparr>))
       = pre @ PutUint32 l @ [t] @ PutUint16 h @ hb @ body"
  proof -
    have "patch (length pre + 7 + length hb) body
        ((pre @ PutUint32 l @ [t] @ PutUint16 h @ hb) @ drop (length hb) (drop 7 g))
      = (pre @ PutUint32 l @ [t] @ PutUint16 h @ hb) @ body"
      using g by (subst patch_append) simp_all
    then show ?thesis
      unfolding head_patched_eq [OF d g7] write_back_in_place [OF at fit] by simp
  qed
qed

lemma appendOutboundFrame_eq:
  "map_sum id buf_data (appendOutboundFrame dst out) =
     (if \<not> out_hasWire out then map_sum id buf_data (AppendFrame dst (out_frame out))
      else case RPCWireHeaderLen (out_wire out) of
        Inl e \<Rightarrow> Inl e
      | Inr _ \<Rightarrow> map_sum id buf_data
          (AppendFrame dst ((out_frame out)\<lparr>frm_Header := EncodeRPCWireHeader (out_wire out)\<rparr>)))"
proof (cases "out_hasWire out \<and> header_fits (out_wire out) \<and> length (header_bytes (out_wire out)) \<le> 0xFFFF")
  case False
  show ?thesis
  proof (cases "out_hasWire out \<and> header_fits (out_wire out)")
    case True
    with False show ?thesis
      by (simp add: appendOutboundFrame_def RPCWireHeaderLen_ok EncodeRPCWireHeader_eq AppendFrame_too_large
          del: length_header_bytes)
  next
    case False
    then show ?thesis
      by (auto simp: appendOutboundFrame_def header_fits_def RPCWireHeaderLen_def Let_def)
  qed
next
  case True
  let ?f = "(out_frame out)\<lparr>frm_Header := header_bytes (out_wire out)\<rparr>"
  let ?hb = "header_bytes (out_wire out)" and ?body = "frm_Body (out_frame out)"
  let ?pos = "length (buf_data dst)" and ?len = "1 + 2 + length ?hb + length ?body"
  let ?d0 = "buf_grow dst (4 + ?len)"
  obtain g where g: "length g = 4 + ?len" and d0: "buf_data ?d0 = buf_data dst @ g"
    using buf_grow_data by blast
  have g7: "length g = 7 + length ?hb + length ?body" using g by simp
  let ?d3 = "head_patched ?pos (word_of_nat ?len) (frm_Type (out_frame out)) (word_of_nat (length ?hb)) ?d0"
  let ?sub = "\<lparr>buf_data = ?hb, buf_spare = drop (length ?hb) (drop 7 g @ buf_spare ?d0)\<rparr>"
  have fit: "length ?hb \<le> length (drop 7 g @ buf_spare ?d0)"
    using g7 by (simp del: length_header_bytes)
  have sub: "AppendRPCWireHeader (sub_slice ?d3 (?pos + 7)) (out_wire out) = Inr ?sub"
    unfolding head_patched_in_place(1) [OF d0 g7]
    by (rule AppendRPCWireHeader_in_place) (use True fit in blast)+
  have res: "buf_data (buf_patch (?pos + 7 + length ?hb) ?body (write_back ?d3 (?pos + 7) ?sub))
      = buf_data dst @ frame_bytes ?f"
    unfolding head_patched_in_place(2) [OF d0 g7]
    by (simp add: frame_bytes_def frame_fields_def add.assoc del: length_header_bytes)
  obtain d where d: "AppendFrame dst ?f = Inr d" "buf_data d = buf_data dst @ frame_bytes ?f"
    using AppendFrame_ok [of ?f dst] True by (auto simp del: length_header_bytes)
  have "\<not> 0xFFFF < length ?hb" using True by (simp del: length_header_bytes)
  then have "appendOutboundFrame dst out
      = Inr (buf_patch (?pos + 7 + length ?hb) ?body (write_back ?d3 (?pos + 7) ?sub))"
    using True sub
    by (simp add: appendOutboundFrame_def head_patched_def RPCWireHeaderLen_ok Let_def del: length_header_bytes)
  with True d res show ?thesis
    by (simp add: RPCWireHeaderLen_ok EncodeRPCWireHeader_eq del: length_header_bytes)
qed

text \<open>C40: the SDK's frame encoder, which reserves the whole frame and lets the header encoder
  write into the middle of it through a sub-slice, produces exactly the bytes of the plain
  encoder applied to the frame with its header encoded separately, whatever the buffer's
  contents and spare capacity; a header that does not fit is an error instead.\<close>

theorem appendOutboundFrame_refines:
  "map_sum id buf_data (appendOutboundFrame dst out) =
     (if \<not> out_hasWire out then map_sum id buf_data (AppendFrame dst (out_frame out))
      else case RPCWireHeaderLen (out_wire out) of
        Inl e \<Rightarrow> Inl e
      | Inr _ \<Rightarrow> map_sum id buf_data
          (AppendFrame dst ((out_frame out)\<lparr>frm_Header := EncodeRPCWireHeader (out_wire out)\<rparr>)))"
  by (rule appendOutboundFrame_eq)

end
