(* ===== verification/Rpc_Core.thy ===== *)
theory Rpc_Core
  imports Seq_Tables Node_Id Rpc_Wire
begin

text \<open>
  The RPC engine of the business servers (\<^verbatim>\<open>rpc/context.go\<close>, \<^verbatim>\<open>types.go\<close>, \<^verbatim>\<open>core.go\<close>): calls are
  numbered and kept until a response, a send failure or the periodic timeout scan takes them
  out, and their callback is dispatched. The engine runs on several goroutines, so a call is
  split at its lock operations and the theorems quantify over all interleavings. The table of
  open calls is a second instance of the contract \<open>seq_table\<close>.
\<close>

section \<open>Call context and targets\<close>

text \<open>
  \<open>None\<close> is Go's zero time. The stale guard is a function without arguments; its value at the
  moment of the query is what the model keeps.
\<close>

record Ctx =
  cx_deadline :: "int option"
  cx_fromNode :: u32
  cx_stale :: "bool option"

definition Background :: Ctx where
  "Background = \<lparr>cx_deadline = None, cx_fromNode = 0, cx_stale = None\<rparr>"

definition WithDeadline :: "int \<Rightarrow> Ctx \<Rightarrow> int \<Rightarrow> Ctx" where
  "WithDeadline now c d = (if 0 < d then c\<lparr>cx_deadline := Some (now + d)\<rparr> else c)"

definition WithFromNode :: "Ctx \<Rightarrow> u32 \<Rightarrow> Ctx" where
  "WithFromNode c nodeID = c\<lparr>cx_fromNode := nodeID\<rparr>"

definition WithStaleGuard :: "Ctx \<Rightarrow> bool option \<Rightarrow> Ctx" where
  "WithStaleGuard c fn = c\<lparr>cx_stale := fn\<rparr>"

definition Remaining :: "int \<Rightarrow> Ctx \<Rightarrow> int" where
  "Remaining now c = (case cx_deadline c of None \<Rightarrow> 0 | Some d \<Rightarrow> time_Sub d now)"

definition Stale :: "Ctx \<Rightarrow> bool" where
  "Stale c = (case cx_stale c of None \<Rightarrow> False | Some b \<Rightarrow> b)"

datatype RoutingMode = RoutingAny | RoutingConsistentHash | RoutingDirect | RoutingBroadcast

record Target =
  tg_ServerType :: u32
  tg_Mode :: RoutingMode
  tg_Key :: string
  tg_NodeID :: u32
  tg_Deadline :: int

definition At :: "Target \<Rightarrow> u32 \<Rightarrow> Target" where
  "At t nodeID = t\<lparr>tg_Mode := RoutingDirect, tg_NodeID := nodeID\<rparr>"

definition ByHash :: "Target \<Rightarrow> string \<Rightarrow> Target" where
  "ByHash t key = t\<lparr>tg_Mode := RoutingConsistentHash, tg_Key := key\<rparr>"

definition Target_Broadcast :: "Target \<Rightarrow> Target" where
  "Target_Broadcast t = t\<lparr>tg_Mode := RoutingBroadcast\<rparr>"

definition Timeout :: "Target \<Rightarrow> int \<Rightarrow> Target" where
  "Timeout t d = t\<lparr>tg_Deadline := d\<rparr>"

record Header =
  rh_SeqID :: u64
  rh_Route :: string
  rh_DeadlineMs :: int
  rh_WaiterID :: u64
  rh_SrcNodeID :: u32
  rh_DestNodeID :: u32
  rh_ServerType :: u32
  rh_RoutingMode :: RoutingMode
  rh_RoutingKey :: string

section \<open>The engine\<close>

text \<open>
  Callbacks are identifiers. \<open>rc_calls\<close> collects what is dispatched to the main loop, with the
  sequence number of the call, \<open>rc_frames\<close> what is handed to the transport and \<open>rc_finished\<close>
  the calls whose span was finished.
\<close>

record inflight =
  inf_onResult :: nat
  inf_deadline :: "int option"

record dispatched =
  dp_seq :: u64
  dp_callback :: nat
  dp_payload :: "bytes option"
  dp_code :: ErrCode

record Core =
  rc_timeout :: int
  rc_seq :: u64
  rc_pending :: "(u64, inflight) gomap"
  rc_calls :: "dispatched list"
  rc_frames :: "(Target \<times> Header \<times> bytes) list"
  rc_finished :: "u64 list"

definition New :: "int \<Rightarrow> Core" where
  "New timeout = \<lparr>rc_timeout = timeout, rc_seq = 0, rc_pending = [], rc_calls = [], rc_frames = [], rc_finished = []\<rparr>"

text \<open>The time a call is given: what the context has left, the default, or the target's own limit.\<close>

definition req_timeout :: "Core \<Rightarrow> int \<Rightarrow> Target \<Rightarrow> Ctx \<Rightarrow> int" where
  "req_timeout c now t ctx =
     (let r0 = Remaining now ctx; r1 = (if r0 \<le> 0 then rc_timeout c else r0)
      in if 0 < tg_Deadline t \<and> tg_Deadline t < r1 then tg_Deadline t else r1)"

text \<open>Go's integer division truncates toward zero.\<close>

definition trunc_div :: "int \<Rightarrow> int \<Rightarrow> int" where
  "trunc_div a b = (if 0 \<le> a then a div b else - (- a div b))"

definition register :: "Core \<Rightarrow> inflight \<Rightarrow> Core \<times> u64" where
  "register c f = (let seq = rc_seq c + 1 in (c\<lparr>rc_seq := seq, rc_pending := mput seq f (rc_pending c)\<rparr>, seq))"

definition take_pending :: "Core \<Rightarrow> u64 \<Rightarrow> Core \<times> inflight option" where
  "take_pending c seq =
     (case map_of (rc_pending c) seq of
        None \<Rightarrow> (c, None)
      | Some f \<Rightarrow> (c\<lparr>rc_pending := mdel seq (rc_pending c)\<rparr>, Some f))"

definition finish_with :: "Core \<Rightarrow> u64 \<Rightarrow> inflight \<Rightarrow> bytes option \<Rightarrow> ErrCode \<Rightarrow> Core" where
  "finish_with c seq f payload code =
     c\<lparr>rc_finished := rc_finished c @ [seq],
       rc_calls := rc_calls c @ [\<lparr>dp_seq = seq, dp_callback = inf_onResult f, dp_payload = payload, dp_code = code\<rparr>]\<rparr>"

text \<open>\<^verbatim>\<open>Call\<close> up to the transport: registration and the frame that is handed over.\<close>

definition call_start :: "Core \<Rightarrow> int \<Rightarrow> Target \<Rightarrow> string \<Rightarrow> bytes \<Rightarrow> Ctx \<Rightarrow> nat \<Rightarrow> Core \<times> u64" where
  "call_start c now t route body ctx on =
     (let rt = req_timeout c now t ctx;
          f = \<lparr>inf_onResult = on, inf_deadline = (if 0 < rt then Some (now + rt) else None)\<rparr>
      in case register c f of
           (c1, seq) \<Rightarrow>
             (c1\<lparr>rc_frames := rc_frames c1 @
                [(t, \<lparr>rh_SeqID = seq, rh_Route = route, rh_DeadlineMs = trunc_div rt (10 ^ 6), rh_WaiterID = 0,
                      rh_SrcNodeID = cx_fromNode ctx, rh_DestNodeID = 0, rh_ServerType = tg_ServerType t,
                      rh_RoutingMode = tg_Mode t, rh_RoutingKey = tg_Key t\<rparr>, body)]\<rparr>, seq))"

text \<open>The rest of \<^verbatim>\<open>Call\<close> when the transport reported an error.\<close>

definition call_failed :: "Core \<Rightarrow> u64 \<Rightarrow> goerror \<Rightarrow> Core" where
  "call_failed c seq err =
     (case take_pending c seq of
        (c1, None) \<Rightarrow> c1
      | (c1, Some f) \<Rightarrow>
          let code = CodeOf err in
          finish_with c1 seq f None (if code = OK then ERR_INTERNAL else code))"

definition Call :: "Core \<Rightarrow> int \<Rightarrow> Target \<Rightarrow> string \<Rightarrow> bytes \<Rightarrow> Ctx \<Rightarrow> nat option \<Rightarrow> goerror \<Rightarrow> Core" where
  "Call c now t route body ctx on result =
     (case on of
        None \<Rightarrow> c
      | Some cb \<Rightarrow>
          (case call_start c now t route body ctx cb of
             (c1, seq) \<Rightarrow> if result = NoError then c1 else call_failed c1 seq result))"

definition Send :: "Core \<Rightarrow> Target \<Rightarrow> string \<Rightarrow> bytes \<Rightarrow> Ctx \<Rightarrow> Core" where
  "Send c t route body ctx =
     c\<lparr>rc_frames := rc_frames c @
        [(t, \<lparr>rh_SeqID = 0, rh_Route = route, rh_DeadlineMs = 0, rh_WaiterID = 0,
              rh_SrcNodeID = cx_fromNode ctx, rh_DestNodeID = 0, rh_ServerType = tg_ServerType t,
              rh_RoutingMode = tg_Mode t, rh_RoutingKey = tg_Key t\<rparr>, body)]\<rparr>"

definition OnResponse :: "Core \<Rightarrow> u64 \<Rightarrow> bytes \<Rightarrow> ErrCode \<Rightarrow> Core" where
  "OnResponse c seq payload code =
     (case take_pending c seq of
        (c1, None) \<Rightarrow> c1
      | (c1, Some f) \<Rightarrow> finish_with c1 seq f (Some payload) code)"

definition expired :: "int \<Rightarrow> inflight \<Rightarrow> bool" where
  "expired now f \<longleftrightarrow> (case inf_deadline f of None \<Rightarrow> False | Some d \<Rightarrow> d < now)"

fun finish_all :: "Core \<Rightarrow> (u64 \<times> inflight) list \<Rightarrow> Core" where
  "finish_all c [] = c"
| "finish_all c ((seq, f) # fs) = finish_all (finish_with c seq f None ERR_TIMEOUT) fs"

definition drop_pending :: "Core \<Rightarrow> (inflight \<Rightarrow> bool) \<Rightarrow> Core" where
  "drop_pending c P = c\<lparr>rc_pending := filter (\<lambda>e. \<not> P (snd e)) (rc_pending c)\<rparr>"

definition scanExpired :: "Core \<Rightarrow> int \<Rightarrow> Core" where
  "scanExpired c now =
     finish_all (drop_pending c (expired now)) (filter (\<lambda>e. expired now (snd e)) (rc_pending c))"

definition Core_PendingLen :: "Core \<Rightarrow> nat" where
  "Core_PendingLen c = length (rc_pending c)"

section \<open>The table of open calls\<close>

definition core_ok :: "Core \<Rightarrow> bool" where
  "core_ok c \<longleftrightarrow> wf_map (rc_pending c) \<and> (\<forall>k \<in> set (mkeys (rc_pending c)). 0 < unat k \<and> unat k \<le> unat (rc_seq c))"

definition core_room :: "Core \<Rightarrow> nat" where
  "core_room c = (2 ^ 64 - 1) - unat (rc_seq c)"

lemma core_seq_suc: "0 < core_room c \<Longrightarrow> unat (rc_seq c + 1) = Suc (unat (rc_seq c))"
  by (simp add: core_room_def unat_word_ariths)

lemma register_fresh:
  assumes "core_ok c" and "0 < core_room c"
  shows "map_of (rc_pending c) (rc_seq c + 1) = None"
proof -
  have "rc_seq c + 1 \<notin> set (mkeys (rc_pending c))"
    using assms(1) core_seq_suc [OF assms(2)] unfolding core_ok_def by fastforce
  then show ?thesis by (auto simp: set_mkeys)
qed

lemma core_ok_register:
  assumes "core_ok c" and "0 < core_room c"
  shows "core_ok (fst (register c f))" and "core_room c \<le> Suc (core_room (fst (register c f)))"
  using assms core_seq_suc [OF assms(2)]
  by (auto simp: core_ok_def register_def Let_def mput_def mkeys_def wf_map_def core_room_def mdel_def
      distinct_map_filter intro: le_SucI)

lemma core_ok_take: "core_ok c \<Longrightarrow> core_ok (fst (take_pending c s)) \<and> core_room (fst (take_pending c s)) = core_room c"
  by (auto simp: core_ok_def take_pending_def core_room_def mkeys_def split: option.splits)

lemma core_ok_drop: "core_ok c \<Longrightarrow> core_ok (drop_pending c P) \<and> core_room (drop_pending c P) = core_room c"
  by (auto simp: core_ok_def drop_pending_def core_room_def mkeys_def)

lemma core_views:
  "map_of (rc_pending (fst (register c f))) = (map_of (rc_pending c))(rc_seq c + 1 \<mapsto> f)"
  "snd (register c f) = rc_seq c + 1"
  "snd (take_pending c s) = map_of (rc_pending c) s"
  "map_of (rc_pending (fst (take_pending c s))) = (map_of (rc_pending c))(s := None)"
  by (auto simp: register_def take_pending_def Let_def fun_eq_iff split: option.splits)

interpretation calls: seq_table register take_pending drop_pending "\<lambda>c. map_of (rc_pending c)" core_ok core_room
proof unfold_locales
  fix c :: Core and P k
  assume "core_ok c"
  then show "map_of (rc_pending (drop_pending c P)) k =
      (case map_of (rc_pending c) k of None \<Rightarrow> None | Some v \<Rightarrow> if P v then None else Some v)"
    by (simp add: drop_pending_def core_ok_def map_of_filter_wf split: option.splits)
qed (simp_all add: core_views register_fresh core_ok_register core_ok_take core_ok_drop)

section \<open>Interleavings\<close>

text \<open>
  The atomic sections of the engine: starting a call, the failure branch of a call, a
  response from the transport, a timeout scan at a given time and a one-way send.
\<close>

datatype rpc_event =
    EvCall int Target string bytes Ctx nat
  | EvSendFailed u64 goerror
  | EvResponse u64 bytes ErrCode
  | EvScan int
  | EvSend Target string bytes Ctx

fun rpc_step :: "Core \<Rightarrow> rpc_event \<Rightarrow> Core" where
  "rpc_step c (EvCall now t route body ctx on) = fst (call_start c now t route body ctx on)"
| "rpc_step c (EvSendFailed seq err) = call_failed c seq err"
| "rpc_step c (EvResponse seq payload code) = OnResponse c seq payload code"
| "rpc_step c (EvScan now) = scanExpired c now"
| "rpc_step c (EvSend t route body ctx) = Send c t route body ctx"

text \<open>The callbacks of the started calls, in order of their sequence numbers 1, 2, ...\<close>

fun started :: "rpc_event list \<Rightarrow> nat list" where
  "started [] = []"
| "started (EvCall now t route body ctx on # evs) = on # started evs"
| "started (_ # evs) = started evs"

definition done_with :: "Core \<Rightarrow> u64 \<Rightarrow> nat list" where
  "done_with c k = map dp_callback (filter (\<lambda>d. dp_seq d = k) (rc_calls c))"

text \<open>Who has been or still will be called back for number \<open>k\<close>.\<close>

definition settled :: "Core \<Rightarrow> u64 \<Rightarrow> nat list" where
  "settled c k = done_with c k @ (case map_of (rc_pending c) k of None \<Rightarrow> [] | Some f \<Rightarrow> [inf_onResult f])"

lemma core_ok_cong: "rc_pending c' = rc_pending c \<Longrightarrow> rc_seq c' = rc_seq c \<Longrightarrow> core_ok c' = core_ok c \<and> core_room c' = core_room c"
  by (simp add: core_ok_def core_room_def)

lemma finish_with_fields [simp]:
  "rc_pending (finish_with c s f p code) = rc_pending c" "rc_seq (finish_with c s f p code) = rc_seq c"
  "done_with (finish_with c s f p code) k = done_with c k @ (if k = s then [inf_onResult f] else [])"
  by (simp_all add: finish_with_def done_with_def)

lemma finish_all_fields [simp]:
  "rc_pending (finish_all c es) = rc_pending c" "rc_seq (finish_all c es) = rc_seq c"
  "done_with (finish_all c es) k = done_with c k @ map (\<lambda>e. inf_onResult (snd e)) (filter (\<lambda>e. fst e = k) es)"
  by (induction c es rule: finish_all.induct) simp_all

lemma done_with_upd [simp]: "done_with (c\<lparr>rc_pending := m\<rparr>) k = done_with c k"
  by (simp add: done_with_def)

lemma take_finish_settled:
  "take_pending c s = (c1, Some f) \<Longrightarrow> settled (finish_with c1 s f p code) k = settled c k"
  by (auto simp: take_pending_def settled_def split: option.splits if_splits)

lemma wf_filter_key: "wf_map m \<Longrightarrow> filter (\<lambda>e. fst e = k) m = (case map_of m k of None \<Rightarrow> [] | Some v \<Rightarrow> [(k, v)])"
proof (induction m)
  case (Cons e m)
  then have "wf_map m" "map_of m (fst e) = None" by (auto simp: wf_map_def mkeys_def map_of_eq_None_iff)
  with Cons.IH show ?case by (cases e) auto
qed simp

lemma scan_settled: "core_ok c \<Longrightarrow> settled (scanExpired c now) k = settled c k"
proof -
  assume "core_ok c"
  then have wf: "wf_map (rc_pending c)" by (simp add: core_ok_def)
  have "filter (\<lambda>e. fst e = k) (filter (\<lambda>e. expired now (snd e)) (rc_pending c))
      = filter (\<lambda>e. expired now (snd e)) (filter (\<lambda>e. fst e = k) (rc_pending c))"
    by (simp add: conj_commute)
  then show ?thesis
    by (simp add: settled_def scanExpired_def drop_pending_def map_of_filter_wf [OF wf] wf_filter_key [OF wf]
        split: option.splits)
qed

lemma call_start_settled:
  assumes "core_ok c" and "0 < core_room c"
  shows "settled (fst (call_start c now t route body ctx on)) k = (if k = rc_seq c + 1 then settled c k @ [on] else settled c k)"
  using register_fresh [OF assms]
  by (auto simp: call_start_def register_def settled_def done_with_def Let_def)

lemma rpc_step_ok:
  assumes "core_ok c" and "0 < core_room c"
  shows "core_ok (rpc_step c ev) \<and> core_room c \<le> Suc (core_room (rpc_step c ev))"
proof (cases ev)
  case (EvCall now t route body ctx on)
  let ?f = "\<lparr>inf_onResult = on, inf_deadline = (if 0 < req_timeout c now t ctx then Some (now + req_timeout c now t ctx) else None)\<rparr>"
  have "rc_pending (rpc_step c ev) = rc_pending (fst (register c ?f))" "rc_seq (rpc_step c ev) = rc_seq (fst (register c ?f))"
    by (simp_all add: EvCall call_start_def register_def Let_def)
  with core_ok_register [OF assms, of ?f] core_ok_cong show ?thesis by metis
next
  case (EvSendFailed seq err)
  obtain c1 r where "take_pending c seq = (c1, r)" by fastforce
  with core_ok_take [OF assms(1), of seq] EvSendFailed show ?thesis
    by (cases r) (simp_all add: call_failed_def Let_def core_ok_cong [of "finish_with _ _ _ _ _" c1])
next
  case (EvResponse seq payload code)
  obtain c1 r where "take_pending c seq = (c1, r)" by fastforce
  with core_ok_take [OF assms(1), of seq] EvResponse show ?thesis
    by (cases r) (simp_all add: OnResponse_def core_ok_cong [of "finish_with _ _ _ _ _" c1])
next
  case (EvScan now)
  with core_ok_drop [OF assms(1), of "expired now"] show ?thesis
    by (simp add: scanExpired_def core_ok_cong [of "finish_all _ _" "drop_pending c (expired now)"])
next
  case (EvSend t route body ctx)
  then show ?thesis using assms(1) by (simp add: Send_def core_ok_def core_room_def)
qed

text \<open>What is accounted for after a history: every started call once, nothing else.\<close>

definition accounts :: "Core \<Rightarrow> nat list \<Rightarrow> bool" where
  "accounts c cbs \<longleftrightarrow> core_ok c \<and> length cbs = unat (rc_seq c) \<and>
     (\<forall>k. settled c k = (if 0 < unat k \<and> unat k \<le> length cbs then [cbs ! (unat k - 1)] else []))"

lemma settled_unchanged:
  assumes "core_ok c" and "\<And>now t route body ctx on. ev \<noteq> EvCall now t route body ctx on"
  shows "settled (rpc_step c ev) k = settled c k" and "rc_seq (rpc_step c ev) = rc_seq c"
proof -
  have "settled (rpc_step c ev) k = settled c k \<and> rc_seq (rpc_step c ev) = rc_seq c"
  proof (cases ev)
    case (EvSendFailed seq err)
    show ?thesis
    proof (cases "map_of (rc_pending c) seq")
      case None
      then show ?thesis by (simp add: EvSendFailed call_failed_def take_pending_def)
    next
      case (Some f)
      then have "take_pending c seq = (c\<lparr>rc_pending := mdel seq (rc_pending c)\<rparr>, Some f)" by (simp add: take_pending_def)
      with take_finish_settled [OF this] show ?thesis by (simp add: EvSendFailed call_failed_def Let_def)
    qed
  next
    case (EvResponse seq payload code)
    show ?thesis
    proof (cases "map_of (rc_pending c) seq")
      case None
      then show ?thesis by (simp add: EvResponse OnResponse_def take_pending_def)
    next
      case (Some f)
      then have "take_pending c seq = (c\<lparr>rc_pending := mdel seq (rc_pending c)\<rparr>, Some f)" by (simp add: take_pending_def)
      with take_finish_settled [OF this] show ?thesis by (simp add: EvResponse OnResponse_def)
    qed
  next
    case (EvScan now)
    then show ?thesis using scan_settled [OF assms(1)] by (simp add: scanExpired_def drop_pending_def)
  next
    case (EvSend t route body ctx)
    then show ?thesis by (simp add: Send_def settled_def done_with_def)
  qed (use assms(2) in blast)
  then show "settled (rpc_step c ev) k = settled c k" and "rc_seq (rpc_step c ev) = rc_seq c" by blast+
qed

lemma accounts_step:
  assumes "accounts c cbs" and "0 < core_room c"
  shows "accounts (rpc_step c ev) (cbs @ started [ev])"
proof -
  have ok: "core_ok c" and len: "length cbs = unat (rc_seq c)"
    and acc: "\<And>k. settled c k = (if 0 < unat k \<and> unat k \<le> length cbs then [cbs ! (unat k - 1)] else [])"
    using assms(1) by (auto simp: accounts_def)
  note okS = rpc_step_ok [OF ok assms(2), of ev]
  show ?thesis
  proof (cases "\<exists>now t route body ctx on. ev = EvCall now t route body ctx on")
    case False
    then have "started [ev] = []" by (cases ev) auto
    with okS len acc settled_unchanged [OF ok, of ev] False show ?thesis by (simp add: accounts_def)
  next
    case True
    then obtain now t route body ctx on where ev: "ev = EvCall now t route body ctx on" by blast
    have seq: "rc_seq (rpc_step c ev) = rc_seq c + 1" by (simp add: ev call_start_def register_def Let_def)
    note suc = core_seq_suc [OF assms(2)]
    have "settled (rpc_step c ev) k = (if 0 < unat k \<and> unat k \<le> Suc (length cbs) then [(cbs @ [on]) ! (unat k - 1)] else [])" for k
    proof (cases "k = rc_seq c + 1")
      case True
      then show ?thesis using call_start_settled [OF ok assms(2)] acc [of k] len suc by (simp add: ev nth_append)
    next
      case False
      then have "unat k \<noteq> Suc (length cbs)" using suc len by (metis word_unat_eq_iff)
      with False show ?thesis using call_start_settled [OF ok assms(2)] acc [of k] by (auto simp: ev nth_append)
    qed
    with okS seq suc len show ?thesis by (simp add: accounts_def ev)
  qed
qed

lemma started_append: "started (evs @ evs') = started evs @ started evs'"
  by (induction evs rule: started.induct) simp_all

lemma accounts_run:
  "length evs \<le> core_room c \<Longrightarrow> accounts c cbs \<Longrightarrow> accounts (foldl rpc_step c evs) (cbs @ started evs)"
proof (induction evs arbitrary: c cbs)
  case (Cons ev evs)
  have r: "0 < core_room c" using Cons.prems(1) by simp
  have ok: "core_ok c" using Cons.prems(2) by (simp add: accounts_def)
  from rpc_step_ok [OF ok r, of ev] Cons.prems(1) have "length evs \<le> core_room (rpc_step c ev)" by simp
  from Cons.IH [OF this accounts_step [OF Cons.prems(2) r]] show ?case
    using started_append [of "[ev]" evs] by simp
qed simp

lemma accounts_New: "accounts (New t) []"
  by (auto simp: accounts_def New_def core_ok_def mkeys_def settled_def done_with_def)

text \<open>The number of open and finished calls changes only with a new call.\<close>

lemma length_finish_all: "length (rc_calls (finish_all c es)) = length (rc_calls c) + length es"
  by (induction c es rule: finish_all.induct) (simp_all add: finish_with_def)

lemma pending_balance:
  assumes "core_ok c" and "0 < core_room c"
  shows "length (rc_calls (rpc_step c ev)) + length (rc_pending (rpc_step c ev)) =
    length (rc_calls c) + length (rc_pending c) + length (started [ev])"
proof -
  have wf: "wf_map (rc_pending c)" using assms(1) by (simp add: core_ok_def)
  have take: "length (rc_calls c1) = length (rc_calls c) \<and> length (rc_pending c) = length (rc_pending c1) + (if r = None then 0 else 1)"
    if "take_pending c s = (c1, r)" for s c1 r
    using that length_mdel_present [OF wf, of s] by (auto simp: take_pending_def split: option.splits)
  show ?thesis
  proof (cases ev)
    case (EvCall now t route body ctx on)
    then show ?thesis using register_fresh [OF assms] by (simp add: call_start_def register_def mput_def Let_def)
  next
    case (EvSendFailed seq err)
    obtain c1 r where "take_pending c seq = (c1, r)" by fastforce
    with take [of seq c1 r] EvSendFailed show ?thesis
      by (cases r) (simp_all add: call_failed_def Let_def, simp add: finish_with_def)
  next
    case (EvResponse seq payload code)
    obtain c1 r where "take_pending c seq = (c1, r)" by fastforce
    with take [of seq c1 r] EvResponse show ?thesis
      by (cases r) (simp_all add: OnResponse_def, simp add: finish_with_def)
  next
    case (EvScan now)
    then show ?thesis
      using sum_length_filter_compl [of "\<lambda>e. expired now (snd e)" "rc_pending c"]
      by (simp add: scanExpired_def length_finish_all) (simp add: drop_pending_def)
  qed (simp add: Send_def)
qed

lemma balance_run:
  "length evs \<le> core_room c \<Longrightarrow> core_ok c \<Longrightarrow>
   length (rc_calls (foldl rpc_step c evs)) + length (rc_pending (foldl rpc_step c evs)) =
   length (rc_calls c) + length (rc_pending c) + length (started evs)"
proof (induction evs arbitrary: c)
  case (Cons ev evs)
  have r: "0 < core_room c" using Cons.prems(1) by simp
  with rpc_step_ok [OF Cons.prems(2) r, of ev] Cons pending_balance [OF Cons.prems(2) r, of ev] show ?case
    using started_append [of "[ev]" evs] by simp
qed simp

lemma started_le: "length (started evs) \<le> length evs"
  by (induction evs rule: started.induct) simp_all

lemma settled_started:
  assumes "accounts c cbs" and "i < length cbs" and "length cbs < 2 ^ 64"
  shows "settled c (word_of_nat (Suc i)) = [cbs ! i]"
proof -
  have "Suc i < 2 ^ 64" using assms(2,3) by linarith
  then have "unat (word_of_nat (Suc i) :: u64) = Suc i" by (simp add: unat_of_nat del: of_nat_Suc)
  with assms(1,2) show ?thesis by (simp add: accounts_def)
qed

text \<open>C2: Every RPC callback is invoked exactly once. For every interleaving of calls, send
  failures, responses (also late, duplicated or forged ones), timeout scans and one-way
  sends, the callback of the \<open>i\<close>-th call either is still to come, and then the call is open, or
  has been dispatched once under its own sequence number, and then the call is closed;
  nothing is dispatched that was not called.\<close>

theorem callbacks_exactly_once:
  assumes "length evs < 2 ^ 64" and "c = foldl rpc_step (New t) evs"
  shows "(\<forall>i < length (started evs).
      (map_of (rc_pending c) (word_of_nat (Suc i)) \<noteq> None \<and> done_with c (word_of_nat (Suc i)) = [])
      \<or> (map_of (rc_pending c) (word_of_nat (Suc i)) = None \<and> done_with c (word_of_nat (Suc i)) = [started evs ! i]))
    \<and> length (rc_calls c) + length (rc_pending c) = length (started evs)"
proof -
  have room: "length evs \<le> core_room (New t)" using assms(1) by (simp add: core_room_def New_def)
  from accounts_run [OF this accounts_New] have acc: "accounts c (started evs)" by (simp add: assms(2))
  have one: "settled c (word_of_nat (Suc i)) = [started evs ! i]" if "i < length (started evs)" for i
    using settled_started [OF acc that] started_le [of evs] assms(1) by linarith
  have "(map_of (rc_pending c) (word_of_nat (Suc i)) \<noteq> None \<and> done_with c (word_of_nat (Suc i)) = [])
      \<or> (map_of (rc_pending c) (word_of_nat (Suc i)) = None \<and> done_with c (word_of_nat (Suc i)) = [started evs ! i])"
    if "i < length (started evs)" for i
    using one [OF that] by (auto simp: settled_def append_eq_Cons_conv split: option.splits)
  moreover have "core_ok (New t)" by (simp add: New_def core_ok_def mkeys_def)
  from balance_run [OF room this] have "length (rc_calls c) + length (rc_pending c) = length (started evs)"
    by (simp add: assms(2) New_def)
  ultimately show ?thesis by blast
qed

definition demo_target :: Target where
  "demo_target = \<lparr>tg_ServerType = 2, tg_Mode = RoutingAny, tg_Key = [], tg_NodeID = 0, tg_Deadline = 0\<rparr>"

definition demo_events :: "rpc_event list" where
  "demo_events = [EvCall 0 demo_target ''a'' [] Background 11, EvCall 5 demo_target ''b'' [] Background 12,
     EvResponse 2 [7] 0, EvScan 4, EvResponse 2 [8] 0, EvSendFailed 9 NoError]"

theorem callbacks_exactly_once_witness:
  "length (rc_calls (foldl rpc_step (New 100) demo_events)) + length (rc_pending (foldl rpc_step (New 100) demo_events)) = 2"
  using callbacks_exactly_once [OF _ refl, of demo_events 100] by (simp add: demo_events_def)

section \<open>Every call ends\<close>

text \<open>An open call keeps its entry until it is taken out, and a closed one stays closed.\<close>

lemma pending_step:
  assumes "core_ok c" and "0 < core_room c" and "0 < unat k" and "unat k \<le> unat (rc_seq c)"
  shows "map_of (rc_pending (rpc_step c ev)) k = map_of (rc_pending c) k \<or> map_of (rc_pending (rpc_step c ev)) k = None"
    and "unat (rc_seq c) \<le> unat (rc_seq (rpc_step c ev))"
proof -
  have wf: "wf_map (rc_pending c)" using assms(1) by (simp add: core_ok_def)
  have "(map_of (rc_pending (rpc_step c ev)) k = map_of (rc_pending c) k \<or> map_of (rc_pending (rpc_step c ev)) k = None)
    \<and> unat (rc_seq c) \<le> unat (rc_seq (rpc_step c ev))"
  proof (cases ev)
    case (EvCall now t route body ctx on)
    have "k \<noteq> rc_seq c + 1" using assms(4) core_seq_suc [OF assms(2)] by auto
    then show ?thesis
      using core_seq_suc [OF assms(2)] by (simp add: EvCall call_start_def register_def Let_def)
  next
    case (EvScan now)
    then show ?thesis
      by (simp add: scanExpired_def drop_pending_def map_of_filter_wf [OF wf] split: option.splits)
  qed (auto simp: call_failed_def OnResponse_def take_pending_def Send_def Let_def split: option.splits)
  then show "map_of (rc_pending (rpc_step c ev)) k = map_of (rc_pending c) k \<or> map_of (rc_pending (rpc_step c ev)) k = None"
    and "unat (rc_seq c) \<le> unat (rc_seq (rpc_step c ev))" by auto
qed

lemma pending_run:
  assumes "0 < unat k"
  shows "core_ok c \<Longrightarrow> length evs \<le> core_room c \<Longrightarrow> unat k \<le> unat (rc_seq c) \<Longrightarrow>
    core_ok (foldl rpc_step c evs) \<and>
    (map_of (rc_pending (foldl rpc_step c evs)) k = map_of (rc_pending c) k \<or> map_of (rc_pending (foldl rpc_step c evs)) k = None)"
proof (induction evs arbitrary: c)
  case (Cons ev evs)
  have r: "0 < core_room c" using Cons.prems(2) by simp
  note p = pending_step [OF Cons.prems(1) r assms Cons.prems(3), of ev] and ok = rpc_step_ok [OF Cons.prems(1) r, of ev]
  have "length evs \<le> core_room (rpc_step c ev)" using ok Cons.prems(2) by simp
  with Cons.IH [of "rpc_step c ev"] ok p Cons.prems(3) show ?case by auto
qed simp

lemma scan_closes:
  "core_ok c \<Longrightarrow> map_of (rc_pending c) k = None \<or> (\<exists>f d. map_of (rc_pending c) k = Some f \<and> inf_deadline f = Some d \<and> d < now) \<Longrightarrow>
   map_of (rc_pending (scanExpired c now)) k = None"
  by (auto simp: core_ok_def scanExpired_def drop_pending_def map_of_filter_wf expired_def split: option.splits)

lemma seq_run:
  "core_ok c \<Longrightarrow> length evs \<le> core_room c \<Longrightarrow>
   unat (rc_seq c) \<le> unat (rc_seq (foldl rpc_step c evs)) \<and> core_room c \<le> core_room (foldl rpc_step c evs) + length evs"
proof (induction evs arbitrary: c)
  case (Cons ev evs)
  have r: "0 < core_room c" using Cons.prems(2) by simp
  note ok = rpc_step_ok [OF Cons.prems(1) r, of ev]
  have "unat (rc_seq c) \<le> unat (rc_seq (rpc_step c ev))"
    using settled_unchanged(2) [OF Cons.prems(1), of ev] core_seq_suc [OF r]
    by (cases ev) (auto simp: call_start_def register_def Let_def)
  with Cons.IH [of "rpc_step c ev"] ok Cons.prems(2) show ?case by simp
qed simp

text \<open>From the start of a call on, an expired entry is gone after the scan and stays gone.\<close>

lemma closed_after_scan:
  assumes "core_ok c" and "Suc (length evs2 + length evs3) \<le> core_room c" and "0 < unat k" and "unat k \<le> unat (rc_seq c)"
    and "map_of (rc_pending c) k = Some f" and "inf_deadline f = Some d" and "d < now"
  shows "map_of (rc_pending (foldl rpc_step c (evs2 @ EvScan now # evs3))) k = None"
proof -
  define c3 where "c3 = foldl rpc_step c evs2"
  define c4 where "c4 = rpc_step c3 (EvScan now)"
  have "core_ok c3" and p3: "map_of (rc_pending c3) k = map_of (rc_pending c) k \<or> map_of (rc_pending c3) k = None"
    using pending_run [OF assms(3,1), of evs2] assms(2,4) by (simp_all add: c3_def)
  have room3: "Suc (length evs3) \<le> core_room c3" and seq3: "unat k \<le> unat (rc_seq c3)"
    using seq_run [OF assms(1), of evs2] assms(2,4) by (simp_all add: c3_def)
  have "map_of (rc_pending c4) k = None"
    using scan_closes [OF \<open>core_ok c3\<close>, of k now] p3 assms(5-7) by (auto simp: c4_def)
  moreover have "core_ok c4" "length evs3 \<le> core_room c4" "unat k \<le> unat (rc_seq c4)"
    using rpc_step_ok [OF \<open>core_ok c3\<close>, of "EvScan now"] room3 seq3 settled_unchanged(2) [OF \<open>core_ok c3\<close>, of "EvScan now"]
    by (simp_all add: c4_def del: rpc_step.simps)
  ultimately show ?thesis
    using pending_run [OF assms(3), of c4 evs3] by (simp add: c3_def c4_def)
qed

lemma call_ends:
  assumes "accounts c cbs" and "Suc (Suc (length evs2 + length evs3)) \<le> core_room c"
    and "0 < req_timeout c t0 t ctx" and "t0 + req_timeout c t0 t ctx < now"
  shows "done_with (foldl rpc_step c (EvCall t0 t route body ctx on # evs2 @ EvScan now # evs3)) (rc_seq c + 1) = [on]"
proof -
  let ?ev = "EvCall t0 t route body ctx on" and ?k = "rc_seq c + 1"
  let ?c = "foldl rpc_step c (?ev # evs2 @ EvScan now # evs3)"
  have ok: "core_ok c" and len: "length cbs = unat (rc_seq c)" using assms(1) by (simp_all add: accounts_def)
  have r: "0 < core_room c" using assms(2) by simp
  have k: "unat ?k = Suc (length cbs)" using core_seq_suc [OF r] len by simp
  have "accounts ?c (cbs @ started (?ev # evs2 @ EvScan now # evs3))"
    using assms(1,2) by (intro accounts_run) simp_all
  then have "settled ?c ?k = [on]" using k by (simp add: accounts_def nth_append)
  moreover have "map_of (rc_pending ?c) ?k = None"
  proof -
    have "map_of (rc_pending (rpc_step c ?ev)) ?k = Some \<lparr>inf_onResult = on, inf_deadline = Some (t0 + req_timeout c t0 t ctx)\<rparr>"
      "rc_seq (rpc_step c ?ev) = ?k"
      using assms(3) by (simp_all add: call_start_def register_def Let_def)
    then show ?thesis
      using closed_after_scan [of "rpc_step c ?ev" evs2 evs3 ?k _ _ now] rpc_step_ok [OF ok r, of ?ev] assms(2,4) k by simp
  qed
  ultimately show ?thesis by (simp add: settled_def)
qed

text \<open>C3: No call hangs. A call that is given a positive time, by its context, its target or
  the default, has had its callback dispatched exactly once as soon as one timeout scan has
  run after that time, whatever else happened before and after the scan.\<close>

theorem call_ends_by_deadline:
  assumes "length evs1 + length evs2 + length evs3 < 2 ^ 64 - 2"
    and "0 < req_timeout (foldl rpc_step (New d) evs1) t0 t ctx"
    and "t0 + req_timeout (foldl rpc_step (New d) evs1) t0 t ctx < now"
    and "c = foldl rpc_step (New d) (evs1 @ EvCall t0 t route body ctx on # evs2 @ EvScan now # evs3)"
  shows "done_with c (word_of_nat (Suc (length (started evs1)))) = [on]"
proof -
  let ?c1 = "foldl rpc_step (New d) evs1"
  have room0: "core_room (New d) = 2 ^ 64 - 1" by (simp add: core_room_def New_def)
  then have le1: "length evs1 \<le> core_room (New d)" using assms(1) by linarith
  note acc1 = accounts_run [OF le1 accounts_New]
  have "core_ok (New d)" using accounts_New by (simp add: accounts_def)
  from seq_run [OF this le1] have "core_room (New d) \<le> core_room ?c1 + length evs1" by simp
  then have room1: "Suc (Suc (length evs2 + length evs3)) \<le> core_room ?c1" using assms(1) room0 by linarith
  have "rc_seq ?c1 = word_of_nat (length (started evs1))" using acc1 by (simp add: accounts_def)
  then have "rc_seq ?c1 + 1 = word_of_nat (Suc (length (started evs1)))" by simp
  with call_ends [OF acc1 room1 assms(2,3), of route body on] show ?thesis by (simp add: assms(4))
qed

theorem call_ends_by_deadline_witness:
  "done_with (foldl rpc_step (New 100) ([] @ EvCall 0 demo_target ''a'' [] Background 11 # [EvResponse 5 [] 0] @ EvScan 101 # [EvScan 7])) (word_of_nat 1) = [11]"
  using call_ends_by_deadline [of "[]" "[EvResponse 5 [] 0]" "[EvScan 7]" 100 0 demo_target Background 101, OF _ _ _ refl]
  by (simp add: req_timeout_def Remaining_def Background_def demo_target_def New_def Let_def)

text \<open>
  A context whose deadline has already passed does not shorten the call: its negative rest is
  replaced by the full default.
\<close>

lemma expired_context_gets_default:
  "cx_deadline ctx = Some d \<Longrightarrow> d < now \<Longrightarrow> tg_Deadline t = 0 \<Longrightarrow> req_timeout c now t ctx = rc_timeout c"
  by (simp add: req_timeout_def Remaining_def time_Sub_def Let_def)

end
