(* ===== verification/Rpc_Compose.thy ===== *)
theory Rpc_Compose
  imports Rpc_Core
begin

text \<open>
  Composition of asynchronous calls (\<^verbatim>\<open>rpc/compose.go\<close>): \<^verbatim>\<open>Join2\<close> to \<^verbatim>\<open>Join4\<close>, \<^verbatim>\<open>Each\<close> and the sequence
  builder, and the one-shot reply and route table of \<^verbatim>\<open>rpc/dispatcher.go\<close>. The joins and \<^verbatim>\<open>Each\<close>
  count their open branches down; the locale \<open>countdown\<close> states that shape once.
\<close>

section \<open>Counting down open branches\<close>

locale countdown =
  fixes cb :: "'s \<Rightarrow> 'ev \<Rightarrow> 's" and left :: "'s \<Rightarrow> int" and fired :: "'s \<Rightarrow> 'o list"
  assumes back_left: "1 \<le> left s \<Longrightarrow> left s < 2 ^ 31 \<Longrightarrow> left (cb s e) = left s - 1"
    and back_waits: "2 \<le> left s \<Longrightarrow> left s < 2 ^ 31 \<Longrightarrow> fired (cb s e) = fired s"
    and back_fires: "left s = 1 \<Longrightarrow> \<exists>out. fired (cb s e) = fired s @ [out]"
begin

lemma counts:
  "int (length es) \<le> left s \<Longrightarrow> left s < 2 ^ 31 \<Longrightarrow> left (foldl cb s es) = left s - int (length es)"
proof (induction es arbitrary: s)
  case (Cons e es)
  then have "left (cb s e) = left s - 1" by (intro back_left) auto
  with Cons.IH [of "cb s e"] Cons.prems show ?case by simp
qed simp

lemma silent_before:
  "int (length es) < left s \<Longrightarrow> left s < 2 ^ 31 \<Longrightarrow> fired (foldl cb s es) = fired s"
proof (induction es arbitrary: s)
  case (Cons e es)
  then have "left (cb s e) = left s - 1" "fired (cb s e) = fired s"
    by (intro back_left back_waits; simp)+
  with Cons.IH [of "cb s e"] Cons.prems show ?case by simp
qed simp

text \<open>Exactly one completion, with the last branch.\<close>

lemma fires_once:
  assumes "left s = int (length (es @ [e]))" and "left s < 2 ^ 31"
  shows "\<exists>out. fired (foldl cb s (es @ [e])) = fired s @ [out]" and "left (foldl cb s es) = 1"
proof -
  have "left (foldl cb s es) = 1" "fired (foldl cb s es) = fired s"
    using counts [of es s] silent_before [of es s] assms by auto
  then show "left (foldl cb s es) = 1" "\<exists>out. fired (foldl cb s (es @ [e])) = fired s @ [out]"
    using back_fires [of "foldl cb s es" e] by auto
qed

end

section \<open>Joins\<close>

text \<open>
  \<^verbatim>\<open>Join2\<close>, \<^verbatim>\<open>Join3\<close> and \<^verbatim>\<open>Join4\<close> are the same text for two, three and four branches: a result
  and an error variable per branch, an atomic counter, and a final check of the errors in
  the order of the branches. The result variables are a list here, their different types a
  common one; a nil pointer is \<open>None\<close>.
\<close>

record 'v join =
  jn_res :: "'v option list"
  jn_err :: "goerror list"
  jn_left :: int
  jn_done :: "('v option list \<times> goerror) list"

definition join_start :: "nat \<Rightarrow> 'v join" where
  "join_start n = \<lparr>jn_res = replicate n None, jn_err = replicate n NoError, jn_left = int n, jn_done = []\<rparr>"

definition Join2 :: "'v join" where "Join2 = join_start 2"
definition Join3 :: "'v join" where "Join3 = join_start 3"
definition Join4 :: "'v join" where "Join4 = join_start 4"

definition join_outcome :: "'v option list \<Rightarrow> goerror list \<Rightarrow> 'v option list \<times> goerror" where
  "join_outcome res errs =
     (case find (\<lambda>e. e \<noteq> NoError) errs of
        Some e \<Rightarrow> (replicate (length res) None, e)
      | None \<Rightarrow> (res, NoError))"

definition join_finish :: "'v join \<Rightarrow> 'v join" where
  "join_finish s =
     (let s1 = s\<lparr>jn_left := wrap_s32 (jn_left s - 1)\<rparr> in
      if jn_left s1 \<noteq> 0 then s1 else s1\<lparr>jn_done := jn_done s @ [join_outcome (jn_res s) (jn_err s)]\<rparr>)"

text \<open>The callback given to branch \<open>i\<close>.\<close>

definition join_back :: "'v join \<Rightarrow> nat \<times> 'v option \<times> goerror \<Rightarrow> 'v join" where
  "join_back s ev =
     (case ev of (i, v, err) \<Rightarrow> join_finish (s\<lparr>jn_res := (jn_res s)[i := v], jn_err := (jn_err s)[i := err]\<rparr>))"

lemma wrap_s32_0 [simp]: "wrap_s32 0 = 0"
  by (simp add: wrap_s32_def)

lemma wrap_s32_dec: "1 \<le> x \<Longrightarrow> x < 2 ^ 31 \<Longrightarrow> wrap_s32 (x - 1) = x - 1"
  by (intro wrap_s32_id) (simp add: in_s32_def)

interpretation joins: countdown join_back jn_left jn_done
  by unfold_locales (auto simp: join_back_def join_finish_def Let_def wrap_s32_dec split: prod.splits)

lemma join_back_vars:
  "jn_res (foldl join_back s evs) = foldl (\<lambda>r ev. r[fst ev := fst (snd ev)]) (jn_res s) evs"
  "jn_err (foldl join_back s evs) = foldl (\<lambda>r ev. r[fst ev := snd (snd ev)]) (jn_err s) evs"
  by (induction evs arbitrary: s) (auto simp: join_back_def join_finish_def Let_def split: prod.splits)

text \<open>Writing each position once, in any order, leaves the value of its event.\<close>

lemma foldl_updates:
  assumes "distinct (map fst evs)" and "(i, v) \<in> set evs" and "i < length r"
  shows "foldl (\<lambda>r ev. r[fst ev := g (snd ev)]) r evs ! i = g v"
  using assms
proof (induction evs arbitrary: r rule: rev_induct)
  case (snoc ev evs)
  have len: "length (foldl (\<lambda>r ev. r[fst ev := g (snd ev)]) r evs) = length r"
    by (induction evs arbitrary: r) simp_all
  show ?case
  proof (cases "ev = (i, v)")
    case True
    with snoc.prems(3) len show ?thesis by simp
  next
    case False
    with snoc.prems have "(i, v) \<in> set evs" "fst ev \<noteq> i" "distinct (map fst evs)" by (auto simp: image_iff)
    with snoc.IH snoc.prems(3) show ?thesis by simp
  qed
qed simp

lemma foldl_updates_list:
  assumes "distinct (map fst evs)" and "set (map fst evs) = {..<n}" and "length r = n"
    and "\<And>i. i < n \<Longrightarrow> (i, vs i) \<in> set evs"
  shows "foldl (\<lambda>r ev. r[fst ev := g (snd ev)]) r evs = map (\<lambda>i. g (vs i)) [0..<n]"
proof (rule nth_equalityI)
  have "length (foldl (\<lambda>r ev. r[fst ev := g (snd ev)]) r evs) = length r" for r
    by (induction evs arbitrary: r) simp_all
  then show "length (foldl (\<lambda>r ev. r[fst ev := g (snd ev)]) r evs) = length (map (\<lambda>i. g (vs i)) [0..<n])"
    and "i < length (foldl (\<lambda>r ev. r[fst ev := g (snd ev)]) r evs) \<Longrightarrow>
      foldl (\<lambda>r ev. r[fst ev := g (snd ev)]) r evs ! i = map (\<lambda>i. g (vs i)) [0..<n] ! i" for i
    using assms foldl_updates [OF assms(1), of i "vs i" r g] by simp_all
qed

text \<open>A complete round of callbacks: every branch calls back once, in any order.\<close>

definition full_round :: "nat \<Rightarrow> (nat \<Rightarrow> 'v option \<times> goerror) \<Rightarrow> (nat \<times> 'v option \<times> goerror) list \<Rightarrow> bool" where
  "full_round n vs evs \<longleftrightarrow> distinct (map fst evs) \<and> set evs = (\<lambda>i. (i, vs i)) ` {..<n}"

lemma full_round_facts:
  assumes "full_round n vs evs"
  shows "length evs = n" and "set (map fst evs) = {..<n}" and "\<And>i. i < n \<Longrightarrow> (i, vs i) \<in> set evs" and "distinct (map fst evs)"
proof -
  show d: "distinct (map fst evs)" and "\<And>i. i < n \<Longrightarrow> (i, vs i) \<in> set evs" using assms by (auto simp: full_round_def)
  show s: "set (map fst evs) = {..<n}" using assms by (force simp: full_round_def)
  show "length evs = n" using distinct_card [OF d] s by simp
qed

lemma join_completes:
  assumes "full_round n vs evs" and "0 < n" and "n < 2 ^ 31"
  shows "jn_done (foldl join_back (join_start n) evs) =
    [join_outcome (map (\<lambda>i. fst (vs i)) [0..<n]) (map (\<lambda>i. snd (vs i)) [0..<n])]"
proof -
  note f = full_round_facts [OF assms(1)]
  obtain es e where ev: "evs = es @ [e]" using f(1) assms(2) by (cases evs rule: rev_cases) auto
  have l: "jn_left (join_start n) = int (length (es @ [e]))" "jn_left (join_start n) < 2 ^ 31"
    using f(1) assms(3) by (simp_all add: join_start_def ev)
  let ?s = "foldl join_back (join_start n) es"
  have "jn_left ?s = 1" using joins.fires_once(2) [OF l] .
  moreover have "jn_done ?s = []" using joins.silent_before [of es "join_start n"] l by (simp add: join_start_def)
  ultimately have "jn_done (foldl join_back (join_start n) evs) =
      [join_outcome (jn_res (foldl join_back (join_start n) evs)) (jn_err (foldl join_back (join_start n) evs))]"
    by (simp add: ev join_back_def join_finish_def Let_def wrap_s32_dec split: prod.splits)
  moreover have "jn_res (foldl join_back (join_start n) evs) = map (\<lambda>i. fst (vs i)) [0..<n]"
    "jn_err (foldl join_back (join_start n) evs) = map (\<lambda>i. snd (vs i)) [0..<n]"
    using foldl_updates_list [OF f(4,2) _ f(3), of _ fst] foldl_updates_list [OF f(4,2) _ f(3), of _ snd]
    by (simp_all add: join_back_vars join_start_def)
  ultimately show ?thesis by simp
qed

text \<open>A join of two, three or four calls completes exactly once, when the last branch has
  called back, whatever the order: with all results if no branch failed, else with no results
  and the error of the first failed branch in the order of the arguments.\<close>

theorem join_exactly_once:
  assumes "n \<in> {2, 3, 4}" and "full_round n vs evs" and "j = (if n = 2 then Join2 else if n = 3 then Join3 else Join4)"
  shows "jn_done (foldl join_back j evs) =
      [join_outcome (map (\<lambda>i. fst (vs i)) [0..<n]) (map (\<lambda>i. snd (vs i)) [0..<n])]
    \<and> (\<forall>k < n. jn_done (foldl join_back j (take k evs)) = [])"
proof -
  have j: "j = join_start n" using assms(1,3) by (auto simp: Join2_def Join3_def Join4_def)
  have n: "0 < n" "n < 2 ^ 31" using assms(1) by auto
  have "jn_done (foldl join_back j (take k evs)) = []" if "k < n" for k
    using joins.silent_before [of "take k evs" "join_start n"] that n(2) full_round_facts(1) [OF assms(2)]
    by (simp add: j join_start_def)
  with join_completes [OF assms(2) n] show ?thesis by (simp add: j)
qed

theorem join_exactly_once_witness:
  "jn_done (foldl join_back Join2 [(1, Some (7 :: nat), NoError), (0, None, Plain ''x'')]) = [([None, None], Plain ''x'')]"
proof -
  let ?vs = "\<lambda>i :: nat. if i = 0 then (None, Plain ''x'') else (Some (7 :: nat), NoError)"
  have "full_round 2 ?vs [(1, Some 7, NoError), (0, None, Plain ''x'')]"
    by (auto simp: full_round_def lessThan_Suc numeral_2_eq_2)
  from join_exactly_once [OF _ this refl] show ?thesis by (simp add: join_outcome_def upt_rec)
qed

section \<open>Each\<close>

text \<open>
  \<^verbatim>\<open>Each\<close> runs one step per item: results by position, errors through a channel with room for
  all of them, of which the first one that arrived is reported.
\<close>

record 'v each =
  ea_results :: "'v option list"
  ea_errs :: "goerror list"
  ea_pending :: int
  ea_done :: "('v option list \<times> goerror) list"

definition Each :: "nat \<Rightarrow> 'v each" where
  "Each n =
     \<lparr>ea_results = replicate n None, ea_errs = [], ea_pending = wrap_s32 (int n),
      ea_done = (if n = 0 then [([], NoError)] else [])\<rparr>"

definition each_back :: "'v each \<Rightarrow> nat \<times> 'v option \<times> goerror \<Rightarrow> 'v each" where
  "each_back s ev =
     (case ev of (i, v, err) \<Rightarrow>
        let s1 = (if err \<noteq> NoError \<and> length (ea_errs s) < length (ea_results s)
                  then s\<lparr>ea_errs := ea_errs s @ [err]\<rparr> else s);
            s2 = s1\<lparr>ea_results := (ea_results s1)[i := v], ea_pending := wrap_s32 (ea_pending s1 - 1)\<rparr>
        in if ea_pending s2 \<noteq> 0 then s2
           else case ea_errs s2 of
                  e # es \<Rightarrow> s2\<lparr>ea_errs := es, ea_done := ea_done s2 @ [(ea_results s2, e)]\<rparr>
                | [] \<Rightarrow> s2\<lparr>ea_done := ea_done s2 @ [(ea_results s2, NoError)]\<rparr>)"

interpretation eachs: countdown each_back ea_pending ea_done
  by unfold_locales (auto simp: each_back_def Let_def wrap_s32_dec split: prod.splits list.splits)

lemma each_back_results:
  "ea_results (foldl each_back s evs) = foldl (\<lambda>r ev. r[fst ev := fst (snd ev)]) (ea_results s) evs"
  by (induction evs arbitrary: s) (auto simp: each_back_def Let_def split: prod.splits list.splits)

lemma each_back_errs:
  assumes "int (length evs) < ea_pending s" and "ea_pending s < 2 ^ 31"
    and "length (ea_errs s) + length evs \<le> length (ea_results s)"
  shows "ea_errs (foldl each_back s evs) = ea_errs s @ filter (\<lambda>e. e \<noteq> NoError) (map (\<lambda>ev. snd (snd ev)) evs)"
  using assms
proof (induction evs arbitrary: s)
  case (Cons ev evs)
  have p: "ea_pending (each_back s ev) = ea_pending s - 1" using Cons.prems by (intro eachs.back_left) auto
  have e: "ea_errs (each_back s ev) = ea_errs s @ filter (\<lambda>e. e \<noteq> NoError) [snd (snd ev)]"
    and r: "length (ea_results (each_back s ev)) = length (ea_results s)"
    using Cons.prems by (auto simp: each_back_def Let_def wrap_s32_dec split: prod.splits list.splits)
  have "length (ea_errs (each_back s ev)) \<le> Suc (length (ea_errs s))" by (simp add: e)
  with Cons.IH [of "each_back s ev"] Cons.prems p e r show ?case by auto
qed simp

text \<open>Running a step for each of \<open>n\<close> items completes exactly once, after every step has
  called back, whatever the order: with all results in the positions of their items and the
  error that arrived first, if any.\<close>

theorem each_exactly_once:
  assumes "full_round n vs evs" and "n < 2 ^ 31"
  shows "ea_done (foldl each_back (Each n) evs) =
    [(map (\<lambda>i. fst (vs i)) [0..<n],
      case filter (\<lambda>e. e \<noteq> NoError) (map (\<lambda>ev. snd (snd ev)) evs) of [] \<Rightarrow> NoError | e # _ \<Rightarrow> e)]"
proof (cases evs rule: rev_cases)
  case Nil
  with full_round_facts(1) [OF assms(1)] show ?thesis by (auto simp: Each_def)
next
  case (snoc es e)
  note f = full_round_facts [OF assms(1)]
  have n: "n = Suc (length es)" using f(1) snoc by simp
  have l: "ea_pending (Each n) = int (length (es @ [e]))" "ea_pending (Each n) < 2 ^ 31"
    using assms(2) wrap_s32_id [of "int n"] n by (simp_all add: Each_def in_s32_def)
  let ?s = "foldl each_back (Each n) es"
  have s: "ea_pending ?s = 1" using eachs.fires_once(2) [OF l] .
  have d: "ea_done ?s = []" using eachs.silent_before [of es "Each n"] l n by (simp add: Each_def)
  have er: "ea_errs ?s = filter (\<lambda>e. e \<noteq> NoError) (map (\<lambda>ev. snd (snd ev)) es)"
    using each_back_errs [of es "Each n"] l n by (simp add: Each_def)
  have lr: "length (ea_results ?s) = n"
  proof -
    have "length (foldl (\<lambda>r ev. r[fst ev := fst (snd ev)]) r es) = length r" for r :: "'a option list"
      by (induction es arbitrary: r) simp_all
    then show ?thesis by (simp add: each_back_results Each_def)
  qed
  have "length (ea_errs ?s) < n"
    unfolding er
    using le_imp_less_Suc [OF length_filter_le [of "\<lambda>e. e \<noteq> NoError" "map (\<lambda>ev. snd (snd ev)) es"]]
    by (simp only: n length_map)
  moreover have "ea_results (foldl each_back (Each n) evs) = map (\<lambda>i. fst (vs i)) [0..<n]"
    using foldl_updates_list [OF f(4,2) _ f(3), of _ fst] by (simp add: each_back_results Each_def)
  ultimately show ?thesis
    using s d er lr by (auto simp: snoc each_back_def Let_def split: prod.splits list.splits)
qed

theorem each_exactly_once_witness:
  "ea_done (foldl each_back (Each 2) [(1, Some (7 :: nat), Plain ''late''), (0, Some 3, Plain ''x'')]) = [([Some 3, Some 7], Plain ''late'')]"
proof -
  let ?vs = "\<lambda>i :: nat. if i = 0 then (Some (3 :: nat), Plain ''x'') else (Some 7, Plain ''late'')"
  have "full_round 2 ?vs [(1, Some 7, Plain ''late''), (0, Some 3, Plain ''x'')]"
    by (auto simp: full_round_def lessThan_Suc numeral_2_eq_2)
  from each_exactly_once [OF this] show ?thesis by (simp add: upt_rec)
qed

section \<open>Sequences\<close>

text \<open>\<^verbatim>\<open>Sequence.Done\<close>: \<open>sq_started\<close> lists the steps that were run, \<open>sq_done\<close> the completions.\<close>

record sequence =
  sq_steps :: nat
  sq_started :: "nat list"
  sq_done :: "goerror list"

definition seq_run :: "sequence \<Rightarrow> nat \<Rightarrow> sequence" where
  "seq_run s i = (if sq_steps s \<le> i then s\<lparr>sq_done := sq_done s @ [NoError]\<rparr> else s\<lparr>sq_started := sq_started s @ [i]\<rparr>)"

definition seq_next :: "sequence \<Rightarrow> nat \<Rightarrow> goerror \<Rightarrow> sequence" where
  "seq_next s i err = (if err \<noteq> NoError then s\<lparr>sq_done := sq_done s @ [err]\<rparr> else seq_run s (i + 1))"

definition Seq_Done :: "nat \<Rightarrow> sequence" where
  "Seq_Done n = seq_run \<lparr>sq_steps = n, sq_started = [], sq_done = []\<rparr> 0"

text \<open>Every started step calls \<^verbatim>\<open>Next\<close> once, the \<open>i\<close>-th with \<open>errs ! i\<close>.\<close>

fun seq_exec :: "sequence \<Rightarrow> nat \<Rightarrow> goerror list \<Rightarrow> sequence" where
  "seq_exec s i [] = s"
| "seq_exec s i (e # es) = (if e \<noteq> NoError then seq_next s i e else seq_exec (seq_next s i e) (i + 1) es)"

lemma seq_exec_result:
  assumes "sq_steps s = i + length errs" and "sq_started s = (if errs = [] then [0..<i] else [0..<Suc i])"
    and "sq_done s = (if errs = [] then [NoError] else [])"
  shows "sq_done (seq_exec s i errs) = [case find (\<lambda>e. e \<noteq> NoError) errs of None \<Rightarrow> NoError | Some e \<Rightarrow> e]
    \<and> sq_started (seq_exec s i errs) = [0..<i + (case find (\<lambda>e. e \<noteq> NoError) errs of
         None \<Rightarrow> length errs | Some e \<Rightarrow> Suc (length (takeWhile (\<lambda>e. e = NoError) errs)))]"
  using assms
proof (induction errs arbitrary: s i)
  case (Cons e es)
  show ?case
  proof (cases "e = NoError")
    case True
    have n: "seq_next s i e = seq_run s (i + 1)" by (simp add: seq_next_def True)
    have st: "sq_steps (seq_next s i e) = (i + 1) + length es" using Cons.prems(1) by (simp add: n seq_run_def)
    have "sq_started (seq_next s i e) = (if es = [] then [0..<i + 1] else [0..<Suc (i + 1)])"
      "sq_done (seq_next s i e) = (if es = [] then [NoError] else [])"
      using Cons.prems by (auto simp: n seq_run_def)
    from Cons.IH [OF st this] True show ?thesis by (simp split: option.splits)
  next
    case False
    with Cons.prems show ?thesis by (simp add: seq_next_def)
  qed
qed simp

text \<open>A sequence of steps runs them in order, stops at the first error and completes
  exactly once, with that error or with none; no step after a failed one is started.\<close>

theorem sequence_exactly_once:
  "sq_done (seq_exec (Seq_Done (length errs)) 0 errs) = [case find (\<lambda>e. e \<noteq> NoError) errs of None \<Rightarrow> NoError | Some e \<Rightarrow> e]
   \<and> sq_started (seq_exec (Seq_Done (length errs)) 0 errs) = [0..<(case find (\<lambda>e. e \<noteq> NoError) errs of
        None \<Rightarrow> length errs | Some e \<Rightarrow> Suc (length (takeWhile (\<lambda>e. e = NoError) errs)))]"
proof -
  have "sq_steps (Seq_Done (length errs)) = 0 + length errs"
    "sq_started (Seq_Done (length errs)) = (if errs = [] then [0..<0] else [0..<Suc 0])"
    "sq_done (Seq_Done (length errs)) = (if errs = [] then [NoError] else [])"
    by (simp_all add: Seq_Done_def seq_run_def)
  from seq_exec_result [OF this] show ?thesis by simp
qed

section \<open>Route table and one-shot replies\<close>

text \<open>A nil dispatcher and a nil handler are \<open>None\<close>.\<close>

definition rpc_Register :: "(string \<rightharpoonup> 'h) option \<Rightarrow> string \<Rightarrow> 'h option \<Rightarrow> (string \<rightharpoonup> 'h) option \<times> goerror" where
  "rpc_Register d route h =
     (case d of
        None \<Rightarrow> (d, errcode_New ERR_INTERNAL ''rpc dispatcher is nil'')
      | Some m \<Rightarrow>
          if route = [] then (d, errcode_New ERR_NO_ROUTE ''rpc route is empty'')
          else (case h of
                  None \<Rightarrow> (d, errcode_New ERR_INTERNAL (''nil handler for route: '' @ route))
                | Some f \<Rightarrow>
                    if m route \<noteq> None then (d, errcode_New ERR_INTERNAL (''duplicate rpc route: '' @ route))
                    else (Some (m(route \<mapsto> f)), NoError)))"

text \<open>\<^verbatim>\<open>Dispatch\<close>: the handler to invoke with a one-shot reply, or the error.\<close>

definition rpc_Dispatch :: "(string \<rightharpoonup> 'h) option \<Rightarrow> string \<Rightarrow> goerror + 'h" where
  "rpc_Dispatch d route =
     (case d of
        None \<Rightarrow> Inl (errcode_New ERR_NO_ROUTE ''rpc dispatcher is nil'')
      | Some m \<Rightarrow> (case m route of None \<Rightarrow> Inl (errcode_New ERR_NO_ROUTE (''route not found: '' @ route)) | Some h \<Rightarrow> Inr h))"

lemma rpc_Register_Dispatch:
  "rpc_Register (Some m) route (Some h) = (d, NoError) \<Longrightarrow>
   rpc_Dispatch d r = (if r = route then Inr h else rpc_Dispatch (Some m) r)"
  by (auto simp: rpc_Register_def rpc_Dispatch_def errcode_New_def split: if_splits)

text \<open>\<^verbatim>\<open>OnceReply\<close>: the state of the atomic flag and what was delivered.\<close>

record once =
  on_called :: bool
  on_delivered :: "(bytes option \<times> goerror) list"

definition once_reply :: "once \<Rightarrow> bytes option \<times> goerror \<Rightarrow> once" where
  "once_reply s r = (if on_called s then s else \<lparr>on_called = True, on_delivered = on_delivered s @ [r]\<rparr>)"

lemma once_reply_delivers_first:
  "on_delivered (foldl once_reply \<lparr>on_called = False, on_delivered = []\<rparr> rs) = take 1 rs"
proof (cases rs)
  case (Cons r rs')
  have "foldl once_reply \<lparr>on_called = True, on_delivered = xs\<rparr> rs' = \<lparr>on_called = True, on_delivered = xs\<rparr>" for xs
    by (induction rs') (simp_all add: once_reply_def)
  then show ?thesis by (simp add: Cons once_reply_def)
qed simp

text \<open>\<^verbatim>\<open>ReplyProto\<close> over a marshaller; a nil message is \<open>None\<close>.\<close>

definition reply_proto :: "('m \<Rightarrow> string + bytes) \<Rightarrow> 'm option \<Rightarrow> goerror \<Rightarrow> bytes option \<times> goerror" where
  "reply_proto marshal rsp err =
     (if err \<noteq> NoError then (None, err)
      else case rsp of
        None \<Rightarrow> (None, errcode_New ERR_INTERNAL ''nil response'')
      | Some m \<Rightarrow> (case marshal m of
                     Inl msg \<Rightarrow> (None, errcode_New ERR_INTERNAL msg)
                   | Inr payload \<Rightarrow> (Some payload, NoError)))"

text \<open>A handler either returns an error value or panics; \<^verbatim>\<open>RecoverRoute\<close> turns the panic into an error.\<close>

datatype handler_result = Returned goerror | Panicked string

definition recover_route :: "string \<Rightarrow> handler_result \<Rightarrow> goerror" where
  "recover_route route r =
     (case r of Returned e \<Rightarrow> e | Panicked v \<Rightarrow> errcode_New ERR_INTERNAL (''rpc route '' @ route @ '' panic: '' @ v))"

lemma recover_route_code: "CodeOf (recover_route route (Panicked v)) = ERR_INTERNAL"
  by (simp add: recover_route_def)

end
