(* ===== verification/Framing.thy ===== *)
theory Framing
  imports Rpc_Wire
begin

text \<open>
  The read loops of the program: \<^verbatim>\<open>UDSConn.readLoop\<close> and \<^verbatim>\<open>tcpPeerLink.readLoop\<close> of the router
  agent, \<^verbatim>\<open>TCPConn.readLoop\<close> of the gate and \<^verbatim>\<open>readFrame\<close> of the client SDK. Each turns a byte
  stream that arrives in arbitrary pieces into frames or packets. The loop body of each is a
  parsing step; the locale \<open>stream_parser\<close> states what makes such a step independent of how
  the stream is cut into reads, and proves reassembly once for all of them.
\<close>

section \<open>Incremental parsing\<close>

text \<open>
  One round of the inner loop on the buffered bytes: too few bytes to go on, a protocol
  error that closes the connection, or some deliveries and the number of bytes consumed.
\<close>

datatype 'f parse = NeedMore | CloseConn | Parsed "'f list" nat

text \<open>
  \<open>drain step buf\<close> runs the inner loop to its end: the deliveries and, unless the connection
  was closed, the bytes left in the buffer. \<open>feed step buf chunks\<close> is the outer loop over
  the successive results of \<^verbatim>\<open>conn.Read\<close>.
\<close>

function drain :: "(bytes \<Rightarrow> 'f parse) \<Rightarrow> bytes \<Rightarrow> 'f list \<times> bytes option" where
  "drain step buf =
     (case step buf of
        NeedMore \<Rightarrow> ([], Some buf)
      | CloseConn \<Rightarrow> ([], None)
      | Parsed fs n \<Rightarrow>
          if n = 0 \<or> length buf < n then ([], Some buf)
          else (case drain step (drop n buf) of (gs, r) \<Rightarrow> (fs @ gs, r)))"
  by pat_completeness auto
termination
  by (relation "measure (\<lambda>(step, buf). length buf)") auto

declare drain.simps [simp del]

fun feed :: "(bytes \<Rightarrow> 'f parse) \<Rightarrow> bytes \<Rightarrow> bytes list \<Rightarrow> 'f list \<times> bytes option" where
  "feed step buf [] = ([], Some buf)"
| "feed step buf (c # cs) =
     (case drain step (buf @ c) of
        (fs, None) \<Rightarrow> (fs, None)
      | (fs, Some r) \<Rightarrow> (case feed step r cs of (gs, e) \<Rightarrow> (fs @ gs, e)))"

locale stream_parser =
  fixes step :: "bytes \<Rightarrow> 'f parse"
  assumes step_empty: "step [] = NeedMore"
    and step_progress: "step buf = Parsed fs n \<Longrightarrow> 0 < n \<and> n \<le> length buf"
    and step_parsed_mono: "step buf = Parsed fs n \<Longrightarrow> step (buf @ rest) = Parsed fs n"
    and step_close_mono: "step buf = CloseConn \<Longrightarrow> step (buf @ rest) = CloseConn"
begin

lemma drain_rest_stuck: "drain step buf = (fs, Some r) \<Longrightarrow> step r = NeedMore"
proof (induction "length buf" arbitrary: buf fs rule: less_induct)
  case less
  show ?case
  proof (cases "step buf")
    case (Parsed gs n)
    then have "0 < n" "n \<le> length buf" using step_progress by auto
    moreover from this Parsed less.prems obtain hs where "drain step (drop n buf) = (hs, Some r)"
      by (auto simp: drain.simps [of step buf] split: prod.splits)
    ultimately show ?thesis using less.hyps [of "drop n buf"] by simp
  qed (use less.prems in \<open>auto simp: drain.simps [of step buf]\<close>)
qed

lemma drain_append:
  "drain step (buf @ c) =
     (case drain step buf of
        (fs, None) \<Rightarrow> (fs, None)
      | (fs, Some r) \<Rightarrow> (case drain step (r @ c) of (gs, e) \<Rightarrow> (fs @ gs, e)))"
proof (induction "length buf" arbitrary: buf rule: less_induct)
  case less
  show ?case
  proof (cases "step buf")
    case NeedMore
    then show ?thesis by (simp add: drain.simps [of step buf])
  next
    case CloseConn
    then show ?thesis
      using step_close_mono by (simp add: drain.simps [of step buf] drain.simps [of step "buf @ c"])
  next
    case (Parsed fs n)
    then have n: "0 < n" "n \<le> length buf" using step_progress by auto
    have "step (buf @ c) = Parsed fs n" using Parsed by (rule step_parsed_mono)
    then have l: "drain step (buf @ c) = (case drain step (drop n buf @ c) of (gs, r) \<Rightarrow> (fs @ gs, r))"
      using n by (simp add: drain.simps [of step "buf @ c"])
    have r: "drain step buf = (case drain step (drop n buf) of (gs, r) \<Rightarrow> (fs @ gs, r))"
      using Parsed n by (simp add: drain.simps [of step buf])
    show ?thesis
      unfolding l r using less.hyps [of "drop n buf"] n by (auto split: prod.splits option.splits)
  qed
qed

text \<open>However the stream is cut into reads, the loop sees what one read of everything would show.\<close>

lemma feed_concat: "step buf = NeedMore \<Longrightarrow> feed step buf cs = drain step (buf @ concat cs)"
proof (induction cs arbitrary: buf)
  case Nil
  then show ?case by (simp add: drain.simps [of step buf])
next
  case (Cons c cs)
  have "drain step (buf @ c @ concat cs) =
      (case drain step (buf @ c) of
        (fs, None) \<Rightarrow> (fs, None)
      | (fs, Some r) \<Rightarrow> (case drain step (r @ concat cs) of (gs, e) \<Rightarrow> (fs @ gs, e)))"
    using drain_append [of "buf @ c" "concat cs"] by simp
  then show ?case
    using Cons.IH drain_rest_stuck [of "buf @ c"] by (auto split: prod.splits option.splits)
qed

lemma feed_from_empty: "feed step [] cs = drain step (concat cs)"
  using feed_concat [OF step_empty] by simp

end

text \<open>A parser together with the encoder whose output it takes apart.\<close>

locale framing = stream_parser step
  for step :: "bytes \<Rightarrow> 'g parse" +
  fixes enc :: "'f \<Rightarrow> bytes" and ok :: "'f \<Rightarrow> bool" and out :: "'f \<Rightarrow> 'g list"
  assumes step_enc: "ok f \<Longrightarrow> step (enc f @ rest) = Parsed (out f) (length (enc f))"
begin

lemma drain_encoded:
  "\<forall>f \<in> set fs. ok f \<Longrightarrow> drain step (concat (map enc fs)) = (concat (map out fs), Some [])"
proof (induction fs)
  case Nil
  then show ?case by (simp add: drain.simps [of step "[]"] step_empty)
next
  case (Cons f fs)
  have s: "step (enc f @ concat (map enc fs)) = Parsed (out f) (length (enc f))"
    using Cons.prems step_enc by simp
  then have "0 < length (enc f)" using step_progress by blast
  with s Cons show ?case
    by (auto simp: drain.simps [of step "enc f @ concat (map enc fs)"])
qed

lemma feed_encoded:
  assumes "\<forall>f \<in> set fs. ok f" and "concat cs = concat (map enc fs)"
  shows "feed step [] cs = (concat (map out fs), Some [])"
  using assms drain_encoded by (simp add: feed_from_empty)

end

section \<open>The read loops\<close>

text \<open>\<^verbatim>\<open>UDSConn.readLoop\<close>: a frame that does not decode is skipped, a length below 3 closes.\<close>

definition uds_step :: "bytes \<Rightarrow> Frame parse" where
  "uds_step buf =
     (if length buf < 4 then NeedMore
      else let len = unat (Uint32 (take 4 buf)) in
        if len < 3 then CloseConn
        else let total = 4 + len in
          if length buf < total then NeedMore
          else Parsed (case DecodeFrame (take total buf) of Some (Inr f) \<Rightarrow> [f] | _ \<Rightarrow> []) total)"

text \<open>
  \<^verbatim>\<open>tcpPeerLink.readLoop\<close>: lengths above 16 MiB close the link as well, and a heartbeat is
  answered instead of being passed on.
\<close>

datatype peer_event = PeerHeartbeat | PeerFrame Frame

definition peer_event_of :: "Frame \<Rightarrow> peer_event" where
  "peer_event_of f = (if frm_Type f = FrameHeartbeat then PeerHeartbeat else PeerFrame f)"

definition peer_step :: "bytes \<Rightarrow> peer_event parse" where
  "peer_step buf =
     (if length buf < 4 then NeedMore
      else let len = unat (Uint32 (take 4 buf)) in
        if len < 3 \<or> 16 * 1024 * 1024 < len then CloseConn
        else let total = 4 + len in
          if length buf < total then NeedMore
          else Parsed (case DecodeFrame (take total buf) of Some (Inr f) \<Rightarrow> [peer_event_of f] | _ \<Rightarrow> []) total)"

text \<open>\<^verbatim>\<open>TCPConn.readLoop\<close> of the gate: \<^verbatim>\<open>io.ReadFull\<close> for the four header bytes, then for the body.\<close>

definition tcp_step :: "bytes \<Rightarrow> Packet parse" where
  "tcp_step buf =
     (if length buf < 4 then NeedMore
      else let bodyLen = 65536 * unat (buf ! 1) + 256 * unat (buf ! 2) + unat (buf ! 3) in
        if length buf < 4 + bodyLen then NeedMore
        else Parsed [\<lparr>pkt_Type = buf ! 0, pkt_Body = take bodyLen (drop 4 buf)\<rparr>] (4 + bodyLen))"

text \<open>
  \<^verbatim>\<open>readFrame\<close> of the client SDK: here a header length that exceeds the frame is an error,
  which closes the client.
\<close>

definition sdk_payload :: "nat \<Rightarrow> bytes \<Rightarrow> Frame parse" where
  "sdk_payload len b =
     (let headLen = unat (Uint16 (take 2 (drop 1 b))); bodyLen = int len - 3 - int headLen
      in if bodyLen < 0 then CloseConn
         else Parsed [\<lparr>frm_Type = b ! 0, frm_Header = take headLen (drop 3 b),
                       frm_Body = take (nat bodyLen) (drop (3 + headLen) b)\<rparr>] (4 + len))"

definition sdk_step :: "bytes \<Rightarrow> Frame parse" where
  "sdk_step buf =
     (if length buf < 4 then NeedMore
      else let len = unat (Uint32 (take 4 buf)) in
        if len < 3 then CloseConn
        else if length buf < 4 + len then NeedMore
        else sdk_payload len (take len (drop 4 buf)))"

definition peer_frame_ok :: "Frame \<Rightarrow> bool" where
  "peer_frame_ok f \<longleftrightarrow> length (frm_Header f) \<le> 0xFFFF
     \<and> 3 + length (frm_Header f) + length (frm_Body f) \<le> 16 * 1024 * 1024"

definition packet_ok :: "Packet \<Rightarrow> bool" where
  "packet_ok p \<longleftrightarrow> length (pkt_Body p) \<le> 0xFFFFFF"

text \<open>The length prefix is read from the first four bytes, so more input does not change it.\<close>

lemma frame_len_append: "4 \<le> length buf \<Longrightarrow> frame_len (buf @ rest) = frame_len buf"
  by (simp add: frame_len_def)

lemmas step_defs = uds_step_def peer_step_def sdk_step_def frame_len_def [symmetric] Let_def

lemma frame_len_bytes: "frame_fits f \<Longrightarrow> frame_len (frame_bytes f) = 3 + length (frm_Header f) + length (frm_Body f)"
  using frame_lens_bytes(1) [of f "[]"] by simp

lemma sdk_payload_Parsed: "sdk_payload len b = Parsed fs n \<Longrightarrow> n = 4 + len"
  by (auto simp: sdk_payload_def Let_def split: if_splits)

lemma payload_append: "4 + n \<le> length buf \<Longrightarrow> take n (drop 4 (buf @ rest)) = take n (drop 4 buf)"
  by simp

lemma sdk_step_frame:
  assumes "frame_fits f"
  shows "sdk_step (frame_bytes f @ rest) = Parsed [f] (length (frame_bytes f))"
proof -
  let ?h = "length (frm_Header f)" and ?b = "length (frm_Body f)" and ?buf = "frame_bytes f @ rest"
  have len: "frame_len ?buf = 3 + ?h + ?b" using assms by (rule frame_lens_bytes)
  let ?r = "[frm_Type f] @ PutUint16 (word_of_nat ?h) @ frm_Header f @ frm_Body f"
  have "drop 4 ?buf = ?r @ rest" by (simp add: frame_bytes_def frame_fields_def)
  moreover have "3 + ?h + ?b = length ?r" by simp
  ultimately have b: "take (3 + ?h + ?b) (drop 4 ?buf) = ?r"
    by (simp only: append_eq_conv_conj [THEN iffD1, OF refl, THEN conjunct1] take_append) simp
  have h: "unat (Uint16 (take 2 (drop 1 ?r))) = ?h"
    using assms by (simp add: frame_fits_def unat_of_nat)
  have r3: "drop 3 ?r = frm_Header f @ frm_Body f" by simp
  have "drop (3 + ?h) ?r = drop ?h (drop 3 ?r)" by (simp only: drop_drop add.commute)
  then have parts: "?r ! 0 = frm_Type f" "take ?h (drop 3 ?r) = frm_Header f" "drop (3 + ?h) ?r = frm_Body f"
    by (simp_all add: r3)
  have neg: "\<not> int (3 + ?h + ?b) - 3 - int ?h < 0" "nat (int (3 + ?h + ?b) - 3 - int ?h) = ?b" by simp_all
  have "\<not> length ?buf < 4" "\<not> 3 + ?h + ?b < 3" "\<not> length ?buf < 4 + (3 + ?h + ?b)" by simp_all
  then show ?thesis
    by (simp only: step_defs sdk_payload_def len b h parts neg if_False) simp
qed

interpretation uds: framing uds_step frame_bytes frame_fits "\<lambda>f. [f]"
proof
  fix buf rest :: bytes and fs n and f :: Frame
  show "uds_step [] = NeedMore" by (simp add: uds_step_def)
  show "uds_step buf = Parsed fs n \<Longrightarrow> 0 < n \<and> n \<le> length buf"
    by (auto simp: step_defs split: if_splits)
  show "uds_step buf = Parsed fs n \<Longrightarrow> uds_step (buf @ rest) = Parsed fs n"
    by (auto simp: step_defs frame_len_append split: if_splits)
  show "uds_step buf = CloseConn \<Longrightarrow> uds_step (buf @ rest) = CloseConn"
    by (auto simp: step_defs frame_len_append split: if_splits)
  show "uds_step (frame_bytes f @ rest) = Parsed [f] (length (frame_bytes f))" if "frame_fits f"
    using that by (simp add: step_defs frame_lens_bytes frame_len_bytes DecodeFrame_frame_bytes)
qed

interpretation peer: framing peer_step frame_bytes peer_frame_ok "\<lambda>f. [peer_event_of f]"
proof
  fix buf rest :: bytes and fs n and f :: Frame
  show "peer_step [] = NeedMore" by (simp add: peer_step_def)
  show "peer_step buf = Parsed fs n \<Longrightarrow> 0 < n \<and> n \<le> length buf"
    by (auto simp: step_defs split: if_splits)
  show "peer_step buf = Parsed fs n \<Longrightarrow> peer_step (buf @ rest) = Parsed fs n"
    by (auto simp: step_defs frame_len_append split: if_splits)
  show "peer_step buf = CloseConn \<Longrightarrow> peer_step (buf @ rest) = CloseConn"
    by (auto simp: step_defs frame_len_append split: if_splits)
  show "peer_step (frame_bytes f @ rest) = Parsed [peer_event_of f] (length (frame_bytes f))" if "peer_frame_ok f"
  proof -
    from that have "frame_fits f" by (simp add: peer_frame_ok_def frame_fits_def)
    with that show ?thesis
      by (simp add: step_defs frame_lens_bytes frame_len_bytes DecodeFrame_frame_bytes peer_frame_ok_def)
  qed
qed

interpretation sdk: framing sdk_step frame_bytes frame_fits "\<lambda>f. [f]"
proof
  fix buf rest :: bytes and fs n and f :: Frame
  show "sdk_step [] = NeedMore" by (simp add: sdk_step_def)
  have app: "sdk_step (buf @ rest) = sdk_step buf" if "sdk_step buf \<noteq> NeedMore"
  proof -
    from that have "4 \<le> length buf" and "frame_len buf < 3 \<or> 4 + frame_len buf \<le> length buf"
      by (auto simp: step_defs split: if_splits)
    then show ?thesis
      using frame_len_append [of buf rest] payload_append [of "frame_len buf" buf rest]
      by (auto simp only: step_defs length_append split: if_split)
  qed
  show "sdk_step buf = Parsed fs n \<Longrightarrow> 0 < n \<and> n \<le> length buf"
    by (auto simp: step_defs dest: sdk_payload_Parsed split: if_splits)
  show "sdk_step buf = Parsed fs n \<Longrightarrow> sdk_step (buf @ rest) = Parsed fs n"
    and "sdk_step buf = CloseConn \<Longrightarrow> sdk_step (buf @ rest) = CloseConn"
    using app by simp_all
  show "sdk_step (frame_bytes f @ rest) = Parsed [f] (length (frame_bytes f))" if "frame_fits f"
    using that by (rule sdk_step_frame)
qed

lemma tcp_body_len:
  assumes "4 \<le> length buf"
  shows "65536 * unat (buf ! 1) + 256 * unat (buf ! 2) + unat (buf ! 3) = pkt_len buf"
proof -
  obtain a b c d r where "buf = a # b # c # d # r"
    using assms by (metis Suc_le_length_iff numeral_eq_Suc pred_numeral_simps(2) pred_numeral_simps(3)
        semiring_norm(26) semiring_norm(27) semiring_norm(28) one_eq_numeral_iff eval_nat_numeral(2) eval_nat_numeral(3))
  then show ?thesis by (simp add: pkt_len_def be_nat_def)
qed

lemma tcp_step_eq:
  "tcp_step buf =
     (if length buf < 4 then NeedMore
      else if length buf < 4 + pkt_len buf then NeedMore
      else Parsed [\<lparr>pkt_Type = buf ! 0, pkt_Body = take (pkt_len buf) (drop 4 buf)\<rparr>] (4 + pkt_len buf))"
  using tcp_body_len [of buf] by (cases "length buf < 4") (simp_all add: tcp_step_def Let_def)

lemma pkt_len_append: "4 \<le> length buf \<Longrightarrow> pkt_len (buf @ rest) = pkt_len buf"
  by (simp add: pkt_len_def)

lemma pkt_len_packet: "packet_ok p \<Longrightarrow> pkt_len (packet_bytes p @ rest) = length (pkt_Body p)"
  by (simp add: pkt_len_def packet_bytes_def packet_ok_def)

lemma tcp_step_mono:
  assumes "tcp_step buf = Parsed fs n"
  shows "tcp_step (buf @ rest) = Parsed fs n"
proof -
  from assms have l: "4 \<le> length buf" "4 + pkt_len buf \<le> length buf"
    and r: "fs = [\<lparr>pkt_Type = buf ! 0, pkt_Body = take (pkt_len buf) (drop 4 buf)\<rparr>]" "n = 4 + pkt_len buf"
    by (auto simp: tcp_step_eq split: if_splits)
  have "(buf @ rest) ! 0 = buf ! 0" using l(1) by (cases buf) simp_all
  with l r payload_append [OF l(2), of rest] pkt_len_append [OF l(1), of rest] show ?thesis
    by (simp add: tcp_step_eq [of "buf @ rest"] del: take_append drop_append)
qed

interpretation tcp: framing tcp_step packet_bytes packet_ok "\<lambda>p. [p]"
proof
  fix buf rest :: bytes and fs n and p :: Packet
  show "tcp_step [] = NeedMore" by (simp add: tcp_step_def)
  show "tcp_step buf = Parsed fs n \<Longrightarrow> 0 < n \<and> n \<le> length buf"
    by (auto simp: tcp_step_eq split: if_splits)
  show "tcp_step buf = Parsed fs n \<Longrightarrow> tcp_step (buf @ rest) = Parsed fs n"
    by (rule tcp_step_mono)
  show "tcp_step buf = CloseConn \<Longrightarrow> tcp_step (buf @ rest) = CloseConn"
    by (simp add: tcp_step_eq split: if_splits)
  show "tcp_step (packet_bytes p @ rest) = Parsed [p] (length (packet_bytes p))" if "packet_ok p"
  proof -
    have "drop 4 (packet_bytes p @ rest) = pkt_Body p @ rest" "(packet_bytes p @ rest) ! 0 = pkt_Type p"
      by (simp_all add: packet_bytes_def)
    with pkt_len_packet [OF that, of rest] show ?thesis by (simp add: tcp_step_eq del: drop_append)
  qed
qed

section \<open>The batching write loops\<close>

text \<open>
  \<^verbatim>\<open>UDSConn.writeLoop\<close> of the agent and \<^verbatim>\<open>Client.writeLoop\<close> of the SDK are the same loop over
  different encoders: one round takes a frame from the queue, encodes it at the start of the
  reused buffer, appends up to fifteen more frames that are already queued and writes the
  buffer. An encoder error of the first frame drops that frame; an error of a later frame
  leaves the buffer nil, because the encoders return nil with their error.

  How many frames one round finds depends on when the senders run: the inner \<^verbatim>\<open>select\<close> takes a
  frame only if it is queued at that moment. \<open>arrived i\<close> is the number of further frames that
  round \<open>i\<close> finds in time, so quantifying over \<open>arrived\<close> covers every batching, from one
  frame per write to full batches.
\<close>

definition udsWriteBatchMaxFrames :: nat where "udsWriteBatchMaxFrames = 16"
definition clientWriteBatchMaxFrames :: nat where "clientWriteBatchMaxFrames = 16"

definition reset_buf :: "gobuf \<Rightarrow> gobuf" where
  "reset_buf b = \<lparr>buf_data = [], buf_spare = buf_data b @ buf_spare b\<rparr>"

fun batch_more :: "(gobuf \<Rightarrow> 'f \<Rightarrow> 'e + gobuf) \<Rightarrow> nat \<Rightarrow> gobuf \<Rightarrow> 'f list \<Rightarrow> gobuf \<times> 'f list" where
  "batch_more app 0 buf q = (buf, q)"
| "batch_more app (Suc k) buf [] = (buf, [])"
| "batch_more app (Suc k) buf (f # q) =
     batch_more app k (case app buf f of Inl _ \<Rightarrow> nil_buf | Inr b \<Rightarrow> b) q"

fun batch_round :: "(gobuf \<Rightarrow> 'f \<Rightarrow> 'e + gobuf) \<Rightarrow> nat \<Rightarrow> gobuf \<Rightarrow> 'f list \<Rightarrow> bytes list \<times> gobuf \<times> 'f list" where
  "batch_round app n buf [] = ([], buf, [])"
| "batch_round app n buf (f # q) =
     (case app (reset_buf buf) f of
        Inl _ \<Rightarrow> ([], nil_buf, q)
      | Inr b \<Rightarrow> (case batch_more app (n - 1) b q of (b', q') \<Rightarrow> ([buf_data b'], b', q')))"

lemma batch_more_length: "batch_more app k b q = (b', q') \<Longrightarrow> length q' \<le> length q"
  by (induction app k b q rule: batch_more.induct) (auto simp: le_SucI)

lemma batch_round_less: "batch_round app n buf (f # q) = (w, b', q') \<Longrightarrow> length q' < Suc (length q)"
  by (auto split: sum.splits prod.splits dest!: batch_more_length simp: less_Suc_eq_le)

function batch_write_all :: "(gobuf \<Rightarrow> 'f \<Rightarrow> 'e + gobuf) \<Rightarrow> nat \<Rightarrow> (nat \<Rightarrow> nat) \<Rightarrow> gobuf \<Rightarrow> 'f list \<Rightarrow> bytes list" where
  "batch_write_all app n arrived buf [] = []"
| "batch_write_all app n arrived buf (f # q) =
     (case batch_round app (min n (Suc (arrived 0))) buf (f # q) of
        (w, b', q') \<Rightarrow> w @ batch_write_all app n (\<lambda>i. arrived (Suc i)) b' q')"
  by pat_completeness auto
termination
  by (relation "measure (\<lambda>(app, n, arrived, buf, q). length q)")
    (auto simp del: batch_round.simps simp: batch_round_less [OF sym])

definition uds_write_all :: "(nat \<Rightarrow> nat) \<Rightarrow> gobuf \<Rightarrow> Frame list \<Rightarrow> bytes list" where
  "uds_write_all = batch_write_all AppendFrame udsWriteBatchMaxFrames"

definition sdk_write_all :: "(nat \<Rightarrow> nat) \<Rightarrow> gobuf \<Rightarrow> outboundFrame list \<Rightarrow> bytes list" where
  "sdk_write_all = batch_write_all appendOutboundFrame clientWriteBatchMaxFrames"

text \<open>What the loop needs of an encoder: it appends the bytes of every item that fits.\<close>

locale batch_encoder =
  fixes app :: "gobuf \<Rightarrow> 'f \<Rightarrow> 'e + gobuf" and bytes_of :: "'f \<Rightarrow> bytes" and fits :: "'f \<Rightarrow> bool"
  assumes append_ok: "fits f \<Longrightarrow> \<exists>d. app dst f = Inr d \<and> buf_data d = buf_data dst @ bytes_of f"
begin

lemma batch_more_ok:
  "\<forall>f \<in> set q. fits f \<Longrightarrow> batch_more app k b q = (b', q') \<Longrightarrow>
   \<exists>p. q = p @ q' \<and> buf_data b' = buf_data b @ concat (map bytes_of p)"
proof (induction k arbitrary: b q)
  case (Suc k)
  show ?case
  proof (cases q)
    case (Cons f r)
    then obtain d where d: "app b f = Inr d" "buf_data d = buf_data b @ bytes_of f"
      using append_ok [of f b] Suc.prems(1) by auto
    with Suc.IH [of r d] Suc.prems Cons obtain p where "r = p @ q'" "buf_data b' = buf_data d @ concat (map bytes_of p)"
      by auto
    with d Cons show ?thesis by (intro exI [of _ "f # p"]) simp
  qed (use Suc.prems in simp)
qed simp

lemma write_all_ok: "\<forall>f \<in> set q. fits f \<Longrightarrow> concat (batch_write_all app n arrived buf q) = concat (map bytes_of q)"
proof (induction "length q" arbitrary: q buf arrived rule: less_induct)
  case less
  show ?case
  proof (cases q)
    case (Cons f r)
    obtain d where d: "app (reset_buf buf) f = Inr d" "buf_data d = bytes_of f"
      using append_ok [of f "reset_buf buf"] less.prems Cons by (auto simp: reset_buf_def)
    obtain b' q' where bq: "batch_more app (min n (Suc (arrived 0)) - 1) d r = (b', q')" by fastforce
    from less.prems Cons batch_more_ok [OF _ bq] d(2) obtain p
      where p: "r = p @ q'" "buf_data b' = bytes_of f @ concat (map bytes_of p)" by auto
    have "concat (batch_write_all app n (\<lambda>i. arrived (Suc i)) b' q') = concat (map bytes_of q')"
      using less.hyps [of q'] less.prems Cons p(1) by simp
    with d bq p Cons show ?thesis by simp
  qed simp
qed

end

definition header_ok :: "Frame \<Rightarrow> bool" where
  "header_ok f \<longleftrightarrow> length (frm_Header f) \<le> 0xFFFF"

interpretation uds_writer: batch_encoder AppendFrame frame_bytes header_ok
  by unfold_locales (use AppendFrame_ok in \<open>auto simp: header_ok_def\<close>)

text \<open>The frame that an item of the SDK's queue stands for.\<close>

definition as_frame :: "outboundFrame \<Rightarrow> Frame" where
  "as_frame out = (if out_hasWire out then (out_frame out)\<lparr>frm_Header := EncodeRPCWireHeader (out_wire out)\<rparr> else out_frame out)"

definition outbound_ok :: "outboundFrame \<Rightarrow> bool" where
  "outbound_ok out \<longleftrightarrow> (out_hasWire out \<longrightarrow> header_fits (out_wire out)) \<and> header_ok (as_frame out)"

interpretation sdk_writer: batch_encoder appendOutboundFrame "\<lambda>out. frame_bytes (as_frame out)" outbound_ok
proof unfold_locales
  fix out dst
  assume ok: "outbound_ok out"
  from ok AppendFrame_ok [of "as_frame out" dst] obtain d
    where d: "AppendFrame dst (as_frame out) = Inr d" "buf_data d = buf_data dst @ frame_bytes (as_frame out)"
    by (auto simp: outbound_ok_def header_ok_def)
  have "map_sum id buf_data (appendOutboundFrame dst out) = map_sum id buf_data (AppendFrame dst (as_frame out))"
    using appendOutboundFrame_eq [of dst out] ok by (auto simp: outbound_ok_def as_frame_def RPCWireHeaderLen_ok)
  with d show "\<exists>d. appendOutboundFrame dst out = Inr d \<and> buf_data d = buf_data dst @ frame_bytes (as_frame out)"
    by (cases "appendOutboundFrame dst out") auto
qed

text \<open>C25: frames queued on a router-agent connection arrive exactly as sent and in order: the
  batched writer followed by the receiving loop of the client SDK or of the agent delivers the
  queued frames, for every buffer state, every batching (\<open>arrived\<close>: whatever number of further
  frames each round finds queued) and every way the transport cuts the byte stream into reads,
  provided the header of every frame fits its 16-bit and the frame its 32-bit length field.\<close>

theorem uds_transport_exact:
  assumes "\<forall>f \<in> set q. frame_fits f" and "concat cs = concat (uds_write_all arrived buf q)"
  shows "feed sdk_step [] cs = (q, Some []) \<and> feed uds_step [] cs = (q, Some [])"
proof -
  have "concat cs = concat (map frame_bytes q)"
    using assms uds_writer.write_all_ok [of q udsWriteBatchMaxFrames arrived buf]
    by (auto simp: frame_fits_def header_ok_def uds_write_all_def)
  then show ?thesis
    using assms(1) sdk.feed_encoded [of q cs] uds.feed_encoded [of q cs] by simp
qed

theorem uds_transport_exact_witness:
  "feed sdk_step [] (map (\<lambda>b. [b]) (concat (uds_write_all (\<lambda>i. if i = 0 then 1 else 0) nil_buf
       [\<lparr>frm_Type = 3, frm_Header = [1, 2], frm_Body = [9]\<rparr>, \<lparr>frm_Type = 6, frm_Header = [], frm_Body = []\<rparr>,
        \<lparr>frm_Type = 3, frm_Header = [4], frm_Body = [5]\<rparr>])))
   = ([\<lparr>frm_Type = 3, frm_Header = [1, 2], frm_Body = [9]\<rparr>, \<lparr>frm_Type = 6, frm_Header = [], frm_Body = []\<rparr>,
       \<lparr>frm_Type = 3, frm_Header = [4], frm_Body = [5]\<rparr>], Some [])"
proof -
  have c: "concat (map (\<lambda>b. [b]) xs) = xs" for xs :: bytes by (induction xs) auto
  show ?thesis
    by (rule uds_transport_exact [where buf = nil_buf and arrived = "\<lambda>i. if i = 0 then 1 else 0", THEN conjunct1])
      (simp_all only: c, simp add: frame_fits_def)
qed

text \<open>packets of the gate's clients are read back exactly, in order, from every way the stream
  is cut into reads, when each body fits the 24-bit length.\<close>

theorem tcp_transport_exact:
  assumes "\<forall>p \<in> set ps. length (pkt_Body p) \<le> 0xFFFFFF"
    and "list_all2 (\<lambda>p bs. EncodePacket p = Inr bs) ps encs" and "concat cs = concat encs"
  shows "feed tcp_step [] cs = (ps, Some [])"
proof -
  have "encs = map packet_bytes ps"
    using assms(2) by (induction rule: list_all2_induct) (auto simp: EncodePacket_eq split: if_splits)
  then show ?thesis
    using tcp.feed_encoded [of ps cs] assms(1,3) by (simp add: packet_ok_def)
qed

theorem tcp_transport_exact_witness:
  "feed tcp_step [] [[4, 0], [0, 1, 42, 3, 0], [0, 0]]
   = ([\<lparr>pkt_Type = 4, pkt_Body = [42]\<rparr>, \<lparr>pkt_Type = 3, pkt_Body = []\<rparr>], Some [])"
  by (rule tcp_transport_exact [where encs = "[[4, 0, 0, 1, 42], [3, 0, 0, 0]]"])
    (simp_all add: EncodePacket_eq packet_bytes_def numeral_3_eq_3)

text \<open>a frame whose header exceeds the 16-bit length field does not only get lost itself: when
  it is batched behind another frame, the frames already encoded in that batch are dropped.\<close>

theorem uds_oversized_header_drops_batch:
  assumes "length (frm_Header f) \<le> 0xFFFF" and "0xFFFF < length (frm_Header g)" and "0 < arrived 0"
  shows "concat (uds_write_all arrived buf [f, g]) = []"
proof -
  obtain d where "AppendFrame (reset_buf buf) f = Inr d"
    using AppendFrame_ok [OF assms(1)] by blast
  moreover have "batch_more AppendFrame (min udsWriteBatchMaxFrames (Suc (arrived 0)) - 1) d [g] = (nil_buf, [])"
  proof -
    have "\<exists>k. min udsWriteBatchMaxFrames (Suc (arrived 0)) - 1 = Suc k"
      using assms(3) by (cases "arrived 0") (simp_all add: udsWriteBatchMaxFrames_def min_def)
    then obtain k where "min udsWriteBatchMaxFrames (Suc (arrived 0)) - 1 = Suc k" by blast
    moreover have "batch_more AppendFrame k b [] = (b, [])" for k b by (cases k) simp_all
    ultimately show ?thesis
      using assms(2) by (simp only: batch_more.simps AppendFrame_too_large sum.case)
  qed
  ultimately show ?thesis by (simp add: uds_write_all_def)
qed

theorem uds_oversized_header_drops_batch_witness:
  "concat (uds_write_all (\<lambda>i. 1) nil_buf
     [\<lparr>frm_Type = 3, frm_Header = [1], frm_Body = []\<rparr>,
      \<lparr>frm_Type = 3, frm_Header = replicate 65536 0, frm_Body = []\<rparr>]) = []"
  by (rule uds_oversized_header_drops_batch) simp_all

text \<open>what a business server queues on its client SDK arrives at the agent: the batched
  writer with its in-place header encoder, followed by the agent's read loop, delivers the
  queued frames with their encoded headers, exactly and in order, for every buffer state, every
  batching and every way the stream is cut into reads.\<close>

theorem sdk_to_agent_exact:
  assumes "\<forall>out \<in> set q. outbound_ok out \<and> frame_fits (as_frame out)" and "concat cs = concat (sdk_write_all arrived buf q)"
  shows "feed uds_step [] cs = (map as_frame q, Some [])"
proof -
  have "concat cs = concat (map frame_bytes (map as_frame q))"
    using assms sdk_writer.write_all_ok [of q clientWriteBatchMaxFrames arrived buf] by (simp add: sdk_write_all_def comp_def)
  moreover have "\<forall>f \<in> set (map as_frame q). frame_fits f" using assms(1) by auto
  ultimately show ?thesis
    using uds.feed_encoded [of "map as_frame q" cs] by (simp only: concat_map_singleton map_map comp_def)
qed

theorem sdk_to_agent_exact_witness:
  "feed uds_step [] (sdk_write_all (\<lambda>i. 0) nil_buf
     [\<lparr>out_frame = \<lparr>frm_Type = 6, frm_Header = [], frm_Body = [1, 2]\<rparr>,
       out_wire = \<lparr>hdr_SeqID = 0, hdr_ServerType = 0, hdr_RoutingMode = 0, hdr_DeadlineMs = 0, hdr_WaiterID = 0,
         hdr_SrcNodeID = 0, hdr_DestNodeID = 0, hdr_ErrCode = 0, hdr_RoutingKey = ''k'', hdr_Route = []\<rparr>,
       out_hasWire = True\<rparr>])
   = ([\<lparr>frm_Type = 6, frm_Header = EncodeRPCWireHeader
         \<lparr>hdr_SeqID = 0, hdr_ServerType = 0, hdr_RoutingMode = 0, hdr_DeadlineMs = 0, hdr_WaiterID = 0,
          hdr_SrcNodeID = 0, hdr_DestNodeID = 0, hdr_ErrCode = 0, hdr_RoutingKey = ''k'', hdr_Route = []\<rparr>,
        frm_Body = [1, 2]\<rparr>], Some [])"
  by (subst sdk_to_agent_exact [OF _ refl])
    (simp_all add: outbound_ok_def as_frame_def header_fits_def header_ok_def frame_fits_def EncodeRPCWireHeader_eq)

end
