(* ===== verification/Links.thy ===== *)
theory Links
  imports Framing Seq_Tables
begin

text \<open>
  The connections of the RouterAgent as the router sees them: local business processes on
  Unix sockets (\<^verbatim>\<open>uds_conn.go\<close>, \<^verbatim>\<open>local_conn_set.go\<close>) and other agents
  (\<^verbatim>\<open>tcpPeerLink\<close> of \<^verbatim>\<open>peer_conn.go\<close>, with its two send queues and the batched writer). What
  a sender relies on is the locale \<open>frame_sink\<close>; both kinds of connection are instances.
\<close>

section \<open>Errors\<close>

datatype agent_error =
    EOF | ErrClosedPipe | PeerSendQueueFull | ErrLocalConnNotFound
  | ErrPeerAddrEmpty | ErrPeerQueueFull | ErrNodeNotFound | ErrEmptyNodeIDKey | ErrInvalidNodeID

section \<open>Contract of a connection\<close>

text \<open>
  \<open>content\<close> is the frames the connection holds for its peer. A successful send adds the
  frame, a failed one adds nothing.
\<close>

locale frame_sink =
  fixes send :: "'l \<Rightarrow> Frame \<Rightarrow> 'l \<times> agent_error option"
    and content :: "'l \<Rightarrow> Frame multiset"
  assumes send_accepted: "send l f = (l', None) \<Longrightarrow> content l' = add_mset f (content l)"
    and send_refused: "send l f = (l', Some e) \<Longrightarrow> content l' = content l"
begin

fun send_list :: "'l \<Rightarrow> Frame list \<Rightarrow> 'l \<times> (Frame \<times> agent_error option) list" where
  "send_list l [] = (l, [])"
| "send_list l (f # fs) =
     (case send l f of (l1, r) \<Rightarrow> case send_list l1 fs of (l2, rs) \<Rightarrow> (l2, (f, r) # rs))"

lemma send_list_content:
  "send_list l fs = (l', rs) \<Longrightarrow>
   map fst rs = fs \<and> content l' = content l + mset (map fst (filter (\<lambda>p. snd p = None) rs))"
proof (induction fs arbitrary: l l' rs)
  case (Cons f fs)
  obtain l1 r where 1: "send l f = (l1, r)" by fastforce
  obtain l2 rs' where 2: "send_list l1 fs = (l2, rs')" by fastforce
  from Cons.prems 1 2 have "l' = l2" "rs = (f, r) # rs'" by auto
  moreover from Cons.IH [OF 2] have "map fst rs' = fs"
    "content l2 = content l1 + mset (map fst (filter (\<lambda>p. snd p = None) rs'))" by auto
  ultimately show ?case
    using 1 send_accepted [of l f l1] send_refused [of l f l1] by (cases r) auto
qed simp

end

section \<open>Connections of local processes\<close>

text \<open>
  \<open>uc_sent\<close> is the sequence of all frames that entered the send channel, oldest first; the
  writer of theory \<open>Framing\<close> takes them from the front. A sender that finds the channel full
  waits, so fullness does not change the sequence. When the connection is closed, Go's
  \<^verbatim>\<open>select\<close> may take either ready case: \<open>uc_race n\<close> says whether the \<open>n\<close>-th call returns \<^verbatim>\<open>io.EOF\<close>.
\<close>

record UDSConn =
  uc_sent :: "Frame list"
  uc_done :: bool
  uc_calls :: nat
  uc_race :: "nat \<Rightarrow> bool"

definition NewUDSConn :: UDSConn where
  "NewUDSConn = \<lparr>uc_sent = [], uc_done = False, uc_calls = 0, uc_race = (\<lambda>_. True)\<rparr>"

definition UDSConn_Send :: "UDSConn \<Rightarrow> Frame \<Rightarrow> UDSConn \<times> agent_error option" where
  "UDSConn_Send u frame =
     (if uc_done u \<and> uc_race u (uc_calls u)
      then (u\<lparr>uc_calls := uc_calls u + 1\<rparr>, Some EOF)
      else (u\<lparr>uc_sent := uc_sent u @ [frame], uc_calls := uc_calls u + 1\<rparr>, None))"

definition UDSConn_Close :: "UDSConn \<Rightarrow> UDSConn" where
  "UDSConn_Close u = u\<lparr>uc_done := True\<rparr>"

lemma UDSConn_Send_open [simp]:
  "\<not> uc_done u \<Longrightarrow> UDSConn_Send u f = (u\<lparr>uc_sent := uc_sent u @ [f], uc_calls := uc_calls u + 1\<rparr>, None)"
  by (simp add: UDSConn_Send_def)

interpretation uds_sink: frame_sink UDSConn_Send "\<lambda>u. mset (uc_sent u)"
  by unfold_locales (auto simp: UDSConn_Send_def split: if_splits)

section \<open>Registry of local connections\<close>

type_synonym LocalConnSet = "(u32, conn_ptr) gomap"

definition Register :: "LocalConnSet \<Rightarrow> u32 \<Rightarrow> conn_ptr \<Rightarrow> LocalConnSet" where
  "Register s nodeID c = mput nodeID c s"

definition Local_Get :: "LocalConnSet \<Rightarrow> u32 \<Rightarrow> conn_ptr option" where
  "Local_Get s nodeID = map_of s nodeID"

definition Local_Remove :: "LocalConnSet \<Rightarrow> conn_ptr \<Rightarrow> LocalConnSet \<times> u32 list" where
  "Local_Remove s c = (filter (\<lambda>e. snd e \<noteq> c) s, map fst (filter (\<lambda>e. snd e = c) s))"

lemma Local_Get_Register [simp]: "Local_Get (Register s i c) j = (if j = i then Some c else Local_Get s j)"
  by (simp add: Local_Get_def Register_def)

lemma Local_Get_Remove:
  "wf_map s \<Longrightarrow> Local_Get (fst (Local_Remove s c)) i = (if Local_Get s i = Some c then None else Local_Get s i)"
  by (auto simp: Local_Get_def Local_Remove_def map_of_filter_wf split: option.splits)

lemma set_Local_Remove: "wf_map s \<Longrightarrow> set (snd (Local_Remove s c)) = {i. Local_Get s i = Some c}"
  by (auto simp: Local_Get_def Local_Remove_def wf_map_lookup) (force simp: wf_map_lookup [symmetric])

lemma wf_local [simp]:
  "wf_map s \<Longrightarrow> wf_map (Register s i c)" "wf_map s \<Longrightarrow> wf_map (fst (Local_Remove s c))"
  by (simp_all add: Register_def Local_Remove_def)

section \<open>Links to other agents\<close>

text \<open>
  \<open>tl_sendCh\<close> and \<open>tl_prioSendCh\<close> are the contents of the two bounded channels. \<open>tl_written\<close>
  collects the successful writes on the socket; \<open>tl_werr n\<close> says whether the \<open>n\<close>-th write
  fails, \<open>tl_race\<close> is as for a local connection.
\<close>

record tcpPeerLink =
  tl_addr :: string
  tl_sendCh :: "Frame list"
  tl_prioSendCh :: "Frame list"
  tl_done :: bool
  tl_maxSendLen :: int
  tl_maxPrioLen :: int
  tl_written :: "bytes list"
  tl_writes :: nat
  tl_werr :: "nat \<Rightarrow> bool"
  tl_calls :: nat
  tl_race :: "nat \<Rightarrow> bool"

definition sendChCap :: nat where "sendChCap = 16384"
definition prioSendChCap :: nat where "prioSendChCap = 4096"

definition new_link :: "string \<Rightarrow> (nat \<Rightarrow> bool) \<Rightarrow> (nat \<Rightarrow> bool) \<Rightarrow> tcpPeerLink" where
  "new_link addr werr race =
     \<lparr>tl_addr = addr, tl_sendCh = [], tl_prioSendCh = [], tl_done = False, tl_maxSendLen = 0,
      tl_maxPrioLen = 0, tl_written = [], tl_writes = 0, tl_werr = werr, tl_calls = 0, tl_race = race\<rparr>"

definition isPriorityFrame :: "FrameType \<Rightarrow> bool" where
  "isPriorityFrame t \<longleftrightarrow> t = FrameRpcResponse \<or> t = FrameHeartbeat \<or> t = FrameHandshake \<or> t = FrameHandshakeAck"

definition updateMaxInt64 :: "int \<Rightarrow> int \<Rightarrow> int" where
  "updateMaxInt64 old v = (if v \<le> old then old else v)"

definition recordQueueLen :: "tcpPeerLink \<Rightarrow> tcpPeerLink" where
  "recordQueueLen l =
     l\<lparr>tl_maxSendLen := updateMaxInt64 (tl_maxSendLen l) (int (length (tl_sendCh l))),
       tl_maxPrioLen := updateMaxInt64 (tl_maxPrioLen l) (int (length (tl_prioSendCh l)))\<rparr>"

definition Link_Send :: "tcpPeerLink \<Rightarrow> Frame \<Rightarrow> tcpPeerLink \<times> agent_error option" where
  "Link_Send l f =
     (let prio = isPriorityFrame (frm_Type f);
          room = (if prio then length (tl_prioSendCh l) < prioSendChCap else length (tl_sendCh l) < sendChCap);
          l0 = l\<lparr>tl_calls := tl_calls l + 1\<rparr>
      in if tl_done l \<and> (\<not> room \<or> tl_race l (tl_calls l)) then (l0, Some EOF)
         else if room then
           (recordQueueLen (if prio then l0\<lparr>tl_prioSendCh := tl_prioSendCh l @ [f]\<rparr>
                            else l0\<lparr>tl_sendCh := tl_sendCh l @ [f]\<rparr>), None)
         else (l0, Some PeerSendQueueFull))"

definition Link_Close :: "tcpPeerLink \<Rightarrow> tcpPeerLink" where
  "Link_Close l = l\<lparr>tl_done := True\<rparr>"

definition queued :: "tcpPeerLink \<Rightarrow> Frame multiset" where
  "queued l = mset (tl_sendCh l) + mset (tl_prioSendCh l)"

definition link_ok :: "tcpPeerLink \<Rightarrow> bool" where
  "link_ok l \<longleftrightarrow> length (tl_sendCh l) \<le> sendChCap \<and> length (tl_prioSendCh l) \<le> prioSendChCap
     \<and> (\<forall>f \<in> set (tl_prioSendCh l). isPriorityFrame (frm_Type f))
     \<and> (\<forall>f \<in> set (tl_sendCh l). \<not> isPriorityFrame (frm_Type f))"

lemma queued_record [simp]: "queued (recordQueueLen l) = queued l"
  by (simp add: queued_def recordQueueLen_def)

interpretation link_sink: frame_sink Link_Send queued
  by unfold_locales (auto simp: Link_Send_def Let_def split: if_splits; simp add: queued_def)+

lemma link_ok_Send [simp]: "link_ok l \<Longrightarrow> link_ok (fst (Link_Send l f))"
  by (auto simp: Link_Send_def Let_def link_ok_def recordQueueLen_def)

lemma link_ok_new [simp]: "link_ok (new_link a w r)"
  by (simp add: link_ok_def new_link_def)

lemma Link_Send_open:
  "\<not> tl_done l \<Longrightarrow> isPriorityFrame (frm_Type f) \<Longrightarrow> length (tl_prioSendCh l) < prioSendChCap \<Longrightarrow>
   snd (Link_Send l f) = None \<and> tl_prioSendCh (fst (Link_Send l f)) = tl_prioSendCh l @ [f]
   \<and> tl_sendCh (fst (Link_Send l f)) = tl_sendCh l"
  "\<not> tl_done l \<Longrightarrow> \<not> isPriorityFrame (frm_Type f) \<Longrightarrow> length (tl_sendCh l) < sendChCap \<Longrightarrow>
   snd (Link_Send l f) = None \<and> tl_sendCh (fst (Link_Send l f)) = tl_sendCh l @ [f]
   \<and> tl_prioSendCh (fst (Link_Send l f)) = tl_prioSendCh l"
  by (simp_all add: Link_Send_def Let_def recordQueueLen_def)

section \<open>The write loop of a link\<close>

definition tcpWriteBatchMaxFrames :: nat where "tcpWriteBatchMaxFrames = 16"

text \<open>The inner loop of \<^verbatim>\<open>writeBatch\<close>: priority frames first, then ordinary ones.\<close>

fun drain_more :: "nat \<Rightarrow> gobuf \<Rightarrow> Frame list \<Rightarrow> Frame list \<Rightarrow> gobuf \<times> Frame list \<times> Frame list" where
  "drain_more 0 buf prio ord = (buf, prio, ord)"
| "drain_more (Suc k) buf (f # prio) ord =
     drain_more k (case AppendFrame buf f of Inl _ \<Rightarrow> nil_buf | Inr b \<Rightarrow> b) prio ord"
| "drain_more (Suc k) buf [] (f # ord) =
     drain_more k (case AppendFrame buf f of Inl _ \<Rightarrow> nil_buf | Inr b \<Rightarrow> b) [] ord"
| "drain_more (Suc k) buf [] [] = (buf, [], [])"

definition writeBatch :: "tcpPeerLink \<Rightarrow> gobuf \<Rightarrow> Frame \<Rightarrow> tcpPeerLink \<times> gobuf" where
  "writeBatch l buf first =
     (case AppendFrame (reset_buf buf) first of
        Inl _ \<Rightarrow> (l, nil_buf)
      | Inr b \<Rightarrow>
          (case drain_more (tcpWriteBatchMaxFrames - 1) b (tl_prioSendCh l) (tl_sendCh l) of
             (b', p', s') \<Rightarrow>
               let l1 = l\<lparr>tl_prioSendCh := p', tl_sendCh := s', tl_writes := tl_writes l + 1\<rparr> in
               if tl_werr l (tl_writes l) then (Link_Close l1, reset_buf b')
               else (l1\<lparr>tl_written := tl_written l @ [buf_data b']\<rparr>, reset_buf b')))"

text \<open>
  One round of \<^verbatim>\<open>writeLoop\<close>. \<^verbatim>\<open>select\<close> takes any ready case, so the choice is a parameter; a
  case that is not ready is not a possible round (\<open>None\<close>). When an ordinary frame was taken
  and a priority frame is waiting, the priority batch is written first and the ordinary
  frame is sent to the link again. The Boolean says whether the loop goes on.
\<close>

datatype write_choice = TakeDone | TakePrio | TakeSend

fun write_round :: "write_choice \<Rightarrow> bool \<Rightarrow> tcpPeerLink \<Rightarrow> gobuf \<Rightarrow> (tcpPeerLink \<times> gobuf \<times> bool) option" where
  "write_round TakeDone stop l buf = (if stop \<or> tl_done l then Some (l, buf, False) else None)"
| "write_round TakePrio stop l buf =
     (case tl_prioSendCh l of
        [] \<Rightarrow> None
      | f # p \<Rightarrow> (case writeBatch (l\<lparr>tl_prioSendCh := p\<rparr>) buf f of (l1, b) \<Rightarrow> Some (l1, b, True)))"
| "write_round TakeSend stop l buf =
     (case tl_sendCh l of
        [] \<Rightarrow> None
      | f # q \<Rightarrow>
          (case tl_prioSendCh l of
             [] \<Rightarrow> (case writeBatch (l\<lparr>tl_sendCh := q\<rparr>) buf f of (l1, b) \<Rightarrow> Some (l1, b, True))
           | pf # p \<Rightarrow>
               (case writeBatch (l\<lparr>tl_sendCh := q, tl_prioSendCh := p\<rparr>) buf pf of
                  (l1, b) \<Rightarrow>
                    (case Link_Send l1 f of
                       (l2, None) \<Rightarrow> Some (l2, b, True)
                     | (l2, Some _) \<Rightarrow> Some (Link_Close l2, b, False)))))"

lemma drain_more_ok:
  "\<forall>f \<in> set p \<union> set s. length (frm_Header f) \<le> 0xFFFF \<Longrightarrow> drain_more k b p s = (b', p', s') \<Longrightarrow>
   \<exists>m n. m \<le> length p \<and> n \<le> length s \<and> p' = drop m p \<and> s' = drop n s \<and> (n = 0 \<or> m = length p) \<and> m + n \<le> k
     \<and> buf_data b' = buf_data b @ concat (map frame_bytes (take m p @ take n s))"
proof (induction k b p s rule: drain_more.induct)
  case (2 k buf f prio ord)
  from 2(2) obtain d where d: "AppendFrame buf f = Inr d" "buf_data d = buf_data buf @ frame_bytes f"
    using AppendFrame_ok [of f buf] by auto
  with 2 obtain m n where "m \<le> length prio" "n \<le> length ord" "p' = drop m prio" "s' = drop n ord"
    "n = 0 \<or> m = length prio" "m + n \<le> k"
    "buf_data b' = buf_data d @ concat (map frame_bytes (take m prio @ take n ord))" by auto
  with d show ?case by (intro exI [of _ "Suc m"] exI [of _ n]) simp
next
  case (3 k buf f ord)
  from 3(2) obtain d where d: "AppendFrame buf f = Inr d" "buf_data d = buf_data buf @ frame_bytes f"
    using AppendFrame_ok [of f buf] by auto
  with 3 obtain n where "n \<le> length ord" "p' = []" "s' = drop n ord" "n \<le> k"
    "buf_data b' = buf_data d @ concat (map frame_bytes (take n ord))" by auto
  with d show ?case by (intro exI [of _ 0] exI [of _ "Suc n"]) simp
qed auto

text \<open>What a batch takes: \<open>m\<close> priority frames from the front, then \<open>n\<close> ordinary ones.\<close>

lemma writeBatch_ok:
  assumes "length (frm_Header first) \<le> 0xFFFF"
    and "\<forall>f \<in> set (tl_prioSendCh l) \<union> set (tl_sendCh l). length (frm_Header f) \<le> 0xFFFF"
    and "\<not> tl_werr l (tl_writes l)"
  obtains m n buf' where "n = 0 \<or> m = length (tl_prioSendCh l)" and "m + n \<le> 15"
    and "m \<le> length (tl_prioSendCh l)" and "n \<le> length (tl_sendCh l)"
    and "writeBatch l buf first =
      (l\<lparr>tl_prioSendCh := drop m (tl_prioSendCh l), tl_sendCh := drop n (tl_sendCh l),
         tl_writes := tl_writes l + 1,
         tl_written := tl_written l @ [concat (map frame_bytes (first # take m (tl_prioSendCh l) @ take n (tl_sendCh l)))]\<rparr>, buf')"
proof -
  obtain d where d: "AppendFrame (reset_buf buf) first = Inr d" "buf_data d = frame_bytes first"
    using AppendFrame_ok [OF assms(1), of "reset_buf buf"] by (auto simp: reset_buf_def)
  obtain b' p' s' where dm: "drain_more 15 d (tl_prioSendCh l) (tl_sendCh l) = (b', p', s')"
    using prod_cases3 by blast
  from drain_more_ok [OF assms(2) dm] obtain m n where mn: "m \<le> length (tl_prioSendCh l)"
    "n \<le> length (tl_sendCh l)" "p' = drop m (tl_prioSendCh l)" "s' = drop n (tl_sendCh l)"
    "n = 0 \<or> m = length (tl_prioSendCh l)" "m + n \<le> 15"
    "buf_data b' = buf_data d @ concat (map frame_bytes (take m (tl_prioSendCh l) @ take n (tl_sendCh l)))"
    by blast
  show ?thesis
    by (rule that [of n m "reset_buf b'"])
      (use mn d dm assms(3) in \<open>simp_all add: writeBatch_def tcpWriteBatchMaxFrames_def Let_def\<close>)
qed

text \<open>A link on which writing goes on: open, writes succeed, every queued header can be encoded.\<close>

definition sendable :: "tcpPeerLink \<Rightarrow> bool" where
  "sendable l \<longleftrightarrow> link_ok l \<and> \<not> tl_done l \<and> (\<forall>n. \<not> tl_werr l n)
     \<and> (\<forall>f \<in> set (tl_prioSendCh l) \<union> set (tl_sendCh l). length (frm_Header f) \<le> 0xFFFF)"

abbreviation prios :: "Frame list \<Rightarrow> Frame list" where
  "prios fs \<equiv> filter (\<lambda>f. isPriorityFrame (frm_Type f)) fs"

lemma prios_all [simp]:
  "\<forall>f \<in> set fs. isPriorityFrame (frm_Type f) \<Longrightarrow> prios (take m fs) = take m fs"
  "\<forall>f \<in> set fs. \<not> isPriorityFrame (frm_Type f) \<Longrightarrow> prios (take m fs) = []"
  by (auto simp: filter_id_conv filter_empty_conv dest: in_set_takeD)

lemma mset_take_drop: "mset (take m xs) + mset (drop m xs) = mset xs"
  by (simp flip: mset_append)

text \<open>What a single batch does to a sendable link.\<close>

definition batch_step :: "tcpPeerLink \<Rightarrow> Frame list \<Rightarrow> tcpPeerLink \<Rightarrow> bool" where
  "batch_step l batch l' \<longleftrightarrow> sendable l' \<and> batch \<noteq> [] \<and> length batch \<le> 16
     \<and> tl_written l' = tl_written l @ [concat (map frame_bytes batch)]
     \<and> mset batch + queued l' = queued l
     \<and> prios batch @ tl_prioSendCh l' = tl_prioSendCh l"

lemma batch_step_prio:
  assumes "sendable l" and "tl_prioSendCh l = f # p"
  obtains batch l' buf' where "writeBatch (l\<lparr>tl_prioSendCh := p\<rparr>) buf f = (l', buf')" and "batch_step l batch l'"
proof -
  let ?l = "l\<lparr>tl_prioSendCh := p\<rparr>"
  have f: "isPriorityFrame (frm_Type f)" "length (frm_Header f) \<le> 0xFFFF"
    using assms by (simp_all add: sendable_def link_ok_def)
  have p: "\<forall>g \<in> set p. isPriorityFrame (frm_Type g)" "\<forall>g \<in> set (tl_sendCh l). \<not> isPriorityFrame (frm_Type g)"
    using assms by (simp_all add: sendable_def link_ok_def)
  obtain m n b where mn: "m + n \<le> 15" "m \<le> length p" "n \<le> length (tl_sendCh l)"
    and w: "writeBatch ?l buf f = (?l\<lparr>tl_prioSendCh := drop m p, tl_sendCh := drop n (tl_sendCh l),
      tl_writes := tl_writes l + 1,
      tl_written := tl_written l @ [concat (map frame_bytes (f # take m p @ take n (tl_sendCh l)))]\<rparr>, b)"
    by (rule writeBatch_ok [of f ?l buf]) (use assms f in \<open>auto simp: sendable_def\<close>)
  have "mset (take m p) + mset (drop m p) = mset p"
    "mset (take n (tl_sendCh l)) + mset (drop n (tl_sendCh l)) = mset (tl_sendCh l)"
    by (rule mset_take_drop)+
  then have "batch_step l (f # take m p @ take n (tl_sendCh l))
      (?l\<lparr>tl_prioSendCh := drop m p, tl_sendCh := drop n (tl_sendCh l), tl_writes := tl_writes l + 1,
          tl_written := tl_written l @ [concat (map frame_bytes (f # take m p @ take n (tl_sendCh l)))]\<rparr>)"
    using assms f mn p unfolding batch_step_def queued_def
    by (auto simp: sendable_def link_ok_def ac_simps dest: in_set_dropD)
  with w that show ?thesis by blast
qed

lemma batch_step_ord:
  assumes "sendable l" and "tl_prioSendCh l = []" and "tl_sendCh l = f # q"
  obtains batch l' buf' where "writeBatch (l\<lparr>tl_sendCh := q\<rparr>) buf f = (l', buf')" and "batch_step l batch l'"
proof -
  let ?l = "l\<lparr>tl_sendCh := q\<rparr>"
  have f: "\<not> isPriorityFrame (frm_Type f)" "length (frm_Header f) \<le> 0xFFFF"
    "\<forall>g \<in> set q. \<not> isPriorityFrame (frm_Type g)"
    using assms by (simp_all add: sendable_def link_ok_def)
  obtain m n b where mn: "m + n \<le> 15" "m = 0" "n \<le> length q"
    and w: "writeBatch ?l buf f = (?l\<lparr>tl_prioSendCh := [], tl_sendCh := drop n q,
      tl_writes := tl_writes l + 1, tl_written := tl_written l @ [concat (map frame_bytes (f # take n q))]\<rparr>, b)"
    by (rule writeBatch_ok [of f ?l buf]) (use assms f in \<open>auto simp: sendable_def\<close>)
  have "mset (take n q) + mset (drop n q) = mset q" by (rule mset_take_drop)
  then have "batch_step l (f # take n q) (?l\<lparr>tl_prioSendCh := [], tl_sendCh := drop n q,
      tl_writes := tl_writes l + 1, tl_written := tl_written l @ [concat (map frame_bytes (f # take n q))]\<rparr>)"
    using assms f mn unfolding batch_step_def queued_def
    by (auto simp: sendable_def link_ok_def ac_simps dest: in_set_dropD)
  with w that show ?thesis by blast
qed

text \<open>The ordinary frame that had to wait goes back to the link it came from.\<close>

lemma batch_step_resend:
  assumes "sendable (l\<lparr>tl_sendCh := q\<rparr>)" and "batch_step (l\<lparr>tl_sendCh := q\<rparr>) batch l1"
    and "tl_sendCh l = f # q" and "\<not> isPriorityFrame (frm_Type f)" and "length (frm_Header f) \<le> 0xFFFF"
    and "length (tl_sendCh l) \<le> sendChCap"
  shows "\<exists>l2. Link_Send l1 f = (l2, None) \<and> batch_step l batch l2"
proof -
  from assms(2) have b: "sendable l1" "mset batch + queued l1 = queued (l\<lparr>tl_sendCh := q\<rparr>)"
    "prios batch @ tl_prioSendCh l1 = tl_prioSendCh l" by (simp_all add: batch_step_def)
  have "mset batch + mset (tl_sendCh l1) + mset (tl_prioSendCh l1) = mset q + mset (prios batch) + mset (tl_prioSendCh l1)"
    using b(2) arg_cong [OF b(3), of mset] by (simp add: queued_def ac_simps)
  then have "mset batch + mset (tl_sendCh l1) = mset q + mset (prios batch)" by simp
  then have "size (mset batch + mset (tl_sendCh l1)) = size (mset q + mset (prios batch))" by simp
  then have "length batch + length (tl_sendCh l1) = length q + length (prios batch)"
    by (simp del: mset_filter)
  moreover have "length (prios batch) \<le> length batch" by (rule length_filter_le)
  ultimately have "length (tl_sendCh l1) \<le> length q" by linarith
  then have "length (tl_sendCh l1) < sendChCap" using assms(3,6) by simp
  then obtain l2 where l2: "Link_Send l1 f = (l2, None)"
    "l2 = recordQueueLen (l1\<lparr>tl_calls := tl_calls l1 + 1, tl_sendCh := tl_sendCh l1 @ [f]\<rparr>)"
    using b(1) assms(4) by (simp add: Link_Send_def Let_def sendable_def)
  have "batch_step l batch l2"
    using assms b(2) \<open>length (tl_sendCh l1) < sendChCap\<close> unfolding l2 batch_step_def
    by (auto simp: sendable_def link_ok_def recordQueueLen_def queued_def)
  with l2(1) show ?thesis by blast
qed

lemma write_round_step:
  assumes "sendable l" and "write_round ch False l buf = Some (l', buf', run)"
  shows "run \<and> (\<exists>batch. batch_step l batch l')"
proof (cases ch)
  case TakePrio
  with assms(2) obtain f p where p: "tl_prioSendCh l = f # p" by (auto split: list.splits)
  from batch_step_prio [OF assms(1) p, of buf] obtain batch l1 b
    where "writeBatch (l\<lparr>tl_prioSendCh := p\<rparr>) buf f = (l1, b)" "batch_step l batch l1" by blast
  with TakePrio p assms(2) show ?thesis by auto
next
  case TakeSend
  with assms(2) obtain f q where q: "tl_sendCh l = f # q" by (auto split: list.splits)
  show ?thesis
  proof (cases "tl_prioSendCh l")
    case Nil
    from batch_step_ord [OF assms(1) Nil q, of buf] obtain batch l1 b
      where "writeBatch (l\<lparr>tl_sendCh := q\<rparr>) buf f = (l1, b)" "batch_step l batch l1" by blast
    with TakeSend q Nil assms(2) show ?thesis by auto
  next
    case (Cons pf p)
    have f: "\<not> isPriorityFrame (frm_Type f)" "length (frm_Header f) \<le> 0xFFFF" "length (tl_sendCh l) \<le> sendChCap"
      and s: "sendable (l\<lparr>tl_sendCh := q\<rparr>)" "tl_prioSendCh (l\<lparr>tl_sendCh := q\<rparr>) = pf # p"
      using assms(1) q Cons by (simp_all add: sendable_def link_ok_def)
    from batch_step_prio [OF s, of buf] obtain batch l1 b
      where w: "writeBatch (l\<lparr>tl_sendCh := q, tl_prioSendCh := p\<rparr>) buf pf = (l1, b)"
        "batch_step (l\<lparr>tl_sendCh := q\<rparr>) batch l1" by blast
    from batch_step_resend [OF s(1) w(2) q f] obtain l2 where "Link_Send l1 f = (l2, None)" "batch_step l batch l2"
      by blast
    with TakeSend q Cons assms(2) w show ?thesis by auto
  qed
next
  case TakeDone
  with assms show ?thesis by (simp add: sendable_def split: if_splits)
qed

text \<open>
  The loop until both channels are empty, for any resolution of \<^verbatim>\<open>select\<close> when both channels
  are ready (\<open>policy l\<close>: take the priority case).
\<close>

definition next_choice :: "(tcpPeerLink \<Rightarrow> bool) \<Rightarrow> tcpPeerLink \<Rightarrow> write_choice" where
  "next_choice policy l =
     (if tl_prioSendCh l = [] then TakeSend
      else if tl_sendCh l = [] then TakePrio
      else if policy l then TakePrio else TakeSend)"

fun write_loop :: "nat \<Rightarrow> (tcpPeerLink \<Rightarrow> bool) \<Rightarrow> tcpPeerLink \<Rightarrow> gobuf \<Rightarrow> tcpPeerLink" where
  "write_loop 0 policy l buf = l"
| "write_loop (Suc n) policy l buf =
     (if tl_prioSendCh l = [] \<and> tl_sendCh l = [] then l
      else case write_round (next_choice policy l) False l buf of
             None \<Rightarrow> l
           | Some (l', buf', run) \<Rightarrow> if run then write_loop n policy l' buf' else l')"

lemma write_round_ready:
  "tl_prioSendCh l \<noteq> [] \<or> tl_sendCh l \<noteq> [] \<Longrightarrow> write_round (next_choice policy l) False l buf \<noteq> None"
  by (auto simp: next_choice_def split: list.splits prod.splits option.splits)

lemma write_loop_drains:
  "sendable l \<Longrightarrow> size (queued l) \<le> n \<Longrightarrow>
   \<exists>batches. tl_written (write_loop n policy l buf) = tl_written l @ map (\<lambda>b. concat (map frame_bytes b)) batches
     \<and> mset (concat batches) = queued l \<and> prios (concat batches) = tl_prioSendCh l
     \<and> queued (write_loop n policy l buf) = {#}"
proof (induction n arbitrary: l buf)
  case 0
  then show ?case by (intro exI [of _ "[]"]) (simp add: queued_def)
next
  case (Suc n)
  show ?case
  proof (cases "tl_prioSendCh l = [] \<and> tl_sendCh l = []")
    case True
    then show ?thesis by (intro exI [of _ "[]"]) (simp add: queued_def)
  next
    case False
    then obtain l1 b1 run where r: "write_round (next_choice policy l) False l buf = Some (l1, b1, run)"
      using write_round_ready [of l policy buf] by (metis not_Some_eq prod_cases3)
    from write_round_step [OF Suc.prems(1) this] obtain batch where "run" and bs: "batch_step l batch l1" by blast
    have "size (mset batch + queued l1) = size (queued l)" and "0 < length batch"
      using bs by (simp_all add: batch_step_def)
    then have "size (queued l1) \<le> n" using Suc.prems(2) by (cases batch) auto
    then obtain bts where ih: "tl_written (write_loop n policy l1 b1) = tl_written l1 @ map (\<lambda>b. concat (map frame_bytes b)) bts"
      "mset (concat bts) = queued l1" "prios (concat bts) = tl_prioSendCh l1" "queued (write_loop n policy l1 b1) = {#}"
      using Suc.IH [of l1 b1] bs by (auto simp: batch_step_def)
    with False r \<open>run\<close> bs show ?thesis
      by (intro exI [of _ "batch # bts"]) (auto simp: batch_step_def)
  qed
qed

text \<open>C27: A link between agents delivers every queued frame exactly once. Whatever cases
  \<^verbatim>\<open>select\<close> takes, as many rounds of the batched writer as there are queued frames empty both
  channels, and the reading agent, for every way the stream is cut into reads, sees a
  permutation of the queued frames in which the priority frames (responses, heartbeats,
  handshakes) keep their order.\<close>

theorem peer_link_delivers:
  assumes "sendable l" and "tl_written l = []" and "\<forall>f \<in># queued l. peer_frame_ok f"
    and "size (queued l) \<le> n" and "concat cs = concat (tl_written (write_loop n policy l buf))"
  shows "\<exists>fs. feed peer_step [] cs = (map peer_event_of fs, Some []) \<and> mset fs = queued l
    \<and> prios fs = tl_prioSendCh l \<and> queued (write_loop n policy l buf) = {#}"
proof -
  obtain bts where b: "tl_written (write_loop n policy l buf) = map (\<lambda>b. concat (map frame_bytes b)) bts"
    "mset (concat bts) = queued l" "prios (concat bts) = tl_prioSendCh l" "queued (write_loop n policy l buf) = {#}"
    using write_loop_drains [OF assms(1,4), of policy buf] assms(2) by auto
  have "concat (map (\<lambda>b. concat (map frame_bytes b)) bts) = concat (map frame_bytes (concat bts))"
    by (induction bts) simp_all
  then have c: "concat cs = concat (map frame_bytes (concat bts))" using assms(5) b(1) by simp
  have "\<forall>f \<in> set (concat bts). peer_frame_ok f"
    using assms(3) unfolding b(2) [symmetric] set_mset_mset .
  from peer.feed_encoded [OF this c]
  have "feed peer_step [] cs = (map peer_event_of (concat bts), Some [])"
    by (simp add: concat_map_singleton)
  with b show ?thesis by blast
qed

definition demo_link :: tcpPeerLink where
  "demo_link = (new_link ''ra2:9000'' (\<lambda>_. False) (\<lambda>_. True))
     \<lparr>tl_sendCh := [\<lparr>frm_Type = FrameRpcRequest, frm_Header = [1], frm_Body = []\<rparr>,
                    \<lparr>frm_Type = FrameRpcRequest, frm_Header = [2], frm_Body = []\<rparr>],
      tl_prioSendCh := [\<lparr>frm_Type = FrameRpcResponse, frm_Header = [3], frm_Body = []\<rparr>]\<rparr>"

theorem peer_link_delivers_witness:
  "\<exists>fs. feed peer_step [] (tl_written (write_loop 3 (\<lambda>_. False) demo_link nil_buf)) = (map peer_event_of fs, Some [])
     \<and> prios fs = [\<lparr>frm_Type = FrameRpcResponse, frm_Header = [3], frm_Body = []\<rparr>] \<and> mset fs = queued demo_link"
proof -
  have s: "sendable demo_link" "tl_written demo_link = []" "\<forall>f \<in># queued demo_link. peer_frame_ok f"
    "size (queued demo_link) \<le> 3"
    by (simp_all add: demo_link_def new_link_def sendable_def link_ok_def sendChCap_def prioSendChCap_def
        isPriorityFrame_def FrameRpcRequest_def FrameRpcResponse_def FrameHeartbeat_def FrameHandshake_def
        FrameHandshakeAck_def queued_def peer_frame_ok_def)
  from peer_link_delivers [OF s refl, of "\<lambda>_. False" nil_buf] show ?thesis
    by (auto simp: demo_link_def)
qed

text \<open>
  The order of ordinary frames is not kept: when the loop takes an ordinary frame while a
  priority frame waits, the frame is queued again behind the ones that came after it.
\<close>

lemma peer_link_reorders:
  assumes "sendable l" and "tl_prioSendCh l = [p]" and "tl_sendCh l = [a, b]"
  shows "\<exists>l' buf'. write_round TakeSend False l buf = Some (l', buf', True)
    \<and> tl_written l' = tl_written l @ [frame_bytes p @ frame_bytes b] \<and> tl_sendCh l' = [a]"
proof -
  have h: "length (frm_Header p) \<le> 0xFFFF" "length (frm_Header b) \<le> 0xFFFF"
    "\<not> isPriorityFrame (frm_Type a)"
    using assms by (simp_all add: sendable_def link_ok_def)
  obtain d where d: "AppendFrame (reset_buf buf) p = Inr d" "buf_data d = frame_bytes p"
    using AppendFrame_ok [OF h(1), of "reset_buf buf"] by (auto simp: reset_buf_def)
  obtain e where e: "AppendFrame d b = Inr e" "buf_data e = frame_bytes p @ frame_bytes b"
    using AppendFrame_ok [OF h(2), of d] d(2) by auto
  have "drain_more (Suc (Suc 13)) d [] [b] = (e, [], [])"
    using e(1) by (simp only: drain_more.simps sum.case)
  then have "drain_more (tcpWriteBatchMaxFrames - 1) d [] [b] = (e, [], [])"
    by (simp add: tcpWriteBatchMaxFrames_def)
  then have "writeBatch (l\<lparr>tl_sendCh := [b], tl_prioSendCh := []\<rparr>) buf p =
      (l\<lparr>tl_sendCh := [], tl_prioSendCh := [], tl_writes := tl_writes l + 1,
         tl_written := tl_written l @ [frame_bytes p @ frame_bytes b]\<rparr>, reset_buf e)"
    using assms(1) d e by (simp add: writeBatch_def sendable_def)
  with assms h(3) show ?thesis
    by (simp add: Link_Send_def Let_def sendable_def sendChCap_def recordQueueLen_def)
qed

end
