(* ===== verification/Peer_Mgr.thy ===== *)
theory Peer_Mgr
  imports Links
begin

text \<open>
  The table of peer agents (\<^verbatim>\<open>peer_mgr.go\<close>): the state of the connection to every peer and the
  frames that wait for a connection. Links are known by pointers. The theory shows that the
  waiting frames form a queue per peer from which nothing is lost and nothing handed out
  twice, whatever operations on this and other peers are interleaved, and that one dial is
  started per outage.
\<close>

type_synonym link_ptr = nat

datatype PeerState = PeerDisconnected | PeerConnecting | PeerHandshaking | PeerConnected

record PeerInfo =
  pi_Addr :: string
  pi_State :: PeerState
  pi_Link :: "link_ptr option"
  pi_Direction :: string

record peerOutbound =
  po_source :: "conn_ptr option"
  po_frame :: Frame
  po_head :: RPCWireHeader
  po_origSeqID :: u64
  po_targetNodeID :: u32
  po_prepareRPC :: bool

text \<open>The zero values of a header and of the fields of an outbound item that carries a plain frame.\<close>

definition zero_head :: RPCWireHeader where
  "zero_head = \<lparr>hdr_SeqID = 0, hdr_ServerType = 0, hdr_RoutingMode = 0, hdr_DeadlineMs = 0, hdr_WaiterID = 0,
     hdr_SrcNodeID = 0, hdr_DestNodeID = 0, hdr_ErrCode = 0, hdr_RoutingKey = [], hdr_Route = []\<rparr>"

definition plain_outbound :: "Frame \<Rightarrow> peerOutbound" where
  "plain_outbound f = \<lparr>po_source = None, po_frame = f, po_head = zero_head, po_origSeqID = 0,
     po_targetNodeID = 0, po_prepareRPC = False\<rparr>"

record PeerMgr =
  pm_peers :: "(string, PeerInfo) gomap"
  pm_pending :: "string \<rightharpoonup> peerOutbound list"
  pm_listenAddr :: string

definition peerPendingLimit :: nat where "peerPendingLimit = 65536"

definition peerKey :: "string \<Rightarrow> u32 \<Rightarrow> string" where
  "peerKey addr serverType = addr @ '':'' @ dec_nat (unat serverType)"

definition NewPeerMgr :: PeerMgr where
  "NewPeerMgr = \<lparr>pm_peers = [], pm_pending = Map.empty, pm_listenAddr = []\<rparr>"

definition PeerMgr_SetListenAddr :: "PeerMgr \<Rightarrow> string \<Rightarrow> PeerMgr" where
  "PeerMgr_SetListenAddr m addr = m\<lparr>pm_listenAddr := addr\<rparr>"

definition PeerMgr_Get :: "PeerMgr \<Rightarrow> string \<Rightarrow> PeerInfo option" where
  "PeerMgr_Get m addr = map_of (pm_peers m) addr"

definition getLink :: "PeerMgr \<Rightarrow> string \<Rightarrow> link_ptr option \<times> PeerState" where
  "getLink m addr =
     (case map_of (pm_peers m) addr of
        None \<Rightarrow> (None, PeerDisconnected)
      | Some peer \<Rightarrow> (pi_Link peer, pi_State peer))"

definition blank_peer :: "string \<Rightarrow> PeerInfo" where
  "blank_peer addr = \<lparr>pi_Addr = addr, pi_State = PeerDisconnected, pi_Link = None, pi_Direction = []\<rparr>"

text \<open>The entry of a peer, created with zero values when it is missing.\<close>

definition peer_entry :: "PeerMgr \<Rightarrow> string \<Rightarrow> PeerInfo" where
  "peer_entry m addr = (case map_of (pm_peers m) addr of None \<Rightarrow> blank_peer addr | Some p \<Rightarrow> p)"

definition put_peer :: "PeerMgr \<Rightarrow> string \<Rightarrow> PeerInfo \<Rightarrow> PeerMgr" where
  "put_peer m addr p = m\<lparr>pm_peers := mput addr p (pm_peers m)\<rparr>"

definition waiting :: "PeerMgr \<Rightarrow> string \<Rightarrow> peerOutbound list" where
  "waiting m addr = (case pm_pending m addr of None \<Rightarrow> [] | Some q \<Rightarrow> q)"

definition Attach :: "PeerMgr \<Rightarrow> string \<Rightarrow> link_ptr \<Rightarrow> string \<Rightarrow> PeerMgr \<times> link_ptr option \<times> bool \<times> peerOutbound list" where
  "Attach m addr link direction =
     (let peer = peer_entry m addr;
          replaced = (pi_Link peer \<noteq> None \<and> pi_Link peer \<noteq> Some link);
          old = (if replaced then pi_Link peer else None);
          m1 = put_peer m addr (peer\<lparr>pi_Link := Some link, pi_State := PeerConnected, pi_Direction := direction\<rparr>)
      in (m1\<lparr>pm_pending := (pm_pending m)(addr := None)\<rparr>, old, replaced, waiting m addr))"

definition SetState :: "PeerMgr \<Rightarrow> string \<Rightarrow> PeerState \<Rightarrow> PeerMgr" where
  "SetState m addr state = put_peer m addr ((peer_entry m addr)\<lparr>pi_State := state\<rparr>)"

definition enqueue :: "PeerMgr \<Rightarrow> string \<Rightarrow> peerOutbound \<Rightarrow> PeerMgr \<times> bool \<times> agent_error option" where
  "enqueue m addr item =
     (let peer = peer_entry m addr; m0 = put_peer m addr peer in
      if pi_State peer = PeerConnected \<and> pi_Link peer \<noteq> None then (m0, False, None)
      else if peerPendingLimit \<le> length (waiting m addr) then (m0, False, Some ErrPeerQueueFull)
      else
        let m1 = m0\<lparr>pm_pending := (pm_pending m)(addr \<mapsto> waiting m addr @ [item])\<rparr> in
        if pi_State peer \<noteq> PeerConnecting \<and> pi_State peer \<noteq> PeerHandshaking
        then (put_peer m1 addr (peer\<lparr>pi_State := PeerConnecting\<rparr>), True, None)
        else (m1, False, None))"

definition failPending :: "PeerMgr \<Rightarrow> string \<Rightarrow> PeerMgr \<times> peerOutbound list" where
  "failPending m addr =
     (let peer = peer_entry m addr;
          peer1 = (if pi_State peer = PeerConnecting \<or> pi_State peer = PeerHandshaking
                   then peer\<lparr>pi_State := PeerDisconnected\<rparr> else peer)
      in ((put_peer m addr peer1)\<lparr>pm_pending := (pm_pending m)(addr := None)\<rparr>, waiting m addr))"

definition PeerMgr_Disconnect :: "PeerMgr \<Rightarrow> string \<Rightarrow> PeerMgr" where
  "PeerMgr_Disconnect m addr =
     m\<lparr>pm_peers := mdel addr (pm_peers m), pm_pending := (pm_pending m)(addr := None)\<rparr>"

definition Detach :: "PeerMgr \<Rightarrow> string \<Rightarrow> link_ptr \<Rightarrow> PeerMgr \<times> bool" where
  "Detach m addr link =
     (case map_of (pm_peers m) addr of
        None \<Rightarrow> (m, False)
      | Some peer \<Rightarrow> if pi_Link peer \<noteq> Some link then (m, False)
                     else (m\<lparr>pm_peers := mdel addr (pm_peers m)\<rparr>, True))"

definition PeerMgr_List :: "PeerMgr \<Rightarrow> PeerInfo list" where
  "PeerMgr_List m = map snd (pm_peers m)"

section \<open>Keys\<close>

text \<open>Different address and server type give different keys, although addresses hold colons.\<close>

lemma while_stop:
  "\<forall>c \<in> set xs. c \<noteq> y \<Longrightarrow> takeWhile (\<lambda>c. c \<noteq> y) (xs @ y # ys) = xs"
  "\<forall>c \<in> set xs. c \<noteq> y \<Longrightarrow> dropWhile (\<lambda>c. c \<noteq> y) (xs @ y # ys) = y # ys"
  by (induction xs) auto

lemma takeWhile_rev_dec:
  "takeWhile (\<lambda>c. c \<noteq> CHR '':'') (rev (a @ '':'' @ dec_nat n)) = rev (dec_nat n)"
  "dropWhile (\<lambda>c. c \<noteq> CHR '':'') (rev (a @ '':'' @ dec_nat n)) = CHR '':'' # rev a"
proof -
  have "\<forall>c \<in> set (rev (dec_nat n)). c \<noteq> CHR '':''" using dec_nat_clean(2) [of n] by auto
  then show "takeWhile (\<lambda>c. c \<noteq> CHR '':'') (rev (a @ '':'' @ dec_nat n)) = rev (dec_nat n)"
    "dropWhile (\<lambda>c. c \<noteq> CHR '':'') (rev (a @ '':'' @ dec_nat n)) = CHR '':'' # rev a"
    using while_stop [of "rev (dec_nat n)" "CHR '':''" "rev a"] by simp_all
qed

lemma peerKey_inj: "peerKey a s = peerKey b t \<longleftrightarrow> a = b \<and> s = t"
proof
  assume e: "peerKey a s = peerKey b t"
  have "rev (dec_nat (unat s)) = rev (dec_nat (unat t))"
    using e by (metis peerKey_def takeWhile_rev_dec(1))
  moreover have "CHR '':'' # rev a = CHR '':'' # rev b"
    using e by (metis peerKey_def takeWhile_rev_dec(2))
  ultimately show "a = b \<and> s = t" by (auto dest: dec_nat_inj simp: word_unat_eq_iff)
qed simp

section \<open>Invariant\<close>

text \<open>The queues are bounded, and nothing waits for a peer that is connected.\<close>

definition connected :: "PeerMgr \<Rightarrow> string \<Rightarrow> bool" where
  "connected m k \<longleftrightarrow> snd (getLink m k) = PeerConnected \<and> fst (getLink m k) \<noteq> None"

definition pm_ok :: "PeerMgr \<Rightarrow> bool" where
  "pm_ok m \<longleftrightarrow> wf_map (pm_peers m)
     \<and> (\<forall>k. length (waiting m k) \<le> peerPendingLimit \<and> (connected m k \<longrightarrow> waiting m k = []))"

lemma connected_entry: "connected m k \<longleftrightarrow> pi_State (peer_entry m k) = PeerConnected \<and> pi_Link (peer_entry m k) \<noteq> None"
  by (simp add: connected_def getLink_def peer_entry_def blank_peer_def split: option.splits)

lemma peer_views [simp]:
  "peer_entry (put_peer m k p) j = (if j = k then p else peer_entry m j)"
  "waiting (put_peer m k p) j = waiting m j"
  "peer_entry (m\<lparr>pm_pending := q\<rparr>) j = peer_entry m j"
  "waiting (m\<lparr>pm_peers := ps\<rparr>) j = waiting m j"
  by (auto simp: peer_entry_def put_peer_def waiting_def)

lemma waiting_upd [simp]:
  "waiting (m\<lparr>pm_pending := (pm_pending m')(k := v)\<rparr>) j =
     (if j = k then (case v of None \<Rightarrow> [] | Some q \<Rightarrow> q) else waiting m' j)"
  by (simp add: waiting_def)

lemma wf_put_peer [simp]: "wf_map (pm_peers m) \<Longrightarrow> wf_map (pm_peers (put_peer m k p))"
  by (simp add: put_peer_def)

section \<open>Histories\<close>

text \<open>
  Every operation on the table, and its log: the item it reports as taken, and the items that
  leave it, handed out to the caller for sending or failing, discarded with the peer, or dropped
  at once because the peer counts as connected.
\<close>

datatype pm_op =
    OpEnqueue string peerOutbound
  | OpSetState string PeerState
  | OpAttach string link_ptr string
  | OpFail string
  | OpDetach string link_ptr
  | OpDisconnect string

fun op_key :: "pm_op \<Rightarrow> string" where
  "op_key (OpEnqueue k i) = k" | "op_key (OpSetState k s) = k" | "op_key (OpAttach k l d) = k"
| "op_key (OpFail k) = k" | "op_key (OpDetach k l) = k" | "op_key (OpDisconnect k) = k"

fun pm_step :: "PeerMgr \<Rightarrow> pm_op \<Rightarrow> PeerMgr" where
  "pm_step m (OpEnqueue k i) = fst (enqueue m k i)"
| "pm_step m (OpSetState k s) = SetState m k s"
| "pm_step m (OpAttach k l d) = fst (Attach m k l d)"
| "pm_step m (OpFail k) = fst (failPending m k)"
| "pm_step m (OpDetach k l) = fst (Detach m k l)"
| "pm_step m (OpDisconnect k) = PeerMgr_Disconnect m k"

datatype leaving = HandedOut | Discarded | Dropped

fun taken :: "PeerMgr \<Rightarrow> pm_op \<Rightarrow> peerOutbound list" where
  "taken m (OpEnqueue k i) = (if snd (snd (enqueue m k i)) = None then [i] else [])"
| "taken m _ = []"

fun departed :: "PeerMgr \<Rightarrow> pm_op \<Rightarrow> (leaving \<times> peerOutbound) list" where
  "departed m (OpEnqueue k i) = (if connected m k then [(Dropped, i)] else [])"
| "departed m (OpAttach k l d) = map (Pair HandedOut) (snd (snd (snd (Attach m k l d))))"
| "departed m (OpFail k) = map (Pair HandedOut) (snd (failPending m k))"
| "departed m (OpDisconnect k) = map (Pair Discarded) (waiting m k)"
| "departed m _ = []"

fun logs :: "(PeerMgr \<Rightarrow> pm_op \<Rightarrow> 'a list) \<Rightarrow> string \<Rightarrow> PeerMgr \<Rightarrow> pm_op list \<Rightarrow> 'a list" where
  "logs L k m [] = []"
| "logs L k m (op # ops) = (if op_key op = k then L m op else []) @ logs L k (pm_step m op) ops"

lemma step_conserves:
  assumes "connected m k \<Longrightarrow> waiting m k = []"
  shows "waiting m k @ (if op_key op = k then taken m op else [])
     = (if op_key op = k then map snd (departed m op) else []) @ waiting (pm_step m op) k"
proof (cases op)
  case (OpEnqueue j i)
  then show ?thesis using assms by (auto simp: enqueue_def Let_def connected_entry)
qed (auto simp: SetState_def Attach_def failPending_def Detach_def PeerMgr_Disconnect_def Let_def comp_def split: option.splits)

lemma other_key_waiting: "op_key op \<noteq> k \<Longrightarrow> waiting (pm_step m op) k = waiting m k"
  by (cases op) (auto simp: SetState_def enqueue_def Attach_def failPending_def Detach_def PeerMgr_Disconnect_def Let_def split: option.splits)

lemma connected_Disconnect: "connected (PeerMgr_Disconnect m j) k \<longleftrightarrow> j \<noteq> k \<and> connected m k"
  by (simp add: connected_def getLink_def PeerMgr_Disconnect_def)

lemma pm_ok_step:
  assumes "pm_ok m" and "\<And>k. op \<noteq> OpSetState k PeerConnected"
  shows "pm_ok (pm_step m op)"
proof -
  have wf: "wf_map (pm_peers m)" and len: "\<And>k. length (waiting m k) \<le> peerPendingLimit"
    and con: "\<And>k. connected m k \<Longrightarrow> waiting m k = []" using assms(1) by (auto simp: pm_ok_def)
  note defs = SetState_def enqueue_def Attach_def failPending_def Detach_def PeerMgr_Disconnect_def Let_def
  have "wf_map (pm_peers (pm_step m op))"
    using wf by (cases op) (auto simp: defs split: option.splits)
  moreover have "length (waiting (pm_step m op) k) \<le> peerPendingLimit" for k
    using len [of k] by (cases op) (auto simp: defs split: option.splits)
  moreover have "connected (pm_step m op) k \<Longrightarrow> waiting (pm_step m op) k = []" for k
    using con [of k] assms(2) [of k]
  proof (cases op)
    case (OpDetach j l)
    then show "connected (pm_step m op) k \<Longrightarrow> waiting (pm_step m op) k = []"
      using con [of k] by (auto simp: Detach_def connected_def getLink_def split: option.splits if_splits)
  next
    case (OpDisconnect j)
    then show "connected (pm_step m op) k \<Longrightarrow> waiting (pm_step m op) k = []"
      using con [of k] by (auto simp: connected_Disconnect) (simp add: PeerMgr_Disconnect_def)
  qed (auto simp: defs connected_entry split: if_splits)
  ultimately show ?thesis by (simp add: pm_ok_def)
qed

lemma pm_ok_New [simp]: "pm_ok NewPeerMgr"
  by (simp add: pm_ok_def NewPeerMgr_def waiting_def)

lemma run_conserves:
  assumes "pm_ok m" and "\<forall>j. OpSetState j PeerConnected \<notin> set ops"
  shows "waiting m k @ logs taken k m ops = map snd (logs departed k m ops) @ waiting (foldl pm_step m ops) k \<and> pm_ok (foldl pm_step m ops)"
  using assms
proof (induction ops arbitrary: m)
  case (Cons op ops)
  have ok: "pm_ok (pm_step m op)" by (rule pm_ok_step) (use Cons.prems in auto)
  have w: "connected m k \<Longrightarrow> waiting m k = []" using Cons.prems(1) by (simp add: pm_ok_def)
  have IH: "waiting (pm_step m op) k @ logs taken k (pm_step m op) ops
      = map snd (logs departed k (pm_step m op) ops) @ waiting (foldl pm_step (pm_step m op) ops) k" "pm_ok (foldl pm_step (pm_step m op) ops)"
    using Cons.IH [OF ok] Cons.prems(2) by auto
  have "waiting m k @ logs taken k m (op # ops) =
      (waiting m k @ (if op_key op = k then taken m op else [])) @ logs taken k (pm_step m op) ops" by simp
  also have "\<dots> = (if op_key op = k then map snd (departed m op) else []) @
      (waiting (pm_step m op) k @ logs taken k (pm_step m op) ops)"
    by (simp only: step_conserves [OF w] append_assoc)
  also have "\<dots> = map snd (logs departed k m (op # ops)) @ waiting (foldl pm_step m (op # ops)) k"
    by (simp only: IH) simp
  finally show ?case using IH(2) by simp
qed simp

lemma departed_kinds: "op \<noteq> OpDisconnect (op_key op) \<Longrightarrow> Discarded \<notin> fst ` set (departed m op)"
  by (cases op) (auto simp: image_iff)

text \<open>C30: Frames for a peer keep their order and none is duplicated or lost unaccounted. Over every
  interleaving of queueing, connecting, failing, replacing, detaching and removing on this and
  other peers, in which a peer is marked as connected by attaching a link only (as in the code),
  the frames reported as taken for a peer are those that left the table, in the same order,
  followed by those still waiting. A frame leaves when it is handed out for sending or for
  failing; it is discarded only when the peer is removed with \<^verbatim>\<open>Disconnect\<close>, and dropped at once only
  when it is queued while the peer is connected. So without these two the frames taken are the
  frames handed out and those waiting. The queue stays bounded and is empty whenever the peer is
  connected.\<close>

theorem pending_conserved:
  assumes "\<forall>j. OpSetState j PeerConnected \<notin> set ops"
  shows "logs taken k NewPeerMgr ops = map snd (logs departed k NewPeerMgr ops) @ waiting (foldl pm_step NewPeerMgr ops) k
    \<and> length (waiting (foldl pm_step NewPeerMgr ops) k) \<le> peerPendingLimit
    \<and> (connected (foldl pm_step NewPeerMgr ops) k \<longrightarrow> waiting (foldl pm_step NewPeerMgr ops) k = [])
    \<and> (OpDisconnect k \<notin> set ops \<longrightarrow> Discarded \<notin> fst ` set (logs departed k NewPeerMgr ops))"
proof -
  have "waiting NewPeerMgr k = []" by (simp add: waiting_def NewPeerMgr_def)
  moreover have "OpDisconnect k \<notin> set ops \<Longrightarrow> Discarded \<notin> fst ` set (logs departed k m ops)" for m
  proof (induction ops arbitrary: m)
    case (Cons op ops)
    have "Discarded \<notin> fst ` set (if op_key op = k then departed m op else [])" using Cons.prems departed_kinds [of op m] by auto
    with Cons show ?case by (auto simp: image_Un)
  qed simp
  ultimately show ?thesis using run_conserves [OF pm_ok_New assms, of k] by (simp add: pm_ok_def)
qed

text \<open>
  A frame waits and is handed out when the peer connects, a second is offered while it is connected
  and dropped, a third waits after the link is gone and is discarded with the peer.
\<close>

definition numbered_item :: "byte \<Rightarrow> peerOutbound" where
  "numbered_item n = \<lparr>po_source = None, po_frame = \<lparr>frm_Type = 3, frm_Header = [], frm_Body = [n]\<rparr>, po_head = zero_head,
     po_origSeqID = 0, po_targetNodeID = 0, po_prepareRPC = False\<rparr>"

definition peer_history :: "pm_op list" where
  "peer_history = [OpEnqueue ''a'' (numbered_item 1), OpAttach ''a'' 4 ''outgoing'', OpEnqueue ''a'' (numbered_item 2), OpDetach ''a'' 4,
     OpEnqueue ''a'' (numbered_item 3), OpDisconnect ''a'', OpEnqueue ''a'' (numbered_item 4)]"

theorem pending_conserved_witness:
  "logs departed ''a'' NewPeerMgr peer_history = [(HandedOut, numbered_item 1), (Dropped, numbered_item 2), (Discarded, numbered_item 3)]
   \<and> logs taken ''a'' NewPeerMgr peer_history = [numbered_item 1, numbered_item 2, numbered_item 3, numbered_item 4]"
proof -
  note ev = enqueue_def Attach_def Detach_def PeerMgr_Disconnect_def NewPeerMgr_def put_peer_def peer_entry_def blank_peer_def
    peerPendingLimit_def connected_def getLink_def Let_def waiting_def mput_def mdel_def
  have "logs departed ''a'' NewPeerMgr peer_history = [(HandedOut, numbered_item 1), (Dropped, numbered_item 2), (Discarded, numbered_item 3)]"
    "waiting (foldl pm_step NewPeerMgr peer_history) ''a'' = [numbered_item 4]"
    by (simp_all add: peer_history_def ev)
  note run = this
  have "\<forall>j. OpSetState j PeerConnected \<notin> set peer_history" by (simp add: peer_history_def)
  from pending_conserved [OF this, of "''a''"] run show ?thesis by simp
qed

section \<open>Dialing\<close>

fun dial_requests :: "PeerMgr \<Rightarrow> pm_op \<Rightarrow> unit list" where
  "dial_requests m (OpEnqueue k i) = (if fst (snd (enqueue m k i)) then [()] else [])"
| "dial_requests m _ = []"

definition dialing :: "PeerMgr \<Rightarrow> string \<Rightarrow> bool" where
  "dialing m k \<longleftrightarrow> pi_State (peer_entry m k) = PeerConnecting \<or> pi_State (peer_entry m k) = PeerHandshaking"

definition only_enqueues :: "string \<Rightarrow> pm_op list \<Rightarrow> bool" where
  "only_enqueues k ops \<longleftrightarrow> (\<forall>op \<in> set ops. op_key op = k \<longrightarrow> (\<exists>i. op = OpEnqueue k i))"

lemma other_key_entry: "op_key op \<noteq> k \<Longrightarrow> peer_entry (pm_step m op) k = peer_entry m k"
proof (cases op)
  case (OpDetach j l)
  moreover assume "op_key op \<noteq> k"
  ultimately show ?thesis by (auto simp: Detach_def peer_entry_def split: option.splits)
next
  case (OpDisconnect j)
  moreover assume "op_key op \<noteq> k"
  ultimately show ?thesis by (simp add: PeerMgr_Disconnect_def peer_entry_def)
qed (auto simp: SetState_def enqueue_def Attach_def failPending_def Let_def)

text \<open>Once a dial is requested or a link attached, further frames do not request another one.\<close>

lemma no_more_dials:
  "only_enqueues k ops \<Longrightarrow> dialing m k \<or> connected m k \<Longrightarrow> logs dial_requests k m ops = []"
proof (induction ops arbitrary: m)
  case (Cons op ops)
  have rest: "only_enqueues k ops" using Cons.prems(1) by (simp add: only_enqueues_def)
  show ?case
  proof (cases "op_key op = k")
    case False
    then have "dialing (pm_step m op) k \<or> connected (pm_step m op) k"
      using Cons.prems(2) other_key_entry [OF False, of m] by (simp add: dialing_def connected_entry)
    with False Cons.IH [OF rest] show ?thesis by simp
  next
    case True
    then obtain i where op: "op = OpEnqueue k i" using Cons.prems(1) by (auto simp: only_enqueues_def)
    have "dial_requests m op = [] \<and> (dialing (pm_step m op) k \<or> connected (pm_step m op) k)"
      using Cons.prems(2) by (auto simp: op enqueue_def Let_def dialing_def connected_entry)
    with Cons.IH [OF rest] True show ?thesis by simp
  qed
qed simp

text \<open>An outage starts one dial. While nothing but frames arrive for a peer that is not
  connected and not being dialled, and its queue has room, exactly one dial is requested,
  however many frames arrive and whatever happens to other peers.\<close>

theorem one_dial_per_outage:
  assumes "only_enqueues k ops" and "\<not> connected m k" and "\<not> dialing m k"
    and "length (waiting m k) < peerPendingLimit"
  shows "logs dial_requests k m ops = (if \<exists>i. OpEnqueue k i \<in> set ops then [()] else [])"
  using assms
proof (induction ops arbitrary: m)
  case (Cons op ops)
  have rest: "only_enqueues k ops" using Cons.prems(1) by (simp add: only_enqueues_def)
  show ?case
  proof (cases "op_key op = k")
    case False
    note e = other_key_entry [OF False, of m]
    have "waiting (pm_step m op) k = waiting m k" by (rule other_key_waiting [OF False])
    with Cons.prems e have "logs dial_requests k (pm_step m op) ops = (if \<exists>i. OpEnqueue k i \<in> set ops then [()] else [])"
      by (intro Cons.IH rest) (simp_all add: dialing_def connected_entry)
    with False show ?thesis by auto
  next
    case True
    then obtain i where op: "op = OpEnqueue k i" using Cons.prems(1) by (auto simp: only_enqueues_def)
    have d: "dial_requests m op = [()]" "dialing (pm_step m op) k"
      using Cons.prems(2-4) by (auto simp: op enqueue_def Let_def dialing_def connected_entry)
    with True no_more_dials [OF rest] op show ?thesis by auto
  qed
qed simp

theorem one_dial_per_outage_witness:
  "let i = \<lparr>po_source = None, po_frame = \<lparr>frm_Type = 3, frm_Header = [], frm_Body = []\<rparr>, po_head = zero_head,
            po_origSeqID = 0, po_targetNodeID = 0, po_prepareRPC = False\<rparr>
   in logs dial_requests ''a:0'' NewPeerMgr [OpEnqueue ''a:0'' i, OpEnqueue ''b:0'' i, OpFail ''b:0'', OpEnqueue ''a:0'' i] = [()]"
  unfolding Let_def
  by (subst one_dial_per_outage)
    (simp_all add: only_enqueues_def dialing_def connected_entry NewPeerMgr_def peer_entry_def
      blank_peer_def waiting_def peerPendingLimit_def)

text \<open>
  A frame offered while the peer counts as connected is reported as taken and is not queued:
  the caller's failed send is not retried.
\<close>

lemma enqueue_connected_drops:
  "connected m k \<Longrightarrow> snd (enqueue m k i) = (False, None) \<and> waiting (fst (enqueue m k i)) k = waiting m k"
  by (simp add: enqueue_def Let_def connected_entry)

end
