(* ===== verification/Forwarder.thy ===== *)
theory Forwarder
  imports Discovery Peer_Mgr Node_Id
begin

text \<open>
  The state of one RouterAgent and its peer forwarder (\<^verbatim>\<open>peer_forward.go\<close>): sending to another
  agent or queueing and dialling, answering the requester when a send fails, the handshake
  between agents in both directions, and the end of a link. Objects that the Go code shares
  by pointer (local connections and links) live in stores indexed by pointers.
\<close>

section \<open>State of an agent\<close>

record Metrics =
  mt_PeerConnectTotal :: int
  mt_PeerConnectFailTotal :: int
  mt_PeerDisconnectTotal :: int
  mt_ForwardTotal :: int
  mt_LateResponse :: int
  mt_RouteMiss :: int

definition NewMetrics :: Metrics where
  "NewMetrics = \<lparr>mt_PeerConnectTotal = 0, mt_PeerConnectFailTotal = 0, mt_PeerDisconnectTotal = 0,
     mt_ForwardTotal = 0, mt_LateResponse = 0, mt_RouteMiss = 0\<rparr>"

text \<open>
  The registry is an interface; the agent's calls to it are recorded, and \<open>rg_putErr n\<close> says
  whether the \<open>n\<close>-th registration fails.
\<close>

datatype registry_call = RegPut u32 string u32 | RegDelete u32

record RegistryState =
  rg_calls :: "registry_call list"
  rg_putErr :: "nat \<Rightarrow> bool"

text \<open>
  \<open>ag_uds\<close> and \<open>ag_links\<close> are the stores of connections and links; \<open>ag_dials\<close> are the dial
  goroutines started so far; \<open>ag_now\<close> is the clock in nanoseconds. The gauge
  \<^verbatim>\<open>RemoteSeqPending\<close> of the metrics is the counter inside \<open>ag_remoteSeq\<close>.
\<close>

record Agent =
  ag_memberTable :: MemberTable
  ag_localConns :: LocalConnSet
  ag_remoteSeq :: RemoteSeqMap
  ag_incomingSeq :: IncomingPeerSeqStore
  ag_peerMgr :: PeerMgr
  ag_metrics :: Metrics
  ag_uds :: "conn_ptr \<Rightarrow> UDSConn"
  ag_links :: "link_ptr \<Rightarrow> tcpPeerLink"
  ag_dials :: "(string \<times> u32) list"
  ag_now :: int
  ag_listenAddr :: string
  ag_registry :: "RegistryState option"
  ag_waiters :: "u64 \<rightharpoonup> BroadcastWaiter"
  ag_waiterSeq :: u64

definition count_metric :: "((int \<Rightarrow> int) \<Rightarrow> Metrics \<Rightarrow> Metrics) \<Rightarrow> Agent \<Rightarrow> Agent" where
  "count_metric upd a = a\<lparr>ag_metrics := upd (\<lambda>n. wrap_s64 (n + 1)) (ag_metrics a)\<rparr>"

text \<open>Sending through a pointer: a nil connection reports a closed pipe.\<close>

definition uds_send :: "Agent \<Rightarrow> conn_ptr option \<Rightarrow> Frame \<Rightarrow> Agent \<times> agent_error option" where
  "uds_send a c f =
     (case c of
        None \<Rightarrow> (a, Some ErrClosedPipe)
      | Some p \<Rightarrow> (case UDSConn_Send (ag_uds a p) f of (u, e) \<Rightarrow> (a\<lparr>ag_uds := (ag_uds a)(p := u)\<rparr>, e)))"

definition link_send :: "Agent \<Rightarrow> link_ptr \<Rightarrow> Frame \<Rightarrow> Agent \<times> agent_error option" where
  "link_send a l f =
     (case Link_Send (ag_links a l) f of (k, e) \<Rightarrow> (a\<lparr>ag_links := (ag_links a)(l := k)\<rparr>, e))"

definition link_close :: "Agent \<Rightarrow> link_ptr option \<Rightarrow> Agent" where
  "link_close a l =
     (case l of None \<Rightarrow> a | Some p \<Rightarrow> a\<lparr>ag_links := (ag_links a)(p := Link_Close (ag_links a p))\<rparr>)"

section \<open>Sending to a peer\<close>

definition FailOutbound :: "Agent \<Rightarrow> peerOutbound \<Rightarrow> ErrCode \<Rightarrow> Agent" where
  "FailOutbound a item code =
     (if frm_Type (po_frame item) \<noteq> FrameRpcRequest \<or> po_source item = None \<or> po_origSeqID item = 0 then a
      else
        let head = (po_head item)\<lparr>hdr_SeqID := po_origSeqID item, hdr_ErrCode := code,
                     hdr_SrcNodeID := 0, hdr_DestNodeID := hdr_SrcNodeID (po_head item)\<rparr>
        in fst (uds_send a (po_source item)
             \<lparr>frm_Type = FrameRpcResponse, frm_Header = EncodeRPCWireHeader head, frm_Body = []\<rparr>))"

definition sendPeerOutbound :: "Agent \<Rightarrow> link_ptr \<Rightarrow> peerOutbound \<Rightarrow> Agent \<times> agent_error option" where
  "sendPeerOutbound a link item =
     (let frame = po_frame item in
      if po_prepareRPC item then
        let req = (frm_Type frame = FrameRpcRequest);
            ar = (if req then Remote_Alloc (ag_remoteSeq a) (po_source item) (po_origSeqID item)
                  else (ag_remoteSeq a, hdr_SeqID (po_head item)));
            a1 = a\<lparr>ag_remoteSeq := fst ar\<rparr>;
            h1 = (po_head item)\<lparr>hdr_SeqID := snd ar\<rparr>;
            h2 = (if po_targetNodeID item \<noteq> 0
                  then h1\<lparr>hdr_DestNodeID := po_targetNodeID item, hdr_RoutingMode := RoutingModeDirect,
                          hdr_RoutingKey := dec_nat (unat (po_targetNodeID item))\<rparr>
                  else h1)
        in case link_send a1 link (frame\<lparr>frm_Header := EncodeRPCWireHeader h2\<rparr>) of
             (a2, None) \<Rightarrow> (a2, None)
           | (a2, Some e) \<Rightarrow>
               let a3 = (if req then a2\<lparr>ag_remoteSeq := fst (Remote_Pop (ag_remoteSeq a2) (hdr_SeqID h2))\<rparr> else a2)
               in (FailOutbound a3 item ERR_INTERNAL, Some e)
      else
        case link_send a link frame of
          (a1, None) \<Rightarrow> (a1, None)
        | (a1, Some e) \<Rightarrow> (FailOutbound a1 item ERR_INTERNAL, Some e))"

definition startDial :: "Agent \<Rightarrow> string \<Rightarrow> u32 \<Rightarrow> Agent" where
  "startDial a addr serverType = a\<lparr>ag_dials := ag_dials a @ [(addr, serverType)]\<rparr>"

text \<open>\<^verbatim>\<open>SendOrQueue\<close> after the attempt on a connected link: queue the item and dial if asked to.\<close>

definition queue_outbound :: "Agent \<Rightarrow> string \<Rightarrow> u32 \<Rightarrow> peerOutbound \<Rightarrow> Agent \<times> agent_error option" where
  "queue_outbound a addr serverType item =
     (case enqueue (ag_peerMgr a) (peerKey addr serverType) item of
        (pm, dial, e) \<Rightarrow>
          let a1 = a\<lparr>ag_peerMgr := pm\<rparr> in
          case e of
            Some err \<Rightarrow> (FailOutbound a1 item ERR_INTERNAL, Some err)
          | None \<Rightarrow> (if dial then startDial a1 addr serverType else a1, None))"

text \<open>
  \<^verbatim>\<open>SendOrQueue\<close> as it runs beside the goroutines of the links: the table is locked for the look-up and
  again for the queueing, and in between, \<open>mid1\<close> after the look-up and \<open>mid2\<close> after a failed send,
  other goroutines may attach and detach links or do anything else. \<open>SendOrQueue\<close> is the run
  without interference.
\<close>

definition SendOrQueue_steps :: "(Agent \<Rightarrow> Agent) \<Rightarrow> (Agent \<Rightarrow> Agent) \<Rightarrow> Agent \<Rightarrow> string \<Rightarrow> u32 \<Rightarrow> peerOutbound \<Rightarrow> Agent \<times> agent_error option" where
  "SendOrQueue_steps mid1 mid2 a addr serverType item =
     (if addr = [] then (FailOutbound a item ERR_NO_ROUTE, Some ErrPeerAddrEmpty)
      else case getLink (ag_peerMgr a) (peerKey addr serverType) of
        (Some link, PeerConnected) \<Rightarrow>
          (case sendPeerOutbound (mid1 a) link item of
             (a1, None) \<Rightarrow> (a1, None)
           | (a1, Some _) \<Rightarrow> queue_outbound (mid2 a1) addr serverType item)
      | _ \<Rightarrow> queue_outbound (mid1 a) addr serverType item)"

definition SendOrQueue :: "Agent \<Rightarrow> string \<Rightarrow> u32 \<Rightarrow> peerOutbound \<Rightarrow> Agent \<times> agent_error option" where
  "SendOrQueue a addr serverType item =
     (if addr = [] then (FailOutbound a item ERR_NO_ROUTE, Some ErrPeerAddrEmpty)
      else case getLink (ag_peerMgr a) (peerKey addr serverType) of
        (Some link, PeerConnected) \<Rightarrow>
          (case sendPeerOutbound a link item of
             (a1, None) \<Rightarrow> (a1, None)
           | (a1, Some _) \<Rightarrow> queue_outbound a1 addr serverType item)
      | _ \<Rightarrow> queue_outbound a addr serverType item)"

fun FlushPending :: "Agent \<Rightarrow> link_ptr \<Rightarrow> peerOutbound list \<Rightarrow> Agent" where
  "FlushPending a link [] = a"
| "FlushPending a link (item # pending) = FlushPending (fst (sendPeerOutbound a link item)) link pending"

definition SendResponseViaPeer :: "Agent \<Rightarrow> u64 \<Rightarrow> u32 \<Rightarrow> Frame \<Rightarrow> Agent" where
  "SendResponseViaPeer a seqID destNodeID frame =
     (case Local_Get (ag_localConns a) destNodeID of
        Some c \<Rightarrow> fst (uds_send a (Some c) frame)
      | None \<Rightarrow>
          (case GetByNodeID (ag_memberTable a) destNodeID of
             None \<Rightarrow> a
           | Some info \<Rightarrow>
               (case Incoming_Pop (ag_incomingSeq a) seqID of
                  (inc, key, has) \<Rightarrow>
                    let a1 = a\<lparr>ag_incomingSeq := inc\<rparr> in
                    (case (has, getLink (ag_peerMgr a1) key) of
                       (True, Some link, PeerConnected) \<Rightarrow> fst (link_send a1 link frame)
                     | _ \<Rightarrow> fst (SendOrQueue a1 (RAAddr info) 0 (plain_outbound frame))))))"

section \<open>Handshake between agents\<close>

text \<open>
  The dialling agent writes its own listen address and the server type; the accepting agent
  answers with its listen address and four zero bytes.
\<close>

definition hs_request :: "string \<Rightarrow> u32 \<Rightarrow> bytes" where
  "hs_request listenAddr serverType =
     patch_all 0 [PutUint16 (word_of_nat (length listenAddr)), str_bytes listenAddr, PutUint32 serverType]
       (replicate (2 + length listenAddr + 4) 0)"

definition hs_reply :: "string \<Rightarrow> bytes" where
  "hs_reply listenAddr =
     patch_all 0 [PutUint16 (word_of_nat (length listenAddr)), str_bytes listenAddr]
       (replicate (2 + length listenAddr + 4) 0)"

text \<open>
  Reading the length-prefixed address from what the other side sends before the stream ends:
  \<open>None\<close> when \<^verbatim>\<open>io.ReadFull\<close> fails, \<open>Some None\<close> when the length is rejected.
\<close>

definition read_addr :: "bytes \<Rightarrow> (string \<times> bytes) option option" where
  "read_addr inp =
     (if length inp < 2 then None
      else let n = unat (Uint16 (take 2 inp)) in
        if 256 < n \<or> n \<le> 0 then Some None
        else if length (drop 2 inp) < n then None
        else Some (Some (bytes_str (take n (drop 2 inp)), drop n (drop 2 inp))))"

text \<open>
  What the network does to a dial: refuse it, fail the handshake write, or carry it and
  return the given bytes.
\<close>

datatype dial_net = DialRefused | DialWriteFails | DialReplies bytes

datatype dial_error = DialFailed | HandshakeWriteFailed | HandshakeReadFailed | InvalidPeerAddrLength

definition dial_failed :: "Agent \<Rightarrow> string \<Rightarrow> Agent" where
  "dial_failed a key = a\<lparr>ag_peerMgr := SetState (ag_peerMgr a) key PeerDisconnected\<rparr>"

text \<open>
  \<^verbatim>\<open>dialConn\<close>: \<open>pl\<close> is the pointer of the new link, \<open>werr\<close> and \<open>race\<close> the outcomes of its later
  writes and selects.
\<close>

definition dialConn :: "Agent \<Rightarrow> string \<Rightarrow> u32 \<Rightarrow> dial_net \<Rightarrow> link_ptr \<Rightarrow> (nat \<Rightarrow> bool) \<Rightarrow> (nat \<Rightarrow> bool)
    \<Rightarrow> Agent \<times> (dial_error + string)" where
  "dialConn a addr serverType net pl werr race =
     (if addr = [] then (a, Inl DialFailed)
      else
        let key = peerKey addr serverType;
            a1 = a\<lparr>ag_peerMgr := SetState (ag_peerMgr a) key PeerConnecting\<rparr>;
            failed = count_metric mt_PeerConnectFailTotal_update (dial_failed a1 key)
        in case net of
             DialRefused \<Rightarrow> (failed, Inl DialFailed)
           | DialWriteFails \<Rightarrow> (failed, Inl HandshakeWriteFailed)
           | DialReplies inp \<Rightarrow>
               (case read_addr inp of
                  None \<Rightarrow> (failed, Inl HandshakeReadFailed)
                | Some None \<Rightarrow> (dial_failed a1 key, Inl InvalidPeerAddrLength)
                | Some (Some (peerListenAddr, _)) \<Rightarrow>
                    (a1\<lparr>ag_links := (ag_links a1)(pl := new_link peerListenAddr werr race)\<rparr>, Inr peerListenAddr)))"

text \<open>Binding a new link: \<^verbatim>\<open>Attach\<close>, closing the link it replaces, flushing what waited.\<close>

definition attach_link :: "Agent \<Rightarrow> string \<Rightarrow> link_ptr \<Rightarrow> string \<Rightarrow> Agent" where
  "attach_link a key pl direction =
     (case Attach (ag_peerMgr a) key pl direction of
        (pm, old, replaced, pending) \<Rightarrow>
          let a1 = a\<lparr>ag_peerMgr := pm\<rparr>;
              a2 = (if replaced then link_close (count_metric mt_PeerDisconnectTotal_update a1) old else a1);
              a3 = count_metric mt_PeerConnectTotal_update a2
          in FlushPending a3 pl pending)"

fun fail_all :: "Agent \<Rightarrow> peerOutbound list \<Rightarrow> Agent" where
  "fail_all a [] = a"
| "fail_all a (item # pending) = fail_all (FailOutbound a item ERR_INTERNAL) pending"

text \<open>The body of the dial goroutine: dial, then the posted continuation.\<close>

definition run_dial :: "Agent \<Rightarrow> string \<Rightarrow> u32 \<Rightarrow> dial_net \<Rightarrow> link_ptr \<Rightarrow> (nat \<Rightarrow> bool) \<Rightarrow> (nat \<Rightarrow> bool) \<Rightarrow> Agent" where
  "run_dial a addr serverType net pl werr race =
     (case dialConn a addr serverType net pl werr race of
        (a1, Inl _) \<Rightarrow>
          (case failPending (ag_peerMgr a1) (peerKey addr serverType) of
             (pm, pending) \<Rightarrow> fail_all (a1\<lparr>ag_peerMgr := pm\<rparr>) pending)
      | (a1, Inr peerListenAddr) \<Rightarrow> attach_link a1 (peerKey peerListenAddr serverType) pl ''outgoing'')"

text \<open>
  \<^verbatim>\<open>HandleIncomingPeer\<close> up to its read loop: the key under which the link is attached, or
  \<open>None\<close> when the handshake ends early. \<open>wfail\<close> says whether the reply cannot be written.
\<close>

definition read_server_type :: "bytes \<Rightarrow> u32" where
  "read_server_type inp = (if length inp < 4 then 0 else Uint32 (take 4 inp))"

definition HandleIncomingPeer :: "Agent \<Rightarrow> bytes \<Rightarrow> bool \<Rightarrow> link_ptr \<Rightarrow> (nat \<Rightarrow> bool) \<Rightarrow> (nat \<Rightarrow> bool) \<Rightarrow> Agent \<times> string option" where
  "HandleIncomingPeer a inp wfail pl werr race =
     (case read_addr inp of
        Some (Some (peerListenAddr, rest)) \<Rightarrow>
          let key = peerKey peerListenAddr (read_server_type rest) in
          if wfail then (count_metric mt_PeerConnectFailTotal_update a, None)
          else (attach_link (a\<lparr>ag_links := (ag_links a)(pl := new_link peerListenAddr werr race)\<rparr>) key pl ''incoming'',
                Some key)
      | _ \<Rightarrow> (a, None))"

text \<open>The end of a link's read loop, in both directions.\<close>

definition link_ended :: "Agent \<Rightarrow> string \<Rightarrow> link_ptr \<Rightarrow> Agent" where
  "link_ended a key pl =
     (case Detach (ag_peerMgr a) key pl of
        (pm, removed) \<Rightarrow>
          let a1 = a\<lparr>ag_peerMgr := pm\<rparr> in
          if removed then
            count_metric mt_PeerDisconnectTotal_update
              (a1\<lparr>ag_incomingSeq := CleanupByPeer (ag_incomingSeq a1) key\<rparr>)
          else a1)"

section \<open>What the operations leave alone\<close>

lemma uds_send_Some:
  "uds_send a (Some p) f =
     (a\<lparr>ag_uds := (ag_uds a)(p := fst (UDSConn_Send (ag_uds a p) f))\<rparr>, snd (UDSConn_Send (ag_uds a p) f))"
  by (simp add: uds_send_def split: prod.splits)

lemma link_send_eq:
  "link_send a l f =
     (a\<lparr>ag_links := (ag_links a)(l := fst (Link_Send (ag_links a l) f))\<rparr>, snd (Link_Send (ag_links a l) f))"
  by (simp add: link_send_def split: prod.splits)

lemma UDSConn_Send_done [simp]: "uc_done (fst (UDSConn_Send u f)) = uc_done u"
  by (simp add: UDSConn_Send_def)

lemma uds_send_fields [simp]:
  "ag_memberTable (fst (uds_send a c f)) = ag_memberTable a" "ag_localConns (fst (uds_send a c f)) = ag_localConns a"
  "ag_remoteSeq (fst (uds_send a c f)) = ag_remoteSeq a" "ag_incomingSeq (fst (uds_send a c f)) = ag_incomingSeq a"
  "ag_peerMgr (fst (uds_send a c f)) = ag_peerMgr a" "ag_links (fst (uds_send a c f)) = ag_links a"
  "ag_metrics (fst (uds_send a c f)) = ag_metrics a" "ag_dials (fst (uds_send a c f)) = ag_dials a"
  "ag_listenAddr (fst (uds_send a c f)) = ag_listenAddr a"
  by (simp_all add: uds_send_def split: option.splits prod.splits)

lemma link_send_fields [simp]:
  "ag_memberTable (fst (link_send a l f)) = ag_memberTable a" "ag_localConns (fst (link_send a l f)) = ag_localConns a"
  "ag_remoteSeq (fst (link_send a l f)) = ag_remoteSeq a" "ag_incomingSeq (fst (link_send a l f)) = ag_incomingSeq a"
  "ag_peerMgr (fst (link_send a l f)) = ag_peerMgr a" "ag_uds (fst (link_send a l f)) = ag_uds a"
  "ag_metrics (fst (link_send a l f)) = ag_metrics a" "ag_dials (fst (link_send a l f)) = ag_dials a"
  by (simp_all add: link_send_def split: prod.splits)

lemma FailOutbound_fields [simp]:
  "ag_memberTable (FailOutbound a i e) = ag_memberTable a" "ag_localConns (FailOutbound a i e) = ag_localConns a"
  "ag_remoteSeq (FailOutbound a i e) = ag_remoteSeq a" "ag_incomingSeq (FailOutbound a i e) = ag_incomingSeq a"
  "ag_peerMgr (FailOutbound a i e) = ag_peerMgr a" "ag_links (FailOutbound a i e) = ag_links a"
  "ag_metrics (FailOutbound a i e) = ag_metrics a" "ag_dials (FailOutbound a i e) = ag_dials a"
  by (simp_all add: FailOutbound_def Let_def)

lemma count_metric_fields [simp]:
  "ag_memberTable (count_metric u a) = ag_memberTable a" "ag_localConns (count_metric u a) = ag_localConns a"
  "ag_remoteSeq (count_metric u a) = ag_remoteSeq a" "ag_incomingSeq (count_metric u a) = ag_incomingSeq a"
  "ag_peerMgr (count_metric u a) = ag_peerMgr a" "ag_links (count_metric u a) = ag_links a"
  "ag_uds (count_metric u a) = ag_uds a" "ag_dials (count_metric u a) = ag_dials a"
  by (simp_all add: count_metric_def)

lemma link_close_fields [simp]:
  "ag_peerMgr (link_close a l) = ag_peerMgr a" "ag_remoteSeq (link_close a l) = ag_remoteSeq a"
  "ag_uds (link_close a l) = ag_uds a"
  by (simp_all add: link_close_def split: option.splits)

lemma sendPeerOutbound_peerMgr [simp]: "ag_peerMgr (fst (sendPeerOutbound a l i)) = ag_peerMgr a"
  by (simp add: sendPeerOutbound_def Let_def link_send_eq split: option.splits)

lemma FlushPending_peerMgr [simp]: "ag_peerMgr (FlushPending a l ps) = ag_peerMgr a"
  by (induction a l ps rule: FlushPending.induct) simp_all

lemma fail_all_fields [simp]: "ag_peerMgr (fail_all a ps) = ag_peerMgr a" "ag_remoteSeq (fail_all a ps) = ag_remoteSeq a"
  by (induction a ps rule: fail_all.induct) simp_all

section \<open>Error replies\<close>

text \<open>The reply of a request that could not be forwarded, and the items that get one.\<close>

definition fail_reply :: "peerOutbound \<Rightarrow> ErrCode \<Rightarrow> Frame" where
  "fail_reply item code =
     \<lparr>frm_Type = FrameRpcResponse,
      frm_Header = EncodeRPCWireHeader ((po_head item)\<lparr>hdr_SeqID := po_origSeqID item, hdr_ErrCode := code,
        hdr_SrcNodeID := 0, hdr_DestNodeID := hdr_SrcNodeID (po_head item)\<rparr>),
      frm_Body = []\<rparr>"

definition answerable :: "conn_ptr \<Rightarrow> peerOutbound \<Rightarrow> bool" where
  "answerable c item \<longleftrightarrow> frm_Type (po_frame item) = FrameRpcRequest \<and> po_source item = Some c \<and> po_origSeqID item \<noteq> 0"

lemma FailOutbound_sent:
  assumes "\<not> uc_done (ag_uds a c)"
  shows "uc_sent (ag_uds (FailOutbound a item code) c) =
      uc_sent (ag_uds a c) @ (if answerable c item then [fail_reply item code] else [])"
    and "\<not> uc_done (ag_uds (FailOutbound a item code) c)"
  using assms
  by (auto simp: FailOutbound_def Let_def answerable_def fail_reply_def uds_send_Some split: if_splits)

lemma fail_all_sent:
  "\<not> uc_done (ag_uds a c) \<Longrightarrow>
   uc_sent (ag_uds (fail_all a ps) c) = uc_sent (ag_uds a c) @ map (\<lambda>i. fail_reply i ERR_INTERNAL) (filter (answerable c) ps)"
proof (induction ps arbitrary: a)
  case (Cons p ps)
  from Cons.IH [OF FailOutbound_sent(2) [OF Cons.prems, of p ERR_INTERNAL]] show ?case
    using FailOutbound_sent(1) [OF Cons.prems, of p ERR_INTERNAL] by simp
qed simp

definition dial_fails :: "string \<Rightarrow> dial_net \<Rightarrow> bool" where
  "dial_fails addr net \<longleftrightarrow> addr = [] \<or>
     (case net of DialRefused \<Rightarrow> True | DialWriteFails \<Rightarrow> True
      | DialReplies inp \<Rightarrow> (case read_addr inp of Some (Some _) \<Rightarrow> False | _ \<Rightarrow> True))"

lemma dialConn_cases:
  assumes "dialConn a addr st net pl werr race = (a1, r)"
  shows "(\<exists>e. r = Inl e) \<longleftrightarrow> dial_fails addr net" and "ag_uds a1 = ag_uds a" and "ag_remoteSeq a1 = ag_remoteSeq a"
    and "waiting (ag_peerMgr a1) k = waiting (ag_peerMgr a) k"
  using assms
  by (auto simp: dialConn_def dial_fails_def dial_failed_def SetState_def Let_def
      split: dial_net.splits option.splits if_splits)

text \<open>C29: When dialling a peer fails in any way (refused, handshake not writable, reply cut
  short or with an invalid address length), every request that waited for it is answered
  with the internal error on the connection it came from, in order and exactly once, and the
  queue of the peer is empty afterwards.\<close>

theorem dial_failure_answers_all:
  assumes "dial_fails addr net" and "\<not> uc_done (ag_uds a c)"
  shows "uc_sent (ag_uds (run_dial a addr st net pl werr race) c) = uc_sent (ag_uds a c)
      @ map (\<lambda>i. fail_reply i ERR_INTERNAL) (filter (answerable c) (waiting (ag_peerMgr a) (peerKey addr st)))
    \<and> waiting (ag_peerMgr (run_dial a addr st net pl werr race)) (peerKey addr st) = []"
proof -
  obtain a1 e where d: "dialConn a addr st net pl werr race = (a1, Inl e)"
    using dialConn_cases(1) [of a addr st net pl werr race] assms(1) by (metis prod.exhaust)
  note f = dialConn_cases(2,4) [OF d]
  have open1: "\<not> uc_done (ag_uds (a1\<lparr>ag_peerMgr := fst (failPending (ag_peerMgr a1) (peerKey addr st))\<rparr>) c)"
    using assms(2) f(1) by simp
  from fail_all_sent [OF open1] show ?thesis
    using f by (simp add: run_dial_def d failPending_def Let_def)
qed

definition demo_agent :: Agent where
  "demo_agent = \<lparr>ag_memberTable = NewMemberTable, ag_localConns = [], ag_remoteSeq = NewRemoteSeqMap (Some 0),
     ag_incomingSeq = [], ag_peerMgr = NewPeerMgr, ag_metrics = NewMetrics, ag_uds = (\<lambda>_. NewUDSConn),
     ag_links = (\<lambda>_. new_link [] (\<lambda>_. False) (\<lambda>_. True)), ag_dials = [], ag_now = 0, ag_listenAddr = ''ra1:9000'',
     ag_registry = None, ag_waiters = Map.empty, ag_waiterSeq = 0\<rparr>"

definition demo_item :: peerOutbound where
  "demo_item = \<lparr>po_source = Some 5, po_frame = \<lparr>frm_Type = FrameRpcRequest, frm_Header = [], frm_Body = [1]\<rparr>,
     po_head = zero_head\<lparr>hdr_SeqID := 9, hdr_SrcNodeID := 77\<rparr>, po_origSeqID = 9, po_targetNodeID = 4, po_prepareRPC = True\<rparr>"

theorem dial_failure_answers_all_witness:
  "uc_sent (ag_uds (run_dial (fst (SendOrQueue demo_agent ''ra2:9000'' 2 demo_item)) ''ra2:9000'' 2 DialRefused 1
      (\<lambda>_. False) (\<lambda>_. True)) 5) = [fail_reply demo_item ERR_INTERNAL]"
proof -
  let ?a = "fst (SendOrQueue demo_agent ''ra2:9000'' 2 demo_item)"
  have e: "ag_uds ?a 5 = NewUDSConn" "waiting (ag_peerMgr ?a) (peerKey ''ra2:9000'' 2) = [demo_item]"
    by (simp_all add: SendOrQueue_def getLink_def demo_agent_def NewPeerMgr_def queue_outbound_def enqueue_def
        peer_entry_def blank_peer_def waiting_def peerPendingLimit_def Let_def startDial_def put_peer_def)
  have o: "\<not> uc_done (ag_uds ?a 5)" by (simp add: e NewUDSConn_def)
  have "answerable 5 demo_item" by (simp add: answerable_def demo_item_def)
  moreover have "dial_fails ''ra2:9000'' DialRefused" by (simp add: dial_fails_def)
  ultimately show ?thesis
    using dial_failure_answers_all [OF _ o, of "''ra2:9000''" DialRefused 2 1 "\<lambda>_. False" "\<lambda>_. True"]
    by (simp add: e) (simp add: NewUDSConn_def)
qed

section \<open>Handshake\<close>

lemma hs_request_eq: "hs_request la st = PutUint16 (word_of_nat (length la)) @ str_bytes la @ PutUint32 st"
  using patch_all_append [of 0 "[]" "[PutUint16 (word_of_nat (length la)), str_bytes la, PutUint32 st]"
      "replicate (2 + length la + 4) 0"]
  by (simp add: hs_request_def)

lemma hs_reply_eq: "hs_reply lb = PutUint16 (word_of_nat (length lb)) @ str_bytes lb @ replicate 4 0"
  using patch_all_append [of 0 "[]" "[PutUint16 (word_of_nat (length lb)), str_bytes lb]" "replicate (2 + length lb + 4) 0"]
  by (simp add: hs_reply_def)

lemma read_addr_sent:
  assumes "0 < length la" and "length la \<le> 256"
  shows "read_addr (PutUint16 (word_of_nat (length la)) @ str_bytes la @ rest) = Some (Some (la, rest))"
proof -
  let ?b = "PutUint16 (word_of_nat (length la)) @ str_bytes la @ rest"
  have n: "unat (Uint16 (take 2 ?b)) = length la" using assms by (simp add: unat_of_nat)
  have "drop 2 ?b = str_bytes la @ rest" by simp
  with assms n show ?thesis by (simp add: read_addr_def Let_def del: drop_append take_append) simp
qed

definition addr_fits :: "string \<Rightarrow> bool" where
  "addr_fits la \<longleftrightarrow> 0 < length la \<and> length la \<le> 256"

lemma attach_link_connected: "getLink (ag_peerMgr (attach_link a key pl dir)) key = (Some pl, PeerConnected)"
  by (auto simp: attach_link_def Attach_def Let_def getLink_def put_peer_def)

text \<open>Two agents that shake hands agree on each other's identity: with listen addresses
  of 1 to 256 bytes the accepting agent attaches the link under the dialler's listen address
  and the requested server type, the dialling agent under the acceptor's listen address, and
  both find the link connected under these keys.\<close>

theorem handshake_agrees:
  assumes "addr_fits la" and "addr_fits lb" and "addr \<noteq> []"
    and "HandleIncomingPeer b (hs_request la st) False pl w r = (b', key)"
  shows "key = Some (peerKey la st) \<and> getLink (ag_peerMgr b') (peerKey la st) = (Some pl, PeerConnected)
    \<and> getLink (ag_peerMgr (run_dial a addr st (DialReplies (hs_reply lb)) ql w' r')) (peerKey lb st)
        = (Some ql, PeerConnected)"
proof -
  have ra: "read_addr (hs_request la st) = Some (Some (la, PutUint32 st))"
    and rb: "read_addr (hs_reply lb) = Some (Some (lb, replicate 4 0))"
    using assms(1,2) read_addr_sent [of la "PutUint32 st"] read_addr_sent [of lb "replicate 4 0"]
    by (simp_all add: addr_fits_def hs_request_eq hs_reply_eq)
  have "read_server_type (PutUint32 st) = st" by (simp add: read_server_type_def)
  with assms(4) have "key = Some (peerKey la st) \<and> getLink (ag_peerMgr b') (peerKey la st) = (Some pl, PeerConnected)"
    by (auto simp: HandleIncomingPeer_def ra Let_def attach_link_connected)
  moreover have "getLink (ag_peerMgr (run_dial a addr st (DialReplies (hs_reply lb)) ql w' r')) (peerKey lb st)
      = (Some ql, PeerConnected)"
    using assms(3) by (simp add: run_dial_def dialConn_def rb Let_def attach_link_connected)
  ultimately show ?thesis by simp
qed

theorem handshake_agrees_witness:
  "getLink (ag_peerMgr (run_dial demo_agent ''ra2:9000'' 2 (DialReplies (hs_reply ''ra2:9000'')) 7 (\<lambda>_. False) (\<lambda>_. True)))
     (peerKey ''ra2:9000'' 2) = (Some 7, PeerConnected)"
  using handshake_agrees [of "''ra1:9000''" "''ra2:9000''" "''ra2:9000''" demo_agent 2 1 "\<lambda>_. False" "\<lambda>_. True" _ _
      demo_agent 7 "\<lambda>_. False" "\<lambda>_. True", OF _ _ _ prod.collapse [symmetric]]
  by (simp add: addr_fits_def)

text \<open>
  The queue is kept under the dialled address, the link under the address the peer reports.
  When they differ, the waiting frames stay queued, the peer stays in the connecting state
  and later frames for it do not start another dial.
\<close>

lemma dial_alias_strands:
  assumes "addr_fits lb" and "addr \<noteq> []" and "addr \<noteq> lb"
    and "waiting (ag_peerMgr a) (peerKey addr st) = q"
  shows "waiting (ag_peerMgr (run_dial a addr st (DialReplies (hs_reply lb)) ql w' r')) (peerKey addr st) = q
    \<and> dialing (ag_peerMgr (run_dial a addr st (DialReplies (hs_reply lb)) ql w' r')) (peerKey addr st)"
proof -
  have rb: "read_addr (hs_reply lb) = Some (Some (lb, replicate 4 0))"
    using assms(1) read_addr_sent [of lb "replicate 4 0"] by (simp add: addr_fits_def hs_reply_eq)
  have k: "peerKey lb st \<noteq> peerKey addr st" using assms(3) by (simp add: peerKey_inj)
  show ?thesis
    using assms(2,4) k
    by (simp add: run_dial_def dialConn_def rb Let_def attach_link_def Attach_def SetState_def dialing_def)
qed

section \<open>What becomes of a request\<close>

text \<open>The frame that a prepared item puts on a link, with the sequence number it is given.\<close>

definition outbound_as :: "u64 \<Rightarrow> peerOutbound \<Rightarrow> Frame" where
  "outbound_as seq item =
     (let h1 = (po_head item)\<lparr>hdr_SeqID := seq\<rparr> in
      (po_frame item)\<lparr>frm_Header := EncodeRPCWireHeader
        (if po_targetNodeID item \<noteq> 0
         then h1\<lparr>hdr_DestNodeID := po_targetNodeID item, hdr_RoutingMode := RoutingModeDirect,
                 hdr_RoutingKey := dec_nat (unat (po_targetNodeID item))\<rparr>
         else h1)\<rparr>)"

definition prepared_request :: "conn_ptr \<Rightarrow> peerOutbound \<Rightarrow> bool" where
  "prepared_request c item \<longleftrightarrow> po_prepareRPC item \<and> answerable c item"

lemma sendPeerOutbound_request:
  assumes "prepared_request c item" and "Link_Send (ag_links a link) (outbound_as (rs_seq (ag_remoteSeq a) + 1) item) = (l', None)"
  shows "sendPeerOutbound a link item =
    (a\<lparr>ag_remoteSeq := fst (Remote_Alloc (ag_remoteSeq a) (Some c) (po_origSeqID item)),
       ag_links := (ag_links a)(link := l')\<rparr>, None)"
  using assms
  by (cases "po_targetNodeID item = 0")
    (simp_all add: sendPeerOutbound_def prepared_request_def answerable_def outbound_as_def Let_def link_send_eq)

lemma sendPeerOutbound_request_fails:
  assumes "prepared_request c item" and "Link_Send (ag_links a link) (outbound_as (rs_seq (ag_remoteSeq a) + 1) item) = (l', Some e)"
  shows "\<exists>rs. sendPeerOutbound a link item =
      (FailOutbound (a\<lparr>ag_links := (ag_links a)(link := l'), ag_remoteSeq := rs\<rparr>) item ERR_INTERNAL, Some e)
    \<and> map_of (rs_data rs) = (map_of (rs_data (ag_remoteSeq a)))(rs_seq (ag_remoteSeq a) + 1 := None)"
  using assms
  by (intro exI [of _ "fst (Remote_Pop (fst (Remote_Alloc (ag_remoteSeq a) (Some c) (po_origSeqID item)))
        (rs_seq (ag_remoteSeq a) + 1))"], cases "po_targetNodeID item = 0")
    (simp_all add: sendPeerOutbound_def prepared_request_def answerable_def outbound_as_def Let_def link_send_eq)

lemma SendOrQueue_alone: "SendOrQueue = SendOrQueue_steps id id"
  unfolding SendOrQueue_def SendOrQueue_steps_def id_apply fun_eq_iff by simp

text \<open>Attaching a link closes no connection of a requester.\<close>

lemma done_fail: "uc_done (ag_uds (FailOutbound a item code) c) = uc_done (ag_uds a c)"
  by (simp add: FailOutbound_def Let_def uds_send_def split: option.splits prod.splits) (metis UDSConn_Send_done fst_conv)

lemma done_send: "uc_done (ag_uds (fst (sendPeerOutbound a l item)) c) = uc_done (ag_uds a c)"
  by (simp add: sendPeerOutbound_def Let_def link_send_eq done_fail split: option.splits)

lemma done_flush: "uc_done (ag_uds (FlushPending a l ps) c) = uc_done (ag_uds a c)"
  by (induction a l ps rule: FlushPending.induct) (simp_all add: done_send)

lemma done_attach: "uc_done (ag_uds (attach_link a key pl dir) c) = uc_done (ag_uds a c)"
  by (simp add: attach_link_def Let_def done_flush split: prod.splits)

text \<open>
  The fates of a request: on the link under a new number that resolves to its requester, in the
  queue of the peer, answered with an error, or none of these.
\<close>

definition forwarded :: "Agent \<Rightarrow> Agent \<Rightarrow> conn_ptr \<Rightarrow> link_ptr \<Rightarrow> peerOutbound \<Rightarrow> bool" where
  "forwarded a a' c link item \<longleftrightarrow>
     (let n = rs_seq (ag_remoteSeq a) + 1 in
      queued (ag_links a' link) = add_mset (outbound_as n item) (queued (ag_links a link))
      \<and> map_of (rs_data (ag_remoteSeq a')) n = Some \<lparr>rse_udsConn = Some c, rse_origSeqID = po_origSeqID item\<rparr>
      \<and> ag_uds a' = ag_uds a \<and> ag_peerMgr a' = ag_peerMgr a)"

definition parked :: "Agent \<Rightarrow> Agent \<Rightarrow> string \<Rightarrow> peerOutbound \<Rightarrow> bool" where
  "parked a a' key item \<longleftrightarrow>
     waiting (ag_peerMgr a') key = waiting (ag_peerMgr a) key @ [item] \<and> ag_uds a' = ag_uds a \<and> ag_links a' = ag_links a"

definition refused :: "Agent \<Rightarrow> Agent \<Rightarrow> conn_ptr \<Rightarrow> string \<Rightarrow> ErrCode \<Rightarrow> peerOutbound \<Rightarrow> bool" where
  "refused a a' c key code item \<longleftrightarrow>
     uc_sent (ag_uds a' c) = uc_sent (ag_uds a c) @ [fail_reply item code] \<and> waiting (ag_peerMgr a') key = waiting (ag_peerMgr a) key"

definition ignored :: "Agent \<Rightarrow> Agent \<Rightarrow> string \<Rightarrow> bool" where
  "ignored a a' key \<longleftrightarrow>
     waiting (ag_peerMgr a') key = waiting (ag_peerMgr a) key \<and> ag_uds a' = ag_uds a \<and> ag_links a' = ag_links a"

lemma queue_outbound_fate:
  assumes "prepared_request c item" and "\<not> uc_done (ag_uds a c)" and "key = peerKey addr st" and "a' = fst (queue_outbound a addr st item)"
  shows "if connected (ag_peerMgr a) key then ignored a a' key
    else if length (waiting (ag_peerMgr a) key) < peerPendingLimit then parked a a' key item
    else refused a a' c key ERR_INTERNAL item"
proof -
  have ans: "answerable c item" using assms(1) by (simp add: prepared_request_def)
  obtain pm dial e where q: "enqueue (ag_peerMgr a) key item = (pm, dial, e)"
    using prod_cases3 by blast
  consider (connected) "connected (ag_peerMgr a) key"
    | (room) "\<not> connected (ag_peerMgr a) key" "length (waiting (ag_peerMgr a) key) < peerPendingLimit"
    | (full) "\<not> connected (ag_peerMgr a) key" "\<not> length (waiting (ag_peerMgr a) key) < peerPendingLimit" by blast
  then show ?thesis
  proof cases
    case connected
    with q have "e = None" "\<not> dial" "waiting pm key = waiting (ag_peerMgr a) key" using enqueue_connected_drops [OF connected, of item] by simp_all
    with connected q show ?thesis by (simp add: assms(3,4) queue_outbound_def ignored_def)
  next
    case room
    then have "e = None" "waiting pm key = waiting (ag_peerMgr a) key @ [item]"
      using q by (auto simp: enqueue_def Let_def connected_entry split: if_splits)
    with room q show ?thesis by (simp add: assms(3,4) queue_outbound_def Let_def parked_def startDial_def)
  next
    case full
    then obtain err where "e = Some err" "waiting pm key = waiting (ag_peerMgr a) key"
      using q by (auto simp: enqueue_def Let_def connected_entry split: if_splits)
    with full q ans FailOutbound_sent(1) [of "a\<lparr>ag_peerMgr := pm\<rparr>" c item ERR_INTERNAL] assms(2)
    show ?thesis by (simp add: assms(3,4) queue_outbound_def Let_def refused_def)
  qed
qed

text \<open>C28: What becomes of a request that is handed to the forwarder, whatever other goroutines do between
  its steps, as long as the connection of the requester stays open. Without an address it is
  refused. If the look-up finds a connected link, the request is on that link under a fresh number
  that resolves to the requester, or the send fails and the requester is sent one error; then it
  is ignored if the peer still counts as connected, else queued or refused a second time. If the
  look-up finds none, the request is queued if the peer is still not connected and the queue has
  room, refused with one error if the queue is full, and lost without any answer exactly when the
  peer has become connected in between.\<close>

theorem request_fate:
  assumes "prepared_request c item" and "\<not> uc_done (ag_uds a c)"
    and "\<And>b. \<not> uc_done (ag_uds b c) \<Longrightarrow> \<not> uc_done (ag_uds (mid1 b) c)" and "\<And>b. \<not> uc_done (ag_uds b c) \<Longrightarrow> \<not> uc_done (ag_uds (mid2 b) c)"
    and "key = peerKey addr st" and "a' = fst (SendOrQueue_steps mid1 mid2 a addr st item)"
    and "link = the (fst (getLink (ag_peerMgr a) key))" and "sent = sendPeerOutbound (mid1 a) link item"
  shows "if addr = [] then refused a a' c key ERR_NO_ROUTE item
    else if connected (ag_peerMgr a) key then
      if snd sent = None then forwarded (mid1 a) a' c link item
      else refused (mid1 a) (fst sent) c key ERR_INTERNAL item
        \<and> (if connected (ag_peerMgr (mid2 (fst sent))) key then ignored (mid2 (fst sent)) a' key
           else if length (waiting (ag_peerMgr (mid2 (fst sent))) key) < peerPendingLimit then parked (mid2 (fst sent)) a' key item
           else refused (mid2 (fst sent)) a' c key ERR_INTERNAL item)
    else if connected (ag_peerMgr (mid1 a)) key then ignored (mid1 a) a' key
    else if length (waiting (ag_peerMgr (mid1 a)) key) < peerPendingLimit then parked (mid1 a) a' key item
    else refused (mid1 a) a' c key ERR_INTERNAL item"
proof -
  have ans: "answerable c item" using assms(1) by (simp add: prepared_request_def)
  have open1: "\<not> uc_done (ag_uds (mid1 a) c)" using assms(2,3) by blast
  consider (empty) "addr = []" | (linked) "addr \<noteq> []" "getLink (ag_peerMgr a) key = (Some link, PeerConnected)" "connected (ag_peerMgr a) key"
    | (unlinked) "addr \<noteq> []" "\<not> connected (ag_peerMgr a) key"
    by (cases "connected (ag_peerMgr a) key") (auto simp: connected_def assms(7) prod_eq_iff)
  then show ?thesis
  proof cases
    case empty
    with FailOutbound_sent(1) [OF assms(2), of item ERR_NO_ROUTE] ans show ?thesis
      by (simp add: SendOrQueue_steps_def refused_def assms(6))
  next
    case linked
    let ?b = "mid1 a"
    let ?n = "rs_seq (ag_remoteSeq ?b) + 1"
    obtain l' e where s: "Link_Send (ag_links ?b link) (outbound_as ?n item) = (l', e)" by fastforce
    show ?thesis
    proof (cases e)
      case None
      with s sendPeerOutbound_request [OF assms(1)] linked link_sink.send_accepted [of "ag_links ?b link" _ l']
      show ?thesis by (simp add: SendOrQueue_steps_def forwarded_def Let_def assms(6,8) flip: assms(5))
    next
      case (Some err)
      with s sendPeerOutbound_request_fails [OF assms(1)] obtain rs
        where f: "sent = (FailOutbound (?b\<lparr>ag_links := (ag_links ?b)(link := l'), ag_remoteSeq := rs\<rparr>) item ERR_INTERNAL, Some err)"
        unfolding assms(8) by blast
      have r: "refused ?b (fst sent) c key ERR_INTERNAL item"
        using FailOutbound_sent(1) [of "?b\<lparr>ag_links := (ag_links ?b)(link := l'), ag_remoteSeq := rs\<rparr>" c item ERR_INTERNAL] ans open1
        by (simp add: f refused_def)
      have "\<not> uc_done (ag_uds (fst sent) c)"
        using FailOutbound_sent(2) [of "?b\<lparr>ag_links := (ag_links ?b)(link := l'), ag_remoteSeq := rs\<rparr>" c item ERR_INTERNAL] open1 by (simp add: f)
      then have open2: "\<not> uc_done (ag_uds (mid2 (fst sent)) c)" by (rule assms(4))
      have "a' = fst (queue_outbound (mid2 (fst sent)) addr st item)"
        using linked f by (simp add: SendOrQueue_steps_def assms(6) flip: assms(5,8))
      from queue_outbound_fate [OF assms(1) open2 assms(5) this] linked r f show ?thesis by simp
    qed
  next
    case unlinked
    then have "a' = fst (queue_outbound (mid1 a) addr st item)"
      by (auto simp: SendOrQueue_steps_def connected_def assms(5,6) split: prod.splits option.splits PeerState.splits)
    from queue_outbound_fate [OF assms(1) open1 assms(5) this] unlinked show ?thesis by simp
  qed
qed

text \<open>
  A request for a peer that nobody has dialled yet is queued; if the peer itself connects between
  the look-up and the queueing, the request is lost.
\<close>

theorem request_fate_witness:
  "parked demo_agent (fst (SendOrQueue_steps id id demo_agent ''ra2:9000'' 2 demo_item)) (peerKey ''ra2:9000'' 2) demo_item
   \<and> (let mid = (\<lambda>a. attach_link a (peerKey ''ra2:9000'' 2) 7 ''incoming'')
      in ignored (mid demo_agent) (fst (SendOrQueue_steps mid id demo_agent ''ra2:9000'' 2 demo_item)) (peerKey ''ra2:9000'' 2))"
proof -
  let ?key = "peerKey ''ra2:9000'' 2" and ?mid = "\<lambda>a. attach_link a (peerKey ''ra2:9000'' 2) 7 ''incoming''"
  have p: "prepared_request 5 demo_item" "\<not> uc_done (ag_uds demo_agent 5)"
    by (simp_all add: prepared_request_def answerable_def demo_item_def demo_agent_def NewUDSConn_def)
  have n: "\<not> connected (ag_peerMgr demo_agent) ?key" "waiting (ag_peerMgr demo_agent) ?key = []"
    by (simp_all add: demo_agent_def connected_def getLink_def NewPeerMgr_def waiting_def)
  have con: "connected (ag_peerMgr (?mid a)) ?key" for a by (simp add: attach_link_connected connected_def)
  have keep: "\<not> uc_done (ag_uds b 5) \<Longrightarrow> \<not> uc_done (ag_uds (?mid b) 5)" for b by (simp add: done_attach)
  from request_fate [OF p _ _ refl refl refl refl, where ?mid1.0 = id and ?mid2.0 = id and addr = "''ra2:9000''" and st = 2] n
    request_fate [OF p keep _ refl refl refl refl, where ?mid2.0 = id and addr = "''ra2:9000''" and st = 2] con
  show ?thesis by (simp add: peerPendingLimit_def Let_def)
qed

section \<open>Flushing a queue onto a new link\<close>

text \<open>The frames of a queue under consecutive numbers after \<open>n\<close>, and that the numbers resolve.\<close>

fun numbered :: "u64 \<Rightarrow> peerOutbound list \<Rightarrow> Frame list" where
  "numbered n [] = []"
| "numbered n (p # ps) = outbound_as (n + 1) p # numbered (n + 1) ps"

fun resolves :: "RemoteSeqMap \<Rightarrow> u64 \<Rightarrow> peerOutbound list \<Rightarrow> bool" where
  "resolves m n [] = True"
| "resolves m n (p # ps) =
     (map_of (rs_data m) (n + 1) = Some \<lparr>rse_udsConn = po_source p, rse_origSeqID = po_origSeqID p\<rparr>
      \<and> resolves m (n + 1) ps)"

definition all_requests :: "peerOutbound list \<Rightarrow> bool" where
  "all_requests ps \<longleftrightarrow> (\<forall>p \<in> set ps. \<exists>c. prepared_request c p)"

lemma request_not_priority [simp]: "\<not> isPriorityFrame FrameRpcRequest"
  by (simp add: isPriorityFrame_def FrameRpcRequest_def FrameRpcResponse_def FrameHeartbeat_def
      FrameHandshake_def FrameHandshakeAck_def)

lemma outbound_type [simp]: "frm_Type (outbound_as n p) = frm_Type (po_frame p)"
  by (simp add: outbound_as_def Let_def)

lemma flush_one:
  assumes "prepared_request c p" and "\<not> tl_done (ag_links a pl)" and "length (tl_sendCh (ag_links a pl)) < sendChCap"
  obtains a1 where "fst (sendPeerOutbound a pl p) = a1" and "\<not> tl_done (ag_links a1 pl)"
    and "tl_sendCh (ag_links a1 pl) = tl_sendCh (ag_links a pl) @ [outbound_as (rs_seq (ag_remoteSeq a) + 1) p]"
    and "ag_remoteSeq a1 = fst (Remote_Alloc (ag_remoteSeq a) (po_source p) (po_origSeqID p))"
    and "ag_uds a1 = ag_uds a"
proof -
  let ?f = "outbound_as (rs_seq (ag_remoteSeq a) + 1) p"
  obtain l' e where s: "Link_Send (ag_links a pl) ?f = (l', e)" by fastforce
  have t: "\<not> isPriorityFrame (frm_Type ?f)" using assms(1) by (simp add: prepared_request_def answerable_def)
  from Link_Send_open(2) [OF assms(2) t assms(3)] s have "e = None" "tl_sendCh l' = tl_sendCh (ag_links a pl) @ [?f]" by auto
  moreover have "\<not> tl_done l'"
    using s assms(2) by (auto simp: Link_Send_def Let_def recordQueueLen_def split: if_splits)
  moreover have "po_source p = Some c" using assms(1) by (simp add: prepared_request_def answerable_def)
  ultimately show ?thesis
    using s sendPeerOutbound_request [OF assms(1)] by (intro that [OF refl]) auto
qed

lemma Remote_Alloc_seq [simp]: "rs_seq (fst (Remote_Alloc m c o')) = rs_seq m + 1"
  by (simp add: Remote_Alloc_def Let_def addPending_def)

lemma flush_sends:
  assumes "all_requests ps" and "\<not> tl_done (ag_links a pl)"
    and "length (tl_sendCh (ag_links a pl)) + length ps \<le> sendChCap"
  shows "tl_sendCh (ag_links (FlushPending a pl ps) pl) = tl_sendCh (ag_links a pl) @ numbered (rs_seq (ag_remoteSeq a)) ps
    \<and> ag_uds (FlushPending a pl ps) = ag_uds a
    \<and> ag_remoteSeq (FlushPending a pl ps) =
        foldl remote_step (ag_remoteSeq a) (map (\<lambda>p. RemoteAlloc (po_source p) (po_origSeqID p)) ps)"
  using assms
proof (induction ps arbitrary: a)
  case (Cons p ps)
  from Cons.prems obtain c where c: "prepared_request c p" "all_requests ps" by (auto simp: all_requests_def)
  from Cons.prems(3) have "length (tl_sendCh (ag_links a pl)) < sendChCap" by simp
  from flush_one [OF c(1) Cons.prems(2) this] obtain a1 where a1: "fst (sendPeerOutbound a pl p) = a1"
    "\<not> tl_done (ag_links a1 pl)"
    "tl_sendCh (ag_links a1 pl) = tl_sendCh (ag_links a pl) @ [outbound_as (rs_seq (ag_remoteSeq a) + 1) p]"
    "ag_remoteSeq a1 = fst (Remote_Alloc (ag_remoteSeq a) (po_source p) (po_origSeqID p))" "ag_uds a1 = ag_uds a"
    by blast
  from Cons.IH [OF c(2) a1(2)] a1 Cons.prems(3) show ?case by simp
qed simp

lemma resolves_after:
  assumes "remote_ok m" and "length ps \<le> remote_room m"
  shows "resolves (foldl remote_step m (map (\<lambda>p. RemoteAlloc (po_source p) (po_origSeqID p)) ps)) (rs_seq m) ps"
  using assms
proof (induction ps arbitrary: m)
  case (Cons p ps)
  let ?e = "\<lparr>rse_udsConn = po_source p, rse_origSeqID = po_origSeqID p\<rparr>"
  let ?m1 = "fst (Remote_Alloc m (po_source p) (po_origSeqID p))"
  let ?ops = "map (\<lambda>p. RemoteAlloc (po_source p) (po_origSeqID p)) ps"
  have r: "0 < remote_room m" using Cons.prems(2) by simp
  note ok = remote_ok_Alloc [OF Cons.prems(1) r, of "po_source p" "po_origSeqID p"]
  have len: "length ps \<le> remote_room ?m1" using ok(2) Cons.prems(2) by simp
  have "list_all (remote.spares (rs_seq m + 1) ?e) (map as_table_op ?ops)" by (induction ps) simp_all
  with remote.run_keeps [OF ok(1), of "map as_table_op ?ops" "rs_seq m + 1" ?e] len
  have "map_of (rs_data (foldl remote_step ?m1 ?ops)) (rs_seq m + 1) = Some ?e"
    by (simp add: remote_steps_run)
  with Cons.IH [OF ok(1) len] show ?case by simp
qed simp

text \<open>A new link receives what waited for it. When a link is attached and the requests
  queued for its peer fit its channel, they are put on the link in the order in which they
  were queued, under consecutive fresh sequence numbers that resolve to their requesters; no
  requester gets an error, and the queue is empty.\<close>

theorem attach_flushes_pending:
  assumes "waiting (ag_peerMgr a) key = ps" and "all_requests ps" and "length ps \<le> sendChCap"
    and "ag_links a pl = new_link addr w r"
    and "remote_ok (ag_remoteSeq a)" and "length ps \<le> remote_room (ag_remoteSeq a)"
  shows "tl_sendCh (ag_links (attach_link a key pl dir) pl) = numbered (rs_seq (ag_remoteSeq a)) ps
    \<and> resolves (ag_remoteSeq (attach_link a key pl dir)) (rs_seq (ag_remoteSeq a)) ps
    \<and> ag_uds (attach_link a key pl dir) = ag_uds a
    \<and> waiting (ag_peerMgr (attach_link a key pl dir)) key = []"
proof -
  obtain pm old rep where at: "Attach (ag_peerMgr a) key pl dir = (pm, old, rep, ps)"
    and w: "waiting pm key = []" and o: "rep \<Longrightarrow> old \<noteq> Some pl"
    using assms(1) by (auto simp: Attach_def Let_def)
  define a1 where "a1 = count_metric mt_PeerConnectTotal_update
     (if rep then link_close (count_metric mt_PeerDisconnectTotal_update (a\<lparr>ag_peerMgr := pm\<rparr>)) old else a\<lparr>ag_peerMgr := pm\<rparr>)"
  have eq: "attach_link a key pl dir = FlushPending a1 pl ps"
    by (simp add: attach_link_def at a1_def Let_def)
  have l: "ag_links a1 pl = new_link addr w r"
    using o assms(4) by (auto simp: a1_def link_close_def split: option.splits)
  have f: "ag_remoteSeq a1 = ag_remoteSeq a" "ag_uds a1 = ag_uds a" "ag_peerMgr a1 = pm" by (simp_all add: a1_def)
  have "\<not> tl_done (ag_links a1 pl)" "tl_sendCh (ag_links a1 pl) = []" using l by (simp_all add: new_link_def)
  from flush_sends [OF assms(2) this(1)] this(2) assms(3) f resolves_after [OF assms(5,6)] show ?thesis
    by (simp add: eq w)
qed

theorem attach_flushes_pending_witness:
  "tl_sendCh (ag_links (attach_link (fst (SendOrQueue demo_agent ''ra2:9000'' 2 demo_item)) (peerKey ''ra2:9000'' 2) 3 ''outgoing'') 3)
   = [outbound_as 1 demo_item]"
proof -
  let ?a = "fst (SendOrQueue demo_agent ''ra2:9000'' 2 demo_item)"
  have e: "waiting (ag_peerMgr ?a) (peerKey ''ra2:9000'' 2) = [demo_item]" "ag_remoteSeq ?a = NewRemoteSeqMap (Some 0)"
    "ag_links ?a 3 = new_link [] (\<lambda>_. False) (\<lambda>_. True)"
    by (simp_all add: SendOrQueue_def getLink_def demo_agent_def NewPeerMgr_def queue_outbound_def enqueue_def
        peer_entry_def blank_peer_def waiting_def peerPendingLimit_def Let_def startDial_def put_peer_def)
  have r: "all_requests [demo_item]" "length [demo_item] \<le> sendChCap"
    by (simp_all add: all_requests_def prepared_request_def answerable_def demo_item_def sendChCap_def)
  have m: "remote_ok (ag_remoteSeq ?a)" "length [demo_item] \<le> remote_room (ag_remoteSeq ?a)"
    unfolding e(2) by (simp_all add: remote_room_def) (simp add: NewRemoteSeqMap_def)
  from attach_flushes_pending [OF e(1) r e(3) m, of "''outgoing''"] show ?thesis
    by (simp add: e(2) NewRemoteSeqMap_def)
qed

end
