(* ===== verification/Agent_Router.thy ===== *)
theory Agent_Router
  imports Forwarder
begin

text \<open>
  Routing decisions of the RouterAgent (\<^verbatim>\<open>router.go\<close>) and the frame handlers of its runtime
  (\<^verbatim>\<open>runtime.go\<close>): registration of business processes, heartbeats, broadcasts and the
  clean-up when a process goes away. The last section follows a request between two agents
  and its response back to the requester.
\<close>

section \<open>Routing\<close>

definition parseNodeIDKey :: "string \<Rightarrow> agent_error + u32" where
  "parseNodeIDKey key =
     (if key = [] then Inl ErrEmptyNodeIDKey
      else case ParseUint32 key of None \<Rightarrow> Inl ErrInvalidNodeID | Some v \<Rightarrow> Inr (word_of_nat v))"

definition pickTargets :: "Agent \<Rightarrow> RPCWireHeader \<Rightarrow> u32 list" where
  "pickTargets a head =
     (if hdr_RoutingMode head = RoutingModeDirect then
        (case parseNodeIDKey (hdr_RoutingKey head) of Inl _ \<Rightarrow> [] | Inr nodeID \<Rightarrow> [nodeID])
      else if hdr_RoutingMode head = RoutingModeHash then
        (case PickHashByServerType (ag_memberTable a) (hdr_ServerType head) (hdr_RoutingKey head) of
           None \<Rightarrow> [] | Some node \<Rightarrow> [NodeID node])
      else if hdr_RoutingMode head = RoutingModeBroadcast then
        ListNodeIDsByServerType (ag_memberTable a) (hdr_ServerType head)
      else
        (case PickAnyByServerType (ag_memberTable a) (hdr_ServerType head) of
           None \<Rightarrow> [] | Some node \<Rightarrow> [NodeID node]))"

text \<open>The loop of \<^verbatim>\<open>forwardRPC\<close>; the header is changed in place and carried to the next target.\<close>

fun forward_targets :: "Agent \<Rightarrow> conn_ptr \<Rightarrow> Frame \<Rightarrow> RPCWireHeader \<Rightarrow> u64 \<Rightarrow> u32 list \<Rightarrow> Agent" where
  "forward_targets a c frame head origSeqID [] = a"
| "forward_targets a c frame head origSeqID (nodeID # targets) =
     (case GetByNodeID (ag_memberTable a) nodeID of
        None \<Rightarrow> forward_targets a c frame head origSeqID targets
      | Some info \<Rightarrow>
          (case Local_Get (ag_localConns a) nodeID of
             Some loc \<Rightarrow>
               let head1 = head\<lparr>hdr_DestNodeID := nodeID\<rparr>;
                   a1 = fst (uds_send a (Some loc) (frame\<lparr>frm_Header := EncodeRPCWireHeader head1\<rparr>))
               in forward_targets a1 c frame head1 origSeqID targets
           | None \<Rightarrow>
               let a1 = fst (SendOrQueue a (RAAddr info) (hdr_ServerType head)
                     \<lparr>po_source = Some c, po_frame = frame, po_head = head, po_origSeqID = origSeqID,
                      po_targetNodeID = nodeID, po_prepareRPC = True\<rparr>)
               in forward_targets a1 c frame head origSeqID targets))"

definition forwardRPC :: "Agent \<Rightarrow> conn_ptr \<Rightarrow> Frame \<Rightarrow> RPCWireHeader \<Rightarrow> Agent" where
  "forwardRPC a c frame head =
     (let a1 = count_metric mt_ForwardTotal_update a
      in forward_targets a1 c frame head (hdr_SeqID head) (pickTargets a1 head))"

definition routeLegacyFrame :: "Agent \<Rightarrow> Frame \<Rightarrow> Agent" where
  "routeLegacyFrame a frame =
     (case DecodeRouteBody (frm_Body frame) of
        Some (Inr (nodeID, payload)) \<Rightarrow>
          (case GetByNodeID (ag_memberTable a) nodeID of
             None \<Rightarrow> a
           | Some info \<Rightarrow>
               (case Local_Get (ag_localConns a) nodeID of
                  Some loc \<Rightarrow> fst (uds_send a (Some loc) frame)
                | None \<Rightarrow> fst (SendOrQueue a (RAAddr info) 0 (plain_outbound
                    \<lparr>frm_Type = frm_Type frame, frm_Header = [], frm_Body = EncodeRouteBody nodeID payload\<rparr>))))
      | _ \<Rightarrow> a)"

definition RouteFrame :: "Agent \<Rightarrow> conn_ptr \<Rightarrow> Frame \<Rightarrow> Agent" where
  "RouteFrame a c frame =
     (case (DecodeRPCWireHeader (frm_Header frame), frm_Header frame = []) of
        (Some (Inr head), False) \<Rightarrow>
          if frm_Type frame = FrameRpcResponse then
            if hdr_DestNodeID head \<noteq> 0 then SendResponseViaPeer a (hdr_SeqID head) (hdr_DestNodeID head) frame
            else (case Remote_Pop (ag_remoteSeq a) (hdr_SeqID head) of
                    (rs, Some entry) \<Rightarrow>
                      let a1 = a\<lparr>ag_remoteSeq := rs\<rparr> in
                      if rse_udsConn entry = None then a1
                      else fst (uds_send a1 (rse_udsConn entry)
                        \<lparr>frm_Type = FrameRpcResponse,
                         frm_Header = EncodeRPCWireHeader (head\<lparr>hdr_SeqID := rse_origSeqID entry\<rparr>),
                         frm_Body = frm_Body frame\<rparr>)
                  | (rs, None) \<Rightarrow> a\<lparr>ag_remoteSeq := rs\<rparr>)
          else if frm_Type frame = FrameRpcRequest \<or> frm_Type frame = FrameRpcNotify then
            forwardRPC (count_metric mt_ForwardTotal_update a) c frame head
          else a
      | _ \<Rightarrow> routeLegacyFrame a frame)"

definition deliverToLocal :: "Agent \<Rightarrow> u32 \<Rightarrow> Frame \<Rightarrow> Agent" where
  "deliverToLocal a nodeID f =
     (case Local_Get (ag_localConns a) nodeID of
        None \<Rightarrow> count_metric mt_RouteMiss_update a
      | Some c \<Rightarrow>
          (case uds_send a (Some c) f of
             (a1, None) \<Rightarrow> a1
           | (a1, Some _) \<Rightarrow> count_metric mt_RouteMiss_update a1))"

definition peer_response :: "Agent \<Rightarrow> Frame \<Rightarrow> RPCWireHeader \<Rightarrow> Agent" where
  "peer_response a f head =
     (case Remote_Pop (ag_remoteSeq a) (hdr_SeqID head) of
        (rs, entry) \<Rightarrow>
          let a1 = a\<lparr>ag_remoteSeq := rs\<rparr> in
          count_metric mt_ForwardTotal_update
            (case entry of
               None \<Rightarrow> count_metric mt_LateResponse_update a1
             | Some e \<Rightarrow>
                 if rse_udsConn e \<noteq> None then
                   fst (uds_send a1 (rse_udsConn e)
                     \<lparr>frm_Type = FrameRpcResponse,
                      frm_Header = EncodeRPCWireHeader (head\<lparr>hdr_SeqID := rse_origSeqID e\<rparr>), frm_Body = frm_Body f\<rparr>)
                 else count_metric mt_LateResponse_update a1))"

definition peer_request :: "Agent \<Rightarrow> Frame \<Rightarrow> string \<Rightarrow> RPCWireHeader \<Rightarrow> Agent" where
  "peer_request a f key head =
     (case (if hdr_DestNodeID head = 0 then parseNodeIDKey (hdr_RoutingKey head) else Inr (hdr_DestNodeID head)) of
        Inl _ \<Rightarrow> count_metric mt_RouteMiss_update a
      | Inr nodeID \<Rightarrow>
          let a1 = (if frm_Type f = FrameRpcRequest
                    then a\<lparr>ag_incomingSeq := Track (ag_incomingSeq a) (ag_now a) (hdr_SeqID head) key\<rparr> else a)
          in deliverToLocal a1 nodeID f)"

definition HandlePeerFrame :: "Agent \<Rightarrow> Frame \<Rightarrow> string \<Rightarrow> Agent" where
  "HandlePeerFrame a f key =
     (if frm_Type f = FrameRpcResponse then
        (case DecodeRPCWireHeader (frm_Header f) of
           Some (Inr head) \<Rightarrow> peer_response a f head
         | _ \<Rightarrow> a)
      else if frm_Type f = FrameRpcRequest \<or> frm_Type f = FrameRpcNotify then
        let a1 = count_metric mt_ForwardTotal_update a in
        (case DecodeRPCWireHeader (frm_Header f) of
           Some (Inr head) \<Rightarrow> peer_request a1 f key head
         | _ \<Rightarrow> a1)
      else a)"

definition SendToNode :: "Agent \<Rightarrow> u32 \<Rightarrow> Frame \<Rightarrow> Agent \<times> agent_error option" where
  "SendToNode a nodeID frame =
     (case Local_Get (ag_localConns a) nodeID of
        Some loc \<Rightarrow> uds_send a (Some loc) frame
      | None \<Rightarrow>
          (case GetByNodeID (ag_memberTable a) nodeID of
             None \<Rightarrow> (a, Some ErrNodeNotFound)
           | Some info \<Rightarrow> SendOrQueue a (RAAddr info) 0 (plain_outbound frame)))"

section \<open>Frame handlers of the runtime\<close>

definition registry_put :: "Agent \<Rightarrow> u32 \<Rightarrow> u32 \<Rightarrow> Agent \<times> bool" where
  "registry_put a nodeID serverType =
     (case ag_registry a of
        None \<Rightarrow> (a, True)
      | Some r \<Rightarrow>
          (a\<lparr>ag_registry := Some (r\<lparr>rg_calls := rg_calls r @ [RegPut nodeID (ag_listenAddr a) serverType]\<rparr>)\<rparr>,
           \<not> rg_putErr r (length (rg_calls r))))"

definition registry_delete :: "Agent \<Rightarrow> u32 \<Rightarrow> Agent" where
  "registry_delete a nodeID =
     (case ag_registry a of
        None \<Rightarrow> a
      | Some r \<Rightarrow> a\<lparr>ag_registry := Some (r\<lparr>rg_calls := rg_calls r @ [RegDelete nodeID]\<rparr>)\<rparr>)"

definition ack_frame :: "byte \<Rightarrow> Frame" where
  "ack_frame b = \<lparr>frm_Type = FrameHandshakeAck, frm_Header = [], frm_Body = [b]\<rparr>"

definition handleHandshake :: "Agent \<Rightarrow> conn_ptr \<Rightarrow> Frame \<Rightarrow> Agent" where
  "handleHandshake a c frame =
     (if length (frm_Body frame) < 4 then a
      else
        let nodeID = Uint32 (take 4 (frm_Body frame)); serverType = fst (snd (Decode nodeID)) in
        case registry_put a nodeID serverType of
          (a1, False) \<Rightarrow> fst (uds_send a1 (Some c) (ack_frame 0))
        | (a1, True) \<Rightarrow>
            let a2 = a1\<lparr>ag_memberTable := Upsert (ag_memberTable a1)
                          \<lparr>NodeID = nodeID, RAAddr = ag_listenAddr a1, StartAt = ag_now a1 div 10 ^ 9\<rparr> serverType,
                        ag_localConns := Register (ag_localConns a1) nodeID c\<rparr>
            in fst (uds_send a2 (Some c) (ack_frame 1)))"

text \<open>\<^verbatim>\<open>handleBroadcastSent\<close> with the decoder's silent zero value for short bodies.\<close>

definition handleBroadcastSent :: "Agent \<Rightarrow> bytes \<Rightarrow> Agent" where
  "handleBroadcastSent a body =
     (case DecodeBroadcastSent body of
        None \<Rightarrow> a
      | Some (waiterID, nodeIDs) \<Rightarrow>
          (case ag_waiters a waiterID of
             None \<Rightarrow> a
           | Some waiter \<Rightarrow>
               let w = mark_all waiter nodeIDs in
               a\<lparr>ag_waiters := (ag_waiters a)(waiterID := (if Waiter_Done w then None else Some w))\<rparr>))"

definition handleFrame :: "Agent \<Rightarrow> conn_ptr \<Rightarrow> Frame \<Rightarrow> Agent" where
  "handleFrame a c frame =
     (if frm_Type frame = FrameHandshake then handleHandshake a c frame
      else if frm_Type frame = FrameHeartbeat then
        fst (uds_send a (Some c) \<lparr>frm_Type = FrameHeartbeat, frm_Header = [], frm_Body = []\<rparr>)
      else if frm_Type frame = FrameRpcRequest \<or> frm_Type frame = FrameRpcNotify \<or> frm_Type frame = FrameRpcResponse then
        RouteFrame a c frame
      else if frm_Type frame = FrameBroadcastSent then handleBroadcastSent a (frm_Body frame)
      else a)"

fun forget_nodes :: "Agent \<Rightarrow> u32 list \<Rightarrow> Agent" where
  "forget_nodes a [] = a"
| "forget_nodes a (n # ns) =
     forget_nodes (registry_delete (a\<lparr>ag_memberTable := MemberTable_Delete (ag_memberTable a) n\<rparr>) n) ns"

definition removeConn :: "Agent \<Rightarrow> conn_ptr \<Rightarrow> Agent" where
  "removeConn a c =
     (let a1 = count_metric mt_PeerDisconnectTotal_update a;
          rem = Local_Remove (ag_localConns a1) c;
          a2 = forget_nodes (a1\<lparr>ag_localConns := fst rem\<rparr>) (snd rem)
      in a2\<lparr>ag_remoteSeq := fst (DeleteByConn (ag_remoteSeq a2) (Some c))\<rparr>)"

definition incomingPeerSeqRetention :: int where
  "incomingPeerSeqRetention = 10 * 10 ^ 9"

definition cleanupIncomingPeerSeq :: "Agent \<Rightarrow> int \<Rightarrow> Agent" where
  "cleanupIncomingPeerSeq a now = a\<lparr>ag_incomingSeq := CleanupExpired (ag_incomingSeq a) now incomingPeerSeqRetention\<rparr>"

definition RegisterWaiter :: "Agent \<Rightarrow> BroadcastWaiter \<Rightarrow> Agent" where
  "RegisterWaiter a w = a\<lparr>ag_waiters := (ag_waiters a)(bw_id w \<mapsto> w)\<rparr>"

fun send_to_all :: "Agent \<Rightarrow> NodeInfo list \<Rightarrow> bytes \<Rightarrow> Agent" where
  "send_to_all a [] payload = a"
| "send_to_all a (info # l) payload =
     send_to_all (fst (SendToNode a (NodeID info)
       \<lparr>frm_Type = FrameRpcNotify, frm_Header = [], frm_Body = EncodeRouteBody (NodeID info) payload\<rparr>)) l payload"

definition Broadcast :: "Agent \<Rightarrow> u32 \<Rightarrow> bytes \<Rightarrow> Agent \<times> BroadcastSentRecord" where
  "Broadcast a serverType payload =
     (let l = ListByServerType (ag_memberTable a) serverType in
      if l = [] then (a, \<lparr>bsr_WaiterID = 0, bsr_NodeIDs = []\<rparr>)
      else
        let waiterID = ag_waiterSeq a + 1;
            a1 = send_to_all (a\<lparr>ag_waiterSeq := waiterID\<rparr>) l payload
        in (RegisterWaiter a1 (NewBroadcastWaiter waiterID (map NodeID l)),
            \<lparr>bsr_WaiterID = waiterID, bsr_NodeIDs = map NodeID l\<rparr>))"

section \<open>A request and its response between two agents\<close>

lemma length_dec_nat: "n < 10 ^ Suc k \<Longrightarrow> length (dec_nat n) \<le> Suc k"
proof (induction k arbitrary: n)
  case (Suc k)
  show ?case
  proof (cases "n < 10")
    case False
    have "n div 10 < 10 ^ Suc k" using Suc.prems by (simp add: less_mult_imp_div_less)
    with Suc.IH False show ?thesis by (simp add: dec_nat.simps [of n])
  qed (simp add: dec_nat.simps [of n])
next
  case 0
  then show ?case by (simp add: dec_nat.simps [of n])
qed

lemma length_dec_u32: "length (dec_nat (unat (n :: u32))) \<le> 10"
proof -
  have "unat n < 2 ^ 32" using unsigned_less [of n, where ?'a = nat] by simp
  then have "unat n < 10 ^ Suc 9" by simp
  from length_dec_nat [OF this] show ?thesis by simp
qed

text \<open>The header as it travels between agents: a new number and the chosen node.\<close>

definition retarget :: "RPCWireHeader \<Rightarrow> u64 \<Rightarrow> u32 \<Rightarrow> RPCWireHeader" where
  "retarget head seq n = head\<lparr>hdr_SeqID := seq, hdr_DestNodeID := n, hdr_RoutingMode := RoutingModeDirect,
     hdr_RoutingKey := dec_nat (unat n)\<rparr>"

lemma retarget_fits: "header_fits head \<Longrightarrow> header_fits (retarget head s n)"
  using length_dec_u32 [of n] by (simp add: header_fits_def retarget_def)

lemma EncodeRPCWireHeader_decodes:
  "header_fits h \<Longrightarrow> DecodeRPCWireHeader (EncodeRPCWireHeader h) = Some (Inr h) \<and> EncodeRPCWireHeader h \<noteq> []"
  using DecodeRPCWireHeader_bytes [of h "[]"] length_header_bytes [of h]
  by (auto simp: EncodeRPCWireHeader_eq simp del: length_header_bytes)

definition rpc_frame :: "FrameType \<Rightarrow> RPCWireHeader \<Rightarrow> bytes \<Rightarrow> Frame" where
  "rpc_frame t h b = \<lparr>frm_Type = t, frm_Header = EncodeRPCWireHeader h, frm_Body = b\<rparr>"

definition peer_ready :: "Agent \<Rightarrow> string \<Rightarrow> link_ptr \<Rightarrow> bool" where
  "peer_ready a key l \<longleftrightarrow> getLink (ag_peerMgr a) key = (Some l, PeerConnected) \<and> \<not> tl_done (ag_links a l)
     \<and> length (tl_sendCh (ag_links a l)) < sendChCap \<and> length (tl_prioSendCh (ag_links a l)) < prioSendChCap"

definition hosts :: "Agent \<Rightarrow> u32 \<Rightarrow> conn_ptr \<Rightarrow> bool" where
  "hosts a n d \<longleftrightarrow> Local_Get (ag_localConns a) n = Some d \<and> \<not> uc_done (ag_uds a d)"

lemmas frame_consts = FrameHandshake_def FrameHandshakeAck_def FrameRpcRequest_def FrameRpcResponse_def
  FrameRpcNotify_def FrameHeartbeat_def FrameBroadcastSent_def

text \<open>First leg: the requester's agent puts the request on the link.\<close>

lemma request_leg:
  assumes "header_fits head" and "hdr_SeqID head \<noteq> 0" and "pickTargets a head = [n]" and "n \<noteq> 0"
    and "GetByNodeID (ag_memberTable a) n = Some info" and "RAAddr info \<noteq> []" and "Local_Get (ag_localConns a) n = None"
    and "peer_ready a (peerKey (RAAddr info) (hdr_ServerType head)) l"
  shows "tl_sendCh (ag_links (RouteFrame a c (rpc_frame FrameRpcRequest head body)) l) =
      tl_sendCh (ag_links a l) @ [rpc_frame FrameRpcRequest (retarget head (rs_seq (ag_remoteSeq a) + 1) n) body]"
    and "ag_remoteSeq (RouteFrame a c (rpc_frame FrameRpcRequest head body)) =
      fst (Remote_Alloc (ag_remoteSeq a) (Some c) (hdr_SeqID head))"
    and "ag_uds (RouteFrame a c (rpc_frame FrameRpcRequest head body)) = ag_uds a"
proof -
  let ?f = "rpc_frame FrameRpcRequest head body"
  let ?a = "count_metric mt_ForwardTotal_update (count_metric mt_ForwardTotal_update a)"
  let ?item = "\<lparr>po_source = Some c, po_frame = ?f, po_head = head, po_origSeqID = hdr_SeqID head,
    po_targetNodeID = n, po_prepareRPC = True\<rparr>"
  have pt: "pickTargets ?a head = [n]" using assms(3) by (simp add: pickTargets_def cong: if_cong)
  have r: "RouteFrame a c ?f = fst (SendOrQueue ?a (RAAddr info) (hdr_ServerType head) ?item)"
    using EncodeRPCWireHeader_decodes [OF assms(1)] assms(5,7) pt
    by (simp add: RouteFrame_def rpc_frame_def forwardRPC_def Let_def frame_consts)
  have p: "prepared_request c ?item"
    using assms(2) by (simp add: prepared_request_def answerable_def rpc_frame_def)
  have out: "outbound_as (rs_seq (ag_remoteSeq a) + 1) ?item =
      rpc_frame FrameRpcRequest (retarget head (rs_seq (ag_remoteSeq a) + 1) n) body"
    using assms(4) by (simp add: outbound_as_def Let_def rpc_frame_def retarget_def)
  have ready: "\<not> tl_done (ag_links ?a l)" "length (tl_sendCh (ag_links ?a l)) < sendChCap"
    "getLink (ag_peerMgr ?a) (peerKey (RAAddr info) (hdr_ServerType head)) = (Some l, PeerConnected)"
    using assms(8) by (simp_all add: peer_ready_def)
  obtain l' e where ls: "Link_Send (ag_links ?a l) (outbound_as (rs_seq (ag_remoteSeq ?a) + 1) ?item) = (l', e)" by fastforce
  have "\<not> isPriorityFrame (frm_Type (outbound_as (rs_seq (ag_remoteSeq ?a) + 1) ?item))" by (simp add: rpc_frame_def)
  from Link_Send_open(2) [OF ready(1) this ready(2)] ls out
  have e: "e = None" "tl_sendCh l' = tl_sendCh (ag_links a l) @
      [rpc_frame FrameRpcRequest (retarget head (rs_seq (ag_remoteSeq a) + 1) n) body]" by auto
  with sendPeerOutbound_request [OF p, of ?a l l'] ls
  have "fst (SendOrQueue ?a (RAAddr info) (hdr_ServerType head) ?item) =
      ?a\<lparr>ag_remoteSeq := fst (Remote_Alloc (ag_remoteSeq ?a) (Some c) (hdr_SeqID head)), ag_links := (ag_links ?a)(l := l')\<rparr>"
    using assms(6) ready(3) by (simp add: SendOrQueue_def)
  with r e(2) show "tl_sendCh (ag_links (RouteFrame a c ?f) l) =
      tl_sendCh (ag_links a l) @ [rpc_frame FrameRpcRequest (retarget head (rs_seq (ag_remoteSeq a) + 1) n) body]"
    "ag_remoteSeq (RouteFrame a c ?f) = fst (Remote_Alloc (ag_remoteSeq a) (Some c) (hdr_SeqID head))"
    "ag_uds (RouteFrame a c ?f) = ag_uds a" by simp_all
qed

text \<open>Second leg: the agent of the target delivers the request and remembers where it came from.\<close>

lemma delivery_leg:
  assumes "header_fits h" and "hdr_DestNodeID h \<noteq> 0" and "hosts b (hdr_DestNodeID h) d" and "hdr_SeqID h \<noteq> 0" and "key \<noteq> []"
  shows "uc_sent (ag_uds (HandlePeerFrame b (rpc_frame FrameRpcRequest h body) key) d) =
      uc_sent (ag_uds b d) @ [rpc_frame FrameRpcRequest h body]"
    and "map_of (ag_incomingSeq (HandlePeerFrame b (rpc_frame FrameRpcRequest h body) key)) (hdr_SeqID h) =
      Some \<lparr>ips_peerKey = key, ips_at = ag_now b\<rparr>"
  using EncodeRPCWireHeader_decodes [OF assms(1)] assms(2-5)
  by (simp_all add: HandlePeerFrame_def rpc_frame_def peer_request_def deliverToLocal_def hosts_def Let_def
      frame_consts uds_send_Some Track_def count_metric_def)

text \<open>Third leg: the response leaves on the link the request came in on.\<close>

lemma response_leg:
  assumes "header_fits h" and "hdr_DestNodeID h \<noteq> 0" and "Local_Get (ag_localConns b) (hdr_DestNodeID h) = None"
    and "GetByNodeID (ag_memberTable b) (hdr_DestNodeID h) \<noteq> None"
    and "map_of (ag_incomingSeq b) (hdr_SeqID h) = Some e" and "peer_ready b (ips_peerKey e) l"
  shows "tl_prioSendCh (ag_links (RouteFrame b d (rpc_frame FrameRpcResponse h body)) l) =
      tl_prioSendCh (ag_links b l) @ [rpc_frame FrameRpcResponse h body]"
proof -
  let ?f = "rpc_frame FrameRpcResponse h body"
  let ?b = "b\<lparr>ag_incomingSeq := mdel (hdr_SeqID h) (ag_incomingSeq b)\<rparr>"
  have "RouteFrame b d ?f = SendResponseViaPeer b (hdr_SeqID h) (hdr_DestNodeID h) ?f"
    using EncodeRPCWireHeader_decodes [OF assms(1)] assms(2) by (simp add: RouteFrame_def rpc_frame_def)
  also have "\<dots> = fst (link_send ?b l ?f)"
    using assms(3-6) by (auto simp: SendResponseViaPeer_def Incoming_Pop_def peer_ready_def Let_def)
  finally have r: "RouteFrame b d ?f = fst (link_send ?b l ?f)" .
  have "isPriorityFrame (frm_Type ?f)" by (simp add: isPriorityFrame_def rpc_frame_def)
  with assms(6) Link_Send_open(1) [of "ag_links b l" ?f] show ?thesis
    unfolding r by (simp add: link_send_eq peer_ready_def)
qed

text \<open>Last leg: the requester's agent restores the sequence number.\<close>

lemma return_leg:
  assumes "header_fits h" and "map_of (rs_data (ag_remoteSeq a)) (hdr_SeqID h) = Some \<lparr>rse_udsConn = Some c, rse_origSeqID = s\<rparr>"
    and "\<not> uc_done (ag_uds a c)"
  shows "uc_sent (ag_uds (HandlePeerFrame a (rpc_frame FrameRpcResponse h body) key) c) =
      uc_sent (ag_uds a c) @ [rpc_frame FrameRpcResponse (h\<lparr>hdr_SeqID := s\<rparr>) body]"
  using EncodeRPCWireHeader_decodes [OF assms(1)] assms(2,3)
  by (simp add: HandlePeerFrame_def rpc_frame_def peer_response_def Remote_Pop_def Let_def uds_send_Some)

text \<open>A request reaches its target and the response reaches its requester. A request
  with number \<open>hdr_SeqID head\<close> of connection \<open>c\<close> on agent \<open>a\<close>, routed to a node of another
  agent \<open>b\<close>, is delivered there with the same body, addressed to the chosen node and under
  the fresh number of \<open>a\<close>. When the node answers under that number, and in between \<open>a\<close> has
  performed any other allocations, responses and disconnects (\<open>a1\<close>) and \<open>b\<close> anything that
  keeps the tracked request (\<open>b1\<close>), the response arrives on \<open>c\<close> with the original number and
  the body of the answer.\<close>

lemma request_response_between_agents:
  assumes "header_fits head" and "hdr_SeqID head \<noteq> 0" and "pickTargets a head = [n]" and "n \<noteq> 0"
    and "GetByNodeID (ag_memberTable a) n = Some info" and "RAAddr info \<noteq> []" and "Local_Get (ag_localConns a) n = None"
    and "peer_ready a (peerKey (RAAddr info) (hdr_ServerType head)) l"
    and "remote_ok (ag_remoteSeq a)" and "length ops < remote_room (ag_remoteSeq a)"
    and a1: "ag_remoteSeq a1 = foldl remote_step (ag_remoteSeq (RouteFrame a c (rpc_frame FrameRpcRequest head body))) ops"
    and "RemotePop (rs_seq (ag_remoteSeq a) + 1) \<notin> set ops" and "RemoteConnGone c \<notin> set ops" and "\<not> uc_done (ag_uds a1 c)"
    and "hosts b n d" and "key \<noteq> []"
    and "req = rpc_frame FrameRpcRequest (retarget head (rs_seq (ag_remoteSeq a) + 1) n) body"
    and b1: "map_of (ag_incomingSeq b1) (rs_seq (ag_remoteSeq a) + 1)
      = map_of (ag_incomingSeq (HandlePeerFrame b req key)) (rs_seq (ag_remoteSeq a) + 1)"
    and "peer_ready b1 key k" and "Local_Get (ag_localConns b1) (hdr_DestNodeID rh) = None"
    and "GetByNodeID (ag_memberTable b1) (hdr_DestNodeID rh) \<noteq> None"
    and "header_fits rh" and "hdr_DestNodeID rh \<noteq> 0" and "hdr_SeqID rh = rs_seq (ag_remoteSeq a) + 1"
    and "resp = rpc_frame FrameRpcResponse rh rbody"
  shows "tl_sendCh (ag_links (RouteFrame a c (rpc_frame FrameRpcRequest head body)) l) = tl_sendCh (ag_links a l) @ [req]
    \<and> uc_sent (ag_uds (HandlePeerFrame b req key) d) = uc_sent (ag_uds b d) @ [req]
    \<and> tl_prioSendCh (ag_links (RouteFrame b1 d resp) k) = tl_prioSendCh (ag_links b1 k) @ [resp]
    \<and> uc_sent (ag_uds (HandlePeerFrame a1 resp key') c) = uc_sent (ag_uds a1 c)
        @ [rpc_frame FrameRpcResponse (rh\<lparr>hdr_SeqID := hdr_SeqID head\<rparr>) rbody]"
proof -
  let ?s = "rs_seq (ag_remoteSeq a) + 1"
  have room: "0 < remote_room (ag_remoteSeq a)" using assms(10) by simp
  have nz: "?s \<noteq> 0" using unat_suc_seq(1) [OF room] by (metis unat_0 nat.distinct(1))
  note leg1 = request_leg [OF assms(1-8), of c body]
  have "hosts b (hdr_DestNodeID (retarget head ?s n)) d" "hdr_DestNodeID (retarget head ?s n) \<noteq> 0"
    "hdr_SeqID (retarget head ?s n) = ?s"
    using assms(4) \<open>hosts b n d\<close> by (simp_all add: retarget_def)
  note leg2 = delivery_leg [OF retarget_fits [OF assms(1)] this(2,1), of key body, unfolded this(3), OF nz \<open>key \<noteq> []\<close>]
  have inc: "map_of (ag_incomingSeq b1) (hdr_SeqID rh) = Some \<lparr>ips_peerKey = key, ips_at = ag_now b\<rparr>"
    using b1 leg2(2) \<open>hdr_SeqID rh = ?s\<close> \<open>req = _\<close> by simp
  note leg3 = response_leg [OF \<open>header_fits rh\<close> \<open>hdr_DestNodeID rh \<noteq> 0\<close> \<open>Local_Get (ag_localConns b1) _ = None\<close>
      \<open>GetByNodeID (ag_memberTable b1) _ \<noteq> None\<close> inc, of k d rbody]
  let ?e = "\<lparr>rse_udsConn = Some c, rse_origSeqID = hdr_SeqID head\<rparr>"
  note ok = remote_ok_Alloc [OF assms(9) room, of "Some c" "hdr_SeqID head"]
  have "list_all (remote.spares ?s ?e) (map as_table_op ops)"
    using assms(12,13) by (rule remote_ops_spare)
  then have "map_of (rs_data (ag_remoteSeq a1)) ?s = Some ?e"
    using remote.run_keeps [OF ok(1), of "map as_table_op ops" ?s ?e] ok(2) assms(10)
    by (simp add: a1 leg1(2) remote_steps_run)
  with \<open>hdr_SeqID rh = ?s\<close> have "map_of (rs_data (ag_remoteSeq a1)) (hdr_SeqID rh) = Some ?e" by simp
  note leg4 = return_leg [OF \<open>header_fits rh\<close> this \<open>\<not> uc_done (ag_uds a1 c)\<close>, of rbody key']
  show ?thesis
    using leg1(1) leg2(1) leg3 leg4 \<open>peer_ready b1 key k\<close> \<open>req = _\<close> \<open>resp = _\<close> by simp
qed

text \<open>Two agents with a link between them: node 77 on the first, node 4 on the second.\<close>

definition wit_head :: RPCWireHeader where
  "wit_head = zero_head\<lparr>hdr_SeqID := 9, hdr_SrcNodeID := 77, hdr_RoutingMode := RoutingModeDirect, hdr_RoutingKey := ''4''\<rparr>"

definition wit_a :: Agent where
  "wit_a = demo_agent\<lparr>ag_memberTable := Upsert NewMemberTable \<lparr>NodeID = 4, RAAddr = ''ra2:9000'', StartAt = 0\<rparr> 0,
     ag_peerMgr := fst (Attach NewPeerMgr (peerKey ''ra2:9000'' 0) 1 ''outgoing'')\<rparr>"

definition wit_b :: Agent where
  "wit_b = demo_agent\<lparr>ag_memberTable := Upsert NewMemberTable \<lparr>NodeID = 77, RAAddr = ''ra1:9000'', StartAt = 0\<rparr> 0,
     ag_localConns := Register [] 4 8, ag_peerMgr := fst (Attach NewPeerMgr (peerKey ''ra1:9000'' 0) 2 ''incoming'')\<rparr>"

definition wit_reply :: RPCWireHeader where
  "wit_reply = zero_head\<lparr>hdr_SeqID := 1, hdr_SrcNodeID := 4, hdr_DestNodeID := 77\<rparr>"

lemma attach_New_ready: "getLink (fst (Attach NewPeerMgr k l dir)) k = (Some l, PeerConnected)"
  by (simp add: Attach_def getLink_def put_peer_def Let_def)

lemma wit_scenario:
  "rs_seq (ag_remoteSeq wit_a) = 0" "remote_ok (ag_remoteSeq wit_a)" "0 < remote_room (ag_remoteSeq wit_a)"
  "GetByNodeID (ag_memberTable wit_a) 4 = Some \<lparr>NodeID = 4, RAAddr = ''ra2:9000'', StartAt = 0\<rparr>" "GetByNodeID (ag_memberTable wit_b) 77 \<noteq> None"
  "Local_Get (ag_localConns wit_a) 4 = None" "Local_Get (ag_localConns wit_b) 77 = None"
  "peer_ready wit_a (peerKey ''ra2:9000'' 0) 1" "peer_ready wit_b (peerKey ''ra1:9000'' 0) 2"
  "hosts wit_b 4 8" "\<not> uc_done (ag_uds wit_a c)" "uc_sent (ag_uds wit_a c) = []"
proof -
  show "remote_ok (ag_remoteSeq wit_a)" "0 < remote_room (ag_remoteSeq wit_a)"
    by (simp_all add: wit_a_def demo_agent_def remote_room_def) (simp add: NewRemoteSeqMap_def)
qed (simp_all add: wit_a_def wit_b_def demo_agent_def NewRemoteSeqMap_def GetByNodeID_def Upsert_def Register_def Local_Get_def
    peer_ready_def attach_New_ready new_link_def sendChCap_def prioSendChCap_def hosts_def NewUDSConn_def)

section \<open>Registration and clean-up of business processes\<close>

lemma forget_nodes_fields [simp]:
  "ag_localConns (forget_nodes a ns) = ag_localConns a" "ag_remoteSeq (forget_nodes a ns) = ag_remoteSeq a"
  by (induction a ns rule: forget_nodes.induct) (simp_all add: registry_delete_def split: option.splits)

lemma forget_nodes_members:
  "GetByNodeID (ag_memberTable (forget_nodes a ns)) i = (if i \<in> set ns then None else GetByNodeID (ag_memberTable a) i)"
  by (induction a ns rule: forget_nodes.induct)
    (auto simp: registry_delete_def GetByNodeID_def MemberTable_Delete_def split: option.splits)

lemma forget_nodes_listed:
  "table_ok (ag_memberTable a) \<Longrightarrow> table_ok (ag_memberTable (forget_nodes a ns))
   \<and> ListNodeIDsByServerType (ag_memberTable (forget_nodes a ns)) st
      = filter (\<lambda>i. i \<notin> set ns) (ListNodeIDsByServerType (ag_memberTable a) st)"
proof (induction ns arbitrary: a)
  case (Cons n ns)
  let ?a1 = "registry_delete (a\<lparr>ag_memberTable := MemberTable_Delete (ag_memberTable a) n\<rparr>) n"
  have m: "ag_memberTable ?a1 = MemberTable_Delete (ag_memberTable a) n"
    by (simp add: registry_delete_def split: option.splits)
  have wf: "wf_map (byServerType (ag_memberTable a))" using Cons.prems by (simp add: table_ok_def)
  have "ListNodeIDsByServerType (ag_memberTable ?a1) st = filter (\<lambda>i. i \<noteq> n) (ListNodeIDsByServerType (ag_memberTable a) st)"
    by (simp add: m ListNodeIDsByServerType_def items_of_Delete [OF wf] filter_map comp_def)
  with Cons.IH [of ?a1] Cons.prems m show ?case by (auto intro: filter_cong)
qed simp

text \<open>When a business process goes away, the agent forgets exactly what belonged to it:
  its node ids are neither found as local connections nor as members nor in any routing list,
  no pending response points to its connection any more, and every other node keeps its
  connection and its membership.\<close>

theorem removeConn_exact:
  assumes "wf_map (ag_localConns a)" and "table_ok (ag_memberTable a)"
  shows "Local_Get (ag_localConns (removeConn a c)) i =
      (if Local_Get (ag_localConns a) i = Some c then None else Local_Get (ag_localConns a) i)
    \<and> GetByNodeID (ag_memberTable (removeConn a c)) i =
      (if Local_Get (ag_localConns a) i = Some c then None else GetByNodeID (ag_memberTable a) i)
    \<and> ListNodeIDsByServerType (ag_memberTable (removeConn a c)) st =
        filter (\<lambda>j. Local_Get (ag_localConns a) j \<noteq> Some c) (ListNodeIDsByServerType (ag_memberTable a) st)
    \<and> (\<forall>(k, e) \<in> set (rs_data (ag_remoteSeq (removeConn a c))). rse_udsConn e \<noteq> Some c)"
proof -
  let ?a1 = "(count_metric mt_PeerDisconnectTotal_update a)\<lparr>ag_localConns := fst (Local_Remove (ag_localConns a) c)\<rparr>"
  let ?ns = "snd (Local_Remove (ag_localConns a) c)"
  have r: "removeConn a c = (forget_nodes ?a1 ?ns)\<lparr>ag_remoteSeq := fst (DeleteByConn (ag_remoteSeq a) (Some c))\<rparr>"
    by (simp add: removeConn_def Let_def)
  have ns: "i \<in> set ?ns \<longleftrightarrow> Local_Get (ag_localConns a) i = Some c" for i
    using set_Local_Remove [OF assms(1), of c] by simp
  have "ListNodeIDsByServerType (ag_memberTable (removeConn a c)) st =
      filter (\<lambda>j. Local_Get (ag_localConns a) j \<noteq> Some c) (ListNodeIDsByServerType (ag_memberTable a) st)"
    using forget_nodes_listed [of ?a1 ?ns st] assms(2) ns unfolding r by (simp cong: filter_cong)
  moreover have "\<forall>(k, e) \<in> set (rs_data (ag_remoteSeq (removeConn a c))). rse_udsConn e \<noteq> Some c"
    unfolding r by (auto simp: DeleteByConn_def)
  ultimately show ?thesis
    using Local_Get_Remove [OF assms(1), of c i] forget_nodes_members [of ?a1 ?ns i] ns [of i] unfolding r by simp
qed

theorem removeConn_exact_witness:
  "GetByNodeID (ag_memberTable (removeConn (wit_b\<lparr>ag_memberTable :=
      Upsert (ag_memberTable wit_b) \<lparr>NodeID = 4, RAAddr = ''ra2:9000'', StartAt = 0\<rparr> 0\<rparr>) 8)) 4 = None"
  using removeConn_exact [of "wit_b\<lparr>ag_memberTable := Upsert (ag_memberTable wit_b) \<lparr>NodeID = 4, RAAddr = ''ra2:9000'', StartAt = 0\<rparr> 0\<rparr>" 8 4 0]
  by (simp add: wit_b_def)

text \<open>The handshake of a business process makes it routable: after an accepted
  registration the agent acknowledges with 1, delivers frames for the node to the
  connection, and lists the node, with the agent's own address, under the server type encoded
  in the node id; a failed registration is acknowledged with 0 and changes neither table.\<close>

theorem handshake_registers:
  assumes "\<not> uc_done (ag_uds a c)" and "table_ok (ag_memberTable a)" and "snd (registry_put a n (fst (snd (Decode n)))) = ok"
    and "f = \<lparr>frm_Type = FrameHandshake, frm_Header = [], frm_Body = PutUint32 n\<rparr>"
  shows "uc_sent (ag_uds (handleFrame a c f) c) = uc_sent (ag_uds a c) @ [ack_frame (if ok then 1 else 0)]
    \<and> (if ok then Local_Get (ag_localConns (handleFrame a c f)) n = Some c
          \<and> (\<exists>info. GetByNodeID (ag_memberTable (handleFrame a c f)) n = Some info \<and> RAAddr info = ag_listenAddr a)
          \<and> n \<in> set (ListNodeIDsByServerType (ag_memberTable (handleFrame a c f)) (fst (snd (Decode n))))
        else ag_localConns (handleFrame a c f) = ag_localConns a \<and> ag_memberTable (handleFrame a c f) = ag_memberTable a)"
proof -
  obtain a1 where rp: "registry_put a n (fst (snd (Decode n))) = (a1, ok)"
    using assms(3) by (cases "registry_put a n (fst (snd (Decode n)))") simp
  then have same: "ag_uds a1 = ag_uds a" "ag_listenAddr a1 = ag_listenAddr a" "ag_localConns a1 = ag_localConns a"
    "ag_memberTable a1 = ag_memberTable a" by (auto simp: registry_put_def split: option.splits)
  note h = handleFrame_def handleHandshake_def assms(4)
  show ?thesis
  proof (cases ok)
    case False
    then show ?thesis using assms(1) rp same
      by (simp add: h uds_send_Some)
  next
    case True
    let ?i = "\<lparr>NodeID = n, RAAddr = ag_listenAddr a, StartAt = ag_now a1 div 10 ^ 9\<rparr>"
    have "n \<in> set (ListNodeIDsByServerType (Upsert (ag_memberTable a) ?i (fst (snd (Decode n)))) (fst (snd (Decode n))))"
      using table_ok_items(1) [OF assms(2), of "fst (snd (Decode n))"]
      by (simp add: ListNodeIDsByServerType_def items_of_Upsert upsert_items_eq set_insert_node)
    with True assms(1) rp same show ?thesis
      by (simp add: h uds_send_Some GetByNodeID_def) (simp add: Upsert_def)
  qed
qed

theorem handshake_registers_witness:
  "Local_Get (ag_localConns (handleFrame demo_agent 3 \<lparr>frm_Type = FrameHandshake, frm_Header = [], frm_Body = PutUint32 66051\<rparr>)) 66051 = Some 3"
  using handshake_registers [of demo_agent 3 66051 True, OF _ _ _ refl]
  by (simp add: demo_agent_def NewUDSConn_def registry_put_def)

section \<open>Broadcasts\<close>

lemma uds_send_waiters [simp]: "ag_waiters (fst (uds_send a c f)) = ag_waiters a" "ag_waiterSeq (fst (uds_send a c f)) = ag_waiterSeq a"
  by (simp_all add: uds_send_def split: option.splits prod.splits)

lemma FailOutbound_waiters [simp]:
  "ag_waiters (FailOutbound a i e) = ag_waiters a" "ag_waiterSeq (FailOutbound a i e) = ag_waiterSeq a"
  by (simp_all add: FailOutbound_def Let_def)

lemma SendOrQueue_waiters [simp]: "ag_waiters (fst (SendOrQueue a addr st i)) = ag_waiters a"
proof -
  have s: "ag_waiters (fst (sendPeerOutbound b l i)) = ag_waiters b" for b l
    by (simp add: sendPeerOutbound_def Let_def link_send_eq split: option.splits)
  have q: "ag_waiters (fst (queue_outbound b addr st i)) = ag_waiters b" for b
    by (simp add: queue_outbound_def Let_def startDial_def split: prod.splits option.splits)
  show ?thesis
    using s q by (auto simp: SendOrQueue_def split: prod.splits option.splits PeerState.splits) (metis fst_conv)+
qed

lemma send_to_all_waiters [simp]: "ag_waiters (send_to_all a l p) = ag_waiters a"
  by (induction a l p rule: send_to_all.induct) (simp_all add: SendToNode_def split: option.splits)

text \<open>A broadcast is complete exactly when all its nodes have acknowledged. Acknowledging
  any of the nodes it was sent to keeps the collector while a node is missing and removes it
  with the last one; the collector is registered under a number that no earlier broadcast of
  the agent used.\<close>

theorem broadcast_completes:
  assumes "ListByServerType (ag_memberTable a) st \<noteq> []" and "Broadcast a st payload = (a', rec)"
    and "set acks \<subseteq> set (bsr_NodeIDs rec)" and "length acks < 2 ^ 32"
  shows "bsr_NodeIDs rec = ListNodeIDsByServerType (ag_memberTable a) st \<and> bsr_WaiterID rec = ag_waiterSeq a + 1
    \<and> ag_waiters a' (bsr_WaiterID rec) \<noteq> None
    \<and> (ag_waiters (handleBroadcastSent a' (EncodeBroadcastSent (bsr_WaiterID rec) acks)) (bsr_WaiterID rec) = None
        \<longleftrightarrow> set acks = set (bsr_NodeIDs rec))"
proof -
  let ?ns = "map NodeID (ListByServerType (ag_memberTable a) st)" and ?w = "ag_waiterSeq a + 1"
  from assms(1,2) have r: "rec = \<lparr>bsr_WaiterID = ?w, bsr_NodeIDs = ?ns\<rparr>"
    and w: "ag_waiters a' ?w = Some (NewBroadcastWaiter ?w ?ns)"
    by (auto simp: Broadcast_def Let_def RegisterWaiter_def) (simp add: NewBroadcastWaiter_def)
  have "DecodeBroadcastSent (EncodeBroadcastSent ?w acks) = Some (?w, acks)"
    using DecodeBroadcastSent_Encode [OF assms(4)] .
  with r w waiter_done_iff [of acks ?ns ?w] assms(3) show ?thesis
    by (simp add: handleBroadcastSent_def Let_def ListNodeIDsByServerType_def ListByServerType_def)
qed

theorem broadcast_completes_witness:
  "ag_waiters (handleBroadcastSent (fst (Broadcast wit_a 0 [1])) (EncodeBroadcastSent 1 [4])) 1 = None"
proof -
  have l: "ListByServerType (ag_memberTable wit_a) 0 = [\<lparr>NodeID = 4, RAAddr = ''ra2:9000'', StartAt = 0\<rparr>]"
    by (simp add: wit_a_def ListByServerType_def items_of_Upsert)
      (simp add: items_of_def NewMemberTable_def upsert_items_eq)
  obtain a' rec where b: "Broadcast wit_a 0 [1] = (a', rec)" by fastforce
  then have r: "rec = \<lparr>bsr_WaiterID = 1, bsr_NodeIDs = [4]\<rparr>"
    using l by (auto simp: Broadcast_def Let_def wit_a_def demo_agent_def)
  have "ag_waiters (handleBroadcastSent a' (EncodeBroadcastSent (bsr_WaiterID rec) [4])) (bsr_WaiterID rec) = None
      \<longleftrightarrow> set [4] = set (bsr_NodeIDs rec)"
    by (rule broadcast_completes [OF _ b, THEN conjunct2, THEN conjunct2, THEN conjunct2]) (use l r in simp_all)
  with r b show ?thesis by simp
qed

section \<open>Two defects of the forwarding path\<close>

lemma HandlePeerFrame_request_fields:
  "frm_Type f = FrameRpcRequest \<Longrightarrow>
   ag_peerMgr (HandlePeerFrame a f key) = ag_peerMgr a \<and> ag_links (HandlePeerFrame a f key) = ag_links a
   \<and> ag_localConns (HandlePeerFrame a f key) = ag_localConns a \<and> ag_memberTable (HandlePeerFrame a f key) = ag_memberTable a
   \<and> (\<forall>c. uc_done (ag_uds (HandlePeerFrame a f key) c) = uc_done (ag_uds a c))"
  by (auto simp: HandlePeerFrame_def peer_request_def deliverToLocal_def Let_def frame_consts uds_send_Some
      count_metric_def split: option.splits sum.splits if_splits)

text \<open>Requests from different agents that carry the same number are confused. Every agent
  numbers its forwarded requests from 1, and the receiving agent tracks them by number only:
  when requests with equal numbers of two peers are open, the response to the first
  requester leaves on the link of the second peer.\<close>

theorem incoming_seq_collision:
  assumes "header_fits h1" and "header_fits h2" and "hdr_SeqID h1 = s" and "hdr_SeqID h2 = s" and "s \<noteq> 0"
    and "hdr_DestNodeID h1 = n" and "hdr_DestNodeID h2 = n" and "n \<noteq> 0" and "hosts b n d" and "k1 \<noteq> []" and "k2 \<noteq> []"
    and "b2 = HandlePeerFrame (HandlePeerFrame b (rpc_frame FrameRpcRequest h1 body1) k1) (rpc_frame FrameRpcRequest h2 body2) k2"
    and "peer_ready b k2 l2"
    and "header_fits rh" and "hdr_SeqID rh = s" and "hdr_DestNodeID rh = src1" and "src1 \<noteq> 0"
    and "Local_Get (ag_localConns b) src1 = None" and "GetByNodeID (ag_memberTable b) src1 \<noteq> None"
  shows "tl_prioSendCh (ag_links (RouteFrame b2 d (rpc_frame FrameRpcResponse rh rbody)) l2) =
    tl_prioSendCh (ag_links b l2) @ [rpc_frame FrameRpcResponse rh rbody]"
proof -
  let ?b1 = "HandlePeerFrame b (rpc_frame FrameRpcRequest h1 body1) k1"
  have t: "frm_Type (rpc_frame FrameRpcRequest h1 body1) = FrameRpcRequest"
    "frm_Type (rpc_frame FrameRpcRequest h2 body2) = FrameRpcRequest" by (simp_all add: rpc_frame_def)
  note f1 = HandlePeerFrame_request_fields [OF t(1), of b k1] and f2 = HandlePeerFrame_request_fields [OF t(2), of ?b1 k2]
  have "hosts ?b1 n d" using assms(9) f1 by (simp add: hosts_def)
  then have "map_of (ag_incomingSeq b2) (hdr_SeqID rh) = Some \<lparr>ips_peerKey = k2, ips_at = ag_now ?b1\<rparr>"
    using delivery_leg(2) [of h2 ?b1 d k2 body2] assms(2,4,5,7,8,11,12,15) by simp
  moreover have "peer_ready b2 k2 l2" using assms(12,13) f1 f2 by (simp add: peer_ready_def)
  ultimately show ?thesis
    using response_leg [OF assms(14), of b2 _ l2 d rbody] assms(12,16-19) f1 f2 by simp
qed

theorem incoming_seq_collision_witness:
  "tl_prioSendCh (ag_links (RouteFrame
     (HandlePeerFrame (HandlePeerFrame wit_b (rpc_frame FrameRpcRequest (retarget wit_head 1 4) [1]) ''ra3:9000:0'')
        (rpc_frame FrameRpcRequest (retarget wit_head 1 4) [2]) (peerKey ''ra1:9000'' 0))
     8 (rpc_frame FrameRpcResponse wit_reply [9])) 2) = [rpc_frame FrameRpcResponse wit_reply [9]]"
proof -
  have h: "header_fits wit_head" "header_fits wit_reply"
    by (simp_all add: wit_head_def wit_reply_def zero_head_def header_fits_def)
  have b: "hosts wit_b 4 8" "peer_ready wit_b (peerKey ''ra1:9000'' 0) 2" "tl_prioSendCh (ag_links wit_b 2) = []"
    "Local_Get (ag_localConns wit_b) 77 = None" "GetByNodeID (ag_memberTable wit_b) 77 \<noteq> None"
    by (simp_all add: hosts_def peer_ready_def wit_b_def attach_New_ready demo_agent_def new_link_def NewUDSConn_def
        sendChCap_def prioSendChCap_def GetByNodeID_def Upsert_def Register_def Local_Get_def)
  have k: "peerKey ''ra1:9000'' 0 \<noteq> []" by (simp add: peerKey_def)
  have "tl_prioSendCh (ag_links (RouteFrame
     (HandlePeerFrame (HandlePeerFrame wit_b (rpc_frame FrameRpcRequest (retarget wit_head 1 4) [1]) ''ra3:9000:0'')
        (rpc_frame FrameRpcRequest (retarget wit_head 1 4) [2]) (peerKey ''ra1:9000'' 0))
     8 (rpc_frame FrameRpcResponse wit_reply [9])) 2) = tl_prioSendCh (ag_links wit_b 2) @ [rpc_frame FrameRpcResponse wit_reply [9]]"
    by (rule incoming_seq_collision [OF retarget_fits [OF h(1)] retarget_fits [OF h(1)] _ _ _ _ _ _ b(1) _ k refl b(2) h(2)
          _ _ _ b(4,5)]) (simp_all add: retarget_def wit_reply_def zero_head_def)
  then show ?thesis by (simp add: b(3))
qed

text \<open>
  A frame without an RPC header, as \<^verbatim>\<open>Broadcast\<close> and the legacy route send it to another agent,
  is counted and discarded there.
\<close>

lemma headerless_peer_frames_lost:
  "frm_Header f = [] \<Longrightarrow> frm_Type f = FrameRpcNotify \<Longrightarrow>
   HandlePeerFrame a f key = count_metric mt_ForwardTotal_update a"
  by (simp add: HandlePeerFrame_def DecodeRPCWireHeader_def Let_def frame_consts)

end
