(* ===== verification/Sdk_Client.thy ===== *)
theory Sdk_Client
  imports Rpc_Compose Agent_Router
begin

text \<open>
  The RouterAgent client that every business server embeds (\<^verbatim>\<open>sdk/client.go\<close>): translation of
  an RPC call into a frame, the handling of received frames and the handshake with the
  agent; and the inbound side of the business servers (\<^verbatim>\<open>handleInbound\<close> and \<^verbatim>\<open>responseHead\<close> of
  \<^verbatim>\<open>lobby/module.go\<close>, \<^verbatim>\<open>handleRemote\<close> of \<^verbatim>\<open>gate/module.go\<close>).
\<close>

section \<open>Outbound\<close>

definition routingModeToWire :: "RoutingMode \<Rightarrow> u8" where
  "routingModeToWire mode =
     (case mode of RoutingDirect \<Rightarrow> RoutingModeDirect | RoutingConsistentHash \<Rightarrow> RoutingModeHash
      | RoutingBroadcast \<Rightarrow> RoutingModeBroadcast | RoutingAny \<Rightarrow> RoutingModeAny)"

definition sdk_header :: "u32 \<Rightarrow> Target \<Rightarrow> Header \<Rightarrow> RPCWireHeader" where
  "sdk_header nodeID target header =
     (let h0 = \<lparr>hdr_SeqID = rh_SeqID header, hdr_ServerType = rh_ServerType header,
                hdr_RoutingMode = routingModeToWire (tg_Mode target), hdr_DeadlineMs = word_of_int (rh_DeadlineMs header),
                hdr_WaiterID = rh_WaiterID header, hdr_SrcNodeID = rh_SrcNodeID header,
                hdr_DestNodeID = rh_DestNodeID header, hdr_ErrCode = 0, hdr_RoutingKey = rh_RoutingKey header,
                hdr_Route = rh_Route header\<rparr>;
          h1 = (if hdr_ServerType h0 = 0 then h0\<lparr>hdr_ServerType := tg_ServerType target\<rparr> else h0);
          h2 = (if hdr_SrcNodeID h1 = 0 then h1\<lparr>hdr_SrcNodeID := nodeID\<rparr> else h1)
      in if tg_Mode target = RoutingDirect
         then h2\<lparr>hdr_DestNodeID := tg_NodeID target, hdr_RoutingKey := dec_nat (unat (tg_NodeID target))\<rparr>
         else h2)"

definition SendFrame :: "u32 \<Rightarrow> Target \<Rightarrow> Header \<Rightarrow> bytes \<Rightarrow> outboundFrame" where
  "SendFrame nodeID target header body =
     \<lparr>out_frame = \<lparr>frm_Type = (if rh_SeqID header \<noteq> 0 then FrameRpcRequest else FrameRpcNotify), frm_Header = [], frm_Body = body\<rparr>,
      out_wire = sdk_header nodeID target header, out_hasWire = True\<rparr>"

definition SendRPCFrame :: "FrameType \<Rightarrow> RPCWireHeader \<Rightarrow> bytes \<Rightarrow> outboundFrame" where
  "SendRPCFrame t header body =
     \<lparr>out_frame = \<lparr>frm_Type = t, frm_Header = [], frm_Body = body\<rparr>, out_wire = header, out_hasWire = True\<rparr>"

lemma as_frame_SendRPCFrame [simp]: "as_frame (SendRPCFrame t h b) = rpc_frame t h b"
  by (simp add: SendRPCFrame_def as_frame_def rpc_frame_def)

lemma as_frame_SendFrame:
  "as_frame (SendFrame nid t h b) = rpc_frame (if rh_SeqID h \<noteq> 0 then FrameRpcRequest else FrameRpcNotify) (sdk_header nid t h) b"
  by (simp add: SendFrame_def as_frame_def rpc_frame_def)

section \<open>Inbound\<close>

text \<open>
  The effects of \<^verbatim>\<open>readLoop\<close> on one frame: a response goes to the RPC engine, a request or
  notification is posted to the main loop if a handler is set, a heartbeat is answered.
\<close>

record SdkClient =
  cl_nodeID :: u32
  cl_core :: "Core option"
  cl_handler :: bool
  cl_posted :: "Frame list"
  cl_sent :: "outboundFrame list"

definition client_on_frame :: "SdkClient \<Rightarrow> Frame \<Rightarrow> SdkClient" where
  "client_on_frame c frame =
     (if frm_Type frame = FrameRpcResponse then
        (case (DecodeRPCWireHeader (frm_Header frame), cl_core c) of
           (Some (Inr head), Some core) \<Rightarrow>
             c\<lparr>cl_core := Some (OnResponse core (hdr_SeqID head) (frm_Body frame) (hdr_ErrCode head))\<rparr>
         | _ \<Rightarrow> c)
      else if frm_Type frame = FrameRpcRequest \<or> frm_Type frame = FrameRpcNotify then
        (if cl_handler c then c\<lparr>cl_posted := cl_posted c @ [frame]\<rparr> else c)
      else if frm_Type frame = FrameHeartbeat then
        c\<lparr>cl_sent := cl_sent c @ [\<lparr>out_frame = \<lparr>frm_Type = FrameHeartbeat, frm_Header = [], frm_Body = []\<rparr>,
            out_wire = zero_head, out_hasWire = False\<rparr>]\<rparr>
      else c)"

text \<open>\<^verbatim>\<open>Connect\<close>: the handshake frame and the acceptance of the acknowledgement.\<close>

definition handshake_frame :: "u32 \<Rightarrow> Frame" where
  "handshake_frame nodeID = \<lparr>frm_Type = FrameHandshake, frm_Header = [], frm_Body = PutUint32 nodeID\<rparr>"

definition ack_accepted :: "Frame \<Rightarrow> bool" where
  "ack_accepted ack \<longleftrightarrow> \<not> (frm_Type ack \<noteq> FrameHandshakeAck \<or> frm_Body ack = [] \<or> hd (frm_Body ack) = 0)"

lemma ack_frame_accepted [simp]: "ack_accepted (ack_frame b) \<longleftrightarrow> b \<noteq> 0"
  by (simp add: ack_accepted_def ack_frame_def)

section \<open>Answering a request\<close>

definition responseHead :: "RPCWireHeader \<Rightarrow> u32 \<Rightarrow> RPCWireHeader" where
  "responseHead req localNodeID =
     (let r1 = (if hdr_DestNodeID req \<noteq> 0 then req\<lparr>hdr_SrcNodeID := hdr_DestNodeID req\<rparr>
                else if localNodeID \<noteq> 0 then req\<lparr>hdr_SrcNodeID := localNodeID\<rparr> else req)
      in r1\<lparr>hdr_DestNodeID := hdr_SrcNodeID req\<rparr>)"

definition inboundCtx :: "int \<Rightarrow> RPCWireHeader \<Rightarrow> Ctx" where
  "inboundCtx now head =
     (let ctx = WithFromNode Background (hdr_SrcNodeID head) in
      if 0 < sint (hdr_DeadlineMs head) then WithDeadline now ctx (wrap_s64 (sint (hdr_DeadlineMs head) * 10 ^ 6)) else ctx)"

text \<open>
  \<^verbatim>\<open>handleInbound\<close> of the lobby: \<open>outcome\<close> is what dispatching the route does, an error of the
  dispatcher or the replies the handler makes (of which \<^verbatim>\<open>OnceReply\<close> passes the first) and the
  error it returns. The result is the responses that are sent.
\<close>

datatype route_outcome = NoRoute goerror | Handled "(bytes option \<times> goerror) list" goerror

definition payload_bytes :: "bytes option \<Rightarrow> bytes" where
  "payload_bytes p = (case p of None \<Rightarrow> [] | Some b \<Rightarrow> b)"

definition handleInbound :: "u32 \<Rightarrow> Frame \<Rightarrow> route_outcome \<Rightarrow> outboundFrame list" where
  "handleInbound nodeID frame outcome =
     (case DecodeRPCWireHeader (frm_Header frame) of
        Some (Inr head) \<Rightarrow>
          let answers = (frm_Type frame = FrameRpcRequest \<and> hdr_SeqID head \<noteq> 0);
              rsp = (\<lambda>code body. SendRPCFrame FrameRpcResponse ((responseHead head nodeID)\<lparr>hdr_ErrCode := code\<rparr>) body);
              replied = (case outcome of NoRoute _ \<Rightarrow> []
                         | Handled replies _ \<Rightarrow> map (\<lambda>r. rsp (CodeOf (snd r)) (payload_bytes (fst r))) (take 1 replies));
              code = (case outcome of NoRoute e \<Rightarrow> CodeOf e | Handled _ e \<Rightarrow> CodeOf e)
          in if answers then replied @ (if code \<noteq> OK then [rsp code []] else []) else []
      | _ \<Rightarrow> [])"

text \<open>\<^verbatim>\<open>handleRemote\<close> of the gate: requests to the gate are always answered with an empty body.\<close>

definition handleRemote :: "u32 \<Rightarrow> Frame \<Rightarrow> goerror \<Rightarrow> outboundFrame list" where
  "handleRemote nodeID frame result =
     (case DecodeRPCWireHeader (frm_Header frame) of
        Some (Inr head) \<Rightarrow>
          if frm_Type frame = FrameRpcRequest \<and> hdr_SeqID head \<noteq> 0
          then [SendRPCFrame FrameRpcResponse ((responseHead head nodeID)\<lparr>hdr_ErrCode := CodeOf result\<rparr>) []]
          else []
      | _ \<Rightarrow> [])"

lemma handleInbound_single:
  assumes "header_fits head" and "hdr_SeqID head \<noteq> 0"
  shows "handleInbound nid (rpc_frame FrameRpcRequest head body) (Handled [(p, e)] NoError) =
    [SendRPCFrame FrameRpcResponse ((responseHead head nid)\<lparr>hdr_ErrCode := CodeOf e\<rparr>) (payload_bytes p)]"
  using EncodeRPCWireHeader_decodes [OF assms(1)] assms(2)
  by (simp add: handleInbound_def rpc_frame_def Let_def OK_def)

lemma responseHead_fields [simp]:
  "hdr_SeqID (responseHead h n) = hdr_SeqID h" "hdr_DestNodeID (responseHead h n) = hdr_SrcNodeID h"
  "header_fits (responseHead h n) = header_fits h"
  by (simp_all add: responseHead_def Let_def header_fits_def)

text \<open>
  A handler that replies and then returns an error makes the server answer the request twice.
\<close>

lemma handleInbound_answers_twice:
  assumes "header_fits head" and "hdr_SeqID head \<noteq> 0" and "CodeOf e \<noteq> OK"
  shows "length (handleInbound nid (rpc_frame FrameRpcRequest head body) (Handled [r] e)) = 2"
  using EncodeRPCWireHeader_decodes [OF assms(1)] assms(2,3)
  by (simp add: handleInbound_def rpc_frame_def Let_def)

end
