(* ===== verification/Frame_Pool.thy ===== *)
theory Frame_Pool
  imports Sdk_Client
begin

text \<open>
  The buffers of received frames (\<^verbatim>\<open>sdk/client.go\<close>): frames are slices of buffers from a shared pool,
  a buffer goes back to the pool when the last user of its frame is done, and the read loop fills
  it again while other frames still wait for the main loop. Buffers are cells of a store, so that
  sharing is visible.
\<close>

section \<open>The pool\<close>

text \<open>A frame in use: its buffer, its length, whether its release has run, and the bytes that came in for it.\<close>

record pooled_frame =
  pf_buf :: nat
  pf_len :: nat
  pf_released :: bool
  pf_bytes :: bytes

text \<open>
  The length of a cell is the capacity of the buffer. \<open>fp_seen\<close> pairs, for every callback that ran, the
  bytes that came in for its frame with the bytes it found in the buffer.
\<close>

record FramePool =
  fp_heap :: "nat \<Rightarrow> bytes"
  fp_next :: nat
  fp_pool :: "nat list"
  fp_tasks :: "pooled_frame list"
  fp_seen :: "(bytes \<times> bytes) list"

definition new_buffer :: "FramePool \<Rightarrow> nat \<Rightarrow> FramePool \<times> nat" where
  "new_buffer st n = (st\<lparr>fp_heap := (fp_heap st)(fp_next st := replicate n 0), fp_next := Suc (fp_next st)\<rparr>, fp_next st)"

text \<open>\<^verbatim>\<open>Get\<close> of the pool returns any buffer that was put back, or a new one.\<close>

definition pool_Get :: "FramePool \<Rightarrow> nat \<Rightarrow> FramePool \<times> nat" where
  "pool_Get st pick =
     (if pick < length (fp_pool st)
      then (st\<lparr>fp_pool := take pick (fp_pool st) @ drop (Suc pick) (fp_pool st)\<rparr>, fp_pool st ! pick)
      else new_buffer st 4096)"

definition getFrameBuffer :: "FramePool \<Rightarrow> nat \<Rightarrow> nat \<Rightarrow> FramePool \<times> nat" where
  "getFrameBuffer st n pick =
     (case pool_Get st pick of (st1, b) \<Rightarrow> if length (fp_heap st1 b) < n then new_buffer st1 n else (st1, b))"

definition releaseFrameBuffer :: "FramePool \<Rightarrow> nat \<Rightarrow> FramePool" where
  "releaseFrameBuffer st b = (if 256 * 1024 < length (fp_heap st b) then st else st\<lparr>fp_pool := fp_pool st @ [b]\<rparr>)"

definition fill :: "FramePool \<Rightarrow> nat \<Rightarrow> bytes \<Rightarrow> FramePool" where
  "fill st b bs = st\<lparr>fp_heap := (fp_heap st)(b := bs @ drop (length bs) (fp_heap st b))\<rparr>"

definition buffer_bytes :: "FramePool \<Rightarrow> pooled_frame \<Rightarrow> bytes" where
  "buffer_bytes st f = take (pf_len f) (fp_heap st (pf_buf f))"

section \<open>Reading and using frames\<close>

text \<open>
  \<^verbatim>\<open>readFrame\<close> after the length \<open>n\<close> has been read: \<open>inp\<close> is what the connection gives, less than \<open>n\<close> bytes
  when it ends.
\<close>

definition pool_readFrame :: "FramePool \<Rightarrow> nat \<Rightarrow> bytes \<Rightarrow> nat \<Rightarrow> FramePool \<times> (Frame \<times> pooled_frame) option" where
  "pool_readFrame st n inp pick =
     (if n < 3 then (st, None)
      else
        case getFrameBuffer st n pick of
          (st1, b) \<Rightarrow>
            let st2 = fill st1 b (take n inp) in
            if length inp < n then (releaseFrameBuffer st2 b, None)
            else
              (case sdk_payload n (take n (fp_heap st2 b)) of
                 Parsed [frame] _ \<Rightarrow> (st2, Some (frame, \<lparr>pf_buf = b, pf_len = n, pf_released = False, pf_bytes = take n inp\<rparr>))
               | _ \<Rightarrow> (releaseFrameBuffer st2 b, None)))"

definition release :: "FramePool \<Rightarrow> pooled_frame \<Rightarrow> FramePool" where
  "release st f = (if pf_released f then st else releaseFrameBuffer st (pf_buf f))"

text \<open>
  One round of \<^verbatim>\<open>readLoop\<close>: whether the frame is given to a callback, which releases it afterwards, or
  is released at once. \<open>known\<close> tells which calls are open, and is \<open>None\<close> without an engine.
\<close>

definition frame_used :: "(u64 \<Rightarrow> bool) option \<Rightarrow> bool \<Rightarrow> Frame \<Rightarrow> bool" where
  "frame_used known handler frame \<longleftrightarrow>
     (if frm_Type frame = FrameRpcResponse then
        (case (DecodeRPCWireHeader (frm_Header frame), known) of (Some (Inr head), Some k) \<Rightarrow> k (hdr_SeqID head) | _ \<Rightarrow> False)
      else (frm_Type frame = FrameRpcRequest \<or> frm_Type frame = FrameRpcNotify) \<and> handler)"

definition read_round :: "FramePool \<Rightarrow> nat \<Rightarrow> bytes \<Rightarrow> nat \<Rightarrow> (u64 \<Rightarrow> bool) option \<Rightarrow> bool \<Rightarrow> FramePool" where
  "read_round st n inp pick known handler =
     (case pool_readFrame st n inp pick of
        (st1, None) \<Rightarrow> st1
      | (st1, Some (frame, f)) \<Rightarrow> if frame_used known handler frame then st1\<lparr>fp_tasks := fp_tasks st1 @ [f]\<rparr> else release st1 f)"

text \<open>A callback runs and releases its frame.\<close>

definition use_frame :: "FramePool \<Rightarrow> nat \<Rightarrow> FramePool" where
  "use_frame st k =
     (if k < length (fp_tasks st) then
        let f = fp_tasks st ! k; st1 = st\<lparr>fp_seen := fp_seen st @ [(pf_bytes f, buffer_bytes st f)]\<rparr>
        in (release st1 f)\<lparr>fp_tasks := take k (fp_tasks st) @ drop (Suc k) (fp_tasks st)\<rparr>
      else st)"

datatype pool_event = ReadRound nat bytes nat "(u64 \<Rightarrow> bool) option" bool | UseFrame nat

fun pool_step :: "FramePool \<Rightarrow> pool_event \<Rightarrow> FramePool" where
  "pool_step st (ReadRound n inp pick known handler) = read_round st n inp pick known handler"
| "pool_step st (UseFrame k) = use_frame st k"

definition empty_pool :: FramePool where
  "empty_pool = \<lparr>fp_heap = (\<lambda>_. []), fp_next = 0, fp_pool = [], fp_tasks = [], fp_seen = []\<rparr>"

section \<open>Frames in use do not share buffers\<close>

definition frame_intact :: "FramePool \<Rightarrow> pooled_frame \<Rightarrow> bool" where
  "frame_intact st f \<longleftrightarrow> \<not> pf_released f \<and> pf_len f \<le> length (fp_heap st (pf_buf f)) \<and> buffer_bytes st f = pf_bytes f"

definition pool_ok :: "FramePool \<Rightarrow> bool" where
  "pool_ok st \<longleftrightarrow> distinct (fp_pool st @ map pf_buf (fp_tasks st)) \<and> (\<forall>b \<in> set (fp_pool st @ map pf_buf (fp_tasks st)). b < fp_next st)
     \<and> (\<forall>f \<in> set (fp_tasks st). frame_intact st f) \<and> (\<forall>p \<in> set (fp_seen st). fst p = snd p)"

text \<open>A buffer that is out of the pool and in no frame.\<close>

definition owned :: "FramePool \<Rightarrow> nat \<Rightarrow> bool" where
  "owned st b \<longleftrightarrow> b < fp_next st \<and> b \<notin> set (fp_pool st) \<and> b \<notin> pf_buf ` set (fp_tasks st)"

lemma intact_other: "fp_heap st' (pf_buf f) = fp_heap st (pf_buf f) \<Longrightarrow> frame_intact st' f = frame_intact st f"
  by (simp add: frame_intact_def buffer_bytes_def)

lemma pool_okD:
  assumes "pool_ok st"
  shows "distinct (fp_pool st)" "distinct (map pf_buf (fp_tasks st))" "set (fp_pool st) \<inter> pf_buf ` set (fp_tasks st) = {}"
    "\<And>b. b \<in> set (fp_pool st) \<Longrightarrow> b < fp_next st" "\<And>f. f \<in> set (fp_tasks st) \<Longrightarrow> pf_buf f < fp_next st"
    "\<And>f. f \<in> set (fp_tasks st) \<Longrightarrow> frame_intact st f" "\<And>p. p \<in> set (fp_seen st) \<Longrightarrow> fst p = snd p"
  using assms by (auto simp: pool_ok_def)

lemma pool_okI:
  assumes "distinct (fp_pool st)" "distinct (map pf_buf (fp_tasks st))" "set (fp_pool st) \<inter> pf_buf ` set (fp_tasks st) = {}"
    "\<And>b. b \<in> set (fp_pool st) \<Longrightarrow> b < fp_next st" "\<And>f. f \<in> set (fp_tasks st) \<Longrightarrow> pf_buf f < fp_next st"
    "\<And>f. f \<in> set (fp_tasks st) \<Longrightarrow> frame_intact st f" "\<And>p. p \<in> set (fp_seen st) \<Longrightarrow> fst p = snd p"
  shows "pool_ok st"
  unfolding pool_ok_def using assms by auto

lemma new_buffer_ok:
  assumes "pool_ok st" and "new_buffer st n = (st', b)"
  shows "pool_ok st' \<and> owned st' b \<and> length (fp_heap st' b) = n \<and> fp_tasks st' = fp_tasks st"
proof -
  note d = pool_okD [OF assms(1)]
  have st': "fp_pool st' = fp_pool st" "fp_tasks st' = fp_tasks st" "fp_seen st' = fp_seen st" "fp_next st' = Suc (fp_next st)" "b = fp_next st"
    "fp_heap st' = (fp_heap st)(b := replicate n 0)" using assms(2) by (auto simp: new_buffer_def)
  have "frame_intact st' f" if "f \<in> set (fp_tasks st)" for f
    using d(5,6) [OF that] intact_other [of st' f st] st' by simp
  then have "pool_ok st'" using d st' by (intro pool_okI) (auto intro: less_SucI)
  moreover have "owned st' b" using d(4) [of b] d(5) st' by (fastforce simp: owned_def)
  ultimately show ?thesis using st' by simp
qed

lemma pool_Get_ok:
  assumes "pool_ok st" and "pool_Get st pick = (st', b)"
  shows "pool_ok st' \<and> owned st' b \<and> fp_tasks st' = fp_tasks st"
proof (cases "pick < length (fp_pool st)")
  case False
  with assms new_buffer_ok [OF assms(1), of 4096 st' b] show ?thesis by (simp add: pool_Get_def)
next
  case True
  note d = pool_okD [OF assms(1)] and r = remove_nth [OF True d(1)]
  have b: "b = fp_pool st ! pick" "b \<in> set (fp_pool st)" and st': "st' = st\<lparr>fp_pool := take pick (fp_pool st) @ drop (Suc pick) (fp_pool st)\<rparr>"
    using assms(2) True by (auto simp: pool_Get_def)
  have pool: "set (fp_pool st') = set (fp_pool st) - {b}" "distinct (fp_pool st')" using r by (simp_all add: st' b(1))
  have intact: "frame_intact st' f = frame_intact st f" for f by (rule intact_other) (simp add: st')
  have "pool_ok st'" using d pool intact by (intro pool_okI) (auto simp: st')
  moreover have "owned st' b" using d b(2) pool by (auto simp: owned_def st')
  ultimately show ?thesis by (simp add: st')
qed

lemma getFrameBuffer_ok:
  assumes "pool_ok st" and "getFrameBuffer st n pick = (st', b)"
  shows "pool_ok st' \<and> owned st' b \<and> n \<le> length (fp_heap st' b) \<and> fp_tasks st' = fp_tasks st"
proof -
  obtain st1 b1 where g: "pool_Get st pick = (st1, b1)" by fastforce
  from pool_Get_ok [OF assms(1) g] new_buffer_ok [of st1 n st' b] assms(2) g show ?thesis
    by (auto simp: getFrameBuffer_def split: if_splits)
qed

lemma fill_ok:
  assumes "pool_ok st" and "owned st b"
  shows "pool_ok (fill st b bs) \<and> owned (fill st b bs) b"
proof -
  note d = pool_okD [OF assms(1)]
  have "frame_intact (fill st b bs) f" if "f \<in> set (fp_tasks st)" for f
  proof -
    have "pf_buf f \<noteq> b" using assms(2) that by (auto simp: owned_def)
    then show ?thesis using d(6) [OF that] intact_other [of "fill st b bs" f st] by (simp add: fill_def)
  qed
  then show ?thesis using d assms(2) by (intro conjI pool_okI) (auto simp: fill_def owned_def)
qed

lemma releaseFrameBuffer_ok:
  assumes "pool_ok st" and "owned st b"
  shows "pool_ok (releaseFrameBuffer st b)"
proof -
  note d = pool_okD [OF assms(1)]
  have "frame_intact (releaseFrameBuffer st b) f = frame_intact st f" for f by (rule intact_other) (simp add: releaseFrameBuffer_def)
  moreover have "\<And>f. f \<in> set (fp_tasks st) \<Longrightarrow> pf_buf f \<notin> set (fp_pool st)" using d(3) by auto
  ultimately show ?thesis using d assms by (cases "256 * 1024 < length (fp_heap st b)") (auto intro!: pool_okI simp: releaseFrameBuffer_def owned_def)
qed

lemma pool_readFrame_ok:
  assumes ok: "pool_ok st" and r: "pool_readFrame st n inp pick = (st', res)"
  shows "pool_ok st' \<and> (\<forall>frame f. res = Some (frame, f) \<longrightarrow> owned st' (pf_buf f) \<and> frame_intact st' f)"
proof (cases "n < 3")
  case False
  obtain st1 b where g: "getFrameBuffer st n pick = (st1, b)" by fastforce
  note g1 = getFrameBuffer_ok [OF ok g]
  let ?st2 = "fill st1 b (take n inp)"
  have st2: "pool_ok ?st2" "owned ?st2 b" "n \<le> length (fp_heap ?st2 b)" using fill_ok [of st1 b "take n inp"] g1 by (auto simp: fill_def)
  have read: "take n (fp_heap ?st2 b) = take n inp" if "n \<le> length inp" using that by (simp add: fill_def)
  show ?thesis
    using r False g st2 read releaseFrameBuffer_ok [OF st2(1,2)]
    by (auto simp: pool_readFrame_def Let_def frame_intact_def buffer_bytes_def split: if_splits parse.splits list.splits)
qed (use assms in \<open>simp add: pool_readFrame_def\<close>)

lemma read_round_ok:
  assumes "pool_ok st"
  shows "pool_ok (read_round st n inp pick known handler)"
proof -
  obtain st1 res where r: "pool_readFrame st n inp pick = (st1, res)" by fastforce
  note ok = pool_readFrame_ok [OF assms r]
  show ?thesis
  proof (cases res)
    case None with r ok show ?thesis by (simp add: read_round_def)
  next
    case (Some p)
    obtain frame f where p: "p = (frame, f)" by fastforce
    with ok Some have f: "pool_ok st1" "owned st1 (pf_buf f)" "frame_intact st1 f" by auto
    note d = pool_okD [OF f(1)]
    have "frame_intact (st1\<lparr>fp_tasks := fp_tasks st1 @ [f]\<rparr>) g = frame_intact st1 g" for g by (rule intact_other) simp
    then have "pool_ok (st1\<lparr>fp_tasks := fp_tasks st1 @ [f]\<rparr>)" using d f by (intro pool_okI) (auto simp: owned_def)
    moreover have "pool_ok (release st1 f)" using releaseFrameBuffer_ok [OF f(1,2)] f(1) by (simp add: release_def)
    ultimately show ?thesis using r Some p by (simp add: read_round_def)
  qed
qed

lemma use_frame_ok:
  assumes "pool_ok st"
  shows "pool_ok (use_frame st k)"
proof (cases "k < length (fp_tasks st)")
  case True
  define f where "f = fp_tasks st ! k"
  define rest where "rest = take k (fp_tasks st) @ drop (Suc k) (fp_tasks st)"
  let ?st = "st\<lparr>fp_seen := fp_seen st @ [(pf_bytes f, buffer_bytes st f)], fp_tasks := rest\<rparr>"
  note d = pool_okD [OF assms]
  have f: "f \<in> set (fp_tasks st)" using True by (simp add: f_def)
  have "map pf_buf rest = take k (map pf_buf (fp_tasks st)) @ drop (Suc k) (map pf_buf (fp_tasks st))" by (simp add: rest_def take_map drop_map)
  with remove_nth [of k "map pf_buf (fp_tasks st)"] d(2) True
  have bufs: "pf_buf ` set rest = pf_buf ` set (fp_tasks st) - {pf_buf f}" "distinct (map pf_buf rest)" by (simp_all add: f_def flip: set_map)
  have sub: "set rest \<subseteq> set (fp_tasks st)" by (auto simp: rest_def dest: in_set_takeD in_set_dropD)
  have "frame_intact ?st g = frame_intact st g" for g by (rule intact_other) simp
  then have ok: "pool_ok ?st" using d bufs sub f by (intro pool_okI) (auto simp: frame_intact_def)
  have own: "owned ?st (pf_buf f)" using d(3,5) f bufs(1) by (auto simp: owned_def)
  have "use_frame st k = releaseFrameBuffer ?st (pf_buf f)"
    using True d(6) [OF f] by (auto simp: use_frame_def release_def releaseFrameBuffer_def f_def rest_def frame_intact_def Let_def)
  with releaseFrameBuffer_ok [OF ok own] show ?thesis by simp
qed (use assms in \<open>simp add: use_frame_def\<close>)

lemma pool_ok_run: "pool_ok st \<Longrightarrow> pool_ok (foldl pool_step st evs)"
proof (induction evs arbitrary: st)
  case (Cons e evs) then show ?case by (cases e) (simp_all add: read_round_ok use_frame_ok)
qed simp

text \<open>C26: A callback sees the frame that came in for it: however the read loop takes buffers from the pool and
  fills them while callbacks wait, run and release theirs, no two frames in use share a buffer, and
  every callback finds in its buffer exactly the bytes that were read for its frame.\<close>

theorem frames_not_overwritten:
  assumes "st = foldl pool_step empty_pool evs"
  shows "(\<forall>p \<in> set (fp_seen st). fst p = snd p) \<and> distinct (fp_pool st @ map pf_buf (fp_tasks st))
    \<and> (\<forall>f \<in> set (fp_tasks st). buffer_bytes st f = pf_bytes f)"
proof -
  have "pool_ok empty_pool" by (simp add: pool_ok_def empty_pool_def)
  with pool_ok_run have "pool_ok st" by (simp add: assms)
  then show ?thesis by (auto simp: pool_ok_def frame_intact_def)
qed


text \<open>Two requests are read, the first is used, a third takes its buffer, and the others are used.\<close>

theorem frames_not_overwritten_witness:
  "let req = (\<lambda>n. [FrameRpcRequest, 0, 0, n]);
       st = foldl pool_step empty_pool [ReadRound 4 (req 7) 0 None True, ReadRound 4 (req 8) 0 None True, UseFrame 0, ReadRound 4 (req 9) 0 None True, UseFrame 1, UseFrame 0]
   in map fst (fp_seen st) = [req 7, req 9, req 8] \<and> map snd (fp_seen st) = [req 7, req 9, req 8]"
proof -
  let ?req = "\<lambda>n. [FrameRpcRequest, 0, 0, n]"
  let ?evs = "[ReadRound 4 (?req 7) 0 None True, ReadRound 4 (?req 8) 0 None True, UseFrame 0, ReadRound 4 (?req 9) 0 None True, UseFrame 1, UseFrame 0]"
  have pay: "sdk_payload 4 (?req n) = Parsed [\<lparr>frm_Type = FrameRpcRequest, frm_Header = [], frm_Body = [n]\<rparr>] 8" for n
    by (simp add: sdk_payload_def Uint16_def be_nat_def Let_def)
  have "map fst (fp_seen (foldl pool_step empty_pool ?evs)) = [?req 7, ?req 9, ?req 8]"
    by (simp add: empty_pool_def read_round_def pool_readFrame_def getFrameBuffer_def pool_Get_def new_buffer_def fill_def use_frame_def release_def
        releaseFrameBuffer_def frame_used_def frame_consts pay [unfolded frame_consts] Let_def)
  moreover have "map snd (fp_seen (foldl pool_step empty_pool ?evs)) = map fst (fp_seen (foldl pool_step empty_pool ?evs))"
    using frames_not_overwritten [of "foldl pool_step empty_pool ?evs" ?evs] by (auto simp del: foldl.simps intro!: map_cong [OF refl])
  ultimately show ?thesis by (simp only: Let_def)
qed

end
