(* ===== verification/Rpc_Spans.thy ===== *)
theory Rpc_Spans
  imports Rpc_Core
begin

text \<open>
  The spans of traced calls (\<^verbatim>\<open>rpc/span.go\<close>, the span part of \<^verbatim>\<open>rpc/context.go\<close>). A span owns its children and
  nothing else refers to them but handles, so the objects form a tree and a handle is a path in it. The
  text of a duration follows \<^verbatim>\<open>time.Duration.String\<close>.
\<close>

section \<open>Spans\<close>

text \<open>The end is \<open>None\<close> until the span is finished.\<close>

datatype traceSpan = TraceSpan (sp_name: string) (sp_startAt: int) (sp_endAt: "int option") (sp_children: "traceSpan list")

datatype Span = NopSpan | SpanAt "nat list"

definition NewSpan :: "int \<Rightarrow> string \<Rightarrow> traceSpan" where
  "NewSpan now name = TraceSpan name now None []"

fun span_at :: "traceSpan \<Rightarrow> nat list \<Rightarrow> traceSpan option" where
  "span_at t [] = Some t"
| "span_at (TraceSpan n s e cs) (i # p) = (if i < length cs then span_at (cs ! i) p else None)"

fun span_upd :: "(traceSpan \<Rightarrow> traceSpan) \<Rightarrow> traceSpan \<Rightarrow> nat list \<Rightarrow> traceSpan" where
  "span_upd f t [] = f t"
| "span_upd f (TraceSpan n s e cs) (i # p) = TraceSpan n s e (if i < length cs then cs[i := span_upd f (cs ! i) p] else cs)"

text \<open>The methods on a handle; the empty span ignores everything.\<close>

definition add_child :: "traceSpan \<Rightarrow> traceSpan \<Rightarrow> traceSpan" where
  "add_child c t = (case t of TraceSpan n s e cs \<Rightarrow> TraceSpan n s e (cs @ [c]))"

definition Span_Child :: "int \<Rightarrow> string \<Rightarrow> traceSpan \<Rightarrow> Span \<Rightarrow> traceSpan \<times> Span" where
  "Span_Child now name t h =
     (case h of
        NopSpan \<Rightarrow> (t, NopSpan)
      | SpanAt p \<Rightarrow>
          (case span_at t p of
             None \<Rightarrow> (t, NopSpan)
           | Some s \<Rightarrow> (span_upd (add_child (NewSpan now name)) t p, SpanAt (p @ [length (sp_children s)]))))"

definition set_end :: "int \<Rightarrow> traceSpan \<Rightarrow> traceSpan" where
  "set_end now t = (case t of TraceSpan n s e cs \<Rightarrow> TraceSpan n s (Some now) cs)"

definition Span_Finish :: "int \<Rightarrow> traceSpan \<Rightarrow> Span \<Rightarrow> traceSpan" where
  "Span_Finish now t h = (case h of NopSpan \<Rightarrow> t | SpanAt p \<Rightarrow> span_upd (set_end now) t p)"

definition Elapsed :: "int \<Rightarrow> traceSpan \<Rightarrow> int" where
  "Elapsed now s = (case sp_endAt s of Some e \<Rightarrow> time_Sub e (sp_startAt s) | None \<Rightarrow> time_Sub now (sp_startAt s))"

section \<open>Text\<close>

text \<open>\<^verbatim>\<open>fmtFrac\<close>: the digits of a fraction without trailing zeros, behind a point if there are any.\<close>

definition frac_digits :: "nat \<Rightarrow> nat \<Rightarrow> string" where
  "frac_digits v prec =
     (let ds = dec_nat (v mod 10 ^ prec);
          padded = replicate (prec - length ds) (CHR ''0'') @ ds;
          cut = rev (dropWhile (\<lambda>c. c = CHR ''0'') (rev padded))
      in if cut = [] then [] else CHR ''.'' # cut)"

definition Duration_String :: "int \<Rightarrow> string" where
  "Duration_String d =
     (let u = nat \<bar>d\<bar>;
          sign = (if d < 0 then ''-'' else []);
          unit = (\<lambda>prec name. dec_nat (u div 10 ^ prec) @ frac_digits u prec @ name);
          secs = u div 10 ^ 9; mins = secs div 60; hours = mins div 60;
          s = dec_nat (secs mod 60) @ frac_digits u 9 @ ''s''
      in if u = 0 then ''0s''
         else sign @ (if u < 10 ^ 3 then dec_nat u @ ''ns''
                else if u < 10 ^ 6 then unit 3 [CHR 0xC2, CHR 0xB5, CHR ''s'']
                else if u < 10 ^ 9 then unit 6 ''ms''
                else if mins = 0 then s
                else if hours = 0 then dec_nat mins @ ''m'' @ s
                else dec_nat hours @ ''h'' @ dec_nat (mins mod 60) @ ''m'' @ s))"

definition span_line :: "string \<Rightarrow> traceSpan \<Rightarrow> string" where
  "span_line indent s =
     indent @ sp_name s
       @ (case sp_endAt s of Some e \<Rightarrow> '' ['' @ Duration_String (time_Sub e (sp_startAt s)) @ '']'' | None \<Rightarrow> '' [running]'')
       @ [CHR 0x0A]"

fun TreeString :: "string \<Rightarrow> traceSpan \<Rightarrow> string" where
  "TreeString indent (TraceSpan n s e cs) =
     span_line indent (TraceSpan n s e cs) @ concat (map (TreeString (indent @ ''  '')) cs)"

section \<open>Spans of a context\<close>

text \<open>\<^verbatim>\<open>TraceCtx\<close> is a new tree and a handle to its root. No type of the program implements \<^verbatim>\<open>rooted\<close>, so \<^verbatim>\<open>RootSpan\<close> is the span itself.\<close>

definition Ctx_Span :: "Span option \<Rightarrow> Span" where
  "Ctx_Span sp = (case sp of None \<Rightarrow> NopSpan | Some h \<Rightarrow> h)"

definition TraceCtx :: "int \<Rightarrow> string \<Rightarrow> traceSpan \<times> Span" where
  "TraceCtx now name = (NewSpan now name, SpanAt [])"

definition RootSpan :: "Span option \<Rightarrow> Span" where
  "RootSpan sp = Ctx_Span sp"

section \<open>The printed tree\<close>

text \<open>All spans of a tree with their depth, parents before children, children in the order of their creation.\<close>

fun preorder :: "nat \<Rightarrow> traceSpan \<Rightarrow> (nat \<times> traceSpan) list" where
  "preorder k (TraceSpan n s e cs) = (k, TraceSpan n s e cs) # concat (map (preorder (Suc k)) cs)"

lemma concat_lines: "concat (map g (concat (map f cs))) = concat (map (\<lambda>c. concat (map g (f c))) cs)"
  by (induction cs) simp_all

lemma TreeString_lines:
  "TreeString (indent @ replicate (2 * k) (CHR '' '')) t =
   concat (map (\<lambda>(d, s). span_line (indent @ replicate (2 * d) (CHR '' '')) s) (preorder k t))"
proof (induction t arbitrary: k)
  case (TraceSpan n s e cs)
  have "concat (map (TreeString (indent @ replicate (2 * Suc k) (CHR '' ''))) cs) =
      concat (map (\<lambda>(d, s). span_line (indent @ replicate (2 * d) (CHR '' '')) s) (concat (map (preorder (Suc k)) cs)))"
    unfolding concat_lines using TraceSpan by (auto intro!: arg_cong [of _ _ concat] simp del: mult_Suc_right replicate_Suc)
  moreover have "(indent @ replicate (2 * k) (CHR '' '')) @ ''  '' = indent @ replicate (2 * Suc k) (CHR '' '')"
    using replicate_add [of "2 * k" 2 "CHR '' ''"] by (simp add: numeral_2_eq_2)
  ultimately show ?case by simp
qed

section \<open>Operations\<close>

text \<open>A new child is found under the handle that was returned.\<close>

lemma span_at_upd:
  "span_at t p = Some s \<Longrightarrow> span_at (span_upd f t p) (p @ q) = span_at (f s) q"
  by (induction t p rule: span_at.induct) (auto split: if_splits)

lemma Span_Child_found:
  assumes "span_at t p = Some s" and "Span_Child now name t (SpanAt p) = (t1, h)"
  shows "\<exists>q. h = SpanAt q \<and> span_at t1 q = Some (NewSpan now name) \<and> span_at t q = None"
proof -
  let ?q = "p @ [length (sp_children s)]"
  have t1: "t1 = span_upd (add_child (NewSpan now name)) t p" "h = SpanAt ?q" using assms by (simp_all add: Span_Child_def)
  have "span_at t1 ?q = Some (NewSpan now name)"
    unfolding t1(1) span_at_upd [OF assms(1)] by (cases s) (simp add: add_child_def)
  moreover have "span_at t ?q = None"
    using assms(1) by (induction t p rule: span_at.induct) (cases s, auto split: if_splits)
  ultimately show ?thesis using t1(2) by blast
qed

text \<open>The time of a finished span does not grow any more.\<close>

lemma Elapsed_finished:
  assumes "span_at t p = Some s"
  shows "\<exists>s'. span_at (Span_Finish now t (SpanAt p)) p = Some s' \<and> Elapsed later s' = time_Sub now (sp_startAt s)"
  using span_at_upd [OF assms, of "set_end now" "[]"] by (cases s) (simp add: Span_Finish_def set_end_def Elapsed_def)

end
