(* ===== verification/Sdk_Conn.thy ===== *)
theory Sdk_Conn
  imports Sdk_Client
begin

text \<open>
  The life of the connection of a business process to its agent (\<^verbatim>\<open>internal/core/ragent/sdk\<close>): construction,
  \<^verbatim>\<open>Connect\<close> with its handshake, sending, and \<^verbatim>\<open>Close\<close>, which the loops call too when the socket fails.
  Sockets are numbers; what dialing, writing and reading answer is an argument.
\<close>

section \<open>The client\<close>

text \<open>
  \<open>ck_done\<close> is \<open>None\<close> for the nil channel and otherwise tells whether it is closed; \<open>ck_open\<close> are the
  sockets that this client has opened and that are still open.
\<close>

record ClientConn =
  ck_nodeID :: u32
  ck_sock :: string
  ck_conn :: "nat option"
  ck_sendCh :: "outboundFrame list"
  ck_done :: "bool option"
  ck_once :: bool
  ck_open :: "nat set"

definition NewClient :: "u32 \<Rightarrow> string \<Rightarrow> ClientConn" where
  "NewClient nodeID sock =
     \<lparr>ck_nodeID = nodeID, ck_sock = sock, ck_conn = None, ck_sendCh = [], ck_done = None, ck_once = False, ck_open = {}\<rparr>"

text \<open>How an attempt to connect goes: dialing, writing the handshake or reading the answer fails, or a frame is read.\<close>

datatype dial_outcome = DialFails string | WriteFails nat string | AckFails nat string | AckIs nat Frame

definition raw_open :: "nat \<Rightarrow> ClientConn \<Rightarrow> ClientConn" where
  "raw_open k c = c\<lparr>ck_open := insert k (ck_open c)\<rparr>"

definition raw_Close :: "nat \<Rightarrow> ClientConn \<Rightarrow> ClientConn" where
  "raw_Close k c = c\<lparr>ck_open := ck_open c - {k}\<rparr>"

definition Client_Connect :: "dial_outcome \<Rightarrow> ClientConn \<Rightarrow> ClientConn \<times> string option" where
  "Client_Connect net c =
     (if ck_nodeID c = 0 then (c, Some ''ragent node_id is empty'')
      else if ck_sock c = [] then (c, Some ''routeragent sock path is empty'')
      else case net of
        DialFails e \<Rightarrow> (c, Some (''dial routeragent: '' @ e))
      | WriteFails k e \<Rightarrow> (raw_Close k (raw_open k c), Some (''send routeragent handshake: '' @ e))
      | AckFails k e \<Rightarrow> (raw_Close k (raw_open k c), Some (''read routeragent handshake ack: '' @ e))
      | AckIs k ack \<Rightarrow>
          if \<not> ack_accepted ack then (raw_Close k (raw_open k c), Some ''routeragent handshake rejected'')
          else ((raw_open k c)\<lparr>ck_conn := Some k, ck_sendCh := [], ck_done := Some False\<rparr>, None))"

definition Client_Close :: "string option \<Rightarrow> ClientConn \<Rightarrow> ClientConn \<times> string option" where
  "Client_Close closeErr c =
     (if ck_once c then (c, None)
      else case ck_conn c of
        None \<Rightarrow> (c\<lparr>ck_once := True, ck_done := map_option (\<lambda>_. True) (ck_done c)\<rparr>, None)
      | Some k \<Rightarrow> ((raw_Close k c)\<lparr>ck_once := True, ck_done := map_option (\<lambda>_. True) (ck_done c)\<rparr>, closeErr))"

text \<open>\<^verbatim>\<open>send\<close>: \<open>pick_done\<close> is the choice of \<^verbatim>\<open>select\<close> when the client is closed and the queue has room.\<close>

datatype send_result = SendNotConnected | SendEOF | SendQueued | SendBlocks

definition client_send :: "bool \<Rightarrow> outboundFrame \<Rightarrow> ClientConn \<Rightarrow> ClientConn \<times> send_result" where
  "client_send pick_done f c =
     (case ck_done c of
        None \<Rightarrow> (c, SendNotConnected)
      | Some closed \<Rightarrow>
          let room = length (ck_sendCh c) < 4096 in
          if closed \<and> (pick_done \<or> \<not> room) then (c, SendEOF)
          else if room then (c\<lparr>ck_sendCh := ck_sendCh c @ [f]\<rparr>, SendQueued)
          else (c, SendBlocks))"

text \<open>What happens to a connected client: frames are sent and taken for writing, and the loops close it when the socket fails.\<close>

datatype client_event = ClientSends bool outboundFrame | WriterTakes | SocketFails "string option"

fun client_step :: "ClientConn \<Rightarrow> client_event \<Rightarrow> ClientConn" where
  "client_step c (ClientSends p f) = fst (client_send p f c)"
| "client_step c WriterTakes = (if ck_done c \<noteq> None then c\<lparr>ck_sendCh := tl (ck_sendCh c)\<rparr> else c)"
| "client_step c (SocketFails e) = (if ck_conn c = None then c else fst (Client_Close e c))"

section \<open>Sockets are closed\<close>

text \<open>A client that was connected at most once: what is open is its connection, and only until it is closed.\<close>

definition conn_inv :: "ClientConn \<Rightarrow> bool" where
  "conn_inv c \<longleftrightarrow> ck_open c = (if ck_once c then {} else set_option (ck_conn c)) \<and> (ck_done c = None \<longleftrightarrow> ck_conn c = None)"

definition unused :: "ClientConn \<Rightarrow> bool" where
  "unused c \<longleftrightarrow> ck_conn c = None \<and> ck_done c = None \<and> \<not> ck_once c \<and> ck_open c = {}"

lemma unused_NewClient [simp]: "unused (NewClient n s)"
  by (simp add: unused_def NewClient_def)

lemma Connect_inv: "unused c \<Longrightarrow> Client_Connect net c = (c', r) \<Longrightarrow> conn_inv c' \<and> (r \<noteq> None \<longrightarrow> c' = c) \<and> (r = None \<longrightarrow> ck_done c' = Some False)"
  by (auto simp: Client_Connect_def unused_def conn_inv_def raw_open_def raw_Close_def split: dial_outcome.splits if_splits)

lemma Close_inv: "conn_inv c \<Longrightarrow> conn_inv (fst (Client_Close e c)) \<and> ck_open (fst (Client_Close e c)) = {}"
  by (auto simp: Client_Close_def conn_inv_def raw_Close_def split: option.splits)

lemma Close_again [simp]: "Client_Close e' (fst (Client_Close e c)) = (fst (Client_Close e c), None)"
  by (simp add: Client_Close_def split: option.splits)

lemma client_step_inv: "conn_inv c \<Longrightarrow> conn_inv (client_step c ev)"
  by (cases ev) (use Close_inv in \<open>auto simp: client_send_def conn_inv_def Let_def split: option.splits\<close>)

lemma client_run_inv: "conn_inv c \<Longrightarrow> conn_inv (foldl client_step c evs)"
  by (induction evs arbitrary: c) (simp_all add: client_step_inv)

section \<open>Weak points\<close>

text \<open>
  The client never reconnects by itself, and \<^verbatim>\<open>Close\<close> runs under a \<^verbatim>\<open>sync.Once\<close>: after a second \<^verbatim>\<open>Connect\<close> the
  new socket cannot be closed any more.
\<close>

lemma reconnected_stays_open:
  assumes "unused c" and "ck_nodeID c \<noteq> 0" and "ck_sock c \<noteq> []" and "ack_accepted ack"
    and "c1 = fst (Client_Connect (AckIs k ack) c)" and "c2 = fst (Client_Close e c1)" and "c3 = fst (Client_Connect (AckIs k' ack) c2)"
  shows "ck_open (fst (Client_Close e c3)) = {k'} \<and> ck_done (fst (Client_Close e c3)) = Some False"
  using assms by (simp add: Client_Connect_def Client_Close_def unused_def raw_open_def raw_Close_def)

text \<open>
  After the connection is lost \<^verbatim>\<open>send\<close> may still report success: \<^verbatim>\<open>select\<close> may choose the queue although the
  socket behind it is closed.
\<close>

lemma lost_frame_reported_sent:
  assumes "conn_inv c" and "ck_conn c \<noteq> None" and "length (ck_sendCh c) < 4096"
  shows "snd (client_send False f (client_step c (SocketFails e))) = SendQueued \<and> ck_open (client_step c (SocketFails e)) = {}"
  using assms by (auto simp: client_send_def Client_Close_def conn_inv_def raw_Close_def split: option.splits)

end
