(* ===== verification/Session.thy ===== *)
theory Session
  imports Codec
begin

text \<open>
  Player sessions of the gate (\<^verbatim>\<open>internal/core/session\<close>). Sessions are shared by pointer between
  the index by connection, the index by user and the callbacks of open requests, so they live
  in a store of which a pointer is an index; a new session is appended.
\<close>

section \<open>Sessions\<close>

type_synonym sess_ptr = nat

text \<open>A connection as the session manager sees it: its identity and its remote address.\<close>

record Connection =
  cn_ptr :: nat
  cn_RemoteAddr :: string

text \<open>A nil map of bound nodes is \<open>None\<close>.\<close>

record Session =
  ss_ID :: string
  ss_UID :: int
  ss_ConnID :: string
  ss_Conn :: "Connection option"
  ss_Authed :: bool
  ss_BoundNodes :: "(u32 \<rightharpoonup> u32) option"

definition Session_SetBound :: "Session \<Rightarrow> u32 \<Rightarrow> u32 \<Rightarrow> Session" where
  "Session_SetBound s serverType nodeID =
     (let s1 = (if ss_BoundNodes s = None then s\<lparr>ss_BoundNodes := Some Map.empty\<rparr> else s)
      in s1\<lparr>ss_BoundNodes := map_option (\<lambda>b. b(serverType \<mapsto> nodeID)) (ss_BoundNodes s1)\<rparr>)"

definition SetAuthed :: "Session \<Rightarrow> bool \<Rightarrow> Session" where
  "SetAuthed s authed = s\<lparr>ss_Authed := authed\<rparr>"

text \<open>Reading \<^verbatim>\<open>BoundNodes[serverType]\<close>: zero when absent.\<close>

definition bound_node :: "Session \<Rightarrow> u32 \<Rightarrow> u32" where
  "bound_node s serverType =
     (case ss_BoundNodes s of None \<Rightarrow> 0 | Some b \<Rightarrow> (case b serverType of None \<Rightarrow> 0 | Some n \<Rightarrow> n))"

section \<open>The session manager\<close>

record SessionManager =
  sm_seq :: u64
  sm_store :: "Session list"
  sm_byConn :: "string \<rightharpoonup> sess_ptr"
  sm_byUID :: "int \<rightharpoonup> sess_ptr"

definition NewSessionManager :: SessionManager where
  "NewSessionManager = \<lparr>sm_seq = 0, sm_store = [], sm_byConn = Map.empty, sm_byUID = Map.empty\<rparr>"

definition session_id :: "u64 \<Rightarrow> string \<Rightarrow> string" where
  "session_id n addr = dec_nat (unat n) @ CHR ''-'' # addr"

definition OnConnect :: "SessionManager \<Rightarrow> Connection option \<Rightarrow> SessionManager \<times> sess_ptr option" where
  "OnConnect m c =
     (case c of
        None \<Rightarrow> (m, None)
      | Some k \<Rightarrow>
          let seq = sm_seq m + 1; p = length (sm_store m);
              sess = \<lparr>ss_ID = session_id seq (cn_RemoteAddr k), ss_UID = 0, ss_ConnID = cn_RemoteAddr k, ss_Conn = Some k,
                      ss_Authed = False, ss_BoundNodes = Some Map.empty\<rparr>
          in (m\<lparr>sm_seq := seq, sm_store := sm_store m @ [sess], sm_byConn := (sm_byConn m)(ss_ConnID sess \<mapsto> p)\<rparr>, Some p))"

definition OnDisconnect :: "SessionManager \<Rightarrow> Connection option \<Rightarrow> SessionManager" where
  "OnDisconnect m c =
     (case c of
        None \<Rightarrow> m
      | Some k \<Rightarrow>
          (case sm_byConn m (cn_RemoteAddr k) of
             None \<Rightarrow> m
           | Some p \<Rightarrow>
               let sess = sm_store m ! p;
                   m1 = m\<lparr>sm_byConn := (sm_byConn m)(ss_ConnID sess := None)\<rparr>
               in if ss_UID sess \<noteq> 0 then m1\<lparr>sm_byUID := (sm_byUID m1)(ss_UID sess := None)\<rparr> else m1))"

definition OnTimeout :: "SessionManager \<Rightarrow> Connection option \<Rightarrow> SessionManager" where
  "OnTimeout m c = OnDisconnect m c"

text \<open>The session of a connection, created without a connection object when there is none.\<close>

definition session_for :: "SessionManager \<Rightarrow> string \<Rightarrow> int \<Rightarrow> SessionManager \<times> sess_ptr" where
  "session_for m connID uid =
     (case sm_byConn m connID of
        Some p \<Rightarrow> (m, p)
      | None \<Rightarrow>
          let p = length (sm_store m);
              sess = \<lparr>ss_ID = connID, ss_UID = uid, ss_ConnID = connID, ss_Conn = None, ss_Authed = False,
                      ss_BoundNodes = Some Map.empty\<rparr>
          in (m\<lparr>sm_store := sm_store m @ [sess], sm_byConn := (sm_byConn m)(connID \<mapsto> p)\<rparr>, p))"

definition evict_uid :: "SessionManager \<Rightarrow> int \<Rightarrow> sess_ptr \<Rightarrow> SessionManager" where
  "evict_uid m uid p =
     (case sm_byUID m uid of
        None \<Rightarrow> m
      | Some old \<Rightarrow>
          if old \<noteq> p then m\<lparr>sm_store := (sm_store m)[old := (sm_store m ! old)\<lparr>ss_UID := 0, ss_Authed := False\<rparr>]\<rparr> else m)"

definition BindSession :: "SessionManager \<Rightarrow> string \<Rightarrow> int \<Rightarrow> (u32 \<rightharpoonup> u32) \<Rightarrow> SessionManager \<times> sess_ptr" where
  "BindSession m connID uid bound =
     (case session_for m connID uid of
        (m0, p) \<Rightarrow>
          let m1 = evict_uid m0 uid p;
              sess = sm_store m1 ! p;
              m2 = (if ss_UID sess \<noteq> 0 then m1\<lparr>sm_byUID := (sm_byUID m1)(ss_UID sess := None)\<rparr> else m1);
              nodes = (case ss_BoundNodes sess of None \<Rightarrow> Map.empty | Some b \<Rightarrow> b);
              sess1 = sess\<lparr>ss_UID := uid, ss_Authed := True, ss_BoundNodes := Some (nodes ++ bound)\<rparr>;
              m3 = m2\<lparr>sm_store := (sm_store m2)[p := sess1]\<rparr>;
              m4 = (if uid \<noteq> 0 then m3\<lparr>sm_byUID := (sm_byUID m3)(uid \<mapsto> p)\<rparr> else m3)
          in (m4, p))"

definition Manager_SetBound :: "SessionManager \<Rightarrow> int \<Rightarrow> u32 \<Rightarrow> u32 \<Rightarrow> SessionManager" where
  "Manager_SetBound m uid serverType nodeID =
     (case sm_byUID m uid of
        None \<Rightarrow> m
      | Some p \<Rightarrow> m\<lparr>sm_store := (sm_store m)[p := Session_SetBound (sm_store m ! p) serverType nodeID]\<rparr>)"

definition GetByConnID :: "SessionManager \<Rightarrow> string \<Rightarrow> sess_ptr option" where
  "GetByConnID m connID = sm_byConn m connID"

definition GetByUID :: "SessionManager \<Rightarrow> int \<Rightarrow> sess_ptr option" where
  "GetByUID m uid = sm_byUID m uid"

text \<open>
  The operations as events, for histories. \<^verbatim>\<open>Session.SetAuthed\<close> is not among them: no server calls
  it, and a caller that cleared the flag of a logged-in session would leave that session in the
  index by user.
\<close>

datatype session_op =
    Connects Connection
  | Disconnects Connection
  | Binds string int "u32 \<rightharpoonup> u32"
  | BindsNode int u32 u32

fun session_step :: "SessionManager \<Rightarrow> session_op \<Rightarrow> SessionManager" where
  "session_step m (Connects c) = fst (OnConnect m (Some c))"
| "session_step m (Disconnects c) = OnDisconnect m (Some c)"
| "session_step m (Binds connID uid bound) = fst (BindSession m connID uid bound)"
| "session_step m (BindsNode uid st n) = Manager_SetBound m uid st n"

section \<open>The two indexes\<close>

text \<open>
  Both indexes point to existing sessions that carry the key they are found under, and every
  session found by its connection and logged in is found by its user.
\<close>

definition sessions_ok :: "SessionManager \<Rightarrow> bool" where
  "sessions_ok m \<longleftrightarrow>
     (\<forall>k p. sm_byConn m k = Some p \<longrightarrow> p < length (sm_store m) \<and> ss_ConnID (sm_store m ! p) = k) \<and>
     (\<forall>u p. sm_byUID m u = Some p \<longrightarrow> p < length (sm_store m) \<and> u \<noteq> 0 \<and> ss_UID (sm_store m ! p) = u \<and> ss_Authed (sm_store m ! p)) \<and>
     (\<forall>k p. sm_byConn m k = Some p \<longrightarrow> ss_UID (sm_store m ! p) \<noteq> 0 \<longrightarrow> sm_byUID m (ss_UID (sm_store m ! p)) = Some p)"

lemma sessions_okD:
  assumes "sessions_ok m"
  shows "sm_byConn m k = Some p \<Longrightarrow> p < length (sm_store m)"
    and "sm_byConn m k = Some p \<Longrightarrow> ss_ConnID (sm_store m ! p) = k"
    and "sm_byUID m u = Some p \<Longrightarrow> p < length (sm_store m)"
    and "sm_byUID m u = Some p \<Longrightarrow> u \<noteq> 0"
    and "sm_byUID m u = Some p \<Longrightarrow> ss_UID (sm_store m ! p) = u"
    and "sm_byUID m u = Some p \<Longrightarrow> ss_Authed (sm_store m ! p)"
    and "sm_byConn m k = Some p \<Longrightarrow> ss_UID (sm_store m ! p) \<noteq> 0 \<Longrightarrow> sm_byUID m (ss_UID (sm_store m ! p)) = Some p"
  using assms unfolding sessions_ok_def by blast+

lemma sessions_ok_New: "sessions_ok NewSessionManager"
  by (simp add: sessions_ok_def NewSessionManager_def)

lemma sessions_ok_OnConnect: "sessions_ok m \<Longrightarrow> sessions_ok (fst (OnConnect m (Some c)))"
  unfolding sessions_ok_def OnConnect_def
  by (auto simp: Let_def nth_append less_SucI)

lemma sessions_ok_OnDisconnect: 
  assumes ok: "sessions_ok m" shows "sessions_ok (OnDisconnect m (Some c))"
proof (cases "sm_byConn m (cn_RemoteAddr c)")
  case (Some p)
  note d = sessions_okD [OF ok]
  have k: "ss_ConnID (sm_store m ! p) = cn_RemoteAddr c" using d(2) [OF Some] .
  have other: "q \<noteq> p" if "sm_byConn m k' = Some q" "k' \<noteq> cn_RemoteAddr c" for k' q
    using d(2) [OF that(1)] k that(2) by auto
  have uids: "ss_UID (sm_store m ! q) \<noteq> ss_UID (sm_store m ! p)"
    if "sm_byConn m k' = Some q" "k' \<noteq> cn_RemoteAddr c" "ss_UID (sm_store m ! p) \<noteq> 0" for k' q
    using d(7) [OF Some that(3)] d(7) [OF that(1)] other [OF that(1,2)] that(3) by auto
  show ?thesis
    using ok Some k uids unfolding sessions_ok_def OnDisconnect_def by (auto simp: Let_def)
qed (use ok in \<open>simp add: OnDisconnect_def\<close>)

text \<open>
  Before the user index is changed, the session to bind is the only one that may miss in it,
  and only because it carries the user it is about to be bound to.
\<close>

definition sessions_but :: "SessionManager \<Rightarrow> sess_ptr \<Rightarrow> int \<Rightarrow> bool" where
  "sessions_but m p uid \<longleftrightarrow>
     (\<forall>k q. sm_byConn m k = Some q \<longrightarrow> q < length (sm_store m) \<and> ss_ConnID (sm_store m ! q) = k) \<and>
     (\<forall>u q. sm_byUID m u = Some q \<longrightarrow> q < length (sm_store m) \<and> u \<noteq> 0 \<and> ss_UID (sm_store m ! q) = u \<and> ss_Authed (sm_store m ! q)) \<and>
     (\<forall>k q. sm_byConn m k = Some q \<longrightarrow> ss_UID (sm_store m ! q) \<noteq> 0 \<longrightarrow>
        sm_byUID m (ss_UID (sm_store m ! q)) = Some q \<or> q = p \<and> ss_UID (sm_store m ! q) = uid)"

lemma session_for_but:
  assumes "sessions_ok m" and "session_for m connID uid = (m0, p)"
  shows "sessions_but m0 p uid" and "sm_byConn m0 connID = Some p"
  using assms unfolding sessions_ok_def sessions_but_def session_for_def
  by (auto simp: Let_def nth_append less_SucI split: option.splits if_splits) blast

lemma session_for_store:
  assumes "session_for m connID uid = (m0, p)"
  shows "q < length (sm_store m) \<Longrightarrow> sm_store m0 ! q = sm_store m ! q" and "sm_byUID m0 = sm_byUID m"
    and "length (sm_store m) \<le> length (sm_store m0)" and "sm_seq m0 = sm_seq m"
    and "k \<noteq> connID \<Longrightarrow> sm_byConn m0 k = sm_byConn m k"
  using assms by (auto simp: session_for_def Let_def nth_append split: option.splits)

text \<open>The result of binding, in terms of the session that is bound.\<close>

lemma BindSession_result:
  fixes bound :: "u32 \<rightharpoonup> u32"
  assumes but: "sessions_but m0 p uid" and p: "sm_byConn m0 connID = Some p"
    and sf: "session_for m connID uid = (m0, p)"
  defines "sess \<equiv> sm_store m0 ! p"
  defines "nodes \<equiv> (case ss_BoundNodes sess of None \<Rightarrow> Map.empty | Some b \<Rightarrow> b)"
  defines "m' \<equiv> fst (BindSession m connID uid bound)"
  shows "snd (BindSession m connID uid bound) = p" and "sm_byConn m' = sm_byConn m0"
    and "length (sm_store m') = length (sm_store m0)"
    and "sm_store m' ! q = (if q = p then sess\<lparr>ss_UID := uid, ss_Authed := True, ss_BoundNodes := Some (nodes ++ bound)\<rparr>
           else if sm_byUID m0 uid = Some q then (sm_store m0 ! q)\<lparr>ss_UID := 0, ss_Authed := False\<rparr> else sm_store m0 ! q)"
    and "sm_byUID m' u = (if u = uid \<and> uid \<noteq> 0 then Some p else if u = ss_UID sess \<and> u \<noteq> 0 then None else sm_byUID m0 u)"
    and "sm_seq m' = sm_seq m0"
proof -
  define m1 where "m1 = evict_uid m0 uid p"
  have pl: "p < length (sm_store m0)" using but p by (simp add: sessions_but_def)
  have old: "old < length (sm_store m0)" if "sm_byUID m0 uid = Some old" for old
    using but that by (simp add: sessions_but_def)
  have ev: "sm_byConn m1 = sm_byConn m0" "sm_byUID m1 = sm_byUID m0" "length (sm_store m1) = length (sm_store m0)"
    "sm_store m1 ! p = sess" "sm_seq m1 = sm_seq m0"
    "q \<noteq> p \<Longrightarrow> sm_store m1 ! q = (if sm_byUID m0 uid = Some q then (sm_store m0 ! q)\<lparr>ss_UID := 0, ss_Authed := False\<rparr> else sm_store m0 ! q)"
    using old by (auto simp: m1_def evict_uid_def sess_def nth_list_update split: option.splits)
  define m3 where "m3 = (if ss_UID sess \<noteq> 0 then m1\<lparr>sm_byUID := (sm_byUID m1)(ss_UID sess := None)\<rparr> else m1)
    \<lparr>sm_store := (sm_store m1)[p := sess\<lparr>ss_UID := uid, ss_Authed := True, ss_BoundNodes := Some (nodes ++ bound)\<rparr>]\<rparr>"
  have b: "BindSession m connID uid bound = (if uid \<noteq> 0 then m3\<lparr>sm_byUID := (sm_byUID m3)(uid \<mapsto> p)\<rparr> else m3, p)"
    unfolding BindSession_def sf prod.case Let_def m1_def [symmetric] by (auto simp: ev m3_def nodes_def)
  have m3: "sm_byConn m3 = sm_byConn m0" "length (sm_store m3) = length (sm_store m0)" "sm_seq m3 = sm_seq m0"
    "sm_byUID m3 = (if ss_UID sess \<noteq> 0 then (sm_byUID m0)(ss_UID sess := None) else sm_byUID m0)"
    "sm_store m3 = (sm_store m1)[p := sess\<lparr>ss_UID := uid, ss_Authed := True, ss_BoundNodes := Some (nodes ++ bound)\<rparr>]"
    by (simp_all add: m3_def ev)
  show "snd (BindSession m connID uid bound) = p" "sm_byConn m' = sm_byConn m0"
    "length (sm_store m') = length (sm_store m0)" "sm_seq m' = sm_seq m0"
    by (simp_all add: m'_def b m3 ev(3))
  show "sm_store m' ! q = (if q = p then sess\<lparr>ss_UID := uid, ss_Authed := True, ss_BoundNodes := Some (nodes ++ bound)\<rparr>
           else if sm_byUID m0 uid = Some q then (sm_store m0 ! q)\<lparr>ss_UID := 0, ss_Authed := False\<rparr> else sm_store m0 ! q)"
    using pl ev(3,6) by (simp add: m'_def b m3 nth_list_update)
  show "sm_byUID m' u = (if u = uid \<and> uid \<noteq> 0 then Some p else if u = ss_UID sess \<and> u \<noteq> 0 then None else sm_byUID m0 u)"
    by (simp add: m'_def b m3)
qed

lemma sessions_ok_BindSession:
  assumes ok: "sessions_ok m" shows "sessions_ok (fst (BindSession m connID uid bound))"
proof -
  obtain m0 p where sf: "session_for m connID uid = (m0, p)" by fastforce
  note but = session_for_but [OF ok sf]
  note r = BindSession_result [OF but sf, where bound = bound]
  let ?m' = "fst (BindSession m connID uid bound)"
  have 1: "k = connID" if "sm_byConn m0 k = Some p" for k
    using but that unfolding sessions_but_def by metis
  show ?thesis
    unfolding sessions_ok_def
  proof (intro conjI allI impI)
    fix k q assume q: "sm_byConn ?m' k = Some q"
    then have q0: "sm_byConn m0 k = Some q" by (simp add: r)
    then show "q < length (sm_store ?m')" "ss_ConnID (sm_store ?m' ! q) = k"
      using but(1) by (auto simp: r sessions_but_def)
    assume nz: "ss_UID (sm_store ?m' ! q) \<noteq> 0"
    show "sm_byUID ?m' (ss_UID (sm_store ?m' ! q)) = Some q"
    proof (cases "q = p")
      case True
      with nz show ?thesis by (simp add: r)
    next
      case False
      with nz have u: "sm_byUID m0 uid \<noteq> Some q" "ss_UID (sm_store m0 ! q) \<noteq> 0" by (auto simp: r split: if_splits)
      with but(1) q0 False have b: "sm_byUID m0 (ss_UID (sm_store m0 ! q)) = Some q" by (auto simp: sessions_but_def)
      with u have "ss_UID (sm_store m0 ! q) \<noteq> uid" by auto
      moreover have "ss_UID (sm_store m0 ! q) \<noteq> ss_UID (sm_store m0 ! p)"
        using but b False u(2) calculation unfolding sessions_but_def by (metis option.inject)
      ultimately show ?thesis using b False u(1) by (simp add: r)
    qed
  next
    fix u q assume q: "sm_byUID ?m' u = Some q"
    have pl: "p < length (sm_store m0)" using but by (simp add: sessions_but_def)
    have "q < length (sm_store ?m') \<and> u \<noteq> 0 \<and> ss_UID (sm_store ?m' ! q) = u \<and> ss_Authed (sm_store ?m' ! q)"
    proof (cases "u = uid \<and> uid \<noteq> 0")
      case True
      with q pl show ?thesis
        by (simp add: r)
    next
      case False
      with q have b: "sm_byUID m0 u = Some q" and n: "\<not> (u = ss_UID (sm_store m0 ! p) \<and> u \<noteq> 0)" by (auto simp: r split: if_splits)
      from b but(1) have u: "q < length (sm_store m0)" "u \<noteq> 0" "ss_UID (sm_store m0 ! q) = u" "ss_Authed (sm_store m0 ! q)"
        by (simp_all add: sessions_but_def)
      have "sm_byUID m0 uid \<noteq> Some q" using False u but(1) by (auto simp: sessions_but_def)
      with u n show ?thesis by (auto simp: r)
    qed
    then show "q < length (sm_store ?m')" "u \<noteq> 0" "ss_UID (sm_store ?m' ! q) = u" "ss_Authed (sm_store ?m' ! q)"
      by simp_all
  qed
qed

lemma sessions_ok_SetBound:
  assumes ok: "sessions_ok m" shows "sessions_ok (Manager_SetBound m uid st n)"
proof (cases "sm_byUID m uid")
  case (Some p)
  have "ss_UID (Session_SetBound s st n) = ss_UID s" "ss_Authed (Session_SetBound s st n) = ss_Authed s"
    "ss_ConnID (Session_SetBound s st n) = ss_ConnID s" for s by (simp_all add: Session_SetBound_def Let_def)
  then show ?thesis
    using ok Some sessions_okD(3) [OF ok Some]
    unfolding sessions_ok_def Manager_SetBound_def by (auto simp: nth_list_update)
qed (use ok in \<open>simp add: Manager_SetBound_def\<close>)

lemma sessions_ok_step: "sessions_ok m \<Longrightarrow> sessions_ok (session_step m ev)"
  by (cases ev) (simp_all add: sessions_ok_OnConnect sessions_ok_OnDisconnect sessions_ok_BindSession sessions_ok_SetBound)

lemma sessions_ok_history: "sessions_ok (foldl session_step NewSessionManager evs)"
  by (induction evs rule: rev_induct) (simp_all add: sessions_ok_New sessions_ok_step)

text \<open>
  A connect reuses an address when the index still holds a session under it: the earlier session
  is then no longer found by its connection. A history in which that does not happen keeps every
  session of the index by user in the index by connection.
\<close>

fun fresh_connect :: "SessionManager \<Rightarrow> session_op \<Rightarrow> bool" where
  "fresh_connect m (Connects c) \<longleftrightarrow> GetByConnID m (cn_RemoteAddr c) = None"
| "fresh_connect m ev \<longleftrightarrow> True"

fun no_address_reused :: "SessionManager \<Rightarrow> session_op list \<Rightarrow> bool" where
  "no_address_reused m [] \<longleftrightarrow> True"
| "no_address_reused m (ev # evs) \<longleftrightarrow> fresh_connect m ev \<and> no_address_reused (session_step m ev) evs"

definition users_linked :: "SessionManager \<Rightarrow> bool" where
  "users_linked m \<longleftrightarrow> (\<forall>u p. sm_byUID m u = Some p \<longrightarrow> sm_byConn m (ss_ConnID (sm_store m ! p)) = Some p)"

lemma users_linked_OnConnect:
  assumes "sessions_ok m" and "users_linked m" and "fresh_connect m (Connects c)"
  shows "users_linked (fst (OnConnect m (Some c)))"
  using assms unfolding users_linked_def sessions_ok_def
  by (auto simp: OnConnect_def GetByConnID_def Let_def nth_append) (metis option.distinct(1))

lemma users_linked_OnDisconnect:
  assumes ok: "sessions_ok m" and linked: "users_linked m"
  shows "users_linked (OnDisconnect m (Some c))"
proof (cases "sm_byConn m (cn_RemoteAddr c)")
  case (Some p)
  note d = sessions_okD [OF ok]
  have "q \<noteq> p \<or> u = ss_UID (sm_store m ! p)" "u \<noteq> 0" "sm_byConn m (ss_ConnID (sm_store m ! q)) = Some q"
    if "sm_byUID m u = Some q" for u q
    using d(4,5) [OF that] linked that by (auto simp: users_linked_def)
  with Some d(2) [OF Some] show ?thesis
    unfolding users_linked_def by (auto simp: OnDisconnect_def Let_def) (metis option.inject)+
qed (use linked in \<open>simp add: OnDisconnect_def\<close>)

lemma users_linked_BindSession:
  assumes ok: "sessions_ok m" and linked: "users_linked m"
  shows "users_linked (fst (BindSession m connID uid bound))"
proof -
  obtain m0 p where sf: "session_for m connID uid = (m0, p)" by fastforce
  note but = session_for_but [OF ok sf]
  note res = BindSession_result [OF but sf, where bound = bound] and st = session_for_store [OF sf]
  have conn: "ss_ConnID (sm_store (fst (BindSession m connID uid bound)) ! q) = ss_ConnID (sm_store m0 ! q)" for q
    by (simp add: res)
  have p: "ss_ConnID (sm_store m0 ! p) = connID" using but by (simp add: sessions_but_def)
  have old: "sm_byConn m0 (ss_ConnID (sm_store m0 ! q)) = Some q" if u: "sm_byUID m0 u = Some q" for u q
  proof -
    have u': "sm_byUID m u = Some q" using u by (simp add: st(2))
    have q: "sm_byConn m (ss_ConnID (sm_store m ! q)) = Some q" using linked u' by (simp add: users_linked_def)
    have "sm_byConn m0 k = Some q" if "sm_byConn m k = Some q" for k
      using sf that by (auto simp: session_for_def Let_def split: option.splits)
    with q st(1) [OF sessions_okD(3) [OF ok u']] show ?thesis by simp
  qed
  show ?thesis
    unfolding users_linked_def conn using old p but(2) by (auto simp: res split: if_splits)
qed

lemma users_linked_SetBound:
  assumes ok: "sessions_ok m" and linked: "users_linked m" shows "users_linked (Manager_SetBound m uid st n)"
proof (cases "sm_byUID m uid")
  case (Some p)
  have "ss_ConnID (Session_SetBound s st n) = ss_ConnID s" for s by (simp add: Session_SetBound_def Let_def)
  then show ?thesis
    using linked Some sessions_okD(3) [OF ok Some]
    unfolding users_linked_def Manager_SetBound_def by (auto simp: nth_list_update)
qed (use linked in \<open>simp add: Manager_SetBound_def\<close>)

lemma users_linked_step:
  "\<lbrakk>sessions_ok m; users_linked m; fresh_connect m ev\<rbrakk> \<Longrightarrow> users_linked (session_step m ev)"
  by (cases ev) (simp_all add: users_linked_OnConnect users_linked_OnDisconnect users_linked_BindSession users_linked_SetBound
      del: fresh_connect.simps(1))

lemma users_linked_history:
  "\<lbrakk>sessions_ok m; users_linked m; no_address_reused m evs\<rbrakk> \<Longrightarrow> users_linked (foldl session_step m evs)"
  by (induction evs arbitrary: m) (simp_all add: users_linked_step sessions_ok_step)

lemma users_linked_New: "users_linked NewSessionManager"
  by (simp add: users_linked_def NewSessionManager_def)

text \<open>C38: After every history of connects, disconnects, logins and node bindings a session found
  by a user carries that user and is authenticated, a logged-in session found by its connection
  is the one found by its user, and two connections are never logged in as the same user. The
  session of a user is also the one found by its connection, provided that no client connected
  from an address that was still in the index (with such a reuse it need not be, see the lemma
  \<open>reused_address_loses_session\<close>).\<close>

theorem sessions_consistent:
  assumes "m = foldl session_step NewSessionManager evs"
  shows "(GetByUID m u = Some p \<longrightarrow> u \<noteq> 0 \<and> ss_UID (sm_store m ! p) = u \<and> ss_Authed (sm_store m ! p))
    \<and> (GetByConnID m k = Some q \<and> ss_UID (sm_store m ! q) \<noteq> 0 \<longrightarrow> GetByUID m (ss_UID (sm_store m ! q)) = Some q)
    \<and> (GetByConnID m k = Some q \<and> GetByConnID m k' = Some q' \<and> ss_UID (sm_store m ! q) = ss_UID (sm_store m ! q')
        \<and> ss_UID (sm_store m ! q) \<noteq> 0 \<longrightarrow> k = k')
    \<and> (no_address_reused NewSessionManager evs \<and> GetByUID m u = Some p \<longrightarrow> GetByConnID m (ss_ConnID (sm_store m ! p)) = Some p)"
proof -
  have ok: "sessions_ok m" using sessions_ok_history assms by simp
  note d = sessions_okD [OF ok]
  have "k = k'" if "sm_byConn m k = Some q" "sm_byConn m k' = Some q'" "ss_UID (sm_store m ! q) = ss_UID (sm_store m ! q')"
    "ss_UID (sm_store m ! q) \<noteq> 0"
  proof -
    have "sm_byUID m (ss_UID (sm_store m ! q)) = Some q'" unfolding that(3) by (rule d(7) [OF that(2)]) (use that(3,4) in simp)
    with d(7) [OF that(1,4)] have "q = q'" by simp
    with d(2) [OF that(1)] d(2) [OF that(2)] show ?thesis by simp
  qed
  moreover have "sm_byConn m (ss_ConnID (sm_store m ! p)) = Some p"
    if "no_address_reused NewSessionManager evs" "sm_byUID m u = Some p"
    using users_linked_history [OF sessions_ok_New users_linked_New that(1)] that(2) assms by (simp add: users_linked_def)
  ultimately show ?thesis using d(4) [of u p] d(5) [of u p] d(6) [of u p] d(7) [of k q] unfolding GetByUID_def GetByConnID_def by blast
qed

text \<open>A login takes the user over. Binding a connection to a non-zero user makes its session
  the authenticated one of that user, with the given nodes bound on top of the earlier ones;
  the session that held the user before, if another, loses both the user and its
  authentication; other users that were not on this session are not touched.\<close>

theorem login_takes_over:
  assumes "m = foldl session_step NewSessionManager evs" and "uid \<noteq> 0"
    and "BindSession m connID uid bound = (m', p)"
  shows "GetByUID m' uid = Some p \<and> GetByConnID m' connID = Some p
    \<and> ss_UID (sm_store m' ! p) = uid \<and> ss_Authed (sm_store m' ! p)
    \<and> bound_node (sm_store m' ! p) st =
        (case bound st of Some n \<Rightarrow> n | None \<Rightarrow> if GetByConnID m connID = None then 0 else bound_node (sm_store m ! p) st)
    \<and> (GetByUID m uid = Some q \<and> q \<noteq> p \<longrightarrow> ss_UID (sm_store m' ! q) = 0 \<and> \<not> ss_Authed (sm_store m' ! q))
    \<and> (GetByUID m u = Some r \<and> u \<noteq> uid \<and> r \<noteq> p \<longrightarrow> GetByUID m' u = Some r \<and> sm_store m' ! r = sm_store m ! r)"
proof -
  have ok: "sessions_ok m" using sessions_ok_history assms(1) by simp
  obtain m0 p0 where sf: "session_for m connID uid = (m0, p0)" by fastforce
  note but = session_for_but [OF ok sf]
  note res = BindSession_result [OF but sf, where bound = bound]
  have p: "p0 = p" and m': "m' = fst (BindSession m connID uid bound)" using res(1) assms(3) by simp_all
  note st = session_for_store [OF sf]
  have nodes: "bound_node (sm_store m' ! p) st =
      (case bound st of Some n \<Rightarrow> n | None \<Rightarrow> if GetByConnID m connID = None then 0 else bound_node (sm_store m ! p) st)"
  proof -
    have "bound_node (sm_store m' ! p) st = (case bound st of Some n \<Rightarrow> n | None \<Rightarrow> bound_node (sm_store m0 ! p) st)"
      by (simp add: m' res(4) p bound_node_def map_add_def split: option.splits)
    moreover have "bound_node (sm_store m0 ! p) st = (if GetByConnID m connID = None then 0 else bound_node (sm_store m ! p) st)"
      using sf p by (cases "sm_byConn m connID") (auto simp: session_for_def GetByConnID_def Let_def bound_node_def)
    ultimately show ?thesis by (simp only:)
  qed
  have other: "GetByUID m' u = Some r \<and> sm_store m' ! r = sm_store m ! r" if "GetByUID m u = Some r" "u \<noteq> uid" "r \<noteq> p"
  proof -
    note d = sessions_okD(3-7) [OF ok]
    have r: "sm_byUID m u = Some r" using that(1) by (simp add: GetByUID_def)
    have "sm_byUID m uid \<noteq> Some r" using d(3) [OF r] d(3) [of uid r] that(2) by auto
    moreover have "u \<noteq> ss_UID (sm_store m0 ! p)"
    proof
      assume u: "u = ss_UID (sm_store m0 ! p)"
      with but d(2) [OF r] have "sm_byUID m0 u = Some p \<or> u = uid" by (auto simp: sessions_but_def p)
      with r that(2,3) show False by (simp add: st(2))
    qed
    ultimately show ?thesis using that(2,3) r st(1) [OF d(1) [OF r]] by (simp add: m' res p GetByUID_def st(2))
  qed
  show ?thesis
    using nodes other assms(2) but(2) by (auto simp: m' res p GetByUID_def GetByConnID_def st(2))
qed

section \<open>Session identifiers\<close>

text \<open>
  The identifier of a connected session is unique as long as the counter has not wrapped, so a
  callback that compares identifiers recognises the very session it was created for.
\<close>

definition ids_ok :: "SessionManager \<Rightarrow> bool" where
  "ids_ok m \<longleftrightarrow>
     (\<forall>p < length (sm_store m). case ss_Conn (sm_store m ! p) of
        None \<Rightarrow> ss_ID (sm_store m ! p) = ss_ConnID (sm_store m ! p)
      | Some c \<Rightarrow> (\<exists>n. unat n \<le> unat (sm_seq m) \<and> ss_ID (sm_store m ! p) = session_id n (ss_ConnID (sm_store m ! p)))) \<and>
     (\<forall>p < length (sm_store m). \<forall>q < length (sm_store m). ss_Conn (sm_store m ! p) \<noteq> None \<longrightarrow> ss_Conn (sm_store m ! q) \<noteq> None
        \<longrightarrow> ss_ID (sm_store m ! p) = ss_ID (sm_store m ! q) \<longrightarrow> p = q)"

lemma session_id_inj: "session_id m a = session_id n b \<longleftrightarrow> m = n \<and> a = b"
proof
  assume eq: "session_id m a = session_id n b"
  have "split_on CHR ''-'' (session_id k c) = dec_nat (unat k) # split_on CHR ''-'' c" for k c
    unfolding session_id_def by (rule split_on_sep) (use dec_nat_clean in auto)
  with eq have "dec_nat (unat m) = dec_nat (unat n)" by (metis list.inject)
  then have "unat m = unat n" by (rule dec_nat_inj)
  with eq show "m = n \<and> a = b" by (simp add: session_id_def word_unat_eq_iff)
qed simp

lemma ids_ok_New: "ids_ok NewSessionManager"
  by (simp add: ids_ok_def NewSessionManager_def)

lemma ids_ok_OnConnect:
  assumes ok: "ids_ok m" and room: "unat (sm_seq m) < 2 ^ 64 - 1"
  shows "ids_ok (fst (OnConnect m (Some c)))"
proof -
  have suc: "unat (sm_seq m + 1) = Suc (unat (sm_seq m))" using room by (simp add: unat_word_ariths)
  have fresh: "ss_ID (sm_store m ! p) \<noteq> session_id (sm_seq m + 1) a" if "p < length (sm_store m)" "ss_Conn (sm_store m ! p) \<noteq> None" for p a
  proof
    assume eq: "ss_ID (sm_store m ! p) = session_id (sm_seq m + 1) a"
    from ok that obtain n where "unat n \<le> unat (sm_seq m)" "ss_ID (sm_store m ! p) = session_id n (ss_ConnID (sm_store m ! p))"
      by (auto simp: ids_ok_def split: option.splits)
    with eq suc show False by (auto simp: session_id_inj)
  qed
  have old: "case ss_Conn (sm_store m ! p) of
        None \<Rightarrow> ss_ID (sm_store m ! p) = ss_ConnID (sm_store m ! p)
      | Some c \<Rightarrow> (\<exists>n. unat n \<le> Suc (unat (sm_seq m)) \<and> ss_ID (sm_store m ! p) = session_id n (ss_ConnID (sm_store m ! p)))"
    if "p < length (sm_store m)" for p
  proof (cases "ss_Conn (sm_store m ! p)")
    case (Some c)
    with ok that obtain n where "unat n \<le> unat (sm_seq m)" "ss_ID (sm_store m ! p) = session_id n (ss_ConnID (sm_store m ! p))"
      by (auto simp: ids_ok_def split: option.splits)
    with Some show ?thesis by (auto intro!: exI [of _ n])
  qed (use ok that in \<open>auto simp: ids_ok_def split: option.splits\<close>)
  let ?m' = "fst (OnConnect m (Some c))" and ?n = "length (sm_store m)"
  have m': "length (sm_store ?m') = Suc ?n" "p < ?n \<Longrightarrow> sm_store ?m' ! p = sm_store m ! p" "sm_seq ?m' = sm_seq m + 1"
    "ss_ID (sm_store ?m' ! ?n) = session_id (sm_seq m + 1) (cn_RemoteAddr c)"
    "ss_ConnID (sm_store ?m' ! ?n) = cn_RemoteAddr c" "ss_Conn (sm_store ?m' ! ?n) = Some c" for p
    by (simp_all add: OnConnect_def Let_def nth_append)
  show ?thesis
    unfolding ids_ok_def
  proof (intro conjI allI impI)
    fix p assume "p < length (sm_store ?m')"
    then consider "p < ?n" | "p = ?n" using m'(1) by linarith
    then show "case ss_Conn (sm_store ?m' ! p) of
        None \<Rightarrow> ss_ID (sm_store ?m' ! p) = ss_ConnID (sm_store ?m' ! p)
      | Some c \<Rightarrow> (\<exists>n. unat n \<le> unat (sm_seq ?m') \<and> ss_ID (sm_store ?m' ! p) = session_id n (ss_ConnID (sm_store ?m' ! p)))"
    proof cases
      case 1
      from old [OF 1] show ?thesis by (simp only: m'(2) [OF 1] m'(3) suc)
    next
      case 2
      then show ?thesis by (auto simp: m'(3-6) suc intro!: exI [of _ "sm_seq m + 1"])
    qed
  next
    fix p q assume "p < length (sm_store ?m')" "q < length (sm_store ?m')" and c: "ss_Conn (sm_store ?m' ! p) \<noteq> None"
      "ss_Conn (sm_store ?m' ! q) \<noteq> None" "ss_ID (sm_store ?m' ! p) = ss_ID (sm_store ?m' ! q)"
    then consider "p < ?n" "q < ?n" | "p = ?n" "q < ?n" | "p < ?n" "q = ?n" | "p = ?n" "q = ?n" using m'(1) by linarith
    then show "p = q"
    proof cases
      case 1
      with c ok show ?thesis by (simp add: ids_ok_def m'(2))
    next
      case 2
      with c fresh [of q] show ?thesis by (simp add: m'(2,4) eq_commute [of "session_id _ _"])
    next
      case 3
      with c fresh [of p] show ?thesis by (simp add: m'(2,4))
    qed simp
  qed
qed

text \<open>The other operations change neither the number, the connection nor the identifier of a session.\<close>

lemma ids_ok_same:
  assumes "ids_ok m" and "sm_seq m' = sm_seq m"
    and "length (sm_store m) \<le> length (sm_store m')"
    and "\<forall>p < length (sm_store m). ss_ID (sm_store m' ! p) = ss_ID (sm_store m ! p)
      \<and> ss_Conn (sm_store m' ! p) = ss_Conn (sm_store m ! p) \<and> ss_ConnID (sm_store m' ! p) = ss_ConnID (sm_store m ! p)"
    and "\<forall>p < length (sm_store m'). length (sm_store m) \<le> p \<longrightarrow> ss_Conn (sm_store m' ! p) = None
      \<and> ss_ID (sm_store m' ! p) = ss_ConnID (sm_store m' ! p)"
  shows "ids_ok m'"
  unfolding ids_ok_def
proof (intro conjI allI impI)
  fix p assume "p < length (sm_store m')"
  then show "case ss_Conn (sm_store m' ! p) of
        None \<Rightarrow> ss_ID (sm_store m' ! p) = ss_ConnID (sm_store m' ! p)
      | Some c \<Rightarrow> (\<exists>n. unat n \<le> unat (sm_seq m') \<and> ss_ID (sm_store m' ! p) = session_id n (ss_ConnID (sm_store m' ! p)))"
    using assms by (cases "p < length (sm_store m)") (auto simp: ids_ok_def split: option.splits)
next
  fix p q assume pq: "p < length (sm_store m')" "q < length (sm_store m')"
    "ss_Conn (sm_store m' ! p) \<noteq> None" "ss_Conn (sm_store m' ! q) \<noteq> None" "ss_ID (sm_store m' ! p) = ss_ID (sm_store m' ! q)"
  then have "p < length (sm_store m)" "q < length (sm_store m)" using assms(5) by (meson not_le)+
  with pq assms(1,4) show "p = q" by (simp add: ids_ok_def)
qed

lemma ids_ok_step:
  assumes ids: "ids_ok m" and ok: "sessions_ok m" and room: "unat (sm_seq m) < 2 ^ 64 - 1"
  shows "ids_ok (session_step m ev)"
proof (cases ev)
  case (Disconnects c)
  have "sm_store (OnDisconnect m (Some c)) = sm_store m" "sm_seq (OnDisconnect m (Some c)) = sm_seq m"
    by (auto simp: OnDisconnect_def Let_def split: option.splits)
  with ids ids_ok_same [of m "OnDisconnect m (Some c)"] Disconnects show ?thesis by simp
next
  case (Binds connID uid bound)
  obtain m0 p where sf: "session_for m connID uid = (m0, p)" by fastforce
  note r = BindSession_result [OF session_for_but [OF ok sf] sf, where bound = bound]
  have "ids_ok m0" by (rule ids_ok_same [OF ids])
    (use sf in \<open>auto simp: session_for_def Let_def nth_append less_Suc_eq split: option.splits\<close>)
  then have "ids_ok (fst (BindSession m connID uid bound))" by (rule ids_ok_same) (auto simp: r)
  with Binds show ?thesis by simp
next
  case (BindsNode uid st n)
  have "ids_ok (Manager_SetBound m uid st n)"
    by (rule ids_ok_same [OF ids])
      (use sessions_okD(3) [OF ok, of uid] in
        \<open>auto simp: Manager_SetBound_def Session_SetBound_def Let_def nth_list_update split: option.splits\<close>)
  with BindsNode show ?thesis by simp
qed (use ids_ok_OnConnect [OF ids room] in simp)

lemma session_step_seq: "unat (sm_seq (session_step m ev)) \<le> Suc (unat (sm_seq m))"
proof (cases ev)
  case (Binds connID uid bound)
  obtain m0 p where "session_for m connID uid = (m0, p)" by fastforce
  then show ?thesis
    by (auto simp: Binds BindSession_def session_for_def evict_uid_def Let_def split: option.splits)
qed (auto simp: OnConnect_def OnDisconnect_def Manager_SetBound_def Let_def unat_word_ariths mod_less_eq_dividend split: option.splits)

lemma ids_ok_history:
  assumes "length evs < 2 ^ 64"
  shows "ids_ok (foldl session_step NewSessionManager evs)
    \<and> unat (sm_seq (foldl session_step NewSessionManager evs)) \<le> length evs"
  using assms
proof (induction evs rule: rev_induct)
  case (snoc ev evs)
  let ?m = "foldl session_step NewSessionManager evs"
  have l: "length evs + 1 < 2 ^ 64" using snoc.prems by (simp only: length_append list.size)
  then have "length evs < 2 ^ 64" by linarith
  with snoc.IH have ih: "ids_ok ?m" "unat (sm_seq ?m) \<le> length evs" by blast+
  from l ih(2) have "unat (sm_seq ?m) < 2 ^ 64 - 1" by linarith
  from ids_ok_step [OF ih(1) sessions_ok_history this] have "ids_ok (session_step ?m ev)" .
  moreover have "unat (sm_seq (session_step ?m ev)) \<le> length evs + 1"
    using session_step_seq [of ?m ev] ih(2) by linarith
  ultimately show ?case by simp
qed (use ids_ok_New in \<open>simp_all add: NewSessionManager_def\<close>)

lemma ids_okD:
  assumes "ids_ok m" and "p < length (sm_store m)"
  shows "ss_Conn (sm_store m ! p) = None \<Longrightarrow> ss_ID (sm_store m ! p) = ss_ConnID (sm_store m ! p)"
    and "ss_Conn (sm_store m ! p) \<noteq> None \<Longrightarrow> \<exists>n. ss_ID (sm_store m ! p) = session_id n (ss_ConnID (sm_store m ! p))"
  using assms by (auto simp: ids_ok_def split: option.splits)

lemma session_identified:
  assumes ids: "ids_ok m" and "p < length (sm_store m)" and "q < length (sm_store m)" and c: "ss_Conn (sm_store m ! q) \<noteq> None"
    and eq: "ss_ID (sm_store m ! q) = ss_ID (sm_store m ! p)" "ss_ConnID (sm_store m ! q) = ss_ConnID (sm_store m ! p)"
  shows "q = p"
proof (cases "ss_Conn (sm_store m ! p) = None")
  case True
  obtain n where "ss_ID (sm_store m ! q) = session_id n (ss_ConnID (sm_store m ! q))"
    using ids_okD(2) [OF ids assms(3) c] by blast
  with ids_okD(1) [OF ids assms(2) True] eq have "session_id n (ss_ConnID (sm_store m ! p)) = ss_ConnID (sm_store m ! p)"
    by metis
  then have "length (session_id n (ss_ConnID (sm_store m ! p))) = length (ss_ConnID (sm_store m ! p))" by metis
  then show ?thesis by (simp add: session_id_def)
next
  case False
  with assms show ?thesis unfolding ids_ok_def by blast
qed

text \<open>A session keeps its identifier, address and connection for ever.\<close>

lemma session_step_keeps:
  assumes ok: "sessions_ok m" and p: "p < length (sm_store m)"
  shows "p < length (sm_store (session_step m ev))
    \<and> ss_ID (sm_store (session_step m ev) ! p) = ss_ID (sm_store m ! p)
    \<and> ss_Conn (sm_store (session_step m ev) ! p) = ss_Conn (sm_store m ! p)
    \<and> ss_ConnID (sm_store (session_step m ev) ! p) = ss_ConnID (sm_store m ! p)"
proof (cases ev)
  case (Binds connID uid bound)
  obtain m0 q where sf: "session_for m connID uid = (m0, q)" by fastforce
  note r = BindSession_result [OF session_for_but [OF ok sf] sf, where bound = bound]
  note s = session_for_store [OF sf]
  from p s(3) have "p < length (sm_store m0)" by linarith
  with s(1) [OF p] show ?thesis by (auto simp: Binds r)
qed (use p sessions_okD(3) [OF ok] in \<open>auto simp: OnConnect_def OnDisconnect_def Manager_SetBound_def Session_SetBound_def
      Let_def nth_append nth_list_update split: option.splits\<close>)

lemma session_steps_keep:
  assumes "sessions_ok m" and "p < length (sm_store m)"
  shows "p < length (sm_store (foldl session_step m evs))
    \<and> ss_ID (sm_store (foldl session_step m evs) ! p) = ss_ID (sm_store m ! p)
    \<and> ss_Conn (sm_store (foldl session_step m evs) ! p) = ss_Conn (sm_store m ! p)
    \<and> ss_ConnID (sm_store (foldl session_step m evs) ! p) = ss_ConnID (sm_store m ! p)"
  using assms
proof (induction evs arbitrary: m)
  case (Cons ev evs)
  from session_step_keeps [OF Cons.prems, of ev] Cons.IH [OF sessions_ok_step [OF Cons.prems(1)], of ev] show ?case by simp
qed simp

section \<open>Witnesses and a reused address\<close>

definition demo_login :: "session_op list" where
  "demo_login = [Connects \<lparr>cn_ptr = 1, cn_RemoteAddr = ''a''\<rparr>, Connects \<lparr>cn_ptr = 2, cn_RemoteAddr = ''b''\<rparr>, Binds ''a'' 7 Map.empty]"

lemmas session_ops = session_step.simps OnConnect_def OnDisconnect_def BindSession_def session_for_def evict_uid_def
  NewSessionManager_def Let_def

theorem sessions_consistent_witness:
  "GetByUID (foldl session_step NewSessionManager demo_login) 7 = Some 0
   \<and> ss_Authed (sm_store (foldl session_step NewSessionManager demo_login) ! 0)
   \<and> GetByConnID (foldl session_step NewSessionManager demo_login) (ss_ConnID (sm_store (foldl session_step NewSessionManager demo_login) ! 0)) = Some 0"
proof -
  let ?m = "foldl session_step NewSessionManager demo_login"
  have c: "GetByConnID ?m ''a'' = Some 0" "ss_UID (sm_store ?m ! 0) = 7"
    by (simp_all add: demo_login_def session_ops GetByConnID_def)
  have "no_address_reused NewSessionManager demo_login"
    by (simp add: demo_login_def session_ops GetByConnID_def)
  with sessions_consistent [where m = ?m and evs = demo_login, of 7 0 "''a''" 0] c show ?thesis by simp
qed

theorem login_takes_over_witness:
  "GetByUID (fst (BindSession (foldl session_step NewSessionManager demo_login) ''b'' 7 Map.empty)) 7 = Some 1
   \<and> \<not> ss_Authed (sm_store (fst (BindSession (foldl session_step NewSessionManager demo_login) ''b'' 7 Map.empty)) ! 0)"
proof -
  let ?m = "foldl session_step NewSessionManager demo_login"
  have p: "BindSession ?m ''b'' 7 Map.empty = (fst (BindSession ?m ''b'' 7 Map.empty), 1)"
    "GetByUID ?m 7 = Some 0"
    by (simp_all add: demo_login_def session_ops GetByUID_def)
  from login_takes_over [where q = 0, OF refl _ p(1)] p(2) show ?thesis by simp
qed

text \<open>
  Connections are indexed by their remote address. When a new connection from the same address
  is accepted before the disconnect of the old one is handled, that disconnect removes the
  session of the new connection, and the old session stays the one its user is found by.
\<close>

lemma reused_address_loses_session:
  fixes addr :: string and u :: int
  assumes "u \<noteq> 0"
  defines "m \<equiv> foldl session_step NewSessionManager [Connects \<lparr>cn_ptr = 1, cn_RemoteAddr = addr\<rparr>, Binds addr u Map.empty,
    Connects \<lparr>cn_ptr = 2, cn_RemoteAddr = addr\<rparr>, Disconnects \<lparr>cn_ptr = 1, cn_RemoteAddr = addr\<rparr>]"
  shows "GetByConnID m addr = None \<and> GetByUID m u = Some 0"
  using assms by (simp add: m_def session_ops GetByConnID_def GetByUID_def)

end
