(* ===== verification/Gate.thy ===== *)
theory Gate
  imports Session Framing Rpc_Compose
begin

text \<open>
  The gate: client connections (\<^verbatim>\<open>internal/core/conn\<close>), the dispatcher with its middlewares
  (\<^verbatim>\<open>internal/core/dispatcher\<close>) and the forwarding of client requests to backend servers
  (\<^verbatim>\<open>internal/server/gate/module.go\<close>). The callback of a forwarded request is a closure over the
  session's identifiers; its environment is kept under the number the RPC engine knows it by.
\<close>

section \<open>Client connections\<close>

text \<open>
  A \<^verbatim>\<open>select\<close> on a closed connection with room in the queue may take either case: \<open>tc_race n\<close>
  says whether the \<open>n\<close>-th call takes the closed channel.
\<close>

record TCPConn =
  tc_sendCh :: "bytes list"
  tc_done :: bool
  tc_lastRecv :: int
  tc_calls :: nat
  tc_race :: "nat \<Rightarrow> bool"

definition tcpConnSendQueueSize :: nat where "tcpConnSendQueueSize = 256"

definition NewTCPConn :: "int \<Rightarrow> (nat \<Rightarrow> bool) \<Rightarrow> TCPConn" where
  "NewTCPConn now race = \<lparr>tc_sendCh = [], tc_done = False, tc_lastRecv = now, tc_calls = 0, tc_race = race\<rparr>"

definition conn_send :: "TCPConn \<Rightarrow> bytes \<Rightarrow> TCPConn" where
  "conn_send c data =
     (let room = length (tc_sendCh c) < tcpConnSendQueueSize;
          c0 = c\<lparr>tc_calls := Suc (tc_calls c)\<rparr>
      in if tc_done c \<and> (\<not> room \<or> tc_race c (tc_calls c)) then c0
         else if room then c0\<lparr>tc_sendCh := tc_sendCh c @ [data]\<rparr>
         else c0)"

definition TCPConn_Send :: "TCPConn \<Rightarrow> bytes \<Rightarrow> TCPConn" where
  "TCPConn_Send c data = (if data = [] then c else conn_send c data)"

definition SendOwned :: "TCPConn \<Rightarrow> bytes \<Rightarrow> TCPConn" where
  "SendOwned c data = (if data = [] then c else conn_send c data)"

definition TCPConn_Close :: "TCPConn \<Rightarrow> TCPConn" where
  "TCPConn_Close c = c\<lparr>tc_done := True\<rparr>"

definition TouchRecv :: "TCPConn \<Rightarrow> int \<Rightarrow> TCPConn" where
  "TouchRecv c now = c\<lparr>tc_lastRecv := now\<rparr>"

text \<open>
  The write loop is the batching loop of the agent connections with plain concatenation as
  its encoder.
\<close>

definition append_data :: "gobuf \<Rightarrow> bytes \<Rightarrow> unit + gobuf" where
  "append_data buf data = Inr \<lparr>buf_data = buf_data buf @ data, buf_spare = drop (length data) (buf_spare buf)\<rparr>"

definition tcpConnWriteBatchMaxFrames :: nat where "tcpConnWriteBatchMaxFrames = 16"

definition tcp_write_all :: "(nat \<Rightarrow> nat) \<Rightarrow> gobuf \<Rightarrow> bytes list \<Rightarrow> bytes list" where
  "tcp_write_all = batch_write_all append_data tcpConnWriteBatchMaxFrames"

interpretation tcp_writer: batch_encoder append_data "\<lambda>d. d" "\<lambda>d. True"
  by unfold_locales (simp add: append_data_def)

section \<open>Dispatcher\<close>

record RouteEntry =
  re_CmdID :: u32
  re_ServerType :: u32
  re_Route :: string
  re_RspCmdID :: u32

text \<open>Handlers act on the state of the server and either return an error value or panic.\<close>

type_synonym 's handler = "'s \<Rightarrow> sess_ptr option \<Rightarrow> Message option \<Rightarrow> 's \<times> handler_result"

record 's Dispatcher =
  ds_selfServerType :: u32
  ds_routes :: "u32 \<rightharpoonup> RouteEntry"
  ds_handlers :: "u32 \<rightharpoonup> 's handler"
  ds_middlewares :: "('s handler \<Rightarrow> 's handler) list"
  ds_forward :: "('s \<Rightarrow> sess_ptr option \<Rightarrow> Message option \<Rightarrow> RouteEntry \<Rightarrow> 's \<times> handler_result) option"

definition NewDispatcher :: "u32 \<Rightarrow> 's Dispatcher" where
  "NewDispatcher selfServerType = \<lparr>ds_selfServerType = selfServerType, ds_routes = Map.empty, ds_handlers = Map.empty,
     ds_middlewares = [], ds_forward = None\<rparr>"

definition RegisterRoute :: "'s Dispatcher \<Rightarrow> u32 \<Rightarrow> RouteEntry \<Rightarrow> 's Dispatcher" where
  "RegisterRoute d cmdID entry = d\<lparr>ds_routes := (ds_routes d)(cmdID \<mapsto> entry)\<rparr>"

definition RegisterHandler :: "'s Dispatcher \<Rightarrow> u32 \<Rightarrow> 's handler option \<Rightarrow> 's Dispatcher" where
  "RegisterHandler d cmdID fn = d\<lparr>ds_handlers := (ds_handlers d)(cmdID := fn)\<rparr>"

definition Use :: "'s Dispatcher \<Rightarrow> ('s handler \<Rightarrow> 's handler) \<Rightarrow> 's Dispatcher" where
  "Use d m = d\<lparr>ds_middlewares := ds_middlewares d @ [m]\<rparr>"

definition SetForward ::
  "'s Dispatcher \<Rightarrow> ('s \<Rightarrow> sess_ptr option \<Rightarrow> Message option \<Rightarrow> RouteEntry \<Rightarrow> 's \<times> handler_result) option \<Rightarrow> 's Dispatcher" where
  "SetForward d fn = d\<lparr>ds_forward := fn\<rparr>"

text \<open>The loop that wraps the handler, from the last middleware to the first.\<close>

definition chain :: "('s handler \<Rightarrow> 's handler) list \<Rightarrow> 's handler \<Rightarrow> 's handler" where
  "chain ms h = foldr (\<lambda>m acc. m acc) ms h"

definition Dispatch :: "'s Dispatcher \<Rightarrow> 's handler" where
  "Dispatch d s sess msg =
     (case msg of
        None \<Rightarrow> (s, Returned (errcode_New ERR_UNMARSHAL ''nil message''))
      | Some m \<Rightarrow>
          (case ds_routes d (msg_CmdID m) of
             Some entry \<Rightarrow>
               if re_ServerType entry \<noteq> ds_selfServerType d then
                 (case ds_forward d of
                    None \<Rightarrow> (s, Returned (errcode_New ERR_NO_ROUTE ''forward handler not set''))
                  | Some fwd \<Rightarrow> fwd s sess msg entry)
               else
                 (case ds_handlers d (msg_CmdID m) of
                    None \<Rightarrow> (s, Returned (errcode_New ERR_NO_ROUTE (''handler not found for cmd '' @ dec_nat (unat (msg_CmdID m)))))
                  | Some h \<Rightarrow> chain (ds_middlewares d) h s sess msg)
           | None \<Rightarrow>
               (case ds_handlers d (msg_CmdID m) of
                  None \<Rightarrow> (s, Returned (errcode_New ERR_NO_ROUTE (''route not found for cmd '' @ dec_nat (unat (msg_CmdID m)))))
                | Some h \<Rightarrow> chain (ds_middlewares d) h s sess msg)))"

text \<open>\<open>stack\<close> is what \<^verbatim>\<open>debug.Stack\<close> prints.\<close>

definition RecoverMiddleware :: "string \<Rightarrow> 's handler \<Rightarrow> 's handler" where
  "RecoverMiddleware stack nxt s sess msg =
     (case nxt s sess msg of
        (s1, Panicked r) \<Rightarrow> (s1, Returned (errcode_New ERR_INTERNAL (''panic recovered: '' @ r @ CHR 0x0A # stack)))
      | (s1, Returned e) \<Rightarrow> (s1, Returned e))"

text \<open>\<open>authed\<close> reads the authentication flag of a session in the state.\<close>

definition AuthMiddleware :: "('s \<Rightarrow> sess_ptr \<Rightarrow> bool) \<Rightarrow> (u32 \<rightharpoonup> bool) \<Rightarrow> 's handler \<Rightarrow> 's handler" where
  "AuthMiddleware authed whitelist nxt s sess msg =
     (case msg of
        None \<Rightarrow> (s, Returned (errcode_New ERR_UNMARSHAL ''nil message''))
      | Some m \<Rightarrow>
          if whitelist (msg_CmdID m) = Some True then nxt s sess msg
          else if sess = None \<or> \<not> authed s (the sess)
          then (s, Returned (errcode_New ERR_UNAUTHED ''session not authenticated''))
          else nxt s sess msg)"

section \<open>Forwarding client requests\<close>

text \<open>What the callback of a forwarded request remembers.\<close>

record reply_env =
  ev_sessID :: string
  ev_sessConnID :: string
  ev_SeqID :: u16
  ev_RspCmdID :: u32

text \<open>
  \<open>gt_transport n\<close> is the outcome of handing the request with callback \<open>n\<close> to the router agent's
  client.
\<close>

record Gate =
  gt_sessions :: SessionManager
  gt_conns :: "nat \<Rightarrow> TCPConn"
  gt_core :: Core
  gt_replies :: "nat \<rightharpoonup> reply_env"
  gt_nextReply :: nat
  gt_nodeID :: u32
  gt_now :: int
  gt_transport :: "nat \<Rightarrow> goerror"

definition send_to_client :: "Gate \<Rightarrow> Connection \<Rightarrow> bytes \<Rightarrow> Gate" where
  "send_to_client g c pkt = g\<lparr>gt_conns := (gt_conns g)(cn_ptr c := SendOwned (gt_conns g (cn_ptr c)) pkt)\<rparr>"

text \<open>The body of the callback, run on the main loop when the response arrives or the call fails.\<close>

definition reply_callback :: "Gate \<Rightarrow> reply_env \<Rightarrow> bytes option \<Rightarrow> ErrCode \<Rightarrow> Gate" where
  "reply_callback g env payload code =
     (case GetByConnID (gt_sessions g) (ev_sessConnID env) of
        None \<Rightarrow> g
      | Some q \<Rightarrow>
          let current = sm_store (gt_sessions g) ! q in
          if ss_ID current \<noteq> ev_sessID env then g
          else (case ss_Conn current of
                  None \<Rightarrow> g
                | Some c \<Rightarrow>
                    (case EncodeDataMessagePacket
                       \<lparr>msg_Type = MessageResponse, msg_SeqID = ev_SeqID env, msg_CmdID = ev_RspCmdID env, msg_ErrCode = code,
                        msg_Body = (case payload of None \<Rightarrow> [] | Some b \<Rightarrow> b)\<rparr> of
                       Inl _ \<Rightarrow> g
                     | Inr pkt \<Rightarrow> send_to_client g c pkt)))"

definition run_dispatched :: "Gate \<Rightarrow> dispatched \<Rightarrow> Gate" where
  "run_dispatched g d =
     (case gt_replies g (dp_callback d) of
        None \<Rightarrow> g
      | Some env \<Rightarrow> reply_callback g env (dp_payload d) (dp_code d))"

definition backend_target :: "Session \<Rightarrow> RouteEntry \<Rightarrow> Target" where
  "backend_target sess entry =
     (let t = ByHash \<lparr>tg_ServerType = re_ServerType entry, tg_Mode = RoutingAny, tg_Key = [], tg_NodeID = 0, tg_Deadline = 0\<rparr>
                (ss_ConnID sess);
          nodeID = bound_node sess (re_ServerType entry)
      in if nodeID \<noteq> 0 then At t nodeID else t)"

definition forwardToBackend :: "Gate \<Rightarrow> sess_ptr option \<Rightarrow> Message option \<Rightarrow> RouteEntry \<Rightarrow> Gate \<times> handler_result" where
  "forwardToBackend g sess msg entry =
     (case (sess, msg) of
        (Some p, Some m) \<Rightarrow>
          let s = sm_store (gt_sessions g) ! p;
              target = backend_target s entry;
              ctx = WithFromNode Background (gt_nodeID g)
          in if msg_Type m = MessageRequest then
               let cb = gt_nextReply g;
                   env = \<lparr>ev_sessID = ss_ID s, ev_sessConnID = ss_ConnID s, ev_SeqID = msg_SeqID m, ev_RspCmdID = re_RspCmdID entry\<rparr>
               in (g\<lparr>gt_replies := (gt_replies g)(cb \<mapsto> env), gt_nextReply := Suc cb,
                     gt_core := Call (gt_core g) (gt_now g) target (re_Route entry) (msg_Body m) ctx (Some cb) (gt_transport g cb)\<rparr>,
                   Returned NoError)
             else if msg_Type m = MessageNotify then
               (g\<lparr>gt_core := Send (gt_core g) target (re_Route entry) (msg_Body m) ctx\<rparr>, Returned NoError)
             else (g, Returned (errcode_New ERR_UNMARSHAL ''unsupported forwarded message type''))
      | _ \<Rightarrow> (g, Returned (errcode_New ERR_UNMARSHAL ''nil session or message'')))"

definition handleHandshake_gate :: "Gate \<Rightarrow> Connection \<Rightarrow> bytes \<Rightarrow> Gate \<times> bool" where
  "handleHandshake_gate g c body =
     (case EncodePacket \<lparr>pkt_Type = PacketHandshakeAck, pkt_Body = [1]\<rparr> of
        Inl _ \<Rightarrow> (g, False)
      | Inr pkt \<Rightarrow> (send_to_client g c pkt, True))"

section \<open>Packets of a client\<close>

text \<open>The texts of the decoder's errors.\<close>

fun codec_Error :: "codec_error \<Rightarrow> string" where
  "codec_Error (PacketTooLarge n) = ''packet too large: '' @ dec_nat n"
| "codec_Error (PacketTooShort n) = ''packet too short: '' @ dec_nat n"
| "codec_Error (PacketLengthMismatch w n) = ''packet length mismatch: want '' @ dec_nat w @ '' got '' @ dec_nat n"
| "codec_Error MessageTooShort = ''message too short''"
| "codec_Error RequestTooShort = ''request message too short''"
| "codec_Error ResponseTooShort = ''response message too short''"
| "codec_Error NotifyTooShort = ''notify message too short''"
| "codec_Error (UnknownMessageType t) = ''message: unknown type '' @ dec_nat (unat t)"

definition HandleSessionPacket ::
  "Gate Dispatcher \<Rightarrow> (Gate \<Rightarrow> Connection \<Rightarrow> bytes \<Rightarrow> Gate \<times> bool) option \<Rightarrow> Gate \<Rightarrow> sess_ptr option \<Rightarrow> Connection \<Rightarrow> Packet
    \<Rightarrow> Gate \<times> handler_result" where
  "HandleSessionPacket d hs g sess c pkt =
     (if pkt_Type pkt = PacketHandshake then
        (case hs of None \<Rightarrow> g | Some h \<Rightarrow> fst (h g c (pkt_Body pkt)), Returned NoError)
      else if pkt_Type pkt = PacketHandshakeAck then (g, Returned NoError)
      else if pkt_Type pkt = PacketHeartbeat then
        (g\<lparr>gt_conns := (gt_conns g)(cn_ptr c := TouchRecv (gt_conns g (cn_ptr c)) (gt_now g))\<rparr>, Returned NoError)
      else if pkt_Type pkt = PacketData then
        (case DecodeMessage (pkt_Body pkt) of
           None \<Rightarrow> (g, Panicked ''runtime error: slice bounds out of range'')
         | Some (Inl e) \<Rightarrow> (g, Returned (errcode_New ERR_UNMARSHAL (codec_Error e)))
         | Some (Inr msg) \<Rightarrow>
             if sess = None then (g, Returned (errcode_New ERR_UNAUTHED ''session not found''))
             else Dispatch d g sess (Some msg))
      else (g, Returned NoError))"

definition HandlePacket ::
  "Gate Dispatcher \<Rightarrow> (Gate \<Rightarrow> Connection \<Rightarrow> bytes \<Rightarrow> Gate \<times> bool) option \<Rightarrow> Gate \<Rightarrow> Connection \<Rightarrow> Packet option
    \<Rightarrow> Gate \<times> handler_result" where
  "HandlePacket d hs g c pkt =
     (case pkt of
        None \<Rightarrow> (g, Returned (errcode_New ERR_UNMARSHAL ''nil packet''))
      | Some k \<Rightarrow>
          if pkt_Type k = PacketData
          then HandleSessionPacket d hs g (GetByConnID (gt_sessions g) (cn_RemoteAddr c)) c k
          else HandleSessionPacket d hs g None c k)"

text \<open>\<^verbatim>\<open>handleConn\<close> of the module, and the end of its receive loop.\<close>

definition handleConn :: "Gate \<Rightarrow> Connection \<Rightarrow> Gate" where
  "handleConn g c = g\<lparr>gt_sessions := fst (OnConnect (gt_sessions g) (Some c))\<rparr>"

definition recv_ended :: "Gate \<Rightarrow> Connection \<Rightarrow> Gate" where
  "recv_ended g c =
     g\<lparr>gt_sessions := OnDisconnect (gt_sessions g) (Some c),
       gt_conns := (gt_conns g)(cn_ptr c := TCPConn_Close (gt_conns g (cn_ptr c)))\<rparr>"

text \<open>The dispatcher that \<^verbatim>\<open>Init\<close> builds: recovery outside, authentication inside, forwarding set.\<close>

definition gate_authed :: "Gate \<Rightarrow> sess_ptr \<Rightarrow> bool" where
  "gate_authed g p = ss_Authed (sm_store (gt_sessions g) ! p)"

definition gate_dispatcher :: "u32 \<Rightarrow> string \<Rightarrow> (u32 \<rightharpoonup> bool) \<Rightarrow> (u32 \<times> RouteEntry) list \<Rightarrow> Gate Dispatcher" where
  "gate_dispatcher self stack whitelist table =
     (let d0 = Use (Use (NewDispatcher self) (RecoverMiddleware stack)) (AuthMiddleware gate_authed whitelist);
          d1 = foldl (\<lambda>d (cmdID, entry). RegisterRoute d cmdID entry) d0 table
      in SetForward d1 (Some forwardToBackend))"

section \<open>Properties of the gate\<close>

text \<open>C37: Local commands of the gate run behind authentication and recovery. With the middlewares
  that the gate installs, the handler of a command that is not forwarded runs exactly when the
  command is whitelisted or the session is authenticated; otherwise nothing changes and
  \<^verbatim>\<open>ERR_UNAUTHED\<close> is returned. A panic of the handler becomes \<^verbatim>\<open>ERR_INTERNAL\<close> and never
  reaches the main loop.\<close>

theorem gate_auth_enforced:
  assumes "ds_middlewares d = ds_middlewares (gate_dispatcher self stack whitelist table)"
    and "ds_handlers d (msg_CmdID m) = Some h"
    and "\<forall>entry. ds_routes d (msg_CmdID m) = Some entry \<longrightarrow> re_ServerType entry = ds_selfServerType d"
  shows "Dispatch d g sess (Some m) =
      (if whitelist (msg_CmdID m) = Some True \<or> (\<exists>p. sess = Some p \<and> gate_authed g p)
       then (fst (h g sess (Some m)),
             Returned (case snd (h g sess (Some m)) of Returned e \<Rightarrow> e
               | Panicked r \<Rightarrow> errcode_New ERR_INTERNAL (''panic recovered: '' @ r @ CHR 0x0A # stack)))
       else (g, Returned (errcode_New ERR_UNAUTHED ''session not authenticated'')))"
proof -
  have "ds_middlewares (foldl (\<lambda>d (cmdID, entry). RegisterRoute d cmdID entry) d0 table) = ds_middlewares d0" for d0 :: "Gate Dispatcher"
    by (induction table arbitrary: d0) (auto simp: RegisterRoute_def)
  then have mw: "ds_middlewares d = [RecoverMiddleware stack, AuthMiddleware gate_authed whitelist]"
    using assms(1) by (simp add: gate_dispatcher_def Let_def Use_def SetForward_def NewDispatcher_def)
  have "Dispatch d g sess (Some m) = chain (ds_middlewares d) h g sess (Some m)"
    using assms(2,3) by (simp add: Dispatch_def split: option.splits)
  then show ?thesis
    by (auto simp: mw chain_def RecoverMiddleware_def AuthMiddleware_def split: prod.splits handler_result.splits option.splits)
qed

theorem gate_auth_enforced_witness:
  "Dispatch (RegisterHandler (gate_dispatcher 1 [] Map.empty []) 7 (Some (\<lambda>g sess msg. (g, Panicked ''boom''))))
     \<lparr>gt_sessions = NewSessionManager, gt_conns = (\<lambda>_. NewTCPConn 0 (\<lambda>_. True)), gt_core = New 0, gt_replies = Map.empty,
      gt_nextReply = 0, gt_nodeID = 1, gt_now = 0, gt_transport = (\<lambda>_. NoError)\<rparr> None
     (Some \<lparr>msg_Type = 1, msg_SeqID = 1, msg_CmdID = 7, msg_ErrCode = 0, msg_Body = []\<rparr>)
   = (\<lparr>gt_sessions = NewSessionManager, gt_conns = (\<lambda>_. NewTCPConn 0 (\<lambda>_. True)), gt_core = New 0, gt_replies = Map.empty,
      gt_nextReply = 0, gt_nodeID = 1, gt_now = 0, gt_transport = (\<lambda>_. NoError)\<rparr>,
      Returned (errcode_New ERR_UNAUTHED ''session not authenticated''))"
  by (subst gate_auth_enforced [where self = 1 and stack = "[]" and whitelist = Map.empty and table = "[]"
        and h = "\<lambda>g sess msg. (g, Panicked ''boom'')"])
    (simp_all add: RegisterHandler_def gate_dispatcher_def SetForward_def Use_def NewDispatcher_def)

text \<open>
  Commands that are forwarded to another server type never pass the middlewares: neither the
  authentication nor the recovery applies to them.
\<close>

lemma forwarded_skip_middlewares:
  assumes "ds_routes d (msg_CmdID m) = Some entry" and "re_ServerType entry \<noteq> ds_selfServerType d" and "ds_forward d = Some fwd"
  shows "Dispatch d s sess (Some m) = fwd s sess (Some m) entry"
  using assms by (simp add: Dispatch_def)

text \<open>The response packet decodes to the response it was built from.\<close>

lemma response_packet:
  assumes "length body + 11 \<le> 0xFFFFFF"
  shows "\<exists>pkt pbody. EncodeDataMessagePacket \<lparr>msg_Type = MessageResponse, msg_SeqID = s, msg_CmdID = c, msg_ErrCode = e, msg_Body = body\<rparr>
      = Inr pkt \<and> DecodePacket pkt = Some (Inr \<lparr>pkt_Type = PacketData, pkt_Body = pbody\<rparr>)
    \<and> DecodeMessage pbody = Some (Inr \<lparr>msg_Type = MessageResponse, msg_SeqID = s, msg_CmdID = c, msg_ErrCode = e, msg_Body = body\<rparr>)"
proof -
  let ?m = "\<lparr>msg_Type = MessageResponse, msg_SeqID = s, msg_CmdID = c, msg_ErrCode = e, msg_Body = body\<rparr>"
  let ?b = "concat (message_fields ?m)" and ?p = "\<lparr>pkt_Type = PacketData, pkt_Body = concat (message_fields ?m)\<rparr>"
  have k: "known_type ?m" by (simp add: known_type_def)
  have "length ?b = length body + 11" by (simp add: message_fields_def)
  with assms have p: "EncodePacket ?p = Inr (packet_bytes ?p)" by (simp add: EncodePacket_eq)
  have "DecodePacket (packet_bytes ?p) = Some (Inr ?p)" using assms \<open>length ?b = _\<close> by (simp add: DecodePacket_packet_bytes)
  with p k DecodeMessage_fields [OF k] show ?thesis
    by (intro exI [of _ "packet_bytes ?p"] exI [of _ ?b])
      (simp add: EncodeDataMessagePacket_eq EncodeMessage_eq carried_def)
qed

text \<open>The callback finds a session if and only if it is the one that sent the request.\<close>

lemma reply_callback_guard:
  assumes "ids_ok m" and "sessions_ok m" and "gt_sessions g = m" and "p < length (sm_store m)"
    and "ss_Conn (sm_store m ! p) = Some c" and "ev_sessID env = ss_ID (sm_store m ! p)" and "ev_sessConnID env = ss_ConnID (sm_store m ! p)"
    and "EncodeDataMessagePacket \<lparr>msg_Type = MessageResponse, msg_SeqID = ev_SeqID env, msg_CmdID = ev_RspCmdID env,
      msg_ErrCode = code, msg_Body = body\<rparr> = Inr pkt"
  shows "reply_callback g env (Some body) code =
    (if GetByConnID m (ss_ConnID (sm_store m ! p)) = Some p then send_to_client g c pkt else g)"
proof (cases "sm_byConn m (ss_ConnID (sm_store m ! p))")
  case None
  then show ?thesis using assms by (simp add: reply_callback_def GetByConnID_def)
next
  case (Some q)
  note q = sessions_okD(1,2) [OF assms(2) Some]
  have "q = p" if "ss_ID (sm_store m ! q) = ss_ID (sm_store m ! p)" "ss_Conn (sm_store m ! q) \<noteq> None"
    using session_identified [OF assms(1,4) q(1) that(2,1) q(2)] .
  with Some assms show ?thesis
    by (cases "ss_Conn (sm_store m ! q)") (auto simp: reply_callback_def GetByConnID_def Let_def)
qed

text \<open>C36: A client's request is answered exactly where it came from. A data packet of session \<open>p\<close>
  with a request for a command of another server type is handed to the RPC engine as one frame
  with the command's route, the body, the gate as source and the session's bound node or hash
  key as target. When the response to that frame arrives, after any further connects,
  disconnects and logins, one callback is dispatched: if \<open>p\<close> is still the session of its
  connection it sends one packet to that connection, which decodes to a response with the
  client's sequence number, the command's response id, the error code and the payload of the
  backend; if \<open>p\<close> is gone, nothing is sent to anybody.\<close>

theorem client_request_answered:
  assumes "gt_sessions g = foldl session_step NewSessionManager evs"
    and "p < length (sm_store (gt_sessions g))" and "s = sm_store (gt_sessions g) ! p" and "ss_Conn s = Some c"
    and "pkt_Type pkt = PacketData" and "DecodeMessage (pkt_Body pkt) = Some (Inr msg)" and "msg_Type msg = MessageRequest"
    and "ds_routes d (msg_CmdID msg) = Some entry" and "re_ServerType entry \<noteq> ds_selfServerType d"
    and "ds_forward d = Some forwardToBackend"
    and "gt_transport g (gt_nextReply g) = NoError"
    and "g1 = fst (HandleSessionPacket d hs g (Some p) c pkt)"
    and "gt_sessions g2 = foldl session_step (gt_sessions g1) evs'" and "length (evs @ evs') < 2 ^ 64"
    and "gt_core g2 = OnResponse (gt_core g1) (rc_seq (gt_core g) + 1) payload code" and "gt_replies g2 = gt_replies g1"
    and "length payload + 11 \<le> 0xFFFFFF"
  shows "(\<exists>head. rc_frames (gt_core g1) = rc_frames (gt_core g) @ [(backend_target s entry, head, msg_Body msg)]
        \<and> rh_SeqID head = rc_seq (gt_core g) + 1 \<and> rh_Route head = re_Route entry \<and> rh_SrcNodeID head = gt_nodeID g)
    \<and> (\<exists>called pkt' body. rc_calls (gt_core g2) = rc_calls (gt_core g1) @ [called]
        \<and> run_dispatched g2 called =
            (if GetByConnID (gt_sessions g2) (ss_ConnID s) = Some p then send_to_client g2 c pkt' else g2)
        \<and> DecodePacket pkt' = Some (Inr \<lparr>pkt_Type = PacketData, pkt_Body = body\<rparr>)
        \<and> DecodeMessage body = Some (Inr \<lparr>msg_Type = MessageResponse, msg_SeqID = msg_SeqID msg,
             msg_CmdID = re_RspCmdID entry, msg_ErrCode = code, msg_Body = payload\<rparr>))"
proof -
  let ?cb = "gt_nextReply g" and ?seq = "rc_seq (gt_core g) + 1"
  let ?env = "\<lparr>ev_sessID = ss_ID s, ev_sessConnID = ss_ConnID s, ev_SeqID = msg_SeqID msg, ev_RspCmdID = re_RspCmdID entry\<rparr>"
  let ?called = "\<lparr>dp_seq = ?seq, dp_callback = ?cb, dp_payload = Some payload, dp_code = code\<rparr>"
  have "g1 = fst (forwardToBackend g (Some p) (Some msg) entry)"
    using assms(5,6,8-10,12) by (simp add: HandleSessionPacket_def forwarded_skip_middlewares
        PacketData_def PacketHandshake_def PacketHandshakeAck_def PacketHeartbeat_def)
  then have g1: "g1 = g\<lparr>gt_replies := (gt_replies g)(?cb \<mapsto> ?env), gt_nextReply := Suc ?cb,
      gt_core := Call (gt_core g) (gt_now g) (backend_target s entry) (re_Route entry) (msg_Body msg)
        (WithFromNode Background (gt_nodeID g)) (Some ?cb) NoError\<rparr>"
    using assms(3,7,11) by (simp add: forwardToBackend_def Let_def)
  have frames: "\<exists>head. rc_frames (gt_core g1) = rc_frames (gt_core g) @ [(backend_target s entry, head, msg_Body msg)]
        \<and> rh_SeqID head = ?seq \<and> rh_Route head = re_Route entry \<and> rh_SrcNodeID head = gt_nodeID g"
    by (auto simp: g1 Call_def call_start_def register_def Let_def WithFromNode_def)
  have "\<exists>f. map_of (rc_pending (gt_core g1)) ?seq = Some f \<and> inf_onResult f = ?cb"
    by (auto simp: g1 Call_def call_start_def register_def Let_def)
  then have calls: "rc_calls (gt_core g2) = rc_calls (gt_core g1) @ [?called]"
    by (auto simp: assms(15) OnResponse_def take_pending_def finish_with_def)
  have m2: "gt_sessions g2 = foldl session_step NewSessionManager (evs @ evs')" by (simp add: assms(1,13) g1)
  have sess: "p < length (sm_store (gt_sessions g2)) \<and> ss_ID (sm_store (gt_sessions g2) ! p) = ss_ID s
      \<and> ss_Conn (sm_store (gt_sessions g2) ! p) = ss_Conn s \<and> ss_ConnID (sm_store (gt_sessions g2) ! p) = ss_ConnID s"
    using session_steps_keep [OF sessions_ok_history, of p evs evs'] assms(1-3) by (simp add: m2)
  obtain pkt' body where r: "EncodeDataMessagePacket \<lparr>msg_Type = MessageResponse, msg_SeqID = msg_SeqID msg,
      msg_CmdID = re_RspCmdID entry, msg_ErrCode = code, msg_Body = payload\<rparr> = Inr pkt'"
    "DecodePacket pkt' = Some (Inr \<lparr>pkt_Type = PacketData, pkt_Body = body\<rparr>)"
    "DecodeMessage body = Some (Inr \<lparr>msg_Type = MessageResponse, msg_SeqID = msg_SeqID msg,
      msg_CmdID = re_RspCmdID entry, msg_ErrCode = code, msg_Body = payload\<rparr>)"
    using response_packet [OF assms(17)] by blast
  have ids: "ids_ok (gt_sessions g2)" "sessions_ok (gt_sessions g2)"
    unfolding m2 using ids_ok_history [OF assms(14)] sessions_ok_history by blast+
  have "reply_callback g2 ?env (Some payload) code =
      (if GetByConnID (gt_sessions g2) (ss_ConnID s) = Some p then send_to_client g2 c pkt' else g2)"
    using reply_callback_guard [OF ids refl, of p c ?env code payload pkt'] sess assms(4) r(1) by simp
  moreover have "gt_replies g2 ?cb = Some ?env" by (simp add: assms(16) g1)
  ultimately have "run_dispatched g2 ?called =
      (if GetByConnID (gt_sessions g2) (ss_ConnID s) = Some p then send_to_client g2 c pkt' else g2)"
    by (simp add: run_dispatched_def)
  with frames calls r show ?thesis by blast
qed

definition demo_gate :: Gate where
  "demo_gate = \<lparr>gt_sessions = foldl session_step NewSessionManager [Connects \<lparr>cn_ptr = 1, cn_RemoteAddr = ''a''\<rparr>],
     gt_conns = (\<lambda>_. NewTCPConn 0 (\<lambda>_. True)), gt_core = New 0, gt_replies = Map.empty, gt_nextReply = 0, gt_nodeID = 1,
     gt_now = 0, gt_transport = (\<lambda>_. NoError)\<rparr>"

definition demo_entry :: RouteEntry where
  "demo_entry = \<lparr>re_CmdID = 7, re_ServerType = 2, re_Route = ''r'', re_RspCmdID = 8\<rparr>"

definition demo_packet :: Packet where
  "demo_packet = \<lparr>pkt_Type = PacketData, pkt_Body = concat (message_fields
     \<lparr>msg_Type = MessageRequest, msg_SeqID = 5, msg_CmdID = 7, msg_ErrCode = 0, msg_Body = [9]\<rparr>)\<rparr>"

definition demo_forwarded :: Gate where
  "demo_forwarded = fst (HandleSessionPacket (gate_dispatcher 1 [] Map.empty [(7, demo_entry)]) None demo_gate (Some 0)
     \<lparr>cn_ptr = 1, cn_RemoteAddr = ''a''\<rparr> demo_packet)"

theorem client_request_answered_witness:
  "\<exists>called pkt' body. rc_calls (OnResponse (gt_core demo_forwarded) 1 [3] 0) = rc_calls (gt_core demo_forwarded) @ [called]
     \<and> run_dispatched (demo_forwarded\<lparr>gt_core := OnResponse (gt_core demo_forwarded) 1 [3] 0\<rparr>) called
       = send_to_client (demo_forwarded\<lparr>gt_core := OnResponse (gt_core demo_forwarded) 1 [3] 0\<rparr>) \<lparr>cn_ptr = 1, cn_RemoteAddr = ''a''\<rparr> pkt'
     \<and> DecodePacket pkt' = Some (Inr \<lparr>pkt_Type = PacketData, pkt_Body = body\<rparr>)
     \<and> DecodeMessage body = Some (Inr \<lparr>msg_Type = MessageResponse, msg_SeqID = 5, msg_CmdID = 8, msg_ErrCode = 0, msg_Body = [3]\<rparr>)"
proof -
  let ?msg = "\<lparr>msg_Type = MessageRequest, msg_SeqID = 5, msg_CmdID = 7, msg_ErrCode = 0, msg_Body = [9]\<rparr>"
  have dm: "DecodeMessage (pkt_Body demo_packet) = Some (Inr ?msg)" and pt: "pkt_Type demo_packet = PacketData"
    using DecodeMessage_fields [of ?msg] by (simp_all add: known_type_def carried_def demo_packet_def)
  have st: "gt_sessions demo_gate = foldl session_step NewSessionManager [Connects \<lparr>cn_ptr = 1, cn_RemoteAddr = ''a''\<rparr>]"
    "0 < length (sm_store (gt_sessions demo_gate))" "ss_Conn (sm_store (gt_sessions demo_gate) ! 0) = Some \<lparr>cn_ptr = 1, cn_RemoteAddr = ''a''\<rparr>"
    "ss_ConnID (sm_store (gt_sessions demo_gate) ! 0) = ''a''" "GetByConnID (gt_sessions demo_gate) ''a'' = Some 0"
    "gt_transport demo_gate (gt_nextReply demo_gate) = NoError" "rc_seq (gt_core demo_gate) + 1 = 1"
    by (simp_all add: demo_gate_def session_ops GetByConnID_def New_def)
  have ds: "ds_routes (gate_dispatcher 1 [] Map.empty [(7, demo_entry)]) 7 = Some demo_entry"
    "ds_selfServerType (gate_dispatcher 1 [] Map.empty [(7, demo_entry)]) = 1"
    "ds_forward (gate_dispatcher 1 [] Map.empty [(7, demo_entry)]) = Some forwardToBackend"
    "re_ServerType demo_entry = 2" "re_RspCmdID demo_entry = 8"
    by (simp_all add: gate_dispatcher_def Use_def SetForward_def NewDispatcher_def RegisterRoute_def demo_entry_def)
  have same: "gt_sessions demo_forwarded = gt_sessions demo_gate"
    using dm ds by (simp add: demo_forwarded_def HandleSessionPacket_def forwarded_skip_middlewares
        pt PacketData_def PacketHandshake_def PacketHandshakeAck_def PacketHeartbeat_def forwardToBackend_def Let_def)
  have "(\<exists>called pkt' body. rc_calls (gt_core (demo_forwarded\<lparr>gt_core := OnResponse (gt_core demo_forwarded) 1 [3] 0\<rparr>)) = rc_calls (gt_core demo_forwarded) @ [called]
     \<and> run_dispatched (demo_forwarded\<lparr>gt_core := OnResponse (gt_core demo_forwarded) 1 [3] 0\<rparr>) called
       = (if GetByConnID (gt_sessions (demo_forwarded\<lparr>gt_core := OnResponse (gt_core demo_forwarded) 1 [3] 0\<rparr>)) (ss_ConnID (sm_store (gt_sessions demo_gate) ! 0)) = Some 0
          then send_to_client (demo_forwarded\<lparr>gt_core := OnResponse (gt_core demo_forwarded) 1 [3] 0\<rparr>) \<lparr>cn_ptr = 1, cn_RemoteAddr = ''a''\<rparr> pkt'
          else demo_forwarded\<lparr>gt_core := OnResponse (gt_core demo_forwarded) 1 [3] 0\<rparr>)
     \<and> DecodePacket pkt' = Some (Inr \<lparr>pkt_Type = PacketData, pkt_Body = body\<rparr>)
     \<and> DecodeMessage body = Some (Inr \<lparr>msg_Type = MessageResponse, msg_SeqID = msg_SeqID ?msg, msg_CmdID = re_RspCmdID demo_entry, msg_ErrCode = 0, msg_Body = [3]\<rparr>))"
    by (rule client_request_answered [where evs' = "[]", THEN conjunct2, OF st(1,2) refl st(3) _ dm _ _ _ ds(3) st(6) demo_forwarded_def])
      (simp_all add: ds same st pt)
  then show ?thesis by (simp add: same st(4,5) ds)
qed

text \<open>What the gate queues for a client is what the client reads: the packets of the queue, written
  in whatever batches of at most sixteen, are read back exactly and in order, however the stream is cut.\<close>

theorem gate_to_client_exact:
  assumes "list_all2 (\<lambda>p bs. EncodePacket p = Inr bs) ps q" and "concat cs = concat (tcp_write_all arrived buf q)"
  shows "feed tcp_step [] cs = (ps, Some [])"
proof -
  have q: "q = map packet_bytes ps" and ok: "\<forall>p \<in> set ps. packet_ok p"
    using assms(1) by (induction rule: list_all2_induct) (auto simp: EncodePacket_eq packet_ok_def split: if_splits)
  have "concat (tcp_write_all arrived buf q) = concat q"
    using tcp_writer.write_all_ok [of q] by (simp add: tcp_write_all_def)
  with assms(2) q ok tcp.feed_encoded [of ps cs] show ?thesis by simp
qed

theorem gate_to_client_exact_witness:
  "feed tcp_step [] [concat (tcp_write_all (\<lambda>i. 0) nil_buf [[4, 0, 0, 1, 42], [3, 0, 0, 0]])]
   = ([\<lparr>pkt_Type = 4, pkt_Body = [42]\<rparr>, \<lparr>pkt_Type = 3, pkt_Body = []\<rparr>], Some [])"
  by (rule gate_to_client_exact [where buf = nil_buf and q = "[[4, 0, 0, 1, 42], [3, 0, 0, 0]]"])
    (simp_all add: EncodePacket_eq packet_bytes_def numeral_3_eq_3)

end
