(* ===== verification/Acceptors.thy ===== *)
theory Acceptors
  imports Gate "HOL-Library.Multiset"
begin

text \<open>
  The acceptors of the gate (\<^verbatim>\<open>internal/core/acceptor\<close>) as step relations of the goroutines that accept,
  the consumer of the channel and \<^verbatim>\<open>Close\<close>, and the WebSocket connection with its loops. Connections
  are numbers; the outcomes of system calls are arguments or choices of the relation.
\<close>

section \<open>State\<close>

text \<open>
  \<open>ac_held\<close> are connections that a goroutine has accepted and waits to hand over, \<open>ac_shut\<close> those that it
  has closed instead; \<open>ac_seen\<close> records what has been accepted.
\<close>

record acceptor =
  ac_addr :: string
  ac_path :: string
  ac_listened :: bool
  ac_ln :: bool
  ac_loop :: bool
  ac_done :: bool
  ac_ch :: "nat list"
  ac_held :: "nat list"
  ac_taken :: "nat list"
  ac_shut :: "nat list"
  ac_seen :: "nat list"

definition acceptor_cap :: nat where "acceptor_cap = 64"

definition NewTCPAcceptor :: "string \<Rightarrow> acceptor" where
  "NewTCPAcceptor addr = \<lparr>ac_addr = addr, ac_path = [], ac_listened = False, ac_ln = False, ac_loop = False, ac_done = False,
     ac_ch = [], ac_held = [], ac_taken = [], ac_shut = [], ac_seen = []\<rparr>"

definition NewWSAcceptor :: "string \<Rightarrow> string \<Rightarrow> acceptor" where
  "NewWSAcceptor addr path = (NewTCPAcceptor addr)\<lparr>ac_path := (if path = [] then ''/ws'' else path)\<rparr>"

text \<open>\<^verbatim>\<open>sync.Once\<close> is consumed by the first call, also when listening fails.\<close>

definition listen_once :: "string \<Rightarrow> string option \<Rightarrow> acceptor \<Rightarrow> acceptor \<times> string option" where
  "listen_once empty_err outcome a =
     (if ac_addr a = [] then (a, Some empty_err)
      else if ac_listened a then (a, None)
      else (case outcome of
              Some e \<Rightarrow> (a\<lparr>ac_listened := True\<rparr>, Some e)
            | None \<Rightarrow> (a\<lparr>ac_listened := True, ac_ln := True, ac_loop := True\<rparr>, None)))"

definition TCP_Listen :: "string option \<Rightarrow> acceptor \<Rightarrow> acceptor \<times> string option" where
  "TCP_Listen = listen_once ''acceptor: empty listen addr''"

definition WS_Listen :: "string option \<Rightarrow> acceptor \<Rightarrow> acceptor \<times> string option" where
  "WS_Listen = listen_once ''ws acceptor: empty listen addr''"

definition TCP_Close :: "string option \<Rightarrow> acceptor \<Rightarrow> acceptor \<times> string option" where
  "TCP_Close closeErr a = (if ac_done a then (a, None) else (a\<lparr>ac_done := True, ac_ln := False\<rparr>, if ac_ln a then closeErr else None))"

text \<open>The listener of the WebSocket acceptor is closed later, by \<^verbatim>\<open>shutdownWatch\<close>.\<close>

definition WS_Close :: "acceptor \<Rightarrow> acceptor \<times> string option" where
  "WS_Close a = (a\<lparr>ac_done := True\<rparr>, None)"

definition handed_over :: "nat \<Rightarrow> acceptor \<Rightarrow> acceptor" where
  "handed_over c a = a\<lparr>ac_held := remove1 c (ac_held a), ac_ch := ac_ch a @ [c]\<rparr>"

definition turned_away :: "nat \<Rightarrow> acceptor \<Rightarrow> acceptor" where
  "turned_away c a = a\<lparr>ac_held := remove1 c (ac_held a), ac_shut := ac_shut a @ [c]\<rparr>"

section \<open>Steps\<close>

text \<open>
  One loop accepts TCP connections one at a time. An error of \<^verbatim>\<open>Accept\<close> ends it when the acceptor is
  closed and is retried at once otherwise.
\<close>

inductive tcp_acceptor_step :: "acceptor \<Rightarrow> acceptor \<Rightarrow> bool" where
  accept: "ac_loop a \<Longrightarrow> ac_ln a \<Longrightarrow> ac_held a = [] \<Longrightarrow> c \<notin> set (ac_seen a) \<Longrightarrow> tcp_acceptor_step a (a\<lparr>ac_held := [c], ac_seen := ac_seen a @ [c]\<rparr>)"
| accept_error: "ac_loop a \<Longrightarrow> ac_held a = [] \<Longrightarrow> tcp_acceptor_step a (a\<lparr>ac_loop := \<not> ac_done a\<rparr>)"
| hand_over: "ac_held a = [c] \<Longrightarrow> length (ac_ch a) < acceptor_cap \<Longrightarrow> tcp_acceptor_step a (handed_over c a)"
| turn_away: "ac_held a = [c] \<Longrightarrow> ac_done a \<Longrightarrow> tcp_acceptor_step a ((turned_away c a)\<lparr>ac_loop := False\<rparr>)"
| take: "ac_ch a = c # cs \<Longrightarrow> tcp_acceptor_step a (a\<lparr>ac_ch := cs, ac_taken := ac_taken a @ [c]\<rparr>)"
| listen: "tcp_acceptor_step a (fst (TCP_Listen r a))"
| close: "tcp_acceptor_step a (fst (TCP_Close r a))"

text \<open>Every WebSocket request has a handler of its own; a failed upgrade leaves no connection.\<close>

inductive ws_acceptor_step :: "acceptor \<Rightarrow> acceptor \<Rightarrow> bool" where
  upgrade: "ac_ln a \<Longrightarrow> c \<notin> set (ac_seen a) \<Longrightarrow> ws_acceptor_step a (a\<lparr>ac_held := ac_held a @ [c], ac_seen := ac_seen a @ [c]\<rparr>)"
| hand_over: "c \<in> set (ac_held a) \<Longrightarrow> length (ac_ch a) < acceptor_cap \<Longrightarrow> ws_acceptor_step a (handed_over c a)"
| turn_away: "c \<in> set (ac_held a) \<Longrightarrow> ac_done a \<Longrightarrow> ws_acceptor_step a (turned_away c a)"
| take: "ac_ch a = c # cs \<Longrightarrow> ws_acceptor_step a (a\<lparr>ac_ch := cs, ac_taken := ac_taken a @ [c]\<rparr>)"
| shutdown: "ac_done a \<Longrightarrow> ws_acceptor_step a (a\<lparr>ac_ln := False\<rparr>)"
| listen: "ws_acceptor_step a (fst (WS_Listen r a))"
| close: "ws_acceptor_step a (fst (WS_Close a))"

inductive_cases tcp_acceptor_stepE: "tcp_acceptor_step a b"
inductive_cases ws_acceptor_stepE: "ws_acceptor_step a b"

definition tcp_inv :: "acceptor \<Rightarrow> bool" where
  "tcp_inv a \<longleftrightarrow> ac_seen a = ac_taken a @ ac_ch a @ ac_held a @ ac_shut a \<and> length (ac_ch a) \<le> acceptor_cap
     \<and> (ac_shut a \<noteq> [] \<longrightarrow> \<not> ac_loop a \<and> ac_listened a) \<and> (ac_held a \<noteq> [] \<longrightarrow> ac_shut a = [] \<and> ac_listened a)
     \<and> distinct (ac_taken a @ ac_ch a @ ac_held a @ ac_shut a)
     \<and> (ac_loop a \<longrightarrow> ac_listened a)"

lemma tcp_inv_step: "tcp_acceptor_step a b \<Longrightarrow> tcp_inv a \<Longrightarrow> tcp_inv b"
proof (induction rule: tcp_acceptor_step.induct)
  case (listen a r)
  then show ?case by (auto simp: tcp_inv_def TCP_Listen_def listen_once_def split: option.splits)
next
  case (close a r)
  then show ?case by (simp add: tcp_inv_def TCP_Close_def)
qed (auto simp: tcp_inv_def handed_over_def turned_away_def)

text \<open>Connections that have been accepted are taken, wait in the channel or at its end, or are closed, in order.\<close>

lemma tcp_conserved:
  assumes "tcp_acceptor_step\<^sup>*\<^sup>* (NewTCPAcceptor addr) a"
  shows "ac_seen a = ac_taken a @ ac_ch a @ ac_held a @ ac_shut a \<and> distinct (ac_seen a)"
proof -
  have "tcp_inv (NewTCPAcceptor addr)" by (simp add: tcp_inv_def NewTCPAcceptor_def)
  from assms this have "tcp_inv a" by (induction rule: rtranclp_induct) (assumption, rule tcp_inv_step)
  then show ?thesis by (simp add: tcp_inv_def)
qed

definition ws_inv :: "acceptor \<Rightarrow> bool" where
  "ws_inv a \<longleftrightarrow> mset (ac_seen a) = mset (ac_taken a) + mset (ac_ch a) + mset (ac_held a) + mset (ac_shut a) \<and> distinct (ac_seen a)
     \<and> length (ac_ch a) \<le> acceptor_cap"

lemma held_mset: "c \<in> set xs \<Longrightarrow> mset xs = add_mset c (mset (remove1 c xs))"
  by (simp add: in_multiset_in_set)

lemma ws_inv_step: "ws_acceptor_step a b \<Longrightarrow> ws_inv a \<Longrightarrow> ws_inv b"
proof (induction rule: ws_acceptor_step.induct)
  case (hand_over c a)
  with held_mset [OF hand_over(1)] show ?case by (simp add: ws_inv_def handed_over_def del: mset_remove1)
next
  case (turn_away c a)
  with held_mset [OF turn_away(1)] show ?case by (simp add: ws_inv_def turned_away_def del: mset_remove1)
next
  case (listen a r)
  then show ?case by (auto simp: ws_inv_def WS_Listen_def listen_once_def split: option.splits)
qed (simp_all add: ws_inv_def WS_Close_def)

lemma ws_conserved:
  assumes "ws_acceptor_step\<^sup>*\<^sup>* (NewWSAcceptor addr path) a"
  shows "mset (ac_seen a) = mset (ac_taken a) + mset (ac_ch a) + mset (ac_held a) + mset (ac_shut a)"
proof -
  have "ws_inv (NewWSAcceptor addr path)" by (simp add: ws_inv_def NewWSAcceptor_def NewTCPAcceptor_def)
  from assms this have "ws_inv a" by (induction rule: rtranclp_induct) (assumption, rule ws_inv_step)
  then show ?thesis by (simp add: ws_inv_def)
qed

section \<open>Weak points\<close>

text \<open>A second call of \<^verbatim>\<open>Listen\<close> after a failed one reports success although nothing listens.\<close>

lemma listen_again_reports_success:
  assumes "addr \<noteq> []" and "TCP_Listen (Some e) (NewTCPAcceptor addr) = (a, r)"
  shows "r = Some e \<and> TCP_Listen None a = (a, None) \<and> \<not> ac_ln a"
  using assms by (auto simp: TCP_Listen_def listen_once_def NewTCPAcceptor_def)

text \<open>An acceptor that is closed while connections wait in its channel leaves them open.\<close>

lemma queued_conn_left_open:
  "\<exists>a. tcp_acceptor_step\<^sup>*\<^sup>* (NewTCPAcceptor ''h:1'') a \<and> ac_done a \<and> \<not> ac_loop a \<and> ac_ch a = [7] \<and> ac_shut a = []"
proof -
  let ?a0 = "NewTCPAcceptor ''h:1''"
  let ?a1 = "fst (TCP_Listen None ?a0)"
  let ?a2 = "?a1\<lparr>ac_held := [7], ac_seen := ac_seen ?a1 @ [7]\<rparr>"
  let ?a3 = "handed_over 7 ?a2"
  let ?a4 = "fst (TCP_Close None ?a3)"
  let ?a5 = "?a4\<lparr>ac_loop := \<not> ac_done ?a4\<rparr>"
  note defs = TCP_Listen_def listen_once_def NewTCPAcceptor_def handed_over_def TCP_Close_def acceptor_cap_def
  have "tcp_acceptor_step ?a0 ?a1" by (rule tcp_acceptor_step.listen)
  moreover have "tcp_acceptor_step ?a1 ?a2" by (rule tcp_acceptor_step.accept) (simp_all add: defs)
  moreover have "tcp_acceptor_step ?a2 ?a3" by (rule tcp_acceptor_step.hand_over) (simp_all add: defs)
  moreover have "tcp_acceptor_step ?a3 ?a4" by (rule tcp_acceptor_step.close)
  moreover have "tcp_acceptor_step ?a4 ?a5" by (rule tcp_acceptor_step.accept_error) (simp_all add: defs)
  ultimately have "tcp_acceptor_step\<^sup>*\<^sup>* ?a0 ?a5" by (meson converse_rtranclp_into_rtranclp rtranclp.rtrancl_refl)
  then show ?thesis by (intro exI [of _ ?a5]) (simp add: defs)
qed

section \<open>WebSocket connections\<close>

record wsConnection =
  ws_done :: bool
  ws_lastRecv :: int
  ws_recvCh :: "Packet list"
  ws_recvClosed :: bool
  ws_sendCh :: "bytes list"
  ws_written :: "bytes list"

definition new_ws :: "int \<Rightarrow> wsConnection" where
  "new_ws now = \<lparr>ws_done = False, ws_lastRecv = now, ws_recvCh = [], ws_recvClosed = False, ws_sendCh = [], ws_written = []\<rparr>"

text \<open>\<open>pick_done\<close> is the choice of \<^verbatim>\<open>select\<close> when the connection is closed and the queue has room.\<close>

definition WS_Send :: "bool \<Rightarrow> bytes \<Rightarrow> wsConnection \<Rightarrow> wsConnection" where
  "WS_Send pick_done data c =
     (if data = [] then c
      else if ws_done c \<and> (pick_done \<or> 256 \<le> length (ws_sendCh c)) then c
      else if length (ws_sendCh c) < 256 then c\<lparr>ws_sendCh := ws_sendCh c @ [data]\<rparr>
      else c)"

definition WSConn_Close :: "wsConnection \<Rightarrow> wsConnection" where
  "WSConn_Close c = c\<lparr>ws_done := True\<rparr>"

text \<open>One round of the write loop: the case that \<^verbatim>\<open>select\<close> takes, with the outcome of the write.\<close>

datatype ws_write_round = WriteStops | WriteData bool | WritePing bool

fun ws_write :: "wsConnection \<Rightarrow> ws_write_round \<Rightarrow> wsConnection \<times> bool" where
  "ws_write c WriteStops = (c, \<not> ws_done c)"
| "ws_write c (WriteData ok) =
     (case ws_sendCh c of
        [] \<Rightarrow> (c, True)
      | d # ds \<Rightarrow> if ok then (c\<lparr>ws_sendCh := ds, ws_written := ws_written c @ [d]\<rparr>, True) else (WSConn_Close (c\<lparr>ws_sendCh := ds\<rparr>), False))"
| "ws_write c (WritePing ok) = (if ok then (c, True) else (WSConn_Close c, False))"

fun ws_writeLoop :: "wsConnection \<Rightarrow> ws_write_round list \<Rightarrow> wsConnection" where
  "ws_writeLoop c [] = c"
| "ws_writeLoop c (r # rs) = (case ws_write c r of (c1, True) \<Rightarrow> ws_writeLoop c1 rs | (c1, False) \<Rightarrow> c1)"

text \<open>
  The read loop: a failed read closes the connection; \<open>quit\<close> is the choice of \<^verbatim>\<open>select\<close> when the connection
  is closed while a packet is handed over. \<open>ws_recvCh\<close> records the packets handed to the consumer.
\<close>

datatype ws_read_round = ReadFails | ReadMessage int bytes bool

definition ws_packet :: "bytes \<Rightarrow> Packet option" where
  "ws_packet raw = (if length raw < 4 then None else (case DecodePacket raw of Some (Inr p) \<Rightarrow> Some p | _ \<Rightarrow> None))"

fun ws_readLoop :: "wsConnection \<Rightarrow> ws_read_round list \<Rightarrow> wsConnection" where
  "ws_readLoop c [] = c"
| "ws_readLoop c (ReadFails # rs) = (WSConn_Close c)\<lparr>ws_recvClosed := True\<rparr>"
| "ws_readLoop c (ReadMessage now raw quit # rs) =
     (let c1 = c\<lparr>ws_lastRecv := now\<rparr> in
      case ws_packet raw of
        None \<Rightarrow> ws_readLoop c1 rs
      | Some p \<Rightarrow> if ws_done c1 \<and> quit then c1\<lparr>ws_recvClosed := True\<rparr>
                  else ws_readLoop (c1\<lparr>ws_recvCh := ws_recvCh c1 @ [p]\<rparr>) rs)"

text \<open>The decoder cannot panic on what reaches it.\<close>

lemma ws_packet_no_panic: "4 \<le> length raw \<Longrightarrow> DecodePacket raw \<noteq> None"
  by (auto simp: DecodePacket_eq)

abbreviation received :: "int \<times> bytes \<Rightarrow> ws_read_round" where
  "received m \<equiv> ReadMessage (fst m) (snd m) False"

lemma ws_read_packets: "ws_recvCh (ws_readLoop c (map received ms)) = ws_recvCh c @ List.map_filter (ws_packet \<circ> snd) ms"
  by (induction ms arbitrary: c) (auto simp: map_filter_simps split: option.splits)

text \<open>The loop ends with the channel of packets closed only when the connection is closed too.\<close>

lemma ws_read_ends_closed: "\<not> ws_recvClosed c \<Longrightarrow> ws_recvClosed (ws_readLoop c rs) \<Longrightarrow> ws_done (ws_readLoop c rs)"
  by (induction c rs rule: ws_readLoop.induct) (auto simp: WSConn_Close_def Let_def split: option.splits if_splits)

text \<open>Packets that arrive as messages are the packets that a TCP connection reads from the same bytes, however they are cut.\<close>

lemma ws_equals_tcp:
  assumes "\<forall>p \<in> set ps. length (pkt_Body p) \<le> 0xFFFFFF" and "list_all2 (\<lambda>p bs. EncodePacket p = Inr bs) ps (map snd ms)" and "concat cs = concat (map snd ms)"
  shows "ws_recvCh (ws_readLoop (new_ws now) (map received ms)) = fst (feed Framing.tcp_step [] cs)"
proof -
  have "List.map_filter (ws_packet \<circ> snd) ms = ps"
    using assms(2)
  proof (induction ms arbitrary: ps)
    case (Cons m ms)
    then obtain p ps' where p: "ps = p # ps'" "EncodePacket p = Inr (snd m)" "list_all2 (\<lambda>p bs. EncodePacket p = Inr bs) ps' (map snd ms)"
      by (auto simp: list_all2_Cons2)
    have m: "snd m = packet_bytes p" "length (pkt_Body p) \<le> 0xFFFFFF" using p(2) by (auto simp: EncodePacket_eq split: if_splits)
    then have "DecodePacket (snd m) = Some (Inr p)" by (simp add: DecodePacket_packet_bytes)
    moreover have "4 \<le> length (snd m)" unfolding m(1) by (simp add: packet_bytes_def)
    ultimately show ?case using Cons.IH [OF p(3)] p(1) by (simp add: map_filter_simps ws_packet_def)
  qed (simp add: map_filter_simps)
  moreover have "map snd ms = map packet_bytes ps"
    using assms(2) by (induction rule: list_all2_induct) (auto simp: EncodePacket_eq split: if_splits)
  ultimately show ?thesis
    using tcp.feed_encoded [of ps cs] assms(1,3) by (simp add: ws_read_packets new_ws_def packet_ok_def)
qed

text \<open>What has been written or waits is what was queued, in order.\<close>

lemma ws_write_order:
  "\<exists>lost. ws_written (ws_writeLoop c rs) @ lost @ ws_sendCh (ws_writeLoop c rs) = ws_written c @ ws_sendCh c
     \<and> (lost \<noteq> [] \<longrightarrow> ws_done (ws_writeLoop c rs))"
proof (induction c rs rule: ws_writeLoop.induct)
  case (2 c r rs)
  show ?case
  proof (cases "snd (ws_write c r)")
    case True
    then have "ws_written (fst (ws_write c r)) @ ws_sendCh (fst (ws_write c r)) = ws_written c @ ws_sendCh c"
      by (cases r) (auto split: list.splits if_splits)
    with 2 True show ?thesis by (auto split: prod.splits)
  next
    case False
    then have "\<exists>lost. ws_written (fst (ws_write c r)) @ lost @ ws_sendCh (fst (ws_write c r)) = ws_written c @ ws_sendCh c
        \<and> (lost \<noteq> [] \<longrightarrow> ws_done (fst (ws_write c r)))"
      by (cases r) (auto simp: WSConn_Close_def split: list.splits if_splits)
    moreover have "ws_writeLoop c (r # rs) = fst (ws_write c r)" using False by (auto split: prod.splits bool.splits)
    ultimately show ?thesis by simp
  qed
qed simp

text \<open>Two packets in one message are dropped, while a TCP connection reads both.\<close>

lemma ws_two_packets_dropped:
  "ws_packet [1, 0, 0, 0, 2, 0, 0, 0] = None \<and> length (fst (feed Framing.tcp_step [] [[1, 0, 0, 0, 2, 0, 0, 0]])) = 2"
proof
  let ?p = "\<lambda>t. \<lparr>pkt_Type = t, pkt_Body = []\<rparr>"
  have "feed Framing.tcp_step [] [packet_bytes (?p 1) @ packet_bytes (?p 2)] = ([?p 1, ?p 2], Some [])"
    using tcp.feed_encoded [of "[?p 1, ?p 2]" "[packet_bytes (?p 1) @ packet_bytes (?p 2)]"] by (simp add: packet_ok_def)
  then show "length (fst (feed Framing.tcp_step [] [[1, 0, 0, 0, 2, 0, 0, 0]])) = 2" by (simp add: packet_bytes_def numeral_3_eq_3)
  show "ws_packet [1, 0, 0, 0, 2, 0, 0, 0] = None" by (simp add: ws_packet_def DecodePacket_eq pkt_len_def be_nat_def)
qed

end
