(* ===== verification/App_Lifecycle.thy ===== *)
theory App_Lifecycle
  imports Node_Id "HOL-Library.Char_ord"
begin

text \<open>
  The process skeleton that every server shares (\<^verbatim>\<open>internal/core/app\<close>): registration of modules, the
  builder, start and stop in order, the event loop with its signals (\<^verbatim>\<open>internal/core/process/signal.go\<close>),
  reload hooks, the readiness primitive and the names of metrics. A module is given by its name and
  by what its calls return; what happens is recorded in a log of actions.
\<close>

section \<open>Modules and applications\<close>

text \<open>\<^verbatim>\<open>WaitReady\<close> is present only for modules that implement \<^verbatim>\<open>ReadyWaiter\<close>.\<close>

record Module =
  mo_name :: string
  mo_Init :: "string option"
  mo_AfterInit :: "string option"
  mo_WaitReady :: "string option option"

datatype hook = UserHook nat | ClosePprof

datatype routine = PprofServer | Worker nat

datatype action =
    DidSet string
  | DidInit string
  | DidAfterInit string
  | DidWaitReady string
  | StartedPprof string
  | RanTask nat
  | RanReload nat
  | DidBeforeShutdown string
  | DidShutdown string
  | ClosedDieNotify
  | RanHook hook

record BaseApp =
  ba_dieClosed :: bool
  ba_dieNotifyClosed :: bool
  ba_routines :: "routine list"
  ba_running :: bool
  ba_daemon :: bool
  ba_pprof :: bool
  ba_pprofAddr :: string
  ba_nodeID :: string
  ba_nodeIDUint32 :: u32
  ba_modulesMap :: "(string, Module) gomap"
  ba_modulesArray :: "Module list"
  ba_shutdownHooks :: "hook list"
  ba_reloadHooks :: "nat list"
  ba_log :: "action list"

definition act :: "action \<Rightarrow> BaseApp \<Rightarrow> BaseApp" where
  "act x app = app\<lparr>ba_log := ba_log app @ [x]\<rparr>"

definition NewBaseApp :: "bool \<Rightarrow> bool \<Rightarrow> string \<Rightarrow> string \<Rightarrow> hook list \<Rightarrow> nat list \<Rightarrow> BaseApp" where
  "NewBaseApp daemon pprof pprofAddr nodeID shutdownHooks reloadHooks =
     \<lparr>ba_dieClosed = False, ba_dieNotifyClosed = False, ba_routines = [], ba_running = False, ba_daemon = daemon, ba_pprof = pprof,
      ba_pprofAddr = pprofAddr, ba_nodeID = nodeID, ba_nodeIDUint32 = (case nodeid_Parse nodeID of Inl _ \<Rightarrow> 0 | Inr i \<Rightarrow> i),
      ba_modulesMap = [], ba_modulesArray = [], ba_shutdownHooks = shutdownHooks, ba_reloadHooks = reloadHooks, ba_log = []\<rparr>"

text \<open>Registration; \<open>None\<close> is the nil module.\<close>

definition validateModule :: "BaseApp \<Rightarrow> Module option \<Rightarrow> string + string" where
  "validateModule app m =
     (case m of
        None \<Rightarrow> Inl ''module is nil''
      | Some mo \<Rightarrow>
          if mo_name mo = [] then Inl ''module name is empty''
          else if map_of (ba_modulesMap app) (mo_name mo) \<noteq> None then Inl (''module '' @ mo_name mo @ '' already registered'')
          else Inr (mo_name mo))"

definition RegisterModule :: "BaseApp \<Rightarrow> Module option \<Rightarrow> BaseApp \<times> string option" where
  "RegisterModule app m =
     (case validateModule app m of
        Inl e \<Rightarrow> (app, Some e)
      | Inr name \<Rightarrow>
          (app\<lparr>ba_modulesMap := mput name (the m) (ba_modulesMap app), ba_modulesArray := ba_modulesArray app @ [the m]\<rparr>, None))"

definition GetModule :: "BaseApp \<Rightarrow> string \<Rightarrow> string + Module" where
  "GetModule app name =
     (case map_of (ba_modulesMap app) name of
        Some m \<Rightarrow> Inr m
      | None \<Rightarrow> Inl (''module '' @ name @ '' not found''))"

text \<open>The builder.\<close>

record BaseBuilder =
  bb_daemon :: bool
  bb_pprof :: bool
  bb_pprofAddr :: string
  bb_nodeID :: string
  bb_modules :: "Module list"
  bb_shutdownHooks :: "hook list"
  bb_reloadHooks :: "nat list"

definition AddModule :: "BaseBuilder \<Rightarrow> Module \<Rightarrow> BaseBuilder" where
  "AddModule b m = b\<lparr>bb_modules := bb_modules b @ [m]\<rparr>"

definition AddShutdownHook :: "BaseBuilder \<Rightarrow> hook \<Rightarrow> BaseBuilder" where
  "AddShutdownHook b h = b\<lparr>bb_shutdownHooks := bb_shutdownHooks b @ [h]\<rparr>"

definition AddReloadHook :: "BaseBuilder \<Rightarrow> nat \<Rightarrow> BaseBuilder" where
  "AddReloadHook b h = b\<lparr>bb_reloadHooks := bb_reloadHooks b @ [h]\<rparr>"

fun register_all :: "BaseApp \<Rightarrow> Module list \<Rightarrow> string + BaseApp" where
  "register_all app [] = Inr app"
| "register_all app (m # ms) =
     (case RegisterModule app (Some m) of
        (app1, Some e) \<Rightarrow> Inl e
      | (app1, None) \<Rightarrow> register_all app1 ms)"

definition Build :: "BaseBuilder \<Rightarrow> string + BaseApp" where
  "Build b =
     register_all (NewBaseApp (bb_daemon b) (bb_pprof b) (bb_pprofAddr b) (bb_nodeID b) (bb_shutdownHooks b) (bb_reloadHooks b)) (bb_modules b)"

section \<open>Start, loop, stop\<close>

definition startPprof :: "BaseApp \<Rightarrow> BaseApp" where
  "startPprof app =
     (if \<not> ba_pprof app then app
      else
        let addr = (if ba_pprofAddr app = [] then ''127.0.0.1:6060'' else ba_pprofAddr app)
        in act (StartedPprof addr)
             (app\<lparr>ba_shutdownHooks := ba_shutdownHooks app @ [ClosePprof], ba_routines := ba_routines app @ [PprofServer]\<rparr>))"

text \<open>A loop over the modules that returns at the first error.\<close>

fun each_module :: "(string \<Rightarrow> action) \<Rightarrow> (Module \<Rightarrow> string option) \<Rightarrow> string \<Rightarrow> BaseApp \<Rightarrow> Module list \<Rightarrow> BaseApp \<times> string option" where
  "each_module did call what app [] = (app, None)"
| "each_module did call what app (m # ms) =
     (let app1 = act (did (mo_name m)) app in
      case call m of
        Some e \<Rightarrow> (app1, Some (what @ mo_name m @ '': '' @ e))
      | None \<Rightarrow> each_module did call what app1 ms)"

text \<open>Modules that need not be waited for are skipped.\<close>

definition waitReady :: "BaseApp \<Rightarrow> BaseApp \<times> string option" where
  "waitReady app =
     each_module DidWaitReady (\<lambda>m. the (mo_WaitReady m)) ''wait ready module '' app (filter (\<lambda>m. mo_WaitReady m \<noteq> None) (ba_modulesArray app))"

definition App_Shutdown :: "BaseApp \<Rightarrow> BaseApp" where
  "App_Shutdown app = (if ba_dieClosed app then app else app\<lparr>ba_dieClosed := True\<rparr>)"

text \<open>Reload hooks run until the first error; \<open>r\<close> is what they return.\<close>

fun run_reload :: "(nat \<Rightarrow> string option) \<Rightarrow> BaseApp \<Rightarrow> nat list \<Rightarrow> BaseApp \<times> string option" where
  "run_reload r app [] = (app, None)"
| "run_reload r app (h # hs) =
     (let app1 = act (RanReload h) app in
      case r h of Some e \<Rightarrow> (app1, Some (''reload hook: '' @ e)) | None \<Rightarrow> run_reload r app1 hs)"

definition App_Reload :: "BaseApp \<Rightarrow> (nat \<Rightarrow> string option) \<Rightarrow> BaseApp \<times> string option" where
  "App_Reload app r = run_reload r app (ba_reloadHooks app)"

datatype signal = SIGINT | SIGQUIT | SIGTERM | SIGHUP | OtherSignal

definition IsTerminateSignal :: "signal \<Rightarrow> bool" where "IsTerminateSignal s \<longleftrightarrow> s = SIGINT \<or> s = SIGQUIT"
definition IsDrainSignal :: "signal \<Rightarrow> bool" where "IsDrainSignal s \<longleftrightarrow> s = SIGTERM"
definition IsReloadSignal :: "signal \<Rightarrow> bool" where "IsReloadSignal s \<longleftrightarrow> s = SIGHUP"

text \<open>
  What the select of the loop receives: a posted task (which may call \<^verbatim>\<open>Shutdown\<close>), the end or a value
  of the die channel, a signal. The loop returns whether it has ended.
\<close>

datatype loop_input = PostedTask nat bool | DieReceived | SignalReceived signal "nat \<Rightarrow> string option"

fun runLoop :: "BaseApp \<Rightarrow> loop_input list \<Rightarrow> BaseApp \<times> bool" where
  "runLoop app [] = (app, False)"
| "runLoop app (PostedTask n stops # is) = runLoop (act (RanTask n) (if stops then App_Shutdown app else app)) is"
| "runLoop app (DieReceived # is) = (app, True)"
| "runLoop app (SignalReceived sig r # is) =
     (if IsTerminateSignal sig then (app, True)
      else if IsDrainSignal sig then (app, True)
      else if IsReloadSignal sig then runLoop (fst (App_Reload app r)) is
      else (app, True))"

definition shutdownAllModules :: "BaseApp \<Rightarrow> BaseApp" where
  "shutdownAllModules app =
     foldl (\<lambda>app m. act (DidShutdown (mo_name m)) app)
       (foldl (\<lambda>app m. act (DidBeforeShutdown (mo_name m)) app) app (rev (ba_modulesArray app))) (rev (ba_modulesArray app))"

definition shutdownAllHooks :: "BaseApp \<Rightarrow> BaseApp" where
  "shutdownAllHooks app = foldl (\<lambda>app h. act (RanHook h) app) app (rev (ba_shutdownHooks app))"

text \<open>
  A goroutine of the wait group: the pprof server runs until it is closed or cannot listen; the others
  watch the die notification.
\<close>

fun routine_ended :: "bool \<Rightarrow> BaseApp \<Rightarrow> routine \<Rightarrow> bool" where
  "routine_ended listenFails app PprofServer = (listenFails \<or> RanHook ClosePprof \<in> set (ba_log app))"
| "routine_ended listenFails app (Worker n) = ba_dieNotifyClosed app"

datatype startup_result = StartupFailed string | StillRunning | WaitsForRoutines | StartupReturned

text \<open>The part of \<^verbatim>\<open>Startup\<close> after the loop.\<close>

definition stop_app :: "bool \<Rightarrow> BaseApp \<Rightarrow> BaseApp \<times> startup_result" where
  "stop_app listenFails app =
     (let app1 = shutdownAllModules (App_Shutdown (app\<lparr>ba_running := False\<rparr>));
          app2 = act ClosedDieNotify (app1\<lparr>ba_dieNotifyClosed := True\<rparr>)
      in if list_all (routine_ended listenFails app2) (ba_routines app2) then (shutdownAllHooks app2, StartupReturned) else (app2, WaitsForRoutines))"

definition Startup :: "bool \<Rightarrow> BaseApp \<Rightarrow> loop_input list \<Rightarrow> BaseApp \<times> startup_result" where
  "Startup listenFails app inputs =
     (if ba_running app then (app, StartupFailed ''app has running'')
      else
        let app1 = startPprof app;
            app2 = foldl (\<lambda>app m. act (DidSet (mo_name m)) app) app1 (ba_modulesArray app1)
        in case each_module DidInit mo_Init ''init module '' app2 (ba_modulesArray app2) of
             (app3, Some e) \<Rightarrow> (app3, StartupFailed e)
           | (app3, None) \<Rightarrow>
               (case each_module DidAfterInit mo_AfterInit ''after init module '' app3 (ba_modulesArray app3) of
                  (app4, Some e) \<Rightarrow> (app4, StartupFailed e)
                | (app4, None) \<Rightarrow>
                    (case waitReady app4 of
                       (app5, Some e) \<Rightarrow> (app5, StartupFailed e)
                     | (app5, None) \<Rightarrow>
                         (case runLoop (app5\<lparr>ba_running := True\<rparr>) inputs of
                            (app6, False) \<Rightarrow> (app6, StillRunning)
                          | (app6, True) \<Rightarrow> stop_app listenFails app6))))"

section \<open>Readiness\<close>

text \<open>\<^verbatim>\<open>Ready\<close>: the outcome is fixed by the first call; \<^verbatim>\<open>WaitReady\<close> blocks until then or until its context ends.\<close>

record Ready =
  rd_closed :: bool
  rd_err :: "string option"

definition NewReady :: Ready where "NewReady = \<lparr>rd_closed = False, rd_err = None\<rparr>"

definition Ready_Done :: "Ready \<Rightarrow> Ready" where
  "Ready_Done r = (if rd_closed r then r else r\<lparr>rd_closed := True\<rparr>)"

definition Ready_Fail :: "Ready \<Rightarrow> string \<Rightarrow> Ready" where
  "Ready_Fail r e = (if rd_closed r then r else r\<lparr>rd_err := Some e, rd_closed := True\<rparr>)"

definition WaitReady :: "Ready \<Rightarrow> string option \<Rightarrow> string option option" where
  "WaitReady r ctxErr = (if rd_closed r then Some (rd_err r) else map_option Some ctxErr)"

section \<open>Metric names\<close>

definition metric_char :: "char \<Rightarrow> bool" where
  "metric_char c \<longleftrightarrow> (CHR ''a'' \<le> c \<and> c \<le> CHR ''z'') \<or> (CHR ''A'' \<le> c \<and> c \<le> CHR ''Z'') \<or> (CHR ''0'' \<le> c \<and> c \<le> CHR ''9'') \<or> c = CHR ''_''"

text \<open>On ASCII names, where a rune is one character.\<close>

definition sanitizeMetricName :: "string \<Rightarrow> string" where
  "sanitizeMetricName s =
     (let b = foldl (\<lambda>b r. b @ [if metric_char r then r else CHR ''_'']) [] s in if b = [] then ''unknown'' else b)"

section \<open>Registered modules\<close>

definition modules_ok :: "BaseApp \<Rightarrow> bool" where
  "modules_ok app \<longleftrightarrow> distinct (map mo_name (ba_modulesArray app)) \<and> [] \<notin> set (map mo_name (ba_modulesArray app))
     \<and> (\<forall>n. map_of (ba_modulesMap app) n = find (\<lambda>m. mo_name m = n) (ba_modulesArray app))"

lemma modules_ok_New: "modules_ok (NewBaseApp d p a n hs rs)"
  by (simp add: modules_ok_def NewBaseApp_def)

lemma modules_ok_Register:
  assumes "modules_ok app" and "RegisterModule app m = (app', e)"
  shows "modules_ok app' \<and> (e = None \<longrightarrow> (\<exists>mo. m = Some mo \<and> ba_modulesArray app' = ba_modulesArray app @ [mo] \<and> GetModule app' (mo_name mo) = Inr mo))
    \<and> (e \<noteq> None \<longrightarrow> app' = app)"
proof (cases "validateModule app m")
  case (Inl x)
  with assms show ?thesis by (auto simp: RegisterModule_def)
next
  case (Inr name)
  then obtain mo where m: "m = Some mo" "name = mo_name mo" "mo_name mo \<noteq> []" "map_of (ba_modulesMap app) (mo_name mo) = None"
    by (auto simp: validateModule_def split: option.splits if_splits)
  have "find (\<lambda>x. mo_name x = mo_name mo) (ba_modulesArray app) = None" using assms(1) m(4) by (simp add: modules_ok_def)
  then have fresh: "mo_name mo \<notin> set (map mo_name (ba_modulesArray app))" by (auto simp: find_None_iff)
  have app: "find P (xs @ [x]) = (case find P xs of Some y \<Rightarrow> Some y | None \<Rightarrow> if P x then Some x else None)" for P :: "Module \<Rightarrow> bool" and xs x
    by (induction xs) auto
  have app': "app' = app\<lparr>ba_modulesMap := mput (mo_name mo) mo (ba_modulesMap app), ba_modulesArray := ba_modulesArray app @ [mo]\<rparr>" "e = None"
    using assms(2) Inr m by (auto simp: RegisterModule_def)
  show ?thesis
    using assms(1) m(3,4) fresh by (auto simp: modules_ok_def app' app GetModule_def m(1) split: option.splits)
qed

lemma register_all_ok:
  assumes "modules_ok app" and "register_all app ms = Inr app'"
  shows "modules_ok app' \<and> ba_modulesArray app' = ba_modulesArray app @ ms \<and> ba_log app' = ba_log app \<and> ba_running app' = ba_running app
    \<and> ba_shutdownHooks app' = ba_shutdownHooks app \<and> ba_routines app' = ba_routines app \<and> ba_pprof app' = ba_pprof app"
  using assms
proof (induction ms arbitrary: app)
  case (Cons m ms)
  obtain app1 e where r: "RegisterModule app (Some m) = (app1, e)" by fastforce
  with Cons.prems(2) have e: "e = None" by (cases e) auto
  have "ba_log app1 = ba_log app \<and> ba_running app1 = ba_running app \<and> ba_shutdownHooks app1 = ba_shutdownHooks app \<and> ba_routines app1 = ba_routines app
      \<and> ba_pprof app1 = ba_pprof app"
    using r by (auto simp: RegisterModule_def split: sum.splits)
  moreover have "modules_ok app1 \<and> ba_modulesArray app1 = ba_modulesArray app @ [m]"
    using modules_ok_Register [OF Cons.prems(1) r] e by auto
  ultimately show ?case using Cons.IH [of app1] Cons.prems(2) r e by simp
qed simp

section \<open>Order of the lifecycle\<close>

lemma act_fields [simp]:
  "ba_log (act x app) = ba_log app @ [x]" "ba_modulesArray (act x app) = ba_modulesArray app" "ba_shutdownHooks (act x app) = ba_shutdownHooks app"
  "ba_routines (act x app) = ba_routines app" "ba_running (act x app) = ba_running app" "ba_dieNotifyClosed (act x app) = ba_dieNotifyClosed app"
  by (simp_all add: act_def)

text \<open>What a part of the lifecycle leaves alone.\<close>

definition frame :: "BaseApp \<Rightarrow> BaseApp \<Rightarrow> bool" where
  "frame app app' \<longleftrightarrow> ba_modulesArray app' = ba_modulesArray app \<and> ba_shutdownHooks app' = ba_shutdownHooks app \<and> ba_routines app' = ba_routines app"

lemma frameI: "frame app app" "frame app app1 \<Longrightarrow> frame app1 app2 \<Longrightarrow> frame app app2" "frame app (act x app)" "frame app (App_Shutdown app)"
  by (auto simp: frame_def App_Shutdown_def)

lemma frame_act [simp]: "frame (act x app) app' = frame app app'" "frame (App_Shutdown app) app' = frame app app'"
  by (auto simp: frame_def App_Shutdown_def)

lemma foldl_act: "ba_log (foldl (\<lambda>app x. act (f x) app) app xs) = ba_log app @ map f xs" "frame app (foldl (\<lambda>app x. act (f x) app) app xs)"
  by (induction xs arbitrary: app) (simp_all add: frame_def)

lemma each_module_log:
  assumes "each_module did call what app ms = (app', e)"
  shows "frame app app' \<and> (\<exists>ns. ba_log app' = ba_log app @ map did ns \<and> (e = None \<longrightarrow> ns = map mo_name ms) \<and> (\<exists>ys. map mo_name ms = ns @ ys))"
  using assms
proof (induction ms arbitrary: app)
  case (Cons m ms)
  show ?case
  proof (cases "call m")
    case (Some x)
    with Cons.prems have "frame app app'" "ba_log app' = ba_log app @ map did [mo_name m]" "e \<noteq> None" "map mo_name (m # ms) = [mo_name m] @ map mo_name ms"
      by (auto intro: frameI)
    then show ?thesis by blast
  next
    case None
    then have "each_module did call what (act (did (mo_name m)) app) ms = (app', e)" using Cons.prems by simp
    from Cons.IH [OF this] obtain ns where ns: "frame (act (did (mo_name m)) app) app'"
      "ba_log app' = ba_log app @ map did (mo_name m # ns)" "e = None \<longrightarrow> ns = map mo_name ms" "\<exists>ys. map mo_name ms = ns @ ys" by auto
    obtain ys where ys: "map mo_name ms = ns @ ys" using ns(4) by blast
    show ?thesis by (intro conjI exI [of _ "mo_name m # ns"] exI [of _ ys]) (use ns(1-3) ys in simp_all)
  qed
qed (auto intro: frameI)

fun loop_action :: "action \<Rightarrow> bool" where
  "loop_action (RanTask n) = True"
| "loop_action (RanReload n) = True"
| "loop_action x = False"

lemma run_reload_log: "\<exists>xs. ba_log (fst (run_reload r app hs)) = ba_log app @ xs \<and> list_all loop_action xs \<and> frame app (fst (run_reload r app hs))"
proof (induction hs arbitrary: app)
  case (Cons h hs)
  obtain xs where "ba_log (fst (run_reload r (act (RanReload h) app) hs)) = ba_log app @ RanReload h # xs" "list_all loop_action xs"
    "frame (act (RanReload h) app) (fst (run_reload r (act (RanReload h) app) hs))" using Cons.IH [of "act (RanReload h) app"] by auto
  then show ?case by (auto simp: Let_def intro: frameI split: option.splits)
qed (auto intro: frameI)

lemma runLoop_log:
  "runLoop app is = (app', ended) \<Longrightarrow> \<exists>xs. ba_log app' = ba_log app @ xs \<and> list_all loop_action xs \<and> frame app app'"
proof (induction app "is" arbitrary: app' rule: runLoop.induct)
  case (2 app n stops "is")
  let ?app = "if stops then App_Shutdown app else app"
  from 2 obtain xs where xs: "ba_log app' = ba_log (act (RanTask n) ?app) @ xs" "list_all loop_action xs" "frame (act (RanTask n) ?app) app'" by auto
  have "ba_log ?app = ba_log app" by (simp add: App_Shutdown_def)
  with xs show ?case by (auto intro!: exI [of _ "RanTask n # xs"] split: if_splits)
next
  case (4 app sig r "is")
  show ?case
  proof (cases "IsTerminateSignal sig \<or> IsDrainSignal sig \<or> \<not> IsReloadSignal sig")
    case True
    with 4 show ?thesis by (auto intro: frameI split: if_splits)
  next
    case False
    with 4 obtain ys where "ba_log app' = ba_log (fst (App_Reload app r)) @ ys" "list_all loop_action ys" "frame (fst (App_Reload app r)) app'" by auto
    moreover obtain xs where "ba_log (fst (App_Reload app r)) = ba_log app @ xs" "list_all loop_action xs" "frame app (fst (App_Reload app r))"
      using run_reload_log [of r app "ba_reloadHooks app"] by (auto simp: App_Reload_def)
    ultimately show ?thesis by (auto intro: frameI)
  qed
qed (auto intro: frameI)

text \<open>What a complete start and a complete stop of the modules leave in the log.\<close>

definition started_log :: "Module list \<Rightarrow> action list" where
  "started_log ms = map (DidSet \<circ> mo_name) ms @ map (DidInit \<circ> mo_name) ms @ map (DidAfterInit \<circ> mo_name) ms
     @ map (DidWaitReady \<circ> mo_name) (filter (\<lambda>m. mo_WaitReady m \<noteq> None) ms)"

definition stopped_log :: "Module list \<Rightarrow> action list" where
  "stopped_log ms = map (DidBeforeShutdown \<circ> mo_name) (rev ms) @ map (DidShutdown \<circ> mo_name) (rev ms) @ [ClosedDieNotify]"

lemma stop_app_log:
  assumes "stop_app listenFails app = (app', res)" and "RanHook ClosePprof \<notin> set (ba_log app)" and "set (ba_routines app) \<subseteq> {PprofServer}"
  shows "ba_log app' = ba_log app @ stopped_log (ba_modulesArray app) @ (if res = StartupReturned then map RanHook (rev (ba_shutdownHooks app)) else [])
    \<and> res = (if ba_routines app = [] \<or> listenFails then StartupReturned else WaitsForRoutines)"
proof -
  let ?app = "App_Shutdown (app\<lparr>ba_running := False\<rparr>)"
  have a: "ba_log ?app = ba_log app" "ba_modulesArray ?app = ba_modulesArray app" "ba_shutdownHooks ?app = ba_shutdownHooks app" "ba_routines ?app = ba_routines app"
    by (simp_all add: App_Shutdown_def)
  define app2 where "app2 = act ClosedDieNotify (shutdownAllModules ?app\<lparr>ba_dieNotifyClosed := True\<rparr>)"
  have f: "frame ?app (shutdownAllModules ?app)" unfolding shutdownAllModules_def by (rule frameI(2) [OF foldl_act(2) foldl_act(2)])
  have l: "ba_log app2 = ba_log app @ stopped_log (ba_modulesArray app)"
    by (simp add: app2_def shutdownAllModules_def foldl_act a stopped_log_def)
  have r: "ba_routines app2 = ba_routines app" "ba_shutdownHooks app2 = ba_shutdownHooks app" using f a by (simp_all add: app2_def frame_def)
  have "routine_ended listenFails app2 PprofServer \<longleftrightarrow> listenFails" using assms(2) by (auto simp: l stopped_log_def)
  then have "list_all (routine_ended listenFails app2) (ba_routines app2) \<longleftrightarrow> ba_routines app = [] \<or> listenFails"
    using assms(3) by (cases "ba_routines app") (auto simp: r list_all_iff)
  moreover have "stop_app listenFails app =
      (if list_all (routine_ended listenFails app2) (ba_routines app2) then (shutdownAllHooks app2, StartupReturned) else (app2, WaitsForRoutines))"
    unfolding stop_app_def Let_def app2_def by (rule refl)
  ultimately show ?thesis using assms(1) by (auto simp: shutdownAllHooks_def foldl_act l r split: if_splits)
qed

text \<open>The start of the modules as one step: it ends with a prefix of its log and an error, or completely.\<close>

definition start_modules :: "BaseApp \<Rightarrow> BaseApp \<times> string option" where
  "start_modules app =
     (let app1 = startPprof app; app2 = foldl (\<lambda>app m. act (DidSet (mo_name m)) app) app1 (ba_modulesArray app1) in
      case each_module DidInit mo_Init ''init module '' app2 (ba_modulesArray app2) of
        (app3, Some e) \<Rightarrow> (app3, Some e)
      | (app3, None) \<Rightarrow>
          (case each_module DidAfterInit mo_AfterInit ''after init module '' app3 (ba_modulesArray app3) of
             (app4, Some e) \<Rightarrow> (app4, Some e)
           | (app4, None) \<Rightarrow> waitReady app4))"

lemma Startup_start:
  "Startup listenFails app inputs =
     (if ba_running app then (app, StartupFailed ''app has running'')
      else case start_modules app of
        (app5, Some e) \<Rightarrow> (app5, StartupFailed e)
      | (app5, None) \<Rightarrow>
          (case runLoop (app5\<lparr>ba_running := True\<rparr>) inputs of
             (app6, False) \<Rightarrow> (app6, StillRunning)
           | (app6, True) \<Rightarrow> stop_app listenFails app6))"
  by (simp add: Startup_def start_modules_def Let_def split: prod.splits option.splits)

lemma start_modules_log:
  assumes "start_modules app = (app', e)"
  shows "frame (startPprof app) app' \<and> (\<exists>xs ys. started_log (ba_modulesArray (startPprof app)) = xs @ ys
    \<and> ba_log app' = ba_log (startPprof app) @ xs \<and> (e = None \<longrightarrow> ys = []))"
proof -
  define app1 ms where "app1 = startPprof app" and "ms = ba_modulesArray app1"
  define app2 where "app2 = foldl (\<lambda>app m. act (DidSet (mo_name m)) app) app1 ms"
  have a2: "ba_log app2 = ba_log app1 @ map (DidSet \<circ> mo_name) ms" "frame app1 app2" by (simp_all add: app2_def foldl_act comp_def)
  obtain app3 e3 where s3: "each_module DidInit mo_Init ''init module '' app2 ms = (app3, e3)" by fastforce
  from each_module_log [OF this] obtain n3 r3 where a3: "frame app2 app3" "ba_log app3 = ba_log app2 @ map DidInit n3"
    "e3 = None \<longrightarrow> n3 = map mo_name ms" "map mo_name ms = n3 @ r3" by blast
  obtain app4 e4 where s4: "each_module DidAfterInit mo_AfterInit ''after init module '' app3 ms = (app4, e4)" by fastforce
  from each_module_log [OF this] obtain n4 r4 where a4: "frame app3 app4" "ba_log app4 = ba_log app3 @ map DidAfterInit n4"
    "e4 = None \<longrightarrow> n4 = map mo_name ms" "map mo_name ms = n4 @ r4" by blast
  obtain app5 e5 where s5: "waitReady app4 = (app5, e5)" by fastforce
  have f: "ba_modulesArray app2 = ms" "ba_modulesArray app3 = ms" "ba_modulesArray app4 = ms" using a2 a3 a4 by (simp_all add: frame_def ms_def)
  from each_module_log [OF s5 [unfolded waitReady_def f(3)]] obtain n5 r5 where a5: "frame app4 app5" "ba_log app5 = ba_log app4 @ map DidWaitReady n5"
    "e5 = None \<longrightarrow> n5 = map mo_name (filter (\<lambda>m. mo_WaitReady m \<noteq> None) ms)"
    "map mo_name (filter (\<lambda>m. mo_WaitReady m \<noteq> None) ms) = n5 @ r5" by blast
  have run: "start_modules app = (if e3 \<noteq> None then (app3, e3) else if e4 \<noteq> None then (app4, e4) else (app5, e5))"
    using s3 s4 s5 f by (cases e3; cases e4) (simp_all add: start_modules_def Let_def flip: app1_def ms_def app2_def)
  have sl: "started_log ms = map (DidSet \<circ> mo_name) ms @ map DidInit (n3 @ r3) @ map DidAfterInit (n4 @ r4) @ map DidWaitReady (n5 @ r5)"
    unfolding started_log_def a3(4) [symmetric] a4(4) [symmetric] a5(4) [symmetric] by simp
  have fr: "frame app1 app3" "frame app1 app4" "frame app1 app5" using a2 a3 a4 a5 by (auto intro: frameI(2))
  have r3: "e3 = None \<longrightarrow> r3 = []" using a3(3,4) by (metis append_self_conv)
  have r4: "e4 = None \<longrightarrow> r4 = []" using a4(3,4) by (metis append_self_conv)
  have r5: "e5 = None \<longrightarrow> r5 = []" using a5(3,4) by (metis append_self_conv)
  consider (init) "e3 \<noteq> None" "app' = app3" "e = e3" | (after_init) "e3 = None" "e4 \<noteq> None" "app' = app4" "e = e4"
    | (ready) "e3 = None" "e4 = None" "app' = app5" "e = e5" using assms run by (auto split: if_splits)
  then have "frame app1 app' \<and> (\<exists>xs ys. started_log ms = xs @ ys \<and> ba_log app' = ba_log app1 @ xs \<and> (e = None \<longrightarrow> ys = []))"
  proof cases
    case init
    have "started_log ms = (map (DidSet \<circ> mo_name) ms @ map DidInit n3) @ map DidInit r3 @ map DidAfterInit (n4 @ r4) @ map DidWaitReady (n5 @ r5)"
      by (simp add: sl)
    moreover have "ba_log app3 = ba_log app1 @ map (DidSet \<circ> mo_name) ms @ map DidInit n3" by (simp add: a2(1) a3(2))
    ultimately show ?thesis unfolding init(2,3) using fr(1) init(1) by blast
  next
    case after_init
    then have "started_log ms = (map (DidSet \<circ> mo_name) ms @ map DidInit n3 @ map DidAfterInit n4) @ map DidAfterInit r4 @ map DidWaitReady (n5 @ r5)"
      using r3 by (simp add: sl)
    moreover have "ba_log app4 = ba_log app1 @ map (DidSet \<circ> mo_name) ms @ map DidInit n3 @ map DidAfterInit n4" by (simp add: a2(1) a3(2) a4(2))
    ultimately show ?thesis unfolding after_init(3,4) using fr(2) after_init(2) by blast
  next
    case ready
    then have "started_log ms = (map (DidSet \<circ> mo_name) ms @ map DidInit n3 @ map DidAfterInit n4 @ map DidWaitReady n5) @ map DidWaitReady r5"
      "e5 = None \<longrightarrow> map DidWaitReady r5 = []"
      using r3 r4 r5 by (simp_all add: sl)
    moreover have "ba_log app5 = ba_log app1 @ map (DidSet \<circ> mo_name) ms @ map DidInit n3 @ map DidAfterInit n4 @ map DidWaitReady n5"
      by (simp add: a2(1) a3(2) a4(2) a5(2))
    ultimately show ?thesis unfolding ready(3,4) using fr(3) by blast
  qed
  then show ?thesis by (simp add: ms_def app1_def)
qed

text \<open>C14: Modules start in the order of their registration and stop in the opposite order. In every run of a
  built application the log begins with the whole start (each step over all modules before the
  next step begins), then tasks and reloads only, then the stop of every module in reverse order
  and at last the hooks in reverse order, each exactly once. A start that fails has done a prefix
  of the start and stops no module and runs no hook. A run that stops ends unless the profiling
  server was started and listens.\<close>

theorem startup_lifecycle:
  assumes "Build b = Inr app" and "Startup listenFails app inputs = (app', res)"
    and "pre = (if bb_pprof b then [StartedPprof (if ba_pprofAddr app = [] then ''127.0.0.1:6060'' else ba_pprofAddr app)] else [])"
    and "hooks = bb_shutdownHooks b @ (if bb_pprof b then [ClosePprof] else [])"
  shows "distinct (map mo_name (bb_modules b)) \<and>
    (case res of
       StartupFailed e \<Rightarrow> (\<exists>xs ys. started_log (bb_modules b) = xs @ ys \<and> ba_log app' = pre @ xs)
     | StillRunning \<Rightarrow> (\<exists>mid. list_all loop_action mid \<and> ba_log app' = pre @ started_log (bb_modules b) @ mid)
     | WaitsForRoutines \<Rightarrow> bb_pprof b \<and> \<not> listenFails
         \<and> (\<exists>mid. list_all loop_action mid \<and> ba_log app' = pre @ started_log (bb_modules b) @ mid @ stopped_log (bb_modules b))
     | StartupReturned \<Rightarrow> (bb_pprof b \<longrightarrow> listenFails)
         \<and> (\<exists>mid. list_all loop_action mid
              \<and> ba_log app' = pre @ started_log (bb_modules b) @ mid @ stopped_log (bb_modules b) @ map RanHook (rev hooks)))"
proof -
  let ?ms = "bb_modules b"
  from register_all_ok [OF modules_ok_New assms(1) [unfolded Build_def]]
  have m: "modules_ok app" "ba_modulesArray app = ?ms" "ba_log app = []" "\<not> ba_running app" "ba_shutdownHooks app = bb_shutdownHooks b"
    "ba_routines app = []" "ba_pprof app = bb_pprof b" by (simp_all add: NewBaseApp_def)
  have a1: "ba_log (startPprof app) = pre" "ba_modulesArray (startPprof app) = ?ms" "ba_shutdownHooks (startPprof app) = hooks"
    "ba_routines (startPprof app) = (if bb_pprof b then [PprofServer] else [])"
    using m by (simp_all add: startPprof_def assms(3,4) Let_def)
  have dist: "distinct (map mo_name ?ms)" using m(1,2) by (simp add: modules_ok_def)
  obtain app5 e where s5: "start_modules app = (app5, e)" by fastforce
  from start_modules_log [OF this] obtain xs ys where a5: "frame (startPprof app) app5" "started_log ?ms = xs @ ys" "ba_log app5 = pre @ xs" "e = None \<longrightarrow> ys = []"
    unfolding a1 by blast
  show ?thesis
  proof (cases e)
    case (Some x)
    with assms(2) s5 m(4) have "app' = app5" "res = StartupFailed x" by (simp_all add: Startup_start)
    with a5 dist show ?thesis by auto
  next
    case None
    obtain app6 ended where s6: "runLoop (app5\<lparr>ba_running := True\<rparr>) inputs = (app6, ended)" by fastforce
    from runLoop_log [OF this] obtain mid where a6: "ba_log app6 = pre @ started_log ?ms @ mid" "list_all loop_action mid" "frame app5 app6"
      using a5 None by (auto simp: frame_def)
    have f: "ba_modulesArray app6 = ?ms" "ba_shutdownHooks app6 = hooks" "ba_routines app6 = (if bb_pprof b then [PprofServer] else [])"
      using a1 a5(1) a6(3) by (simp_all add: frame_def)
    show ?thesis
    proof (cases ended)
      case False
      with assms(2) s5 s6 m(4) None have "app' = app6" "res = StillRunning" by (simp_all add: Startup_start)
      with a6 dist show ?thesis by auto
    next
      case True
      with assms(2) s5 s6 m(4) None have "stop_app listenFails app6 = (app', res)" by (simp add: Startup_start)
      moreover have "set (ba_routines app6) \<subseteq> {PprofServer}" by (cases "bb_pprof b") (simp_all add: f)
      moreover have "RanHook ClosePprof \<notin> set (ba_log app6)" using a6(2) by (auto simp: a6(1) assms(3) started_log_def list_all_iff)
      ultimately have "ba_log app' = ba_log app6 @ stopped_log ?ms @ (if res = StartupReturned then map RanHook (rev hooks) else [])"
        "res = (if \<not> bb_pprof b \<or> listenFails then StartupReturned else WaitsForRoutines)"
        using stop_app_log [of listenFails app6 app' res] by (cases "bb_pprof b"; simp add: f)+
      with a6 dist show ?thesis by auto
    qed
  qed
qed

text \<open>Two modules, the second of which is waited for.\<close>

definition demo_builder :: "bool \<Rightarrow> BaseBuilder" where
  "demo_builder pprof = \<lparr>bb_daemon = False, bb_pprof = pprof, bb_pprofAddr = [], bb_nodeID = ''1.2.3'',
     bb_modules = [\<lparr>mo_name = ''db'', mo_Init = None, mo_AfterInit = None, mo_WaitReady = None\<rparr>,
                   \<lparr>mo_name = ''lobby'', mo_Init = None, mo_AfterInit = None, mo_WaitReady = Some None\<rparr>],
     bb_shutdownHooks = [UserHook 0], bb_reloadHooks = [0]\<rparr>"

lemmas app_eval = Build_def demo_builder_def RegisterModule_def validateModule_def NewBaseApp_def mput_def mdel_def Startup_def startPprof_def waitReady_def
  IsTerminateSignal_def IsDrainSignal_def IsReloadSignal_def App_Reload_def App_Shutdown_def stop_app_def shutdownAllModules_def shutdownAllHooks_def act_def Let_def

theorem startup_lifecycle_witness:
  "\<exists>app app'. Build (demo_builder False) = Inr app \<and> Startup False app [PostedTask 5 False, SignalReceived SIGTERM (\<lambda>h. None)] = (app', StartupReturned)
    \<and> (\<exists>mid. list_all loop_action mid \<and> ba_log app' = started_log (bb_modules (demo_builder False)) @ mid
          @ stopped_log (bb_modules (demo_builder False)) @ [RanHook (UserHook 0)])"
proof -
  obtain app where app: "Build (demo_builder False) = Inr app" by (simp add: app_eval)
  obtain app' where st: "Startup False app [PostedTask 5 False, SignalReceived SIGTERM (\<lambda>h. None)] = (app', StartupReturned)"
    using app by (simp add: app_eval) (auto simp: app_eval)
  from startup_lifecycle [OF app st refl refl] app st show ?thesis by (auto simp: demo_builder_def)
qed

text \<open>
  With the profiling server a stop never completes: the wait for the goroutines comes before the
  hooks, and the hook is what ends the server.
\<close>

lemma pprof_blocks_shutdown:
  "\<exists>app. Build (demo_builder True) = Inr app \<and> snd (Startup False app [SignalReceived SIGTERM r]) = WaitsForRoutines"
  by (simp add: app_eval)

text \<open>When a later module fails to start, the modules that have been started are not stopped and the hooks do not run.\<close>

lemma failed_start_stops_nothing:
  "ba_log (fst (Startup False ((NewBaseApp False False [] [] [UserHook 0] [])\<lparr>ba_modulesArray :=
       [\<lparr>mo_name = ''db'', mo_Init = None, mo_AfterInit = None, mo_WaitReady = None\<rparr>,
        \<lparr>mo_name = ''gate'', mo_Init = Some e, mo_AfterInit = None, mo_WaitReady = None\<rparr>]\<rparr>) inputs))
   = [DidSet ''db'', DidSet ''gate'', DidInit ''db'', DidInit ''gate'']"
  by (simp add: app_eval)

section \<open>Readiness and metric names\<close>

text \<open>The first outcome counts: later calls of \<^verbatim>\<open>Done\<close> and \<^verbatim>\<open>Fail\<close> change nothing.\<close>

fun ready_call :: "Ready \<Rightarrow> string option \<Rightarrow> Ready" where
  "ready_call r None = Ready_Done r"
| "ready_call r (Some e) = Ready_Fail r e"

lemma ready_first_wins: "WaitReady (foldl ready_call NewReady (c # cs)) ctxErr = Some c"
proof -
  have same: "ready_call r x = r" if "rd_closed r" for r x using that by (cases x) (simp_all add: Ready_Done_def Ready_Fail_def)
  have "foldl ready_call r cs = r" if "rd_closed r" for r using that by (induction cs) (simp_all add: same)
  moreover have "rd_closed (ready_call NewReady c) \<and> rd_err (ready_call NewReady c) = c"
    by (cases c) (simp_all add: NewReady_def Ready_Done_def Ready_Fail_def)
  ultimately show ?thesis by (simp add: WaitReady_def)
qed

lemma ready_blocks: "WaitReady NewReady None = None"
  by (simp add: WaitReady_def NewReady_def)

lemma sanitize_eq: "sanitizeMetricName s = (if s = [] then ''unknown'' else map (\<lambda>r. if metric_char r then r else CHR ''_'') s)"
proof -
  have "foldl (\<lambda>b r. b @ [if metric_char r then r else CHR ''_'']) b s = b @ map (\<lambda>r. if metric_char r then r else CHR ''_'') s" for b
    by (induction s arbitrary: b) simp_all
  then show ?thesis by (simp add: sanitizeMetricName_def Let_def)
qed

lemma sanitize_valid: "sanitizeMetricName s \<noteq> [] \<and> list_all metric_char (sanitizeMetricName s) \<and> sanitizeMetricName (sanitizeMetricName s) = sanitizeMetricName s"
  by (auto simp: sanitize_eq list_all_iff metric_char_def less_eq_char_def intro!: map_idI)

end
