(* ===== verification/Config.thy ===== *)
theory Config
  imports Go_Strconv
begin

text \<open>
  Configuration (\<^verbatim>\<open>internal/core/config\<close> and \<^verbatim>\<open>internal/server/lobby/config.go\<close>): the expansion of environment
  variables in a file, entries that are replaced on reload after a check, and the reload of the two
  entries of a server. The decoder of YAML is third-party code and a parameter; the checks of the
  configurations are those of \<open>Config_Gen\<close>, here any.
\<close>

section \<open>Environment variables\<close>

text \<open>A match of the pattern \<^verbatim>\<open>\$\{[^}]+\}\<close> at the beginning of the text: its name and the rest.\<close>

definition env_token :: "string \<Rightarrow> (string \<times> string) option" where
  "env_token s =
     (if take 2 s = ''${'' then
        let rest = drop 2 s; name = takeWhile (\<lambda>x. x \<noteq> CHR ''}'') rest; more = dropWhile (\<lambda>x. x \<noteq> CHR ''}'') rest
        in if name \<noteq> [] \<and> more \<noteq> [] then Some (name, tl more) else None
      else None)"

lemma env_token_shorter: "env_token s = Some (name, rest) \<Longrightarrow> length rest < length s"
proof -
  assume "env_token s = Some (name, rest)"
  then have r: "rest = tl (dropWhile (\<lambda>x. x \<noteq> CHR ''}'') (drop 2 s))" and s: "take 2 s = ''${''"
    by (auto simp: env_token_def Let_def split: if_splits)
  have "length rest \<le> length (drop 2 s)" unfolding r using length_dropWhile_le [of "\<lambda>x. x \<noteq> CHR ''}''" "drop 2 s"] by simp
  moreover have "2 \<le> length s" using arg_cong [OF s, of length] by simp
  ultimately show ?thesis by simp
qed

text \<open>
  The replacement of all matches from left to right: the new text and the names that are not set;
  the token of such a name stays in the text.
\<close>

function expand_scan :: "(string \<rightharpoonup> string) \<Rightarrow> string \<Rightarrow> string \<times> string list" where
  "expand_scan env s =
     (case env_token s of
        Some (name, rest) \<Rightarrow>
          (case expand_scan env rest of
             (t, miss) \<Rightarrow>
               (case env name of
                  None \<Rightarrow> (''${'' @ name @ ''}'' @ t, name # miss)
                | Some v \<Rightarrow> (v @ t, miss)))
      | None \<Rightarrow>
          (case s of
             [] \<Rightarrow> ([], [])
           | c # cs \<Rightarrow> (case expand_scan env cs of (t, miss) \<Rightarrow> (c # t, miss))))"
  by pat_completeness auto
termination
  by (relation "measure (\<lambda>(env, s). length s)") (auto dest: env_token_shorter)

declare expand_scan.simps [simp del]

definition expandEnv :: "(string \<rightharpoonup> string) \<Rightarrow> string \<Rightarrow> string list + string" where
  "expandEnv env text = (case expand_scan env text of (t, miss) \<Rightarrow> if miss \<noteq> [] then Inl miss else Inr t)"

text \<open>
  Reading a file: the content of the file system, the environment and the decoder are arguments.
  The error prints the missing names between brackets.
\<close>

fun join_space :: "string list \<Rightarrow> string" where
  "join_space [] = []"
| "join_space [x] = x"
| "join_space (x # y # xs) = x @ '' '' @ join_space (y # xs)"

definition LoadYAML :: "(string \<Rightarrow> string + string) \<Rightarrow> (string \<rightharpoonup> string) \<Rightarrow> (string \<Rightarrow> string + 'c) \<Rightarrow> string \<Rightarrow> string + 'c" where
  "LoadYAML readFile env unmarshal path =
     (case readFile path of
        Inl e \<Rightarrow> Inl e
      | Inr data \<Rightarrow>
          (case expandEnv env data of
             Inl missing \<Rightarrow> Inl (''env vars not injected: ['' @ join_space missing @ '']'')
           | Inr text \<Rightarrow> unmarshal text))"

section \<open>Entries\<close>

record 'c ConfigEntry =
  ce_path :: string
  ce_data :: "'c option"

definition Entry_Reload :: "(string \<Rightarrow> string + 'c) \<Rightarrow> ('c \<Rightarrow> 'c \<Rightarrow> string option) option \<Rightarrow> 'c ConfigEntry \<Rightarrow> 'c ConfigEntry \<times> string option" where
  "Entry_Reload load check entry =
     (case load (ce_path entry) of
        Inl e \<Rightarrow> (entry, Some e)
      | Inr candidate \<Rightarrow>
          (case (ce_data entry, check) of
             (Some current, Some ck) \<Rightarrow>
               (case ck candidate current of
                  Some e \<Rightarrow> (entry, Some e)
                | None \<Rightarrow> (entry\<lparr>ce_data := Some candidate\<rparr>, None))
           | _ \<Rightarrow> (entry\<lparr>ce_data := Some candidate\<rparr>, None)))"

definition NewConfigEntry :: "string \<Rightarrow> (string \<Rightarrow> string + 'c) \<Rightarrow> ('c \<Rightarrow> 'c \<Rightarrow> string option) option \<Rightarrow> string + 'c ConfigEntry" where
  "NewConfigEntry path load check =
     (case Entry_Reload load check \<lparr>ce_path = path, ce_data = None\<rparr> of
        (entry, Some e) \<Rightarrow> Inl e
      | (entry, None) \<Rightarrow> Inr entry)"

section \<open>The configuration of a server\<close>

record ('c, 'l) ConfigChange =
  cc_OldCommon :: "'c option"
  cc_NewCommon :: "'c option"
  cc_OldLobby :: "'l option"
  cc_NewLobby :: "'l option"

text \<open>
  The package variables: two entries that may be nil, and the hooks. The packages of all servers
  have the same code up to the name of the server, which is the first argument of \<open>ReloadConfig\<close>.
\<close>

record ('c, 'l) LobbyConfigs =
  lc_common :: "'c ConfigEntry option"
  lc_lobby :: "'l ConfigEntry option"
  lc_hooks :: "(('c, 'l) ConfigChange \<Rightarrow> string option) list"

definition CommonConfig :: "('c, 'l) LobbyConfigs \<Rightarrow> 'c option" where
  "CommonConfig st = Option.bind (lc_common st) ce_data"

definition LobbyConfig :: "('c, 'l) LobbyConfigs \<Rightarrow> 'l option" where
  "LobbyConfig st = Option.bind (lc_lobby st) ce_data"

definition AddConfigChangeHook :: "('c, 'l) LobbyConfigs \<Rightarrow> (('c, 'l) ConfigChange \<Rightarrow> string option) \<Rightarrow> ('c, 'l) LobbyConfigs" where
  "AddConfigChangeHook st h = st\<lparr>lc_hooks := lc_hooks st @ [h]\<rparr>"

text \<open>The hooks are called in order until one fails; the number of calls is returned.\<close>

fun call_hooks :: "(('c, 'l) ConfigChange \<Rightarrow> string option) list \<Rightarrow> ('c, 'l) ConfigChange \<Rightarrow> nat \<times> string option" where
  "call_hooks [] change = (0, None)"
| "call_hooks (h # hs) change =
     (case h change of
        Some e \<Rightarrow> (1, Some e)
      | None \<Rightarrow> (case call_hooks hs change of (n, r) \<Rightarrow> (Suc n, r)))"

definition ReloadConfig ::
  "string \<Rightarrow> (string \<Rightarrow> string + 'c) \<Rightarrow> ('c \<Rightarrow> 'c \<Rightarrow> string option) option \<Rightarrow> (string \<Rightarrow> string + 'l) \<Rightarrow> ('l \<Rightarrow> 'l \<Rightarrow> string option) option \<Rightarrow>
   ('c, 'l) LobbyConfigs \<Rightarrow> ('c, 'l) LobbyConfigs \<times> nat \<times> string option" where
  "ReloadConfig name loadC checkC loadL checkL st =
     (case lc_common st of
        None \<Rightarrow> (st, 0, Some ''common config entry is nil'')
      | Some common \<Rightarrow>
          (case lc_lobby st of
             None \<Rightarrow> (st, 0, Some (name @ '' config entry is nil''))
           | Some lobby \<Rightarrow>
               (case Entry_Reload loadC checkC common of
                  (common1, Some e) \<Rightarrow> (st\<lparr>lc_common := Some common1\<rparr>, 0, Some (''reload common config: '' @ e))
                | (common1, None) \<Rightarrow>
                    (case Entry_Reload loadL checkL lobby of
                       (lobby1, Some e) \<Rightarrow> (st\<lparr>lc_common := Some common1, lc_lobby := Some lobby1\<rparr>, 0, Some (''reload '' @ name @ '' config: '' @ e))
                     | (lobby1, None) \<Rightarrow>
                         let st1 = st\<lparr>lc_common := Some common1, lc_lobby := Some lobby1\<rparr>
                         in (st1, call_hooks (lc_hooks st)
                               \<lparr>cc_OldCommon = CommonConfig st, cc_NewCommon = CommonConfig st1, cc_OldLobby = LobbyConfig st, cc_NewLobby = LobbyConfig st1\<rparr>)))))"

section \<open>Expansion\<close>

lemma expand_literal:
  "CHR ''$'' \<notin> set l \<Longrightarrow> expand_scan env (l @ s) = (l @ fst (expand_scan env s), snd (expand_scan env s))"
proof (induction l)
  case (Cons c l)
  then have "env_token (c # l @ s) = None" by (auto simp: env_token_def take_Cons split: nat.splits)
  with Cons show ?case by (simp add: expand_scan.simps [of env "c # l @ s"] split: prod.splits)
qed simp

lemma env_token_exact: "name \<noteq> [] \<Longrightarrow> CHR ''}'' \<notin> set name \<Longrightarrow> env_token (''${'' @ name @ ''}'' @ s) = Some (name, s)"
proof -
  assume n: "name \<noteq> []" "CHR ''}'' \<notin> set name"
  then have "takeWhile (\<lambda>x. x \<noteq> CHR ''}'') (name @ ''}'' @ s) = name" "dropWhile (\<lambda>x. x \<noteq> CHR ''}'') (name @ ''}'' @ s) = ''}'' @ s"
    by (auto simp: takeWhile_append dropWhile_append)
  with n(1) show ?thesis by (simp add: env_token_def Let_def)
qed

definition render :: "(string \<times> string) list \<Rightarrow> string \<Rightarrow> string" where
  "render segs rest = concat (map (\<lambda>(l, name). l @ ''${'' @ name @ ''}'') segs) @ rest"

definition segments_ok :: "(string \<times> string) list \<Rightarrow> string \<Rightarrow> bool" where
  "segments_ok segs rest \<longleftrightarrow> CHR ''$'' \<notin> set rest \<and> list_all (\<lambda>(l, name). CHR ''$'' \<notin> set l \<and> name \<noteq> [] \<and> CHR ''}'' \<notin> set name) segs"

lemma expand_render:
  assumes "segments_ok segs rest"
  shows "expand_scan env (render segs rest) =
    (concat (map (\<lambda>(l, name). l @ (case env name of None \<Rightarrow> ''${'' @ name @ ''}'' | Some v \<Rightarrow> v)) segs) @ rest, filter (\<lambda>n. env n = None) (map snd segs))"
  using assms
proof (induction segs)
  case Nil
  have "expand_scan env [] = ([], [])" by (simp add: expand_scan.simps env_token_def)
  with Nil expand_literal [of rest env "[]"] show ?case by (simp add: render_def segments_ok_def)
next
  case (Cons ln segs)
  obtain l name where ln: "ln = (l, name)" by (cases ln)
  have l: "CHR ''$'' \<notin> set l" "name \<noteq> []" "CHR ''}'' \<notin> set name" "segments_ok segs rest" using Cons.prems by (simp_all add: segments_ok_def ln)
  have r: "render (ln # segs) rest = l @ ''${'' @ name @ ''}'' @ render segs rest" by (simp add: render_def ln)
  have "expand_scan env (''${'' @ name @ ''}'' @ render segs rest) =
      (case expand_scan env (render segs rest) of
         (t, miss) \<Rightarrow> (case env name of None \<Rightarrow> (''${'' @ name @ ''}'' @ t, name # miss) | Some v \<Rightarrow> (v @ t, miss)))"
    by (subst expand_scan.simps) (simp only: env_token_exact [OF l(2,3)] option.case prod.case)
  with Cons.IH [OF l(4)] show ?case unfolding r expand_literal [OF l(1)] by (simp add: ln split: option.splits)
qed

lemma expandEnv_literal: "CHR ''$'' \<notin> set t \<Longrightarrow> expandEnv env t = Inr t"
  using expand_render [of "[]" t env] by (simp add: expandEnv_def render_def segments_ok_def)

text \<open>Environment variables in a configuration are replaced exactly. For a text made of literal parts and
  tokens the expansion succeeds exactly if every name is set, and then the tokens are replaced by
  the values, which are not scanned again; otherwise the error lists the missing names in order.\<close>

theorem expandEnv_exact:
  assumes "segments_ok segs rest"
  shows "expandEnv env (render segs rest) =
    (if \<forall>n \<in> set (map snd segs). env n \<noteq> None then Inr (concat (map (\<lambda>(l, name). l @ the (env name)) segs) @ rest)
     else Inl (filter (\<lambda>n. env n = None) (map snd segs)))"
proof (cases "\<forall>n \<in> set (map snd segs). env n \<noteq> None")
  case True
  then have "filter (\<lambda>n. env n = None) (map snd segs) = []" by (auto simp: filter_empty_conv)
  moreover have "map (\<lambda>(l, name). l @ (case env name of None \<Rightarrow> ''${'' @ name @ ''}'' | Some v \<Rightarrow> v)) segs = map (\<lambda>(l, name). l @ the (env name)) segs"
    using True by (auto split: option.splits)
  ultimately show ?thesis unfolding if_P [OF True] by (simp only: expandEnv_def expand_render [OF assms] prod.case if_False simp_thms)
next
  case False
  then have "filter (\<lambda>n. env n = None) (map snd segs) \<noteq> []" by (auto simp: filter_empty_conv)
  with False show ?thesis by (simp only: expandEnv_def expand_render [OF assms] prod.case if_True if_False simp_thms)
qed

theorem expandEnv_exact_witness:
  "expandEnv [''DB'' \<mapsto> ''mongo''] ''uri: ${DB}/x'' = Inr ''uri: mongo/x'' \<and> expandEnv Map.empty ''uri: ${DB}/x'' = Inl [''DB'']"
  using expandEnv_exact [of "[(''uri: '', ''DB'')]" "''/x''" "[''DB'' \<mapsto> ''mongo'']"] expandEnv_exact [of "[(''uri: '', ''DB'')]" "''/x''" Map.empty]
  by (simp add: segments_ok_def render_def)

section \<open>Reload\<close>

lemma reload_keeps: "Entry_Reload load check entry = (entry', Some e) \<Longrightarrow> entry' = entry"
  by (auto simp: Entry_Reload_def split: sum.splits option.splits)

lemma reload_replaces:
  "Entry_Reload load check entry = (entry', None) \<Longrightarrow>
    \<exists>c. load (ce_path entry) = Inr c \<and> ce_data entry' = Some c \<and> (\<forall>old ck. ce_data entry = Some old \<and> check = Some ck \<longrightarrow> ck c old = None)"
  by (auto simp: Entry_Reload_def split: sum.splits option.splits)

lemma call_hooks_all: "call_hooks hs change = (n, None) \<Longrightarrow> n = length hs \<and> (\<forall>h \<in> set hs. h change = None)"
  by (induction hs arbitrary: n) (auto split: option.splits prod.splits)

text \<open>A reload that succeeds has installed both files, checked against what they replace, and told every hook.\<close>

lemma reload_config_ok:
  assumes "ReloadConfig name loadC checkC loadL checkL st = (st', n, None)"
  shows "n = length (lc_hooks st) \<and> (\<exists>common lobby c l. lc_common st = Some common \<and> lc_lobby st = Some lobby
    \<and> loadC (ce_path common) = Inr c \<and> loadL (ce_path lobby) = Inr l \<and> CommonConfig st' = Some c \<and> LobbyConfig st' = Some l)"
  using assms
  by (auto simp: ReloadConfig_def Let_def CommonConfig_def LobbyConfig_def split: option.splits prod.splits dest!: reload_replaces call_hooks_all)

text \<open>When the second file is refused, the first one has already been replaced and no hook is told.\<close>

lemma partial_reload:
  "let st = \<lparr>lc_common = Some \<lparr>ce_path = ''c'', ce_data = Some (1::nat)\<rparr>, lc_lobby = Some \<lparr>ce_path = ''l'', ce_data = Some (1::nat)\<rparr>, lc_hooks = [\<lambda>ch. None]\<rparr>;
       (st', n, e) = ReloadConfig ''lobby'' (\<lambda>p. Inr 2) None (\<lambda>p. Inl ''bad file'') None st
   in e \<noteq> None \<and> n = 0 \<and> CommonConfig st' = Some 2 \<and> LobbyConfig st' = Some 1"
  by (simp add: ReloadConfig_def Entry_Reload_def CommonConfig_def LobbyConfig_def Let_def)

end
