(* ===== verification/Config_Gen.thy ===== *)
theory Config_Gen
  imports Config
begin

text \<open>
  The configuration structures of all servers with their validation and the check of a reload
  (\<^verbatim>\<open>config/gen\<close>), and the reload of every server (\<^verbatim>\<open>internal/server/*/config.go\<close>). An error is \<open>Some\<close> of
  its text. Slices that are compared with \<^verbatim>\<open>DeepEqual\<close> belong to validated configurations and are not
  empty, so that a nil slice and an empty one need not be distinguished.
\<close>

section \<open>Structures\<close>

record ClusterConfig =
  cl_Name :: string
  cl_Env :: string
  cl_WorldId :: u32

record EtcdConfig =
  et_Endpoints :: "string list"

record RedisNodeConfig =
  rn_Host :: string
  rn_Port :: int

record RedisConfig =
  rd_Nodes :: "RedisNodeConfig list"
  rd_Password :: string

record MongoConfig =
  mg_Uri :: string
  mg_Database :: string

record Common_Config =
  co_Cluster :: ClusterConfig
  co_Etcd :: EtcdConfig
  co_Redis :: RedisConfig
  co_Mongo :: MongoConfig

record LogConfig =
  lc_Level :: string
  lc_Format :: string
  lc_StderrAlso :: bool
  lc_Dir :: string
  lc_Basename :: string
  lc_MaxSizeMb :: int
  lc_MaxBackups :: int
  lc_RotateByHour :: bool

record LoggerGroupConfig =
  lg_Main :: LogConfig
  lg_Res :: LogConfig
  lg_Tracing :: LogConfig

record Gate_Config =
  ga_ListenTcp :: string
  ga_ListenWs :: string
  ga_MaxConn :: int
  ga_HeartbeatSec :: int
  ga_LoggerGroup :: LoggerGroupConfig
  ga_RouteragentSockPath :: string

record Lobby_Config =
  lo_MaxPlayer :: int
  lo_HeartbeatSec :: int
  lo_RouteragentSockPath :: string
  lo_LoggerGroup :: LoggerGroupConfig

record Match_Config =
  mt_RouteragentSockPath :: string
  mt_HeartbeatSec :: int
  mt_LoggerGroup :: LoggerGroupConfig

record Online_Config =
  on_RouteragentSockPath :: string
  on_HeartbeatSec :: int
  on_LoggerGroup :: LoggerGroupConfig

record Room_Config =
  ro_RouteragentSockPath :: string
  ro_HeartbeatSec :: int
  ro_LoggerGroup :: LoggerGroupConfig

record Routeragent_Config =
  ra_SockPath :: string
  ra_ListenAddr :: string
  ra_HeartbeatSec :: int
  ra_LoggerGroup :: LoggerGroupConfig

section \<open>Validation\<close>

text \<open>One condition with an early return, and the validation of a part under its name.\<close>

definition require :: "string \<Rightarrow> bool \<Rightarrow> string option \<Rightarrow> string option" where
  "require what ok rest = (if \<not> ok then Some (what @ '' is required'') else rest)"

definition part :: "string \<Rightarrow> string option \<Rightarrow> string option \<Rightarrow> string option" where
  "part name r rest = (case r of Some e \<Rightarrow> Some (name @ '': '' @ e) | None \<Rightarrow> rest)"

definition nil_config :: string where "nil_config = ''config is nil''"

definition Cluster_Validate :: "ClusterConfig \<Rightarrow> string option" where
  "Cluster_Validate c = require ''name'' (cl_Name c \<noteq> []) (require ''env'' (cl_Env c \<noteq> []) (require ''world_id'' (cl_WorldId c \<noteq> 0) None))"

definition Etcd_Validate :: "EtcdConfig \<Rightarrow> string option" where
  "Etcd_Validate c = require ''endpoints'' (et_Endpoints c \<noteq> []) None"

definition Redis_Validate :: "RedisConfig \<Rightarrow> string option" where
  "Redis_Validate c = require ''nodes'' (rd_Nodes c \<noteq> []) (require ''password'' (rd_Password c \<noteq> []) None)"

definition RedisNode_Validate :: "RedisNodeConfig \<Rightarrow> string option" where
  "RedisNode_Validate c = require ''host'' (rn_Host c \<noteq> []) (require ''port'' (rn_Port c \<noteq> 0) None)"

definition Mongo_Validate :: "MongoConfig \<Rightarrow> string option" where
  "Mongo_Validate c = require ''uri'' (mg_Uri c \<noteq> []) (require ''database'' (mg_Database c \<noteq> []) None)"

definition Common_Validate :: "Common_Config option \<Rightarrow> string option" where
  "Common_Validate cfg =
     (case cfg of
        None \<Rightarrow> Some nil_config
      | Some c \<Rightarrow> part ''cluster'' (Cluster_Validate (co_Cluster c)) (part ''etcd'' (Etcd_Validate (co_Etcd c))
          (part ''redis'' (Redis_Validate (co_Redis c)) (part ''mongo'' (Mongo_Validate (co_Mongo c)) None))))"

text \<open>The quoted form of a string without special characters.\<close>

definition quoted :: "string \<Rightarrow> string" where
  "quoted s = ''\"'' @ s @ ''\"''"

definition log_levels :: "string list" where "log_levels = [''debug'', ''info'', ''warn'', ''error'', ''fatal'']"
definition log_formats :: "string list" where "log_formats = [''console'', ''json'']"

definition Log_Validate :: "LogConfig \<Rightarrow> string option" where
  "Log_Validate c =
     (if lc_Level c \<noteq> [] \<and> lc_Level c \<notin> set log_levels then Some (''level='' @ quoted (lc_Level c) @ '' is invalid'')
      else if lc_Format c \<noteq> [] \<and> lc_Format c \<notin> set log_formats then Some (''format='' @ quoted (lc_Format c) @ '' is invalid'')
      else require ''dir'' (lc_Dir c \<noteq> []) (require ''basename'' (lc_Basename c \<noteq> []) None))"

definition LoggerGroup_Validate :: "LoggerGroupConfig \<Rightarrow> string option" where
  "LoggerGroup_Validate g =
     part ''main'' (Log_Validate (lg_Main g)) (part ''res'' (Log_Validate (lg_Res g)) (part ''tracing'' (Log_Validate (lg_Tracing g)) None))"

definition Gate_Validate :: "Gate_Config option \<Rightarrow> string option" where
  "Gate_Validate cfg =
     (case cfg of
        None \<Rightarrow> Some nil_config
      | Some c \<Rightarrow> require ''listen_tcp'' (ga_ListenTcp c \<noteq> []) (require ''listen_ws'' (ga_ListenWs c \<noteq> []) (require ''max_conn'' (ga_MaxConn c \<noteq> 0)
          (require ''heartbeat_sec'' (ga_HeartbeatSec c \<noteq> 0) (part ''logger_group'' (LoggerGroup_Validate (ga_LoggerGroup c))
          (require ''routeragent_sock_path'' (ga_RouteragentSockPath c \<noteq> []) None))))))"

definition Lobby_Validate :: "Lobby_Config option \<Rightarrow> string option" where
  "Lobby_Validate cfg =
     (case cfg of
        None \<Rightarrow> Some nil_config
      | Some c \<Rightarrow> require ''max_player'' (lo_MaxPlayer c \<noteq> 0) (require ''heartbeat_sec'' (lo_HeartbeatSec c \<noteq> 0)
          (require ''routeragent_sock_path'' (lo_RouteragentSockPath c \<noteq> []) (part ''logger_group'' (LoggerGroup_Validate (lo_LoggerGroup c)) None))))"

definition Match_Validate :: "Match_Config option \<Rightarrow> string option" where
  "Match_Validate cfg =
     (case cfg of
        None \<Rightarrow> Some nil_config
      | Some c \<Rightarrow> require ''routeragent_sock_path'' (mt_RouteragentSockPath c \<noteq> []) (require ''heartbeat_sec'' (mt_HeartbeatSec c \<noteq> 0)
          (part ''logger_group'' (LoggerGroup_Validate (mt_LoggerGroup c)) None)))"

definition Online_Validate :: "Online_Config option \<Rightarrow> string option" where
  "Online_Validate cfg =
     (case cfg of
        None \<Rightarrow> Some nil_config
      | Some c \<Rightarrow> require ''routeragent_sock_path'' (on_RouteragentSockPath c \<noteq> []) (require ''heartbeat_sec'' (on_HeartbeatSec c \<noteq> 0)
          (part ''logger_group'' (LoggerGroup_Validate (on_LoggerGroup c)) None)))"

definition Room_Validate :: "Room_Config option \<Rightarrow> string option" where
  "Room_Validate cfg =
     (case cfg of
        None \<Rightarrow> Some nil_config
      | Some c \<Rightarrow> require ''routeragent_sock_path'' (ro_RouteragentSockPath c \<noteq> []) (require ''heartbeat_sec'' (ro_HeartbeatSec c \<noteq> 0)
          (part ''logger_group'' (LoggerGroup_Validate (ro_LoggerGroup c)) None)))"

definition Routeragent_Validate :: "Routeragent_Config option \<Rightarrow> string option" where
  "Routeragent_Validate cfg =
     (case cfg of
        None \<Rightarrow> Some nil_config
      | Some c \<Rightarrow> require ''sock_path'' (ra_SockPath c \<noteq> []) (require ''listen_addr'' (ra_ListenAddr c \<noteq> []) (require ''heartbeat_sec'' (ra_HeartbeatSec c \<noteq> 0)
          (part ''logger_group'' (LoggerGroup_Validate (ra_LoggerGroup c)) None))))"

section \<open>Loading\<close>

text \<open>The reader of files, the environment and the decoder are arguments; the decoder returns a pointer.\<close>

record sources =
  sr_readFile :: "string \<Rightarrow> string + string"
  sr_env :: "string \<rightharpoonup> string"

definition load_with :: "string \<Rightarrow> ('c option \<Rightarrow> string option) \<Rightarrow> sources \<Rightarrow> (string \<Rightarrow> string + 'c option) \<Rightarrow> string \<Rightarrow> string + 'c" where
  "load_with name validate src unmarshal path =
     (case LoadYAML (sr_readFile src) (sr_env src) unmarshal path of
        Inl e \<Rightarrow> Inl (''load '' @ name @ '' config: '' @ e)
      | Inr cfg \<Rightarrow>
          (case validate cfg of
             Some e \<Rightarrow> Inl (''validate '' @ name @ '' config: '' @ e)
           | None \<Rightarrow> (case cfg of None \<Rightarrow> Inl nil_config | Some c \<Rightarrow> Inr c)))"

definition LoadCommon :: "sources \<Rightarrow> (string \<Rightarrow> string + Common_Config option) \<Rightarrow> string \<Rightarrow> string + Common_Config" where
  "LoadCommon = load_with ''common'' Common_Validate"

definition LoadGate :: "sources \<Rightarrow> (string \<Rightarrow> string + Gate_Config option) \<Rightarrow> string \<Rightarrow> string + Gate_Config" where
  "LoadGate = load_with ''gate'' Gate_Validate"

definition LoadLobby :: "sources \<Rightarrow> (string \<Rightarrow> string + Lobby_Config option) \<Rightarrow> string \<Rightarrow> string + Lobby_Config" where
  "LoadLobby = load_with ''lobby'' Lobby_Validate"

definition LoadMatch :: "sources \<Rightarrow> (string \<Rightarrow> string + Match_Config option) \<Rightarrow> string \<Rightarrow> string + Match_Config" where
  "LoadMatch = load_with ''match'' Match_Validate"

definition LoadOnline :: "sources \<Rightarrow> (string \<Rightarrow> string + Online_Config option) \<Rightarrow> string \<Rightarrow> string + Online_Config" where
  "LoadOnline = load_with ''online'' Online_Validate"

definition LoadRoom :: "sources \<Rightarrow> (string \<Rightarrow> string + Room_Config option) \<Rightarrow> string \<Rightarrow> string + Room_Config" where
  "LoadRoom = load_with ''room'' Room_Validate"

definition LoadRouteragent :: "sources \<Rightarrow> (string \<Rightarrow> string + Routeragent_Config option) \<Rightarrow> string \<Rightarrow> string + Routeragent_Config" where
  "LoadRouteragent = load_with ''routeragent'' Routeragent_Validate"

section \<open>The check of a reload\<close>

definition frozen :: "string \<Rightarrow> bool \<Rightarrow> string option \<Rightarrow> string option" where
  "frozen field same rest = (if \<not> same then Some (field @ '' cannot reload'') else rest)"

definition CheckCommonReload :: "Common_Config \<Rightarrow> Common_Config \<Rightarrow> string option" where
  "CheckCommonReload candidate current =
     (let c = candidate; d = current in
      frozen ''cluster.name'' (cl_Name (co_Cluster c) = cl_Name (co_Cluster d)) (frozen ''cluster.env'' (cl_Env (co_Cluster c) = cl_Env (co_Cluster d))
      (frozen ''cluster.world_id'' (cl_WorldId (co_Cluster c) = cl_WorldId (co_Cluster d)) (frozen ''etcd.endpoints'' (et_Endpoints (co_Etcd c) = et_Endpoints (co_Etcd d))
      (frozen ''redis.nodes'' (rd_Nodes (co_Redis c) = rd_Nodes (co_Redis d)) (frozen ''redis.password'' (rd_Password (co_Redis c) = rd_Password (co_Redis d))
      (frozen ''mongo.uri'' (mg_Uri (co_Mongo c) = mg_Uri (co_Mongo d)) (frozen ''mongo.database'' (mg_Database (co_Mongo c) = mg_Database (co_Mongo d)) None))))))))"

text \<open>The eight comparisons of one logger, and those of the three loggers.\<close>

definition log_frozen :: "string \<Rightarrow> LogConfig \<Rightarrow> LogConfig \<Rightarrow> string option \<Rightarrow> string option" where
  "log_frozen name c d rest =
     (let field = (\<lambda>f. ''logger_group.'' @ name @ ''.'' @ f) in
      frozen (field ''level'') (lc_Level c = lc_Level d) (frozen (field ''format'') (lc_Format c = lc_Format d)
      (frozen (field ''stderr_also'') (lc_StderrAlso c = lc_StderrAlso d) (frozen (field ''dir'') (lc_Dir c = lc_Dir d)
      (frozen (field ''basename'') (lc_Basename c = lc_Basename d) (frozen (field ''max_size_mb'') (lc_MaxSizeMb c = lc_MaxSizeMb d)
      (frozen (field ''max_backups'') (lc_MaxBackups c = lc_MaxBackups d) (frozen (field ''rotate_by_hour'') (lc_RotateByHour c = lc_RotateByHour d) rest))))))))"

definition loggers_frozen :: "LoggerGroupConfig \<Rightarrow> LoggerGroupConfig \<Rightarrow> string option \<Rightarrow> string option" where
  "loggers_frozen c d rest =
     log_frozen ''main'' (lg_Main c) (lg_Main d) (log_frozen ''res'' (lg_Res c) (lg_Res d) (log_frozen ''tracing'' (lg_Tracing c) (lg_Tracing d) rest))"

definition CheckGateReload :: "Gate_Config \<Rightarrow> Gate_Config \<Rightarrow> string option" where
  "CheckGateReload candidate current =
     frozen ''listen_tcp'' (ga_ListenTcp candidate = ga_ListenTcp current) (frozen ''listen_ws'' (ga_ListenWs candidate = ga_ListenWs current)
     (frozen ''max_conn'' (ga_MaxConn candidate = ga_MaxConn current) (loggers_frozen (ga_LoggerGroup candidate) (ga_LoggerGroup current)
     (frozen ''routeragent_sock_path'' (ga_RouteragentSockPath candidate = ga_RouteragentSockPath current) None))))"

definition CheckLobbyReload :: "Lobby_Config \<Rightarrow> Lobby_Config \<Rightarrow> string option" where
  "CheckLobbyReload candidate current =
     frozen ''max_player'' (lo_MaxPlayer candidate = lo_MaxPlayer current)
     (frozen ''routeragent_sock_path'' (lo_RouteragentSockPath candidate = lo_RouteragentSockPath current)
     (loggers_frozen (lo_LoggerGroup candidate) (lo_LoggerGroup current) None))"

definition CheckMatchReload :: "Match_Config \<Rightarrow> Match_Config \<Rightarrow> string option" where
  "CheckMatchReload candidate current =
     frozen ''routeragent_sock_path'' (mt_RouteragentSockPath candidate = mt_RouteragentSockPath current)
     (loggers_frozen (mt_LoggerGroup candidate) (mt_LoggerGroup current) None)"

definition CheckOnlineReload :: "Online_Config \<Rightarrow> Online_Config \<Rightarrow> string option" where
  "CheckOnlineReload candidate current =
     frozen ''routeragent_sock_path'' (on_RouteragentSockPath candidate = on_RouteragentSockPath current)
     (loggers_frozen (on_LoggerGroup candidate) (on_LoggerGroup current) None)"

definition CheckRoomReload :: "Room_Config \<Rightarrow> Room_Config \<Rightarrow> string option" where
  "CheckRoomReload candidate current =
     frozen ''routeragent_sock_path'' (ro_RouteragentSockPath candidate = ro_RouteragentSockPath current)
     (loggers_frozen (ro_LoggerGroup candidate) (ro_LoggerGroup current) None)"

definition CheckRouteragentReload :: "Routeragent_Config \<Rightarrow> Routeragent_Config \<Rightarrow> string option" where
  "CheckRouteragentReload candidate current =
     frozen ''sock_path'' (ra_SockPath candidate = ra_SockPath current) (frozen ''listen_addr'' (ra_ListenAddr candidate = ra_ListenAddr current)
     (loggers_frozen (ra_LoggerGroup candidate) (ra_LoggerGroup current) None))"

section \<open>Entries and servers\<close>

definition NewCommonConfigEntry :: "sources \<Rightarrow> (string \<Rightarrow> string + Common_Config option) \<Rightarrow> string \<Rightarrow> string + Common_Config ConfigEntry" where
  "NewCommonConfigEntry src unmarshal path = NewConfigEntry path (LoadCommon src unmarshal) (Some CheckCommonReload)"

definition NewGateConfigEntry :: "sources \<Rightarrow> (string \<Rightarrow> string + Gate_Config option) \<Rightarrow> string \<Rightarrow> string + Gate_Config ConfigEntry" where
  "NewGateConfigEntry src unmarshal path = NewConfigEntry path (LoadGate src unmarshal) (Some CheckGateReload)"

definition NewLobbyConfigEntry :: "sources \<Rightarrow> (string \<Rightarrow> string + Lobby_Config option) \<Rightarrow> string \<Rightarrow> string + Lobby_Config ConfigEntry" where
  "NewLobbyConfigEntry src unmarshal path = NewConfigEntry path (LoadLobby src unmarshal) (Some CheckLobbyReload)"

definition NewMatchConfigEntry :: "sources \<Rightarrow> (string \<Rightarrow> string + Match_Config option) \<Rightarrow> string \<Rightarrow> string + Match_Config ConfigEntry" where
  "NewMatchConfigEntry src unmarshal path = NewConfigEntry path (LoadMatch src unmarshal) (Some CheckMatchReload)"

definition NewOnlineConfigEntry :: "sources \<Rightarrow> (string \<Rightarrow> string + Online_Config option) \<Rightarrow> string \<Rightarrow> string + Online_Config ConfigEntry" where
  "NewOnlineConfigEntry src unmarshal path = NewConfigEntry path (LoadOnline src unmarshal) (Some CheckOnlineReload)"

definition NewRoomConfigEntry :: "sources \<Rightarrow> (string \<Rightarrow> string + Room_Config option) \<Rightarrow> string \<Rightarrow> string + Room_Config ConfigEntry" where
  "NewRoomConfigEntry src unmarshal path = NewConfigEntry path (LoadRoom src unmarshal) (Some CheckRoomReload)"

definition NewRouteragentConfigEntry :: "sources \<Rightarrow> (string \<Rightarrow> string + Routeragent_Config option) \<Rightarrow> string \<Rightarrow> string + Routeragent_Config ConfigEntry" where
  "NewRouteragentConfigEntry src unmarshal path = NewConfigEntry path (LoadRouteragent src unmarshal) (Some CheckRouteragentReload)"

text \<open>The decoders of the two files of a server.\<close>

type_synonym 'l decoders = "(string \<Rightarrow> string + Common_Config option) \<times> (string \<Rightarrow> string + 'l option)"

definition Gate_ReloadConfig :: "sources \<Rightarrow> Gate_Config decoders \<Rightarrow> (Common_Config, Gate_Config) LobbyConfigs \<Rightarrow> (Common_Config, Gate_Config) LobbyConfigs \<times> nat \<times> string option" where
  "Gate_ReloadConfig src dec =
     ReloadConfig ''gate'' (LoadCommon src (fst dec)) (Some CheckCommonReload) (LoadGate src (snd dec)) (Some CheckGateReload)"

definition Lobby_ReloadConfig :: "sources \<Rightarrow> Lobby_Config decoders \<Rightarrow> (Common_Config, Lobby_Config) LobbyConfigs \<Rightarrow> (Common_Config, Lobby_Config) LobbyConfigs \<times> nat \<times> string option" where
  "Lobby_ReloadConfig src dec =
     ReloadConfig ''lobby'' (LoadCommon src (fst dec)) (Some CheckCommonReload) (LoadLobby src (snd dec)) (Some CheckLobbyReload)"

definition Match_ReloadConfig :: "sources \<Rightarrow> Match_Config decoders \<Rightarrow> (Common_Config, Match_Config) LobbyConfigs \<Rightarrow> (Common_Config, Match_Config) LobbyConfigs \<times> nat \<times> string option" where
  "Match_ReloadConfig src dec =
     ReloadConfig ''match'' (LoadCommon src (fst dec)) (Some CheckCommonReload) (LoadMatch src (snd dec)) (Some CheckMatchReload)"

definition Online_ReloadConfig :: "sources \<Rightarrow> Online_Config decoders \<Rightarrow> (Common_Config, Online_Config) LobbyConfigs \<Rightarrow> (Common_Config, Online_Config) LobbyConfigs \<times> nat \<times> string option" where
  "Online_ReloadConfig src dec =
     ReloadConfig ''online'' (LoadCommon src (fst dec)) (Some CheckCommonReload) (LoadOnline src (snd dec)) (Some CheckOnlineReload)"

definition Room_ReloadConfig :: "sources \<Rightarrow> Room_Config decoders \<Rightarrow> (Common_Config, Room_Config) LobbyConfigs \<Rightarrow> (Common_Config, Room_Config) LobbyConfigs \<times> nat \<times> string option" where
  "Room_ReloadConfig src dec =
     ReloadConfig ''room'' (LoadCommon src (fst dec)) (Some CheckCommonReload) (LoadRoom src (snd dec)) (Some CheckRoomReload)"

definition Routeragent_ReloadConfig :: "sources \<Rightarrow> Routeragent_Config decoders \<Rightarrow> (Common_Config, Routeragent_Config) LobbyConfigs \<Rightarrow> (Common_Config, Routeragent_Config) LobbyConfigs \<times> nat \<times> string option" where
  "Routeragent_ReloadConfig src dec =
     ReloadConfig ''routeragent'' (LoadCommon src (fst dec)) (Some CheckCommonReload) (LoadRouteragent src (snd dec)) (Some CheckRouteragentReload)"

section \<open>What a reload can change\<close>

lemma frozen_None [simp]: "frozen f same rest = None \<longleftrightarrow> same \<and> rest = None"
  by (simp add: frozen_def)

lemma log_frozen_None [simp]: "log_frozen name c d rest = None \<longleftrightarrow> c = d \<and> rest = None"
  by (cases c; cases d) (auto simp: log_frozen_def Let_def)

lemma loggers_frozen_None [simp]: "loggers_frozen c d rest = None \<longleftrightarrow> c = d \<and> rest = None"
  by (cases c; cases d) (auto simp: loggers_frozen_def)

lemma CheckCommonReload_None: "CheckCommonReload c d = None \<longleftrightarrow> c = d"
proof
  assume "CheckCommonReload c d = None"
  then have "co_Cluster c = co_Cluster d" "co_Etcd c = co_Etcd d" "co_Redis c = co_Redis d" "co_Mongo c = co_Mongo d"
    by (auto simp: CheckCommonReload_def Let_def intro!: ClusterConfig.equality EtcdConfig.equality RedisConfig.equality MongoConfig.equality)
  then show "c = d" by (intro Common_Config.equality) simp_all
qed (simp add: CheckCommonReload_def)

lemma load_with_valid: "load_with name validate src unmarshal path = Inr c \<Longrightarrow> validate (Some c) = None"
  by (auto simp: load_with_def split: sum.splits option.splits)

lemma load_with_common: "LoadCommon src unmarshal path = Inr c \<Longrightarrow> Common_Validate (Some c) = None"
  unfolding LoadCommon_def by (rule load_with_valid)

definition loaded :: "('c, 'l) LobbyConfigs \<Rightarrow> 'c \<Rightarrow> 'l \<Rightarrow> bool" where
  "loaded st c l \<longleftrightarrow> CommonConfig st = Some c \<and> LobbyConfig st = Some l"

text \<open>A history of reloads: at each one the files, the environment and what the decoders make of them.\<close>

definition reloads :: "(sources \<Rightarrow> 'd \<Rightarrow> 's \<Rightarrow> 's \<times> nat \<times> string option) \<Rightarrow> 's \<Rightarrow> (sources \<times> 'd) list \<Rightarrow> 's" where
  "reloads reload st xs = foldl (\<lambda>st (src, dec). fst (reload src dec st)) st xs"

text \<open>A configuration whose check lets a reload change one field.\<close>

locale hot_config =
  fixes name :: string and validate :: "'l option \<Rightarrow> string option" and check :: "'l \<Rightarrow> 'l \<Rightarrow> string option"
    and with_heartbeat :: "int \<Rightarrow> 'l \<Rightarrow> 'l"
    and reload :: "sources \<Rightarrow> 'l decoders \<Rightarrow> (Common_Config, 'l) LobbyConfigs \<Rightarrow> (Common_Config, 'l) LobbyConfigs \<times> nat \<times> string option"
  assumes check_law: "check candidate current = None \<Longrightarrow> \<exists>h. candidate = with_heartbeat h current"
    and twice_law: "with_heartbeat h (with_heartbeat h' l) = with_heartbeat h l"
    and same_law: "\<exists>h. with_heartbeat h l = l"
    and reload_law: "reload src dec = ReloadConfig name (LoadCommon src (fst dec)) (Some CheckCommonReload) (load_with name validate src (snd dec)) (Some check)"
begin

lemma reload_step:
  assumes "loaded st c (with_heartbeat h l)" and "validate (Some (with_heartbeat h l)) = None"
  shows "\<exists>h'. loaded (fst (reload src dec st)) c (with_heartbeat h' l) \<and> validate (Some (with_heartbeat h' l)) = None"
proof -
  obtain ce le where e: "lc_common st = Some ce" "ce_data ce = Some c" "lc_lobby st = Some le" "ce_data le = Some (with_heartbeat h l)"
    using assms(1) by (auto simp: loaded_def CommonConfig_def LobbyConfig_def bind_eq_Some_conv)
  obtain ce1 r1 where c1: "Entry_Reload (LoadCommon src (fst dec)) (Some CheckCommonReload) ce = (ce1, r1)" by fastforce
  have ce1: "ce_data ce1 = Some c"
  proof (cases r1)
    case None
    from reload_replaces [OF c1 [unfolded None]] e(2) show ?thesis by (auto simp: CheckCommonReload_None)
  qed (use reload_keeps c1 e(2) in blast)
  obtain le1 r2 where l1: "Entry_Reload (load_with name validate src (snd dec)) (Some check) le = (le1, r2)" by fastforce
  have le1: "\<exists>h'. ce_data le1 = Some (with_heartbeat h' l) \<and> validate (Some (with_heartbeat h' l)) = None"
  proof (cases r2)
    case None
    from reload_replaces [OF l1 [unfolded None]] e(4) obtain x
      where x: "load_with name validate src (snd dec) (ce_path le) = Inr x" "ce_data le1 = Some x" "check x (with_heartbeat h l) = None" by auto
    from check_law [OF x(3)] obtain h' where "x = with_heartbeat h' (with_heartbeat h l)" ..
    then have "x = with_heartbeat h' l" by (simp add: twice_law)
    with x load_with_valid [OF x(1)] show ?thesis by auto
  next
    case (Some err)
    with reload_keeps l1 have "le1 = le" by blast
    with e(4) assms(2) show ?thesis by auto
  qed
  have "\<exists>h'. loaded (fst (ReloadConfig name (LoadCommon src (fst dec)) (Some CheckCommonReload) (load_with name validate src (snd dec)) (Some check) st))
      c (with_heartbeat h' l) \<and> validate (Some (with_heartbeat h' l)) = None"
    using e ce1 le1 assms(2) by (auto simp: ReloadConfig_def c1 l1 Let_def loaded_def CommonConfig_def LobbyConfig_def split: option.splits)
  then show ?thesis by (simp add: reload_law)
qed

lemma history:
  assumes "loaded st c l" and "validate (Some l) = None"
  shows "\<exists>h. loaded (reloads reload st xs) c (with_heartbeat h l) \<and> validate (Some (with_heartbeat h l)) = None"
proof -
  have "\<exists>h. loaded (reloads reload st xs) c (with_heartbeat h l) \<and> validate (Some (with_heartbeat h l)) = None"
    if "loaded st c (with_heartbeat h0 l)" "validate (Some (with_heartbeat h0 l)) = None" for st h0
    using that
  proof (induction xs arbitrary: st h0)
    case Nil
    then show ?case by (auto simp: reloads_def)
  next
    case (Cons x xs)
    obtain src dec where x: "x = (src, dec)" by (cases x)
    from reload_step [OF Cons.prems, of src dec] obtain h1 where
      "loaded (fst (reload src dec st)) c (with_heartbeat h1 l)" "validate (Some (with_heartbeat h1 l)) = None" by blast
    from Cons.IH [OF this] show ?case by (simp add: reloads_def x)
  qed
  moreover obtain h0 where "with_heartbeat h0 l = l" using same_law by blast
  ultimately show ?thesis using assms by metis
qed

end

interpretation gate_hot: hot_config "''gate''" Gate_Validate CheckGateReload "\<lambda>h c. c\<lparr>ga_HeartbeatSec := h\<rparr>" Gate_ReloadConfig
proof
  fix candidate current :: Gate_Config
  show "CheckGateReload candidate current = None \<Longrightarrow> \<exists>h. candidate = current\<lparr>ga_HeartbeatSec := h\<rparr>"
    by (cases candidate; cases current) (auto simp: CheckGateReload_def)
  show "\<exists>h. current\<lparr>ga_HeartbeatSec := h\<rparr> = current" by (cases current) auto
qed (simp_all add: Gate_ReloadConfig_def LoadGate_def)

interpretation lobby_hot: hot_config "''lobby''" Lobby_Validate CheckLobbyReload "\<lambda>h c. c\<lparr>lo_HeartbeatSec := h\<rparr>" Lobby_ReloadConfig
proof
  fix candidate current :: Lobby_Config
  show "CheckLobbyReload candidate current = None \<Longrightarrow> \<exists>h. candidate = current\<lparr>lo_HeartbeatSec := h\<rparr>"
    by (cases candidate; cases current) (auto simp: CheckLobbyReload_def)
  show "\<exists>h. current\<lparr>lo_HeartbeatSec := h\<rparr> = current" by (cases current) auto
qed (simp_all add: Lobby_ReloadConfig_def LoadLobby_def)

interpretation match_hot: hot_config "''match''" Match_Validate CheckMatchReload "\<lambda>h c. c\<lparr>mt_HeartbeatSec := h\<rparr>" Match_ReloadConfig
proof
  fix candidate current :: Match_Config
  show "CheckMatchReload candidate current = None \<Longrightarrow> \<exists>h. candidate = current\<lparr>mt_HeartbeatSec := h\<rparr>"
    by (cases candidate; cases current) (auto simp: CheckMatchReload_def)
  show "\<exists>h. current\<lparr>mt_HeartbeatSec := h\<rparr> = current" by (cases current) auto
qed (simp_all add: Match_ReloadConfig_def LoadMatch_def)

interpretation online_hot: hot_config "''online''" Online_Validate CheckOnlineReload "\<lambda>h c. c\<lparr>on_HeartbeatSec := h\<rparr>" Online_ReloadConfig
proof
  fix candidate current :: Online_Config
  show "CheckOnlineReload candidate current = None \<Longrightarrow> \<exists>h. candidate = current\<lparr>on_HeartbeatSec := h\<rparr>"
    by (cases candidate; cases current) (auto simp: CheckOnlineReload_def)
  show "\<exists>h. current\<lparr>on_HeartbeatSec := h\<rparr> = current" by (cases current) auto
qed (simp_all add: Online_ReloadConfig_def LoadOnline_def)

interpretation room_hot: hot_config "''room''" Room_Validate CheckRoomReload "\<lambda>h c. c\<lparr>ro_HeartbeatSec := h\<rparr>" Room_ReloadConfig
proof
  fix candidate current :: Room_Config
  show "CheckRoomReload candidate current = None \<Longrightarrow> \<exists>h. candidate = current\<lparr>ro_HeartbeatSec := h\<rparr>"
    by (cases candidate; cases current) (auto simp: CheckRoomReload_def)
  show "\<exists>h. current\<lparr>ro_HeartbeatSec := h\<rparr> = current" by (cases current) auto
qed (simp_all add: Room_ReloadConfig_def LoadRoom_def)

interpretation routeragent_hot: hot_config "''routeragent''" Routeragent_Validate CheckRouteragentReload "\<lambda>h c. c\<lparr>ra_HeartbeatSec := h\<rparr>" Routeragent_ReloadConfig
proof
  fix candidate current :: Routeragent_Config
  show "CheckRouteragentReload candidate current = None \<Longrightarrow> \<exists>h. candidate = current\<lparr>ra_HeartbeatSec := h\<rparr>"
    by (cases candidate; cases current) (auto simp: CheckRouteragentReload_def)
  show "\<exists>h. current\<lparr>ra_HeartbeatSec := h\<rparr> = current" by (cases current) auto
qed (simp_all add: Routeragent_ReloadConfig_def LoadRouteragent_def)

text \<open>C18: A reload changes the heartbeat interval and nothing else. Over every history of reloads of a server,
  whatever the files contain and whichever of the reloads fail, the common configuration stays the
  one of the start, and the configuration of the server stays valid and differs from the one of the
  start in the heartbeat interval at most.\<close>

theorem reload_changes_heartbeat_only:
  "(loaded st1 c l1 \<and> Gate_Validate (Some l1) = None \<longrightarrow> (\<exists>h. loaded (reloads Gate_ReloadConfig st1 xs1) c (l1\<lparr>ga_HeartbeatSec := h\<rparr>)
      \<and> Gate_Validate (Some (l1\<lparr>ga_HeartbeatSec := h\<rparr>)) = None))
   \<and> (loaded st2 c l2 \<and> Lobby_Validate (Some l2) = None \<longrightarrow> (\<exists>h. loaded (reloads Lobby_ReloadConfig st2 xs2) c (l2\<lparr>lo_HeartbeatSec := h\<rparr>)
      \<and> Lobby_Validate (Some (l2\<lparr>lo_HeartbeatSec := h\<rparr>)) = None))
   \<and> (loaded st3 c l3 \<and> Match_Validate (Some l3) = None \<longrightarrow> (\<exists>h. loaded (reloads Match_ReloadConfig st3 xs3) c (l3\<lparr>mt_HeartbeatSec := h\<rparr>)
      \<and> Match_Validate (Some (l3\<lparr>mt_HeartbeatSec := h\<rparr>)) = None))
   \<and> (loaded st4 c l4 \<and> Online_Validate (Some l4) = None \<longrightarrow> (\<exists>h. loaded (reloads Online_ReloadConfig st4 xs4) c (l4\<lparr>on_HeartbeatSec := h\<rparr>)
      \<and> Online_Validate (Some (l4\<lparr>on_HeartbeatSec := h\<rparr>)) = None))
   \<and> (loaded st5 c l5 \<and> Room_Validate (Some l5) = None \<longrightarrow> (\<exists>h. loaded (reloads Room_ReloadConfig st5 xs5) c (l5\<lparr>ro_HeartbeatSec := h\<rparr>)
      \<and> Room_Validate (Some (l5\<lparr>ro_HeartbeatSec := h\<rparr>)) = None))
   \<and> (loaded st6 c l6 \<and> Routeragent_Validate (Some l6) = None \<longrightarrow> (\<exists>h. loaded (reloads Routeragent_ReloadConfig st6 xs6) c (l6\<lparr>ra_HeartbeatSec := h\<rparr>)
      \<and> Routeragent_Validate (Some (l6\<lparr>ra_HeartbeatSec := h\<rparr>)) = None))"
  by (intro conjI impI; elim conjE)
    (rule gate_hot.history lobby_hot.history match_hot.history online_hot.history room_hot.history routeragent_hot.history, assumption+)+

text \<open>
  The lobby starts with a heartbeat of 30 seconds; a file that raises it to 60 is taken, one that
  also raises the number of players is refused.
\<close>

definition demo_log :: LogConfig where
  "demo_log = \<lparr>lc_Level = ''info'', lc_Format = ''json'', lc_StderrAlso = False, lc_Dir = ''/log'', lc_Basename = ''lobbysvr'', lc_MaxSizeMb = 100,
     lc_MaxBackups = 72, lc_RotateByHour = True\<rparr>"

definition demo_lobby :: "int \<Rightarrow> int \<Rightarrow> Lobby_Config" where
  "demo_lobby players h = \<lparr>lo_MaxPlayer = players, lo_HeartbeatSec = h, lo_RouteragentSockPath = ''/ra.sock'',
     lo_LoggerGroup = \<lparr>lg_Main = demo_log, lg_Res = demo_log, lg_Tracing = demo_log\<rparr>\<rparr>"

definition demo_common :: Common_Config where
  "demo_common = \<lparr>co_Cluster = \<lparr>cl_Name = ''bid'', cl_Env = ''dev'', cl_WorldId = 1\<rparr>, co_Etcd = \<lparr>et_Endpoints = [''e1'']\<rparr>,
     co_Redis = \<lparr>rd_Nodes = [\<lparr>rn_Host = ''r1'', rn_Port = 6379\<rparr>], rd_Password = ''x''\<rparr>, co_Mongo = \<lparr>mg_Uri = ''m'', mg_Database = ''bid''\<rparr>\<rparr>"

definition demo_attempt :: "int \<Rightarrow> int \<Rightarrow> sources \<times> Lobby_Config decoders" where
  "demo_attempt players h = (\<lparr>sr_readFile = \<lambda>p. Inr p, sr_env = Map.empty\<rparr>, \<lambda>t. Inr (Some demo_common), \<lambda>t. Inr (Some (demo_lobby players h)))"

definition demo_configs :: "(Common_Config, Lobby_Config) LobbyConfigs" where
  "demo_configs = \<lparr>lc_common = Some \<lparr>ce_path = ''c'', ce_data = Some demo_common\<rparr>, lc_lobby = Some \<lparr>ce_path = ''l'', ce_data = Some (demo_lobby 5000 30)\<rparr>, lc_hooks = []\<rparr>"

lemmas config_eval = demo_configs_def demo_attempt_def demo_lobby_def demo_common_def demo_log_def Lobby_Validate_def Common_Validate_def Cluster_Validate_def
  Etcd_Validate_def Redis_Validate_def Mongo_Validate_def LoggerGroup_Validate_def Log_Validate_def require_def part_def log_levels_def log_formats_def

theorem reload_changes_heartbeat_only_witness:
  "LobbyConfig (reloads Lobby_ReloadConfig demo_configs [demo_attempt 5000 60, demo_attempt 9000 90]) = Some (demo_lobby 5000 60)
   \<and> (\<exists>h. loaded (reloads Lobby_ReloadConfig demo_configs [demo_attempt 5000 60, demo_attempt 9000 90]) demo_common ((demo_lobby 5000 30)\<lparr>lo_HeartbeatSec := h\<rparr>))"
proof
  have "expandEnv Map.empty t = Inr t" if "set t \<subseteq> {CHR ''c'', CHR ''l''}" for t
    using that expandEnv_literal [of t Map.empty] by auto
  then have ex: "expandEnv Map.empty ''c'' = Inr ''c''" "expandEnv Map.empty ''l'' = Inr ''l''" by simp_all
  show "LobbyConfig (reloads Lobby_ReloadConfig demo_configs [demo_attempt 5000 60, demo_attempt 9000 90]) = Some (demo_lobby 5000 60)"
    by (simp add: reloads_def Lobby_ReloadConfig_def ReloadConfig_def Entry_Reload_def LoadCommon_def LoadLobby_def load_with_def LoadYAML_def ex
        config_eval CheckCommonReload_def CheckLobbyReload_def frozen_def loggers_frozen_def log_frozen_def LobbyConfig_def CommonConfig_def Let_def)
  have "loaded demo_configs demo_common (demo_lobby 5000 30)" "Lobby_Validate (Some (demo_lobby 5000 30)) = None"
    by (simp_all add: loaded_def CommonConfig_def LobbyConfig_def config_eval)
  with reload_changes_heartbeat_only [THEN conjunct2, THEN conjunct1, of demo_configs demo_common "demo_lobby 5000 30" "[demo_attempt 5000 60, demo_attempt 9000 90]"]
  show "\<exists>h. loaded (reloads Lobby_ReloadConfig demo_configs [demo_attempt 5000 60, demo_attempt 9000 90]) demo_common ((demo_lobby 5000 30)\<lparr>lo_HeartbeatSec := h\<rparr>)"
    by blast
qed

text \<open>The nodes of Redis are not validated: their check exists and nobody calls it.\<close>

lemma redis_nodes_unchecked:
  "Redis_Validate \<lparr>rd_Nodes = [\<lparr>rn_Host = [], rn_Port = 0\<rparr>], rd_Password = ''x''\<rparr> = None"
  by (simp add: Redis_Validate_def require_def)

end
