(* ===== verification/Op_Dedup.thy ===== *)
theory Op_Dedup
  imports Go_Strconv
begin

text \<open>
  The bounded ring of operation identifiers (\<^verbatim>\<open>internal/server/lobby/internal/op_dedup.go\<close>) that
  makes wallet and bag operations idempotent: eviction loop and its termination, the exact
  entries it keeps, and for how long an identifier is remembered.
\<close>

section \<open>The ring\<close>

text \<open>Sets of the source are maps to empty structs; a nil map behaves as an empty one here.\<close>

record opDedup =
  od_seenSet :: "string set"
  od_order :: "string list"
  od_protected :: "string set"
  od_max :: int

definition newOpDedup :: "int \<Rightarrow> opDedup" where
  "newOpDedup m = \<lparr>od_seenSet = {}, od_order = [], od_protected = {}, od_max = (if m \<le> 0 then 128 else m)\<rparr>"

definition seen :: "opDedup \<Rightarrow> string \<Rightarrow> bool" where
  "seen r opID = (if opID = [] then False else opID \<in> od_seenSet r)"

text \<open>The inner loop of \<^verbatim>\<open>evict\<close>.\<close>

fun first_unprotected :: "string set \<Rightarrow> string list \<Rightarrow> nat option" where
  "first_unprotected P [] = None"
| "first_unprotected P (x # xs) = (if x \<notin> P then Some 0 else map_option Suc (first_unprotected P xs))"

lemma first_unprotected_less: "first_unprotected P xs = Some i \<Longrightarrow> i < length xs"
  by (induction xs arbitrary: i) (auto split: if_splits)

function evict :: "opDedup \<Rightarrow> opDedup" where
  "evict r =
     (if od_max r < int (length (od_order r)) then
        (case first_unprotected (od_protected r) (od_order r) of
           None \<Rightarrow> r
         | Some idx \<Rightarrow>
             evict (r\<lparr>od_order := take idx (od_order r) @ drop (Suc idx) (od_order r),
                      od_seenSet := od_seenSet r - {od_order r ! idx}\<rparr>))
      else r)"
  by pat_completeness auto
termination
  by (relation "measure (\<lambda>r. length (od_order r))") (auto dest: first_unprotected_less)

declare evict.simps [simp del]

definition remember :: "opDedup \<Rightarrow> string \<Rightarrow> opDedup" where
  "remember r opID =
     (if opID = [] then r
      else if opID \<in> od_seenSet r then r
      else evict (r\<lparr>od_seenSet := insert opID (od_seenSet r), od_order := od_order r @ [opID]\<rparr>))"

definition protect :: "opDedup \<Rightarrow> string \<Rightarrow> opDedup" where
  "protect r opID = (if opID = [] then r else r\<lparr>od_protected := insert opID (od_protected r)\<rparr>)"

definition unprotect :: "opDedup \<Rightarrow> string \<Rightarrow> opDedup" where
  "unprotect r opID = (if opID = [] then r else evict (r\<lparr>od_protected := od_protected r - {opID}\<rparr>))"

definition ops_snapshot :: "opDedup \<Rightarrow> string list" where
  "ops_snapshot r = od_order r"

definition loadFrom :: "opDedup \<Rightarrow> string list \<Rightarrow> opDedup" where
  "loadFrom r ops = foldl remember (r\<lparr>od_seenSet := {}, od_order := [], od_protected := {}\<rparr>) ops"

section \<open>What eviction keeps\<close>

text \<open>Reference: the first \<open>n\<close> unprotected entries are dropped.\<close>

fun drop_unprotected :: "nat \<Rightarrow> string set \<Rightarrow> string list \<Rightarrow> string list" where
  "drop_unprotected 0 P xs = xs"
| "drop_unprotected (Suc n) P [] = []"
| "drop_unprotected (Suc n) P (x # xs) =
     (if x \<in> P then x # drop_unprotected (Suc n) P xs else drop_unprotected n P xs)"

lemma drop_unprotected_Nil [simp]: "drop_unprotected n P [] = []"
  by (cases n) simp_all

lemma drop_unprotected_all: "set xs \<subseteq> P \<Longrightarrow> drop_unprotected n P xs = xs"
  by (cases n; simp) (induction xs, auto)

lemma first_unprotected_None: "first_unprotected P xs = None \<longleftrightarrow> set xs \<subseteq> P"
  by (induction xs) auto

lemma drop_unprotected_step:
  "first_unprotected P xs = Some i \<Longrightarrow> drop_unprotected (Suc n) P xs = drop_unprotected n P (take i xs @ drop (Suc i) xs)"
proof (induction xs arbitrary: i)
  case (Cons x xs)
  show ?case
  proof (cases "x \<in> P")
    case True
    with Cons.prems obtain j where "first_unprotected P xs = Some j" "i = Suc j" by auto
    with Cons.IH [of j] True show ?thesis by (cases n) simp_all
  qed (use Cons.prems in simp)
qed simp

lemma set_drop_unprotected: "set (drop_unprotected n P xs) \<subseteq> set xs"
  by (induction n P xs rule: drop_unprotected.induct) auto

lemma distinct_drop_unprotected: "distinct xs \<Longrightarrow> distinct (drop_unprotected n P xs)"
  by (induction n P xs rule: drop_unprotected.induct) (use set_drop_unprotected in fastforce)+

text \<open>An entry survives if it is protected or enough unprotected entries stand before it.\<close>

lemma drop_unprotected_keeps:
  "x \<in> P \<or> n \<le> length (filter (\<lambda>y. y \<notin> P) xs) \<Longrightarrow>
   \<exists>ys. drop_unprotected n P (xs @ x # zs) = ys @ x # (if x \<in> P \<and> \<not> n \<le> length (filter (\<lambda>y. y \<notin> P) xs)
     then drop_unprotected (n - length (filter (\<lambda>y. y \<notin> P) xs)) P zs else zs)
     \<and> set ys \<subseteq> set xs \<and> filter (\<lambda>y. y \<in> P) ys = filter (\<lambda>y. y \<in> P) xs"
proof (induction n P xs rule: drop_unprotected.induct)
  case (1 P xs)
  then show ?case by auto
next
  case (2 n P)
  then show ?case by simp
next
  case (3 n P y ys)
  show ?case
  proof (cases "y \<in> P")
    case True
    with 3 obtain w where "drop_unprotected (Suc n) P (ys @ x # zs) = w @ x # (if x \<in> P \<and> \<not> Suc n \<le> length (filter (\<lambda>y. y \<notin> P) ys)
     then drop_unprotected (Suc n - length (filter (\<lambda>y. y \<notin> P) ys)) P zs else zs)"
      "set w \<subseteq> set ys" "filter (\<lambda>y. y \<in> P) w = filter (\<lambda>y. y \<in> P) ys" by auto
    with True show ?thesis by (intro exI [of _ "y # w"]) auto
  next
    case False
    with 3 show ?thesis by auto
  qed
qed

lemma evict_frame [simp]: "od_protected (evict r) = od_protected r" "od_max (evict r) = od_max r"
proof -
  have "od_protected (evict r) = od_protected r \<and> od_max (evict r) = od_max r"
  proof (induction r rule: evict.induct)
    case (1 r)
    then show ?case by (subst (1 2) evict.simps) (auto split: option.splits)
  qed
  then show "od_protected (evict r) = od_protected r" "od_max (evict r) = od_max r" by simp_all
qed

text \<open>Entries are distinct, not empty, and exactly those of the set.\<close>

definition ring_ok :: "opDedup \<Rightarrow> bool" where
  "ring_ok r \<longleftrightarrow> distinct (od_order r) \<and> od_seenSet r = set (od_order r) \<and> [] \<notin> set (od_order r) \<and> 0 < od_max r"

definition excess :: "opDedup \<Rightarrow> nat" where
  "excess r = length (od_order r) - nat (od_max r)"

lemma evict_order:
  "ring_ok r \<Longrightarrow> od_order (evict r) = drop_unprotected (excess r) (od_protected r) (od_order r) \<and> ring_ok (evict r)"
proof (induction r rule: evict.induct)
  case (1 r)
  show ?case
  proof (cases "od_max r < int (length (od_order r))")
    case False
    then show ?thesis using "1.prems" by (subst (1 2) evict.simps) (simp add: excess_def ring_ok_def)
  next
    case over: True
    then have "0 < excess r" using "1.prems" by (simp add: excess_def ring_ok_def nat_less_iff)
    then obtain n where n: "excess r = Suc n" by (cases "excess r") simp_all
    show ?thesis
    proof (cases "first_unprotected (od_protected r) (od_order r)")
      case None
      then have "evict r = r" using over by (subst evict.simps) simp
      with None "1.prems" show ?thesis by (simp add: first_unprotected_None drop_unprotected_all)
    next
      case (Some i)
      let ?r = "r\<lparr>od_order := take i (od_order r) @ drop (Suc i) (od_order r), od_seenSet := od_seenSet r - {od_order r ! i}\<rparr>"
      note lt = first_unprotected_less [OF Some]
      have "ring_ok ?r" using "1.prems" remove_nth [OF lt] by (simp add: ring_ok_def)
      moreover have "excess ?r = n" using n lt by (simp add: excess_def)
      ultimately have "od_order (evict ?r) = drop_unprotected n (od_protected r) (od_order ?r) \<and> ring_ok (evict ?r)"
        using "1.IH" [OF over Some] by simp
      moreover have "evict r = evict ?r" using over Some by (subst evict.simps) simp
      ultimately show ?thesis using drop_unprotected_step [OF Some, of n] n by simp
    qed
  qed
qed


lemma evict_noop: "int (length (od_order r)) \<le> od_max r \<Longrightarrow> evict r = r"
  by (subst evict.simps) simp

section \<open>Histories\<close>

datatype dedup_op = Remember string | Protect string | Unprotect string | Reload

fun dedup_step :: "opDedup \<Rightarrow> dedup_op \<Rightarrow> opDedup" where
  "dedup_step r (Remember x) = remember r x"
| "dedup_step r (Protect x) = protect r x"
| "dedup_step r (Unprotect x) = unprotect r x"
| "dedup_step r Reload = loadFrom r (ops_snapshot r)"

lemma ring_ok_New [simp]: "ring_ok (newOpDedup m)"
  by (simp add: ring_ok_def newOpDedup_def)

lemma ring_ok_remember [simp]: "ring_ok r \<Longrightarrow> ring_ok (remember r x)"
proof -
  assume r: "ring_ok r"
  show ?thesis
  proof (cases "x = [] \<or> x \<in> od_seenSet r")
    case False
    then have "ring_ok (r\<lparr>od_seenSet := insert x (od_seenSet r), od_order := od_order r @ [x]\<rparr>)" using r by (auto simp: ring_ok_def)
    from conjunct2 [OF evict_order [OF this]] False show ?thesis by (simp add: remember_def)
  qed (use r in \<open>auto simp: remember_def\<close>)
qed

lemma ring_ok_protect [simp]: "ring_ok r \<Longrightarrow> ring_ok (protect r x)"
  by (simp add: protect_def ring_ok_def)

lemma ring_ok_unprotect [simp]: "ring_ok r \<Longrightarrow> ring_ok (unprotect r x)"
proof -
  assume r: "ring_ok r"
  then have "ring_ok (r\<lparr>od_protected := od_protected r - {x}\<rparr>)" by (simp add: ring_ok_def)
  from conjunct2 [OF evict_order [OF this]] r show ?thesis by (simp add: unprotect_def)
qed

lemma ring_ok_foldl: "ring_ok r \<Longrightarrow> ring_ok (foldl remember r xs)"
  by (induction xs arbitrary: r) simp_all

lemma remember_frame [simp]: "od_protected (remember r x) = od_protected r" "od_max (remember r x) = od_max r"
  by (simp_all add: remember_def)

lemma foldl_remember_frame [simp]:
  "od_protected (foldl remember r xs) = od_protected r" "od_max (foldl remember r xs) = od_max r"
  by (induction xs arbitrary: r) simp_all

lemma dedup_step_ok [simp]: "ring_ok r \<Longrightarrow> ring_ok (dedup_step r p)"
proof (cases p)
  case Reload
  assume "ring_ok r"
  then have "ring_ok (r\<lparr>od_seenSet := {}, od_order := [], od_protected := {}\<rparr>)" by (simp add: ring_ok_def)
  with Reload show ?thesis by (simp add: loadFrom_def ring_ok_foldl)
qed simp_all

lemma dedup_steps_ok: "ring_ok r \<Longrightarrow> ring_ok (foldl dedup_step r ps)"
  by (induction ps arbitrary: r) simp_all

lemma dedup_max [simp]: "od_max (dedup_step r p) = od_max r"
  by (cases p) (simp_all add: protect_def unprotect_def loadFrom_def)

lemma drop_unprotected_empty: "drop_unprotected n {} xs = drop n xs"
  by (induction n "{} :: string set" xs rule: drop_unprotected.induct) simp_all

lemma drop_trim: "n \<le> length zs - m \<Longrightarrow> drop (length (drop n zs) - m) (drop n zs) = drop (length zs - m) zs"
proof -
  assume "n \<le> length zs - m"
  then have "length zs - (n + m) + n = length zs - m" by linarith
  then show ?thesis by simp
qed

text \<open>Loading keeps the most recent entries.\<close>

lemma foldl_remember_order:
  assumes "ring_ok r" and "od_protected r = {}" and "int (length (od_order r)) \<le> od_max r"
    and "distinct (od_order r @ xs)" and "[] \<notin> set xs"
  shows "od_order (foldl remember r xs) = drop (length (od_order r @ xs) - nat (od_max r)) (od_order r @ xs)"
  using assms
proof (induction xs arbitrary: r)
  case Nil
  then show ?case by simp
next
  case (Cons x xs)
  let ?r = "r\<lparr>od_seenSet := insert x (od_seenSet r), od_order := od_order r @ [x]\<rparr>"
  have rem: "remember r x = evict ?r" using Cons.prems by (auto simp: remember_def ring_ok_def)
  have ok: "ring_ok ?r" using Cons.prems by (auto simp: ring_ok_def)
  have o: "od_order (remember r x) = drop (Suc (length (od_order r)) - nat (od_max r)) (od_order r @ [x])"
    using evict_order [OF ok] Cons.prems(2) by (simp add: rem drop_unprotected_empty excess_def)
  have len: "int (length (od_order (remember r x))) \<le> od_max r"
    using Cons.prems(1) unfolding o by (simp add: ring_ok_def) linarith
  have "distinct (od_order (remember r x) @ xs)"
    using Cons.prems(4) set_drop_subset [of "Suc (length (od_order r)) - nat (od_max r)" "od_order r @ [x]"]
      distinct_drop [of "od_order r @ [x]" "Suc (length (od_order r)) - nat (od_max r)"] unfolding o by auto
  with Cons.IH [of "remember r x"] Cons.prems len
  have "od_order (foldl remember (remember r x) xs) =
      drop (length (od_order (remember r x) @ xs) - nat (od_max r)) (od_order (remember r x) @ xs)" by simp
  moreover have "od_order (remember r x) @ xs = drop (Suc (length (od_order r)) - nat (od_max r)) (od_order r @ x # xs)"
    using Cons.prems(1,3) unfolding o by (auto simp: ring_ok_def)
  ultimately have "od_order (foldl remember (remember r x) xs) =
      drop (length (drop (Suc (length (od_order r)) - nat (od_max r)) (od_order r @ x # xs)) - nat (od_max r))
        (drop (Suc (length (od_order r)) - nat (od_max r)) (od_order r @ x # xs))" by metis
  then show ?case
    unfolding foldl.simps using drop_trim [of "Suc (length (od_order r)) - nat (od_max r)" "od_order r @ x # xs" "nat (od_max r)"] by simp
qed

lemma loadFrom_order:
  assumes "ring_ok r"
  shows "od_order (loadFrom r (ops_snapshot r)) = drop (length (od_order r) - nat (od_max r)) (od_order r)"
  using foldl_remember_order [of "r\<lparr>od_seenSet := {}, od_order := [], od_protected := {}\<rparr>" "od_order r"] assms
  by (simp add: ring_ok_def loadFrom_def ops_snapshot_def)


section \<open>For how long an identifier is remembered\<close>

fun remembers :: "dedup_op \<Rightarrow> bool" where
  "remembers (Remember x) = True"
| "remembers p = False"

definition protects :: "dedup_op list \<Rightarrow> string set" where
  "protects ps = {x. Protect x \<in> set ps}"

text \<open>\<open>x\<close> is in the ring with at most \<open>b\<close> entries after it.\<close>

definition held :: "opDedup \<Rightarrow> string \<Rightarrow> nat \<Rightarrow> bool" where
  "held r x b \<longleftrightarrow> (\<exists>as bs. od_order r = as @ x # bs \<and> length bs \<le> b)"

lemma held_mono: "held r x b \<Longrightarrow> b \<le> c \<Longrightarrow> held r x c"
  by (auto simp: held_def intro: order_trans)

lemma held_evict:
  assumes ok: "ring_ok r" and h: "held r x b" and K: "finite K" "od_protected r \<subseteq> K" "int (card K + b) < od_max r"
  shows "held (evict r) x b"
proof -
  obtain as bs where o: "od_order r = as @ x # bs" and b: "length bs \<le> b" using h by (auto simp: held_def)
  let ?P = "od_protected r"
  have "distinct (filter (\<lambda>y. y \<in> ?P) as)" using ok o by (simp add: ring_ok_def)
  then have "length (filter (\<lambda>y. y \<in> ?P) as) = card (set (filter (\<lambda>y. y \<in> ?P) as))" by (rule distinct_card [symmetric])
  also have "\<dots> \<le> card K" using K by (intro card_mono) auto
  finally have "length (filter (\<lambda>y. y \<in> ?P) as) + length bs < nat (od_max r)" using b K(3) by linarith
  moreover have "length as = length (filter (\<lambda>y. y \<in> ?P) as) + length (filter (\<lambda>y. y \<notin> ?P) as)" by (rule sum_length_filter_compl [symmetric])
  ultimately have n: "excess r \<le> length (filter (\<lambda>y. y \<notin> ?P) as)" by (simp add: excess_def o)
  from drop_unprotected_keeps [of x ?P, OF disjI2 [OF this], of bs] n obtain ys
    where "drop_unprotected (excess r) ?P (as @ x # bs) = ys @ x # bs" by auto
  with evict_order [OF ok] o b show ?thesis by (auto simp: held_def)
qed

lemma held_step:
  assumes ok: "ring_ok r" and h: "held r x b" and K: "finite K" "od_protected r \<subseteq> K" "protects [p] \<subseteq> K"
    and room: "int (card K + (if remembers p then Suc b else b)) < od_max r"
  shows "held (dedup_step r p) x (if remembers p then Suc b else b) \<and> od_protected (dedup_step r p) \<subseteq> K"
proof (cases p)
  case (Remember y)
  show ?thesis
  proof (cases "y = [] \<or> y \<in> od_seenSet r")
    case True
    with held_mono [OF h, of "Suc b"] K Remember show ?thesis by (auto simp: remember_def)
  next
    case False
    let ?r = "r\<lparr>od_seenSet := insert y (od_seenSet r), od_order := od_order r @ [y]\<rparr>"
    have "ring_ok ?r" using ok False by (auto simp: ring_ok_def)
    moreover have "held ?r x (Suc b)" using h by (fastforce simp: held_def)
    ultimately have "held (evict ?r) x (Suc b)" using K room Remember by (intro held_evict [where K = K]) simp_all
    with False K Remember show ?thesis by (simp add: remember_def)
  qed
next
  case (Protect y)
  with h K show ?thesis by (auto simp: protect_def held_def protects_def)
next
  case (Unprotect y)
  let ?r = "r\<lparr>od_protected := od_protected r - {y}\<rparr>"
  have "held (evict ?r) x b"
    by (rule held_evict [where K = K]) (use ok h K room Unprotect in \<open>auto simp: ring_ok_def held_def\<close>)
  with h K Unprotect show ?thesis by (auto simp: unprotect_def)
next
  case Reload
  obtain as bs where o: "od_order r = as @ x # bs" and b: "length bs \<le> b" using h by (auto simp: held_def)
  have "length (od_order r) - nat (od_max r) \<le> length as" using o b room Reload by simp
  then have "od_order (loadFrom r (ops_snapshot r)) = drop (length (od_order r) - nat (od_max r)) as @ x # bs"
    using loadFrom_order [OF ok] o by simp
  with b Reload show ?thesis by (auto simp: held_def loadFrom_def)
qed

lemma held_run:
  assumes "ring_ok r" and "held r x b" and "finite K" and "od_protected r \<union> protects ps \<subseteq> K"
    and "int (card K + b + length (filter remembers ps)) < od_max r"
  shows "held (foldl dedup_step r ps) x (b + length (filter remembers ps))"
  using assms
proof (induction ps arbitrary: r b)
  case (Cons p ps)
  let ?b = "if remembers p then Suc b else b"
  have "held (dedup_step r p) x ?b \<and> od_protected (dedup_step r p) \<subseteq> K"
    by (rule held_step) (use Cons.prems in \<open>auto simp: protects_def split: if_splits\<close>)
  with Cons.IH [of "dedup_step r p" ?b] Cons.prems show ?case by (auto simp: protects_def split: if_splits)
qed simp

lemma protected_step:
  assumes ok: "ring_ok r" and x: "x \<in> set (od_order r)" "x \<in> od_protected r" and p: "p \<noteq> Unprotect x" "p \<noteq> Reload"
  shows "x \<in> set (od_order (dedup_step r p)) \<and> x \<in> od_protected (dedup_step r p)"
proof -
  have keep: "x \<in> set (od_order (evict s))" if s: "ring_ok s" "x \<in> set (od_order s)" "x \<in> od_protected s" for s
  proof -
    obtain as bs where o: "od_order s = as @ x # bs" using s(2) by (auto simp: in_set_conv_decomp)
    from drop_unprotected_keeps [of x "od_protected s", OF disjI1 [OF s(3)], of "excess s" as bs] evict_order [OF s(1)] o
    show ?thesis by auto
  qed
  show ?thesis
  proof (cases p)
    case (Remember y)
    show ?thesis
    proof (cases "y = [] \<or> y \<in> od_seenSet r")
      case False
      have "x \<in> set (od_order (evict (r\<lparr>od_seenSet := insert y (od_seenSet r), od_order := od_order r @ [y]\<rparr>)))"
        by (rule keep) (use ok x False in \<open>auto simp: ring_ok_def\<close>)
      with False Remember x show ?thesis by (simp add: remember_def)
    qed (use x Remember in \<open>auto simp: remember_def\<close>)
  next
    case (Unprotect y)
    have "x \<in> set (od_order (evict (r\<lparr>od_protected := od_protected r - {y}\<rparr>)))"
      by (rule keep) (use ok x p Unprotect in \<open>auto simp: ring_ok_def\<close>)
    with Unprotect x p show ?thesis by (auto simp: unprotect_def)
  qed (use x p in \<open>auto simp: protect_def\<close>)
qed

lemma protected_run:
  assumes "ring_ok r" and "x \<in> set (od_order r)" and "x \<in> od_protected r" and "Unprotect x \<notin> set ps" and "Reload \<notin> set ps"
  shows "x \<in> set (od_order (foldl dedup_step r ps))"
  using assms
proof (induction ps arbitrary: r)
  case (Cons p ps)
  with protected_step [of r x p] Cons.IH [of "dedup_step r p"] show ?case by auto
qed simp


lemma finite_protects: "finite (protects ps)"
proof -
  have "protects ps = Protect -` set ps" by (auto simp: protects_def)
  then show ?thesis by (simp add: finite_vimageI inj_def)
qed

lemma evict_bounded: "int (length (od_order (evict r))) \<le> od_max r \<or> set (od_order (evict r)) \<subseteq> od_protected r"
proof (induction r rule: evict.induct)
  case (1 r)
  show ?case
  proof (cases "od_max r < int (length (od_order r)) \<and> first_unprotected (od_protected r) (od_order r) \<noteq> None")
    case True
    then obtain i where i: "first_unprotected (od_protected r) (od_order r) = Some i" by auto
    let ?r = "r\<lparr>od_order := take i (od_order r) @ drop (Suc i) (od_order r), od_seenSet := od_seenSet r - {od_order r ! i}\<rparr>"
    have "evict r = evict ?r" using True i by (subst evict.simps) simp
    with "1.IH" [of i] True i show ?thesis by simp
  next
    case False
    then have "evict r = r" by (subst evict.simps) (auto split: option.splits)
    with False show ?thesis by (auto simp: first_unprotected_None)
  qed
qed

text \<open>The ring stays within its bound unless all of its entries are protected.\<close>

definition ring_bounded :: "opDedup \<Rightarrow> bool" where
  "ring_bounded r \<longleftrightarrow> finite (od_protected r) \<and> (int (length (od_order r)) \<le> od_max r \<or> set (od_order r) \<subseteq> od_protected r)"

lemma ring_bounded_remember: "ring_bounded r \<Longrightarrow> ring_bounded (remember r x)"
  using evict_bounded [of "r\<lparr>od_seenSet := insert x (od_seenSet r), od_order := od_order r @ [x]\<rparr>"]
  by (auto simp: ring_bounded_def remember_def)

lemma ring_bounded_foldl: "ring_bounded r \<Longrightarrow> ring_bounded (foldl remember r xs)"
  by (induction xs arbitrary: r) (simp_all add: ring_bounded_remember)

lemma ring_bounded_step: "ring_ok r \<Longrightarrow> ring_bounded r \<Longrightarrow> ring_bounded (dedup_step r p)"
proof (cases p)
  case (Unprotect x)
  assume "ring_ok r" "ring_bounded r"
  with Unprotect evict_bounded [of "r\<lparr>od_protected := od_protected r - {x}\<rparr>"] show ?thesis
    by (auto simp: ring_bounded_def unprotect_def)
next
  case Reload
  assume "ring_ok r"
  then have "ring_bounded (r\<lparr>od_seenSet := {}, od_order := [], od_protected := {}\<rparr>)" by (simp add: ring_bounded_def)
  with Reload show ?thesis by (simp add: loadFrom_def ring_bounded_foldl)
qed (auto simp: ring_bounded_remember, auto simp: ring_bounded_def protect_def)

lemma ring_bounded_steps: "ring_ok r \<Longrightarrow> ring_bounded r \<Longrightarrow> ring_bounded (foldl dedup_step r ps)"
  by (induction ps arbitrary: r) (simp_all add: ring_bounded_step)

lemma remember_new_order:
  assumes "ring_ok r" and "x \<noteq> []" and "\<not> seen r x" and "finite (od_protected r)" and "int (card (od_protected r)) < od_max r"
  shows "held (remember r x) x 0"
proof -
  let ?r = "r\<lparr>od_seenSet := insert x (od_seenSet r), od_order := od_order r @ [x]\<rparr>"
  have "ring_ok ?r" using assms by (auto simp: ring_ok_def seen_def)
  moreover have "held ?r x 0" by (auto simp: held_def)
  ultimately have "held (evict ?r) x 0" using assms by (intro held_evict) simp_all
  with assms show ?thesis by (simp add: remember_def seen_def)
qed

text \<open>C20: An executed operation is recognised for as long as the lobby relies on it. In every history of
  the ring, a new identifier that is remembered is still seen later if it was protected and is
  neither unprotected nor reloaded, or, also across saving and loading, if the protected
  identifiers together with the operations remembered since are fewer than the ring's bound.
  The ring itself never holds more than the bound unless all of its entries are protected.\<close>

theorem dedup_window:
  assumes "r = foldl dedup_step (newOpDedup m) before" and "x \<noteq> []" and "\<not> seen r x"
    and "r1 = foldl dedup_step (remember r x) after"
    and "x \<in> od_protected r \<and> Unprotect x \<notin> set after \<and> Reload \<notin> set after
      \<or> int (card (od_protected r \<union> protects after) + length (filter remembers after)) < od_max r"
  shows "seen r1 x \<and> (int (length (od_order r1)) \<le> od_max r1 \<or> set (od_order r1) \<subseteq> od_protected r1)"
proof -
  have ok: "ring_ok r" unfolding assms(1) by (simp add: dedup_steps_ok)
  have bd: "ring_bounded r" unfolding assms(1) by (rule ring_bounded_steps [OF ring_ok_New]) (simp add: ring_bounded_def newOpDedup_def)
  then have fin: "finite (od_protected r)" by (simp add: ring_bounded_def)
  have ok1: "ring_ok r1" using ok unfolding assms(4) by (simp add: dedup_steps_ok)
  have bd1: "ring_bounded r1" using ok bd unfolding assms(4) by (simp add: ring_bounded_steps ring_bounded_remember)
  have "x \<in> set (od_order r1)"
    using assms(5)
  proof
    assume *: "x \<in> od_protected r \<and> Unprotect x \<notin> set after \<and> Reload \<notin> set after"
    let ?r = "r\<lparr>od_seenSet := insert x (od_seenSet r), od_order := od_order r @ [x]\<rparr>"
    have ok': "ring_ok ?r" using ok assms(2,3) by (auto simp: ring_ok_def seen_def)
    have "x \<in> set (drop_unprotected (excess ?r) (od_protected r) (od_order r @ [x]))"
      using drop_unprotected_keeps [of x "od_protected r" "excess ?r" "od_order r" "[]", OF disjI1] * by (metis in_set_conv_decomp)
    then have "x \<in> set (od_order (evict ?r))" using evict_order [OF ok'] by simp
    then have "x \<in> set (od_order (remember r x))" using assms(2,3) by (simp add: remember_def seen_def)
    with protected_run [of "remember r x" x after] ok * show ?thesis by (simp add: assms(4))
  next
    assume *: "int (card (od_protected r \<union> protects after) + length (filter remembers after)) < od_max r"
    have "card (od_protected r) \<le> card (od_protected r \<union> protects after)" using fin finite_protects by (intro card_mono) auto
    with * have "held (remember r x) x 0" using remember_new_order [OF ok assms(2,3) fin] by simp
    from held_run [OF _ this, of "od_protected r \<union> protects after" after] ok fin finite_protects *
    have "held r1 x (length (filter remembers after))" by (simp add: assms(4))
    then show ?thesis by (auto simp: held_def)
  qed
  then have "seen r1 x" using ok1 assms(2) by (simp add: seen_def ring_ok_def)
  with bd1 show ?thesis by (simp add: ring_bounded_def)
qed

theorem dedup_window_witness:
  "seen (foldl dedup_step (remember (newOpDedup 2) ''g1'') [Remember ''g2'', Reload]) ''g1''"
  using dedup_window [of "newOpDedup 2" 2 "[]" "''g1''" _ "[Remember ''g2'', Reload]", OF _ _ _ refl]
  by (simp add: newOpDedup_def seen_def protects_def)

text \<open>Without protection the oldest entry is forgotten as soon as the bound is exceeded.\<close>

lemma dedup_forgets:
  "\<not> seen (foldl dedup_step (newOpDedup 2) [Remember ''g1'', Remember ''g2'', Remember ''g3'']) ''g1''"
  by (simp add: newOpDedup_def remember_def seen_def evict.simps)

end
