(* ===== verification/Lobby_Components.thy ===== *)
theory Lobby_Components
  imports Op_Dedup
begin

text \<open>
  The components of a lobby player (\<^verbatim>\<open>internal/server/lobby/internal/component_*.go\<close>): wallet, bag,
  friend set and rating, with their stored forms. Amounts are \<^verbatim>\<open>int64\<close>, item counts \<^verbatim>\<open>int32\<close>; a missing
  key of a map reads as zero.
\<close>

section \<open>Wallet\<close>

record CurrencyState =
  cs_Balances :: "(string, int) gomap"
  cs_Ops :: "string list"

definition NewCurrencyState :: CurrencyState where
  "NewCurrencyState = \<lparr>cs_Balances = [], cs_Ops = []\<rparr>"

record Currency =
  cu_balances :: "(string, int) gomap"
  cu_ops :: opDedup
  cu_dirty :: bool

definition maxCurrencyOps :: int where "maxCurrencyOps = 128"

definition NewCurrency :: Currency where
  "NewCurrency = \<lparr>cu_balances = [], cu_ops = newOpDedup maxCurrencyOps, cu_dirty = False\<rparr>"

definition zero_of :: "('k, int) gomap \<Rightarrow> 'k \<Rightarrow> int" where
  "zero_of m k = (case map_of m k of None \<Rightarrow> 0 | Some v \<Rightarrow> v)"

text \<open>Copying a map key by key.\<close>

definition map_copy :: "('k, 'v) gomap \<Rightarrow> ('k, 'v) gomap" where
  "map_copy m = foldl (\<lambda>out (k, v). mput k v out) [] m"

definition Currency_Load :: "Currency \<Rightarrow> CurrencyState \<Rightarrow> Currency" where
  "Currency_Load c s = c\<lparr>cu_balances := map_copy (cs_Balances s), cu_ops := loadFrom (cu_ops c) (cs_Ops s), cu_dirty := False\<rparr>"

definition Currency_Snapshot :: "Currency \<Rightarrow> CurrencyState" where
  "Currency_Snapshot c = \<lparr>cs_Balances = map_copy (cu_balances c), cs_Ops = ops_snapshot (cu_ops c)\<rparr>"

definition Balance :: "Currency \<Rightarrow> string \<Rightarrow> int" where
  "Balance c kind = zero_of (cu_balances c) kind"

definition Balances :: "Currency \<Rightarrow> (string, int) gomap" where
  "Balances c = map_copy (cu_balances c)"

definition CanAfford :: "Currency \<Rightarrow> string \<Rightarrow> int \<Rightarrow> bool" where
  "CanAfford c kind amt \<longleftrightarrow> amt \<le> zero_of (cu_balances c) kind"

definition Gain :: "Currency \<Rightarrow> string \<Rightarrow> string \<Rightarrow> int \<Rightarrow> Currency \<times> int \<times> bool" where
  "Gain c opID kind amt =
     (if seen (cu_ops c) opID then (c, zero_of (cu_balances c) kind, False)
      else
        let c1 = (if amt \<noteq> 0
                  then c\<lparr>cu_balances := mput kind (wrap_s64 (zero_of (cu_balances c) kind + amt)) (cu_balances c), cu_dirty := True\<rparr>
                  else c);
            c2 = c1\<lparr>cu_ops := remember (cu_ops c1) opID\<rparr>
        in (c2, zero_of (cu_balances c2) kind, amt \<noteq> 0))"

definition Spend :: "Currency \<Rightarrow> string \<Rightarrow> string \<Rightarrow> int \<Rightarrow> Currency \<times> int \<times> bool" where
  "Spend c opID kind amt =
     (if seen (cu_ops c) opID then (c, zero_of (cu_balances c) kind, True)
      else if zero_of (cu_balances c) kind < amt then (c, zero_of (cu_balances c) kind, False)
      else
        let c1 = c\<lparr>cu_balances := mput kind (wrap_s64 (zero_of (cu_balances c) kind - amt)) (cu_balances c), cu_dirty := True,
                   cu_ops := remember (cu_ops c) opID\<rparr>
        in (c1, zero_of (cu_balances c1) kind, True))"

definition Currency_ProtectOp :: "Currency \<Rightarrow> string \<Rightarrow> Currency" where
  "Currency_ProtectOp c opID = c\<lparr>cu_ops := protect (cu_ops c) opID\<rparr>"

definition Currency_UnprotectOp :: "Currency \<Rightarrow> string \<Rightarrow> Currency" where
  "Currency_UnprotectOp c opID = c\<lparr>cu_ops := unprotect (cu_ops c) opID\<rparr>"

section \<open>Bag\<close>

record BagState =
  bs_Items :: "(string, int) gomap"
  bs_Ops :: "string list"

definition NewBagState :: BagState where
  "NewBagState = \<lparr>bs_Items = [], bs_Ops = []\<rparr>"

record Bag =
  bg_items :: "(int, int) gomap"
  bg_ops :: opDedup
  bg_dirty :: bool

definition maxRecentOps :: int where "maxRecentOps = 128"

definition NewBag :: Bag where
  "NewBag = \<lparr>bg_items = [], bg_ops = newOpDedup maxRecentOps, bg_dirty = False\<rparr>"

text \<open>One iteration of \<^verbatim>\<open>Load\<close>: keys that are no 32-bit numbers are skipped.\<close>

definition load_item :: "(int, int) gomap \<Rightarrow> string \<times> int \<Rightarrow> (int, int) gomap" where
  "load_item m kv = (case ParseInt32 (fst kv) of None \<Rightarrow> m | Some i \<Rightarrow> mput i (snd kv) m)"

definition Bag_Load :: "Bag \<Rightarrow> BagState \<Rightarrow> Bag" where
  "Bag_Load b s = b\<lparr>bg_items := foldl load_item [] (bs_Items s), bg_ops := loadFrom (bg_ops b) (bs_Ops s), bg_dirty := False\<rparr>"

definition Bag_Snapshot :: "Bag \<Rightarrow> BagState" where
  "Bag_Snapshot b = \<lparr>bs_Items = foldl (\<lambda>m (i, n). mput (dec_int i) n m) [] (bg_items b), bs_Ops = ops_snapshot (bg_ops b)\<rparr>"

definition Count :: "Bag \<Rightarrow> int \<Rightarrow> int" where
  "Count b itemID = zero_of (bg_items b) itemID"

definition Items :: "Bag \<Rightarrow> (int, int) gomap" where
  "Items b = map_copy (bg_items b)"

definition Bag_Add :: "Bag \<Rightarrow> string \<Rightarrow> int \<Rightarrow> int \<Rightarrow> Bag \<times> int" where
  "Bag_Add b opID itemID cnt =
     (if seen (bg_ops b) opID then (b, zero_of (bg_items b) itemID)
      else
        let b1 = (if cnt \<noteq> 0 then
                    let m = mput itemID (wrap_s32 (zero_of (bg_items b) itemID + cnt)) (bg_items b);
                        m1 = (if zero_of m itemID \<le> 0 then mdel itemID m else m)
                    in b\<lparr>bg_items := m1, bg_dirty := True\<rparr>
                  else b);
            b2 = b1\<lparr>bg_ops := remember (bg_ops b1) opID\<rparr>
        in (b2, zero_of (bg_items b2) itemID))"

definition Bag_ProtectOp :: "Bag \<Rightarrow> string \<Rightarrow> Bag" where
  "Bag_ProtectOp b opID = b\<lparr>bg_ops := protect (bg_ops b) opID\<rparr>"

definition Bag_UnprotectOp :: "Bag \<Rightarrow> string \<Rightarrow> Bag" where
  "Bag_UnprotectOp b opID = b\<lparr>bg_ops := unprotect (bg_ops b) opID\<rparr>"

section \<open>Friends and rating\<close>

record FriendState =
  fs_Friends :: "int list"

definition NewFriendState :: FriendState where
  "NewFriendState = \<lparr>fs_Friends = []\<rparr>"

text \<open>The set of friends, in one order in which the program may iterate over it.\<close>

record Friend =
  fr_friends :: "(int, unit) gomap"
  fr_dirty :: bool

definition NewFriend :: Friend where
  "NewFriend = \<lparr>fr_friends = [], fr_dirty = False\<rparr>"

definition Friend_Load :: "Friend \<Rightarrow> FriendState \<Rightarrow> Friend" where
  "Friend_Load f s = f\<lparr>fr_friends := foldl (\<lambda>m u. mput u () m) [] (fs_Friends s), fr_dirty := False\<rparr>"

definition Friend_List :: "Friend \<Rightarrow> int list" where
  "Friend_List f = mkeys (fr_friends f)"

definition Friend_Snapshot :: "Friend \<Rightarrow> FriendState" where
  "Friend_Snapshot f = \<lparr>fs_Friends = mkeys (fr_friends f)\<rparr>"

definition Has :: "Friend \<Rightarrow> int \<Rightarrow> bool" where
  "Has f uid \<longleftrightarrow> map_of (fr_friends f) uid \<noteq> None"

definition Friend_Add :: "Friend \<Rightarrow> int \<Rightarrow> Friend \<times> bool" where
  "Friend_Add f uid =
     (if map_of (fr_friends f) uid \<noteq> None then (f, False)
      else (f\<lparr>fr_friends := mput uid () (fr_friends f), fr_dirty := True\<rparr>, True))"

definition Friend_Remove :: "Friend \<Rightarrow> int \<Rightarrow> Friend \<times> bool" where
  "Friend_Remove f uid =
     (if map_of (fr_friends f) uid = None then (f, False)
      else (f\<lparr>fr_friends := mdel uid (fr_friends f), fr_dirty := True\<rparr>, True))"

record RatingState =
  rs_MMR :: int

definition defaultMMR :: int where "defaultMMR = 1000"

definition NewRatingState :: RatingState where
  "NewRatingState = \<lparr>rs_MMR = defaultMMR\<rparr>"

record Rating =
  rt_mmr :: int
  rt_dirty :: bool

definition NewRating :: Rating where
  "NewRating = \<lparr>rt_mmr = defaultMMR, rt_dirty = False\<rparr>"

definition Rating_Load :: "Rating \<Rightarrow> RatingState \<Rightarrow> Rating" where
  "Rating_Load r s = r\<lparr>rt_mmr := (if rs_MMR s = 0 then defaultMMR else rs_MMR s), rt_dirty := False\<rparr>"

definition Rating_Snapshot :: "Rating \<Rightarrow> RatingState" where
  "Rating_Snapshot r = \<lparr>rs_MMR = rt_mmr r\<rparr>"

section \<open>Maps that are copied\<close>

lemma foldl_mput:
  "wf_map m0 \<Longrightarrow> wf_map (foldl (\<lambda>out (k, v). mput k v out) m0 m)
    \<and> map_of (foldl (\<lambda>out (k, v). mput k v out) m0 m) = map_of m0 ++ map_of (rev m)"
proof (induction m arbitrary: m0)
  case (Cons p m)
  obtain k v where "p = (k, v)" by (cases p)
  with Cons.IH [of "mput k v m0"] Cons.prems show ?case by (auto simp: map_add_def fun_eq_iff split: option.splits)
qed simp

lemma map_of_rev: "wf_map m \<Longrightarrow> map_of (rev m) = map_of m"
  by (rule map_of_eqI) (auto simp: wf_map_def mkeys_def, metis (no_types, lifting) distinct_map distinct_rev map_of_is_SomeI map_of_eq_None_iff
      option.exhaust rev_map set_rev map_of_SomeD)

lemma map_copy: "wf_map m \<Longrightarrow> map_of (map_copy m) = map_of m" "wf_map (map_copy m)"
  using foldl_mput [of "[]" m] by (simp_all add: map_copy_def map_of_rev)

lemma zero_of_copy [simp]: "wf_map m \<Longrightarrow> zero_of (map_copy m) k = zero_of m k"
  by (simp add: zero_of_def map_copy)

lemma zero_of_mput [simp]: "zero_of (mput k v m) = (zero_of m)(k := v)"
  by (simp add: zero_of_def fun_eq_iff)

lemma zero_of_mdel [simp]: "zero_of (mdel k m) = (zero_of m)(k := 0)"
  by (simp add: zero_of_def fun_eq_iff)

section \<open>Idempotence of wallet and bag operations\<close>

text \<open>
  What wallet and bag share: an operation under an identifier that the ring has seen changes
  nothing, every other one moves the ring by one step of its history, and saving and loading
  reloads the ring. A request is \<open>Some (identifier, operation)\<close>, saving and loading is \<open>None\<close>.
\<close>

locale idempotent_store =
  fixes ring :: "'c \<Rightarrow> opDedup" and apply_op :: "'c \<Rightarrow> string \<Rightarrow> 'a \<Rightarrow> 'c" and reload :: "'c \<Rightarrow> 'c"
    and taken :: "'c \<Rightarrow> 'a \<Rightarrow> bool"
  assumes dup_law: "seen (ring c) x \<Longrightarrow> apply_op c x a = c"
    and new_law: "\<not> seen (ring c) x \<Longrightarrow> ring (apply_op c x a) = (if taken c a then remember (ring c) x else ring c)"
    and reload_law: "ring (reload c) = loadFrom (ring c) (ops_snapshot (ring c))"
begin

fun do_one :: "'c \<Rightarrow> (string \<times> 'a) option \<Rightarrow> 'c" where
  "do_one c None = reload c"
| "do_one c (Some (x, a)) = apply_op c x a"

lemma ring_do_one:
  "\<exists>qs. ring (do_one c p) = foldl dedup_step (ring c) qs \<and> length (filter remembers qs) \<le> (if p = None then 0 else 1) \<and> protects qs = {}"
proof (cases p)
  case None
  then show ?thesis by (intro exI [of _ "[Reload]"]) (simp add: reload_law protects_def)
next
  case (Some xa)
  obtain x a where xa: "xa = (x, a)" by (cases xa)
  have "ring (apply_op c x a) = ring c \<or> ring (apply_op c x a) = dedup_step (ring c) (Remember x)"
    using dup_law [of c x a] new_law [of c x a] by (cases "seen (ring c) x") auto
  then show ?thesis
  proof
    assume "ring (apply_op c x a) = ring c"
    with Some xa show ?thesis by (intro exI [of _ "[]"]) (simp add: protects_def)
  next
    assume "ring (apply_op c x a) = dedup_step (ring c) (Remember x)"
    with Some xa show ?thesis by (intro exI [of _ "[Remember x]"]) (simp add: protects_def)
  qed
qed

lemma ring_run:
  "\<exists>qs. ring (foldl do_one c ps) = foldl dedup_step (ring c) qs
    \<and> length (filter remembers qs) \<le> length (filter (\<lambda>p. p \<noteq> None) ps) \<and> protects qs = {}"
proof (induction ps arbitrary: c)
  case Nil
  then show ?case by (intro exI [of _ "[]"]) (simp add: protects_def)
next
  case (Cons p ps)
  obtain q1 where 1: "ring (do_one c p) = foldl dedup_step (ring c) q1" "length (filter remembers q1) \<le> (if p = None then 0 else 1)" "protects q1 = {}"
    using ring_do_one by blast
  obtain q2 where 2: "ring (foldl do_one (do_one c p) ps) = foldl dedup_step (ring (do_one c p)) q2"
    "length (filter remembers q2) \<le> length (filter (\<lambda>p. p \<noteq> None) ps)" "protects q2 = {}" using Cons.IH by blast
  have "protects (q1 @ q2) = {}" using 1(3) 2(3) by (auto simp: protects_def)
  with 1 2 show ?case by (intro exI [of _ "q1 @ q2"]) (auto split: if_splits)
qed

lemma ring_history:
  assumes "ring c = newOpDedup m"
  shows "ring_ok (ring (foldl do_one c ps)) \<and> od_protected (ring (foldl do_one c ps)) = {} \<and> od_max (ring (foldl do_one c ps)) = od_max (newOpDedup m)"
proof -
  obtain qs where qs: "ring (foldl do_one c ps) = foldl dedup_step (ring c) qs" "protects qs = {}" using ring_run by blast
  have "od_protected (foldl dedup_step r qs) = {} \<and> od_max (foldl dedup_step r qs) = od_max r" if "od_protected r = {}" for r
    using that qs(2)
  proof (induction qs arbitrary: r)
    case (Cons q qs)
    then have "od_protected (dedup_step r q) = {}" by (cases q) (auto simp: protects_def unprotect_def loadFrom_def)
    with Cons.IH [of "dedup_step r q"] Cons.prems show ?case by (auto simp: protects_def)
  qed simp
  moreover have "od_protected (newOpDedup m) = {}" by (simp add: newOpDedup_def)
  ultimately show ?thesis using assms qs by (simp add: dedup_steps_ok)
qed

text \<open>A taken operation has no further effect while fewer than the bound have followed it.\<close>

lemma retry_seen:
  assumes hist: "ring c0 = newOpDedup m" "c = foldl do_one c0 before" and x: "x \<noteq> []" and new: "\<not> seen (ring c) x" and t: "taken c a"
    and few: "int (length (filter (\<lambda>p. p \<noteq> None) after)) < od_max (newOpDedup m)"
  shows "seen (ring (foldl do_one (apply_op c x a) after)) x"
proof -
  note h = ring_history [OF hist(1), of before, folded hist(2)]
  obtain qs where qs: "ring (foldl do_one (apply_op c x a) after) = foldl dedup_step (ring (apply_op c x a)) qs"
    "length (filter remembers qs) \<le> length (filter (\<lambda>p. p \<noteq> None) after)" "protects qs = {}" using ring_run by blast
  have r: "ring (apply_op c x a) = remember (ring c) x" using new_law [OF new] t by simp
  have "held (remember (ring c) x) x 0" using remember_new_order [OF _ x new] h by (simp add: ring_ok_def)
  from held_run [OF _ this, of "{}" qs] h few qs(2,3)
  have "held (foldl dedup_step (remember (ring c) x) qs) x (length (filter remembers qs))" by simp
  then have "x \<in> set (od_order (ring (foldl do_one (apply_op c x a) after)))" using qs r by (auto simp: held_def)
  moreover have "ring_ok (ring (foldl do_one (apply_op c x a) after))" using qs r h by (simp add: dedup_steps_ok)
  ultimately show ?thesis using x by (simp add: seen_def ring_ok_def)
qed

end

datatype wallet_req = WGain string int | WSpend string int

fun wallet_do :: "Currency \<Rightarrow> string \<Rightarrow> wallet_req \<Rightarrow> Currency \<times> int \<times> bool" where
  "wallet_do c x (WGain kind amt) = Gain c x kind amt"
| "wallet_do c x (WSpend kind amt) = Spend c x kind amt"

fun accepted :: "Currency \<Rightarrow> wallet_req \<Rightarrow> bool" where
  "accepted c (WGain kind amt) = True"
| "accepted c (WSpend kind amt) = CanAfford c kind amt"

definition wallet_reload :: "Currency \<Rightarrow> Currency" where
  "wallet_reload c = Currency_Load c (Currency_Snapshot c)"

fun wallet_step :: "Currency \<Rightarrow> (string \<times> wallet_req) option \<Rightarrow> Currency" where
  "wallet_step c None = wallet_reload c"
| "wallet_step c (Some (x, r)) = fst (wallet_do c x r)"

interpretation wallet: idempotent_store cu_ops "\<lambda>c x r. fst (wallet_do c x r)" wallet_reload accepted
proof
  show "fst (wallet_do c x r) = c" if "seen (cu_ops c) x" for c x r
    using that by (cases r) (simp_all add: Gain_def Spend_def)
  show "cu_ops (fst (wallet_do c x r)) = (if accepted c r then remember (cu_ops c) x else cu_ops c)" if "\<not> seen (cu_ops c) x" for c x r
    using that by (cases r) (auto simp: Gain_def Spend_def CanAfford_def Let_def)
  show "cu_ops (wallet_reload c) = loadFrom (cu_ops c) (ops_snapshot (cu_ops c))" for c
    by (simp add: wallet_reload_def Currency_Load_def Currency_Snapshot_def)
qed

lemma wallet_steps: "wallet.do_one = wallet_step"
proof (intro ext)
  show "wallet.do_one c p = wallet_step c p" for c p by (cases p) auto
qed

interpretation bag: idempotent_store bg_ops "\<lambda>b x (itemID, cnt). fst (Bag_Add b x itemID cnt)" "\<lambda>b. Bag_Load b (Bag_Snapshot b)" "\<lambda>b r. True"
  by unfold_locales (auto simp: Bag_Add_def Let_def Bag_Load_def Bag_Snapshot_def)

text \<open>C21: Retrying a wallet operation is harmless. Once a gain, or a spend that the balance covered, has
  been executed under an identifier, repeating any request under it changes nothing and is
  reported as the source promises (a gain as unchanged, a spend as successful), as long as
  fewer than 128 other requests came in between; saving and loading the wallet in between
  makes no difference.\<close>

theorem wallet_retry_harmless:
  assumes "c = foldl wallet_step NewCurrency before" and "x \<noteq> []" and "\<not> seen (cu_ops c) x" and "accepted c r"
    and "c1 = foldl wallet_step (fst (wallet_do c x r)) after" and "length (filter (\<lambda>p. p \<noteq> None) after) < 128"
  shows "Gain c1 x kind amt = (c1, Balance c1 kind, False) \<and> Spend c1 x kind amt = (c1, Balance c1 kind, True)"
proof -
  have "cu_ops NewCurrency = newOpDedup 128" by (simp add: NewCurrency_def maxCurrencyOps_def)
  from wallet.retry_seen [OF this, unfolded wallet_steps, OF assms(1-4), of after] assms(6)
  have "seen (cu_ops c1) x" by (simp add: assms(5) newOpDedup_def)
  then show ?thesis by (simp add: Gain_def Spend_def Balance_def)
qed

theorem wallet_retry_harmless_witness:
  "Spend (foldl wallet_step (fst (Spend (foldl wallet_step NewCurrency [Some (''m1:0'', WGain ''gold'' 50)]) ''g1:settle'' ''gold'' 30)) [None])
     ''g1:settle'' ''gold'' 30
   = (foldl wallet_step (fst (Spend (foldl wallet_step NewCurrency [Some (''m1:0'', WGain ''gold'' 50)]) ''g1:settle'' ''gold'' 30)) [None], 20, True)"
proof -
  let ?c = "foldl wallet_step NewCurrency [Some (''m1:0'', WGain ''gold'' 50)]"
  have c: "?c = \<lparr>cu_balances = [(''gold'', 50)], cu_ops = \<lparr>od_seenSet = {''m1:0''}, od_order = [''m1:0''], od_protected = {}, od_max = 128\<rparr>, cu_dirty = True\<rparr>"
    by (simp add: NewCurrency_def Gain_def seen_def newOpDedup_def maxCurrencyOps_def remember_def evict.simps Let_def zero_of_def mput_def mdel_def
        wrap_s64_def)
  have "\<not> seen (cu_ops ?c) ''g1:settle''" "accepted ?c (WSpend ''gold'' 30)" unfolding c by (simp_all add: seen_def CanAfford_def zero_of_def)
  from wallet_retry_harmless [OF refl _ this refl, of "[None]" "''gold''" 30]
  have "Spend (foldl wallet_step (fst (Spend ?c ''g1:settle'' ''gold'' 30)) [None]) ''g1:settle'' ''gold'' 30
    = (foldl wallet_step (fst (Spend ?c ''g1:settle'' ''gold'' 30)) [None], Balance (foldl wallet_step (fst (Spend ?c ''g1:settle'' ''gold'' 30)) [None]) ''gold'', True)"
    by simp
  moreover have "Balance (foldl wallet_step (fst (Spend ?c ''g1:settle'' ''gold'' 30)) [None]) ''gold'' = 20"
    unfolding c by (simp add: Spend_def seen_def zero_of_def Balance_def wallet_reload_def Currency_Load_def Currency_Snapshot_def map_copy_def
        mput_def mdel_def Let_def wrap_s64_def)
  ultimately show ?thesis by metis
qed


section \<open>Balances\<close>

fun req_amount :: "wallet_req \<Rightarrow> int" where
  "req_amount (WGain kind amt) = amt"
| "req_amount (WSpend kind amt) = amt"

fun gained :: "string \<Rightarrow> (string \<times> wallet_req) option \<Rightarrow> int" where
  "gained kind (Some (x, WGain k amt)) = (if k = kind then amt else 0)"
| "gained kind p = 0"

definition wallet_ok :: "Currency \<Rightarrow> bool" where
  "wallet_ok c \<longleftrightarrow> wf_map (cu_balances c)"

lemma wallet_ok_step: "wallet_ok c \<Longrightarrow> wallet_ok (wallet_step c p)"
proof (cases p)
  case (Some xr)
  assume "wallet_ok c"
  obtain x r where "xr = (x, r)" by (cases xr)
  with Some \<open>wallet_ok c\<close> show ?thesis by (cases r) (simp_all add: wallet_ok_def Gain_def Spend_def Let_def)
qed (simp add: wallet_ok_def wallet_reload_def Currency_Load_def map_copy)

lemma balance_step:
  assumes ok: "wallet_ok c" and b: "0 \<le> Balance c kind" "Balance c kind \<le> g" and room: "g + gained kind p < 2 ^ 63"
    and pos: "\<And>x r. p = Some (x, r) \<Longrightarrow> 0 \<le> req_amount r"
  shows "0 \<le> Balance (wallet_step c p) kind \<and> Balance (wallet_step c p) kind \<le> g + gained kind p"
proof (cases p)
  case None
  with ok b show ?thesis
    by (simp add: wallet_reload_def Currency_Load_def Currency_Snapshot_def Balance_def wallet_ok_def map_copy)
next
  case (Some xr)
  obtain x r where xr: "xr = (x, r)" by (cases xr)
  note p = pos [OF Some [unfolded xr]]
  show ?thesis
  proof (cases r)
    case (WGain k amt)
    have "wrap_s64 (Balance c kind + amt) = Balance c kind + amt" if "k = kind"
      using that b room p Some xr WGain by (intro wrap_s64_id) (simp add: in_s64_def)
    with b p Some xr WGain show ?thesis by (auto simp: Gain_def Let_def Balance_def)
  next
    case (WSpend k amt)
    have "wrap_s64 (Balance c kind - amt) = Balance c kind - amt" if "k = kind" "amt \<le> Balance c kind"
      using that b room p Some xr WSpend by (intro wrap_s64_id) (simp add: in_s64_def)
    with b p Some xr WSpend show ?thesis by (auto simp: Spend_def Let_def Balance_def)
  qed
qed

lemma gained_nonneg: "(\<And>x r. p = Some (x, r) \<Longrightarrow> 0 \<le> req_amount r) \<Longrightarrow> 0 \<le> gained kind p"
  by (cases "(kind, p)" rule: gained.cases) auto

lemma wallet_balance_run:
  assumes "wallet_ok c" and "0 \<le> Balance c kind" and "Balance c kind \<le> g" and "g + sum_list (map (gained kind) ps) < 2 ^ 63"
    and "\<forall>x r. Some (x, r) \<in> set ps \<longrightarrow> 0 \<le> req_amount r"
  shows "0 \<le> Balance (foldl wallet_step c ps) kind \<and> Balance (foldl wallet_step c ps) kind \<le> g + sum_list (map (gained kind) ps)"
  using assms
proof (induction ps arbitrary: c g)
  case (Cons p ps)
  have "0 \<le> gained kind q" if "q \<in> set ps" for q
    using that Cons.prems(5) by (intro gained_nonneg) auto
  then have "0 \<le> sum_list (map (gained kind) ps)" by (intro sum_list_nonneg) auto
  with Cons.prems(4) have room: "g + gained kind p < 2 ^ 63" by simp
  note st = balance_step [OF Cons.prems(1-3) room] 
  have "0 \<le> Balance (wallet_step c p) kind \<and> Balance (wallet_step c p) kind \<le> g + gained kind p"
    by (rule st) (use Cons.prems(5) in auto)
  with Cons.IH [of "wallet_step c p" "g + gained kind p"] Cons.prems wallet_ok_step [of c p] show ?case by (simp add: add.assoc)
qed simp

text \<open>C22: Money is neither invented nor overdrawn. In every history of gains and spends with amounts that
  are not negative, including retries, refused spends and saving and loading, each balance
  stays between zero and the sum of the gains of its currency, as long as this sum is an
  \<^verbatim>\<open>int64\<close>.\<close>

theorem wallet_solvent:
  assumes "\<forall>x r. Some (x, r) \<in> set ps \<longrightarrow> 0 \<le> req_amount r" and "sum_list (map (gained kind) ps) < 2 ^ 63"
  shows "0 \<le> Balance (foldl wallet_step NewCurrency ps) kind
    \<and> Balance (foldl wallet_step NewCurrency ps) kind \<le> sum_list (map (gained kind) ps)"
  using wallet_balance_run [of NewCurrency kind 0 ps] assms
  by (simp add: wallet_ok_def NewCurrency_def Balance_def zero_of_def)

theorem wallet_solvent_witness:
  "0 \<le> Balance (foldl wallet_step NewCurrency [Some (''a'', WGain ''gold'' 5), Some (''b'', WSpend ''gold'' 9)]) ''gold''"
  using wallet_solvent [of "[Some (''a'', WGain ''gold'' 5), Some (''b'', WSpend ''gold'' 9)]" "''gold''"] by simp

text \<open>A spend of a negative amount is not refused and raises the balance.\<close>

lemma negative_spend_raises:
  "Balance (fst (Spend NewCurrency ''x'' ''gold'' (-5))) ''gold'' = 5"
  by (simp add: NewCurrency_def Spend_def seen_def newOpDedup_def maxCurrencyOps_def remember_def evict.simps Let_def zero_of_def Balance_def wrap_s64_def)

section \<open>Saving and loading\<close>

text \<open>Item numbers and counts of a bag are \<^verbatim>\<open>int32\<close> and counts are positive.\<close>

definition bag_ok :: "Bag \<Rightarrow> bool" where
  "bag_ok b \<longleftrightarrow> wf_map (bg_items b) \<and> (\<forall>i n. map_of (bg_items b) i = Some n \<longrightarrow> in_s32 i \<and> 0 < n \<and> in_s32 n)"

lemma bag_ok_Add: "bag_ok b \<Longrightarrow> in_s32 i \<Longrightarrow> bag_ok (fst (Bag_Add b x i n))"
  by (auto simp: bag_ok_def Bag_Add_def Let_def)

lemma ParseInt32_range: "ParseInt32 s = Some i \<Longrightarrow> in_s32 i"
  by (auto simp: ParseInt32_def in_s32_def Let_def split: list.splits option.splits if_splits dest: ParseUint32_less)

lemma dec_int_inj: "in_s32 i \<Longrightarrow> in_s32 j \<Longrightarrow> dec_int i = dec_int j \<Longrightarrow> i = j"
  by (metis ParseInt32_dec option.inject)

text \<open>What \<^verbatim>\<open>Snapshot\<close> writes under the text of an item number, and what \<^verbatim>\<open>Load\<close> reads back.\<close>

lemma snapshot_lookup:
  assumes "wf_map m" and "\<forall>p \<in> set m. in_s32 (fst p)" and "in_s32 i"
  shows "map_of (foldl (\<lambda>m (i, n). mput (dec_int i) n m) m0 m) (dec_int i) = (case map_of m i of None \<Rightarrow> map_of m0 (dec_int i) | Some n \<Rightarrow> Some n)"
  using assms(1,2)
proof (induction m arbitrary: m0)
  case (Cons p m)
  obtain j n where p: "p = (j, n)" by (cases p)
  with Cons.prems have "map_of m j = None" "wf_map m" "in_s32 j" by (auto simp: wf_map_def mkeys_def map_of_eq_None_iff)
  with Cons p dec_int_inj [OF assms(3), of j] show ?case by (auto split: option.splits)
qed simp

lemma snapshot_keys:
  "k \<in> dom (map_of (foldl (\<lambda>m (i, n). mput (dec_int i) n m) m0 m)) \<Longrightarrow> k \<in> dom (map_of m0) \<or> (\<exists>p \<in> set m. k = dec_int (fst p))"
proof (induction m arbitrary: m0)
  case (Cons p m)
  obtain j n where p: "p = (j, n)" by (cases p)
  with Cons.IH [of "mput (dec_int j) n m0"] Cons.prems show ?case by (auto split: if_splits)
qed auto

lemma load_lookup:
  assumes "wf_map kvs" and "\<forall>k \<in> dom (map_of kvs). \<exists>j. in_s32 j \<and> k = dec_int j"
  shows "map_of (foldl load_item m0 kvs) i = (if in_s32 i then (case map_of kvs (dec_int i) of None \<Rightarrow> map_of m0 i | Some n \<Rightarrow> Some n) else map_of m0 i)"
  using assms
proof (induction kvs arbitrary: m0)
  case (Cons p kvs)
  obtain k n where p: "p = (k, n)" by (cases p)
  have "k \<in> dom (map_of (p # kvs))" by (simp add: p domIff)
  with Cons.prems(2) obtain j where j: "in_s32 j" "k = dec_int j" by blast
  from Cons.prems p have "map_of kvs k = None" "wf_map kvs" by (auto simp: wf_map_def mkeys_def map_of_eq_None_iff)
  moreover have "\<forall>k \<in> dom (map_of kvs). \<exists>j. in_s32 j \<and> k = dec_int j"
    using Cons.prems(2) by (auto simp: p dom_def split: if_splits)
  ultimately show ?case using Cons.IH [of "load_item m0 p"] p j dec_int_inj [OF _ j(1), of i]
    by (auto simp: load_item_def split: option.splits)
qed simp

lemma wf_load_items: "wf_map m0 \<Longrightarrow> wf_map (foldl load_item m0 kvs)"
  by (induction kvs arbitrary: m0) (simp_all add: load_item_def split: option.splits)

lemma load_items:
  assumes m: "wf_map m" "\<forall>p \<in> set m. in_s32 (fst p)"
    and kvs: "wf_map kvs" "map_of kvs = map_of (foldl (\<lambda>m (i, n). mput (dec_int i) n m) [] m)"
  shows "map_of (foldl load_item [] kvs) = map_of m"
proof
  fix i
  have keys: "\<forall>k \<in> dom (map_of kvs). \<exists>j. in_s32 j \<and> k = dec_int j"
    unfolding kvs(2) using snapshot_keys [of _ "[]" m] m(2) by fastforce
  have "map_of m i = None" if "\<not> in_s32 i" using that m(2) by (force simp: map_of_eq_None_iff)
  with load_lookup [OF kvs(1) keys, of "[]" i] snapshot_lookup [OF m, of i "[]"] kvs(2) show "map_of (foldl load_item [] kvs) i = map_of m i"
    by (auto split: option.splits)
qed

text \<open>
  Stored states are equal when their maps are equal as functions and their lists of friends
  have the same elements: the database may return keys in any order.
\<close>

definition same_map :: "('k, 'v) gomap \<Rightarrow> ('k, 'v) gomap \<Rightarrow> bool" where
  "same_map m m' \<longleftrightarrow> wf_map m \<and> wf_map m' \<and> map_of m = map_of m'"

definition within :: "opDedup \<Rightarrow> bool" where
  "within r \<longleftrightarrow> ring_ok r \<and> od_protected r = {} \<and> int (length (od_order r)) \<le> od_max r"

lemma reload_ring:
  assumes "within r" and "ring_ok r0" and "od_max r0 = od_max r"
  shows "loadFrom r0 (ops_snapshot r) = r"
proof -
  let ?r = "r0\<lparr>od_seenSet := {}, od_order := [], od_protected := {}\<rparr>"
  have ok: "ring_ok ?r" using assms by (simp add: ring_ok_def)
  have o: "od_order (foldl remember ?r (od_order r)) = od_order r"
    using foldl_remember_order [OF ok, of "od_order r"] assms by (auto simp: within_def ring_ok_def)
  have "ring_ok (foldl remember ?r (od_order r))" using ok by (rule ring_ok_foldl)
  with o assms show ?thesis by (simp add: loadFrom_def ops_snapshot_def within_def ring_ok_def)
qed

lemma Currency_roundtrip:
  assumes "wallet_ok c" and "within (cu_ops c)" and "od_max (cu_ops c) = maxCurrencyOps" and "same_map (cs_Balances (Currency_Snapshot c)) bs"
  shows "Currency_Load NewCurrency (Currency_Snapshot c\<lparr>cs_Balances := bs\<rparr>) = c\<lparr>cu_balances := map_copy bs, cu_dirty := False\<rparr>
    \<and> same_map (map_copy bs) (cu_balances c)"
proof -
  have "loadFrom (newOpDedup maxCurrencyOps) (ops_snapshot (cu_ops c)) = cu_ops c"
    by (rule reload_ring) (use assms in \<open>simp_all add: newOpDedup_def maxCurrencyOps_def ring_ok_def\<close>)
  with assms show ?thesis
    by (simp add: Currency_Load_def Currency_Snapshot_def NewCurrency_def same_map_def map_copy wallet_ok_def)
qed

lemma Bag_roundtrip:
  assumes "bag_ok b" and "within (bg_ops b)" and "od_max (bg_ops b) = maxRecentOps" and "same_map (bs_Items (Bag_Snapshot b)) kvs"
  shows "Bag_Load NewBag (Bag_Snapshot b\<lparr>bs_Items := kvs\<rparr>) = b\<lparr>bg_items := foldl load_item [] kvs, bg_dirty := False\<rparr>
    \<and> same_map (foldl load_item [] kvs) (bg_items b)"
proof -
  have "loadFrom (newOpDedup maxRecentOps) (ops_snapshot (bg_ops b)) = bg_ops b"
    by (rule reload_ring) (use assms in \<open>simp_all add: newOpDedup_def maxRecentOps_def ring_ok_def\<close>)
  moreover have "\<forall>p \<in> set (bg_items b). in_s32 (fst p)" using assms(1) by (auto simp: bag_ok_def wf_map_lookup)
  with load_items [of "bg_items b" kvs] assms have "map_of (foldl load_item [] kvs) = map_of (bg_items b)"
    by (simp add: bag_ok_def same_map_def Bag_Snapshot_def)
  ultimately show ?thesis using assms(1)
    by (simp add: Bag_Load_def Bag_Snapshot_def NewBag_def same_map_def wf_load_items bag_ok_def)
qed

lemma Friend_roundtrip:
  assumes "set us = set (fs_Friends (Friend_Snapshot f))"
  shows "map_of (fr_friends (Friend_Load NewFriend (Friend_Snapshot f\<lparr>fs_Friends := us\<rparr>))) = map_of (fr_friends f)"
proof -
  have "map_of (foldl (\<lambda>m u. mput u () m) m0 xs) u = (if u \<in> set xs then Some () else map_of m0 u)" for m0 and xs :: "int list" and u
    by (induction xs arbitrary: m0) auto
  moreover have "map_of (fr_friends f) u = (if u \<in> set (mkeys (fr_friends f)) then Some () else None)" for u
    by (cases "map_of (fr_friends f) u") (auto simp: set_mkeys domIff)
  ultimately show ?thesis using assms by (auto simp: Friend_Load_def Friend_Snapshot_def fun_eq_iff)
qed

lemma Rating_roundtrip: "rt_mmr r \<noteq> 0 \<Longrightarrow> Rating_Load NewRating (Rating_Snapshot r) = r\<lparr>rt_dirty := False\<rparr>"
  by (simp add: Rating_Load_def Rating_Snapshot_def NewRating_def)

end
