(* ===== verification/Lobby_Player.thy ===== *)
theory Lobby_Player
  imports Lobby_Components
begin

text \<open>
  The player entity of the lobby (\<^verbatim>\<open>internal/server/lobby/internal/player.go\<close>, \<^verbatim>\<open>store.go\<close>): registered
  components, the stored player document, and building a player from it. A panic is the left
  value of a sum.
\<close>

section \<open>Components\<close>

datatype Component =
    BagComponent Bag
  | CurrencyComponent Currency
  | FriendComponent Friend
  | RatingComponent Rating

text \<open>The value that \<^verbatim>\<open>Snapshot\<close> returns as \<^verbatim>\<open>any\<close>.\<close>

datatype snapshot_any =
    BagSnapshot BagState
  | CurrencySnapshot CurrencyState
  | FriendSnapshot FriendState
  | RatingSnapshot RatingState

definition BagComponentName :: string where "BagComponentName = ''bag''"
definition CurrencyComponentName :: string where "CurrencyComponentName = ''currency''"
definition FriendComponentName :: string where "FriendComponentName = ''friend''"
definition RatingComponentName :: string where "RatingComponentName = ''rating''"
definition BagField :: string where "BagField = ''bag''"
definition CurrencyField :: string where "CurrencyField = ''currency''"
definition FriendField :: string where "FriendField = ''friend''"
definition RatingField :: string where "RatingField = ''rating''"

fun Component_Name :: "Component \<Rightarrow> string" where
  "Component_Name (BagComponent b) = BagComponentName"
| "Component_Name (CurrencyComponent c) = CurrencyComponentName"
| "Component_Name (FriendComponent f) = FriendComponentName"
| "Component_Name (RatingComponent r) = RatingComponentName"

fun Component_Field :: "Component \<Rightarrow> string" where
  "Component_Field (BagComponent b) = BagField"
| "Component_Field (CurrencyComponent c) = CurrencyField"
| "Component_Field (FriendComponent f) = FriendField"
| "Component_Field (RatingComponent r) = RatingField"

fun Component_Snapshot :: "Component \<Rightarrow> snapshot_any" where
  "Component_Snapshot (BagComponent b) = BagSnapshot (Bag_Snapshot b)"
| "Component_Snapshot (CurrencyComponent c) = CurrencySnapshot (Currency_Snapshot c)"
| "Component_Snapshot (FriendComponent f) = FriendSnapshot (Friend_Snapshot f)"
| "Component_Snapshot (RatingComponent r) = RatingSnapshot (Rating_Snapshot r)"

fun Component_Dirty :: "Component \<Rightarrow> bool" where
  "Component_Dirty (BagComponent b) = bg_dirty b"
| "Component_Dirty (CurrencyComponent c) = cu_dirty c"
| "Component_Dirty (FriendComponent f) = fr_dirty f"
| "Component_Dirty (RatingComponent r) = rt_dirty r"

fun set_dirty :: "bool \<Rightarrow> Component \<Rightarrow> Component" where
  "set_dirty d (BagComponent b) = BagComponent (b\<lparr>bg_dirty := d\<rparr>)"
| "set_dirty d (CurrencyComponent c) = CurrencyComponent (c\<lparr>cu_dirty := d\<rparr>)"
| "set_dirty d (FriendComponent f) = FriendComponent (f\<lparr>fr_dirty := d\<rparr>)"
| "set_dirty d (RatingComponent r) = RatingComponent (r\<lparr>rt_dirty := d\<rparr>)"

definition ClearDirty :: "Component \<Rightarrow> Component" where "ClearDirty = set_dirty False"
definition MarkDirty :: "Component \<Rightarrow> Component" where "MarkDirty = set_dirty True"

section \<open>Players\<close>

record roomBinding =
  rb_roomNodeID :: string
  rb_gameID :: string
  rb_currency :: string

text \<open>\<open>pl_mail\<close> is the attached mailbox handle: the user it belongs to and whether it has a store.\<close>

record Player =
  pl_uid :: int
  pl_components :: "string \<rightharpoonup> Component"
  pl_order :: "string list"
  pl_mail :: "(int \<times> bool) option"
  pl_lastTouch :: int
  pl_roomAffinity :: "roomBinding option"

definition NewPlayer :: "int \<Rightarrow> Player" where
  "NewPlayer uid = \<lparr>pl_uid = uid, pl_components = Map.empty, pl_order = [], pl_mail = None, pl_lastTouch = 0, pl_roomAffinity = None\<rparr>"

definition AddComponent :: "Player \<Rightarrow> Component \<Rightarrow> string + Player" where
  "AddComponent p c =
     (if pl_components p (Component_Name c) \<noteq> None then Inl (''lobby: duplicate component '' @ Component_Name c)
      else Inr (p\<lparr>pl_components := (pl_components p)(Component_Name c \<mapsto> c), pl_order := pl_order p @ [Component_Name c]\<rparr>))"

definition Components :: "Player \<Rightarrow> Component option list" where
  "Components p = map (pl_components p) (pl_order p)"

definition attachMail :: "Player \<Rightarrow> bool \<Rightarrow> Player" where
  "attachMail p store = p\<lparr>pl_mail := Some (pl_uid p, store)\<rparr>"

definition SetRoomAffinity :: "Player \<Rightarrow> string \<Rightarrow> string \<Rightarrow> string \<Rightarrow> Player" where
  "SetRoomAffinity p roomNodeID gameID currency =
     p\<lparr>pl_roomAffinity := Some \<lparr>rb_roomNodeID = roomNodeID, rb_gameID = gameID, rb_currency = currency\<rparr>\<rparr>"

definition ClearRoomAffinity :: "Player \<Rightarrow> Player" where
  "ClearRoomAffinity p = p\<lparr>pl_roomAffinity := None\<rparr>"

text \<open>The typed accessors; a missing component is a nil pointer.\<close>

definition Player_Bag :: "Player \<Rightarrow> Bag option" where
  "Player_Bag p = (case pl_components p BagComponentName of Some (BagComponent b) \<Rightarrow> Some b | _ \<Rightarrow> None)"

definition Player_Currency :: "Player \<Rightarrow> Currency option" where
  "Player_Currency p = (case pl_components p CurrencyComponentName of Some (CurrencyComponent c) \<Rightarrow> Some c | _ \<Rightarrow> None)"

definition Player_Friend :: "Player \<Rightarrow> Friend option" where
  "Player_Friend p = (case pl_components p FriendComponentName of Some (FriendComponent f) \<Rightarrow> Some f | _ \<Rightarrow> None)"

definition Player_Rating :: "Player \<Rightarrow> Rating option" where
  "Player_Rating p = (case pl_components p RatingComponentName of Some (RatingComponent r) \<Rightarrow> Some r | _ \<Rightarrow> None)"

section \<open>The stored document\<close>

record PlayerDoc =
  pd_ID :: int
  pd_Bag :: BagState
  pd_Currency :: CurrencyState
  pd_Friend :: FriendState
  pd_Rating :: RatingState

definition NewPlayerDoc :: "int \<Rightarrow> PlayerDoc" where
  "NewPlayerDoc uid = \<lparr>pd_ID = uid, pd_Bag = NewBagState, pd_Currency = NewCurrencyState, pd_Friend = NewFriendState, pd_Rating = NewRatingState\<rparr>"

definition buildPlayer :: "int \<Rightarrow> PlayerDoc \<Rightarrow> string + Player" where
  "buildPlayer uid doc =
     (case AddComponent (NewPlayer uid) (BagComponent (Bag_Load NewBag (pd_Bag doc))) of
        Inl e \<Rightarrow> Inl e
      | Inr p1 \<Rightarrow>
     (case AddComponent p1 (CurrencyComponent (Currency_Load NewCurrency (pd_Currency doc))) of
        Inl e \<Rightarrow> Inl e
      | Inr p2 \<Rightarrow>
     (case AddComponent p2 (FriendComponent (Friend_Load NewFriend (pd_Friend doc))) of
        Inl e \<Rightarrow> Inl e
      | Inr p3 \<Rightarrow> AddComponent p3 (RatingComponent (Rating_Load NewRating (pd_Rating doc))))))"

lemmas component_names = BagComponentName_def CurrencyComponentName_def FriendComponentName_def RatingComponentName_def
lemmas field_names = BagField_def CurrencyField_def FriendField_def RatingField_def

text \<open>Registration never collides, and all four components are found.\<close>

lemma buildPlayer_eq:
  "buildPlayer uid doc = Inr \<lparr>pl_uid = uid,
     pl_components = [BagComponentName \<mapsto> BagComponent (Bag_Load NewBag (pd_Bag doc)),
       CurrencyComponentName \<mapsto> CurrencyComponent (Currency_Load NewCurrency (pd_Currency doc)),
       FriendComponentName \<mapsto> FriendComponent (Friend_Load NewFriend (pd_Friend doc)),
       RatingComponentName \<mapsto> RatingComponent (Rating_Load NewRating (pd_Rating doc))],
     pl_order = [BagComponentName, CurrencyComponentName, FriendComponentName, RatingComponentName],
     pl_mail = None, pl_lastTouch = 0, pl_roomAffinity = None\<rparr>"
  by (simp add: buildPlayer_def AddComponent_def NewPlayer_def component_names)

section \<open>Well-formed players\<close>

definition player_ok :: "Player \<Rightarrow> bool" where
  "player_ok p \<longleftrightarrow> pl_order p = [BagComponentName, CurrencyComponentName, FriendComponentName, RatingComponentName] \<and>
     (\<exists>b c f r. pl_components p = [BagComponentName \<mapsto> BagComponent b, CurrencyComponentName \<mapsto> CurrencyComponent c,
        FriendComponentName \<mapsto> FriendComponent f, RatingComponentName \<mapsto> RatingComponent r])"

lemma player_ok_build: "buildPlayer uid doc = Inr p \<Longrightarrow> player_ok p"
proof -
  assume "buildPlayer uid doc = Inr p"
  note p = this [unfolded buildPlayer_eq, THEN sum.inject(2) [THEN iffD1], symmetric]
  show ?thesis unfolding player_ok_def p by (simp, intro exI, rule refl)
qed

lemma player_okE:
  assumes "player_ok p"
  obtains b c f r where "pl_components p = [BagComponentName \<mapsto> BagComponent b, CurrencyComponentName \<mapsto> CurrencyComponent c,
        FriendComponentName \<mapsto> FriendComponent f, RatingComponentName \<mapsto> RatingComponent r]"
    and "Player_Bag p = Some b" and "Player_Currency p = Some c" and "Player_Friend p = Some f" and "Player_Rating p = Some r"
    and "Components p = [Some (BagComponent b), Some (CurrencyComponent c), Some (FriendComponent f), Some (RatingComponent r)]"
proof -
  from assms obtain b c f r where cs: "pl_components p = [BagComponentName \<mapsto> BagComponent b, CurrencyComponentName \<mapsto> CurrencyComponent c,
        FriendComponentName \<mapsto> FriendComponent f, RatingComponentName \<mapsto> RatingComponent r]"
    and o: "pl_order p = [BagComponentName, CurrencyComponentName, FriendComponentName, RatingComponentName]" by (auto simp: player_ok_def)
  show ?thesis
    by (rule that [of b c f r]) (simp_all add: cs o Player_Bag_def Player_Currency_def Player_Friend_def Player_Rating_def Components_def component_names)
qed

text \<open>What a save writes for each component, as a document in one of the orders the database may return.\<close>

definition saved_as :: "Player \<Rightarrow> PlayerDoc \<Rightarrow> bool" where
  "saved_as p doc \<longleftrightarrow> (\<exists>b c f r kvs bs us. Player_Bag p = Some b \<and> Player_Currency p = Some c \<and> Player_Friend p = Some f \<and> Player_Rating p = Some r \<and>
     pd_Bag doc = Bag_Snapshot b\<lparr>bs_Items := kvs\<rparr> \<and> same_map (bs_Items (Bag_Snapshot b)) kvs \<and>
     pd_Currency doc = Currency_Snapshot c\<lparr>cs_Balances := bs\<rparr> \<and> same_map (cs_Balances (Currency_Snapshot c)) bs \<and>
     pd_Friend doc = Friend_Snapshot f\<lparr>fs_Friends := us\<rparr> \<and> set us = set (fs_Friends (Friend_Snapshot f)) \<and>
     pd_Rating doc = Rating_Snapshot r)"

text \<open>Contents that the component operations keep: 32-bit item numbers with positive counts, rings within their bounds.\<close>

definition contents_ok :: "Player \<Rightarrow> bool" where
  "contents_ok p \<longleftrightarrow> (\<exists>b c f r. Player_Bag p = Some b \<and> Player_Currency p = Some c \<and> Player_Friend p = Some f \<and> Player_Rating p = Some r \<and>
     bag_ok b \<and> within (bg_ops b) \<and> od_max (bg_ops b) = maxRecentOps \<and>
     wallet_ok c \<and> within (cu_ops c) \<and> od_max (cu_ops c) = maxCurrencyOps \<and> rt_mmr r \<noteq> 0)"

text \<open>C23: A saved player is restored. Building a player from the document that holds the snapshots of
  its four components never panics on a duplicate component, and the restored player has the
  same item counts, balances, friends, rating and remembered operations, and no component that
  still has to be saved, whatever the order in which the database returns maps and lists.\<close>

theorem player_roundtrip:
  assumes "contents_ok p" and "saved_as p doc"
  shows "\<exists>q b c f r b' c' f' r'. buildPlayer uid doc = Inr q \<and>
    Player_Bag p = Some b \<and> Player_Bag q = Some b' \<and> Player_Currency p = Some c \<and> Player_Currency q = Some c' \<and>
    Player_Friend p = Some f \<and> Player_Friend q = Some f' \<and> Player_Rating p = Some r \<and> Player_Rating q = Some r' \<and>
    Count b' = Count b \<and> bg_ops b' = bg_ops b \<and> Balance c' = Balance c \<and> cu_ops c' = cu_ops c \<and>
    Has f' = Has f \<and> rt_mmr r' = rt_mmr r \<and> \<not> bg_dirty b' \<and> \<not> cu_dirty c' \<and> \<not> fr_dirty f' \<and> \<not> rt_dirty r'"
proof -
  obtain b c f r where p: "Player_Bag p = Some b" "Player_Currency p = Some c" "Player_Friend p = Some f" "Player_Rating p = Some r"
    and b: "bag_ok b" "within (bg_ops b)" "od_max (bg_ops b) = maxRecentOps"
    and c: "wallet_ok c" "within (cu_ops c)" "od_max (cu_ops c) = maxCurrencyOps" and r: "rt_mmr r \<noteq> 0"
    using assms(1) by (auto simp: contents_ok_def)
  obtain kvs bs us where d: "pd_Bag doc = Bag_Snapshot b\<lparr>bs_Items := kvs\<rparr>" "same_map (bs_Items (Bag_Snapshot b)) kvs"
    "pd_Currency doc = Currency_Snapshot c\<lparr>cs_Balances := bs\<rparr>" "same_map (cs_Balances (Currency_Snapshot c)) bs"
    "pd_Friend doc = Friend_Snapshot f\<lparr>fs_Friends := us\<rparr>" "set us = set (fs_Friends (Friend_Snapshot f))" "pd_Rating doc = Rating_Snapshot r"
    using assms(2) p by (auto simp: saved_as_def)
  note B = Bag_roundtrip [OF b d(2)] and C = Currency_roundtrip [OF c d(4)] and F = Friend_roundtrip [OF d(6)] and R = Rating_roundtrip [OF r]
  let ?f = "Friend_Load NewFriend (Friend_Snapshot f\<lparr>fs_Friends := us\<rparr>)"
  have "Count (b\<lparr>bg_items := foldl load_item [] kvs, bg_dirty := False\<rparr>) = Count b"
    using B by (simp add: Count_def zero_of_def same_map_def fun_eq_iff)
  moreover have "Balance (c\<lparr>cu_balances := map_copy bs, cu_dirty := False\<rparr>) = Balance c"
    using C by (simp add: Balance_def zero_of_def same_map_def fun_eq_iff)
  moreover have "Has ?f = Has f" "\<not> fr_dirty ?f" using F by (simp_all add: Has_def fun_eq_iff Friend_Load_def)
  ultimately show ?thesis using p B C R d
    by (simp add: buildPlayer_eq Player_Bag_def Player_Currency_def Player_Friend_def Player_Rating_def component_names)
qed


lemma within_New: "within (newOpDedup 128)"
  by (simp add: within_def newOpDedup_def ring_ok_def)

lemma within_remember: "within r \<Longrightarrow> within (remember r x)"
  using ring_bounded_remember [of r x] ring_ok_remember [of r x] by (auto simp: within_def ring_bounded_def ring_ok_def)

lemma within_load: "ring_ok r \<Longrightarrow> within (loadFrom r xs)"
proof -
  assume "ring_ok r"
  then have "within (r\<lparr>od_seenSet := {}, od_order := [], od_protected := {}\<rparr>)" by (simp add: within_def ring_ok_def)
  moreover have "within s \<Longrightarrow> within (foldl remember s xs)" for s by (induction xs arbitrary: s) (simp_all add: within_remember)
  ultimately show ?thesis by (simp add: loadFrom_def)
qed

text \<open>Every player that is built from a document whose item counts are positive is well-formed, whatever else the document holds.\<close>

lemma contents_ok_build:
  assumes "buildPlayer uid doc = Inr p" and "\<forall>k n. (k, n) \<in> set (bs_Items (pd_Bag doc)) \<longrightarrow> 0 < n \<and> in_s32 n"
  shows "contents_ok p"
proof -
  have "wf_map m0 \<and> (\<forall>i n. map_of m0 i = Some n \<longrightarrow> in_s32 i \<and> 0 < n \<and> in_s32 n) \<Longrightarrow> (\<forall>k n. (k, n) \<in> set kvs \<longrightarrow> 0 < n \<and> in_s32 n) \<Longrightarrow>
      wf_map (foldl load_item m0 kvs) \<and> (\<forall>i n. map_of (foldl load_item m0 kvs) i = Some n \<longrightarrow> in_s32 i \<and> 0 < n \<and> in_s32 n)" for m0 kvs
  proof (induction kvs arbitrary: m0)
    case (Cons p kvs)
    obtain k n where p: "p = (k, n)" by (cases p)
    have "wf_map (load_item m0 p) \<and> (\<forall>i n. map_of (load_item m0 p) i = Some n \<longrightarrow> in_s32 i \<and> 0 < n \<and> in_s32 n)"
      using Cons.prems p ParseInt32_range [of k] by (auto simp: load_item_def split: option.splits)
    from Cons.IH [OF this] Cons.prems(2) show ?case unfolding foldl.simps by (meson list.set_intros(2))
  qed simp
  from this [of "[]" "bs_Items (pd_Bag doc)"] assms(2)
  have "bag_ok (Bag_Load NewBag (pd_Bag doc))" by (simp add: bag_ok_def Bag_Load_def)
  moreover have "within (bg_ops (Bag_Load NewBag (pd_Bag doc)))" "od_max (bg_ops (Bag_Load NewBag (pd_Bag doc))) = maxRecentOps"
    by (simp_all add: Bag_Load_def NewBag_def within_load) (simp add: loadFrom_def newOpDedup_def maxRecentOps_def)
  moreover have "within (cu_ops (Currency_Load NewCurrency (pd_Currency doc)))" "od_max (cu_ops (Currency_Load NewCurrency (pd_Currency doc))) = maxCurrencyOps"
    by (simp_all add: Currency_Load_def NewCurrency_def within_load) (simp add: loadFrom_def newOpDedup_def maxCurrencyOps_def)
  moreover have "wallet_ok (Currency_Load NewCurrency (pd_Currency doc))" by (simp add: wallet_ok_def Currency_Load_def map_copy)
  moreover have "rt_mmr (Rating_Load NewRating (pd_Rating doc)) \<noteq> 0" by (simp add: Rating_Load_def defaultMMR_def)
  ultimately show ?thesis using assms(1)
    by (auto simp: contents_ok_def buildPlayer_eq Player_Bag_def Player_Currency_def Player_Friend_def Player_Rating_def component_names)
qed

text \<open>A player with two kinds of items, two balances, two friends, a rating and remembered operations, and the document of its
  snapshots with the maps and the list of friends in another order.\<close>

definition busy_bag :: Bag where
  "busy_bag = fst (Bag_Add (fst (Bag_Add NewBag ''a'' 5 2)) ''b'' 9 1)"

definition busy_wallet :: Currency where
  "busy_wallet = fst (Gain (fst (Gain NewCurrency ''g'' ''gold'' 70)) ''h'' ''gem'' 3)"

definition busy_friends :: Friend where
  "busy_friends = fst (Friend_Add (fst (Friend_Add NewFriend 8)) 11)"

definition busy_player :: Player where
  "busy_player = (NewPlayer 7)\<lparr>pl_components := [BagComponentName \<mapsto> BagComponent busy_bag, CurrencyComponentName \<mapsto> CurrencyComponent busy_wallet,
       FriendComponentName \<mapsto> FriendComponent busy_friends, RatingComponentName \<mapsto> RatingComponent (NewRating\<lparr>rt_mmr := 1200, rt_dirty := True\<rparr>)],
     pl_order := [BagComponentName, CurrencyComponentName, FriendComponentName, RatingComponentName]\<rparr>"

definition busy_doc :: PlayerDoc where
  "busy_doc = \<lparr>pd_ID = 7, pd_Bag = \<lparr>bs_Items = [(dec_int 9, 1), (dec_int 5, 2)], bs_Ops = [''a'', ''b'']\<rparr>,
     pd_Currency = \<lparr>cs_Balances = [(''gem'', 3), (''gold'', 70)], cs_Ops = [''g'', ''h'']\<rparr>,
     pd_Friend = \<lparr>fs_Friends = [8, 11]\<rparr>, pd_Rating = \<lparr>rs_MMR = 1200\<rparr>\<rparr>"

lemma busy_parts:
  "bg_items busy_bag = [(9, 1), (5, 2)]" "od_order (bg_ops busy_bag) = [''a'', ''b'']" "od_seenSet (bg_ops busy_bag) = {''a'', ''b''}"
  "od_protected (bg_ops busy_bag) = {}" "od_max (bg_ops busy_bag) = 128"
  "cu_balances busy_wallet = [(''gem'', 3), (''gold'', 70)]" "od_order (cu_ops busy_wallet) = [''g'', ''h'']" "od_seenSet (cu_ops busy_wallet) = {''g'', ''h''}"
  "od_protected (cu_ops busy_wallet) = {}" "od_max (cu_ops busy_wallet) = 128"
  "fr_friends busy_friends = [(11, ()), (8, ())]"
  by (simp_all add: busy_bag_def busy_wallet_def busy_friends_def Bag_Add_def Gain_def Friend_Add_def NewBag_def NewCurrency_def NewFriend_def
      Let_def seen_def remember_def evict.simps newOpDedup_def maxRecentOps_def maxCurrencyOps_def zero_of_def mput_def mdel_def wrap_s32_def wrap_s64_def
      insert_commute)

lemma busy_saved: "contents_ok busy_player" "saved_as busy_player busy_doc"
proof -
  have parts: "Player_Bag busy_player = Some busy_bag" "Player_Currency busy_player = Some busy_wallet"
    "Player_Friend busy_player = Some busy_friends" "Player_Rating busy_player = Some (NewRating\<lparr>rt_mmr := 1200, rt_dirty := True\<rparr>)"
    by (simp_all add: busy_player_def Player_Bag_def Player_Currency_def Player_Friend_def Player_Rating_def component_names)
  have "bag_ok busy_bag" "wallet_ok busy_wallet" "within (bg_ops busy_bag)" "within (cu_ops busy_wallet)"
    by (auto simp: bag_ok_def wallet_ok_def within_def ring_ok_def busy_parts wf_map_def mkeys_def in_s32_def split: if_splits)
  then show "contents_ok busy_player"
    by (simp add: contents_ok_def parts busy_parts maxRecentOps_def maxCurrencyOps_def)
  have d: "dec_int 9 = ''9''" "dec_int 5 = ''5''" by code_simp+
  have "pd_Bag busy_doc = Bag_Snapshot busy_bag\<lparr>bs_Items := [(dec_int 9, 1), (dec_int 5, 2)]\<rparr>"
    "same_map (bs_Items (Bag_Snapshot busy_bag)) [(dec_int 9, 1), (dec_int 5, 2)]"
    "pd_Currency busy_doc = Currency_Snapshot busy_wallet\<lparr>cs_Balances := [(''gem'', 3), (''gold'', 70)]\<rparr>"
    "same_map (cs_Balances (Currency_Snapshot busy_wallet)) [(''gem'', 3), (''gold'', 70)]"
    "pd_Friend busy_doc = Friend_Snapshot busy_friends\<lparr>fs_Friends := [8, 11]\<rparr>" "set [8, 11] = set (fs_Friends (Friend_Snapshot busy_friends))"
    "pd_Rating busy_doc = Rating_Snapshot (NewRating\<lparr>rt_mmr := 1200, rt_dirty := True\<rparr>)"
    by (auto simp: busy_doc_def Bag_Snapshot_def Currency_Snapshot_def Friend_Snapshot_def Rating_Snapshot_def NewRating_def ops_snapshot_def
        busy_parts same_map_def wf_map_def mkeys_def mput_def mdel_def map_copy_def d)
  with parts show "saved_as busy_player busy_doc" unfolding saved_as_def by blast
qed

theorem player_roundtrip_witness:
  "saved_as busy_player busy_doc \<and> (\<exists>q b c f r. buildPlayer 7 busy_doc = Inr q
    \<and> Player_Bag q = Some b \<and> Player_Currency q = Some c \<and> Player_Friend q = Some f \<and> Player_Rating q = Some r
    \<and> Count b 5 = 2 \<and> Count b 9 = 1 \<and> seen (bg_ops b) ''a'' \<and> Balance c ''gold'' = 70 \<and> Balance c ''gem'' = 3 \<and> seen (cu_ops c) ''h''
    \<and> Has f 8 \<and> Has f 11 \<and> rt_mmr r = 1200 \<and> \<not> bg_dirty b \<and> \<not> cu_dirty c)"
proof -
  have parts: "Player_Bag busy_player = Some busy_bag" "Player_Currency busy_player = Some busy_wallet"
    "Player_Friend busy_player = Some busy_friends" "Player_Rating busy_player = Some (NewRating\<lparr>rt_mmr := 1200, rt_dirty := True\<rparr>)"
    by (simp_all add: busy_player_def Player_Bag_def Player_Currency_def Player_Friend_def Player_Rating_def component_names)
  have held: "Count busy_bag 5 = 2" "Count busy_bag 9 = 1" "seen (bg_ops busy_bag) ''a''" "Balance busy_wallet ''gold'' = 70"
    "Balance busy_wallet ''gem'' = 3" "seen (cu_ops busy_wallet) ''h''" "Has busy_friends 8" "Has busy_friends 11"
    by (simp_all add: Count_def Balance_def Has_def seen_def zero_of_def busy_parts)
  from player_roundtrip [OF busy_saved, of 7] held busy_saved(2) show ?thesis by (auto simp: parts)
qed

end
