(* ===== verification/Lobby_Runtime.thy ===== *)
theory Lobby_Runtime
  imports Lobby_Player
begin

text \<open>
  The single-threaded runtime of the lobby (\<^verbatim>\<open>internal/server/lobby/internal/runtime.go\<close>): login,
  disconnect, saving, replay of offline messages, friend requests, matches and settlement.
  The stores are asynchronous: a call leaves an open request with its continuation, and the
  main loop later runs the continuation with a result, in any order and with any outcome.
  Players are shared by pointers (positions in \<open>lr_heap\<close>), because a continuation keeps the player
  it was started for even when the user has a new one. The hooks towards the online, match
  and room servers are the placeholders that \<^verbatim>\<open>NewRuntime\<close> installs; the ones with an answer
  are fields, as in the source, and answer at once.
\<close>

section \<open>Data\<close>

record Attachment =
  at_Kind :: string
  at_ID :: int
  at_Count :: int

text \<open>The identifier of a mail is a number.\<close>

record MailDoc =
  md_ID :: nat
  md_To :: int
  md_From :: int
  md_Type :: string
  md_Attachments :: "Attachment list"
  md_Body :: string
  md_Ts :: int
  md_Read :: bool
  md_Claimed :: bool

record OfflineMsg =
  om_Type :: string
  om_OpID :: string
  om_Price :: int
  om_Currency :: string
  om_ItemID :: int

definition OfflineMsgSettle :: string where "OfflineMsgSettle = ''settle''"

record LoginResult =
  lg_Code :: int
  lg_UID :: int
  lg_LobbyNodeID :: string

record RejoinResult =
  rj_Code :: int
  rj_HB :: int
  rj_HBR :: int
  rj_Remain :: int
  rj_ItemID :: int
  rj_Currency :: string

record MatchRequest =
  mr_UID :: int
  mr_ReqID :: string
  mr_MMR :: int
  mr_LobbyNodeID :: string

definition ErrStoreNotConfigured :: string where
  "ErrStoreNotConfigured = ''lobby runtime store is not configured''"

definition touchThrottle :: int where "touchThrottle = 2 * 60 * 10 ^ 9"

definition defaultRuntimeQueueSize :: int where "defaultRuntimeQueueSize = 1024"

text \<open>The stores are present or nil; durations are nanoseconds.\<close>

record RuntimeConfig =
  rc_NodeID :: string
  rc_Store :: bool
  rc_MailStore :: bool
  rc_OfflineStore :: bool
  rc_QueueSize :: int
  rc_Tick :: int
  rc_FlushInterval :: int

section \<open>Continuations and requests\<close>

text \<open>
  The closures of the source with what they capture: the rest of a login (user, gateway, number
  of the reply function, player), what follows a save, and the open store requests.
\<close>

datatype after = AfterNone | AfterLogin int string nat nat

datatype flush_after = FlushIgnore | FlushDisconnect int | FlushReplay int "string list" after

datatype io =
    LoadDoc int string nat
  | FlushFields int nat "(string, snapshot_any) gomap" "string list" flush_after
  | LoadOffline int nat after
  | AckOffline int "string list" after
  | PushOffline int OfflineMsg "nat option"
  | PendingFriendAccepts int nat
  | ClaimMail nat int

datatype io_result =
    IoErr string
  | DocFound PlayerDoc
  | DocMissing
  | IoDone
  | Messages "OfflineMsg list"
  | Mails "MailDoc list"

text \<open>What the runtime does to the outside: replies, hook calls, events.\<close>

datatype effect =
    Replied nat "string + LoginResult"
  | RegisteredOnline int string
  | UnregisteredOnline int
  | TouchedOnline int
  | PublishedMatch MatchRequest
  | BoundRoom int string string
  | UnboundRoom int
  | PublishedLoaded int
  | PublishedCurrency int string int
  | SettleAnswered nat int

record Runtime =
  lr_nodeID :: string
  lr_store :: bool
  lr_mailStore :: bool
  lr_offlineStore :: bool
  lr_queueSize :: int
  lr_tick :: int
  lr_flushInterval :: int
  lr_heap :: "Player list"
  lr_players :: "(int, nat) gomap"
  lr_dirtyFlush :: "(int, bool) gomap"
  lr_inflight :: int
  lr_reqSeq :: int
  lr_queryOnline :: "int \<Rightarrow> string \<times> string"
  lr_queryGame :: "string \<Rightarrow> string \<Rightarrow> bool"
  lr_rejoinRoom :: "int \<Rightarrow> string \<Rightarrow> string \<Rightarrow> string \<Rightarrow> RejoinResult"
  lr_io :: "(nat \<times> io) list"
  lr_nextIo :: nat
  lr_nextReply :: nat
  lr_log :: "effect list"
  lr_panicked :: bool

definition queryOnlineNoop :: "int \<Rightarrow> string \<times> string" where
  "queryOnlineNoop uid = ([], [])"

definition queryGameNoop :: "string \<Rightarrow> string \<Rightarrow> bool" where
  "queryGameNoop roomNodeID gameID = False"

definition rejoinRoomNoop :: "int \<Rightarrow> string \<Rightarrow> string \<Rightarrow> string \<Rightarrow> RejoinResult" where
  "rejoinRoomNoop uid roomNodeID gameID lobby = \<lparr>rj_Code = 1, rj_HB = 0, rj_HBR = 0, rj_Remain = 0, rj_ItemID = 0, rj_Currency = []\<rparr>"

definition NewRuntime :: "RuntimeConfig \<Rightarrow> Runtime" where
  "NewRuntime cfg =
     \<lparr>lr_nodeID = rc_NodeID cfg, lr_store = rc_Store cfg, lr_mailStore = rc_MailStore cfg, lr_offlineStore = rc_OfflineStore cfg,
      lr_queueSize = (if rc_QueueSize cfg \<le> 0 then defaultRuntimeQueueSize else rc_QueueSize cfg),
      lr_tick = (if rc_Tick cfg \<le> 0 then 100 * 10 ^ 6 else rc_Tick cfg),
      lr_flushInterval = (if rc_FlushInterval cfg \<le> 0 then 30 * 10 ^ 9 else rc_FlushInterval cfg),
      lr_heap = [], lr_players = [],
      lr_dirtyFlush = [], lr_inflight = 0, lr_reqSeq = 0, lr_queryOnline = queryOnlineNoop, lr_queryGame = queryGameNoop,
      lr_rejoinRoom = rejoinRoomNoop, lr_io = [], lr_nextIo = 0, lr_nextReply = 0, lr_log = [], lr_panicked = False\<rparr>"

definition emit :: "Runtime \<Rightarrow> effect \<Rightarrow> Runtime" where
  "emit rt e = rt\<lparr>lr_log := lr_log rt @ [e]\<rparr>"

definition issue :: "Runtime \<Rightarrow> io \<Rightarrow> Runtime" where
  "issue rt q = rt\<lparr>lr_io := lr_io rt @ [(lr_nextIo rt, q)], lr_nextIo := Suc (lr_nextIo rt)\<rparr>"

definition upd_player :: "Runtime \<Rightarrow> nat \<Rightarrow> (Player \<Rightarrow> Player) \<Rightarrow> Runtime" where
  "upd_player rt pp f = rt\<lparr>lr_heap := (lr_heap rt)[pp := f (lr_heap rt ! pp)]\<rparr>"

definition put_component :: "Component \<Rightarrow> Player \<Rightarrow> Player" where
  "put_component c p = p\<lparr>pl_components := (pl_components p)(Component_Name c \<mapsto> c)\<rparr>"

text \<open>Calls on the typed components; a nil component panics.\<close>

definition with_currency :: "Runtime \<Rightarrow> nat \<Rightarrow> (Currency \<Rightarrow> Currency) \<Rightarrow> Runtime" where
  "with_currency rt pp f =
     (case Player_Currency (lr_heap rt ! pp) of
        None \<Rightarrow> rt\<lparr>lr_panicked := True\<rparr>
      | Some c \<Rightarrow> upd_player rt pp (put_component (CurrencyComponent (f c))))"

definition with_bag :: "Runtime \<Rightarrow> nat \<Rightarrow> (Bag \<Rightarrow> Bag) \<Rightarrow> Runtime" where
  "with_bag rt pp f =
     (case Player_Bag (lr_heap rt ! pp) of
        None \<Rightarrow> rt\<lparr>lr_panicked := True\<rparr>
      | Some b \<Rightarrow> upd_player rt pp (put_component (BagComponent (f b))))"

section \<open>Reconnecting and the end of a login\<close>

definition unbindRoom :: "Runtime \<Rightarrow> int \<Rightarrow> Runtime" where
  "unbindRoom rt uid = emit rt (UnboundRoom uid)"

definition tryReconnect :: "Runtime \<Rightarrow> int \<Rightarrow> Runtime" where
  "tryReconnect rt uid =
     (case lr_queryOnline rt uid of
        (roomNodeID, gameID) \<Rightarrow>
          if roomNodeID = [] \<or> gameID = [] then rt
          else if \<not> lr_queryGame rt roomNodeID gameID then unbindRoom rt uid
          else
            let result = lr_rejoinRoom rt uid roomNodeID gameID (lr_nodeID rt) in
            if rj_Code result \<noteq> 0 then unbindRoom rt uid
            else (case map_of (lr_players rt) uid of
                    None \<Rightarrow> rt
                  | Some pp \<Rightarrow> upd_player rt pp (\<lambda>p. SetRoomAffinity p roomNodeID gameID (rj_Currency result))))"

text \<open>Its only caller passes no continuation.\<close>

definition scanFriendAccepts :: "Runtime \<Rightarrow> int \<Rightarrow> nat \<Rightarrow> Runtime" where
  "scanFriendAccepts rt uid pp = (if \<not> lr_mailStore rt then rt else issue rt (PendingFriendAccepts uid pp))"

definition login_ok :: "Runtime \<Rightarrow> int \<Rightarrow> LoginResult" where
  "login_ok rt uid = \<lparr>lg_Code = 0, lg_UID = uid, lg_LobbyNodeID = lr_nodeID rt\<rparr>"

fun run_after :: "Runtime \<Rightarrow> after \<Rightarrow> Runtime" where
  "run_after rt AfterNone = rt"
| "run_after rt (AfterLogin uid gatewayNodeID reply pp) =
     scanFriendAccepts (tryReconnect (emit (emit rt (RegisteredOnline uid gatewayNodeID)) (Replied reply (Inr (login_ok rt uid)))) uid) uid pp"

section \<open>Saving\<close>

fun run_flush_after :: "Runtime \<Rightarrow> flush_after \<Rightarrow> bool \<Rightarrow> Runtime" where
  "run_flush_after rt FlushIgnore ok = rt"
| "run_flush_after rt (FlushDisconnect uid) ok = (if ok then rt\<lparr>lr_players := mdel uid (lr_players rt)\<rparr> else rt)"
| "run_flush_after rt (FlushReplay uid acked a) ok = (if \<not> ok then run_after rt a else issue rt (AckOffline uid acked a))"

definition dirty_components :: "Player \<Rightarrow> Component list" where
  "dirty_components p = concat (map (\<lambda>oc. case oc of None \<Rightarrow> [] | Some c \<Rightarrow> if Component_Dirty c then [c] else []) (Components p))"

definition flushPlayer :: "Runtime \<Rightarrow> int \<Rightarrow> nat \<Rightarrow> flush_after \<Rightarrow> Runtime" where
  "flushPlayer rt uid pp fa =
     (if \<not> lr_store rt then run_flush_after rt fa False
      else
        let dirty = dirty_components (lr_heap rt ! pp);
            fields = foldl (\<lambda>m c. mput (Component_Field c) (Component_Snapshot c) m) [] dirty;
            rt1 = upd_player rt pp (\<lambda>p. foldl (\<lambda>p c. put_component (ClearDirty c) p) p dirty)
        in if fields = [] then run_flush_after rt1 fa True
           else issue (rt1\<lparr>lr_inflight := lr_inflight rt1 + 1\<rparr>) (FlushFields uid pp fields (map Component_Name dirty) fa))"

text \<open>The callback of a save: components are looked up by name in the player they belong to.\<close>

definition mark_dirty :: "string list \<Rightarrow> Player \<Rightarrow> Player" where
  "mark_dirty names p =
     foldl (\<lambda>p n. case pl_components p n of None \<Rightarrow> p | Some c \<Rightarrow> put_component (MarkDirty c) p) p names"

definition flush_done :: "Runtime \<Rightarrow> nat \<Rightarrow> string list \<Rightarrow> flush_after \<Rightarrow> bool \<Rightarrow> Runtime" where
  "flush_done rt pp names fa ok =
     (let rt1 = (if ok then rt else upd_player rt pp (mark_dirty names));
          rt2 = run_flush_after rt1 fa ok
      in rt2\<lparr>lr_inflight := lr_inflight rt2 - 1\<rparr>)"

definition flushAllDirty :: "Runtime \<Rightarrow> Runtime" where
  "flushAllDirty rt = foldl (\<lambda>rt (uid, pp). flushPlayer rt uid pp FlushIgnore) rt (lr_players rt)"

definition FlushSoon :: "Runtime \<Rightarrow> int \<Rightarrow> Runtime" where
  "FlushSoon rt uid = rt\<lparr>lr_dirtyFlush := mput uid True (lr_dirtyFlush rt)\<rparr>"

definition coalesceFlush :: "Runtime \<Rightarrow> Runtime" where
  "coalesceFlush rt =
     foldl (\<lambda>rt uid.
       let rt1 = (case map_of (lr_players rt) uid of None \<Rightarrow> rt | Some pp \<Rightarrow> flushPlayer rt uid pp FlushIgnore)
       in rt1\<lparr>lr_dirtyFlush := mdel uid (lr_dirtyFlush rt1)\<rparr>) rt (mkeys (lr_dirtyFlush rt))"

section \<open>Offline messages\<close>

definition applyOfflineMsg :: "Runtime \<Rightarrow> int \<Rightarrow> nat \<Rightarrow> OfflineMsg \<Rightarrow> Runtime" where
  "applyOfflineMsg rt uid pp m =
     (if om_Type m = OfflineMsgSettle then
        let rt1 = (if 0 < om_Price m then with_currency rt pp (\<lambda>c. fst (Spend c (om_OpID m @ '':spend'') (om_Currency m) (om_Price m))) else rt);
            rt2 = (if om_ItemID m \<noteq> 0 then with_bag rt1 pp (\<lambda>b. fst (Bag_Add b (om_OpID m @ '':item'') (om_ItemID m) 1)) else rt1)
        in if om_Price m \<noteq> 0 then emit rt2 (PublishedCurrency uid (om_Currency m) (wrap_s64 (- om_Price m))) else rt2
      else rt)"

definition replayOffline :: "Runtime \<Rightarrow> int \<Rightarrow> nat \<Rightarrow> after \<Rightarrow> Runtime" where
  "replayOffline rt uid pp a = (if \<not> lr_offlineStore rt then run_after rt a else issue rt (LoadOffline uid pp a))"

definition replay_messages :: "Runtime \<Rightarrow> int \<Rightarrow> nat \<Rightarrow> OfflineMsg list \<Rightarrow> after \<Rightarrow> Runtime" where
  "replay_messages rt uid pp msgs a =
     (let rt1 = foldl (\<lambda>rt m. applyOfflineMsg rt uid pp m) rt msgs;
          acked = filter (\<lambda>x. x \<noteq> []) (map om_OpID msgs)
      in if acked = [] then run_after rt1 a else flushPlayer rt1 uid pp (FlushReplay uid acked a))"

section \<open>Login and disconnect\<close>

definition Login :: "Runtime \<Rightarrow> int \<Rightarrow> string \<Rightarrow> nat \<Rightarrow> Runtime" where
  "Login rt uid gatewayNodeID reply =
     (if map_of (lr_players rt) uid \<noteq> None then
        emit (emit rt (RegisteredOnline uid gatewayNodeID)) (Replied reply (Inr (login_ok rt uid)))
      else if \<not> lr_store rt then emit rt (Replied reply (Inl ErrStoreNotConfigured))
      else issue rt (LoadDoc uid gatewayNodeID reply))"

definition doc_loaded :: "Runtime \<Rightarrow> int \<Rightarrow> string \<Rightarrow> nat \<Rightarrow> PlayerDoc option \<Rightarrow> Runtime" where
  "doc_loaded rt uid gatewayNodeID reply found =
     (let doc = (case found of None \<Rightarrow> NewPlayerDoc uid | Some d \<Rightarrow> d) in
      case buildPlayer uid doc of
        Inl e \<Rightarrow> rt\<lparr>lr_panicked := True\<rparr>
      | Inr p \<Rightarrow>
          let pp = length (lr_heap rt);
              rt1 = rt\<lparr>lr_heap := lr_heap rt @ [attachMail p (lr_mailStore rt)], lr_players := mput uid pp (lr_players rt)\<rparr>;
              rt2 = emit rt1 (PublishedLoaded uid)
          in replayOffline rt2 uid pp (AfterLogin uid gatewayNodeID reply pp))"

definition Disconnect :: "Runtime \<Rightarrow> int \<Rightarrow> Runtime" where
  "Disconnect rt uid =
     (case map_of (lr_players rt) uid of
        None \<Rightarrow> emit rt (UnregisteredOnline uid)
      | Some pp \<Rightarrow>
          let inGame = (pl_roomAffinity (lr_heap rt ! pp) \<noteq> None);
              rt1 = flushPlayer rt uid pp (FlushDisconnect uid)
          in if \<not> inGame then emit rt1 (UnregisteredOnline uid) else rt1)"

section \<open>Mail, matches, settlement\<close>

definition grant_one :: "int \<Rightarrow> nat \<Rightarrow> string \<Rightarrow> Runtime \<Rightarrow> nat \<times> Attachment \<Rightarrow> Runtime" where
  "grant_one uid pp opID rt ia =
     (case ia of
        (i, a) \<Rightarrow>
          let aOpID = (if opID \<noteq> [] then opID @ '':'' @ dec_nat i else opID) in
          if at_Kind a = ''item''
          then with_bag rt pp (\<lambda>b. fst (Bag_Add b aOpID (wrap_s32 (at_ID a)) (wrap_s32 (at_Count a))))
          else emit (with_currency rt pp (\<lambda>c. fst (Gain c aOpID (at_Kind a) (at_Count a)))) (PublishedCurrency uid (at_Kind a) (at_Count a)))"

definition grantAttachments :: "Runtime \<Rightarrow> int \<Rightarrow> nat \<Rightarrow> string \<Rightarrow> Attachment list \<Rightarrow> Runtime" where
  "grantAttachments rt uid pp opID atts = foldl (grant_one uid pp opID) rt (enumerate 0 atts)"

text \<open>The callback of the friend scan; every accepted request is claimed.\<close>

definition accept_one :: "int \<Rightarrow> nat \<Rightarrow> Runtime \<times> bool \<Rightarrow> MailDoc \<Rightarrow> Runtime \<times> bool" where
  "accept_one uid pp st m =
     (case st of
        (rt, changed) \<Rightarrow>
          (case Player_Friend (lr_heap rt ! pp) of
             None \<Rightarrow> (rt\<lparr>lr_panicked := True\<rparr>, changed)
           | Some f \<Rightarrow>
               (case Friend_Add f (md_From m) of
                  (f1, added) \<Rightarrow>
                    (issue (upd_player rt pp (put_component (FriendComponent f1))) (ClaimMail (md_ID m) uid), changed \<or> added))))"

definition friends_found :: "Runtime \<Rightarrow> int \<Rightarrow> nat \<Rightarrow> MailDoc list \<Rightarrow> Runtime" where
  "friends_found rt uid pp mails =
     (case foldl (accept_one uid pp) (rt, False) mails of
        (rt1, changed) \<Rightarrow> if changed then FlushSoon rt1 uid else rt1)"

definition Runtime_Touch :: "Runtime \<Rightarrow> int \<Rightarrow> int \<Rightarrow> Runtime" where
  "Runtime_Touch rt now uid =
     (case map_of (lr_players rt) uid of
        None \<Rightarrow> rt
      | Some pp \<Rightarrow>
          let last = pl_lastTouch (lr_heap rt ! pp) in
          if last \<noteq> 0 \<and> wrap_s64 (now - last) < touchThrottle then rt
          else emit (upd_player rt pp (\<lambda>p. p\<lparr>pl_lastTouch := now\<rparr>)) (TouchedOnline uid))"

definition StartMatch :: "Runtime \<Rightarrow> int \<Rightarrow> int \<Rightarrow> Runtime" where
  "StartMatch rt uid mmr =
     (let s = wrap_s64 (lr_reqSeq rt + 1)
      in emit (rt\<lparr>lr_reqSeq := s\<rparr>)
           (PublishedMatch \<lparr>mr_UID = uid, mr_ReqID = lr_nodeID rt @ ''-'' @ dec_int uid @ ''-'' @ dec_int s, mr_MMR = mmr,
              mr_LobbyNodeID = lr_nodeID rt\<rparr>))"

definition Runtime_BindRoom :: "Runtime \<Rightarrow> int \<Rightarrow> string \<Rightarrow> string \<Rightarrow> Runtime" where
  "Runtime_BindRoom rt uid roomNodeID gameID =
     (let rt1 = emit rt (BoundRoom uid roomNodeID gameID) in
      case map_of (lr_players rt1) uid of
        None \<Rightarrow> rt1
      | Some pp \<Rightarrow> upd_player rt1 pp (\<lambda>p. SetRoomAffinity p roomNodeID gameID []))"

definition settle_answer :: "Runtime \<Rightarrow> nat option \<Rightarrow> int \<Rightarrow> Runtime" where
  "settle_answer rt dn code = (case dn of None \<Rightarrow> rt | Some n \<Rightarrow> emit rt (SettleAnswered n code))"

definition offlinePush :: "Runtime \<Rightarrow> int \<Rightarrow> OfflineMsg \<Rightarrow> nat option \<Rightarrow> Runtime" where
  "offlinePush rt uid msg dn = (if \<not> lr_offlineStore rt then settle_answer rt dn 1 else issue rt (PushOffline uid msg dn))"

definition settle_end :: "Runtime \<Rightarrow> int \<Rightarrow> nat \<Rightarrow> nat option \<Rightarrow> Runtime" where
  "settle_end rt uid pp dn = settle_answer (FlushSoon (unbindRoom (upd_player rt pp ClearRoomAffinity) uid) uid) dn 0"

definition Settle :: "Runtime \<Rightarrow> int \<Rightarrow> string \<Rightarrow> int \<Rightarrow> int \<Rightarrow> string \<Rightarrow> int \<Rightarrow> nat option \<Rightarrow> Runtime" where
  "Settle rt uid gameID winner price currency itemID dn =
     (case map_of (lr_players rt) uid of
        None \<Rightarrow> offlinePush rt uid \<lparr>om_Type = OfflineMsgSettle, om_OpID = gameID, om_Price = price, om_Currency = currency, om_ItemID = itemID\<rparr> dn
      | Some pp \<Rightarrow>
          if winner = uid then
            (case Player_Currency (lr_heap rt ! pp) of
               None \<Rightarrow> rt\<lparr>lr_panicked := True\<rparr>
             | Some c \<Rightarrow>
                 (case Spend c (gameID @ '':settle'') currency price of
                    (c1, bal, ok) \<Rightarrow>
                      let rt1 = upd_player rt pp (put_component (CurrencyComponent c1)) in
                      if \<not> ok then settle_answer rt1 dn 1
                      else
                        let rt2 = with_bag rt1 pp (\<lambda>b. fst (Bag_Add b (gameID @ '':item'') itemID 1));
                            rt3 = emit rt2 (PublishedCurrency uid currency (wrap_s64 (- price)))
                        in settle_end rt3 uid pp dn))
          else settle_end rt uid pp dn)"

section \<open>The main loop\<close>

text \<open>
  One callback of a store request. Each request has an error result and a successful one with
  its value; every other result counts as success without a value.
\<close>

fun io_callback :: "Runtime \<Rightarrow> io \<Rightarrow> io_result \<Rightarrow> Runtime" where
  "io_callback rt (LoadDoc uid gw reply) (IoErr e) = emit rt (Replied reply (Inl e))"
| "io_callback rt (LoadDoc uid gw reply) (DocFound doc) = doc_loaded rt uid gw reply (Some doc)"
| "io_callback rt (LoadDoc uid gw reply) res = doc_loaded rt uid gw reply None"
| "io_callback rt (FlushFields uid pp fs names fa) (IoErr e) = flush_done rt pp names fa False"
| "io_callback rt (FlushFields uid pp fs names fa) res = flush_done rt pp names fa True"
| "io_callback rt (LoadOffline uid pp a) (Messages msgs) = replay_messages rt uid pp msgs a"
| "io_callback rt (LoadOffline uid pp a) (IoErr e) = run_after rt a"
| "io_callback rt (LoadOffline uid pp a) res = replay_messages rt uid pp [] a"
| "io_callback rt (AckOffline uid ids a) res = run_after rt a"
| "io_callback rt (PushOffline uid msg dn) (IoErr e) = settle_answer rt dn 1"
| "io_callback rt (PushOffline uid msg dn) res = settle_answer rt dn 0"
| "io_callback rt (PendingFriendAccepts uid pp) (Mails ms) = friends_found rt uid pp ms"
| "io_callback rt (PendingFriendAccepts uid pp) res = rt"
| "io_callback rt (ClaimMail i uid) res = rt"

datatype lobby_event =
    EvLogin int string
  | EvDisconnect int
  | EvTouch int int
  | EvStartMatch int int
  | EvBindRoom int string string
  | EvSettle int string int int string int "nat option"
  | EvGrant int string "Attachment list"
  | EvFlushAll
  | EvCoalesce
  | EvIo nat io_result

fun lobby_step :: "Runtime \<Rightarrow> lobby_event \<Rightarrow> Runtime" where
  "lobby_step rt (EvLogin uid gw) = Login (rt\<lparr>lr_nextReply := Suc (lr_nextReply rt)\<rparr>) uid gw (lr_nextReply rt)"
| "lobby_step rt (EvDisconnect uid) = Disconnect rt uid"
| "lobby_step rt (EvTouch now uid) = Runtime_Touch rt now uid"
| "lobby_step rt (EvStartMatch uid mmr) = StartMatch rt uid mmr"
| "lobby_step rt (EvBindRoom uid r g) = Runtime_BindRoom rt uid r g"
| "lobby_step rt (EvSettle uid g w price cur item dn) = Settle rt uid g w price cur item dn"
| "lobby_step rt (EvGrant uid opID atts) =
     (case map_of (lr_players rt) uid of None \<Rightarrow> rt | Some pp \<Rightarrow> grantAttachments rt uid pp opID atts)"
| "lobby_step rt EvFlushAll = flushAllDirty rt"
| "lobby_step rt EvCoalesce = coalesceFlush rt"
| "lobby_step rt (EvIo k res) =
     (case map_of (lr_io rt) k of
        None \<Rightarrow> rt
      | Some q \<Rightarrow> io_callback (rt\<lparr>lr_io := mdel k (lr_io rt)\<rparr>) q res)"


section \<open>Replies and open requests\<close>

fun after_replies :: "after \<Rightarrow> nat list" where
  "after_replies AfterNone = []"
| "after_replies (AfterLogin uid gw n pp) = [n]"

fun flush_replies :: "flush_after \<Rightarrow> nat list" where
  "flush_replies (FlushReplay uid ids a) = after_replies a"
| "flush_replies fa = []"

fun io_replies :: "io \<Rightarrow> nat list" where
  "io_replies (LoadDoc uid gw n) = [n]"
| "io_replies (FlushFields uid pp fs names fa) = flush_replies fa"
| "io_replies (LoadOffline uid pp a) = after_replies a"
| "io_replies (AckOffline uid ids a) = after_replies a"
| "io_replies q = []"

fun effect_replies :: "effect \<Rightarrow> nat list" where
  "effect_replies (Replied n r) = [n]"
| "effect_replies e = []"

fun is_flush :: "io \<Rightarrow> bool" where
  "is_flush (FlushFields uid pp fs names fa) = True"
| "is_flush q = False"

text \<open>The replies given and the open requests that will give one.\<close>

definition replies :: "Runtime \<Rightarrow> nat multiset" where
  "replies rt = mset (concat (map effect_replies (lr_log rt))) + mset (concat (map (\<lambda>kq. io_replies (snd kq)) (lr_io rt)))"

definition open_flushes :: "Runtime \<Rightarrow> nat" where
  "open_flushes rt = length (filter (\<lambda>kq. is_flush (snd kq)) (lr_io rt))"

fun after_valid :: "nat \<Rightarrow> after \<Rightarrow> bool" where
  "after_valid n AfterNone = True"
| "after_valid n (AfterLogin uid gw r pp) = (pp < n)"

fun flush_valid :: "nat \<Rightarrow> flush_after \<Rightarrow> bool" where
  "flush_valid n (FlushReplay uid ids a) = after_valid n a"
| "flush_valid n fa = True"

fun io_valid :: "nat \<Rightarrow> io \<Rightarrow> bool" where
  "io_valid n (FlushFields uid pp fs names fa) = (pp < n \<and> flush_valid n fa \<and> set (mkeys fs) \<subseteq> set names)"
| "io_valid n (LoadOffline uid pp a) = (pp < n \<and> after_valid n a)"
| "io_valid n (AckOffline uid ids a) = after_valid n a"
| "io_valid n (PendingFriendAccepts uid pp) = (pp < n)"
| "io_valid n q = True"

text \<open>
  The invariant while the running callback still owes the replies \<open>M\<close> and \<open>d\<close> saves are counted
  that are no longer open.
\<close>

definition rt_ok :: "Runtime \<Rightarrow> nat multiset \<Rightarrow> int \<Rightarrow> bool" where
  "rt_ok rt M d \<longleftrightarrow> wf_map (lr_io rt) \<and> (\<forall>kq \<in> set (lr_io rt). fst kq < lr_nextIo rt \<and> io_valid (length (lr_heap rt)) (snd kq)) \<and>
     lr_inflight rt = int (open_flushes rt) + d \<and> replies rt + M = mset [0..<lr_nextReply rt] \<and> \<not> lr_panicked rt \<and>
     (\<forall>p \<in> set (lr_heap rt). player_ok p) \<and> (\<forall>up \<in> set (lr_players rt). snd up < length (lr_heap rt))"

lemma rt_okI:
  assumes "rt_ok rt M d" and "lr_io rt' = lr_io rt" and "lr_nextIo rt' = lr_nextIo rt" and "lr_inflight rt' = lr_inflight rt"
    and "mset (concat (map effect_replies (lr_log rt'))) + M' = mset (concat (map effect_replies (lr_log rt))) + M"
    and "lr_nextReply rt' = lr_nextReply rt" and "lr_panicked rt' = lr_panicked rt" and "length (lr_heap rt') = length (lr_heap rt)"
    and "\<forall>p \<in> set (lr_heap rt'). player_ok p" and "\<forall>up \<in> set (lr_players rt'). snd up < length (lr_heap rt')"
  shows "rt_ok rt' M' d"
proof -
  have "replies rt' + M' = replies rt + M" using assms(2,5) by (simp add: replies_def ac_simps)
  with assms show ?thesis by (simp add: rt_ok_def open_flushes_def)
qed

lemma rt_ok_emit: "rt_ok rt (mset (effect_replies e) + M) d \<Longrightarrow> rt_ok (emit rt e) M d"
  by (rule rt_okI) (auto simp: emit_def rt_ok_def ac_simps)

lemma rt_ok_emit_silent: "effect_replies e = [] \<Longrightarrow> rt_ok rt M d \<Longrightarrow> rt_ok (emit rt e) M d"
  by (rule rt_ok_emit) simp

lemma rt_ok_issue:
  assumes "rt_ok rt (mset (io_replies q) + M) (d + (if is_flush q then 1 else 0))" and "io_valid (length (lr_heap rt)) q"
  shows "rt_ok (issue rt q) M d"
proof -
  have "lr_nextIo rt \<notin> set (map fst (lr_io rt))" using assms(1) by (auto simp: rt_ok_def)
  then have "wf_map (lr_io rt @ [(lr_nextIo rt, q)])" using assms(1) by (simp add: rt_ok_def wf_map_def mkeys_def)
  with assms show ?thesis
    by (auto simp: rt_ok_def issue_def replies_def open_flushes_def ac_simps less_Suc_eq split: if_splits)
qed

lemma rt_ok_upd:
  assumes "rt_ok rt M d" and "\<And>p. player_ok p \<Longrightarrow> player_ok (f p)"
  shows "rt_ok (upd_player rt pp f) M d"
proof (cases "pp < length (lr_heap rt)")
  case True
  have "player_ok (f (lr_heap rt ! pp))" using assms True by (simp add: rt_ok_def)
  with assms(1) show ?thesis
    by (intro rt_okI [OF assms(1)]) (auto simp: upd_player_def rt_ok_def dest!: set_update_subset_insert [THEN subsetD])
next
  case False
  then show ?thesis using assms(1) by (simp add: upd_player_def list_update_beyond)
qed

lemma player_ok_put: "player_ok p \<Longrightarrow> player_ok (put_component c p)"
proof -
  assume "player_ok p"
  then obtain b c0 f r where cs: "pl_components p = [BagComponentName \<mapsto> BagComponent b, CurrencyComponentName \<mapsto> CurrencyComponent c0,
        FriendComponentName \<mapsto> FriendComponent f, RatingComponentName \<mapsto> RatingComponent r]"
    and o: "pl_order p = [BagComponentName, CurrencyComponentName, FriendComponentName, RatingComponentName]" by (auto simp: player_ok_def)
  have "\<exists>b c0 f r. (pl_components p)(Component_Name c \<mapsto> c) = [BagComponentName \<mapsto> BagComponent b, CurrencyComponentName \<mapsto> CurrencyComponent c0,
        FriendComponentName \<mapsto> FriendComponent f, RatingComponentName \<mapsto> RatingComponent r]"
  proof (cases c)
    case (BagComponent x)
    then have "(pl_components p)(Component_Name c \<mapsto> c) = [BagComponentName \<mapsto> BagComponent x, CurrencyComponentName \<mapsto> CurrencyComponent c0,
        FriendComponentName \<mapsto> FriendComponent f, RatingComponentName \<mapsto> RatingComponent r]" by (simp add: cs fun_eq_iff component_names)
    then show ?thesis by blast
  next
    case (CurrencyComponent x)
    then have "(pl_components p)(Component_Name c \<mapsto> c) = [BagComponentName \<mapsto> BagComponent b, CurrencyComponentName \<mapsto> CurrencyComponent x,
        FriendComponentName \<mapsto> FriendComponent f, RatingComponentName \<mapsto> RatingComponent r]" by (simp add: cs fun_eq_iff component_names)
    then show ?thesis by blast
  next
    case (FriendComponent x)
    then have "(pl_components p)(Component_Name c \<mapsto> c) = [BagComponentName \<mapsto> BagComponent b, CurrencyComponentName \<mapsto> CurrencyComponent c0,
        FriendComponentName \<mapsto> FriendComponent x, RatingComponentName \<mapsto> RatingComponent r]" by (simp add: cs fun_eq_iff component_names)
    then show ?thesis by blast
  next
    case (RatingComponent x)
    then have "(pl_components p)(Component_Name c \<mapsto> c) = [BagComponentName \<mapsto> BagComponent b, CurrencyComponentName \<mapsto> CurrencyComponent c0,
        FriendComponentName \<mapsto> FriendComponent f, RatingComponentName \<mapsto> RatingComponent x]" by (simp add: cs fun_eq_iff component_names)
    then show ?thesis by blast
  qed
  with o show ?thesis by (simp add: player_ok_def put_component_def)
qed


lemma player_ok_more [simp]:
  "player_ok (p\<lparr>pl_lastTouch := t\<rparr>) = player_ok p" "player_ok (SetRoomAffinity p r g k) = player_ok p"
  "player_ok (ClearRoomAffinity p) = player_ok p" "player_ok (attachMail p b) = player_ok p"
  by (simp_all add: player_ok_def SetRoomAffinity_def ClearRoomAffinity_def attachMail_def)

lemma player_ok_clear: "player_ok p \<Longrightarrow> player_ok (foldl (\<lambda>p c. put_component (ClearDirty c) p) p cs)"
  by (induction cs arbitrary: p) (simp_all add: player_ok_put)

lemma player_ok_mark: "player_ok p \<Longrightarrow> player_ok (mark_dirty names p)"
proof -
  have "player_ok q \<Longrightarrow> player_ok (foldl (\<lambda>p n. case pl_components p n of None \<Rightarrow> p | Some c \<Rightarrow> put_component (MarkDirty c) p) q names)" for q
    by (induction names arbitrary: q) (simp_all add: player_ok_put split: option.splits)
  then show "player_ok p \<Longrightarrow> ?thesis" by (simp add: mark_dirty_def)
qed

lemma rt_ok_with_currency: "rt_ok rt M d \<Longrightarrow> pp < length (lr_heap rt) \<Longrightarrow> rt_ok (with_currency rt pp f) M d"
proof -
  assume ok: "rt_ok rt M d" and pp: "pp < length (lr_heap rt)"
  then have "player_ok (lr_heap rt ! pp)" by (simp add: rt_ok_def)
  then obtain c where "Player_Currency (lr_heap rt ! pp) = Some c" by (rule player_okE)
  with ok show ?thesis by (simp add: with_currency_def rt_ok_upd player_ok_put)
qed

lemma rt_ok_with_bag: "rt_ok rt M d \<Longrightarrow> pp < length (lr_heap rt) \<Longrightarrow> rt_ok (with_bag rt pp f) M d"
proof -
  assume ok: "rt_ok rt M d" and pp: "pp < length (lr_heap rt)"
  then have "player_ok (lr_heap rt ! pp)" by (simp add: rt_ok_def)
  then obtain b where "Player_Bag (lr_heap rt ! pp) = Some b" by (rule player_okE)
  with ok show ?thesis by (simp add: with_bag_def rt_ok_upd player_ok_put)
qed

lemma heap_frame [simp]:
  "length (lr_heap (emit rt e)) = length (lr_heap rt)" "length (lr_heap (issue rt q)) = length (lr_heap rt)"
  "length (lr_heap (upd_player rt pp f)) = length (lr_heap rt)" "length (lr_heap (with_currency rt pp g)) = length (lr_heap rt)"
  "length (lr_heap (with_bag rt pp h)) = length (lr_heap rt)" "length (lr_heap (tryReconnect rt uid)) = length (lr_heap rt)"
  "length (lr_heap (FlushSoon rt uid)) = length (lr_heap rt)"
  by (simp_all add: emit_def issue_def upd_player_def with_currency_def with_bag_def tryReconnect_def unbindRoom_def FlushSoon_def Let_def
      split: option.splits prod.splits)

lemma heap_frame_scan [simp]: "length (lr_heap (scanFriendAccepts rt uid pp)) = length (lr_heap rt)"
  by (simp add: scanFriendAccepts_def)

lemma heap_frame_after [simp]: "length (lr_heap (run_after rt a)) = length (lr_heap rt)"
  by (cases a) simp_all

lemma heap_frame_flush_after [simp]: "length (lr_heap (run_flush_after rt fa ok)) = length (lr_heap rt)"
  by (cases fa) simp_all

lemma heap_frame_flush [simp]: "length (lr_heap (flushPlayer rt uid pp fa)) = length (lr_heap rt)"
  by (simp add: flushPlayer_def Let_def)

lemma heap_frame_msg [simp]: "length (lr_heap (applyOfflineMsg rt uid pp m)) = length (lr_heap rt)"
  by (simp add: applyOfflineMsg_def Let_def)

lemma heap_frame_grant [simp]: "length (lr_heap (grant_one uid pp x rt ia)) = length (lr_heap rt)"
  by (simp add: grant_one_def Let_def split: prod.splits)

lemma rt_ok_tryReconnect: "rt_ok rt M d \<Longrightarrow> rt_ok (tryReconnect rt uid) M d"
  by (auto simp: tryReconnect_def unbindRoom_def Let_def intro!: rt_ok_emit_silent rt_ok_upd split: prod.splits option.splits)

lemma rt_ok_scan: "rt_ok rt M d \<Longrightarrow> pp < length (lr_heap rt) \<Longrightarrow> rt_ok (scanFriendAccepts rt uid pp) M d"
  by (auto simp: scanFriendAccepts_def intro!: rt_ok_issue)

lemma rt_ok_after: "rt_ok rt (mset (after_replies a) + M) d \<Longrightarrow> after_valid (length (lr_heap rt)) a \<Longrightarrow> rt_ok (run_after rt a) M d"
  by (cases a) (auto intro!: rt_ok_scan rt_ok_tryReconnect rt_ok_emit)

lemma rt_ok_players: "rt_ok rt M d \<Longrightarrow> rt_ok (rt\<lparr>lr_players := mdel uid (lr_players rt)\<rparr>) M d"
  by (rule rt_okI) (auto simp: rt_ok_def)

lemma rt_ok_flush_after:
  "rt_ok rt (mset (flush_replies fa) + M) d \<Longrightarrow> flush_valid (length (lr_heap rt)) fa \<Longrightarrow> rt_ok (run_flush_after rt fa ok) M d"
  by (cases fa) (auto intro!: rt_ok_players rt_ok_after rt_ok_issue)

lemma Field_Name [simp]: "Component_Field c = Component_Name c"
  by (cases c) (simp_all add: component_names field_names)

lemma field_keys: "set (mkeys (foldl (\<lambda>m c. mput (Component_Field c) (Component_Snapshot c) m) m0 cs)) = set (mkeys m0) \<union> set (map Component_Name cs)"
  by (induction cs arbitrary: m0) (auto simp: set_mkeys dom_def)

lemma rt_ok_flush:
  assumes "rt_ok rt (mset (flush_replies fa) + M) d" and "flush_valid (length (lr_heap rt)) fa" and "pp < length (lr_heap rt)"
  shows "rt_ok (flushPlayer rt uid pp fa) M d"
proof (cases "lr_store rt")
  case True
  let ?rt = "upd_player rt pp (\<lambda>p. foldl (\<lambda>p c. put_component (ClearDirty c) p) p (dirty_components (lr_heap rt ! pp)))"
  have ok: "rt_ok ?rt (mset (flush_replies fa) + M) d" using assms(1) by (rule rt_ok_upd) (rule player_ok_clear)
  then have ok1: "rt_ok (?rt\<lparr>lr_inflight := lr_inflight ?rt + 1\<rparr>) (mset (flush_replies fa) + M) (d + 1)"
    by (simp add: rt_ok_def replies_def open_flushes_def)
  have "rt_ok (issue (?rt\<lparr>lr_inflight := lr_inflight ?rt + 1\<rparr>) (FlushFields uid pp fs ns fa)) M d" if "set (mkeys fs) \<subseteq> set ns" for fs ns
    using ok1 assms(2,3) that by (intro rt_ok_issue) simp_all
  from this [of "foldl (\<lambda>m c. mput (Component_Field c) (Component_Snapshot c) m) [] (dirty_components (lr_heap rt ! pp))"
      "map Component_Name (dirty_components (lr_heap rt ! pp))"]
  have "rt_ok (issue (?rt\<lparr>lr_inflight := lr_inflight ?rt + 1\<rparr>) (FlushFields uid pp
      (foldl (\<lambda>m c. mput (Component_Field c) (Component_Snapshot c) m) [] (dirty_components (lr_heap rt ! pp)))
      (map Component_Name (dirty_components (lr_heap rt ! pp))) fa)) M d"
    using field_keys [of "[]" "dirty_components (lr_heap rt ! pp)"] by (simp add: mkeys_def)
  with ok assms True show ?thesis by (simp add: flushPlayer_def Let_def rt_ok_flush_after)
qed (use assms in \<open>simp add: flushPlayer_def rt_ok_flush_after\<close>)

lemma rt_ok_flush_done:
  assumes "rt_ok rt (mset (flush_replies fa) + M) (d + 1)" and "flush_valid (length (lr_heap rt)) fa"
  shows "rt_ok (flush_done rt pp names fa ok) M d"
proof -
  let ?rt = "if ok then rt else upd_player rt pp (mark_dirty names)"
  have "rt_ok ?rt (mset (flush_replies fa) + M) (d + 1)" using assms(1) by (auto intro!: rt_ok_upd player_ok_mark)
  then have "rt_ok (run_flush_after ?rt fa ok) M (d + 1)" using assms(2) by (intro rt_ok_flush_after) simp_all
  then show ?thesis unfolding flush_done_def Let_def by (auto simp: rt_ok_def replies_def open_flushes_def split del: if_split)
qed

lemma rt_ok_foldl:
  assumes "rt_ok rt M d" and "pp < length (lr_heap rt)"
    and "\<And>rt x. rt_ok rt M d \<Longrightarrow> pp < length (lr_heap rt) \<Longrightarrow> rt_ok (f rt x) M d \<and> length (lr_heap (f rt x)) = length (lr_heap rt)"
  shows "rt_ok (foldl f rt xs) M d \<and> length (lr_heap (foldl f rt xs)) = length (lr_heap rt)"
  using assms(1,2)
proof (induction xs arbitrary: rt)
  case (Cons x xs)
  with assms(3) [OF Cons.prems, of x] Cons.IH [of "f rt x"] show ?case by auto
qed simp

lemma rt_ok_msg: "rt_ok rt M d \<Longrightarrow> pp < length (lr_heap rt) \<Longrightarrow> rt_ok (applyOfflineMsg rt uid pp m) M d"
  by (auto simp: applyOfflineMsg_def Let_def intro!: rt_ok_emit_silent rt_ok_with_bag rt_ok_with_currency)

lemma rt_ok_grant: "rt_ok rt M d \<Longrightarrow> pp < length (lr_heap rt) \<Longrightarrow> rt_ok (grantAttachments rt uid pp x atts) M d"
  unfolding grantAttachments_def
  by (rule rt_ok_foldl [THEN conjunct1])
    (auto simp: grant_one_def Let_def intro!: rt_ok_emit_silent rt_ok_with_bag rt_ok_with_currency split: prod.splits)

lemma rt_ok_replay:
  assumes "rt_ok rt (mset (after_replies a) + M) d" and "after_valid (length (lr_heap rt)) a" and "pp < length (lr_heap rt)"
  shows "rt_ok (replay_messages rt uid pp msgs a) M d"
proof -
  let ?rt = "foldl (\<lambda>rt m. applyOfflineMsg rt uid pp m) rt msgs"
  have "rt_ok ?rt (mset (after_replies a) + M) d \<and> length (lr_heap ?rt) = length (lr_heap rt)"
    by (rule rt_ok_foldl) (use assms in \<open>auto intro: rt_ok_msg\<close>)
  with assms show ?thesis by (simp add: replay_messages_def Let_def rt_ok_after rt_ok_flush)
qed


lemma rt_ok_FlushSoon: "rt_ok rt M d \<Longrightarrow> rt_ok (FlushSoon rt uid) M d"
  by (rule rt_okI) (auto simp: FlushSoon_def rt_ok_def)

lemma rt_ok_friends:
  assumes "rt_ok rt M d" and "pp < length (lr_heap rt)"
  shows "rt_ok (friends_found rt uid pp ms) M d"
proof -
  have "rt_ok (fst (foldl (accept_one uid pp) st ms)) M d" if "rt_ok (fst st) M d" "pp < length (lr_heap (fst st))" for st
    using that
  proof (induction ms arbitrary: st)
    case (Cons m ms)
    obtain rt0 ch where st: "st = (rt0, ch)" by (cases st)
    with Cons.prems have "player_ok (lr_heap rt0 ! pp)" by (simp add: rt_ok_def)
    then obtain f where f: "Player_Friend (lr_heap rt0 ! pp) = Some f" by (rule player_okE)
    obtain f1 ad where fa: "Friend_Add f (md_From m) = (f1, ad)" by fastforce
    have "rt_ok (issue (upd_player rt0 pp (put_component (FriendComponent f1))) (ClaimMail (md_ID m) uid)) M d"
      by (rule rt_ok_issue) (use Cons.prems st in \<open>auto intro!: rt_ok_upd player_ok_put\<close>)
    with Cons.IH [of "accept_one uid pp st m"] Cons.prems st f fa show ?case by (simp add: accept_one_def)
  qed simp
  from this [of "(rt, False)"] assms show ?thesis
    by (auto simp: friends_found_def intro!: rt_ok_FlushSoon split: prod.splits)
qed

lemma rt_ok_settle_answer: "rt_ok rt M d \<Longrightarrow> rt_ok (settle_answer rt dn code) M d"
  by (auto simp: settle_answer_def intro!: rt_ok_emit_silent split: option.splits)

lemma rt_ok_settle_end: "rt_ok rt M d \<Longrightarrow> rt_ok (settle_end rt uid pp dn) M d"
  by (auto simp: settle_end_def unbindRoom_def intro!: rt_ok_settle_answer rt_ok_FlushSoon rt_ok_emit_silent rt_ok_upd)

lemma players_valid: "rt_ok rt M d \<Longrightarrow> map_of (lr_players rt) uid = Some pp \<Longrightarrow> pp < length (lr_heap rt)"
  by (force simp: rt_ok_def dest: map_of_SomeD)

lemma rt_ok_settle:
  assumes ok: "rt_ok rt M d"
  shows "rt_ok (Settle rt uid g w price cur item dn) M d"
proof (cases "map_of (lr_players rt) uid")
  case None
  have "rt_ok (offlinePush rt uid m dn) M d" for m
    using ok by (auto simp: offlinePush_def intro!: rt_ok_settle_answer rt_ok_issue)
  with None show ?thesis by (simp add: Settle_def)
next
  case (Some pp)
  note pp = players_valid [OF ok Some]
  then have "player_ok (lr_heap rt ! pp)" using ok by (simp add: rt_ok_def)
  then obtain c where c: "Player_Currency (lr_heap rt ! pp) = Some c" by (rule player_okE)
  have "rt_ok (upd_player rt pp (put_component (CurrencyComponent c1))) M d" for c1 using ok by (rule rt_ok_upd) (rule player_ok_put)
  with ok pp Some c show ?thesis
    by (auto simp: Settle_def Let_def intro!: rt_ok_settle_answer rt_ok_settle_end rt_ok_emit_silent rt_ok_with_bag split: prod.splits)
qed

lemma rt_ok_disconnect: "rt_ok rt M d \<Longrightarrow> rt_ok (Disconnect rt uid) M d"
  by (auto simp: Disconnect_def Let_def intro!: rt_ok_emit_silent rt_ok_flush dest: players_valid split: option.splits)

lemma rt_ok_login: "rt_ok rt (add_mset n M) d \<Longrightarrow> rt_ok (Login rt uid gw n) M d"
  by (auto simp: Login_def intro!: rt_ok_emit rt_ok_issue)

lemma rt_ok_replayOffline:
  "rt_ok rt (mset (after_replies a) + M) d \<Longrightarrow> after_valid (length (lr_heap rt)) a \<Longrightarrow> pp < length (lr_heap rt) \<Longrightarrow>
    rt_ok (replayOffline rt uid pp a) M d"
  by (auto simp: replayOffline_def intro!: rt_ok_after rt_ok_issue)

lemma rt_ok_doc:
  assumes "rt_ok rt (add_mset n M) d"
  shows "rt_ok (doc_loaded rt uid gw n found) M d"
proof -
  let ?doc = "case found of None \<Rightarrow> NewPlayerDoc uid | Some x \<Rightarrow> x"
  obtain p where p: "buildPlayer uid ?doc = Inr p" by (simp add: buildPlayer_eq)
  let ?pp = "length (lr_heap rt)"
  let ?rt = "rt\<lparr>lr_heap := lr_heap rt @ [attachMail p (lr_mailStore rt)], lr_players := mput uid ?pp (lr_players rt)\<rparr>"
  have mono: "io_valid k q \<Longrightarrow> io_valid (Suc k) q" for k q
  proof -
    have a: "after_valid k a \<Longrightarrow> after_valid (Suc k) a" for a by (cases a) auto
    then have "flush_valid k fa \<Longrightarrow> flush_valid (Suc k) fa" for fa by (cases fa) auto
    with a show "io_valid k q \<Longrightarrow> io_valid (Suc k) q" by (cases q) auto
  qed
  have "rt_ok ?rt (add_mset n M) d"
    using assms player_ok_build [OF p] mono by (auto simp: rt_ok_def replies_def open_flushes_def mput_def less_Suc_eq)
  then have "rt_ok (emit ?rt (PublishedLoaded uid)) (add_mset n M) d" by (rule rt_ok_emit_silent [rotated]) simp
  then show ?thesis unfolding doc_loaded_def Let_def p sum.case
    by (intro rt_ok_replayOffline) simp_all
qed

lemma rt_ok_io:
  assumes "rt_ok rt (mset (io_replies q) + M) (d + (if is_flush q then 1 else 0))" and "io_valid (length (lr_heap rt)) q"
  shows "rt_ok (io_callback rt q res) M d"
  using assms
proof (induction rt q res rule: io_callback.induct)
  case (1 rt uid gw reply e)
  then show ?case by (auto intro!: rt_ok_emit)
qed (auto intro!: rt_ok_doc rt_ok_flush_done rt_ok_replay rt_ok_after rt_ok_settle_answer rt_ok_friends)

lemma rt_ok_take:
  assumes "rt_ok rt M d" and "map_of (lr_io rt) k = Some q"
  shows "rt_ok (rt\<lparr>lr_io := mdel k (lr_io rt)\<rparr>) (mset (io_replies q) + M) (d + (if is_flush q then 1 else 0)) \<and> io_valid (length (lr_heap rt)) q"
proof -
  obtain as bs where io: "lr_io rt = as @ (k, q) # bs" using map_of_SomeD [OF assms(2)] by (auto simp: in_set_conv_decomp)
  have "k \<notin> fst ` set as" "k \<notin> fst ` set bs" using assms(1) by (auto simp: rt_ok_def wf_map_def mkeys_def io)
  then have "filter (\<lambda>p. fst p \<noteq> k) as = as" "filter (\<lambda>p. fst p \<noteq> k) bs = bs" by (auto intro!: filter_True)
  then have del: "mdel k (lr_io rt) = as @ bs" unfolding io by (simp add: mdel_def)
  with assms(1) show ?thesis by (auto simp: rt_ok_def replies_def open_flushes_def io del wf_map_def mkeys_def ac_simps)
qed


lemma rt_ok_flush_all:
  assumes "rt_ok rt M d"
  shows "rt_ok (flushAllDirty rt) M d"
proof -
  have "rt_ok (foldl (\<lambda>rt (uid, pp). flushPlayer rt uid pp FlushIgnore) rt ps) M d" if "rt_ok rt M d" "\<forall>up \<in> set ps. snd up < length (lr_heap rt)" for rt ps
    using that
  proof (induction ps arbitrary: rt)
    case (Cons up ps)
    obtain u pp where "up = (u, pp)" by (cases up)
    with Cons rt_ok_flush [of rt FlushIgnore M d pp u] show ?case by simp
  qed simp
  moreover have "\<forall>up \<in> set (lr_players rt). snd up < length (lr_heap rt)" using assms by (simp add: rt_ok_def)
  ultimately show ?thesis unfolding flushAllDirty_def using assms by blast
qed

lemma rt_ok_coalesce:
  assumes "rt_ok rt M d"
  shows "rt_ok (coalesceFlush rt) M d"
proof -
  let ?f = "\<lambda>rt uid. let rt1 = (case map_of (lr_players rt) uid of None \<Rightarrow> rt | Some pp \<Rightarrow> flushPlayer rt uid pp FlushIgnore)
       in rt1\<lparr>lr_dirtyFlush := mdel uid (lr_dirtyFlush rt1)\<rparr>"
  have keep: "rt_ok rt M d \<Longrightarrow> rt_ok (rt\<lparr>lr_dirtyFlush := x\<rparr>) M d" for rt x by (rule rt_okI) (auto simp: rt_ok_def)
  have "rt_ok (?f rt uid) M d" if "rt_ok rt M d" for rt uid
    using that players_valid [OF that, of uid] rt_ok_flush [of rt FlushIgnore M d _ uid] by (auto simp: Let_def intro!: keep split: option.splits)
  then have "rt_ok (foldl ?f rt us) M d" if "rt_ok rt M d" for rt us using that by (induction us arbitrary: rt) simp_all
  with assms show ?thesis by (simp add: coalesceFlush_def)
qed

lemma rt_ok_step:
  assumes "rt_ok rt {#} 0"
  shows "rt_ok (lobby_step rt ev) {#} 0"
proof (cases ev)
  case (EvLogin uid gw)
  have "rt_ok (rt\<lparr>lr_nextReply := Suc (lr_nextReply rt)\<rparr>) (add_mset (lr_nextReply rt) {#}) 0"
    using assms by (simp add: rt_ok_def replies_def open_flushes_def)
  with EvLogin show ?thesis by (simp add: rt_ok_login)
next
  case (EvTouch now uid)
  with assms show ?thesis by (auto simp: Runtime_Touch_def Let_def intro!: rt_ok_emit_silent rt_ok_upd split: option.splits)
next
  case (EvStartMatch uid mmr)
  have "rt_ok (rt\<lparr>lr_reqSeq := x\<rparr>) {#} 0" for x by (rule rt_okI [OF assms]) (use assms in \<open>auto simp: rt_ok_def\<close>)
  with EvStartMatch show ?thesis by (auto simp: StartMatch_def Let_def intro!: rt_ok_emit_silent)
next
  case (EvBindRoom uid r g)
  with assms show ?thesis by (auto simp: Runtime_BindRoom_def Let_def intro!: rt_ok_emit_silent rt_ok_upd split: option.splits)
next
  case (EvGrant uid x atts)
  with assms show ?thesis by (auto intro!: rt_ok_grant dest: players_valid split: option.splits)
next
  case (EvIo k res)
  show ?thesis
  proof (cases "map_of (lr_io rt) k")
    case (Some q)
    from rt_ok_take [OF assms this] EvIo Some show ?thesis by (auto intro!: rt_ok_io)
  qed (use assms EvIo in simp)
qed (use assms in \<open>auto intro!: rt_ok_disconnect rt_ok_settle rt_ok_flush_all rt_ok_coalesce\<close>)

lemma rt_ok_run: "rt_ok rt {#} 0 \<Longrightarrow> rt_ok (foldl lobby_step rt evs) {#} 0"
  by (induction evs arbitrary: rt) (simp_all add: rt_ok_step)

lemma rt_ok_New: "rt_ok (NewRuntime cfg) {#} 0"
  by (simp add: rt_ok_def NewRuntime_def replies_def open_flushes_def)

text \<open>C7: Every login is answered exactly once. In every history of the lobby, with store requests that
  complete in any order and with any outcome, a login has been answered once or is waiting in
  exactly one open store request that will answer it; no other answer is given. The counter on
  which shutdown waits equals the number of saves that are still open, and no operation runs
  into a missing component.\<close>

theorem login_answered_once:
  assumes "rt = foldl lobby_step (NewRuntime cfg) evs"
  shows "mset (concat (map effect_replies (lr_log rt))) + mset (concat (map (\<lambda>kq. io_replies (snd kq)) (lr_io rt))) = mset [0..<lr_nextReply rt]
    \<and> lr_inflight rt = int (length (filter (\<lambda>kq. is_flush (snd kq)) (lr_io rt))) \<and> \<not> lr_panicked rt"
  using rt_ok_run [OF rt_ok_New, of cfg evs] by (simp add: assms rt_ok_def replies_def open_flushes_def)

text \<open>A node with a player store only, all sizes left to their defaults.\<close>

definition demo_node :: Runtime where
  "demo_node = NewRuntime \<lparr>rc_NodeID = ''lobby-1'', rc_Store = True, rc_MailStore = False, rc_OfflineStore = False,
     rc_QueueSize = 0, rc_Tick = 0, rc_FlushInterval = 0\<rparr>"

theorem login_answered_once_witness:
  "lr_inflight (foldl lobby_step demo_node [EvLogin 7 ''gate-1'', EvIo 0 DocMissing]) = 0"
  using login_answered_once [OF refl, of _ "[EvLogin 7 ''gate-1'', EvIo 0 DocMissing]"]
  by (simp add: demo_node_def NewRuntime_def Login_def issue_def doc_loaded_def buildPlayer_eq replayOffline_def Let_def emit_def tryReconnect_def
      queryOnlineNoop_def scanFriendAccepts_def mdel_def)


section \<open>No change is lost\<close>

text \<open>
  A save is compared in full or up to the ring of operation ids: an operation with amount zero is
  remembered without marking the component as changed, so its id reaches the store only with the
  next change. \<open>gift_counts\<close> says that a gift has a non-zero amount.
\<close>

fun content :: "snapshot_any \<Rightarrow> snapshot_any" where
  "content (BagSnapshot s) = BagSnapshot (s\<lparr>bs_Ops := []\<rparr>)"
| "content (CurrencySnapshot s) = CurrencySnapshot (s\<lparr>cs_Ops := []\<rparr>)"
| "content s = s"

definition gift_counts :: "Attachment \<Rightarrow> bool" where
  "gift_counts a = (if at_Kind a = ''item'' then wrap_s32 (at_Count a) \<noteq> 0 else at_Count a \<noteq> 0)"

fun gifts :: "lobby_event \<Rightarrow> Attachment list" where
  "gifts (EvGrant uid opID atts) = atts"
| "gifts ev = []"

text \<open>The newest open save of a field of a user.\<close>

fun flush_of :: "int \<Rightarrow> io \<Rightarrow> (string, snapshot_any) gomap" where
  "flush_of uid (FlushFields uid' pp fs names fa) = (if uid' = uid then fs else [])"
| "flush_of uid q = []"

fun newest :: "int \<Rightarrow> string \<Rightarrow> (nat \<times> io) list \<Rightarrow> snapshot_any option" where
  "newest uid fld [] = None"
| "newest uid fld (kq # qs) = (case newest uid fld qs of Some s \<Rightarrow> Some s | None \<Rightarrow> map_of (flush_of uid (snd kq)) fld)"

lemma newest_append: "newest uid fld (xs @ ys) = (case newest uid fld ys of Some s \<Rightarrow> Some s | None \<Rightarrow> newest uid fld xs)"
  by (induction xs) (auto split: option.splits)

lemma newest_none: "\<forall>kq \<in> set qs. map_of (flush_of uid (snd kq)) fld = None \<Longrightarrow> newest uid fld qs = None"
  by (induction qs) simp_all

text \<open>
  The collection of player documents: \<open>S uid fld\<close> is the field \<open>fld\<close> of the document of a user,
  whichever player object wrote it. \<open>store_doc\<close> is the document that a load decodes; a field that
  is absent has the zero value of its type. \<open>loaded\<close> is what a login makes of it.
\<close>

type_synonym document = "string \<Rightarrow> snapshot_any option"

type_synonym saved = "int \<Rightarrow> document"

definition store_doc :: "int \<Rightarrow> document \<Rightarrow> PlayerDoc" where
  "store_doc uid D =
     \<lparr>pd_ID = uid,
      pd_Bag = (case D BagField of Some (BagSnapshot s) \<Rightarrow> s | _ \<Rightarrow> \<lparr>bs_Items = [], bs_Ops = []\<rparr>),
      pd_Currency = (case D CurrencyField of Some (CurrencySnapshot s) \<Rightarrow> s | _ \<Rightarrow> \<lparr>cs_Balances = [], cs_Ops = []\<rparr>),
      pd_Friend = (case D FriendField of Some (FriendSnapshot s) \<Rightarrow> s | _ \<Rightarrow> \<lparr>fs_Friends = []\<rparr>),
      pd_Rating = (case D RatingField of Some (RatingSnapshot s) \<Rightarrow> s | _ \<Rightarrow> \<lparr>rs_MMR = 0\<rparr>)\<rparr>"

definition no_document :: "document \<Rightarrow> bool" where
  "no_document D \<longleftrightarrow> list_all (\<lambda>fld. D fld = None) [BagField, CurrencyField, FriendField, RatingField]"

definition loaded :: "int \<Rightarrow> document \<Rightarrow> document" where
  "loaded uid D n =
     (case buildPlayer uid (store_doc uid D) of
        Inl e \<Rightarrow> None
      | Inr p \<Rightarrow> map_option Component_Snapshot (pl_components p n))"

text \<open>A component is stored: its field holds its snapshot, or loading the document gives it.\<close>

definition stored :: "(snapshot_any \<Rightarrow> snapshot_any) \<Rightarrow> int \<Rightarrow> document \<Rightarrow> Component \<Rightarrow> bool" where
  "stored view uid D c \<longleftrightarrow> Some (view (Component_Snapshot c)) \<in>
     {map_option view (D (Component_Field c)), map_option view (loaded uid D (Component_Field c))}"

lemma loaded_eqs:
  "loaded uid D ''bag'' = Some (BagSnapshot (Bag_Snapshot (Bag_Load NewBag (pd_Bag (store_doc uid D)))))"
  "loaded uid D ''currency'' = Some (CurrencySnapshot (Currency_Snapshot (Currency_Load NewCurrency (pd_Currency (store_doc uid D)))))"
  "loaded uid D ''friend'' = Some (FriendSnapshot (Friend_Snapshot (Friend_Load NewFriend (pd_Friend (store_doc uid D)))))"
  "loaded uid D ''rating'' = Some (RatingSnapshot (Rating_Snapshot (Rating_Load NewRating (pd_Rating (store_doc uid D)))))"
  "fld \<notin> {''bag'', ''currency'', ''friend'', ''rating''} \<Longrightarrow> loaded uid D fld = None"
  by (simp_all add: loaded_def buildPlayer_eq component_names)

lemma loaded_field:
  assumes "D fld = D' fld"
  shows "loaded uid D fld = loaded uid D' fld"
proof -
  consider "fld = ''bag''" | "fld = ''currency''" | "fld = ''friend''" | "fld = ''rating''" | "fld \<notin> {''bag'', ''currency'', ''friend'', ''rating''}" by blast
  then show ?thesis by cases (use assms in \<open>simp_all add: loaded_eqs store_doc_def field_names\<close>)
qed

lemma build_no_document:
  assumes "no_document D"
  shows "buildPlayer uid (store_doc uid D) = buildPlayer uid (NewPlayerDoc uid)"
  using assms by (simp add: no_document_def store_doc_def buildPlayer_eq NewPlayerDoc_def NewBagState_def NewCurrencyState_def NewFriendState_def
      NewRatingState_def Rating_Load_def Bag_Load_def Currency_Load_def Friend_Load_def defaultMMR_def)

section \<open>The store along a history\<close>

text \<open>
  How an event changes the store. A save that is reported as failed may have been written all the
  same (a lost answer): \<open>written k\<close> says so of the save with number \<open>k\<close>.
\<close>

fun saved_after :: "(nat \<Rightarrow> bool) \<Rightarrow> Runtime \<Rightarrow> saved \<Rightarrow> lobby_event \<Rightarrow> saved" where
  "saved_after written rt S (EvIo k res) =
     (case map_of (lr_io rt) k of
        Some (FlushFields uid pp fs names fa) \<Rightarrow>
          if (case res of IoErr e \<Rightarrow> written k | _ \<Rightarrow> True) then S(uid := S uid ++ map_of fs) else S
      | _ \<Rightarrow> S)"
| "saved_after written rt S ev = S"

fun saved_run :: "(nat \<Rightarrow> bool) \<Rightarrow> Runtime \<Rightarrow> saved \<Rightarrow> lobby_event list \<Rightarrow> saved" where
  "saved_run written rt S [] = S"
| "saved_run written rt S (ev # evs) = saved_run written (lobby_step rt ev) (saved_after written rt S ev) evs"

text \<open>
  The histories. The saves of one user complete in the order in which they were started. A login
  loads what the store holds, and it does so for a user who has no player in the lobby and for
  whom no save and no replay of offline messages is under way.
\<close>

fun uses_player :: "int \<Rightarrow> io \<Rightarrow> bool" where
  "uses_player uid (FlushFields uid' pp fs names fa) = (uid' = uid)"
| "uses_player uid (LoadOffline uid' pp a) = (uid' = uid)"
| "uses_player uid q = False"

definition alone :: "Runtime \<Rightarrow> int \<Rightarrow> bool" where
  "alone rt uid \<longleftrightarrow> map_of (lr_players rt) uid = None \<and> list_all (\<lambda>kq. \<not> uses_player uid (snd kq)) (lr_io rt)"

definition in_order :: "Runtime \<Rightarrow> saved \<Rightarrow> lobby_event \<Rightarrow> bool" where
  "in_order rt S ev =
     (case ev of
        EvIo k res \<Rightarrow>
          (case map_of (lr_io rt) k of
             Some (FlushFields uid pp fs names fa) \<Rightarrow> list_all (\<lambda>kq. flush_of uid (snd kq) = []) (takeWhile (\<lambda>kq. fst kq \<noteq> k) (lr_io rt))
           | Some (LoadDoc uid gw n) \<Rightarrow>
               (case res of
                  IoErr e \<Rightarrow> True
                | DocFound doc \<Rightarrow> doc = store_doc uid (S uid) \<and> alone rt uid
                | _ \<Rightarrow> no_document (S uid) \<and> alone rt uid)
           | _ \<Rightarrow> True)
      | _ \<Rightarrow> True)"

fun orderly :: "(nat \<Rightarrow> bool) \<Rightarrow> Runtime \<Rightarrow> saved \<Rightarrow> lobby_event list \<Rightarrow> bool" where
  "orderly written rt S [] = True"
| "orderly written rt S (ev # evs) = (in_order rt S ev \<and> orderly written (lobby_step rt ev) (saved_after written rt S ev) evs)"

section \<open>The invariant\<close>

text \<open>
  The player object of a save or of a replay belongs to the user it is done for, and is the one in
  the lobby if there is one.
\<close>

definition owner :: "Runtime \<Rightarrow> int \<Rightarrow> nat \<Rightarrow> bool" where
  "owner rt uid pp \<longleftrightarrow> pl_uid (lr_heap rt ! pp) = uid \<and> (\<forall>pp'. map_of (lr_players rt) uid = Some pp' \<longrightarrow> pp' = pp)"

fun owned :: "Runtime \<Rightarrow> io \<Rightarrow> bool" where
  "owned rt (FlushFields uid pp fs names fa) = owner rt uid pp"
| "owned rt (LoadOffline uid pp a) = owner rt uid pp"
| "owned rt q = True"

definition linked :: "Runtime \<Rightarrow> bool" where
  "linked rt \<longleftrightarrow> wf_map (lr_players rt) \<and> (\<forall>uid pp. map_of (lr_players rt) uid = Some pp \<longrightarrow> pl_uid (lr_heap rt ! pp) = uid) \<and>
     (\<forall>kq \<in> set (lr_io rt). owned rt (snd kq))"

definition safe_component :: "(snapshot_any \<Rightarrow> snapshot_any) \<Rightarrow> Runtime \<Rightarrow> saved \<Rightarrow> int \<Rightarrow> Component \<Rightarrow> bool" where
  "safe_component view rt S uid c \<longleftrightarrow> Component_Dirty c \<or>
     (case newest uid (Component_Field c) (lr_io rt) of
        Some s \<Rightarrow> view s = view (Component_Snapshot c)
      | None \<Rightarrow> stored view uid (S uid) c)"

definition safe :: "(snapshot_any \<Rightarrow> snapshot_any) \<Rightarrow> Runtime \<Rightarrow> saved \<Rightarrow> bool" where
  "safe view rt S \<longleftrightarrow> linked rt \<and>
     (\<forall>uid pp n c. map_of (lr_players rt) uid = Some pp \<longrightarrow> pl_components (lr_heap rt ! pp) n = Some c \<longrightarrow> safe_component view rt S uid c)"

lemma safeI:
  assumes "linked rt"
    and "\<And>uid pp n c. map_of (lr_players rt) uid = Some pp \<Longrightarrow> pl_components (lr_heap rt ! pp) n = Some c \<Longrightarrow> safe_component view rt S uid c"
  shows "safe view rt S"
  using assms unfolding safe_def by blast

lemma safeD:
  assumes "safe view rt S"
  shows "linked rt"
    and "map_of (lr_players rt) uid = Some pp \<Longrightarrow> pl_components (lr_heap rt ! pp) n = Some c \<Longrightarrow> safe_component view rt S uid c"
  using assms unfolding safe_def by blast+

lemma owned_cong:
  assumes "lr_players rt' = lr_players rt" and "\<And>i. pl_uid (lr_heap rt' ! i) = pl_uid (lr_heap rt ! i)"
  shows "owner rt' uid pp = owner rt uid pp" and "owned rt' q = owned rt q"
proof -
  show o: "owner rt' uid pp = owner rt uid pp" for uid pp using assms by (simp add: owner_def)
  show "owned rt' q = owned rt q" by (cases q) (simp_all add: o)
qed

lemma linked_cong:
  assumes "lr_players rt' = lr_players rt" and "\<And>i. pl_uid (lr_heap rt' ! i) = pl_uid (lr_heap rt ! i)" and "lr_io rt' = lr_io rt"
  shows "linked rt' = linked rt"
  using assms owned_cong [OF assms(1,2)] by (simp add: linked_def)

text \<open>Live players of different users are different objects.\<close>

lemma owner_other:
  assumes "linked rt" and "owner rt uid pp" and "map_of (lr_players rt) uid' = Some pp'"
  shows "uid' = uid \<longleftrightarrow> pp' = pp"
  using assms by (auto simp: linked_def owner_def)

text \<open>A change of a component is marked, or it is none.\<close>

definition noted :: "(snapshot_any \<Rightarrow> snapshot_any) \<Rightarrow> Component \<Rightarrow> Component \<Rightarrow> bool" where
  "noted view c c' \<longleftrightarrow> Component_Field c' = Component_Field c \<and>
     (Component_Dirty c' \<or> \<not> Component_Dirty c \<and> view (Component_Snapshot c') = view (Component_Snapshot c))"

definition noted_player :: "(snapshot_any \<Rightarrow> snapshot_any) \<Rightarrow> Player \<Rightarrow> Player \<Rightarrow> bool" where
  "noted_player view p p' \<longleftrightarrow> pl_uid p' = pl_uid p \<and>
     (\<forall>n c'. pl_components p' n = Some c' \<longrightarrow> (\<exists>c. pl_components p n = Some c \<and> noted view c c'))"

lemma noted_refl [simp]: "noted view c c"
  by (simp add: noted_def)

lemma noted_player_refl [simp]: "noted_player view p p"
  by (auto simp: noted_player_def)

lemma safe_noted: "safe_component view rt S uid c \<Longrightarrow> noted view c c' \<Longrightarrow> safe_component view rt S uid c'"
  by (auto simp: safe_component_def stored_def noted_def split: option.splits)

lemma safe_io:
  assumes "safe view rt S" and "lr_heap rt' = lr_heap rt" and "lr_players rt' = lr_players rt"
    and "\<And>uid fld. newest uid fld (lr_io rt') = newest uid fld (lr_io rt)" and "\<forall>kq \<in> set (lr_io rt'). kq \<in> set (lr_io rt) \<or> owned rt (snd kq)"
  shows "safe view rt' S"
proof (rule safeI)
  show "linked rt'" using safeD(1) [OF assms(1)] assms(2,3,5) owned_cong(2) [of rt' rt] by (auto simp: linked_def)
  show "safe_component view rt' S uid c" if "map_of (lr_players rt') uid = Some pp" "pl_components (lr_heap rt' ! pp) n = Some c" for uid pp n c
    using safeD(2) [OF assms(1)] that assms(2-4) by (simp add: safe_component_def)
qed

lemma safe_same: "lr_heap rt' = lr_heap rt \<Longrightarrow> lr_io rt' = lr_io rt \<Longrightarrow> lr_players rt' = lr_players rt \<Longrightarrow> safe view rt S \<Longrightarrow> safe view rt' S"
  by (rule safe_io) auto

lemma safe_emit [simp]: "safe view (emit rt e) S = safe view rt S"
proof
  show "safe view (emit rt e) S \<Longrightarrow> safe view rt S" by (erule safe_same [rotated 3]) (simp_all add: emit_def)
  show "safe view rt S \<Longrightarrow> safe view (emit rt e) S" by (erule safe_same [rotated 3]) (simp_all add: emit_def)
qed

lemma flush_of_other: "\<not> is_flush q \<Longrightarrow> flush_of uid q = []"
  by (cases q) simp_all

lemma safe_issue: "safe view rt S \<Longrightarrow> \<not> is_flush q \<Longrightarrow> owned rt q \<Longrightarrow> safe view (issue rt q) S"
  by (rule safe_io) (auto simp: issue_def newest_append flush_of_other)

lemma safe_upd:
  assumes "safe view rt S" and "pp < length (lr_heap rt) \<Longrightarrow> noted_player view (lr_heap rt ! pp) (f (lr_heap rt ! pp))"
  shows "safe view (upd_player rt pp f) S"
proof (cases "pp < length (lr_heap rt)")
  case True
  note n = assms(2) [OF True]
  have uids: "pl_uid (lr_heap (upd_player rt pp f) ! i) = pl_uid (lr_heap rt ! i)" for i
    using n True by (cases "i = pp") (simp_all add: upd_player_def noted_player_def)
  show ?thesis
  proof (rule safeI)
    show "linked (upd_player rt pp f)" using safeD(1) [OF assms(1)] linked_cong [of "upd_player rt pp f" rt] uids by (simp add: upd_player_def)
    fix uid i m c assume i: "map_of (lr_players (upd_player rt pp f)) uid = Some i" and c: "pl_components (lr_heap (upd_player rt pp f) ! i) m = Some c"
    have sc: "safe_component view (upd_player rt pp f) S uid c = safe_component view rt S uid c" by (simp add: safe_component_def upd_player_def)
    have i: "map_of (lr_players rt) uid = Some i" using i by (simp add: upd_player_def)
    show "safe_component view (upd_player rt pp f) S uid c"
    proof (cases "i = pp")
      case eq: True
      with c True have "pl_components (f (lr_heap rt ! pp)) m = Some c" by (simp add: upd_player_def)
      with n obtain c0 where c0: "pl_components (lr_heap rt ! pp) m = Some c0" "noted view c0 c" by (auto simp: noted_player_def)
      with safeD(2) [OF assms(1) i] eq have "safe_component view rt S uid c0" by simp
      with safe_noted c0(2) show ?thesis unfolding sc by blast
    next
      case False
      with c safeD(2) [OF assms(1) i] show ?thesis unfolding sc by (simp add: upd_player_def)
    qed
  qed
next
  case False
  then show ?thesis using assms(1) by (simp add: upd_player_def list_update_beyond)
qed

lemma noted_put:
  assumes "pl_components p (Component_Name c') = Some c" and "noted view c c'"
  shows "noted_player view p (put_component c' p)"
  using assms by (auto simp: noted_player_def put_component_def)

lemma safe_panicked: "safe view rt S \<Longrightarrow> safe view (rt\<lparr>lr_panicked := b\<rparr>) S"
  by (erule safe_same [rotated 3]) simp_all

lemma safe_with_currency:
  assumes s: "safe view rt S" and f: "\<And>c. noted view (CurrencyComponent c) (CurrencyComponent (f c))"
  shows "safe view (with_currency rt pp f) S"
proof (cases "Player_Currency (lr_heap rt ! pp)")
  case None
  then show ?thesis using s by (simp add: with_currency_def safe_panicked)
next
  case (Some c)
  then have "pl_components (lr_heap rt ! pp) CurrencyComponentName = Some (CurrencyComponent c)"
    by (auto simp: Player_Currency_def split: option.splits Component.splits)
  then have "noted_player view (lr_heap rt ! pp) (put_component (CurrencyComponent (f c)) (lr_heap rt ! pp))" using f by (intro noted_put) simp_all
  with s Some show ?thesis by (simp add: with_currency_def safe_upd)
qed

lemma safe_with_bag:
  assumes s: "safe view rt S" and f: "\<And>b. noted view (BagComponent b) (BagComponent (f b))"
  shows "safe view (with_bag rt pp f) S"
proof (cases "Player_Bag (lr_heap rt ! pp)")
  case None
  then show ?thesis using s by (simp add: with_bag_def safe_panicked)
next
  case (Some b)
  then have "pl_components (lr_heap rt ! pp) BagComponentName = Some (BagComponent b)"
    by (auto simp: Player_Bag_def split: option.splits Component.splits)
  then have "noted_player view (lr_heap rt ! pp) (put_component (BagComponent (f b)) (lr_heap rt ! pp))" using f by (intro noted_put) simp_all
  with s Some show ?thesis by (simp add: with_bag_def safe_upd)
qed

lemma noted_player_more [simp]:
  "noted_player view p (p\<lparr>pl_lastTouch := t\<rparr>)" "noted_player view p (SetRoomAffinity p r g k)" "noted_player view p (ClearRoomAffinity p)"
  by (auto simp: noted_player_def SetRoomAffinity_def ClearRoomAffinity_def)

lemma safe_tryReconnect: "safe view rt S \<Longrightarrow> safe view (tryReconnect rt uid) S"
  by (auto simp: tryReconnect_def unbindRoom_def Let_def intro!: safe_upd split: prod.splits option.splits)

lemma safe_after: "safe view rt S \<Longrightarrow> safe view (run_after rt a) S"
  by (cases a) (auto simp: scanFriendAccepts_def intro!: safe_issue safe_tryReconnect)

lemma safe_drop:
  assumes "safe view rt S"
  shows "safe view (rt\<lparr>lr_players := mdel uid (lr_players rt)\<rparr>) S"
proof (rule safeI)
  let ?rt = "rt\<lparr>lr_players := mdel uid (lr_players rt)\<rparr>"
  have "owner ?rt u pp" if "owner rt u pp" for u pp using that by (simp add: owner_def)
  then have "owned ?rt q" if "owned rt q" for q using that by (cases q) simp_all
  then show "linked ?rt" using safeD(1) [OF assms] by (auto simp: linked_def)
  show "safe_component view ?rt S u c" if "map_of (lr_players ?rt) u = Some pp" "pl_components (lr_heap ?rt ! pp) n = Some c" for u pp n c
    using safeD(2) [OF assms, of u pp n c] that by (simp add: safe_component_def split: if_splits)
qed

lemma safe_flush_after: "safe view rt S \<Longrightarrow> safe view (run_flush_after rt fa ok) S"
  by (cases fa) (auto intro!: safe_drop safe_after safe_issue)

lemma Dirty_set_dirty [simp]: "Component_Dirty (set_dirty d c) = d" "Component_Snapshot (set_dirty d c) = Component_Snapshot c"
  "Component_Name (set_dirty d c) = Component_Name c"
  by (cases c; simp add: Bag_Snapshot_def Currency_Snapshot_def Friend_Snapshot_def Rating_Snapshot_def)+

lemma player_components_in:
  assumes "player_ok p" and "pl_components p n = Some c"
  shows "Component_Name c = n"
  using assms by (auto simp: player_ok_def component_names split: if_splits)

lemma clear_lookup:
  assumes "distinct (map Component_Name cs)"
  shows "pl_components (foldl (\<lambda>p c. put_component (ClearDirty c) p) p cs) n =
    (case find (\<lambda>c. Component_Name c = n) cs of None \<Rightarrow> pl_components p n | Some c \<Rightarrow> Some (ClearDirty c))"
  using assms
proof (induction cs arbitrary: p)
  case (Cons c cs)
  have "find (\<lambda>c. Component_Name c = n) cs = None" if "Component_Name c = n" using that Cons.prems by (force simp: find_None_iff image_iff)
  with Cons show ?case by (auto simp: put_component_def ClearDirty_def split: option.splits)
qed simp

lemma fields_lookup:
  "map_of (foldl (\<lambda>m c. mput (Component_Field c) (Component_Snapshot c) m) m0 cs) n =
    (case find (\<lambda>c. Component_Name c = n) (rev cs) of None \<Rightarrow> map_of m0 n | Some c \<Rightarrow> Some (Component_Snapshot c))"
proof (induction cs rule: rev_induct)
  case (snoc c cs)
  then show ?case by (simp split: option.splits)
qed simp

lemma dirty_of:
  assumes "player_ok p"
  shows "distinct (map Component_Name (dirty_components p))"
    and "c \<in> set (dirty_components p) \<longleftrightarrow> Component_Dirty c \<and> pl_components p (Component_Name c) = Some c"
proof -
  from assms show "distinct (map Component_Name (dirty_components p))"
    by (rule player_okE) (simp add: dirty_components_def component_names)
  from assms show "c \<in> set (dirty_components p) \<longleftrightarrow> Component_Dirty c \<and> pl_components p (Component_Name c) = Some c"
    by (rule player_okE) (cases c; auto simp: dirty_components_def component_names)
qed


lemma find_dirty:
  assumes "player_ok p" and "pl_components p n = Some c"
  shows "find (\<lambda>c. Component_Name c = n) (dirty_components p) = (if Component_Dirty c then Some c else None)"
    and "find (\<lambda>c. Component_Name c = n) (rev (dirty_components p)) = (if Component_Dirty c then Some c else None)"
proof -
  have "find (\<lambda>c. Component_Name c = n) cs = (if Component_Dirty c then Some c else None)" if "set cs = set (dirty_components p)" for cs
  proof (cases "find (\<lambda>c. Component_Name c = n) cs")
    case None
    then have "c \<notin> set cs" using player_components_in [OF assms] by (auto simp: find_None_iff)
    with that dirty_of(2) [OF assms(1), of c] player_components_in [OF assms] assms(2) None show ?thesis by auto
  next
    case (Some x)
    then have "x \<in> set cs" "Component_Name x = n" by (auto simp: find_Some_iff)
    with that dirty_of(2) [OF assms(1), of x] assms(2) Some show ?thesis by auto
  qed
  then show "find (\<lambda>c. Component_Name c = n) (dirty_components p) = (if Component_Dirty c then Some c else None)"
    "find (\<lambda>c. Component_Name c = n) (rev (dirty_components p)) = (if Component_Dirty c then Some c else None)" by simp_all
qed

lemma clear_keeps_names:
  assumes "player_ok p" and "pl_components (foldl (\<lambda>p c. put_component (ClearDirty c) p) p (dirty_components p)) n = Some c'"
  shows "\<exists>c. pl_components p n = Some c \<and> c' = (if Component_Dirty c then ClearDirty c else c)"
proof (cases "pl_components p n")
  case None
  then have "find (\<lambda>c. Component_Name c = n) (dirty_components p) = None" using dirty_of(2) [OF assms(1)] by (auto simp: find_None_iff)
  with None assms(2) clear_lookup [OF dirty_of(1) [OF assms(1)], of p n] show ?thesis by simp
next
  case (Some c)
  with assms(2) clear_lookup [OF dirty_of(1) [OF assms(1)], of p n] find_dirty(1) [OF assms(1) Some] show ?thesis by (auto split: if_splits)
qed

lemma clear_uid [simp]: "pl_uid (foldl (\<lambda>p c. put_component (ClearDirty c) p) p cs) = pl_uid p"
  by (induction cs arbitrary: p) (simp_all add: put_component_def)

lemma safe_flush:
  assumes s: "safe view rt S" and pp: "pp < length (lr_heap rt)" and ok: "player_ok (lr_heap rt ! pp)" and own: "owner rt uid pp"
  shows "safe view (flushPlayer rt uid pp fa) S"
proof (cases "lr_store rt")
  case False
  with s show ?thesis by (simp add: flushPlayer_def safe_flush_after)
next
  case st: True
  let ?p = "lr_heap rt ! pp"
  let ?dirty = "dirty_components ?p"
  let ?fs = "foldl (\<lambda>m c. mput (Component_Field c) (Component_Snapshot c) m) [] ?dirty"
  let ?clear = "\<lambda>p. foldl (\<lambda>p c. put_component (ClearDirty c) p) p ?dirty"
  define rt1 where "rt1 = upd_player rt pp ?clear"
  define rt2 where "rt2 = issue (rt1\<lparr>lr_inflight := lr_inflight rt1 + 1\<rparr>) (FlushFields uid pp ?fs (map Component_Name ?dirty) fa)"
  show ?thesis
  proof (cases "?dirty = []")
    case True
    have "safe view rt1 S" unfolding rt1_def by (rule safe_upd [OF s]) (simp add: True)
    with True st show ?thesis by (simp add: flushPlayer_def Let_def rt1_def safe_flush_after)
  next
    case False
    then have "set (mkeys ?fs) \<noteq> {}" using field_keys [of "[]" ?dirty] by (simp add: mkeys_def)
    then have "?fs \<noteq> []" by (auto simp: mkeys_def)
    then have fl: "flushPlayer rt uid pp fa = rt2" using st by (simp add: flushPlayer_def Let_def rt1_def rt2_def)
    have new: "newest u fld (lr_io rt2) = (case (if u = uid then map_of ?fs fld else None) of Some x \<Rightarrow> Some x | None \<Rightarrow> newest u fld (lr_io rt))" for u fld
      by (simp add: rt2_def rt1_def issue_def upd_player_def newest_append)
    have frame: "lr_players rt2 = lr_players rt" by (simp add: rt2_def rt1_def issue_def upd_player_def)
    have "pl_uid (lr_heap rt2 ! i) = pl_uid (lr_heap rt ! i)" for i
      using pp by (cases "i = pp") (simp_all add: rt2_def rt1_def issue_def upd_player_def)
    note oc = owned_cong [OF frame this]
    show ?thesis unfolding fl
    proof (rule safeI)
      have "\<forall>kq \<in> set (lr_io rt2). kq \<in> set (lr_io rt) \<or> owned rt (snd kq)" using own by (auto simp: rt2_def rt1_def issue_def upd_player_def)
      then show "linked rt2" using safeD(1) [OF s] frame oc(2) by (auto simp: linked_def \<open>\<And>i. pl_uid (lr_heap rt2 ! i) = pl_uid (lr_heap rt ! i)\<close>)
      fix u i n c' assume i: "map_of (lr_players rt2) u = Some i" and c': "pl_components (lr_heap rt2 ! i) n = Some c'"
      note i = i [unfolded frame] and other = owner_other [OF safeD(1) [OF s] own i [unfolded frame]]
      show "safe_component view rt2 S u c'"
      proof (cases "i = pp")
        case False
        with c' have "pl_components (lr_heap rt ! i) n = Some c'" by (simp add: rt2_def rt1_def issue_def upd_player_def)
        from safeD(2) [OF s i this] False other new [of u "Component_Field c'"] show ?thesis by (simp add: safe_component_def)
      next
        case True
        with c' pp have "pl_components (?clear ?p) n = Some c'" by (simp add: rt2_def rt1_def issue_def upd_player_def)
        from clear_keeps_names [OF ok this] obtain c where c: "pl_components ?p n = Some c" "c' = (if Component_Dirty c then ClearDirty c else c)" by blast
        have nm: "Component_Name c = n" by (rule player_components_in [OF ok c(1)])
        have f: "map_of ?fs n = (if Component_Dirty c then Some (Component_Snapshot c) else None)"
          using fields_lookup [of "[]" ?dirty n] find_dirty(2) [OF ok c(1)] by simp
        have "safe_component view rt S u c" using safeD(2) [OF s i] True c(1) by simp
        with True other c(2) nm f new [of u n] show ?thesis by (auto simp: safe_component_def ClearDirty_def)
      qed
    qed
  qed
qed

lemma heap_ok: "rt_ok rt M d \<Longrightarrow> pp < length (lr_heap rt) \<Longrightarrow> player_ok (lr_heap rt ! pp)"
  by (simp add: rt_ok_def)

lemma live_owner: "safe view rt S \<Longrightarrow> map_of (lr_players rt) uid = Some pp \<Longrightarrow> owner rt uid pp"
  using safeD(1) [of view rt S] by (auto simp: linked_def owner_def)

lemma safe_disconnect: "safe view rt S \<Longrightarrow> rt_ok rt M d \<Longrightarrow> safe view (Disconnect rt uid) S"
  by (auto simp: Disconnect_def Let_def intro!: safe_flush heap_ok live_owner dest: players_valid split: option.splits)

lemma safe_login: "safe view rt S \<Longrightarrow> safe view (Login rt uid gw n) S"
  by (auto simp: Login_def intro!: safe_issue)

lemma flush_frame [simp]: "lr_players (flushPlayer rt uid pp FlushIgnore) = lr_players rt"
  by (simp add: flushPlayer_def Let_def issue_def upd_player_def)

lemma safe_flush_all:
  assumes "safe view rt S" and "rt_ok rt M d"
  shows "safe view (flushAllDirty rt) S"
proof -
  have "safe view (foldl (\<lambda>rt (uid, pp). flushPlayer rt uid pp FlushIgnore) rt ps) S"
    if "safe view rt S" "rt_ok rt M d" "\<forall>up \<in> set ps. map_of (lr_players rt) (fst up) = Some (snd up)" for rt ps
    using that
  proof (induction ps arbitrary: rt)
    case (Cons up ps)
    obtain u pp where up: "up = (u, pp)" by (cases up)
    then have l: "map_of (lr_players rt) u = Some pp" using Cons.prems(3) by simp
    note pp = players_valid [OF Cons.prems(2) l]
    have "rt_ok (flushPlayer rt u pp FlushIgnore) M d" using Cons.prems(2) pp by (intro rt_ok_flush) simp_all
    moreover have "safe view (flushPlayer rt u pp FlushIgnore) S"
      by (rule safe_flush [OF Cons.prems(1) pp heap_ok [OF Cons.prems(2) pp] live_owner [OF Cons.prems(1) l]])
    ultimately show ?case using Cons.IH Cons.prems(3) by (simp add: up)
  qed simp
  moreover have "\<forall>up \<in> set (lr_players rt). map_of (lr_players rt) (fst up) = Some (snd up)"
    using safeD(1) [OF assms(1)] by (simp add: linked_def wf_map_lookup [symmetric])
  ultimately show ?thesis unfolding flushAllDirty_def using assms by blast
qed

lemma safe_coalesce:
  assumes "safe view rt S" and "rt_ok rt M d"
  shows "safe view (coalesceFlush rt) S"
proof -
  let ?f = "\<lambda>rt uid. let rt1 = (case map_of (lr_players rt) uid of None \<Rightarrow> rt | Some pp \<Rightarrow> flushPlayer rt uid pp FlushIgnore)
       in rt1\<lparr>lr_dirtyFlush := mdel uid (lr_dirtyFlush rt1)\<rparr>"
  have keep: "rt_ok rt M d \<Longrightarrow> rt_ok (rt\<lparr>lr_dirtyFlush := x\<rparr>) M d" "safe view rt S \<Longrightarrow> safe view (rt\<lparr>lr_dirtyFlush := x\<rparr>) S" for rt x
    by (rule rt_okI, auto simp: rt_ok_def) (erule safe_same [rotated 3], simp_all)
  have "rt_ok (?f rt uid) M d \<and> safe view (?f rt uid) S" if "rt_ok rt M d" "safe view rt S" for rt uid
    using that players_valid [OF that(1), of uid] rt_ok_flush [of rt FlushIgnore M d _ uid] safe_flush [of view rt S _ uid FlushIgnore] heap_ok [OF that(1)]
      live_owner [OF that(2), of uid]
    by (auto simp: Let_def intro!: keep split: option.splits)
  then have "safe view (foldl ?f rt us) S" if "rt_ok rt M d" "safe view rt S" for rt us using that by (induction us arbitrary: rt) simp_all
  with assms show ?thesis by (simp add: coalesceFlush_def)
qed

text \<open>A login that loads what the store holds.\<close>

lemma safe_doc:
  assumes s: "safe view rt S" and ok: "rt_ok rt M d" and alone: "alone rt uid"
    and doc: "buildPlayer uid (case found of None \<Rightarrow> NewPlayerDoc uid | Some x \<Rightarrow> x) = buildPlayer uid (store_doc uid (S uid))"
  shows "safe view (doc_loaded rt uid gw n found) S"
proof -
  let ?pp = "length (lr_heap rt)"
  obtain p where p: "buildPlayer uid (store_doc uid (S uid)) = Inr p" "pl_uid p = uid" by (simp add: buildPlayer_eq)
  let ?rt = "rt\<lparr>lr_heap := lr_heap rt @ [attachMail p (lr_mailStore rt)], lr_players := mput uid ?pp (lr_players rt)\<rparr>"
  have free: "map_of (lr_players rt) uid = None" "\<And>kq. kq \<in> set (lr_io rt) \<Longrightarrow> \<not> uses_player uid (snd kq)"
    using alone by (auto simp: alone_def list_all_iff)
  have fresh: "newest uid fld (lr_io rt) = None" for fld
  proof (rule newest_none, intro ballI)
    fix kq assume "kq \<in> set (lr_io rt)"
    from free(2) [OF this] show "map_of (flush_of uid (snd kq)) fld = None" by (cases "snd kq") auto
  qed
  have "safe view ?rt S"
  proof (rule safeI)
    have own: "owner ?rt u i" if "owner rt u i" "u \<noteq> uid" "i < ?pp" for u i using that by (simp add: owner_def nth_append)
    have io: "owned ?rt (snd kq)" if "kq \<in> set (lr_io rt)" for kq
    proof -
      have "io_valid ?pp (snd kq)" using ok that by (simp add: rt_ok_def)
      moreover have "owned rt (snd kq)" using safeD(1) [OF s] that by (simp add: linked_def)
      ultimately show ?thesis using free(2) [OF that] by (cases "snd kq") (simp_all add: own)
    qed
    have "pl_uid (lr_heap ?rt ! i) = u" if "map_of (lr_players ?rt) u = Some i" for u i
    proof (cases "u = uid")
      case True
      with that have "i = ?pp" by simp
      with True p(2) show ?thesis by (simp add: attachMail_def)
    next
      case False
      with that have "map_of (lr_players rt) u = Some i" by simp
      moreover from players_valid [OF ok this] have "lr_heap ?rt ! i = lr_heap rt ! i" by (simp add: nth_append)
      ultimately show ?thesis using safeD(1) [OF s] by (simp add: linked_def)
    qed
    with io safeD(1) [OF s] show "linked ?rt" by (simp add: linked_def)
    fix u i m c assume i: "map_of (lr_players ?rt) u = Some i" and c: "pl_components (lr_heap ?rt ! i) m = Some c"
    show "safe_component view ?rt S u c"
    proof (cases "u = uid")
      case True
      with i have "i = ?pp" by simp
      with c have "pl_components p m = Some c" by (simp add: attachMail_def)
      moreover from this have "Component_Name c = m" by (rule player_components_in [OF player_ok_build [OF p(1)]])
      ultimately show ?thesis using True fresh [of m] by (simp add: safe_component_def stored_def loaded_def p)
    next
      case False
      then have "map_of (lr_players rt) u = Some i" using i by simp
      moreover from players_valid [OF ok this] have "pl_components (lr_heap rt ! i) m = Some c" using c by (simp add: nth_append)
      ultimately have "safe_component view rt S u c" by (rule safeD(2) [OF s])
      then show ?thesis by (simp add: safe_component_def)
    qed
  qed
  then have e: "safe view (emit ?rt (PublishedLoaded uid)) S" by simp
  have "owner (emit ?rt (PublishedLoaded uid)) uid ?pp" using p(2) by (simp add: owner_def emit_def attachMail_def)
  then have "safe view (replayOffline (emit ?rt (PublishedLoaded uid)) uid ?pp a) S" for a
    by (simp add: replayOffline_def safe_after [OF e] safe_issue [OF e])
  then show ?thesis unfolding doc_loaded_def Let_def doc p sum.case .
qed


lemma mark_lookup:
  assumes "player_ok p"
  shows "pl_components (mark_dirty names p) n = map_option (\<lambda>c. if n \<in> set names then MarkDirty c else c) (pl_components p n)"
proof -
  let ?f = "\<lambda>p n. case pl_components p n of None \<Rightarrow> p | Some c \<Rightarrow> put_component (MarkDirty c) p"
  have "pl_components (foldl ?f q names) n = map_option (\<lambda>c. if n \<in> set names then MarkDirty c else c) (pl_components q n)" if "player_ok q" for q
    using that
  proof (induction names arbitrary: q)
    case (Cons m names)
    show ?case
    proof (cases "pl_components q m")
      case None
      with Cons show ?thesis by (cases "n = m") auto
    next
      case (Some c)
      have nm: "Component_Name c = m" by (rule player_components_in [OF Cons.prems Some])
      have "MarkDirty (MarkDirty c) = MarkDirty c" by (cases c) (simp_all add: MarkDirty_def)
      with Cons.IH [OF player_ok_put [OF Cons.prems, of "MarkDirty c"]] Some nm show ?thesis
        by (auto simp: put_component_def MarkDirty_def option.map_comp comp_def)
    qed
  qed (simp add: option.map_ident)
  from this [OF assms] show ?thesis by (simp add: mark_dirty_def)
qed


lemma mark_uid [simp]: "pl_uid (mark_dirty names p) = pl_uid p"
proof -
  have "pl_uid (foldl (\<lambda>p n. case pl_components p n of None \<Rightarrow> p | Some c \<Rightarrow> put_component (MarkDirty c) p) q names) = pl_uid q" for q
    by (induction names arbitrary: q) (auto simp: put_component_def split: option.splits)
  then show ?thesis by (simp add: mark_dirty_def)
qed

text \<open>The oldest open save of a user completes; one that has failed may have been written.\<close>

lemma safe_flush_done:
  assumes s: "safe view rt S" and io: "lr_io rt = as @ (k, FlushFields uid pp fs names fa) # bs"
    and first: "\<forall>kq \<in> set as. flush_of uid (snd kq) = []" and names: "set (mkeys fs) \<subseteq> set names"
    and pp: "pp < length (lr_heap rt)" "player_ok (lr_heap rt ! pp)" and w: "ok \<longrightarrow> w"
  shows "safe view (flush_done (rt\<lparr>lr_io := as @ bs\<rparr>) pp names fa ok) (if w then S(uid := S uid ++ map_of fs) else S)"
proof -
  let ?rt = "rt\<lparr>lr_io := as @ bs\<rparr>" and ?S = "if w then S(uid := S uid ++ map_of fs) else S"
  let ?rt1 = "if ok then ?rt else upd_player ?rt pp (mark_dirty names)"
  have own: "owner rt uid pp" using safeD(1) [OF s] by (simp add: linked_def io)
  have none: "newest uid fld as = None" for fld by (rule newest_none) (simp add: first)
  have old: "newest u fld (lr_io rt) = (case newest u fld bs of Some x \<Rightarrow> Some x | None \<Rightarrow>
      if u = uid then map_of fs fld else newest u fld as)" for u fld
    using none by (auto simp: io newest_append split: option.splits)
  have new: "newest u fld (as @ bs) = (case newest u fld bs of Some x \<Rightarrow> Some x | None \<Rightarrow> if u = uid then None else newest u fld as)" for u fld
    using none by (auto simp: newest_append split: option.splits)
  have frame: "lr_players ?rt1 = lr_players rt" "lr_io ?rt1 = as @ bs" by (simp_all add: upd_player_def)
  have uids: "pl_uid (lr_heap ?rt1 ! i) = pl_uid (lr_heap rt ! i)" for i
    using pp by (cases "i = pp") (simp_all add: upd_player_def)
  have written: "stored view uid (S uid ++ map_of fs) c" if "map_of fs (Component_Name c) = Some x" "view x = view (Component_Snapshot c)" for c x
    using that by (simp add: stored_def)
  have unwritten: "stored view u (?S u) c = stored view u (S u) c" if "u = uid \<longrightarrow> map_of fs (Component_Name c) = None" for u c
    using that loaded_field [of "?S u" "Component_Name c" "S u" u] by (simp add: stored_def map_add_def)
  have "safe view ?rt1 ?S"
  proof (rule safeI)
    show "linked ?rt1" using safeD(1) [OF s] owned_cong(2) [OF frame(1) uids] frame uids by (auto simp: linked_def io)
    fix u i n c' assume i: "map_of (lr_players ?rt1) u = Some i" and c': "pl_components (lr_heap ?rt1 ! i) n = Some c'"
    note i = i [unfolded frame] and other = owner_other [OF safeD(1) [OF s] own i [unfolded frame]]
    show "safe_component view ?rt1 ?S u c'"
    proof (cases "i = pp")
      case False
      with c' have "pl_components (lr_heap rt ! i) n = Some c'" by (simp add: upd_player_def split: if_splits)
      from safeD(2) [OF s i this] False other unwritten [of u c'] show ?thesis by (auto simp: safe_component_def old new frame split: option.splits)
    next
      case True
      have "pl_components (if ok then lr_heap rt ! pp else mark_dirty names (lr_heap rt ! pp)) n = Some c'"
        using c' True pp by (simp add: upd_player_def split: if_splits)
      then obtain c where c: "pl_components (lr_heap rt ! pp) n = Some c" "c' = (if ok \<or> n \<notin> set names then c else MarkDirty c)"
        by (cases ok; force simp: mark_lookup [OF pp(2)])
      have nm: "Component_Name c = n" by (rule player_components_in [OF pp(2) c(1)])
      have sc: "safe_component view rt S uid c" using safeD(2) [OF s i] True other c(1) by simp
      have u: "u = uid" using True other by simp
      show ?thesis
      proof (cases "map_of fs n")
        case None
        with sc c(2) nm unwritten [of uid c] show ?thesis unfolding u safe_component_def old new frame
          by (auto simp: MarkDirty_def split: option.splits)
      next
        case (Some x)
        then have "n \<in> set names" using names by (auto simp: set_mkeys)
        with Some sc c(2) nm w written [of c x] show ?thesis unfolding u safe_component_def old new frame
          by (auto simp: MarkDirty_def split: option.splits)
      qed
    qed
  qed
  then have "safe view (run_flush_after ?rt1 fa ok) ?S" by (rule safe_flush_after)
  then show ?thesis unfolding flush_done_def Let_def by (rule safe_same [rotated 3]) simp_all
qed

lemma safe_settle_answer [simp]: "safe view (settle_answer rt dn code) S = safe view rt S"
  by (simp add: settle_answer_def split: option.splits)

lemma safe_FlushSoon [simp]: "safe view (FlushSoon rt uid) S = safe view rt S"
proof
  show "safe view (FlushSoon rt uid) S \<Longrightarrow> safe view rt S" by (erule safe_same [rotated 3]) (simp_all add: FlushSoon_def)
  show "safe view rt S \<Longrightarrow> safe view (FlushSoon rt uid) S" by (erule safe_same [rotated 3]) (simp_all add: FlushSoon_def)
qed

lemma safe_settle_end: "safe view rt S \<Longrightarrow> safe view (settle_end rt uid pp dn) S"
  by (simp add: settle_end_def unbindRoom_def safe_upd)

lemma owner_upd: "(\<And>p. pl_uid (f p) = pl_uid p) \<Longrightarrow> owner (upd_player rt i f) uid pp = owner rt uid pp"
  by (rule owned_cong(1)) (simp_all add: upd_player_def, metis list_update_beyond not_le nth_list_update)

lemma owner_msg: "owner (applyOfflineMsg rt uid' i m) uid pp = owner rt uid pp"
proof -
  have e: "owner (emit rt e) uid pp = owner rt uid pp" "owner (rt\<lparr>lr_panicked := b\<rparr>) uid pp = owner rt uid pp" for rt e b
    by (simp_all add: owner_def emit_def)
  have "owner (with_currency rt i f) uid pp = owner rt uid pp" "owner (with_bag rt i g) uid pp = owner rt uid pp" for rt f g
    by (auto simp: with_currency_def with_bag_def e put_component_def intro!: owner_upd split: option.splits)
  then show ?thesis by (simp add: applyOfflineMsg_def Let_def e)
qed

section \<open>Changes are marked\<close>

text \<open>
  What the operations of the components owe the invariant: they mark what they change, as far as
  it is compared by \<open>view\<close>, for gifts with \<open>gift_ok\<close>.
\<close>

locale marked_changes =
  fixes view :: "snapshot_any \<Rightarrow> snapshot_any" and gift_ok :: "Attachment \<Rightarrow> bool"
  assumes spend_marked: "noted view (CurrencyComponent c) (CurrencyComponent (fst (Spend c x k n)))"
    and gain_marked: "gift_ok a \<Longrightarrow> at_Kind a \<noteq> ''item'' \<Longrightarrow> noted view (CurrencyComponent c) (CurrencyComponent (fst (Gain c x (at_Kind a) (at_Count a))))"
    and item_marked: "gift_ok a \<Longrightarrow> at_Kind a = ''item'' \<Longrightarrow>
      noted view (BagComponent b) (BagComponent (fst (Bag_Add b x (wrap_s32 (at_ID a)) (wrap_s32 (at_Count a)))))"
    and prize_marked: "noted view (BagComponent b) (BagComponent (fst (Bag_Add b x i 1)))"
    and friend_marked: "noted view (FriendComponent f) (FriendComponent (fst (Friend_Add f u)))"
begin

lemma safe_msg: "safe view rt S \<Longrightarrow> safe view (applyOfflineMsg rt uid pp m) S"
  by (auto simp: applyOfflineMsg_def Let_def intro!: safe_with_bag safe_with_currency spend_marked prize_marked)

lemma safe_grant:
  assumes "safe view rt S" and "list_all gift_ok atts"
  shows "safe view (grantAttachments rt uid pp x atts) S"
proof -
  have one: "safe view rt S \<Longrightarrow> gift_ok a \<Longrightarrow> safe view (grant_one uid pp x rt (i, a)) S" for rt i a
    by (auto simp: grant_one_def Let_def intro!: safe_with_bag safe_with_currency gain_marked item_marked)
  have "safe view rt S \<Longrightarrow> list_all gift_ok (map snd ias) \<Longrightarrow> safe view (foldl (grant_one uid pp x) rt ias) S" for rt ias
    by (induction ias arbitrary: rt) (auto simp: one)
  from this [of rt "enumerate 0 atts"] assms show ?thesis by (simp add: grantAttachments_def)
qed

lemma safe_replay:
  assumes s: "safe view rt S" and ok: "rt_ok rt M d" and pp: "pp < length (lr_heap rt)" and own: "owner rt uid pp"
  shows "safe view (replay_messages rt uid pp msgs a) S"
proof -
  let ?rt = "foldl (\<lambda>rt m. applyOfflineMsg rt uid pp m) rt msgs"
  have "safe view ?rt S" using s by (induction msgs arbitrary: rt) (simp_all add: safe_msg)
  moreover have "rt_ok ?rt M d \<and> length (lr_heap ?rt) = length (lr_heap rt)"
    by (rule rt_ok_foldl) (use ok pp in \<open>auto intro: rt_ok_msg\<close>)
  moreover have "owner ?rt uid pp" using own by (induction msgs arbitrary: rt) (simp_all add: owner_msg)
  ultimately show ?thesis using pp heap_ok [of ?rt M d pp] by (auto simp: replay_messages_def Let_def intro!: safe_after safe_flush)
qed

lemma safe_friends:
  assumes "safe view rt S"
  shows "safe view (friends_found rt uid pp ms) S"
proof -
  have "safe view (fst (foldl (accept_one uid pp) st ms)) S" if "safe view (fst st) S" for st
    using that
  proof (induction ms arbitrary: st)
    case (Cons m ms)
    obtain rt0 ch where st: "st = (rt0, ch)" by (cases st)
    have "safe view (fst (accept_one uid pp st m)) S"
    proof (cases "Player_Friend (lr_heap rt0 ! pp)")
      case None
      then show ?thesis using Cons.prems st by (simp add: accept_one_def safe_panicked)
    next
      case (Some f)
      then have "pl_components (lr_heap rt0 ! pp) FriendComponentName = Some (FriendComponent f)"
        by (auto simp: Player_Friend_def split: option.splits Component.splits)
      then have "noted_player view (lr_heap rt0 ! pp) (put_component (FriendComponent (fst (Friend_Add f (md_From m)))) (lr_heap rt0 ! pp))"
        by (intro noted_put [OF _ friend_marked]) simp
      with Cons.prems st Some show ?thesis by (auto simp: accept_one_def intro!: safe_issue safe_upd split: prod.splits)
    qed
    with Cons.IH show ?case by simp
  qed simp
  from this [of "(rt, False)"] assms show ?thesis by (auto simp: friends_found_def split: prod.splits)
qed

lemma safe_settle:
  assumes s: "safe view rt S"
  shows "safe view (Settle rt uid g w price cur item dn) S"
proof (cases "map_of (lr_players rt) uid")
  case None
  with s show ?thesis by (simp add: Settle_def offlinePush_def safe_issue)
next
  case (Some pp)
  have "safe view (upd_player rt pp (put_component (CurrencyComponent c1))) S" if "Player_Currency (lr_heap rt ! pp) = Some c" "Spend c x k a = (c1, b, ok)" for c x k a c1 b ok
  proof (rule safe_upd [OF s], rule noted_put)
    from that(1) show "pl_components (lr_heap rt ! pp) (Component_Name (CurrencyComponent c1)) = Some (CurrencyComponent c)"
      by (auto simp: Player_Currency_def split: option.splits Component.splits)
    show "noted view (CurrencyComponent c) (CurrencyComponent c1)" using spend_marked [of c x k a] that(2) by simp
  qed
  with s Some show ?thesis
    by (auto simp: Settle_def Let_def intro!: safe_settle_end safe_with_bag prize_marked safe_panicked split: prod.splits option.splits)
qed

lemma safe_io_callback:
  assumes s: "safe view rt S" and ok: "rt_ok rt M d" and q: "map_of (lr_io rt) k = Some q" and ord: "in_order rt S (EvIo k res)"
  shows "safe view (io_callback (rt\<lparr>lr_io := mdel k (lr_io rt)\<rparr>) q res) (saved_after written rt S (EvIo k res))"
proof -
  obtain as bs where io: "lr_io rt = as @ (k, q) # bs" and k: "k \<notin> fst ` set as"
    using map_of_SomeD [OF q] ok by (fastforce simp: in_set_conv_decomp rt_ok_def wf_map_def mkeys_def)
  have "k \<notin> fst ` set bs" using ok by (auto simp: rt_ok_def wf_map_def mkeys_def io)
  with k have "filter (\<lambda>p. fst p \<noteq> k) as = as" "filter (\<lambda>p. fst p \<noteq> k) bs = bs" by (auto intro!: filter_True)
  then have del: "mdel k (lr_io rt) = as @ bs" unfolding io by (simp add: mdel_def)
  let ?rt = "rt\<lparr>lr_io := as @ bs\<rparr>"
  note take = rt_ok_take [OF ok q, unfolded del]
  have valid: "io_valid (length (lr_heap rt)) q" using take by blast
  have own: "owned rt q" using safeD(1) [OF s] by (simp add: linked_def io)
  show ?thesis
  proof (cases "is_flush q")
    case True
    then obtain uid pp fs names fa where fl: "q = FlushFields uid pp fs names fa" by (cases q) auto
    have "takeWhile (\<lambda>kq. fst kq \<noteq> k) (lr_io rt) = as" unfolding io using k by (subst takeWhile_append2) auto
    with ord q fl have first: "\<forall>kq \<in> set as. flush_of uid (snd kq) = []" by (simp add: in_order_def list_all_iff)
    have pp: "pp < length (lr_heap rt)" "set (mkeys fs) \<subseteq> set names" using valid fl by simp_all
    from safe_flush_done [OF s io [unfolded fl] first pp(2,1) heap_ok [OF ok pp(1)], of "\<not> (\<exists>e. res = IoErr e)" "case res of IoErr e \<Rightarrow> written k | _ \<Rightarrow> True"] q fl
    show ?thesis unfolding del by (cases res) simp_all
  next
    case False
    have same: "newest uid fld (as @ bs) = newest uid fld (lr_io rt)" for uid fld
      using flush_of_other [OF False] by (simp add: io newest_append split: option.splits)
    have s': "safe view ?rt S" by (rule safe_io [OF s]) (auto simp: same io)
    have ok': "rt_ok ?rt (mset (io_replies q) + M) (d + (if is_flush q then 1 else 0))" using take by blast
    have sa: "saved_after written rt S (EvIo k res) = S" using q False by (cases q) simp_all
    show ?thesis
    proof (cases q)
      case (LoadDoc uid gw n)
      have "safe view (doc_loaded ?rt uid gw n found) S" if "alone rt uid"
        "buildPlayer uid (case found of None \<Rightarrow> NewPlayerDoc uid | Some x \<Rightarrow> x) = buildPlayer uid (store_doc uid (S uid))" for found
        by (rule safe_doc [OF s' ok' _ that(2)]) (use that(1) in \<open>simp add: alone_def io\<close>)
      with ord q LoadDoc s' build_no_document show ?thesis unfolding del sa by (cases res) (simp_all add: in_order_def)
    next
      case (LoadOffline uid pp a)
      have "pp < length (lr_heap ?rt)" "owner ?rt uid pp" using valid own LoadOffline by (simp_all add: owner_def)
      from safe_replay [OF s' ok' this] safe_after [OF s'] LoadOffline show ?thesis unfolding del sa by (cases res) simp_all
    next
      case (PendingFriendAccepts uid pp)
      with s' safe_friends [OF s'] show ?thesis unfolding del sa by (cases res) simp_all
    next
      case (AckOffline uid ids a)
      with s' safe_after [OF s'] show ?thesis unfolding del sa by (cases res) simp_all
    next
      case (PushOffline uid msg dn)
      with s' show ?thesis unfolding del sa by (cases res) simp_all
    next
      case (ClaimMail i uid)
      with s' show ?thesis unfolding del sa by (cases res) simp_all
    qed (use False in simp)
  qed
qed

lemma safe_step:
  assumes "safe view rt S" and "rt_ok rt {#} 0" and "in_order rt S ev" and "list_all gift_ok (gifts ev)"
  shows "safe view (lobby_step rt ev) (saved_after written rt S ev)"
proof (cases ev)
  case (EvLogin uid gw)
  with assms(1) show ?thesis by (auto intro!: safe_login intro: safe_same [of "rt\<lparr>lr_nextReply := x\<rparr>" rt for x])
next
  case (EvTouch now uid)
  with assms(1) show ?thesis by (auto simp: Runtime_Touch_def Let_def intro!: safe_upd split: option.splits)
next
  case (EvStartMatch uid mmr)
  with assms(1) show ?thesis by (auto simp: StartMatch_def Let_def intro: safe_same [of "rt\<lparr>lr_reqSeq := x\<rparr>" rt for x])
next
  case (EvBindRoom uid r g)
  with assms(1) show ?thesis by (auto simp: Runtime_BindRoom_def Let_def intro!: safe_upd split: option.splits)
next
  case (EvIo k res)
  show ?thesis
  proof (cases "map_of (lr_io rt) k")
    case None
    with assms(1) EvIo show ?thesis by simp
  next
    case (Some q)
    from safe_io_callback [OF assms(1,2) Some] assms(3) Some EvIo show ?thesis by simp
  qed
qed (use assms in \<open>auto intro!: safe_disconnect safe_settle safe_grant safe_flush_all safe_coalesce split: option.splits\<close>)

lemma safe_run:
  "safe view rt S \<Longrightarrow> rt_ok rt {#} 0 \<Longrightarrow> orderly written rt S evs \<Longrightarrow> list_all gift_ok (concat (map gifts evs))
   \<Longrightarrow> safe view (foldl lobby_step rt evs) (saved_run written rt S evs)"
  by (induction evs arbitrary: rt S) (simp_all add: safe_step rt_ok_step)

lemma component_safe:
  assumes "orderly written (NewRuntime cfg) S0 evs" and "list_all gift_ok (concat (map gifts evs))" and "rt = foldl lobby_step (NewRuntime cfg) evs"
    and "map_of (lr_players rt) uid = Some pp" and "pl_components (lr_heap rt ! pp) name = Some c"
  shows "Component_Name c = name \<and> safe_component view rt (saved_run written (NewRuntime cfg) S0 evs) uid c"
proof -
  have "safe view (NewRuntime cfg) S0" by (simp add: safe_def linked_def NewRuntime_def)
  from safe_run [OF this rt_ok_New assms(1,2)] have s: "safe view rt (saved_run written (NewRuntime cfg) S0 evs)" by (simp add: assms(3))
  have ok: "rt_ok rt {#} 0" using rt_ok_run [OF rt_ok_New] by (simp add: assms(3))
  from player_components_in [OF heap_ok [OF ok players_valid [OF ok assms(4)]] assms(5)] safeD(2) [OF s assms(4,5)] show ?thesis by simp
qed

end

text \<open>The component operations mark every change of the contents, and with non-zero amounts every change.\<close>

interpretation contents: marked_changes content "\<lambda>a. True"
  by unfold_locales (auto simp: noted_def Spend_def Gain_def Bag_Add_def Friend_Add_def Let_def Currency_Snapshot_def Bag_Snapshot_def)

interpretation snapshots: marked_changes id gift_counts
  by unfold_locales (auto simp: noted_def Spend_def Gain_def Bag_Add_def Friend_Add_def Let_def gift_counts_def)

text \<open>C6: No change of a player in the lobby is lost. In every history of logins, gifts, settlements,
  friend requests, disconnects and saves, with any initial store and whatever saves fail, written
  or not, a component of a player in the lobby that is not marked as changed and has no open save
  is in the document of the user: the document holds its balances, items, friends and rating, and
  if no gift had amount zero also the remembered operation ids. The history is one in which the
  saves of a user complete in the order in which they were started, a login loads what the store
  holds at that time, and no document is loaded for a user who has a player, an open save or a
  replay under way.\<close>

theorem no_lost_update:
  assumes "orderly written (NewRuntime cfg) S0 evs" and "rt = foldl lobby_step (NewRuntime cfg) evs"
    and "S = saved_run written (NewRuntime cfg) S0 evs"
    and "map_of (lr_players rt) uid = Some pp" and "pl_components (lr_heap rt ! pp) name = Some c"
    and "\<not> Component_Dirty c" and "newest uid name (lr_io rt) = None"
  shows "stored content uid (S uid) c \<and> (list_all gift_counts (concat (map gifts evs)) \<longrightarrow> stored id uid (S uid) c)"
proof -
  have "list_all (\<lambda>a. True) (concat (map gifts evs))" by (simp add: list_all_iff)
  from contents.component_safe [OF assms(1) this assms(2,4,5)] snapshots.component_safe [OF assms(1) _ assms(2,4,5)] assms(6,7)
  show ?thesis by (auto simp: safe_component_def assms(3))
qed

text \<open>A player that logs in and receives five gold, and the save of it.\<close>

definition gold :: "int \<Rightarrow> Attachment" where
  "gold n = \<lparr>at_Kind = ''gold'', at_ID = 0, at_Count = n\<rparr>"

definition demo_events :: "lobby_event list" where
  "demo_events = [EvLogin 7 ''gate-1'', EvIo 0 DocMissing, EvGrant 7 ''m1'' [gold 5], EvFlushAll]"

lemmas demo_eval = demo_node_def NewRuntime_def Login_def issue_def doc_loaded_def buildPlayer_eq replayOffline_def Let_def emit_def
  tryReconnect_def queryOnlineNoop_def scanFriendAccepts_def mdel_def mput_def attachMail_def NewPlayerDoc_def NewBagState_def NewCurrencyState_def
  NewFriendState_def NewRatingState_def Bag_Load_def Currency_Load_def Friend_Load_def Rating_Load_def NewBag_def NewCurrency_def NewFriend_def
  NewRating_def grantAttachments_def grant_one_def with_currency_def Player_Currency_def upd_player_def put_component_def component_names
  flushAllDirty_def flushPlayer_def dirty_components_def Components_def ClearDirty_def map_copy_def loadFrom_def Gain_def seen_def remember_def
  evict.simps newOpDedup_def maxCurrencyOps_def maxRecentOps_def zero_of_def wrap_s64_def Currency_Snapshot_def ops_snapshot_def gold_def enumerate_eq_zip
  flush_done_def defaultMMR_def

lemmas order_eval = in_order_def alone_def no_document_def field_names

definition empty_store :: saved where
  "empty_store = (\<lambda>uid fld. None)"

lemma dec_zero: "dec_nat 0 = ''0''"
  by code_simp

text \<open>The first save of the five gold fails without having been written; the second one succeeds.\<close>

definition retried :: "lobby_event list" where
  "retried = demo_events @ [EvIo 1 (IoErr ''timeout''), EvFlushAll, EvIo 2 IoDone]"

theorem no_lost_update_witness:
  "\<exists>c. pl_components (lr_heap (foldl lobby_step demo_node retried) ! 0) ''currency'' = Some (CurrencyComponent c)
     \<and> cu_balances c = [(''gold'', 5)] \<and> ops_snapshot (cu_ops c) = [''m1:0'']
     \<and> stored id 7 (saved_run (\<lambda>k. False) demo_node empty_store retried 7) (CurrencyComponent c)
     \<and> saved_run (\<lambda>k. False) demo_node empty_store retried 7 ''currency''
         = Some (CurrencySnapshot \<lparr>cs_Balances = [(''gold'', 5)], cs_Ops = [''m1:0'']\<rparr>)"
proof -
  let ?rt = "foldl lobby_step demo_node retried"
  note ev = retried_def demo_events_def demo_eval empty_store_def mark_dirty_def MarkDirty_def dec_zero
  have ord: "orderly (\<lambda>k. False) demo_node empty_store retried" by (simp add: ev order_eval)
  have pl: "map_of (lr_players ?rt) 7 = Some 0" "newest 7 ''currency'' (lr_io ?rt) = None" by (simp_all add: ev)
  obtain c where c: "pl_components (lr_heap ?rt ! 0) ''currency'' = Some (CurrencyComponent c)"
    "\<not> cu_dirty c" "cu_balances c = [(''gold'', 5)]" "ops_snapshot (cu_ops c) = [''m1:0'']" by (simp add: ev)
  have "\<not> Component_Dirty (CurrencyComponent c)" using c(2) by simp
  from no_lost_update [OF ord [unfolded demo_node_def] refl refl, folded demo_node_def, OF pl(1) c(1) this pl(2)]
  have "stored id 7 (saved_run (\<lambda>k. False) demo_node empty_store retried 7) (CurrencyComponent c)"
    by (simp add: retried_def demo_events_def gold_def gift_counts_def)
  moreover have "saved_run (\<lambda>k. False) demo_node empty_store retried 7 ''currency''
      = Some (CurrencySnapshot \<lparr>cs_Balances = [(''gold'', 5)], cs_Ops = [''m1:0'']\<rparr>)" by (simp add: ev)
  ultimately show ?thesis using c by blast
qed

text \<open>
  The store client runs every request in a goroutine of its own, so saves can complete out of
  order; then the older content wins, although the component is not marked and nothing is open.
\<close>

definition overtaking :: "lobby_event list" where
  "overtaking = demo_events @ [EvGrant 7 ''m2'' [gold 3], EvFlushAll, EvIo 2 IoDone, EvIo 1 IoDone]"

lemma overtaken_save_lost:
  "map_option content (saved_run (\<lambda>k. False) demo_node empty_store overtaking 7 ''currency'')
     = Some (CurrencySnapshot \<lparr>cs_Balances = [(''gold'', 5)], cs_Ops = []\<rparr>)
   \<and> map_option (\<lambda>c. Balance c ''gold'') (Player_Currency (lr_heap (foldl lobby_step demo_node overtaking) ! 0)) = Some 8
   \<and> lr_io (foldl lobby_step demo_node overtaking) = [] \<and> dirty_components (lr_heap (foldl lobby_step demo_node overtaking) ! 0) = []"
  by (simp add: overtaking_def demo_events_def demo_eval Balance_def empty_store_def)

text \<open>A gift of amount zero is remembered in memory only: its id is not in the store although nothing is marked.\<close>

lemma zero_gift_not_saved:
  "let rt = foldl lobby_step demo_node [EvLogin 7 ''g'', EvIo 0 DocMissing, EvGrant 7 ''m1'' [gold 0], EvFlushAll]
   in map_option (\<lambda>c. (cu_dirty c, ops_snapshot (cu_ops c))) (Player_Currency (lr_heap rt ! 0)) = Some (False, [''m1:0'']) \<and> lr_io rt = []"
  by (simp add: demo_eval dec_zero)

text \<open>A user who disconnects and logs in again while the save of the disconnect is open is answered, and then dropped.\<close>

lemma relogin_dropped:
  "map_of (lr_players (foldl lobby_step demo_node (butlast demo_events @ [EvDisconnect 7, EvLogin 7 ''gate-2'', EvIo 1 IoDone]))) 7 = None
   \<and> Replied 1 (Inr \<lparr>lg_Code = 0, lg_UID = 7, lg_LobbyNodeID = ''lobby-1''\<rparr>)
     \<in> set (lr_log (foldl lobby_step demo_node (butlast demo_events @ [EvDisconnect 7, EvLogin 7 ''gate-2'', EvIo 1 IoDone])))"
  by (simp add: demo_events_def demo_eval Disconnect_def login_ok_def)

text \<open>Two logins of one user that wait for the document at the same time build two players; changes of the first one are not in the second.\<close>

lemma double_login_replaces_player:
  "map_of (lr_players (foldl lobby_step demo_node [EvLogin 7 ''g'', EvLogin 7 ''g'', EvIo 0 DocMissing, EvGrant 7 ''m1'' [gold 5], EvIo 1 DocMissing])) 7 = Some 1
   \<and> map_option (\<lambda>c. Balance c ''gold'') (Player_Currency (lr_heap (foldl lobby_step demo_node
       [EvLogin 7 ''g'', EvLogin 7 ''g'', EvIo 0 DocMissing, EvGrant 7 ''m1'' [gold 5], EvIo 1 DocMissing]) ! 1)) = Some 0"
  by (simp add: demo_eval Balance_def)


section \<open>Settlement\<close>

lemma component_frames [simp]:
  "Player_Currency (put_component (CurrencyComponent c) p) = Some c" "Player_Bag (put_component (BagComponent b) p) = Some b"
  "Player_Bag (put_component (CurrencyComponent c) p) = Player_Bag p" "Player_Currency (put_component (BagComponent b) p) = Player_Currency p"
  "Player_Currency (ClearRoomAffinity p) = Player_Currency p" "Player_Bag (ClearRoomAffinity p) = Player_Bag p"
  by (simp_all add: Player_Currency_def Player_Bag_def put_component_def ClearRoomAffinity_def component_names)

lemma upd_player_at [simp]: "pp < length (lr_heap rt) \<Longrightarrow> lr_heap (upd_player rt pp f) ! pp = f (lr_heap rt ! pp)"
  "lr_players (upd_player rt pp f) = lr_players rt" "lr_log (upd_player rt pp f) = lr_log rt"
  by (simp_all add: upd_player_def)

lemma seen_remember: "within r \<Longrightarrow> x \<noteq> [] \<Longrightarrow> seen (remember r x) x"
proof -
  assume r: "within r" and x: "x \<noteq> []"
  show ?thesis
  proof (cases "seen r x")
    case True
    with x show ?thesis by (simp add: seen_def remember_def)
  next
    case False
    with remember_new_order [of r x] r x have "held (remember r x) x 0" by (simp add: within_def ring_ok_def)
    moreover have "ring_ok (remember r x)" using r by (simp add: within_def)
    moreover obtain as bs where "od_order (remember r x) = as @ x # bs" using calculation(1) unfolding held_def by blast
    ultimately have "x \<in> od_seenSet (remember r x)" unfolding ring_ok_def by (metis in_set_conv_decomp)
    with x show ?thesis by (simp add: seen_def)
  qed
qed

text \<open>A settlement that is paid.\<close>

lemma settle_paid:
  assumes "map_of (lr_players rt) uid = Some pp" and "pp < length (lr_heap rt)" and "Player_Currency (lr_heap rt ! pp) = Some c"
    and "Player_Bag (lr_heap rt ! pp) = Some b" and "Spend c (gameID @ '':settle'') currency price = (c1, bal, True)"
    and "rt1 = Settle rt uid gameID uid price currency itemID (Some n)"
  shows "Player_Currency (lr_heap rt1 ! pp) = Some c1" and "Player_Bag (lr_heap rt1 ! pp) = Some (fst (Bag_Add b (gameID @ '':item'') itemID 1))"
    and "lr_log rt1 = lr_log rt @ [PublishedCurrency uid currency (wrap_s64 (- price)), UnboundRoom uid, SettleAnswered n 0]"
    and "map_of (lr_players rt1) uid = Some pp" and "length (lr_heap rt1) = length (lr_heap rt)"
proof -
  let ?rt0 = "upd_player rt pp (put_component (CurrencyComponent c1))"
  have wb: "with_bag ?rt0 pp f = upd_player ?rt0 pp (put_component (BagComponent (f b)))" for f
    using assms(2,4) by (simp add: with_bag_def)
  have rt1: "rt1 = settle_end (emit (upd_player ?rt0 pp (put_component (BagComponent (fst (Bag_Add b (gameID @ '':item'') itemID 1)))))
      (PublishedCurrency uid currency (wrap_s64 (- price)))) uid pp (Some n)"
    unfolding assms(6) Settle_def assms(1) option.case assms(3) prod.case assms(5) Let_def wb by simp
  show "Player_Currency (lr_heap rt1 ! pp) = Some c1" "Player_Bag (lr_heap rt1 ! pp) = Some (fst (Bag_Add b (gameID @ '':item'') itemID 1))"
    "lr_log rt1 = lr_log rt @ [PublishedCurrency uid currency (wrap_s64 (- price)), UnboundRoom uid, SettleAnswered n 0]"
    "map_of (lr_players rt1) uid = Some pp" "length (lr_heap rt1) = length (lr_heap rt)"
    unfolding rt1 using assms(1,2)
    by (simp_all add: settle_end_def settle_answer_def FlushSoon_def unbindRoom_def emit_def upd_player_def)
qed

text \<open>C8: A settlement delivered again to a winner who is in the lobby charges once. When the winner of an
  auction is in the lobby and can pay, the first settlement takes the price from the wallet,
  leaves the other currencies alone, answers with success, and wallet and bag remember the game.
  Whatever happens then, the same settlement delivered again while the winner is in the lobby and
  wallet and bag still remember the game changes neither of them and answers with success. When
  the balance does not cover the price, wallet and bag stay as they are and the answer is a
  failure. A settlement that is replayed from the offline store uses another identifier and is not
  covered (\<open>settle_paths_charge_twice\<close>).\<close>

theorem settle_charges_once:
  assumes "rt = foldl lobby_step (NewRuntime cfg) evs" and "map_of (lr_players rt) uid = Some pp"
    and "Player_Currency (lr_heap rt ! pp) = Some c" and "Player_Bag (lr_heap rt ! pp) = Some b" and "within (cu_ops c)" and "within (bg_ops b)"
    and "\<not> seen (cu_ops c) (gameID @ '':settle'')" and "0 \<le> price" and "price < 2 ^ 63" and "Balance c currency < 2 ^ 63"
    and "rt1 = Settle rt uid gameID uid price currency itemID (Some n)" and "rt2 = foldl lobby_step rt1 evs2"
    and "map_of (lr_players rt2) uid = Some pp2" and "Player_Currency (lr_heap rt2 ! pp2) = Some c2" and "Player_Bag (lr_heap rt2 ! pp2) = Some b2"
    and "rt3 = Settle rt2 uid gameID uid price currency itemID (Some n)"
  shows "(if price \<le> Balance c currency
     then (\<exists>c1 b1. Player_Currency (lr_heap rt1 ! pp) = Some c1 \<and> Balance c1 = (Balance c)(currency := Balance c currency - price)
         \<and> Player_Bag (lr_heap rt1 ! pp) = Some b1 \<and> seen (cu_ops c1) (gameID @ '':settle'') \<and> seen (bg_ops b1) (gameID @ '':item''))
       \<and> lr_log rt1 = lr_log rt @ [PublishedCurrency uid currency (- price), UnboundRoom uid, SettleAnswered n 0]
     else Player_Currency (lr_heap rt1 ! pp) = Some c \<and> Player_Bag (lr_heap rt1 ! pp) = Some b
       \<and> lr_log rt1 = lr_log rt @ [SettleAnswered n 1])
   \<and> (seen (cu_ops c2) (gameID @ '':settle'') \<and> seen (bg_ops b2) (gameID @ '':item'') \<longrightarrow>
       Player_Currency (lr_heap rt3 ! pp2) = Some c2 \<and> Player_Bag (lr_heap rt3 ! pp2) = Some b2 \<and> last (lr_log rt3) = SettleAnswered n 0)"
proof -
  have "rt_ok rt {#} 0" using rt_ok_run [OF rt_ok_New] by (simp add: assms(1))
  note pp = players_valid [OF this assms(2)]
  have neg: "wrap_s64 (- price) = - price" using assms(8,9) by (intro wrap_s64_id) (simp add: in_s64_def)
  have "rt2 = foldl lobby_step (NewRuntime cfg) (evs @ EvSettle uid gameID uid price currency itemID (Some n) # evs2)"
    by (simp add: assms(1,11,12))
  then have "rt_ok rt2 {#} 0" by (simp only: rt_ok_run [OF rt_ok_New])
  note pp2 = players_valid [OF this assms(13)]
  have repeated: "Player_Currency (lr_heap rt3 ! pp2) = Some c2 \<and> Player_Bag (lr_heap rt3 ! pp2) = Some b2 \<and> last (lr_log rt3) = SettleAnswered n 0"
    if "seen (cu_ops c2) (gameID @ '':settle'')" "seen (bg_ops b2) (gameID @ '':item'')"
  proof -
    have sp: "Spend c2 (gameID @ '':settle'') currency price = (c2, Balance c2 currency, True)" using that(1) by (simp add: Spend_def Balance_def)
    have "fst (Bag_Add b2 (gameID @ '':item'') itemID 1) = b2" using that(2) by (simp add: Bag_Add_def)
    with settle_paid [OF assms(13) pp2 assms(14,15) sp assms(16)] show ?thesis by simp
  qed
  show ?thesis
  proof (cases "price \<le> Balance c currency")
    case True
    define c1 where "c1 = fst (Spend c (gameID @ '':settle'') currency price)"
    have sp: "Spend c (gameID @ '':settle'') currency price = (c1, Balance c1 currency, True)"
      using True assms(7) by (simp add: c1_def Spend_def Balance_def Let_def)
    have "wrap_s64 (Balance c currency - price) = Balance c currency - price"
      using True assms(8,10) by (intro wrap_s64_id) (simp add: in_s64_def)
    then have bal: "Balance c1 = (Balance c)(currency := Balance c currency - price)"
      using True assms(7) by (simp add: c1_def Spend_def Balance_def Let_def zero_of_def fun_eq_iff)
    note S1 = settle_paid [OF assms(2) pp assms(3,4) sp assms(11)]
    have "cu_ops c1 = remember (cu_ops c) (gameID @ '':settle'')" using True assms(7) by (simp add: c1_def Spend_def Balance_def Let_def)
    then have seen1: "seen (cu_ops c1) (gameID @ '':settle'')" using seen_remember [OF assms(5)] by simp
    let ?b1 = "fst (Bag_Add b (gameID @ '':item'') itemID 1)"
    have "bg_ops ?b1 = (if seen (bg_ops b) (gameID @ '':item'') then bg_ops b else remember (bg_ops b) (gameID @ '':item''))"
      by (simp add: Bag_Add_def Let_def)
    then have "seen (bg_ops ?b1) (gameID @ '':item'')" using seen_remember [OF assms(6)] by auto
    with True bal S1(1-3) seen1 neg repeated show ?thesis by simp
  next
    case False
    then have "Spend c (gameID @ '':settle'') currency price = (c, Balance c currency, False)" using assms(7) by (simp add: Spend_def Balance_def)
    then have "rt1 = emit (upd_player rt pp (put_component (CurrencyComponent c))) (SettleAnswered n 1)"
      using assms(2,3) by (simp add: assms(11) Settle_def settle_answer_def)
    with False pp assms(4) repeated show ?thesis by (simp add: emit_def)
  qed
qed

text \<open>A winner with ten gold who is settled for a price of four, given three gold, and settled again.\<close>

theorem settle_charges_once_witness:
  "let rt = foldl lobby_step demo_node [EvLogin 7 ''g'', EvIo 0 DocMissing, EvGrant 7 ''m1'' [gold 10]];
       rt1 = Settle rt 7 ''g1'' 7 4 ''gold'' 3 (Some 0); rt2 = foldl lobby_step rt1 [EvGrant 7 ''m2'' [gold 3]];
       rt3 = Settle rt2 7 ''g1'' 7 4 ''gold'' 3 (Some 0)
   in (\<exists>c. Player_Currency (lr_heap rt1 ! 0) = Some c \<and> Balance c ''gold'' = 6)
     \<and> (\<exists>c. Player_Currency (lr_heap rt3 ! 0) = Some c \<and> Balance c ''gold'' = 9) \<and> last (lr_log rt3) = SettleAnswered 0 0"
proof -
  let ?evs = "[EvLogin 7 ''g'', EvIo 0 DocMissing, EvGrant 7 ''m1'' [gold 10]]" and ?evs2 = "[EvGrant 7 ''m2'' [gold 3]]"
  let ?rt = "foldl lobby_step demo_node ?evs"
  let ?rt1 = "Settle ?rt 7 ''g1'' 7 4 ''gold'' 3 (Some 0)"
  let ?rt2 = "foldl lobby_step ?rt1 ?evs2"
  note ev = demo_eval Settle_def settle_end_def settle_answer_def FlushSoon_def unbindRoom_def with_bag_def Player_Bag_def Spend_def Bag_Add_def
    wrap_s32_def ClearRoomAffinity_def
  have pl: "map_of (lr_players ?rt) 7 = Some 0" by (simp add: demo_eval)
  obtain c where c: "Player_Currency (lr_heap ?rt ! 0) = Some c" "within (cu_ops c)" "\<not> seen (cu_ops c) (''g1'' @ '':settle'')" "Balance c ''gold'' = 10"
    by (simp add: demo_eval within_def ring_ok_def Balance_def)
  obtain b where b: "Player_Bag (lr_heap ?rt ! 0) = Some b" "within (bg_ops b)"
    by (simp add: demo_eval within_def ring_ok_def Player_Bag_def)
  have pl2: "map_of (lr_players ?rt2) 7 = Some 0" by (simp add: ev)
  obtain c2 where c2: "Player_Currency (lr_heap ?rt2 ! 0) = Some c2" "seen (cu_ops c2) (''g1'' @ '':settle'')" "Balance c2 ''gold'' = 9"
    by (simp add: ev Balance_def)
  obtain b2 where b2: "Player_Bag (lr_heap ?rt2 ! 0) = Some b2" "seen (bg_ops b2) (''g1'' @ '':item'')" by (simp add: ev)
  from settle_charges_once [OF refl pl [unfolded demo_node_def] c(1) [unfolded demo_node_def] b(1) [unfolded demo_node_def] c(2) b(2) c(3) _ _ _ refl refl
      pl2 [unfolded demo_node_def] c2(1) [unfolded demo_node_def] b2(1) [unfolded demo_node_def] refl, folded demo_node_def] c(4) c2 b2(2)
  show ?thesis unfolding Let_def by auto
qed


text \<open>
  A settlement for a user who is not in the lobby is stored whoever has won: a loser who is
  offline is charged, and given the item, when the message is replayed.
\<close>

lemma offline_settle_ignores_winner:
  assumes "map_of (lr_players rt) uid = None" and "lr_offlineStore rt"
  shows "lr_io (Settle rt uid gameID winner price currency itemID dn) = lr_io rt @ [(lr_nextIo rt, PushOffline uid
    \<lparr>om_Type = OfflineMsgSettle, om_OpID = gameID, om_Price = price, om_Currency = currency, om_ItemID = itemID\<rparr> dn)]"
  using assms by (simp add: Settle_def offlinePush_def issue_def)

definition won :: OfflineMsg where
  "won = \<lparr>om_Type = OfflineMsgSettle, om_OpID = ''g1'', om_Price = 4, om_Currency = ''gold'', om_ItemID = 3\<rparr>"

lemmas settle_eval = demo_eval won_def OfflineMsgSettle_def applyOfflineMsg_def Settle_def settle_end_def settle_answer_def FlushSoon_def unbindRoom_def
  with_bag_def Player_Bag_def Spend_def Bag_Add_def wrap_s32_def ClearRoomAffinity_def

text \<open>
  The online and the offline path remember the payment of one game under different
  identifiers: a settlement that is delivered on both paths is paid twice.
\<close>

lemma settle_paths_charge_twice:
  "let rt = foldl lobby_step demo_node [EvLogin 7 ''g'', EvIo 0 DocMissing, EvGrant 7 ''m1'' [gold 10], EvSettle 7 ''g1'' 7 4 ''gold'' 3 None]
   in map_option (\<lambda>c. Balance c ''gold'') (Player_Currency (lr_heap (applyOfflineMsg rt 7 0 won) ! 0)) = Some 2"
  by (simp add: settle_eval Balance_def)

text \<open>A replayed message gives the item even when the price cannot be paid.\<close>

lemma offline_item_without_payment:
  "let rt = foldl lobby_step demo_node [EvLogin 7 ''g'', EvIo 0 DocMissing]; p = lr_heap (applyOfflineMsg rt 7 0 won) ! 0
   in map_option (\<lambda>c. Balance c ''gold'') (Player_Currency p) = Some 0 \<and> map_option (\<lambda>b. Count b 3) (Player_Bag p) = Some 1"
  by (simp add: settle_eval Balance_def Count_def)

end
