(* ===== verification/Lobby_Stores.thy ===== *)
theory Lobby_Stores
  imports Lobby_Runtime
begin

text \<open>
  The stores of the lobby (\<^verbatim>\<open>store.go\<close>, \<^verbatim>\<open>mailbox_store.go\<close>, \<^verbatim>\<open>offline_store.go\<close>, \<^verbatim>\<open>component_mail.go\<close>) and
  the wrapper of the database client below them (\<^verbatim>\<open>pkg/mongo\<close>). The driver is third-party code: its
  operations are the fields of \<open>driver\<close>, and what it documents of them is \<open>driver_laws\<close>. An operation
  runs in a goroutine of its own and is atomic in the database, so histories are sequences of
  operations in any order; one that fails may have been executed.
\<close>

section \<open>The driver and its wrapper\<close>

text \<open>
  A collection holds documents under their identifiers. A filter is the predicate and an update the
  function it denotes; an update of a missing document starts from \<open>None\<close>. A limit of zero is no limit.
\<close>

record ('db, 'id, 'doc) driver =
  dv_FindOne :: "'db \<Rightarrow> 'id \<Rightarrow> 'doc option"
  dv_UpdateByID :: "'db \<Rightarrow> 'id \<Rightarrow> ('doc option \<Rightarrow> 'doc) \<Rightarrow> bool \<Rightarrow> 'db"
  dv_InsertOne :: "'db \<Rightarrow> ('id \<Rightarrow> 'doc) \<Rightarrow> 'db \<times> 'id"
  dv_Find :: "'db \<Rightarrow> ('doc \<Rightarrow> bool) \<Rightarrow> ('doc \<Rightarrow> int) option \<Rightarrow> nat \<Rightarrow> 'doc list"
  dv_FindOneAndUpdate :: "'db \<Rightarrow> ('doc \<Rightarrow> bool) \<Rightarrow> ('doc \<Rightarrow> 'doc) \<Rightarrow> bool \<Rightarrow> 'db \<times> 'doc option"

text \<open>The outcomes of dialing and of the ping are arguments; a closed client has cancelled the context of its operations.\<close>

record MongoClient =
  mc_db :: string
  mc_cancelled :: bool

definition Mongo_Connect :: "string option \<Rightarrow> string option \<Rightarrow> string \<Rightarrow> string + MongoClient" where
  "Mongo_Connect dial ping dbName =
     (case dial of Some e \<Rightarrow> Inl (''mongo connect: '' @ e)
      | None \<Rightarrow> (case ping of Some e \<Rightarrow> Inl (''mongo ping: '' @ e) | None \<Rightarrow> Inr \<lparr>mc_db = dbName, mc_cancelled = False\<rparr>))"

definition Mongo_Close :: "MongoClient \<Rightarrow> string option \<Rightarrow> MongoClient \<times> string option" where
  "Mongo_Close c disconnect = (c\<lparr>mc_cancelled := True\<rparr>, disconnect)"

text \<open>The outcome of an operation: none, or an error and whether it was executed.\<close>

type_synonym fault = "(string \<times> bool) option"

definition fault_error :: "fault \<Rightarrow> string option" where
  "fault_error fl = map_option fst fl"

definition executed :: "fault \<Rightarrow> bool" where
  "executed fl = (case fl of None \<Rightarrow> True | Some (e, ex) \<Rightarrow> ex)"

definition FindByID :: "('db, 'id, 'doc) driver \<Rightarrow> fault \<Rightarrow> 'db \<Rightarrow> 'id \<Rightarrow> 'doc option \<times> string option" where
  "FindByID dv fl db i = (if fault_error fl = None then dv_FindOne dv db i else None, fault_error fl)"

definition UpdateByID :: "('db, 'id, 'doc) driver \<Rightarrow> fault \<Rightarrow> 'db \<Rightarrow> 'id \<Rightarrow> ('doc option \<Rightarrow> 'doc) \<Rightarrow> bool \<Rightarrow> 'db \<times> string option" where
  "UpdateByID dv fl db i update upsert = (if executed fl then dv_UpdateByID dv db i update upsert else db, fault_error fl)"

definition UpsertSetByID :: "('db, 'id, 'doc) driver \<Rightarrow> fault \<Rightarrow> 'db \<Rightarrow> 'id \<Rightarrow> ('doc option \<Rightarrow> 'doc) \<Rightarrow> 'db \<times> string option" where
  "UpsertSetByID dv fl db i upd = (if executed fl then dv_UpdateByID dv db i upd True else db, fault_error fl)"

definition InsertOne :: "('db, 'id, 'doc) driver \<Rightarrow> fault \<Rightarrow> 'db \<Rightarrow> ('id \<Rightarrow> 'doc) \<Rightarrow> 'db \<times> 'id option \<times> string option" where
  "InsertOne dv fl db doc =
     (if executed fl then fst (dv_InsertOne dv db doc) else db,
      if fault_error fl = None then Some (snd (dv_InsertOne dv db doc)) else None, fault_error fl)"

definition Mongo_Find :: "('db, 'id, 'doc) driver \<Rightarrow> fault \<Rightarrow> 'db \<Rightarrow> ('doc \<Rightarrow> bool) \<Rightarrow> ('doc \<Rightarrow> int) option \<Rightarrow> int \<Rightarrow> 'doc list \<times> string option" where
  "Mongo_Find dv fl db filt key limit =
     (if fault_error fl = None then dv_Find dv db filt key (if 0 < limit then nat limit else 0) else [], fault_error fl)"

definition FindOneAndUpdate :: "('db, 'id, 'doc) driver \<Rightarrow> fault \<Rightarrow> 'db \<Rightarrow> ('doc \<Rightarrow> bool) \<Rightarrow> ('doc \<Rightarrow> 'doc) \<Rightarrow> bool \<Rightarrow> 'db \<times> 'doc option \<times> string option" where
  "FindOneAndUpdate dv fl db filt update returnUpdated =
     (if executed fl then fst (dv_FindOneAndUpdate dv db filt update returnUpdated) else db,
      if fault_error fl = None then snd (dv_FindOneAndUpdate dv db filt update returnUpdated) else None, fault_error fl)"

text \<open>
  What the driver documents: \<open>docs\<close> is the content of a collection. An inserted document gets an
  identifier that is not in use; a search returns the matching documents in the order of the sort
  key, or the first ones up to the limit; \<^verbatim>\<open>findAndModify\<close> changes one matching document or finds none.
\<close>

definition driver_laws :: "('db \<Rightarrow> 'id \<rightharpoonup> 'doc) \<Rightarrow> ('db, 'id, 'doc) driver \<Rightarrow> bool" where
  "driver_laws docs dv \<longleftrightarrow>
     (\<forall>db i. dv_FindOne dv db i = docs db i)
   \<and> (\<forall>db i f up. docs (dv_UpdateByID dv db i f up) = (if up \<or> docs db i \<noteq> None then (docs db)(i \<mapsto> f (docs db i)) else docs db))
   \<and> (\<forall>db d. docs db (snd (dv_InsertOne dv db d)) = None
        \<and> docs (fst (dv_InsertOne dv db d)) = (docs db)(snd (dv_InsertOne dv db d) \<mapsto> d (snd (dv_InsertOne dv db d))))
   \<and> (\<forall>db P key n. \<exists>xs. set xs = {d. P d \<and> (\<exists>i. docs db i = Some d)} \<and> (\<forall>k. key = Some k \<longrightarrow> sorted (map k xs))
        \<and> dv_Find dv db P key n = (if n = 0 then xs else take n xs))
   \<and> (\<forall>db P f after. (case dv_FindOneAndUpdate dv db P f after of
          (db', None) \<Rightarrow> docs db' = docs db \<and> (\<forall>i d. docs db i = Some d \<longrightarrow> \<not> P d)
        | (db', Some d') \<Rightarrow> \<exists>i d. docs db i = Some d \<and> P d \<and> docs db' = (docs db)(i \<mapsto> f d) \<and> d' = (if after then f d else d)))"

section \<open>Players\<close>

text \<open>A field that a document lacks decodes to the zero value of its type.\<close>

definition zero_doc :: "int \<Rightarrow> PlayerDoc" where
  "zero_doc uid = \<lparr>pd_ID = uid, pd_Bag = NewBagState, pd_Currency = NewCurrencyState, pd_Friend = NewFriendState, pd_Rating = \<lparr>rs_MMR = 0\<rparr>\<rparr>"

fun set_field :: "PlayerDoc \<Rightarrow> string \<times> snapshot_any \<Rightarrow> PlayerDoc" where
  "set_field doc (f, BagSnapshot s) = (if f = BagField then doc\<lparr>pd_Bag := s\<rparr> else doc)"
| "set_field doc (f, CurrencySnapshot s) = (if f = CurrencyField then doc\<lparr>pd_Currency := s\<rparr> else doc)"
| "set_field doc (f, FriendSnapshot s) = (if f = FriendField then doc\<lparr>pd_Friend := s\<rparr> else doc)"
| "set_field doc (f, RatingSnapshot s) = (if f = RatingField then doc\<lparr>pd_Rating := s\<rparr> else doc)"

definition Player_Load :: "('db, int, PlayerDoc) driver \<Rightarrow> fault \<Rightarrow> 'db \<Rightarrow> int \<Rightarrow> PlayerDoc option \<times> string option" where
  "Player_Load dv fl db uid = FindByID dv fl db uid"

definition Store_FlushFields :: "('db, int, PlayerDoc) driver \<Rightarrow> fault \<Rightarrow> 'db \<Rightarrow> int \<Rightarrow> (string \<times> snapshot_any) list \<Rightarrow> 'db \<times> string option" where
  "Store_FlushFields dv fl db uid fs =
     UpsertSetByID dv fl db uid (\<lambda>d. foldl set_field (case d of None \<Rightarrow> zero_doc uid | Some doc \<Rightarrow> doc) fs)"

section \<open>Offline messages\<close>

record OfflineDoc =
  od_ID :: int
  od_Messages :: "OfflineMsg list"

definition Offline_Push :: "('db, int, OfflineDoc) driver \<Rightarrow> fault \<Rightarrow> 'db \<Rightarrow> int \<Rightarrow> OfflineMsg \<Rightarrow> 'db \<times> string option" where
  "Offline_Push dv fl db uid msg =
     UpdateByID dv fl db uid (\<lambda>d. case d of None \<Rightarrow> \<lparr>od_ID = uid, od_Messages = [msg]\<rparr> | Some doc \<Rightarrow> doc\<lparr>od_Messages := od_Messages doc @ [msg]\<rparr>) True"

definition Offline_Load :: "('db, int, OfflineDoc) driver \<Rightarrow> fault \<Rightarrow> 'db \<Rightarrow> int \<Rightarrow> OfflineMsg list \<times> string option" where
  "Offline_Load dv fl db uid =
     (case FindByID dv fl db uid of
        (Some doc, None) \<Rightarrow> (od_Messages doc, None)
      | (_, e) \<Rightarrow> ([], e))"

definition Offline_Ack :: "('db, int, OfflineDoc) driver \<Rightarrow> fault \<Rightarrow> 'db \<Rightarrow> int \<Rightarrow> string list \<Rightarrow> 'db \<times> string option" where
  "Offline_Ack dv fl db uid opIDs =
     (if opIDs = [] then (db, None)
      else UpdateByID dv fl db uid (\<lambda>d. case d of None \<Rightarrow> \<lparr>od_ID = uid, od_Messages = []\<rparr>
             | Some doc \<Rightarrow> doc\<lparr>od_Messages := filter (\<lambda>m. om_OpID m \<notin> set opIDs) (od_Messages doc)\<rparr>) False)"

section \<open>Mail\<close>

definition MailTypeFriendAccept :: string where "MailTypeFriendAccept = ''friend_accept''"

definition claimed_doc :: "MailDoc \<Rightarrow> MailDoc" where
  "claimed_doc m = m\<lparr>md_Claimed := True\<rparr>"

text \<open>
  A mail is inserted without identifier (the field is \<^verbatim>\<open>omitempty\<close> and no caller sets it), so the
  database gives it a fresh one; a preset identifier is not modelled.
\<close>

definition Mail_Insert :: "('db, nat, MailDoc) driver \<Rightarrow> fault \<Rightarrow> 'db \<Rightarrow> MailDoc \<Rightarrow> 'db \<times> string option" where
  "Mail_Insert dv fl db m = (case InsertOne dv fl db (\<lambda>i. m\<lparr>md_ID := i\<rparr>) of (db', i, e) \<Rightarrow> (db', e))"

definition MailStore_List :: "('db, nat, MailDoc) driver \<Rightarrow> fault \<Rightarrow> 'db \<Rightarrow> int \<Rightarrow> int \<Rightarrow> MailDoc list \<times> string option" where
  "MailStore_List dv fl db to limit = Mongo_Find dv fl db (\<lambda>m. md_To m = to) (Some (\<lambda>m. - md_Ts m)) limit"

definition MailStore_Claim :: "('db, nat, MailDoc) driver \<Rightarrow> fault \<Rightarrow> 'db \<Rightarrow> nat \<Rightarrow> int \<Rightarrow> 'db \<times> MailDoc option \<times> string option" where
  "MailStore_Claim dv fl db i to = FindOneAndUpdate dv fl db (\<lambda>m. md_ID m = i \<and> md_To m = to \<and> \<not> md_Claimed m) claimed_doc True"

definition MailStore_PendingFriendAccepts :: "('db, nat, MailDoc) driver \<Rightarrow> fault \<Rightarrow> 'db \<Rightarrow> int \<Rightarrow> MailDoc list \<times> string option" where
  "MailStore_PendingFriendAccepts dv fl db to =
     Mongo_Find dv fl db (\<lambda>m. md_To m = to \<and> md_Type m = MailTypeFriendAccept \<and> \<not> md_Claimed m) (Some md_Ts) 0"

definition MailStore_Get :: "('db, nat, MailDoc) driver \<Rightarrow> fault \<Rightarrow> 'db \<Rightarrow> nat \<Rightarrow> int \<Rightarrow> MailDoc option \<times> string option" where
  "MailStore_Get dv fl db i to =
     (case Mongo_Find dv fl db (\<lambda>m. md_ID m = i \<and> md_To m = to \<and> \<not> md_Claimed m) None 1 of
        (out, Some e) \<Rightarrow> (None, Some e)
      | ([], None) \<Rightarrow> (None, None)
      | (m # ms, None) \<Rightarrow> (Some m, None))"

text \<open>Without \<^verbatim>\<open>upsert\<close> the update is never applied to a missing document.\<close>

definition zero_mail :: "nat \<Rightarrow> MailDoc" where
  "zero_mail i = \<lparr>md_ID = i, md_To = 0, md_From = 0, md_Type = [], md_Attachments = [], md_Body = [], md_Ts = 0, md_Read = False, md_Claimed = False\<rparr>"

definition MailStore_MarkClaimed :: "('db, nat, MailDoc) driver \<Rightarrow> fault \<Rightarrow> 'db \<Rightarrow> nat \<Rightarrow> 'db \<times> string option" where
  "MailStore_MarkClaimed dv fl db i = UpdateByID dv fl db i (\<lambda>d. case d of None \<Rightarrow> claimed_doc (zero_mail i) | Some m \<Rightarrow> claimed_doc m) False"

subsection \<open>The mail handle of a player\<close>

record Mail =
  ml_uid :: int
  ml_store :: bool

definition NewMail :: "int \<Rightarrow> bool \<Rightarrow> Mail" where
  "NewMail uid store = \<lparr>ml_uid = uid, ml_store = store\<rparr>"

definition Mail_List :: "Mail \<Rightarrow> ('db, nat, MailDoc) driver \<Rightarrow> fault \<Rightarrow> 'db \<Rightarrow> int \<Rightarrow> MailDoc list \<times> string option" where
  "Mail_List h dv fl db limit = (if \<not> ml_store h then ([], None) else MailStore_List dv fl db (ml_uid h) limit)"

definition Mail_Claim :: "Mail \<Rightarrow> ('db, nat, MailDoc) driver \<Rightarrow> fault \<Rightarrow> 'db \<Rightarrow> nat \<Rightarrow> 'db \<times> MailDoc option \<times> string option" where
  "Mail_Claim h dv fl db i = (if \<not> ml_store h then (db, None, None) else MailStore_Claim dv fl db i (ml_uid h))"

definition Mail_Get :: "Mail \<Rightarrow> ('db, nat, MailDoc) driver \<Rightarrow> fault \<Rightarrow> 'db \<Rightarrow> nat \<Rightarrow> MailDoc option \<times> string option" where
  "Mail_Get h dv fl db i = (if \<not> ml_store h then (None, None) else MailStore_Get dv fl db i (ml_uid h))"

definition Mail_MarkClaimed :: "Mail \<Rightarrow> ('db, nat, MailDoc) driver \<Rightarrow> fault \<Rightarrow> 'db \<Rightarrow> nat \<Rightarrow> 'db \<times> string option" where
  "Mail_MarkClaimed h dv fl db i = (if \<not> ml_store h then (db, None) else MailStore_MarkClaimed dv fl db i)"

section \<open>The offline store keeps a queue per user\<close>

datatype offline_op = OpPush int OfflineMsg fault | OpAck int "string list" fault

fun offline_step :: "('db, int, OfflineDoc) driver \<Rightarrow> 'db \<Rightarrow> offline_op \<Rightarrow> 'db" where
  "offline_step dv db (OpPush uid m fl) = fst (Offline_Push dv fl db uid m)"
| "offline_step dv db (OpAck uid ids fl) = fst (Offline_Ack dv fl db uid ids)"

text \<open>The messages that a user has been sent and has not acknowledged since.\<close>

definition acked_in :: "int \<Rightarrow> offline_op list \<Rightarrow> OfflineMsg \<Rightarrow> bool" where
  "acked_in uid ops m \<longleftrightarrow> (\<exists>ids fl. OpAck uid ids fl \<in> set ops \<and> executed fl \<and> om_OpID m \<in> set ids)"

fun pending :: "int \<Rightarrow> offline_op list \<Rightarrow> OfflineMsg list" where
  "pending uid [] = []"
| "pending uid (OpPush u m fl # ops) = (if u = uid \<and> executed fl \<and> \<not> acked_in uid ops m then m # pending uid ops else pending uid ops)"
| "pending uid (OpAck u ids fl # ops) = pending uid ops"

definition stored_messages :: "(int \<rightharpoonup> OfflineDoc) \<Rightarrow> int \<Rightarrow> OfflineMsg list" where
  "stored_messages ds uid = (case ds uid of None \<Rightarrow> [] | Some d \<Rightarrow> od_Messages d)"

lemma driver_lawsD:
  assumes "driver_laws docs dv"
  shows "dv_FindOne dv db i = docs db i"
    and "docs (dv_UpdateByID dv db i f up) = (if up \<or> docs db i \<noteq> None then (docs db)(i \<mapsto> f (docs db i)) else docs db)"
    and "docs db (snd (dv_InsertOne dv db d)) = None"
    and "docs (fst (dv_InsertOne dv db d)) = (docs db)(snd (dv_InsertOne dv db d) \<mapsto> d (snd (dv_InsertOne dv db d)))"
    and "\<exists>xs. set xs = {d. P d \<and> (\<exists>i. docs db i = Some d)} \<and> (\<forall>k. key = Some k \<longrightarrow> sorted (map k xs))
        \<and> dv_Find dv db P key n = (if n = 0 then xs else take n xs)"
    and "case dv_FindOneAndUpdate dv db P g after of
          (db', None) \<Rightarrow> docs db' = docs db \<and> (\<forall>i d. docs db i = Some d \<longrightarrow> \<not> P d)
        | (db', Some d') \<Rightarrow> \<exists>i d. docs db i = Some d \<and> P d \<and> docs db' = (docs db)(i \<mapsto> g d) \<and> d' = (if after then g d else d)"
proof -
  note laws = assms [unfolded driver_laws_def]
  show "dv_FindOne dv db i = docs db i" using laws [THEN conjunct1] by simp
  note laws = laws [THEN conjunct2]
  show "docs (dv_UpdateByID dv db i f up) = (if up \<or> docs db i \<noteq> None then (docs db)(i \<mapsto> f (docs db i)) else docs db)"
    using laws [THEN conjunct1] by blast
  note laws = laws [THEN conjunct2]
  show "docs db (snd (dv_InsertOne dv db d)) = None"
    "docs (fst (dv_InsertOne dv db d)) = (docs db)(snd (dv_InsertOne dv db d) \<mapsto> d (snd (dv_InsertOne dv db d)))"
    using laws [THEN conjunct1] by blast+
  note laws = laws [THEN conjunct2]
  show "\<exists>xs. set xs = {d. P d \<and> (\<exists>i. docs db i = Some d)} \<and> (\<forall>k. key = Some k \<longrightarrow> sorted (map k xs))
        \<and> dv_Find dv db P key n = (if n = 0 then xs else take n xs)"
    by (rule laws [THEN conjunct1, THEN spec, THEN spec, THEN spec, THEN spec])
  show "case dv_FindOneAndUpdate dv db P g after of
          (db', None) \<Rightarrow> docs db' = docs db \<and> (\<forall>i d. docs db i = Some d \<longrightarrow> \<not> P d)
        | (db', Some d') \<Rightarrow> \<exists>i d. docs db i = Some d \<and> P d \<and> docs db' = (docs db)(i \<mapsto> g d) \<and> d' = (if after then g d else d)"
    by (rule laws [THEN conjunct2, THEN spec, THEN spec, THEN spec, THEN spec])
qed

lemma stored_step:
  assumes "driver_laws docs dv"
  shows "stored_messages (docs (offline_step dv db p)) uid =
    (case p of OpPush u m fl \<Rightarrow> if u = uid \<and> executed fl then stored_messages (docs db) uid @ [m] else stored_messages (docs db) uid
     | OpAck u ids fl \<Rightarrow> if u = uid \<and> executed fl then filter (\<lambda>m. om_OpID m \<notin> set ids) (stored_messages (docs db) uid) else stored_messages (docs db) uid)"
  by (cases p) (auto simp: stored_messages_def Offline_Push_def Offline_Ack_def UpdateByID_def driver_lawsD(1,2) [OF assms] split: option.splits)

lemma acked_in_Cons:
  "acked_in uid (OpPush u m fl # ops) = acked_in uid ops"
  "acked_in uid (OpAck u ids fl # ops) = (\<lambda>m. u = uid \<and> executed fl \<and> om_OpID m \<in> set ids \<or> acked_in uid ops m)"
  by (auto simp: acked_in_def fun_eq_iff)

lemma stored_run:
  assumes "driver_laws docs dv"
  shows "stored_messages (docs (foldl (offline_step dv) db ops)) uid = filter (\<lambda>m. \<not> acked_in uid ops m) (stored_messages (docs db) uid) @ pending uid ops"
proof (induction ops arbitrary: db)
  case Nil
  then show ?case by (simp add: acked_in_def)
next
  case (Cons p ops)
  have run: "stored_messages (docs (foldl (offline_step dv) db (p # ops))) uid
      = filter (\<lambda>m. \<not> acked_in uid ops m) (stored_messages (docs (offline_step dv db p)) uid) @ pending uid ops"
    using Cons.IH by simp
  show ?case unfolding run stored_step [OF assms] by (cases p) (auto simp: acked_in_Cons intro: filter_cong)
qed

text \<open>C10: The offline store keeps one queue per user. After every history of pushes and acknowledgements,
  of any users and with failures that may or may not have reached the database, \<^verbatim>\<open>Load\<close> returns
  exactly the messages that were pushed for the user and have not been acknowledged since, in the
  order of the pushes; nothing is lost by an acknowledgement of other messages or another user.\<close>

theorem offline_store_refines:
  assumes "driver_laws docs dv" and "docs db = Map.empty"
  shows "Offline_Load dv None (foldl (offline_step dv) db ops) uid = (pending uid ops, None)"
  using stored_run [OF assms(1), of db ops uid] assms(2)
  by (auto simp: Offline_Load_def FindByID_def fault_error_def driver_lawsD(1,2) [OF assms(1)] stored_messages_def split: option.splits)

text \<open>A driver that keeps a collection in memory satisfies the laws.\<close>

definition mem_docs :: "('id, 'doc) gomap \<Rightarrow> 'doc list" where
  "mem_docs db = map (\<lambda>i. the (map_of db i)) (remdups (map fst db))"

definition mem_find :: "('id, 'doc) gomap \<Rightarrow> ('doc \<Rightarrow> bool) \<Rightarrow> ('doc \<Rightarrow> int) option \<Rightarrow> nat \<Rightarrow> 'doc list" where
  "mem_find db P key n =
     (let xs = (case key of None \<Rightarrow> id | Some k \<Rightarrow> sort_key k) (filter P (mem_docs db)) in if n = 0 then xs else take n xs)"

definition mem_modify :: "('id, 'doc) gomap \<Rightarrow> ('doc \<Rightarrow> bool) \<Rightarrow> ('doc \<Rightarrow> 'doc) \<Rightarrow> bool \<Rightarrow> ('id, 'doc) gomap \<times> 'doc option" where
  "mem_modify db P f after =
     (case List.find (\<lambda>i. P (the (map_of db i))) (map fst db) of
        None \<Rightarrow> (db, None)
      | Some i \<Rightarrow> let d = the (map_of db i) in (mput i (f d) db, Some (if after then f d else d)))"

definition mem_driver :: "('id list \<Rightarrow> 'id) \<Rightarrow> (('id, 'doc) gomap, 'id, 'doc) driver" where
  "mem_driver fresh =
     \<lparr>dv_FindOne = map_of,
      dv_UpdateByID = (\<lambda>db i f up. if up \<or> map_of db i \<noteq> None then mput i (f (map_of db i)) db else db),
      dv_InsertOne = (\<lambda>db d. let i = fresh (map fst db) in (mput i (d i) db, i)),
      dv_Find = mem_find, dv_FindOneAndUpdate = mem_modify\<rparr>"

lemma set_mem_docs: "set (mem_docs db) = {d. \<exists>i. map_of db i = Some d}"
proof -
  have "(\<exists>i \<in> fst ` set db. d = the (map_of db i)) \<longleftrightarrow> (\<exists>i. map_of db i = Some d)" for d
    unfolding dom_map_of_conv_image_fst [symmetric] dom_def by force
  then show ?thesis unfolding mem_docs_def set_map set_remdups by blast
qed

lemma mem_modify_law:
  "case mem_modify db P f after of
     (db', None) \<Rightarrow> map_of db' = map_of db \<and> (\<forall>i d. map_of db i = Some d \<longrightarrow> \<not> P d)
   | (db', Some d') \<Rightarrow> \<exists>i d. map_of db i = Some d \<and> P d \<and> map_of db' = (map_of db)(i \<mapsto> f d) \<and> d' = (if after then f d else d)"
proof (cases "List.find (\<lambda>i. P (the (map_of db i))) (map fst db)")
  case None
  then have "\<not> P d" if "map_of db i = Some d" for i d
    using that map_of_SomeD [OF that] by (force simp: find_None_iff)
  with None show ?thesis by (simp add: mem_modify_def)
next
  case (Some i)
  then have "P (the (map_of db i))" "i \<in> set (map fst db)" unfolding find_Some_iff by (metis nth_mem)+
  moreover then obtain d where "map_of db i = Some d" by (metis map_of_eq_None_iff list.set_map not_None_eq)
  ultimately show ?thesis using Some by (auto simp: mem_modify_def Let_def intro!: exI [of _ i] exI [of _ d])
qed

lemma mem_driver_laws: "(\<And>is. fresh is \<notin> set is) \<Longrightarrow> driver_laws map_of (mem_driver fresh)"
proof -
  assume fresh: "\<And>is. fresh is \<notin> set is"
  have none: "map_of db (fresh (map fst db)) = None" for db using fresh [of "map fst db"] by (simp add: map_of_eq_None_iff)
  have search: "\<exists>xs. set xs = {d. P d \<and> (\<exists>i. map_of db i = Some d)} \<and> (\<forall>k. key = Some k \<longrightarrow> sorted (map k xs))
      \<and> mem_find db P key n = (if n = 0 then xs else take n xs)" for db P key n
    by (intro exI [of _ "(case key of None \<Rightarrow> id | Some k \<Rightarrow> sort_key k) (filter P (mem_docs db))"])
      (auto simp: mem_find_def Let_def set_mem_docs split: option.splits)
  show ?thesis unfolding driver_laws_def mem_driver_def driver.simps
    by (intro conjI allI search mem_modify_law) (simp_all add: Let_def none)
qed

definition fresh_nat :: "nat list \<Rightarrow> nat" where "fresh_nat is = Suc (foldr max is 0)"

definition fresh_int :: "int list \<Rightarrow> int" where "fresh_int is = foldr max is 0 + 1"

lemma foldr_max: "x \<in> set xs \<Longrightarrow> x \<le> foldr max xs (z :: 'a :: linorder)"
  by (induction xs) (auto simp: le_max_iff_disj)

lemma mem_drivers: "driver_laws map_of (mem_driver fresh_nat)" "driver_laws map_of (mem_driver fresh_int)"
  using foldr_max [where z = "0 :: nat"] foldr_max [where z = "0 :: int"]
  by (force intro!: mem_driver_laws simp: fresh_nat_def fresh_int_def)+

text \<open>
  Two messages for user 7, whose second push is reported as failed although it was executed; the
  acknowledgement of the first one leaves the second.
\<close>

definition letter :: "string \<Rightarrow> OfflineMsg" where
  "letter x = \<lparr>om_Type = OfflineMsgSettle, om_OpID = x, om_Price = 4, om_Currency = ''gold'', om_ItemID = 3\<rparr>"

theorem offline_store_refines_witness:
  "Offline_Load (mem_driver fresh_int) None
     (foldl (offline_step (mem_driver fresh_int)) [] [OpPush 7 (letter ''g1'') None, OpPush 8 (letter ''g1'') None,
        OpPush 7 (letter ''g2'') (Some (''timeout'', True)), OpAck 7 [''g1''] None]) 7 = ([letter ''g2''], None)"
  using offline_store_refines [OF mem_drivers(2), of "[]" "[OpPush 7 (letter ''g1'') None, OpPush 8 (letter ''g1'') None,
        OpPush 7 (letter ''g2'') (Some (''timeout'', True)), OpAck 7 [''g1''] None]" 7]
  by (simp add: acked_in_def executed_def letter_def)

text \<open>A message without an operation identifier is replayed at every login: the runtime acknowledges only non-empty identifiers.\<close>

lemma nameless_never_acked: "replay_messages rt uid pp [m] a = run_after (applyOfflineMsg rt uid pp m) a" if "om_OpID m = []"
  using that by (simp add: replay_messages_def)

section \<open>A mail is claimed once\<close>

datatype mail_op = OpInsert MailDoc fault | OpClaim nat int fault | OpMark nat fault

fun mail_step :: "('db, nat, MailDoc) driver \<Rightarrow> 'db \<Rightarrow> mail_op \<Rightarrow> 'db" where
  "mail_step dv db (OpInsert m fl) = fst (Mail_Insert dv fl db m)"
| "mail_step dv db (OpClaim i to fl) = fst (MailStore_Claim dv fl db i to)"
| "mail_step dv db (OpMark i fl) = fst (MailStore_MarkClaimed dv fl db i)"

text \<open>The mails that the claims of a history hand out, in order.\<close>

fun mail_claims :: "('db, nat, MailDoc) driver \<Rightarrow> 'db \<Rightarrow> mail_op list \<Rightarrow> (int \<times> MailDoc) list" where
  "mail_claims dv db [] = []"
| "mail_claims dv db (p # ops) =
     (case p of OpClaim i to fl \<Rightarrow> (case fst (snd (MailStore_Claim dv fl db i to)) of None \<Rightarrow> [] | Some m \<Rightarrow> [(to, m)]) | _ \<Rightarrow> [])
     @ mail_claims dv (mail_step dv db p) ops"

definition mails_ok :: "(nat \<rightharpoonup> MailDoc) \<Rightarrow> bool" where
  "mails_ok ds \<longleftrightarrow> (\<forall>i m. ds i = Some m \<longrightarrow> md_ID m = i)"

definition is_claimed :: "(nat \<rightharpoonup> MailDoc) \<Rightarrow> nat \<Rightarrow> bool" where
  "is_claimed ds i \<longleftrightarrow> (\<exists>m. ds i = Some m \<and> md_Claimed m)"

lemma claim_cases:
  assumes "driver_laws docs dv" and "mails_ok (docs db)"
  obtains (none) "fst (snd (MailStore_Claim dv fl db i to)) = None" "docs (fst (MailStore_Claim dv fl db i to)) = docs db"
      "executed fl \<longrightarrow> (\<forall>m. docs db i = Some m \<longrightarrow> md_To m \<noteq> to \<or> md_Claimed m)"
    | (claimed) m where "docs db i = Some m" "md_To m = to" "\<not> md_Claimed m"
      "docs (fst (MailStore_Claim dv fl db i to)) = (docs db)(i \<mapsto> claimed_doc m)"
      "fst (snd (MailStore_Claim dv fl db i to)) = (if fl = None then Some (claimed_doc m) else None)"
proof (cases "executed fl")
  case False
  then have "fl \<noteq> None" by (cases fl) (auto simp: executed_def)
  with False that(1) show ?thesis by (auto simp: MailStore_Claim_def FindOneAndUpdate_def fault_error_def)
next
  case True
  let ?P = "\<lambda>m. md_ID m = i \<and> md_To m = to \<and> \<not> md_Claimed m"
  obtain db' r where r: "dv_FindOneAndUpdate dv db ?P claimed_doc True = (db', r)" by (cases "dv_FindOneAndUpdate dv db ?P claimed_doc True")
  note law = driver_lawsD(6) [OF assms(1), where db = db and P = ?P and g = claimed_doc and after = True, unfolded r]
  show ?thesis
  proof (cases r)
    case None
    with law r True that(1) assms(2) show ?thesis
      by (auto simp: MailStore_Claim_def FindOneAndUpdate_def mails_ok_def)
  next
    case (Some d')
    with law obtain j m where m: "docs db j = Some m" "?P m" "docs db' = (docs db)(j \<mapsto> claimed_doc m)" "d' = claimed_doc m" by auto
    with assms(2) have "j = i" by (auto simp: mails_ok_def)
    with m r True Some that(2) [of m] show ?thesis
      by (auto simp: MailStore_Claim_def FindOneAndUpdate_def fault_error_def)
  qed
qed

lemma mail_step_ok:
  assumes "driver_laws docs dv" and "mails_ok (docs db)"
  shows "mails_ok (docs (mail_step dv db p)) \<and> (is_claimed (docs db) i \<longrightarrow> is_claimed (docs (mail_step dv db p)) i)"
proof (cases p)
  case (OpInsert m fl)
  with assms(2) driver_lawsD(3,4) [OF assms(1), of db "\<lambda>i. m\<lparr>md_ID := i\<rparr>"] show ?thesis
    by (auto simp: Mail_Insert_def InsertOne_def mails_ok_def is_claimed_def)
next
  case (OpClaim j to fl)
  show ?thesis
    by (rule claim_cases [OF assms, of fl j to]) (use OpClaim assms(2) in \<open>auto simp: mails_ok_def is_claimed_def claimed_doc_def\<close>)
next
  case (OpMark j fl)
  with assms(2) show ?thesis
    by (auto simp: MailStore_MarkClaimed_def UpdateByID_def driver_lawsD(2) [OF assms(1)] mails_ok_def is_claimed_def claimed_doc_def zero_mail_def)
qed

lemma claims_of_claimed:
  assumes "driver_laws docs dv" and "mails_ok (docs db)"
  shows "(\<forall>(to, m) \<in> set (mail_claims dv db ops). md_To m = to \<and> md_Claimed m \<and> \<not> is_claimed (docs db) (md_ID m))
    \<and> distinct (map (md_ID \<circ> snd) (mail_claims dv db ops))"
  using assms(2)
proof (induction ops arbitrary: db)
  case (Cons p ops)
  note st = mail_step_ok [OF assms(1) Cons.prems, of p]
  note IH = Cons.IH [OF st [THEN conjunct1]]
  have rest: "md_To m = to \<and> md_Claimed m \<and> \<not> is_claimed (docs db) (md_ID m)" if "(to, m) \<in> set (mail_claims dv (mail_step dv db p) ops)" for to m
    using IH that st [THEN conjunct2] by auto
  show ?case
  proof (cases "\<exists>i to fl. p = OpClaim i to fl \<and> fst (snd (MailStore_Claim dv fl db i to)) \<noteq> None")
    case False
    then have "mail_claims dv db (p # ops) = mail_claims dv (mail_step dv db p) ops" by (cases p) (auto split: option.splits)
    with rest IH show ?thesis by auto
  next
    case True
    then obtain i to fl where p: "p = OpClaim i to fl" and some: "fst (snd (MailStore_Claim dv fl db i to)) \<noteq> None" by blast
    show ?thesis
    proof (rule claim_cases [OF assms(1) Cons.prems, of fl i to])
      fix m assume m: "docs db i = Some m" "md_To m = to" "\<not> md_Claimed m" "docs (fst (MailStore_Claim dv fl db i to)) = (docs db)(i \<mapsto> claimed_doc m)"
        "fst (snd (MailStore_Claim dv fl db i to)) = (if fl = None then Some (claimed_doc m) else None)"
      then have fl: "fl = None" using some by (auto split: if_splits)
      have i: "md_ID (claimed_doc m) = i" "md_To (claimed_doc m) = to" "md_Claimed (claimed_doc m)"
        using m Cons.prems by (auto simp: mails_ok_def claimed_doc_def)
      have cl: "mail_claims dv db (p # ops) = (to, claimed_doc m) # mail_claims dv (mail_step dv db p) ops" using m(5) p fl by simp
      have "is_claimed (docs (mail_step dv db p)) i" "\<not> is_claimed (docs db) i" using m p i by (auto simp: is_claimed_def)
      moreover from calculation(1) have "i \<notin> set (map (md_ID \<circ> snd) (mail_claims dv (mail_step dv db p) ops))"
        using IH [THEN conjunct1] by auto
      ultimately show ?thesis unfolding cl using IH [THEN conjunct2] rest i by auto
    qed (use some in simp)
  qed
qed simp

text \<open>C11: A mail is handed out once, and only to its addressee. Over every history of inserts, claims and
  marks on the mailbox, by any users and with failures that may or may not have reached the
  database, no two successful claims return the same mail, and each one returns a mail of the user
  who claims it, marked as claimed. A claim of an unclaimed mail by its addressee that does not
  fail succeeds.\<close>

theorem mail_claimed_once:
  assumes "driver_laws docs dv" and "docs db0 = Map.empty" and "db = foldl (mail_step dv) db0 before"
  shows "distinct (map (md_ID \<circ> snd) (mail_claims dv db0 ops)) \<and> (\<forall>(to, m) \<in> set (mail_claims dv db0 ops). md_To m = to \<and> md_Claimed m)
    \<and> (\<forall>i m. docs db i = Some m \<and> \<not> md_Claimed m \<longrightarrow> snd (MailStore_Claim dv None db i (md_To m)) = (Some (m\<lparr>md_Claimed := True\<rparr>), None))"
proof (intro conjI allI impI)
  have ok: "mails_ok (docs db0)" by (simp add: assms(2) mails_ok_def)
  show "distinct (map (md_ID \<circ> snd) (mail_claims dv db0 ops))" "\<forall>(to, m) \<in> set (mail_claims dv db0 ops). md_To m = to \<and> md_Claimed m"
    using claims_of_claimed [OF assms(1) ok, of ops] by auto
  have "mails_ok (docs (foldl (mail_step dv) d ps))" if "mails_ok (docs d)" for d ps
    using that by (induction ps arbitrary: d) (simp_all add: mail_step_ok [OF assms(1)])
  then have okb: "mails_ok (docs db)" using ok by (simp add: assms(3))
  fix i m assume m: "docs db i = Some m \<and> \<not> md_Claimed m"
  have "snd (snd (MailStore_Claim dv None db i (md_To m))) = None" by (simp add: MailStore_Claim_def FindOneAndUpdate_def fault_error_def)
  moreover have "fst (snd (MailStore_Claim dv None db i (md_To m))) = Some (claimed_doc m)"
    by (rule claim_cases [OF assms(1) okb, of None i "md_To m"]) (use m in \<open>auto simp: executed_def\<close>)
  ultimately show "snd (MailStore_Claim dv None db i (md_To m)) = (Some (m\<lparr>md_Claimed := True\<rparr>), None)"
    by (simp add: prod_eq_iff claimed_doc_def)
qed

text \<open>A mail for user 7 that is claimed by a stranger, then by its addressee twice.\<close>

definition demo_mail :: MailDoc where
  "demo_mail = (zero_mail 0)\<lparr>md_To := 7, md_From := 8, md_Type := MailTypeFriendAccept\<rparr>"

theorem mail_claimed_once_witness:
  "mail_claims (mem_driver fresh_nat) [] [OpInsert demo_mail None, OpClaim 1 8 None, OpClaim 1 7 None, OpClaim 1 7 None]
     = [(7, demo_mail\<lparr>md_ID := 1, md_Claimed := True\<rparr>)]
   \<and> snd (MailStore_Claim (mem_driver fresh_nat) None (foldl (mail_step (mem_driver fresh_nat)) [] [OpInsert demo_mail None]) 1 7)
     = (Some (demo_mail\<lparr>md_ID := 1, md_Claimed := True\<rparr>), None)"
proof
  let ?db = "foldl (mail_step (mem_driver fresh_nat)) [] [OpInsert demo_mail None]"
  show "mail_claims (mem_driver fresh_nat) [] [OpInsert demo_mail None, OpClaim 1 8 None, OpClaim 1 7 None, OpClaim 1 7 None]
     = [(7, demo_mail\<lparr>md_ID := 1, md_Claimed := True\<rparr>)]"
    by code_simp
  have db: "map_of ?db 1 = Some (demo_mail\<lparr>md_ID := 1\<rparr>)" by code_simp
  have "\<not> md_Claimed (demo_mail\<lparr>md_ID := 1\<rparr>)" by (simp add: demo_mail_def zero_mail_def)
  with db have "map_of ?db 1 = Some (demo_mail\<lparr>md_ID := 1\<rparr>) \<and> \<not> md_Claimed (demo_mail\<lparr>md_ID := 1\<rparr>)" by blast
  from mail_claimed_once [where before = "[OpInsert demo_mail None]" and ops = "[]", OF mem_drivers(1) _ refl, THEN conjunct2, THEN conjunct2,
      THEN spec, THEN spec, THEN mp, OF _ this]
  show "snd (MailStore_Claim (mem_driver fresh_nat) None ?db 1 7) = (Some (demo_mail\<lparr>md_ID := 1, md_Claimed := True\<rparr>), None)"
    by (simp add: demo_mail_def zero_mail_def del: mail_step.simps)
qed

section \<open>Replaying offline messages after a crash\<close>

lemma evict_seen: "od_seenSet (evict r) \<subseteq> od_seenSet r"
proof (induction r rule: evict.induct)
  case (1 r)
  show ?case
  proof (cases "od_max r < int (length (od_order r)) \<and> first_unprotected (od_protected r) (od_order r) \<noteq> None")
    case True
    then obtain i where i: "first_unprotected (od_protected r) (od_order r) = Some i" by auto
    let ?r = "r\<lparr>od_order := take i (od_order r) @ drop (Suc i) (od_order r), od_seenSet := od_seenSet r - {od_order r ! i}\<rparr>"
    have "evict r = evict ?r" using True i by (subst evict.simps) simp
    with "1.IH" [of i] True i show ?thesis by auto
  next
    case False
    then have "evict r = r" by (subst evict.simps) (auto split: option.splits)
    then show ?thesis by simp
  qed
qed

lemma remember_seen: "od_seenSet (remember r x) \<subseteq> insert x (od_seenSet r)"
  using evict_seen [of "r\<lparr>od_seenSet := insert x (od_seenSet r), od_order := od_order r @ [x]\<rparr>"] by (auto simp: remember_def)

text \<open>
  A store that executes messages in order, remembers the identifiers of the ones it takes, and
  refuses the others; what it refuses once it refuses later, too.
\<close>

locale replayed =
  fixes ring :: "'c \<Rightarrow> opDedup" and exec :: "'c \<Rightarrow> 'm \<Rightarrow> 'c" and ident :: "'m \<Rightarrow> string" and takes :: "'c \<Rightarrow> 'm \<Rightarrow> bool" and good :: "'c \<Rightarrow> bool"
  assumes seen_law: "seen (ring c) (ident m) \<Longrightarrow> exec c m = c"
    and taken_law: "\<not> seen (ring c) (ident m) \<Longrightarrow> takes c m \<Longrightarrow> ring (exec c m) = remember (ring c) (ident m)"
    and refused_law: "\<not> takes c m \<Longrightarrow> exec c m = c"
    and antitone_law: "good c \<Longrightarrow> \<not> takes c m \<Longrightarrow> \<not> takes (exec c m') m"
    and good_law: "good c \<Longrightarrow> good (exec c m)"
    and ident_law: "ident m \<noteq> []"
begin

lemma exec_ring: "ring (exec c m) = ring c \<or> ring (exec c m) = remember (ring c) (ident m)"
  using seen_law taken_law refused_law by metis

lemma exec_within: "within (ring c) \<Longrightarrow> within (ring (exec c m))"
  using exec_ring [of c m] within_remember by auto

lemma exec_seen: "od_seenSet (ring (exec c m)) \<subseteq> insert (ident m) (od_seenSet (ring c))"
  using exec_ring [of c m] remember_seen [of "ring c" "ident m"] by auto

lemma held_exec:
  assumes "within (ring c)" and "held (ring c) x b" and "int (Suc b) < od_max (ring c)"
  shows "held (ring (exec c m)) x (Suc b)"
proof -
  have "held (remember (ring c) (ident m)) x (Suc b)"
    using held_step [of "ring c" x b "{}" "Remember (ident m)"] assms by (simp add: within_def protects_def)
  with exec_ring [of c m] held_mono [OF assms(2), of "Suc b"] show ?thesis by auto
qed

text \<open>After the messages every one of them is remembered or refused.\<close>

lemma settled:
  assumes "within (ring c)" and "good c" and "distinct (map ident ms)" and "\<forall>m \<in> set ms. \<not> seen (ring c) (ident m)"
    and "int (length ms) \<le> od_max (ring c)"
  defines "c1 \<equiv> foldl exec c ms"
  shows "within (ring c1) \<and> good c1 \<and> od_max (ring c1) = od_max (ring c) \<and> od_seenSet (ring c1) \<subseteq> od_seenSet (ring c) \<union> ident ` set ms
    \<and> (\<forall>m \<in> set ms. held (ring c1) (ident m) (length ms - 1) \<or> \<not> takes c1 m)"
  unfolding c1_def using assms(3-5)
proof (induction ms rule: rev_induct)
  case Nil
  with assms(1,2) show ?case by simp
next
  case (snoc y ms)
  let ?c = "foldl exec c ms"
  from snoc have IH: "within (ring ?c)" "good ?c" "od_max (ring ?c) = od_max (ring c)" "od_seenSet (ring ?c) \<subseteq> od_seenSet (ring c) \<union> ident ` set ms"
    "\<forall>m \<in> set ms. held (ring ?c) (ident m) (length ms - 1) \<or> \<not> takes ?c m" by auto
  have ok: "ring_ok (ring ?c)" using IH(1) by (simp add: within_def)
  have new: "\<not> seen (ring ?c) (ident y)"
    using snoc.prems IH(4) ident_law [of y] by (auto simp: seen_def)
  have mx: "od_max (ring (exec ?c y)) = od_max (ring c)" using exec_ring [of ?c y] IH(3) by auto
  have old: "held (ring (exec ?c y)) (ident m) (length ms) \<or> \<not> takes (exec ?c y) m" if m: "m \<in> set ms" for m
  proof (cases "takes ?c m")
    case True
    with IH(5) m have h: "held (ring ?c) (ident m) (length ms - 1)" by blast
    have "length ms > 0" using m by (cases ms) auto
    with held_exec [OF IH(1) h, of y] snoc.prems(3) IH(3) show ?thesis by simp
  qed (use antitone_law IH(2) in blast)
  have now: "held (ring (exec ?c y)) (ident y) (length ms) \<or> \<not> takes (exec ?c y) y"
  proof (cases "takes ?c y")
    case True
    have "held (remember (ring ?c) (ident y)) (ident y) 0"
      using remember_new_order [OF ok ident_law new] IH(1) ok by (simp add: within_def ring_ok_def)
    with taken_law [OF new True] held_mono show ?thesis by (metis le0)
  qed (simp add: refused_law)
  show ?case
    using exec_within [OF IH(1)] good_law [OF IH(2)] mx exec_seen [of ?c y] IH(4) old now by auto
qed

lemma replay_is_noop:
  assumes "within (ring c)" and "good c" and "distinct (map ident ms)" and "\<forall>m \<in> set ms. \<not> seen (ring c) (ident m)"
    and "int (length ms) \<le> od_max (ring c)" and "c1 = foldl exec c ms" and "ring c2 = ring c1" and "takes c2 = takes c1" and "m \<in> set ms"
  shows "exec c2 m = c2"
proof -
  note s = settled [OF assms(1-5), folded assms(6)]
  from s assms(9) consider "held (ring c1) (ident m) (length ms - 1)" | "\<not> takes c1 m" by blast
  then show ?thesis
  proof cases
    case 1
    then have "seen (ring c2) (ident m)" using s ident_law [of m] assms(7) by (auto simp: held_def seen_def within_def ring_ok_def)
    then show ?thesis by (rule seen_law)
  qed (use assms(8) refused_law in simp)
qed

end

definition msg_spend :: "Currency \<Rightarrow> OfflineMsg \<Rightarrow> Currency" where
  "msg_spend c m = (if om_Type m = OfflineMsgSettle \<and> 0 < om_Price m then fst (Spend c (om_OpID m @ '':spend'') (om_Currency m) (om_Price m)) else c)"

definition msg_item :: "Bag \<Rightarrow> OfflineMsg \<Rightarrow> Bag" where
  "msg_item b m = (if om_Type m = OfflineMsgSettle \<and> om_ItemID m \<noteq> 0 then fst (Bag_Add b (om_OpID m @ '':item'') (om_ItemID m) 1) else b)"

definition can_pay :: "Currency \<Rightarrow> OfflineMsg \<Rightarrow> bool" where
  "can_pay c m \<longleftrightarrow> om_Type m = OfflineMsgSettle \<and> 0 < om_Price m \<and> om_Price m \<le> Balance c (om_Currency m)"

definition gives_item :: "Bag \<Rightarrow> OfflineMsg \<Rightarrow> bool" where
  "gives_item b m \<longleftrightarrow> om_Type m = OfflineMsgSettle \<and> om_ItemID m \<noteq> 0"

definition funds_ok :: "Currency \<Rightarrow> bool" where
  "funds_ok c \<longleftrightarrow> (\<forall>kind. Balance c kind < 2 ^ 63)"

lemma msg_spend_balance:
  assumes "funds_ok c"
  shows "Balance (msg_spend c m) kind \<le> Balance c kind"
proof -
  have "wrap_s64 (Balance c k - om_Price m) = Balance c k - om_Price m" if "0 < om_Price m" "om_Price m \<le> Balance c k" for k
    using that assms by (intro wrap_s64_id) (auto simp: in_s64_def funds_ok_def dest!: spec [of _ k])
  then show ?thesis by (auto simp: msg_spend_def Spend_def Balance_def Let_def)
qed

interpretation wallet_replay: replayed cu_ops msg_spend "\<lambda>m. om_OpID m @ '':spend''" can_pay funds_ok
proof
  fix c m m'
  show "funds_ok c \<Longrightarrow> \<not> can_pay c m \<Longrightarrow> \<not> can_pay (msg_spend c m') m"
    using msg_spend_balance [of c m' "om_Currency m"] by (auto simp: can_pay_def)
  show "funds_ok c \<Longrightarrow> funds_ok (msg_spend c m)"
    using msg_spend_balance [of c m] by (auto simp: funds_ok_def intro: le_less_trans)
qed (auto simp: msg_spend_def can_pay_def Spend_def Balance_def Let_def)

interpretation bag_replay: replayed bg_ops msg_item "\<lambda>m. om_OpID m @ '':item''" gives_item "\<lambda>b. True"
  by unfold_locales (auto simp: msg_item_def gives_item_def Bag_Add_def Let_def)

lemma put_same: "pl_components p (Component_Name x) = Some x \<Longrightarrow> put_component x p = p"
  by (simp add: put_component_def map_upd_triv)

lemma other_frames [simp]:
  "Player_Friend (put_component (CurrencyComponent c) p) = Player_Friend p" "Player_Friend (put_component (BagComponent b) p) = Player_Friend p"
  "Player_Rating (put_component (CurrencyComponent c) p) = Player_Rating p" "Player_Rating (put_component (BagComponent b) p) = Player_Rating p"
  by (simp_all add: Player_Friend_def Player_Rating_def put_component_def component_names)

text \<open>The player after a replay.\<close>

lemma applied:
  assumes "pp < length (lr_heap rt)" and "Player_Currency (lr_heap rt ! pp) = Some c" and "Player_Bag (lr_heap rt ! pp) = Some b"
  shows "Player_Currency (lr_heap (applyOfflineMsg rt uid pp m) ! pp) = Some (msg_spend c m)
    \<and> Player_Bag (lr_heap (applyOfflineMsg rt uid pp m) ! pp) = Some (msg_item b m)
    \<and> Player_Friend (lr_heap (applyOfflineMsg rt uid pp m) ! pp) = Player_Friend (lr_heap rt ! pp)
    \<and> Player_Rating (lr_heap (applyOfflineMsg rt uid pp m) ! pp) = Player_Rating (lr_heap rt ! pp)
    \<and> length (lr_heap (applyOfflineMsg rt uid pp m)) = length (lr_heap rt)
    \<and> (msg_spend c m = c \<and> msg_item b m = b \<longrightarrow> lr_heap (applyOfflineMsg rt uid pp m) = lr_heap rt)"
proof -
  have same_c: "put_component (CurrencyComponent c) (lr_heap rt ! pp) = lr_heap rt ! pp"
    by (rule put_same) (use assms(2) in \<open>auto simp: Player_Currency_def split: option.splits Component.splits\<close>)
  have same_b: "put_component (BagComponent b) (lr_heap rt ! pp) = lr_heap rt ! pp"
    by (rule put_same) (use assms(3) in \<open>auto simp: Player_Bag_def split: option.splits Component.splits\<close>)
  show ?thesis
    using assms same_c same_b
    by (auto simp: applyOfflineMsg_def msg_spend_def msg_item_def with_currency_def with_bag_def Let_def emit_def upd_player_def)
qed

lemma applied_all:
  assumes "pp < length (lr_heap rt)" and "Player_Currency (lr_heap rt ! pp) = Some c" and "Player_Bag (lr_heap rt ! pp) = Some b"
    and rt1: "rt1 = foldl (\<lambda>rt m. applyOfflineMsg rt uid pp m) rt ms"
  shows "Player_Currency (lr_heap rt1 ! pp) = Some (foldl msg_spend c ms) \<and> Player_Bag (lr_heap rt1 ! pp) = Some (foldl msg_item b ms)
    \<and> Player_Friend (lr_heap rt1 ! pp) = Player_Friend (lr_heap rt ! pp) \<and> Player_Rating (lr_heap rt1 ! pp) = Player_Rating (lr_heap rt ! pp)
    \<and> length (lr_heap rt1) = length (lr_heap rt)"
  unfolding rt1 using assms(1-3)
proof (induction ms arbitrary: rt c b)
  case (Cons m ms)
  note a = applied [OF Cons.prems, of uid m]
  from Cons.IH [of "applyOfflineMsg rt uid pp m" "msg_spend c m" "msg_item b m"] a Cons.prems(1) show ?case by simp
qed simp

lemma applied_noop:
  assumes "pp < length (lr_heap rt)" and "Player_Currency (lr_heap rt ! pp) = Some c" and "Player_Bag (lr_heap rt ! pp) = Some b"
    and "\<forall>m \<in> set ms. msg_spend c m = c \<and> msg_item b m = b"
  shows "lr_heap (foldl (\<lambda>rt m. applyOfflineMsg rt uid pp m) rt ms) = lr_heap rt"
  using assms
proof (induction ms arbitrary: rt)
  case (Cons m ms)
  then have "lr_heap (applyOfflineMsg rt uid pp m) = lr_heap rt" using applied [OF Cons.prems(1-3), of uid m] by simp
  with Cons show ?case by simp
qed simp

lemma msg_spend_wallet: "wallet_ok c \<Longrightarrow> wallet_ok (foldl msg_spend c ms)"
  by (induction ms arbitrary: c) (auto simp: msg_spend_def Spend_def Let_def wallet_ok_def)

lemma msg_item_bag: "bag_ok b \<Longrightarrow> \<forall>m \<in> set ms. in_s32 (om_ItemID m) \<Longrightarrow> bag_ok (foldl msg_item b ms)"
  by (induction ms arbitrary: b) (auto simp: msg_item_def bag_ok_Add)

text \<open>C9: A crash between the save of a replay and its acknowledgement charges nobody twice. When a player
  has replayed at most 128 offline settlements with different identifiers that the player had not
  seen before, the player is saved, and the settlements are delivered again to the player that the
  next login builds from the stored document, because the acknowledgement was lost, the second
  replay changes no player: no balance, no item and no remembered operation, and nothing is marked
  for saving, in whatever order and however often the settlements are delivered. Payments that
  were refused the first time are refused again. The currency event of a settlement is published
  again (\<open>replay_republishes\<close>), and with more than 128 settlements the ring forgets the first ones.\<close>

theorem replay_after_crash:
  assumes "pp < length (lr_heap rt)" and "contents_ok (lr_heap rt ! pp)" and "Player_Currency (lr_heap rt ! pp) = Some c"
    and "Player_Bag (lr_heap rt ! pp) = Some b" and "\<forall>kind. Balance c kind < 2 ^ 63"
    and "distinct (map om_OpID msgs)" and "length msgs \<le> 128" and "\<forall>m \<in> set msgs. in_s32 (om_ItemID m)"
    and "\<forall>m \<in> set msgs. \<not> seen (cu_ops c) (om_OpID m @ '':spend'') \<and> \<not> seen (bg_ops b) (om_OpID m @ '':item'')"
    and "rt1 = foldl (\<lambda>rt m. applyOfflineMsg rt uid pp m) rt msgs" and "saved_as (lr_heap rt1 ! pp) doc"
    and "pp2 < length (lr_heap rt2)" and "buildPlayer uid doc = Inr p2" and "lr_heap rt2 ! pp2 = attachMail p2 st" and "set again \<subseteq> set msgs"
  shows "lr_heap (foldl (\<lambda>rt m. applyOfflineMsg rt uid pp2 m) rt2 again) = lr_heap rt2"
proof -
  let ?c = "foldl msg_spend c msgs" and ?b = "foldl msg_item b msgs"
  have ok: "wallet_ok c" "within (cu_ops c)" "od_max (cu_ops c) = 128" "bag_ok b" "within (bg_ops b)" "od_max (bg_ops b) = 128"
    using assms(2-4) by (auto simp: contents_ok_def maxCurrencyOps_def maxRecentOps_def)
  have dist: "distinct (map (\<lambda>m. om_OpID m @ suffix) msgs)" for suffix
    using assms(6) by (simp add: distinct_map inj_on_def)
  have funds: "funds_ok c" using assms(5) by (simp add: funds_ok_def)
  have fresh: "\<forall>m \<in> set msgs. \<not> seen (cu_ops c) (om_OpID m @ '':spend'')" "\<forall>m \<in> set msgs. \<not> seen (bg_ops b) (om_OpID m @ '':item'')"
    and few: "int (length msgs) \<le> od_max (cu_ops c)" "int (length msgs) \<le> od_max (bg_ops b)" using assms(7,9) ok by auto
  note sc = wallet_replay.settled [OF ok(2) funds dist fresh(1) few(1)] and sb = bag_replay.settled [OF ok(5) TrueI dist fresh(2) few(2)]
  note p1 = applied_all [OF assms(1,3,4,10)]
  obtain kvs bs where d: "pd_Bag doc = Bag_Snapshot ?b\<lparr>bs_Items := kvs\<rparr>" "same_map (bs_Items (Bag_Snapshot ?b)) kvs"
    "pd_Currency doc = Currency_Snapshot ?c\<lparr>cs_Balances := bs\<rparr>" "same_map (cs_Balances (Currency_Snapshot ?c)) bs"
    using assms(11) p1 by (auto simp: saved_as_def)
  have C: "Currency_Load NewCurrency (pd_Currency doc) = ?c\<lparr>cu_balances := map_copy bs, cu_dirty := False\<rparr> \<and> same_map (map_copy bs) (cu_balances ?c)"
    unfolding d(3) by (rule Currency_roundtrip [OF msg_spend_wallet [OF ok(1)] _ _ d(4)]) (use sc ok in \<open>auto simp: maxCurrencyOps_def\<close>)
  have B: "Bag_Load NewBag (pd_Bag doc) = ?b\<lparr>bg_items := foldl load_item [] kvs, bg_dirty := False\<rparr>"
    unfolding d(1) by (rule Bag_roundtrip [OF msg_item_bag [OF ok(4) assms(8)] _ _ d(2), THEN conjunct1]) (use sb ok in \<open>auto simp: maxRecentOps_def\<close>)
  let ?c2 = "?c\<lparr>cu_balances := map_copy bs, cu_dirty := False\<rparr>" and ?b2 = "?b\<lparr>bg_items := foldl load_item [] kvs, bg_dirty := False\<rparr>"
  have "Balance ?c2 = Balance ?c" using C by (simp add: Balance_def zero_of_def same_map_def fun_eq_iff)
  then have pay: "can_pay ?c2 = can_pay ?c" by (simp add: can_pay_def fun_eq_iff)
  have give: "gives_item ?b2 = gives_item ?b" by (simp add: gives_item_def fun_eq_iff)
  have p2: "Player_Currency (lr_heap rt2 ! pp2) = Some ?c2" "Player_Bag (lr_heap rt2 ! pp2) = Some ?b2"
    using assms(13,14) C B by (auto simp: buildPlayer_eq attachMail_def Player_Currency_def Player_Bag_def component_names)
  have "msg_spend ?c2 m = ?c2" "msg_item ?b2 m = ?b2" if "m \<in> set again" for m
    using wallet_replay.replay_is_noop [OF ok(2) funds dist fresh(1) few(1) refl _ pay, of m]
      bag_replay.replay_is_noop [OF ok(5) TrueI dist fresh(2) few(2) refl _ give, of m] that assms(15) by auto
  then show ?thesis by (intro applied_noop [OF assms(12) p2]) blast
qed

text \<open>A player with ten gold wins a game for four and another one that cannot be paid.\<close>

definition snapshot_doc :: "int \<Rightarrow> Player \<Rightarrow> PlayerDoc" where
  "snapshot_doc uid p =
     \<lparr>pd_ID = uid, pd_Bag = Bag_Snapshot (the (Player_Bag p)), pd_Currency = Currency_Snapshot (the (Player_Currency p)),
      pd_Friend = Friend_Snapshot (the (Player_Friend p)), pd_Rating = Rating_Snapshot (the (Player_Rating p))\<rparr>"

definition rich_doc :: PlayerDoc where
  "rich_doc = (NewPlayerDoc 7)\<lparr>pd_Currency := \<lparr>cs_Balances = [(''gold'', 10)], cs_Ops = []\<rparr>\<rparr>"

definition login_with :: "PlayerDoc \<Rightarrow> Runtime" where
  "login_with doc = foldl lobby_step demo_node [EvLogin 7 ''g'', EvIo 0 (DocFound doc)]"

definition letters :: "OfflineMsg list" where
  "letters = [letter ''g1'', (letter ''g2'')\<lparr>om_Price := 7\<rparr>]"

definition replayed_once :: Runtime where
  "replayed_once = foldl (\<lambda>rt m. applyOfflineMsg rt 7 0 m) (login_with rich_doc) letters"

definition restarted :: Runtime where
  "restarted = login_with (snapshot_doc 7 (lr_heap replayed_once ! 0))"

lemma login_builds:
  assumes "buildPlayer 7 doc = Inr p"
  shows "lr_heap (login_with doc) = [attachMail p False]"
  using assms
  by (simp add: login_with_def demo_node_def NewRuntime_def Login_def issue_def doc_loaded_def Let_def emit_def replayOffline_def tryReconnect_def
      queryOnlineNoop_def scanFriendAccepts_def)

lemma login_parts:
  "Player_Bag (lr_heap (login_with doc) ! 0) = Some (Bag_Load NewBag (pd_Bag doc))"
  "Player_Currency (lr_heap (login_with doc) ! 0) = Some (Currency_Load NewCurrency (pd_Currency doc))"
  "Player_Friend (lr_heap (login_with doc) ! 0) = Some (Friend_Load NewFriend (pd_Friend doc))"
  "Player_Rating (lr_heap (login_with doc) ! 0) = Some (Rating_Load NewRating (pd_Rating doc))"
  by (simp_all add: login_builds [OF buildPlayer_eq] attachMail_def Player_Bag_def Player_Currency_def Player_Friend_def Player_Rating_def component_names)

lemmas rich_eval = rich_doc_def NewPlayerDoc_def NewBagState_def NewFriendState_def NewRatingState_def Bag_Load_def NewBag_def Currency_Load_def NewCurrency_def
  Friend_Load_def NewFriend_def Rating_Load_def NewRating_def map_copy_def mput_def mdel_def loadFrom_def newOpDedup_def maxRecentOps_def maxCurrencyOps_def defaultMMR_def

text \<open>The wallet and the bag after the first replay.\<close>

lemma replayed_parts:
  "Player_Bag (lr_heap replayed_once ! 0) = Some (foldl msg_item (Bag_Load NewBag (pd_Bag rich_doc)) letters)"
  "Player_Currency (lr_heap replayed_once ! 0) = Some (foldl msg_spend (Currency_Load NewCurrency (pd_Currency rich_doc)) letters)"
  "Player_Friend (lr_heap replayed_once ! 0) = Some (Friend_Load NewFriend (pd_Friend rich_doc))"
  "Player_Rating (lr_heap replayed_once ! 0) = Some (Rating_Load NewRating (pd_Rating rich_doc))"
  using applied_all [OF _ login_parts(2,1) replayed_once_def] login_parts(3,4) [of rich_doc] by (simp_all add: login_builds [OF buildPlayer_eq])

lemma wf_bag_snapshot: "wf_map (bs_Items (Bag_Snapshot b))"
proof -
  have "wf_map m0 \<Longrightarrow> wf_map (foldl (\<lambda>m (i, n). mput (dec_int i) n m) m0 xs)" for m0 and xs :: "(int, int) gomap"
    by (induction xs arbitrary: m0) auto
  then show ?thesis by (simp add: Bag_Snapshot_def wf_map_def mkeys_def)
qed

lemma saved_as_snapshot:
  assumes "Player_Bag p = Some b" and "Player_Currency p = Some c" and "Player_Friend p = Some f" and "Player_Rating p = Some r" and "wallet_ok c"
  shows "saved_as p (snapshot_doc uid p)"
  unfolding saved_as_def
  by (rule exI [of _ b], rule exI [of _ c], rule exI [of _ f], rule exI [of _ r], rule exI [of _ "bs_Items (Bag_Snapshot b)"],
      rule exI [of _ "cs_Balances (Currency_Snapshot c)"], rule exI [of _ "fs_Friends (Friend_Snapshot f)"])
    (use assms in \<open>simp add: snapshot_doc_def same_map_def wf_bag_snapshot, simp add: Currency_Snapshot_def map_copy wallet_ok_def\<close>)

lemma wallet_after:
  "cu_balances (foldl msg_spend (Currency_Load NewCurrency (pd_Currency rich_doc)) letters) = [(''gold'', 6)]"
  by (simp add: rich_eval letters_def letter_def msg_spend_def OfflineMsgSettle_def Spend_def seen_def remember_def evict.simps zero_of_def wrap_s64_def Let_def)

theorem replay_after_crash_witness:
  "lr_heap (foldl (\<lambda>rt m. applyOfflineMsg rt 7 0 m) restarted letters) = lr_heap restarted
   \<and> map_option (\<lambda>c. Balance c ''gold'') (Player_Currency (lr_heap restarted ! 0)) = Some 6"
proof
  let ?doc = "snapshot_doc 7 (lr_heap replayed_once ! 0)"
  have len: "0 < length (lr_heap (login_with rich_doc))" by (simp add: login_builds [OF buildPlayer_eq])
  have ok: "contents_ok (lr_heap (login_with rich_doc) ! 0)"
    unfolding contents_ok_def login_parts by (simp add: rich_eval bag_ok_def wallet_ok_def within_def ring_ok_def wf_map_def mkeys_def)
  have saved: "saved_as (lr_heap replayed_once ! 0) ?doc"
    by (rule saved_as_snapshot [OF replayed_parts]) (simp add: wallet_ok_def wallet_after wf_map_def mkeys_def)
  obtain p2 where p2: "buildPlayer 7 ?doc = Inr p2" using buildPlayer_eq by blast
  note p2 = p2 login_builds [OF p2, folded restarted_def]
  show "lr_heap (foldl (\<lambda>rt m. applyOfflineMsg rt 7 0 m) restarted letters) = lr_heap restarted"
    by (rule replay_after_crash [OF len ok login_parts(2,1) _ _ _ _ _ replayed_once_def saved _ p2(1), where st = False])
      (use p2 in \<open>auto simp: rich_eval Balance_def zero_of_def letters_def letter_def in_s32_def seen_def\<close>)
  have "Balance (Currency_Load NewCurrency (Currency_Snapshot c)) ''gold'' = 6" if "cu_balances c = [(''gold'', 6)]" for c
    using that by (simp add: Currency_Load_def Currency_Snapshot_def Balance_def zero_of_def map_copy_def mput_def mdel_def)
  from this [OF wallet_after] show "map_option (\<lambda>c. Balance c ''gold'') (Player_Currency (lr_heap restarted ! 0)) = Some 6"
    unfolding restarted_def login_parts snapshot_doc_def replayed_parts by simp
qed

text \<open>The second replay publishes the changes again, also those that were refused.\<close>

lemma applied_log: "lr_log (applyOfflineMsg rt uid pp m) =
    lr_log rt @ (if om_Type m = OfflineMsgSettle \<and> om_Price m \<noteq> 0 then [PublishedCurrency uid (om_Currency m) (wrap_s64 (- om_Price m))] else [])"
  by (auto simp: applyOfflineMsg_def Let_def emit_def with_currency_def with_bag_def upd_player_def split: option.splits)

lemma replay_republishes:
  "lr_log (foldl (\<lambda>rt m. applyOfflineMsg rt 7 0 m) restarted letters)
   = lr_log restarted @ [PublishedCurrency 7 ''gold'' (-4), PublishedCurrency 7 ''gold'' (-7)]"
  by (simp add: letters_def letter_def applied_log OfflineMsgSettle_def wrap_s64_def)

end
