(* ===== verification/Time_Wheel.thy ===== *)
theory Time_Wheel
  imports Go_Prelude
begin

text \<open>
  The hierarchical time wheel (\<^verbatim>\<open>pkg/timewheel\<close>) that drives every timer of the servers.
  Ticks and identifiers are \<^verbatim>\<open>uint64\<close> and written as naturals with the wrap-around of addition
  made explicit; durations are \<^verbatim>\<open>int64\<close>. A task is shared by its bucket and the task map and is
  only changed right before it is written to both, so both keep a copy. The iteration order of
  Go's maps is left open by stating the results on sets.
\<close>

section \<open>The wheel\<close>

record task =
  tk_id :: nat
  tk_expireTick :: nat
  tk_level :: nat
  tk_slot :: nat
  tk_intervalTick :: nat
  tk_fn :: nat

record TimeWheel =
  tw_tick :: int
  tw_slots :: nat
  tw_levels :: "(nat, task) gomap list list"
  tw_granularity :: "nat list"
  tw_currentTick :: nat
  tw_taskMap :: "(nat, task) gomap"
  tw_nextID :: nat

definition u64_add :: "nat \<Rightarrow> nat \<Rightarrow> nat" where
  "u64_add a b = (a + b) mod 2 ^ 64"

definition defaultSlots :: nat where "defaultSlots = 512"
definition defaultLevelCount :: nat where "defaultLevelCount = 4"

definition mulClamp :: "nat \<Rightarrow> nat \<Rightarrow> nat" where
  "mulClamp a b =
     (if a = 0 \<or> b = 0 then 0
      else if (2 ^ 64 - 1) div b < a then 2 ^ 64 - 1
      else a * b)"

text \<open>\<^verbatim>\<open>uint64\<close> of a possibly negative quotient.\<close>

definition durationToTicks :: "int \<Rightarrow> int \<Rightarrow> nat" where
  "durationToTicks d tick =
     (if d \<le> 0 then 0
      else let s = wrap_s64 (wrap_s64 (d + tick) - 1); q = (if 0 \<le> s then s div tick else - (- s div tick))
           in nat (q mod 2 ^ 64))"

fun granularities :: "nat \<Rightarrow> nat \<Rightarrow> nat \<Rightarrow> nat list" where
  "granularities slots g 0 = []"
| "granularities slots g (Suc n) = g # granularities slots (mulClamp g slots) n"

definition NewWithLevelCount :: "int \<Rightarrow> int \<Rightarrow> int \<Rightarrow> TimeWheel" where
  "NewWithLevelCount tick0 slots0 levelCount0 =
     (let tick = (if tick0 \<le> 0 then 100 * 10 ^ 6 else tick0);
          slots = (if slots0 \<le> 0 then defaultSlots else nat slots0);
          levelCount = (if levelCount0 \<le> 0 then defaultLevelCount else nat levelCount0)
      in \<lparr>tw_tick = tick, tw_slots = slots, tw_levels = replicate levelCount (replicate slots []),
          tw_granularity = granularities slots 1 levelCount, tw_currentTick = 0, tw_taskMap = [], tw_nextID = 0\<rparr>)"

definition NewTimeWheel :: "int \<Rightarrow> int \<Rightarrow> TimeWheel" where
  "NewTimeWheel tick slots = NewWithLevelCount tick slots (int defaultLevelCount)"

definition currentSlotLocked :: "TimeWheel \<Rightarrow> nat \<Rightarrow> nat" where
  "currentSlotLocked tw level = (tw_currentTick tw div tw_granularity tw ! level) mod tw_slots tw"

function pick_from :: "TimeWheel \<Rightarrow> nat \<Rightarrow> nat \<Rightarrow> nat" where
  "pick_from tw delayTicks level =
     (if level < length (tw_levels tw) - 1 then
        let limit = mulClamp (tw_granularity tw ! level) (tw_slots tw) in
        if limit = 0 \<or> delayTicks < limit then level else pick_from tw delayTicks (level + 1)
      else level)"
  by pat_completeness auto
termination
  by (relation "measure (\<lambda>(tw, d, level). length (tw_levels tw) - 1 - level)") auto

declare pick_from.simps [simp del]

definition pickLevel :: "TimeWheel \<Rightarrow> nat \<Rightarrow> nat" where
  "pickLevel tw delayTicks = pick_from tw delayTicks 0"

definition bucket :: "TimeWheel \<Rightarrow> nat \<Rightarrow> nat \<Rightarrow> (nat, task) gomap" where
  "bucket tw level slot = tw_levels tw ! level ! slot"

definition set_bucket :: "TimeWheel \<Rightarrow> nat \<Rightarrow> nat \<Rightarrow> (nat, task) gomap \<Rightarrow> TimeWheel" where
  "set_bucket tw level slot m = tw\<lparr>tw_levels := (tw_levels tw)[level := (tw_levels tw ! level)[slot := m]]\<rparr>"

text \<open>Where \<^verbatim>\<open>insertLocked\<close> puts a task.\<close>

definition task_place :: "TimeWheel \<Rightarrow> task \<Rightarrow> nat \<times> nat" where
  "task_place tw t =
     (let delayTicks = (if tw_currentTick tw < tk_expireTick t then tk_expireTick t - tw_currentTick tw else 0) in
      if 0 < delayTicks then
        let level = pickLevel tw delayTicks
        in (level, (tk_expireTick t div tw_granularity tw ! level) mod tw_slots tw)
      else (0, currentSlotLocked tw 0))"

definition insertLocked :: "TimeWheel \<Rightarrow> task \<Rightarrow> TimeWheel" where
  "insertLocked tw t =
     (case task_place tw t of
        (level, slot) \<Rightarrow>
          let t1 = t\<lparr>tk_level := level, tk_slot := slot\<rparr>;
              tw1 = set_bucket tw level slot (mput (tk_id t1) t1 (bucket tw level slot))
          in tw1\<lparr>tw_taskMap := mput (tk_id t1) t1 (tw_taskMap tw1)\<rparr>)"

definition add :: "TimeWheel \<Rightarrow> int \<Rightarrow> int \<Rightarrow> nat \<Rightarrow> TimeWheel \<times> nat" where
  "add tw d interval fn =
     (let ident = u64_add (tw_nextID tw) 1;
          ticks0 = durationToTicks d (tw_tick tw);
          ticks = (if ticks0 < 1 then 1 else ticks0);
          t = \<lparr>tk_id = ident, tk_expireTick = u64_add (tw_currentTick tw) ticks, tk_level = 0, tk_slot = 0,
               tk_intervalTick = durationToTicks interval (tw_tick tw), tk_fn = fn\<rparr>
      in (insertLocked (tw\<lparr>tw_nextID := ident\<rparr>) t, ident))"

definition AfterFunc :: "TimeWheel \<Rightarrow> int \<Rightarrow> nat \<Rightarrow> TimeWheel \<times> nat" where
  "AfterFunc tw d fn = add tw d 0 fn"

definition Tick :: "TimeWheel \<Rightarrow> int \<Rightarrow> nat \<Rightarrow> TimeWheel \<times> nat" where
  "Tick tw d0 fn = (let d = (if d0 \<le> 0 then tw_tick tw else d0) in add tw d d fn)"

text \<open>\<^verbatim>\<open>Stop\<close> of a timer handle, by the identifier it holds.\<close>

definition Stop :: "TimeWheel \<Rightarrow> nat \<Rightarrow> TimeWheel" where
  "Stop tw ident =
     (case map_of (tw_taskMap tw) ident of
        None \<Rightarrow> tw
      | Some t \<Rightarrow>
          let tw1 = set_bucket tw (tk_level t) (tk_slot t) (mdel (tk_id t) (bucket tw (tk_level t) (tk_slot t)))
          in tw1\<lparr>tw_taskMap := mdel (tk_id t) (tw_taskMap tw1)\<rparr>)"

definition cascadeLocked :: "TimeWheel \<Rightarrow> nat \<Rightarrow> TimeWheel" where
  "cascadeLocked tw level =
     (let idx = currentSlotLocked tw level; pending = bucket tw level idx
      in foldl insertLocked (set_bucket tw level idx []) (map snd pending))"

text \<open>One iteration of \<^verbatim>\<open>drainReadyLocked\<close> over the bucket of level 0 at \<open>slot\<close>.\<close>

definition drain_one :: "nat \<Rightarrow> TimeWheel \<times> task list \<Rightarrow> task \<Rightarrow> TimeWheel \<times> task list" where
  "drain_one slot st t =
     (case st of
        (tw, ready) \<Rightarrow>
          let tw1 = set_bucket tw 0 slot (mdel (tk_id t) (bucket tw 0 slot)) in
          if tw_currentTick tw < tk_expireTick t then (insertLocked tw1 t, ready)
          else
            let tw2 = tw1\<lparr>tw_taskMap := mdel (tk_id t) (tw_taskMap tw1)\<rparr> in
            (if 0 < tk_intervalTick t
             then insertLocked tw2 (t\<lparr>tk_expireTick := u64_add (tw_currentTick tw) (tk_intervalTick t)\<rparr>)
             else tw2,
             ready @ [t]))"

definition drainReadyLocked :: "TimeWheel \<Rightarrow> nat \<Rightarrow> TimeWheel \<times> task list" where
  "drainReadyLocked tw slot = foldl (drain_one slot) (tw, []) (map snd (bucket tw 0 slot))"

text \<open>The cascades of \<^verbatim>\<open>Advance\<close>, from the top level down to level 1.\<close>

fun cascades :: "TimeWheel \<Rightarrow> nat \<Rightarrow> TimeWheel" where
  "cascades tw 0 = tw"
| "cascades tw (Suc level) =
     cascades (if tw_currentTick tw mod tw_granularity tw ! Suc level \<noteq> 0 then tw else cascadeLocked tw (Suc level)) level"

text \<open>\<^verbatim>\<open>Advance\<close> returns the tasks whose callbacks are run after the lock is released.\<close>

definition Advance :: "TimeWheel \<Rightarrow> TimeWheel \<times> task list" where
  "Advance tw =
     (let tw1 = tw\<lparr>tw_currentTick := u64_add (tw_currentTick tw) 1\<rparr>;
          tw2 = cascades tw1 (length (tw_levels tw1) - 1)
      in drainReadyLocked tw2 (currentSlotLocked tw2 0))"

definition TimeWheel_Len :: "TimeWheel \<Rightarrow> nat" where
  "TimeWheel_Len tw = length (tw_taskMap tw)"

section \<open>Shape of the wheel\<close>

abbreviation level_count :: "TimeWheel \<Rightarrow> nat" where
  "level_count tw \<equiv> length (tw_levels tw)"

text \<open>The granularities are the powers of the number of slots, as long as they fit 64 bits.\<close>

definition wheel_shape :: "TimeWheel \<Rightarrow> bool" where
  "wheel_shape tw \<longleftrightarrow> 0 < tw_slots tw \<and> tw_levels tw \<noteq> [] \<and> (\<forall>bs \<in> set (tw_levels tw). length bs = tw_slots tw)
     \<and> tw_granularity tw = map (\<lambda>l. tw_slots tw ^ l) [0..<level_count tw] \<and> tw_slots tw ^ (level_count tw - 1) < 2 ^ 64"

lemma mulClamp_exact: "0 < a \<Longrightarrow> 0 < b \<Longrightarrow> a * b < 2 ^ 64 \<Longrightarrow> mulClamp a b = a * b"
proof -
  assume "0 < a" "0 < b" "a * b < 2 ^ 64"
  then have "a \<le> (2 ^ 64 - 1) div b" by (simp add: less_eq_div_iff_mult_less_eq)
  with \<open>0 < a\<close> \<open>0 < b\<close> show ?thesis by (simp add: mulClamp_def)
qed

lemma granularities_powers:
  assumes "0 < s" and "n = 0 \<or> g * s ^ (n - 1) < 2 ^ 64" and "0 < g"
  shows "granularities s g n = map (\<lambda>l. g * s ^ l) [0..<n]"
  using assms
proof (induction n arbitrary: g)
  case (Suc n)
  show ?case
  proof (cases n)
    case (Suc m)
    with Suc.prems have lt: "g * s * s ^ m < 2 ^ 64" by (simp add: ac_simps)
    have "g * s * 1 \<le> g * s * s ^ m" using Suc.prems(1) by (intro mult_le_mono2) simp
    with lt have "g * s < 2 ^ 64" by linarith
    with Suc.prems have "mulClamp g s = g * s" by (intro mulClamp_exact)
    moreover have "granularities s (g * s) n = map (\<lambda>l. g * s * s ^ l) [0..<n]"
      using Suc.IH [of "g * s"] lt Suc Suc.prems by simp
    moreover have "map (\<lambda>l. g * s ^ l) [0..<Suc n] = g # map (\<lambda>l. g * s * s ^ l) [0..<n]"
      by (simp add: map_upt_Suc ac_simps del: upt_Suc)
    ultimately show ?thesis by simp
  qed simp
qed simp

lemma wheel_shape_New:
  assumes "0 < slots" and "0 < n" and "nat slots ^ (nat n - 1) < 2 ^ 64"
  shows "wheel_shape (NewWithLevelCount tick slots n)"
  using assms granularities_powers [of "nat slots" "nat n" 1]
  by (auto simp: wheel_shape_def NewWithLevelCount_def Let_def)

lemma length_set_bucket [simp]: "level_count (set_bucket tw l s m) = level_count tw"
  by (simp add: set_bucket_def)

lemma wheel_shape_set_bucket [simp]: "wheel_shape (set_bucket tw l s m) = wheel_shape tw"
proof -
  have "(\<forall>bs \<in> set ((tw_levels tw)[l := (tw_levels tw ! l)[s := m]]). length bs = n) \<longleftrightarrow> (\<forall>bs \<in> set (tw_levels tw). length bs = n)" for n
  proof (cases "l < level_count tw")
    case True
    have all: "(\<forall>bs \<in> set xs. length bs = n) \<longleftrightarrow> (\<forall>i < length xs. length (xs ! i) = n)" for xs :: "(nat, task) gomap list list"
      by (metis in_set_conv_nth)
    show ?thesis unfolding all using True by (auto simp: nth_list_update)
  qed (simp add: list_update_beyond)
  then show ?thesis by (simp add: wheel_shape_def set_bucket_def)
qed

lemma set_bucket_fields [simp]:
  "tw_slots (set_bucket tw l s m) = tw_slots tw" "tw_granularity (set_bucket tw l s m) = tw_granularity tw"
  "tw_currentTick (set_bucket tw l s m) = tw_currentTick tw" "tw_taskMap (set_bucket tw l s m) = tw_taskMap tw"
  "tw_nextID (set_bucket tw l s m) = tw_nextID tw" "tw_tick (set_bucket tw l s m) = tw_tick tw"
  by (simp_all add: set_bucket_def)

lemma shape_bucket_length: "wheel_shape tw \<Longrightarrow> l < level_count tw \<Longrightarrow> length (tw_levels tw ! l) = tw_slots tw"
  by (simp add: wheel_shape_def)

lemma bucket_set_bucket:
  assumes "wheel_shape tw" and "l < level_count tw" and "s < tw_slots tw"
  shows "bucket (set_bucket tw l s m) l' s' = (if l' = l \<and> s' = s then m else bucket tw l' s')"
  using assms shape_bucket_length [OF assms(1,2)] by (auto simp: bucket_def set_bucket_def nth_list_update)

lemma bucket_upd [simp]:
  "bucket (tw\<lparr>tw_taskMap := m\<rparr>) = bucket tw" "bucket (tw\<lparr>tw_currentTick := c\<rparr>) = bucket tw" "bucket (tw\<lparr>tw_nextID := n\<rparr>) = bucket tw"
  by (simp_all add: bucket_def fun_eq_iff)

lemma wheel_shape_upd [simp]:
  "wheel_shape (tw\<lparr>tw_taskMap := m\<rparr>) = wheel_shape tw" "wheel_shape (tw\<lparr>tw_currentTick := c\<rparr>) = wheel_shape tw"
  "wheel_shape (tw\<lparr>tw_nextID := n\<rparr>) = wheel_shape tw"
  by (simp_all add: wheel_shape_def)

lemma shape_granularity: "wheel_shape tw \<Longrightarrow> l < level_count tw \<Longrightarrow> tw_granularity tw ! l = tw_slots tw ^ l"
  by (simp add: wheel_shape_def)

text \<open>The level that is picked for a delay, and that the limit of every lower level is exact.\<close>

lemma pick_from_bounds:
  assumes sh: "wheel_shape tw" and "level < level_count tw" and "level = 0 \<or> tw_slots tw ^ level \<le> d"
  shows "pick_from tw d level < level_count tw
    \<and> (pick_from tw d level = 0 \<or> tw_slots tw ^ pick_from tw d level \<le> d)
    \<and> (pick_from tw d level < level_count tw - 1 \<longrightarrow> d < tw_slots tw ^ pick_from tw d level * tw_slots tw)"
  using assms
proof (induction tw d level rule: pick_from.induct)
  case (1 tw d level)
  note sh = 1(2) and lt = 1(3) and low = 1(4)
  show ?case
  proof (cases "level < level_count tw - 1")
    case True
    have s: "0 < tw_slots tw" using sh by (simp add: wheel_shape_def)
    have "tw_slots tw ^ level * tw_slots tw \<le> tw_slots tw ^ (level_count tw - 1)"
      using True s power_increasing [of "Suc level" "level_count tw - 1" "tw_slots tw"] by (simp add: ac_simps)
    also have "\<dots> < 2 ^ 64" using sh by (simp add: wheel_shape_def)
    finally have "tw_slots tw ^ level * tw_slots tw < 2 ^ 64" .
    with s have lim: "mulClamp (tw_granularity tw ! level) (tw_slots tw) = tw_slots tw ^ level * tw_slots tw"
      using shape_granularity [OF sh lt] by (simp add: mulClamp_exact)
    have pos: "tw_slots tw ^ level * tw_slots tw \<noteq> 0" using s by simp
    show ?thesis
    proof (cases "d < tw_slots tw ^ level * tw_slots tw")
      case True
      then show ?thesis using lim low lt \<open>level < _ - 1\<close> by (simp add: pick_from.simps [of tw d level] Let_def)
    next
      case False
      have "pick_from tw d level = pick_from tw d (level + 1)"
        using False lim pos \<open>level < _ - 1\<close> by (simp add: pick_from.simps [of tw d level] Let_def)
      moreover have "\<not> (mulClamp (tw_granularity tw ! level) (tw_slots tw) = 0 \<or> d < mulClamp (tw_granularity tw ! level) (tw_slots tw))"
        using False lim pos by simp
      ultimately show ?thesis
        using 1(1) [OF \<open>level < _ - 1\<close> refl _ sh] False \<open>level < _ - 1\<close> by (simp add: ac_simps)
    qed
  next
    case False
    then show ?thesis using low lt by (simp add: pick_from.simps [of tw d level])
  qed
qed

section \<open>Invariant\<close>

text \<open>
  A task of level \<open>l\<close> is \<^emph>\<open>ahead\<close> when the turn of its slot is still to come, within one round
  unless the level is the last one. While \<^verbatim>\<open>Advance\<close> runs, the levels below \<open>n\<close> whose turn it is
  have not been handled yet: their tasks may also be \<^emph>\<open>at turn\<close>.
\<close>

definition ahead :: "TimeWheel \<Rightarrow> nat \<Rightarrow> nat \<Rightarrow> bool" where
  "ahead tw l e \<longleftrightarrow> tw_currentTick tw div tw_slots tw ^ l < e div tw_slots tw ^ l
     \<and> (l < level_count tw - 1 \<longrightarrow> e div tw_slots tw ^ l \<le> tw_currentTick tw div tw_slots tw ^ l + tw_slots tw)"

definition at_turn :: "TimeWheel \<Rightarrow> nat \<Rightarrow> nat \<Rightarrow> bool" where
  "at_turn tw l e \<longleftrightarrow> tw_currentTick tw mod tw_slots tw ^ l = 0
     \<and> tw_currentTick tw div tw_slots tw ^ l \<le> e div tw_slots tw ^ l
     \<and> (l < level_count tw - 1 \<longrightarrow> e div tw_slots tw ^ l < tw_currentTick tw div tw_slots tw ^ l + tw_slots tw)"

definition task_ok :: "TimeWheel \<Rightarrow> nat \<Rightarrow> nat \<Rightarrow> nat \<Rightarrow> nat \<Rightarrow> task \<Rightarrow> bool" where
  "task_ok tw n l s i t \<longleftrightarrow> tk_id t = i \<and> tk_level t = l \<and> tk_slot t = s \<and> s = tk_expireTick t div tw_slots tw ^ l mod tw_slots tw
     \<and> (if l < n \<and> tw_currentTick tw mod tw_slots tw ^ l = 0 then at_turn tw l (tk_expireTick t) else ahead tw l (tk_expireTick t))"

text \<open>
  \<open>P\<close> are the identifiers that are being moved: no bucket holds them, except the current bucket
  of level 0 when \<open>B\<close> says so.
\<close>

definition wheel_inv :: "TimeWheel \<Rightarrow> nat \<Rightarrow> nat set \<Rightarrow> bool \<Rightarrow> bool" where
  "wheel_inv tw n P B \<longleftrightarrow> wheel_shape tw \<and>
     (\<forall>l < level_count tw. \<forall>s < tw_slots tw. wf_map (bucket tw l s)) \<and>
     (\<forall>l < level_count tw. \<forall>s < tw_slots tw. \<forall>i t. map_of (bucket tw l s) i = Some t \<longrightarrow>
        (if i \<in> P then B \<and> l = 0 \<and> s = tw_currentTick tw mod tw_slots tw
         else task_ok tw n l s i t \<and> map_of (tw_taskMap tw) i = Some t)) \<and>
     (\<forall>i t. map_of (tw_taskMap tw) i = Some t \<longrightarrow> i \<notin> P \<longrightarrow> tk_level t < level_count tw \<and> tk_slot t < tw_slots tw
        \<and> map_of (bucket tw (tk_level t) (tk_slot t)) i = Some t)"

lemma wheel_invD:
  assumes "wheel_inv tw n P B"
  shows "wheel_shape tw"
    and "l < level_count tw \<Longrightarrow> s < tw_slots tw \<Longrightarrow> wf_map (bucket tw l s)"
    and "l < level_count tw \<Longrightarrow> s < tw_slots tw \<Longrightarrow> map_of (bucket tw l s) i = Some t \<Longrightarrow> i \<notin> P \<Longrightarrow>
      task_ok tw n l s i t \<and> map_of (tw_taskMap tw) i = Some t"
    and "l < level_count tw \<Longrightarrow> s < tw_slots tw \<Longrightarrow> map_of (bucket tw l s) i = Some t \<Longrightarrow> i \<in> P \<Longrightarrow>
      B \<and> l = 0 \<and> s = tw_currentTick tw mod tw_slots tw"
    and "map_of (tw_taskMap tw) i = Some t \<Longrightarrow> i \<notin> P \<Longrightarrow> tk_level t < level_count tw \<and> tk_slot t < tw_slots tw
        \<and> map_of (bucket tw (tk_level t) (tk_slot t)) i = Some t"
  using assms unfolding wheel_inv_def by (blast, blast, metis, metis, blast)

text \<open>Where a task is put satisfies the invariant there.\<close>

lemma place_ok:
  assumes sh: "wheel_shape tw" and c: "tw_currentTick tw \<le> tk_expireTick t" and n: "tw_currentTick tw = tk_expireTick t \<Longrightarrow> 0 < n"
    and pl: "task_place tw t = (l, s)"
  shows "l < level_count tw" and "s < tw_slots tw" and "task_ok tw n l s (tk_id t) (t\<lparr>tk_level := l, tk_slot := s\<rparr>)"
proof -
  let ?c = "tw_currentTick tw" and ?e = "tk_expireTick t" and ?S = "tw_slots tw"
  have S: "0 < ?S" and L: "0 < level_count tw" using sh by (simp_all add: wheel_shape_def)
  have "l < level_count tw \<and> s < ?S \<and> task_ok tw n l s (tk_id t) (t\<lparr>tk_level := l, tk_slot := s\<rparr>)"
  proof (cases "?c = ?e")
    case True
    then have ls: "l = 0" "s = ?c mod ?S"
      using pl shape_granularity [OF sh L] by (simp_all add: task_place_def currentSlotLocked_def)
    with True n S L show ?thesis by (simp add: task_ok_def at_turn_def)
  next
    case False
    define d where "d = ?e - ?c"
    define g where "g = ?S ^ l"
    have d: "0 < d" "?e = ?c + d" using False c by (simp_all add: d_def)
    have l: "l = pick_from tw d 0" and s: "s = ?e div tw_granularity tw ! l mod ?S"
      using pl False c by (auto simp: task_place_def pickLevel_def d_def Let_def)
    note b = pick_from_bounds [OF sh L, of d, folded l]
    have lt: "l < level_count tw" using b by simp
    have g: "0 < g" "g \<le> d" "l < level_count tw - 1 \<Longrightarrow> d < g * ?S"
      using b S d by (auto simp: g_def Suc_le_eq)
    have "?c div g + 1 \<le> ?e div g"
      using div_le_mono [of "?c + g" ?e g] g(1,2) d(2) div_add_self2 [of g ?c] by simp
    moreover have "?e div g \<le> ?c div g + ?S" if "l < level_count tw - 1"
      using div_le_mono [of ?e "?c + g * ?S" g] g that d by simp
    moreover have "?e div g < ?c div g + ?S" if "l < level_count tw - 1" "?c mod g = 0"
    proof -
      have "?e div g = ?c div g + d div g" using that(2) d g(1) by (metis div_plus_div_distrib_dvd_left dvd_eq_mod_eq_0)
      moreover have "d div g < ?S" using g that(1) by (simp add: less_mult_imp_div_less mult.commute)
      ultimately show ?thesis by simp
    qed
    ultimately have "task_ok tw n l s (tk_id t) (t\<lparr>tk_level := l, tk_slot := s\<rparr>)"
      using s shape_granularity [OF sh lt] by (simp add: task_ok_def at_turn_def ahead_def g_def)
    with lt s S show ?thesis by simp
  qed
  then show "l < level_count tw" "s < tw_slots tw" "task_ok tw n l s (tk_id t) (t\<lparr>tk_level := l, tk_slot := s\<rparr>)" by auto
qed

text \<open>Inserting a task that no bucket holds.\<close>

lemma insertLocked_simps:
  assumes "task_place tw t = (l, s)"
  shows "insertLocked tw t = (set_bucket tw l s (mput (tk_id t) (t\<lparr>tk_level := l, tk_slot := s\<rparr>) (bucket tw l s)))
    \<lparr>tw_taskMap := mput (tk_id t) (t\<lparr>tk_level := l, tk_slot := s\<rparr>) (tw_taskMap tw)\<rparr>"
  using assms by (simp add: insertLocked_def Let_def)

lemma insertLocked_fields [simp]:
  "tw_slots (insertLocked tw t) = tw_slots tw" "level_count (insertLocked tw t) = level_count tw"
  "tw_granularity (insertLocked tw t) = tw_granularity tw" "tw_currentTick (insertLocked tw t) = tw_currentTick tw"
  "tw_nextID (insertLocked tw t) = tw_nextID tw" "tw_tick (insertLocked tw t) = tw_tick tw"
  by (simp_all add: insertLocked_def Let_def split: prod.splits)

lemma task_ok_cong:
  "tw_slots tw' = tw_slots tw \<Longrightarrow> level_count tw' = level_count tw \<Longrightarrow> tw_currentTick tw' = tw_currentTick tw \<Longrightarrow>
   task_ok tw' n l s i t = task_ok tw n l s i t"
  by (simp add: task_ok_def ahead_def at_turn_def)

lemma insertLocked_inv:
  assumes inv: "wheel_inv tw n P B" and c: "tw_currentTick tw \<le> tk_expireTick t"
    and n: "tw_currentTick tw = tk_expireTick t \<Longrightarrow> 0 < n"
    and free: "\<And>l s. l < level_count tw \<Longrightarrow> s < tw_slots tw \<Longrightarrow> map_of (bucket tw l s) (tk_id t) = None"
  shows "wheel_inv (insertLocked tw t) n (P - {tk_id t}) B"
proof -
  note d = wheel_invD [OF inv]
  obtain l s where pl: "task_place tw t = (l, s)" by fastforce
  note p = place_ok [OF d(1) c n pl]
  let ?t = "t\<lparr>tk_level := l, tk_slot := s\<rparr>" and ?tw = "insertLocked tw t"
  have bk: "bucket ?tw l' s' = (if l' = l \<and> s' = s then mput (tk_id t) ?t (bucket tw l s) else bucket tw l' s')" for l' s'
    using p(1,2) d(1) by (simp add: insertLocked_simps [OF pl] bucket_set_bucket)
  have tm: "map_of (tw_taskMap ?tw) = (map_of (tw_taskMap tw))(tk_id t \<mapsto> ?t)" by (simp add: insertLocked_simps [OF pl])
  have ok: "task_ok ?tw n l' s' i u = task_ok tw n l' s' i u" for l' s' i u by (rule task_ok_cong) simp_all
  have sh: "wheel_shape ?tw" using d(1) by (simp add: insertLocked_simps [OF pl])
  show ?thesis
    unfolding wheel_inv_def insertLocked_fields
  proof (intro conjI allI impI sh)
    fix l' s' assume ls: "l' < level_count tw" "s' < tw_slots tw"
    show "wf_map (bucket ?tw l' s')" using d(2) [OF ls] d(2) [OF p(1,2)] by (simp add: bk)
    fix i u assume u: "map_of (bucket ?tw l' s') i = Some u"
    show "if i \<in> P - {tk_id t} then B \<and> l' = 0 \<and> s' = tw_currentTick tw mod tw_slots tw
        else task_ok ?tw n l' s' i u \<and> map_of (tw_taskMap ?tw) i = Some u"
    proof (cases "i = tk_id t")
      case True
      with u free [OF ls] have "l' = l \<and> s' = s \<and> u = ?t" by (auto simp: bk split: if_splits)
      with True p(3) show ?thesis by (simp add: ok tm)
    next
      case False
      with u have "map_of (bucket tw l' s') i = Some u" by (auto simp: bk split: if_splits)
      with d(3) [OF ls this] d(4) [OF ls this] False show ?thesis by (auto simp: ok tm)
    qed
  next
    fix i u assume u: "map_of (tw_taskMap ?tw) i = Some u" "i \<notin> P - {tk_id t}"
    have "tk_level u < level_count tw \<and> tk_slot u < tw_slots tw \<and> map_of (bucket ?tw (tk_level u) (tk_slot u)) i = Some u"
    proof (cases "i = tk_id t")
      case True
      with u(1) have "u = ?t" by (simp add: tm)
      with True p(1,2) show ?thesis by (simp add: bk)
    next
      case False
      with u have "map_of (tw_taskMap tw) i = Some u" "i \<notin> P" by (simp_all add: tm)
      from d(5) [OF this] False show ?thesis by (auto simp: bk)
    qed
    then show "tk_level u < level_count tw" "tk_slot u < tw_slots tw" "map_of (bucket ?tw (tk_level u) (tk_slot u)) i = Some u"
      by simp_all
  qed
qed

text \<open>The pending timers as the callers see them: expiry, interval and callback by identifier.\<close>

definition view :: "TimeWheel \<Rightarrow> nat \<rightharpoonup> nat \<times> nat \<times> nat" where
  "view tw i = map_option (\<lambda>t. (tk_expireTick t, tk_intervalTick t, tk_fn t)) (map_of (tw_taskMap tw) i)"

lemma view_insertLocked:
  "view (insertLocked tw t) = (view tw)(tk_id t \<mapsto> (tk_expireTick t, tk_intervalTick t, tk_fn t))"
  by (auto simp: view_def insertLocked_def Let_def fun_eq_iff split: prod.splits)

lemma view_upd [simp]: "view (tw\<lparr>tw_currentTick := c\<rparr>) = view tw" "view (tw\<lparr>tw_nextID := n\<rparr>) = view tw" "view (set_bucket tw l s m) = view tw"
  by (simp_all add: view_def fun_eq_iff)

text \<open>Moving the tasks of a list back into the wheel.\<close>

lemma reinsert_inv:
  assumes "wheel_inv tw n (set (map tk_id ts)) False" and "distinct (map tk_id ts)" and "0 < n"
    and "\<forall>t \<in> set ts. tw_currentTick tw \<le> tk_expireTick t \<and> view tw (tk_id t) = Some (tk_expireTick t, tk_intervalTick t, tk_fn t)"
  shows "wheel_inv (foldl insertLocked tw ts) n {} False \<and> view (foldl insertLocked tw ts) = view tw
    \<and> tw_currentTick (foldl insertLocked tw ts) = tw_currentTick tw \<and> tw_slots (foldl insertLocked tw ts) = tw_slots tw
    \<and> level_count (foldl insertLocked tw ts) = level_count tw \<and> tw_nextID (foldl insertLocked tw ts) = tw_nextID tw
    \<and> tw_tick (foldl insertLocked tw ts) = tw_tick tw"
  using assms
proof (induction ts arbitrary: tw)
  case (Cons t ts)
  have "map_of (bucket tw l s) (tk_id t) = None" if "l < level_count tw" "s < tw_slots tw" for l s
    using wheel_invD(4) [OF Cons.prems(1) that, of "tk_id t"] by (cases "map_of (bucket tw l s) (tk_id t)") auto
  with Cons.prems have "wheel_inv (insertLocked tw t) n (set (map tk_id (t # ts)) - {tk_id t}) False"
    by (intro insertLocked_inv) auto
  moreover have "set (map tk_id (t # ts)) - {tk_id t} = set (map tk_id ts)" using Cons.prems(2) by auto
  moreover have v: "view (insertLocked tw t) = view tw" using Cons.prems(4) by (auto simp: view_insertLocked)
  ultimately show ?case using Cons.IH [of "insertLocked tw t"] Cons.prems by auto
qed simp

text \<open>Two buckets never hold the same task, and the entries of a bucket carry their keys.\<close>

lemma bucket_unique:
  assumes "wheel_inv tw n {} False" and "l < level_count tw" "s < tw_slots tw" "map_of (bucket tw l s) i = Some t"
    and "k < level_count tw" "r < tw_slots tw" "map_of (bucket tw k r) i = Some u"
  shows "k = l \<and> r = s \<and> u = t"
  using wheel_invD(3) [OF assms(1-4)] wheel_invD(3) [OF assms(1,5-7)] by (auto simp: task_ok_def)

lemma bucket_entries:
  assumes "wheel_inv tw n {} False" and "l < level_count tw" and "s < tw_slots tw"
  shows "map tk_id (map snd (bucket tw l s)) = mkeys (bucket tw l s)" and "distinct (map tk_id (map snd (bucket tw l s)))"
    and "t \<in> set (map snd (bucket tw l s)) \<Longrightarrow> map_of (bucket tw l s) (tk_id t) = Some t"
proof -
  have wf: "wf_map (bucket tw l s)" using wheel_invD(2) [OF assms] .
  have e: "tk_id u = i" if "(i, u) \<in> set (bucket tw l s)" for i u
    using wheel_invD(3) [OF assms, of i u] wf_map_lookup [OF wf, of i u] that by (auto simp: task_ok_def)
  then show k: "map tk_id (map snd (bucket tw l s)) = mkeys (bucket tw l s)" by (auto simp: mkeys_def)
  show "distinct (map tk_id (map snd (bucket tw l s)))" unfolding k using wf by (simp add: wf_map_def)
  show "map_of (bucket tw l s) (tk_id t) = Some t" if "t \<in> set (map snd (bucket tw l s))"
    using that e wf_map_lookup [OF wf, of "tk_id t" t] by auto
qed

lemma turn_passed:
  assumes "task_ok tw (Suc l) k r i u" and "k = l \<Longrightarrow> tw_currentTick tw mod tw_slots tw ^ l = 0 \<Longrightarrow> r \<noteq> tw_currentTick tw div tw_slots tw ^ l mod tw_slots tw"
  shows "task_ok tw l k r i u"
proof (cases "k = l \<and> tw_currentTick tw mod tw_slots tw ^ l = 0")
  case True
  with assms have "tk_expireTick u div tw_slots tw ^ l \<noteq> tw_currentTick tw div tw_slots tw ^ l" by (auto simp: task_ok_def)
  with assms(1) True show ?thesis by (auto simp: task_ok_def at_turn_def ahead_def)
next
  case False
  then have "(k < Suc l \<and> tw_currentTick tw mod tw_slots tw ^ k = 0) = (k < l \<and> tw_currentTick tw mod tw_slots tw ^ k = 0)"
    by (auto simp: less_Suc_eq)
  with assms(1) show ?thesis unfolding task_ok_def by metis
qed

lemma cleared_inv:
  assumes inv: "wheel_inv tw (Suc l) {} False" and l: "l < level_count tw" and m: "tw_currentTick tw mod tw_slots tw ^ l = 0"
  defines "idx \<equiv> tw_currentTick tw div tw_slots tw ^ l mod tw_slots tw"
  shows "wheel_inv (set_bucket tw l idx []) l (set (mkeys (bucket tw l idx))) False"
proof -
  note d = wheel_invD [OF inv]
  have idx: "idx < tw_slots tw" using d(1) by (simp add: idx_def wheel_shape_def)
  let ?tw = "set_bucket tw l idx []"
  have bk: "bucket ?tw k r = (if k = l \<and> r = idx then [] else bucket tw k r)" for k r
    by (rule bucket_set_bucket [OF d(1) l idx])
  have keys: "i \<in> set (mkeys (bucket tw l idx)) \<longleftrightarrow> (\<exists>t. map_of (bucket tw l idx) i = Some t)" for i
    by (auto simp: set_mkeys)
  have ok: "task_ok ?tw n k r i u = task_ok tw n k r i u" for n k r i u by (rule task_ok_cong) simp_all
  show ?thesis
    unfolding wheel_inv_def length_set_bucket set_bucket_fields wheel_shape_set_bucket
  proof (intro conjI allI impI d(1))
    fix k r assume kr: "k < level_count tw" "r < tw_slots tw"
    show "wf_map (bucket ?tw k r)" using d(2) [OF kr] by (simp add: bk)
    fix i u assume "map_of (bucket ?tw k r) i = Some u"
    then have u: "map_of (bucket tw k r) i = Some u" and ne: "\<not> (k = l \<and> r = idx)" by (auto simp: bk split: if_splits)
    have "i \<notin> set (mkeys (bucket tw l idx))" using bucket_unique [OF inv l idx _ kr u] ne unfolding keys by blast
    moreover have "task_ok tw l k r i u" 
      by (rule turn_passed) (use d(3) [OF kr u] ne in \<open>auto simp: idx_def\<close>)
    ultimately show "if i \<in> set (mkeys (bucket tw l idx)) then False \<and> k = 0 \<and> r = tw_currentTick tw mod tw_slots tw
        else task_ok ?tw l k r i u \<and> map_of (tw_taskMap tw) i = Some u"
      using d(3) [OF kr u] by (simp add: ok)
  next
    fix i u assume u: "map_of (tw_taskMap tw) i = Some u" "i \<notin> set (mkeys (bucket tw l idx))"
    with d(5) [OF u(1)] have "\<not> (tk_level u = l \<and> tk_slot u = idx)" by (auto simp: keys)
    with d(5) [OF u(1)] show "tk_level u < level_count tw" "tk_slot u < tw_slots tw"
      "map_of (bucket ?tw (tk_level u) (tk_slot u)) i = Some u" by (auto simp: bk)
  qed
qed

lemma cascadeLocked_inv:
  assumes inv: "wheel_inv tw (Suc l) {} False" and l: "0 < l" "l < level_count tw" and m: "tw_currentTick tw mod tw_slots tw ^ l = 0"
  shows "wheel_inv (cascadeLocked tw l) l {} False \<and> view (cascadeLocked tw l) = view tw
    \<and> tw_currentTick (cascadeLocked tw l) = tw_currentTick tw \<and> tw_slots (cascadeLocked tw l) = tw_slots tw
    \<and> level_count (cascadeLocked tw l) = level_count tw \<and> tw_nextID (cascadeLocked tw l) = tw_nextID tw
    \<and> tw_tick (cascadeLocked tw l) = tw_tick tw"
proof -
  note d = wheel_invD [OF inv]
  define idx where "idx = tw_currentTick tw div tw_slots tw ^ l mod tw_slots tw"
  have idx: "idx < tw_slots tw" using d(1) by (simp add: idx_def wheel_shape_def)
  let ?ts = "map snd (bucket tw l idx)" and ?tw = "set_bucket tw l idx []"
  note e = bucket_entries [OF inv l(2) idx]
  have c: "cascadeLocked tw l = foldl insertLocked ?tw ?ts"
    using shape_granularity [OF d(1) l(2)] by (simp add: cascadeLocked_def currentSlotLocked_def idx_def Let_def)
  have due: "tw_currentTick ?tw \<le> tk_expireTick t \<and> view ?tw (tk_id t) = Some (tk_expireTick t, tk_intervalTick t, tk_fn t)" if "t \<in> set ?ts" for t
  proof -
    from d(3) [OF l(2) idx e(3) [OF that]] have "at_turn tw l (tk_expireTick t)" "map_of (tw_taskMap tw) (tk_id t) = Some t"
      using m by (simp_all add: task_ok_def)
    then have "tw_currentTick tw div tw_slots tw ^ l * tw_slots tw ^ l \<le> tk_expireTick t div tw_slots tw ^ l * tw_slots tw ^ l"
      by (simp add: at_turn_def)
    also have "\<dots> \<le> tk_expireTick t" by simp
    finally have "tw_currentTick tw \<le> tk_expireTick t" using m by (simp add: mod_0_imp_dvd)
    with \<open>map_of _ _ = Some t\<close> show ?thesis by (simp add: view_def)
  qed
  have "wheel_inv ?tw l (set (map tk_id ?ts)) False"
    unfolding e(1) using cleared_inv [OF inv l(2) m] by (simp only: idx_def)
  from reinsert_inv [OF this e(2) l(1)] due show ?thesis unfolding c by simp
qed

lemma cascades_inv:
  assumes "wheel_inv tw (Suc l) {} False" and "l < level_count tw"
  shows "wheel_inv (cascades tw l) 1 {} False \<and> view (cascades tw l) = view tw
    \<and> tw_currentTick (cascades tw l) = tw_currentTick tw \<and> tw_slots (cascades tw l) = tw_slots tw
    \<and> level_count (cascades tw l) = level_count tw \<and> tw_nextID (cascades tw l) = tw_nextID tw
    \<and> tw_tick (cascades tw l) = tw_tick tw"
  using assms
proof (induction l arbitrary: tw)
  case (Suc l)
  note g = shape_granularity [OF wheel_invD(1) [OF Suc.prems(1)] Suc.prems(2)]
  show ?case
  proof (cases "tw_currentTick tw mod tw_slots tw ^ Suc l = 0")
    case True
    from cascadeLocked_inv [OF Suc.prems(1) _ Suc.prems(2) True] Suc.IH [of "cascadeLocked tw (Suc l)"] Suc.prems(2) True g
    show ?thesis by simp
  next
    case False
    have "task_ok tw (Suc l) k r i u" if "task_ok tw (Suc (Suc l)) k r i u" for k r i u
      by (rule turn_passed [OF that]) (use False in simp)
    with Suc.prems(1) have "wheel_inv tw (Suc l) {} False" by (auto simp: wheel_inv_def)
    with Suc.IH [of tw] Suc.prems(2) False g show ?thesis by simp
  qed
qed simp

section \<open>One tick\<close>

lemma tick_inv:
  assumes inv: "wheel_inv tw 0 {} False"
  shows "wheel_inv (tw\<lparr>tw_currentTick := Suc (tw_currentTick tw)\<rparr>) (level_count tw) {} False"
proof -
  have "task_ok (tw\<lparr>tw_currentTick := Suc (tw_currentTick tw)\<rparr>) (level_count tw) l s i t"
    if "l < level_count tw" "task_ok tw 0 l s i t" for l s i t
    using that by (auto simp: task_ok_def ahead_def at_turn_def div_Suc)
  with inv show ?thesis by (auto simp: wheel_inv_def)
qed

definition fire_timer :: "nat \<Rightarrow> (nat \<times> nat \<times> nat) option \<Rightarrow> (nat \<times> nat \<times> nat) option" where
  "fire_timer c x =
     (case x of
        None \<Rightarrow> None
      | Some (e, iv, f) \<Rightarrow> if c < e then x else if 0 < iv then Some (c + iv, iv, f) else None)"

lemma drain_one_inv:
  assumes inv: "wheel_inv tw 0 P True" and t: "tk_id t \<in> P" "tw_currentTick tw \<le> tk_expireTick t" "map_of (tw_taskMap tw) (tk_id t) = Some t"
    and room: "tw_currentTick tw + tk_intervalTick t < 2 ^ 64"
    and st: "drain_one (tw_currentTick tw mod tw_slots tw) (tw, ready) t = (tw', ready')"
  shows "wheel_inv tw' 0 (P - {tk_id t}) True"
    and "view tw' = (view tw)(tk_id t := fire_timer (tw_currentTick tw) (view tw (tk_id t)))"
    and "\<forall>i. i \<noteq> tk_id t \<longrightarrow> i \<in> P \<longrightarrow> map_of (tw_taskMap tw') i = map_of (tw_taskMap tw) i"
    and "ready' = ready @ (if tk_expireTick t \<le> tw_currentTick tw then [t] else [])"
    and "tw_currentTick tw' = tw_currentTick tw" and "tw_slots tw' = tw_slots tw" and "level_count tw' = level_count tw"
    and "tw_nextID tw' = tw_nextID tw" and "tw_tick tw' = tw_tick tw"
proof -
  note d = wheel_invD [OF inv]
  let ?s = "tw_currentTick tw mod tw_slots tw" and ?i = "tk_id t" and ?c = "tw_currentTick tw"
  have S: "?s < tw_slots tw" and L: "0 < level_count tw" using d(1) by (simp_all add: wheel_shape_def)
  define tw1 where "tw1 = set_bucket tw 0 ?s (mdel ?i (bucket tw 0 ?s))"
  have bk: "bucket tw1 l s = (if l = 0 \<and> s = ?s then mdel ?i (bucket tw 0 ?s) else bucket tw l s)" for l s
    unfolding tw1_def by (rule bucket_set_bucket [OF d(1) L S])
  have f1: "tw_currentTick tw1 = ?c" "tw_slots tw1 = tw_slots tw" "level_count tw1 = level_count tw" "tw_taskMap tw1 = tw_taskMap tw"
    "wheel_shape tw1" "view tw1 = view tw" "tw_nextID tw1 = tw_nextID tw" "tw_tick tw1 = tw_tick tw"
    using d(1) by (simp_all add: tw1_def)
  have ok: "task_ok tw1 n l s i u = task_ok tw n l s i u" for n l s i u by (rule task_ok_cong) (simp_all add: f1)
  have free: "map_of (bucket tw1 l s) ?i = None" if "l < level_count tw" "s < tw_slots tw" for l s
    using d(4) [OF that _ t(1)] by (cases "map_of (bucket tw l s) ?i") (auto simp: bk)
  have look: "map_of (bucket tw1 l s) i = Some u \<longleftrightarrow> map_of (bucket tw l s) i = Some u \<and> i \<noteq> ?i"
    if "l < level_count tw" "s < tw_slots tw" for l s i u
    using free [OF that] by (cases "i = ?i") (auto simp: bk)
  have inv1: "wheel_inv tw1 0 P True"
    unfolding wheel_inv_def f1
  proof (intro conjI allI impI)
    fix l s assume ls: "l < level_count tw" "s < tw_slots tw"
    show "wf_map (bucket tw1 l s)" using d(2) [OF ls] d(2) [OF L S] by (simp add: bk)
    fix i u assume "map_of (bucket tw1 l s) i = Some u"
    with look [OF ls] have u: "map_of (bucket tw l s) i = Some u" by simp
    from d(3) [OF ls u] d(4) [OF ls u] show "if i \<in> P then True \<and> l = 0 \<and> s = ?s else task_ok tw1 0 l s i u \<and> map_of (tw_taskMap tw) i = Some u"
      by (simp add: ok)
  next
    fix i u assume u: "map_of (tw_taskMap tw) i = Some u" "i \<notin> P"
    from d(5) [OF this] u(2) t(1) look show "tk_level u < level_count tw" "tk_slot u < tw_slots tw"
      "map_of (bucket tw1 (tk_level u) (tk_slot u)) i = Some u" by auto
  qed (use f1 in simp)
  have res: "wheel_inv tw' 0 (P - {?i}) True \<and> view tw' = (view tw)(?i := fire_timer ?c (view tw ?i))
    \<and> (\<forall>i. i \<noteq> ?i \<longrightarrow> i \<in> P \<longrightarrow> map_of (tw_taskMap tw') i = map_of (tw_taskMap tw) i)
    \<and> ready' = ready @ (if tk_expireTick t \<le> ?c then [t] else [])
    \<and> tw_currentTick tw' = ?c \<and> tw_slots tw' = tw_slots tw \<and> level_count tw' = level_count tw
    \<and> tw_nextID tw' = tw_nextID tw \<and> tw_tick tw' = tw_tick tw"
  proof (cases "?c < tk_expireTick t")
    case True
    then have "tw' = insertLocked tw1 t" "ready' = ready" using st by (simp_all add: drain_one_def Let_def tw1_def)
    moreover have "wheel_inv (insertLocked tw1 t) 0 (P - {?i}) True"
      by (rule insertLocked_inv [OF inv1]) (use True free f1 in auto)
    moreover have "view tw ?i = Some (tk_expireTick t, tk_intervalTick t, tk_fn t)" using t(3) by (simp add: view_def)
    moreover have "map_of (tw_taskMap (insertLocked tw1 t)) i = map_of (tw_taskMap tw) i" if "i \<noteq> ?i" for i
      using that by (simp add: insertLocked_def Let_def f1 split: prod.splits)
    ultimately show ?thesis using True by (auto simp: view_insertLocked f1 fire_timer_def)
  next
    case False
    with t(2) have e: "tk_expireTick t = ?c" by simp
    define tw2 where "tw2 = tw1\<lparr>tw_taskMap := mdel ?i (tw_taskMap tw1)\<rparr>"
    let ?t = "t\<lparr>tk_expireTick := ?c + tk_intervalTick t\<rparr>"
    have f2: "tw_currentTick tw2 = ?c" "tw_slots tw2 = tw_slots tw" "level_count tw2 = level_count tw" "bucket tw2 = bucket tw1"
      "tw_taskMap tw2 = mdel ?i (tw_taskMap tw)" "wheel_shape tw2" "tw_nextID tw2 = tw_nextID tw" "tw_tick tw2 = tw_tick tw"
      using f1 by (simp_all add: tw2_def)
    have v2: "view tw2 = (view tw)(?i := None)" by (simp add: view_def f2 fun_eq_iff)
    have "task_ok tw2 n l s i u = task_ok tw1 n l s i u" for n l s i u by (rule task_ok_cong) (simp_all add: f1 f2)
    moreover note wheel_invD [OF inv1, unfolded f1] look t(1)
    ultimately have inv2: "wheel_inv tw2 0 (P - {?i}) True"
      unfolding wheel_inv_def f2(1-5) by (auto simp: f1 f2(6))
    have "u64_add ?c (tk_intervalTick t) = ?c + tk_intervalTick t" using room by (simp add: u64_add_def)
    with st False have ready: "ready' = ready @ [t]" and tw': "tw' = (if 0 < tk_intervalTick t then insertLocked tw2 ?t else tw2)"
      by (auto simp: drain_one_def Let_def tw1_def tw2_def)
    have "view tw ?i = Some (?c, tk_intervalTick t, tk_fn t)" using t(3) e by (simp add: view_def)
    moreover have "wheel_inv (insertLocked tw2 ?t) 0 (P - {?i} - {tk_id ?t}) True" if "0 < tk_intervalTick t"
      by (rule insertLocked_inv [OF inv2]) (use that free f2 in auto)
    moreover have "map_of (tw_taskMap (insertLocked tw2 ?t)) i = map_of (tw_taskMap tw) i" if "i \<noteq> ?i" for i
      using that by (simp add: insertLocked_def Let_def f2 split: prod.splits)
    ultimately show ?thesis
      using ready inv2 e by (simp add: tw' view_insertLocked v2 f2 fire_timer_def)
  qed
  from res show "wheel_inv tw' 0 (P - {?i}) True" "view tw' = (view tw)(?i := fire_timer ?c (view tw ?i))"
    "\<forall>i. i \<noteq> ?i \<longrightarrow> i \<in> P \<longrightarrow> map_of (tw_taskMap tw') i = map_of (tw_taskMap tw) i"
    "ready' = ready @ (if tk_expireTick t \<le> ?c then [t] else [])" "tw_currentTick tw' = ?c" "tw_slots tw' = tw_slots tw"
    "level_count tw' = level_count tw" "tw_nextID tw' = tw_nextID tw" "tw_tick tw' = tw_tick tw"
    by simp_all
qed

lemma drain_fold:
  assumes "wheel_inv tw 0 (set (map tk_id ts)) True" and "distinct (map tk_id ts)"
    and "\<forall>t \<in> set ts. tw_currentTick tw \<le> tk_expireTick t \<and> map_of (tw_taskMap tw) (tk_id t) = Some t
      \<and> tw_currentTick tw + tk_intervalTick t < 2 ^ 64"
    and "foldl (drain_one (tw_currentTick tw mod tw_slots tw)) (tw, ready) ts = (tw', ready')"
  shows "wheel_inv tw' 0 {} True
    \<and> view tw' = (\<lambda>i. if i \<in> set (map tk_id ts) then fire_timer (tw_currentTick tw) (view tw i) else view tw i)
    \<and> ready' = ready @ filter (\<lambda>t. tk_expireTick t \<le> tw_currentTick tw) ts
    \<and> tw_currentTick tw' = tw_currentTick tw \<and> tw_slots tw' = tw_slots tw \<and> level_count tw' = level_count tw
    \<and> tw_nextID tw' = tw_nextID tw \<and> tw_tick tw' = tw_tick tw"
  using assms
proof (induction ts arbitrary: tw ready)
  case (Cons t ts)
  obtain tw1 ready1 where st: "drain_one (tw_currentTick tw mod tw_slots tw) (tw, ready) t = (tw1, ready1)" by fastforce
  note t = Cons.prems(3)
  have h: "tk_id t \<in> set (map tk_id (t # ts))" "tw_currentTick tw \<le> tk_expireTick t" "map_of (tw_taskMap tw) (tk_id t) = Some t"
    "tw_currentTick tw + tk_intervalTick t < 2 ^ 64" using t by simp_all
  note r = drain_one_inv [OF Cons.prems(1) h st]
  have P: "set (map tk_id (t # ts)) - {tk_id t} = set (map tk_id ts)" using Cons.prems(2) by auto
  have "tk_id t \<notin> tk_id ` set ts" using Cons.prems(2) by simp
  then have ne: "\<forall>u \<in> set ts. tk_id u \<noteq> tk_id t" by (metis image_eqI)
  have "\<forall>u \<in> set ts. tw_currentTick tw1 \<le> tk_expireTick u \<and> map_of (tw_taskMap tw1) (tk_id u) = Some u
      \<and> tw_currentTick tw1 + tk_intervalTick u < 2 ^ 64"
    using t ne r(3) by (simp add: r(5))
  with Cons.IH [of tw1 ready1] r(1)[unfolded P] Cons.prems(2,4) st
  have ih: "wheel_inv tw' 0 {} True"
    "view tw' = (\<lambda>i. if i \<in> set (map tk_id ts) then fire_timer (tw_currentTick tw) (view tw1 i) else view tw1 i)"
    "ready' = ready1 @ filter (\<lambda>t. tk_expireTick t \<le> tw_currentTick tw) ts"
    "tw_currentTick tw' = tw_currentTick tw" "tw_slots tw' = tw_slots tw" "level_count tw' = level_count tw"
    "tw_nextID tw' = tw_nextID tw" "tw_tick tw' = tw_tick tw"
    by (simp_all add: r(5-9) cong: if_cong)
  have "view tw' = (\<lambda>i. if i \<in> set (map tk_id (t # ts)) then fire_timer (tw_currentTick tw) (view tw i) else view tw i)"
    unfolding ih(2) using ne by (auto simp: r(2) fun_eq_iff)
  with ih r(4) show ?case by simp
qed simp

text \<open>The effect of \<^verbatim>\<open>Advance\<close>: exactly the timers of the new tick are ready.\<close>

lemma Advance_effect:
  assumes inv: "wheel_inv tw 0 {} False" and room: "Suc (tw_currentTick tw) < 2 ^ 64"
    and iv: "\<forall>i e v f. view tw i = Some (e, v, f) \<longrightarrow> Suc (tw_currentTick tw) + v < 2 ^ 64"
    and adv: "Advance tw = (tw', ready)"
  shows "wheel_inv tw' 0 {} False" and "view tw' = (\<lambda>i. fire_timer (Suc (tw_currentTick tw)) (view tw i))"
    and "set (map (\<lambda>t. (tk_id t, tk_fn t)) ready) = {(i, f). \<exists>e v. view tw i = Some (e, v, f) \<and> e \<le> Suc (tw_currentTick tw)}"
    and "distinct (map tk_id ready)" and "tw_currentTick tw' = Suc (tw_currentTick tw)"
    and "tw_nextID tw' = tw_nextID tw" and "tw_tick tw' = tw_tick tw" and "tw_slots tw' = tw_slots tw" and "level_count tw' = level_count tw"
proof -
  let ?c = "Suc (tw_currentTick tw)"
  have L: "0 < level_count tw" using wheel_invD(1) [OF inv] by (simp add: wheel_shape_def)
  define tw1 where "tw1 = tw\<lparr>tw_currentTick := ?c\<rparr>"
  define tw2 where "tw2 = cascades tw1 (level_count tw - 1)"
  have "wheel_inv tw1 (Suc (level_count tw - 1)) {} False" using tick_inv [OF inv] L by (simp add: tw1_def)
  from cascades_inv [OF this] L have c: "wheel_inv tw2 1 {} False" "view tw2 = view tw" "tw_currentTick tw2 = ?c"
    "tw_slots tw2 = tw_slots tw" "level_count tw2 = level_count tw" "tw_nextID tw2 = tw_nextID tw" "tw_tick tw2 = tw_tick tw"
    by (simp_all add: tw2_def tw1_def)
  note d = wheel_invD [OF c(1)]
  let ?s = "?c mod tw_slots tw"
  have S: "?s < tw_slots tw2" and L2: "0 < level_count tw2" using d(1) L by (simp_all add: wheel_shape_def c)
  have slot: "currentSlotLocked tw2 0 = ?s"
    using shape_granularity [OF d(1) L2] by (simp add: currentSlotLocked_def c)
  let ?ts = "map snd (bucket tw2 0 ?s)"
  note e = bucket_entries [OF c(1) L2 S]
  let ?ids = "set (mkeys (bucket tw2 0 ?s))"
  have from0: "?c \<le> tk_expireTick u \<and> (tk_expireTick u = ?c \<longrightarrow> l = 0 \<and> s = ?s)"
    if ls: "l < level_count tw2" "s < tw_slots tw2" and u: "map_of (bucket tw2 l s) i = Some u" for l s i u
  proof (cases "l = 0")
    case True
    then show ?thesis using d(3) [OF ls u] by (auto simp: task_ok_def at_turn_def c)
  next
    case False
    then have "?c div tw_slots tw ^ l < tk_expireTick u div tw_slots tw ^ l" using d(3) [OF ls u] by (auto simp: task_ok_def ahead_def c)
    then have "\<not> tk_expireTick u \<le> ?c" using div_le_mono [of "tk_expireTick u" ?c "tw_slots tw ^ l"] by (meson leD)
    then show ?thesis by simp
  qed
  have late: "?c < tk_expireTick u" if u: "map_of (tw_taskMap tw2) i = Some u" "i \<notin> ?ids" for i u
  proof -
    note b = d(5) [OF u(1), simplified]
    have "\<not> (tk_level u = 0 \<and> tk_slot u = ?s)" using b u(2) by (auto simp: set_mkeys)
    with from0 [of "tk_level u" "tk_slot u" i u] b show ?thesis by (metis le_neq_implies_less)
  qed
  have inv0: "wheel_inv tw2 0 ?ids True"
    unfolding wheel_inv_def
  proof (intro conjI allI impI d(1))
    fix l s assume ls: "l < level_count tw2" "s < tw_slots tw2"
    show "wf_map (bucket tw2 l s)" by (rule d(2) [OF ls])
    fix i u assume u: "map_of (bucket tw2 l s) i = Some u"
    have ids: "i \<in> ?ids \<longleftrightarrow> l = 0 \<and> s = ?s"
      using bucket_unique [OF c(1) ls u L2 S] u by (auto simp: set_mkeys)
    have "task_ok tw2 0 l s i u" if "\<not> (l = 0 \<and> s = ?s)"
      by (rule turn_passed) (use d(3) [OF ls u] that in \<open>auto simp: c\<close>)
    with ids d(3) [OF ls u] show "if i \<in> ?ids then True \<and> l = 0 \<and> s = tw_currentTick tw2 mod tw_slots tw2
        else task_ok tw2 0 l s i u \<and> map_of (tw_taskMap tw2) i = Some u" by (simp add: c)
  qed (use d(5) in auto)
  have own: "?c \<le> tk_expireTick t \<and> map_of (tw_taskMap tw2) (tk_id t) = Some t \<and> ?c + tk_intervalTick t < 2 ^ 64" if "t \<in> set ?ts" for t
  proof -
    note b = e(3) [OF that]
    have m: "map_of (tw_taskMap tw2) (tk_id t) = Some t" using d(3) [OF L2 S b] by simp
    then have "view tw (tk_id t) = Some (tk_expireTick t, tk_intervalTick t, tk_fn t)" unfolding c(2) [symmetric] by (simp add: view_def)
    with iv m from0 [OF L2 S b] show ?thesis by blast
  qed
  have a: "Advance tw = drainReadyLocked tw2 (currentSlotLocked tw2 0)"
    using room by (simp add: Advance_def u64_add_def Let_def tw1_def tw2_def)
  have "foldl (drain_one (tw_currentTick tw2 mod tw_slots tw2)) (tw2, []) ?ts = (tw', ready)"
    using adv unfolding a slot drainReadyLocked_def c(3,4) .
  moreover have "\<forall>t \<in> set ?ts. tw_currentTick tw2 \<le> tk_expireTick t \<and> map_of (tw_taskMap tw2) (tk_id t) = Some t
      \<and> tw_currentTick tw2 + tk_intervalTick t < 2 ^ 64" using own by (simp add: c)
  ultimately have res: "wheel_inv tw' 0 {} True"
    "view tw' = (\<lambda>i. if i \<in> ?ids then fire_timer ?c (view tw i) else view tw i)"
    "ready = filter (\<lambda>t. tk_expireTick t \<le> ?c) ?ts" "tw_currentTick tw' = ?c" "tw_slots tw' = tw_slots tw"
    "level_count tw' = level_count tw" "tw_nextID tw' = tw_nextID tw" "tw_tick tw' = tw_tick tw"
    using drain_fold [of tw2 ?ts "[]" tw' ready] inv0 e(2) unfolding e(1) c by simp_all
  from res(1) show "wheel_inv tw' 0 {} False" by (simp add: wheel_inv_def)
  show "view tw' = (\<lambda>i. fire_timer ?c (view tw i))"
  proof
    fix i
    have "fire_timer ?c (view tw i) = view tw i" if "i \<notin> ?ids"
      using late [OF _ that] unfolding c(2) [symmetric] by (cases "map_of (tw_taskMap tw2) i") (auto simp: view_def fire_timer_def)
    then show "view tw' i = fire_timer ?c (view tw i)" by (simp add: res(2))
  qed
  show "set (map (\<lambda>t. (tk_id t, tk_fn t)) ready) = {(i, f). \<exists>e v. view tw i = Some (e, v, f) \<and> e \<le> ?c}"
  proof (intro equalityI subsetI)
    fix x assume "x \<in> set (map (\<lambda>t. (tk_id t, tk_fn t)) ready)"
    then obtain t where "x = (tk_id t, tk_fn t)" "t \<in> set ?ts" "tk_expireTick t \<le> ?c" by (auto simp: res(3))
    with own [of t] show "x \<in> {(i, f). \<exists>e v. view tw i = Some (e, v, f) \<and> e \<le> ?c}"
      unfolding c(2) [symmetric] by (auto simp: view_def)
  next
    fix x assume "x \<in> {(i, f). \<exists>e v. view tw i = Some (e, v, f) \<and> e \<le> ?c}"
    then obtain i u where x: "x = (i, tk_fn u)" "map_of (tw_taskMap tw2) i = Some u" "tk_expireTick u \<le> ?c"
      unfolding c(2) [symmetric] by (auto simp: view_def)
    with late [of i u] have "i \<in> ?ids" by auto
    then have "i \<in> set (map tk_id ?ts)" by (simp only: e(1))
    then obtain t where t: "t \<in> set ?ts" "tk_id t = i" by auto
    with own [of t] x have "u = t" by simp
    with t x show "x \<in> set (map (\<lambda>t. (tk_id t, tk_fn t)) ready)" unfolding res(3) by auto
  qed
  show "distinct (map tk_id ready)" unfolding res(3) using e(2) by (rule distinct_map_filter)
  show "tw_currentTick tw' = ?c" "tw_nextID tw' = tw_nextID tw" "tw_tick tw' = tw_tick tw" "tw_slots tw' = tw_slots tw"
    "level_count tw' = level_count tw" by (fact res)+
qed

section \<open>Registering and stopping\<close>

lemma Stop_effect:
  assumes inv: "wheel_inv tw 0 {} False"
  shows "wheel_inv (Stop tw i) 0 {} False" and "view (Stop tw i) = (view tw)(i := None)"
    and "tw_currentTick (Stop tw i) = tw_currentTick tw" and "tw_nextID (Stop tw i) = tw_nextID tw" and "tw_tick (Stop tw i) = tw_tick tw"
proof -
  note d = wheel_invD [OF inv]
  have "wheel_inv (Stop tw i) 0 {} False \<and> view (Stop tw i) = (view tw)(i := None) \<and> tw_currentTick (Stop tw i) = tw_currentTick tw
    \<and> tw_nextID (Stop tw i) = tw_nextID tw \<and> tw_tick (Stop tw i) = tw_tick tw"
  proof (cases "map_of (tw_taskMap tw) i")
    case None
    then show ?thesis using inv by (auto simp: Stop_def view_def)
  next
    case (Some t)
    note b = d(5) [OF Some, simplified]
    then have t: "tk_id t = i" using d(3) [of "tk_level t" "tk_slot t" i t] by (simp add: task_ok_def)
    let ?tw = "set_bucket tw (tk_level t) (tk_slot t) (mdel i (bucket tw (tk_level t) (tk_slot t)))"
    have st: "Stop tw i = ?tw\<lparr>tw_taskMap := mdel i (tw_taskMap tw)\<rparr>" using Some t by (simp add: Stop_def Let_def)
    have bk: "bucket (Stop tw i) l s = (if l = tk_level t \<and> s = tk_slot t then mdel i (bucket tw l s) else bucket tw l s)" for l s
      using bucket_set_bucket [OF d(1), of "tk_level t" "tk_slot t"] b by (simp add: st)
    have look: "map_of (bucket (Stop tw i) l s) j = Some u \<longleftrightarrow> map_of (bucket tw l s) j = Some u \<and> j \<noteq> i"
      if "l < level_count tw" "s < tw_slots tw" for l s j u
    proof (cases "j = i")
      case True
      have "map_of (bucket (Stop tw i) l s) i = None"
      proof (cases "map_of (bucket tw l s) i")
        case (Some u')
        from b have "tk_level t < level_count tw" "tk_slot t < tw_slots tw" "map_of (bucket tw (tk_level t) (tk_slot t)) i = Some t" by simp_all
        from bucket_unique [OF inv this that Some] show ?thesis by (simp add: bk)
      qed (simp add: bk)
      with True show ?thesis by simp
    qed (simp add: bk)
    have f: "tw_slots (Stop tw i) = tw_slots tw" "level_count (Stop tw i) = level_count tw" "tw_currentTick (Stop tw i) = tw_currentTick tw"
      "tw_taskMap (Stop tw i) = mdel i (tw_taskMap tw)" "wheel_shape (Stop tw i)"
      using d(1) by (simp_all add: st)
    have ok: "task_ok (Stop tw i) n l s j u = task_ok tw n l s j u" for n l s j u by (rule task_ok_cong) (simp_all add: f)
    have "wheel_inv (Stop tw i) 0 {} False"
      unfolding wheel_inv_def f(1-4)
    proof (intro conjI allI impI f(5))
      fix l s assume ls: "l < level_count tw" "s < tw_slots tw"
      show "wf_map (bucket (Stop tw i) l s)" using d(2) [OF ls] by (auto simp: bk)
      fix j u assume "map_of (bucket (Stop tw i) l s) j = Some u"
      with look [OF ls] d(3) [OF ls, of j u] show "if j \<in> {} then False \<and> l = 0 \<and> s = tw_currentTick tw mod tw_slots tw
          else task_ok (Stop tw i) 0 l s j u \<and> map_of (mdel i (tw_taskMap tw)) j = Some u" by (simp add: ok)
    next
      fix j u assume "map_of (mdel i (tw_taskMap tw)) j = Some u"
      then have "map_of (tw_taskMap tw) j = Some u" "j \<noteq> i" by (auto split: if_splits)
      with d(5) [of j u] look show "tk_level u < level_count tw" "tk_slot u < tw_slots tw"
        "map_of (bucket (Stop tw i) (tk_level u) (tk_slot u)) j = Some u" by auto
    qed
    then show ?thesis by (auto simp: st view_def)
  qed
  then show "wheel_inv (Stop tw i) 0 {} False" "view (Stop tw i) = (view tw)(i := None)" "tw_currentTick (Stop tw i) = tw_currentTick tw"
    "tw_nextID (Stop tw i) = tw_nextID tw" "tw_tick (Stop tw i) = tw_tick tw" by simp_all
qed

text \<open>Durations below \<open>2 ^ 62\<close> are rounded up to whole ticks without overflow.\<close>

lemma durationToTicks_exact:
  assumes "d < 2 ^ 62" and "0 < tick" and "tick < 2 ^ 62"
  shows "int (durationToTicks d tick) = (if d \<le> 0 then 0 else (d + tick - 1) div tick)" and "durationToTicks d tick < 2 ^ 62"
proof -
  have q: "0 \<le> (d + tick - 1) div tick \<and> (d + tick - 1) div tick \<le> d" if "0 < d"
  proof -
    have "(d - 1) * 1 \<le> (d - 1) * tick" using assms that by (intro mult_left_mono) auto
    then have "d + tick - 1 \<le> d * tick" by (simp add: algebra_simps)
    then have "(d + tick - 1) div tick \<le> d * tick div tick" using assms by (intro zdiv_mono1) auto
    with assms that show ?thesis by (simp add: pos_imp_zdiv_nonneg_iff)
  qed
  have w: "wrap_s64 (wrap_s64 (d + tick) - 1) = d + tick - 1" if "0 < d"
    using assms that by (simp add: wrap_s64_id in_s64_def)
  show eq: "int (durationToTicks d tick) = (if d \<le> 0 then 0 else (d + tick - 1) div tick)"
    using q w assms by (auto simp: durationToTicks_def Let_def)
  show "durationToTicks d tick < 2 ^ 62"
  proof (cases "d \<le> 0")
    case False
    with eq q assms(1) have "int (durationToTicks d tick) < 2 ^ 62" by simp
    then show ?thesis by simp
  qed (simp add: durationToTicks_def)
qed

lemma add_effect:
  assumes inv: "wheel_inv tw 0 {} False" and fresh: "view tw (Suc (tw_nextID tw)) = None" and "Suc (tw_nextID tw) < 2 ^ 64"
    and room: "tw_currentTick tw + max 1 (durationToTicks d (tw_tick tw)) < 2 ^ 64" and a: "add tw d interval fn = (tw', i)"
  shows "i = Suc (tw_nextID tw)" and "wheel_inv tw' 0 {} False"
    and "view tw' = (view tw)(i \<mapsto> (tw_currentTick tw + max 1 (durationToTicks d (tw_tick tw)), durationToTicks interval (tw_tick tw), fn))"
    and "tw_currentTick tw' = tw_currentTick tw" and "tw_nextID tw' = i" and "tw_tick tw' = tw_tick tw"
proof -
  let ?k = "max 1 (durationToTicks d (tw_tick tw))"
  let ?t = "\<lparr>tk_id = Suc (tw_nextID tw), tk_expireTick = tw_currentTick tw + ?k, tk_level = 0, tk_slot = 0,
    tk_intervalTick = durationToTicks interval (tw_tick tw), tk_fn = fn\<rparr>"
  let ?tw = "tw\<lparr>tw_nextID := Suc (tw_nextID tw)\<rparr>"
  have "u64_add (tw_nextID tw) 1 = Suc (tw_nextID tw)" using assms(3) by (simp add: u64_add_def)
  moreover have "u64_add (tw_currentTick tw) (if durationToTicks d (tw_tick tw) < 1 then 1 else durationToTicks d (tw_tick tw)) = tw_currentTick tw + ?k"
    using room by (auto simp: u64_add_def max_def)
  ultimately have r: "tw' = insertLocked ?tw ?t" "i = Suc (tw_nextID tw)" using a by (auto simp: add_def Let_def)
  have inv': "wheel_inv ?tw 0 {} False"
    using inv by (simp add: wheel_inv_def task_ok_def ahead_def at_turn_def)
  have "map_of (bucket ?tw l s) (tk_id ?t) = None" if "l < level_count ?tw" "s < tw_slots ?tw" for l s
    using wheel_invD(3) [OF inv' that, of "tk_id ?t"] fresh
    by (cases "map_of (bucket tw l s) (Suc (tw_nextID tw))") (auto simp: view_def)
  then have "wheel_inv (insertLocked ?tw ?t) 0 ({} - {tk_id ?t}) False" by (intro insertLocked_inv [OF inv']) auto
  with r show "i = Suc (tw_nextID tw)" "wheel_inv tw' 0 {} False"
    "view tw' = (view tw)(i \<mapsto> (tw_currentTick tw + ?k, durationToTicks interval (tw_tick tw), fn))"
    "tw_currentTick tw' = tw_currentTick tw" "tw_nextID tw' = i" "tw_tick tw' = tw_tick tw"
    by (simp_all add: view_insertLocked)
qed

section \<open>The timer service\<close>

text \<open>The callbacks that run during \<open>n\<close> ticks, by tick, with the timers they belong to.\<close>

fun run_ticks :: "('s \<Rightarrow> 's \<times> task list) \<Rightarrow> nat \<Rightarrow> 's \<Rightarrow> 's \<times> (nat \<times> nat) set list" where
  "run_ticks adv 0 s = (s, [])"
| "run_ticks adv (Suc n) s =
     (case adv s of (s', ready) \<Rightarrow>
        case run_ticks adv n s' of (s'', fired) \<Rightarrow> (s'', set (map (\<lambda>t. (tk_id t, tk_fn t)) ready) # fired))"

text \<open>
  What the users of the wheel rely on: pending timers by identifier, changed by registering,
  stopping and the passing of ticks. \<open>room n s\<close> says that \<open>n\<close> more operations fit the counters,
  \<open>short d\<close> that a duration is converted without overflow.
\<close>

locale timer_service =
  fixes after :: "'s \<Rightarrow> int \<Rightarrow> nat \<Rightarrow> 's \<times> nat" and stop :: "'s \<Rightarrow> nat \<Rightarrow> 's" and advance :: "'s \<Rightarrow> 's \<times> task list"
    and pend :: "'s \<Rightarrow> nat \<rightharpoonup> nat \<times> nat \<times> nat" and now :: "'s \<Rightarrow> nat" and ticks :: "'s \<Rightarrow> int \<Rightarrow> nat"
    and room :: "nat \<Rightarrow> 's \<Rightarrow> bool" and short :: "int \<Rightarrow> bool"
  assumes after_law: "room (Suc n) s \<Longrightarrow> short d \<Longrightarrow> after s d f = (s', i) \<Longrightarrow>
      room n s' \<and> pend s i = None \<and> pend s' = (pend s)(i \<mapsto> (now s + max 1 (ticks s d), 0, f)) \<and> now s' = now s \<and> ticks s' = ticks s"
    and stop_law: "room (Suc n) s \<Longrightarrow> room n (stop s i) \<and> pend (stop s i) = (pend s)(i := None) \<and> now (stop s i) = now s \<and> ticks (stop s i) = ticks s"
    and advance_law: "room (Suc n) s \<Longrightarrow> advance s = (s', ready) \<Longrightarrow>
      room n s' \<and> now s' = Suc (now s) \<and> pend s' = (\<lambda>i. fire_timer (Suc (now s)) (pend s i)) \<and> ticks s' = ticks s
      \<and> set (map (\<lambda>t. (tk_id t, tk_fn t)) ready) = {(i, f). \<exists>e v. pend s i = Some (e, v, f) \<and> e \<le> Suc (now s)} \<and> distinct (map tk_id ready)"
begin

lemma quiet_before:
  assumes "room n s" and "pend s i = Some (e, 0, f)" and "now s < e"
  shows "\<forall>k < n. (i, f) \<in> snd (run_ticks advance n s) ! k \<longleftrightarrow> now s + Suc k = e"
  using assms
proof (induction n arbitrary: s)
  case (Suc n)
  obtain s' ready where adv: "advance s = (s', ready)" by fastforce
  note law = advance_law [OF Suc.prems(1) adv]
  obtain s'' fired where r: "run_ticks advance n s' = (s'', fired)" by fastforce
  have now_fires: "(i, f) \<in> set (map (\<lambda>t. (tk_id t, tk_fn t)) ready) \<longleftrightarrow> e = Suc (now s)"
    using law Suc.prems(2,3) by auto
  show ?case
  proof (cases "e = Suc (now s)")
    case True
    then have gone: "pend s' i = None" using law Suc.prems(2) by (simp add: fire_timer_def)
    have "\<forall>k < m. (i, f) \<notin> snd (run_ticks advance m t) ! k" if "room m t" "pend t i = None" for m t
      using that
    proof (induction m arbitrary: t)
      case (Suc m)
      obtain t' rd where adv: "advance t = (t', rd)" by fastforce
      note law = advance_law [OF Suc.prems(1) adv]
      have "\<forall>k < m. (i, f) \<notin> snd (run_ticks advance m t') ! k" using Suc.IH [of t'] law Suc.prems(2) by (simp add: fire_timer_def)
      moreover have "(i, f) \<notin> set (map (\<lambda>t. (tk_id t, tk_fn t)) rd)" using law Suc.prems(2) by auto
      ultimately show ?case using adv by (auto simp: less_Suc_eq_0_disj split: prod.splits)
    qed simp
    from this [of n s'] gone law have "\<forall>k < n. (i, f) \<notin> fired ! k" using r by simp
    with True now_fires adv r show ?thesis by (auto simp: less_Suc_eq_0_disj)
  next
    case False
    with Suc.prems(3) have later: "Suc (now s) < e" by simp
    then have "pend s' i = Some (e, 0, f)" using law Suc.prems(2) by (simp add: fire_timer_def)
    with Suc.IH [of s'] law later have "\<forall>k < n. (i, f) \<in> fired ! k \<longleftrightarrow> Suc (now s) + Suc k = e" using r by simp
    with False now_fires adv r show ?thesis by (auto simp: less_Suc_eq_0_disj)
  qed
qed simp

lemma fires_on_time:
  assumes "room (Suc n) s" and "short d" and "after s d f = (s', i)"
  shows "\<forall>k < n. (i, f) \<in> snd (run_ticks advance n s') ! k \<longleftrightarrow> Suc k = max 1 (ticks s d)"
  using quiet_before [of n s' i "now s + max 1 (ticks s d)" f] after_law [OF assms] by simp

end

definition wheel_room :: "nat \<Rightarrow> TimeWheel \<Rightarrow> bool" where
  "wheel_room n tw \<longleftrightarrow> wheel_inv tw 0 {} False \<and> 0 < tw_tick tw \<and> tw_tick tw < 2 ^ 62
     \<and> tw_currentTick tw + n < 2 ^ 62 \<and> tw_nextID tw + n < 2 ^ 62
     \<and> (\<forall>i e v f. view tw i = Some (e, v, f) \<longrightarrow> i \<le> tw_nextID tw \<and> v < 2 ^ 62)"

lemma wheel_room_mono: "wheel_room m tw \<Longrightarrow> n \<le> m \<Longrightarrow> wheel_room n tw"
  by (simp add: wheel_room_def)

lemma add_room:
  assumes r: "wheel_room (Suc n) tw" and d: "d < 2 ^ 62" "interval < 2 ^ 62" and a: "add tw d interval fn = (tw', i)"
  shows "wheel_room n tw' \<and> view tw i = None
    \<and> view tw' = (view tw)(i \<mapsto> (tw_currentTick tw + max 1 (durationToTicks d (tw_tick tw)), durationToTicks interval (tw_tick tw), fn))
    \<and> tw_currentTick tw' = tw_currentTick tw \<and> tw_tick tw' = tw_tick tw"
proof -
  have inv: "wheel_inv tw 0 {} False" and t: "0 < tw_tick tw" "tw_tick tw < 2 ^ 62"
    and n: "tw_currentTick tw + Suc n < 2 ^ 62" "tw_nextID tw + Suc n < 2 ^ 62"
    and v: "\<And>i e v f. view tw i = Some (e, v, f) \<Longrightarrow> i \<le> tw_nextID tw \<and> v < 2 ^ 62"
    using r unfolding wheel_room_def by blast+
  have fresh: "view tw (Suc (tw_nextID tw)) = None"
    using v by (cases "view tw (Suc (tw_nextID tw))") (auto dest: v)
  note k = durationToTicks_exact(2) [OF d(1) t] durationToTicks_exact(2) [OF d(2) t]
  have "Suc (tw_nextID tw) < 2 ^ 64" "tw_currentTick tw + max 1 (durationToTicks d (tw_tick tw)) < 2 ^ 64" using n k by simp_all
  note e = add_effect [OF inv fresh this a]
  have "\<forall>j e v f. view tw' j = Some (e, v, f) \<longrightarrow> j \<le> tw_nextID tw' \<and> v < 2 ^ 62"
    unfolding e(3,5) using v k(2) e(1) by (auto dest: v split: if_splits)
  then have "wheel_room n tw'" using e n t by (simp add: wheel_room_def)
  with e fresh show ?thesis by simp
qed

interpretation wheel: timer_service AfterFunc Stop Advance view tw_currentTick "\<lambda>tw d. durationToTicks d (tw_tick tw)" wheel_room "\<lambda>d. d < 2 ^ 62"
proof unfold_locales
  fix n s d f s' i
  assume "wheel_room (Suc n) s" "d < 2 ^ 62" "AfterFunc s d f = (s', i)"
  from add_room [OF this(1,2) _ this(3) [unfolded AfterFunc_def]]
  show "wheel_room n s' \<and> view s i = None \<and> view s' = (view s)(i \<mapsto> (tw_currentTick s + max 1 (durationToTicks d (tw_tick s)), 0, f))
      \<and> tw_currentTick s' = tw_currentTick s \<and> (\<lambda>d. durationToTicks d (tw_tick s')) = (\<lambda>d. durationToTicks d (tw_tick s))"
    by (simp add: durationToTicks_def)
next
  fix n s i
  assume r: "wheel_room (Suc n) s"
  then have inv: "wheel_inv s 0 {} False" by (simp add: wheel_room_def)
  show "wheel_room n (Stop s i) \<and> view (Stop s i) = (view s)(i := None) \<and> tw_currentTick (Stop s i) = tw_currentTick s
      \<and> (\<lambda>d. durationToTicks d (tw_tick (Stop s i))) = (\<lambda>d. durationToTicks d (tw_tick s))"
    using r by (auto simp: wheel_room_def Stop_effect [OF inv])
next
  fix n s s' ready
  assume r: "wheel_room (Suc n) s" and adv: "Advance s = (s', ready)"
  have inv: "wheel_inv s 0 {} False" and c: "tw_currentTick s + Suc n < 2 ^ 62" and v: "\<forall>i e v f. view s i = Some (e, v, f) \<longrightarrow> i \<le> tw_nextID s \<and> v < 2 ^ 62"
    using r unfolding wheel_room_def by blast+
  have "Suc (tw_currentTick s) < 2 ^ 64" using c by simp
  moreover have "\<forall>i e v f. view s i = Some (e, v, f) \<longrightarrow> Suc (tw_currentTick s) + v < 2 ^ 64"
  proof (intro allI impI)
    fix i e v f assume "view s i = Some (e, v, f)"
    with v have "v < 2 ^ 62" by blast
    with c show "Suc (tw_currentTick s) + v < 2 ^ 64" by simp
  qed
  ultimately have "wheel_inv s' 0 {} False" "view s' = (\<lambda>i. fire_timer (Suc (tw_currentTick s)) (view s i))"
    "set (map (\<lambda>t. (tk_id t, tk_fn t)) ready) = {(i, f). \<exists>e v. view s i = Some (e, v, f) \<and> e \<le> Suc (tw_currentTick s)}"
    "distinct (map tk_id ready)" "tw_currentTick s' = Suc (tw_currentTick s)" "tw_nextID s' = tw_nextID s" "tw_tick s' = tw_tick s"
    using Advance_effect [OF inv _ _ adv] by auto
  note e = this
  have "\<forall>i e v f. view s' i = Some (e, v, f) \<longrightarrow> i \<le> tw_nextID s' \<and> v < 2 ^ 62"
    unfolding e(2,6) using v by (auto simp: fire_timer_def split: option.splits if_splits)
  then have "wheel_room n s'" using r e by (simp add: wheel_room_def)
  with e show "wheel_room n s' \<and> tw_currentTick s' = Suc (tw_currentTick s) \<and> view s' = (\<lambda>i. fire_timer (Suc (tw_currentTick s)) (view s i))
      \<and> (\<lambda>d. durationToTicks d (tw_tick s')) = (\<lambda>d. durationToTicks d (tw_tick s))
      \<and> set (map (\<lambda>t. (tk_id t, tk_fn t)) ready) = {(i, f). \<exists>e v. view s i = Some (e, v, f) \<and> e \<le> Suc (tw_currentTick s)}
      \<and> distinct (map tk_id ready)" by simp
qed

section \<open>Refinement of a set of timers\<close>

text \<open>
  The reference: timers with an exact expiry tick. A tick runs every timer that is due,
  removes it or, if it is periodic, schedules it again.
\<close>

record timers =
  tm_now :: nat
  tm_pending :: "nat \<rightharpoonup> nat \<times> nat \<times> nat"
  tm_next :: nat

datatype wheel_op = RegisterOnce int nat | RegisterPeriodic int nat | Cancel nat | PassTick

definition timers_add :: "timers \<Rightarrow> nat \<Rightarrow> nat \<Rightarrow> nat \<Rightarrow> timers" where
  "timers_add s k v f = s\<lparr>tm_next := Suc (tm_next s), tm_pending := (tm_pending s)(Suc (tm_next s) \<mapsto> (tm_now s + max 1 k, v, f))\<rparr>"

fun timers_step :: "int \<Rightarrow> timers \<Rightarrow> wheel_op \<Rightarrow> timers \<times> (nat \<times> nat) set" where
  "timers_step tick s (RegisterOnce d f) = (timers_add s (durationToTicks d tick) 0 f, {})"
| "timers_step tick s (RegisterPeriodic d f) =
     (let k = durationToTicks (if d \<le> 0 then tick else d) tick in (timers_add s k k f, {}))"
| "timers_step tick s (Cancel i) = (s\<lparr>tm_pending := (tm_pending s)(i := None)\<rparr>, {})"
| "timers_step tick s PassTick =
     (s\<lparr>tm_now := Suc (tm_now s), tm_pending := (\<lambda>i. fire_timer (Suc (tm_now s)) (tm_pending s i))\<rparr>,
      {(i, f). \<exists>e v. tm_pending s i = Some (e, v, f) \<and> e \<le> Suc (tm_now s)})"

fun wheel_step :: "TimeWheel \<Rightarrow> wheel_op \<Rightarrow> TimeWheel \<times> (nat \<times> nat) set" where
  "wheel_step tw (RegisterOnce d f) = (fst (AfterFunc tw d f), {})"
| "wheel_step tw (RegisterPeriodic d f) = (fst (Tick tw d f), {})"
| "wheel_step tw (Cancel i) = (Stop tw i, {})"
| "wheel_step tw PassTick = (case Advance tw of (tw', ready) \<Rightarrow> (tw', set (map (\<lambda>t. (tk_id t, tk_fn t)) ready)))"

fun op_log :: "('s \<Rightarrow> wheel_op \<Rightarrow> 's \<times> (nat \<times> nat) set) \<Rightarrow> 's \<Rightarrow> wheel_op list \<Rightarrow> (nat \<times> nat) set list" where
  "op_log step s [] = []"
| "op_log step s (p # ps) = (case step s p of (s', fired) \<Rightarrow> fired # op_log step s' ps)"

fun short_op :: "wheel_op \<Rightarrow> bool" where
  "short_op (RegisterOnce d f) = (d < 2 ^ 62)"
| "short_op (RegisterPeriodic d f) = (d < 2 ^ 62)"
| "short_op p = True"

definition simulates :: "TimeWheel \<Rightarrow> timers \<Rightarrow> bool" where
  "simulates tw s \<longleftrightarrow> tw_currentTick tw = tm_now s \<and> view tw = tm_pending s \<and> tw_nextID tw = tm_next s"

lemma durationToTicks_0 [simp]: "durationToTicks 0 tick = 0"
  by (simp add: durationToTicks_def)

lemma add_id:
  assumes "wheel_room (Suc n) tw" and "add tw d v f = (tw', i)"
  shows "i = Suc (tw_nextID tw) \<and> tw_nextID tw' = i"
proof -
  have "tw_nextID tw + Suc n < 2 ^ 62" using assms(1) by (simp add: wheel_room_def)
  then show ?thesis using assms(2) by (auto simp: add_def Let_def u64_add_def)
qed

lemma wheel_step_simulates:
  assumes r: "wheel_room (Suc n) tw" and sim: "simulates tw s" and sh: "short_op p"
    and st: "wheel_step tw p = (tw', fired)" and sp: "timers_step (tw_tick tw) s p = (s', fired')"
  shows "wheel_room n tw' \<and> simulates tw' s' \<and> fired = fired' \<and> tw_tick tw' = tw_tick tw"
proof (cases p)
  case (RegisterOnce d f)
  obtain i where a: "add tw d 0 f = (tw', i)" using st RegisterOnce by (auto simp: AfterFunc_def prod_eq_iff)
  from add_room [OF r _ _ a] add_id [OF r a] sh sim st sp RegisterOnce show ?thesis
    by (auto simp: simulates_def timers_add_def)
next
  case (RegisterPeriodic d f)
  let ?d = "if d \<le> 0 then tw_tick tw else d"
  obtain i where a: "add tw ?d ?d f = (tw', i)" using st RegisterPeriodic by (auto simp: Tick_def Let_def prod_eq_iff)
  have "?d < 2 ^ 62" using sh RegisterPeriodic r by (simp add: wheel_room_def)
  from add_room [OF r this this a] add_id [OF r a] sim st sp RegisterPeriodic show ?thesis
    by (auto simp: simulates_def timers_add_def Let_def)
next
  case (Cancel i)
  have "wheel_inv tw 0 {} False" using r by (simp add: wheel_room_def)
  with wheel.stop_law [OF r, of i] Stop_effect(4,5) [of tw i] sim st sp Cancel show ?thesis
    by (auto simp: simulates_def)
next
  case PassTick
  obtain ready where adv: "Advance tw = (tw', ready)" and fired: "fired = set (map (\<lambda>t. (tk_id t, tk_fn t)) ready)"
    using st PassTick by (auto split: prod.splits)
  have "tw_nextID tw' = tw_nextID tw \<and> tw_tick tw' = tw_tick tw"
  proof -
    have inv: "wheel_inv tw 0 {} False" and c: "tw_currentTick tw + Suc n < 2 ^ 62" and v: "\<And>i e v f. view tw i = Some (e, v, f) \<Longrightarrow> v < 2 ^ 62"
      using r unfolding wheel_room_def by blast+
    have "Suc (tw_currentTick tw) < 2 ^ 64" using c by simp
    moreover have "Suc (tw_currentTick tw) + w < 2 ^ 64" if "view tw i = Some (e, w, f)" for i e w f
      using c v [OF that] by simp
    ultimately show ?thesis using Advance_effect(6,7) [OF inv _ _ adv] by blast
  qed
  with wheel.advance_law [OF r adv] sim st sp PassTick fired show ?thesis by (auto simp: simulates_def)
qed

lemma op_log_simulates:
  assumes "wheel_room (length ps) tw" and "simulates tw s" and "\<forall>p \<in> set ps. short_op p"
  shows "op_log wheel_step tw ps = op_log (timers_step (tw_tick tw)) s ps"
  using assms
proof (induction ps arbitrary: tw s)
  case (Cons p ps)
  obtain tw' fired where w: "wheel_step tw p = (tw', fired)" by fastforce
  obtain s' fired' where t: "timers_step (tw_tick tw) s p = (s', fired')" by fastforce
  have "wheel_room (Suc (length ps)) tw" "short_op p" using Cons.prems by simp_all
  from wheel_step_simulates [OF this(1) Cons.prems(2) this(2) w t] Cons.IH [of tw' s'] Cons.prems(3) show ?case
    by (simp add: w t)
qed simp

lemma wheel_room_New:
  assumes "0 < tick" and "tick < 2 ^ 62" and "0 < slots" and "0 < n" and "nat slots ^ (nat n - 1) < 2 ^ 64" and "k < 2 ^ 62"
  shows "wheel_room k (NewWithLevelCount tick slots n)"
  using wheel_shape_New [OF assms(3-5), of tick] assms
  by (simp add: wheel_room_def wheel_inv_def view_def) (simp add: NewWithLevelCount_def Let_def bucket_def)

text \<open>C4: The hierarchical wheel is exact. For every tick length, number of slots and number of levels
  whose granularities fit 64 bits, and every history of registrations, cancellations and ticks
  with durations below \<open>2 ^ 62\<close> nanoseconds, each tick runs exactly the callbacks that the
  reference runs: every timer that expires at this tick, once, none early, none late, none
  that was stopped, and periodic timers again after their interval.\<close>

theorem time_wheel_refines_timers:
  assumes "0 < tick" and "tick < 2 ^ 62" and "0 < slots" and "0 < levelCount" and "nat slots ^ (nat levelCount - 1) < 2 ^ 64"
    and "length ps < 2 ^ 62" and "\<forall>p \<in> set ps. short_op p"
  shows "op_log wheel_step (NewWithLevelCount tick slots levelCount) ps
    = op_log (timers_step tick) \<lparr>tm_now = 0, tm_pending = Map.empty, tm_next = 0\<rparr> ps"
proof -
  let ?tw = "NewWithLevelCount tick slots levelCount"
  have "simulates ?tw \<lparr>tm_now = 0, tm_pending = Map.empty, tm_next = 0\<rparr>" "tw_tick ?tw = tick"
    using assms(1) by (simp_all add: simulates_def NewWithLevelCount_def Let_def view_def fun_eq_iff)
  with op_log_simulates [OF wheel_room_New [OF assms(1-6)] _ assms(7)] show ?thesis by simp
qed

theorem time_wheel_refines_timers_witness:
  "op_log wheel_step (NewWithLevelCount 1 2 2) [RegisterOnce 3 7, PassTick, PassTick, PassTick] = [{}, {}, {}, {(1, 7)}]"
proof -
  have "durationToTicks 3 1 = 3" by (simp add: durationToTicks_def wrap_s64_def)
  then have "op_log (timers_step 1) \<lparr>tm_now = 0, tm_pending = Map.empty, tm_next = 0\<rparr> [RegisterOnce 3 7, PassTick, PassTick, PassTick]
      = [{}, {}, {}, {(1, 7)}]"
    by (auto simp: timers_add_def fire_timer_def split: if_splits)
  with time_wheel_refines_timers [of 1 2 2 "[RegisterOnce 3 7, PassTick, PassTick, PassTick]"] show ?thesis by simp
qed

text \<open>A one-shot timer fires exactly once, after exactly the number of ticks its duration rounds
  up to (at least one), when it is not stopped.\<close>

theorem one_shot_timer_exact:
  assumes "wheel_room (Suc n) tw" and "d < 2 ^ 62" and "AfterFunc tw d f = (tw', i)" and "k < n"
  shows "(i, f) \<in> snd (run_ticks Advance n tw') ! k \<longleftrightarrow> Suc k = max 1 (durationToTicks d (tw_tick tw))"
  using wheel.fires_on_time [OF assms(1-3)] assms(4) by blast

theorem one_shot_timer_exact_witness:
  "(1, 7) \<in> snd (run_ticks Advance 3 (fst (AfterFunc (NewWithLevelCount 1 2 2) 2 7))) ! 1"
proof -
  let ?tw = "NewWithLevelCount 1 2 2"
  have r: "wheel_room (Suc 3) ?tw" by (rule wheel_room_New) simp_all
  obtain tw' i where a: "AfterFunc ?tw 2 7 = (tw', i)" by fastforce
  have "tw_nextID ?tw = 0" "tw_tick ?tw = 1" by (simp_all add: NewWithLevelCount_def Let_def)
  moreover have "durationToTicks 2 1 = 2" by (simp add: durationToTicks_def wrap_s64_def)
  ultimately show ?thesis using one_shot_timer_exact [OF r _ a, of 1] add_id [OF r, of 2 0 7 tw' i] a by (simp add: AfterFunc_def)
qed

end
