(* ===== verification/Lobby_Loop.thy ===== *)
theory Lobby_Loop
  imports Lobby_Runtime Time_Wheel
begin

text \<open>
  The main loop of the lobby runtime (\<^verbatim>\<open>Start\<close>, \<^verbatim>\<open>loop\<close>, \<^verbatim>\<open>drain\<close>, \<^verbatim>\<open>Stop\<close> of
  \<^verbatim>\<open>internal/server/lobby/internal/runtime.go\<close>) on top of the time wheel: periodic saves and the
  orderly shutdown. The select of the loop takes a task of the queue or a tick of the ticker; both
  come as a sequence of events in any interleaving. The deadline of a shutdown is the end of the
  sequence of tasks that arrive before it.
\<close>

section \<open>The loop\<close>

definition coalesceFlushInterval :: int where "coalesceFlushInterval = 10 ^ 9"

record Loop =
  lp_rt :: Runtime
  lp_tw :: TimeWheel

text \<open>Callback 0 of the wheel is \<^verbatim>\<open>flushAllDirty\<close>, callback 1 is \<^verbatim>\<open>coalesceFlush\<close>.\<close>

definition Runtime_Start :: "Runtime \<Rightarrow> Loop" where
  "Runtime_Start rt =
     (let tw0 = NewTimeWheel (lr_tick rt) 512;
          tw1 = fst (Tick tw0 (lr_flushInterval rt) 0);
          tw2 = fst (Tick tw1 coalesceFlushInterval 1)
      in \<lparr>lp_rt = rt, lp_tw = tw2\<rparr>)"

definition timer_event :: "task \<Rightarrow> lobby_event" where
  "timer_event t = (if tk_fn t = 0 then EvFlushAll else EvCoalesce)"

datatype loop_event = Task lobby_event | TickerFired

fun loop_step :: "Loop \<Rightarrow> loop_event \<Rightarrow> Loop" where
  "loop_step lp (Task ev) = lp\<lparr>lp_rt := lobby_step (lp_rt lp) ev\<rparr>"
| "loop_step lp TickerFired =
     (case Advance (lp_tw lp) of
        (tw, ready) \<Rightarrow> \<lparr>lp_rt = foldl (\<lambda>rt t. lobby_step rt (timer_event t)) (lp_rt lp) ready, lp_tw = tw\<rparr>)"

fun drain :: "Runtime \<Rightarrow> lobby_event list \<Rightarrow> Runtime" where
  "drain rt [] = rt"
| "drain rt (ev # evs) = (if 0 < lr_inflight rt then drain (lobby_step rt ev) evs else rt)"

definition Runtime_Stop :: "Loop \<Rightarrow> lobby_event list \<Rightarrow> Runtime" where
  "Runtime_Stop lp tasks = drain (flushAllDirty (lp_rt lp)) tasks"

section \<open>The loop runs the operations of the runtime\<close>

text \<open>The operations that a history of the loop executes, and the number of its ticks.\<close>

fun loop_events :: "Loop \<Rightarrow> loop_event \<Rightarrow> lobby_event list" where
  "loop_events lp (Task ev) = [ev]"
| "loop_events lp TickerFired = map timer_event (snd (Advance (lp_tw lp)))"

fun loop_trace :: "Loop \<Rightarrow> loop_event list \<Rightarrow> lobby_event list" where
  "loop_trace lp [] = []"
| "loop_trace lp (e # es) = loop_events lp e @ loop_trace (loop_step lp e) es"

definition ticks :: "loop_event list \<Rightarrow> nat" where
  "ticks es = length (filter (\<lambda>e. e = TickerFired) es)"

lemma loop_step_events: "lp_rt (loop_step lp e) = foldl lobby_step (lp_rt lp) (loop_events lp e)"
  by (cases e) (simp_all add: foldl_map split: prod.splits)

lemma loop_run_trace: "lp_rt (foldl loop_step lp es) = foldl lobby_step (lp_rt lp) (loop_trace lp es)"
  by (induction es arbitrary: lp) (simp_all add: loop_step_events)

section \<open>Saving leaves nothing marked\<close>

definition clean :: "Player \<Rightarrow> bool" where
  "clean p \<longleftrightarrow> (\<forall>n c. pl_components p n = Some c \<longrightarrow> \<not> Component_Dirty c)"

definition all_clean :: "Runtime \<Rightarrow> bool" where
  "all_clean rt \<longleftrightarrow> (\<forall>up \<in> set (lr_players rt). clean (lr_heap rt ! snd up))"

lemma clean_cleared:
  assumes "player_ok p"
  shows "clean (foldl (\<lambda>p c. put_component (ClearDirty c) p) p (dirty_components p))"
  unfolding clean_def
proof (intro allI impI)
  fix n c' assume "pl_components (foldl (\<lambda>p c. put_component (ClearDirty c) p) p (dirty_components p)) n = Some c'"
  then obtain c where "c' = (if Component_Dirty c then ClearDirty c else c)" using clear_keeps_names [OF assms] by blast
  then show "\<not> Component_Dirty c'" by (simp add: ClearDirty_def)
qed

lemma flush_effect:
  assumes "rt_ok rt M d" and "lr_store rt" and "pp < length (lr_heap rt)"
  shows "clean (lr_heap (flushPlayer rt uid pp FlushIgnore) ! pp)"
    and "clean (lr_heap rt ! qq) \<Longrightarrow> clean (lr_heap (flushPlayer rt uid pp FlushIgnore) ! qq)"
    and "lr_players (flushPlayer rt uid pp FlushIgnore) = lr_players rt" and "lr_store (flushPlayer rt uid pp FlushIgnore)"
proof -
  have heap: "lr_heap (flushPlayer rt uid pp FlushIgnore) =
      (lr_heap rt)[pp := foldl (\<lambda>p c. put_component (ClearDirty c) p) (lr_heap rt ! pp) (dirty_components (lr_heap rt ! pp))]"
    using assms(2) by (simp add: flushPlayer_def Let_def issue_def upd_player_def)
  from clean_cleared [OF heap_ok [OF assms(1,3)]] assms(3)
  show "clean (lr_heap (flushPlayer rt uid pp FlushIgnore) ! pp)" by (simp add: heap)
  then show "clean (lr_heap rt ! qq) \<Longrightarrow> clean (lr_heap (flushPlayer rt uid pp FlushIgnore) ! qq)"
    by (cases "qq = pp") (simp_all add: heap)
  show "lr_players (flushPlayer rt uid pp FlushIgnore) = lr_players rt" "lr_store (flushPlayer rt uid pp FlushIgnore)"
    using assms(2) by (simp_all add: flushPlayer_def Let_def issue_def upd_player_def)
qed

lemma flush_all_clean:
  assumes "rt_ok rt M d" and "lr_store rt"
  shows "all_clean (flushAllDirty rt) \<and> lr_store (flushAllDirty rt) \<and> lr_players (flushAllDirty rt) = lr_players rt"
proof -
  let ?f = "\<lambda>rt (uid, pp). flushPlayer rt uid pp FlushIgnore"
  have "(\<forall>qq. clean (lr_heap rt ! qq) \<longrightarrow> clean (lr_heap (foldl ?f rt ps) ! qq)) \<and> (\<forall>up \<in> set ps. clean (lr_heap (foldl ?f rt ps) ! snd up))
      \<and> lr_players (foldl ?f rt ps) = lr_players rt \<and> lr_store (foldl ?f rt ps)"
    if "rt_ok rt M d" "lr_store rt" "\<forall>up \<in> set ps. snd up < length (lr_heap rt)" for rt ps
    using that
  proof (induction ps arbitrary: rt)
    case (Cons up ps)
    obtain u pp where up: "up = (u, pp)" by (cases up)
    have pp: "pp < length (lr_heap rt)" using Cons.prems(3) up by simp
    note e = flush_effect [OF Cons.prems(1,2) pp, where uid = u]
    have "rt_ok (flushPlayer rt u pp FlushIgnore) M d" using Cons.prems(1) pp by (intro rt_ok_flush) simp_all
    from Cons.IH [OF this e(4)] Cons.prems(3) have
      "\<forall>qq. clean (lr_heap (flushPlayer rt u pp FlushIgnore) ! qq) \<longrightarrow> clean (lr_heap (foldl ?f rt (up # ps)) ! qq)"
      "\<forall>up' \<in> set ps. clean (lr_heap (foldl ?f rt (up # ps)) ! snd up')"
      "lr_players (foldl ?f rt (up # ps)) = lr_players rt" "lr_store (foldl ?f rt (up # ps))" by (simp_all add: up e(3))
    with e(1,2) up show ?case by (metis list.set_cases set_ConsD snd_conv)
  qed simp
  from this [of rt "lr_players rt"] assms show ?thesis by (auto simp: flushAllDirty_def all_clean_def rt_ok_def)
qed

lemma coalesce_clean:
  assumes "rt_ok rt M d" and "lr_store rt" and "all_clean rt"
  shows "all_clean (coalesceFlush rt) \<and> lr_store (coalesceFlush rt)"
proof -
  let ?f = "\<lambda>rt uid. let rt1 = (case map_of (lr_players rt) uid of None \<Rightarrow> rt | Some pp \<Rightarrow> flushPlayer rt uid pp FlushIgnore)
       in rt1\<lparr>lr_dirtyFlush := mdel uid (lr_dirtyFlush rt1)\<rparr>"
  have "rt_ok (rt\<lparr>lr_dirtyFlush := x\<rparr>) M d" if "rt_ok rt M d" for rt x using that by (rule rt_okI) (use that in \<open>auto simp: rt_ok_def\<close>)
  then have "rt_ok (?f rt uid) M d \<and> lr_store (?f rt uid) \<and> all_clean (?f rt uid)" if "rt_ok rt M d" "lr_store rt" "all_clean rt" for rt uid
    using that players_valid [OF that(1), of uid] rt_ok_flush [of rt FlushIgnore M d _ uid] flush_effect(2-4) [OF that(1,2)]
    by (auto simp: Let_def all_clean_def split: option.splits)
  then have "lr_store (foldl ?f rt us) \<and> all_clean (foldl ?f rt us)" if "rt_ok rt M d" "lr_store rt" "all_clean rt" for rt us
    using that by (induction us arbitrary: rt) simp_all
  with assms show ?thesis by (simp add: coalesceFlush_def)
qed

section \<open>The two periodic timers\<close>

text \<open>The next multiple of \<open>n\<close> after \<open>t\<close>.\<close>

definition due :: "nat \<Rightarrow> nat \<Rightarrow> nat" where
  "due n t = n * Suc (t div n)"

lemma due_step:
  assumes "0 < n"
  shows "fire_timer (Suc t) (Some (due n t, n, f)) = Some (due n (Suc t), n, f)" and "due n t \<le> Suc t \<longleftrightarrow> n dvd Suc t"
proof -
  have t: "t < due n t" using assms by (simp add: due_def dividend_less_times_div)
  have d: "due n (Suc t) = (if n dvd Suc t then due n t + n else due n t)" by (simp add: due_def div_Suc dvd_eq_mod_eq_0)
  have eq: "due n t = Suc t" if "n dvd Suc t"
    using that by (metis d due_def div_Suc dvd_imp_mod_0 dvd_mult_div_cancel)
  moreover have "Suc t < due n t" if "\<not> n dvd Suc t"
    using that t by (metis due_def dvd_triv_left le_neq_implies_less Suc_leI)
  ultimately show "due n t \<le> Suc t \<longleftrightarrow> n dvd Suc t"
    and "fire_timer (Suc t) (Some (due n t, n, f)) = Some (due n (Suc t), n, f)"
    using assms d by (cases "n dvd Suc t"; fastforce simp: fire_timer_def)+
qed

definition loop_ok :: "nat \<Rightarrow> nat \<Rightarrow> nat \<Rightarrow> Loop \<Rightarrow> bool" where
  "loop_ok N K m lp \<longleftrightarrow> 0 < N \<and> 0 < K \<and> wheel_room m (lp_tw lp)
     \<and> view (lp_tw lp) = [1 \<mapsto> (due N (tw_currentTick (lp_tw lp)), N, 0), 2 \<mapsto> (due K (tw_currentTick (lp_tw lp)), K, 1)]"

lemma loop_ok_tick:
  assumes ok: "loop_ok N K (Suc m) lp" and adv: "Advance (lp_tw lp) = (tw, ready)"
  shows "loop_ok N K m (loop_step lp TickerFired) \<and> tw_currentTick tw = Suc (tw_currentTick (lp_tw lp))
    \<and> (N dvd Suc (tw_currentTick (lp_tw lp)) \<longrightarrow> EvFlushAll \<in> set (map timer_event ready))
    \<and> set (map timer_event ready) \<subseteq> {EvFlushAll, EvCoalesce}"
proof -
  let ?t = "tw_currentTick (lp_tw lp)"
  have r: "wheel_room (Suc m) (lp_tw lp)" and pos: "0 < N" "0 < K"
    and v: "view (lp_tw lp) = [1 \<mapsto> (due N ?t, N, 0), 2 \<mapsto> (due K ?t, K, 1)]" using ok by (simp_all add: loop_ok_def)
  note law = wheel.advance_law [OF r adv]
  have "view tw = [1 \<mapsto> (due N (Suc ?t), N, 0), 2 \<mapsto> (due K (Suc ?t), K, 1)]"
    using law by (auto simp: v fun_eq_iff due_step(1) [OF pos(1)] due_step(1) [OF pos(2)]) (simp add: fire_timer_def)
  moreover have "(1, 0) \<in> set (map (\<lambda>t. (tk_id t, tk_fn t)) ready)" if "N dvd Suc ?t"
    using law that due_step(2) [OF pos(1), of ?t] by (auto simp: v)
  then have "EvFlushAll \<in> set (map timer_event ready)" if "N dvd Suc ?t" using that by (force simp: timer_event_def)
  ultimately show ?thesis using law pos adv by (auto simp: loop_ok_def timer_event_def)
qed

lemma loop_ok_run:
  assumes "loop_ok N K (length es + m) lp"
  shows "loop_ok N K m (foldl loop_step lp es)
    \<and> tw_currentTick (lp_tw (foldl loop_step lp es)) = tw_currentTick (lp_tw lp) + ticks es"
  using assms
proof (induction es arbitrary: lp)
  case (Cons e es)
  have ok: "loop_ok N K (Suc (length es + m)) lp" using Cons.prems by simp
  show ?case
  proof (cases e)
    case (Task ev)
    have "loop_ok N K (length es + m) (loop_step lp e)" using ok by (auto simp: Task loop_ok_def elim: wheel_room_mono)
    with Cons.IH [OF this] show ?thesis by (simp add: Task ticks_def)
  next
    case TickerFired
    obtain tw ready where adv: "Advance (lp_tw lp) = (tw, ready)" by fastforce
    with loop_ok_tick [OF ok adv] Cons.IH [of "loop_step lp e"] show ?thesis by (simp add: TickerFired ticks_def)
  qed
qed (simp add: ticks_def)

lemma loop_ok_Start:
  assumes "lr_tick rt < 2 ^ 62" and "0 < lr_tick rt" and "0 < lr_flushInterval rt" and "lr_flushInterval rt < 2 ^ 62" and "m + 2 < 2 ^ 62"
  shows "loop_ok (durationToTicks (lr_flushInterval rt) (lr_tick rt)) (durationToTicks coalesceFlushInterval (lr_tick rt)) m (Runtime_Start rt)"
    and "tw_currentTick (lp_tw (Runtime_Start rt)) = 0"
proof -
  let ?tick = "lr_tick rt" and ?fl = "lr_flushInterval rt"
  define tw0 where "tw0 = NewTimeWheel ?tick 512"
  have "wheel_room (Suc (Suc m)) tw0"
    unfolding tw0_def NewTimeWheel_def using assms by (intro wheel_room_New) (simp_all add: defaultLevelCount_def)
  moreover have "tw_tick tw0 = ?tick" "tw_currentTick tw0 = 0" "tw_nextID tw0 = 0" "view tw0 = Map.empty"
    using assms unfolding tw0_def NewTimeWheel_def by (simp_all add: NewWithLevelCount_def Let_def view_def fun_eq_iff)
  ultimately have tw0: "wheel_room (Suc (Suc m)) tw0" "tw_tick tw0 = ?tick" "tw_currentTick tw0 = 0" "tw_nextID tw0 = 0" "view tw0 = Map.empty"
    by simp_all
  obtain tw1 i where a1: "add tw0 ?fl ?fl 0 = (tw1, i)" by fastforce
  obtain tw2 j where a2: "add tw1 coalesceFlushInterval coalesceFlushInterval 1 = (tw2, j)" by fastforce
  have c: "coalesceFlushInterval < 2 ^ 62" "0 < coalesceFlushInterval" by (simp_all add: coalesceFlushInterval_def)
  note r1 = add_room [OF tw0(1) assms(4,4) a1] and i1 = add_id [OF tw0(1) a1]
  then have w1: "wheel_room (Suc m) tw1" by blast
  note r2 = add_room [OF w1 c(1) c(1) a2] and i2 = add_id [OF w1 a2]
  have st: "lp_tw (Runtime_Start rt) = tw2"
    using assms(3) c(2) a1 a2 by (simp add: Runtime_Start_def Tick_def Let_def flip: tw0_def)
  have pos: "0 < durationToTicks d ?tick" if "0 < d" "d < 2 ^ 62" for d
  proof -
    have "1 \<le> (d + ?tick - 1) div ?tick" using that assms(2) by (subst pos_imp_zdiv_pos_iff [THEN iffD2, THEN zless_imp_add1_zle, simplified]) auto
    with durationToTicks_exact(1) [OF that(2) assms(2,1)] that(1) show ?thesis by simp
  qed
  show "loop_ok (durationToTicks ?fl ?tick) (durationToTicks coalesceFlushInterval ?tick) m (Runtime_Start rt)"
    using r1 r2 i1 i2 tw0 pos [OF assms(3,4)] pos [OF c(2,1)] by (auto simp: st loop_ok_def due_def max_def)
  show "tw_currentTick (lp_tw (Runtime_Start rt)) = 0" using r1 r2 tw0 by (simp add: st)
qed

section \<open>Periodic saves\<close>

lemma store_frame [simp]:
  "lr_store (emit rt e) = lr_store rt" "lr_store (issue rt q) = lr_store rt" "lr_store (upd_player rt pp f) = lr_store rt"
  "lr_store (with_currency rt pp g) = lr_store rt" "lr_store (with_bag rt pp h) = lr_store rt" "lr_store (tryReconnect rt uid) = lr_store rt"
  "lr_store (FlushSoon rt uid) = lr_store rt" "lr_store (settle_answer rt dn code) = lr_store rt"
  by (simp_all add: emit_def issue_def upd_player_def with_currency_def with_bag_def tryReconnect_def unbindRoom_def FlushSoon_def settle_answer_def
      Let_def split: option.splits prod.splits)

lemma store_after [simp]: "lr_store (run_after rt a) = lr_store rt"
  by (cases a) (simp_all add: scanFriendAccepts_def)

lemma store_flush_after [simp]: "lr_store (run_flush_after rt fa ok) = lr_store rt"
  by (cases fa) simp_all

lemma store_flush [simp]: "lr_store (flushPlayer rt uid pp fa) = lr_store rt"
  by (simp add: flushPlayer_def Let_def)

lemma store_foldl: "(\<And>rt x. lr_store (f rt x) = lr_store rt) \<Longrightarrow> lr_store (foldl f rt xs) = lr_store rt"
  by (induction xs arbitrary: rt) simp_all

lemma store_replay [simp]: "lr_store (replay_messages rt uid pp ms a) = lr_store rt"
proof -
  have "lr_store (foldl (\<lambda>rt m. applyOfflineMsg rt uid pp m) rt ms) = lr_store rt"
    by (rule store_foldl) (simp add: applyOfflineMsg_def Let_def)
  then show ?thesis by (simp add: replay_messages_def Let_def)
qed

lemma store_friends [simp]: "lr_store (friends_found rt uid pp ms) = lr_store rt"
proof -
  have "lr_store (fst (foldl (accept_one uid pp) st ms)) = lr_store (fst st)" for st
    by (induction ms arbitrary: st) (simp_all add: accept_one_def split: prod.splits option.splits)
  from this [of "(rt, False)"] show ?thesis by (auto simp: friends_found_def split: prod.splits)
qed

lemma store_doc [simp]: "lr_store (doc_loaded rt uid gw n found) = lr_store rt"
  by (simp add: doc_loaded_def replayOffline_def scanFriendAccepts_def Let_def split: sum.splits)

lemma store_io [simp]: "lr_store (io_callback rt q res) = lr_store rt"
  by (induction rt q res rule: io_callback.induct) (simp_all add: flush_done_def Let_def)

lemma store_step [simp]: "lr_store (lobby_step rt ev) = lr_store rt"
proof (cases ev)
  case (EvGrant uid x atts)
  have "lr_store (grantAttachments rt uid pp x atts) = lr_store rt" for pp
    unfolding grantAttachments_def by (rule store_foldl) (simp add: grant_one_def Let_def split: prod.splits)
  then show ?thesis by (simp add: EvGrant split: option.splits)
next
  case EvFlushAll
  have "lr_store (flushAllDirty rt) = lr_store rt" unfolding flushAllDirty_def by (rule store_foldl) (simp split: prod.splits)
  then show ?thesis by (simp add: EvFlushAll)
next
  case EvCoalesce
  have "lr_store (coalesceFlush rt) = lr_store rt" unfolding coalesceFlush_def by (rule store_foldl) (simp add: Let_def split: option.splits)
  then show ?thesis by (simp add: EvCoalesce)
qed (simp_all add: Login_def Disconnect_def Runtime_Touch_def StartMatch_def Runtime_BindRoom_def Settle_def settle_end_def unbindRoom_def offlinePush_def
    Let_def split: option.splits prod.splits)

lemma store_run [simp]: "lr_store (foldl lobby_step rt evs) = lr_store rt"
  by (rule store_foldl) simp

lemma coalesce_players:
  assumes "rt_ok rt M d" and "lr_store rt"
  shows "lr_players (coalesceFlush rt) = lr_players rt"
proof -
  let ?f = "\<lambda>rt uid. let rt1 = (case map_of (lr_players rt) uid of None \<Rightarrow> rt | Some pp \<Rightarrow> flushPlayer rt uid pp FlushIgnore)
       in rt1\<lparr>lr_dirtyFlush := mdel uid (lr_dirtyFlush rt1)\<rparr>"
  have "lr_players (?f rt uid) = lr_players rt" for rt uid
    by (simp add: Let_def flushPlayer_def issue_def upd_player_def split: option.splits)
  then have "lr_players (foldl ?f rt us) = lr_players rt" for rt us by (induction us arbitrary: rt) simp_all
  then show ?thesis by (simp add: coalesceFlush_def)
qed

lemma timers_clean:
  assumes "rt_ok rt {#} 0" and "lr_store rt" and "set evs \<subseteq> {EvFlushAll, EvCoalesce}" and "all_clean rt \<or> EvFlushAll \<in> set evs"
  shows "all_clean (foldl lobby_step rt evs) \<and> lr_players (foldl lobby_step rt evs) = lr_players rt"
  using assms
proof (induction evs arbitrary: rt)
  case (Cons ev evs)
  have "lr_players (lobby_step rt ev) = lr_players rt"
    using Cons.prems(3) flush_all_clean [OF Cons.prems(1,2)] coalesce_players [OF Cons.prems(1,2)] by auto
  moreover have "rt_ok (lobby_step rt ev) {#} 0" using Cons.prems(1) by (rule rt_ok_step)
  moreover have "all_clean (lobby_step rt ev) \<or> EvFlushAll \<in> set evs"
    using Cons.prems flush_all_clean [OF Cons.prems(1,2)] coalesce_clean [OF Cons.prems(1,2)] by auto
  ultimately show ?case using Cons.IH [of "lobby_step rt ev"] Cons.prems by simp
qed simp

lemma clean_saved:
  assumes "orderly written (NewRuntime cfg) S0 evs" and "rt = foldl lobby_step (NewRuntime cfg) evs"
    and "(uid, pp) \<in> set (lr_players rt)" and "pl_components (lr_heap rt ! pp) name = Some c" and "\<not> Component_Dirty c"
  shows "case newest uid name (lr_io rt) of
      Some s \<Rightarrow> content s = content (Component_Snapshot c)
    | None \<Rightarrow> stored content uid (saved_run written (NewRuntime cfg) S0 evs uid) c"
proof -
  have g: "list_all (\<lambda>a. True) (concat (map gifts evs))" by (simp add: list_all_iff)
  have "safe content (NewRuntime cfg) S0" by (simp add: safe_def linked_def NewRuntime_def)
  from contents.safe_run [OF this rt_ok_New assms(1) g] have "linked rt" by (simp add: assms(2) safeD(1))
  then have "map_of (lr_players rt) uid = Some pp" using assms(3) by (simp add: linked_def wf_map_lookup)
  from contents.component_safe [OF assms(1) g assms(2) this assms(4)] assms(5) show ?thesis by (auto simp: safe_component_def split: option.splits)
qed

lemma clean_unmarked: "all_clean rt \<Longrightarrow> (uid, pp) \<in> set (lr_players rt) \<Longrightarrow> pl_components (lr_heap rt ! pp) name = Some c \<Longrightarrow> \<not> Component_Dirty c"
  by (force simp: all_clean_def clean_def)

text \<open>C13: A change is handed to the store after at most one save interval. In every interleaving of tasks
  and ticks, right after every tick whose number is a multiple of the save interval no component
  of a player in the lobby is marked as changed: its newest open save has its current content
  (remembered operation ids apart) or, without one, the document of the user holds it. The timers
  are those of the time wheel. The saves of a user are assumed to complete in the order in which
  they were started, and documents to be loaded as in the property above that no change is lost.\<close>

theorem flush_every_interval:
  assumes "rc_Store cfg" and "rc_Tick cfg < 2 ^ 62" and "rc_FlushInterval cfg < 2 ^ 62" and "length es + 3 < 2 ^ 62"
    and "lp = Runtime_Start (NewRuntime cfg)" and "durationToTicks (lr_flushInterval (lp_rt lp)) (lr_tick (lp_rt lp)) dvd Suc (ticks es)"
    and "orderly written (NewRuntime cfg) S0 (loop_trace lp (es @ [TickerFired]))"
    and "rt = lp_rt (foldl loop_step lp (es @ [TickerFired]))" and "S = saved_run written (NewRuntime cfg) S0 (loop_trace lp (es @ [TickerFired]))"
    and "(uid, pp) \<in> set (lr_players rt)" and "pl_components (lr_heap rt ! pp) name = Some c"
  shows "\<not> Component_Dirty c \<and> (case newest uid name (lr_io rt) of
      Some s \<Rightarrow> content s = content (Component_Snapshot c)
    | None \<Rightarrow> stored content uid (S uid) c)"
proof -
  let ?rt0 = "NewRuntime cfg" and ?lp = "foldl loop_step lp es"
  let ?N = "durationToTicks (lr_flushInterval ?rt0) (lr_tick ?rt0)" and ?K = "durationToTicks coalesceFlushInterval (lr_tick ?rt0)"
  have lp: "lp_rt lp = ?rt0" by (simp add: assms(5) Runtime_Start_def Let_def)
  have "lr_tick ?rt0 < 2 ^ 62" "0 < lr_tick ?rt0" "0 < lr_flushInterval ?rt0" "lr_flushInterval ?rt0 < 2 ^ 62"
    using assms(2,3) by (simp_all add: NewRuntime_def)
  note st = loop_ok_Start [OF this, of "length es + 1", folded assms(5)]
  have "loop_ok ?N ?K (length es + 1) lp" "tw_currentTick (lp_tw lp) = 0" using st assms(4) by simp_all
  then have ok: "loop_ok ?N ?K (Suc 0) ?lp" and t: "tw_currentTick (lp_tw ?lp) = ticks es"
    using loop_ok_run [of ?N ?K es "Suc 0" lp] by simp_all
  obtain tw ready where adv: "Advance (lp_tw ?lp) = (tw, ready)" by fastforce
  have ev: "EvFlushAll \<in> set (map timer_event ready)" "set (map timer_event ready) \<subseteq> {EvFlushAll, EvCoalesce}"
    using loop_ok_tick [OF ok adv] assms(6) by (auto simp: t lp)
  have "rt = foldl lobby_step (lp_rt ?lp) (map timer_event ready)" by (simp add: assms(8) adv foldl_map)
  moreover have "rt_ok (lp_rt ?lp) {#} 0" "lr_store (lp_rt ?lp)"
    using rt_ok_run [OF rt_ok_New] assms(1) by (simp_all add: loop_run_trace lp) (simp add: NewRuntime_def)
  ultimately have "all_clean rt" using timers_clean [of "lp_rt ?lp" "map timer_event ready"] ev by simp
  moreover have "rt = foldl lobby_step ?rt0 (loop_trace lp (es @ [TickerFired]))" by (simp only: assms(8) loop_run_trace lp)
  ultimately show ?thesis using clean_saved [OF assms(7), of rt] clean_unmarked assms(9-11) by blast
qed

text \<open>A node that saves at every tick; the trace of its first tick.\<close>

definition quick_config :: RuntimeConfig where
  "quick_config = \<lparr>rc_NodeID = ''lobby-1'', rc_Store = True, rc_MailStore = False, rc_OfflineStore = False,
     rc_QueueSize = 0, rc_Tick = 10 ^ 9, rc_FlushInterval = 10 ^ 9\<rparr>"

definition quick_tasks :: "lobby_event list" where
  "quick_tasks = [EvLogin 7 ''gate-1'', EvIo 0 DocMissing, EvGrant 7 ''m1'' [gold 5]]"

lemma task_run: "foldl loop_step lp (map Task evs) = lp\<lparr>lp_rt := foldl lobby_step (lp_rt lp) evs\<rparr>"
  by (induction evs arbitrary: lp) simp_all

lemma task_trace: "loop_trace lp (map Task evs @ es) = evs @ loop_trace (lp\<lparr>lp_rt := foldl lobby_step (lp_rt lp) evs\<rparr>) es"
  by (induction evs arbitrary: lp) simp_all

lemma orderly_append:
  "orderly w rt S (xs @ ys) \<longleftrightarrow> orderly w rt S xs \<and> orderly w (foldl lobby_step rt xs) (saved_run w rt S xs) ys"
  by (induction xs arbitrary: rt S) simp_all

lemma orderly_timers: "set evs \<subseteq> {EvFlushAll, EvCoalesce} \<Longrightarrow> orderly w rt S evs"
  by (induction evs arbitrary: rt S) (auto simp: in_order_def)

theorem flush_every_interval_witness:
  "\<exists>c. pl_components (lr_heap (lp_rt (foldl loop_step (Runtime_Start (NewRuntime quick_config)) (map Task quick_tasks @ [TickerFired]))) ! 0) ''currency'' = Some c
    \<and> \<not> Component_Dirty c
    \<and> (case newest 7 ''currency'' (lr_io (lp_rt (foldl loop_step (Runtime_Start (NewRuntime quick_config)) (map Task quick_tasks @ [TickerFired])))) of
         Some s \<Rightarrow> content s = content (Component_Snapshot c)
       | None \<Rightarrow> stored content 7 (saved_run (\<lambda>k. False) (NewRuntime quick_config) empty_store
           (loop_trace (Runtime_Start (NewRuntime quick_config)) (map Task quick_tasks @ [TickerFired])) 7) c)"
proof -
  let ?rt0 = "NewRuntime quick_config" and ?es = "map Task quick_tasks"
  define lp where "lp = Runtime_Start ?rt0"
  define rt1 where "rt1 = foldl lobby_step ?rt0 quick_tasks"
  define rt where "rt = lp_rt (foldl loop_step lp (?es @ [TickerFired]))"
  have lp: "lp_rt lp = ?rt0" by (simp add: lp_def Runtime_Start_def Let_def)
  have N: "durationToTicks (lr_flushInterval ?rt0) (lr_tick ?rt0) = 1" "durationToTicks coalesceFlushInterval (lr_tick ?rt0) = 1"
    by (simp_all add: NewRuntime_def quick_config_def durationToTicks_def wrap_s64_def coalesceFlushInterval_def Let_def)
  have "loop_ok 1 1 (Suc 0) lp" using loop_ok_Start(1) [of ?rt0 "Suc 0"] unfolding N lp_def by (simp add: NewRuntime_def quick_config_def)
  moreover obtain tw ready where adv: "Advance (lp_tw lp) = (tw, ready)" by fastforce
  ultimately have ev: "EvFlushAll \<in> set (map timer_event ready)" "set (map timer_event ready) \<subseteq> {EvFlushAll, EvCoalesce}"
    using loop_ok_tick [of 1 1 0 lp tw ready] by auto
  have rt: "rt = foldl lobby_step rt1 (map timer_event ready)" by (simp add: rt_def task_run rt1_def lp adv) (simp add: foldl_map)
  have ok1: "rt_ok rt1 {#} 0" "lr_store rt1" using rt_ok_run [OF rt_ok_New] by (simp_all add: rt1_def) (simp add: NewRuntime_def quick_config_def)
  have pl: "lr_players rt1 = [(7, 0)]" by (simp add: rt1_def quick_tasks_def quick_config_def demo_eval)
  have players: "(7, 0) \<in> set (lr_players rt)" using timers_clean [OF ok1 ev(2)] ev(1) by (simp add: rt pl)
  have ok: "rt_ok rt {#} 0" unfolding rt by (rule rt_ok_run [OF ok1(1)])
  have "0 < length (lr_heap rt)" using ok players by (force simp: rt_ok_def)
  from heap_ok [OF ok this] obtain c where c: "pl_components (lr_heap rt ! 0) ''currency'' = Some (CurrencyComponent c)"
    by (rule player_okE) (simp add: component_names)
  have "orderly (\<lambda>k. False) ?rt0 empty_store quick_tasks" by (simp add: quick_tasks_def quick_config_def demo_eval order_eval empty_store_def)
  then have ord: "orderly (\<lambda>k. False) ?rt0 empty_store (loop_trace lp (?es @ [TickerFired]))"
    using ev(2) by (simp add: task_trace orderly_append lp adv orderly_timers)
  have "durationToTicks (lr_flushInterval (lp_rt lp)) (lr_tick (lp_rt lp)) dvd Suc (ticks ?es)" unfolding lp N by simp
  from flush_every_interval [OF _ _ _ _ lp_def this ord rt_def refl players c] have "\<not> Component_Dirty (CurrencyComponent c)"
    and "case newest 7 ''currency'' (lr_io rt) of
         Some s \<Rightarrow> content s = content (Component_Snapshot (CurrencyComponent c))
       | None \<Rightarrow> stored content 7 (saved_run (\<lambda>k. False) ?rt0 empty_store (loop_trace lp (?es @ [TickerFired])) 7) (CurrencyComponent c)"
    by (simp_all add: quick_config_def quick_tasks_def)
  with c show ?thesis unfolding rt_def lp_def by blast
qed

section \<open>Shutdown\<close>

text \<open>
  The tasks of the queue that the drain runs: any task may be queued, and the drain takes tasks
  until no save is open or the deadline has come.
\<close>

fun drained :: "Runtime \<Rightarrow> lobby_event list \<Rightarrow> lobby_event list" where
  "drained rt [] = []"
| "drained rt (ev # evs) = (if 0 < lr_inflight rt then ev # drained (lobby_step rt ev) evs else [])"

lemma drain_run: "drain rt tasks = foldl lobby_step rt (drained rt tasks)"
  by (induction tasks arbitrary: rt) simp_all

text \<open>The special case in which only successful answers of open saves are queued.\<close>

fun saves_only :: "Runtime \<Rightarrow> lobby_event list \<Rightarrow> bool" where
  "saves_only rt [] = True"
| "saves_only rt (ev # evs) =
     ((case ev of
         EvIo k res \<Rightarrow>
           (case map_of (lr_io rt) k of
              Some (FlushFields uid pp fs names fa) \<Rightarrow> (case res of IoErr e \<Rightarrow> False | _ \<Rightarrow> True)
            | _ \<Rightarrow> False)
       | _ \<Rightarrow> False)
      \<and> saves_only (lobby_step rt ev) evs)"

lemma save_answered:
  assumes "saves_only rt (ev # evs)"
  shows "lr_inflight (lobby_step rt ev) = lr_inflight rt - 1" and "lr_heap (lobby_step rt ev) = lr_heap rt"
    and "set (lr_players (lobby_step rt ev)) \<subseteq> set (lr_players rt)" and "saves_only (lobby_step rt ev) evs"
proof -
  obtain k res uid pp fs names fa where ev: "ev = EvIo k res" and q: "map_of (lr_io rt) k = Some (FlushFields uid pp fs names fa)"
    and res: "\<forall>e. res \<noteq> IoErr e"
    using assms by (auto split: lobby_event.splits option.splits io.splits io_result.splits)
  have cb: "io_callback rt' (FlushFields uid pp fs names fa) res = flush_done rt' pp names fa True" for rt'
    using res by (cases res) auto
  have "lobby_step rt ev = flush_done (rt\<lparr>lr_io := mdel k (lr_io rt)\<rparr>) pp names fa True" by (simp add: ev q cb)
  then show "lr_inflight (lobby_step rt ev) = lr_inflight rt - 1" "lr_heap (lobby_step rt ev) = lr_heap rt"
    "set (lr_players (lobby_step rt ev)) \<subseteq> set (lr_players rt)"
    by (cases fa; auto simp: flush_done_def Let_def issue_def mdel_def)+
  show "saves_only (lobby_step rt ev) evs" using assms by simp
qed

lemma drain_saves:
  assumes "saves_only rt evs" and "lr_inflight rt \<le> int (length evs)" and "all_clean rt"
  shows "lr_inflight (drain rt evs) \<le> 0 \<and> all_clean (drain rt evs)"
  using assms
proof (induction evs arbitrary: rt)
  case (Cons ev evs)
  note a = save_answered [OF Cons.prems(1)]
  have "all_clean (lobby_step rt ev)" using Cons.prems(3) a(2,3) by (auto simp: all_clean_def)
  with Cons.IH [OF a(4)] Cons.prems(2,3) a(1) show ?case by simp
qed simp

lemma no_open_save:
  assumes "rt_ok rt {#} 0" and "lr_inflight rt = 0"
  shows "newest uid name (lr_io rt) = None"
proof (rule newest_none, intro ballI)
  fix kq assume "kq \<in> set (lr_io rt)"
  moreover have "filter (\<lambda>kq. is_flush (snd kq)) (lr_io rt) = []" using assms by (simp add: rt_ok_def open_flushes_def)
  ultimately have "\<not> is_flush (snd kq)" by (simp add: filter_empty_conv)
  then show "map_of (flush_of uid (snd kq)) name = None" by (simp add: flush_of_other)
qed

text \<open>C12: A shutdown loses nothing that is not marked. When the loop is stopped, it saves every change and
  then runs whatever tasks are queued until no save is open or the deadline comes. If it ends
  with no save open, every component of every player in the lobby that is not marked as changed
  is in the document of its user (remembered operation ids apart), and nothing is marked when
  the drain begins. If the queued tasks are successful answers of
  the open saves and as many as these, the drain ends with no save open and nothing is marked.
  The saves of a user complete in order and documents are loaded as in the property that no
  change is lost.\<close>

theorem shutdown_saves_all:
  assumes "rc_Store cfg" and "lp0 = Runtime_Start (NewRuntime cfg)" and "lp = foldl loop_step lp0 es"
    and "evs = loop_trace lp0 es @ EvFlushAll # drained (flushAllDirty (lp_rt lp)) tasks" and "orderly written (NewRuntime cfg) S0 evs"
    and "rt = Runtime_Stop lp tasks" and "S = saved_run written (NewRuntime cfg) S0 evs"
    and "(uid, pp) \<in> set (lr_players rt)" and "pl_components (lr_heap rt ! pp) name = Some c"
  shows "all_clean (flushAllDirty (lp_rt lp))
    \<and> (lr_inflight rt = 0 \<and> \<not> Component_Dirty c \<longrightarrow> stored content uid (S uid) c)
    \<and> (saves_only (flushAllDirty (lp_rt lp)) tasks \<and> lr_inflight (flushAllDirty (lp_rt lp)) \<le> int (length tasks)
         \<longrightarrow> lr_inflight rt = 0 \<and> \<not> Component_Dirty c)"
proof -
  have lp: "lp_rt lp = foldl lobby_step (NewRuntime cfg) (loop_trace lp0 es)"
    by (simp add: assms(3) loop_run_trace) (simp add: assms(2) Runtime_Start_def Let_def)
  have "rt_ok (lp_rt lp) {#} 0" "lr_store (lp_rt lp)" using rt_ok_run [OF rt_ok_New] assms(1) by (simp_all add: lp) (simp add: NewRuntime_def)
  then have cl: "all_clean (flushAllDirty (lp_rt lp))" using flush_all_clean by blast
  have rt: "rt = foldl lobby_step (NewRuntime cfg) evs" by (simp add: assms(4,6) Runtime_Stop_def drain_run lp)
  have ok: "rt_ok rt {#} 0" using rt_ok_run [OF rt_ok_New] by (simp add: rt)
  have "stored content uid (S uid) c" if "lr_inflight rt = 0" "\<not> Component_Dirty c"
    using clean_saved [OF assms(5) rt assms(8,9) that(2)] no_open_save [OF ok that(1)] by (simp add: assms(7))
  moreover have "lr_inflight rt = 0 \<and> \<not> Component_Dirty c"
    if "saves_only (flushAllDirty (lp_rt lp)) tasks" "lr_inflight (flushAllDirty (lp_rt lp)) \<le> int (length tasks)"
    using drain_saves [OF that cl] ok clean_unmarked [of rt] assms(8,9) by (fastforce simp: rt_ok_def assms(6) Runtime_Stop_def)
  ultimately show ?thesis using cl by blast
qed

text \<open>Five gold are given, the loop is stopped, a login of another user is queued before the answer of the save.\<close>

theorem shutdown_saves_all_witness:
  "let lp0 = Runtime_Start (NewRuntime quick_config); lp = foldl loop_step lp0 (map Task quick_tasks); tasks = [EvLogin 8 ''gate-1'', EvIo 1 IoDone];
       S = saved_run (\<lambda>k. False) (NewRuntime quick_config) empty_store (loop_trace lp0 (map Task quick_tasks) @ EvFlushAll # tasks);
       rt = Runtime_Stop lp tasks
   in lr_inflight rt = 0
     \<and> (\<exists>c. pl_components (lr_heap rt ! 0) ''currency'' = Some (CurrencyComponent c) \<and> Balance c ''gold'' = 5 \<and> stored content 7 (S 7) (CurrencyComponent c))
     \<and> map_option content (S 7 ''currency'') = Some (CurrencySnapshot \<lparr>cs_Balances = [(''gold'', 5)], cs_Ops = []\<rparr>)"
proof -
  let ?init = "NewRuntime quick_config" and ?start = "Runtime_Start (NewRuntime quick_config)" and ?es = "map Task quick_tasks"
  let ?lp = "foldl loop_step ?start ?es" and ?tasks = "[EvLogin 8 ''gate-1'', EvIo 1 IoDone]"
  let ?evs = "loop_trace ?start ?es @ EvFlushAll # ?tasks" and ?final = "Runtime_Stop ?lp ?tasks"
  let ?S = "saved_run (\<lambda>k. False) ?init empty_store ?evs"
  have lp0: "lp_rt ?start = ?init" by (simp add: Runtime_Start_def Let_def)
  have lp: "lp_rt ?lp = foldl lobby_step ?init quick_tasks" by (simp add: task_run lp0)
  note ev = quick_tasks_def quick_config_def demo_eval empty_store_def
  have tr: "loop_trace ?start ?es = quick_tasks" using task_trace [of ?start quick_tasks "[]"] by simp
  have a: "?evs = loop_trace ?start ?es @ EvFlushAll # drained (flushAllDirty (lp_rt ?lp)) ?tasks"
    unfolding lp by (simp add: ev)
  have b: "orderly (\<lambda>k. False) ?init empty_store ?evs" unfolding tr by (simp add: ev order_eval)
  have final: "?final = foldl lobby_step (flushAllDirty (foldl lobby_step ?init quick_tasks)) ?tasks"
    unfolding Runtime_Stop_def lp drain_run by (simp add: ev)
  obtain c where c: "(7, 0) \<in> set (lr_players ?final)" "pl_components (lr_heap ?final ! 0) ''currency'' = Some (CurrencyComponent c)"
    "\<not> cu_dirty c" "Balance c ''gold'' = 5" and fl: "lr_inflight ?final = 0"
    unfolding final by (simp add: ev Balance_def)
  have d: "\<not> Component_Dirty (CurrencyComponent c)" using c(3) by simp
  have "stored content 7 (?S 7) (CurrencyComponent c)"
    using shutdown_saves_all [OF _ refl refl a b refl refl c(1,2)] fl d by (simp add: quick_config_def)
  moreover have "map_option content (?S 7 ''currency'') = Some (CurrencySnapshot \<lparr>cs_Balances = [(''gold'', 5)], cs_Ops = []\<rparr>)"
    unfolding tr by (simp add: ev)
  ultimately show ?thesis unfolding Let_def using c(2,4) fl by blast
qed

text \<open>
  A friend request is claimed in the mailbox while the new friend is only in memory and waits for
  the next save; if the process ends in between, the request is gone and the friend as well.
\<close>

lemma friend_claimed_before_saved:
  "let rt = foldl lobby_step (NewRuntime (quick_config\<lparr>rc_MailStore := True\<rparr>)) [EvLogin 7 ''g'', EvIo 0 DocMissing,
       EvIo 1 (Mails [\<lparr>md_ID = 3, md_To = 7, md_From = 8, md_Type = ''friend_accept'', md_Attachments = [], md_Body = [], md_Ts = 0,
                       md_Read = False, md_Claimed = False\<rparr>])]
   in map snd (lr_io rt) = [ClaimMail 3 7] \<and> map Component_Name (dirty_components (lr_heap rt ! 0)) = [FriendComponentName]"
  by (simp add: quick_config_def demo_eval friends_found_def accept_one_def Player_Friend_def Friend_Add_def FlushSoon_def)

end
