(* ===== verification/Online_Directory.thy ===== *)
theory Online_Directory
  imports Time_Wheel
begin

text \<open>
  The online directory (\<^verbatim>\<open>internal/server/online/internal/directory.go\<close>): which gateway, lobby and
  room a user is on, with entries that expire through the time wheel. A timer callback runs
  after the wheel has released its lock, so it can come late; the directory recognises late
  callbacks by a generation number.
\<close>

section \<open>The directory\<close>

record Entry =
  en_UID :: int
  en_GatewayNodeID :: string
  en_LobbyNodeID :: string
  en_LoginTime :: int
  en_LastActive :: int
  en_RoomNodeID :: string
  en_GameID :: string

text \<open>
  The closure of a callback is kept under its generation, which is also its number in the wheel.
  \<open>dr_late\<close> are the callbacks that the wheel has made ready and that have not run yet.
\<close>

record Directory =
  dr_entries :: "int \<rightharpoonup> Entry"
  dr_timers :: "int \<rightharpoonup> nat"
  dr_genOf :: "int \<rightharpoonup> nat"
  dr_nextGen :: nat
  dr_tw :: TimeWheel
  dr_ttl :: int
  dr_closures :: "nat \<rightharpoonup> int"
  dr_late :: "(int \<times> nat) list"

definition NewDirectory :: "TimeWheel \<Rightarrow> int \<Rightarrow> Directory" where
  "NewDirectory tw ttl = \<lparr>dr_entries = Map.empty, dr_timers = Map.empty, dr_genOf = Map.empty, dr_nextGen = 0, dr_tw = tw,
     dr_ttl = ttl, dr_closures = Map.empty, dr_late = []\<rparr>"

definition stop_timer :: "Directory \<Rightarrow> int \<Rightarrow> Directory" where
  "stop_timer d uid = (case dr_timers d uid of None \<Rightarrow> d | Some t \<Rightarrow> d\<lparr>dr_tw := Stop (dr_tw d) t\<rparr>)"

definition scheduleExpire :: "Directory \<Rightarrow> int \<Rightarrow> Directory \<times> nat" where
  "scheduleExpire d uid =
     (let gen = u64_add (dr_nextGen d) 1 in
      case AfterFunc (dr_tw d) (dr_ttl d) gen of
        (tw, t) \<Rightarrow> (d\<lparr>dr_nextGen := gen, dr_genOf := (dr_genOf d)(uid \<mapsto> gen), dr_tw := tw,
                      dr_closures := (dr_closures d)(gen \<mapsto> uid)\<rparr>, t))"

definition start_timer :: "Directory \<Rightarrow> int \<Rightarrow> Directory" where
  "start_timer d uid = (case scheduleExpire d uid of (d1, t) \<Rightarrow> d1\<lparr>dr_timers := (dr_timers d1)(uid \<mapsto> t)\<rparr>)"

definition Directory_Register :: "Directory \<Rightarrow> int \<Rightarrow> string \<Rightarrow> string \<Rightarrow> int \<Rightarrow> Directory \<times> Entry option \<times> bool" where
  "Directory_Register d uid gw lobby nowNano =
     (let prev = dr_entries d uid;
          room = (case prev of None \<Rightarrow> [] | Some e \<Rightarrow> en_RoomNodeID e);
          game = (case prev of None \<Rightarrow> [] | Some e \<Rightarrow> en_GameID e);
          old = (case prev of None \<Rightarrow> None | Some e \<Rightarrow> if en_GatewayNodeID e \<noteq> gw then Some e else None);
          d1 = (if prev = None then d else stop_timer d uid);
          d2 = d1\<lparr>dr_entries := (dr_entries d1)(uid \<mapsto> \<lparr>en_UID = uid, en_GatewayNodeID = gw, en_LobbyNodeID = lobby,
                 en_LoginTime = nowNano, en_LastActive = nowNano, en_RoomNodeID = room, en_GameID = game\<rparr>)\<rparr>
      in (start_timer d2 uid, old, old \<noteq> None))"

definition Query :: "Directory \<Rightarrow> int \<Rightarrow> Entry option" where
  "Query d uid = dr_entries d uid"

definition forget :: "Directory \<Rightarrow> int \<Rightarrow> Directory" where
  "forget d uid = d\<lparr>dr_entries := (dr_entries d)(uid := None), dr_timers := (dr_timers d)(uid := None), dr_genOf := (dr_genOf d)(uid := None)\<rparr>"

definition Unregister :: "Directory \<Rightarrow> int \<Rightarrow> Directory \<times> bool" where
  "Unregister d uid = (if dr_entries d uid = None then (d, False) else (forget (stop_timer d uid) uid, True))"

definition Directory_Touch :: "Directory \<Rightarrow> int \<Rightarrow> int \<Rightarrow> Directory \<times> bool" where
  "Directory_Touch d uid nowNano =
     (case dr_entries d uid of
        None \<Rightarrow> (d, False)
      | Some e \<Rightarrow> (start_timer (stop_timer (d\<lparr>dr_entries := (dr_entries d)(uid \<mapsto> e\<lparr>en_LastActive := nowNano\<rparr>)\<rparr>) uid) uid, True))"

text \<open>A missing generation reads as zero.\<close>

definition expire :: "Directory \<Rightarrow> int \<Rightarrow> nat \<Rightarrow> Directory" where
  "expire d uid gen = (if (case dr_genOf d uid of None \<Rightarrow> 0 | Some g \<Rightarrow> g) \<noteq> gen then d else forget d uid)"

definition Directory_BindRoom :: "Directory \<Rightarrow> int \<Rightarrow> string \<Rightarrow> string \<Rightarrow> Directory \<times> bool" where
  "Directory_BindRoom d uid roomNodeID gameID =
     (case dr_entries d uid of
        None \<Rightarrow> (d, False)
      | Some e \<Rightarrow> (d\<lparr>dr_entries := (dr_entries d)(uid \<mapsto> e\<lparr>en_RoomNodeID := roomNodeID, en_GameID := gameID\<rparr>)\<rparr>, True))"

definition UnbindRoom :: "Directory \<Rightarrow> int \<Rightarrow> Directory \<times> bool" where
  "UnbindRoom d uid = Directory_BindRoom d uid [] []"

section \<open>Histories\<close>

text \<open>
  A tick makes the closures of the due timers ready; a ready callback runs at any later moment.
\<close>

datatype dir_op =
    DirRegister int string string int
  | DirUnregister int
  | DirTouch int int
  | DirBindRoom int string string
  | DirTick
  | DirCallback int nat

fun dir_step :: "Directory \<Rightarrow> dir_op \<Rightarrow> Directory" where
  "dir_step d (DirRegister uid gw lobby t) = fst (Directory_Register d uid gw lobby t)"
| "dir_step d (DirUnregister uid) = fst (Unregister d uid)"
| "dir_step d (DirTouch uid t) = fst (Directory_Touch d uid t)"
| "dir_step d (DirBindRoom uid r g) = fst (Directory_BindRoom d uid r g)"
| "dir_step d DirTick =
     (case Advance (dr_tw d) of
        (tw, ready) \<Rightarrow> d\<lparr>dr_tw := tw, dr_late := dr_late d @ map (\<lambda>t. (the (dr_closures d (tk_fn t)), tk_fn t)) ready\<rparr>)"
| "dir_step d (DirCallback uid gen) =
     (if (uid, gen) \<in> set (dr_late d) then expire (d\<lparr>dr_late := remove1 (uid, gen) (dr_late d)\<rparr>) uid gen else d)"

fun concerns :: "int \<Rightarrow> dir_op \<Rightarrow> bool" where
  "concerns uid (DirRegister u gw lobby t) = (u = uid)"
| "concerns uid (DirUnregister u) = (u = uid)"
| "concerns uid (DirTouch u t) = (u = uid)"
| "concerns uid p = False"

definition ticks_in :: "dir_op list \<Rightarrow> nat" where
  "ticks_in ps = length (filter (\<lambda>p. p = DirTick) ps)"

section \<open>Timers and generations\<close>

text \<open>
  Every pending timer has a generation of its own that is not among the late callbacks, and the
  timer recorded for a user belongs to that user. \<open>m\<close> is the number of wheel operations for
  which the counters have room.
\<close>

definition dir_ok :: "nat \<Rightarrow> Directory \<Rightarrow> bool" where
  "dir_ok m d \<longleftrightarrow> wheel_room m (dr_tw d) \<and> dr_nextGen d + m < 2 ^ 62 \<and> dr_ttl d < 2 ^ 62 \<and>
     (\<forall>j e v f. view (dr_tw d) j = Some (e, v, f) \<longrightarrow> v = 0 \<and> f \<le> dr_nextGen d) \<and>
     (\<forall>j e v f j' e' v'. view (dr_tw d) j = Some (e, v, f) \<longrightarrow> view (dr_tw d) j' = Some (e', v', f) \<longrightarrow> j = j') \<and>
     (\<forall>u j. dr_timers d u = Some j \<longrightarrow> j \<le> tw_nextID (dr_tw d) \<and> (\<forall>e v f. view (dr_tw d) j = Some (e, v, f) \<longrightarrow> dr_closures d f = Some u)) \<and>
     (\<forall>u f. (u, f) \<in> set (dr_late d) \<longrightarrow> f \<le> dr_nextGen d \<and> (\<forall>j e v. view (dr_tw d) j \<noteq> Some (e, v, f)))"

lemma dir_okD:
  assumes "dir_ok m d"
  shows "wheel_room m (dr_tw d)" and "dr_nextGen d + m < 2 ^ 62" and "dr_ttl d < 2 ^ 62"
    and "view (dr_tw d) j = Some (e, v, f) \<Longrightarrow> v = 0 \<and> f \<le> dr_nextGen d"
    and "view (dr_tw d) j = Some (e, v, f) \<Longrightarrow> view (dr_tw d) j' = Some (e', v', f) \<Longrightarrow> j = j'"
    and "dr_timers d u = Some j \<Longrightarrow> j \<le> tw_nextID (dr_tw d)"
    and "dr_timers d u = Some j \<Longrightarrow> view (dr_tw d) j = Some (e, v, f) \<Longrightarrow> dr_closures d f = Some u"
    and "(u, f) \<in> set (dr_late d) \<Longrightarrow> f \<le> dr_nextGen d"
    and "(u, f) \<in> set (dr_late d) \<Longrightarrow> view (dr_tw d) j \<noteq> Some (e, v, f)"
  using assms unfolding dir_ok_def by blast+

lemma dir_okI:
  assumes "wheel_room m (dr_tw d)" and "dr_nextGen d + m < 2 ^ 62" and "dr_ttl d < 2 ^ 62"
    and "\<And>j e v f. view (dr_tw d) j = Some (e, v, f) \<Longrightarrow> v = 0 \<and> f \<le> dr_nextGen d"
    and "\<And>j e v f j' e' v'. view (dr_tw d) j = Some (e, v, f) \<Longrightarrow> view (dr_tw d) j' = Some (e', v', f) \<Longrightarrow> j = j'"
    and "\<And>u j. dr_timers d u = Some j \<Longrightarrow> j \<le> tw_nextID (dr_tw d)"
    and "\<And>u j e v f. dr_timers d u = Some j \<Longrightarrow> view (dr_tw d) j = Some (e, v, f) \<Longrightarrow> dr_closures d f = Some u"
    and "\<And>u f. (u, f) \<in> set (dr_late d) \<Longrightarrow> f \<le> dr_nextGen d"
    and "\<And>u f j e v. (u, f) \<in> set (dr_late d) \<Longrightarrow> view (dr_tw d) j \<noteq> Some (e, v, f)"
  shows "dir_ok m d"
  unfolding dir_ok_def by (intro conjI allI impI; (elim conjE)?) (use assms in metis)+

text \<open>Dropping timers, timer records or late callbacks keeps the invariant.\<close>

lemma dir_ok_less:
  assumes ok: "dir_ok m d" and n: "n \<le> m"
    and room: "wheel_room n (dr_tw d')" and i: "tw_nextID (dr_tw d') = tw_nextID (dr_tw d)"
    and v: "\<And>j x. view (dr_tw d') j = Some x \<Longrightarrow> view (dr_tw d) j = Some x"
    and t: "\<And>u j. dr_timers d' u = Some j \<Longrightarrow> dr_timers d u = Some j" and l: "set (dr_late d') \<subseteq> set (dr_late d)"
    and same: "dr_nextGen d' = dr_nextGen d" "dr_ttl d' = dr_ttl d" "dr_closures d' = dr_closures d"
  shows "dir_ok n d'"
proof (rule dir_okI)
  note D = dir_okD [OF ok]
  show "wheel_room n (dr_tw d')" by (rule room)
  show "dr_nextGen d' + n < 2 ^ 62" "dr_ttl d' < 2 ^ 62" using D(2,3) n same by simp_all
  show "v = 0 \<and> f \<le> dr_nextGen d'" if "view (dr_tw d') j = Some (e, v, f)" for j e v f
    using D(4) [OF v [OF that]] same by simp
  show "j = j'" if "view (dr_tw d') j = Some (e, w, f)" "view (dr_tw d') j' = Some (e', w', f)" for j e w f j' e' w'
    by (rule D(5) [OF v [OF that(1)] v [OF that(2)]])
  show "j \<le> tw_nextID (dr_tw d')" if "dr_timers d' u = Some j" for u j using D(6) [OF t [OF that]] i by simp
  show "dr_closures d' f = Some u" if "dr_timers d' u = Some j" "view (dr_tw d') j = Some (e, w, f)" for u j e w f
    using D(7) [OF t [OF that(1)] v [OF that(2)]] same by simp
  show "f \<le> dr_nextGen d'" if "(u, f) \<in> set (dr_late d')" for u f using D(8) l that same by auto
  show "view (dr_tw d') j \<noteq> Some (e, w, f)" if "(u, f) \<in> set (dr_late d')" for u f j e w
    using D(9) l that v by blast
qed

lemma dir_ok_Suc: "dir_ok (Suc m) d \<Longrightarrow> dir_ok m d"
proof (rule dir_ok_less, assumption)
  assume "dir_ok (Suc m) d"
  from wheel_room_mono [OF dir_okD(1) [OF this]] show "wheel_room m (dr_tw d)" by simp
qed simp_all

lemma dir_ok_entries [simp]: "dir_ok m (d\<lparr>dr_entries := es\<rparr>) = dir_ok m d"
  by (simp add: dir_ok_def)

lemma Stop_nextID: "wheel_room m tw \<Longrightarrow> tw_nextID (Stop tw i) = tw_nextID tw"
  by (rule Stop_effect) (simp add: wheel_room_def)

lemma stop_timer_frame [simp]:
  "dr_genOf (stop_timer d u) = dr_genOf d" "dr_timers (stop_timer d u) = dr_timers d" "dr_closures (stop_timer d u) = dr_closures d"
  "dr_entries (stop_timer d u) = dr_entries d" "dr_late (stop_timer d u) = dr_late d" "dr_ttl (stop_timer d u) = dr_ttl d"
  "dr_nextGen (stop_timer d u) = dr_nextGen d"
  by (simp_all add: stop_timer_def split: option.splits)

lemma stop_timer_effect:
  assumes ok: "dir_ok (Suc m) d"
  shows "dir_ok m (stop_timer d u)"
    and "view (dr_tw (stop_timer d u)) = (case dr_timers d u of None \<Rightarrow> view (dr_tw d) | Some j \<Rightarrow> (view (dr_tw d))(j := None))"
    and "tw_currentTick (dr_tw (stop_timer d u)) = tw_currentTick (dr_tw d)" and "tw_tick (dr_tw (stop_timer d u)) = tw_tick (dr_tw d)"
proof -
  note r = dir_okD(1) [OF ok]
  have inv: "wheel_inv (dr_tw d) 0 {} False" using r by (simp add: wheel_room_def)
  show v: "view (dr_tw (stop_timer d u)) = (case dr_timers d u of None \<Rightarrow> view (dr_tw d) | Some j \<Rightarrow> (view (dr_tw d))(j := None))"
    using wheel.stop_law [OF r] by (simp add: stop_timer_def split: option.splits)
  show "tw_currentTick (dr_tw (stop_timer d u)) = tw_currentTick (dr_tw d)" "tw_tick (dr_tw (stop_timer d u)) = tw_tick (dr_tw d)"
    using Stop_effect(3,5) [OF inv] by (simp_all add: stop_timer_def split: option.splits)
  show "dir_ok m (stop_timer d u)"
  proof (rule dir_ok_less [OF ok])
    show "wheel_room m (dr_tw (stop_timer d u))"
      using wheel.stop_law [OF r] wheel_room_mono [OF r] by (simp add: stop_timer_def split: option.splits)
    show "tw_nextID (dr_tw (stop_timer d u)) = tw_nextID (dr_tw d)" using Stop_nextID [OF r] by (simp add: stop_timer_def split: option.splits)
    show "view (dr_tw (stop_timer d u)) j = Some x \<Longrightarrow> view (dr_tw d) j = Some x" for j x
      by (simp add: v split: option.splits if_splits)
  qed simp_all
qed


lemma start_timer_effect:
  assumes ok: "dir_ok (Suc m) d"
  shows "dir_ok m (start_timer d u)"
    and "dr_timers (start_timer d u) = (dr_timers d)(u \<mapsto> Suc (tw_nextID (dr_tw d)))"
    and "dr_genOf (start_timer d u) = (dr_genOf d)(u \<mapsto> Suc (dr_nextGen d))" and "dr_nextGen (start_timer d u) = Suc (dr_nextGen d)"
    and "dr_closures (start_timer d u) = (dr_closures d)(Suc (dr_nextGen d) \<mapsto> u)"
    and "view (dr_tw (start_timer d u)) = (view (dr_tw d))(Suc (tw_nextID (dr_tw d)) \<mapsto>
      (tw_currentTick (dr_tw d) + max 1 (durationToTicks (dr_ttl d) (tw_tick (dr_tw d))), 0, Suc (dr_nextGen d)))"
    and "view (dr_tw d) (Suc (tw_nextID (dr_tw d))) = None"
    and "tw_currentTick (dr_tw (start_timer d u)) = tw_currentTick (dr_tw d)" and "tw_tick (dr_tw (start_timer d u)) = tw_tick (dr_tw d)"
    and "dr_entries (start_timer d u) = dr_entries d" and "dr_late (start_timer d u) = dr_late d" and "dr_ttl (start_timer d u) = dr_ttl d"
proof -
  note D = dir_okD [OF ok]
  let ?gen = "Suc (dr_nextGen d)" and ?i = "Suc (tw_nextID (dr_tw d))"
  have gen: "u64_add (dr_nextGen d) 1 = ?gen" using D(2) by (simp add: u64_add_def)
  obtain tw i where a: "AfterFunc (dr_tw d) (dr_ttl d) ?gen = (tw, i)" by fastforce
  note w = add_room [OF D(1) D(3) _ a [unfolded AfterFunc_def], simplified]
    and i = add_id [OF D(1) a [unfolded AfterFunc_def]]
  have st: "start_timer d u = d\<lparr>dr_nextGen := ?gen, dr_genOf := (dr_genOf d)(u \<mapsto> ?gen), dr_tw := tw,
      dr_closures := (dr_closures d)(?gen \<mapsto> u), dr_timers := (dr_timers d)(u \<mapsto> ?i)\<rparr>"
    using i by (simp add: start_timer_def scheduleExpire_def Let_def gen [simplified] a)
  show "dr_timers (start_timer d u) = (dr_timers d)(u \<mapsto> ?i)" "dr_genOf (start_timer d u) = (dr_genOf d)(u \<mapsto> ?gen)"
    "dr_nextGen (start_timer d u) = ?gen" "dr_closures (start_timer d u) = (dr_closures d)(?gen \<mapsto> u)"
    "dr_entries (start_timer d u) = dr_entries d" "dr_late (start_timer d u) = dr_late d" "dr_ttl (start_timer d u) = dr_ttl d"
    by (simp_all add: st)
  show v: "view (dr_tw (start_timer d u)) = (view (dr_tw d))(?i \<mapsto>
      (tw_currentTick (dr_tw d) + max 1 (durationToTicks (dr_ttl d) (tw_tick (dr_tw d))), 0, ?gen))"
    and fresh: "view (dr_tw d) ?i = None" using w i by (simp_all add: st)
  show "tw_currentTick (dr_tw (start_timer d u)) = tw_currentTick (dr_tw d)" "tw_tick (dr_tw (start_timer d u)) = tw_tick (dr_tw d)"
    using w by (simp_all add: st)
  have old: "f \<noteq> ?gen" if "view (dr_tw d) j = Some (e, x, f)" for j e x f using D(4) [OF that] by simp
  have late: "f \<noteq> ?gen" if "(y, f) \<in> set (dr_late d)" for y f using D(8) [OF that] by simp
  have timers: "j \<noteq> ?i" if "dr_timers d y = Some j" for y j using D(6) [OF that] by simp
  show "dir_ok m (start_timer d u)"
  proof (rule dir_okI)
    show "wheel_room m (dr_tw (start_timer d u))" using w by (simp add: st)
    show "dr_nextGen (start_timer d u) + m < 2 ^ 62" "dr_ttl (start_timer d u) < 2 ^ 62" using D(2,3) by (simp_all add: st)
    show "x = 0 \<and> f \<le> dr_nextGen (start_timer d u)" if "view (dr_tw (start_timer d u)) j = Some (e, x, f)" for j e x f
      using that D(4) [of j e x f] unfolding v by (auto simp: st split: if_splits)
    show "j = j'" if "view (dr_tw (start_timer d u)) j = Some (e, x, f)" "view (dr_tw (start_timer d u)) j' = Some (e', x', f)" for j e x f j' e' x'
      using that D(5) [of j e x f j' e' x'] old [of j e x f] old [of j' e' x' f] unfolding v by (auto split: if_splits)
    show "j \<le> tw_nextID (dr_tw (start_timer d u))" if "dr_timers (start_timer d u) y = Some j" for y j
      using that D(6) [of y j] i by (auto simp: st split: if_splits)
    show "dr_closures (start_timer d u) f = Some y"
      if "dr_timers (start_timer d u) y = Some j" "view (dr_tw (start_timer d u)) j = Some (e, x, f)" for y j e x f
      using that D(7) [of y j e x f] old [of j e x f] timers [of y j] fresh unfolding v by (auto simp: st split: if_splits)
    show "f \<le> dr_nextGen (start_timer d u)" if "(y, f) \<in> set (dr_late (start_timer d u))" for y f
      using that D(8) [of y f] by (simp add: st)
    show "view (dr_tw (start_timer d u)) j \<noteq> Some (e, x, f)" if "(y, f) \<in> set (dr_late (start_timer d u))" for y f j e x
      using that D(9) [of y f j e x] late [of y f] unfolding v by (auto simp: st)
  qed
qed

lemma tick_effect:
  assumes ok: "dir_ok (Suc m) d" and adv: "Advance (dr_tw d) = (tw, ready)"
  shows "dir_ok m (dir_step d DirTick)" and "tw_currentTick tw = Suc (tw_currentTick (dr_tw d))"
    and "view tw = (\<lambda>i. fire_timer (Suc (tw_currentTick (dr_tw d))) (view (dr_tw d) i))"
    and "set (map (\<lambda>t. (tk_id t, tk_fn t)) ready) = {(i, f). \<exists>e v. view (dr_tw d) i = Some (e, v, f) \<and> e \<le> Suc (tw_currentTick (dr_tw d))}"
proof -
  note D = dir_okD [OF ok] and law = wheel.advance_law [OF dir_okD(1) [OF ok] adv]
  show "tw_currentTick tw = Suc (tw_currentTick (dr_tw d))"
    and v: "view tw = (\<lambda>i. fire_timer (Suc (tw_currentTick (dr_tw d))) (view (dr_tw d) i))"
    and fired: "set (map (\<lambda>t. (tk_id t, tk_fn t)) ready) = {(i, f). \<exists>e v. view (dr_tw d) i = Some (e, v, f) \<and> e \<le> Suc (tw_currentTick (dr_tw d))}"
    using law by auto
  have kept: "view (dr_tw d) j = Some (e, x, f) \<and> \<not> e \<le> Suc (tw_currentTick (dr_tw d))" if "view tw j = Some (e, x, f)" for j e x f
  proof (cases "view (dr_tw d) j")
    case (Some y)
    obtain e0 x0 f0 where y: "y = (e0, x0, f0)" by (cases y)
    with D(4) Some have "x0 = 0" by blast
    with that Some y show ?thesis by (simp add: v fire_timer_def split: if_splits)
  qed (use that in \<open>simp add: v fire_timer_def\<close>)
  have st: "dir_step d DirTick = d\<lparr>dr_tw := tw, dr_late := dr_late d @ map (\<lambda>t. (the (dr_closures d (tk_fn t)), tk_fn t)) ready\<rparr>"
    by (simp add: adv)
  have "tw_nextID tw = tw_nextID (dr_tw d)" using wheel_step_simulates
      [OF D(1), of "\<lparr>tm_now = tw_currentTick (dr_tw d), tm_pending = view (dr_tw d), tm_next = tw_nextID (dr_tw d)\<rparr>" PassTick tw]
    by (simp add: simulates_def adv)
  note i = this
  have newly: "\<exists>j e x. view (dr_tw d) j = Some (e, x, f) \<and> e \<le> Suc (tw_currentTick (dr_tw d))" if "f \<in> tk_fn ` set ready" for f
  proof -
    from that obtain t where "t \<in> set ready" "f = tk_fn t" by blast
    then have "(tk_id t, f) \<in> set (map (\<lambda>t. (tk_id t, tk_fn t)) ready)" by simp
    then show ?thesis unfolding fired by blast
  qed
  show "dir_ok m (dir_step d DirTick)" unfolding st
  proof (rule dir_okI; simp)
    show "wheel_room m tw" using law by simp
    show "dr_nextGen d + m < 4611686018427387904" "dr_ttl d < 4611686018427387904" using D(2,3) by simp_all
    show "x = 0 \<and> f \<le> dr_nextGen d" if "view tw j = Some (e, x, f)" for j e x f using D(4) kept [OF that] by blast
    show "j = j'" if "view tw j = Some (e, x, f)" "view tw j' = Some (e', x', f)" for j e x f j' e' x'
      using D(5) kept [OF that(1)] kept [OF that(2)] by blast
    show "j \<le> tw_nextID tw" if "dr_timers d u = Some j" for u j using D(6) [OF that] i by simp
    show "dr_closures d f = Some u" if "dr_timers d u = Some j" "view tw j = Some (e, x, f)" for u j e x f
      using D(7) [OF that(1)] kept [OF that(2)] by blast
    show "f \<le> dr_nextGen d" if "(u, f) \<in> set (dr_late d) \<or> (u, f) \<in> (\<lambda>t. (the (dr_closures d (tk_fn t)), tk_fn t)) ` set ready" for u f
    proof -
      consider "(u, f) \<in> set (dr_late d)" | "f \<in> tk_fn ` set ready" using \<open>_ \<or> _\<close> by auto
      then show ?thesis using D(8) D(4) newly by cases blast+
    qed
    show "view tw j \<noteq> Some (e, x, f)"
      if "(u, f) \<in> set (dr_late d) \<or> (u, f) \<in> (\<lambda>t. (the (dr_closures d (tk_fn t)), tk_fn t)) ` set ready" for u f j e x
    proof
      assume "view tw j = Some (e, x, f)"
      note k = kept [OF this]
      then have "f \<in> tk_fn ` set ready" using that D(9) by (auto simp: image_iff)
      from newly [OF this] obtain j0 e0 x0 where n: "view (dr_tw d) j0 = Some (e0, x0, f)" "e0 \<le> Suc (tw_currentTick (dr_tw d))" by blast
      with D(5) [OF n(1)] k have "j0 = j" by blast
      with n k show False by simp
    qed
  qed
qed


lemma expire_frame [simp]:
  "dr_tw (expire d u g) = dr_tw d" "dr_late (expire d u g) = dr_late d" "dr_closures (expire d u g) = dr_closures d"
  "dr_nextGen (expire d u g) = dr_nextGen d" "dr_ttl (expire d u g) = dr_ttl d"
  "w \<noteq> u \<Longrightarrow> dr_entries (expire d u g) w = dr_entries d w" "w \<noteq> u \<Longrightarrow> dr_timers (expire d u g) w = dr_timers d w"
  "w \<noteq> u \<Longrightarrow> dr_genOf (expire d u g) w = dr_genOf d w"
  by (simp_all add: expire_def forget_def)

lemma expire_timers: "dr_timers (expire d u g) w = Some j \<Longrightarrow> dr_timers d w = Some j"
  by (simp add: expire_def forget_def split: if_splits)

lemma BindRoom_frame [simp]:
  "dr_tw (fst (Directory_BindRoom d u r g)) = dr_tw d" "dr_late (fst (Directory_BindRoom d u r g)) = dr_late d"
  "dr_closures (fst (Directory_BindRoom d u r g)) = dr_closures d" "dr_nextGen (fst (Directory_BindRoom d u r g)) = dr_nextGen d"
  "dr_ttl (fst (Directory_BindRoom d u r g)) = dr_ttl d" "dr_timers (fst (Directory_BindRoom d u r g)) = dr_timers d"
  "dr_genOf (fst (Directory_BindRoom d u r g)) = dr_genOf d"
  "(dr_entries (fst (Directory_BindRoom d u r g)) w = None) = (dr_entries d w = None)"
  by (simp_all add: Directory_BindRoom_def split: option.splits)

lemma Unregister_eq:
  "fst (Unregister d u) = (if dr_entries d u = None then d else forget (stop_timer d u) u)"
  by (simp add: Unregister_def)

text \<open>\<^verbatim>\<open>Register\<close> and a successful \<^verbatim>\<open>Touch\<close> write the entry, perhaps stop the old timer, and start a new one.\<close>

definition refresh :: "Directory \<Rightarrow> int \<Rightarrow> bool \<Rightarrow> Entry \<Rightarrow> Directory" where
  "refresh d u stop e = start_timer ((if stop then stop_timer d u else d)\<lparr>dr_entries := (dr_entries d)(u \<mapsto> e)\<rparr>) u"

lemma stop_timer_entries: "stop_timer (d\<lparr>dr_entries := es\<rparr>) u = (stop_timer d u)\<lparr>dr_entries := es\<rparr>"
  by (simp add: stop_timer_def split: option.splits)

lemma Register_refresh: "\<exists>e. fst (Directory_Register d u gw lobby t) = refresh d u (dr_entries d u \<noteq> None) e"
  unfolding Directory_Register_def refresh_def Let_def fst_conv
  by (cases "dr_entries d u") (simp; rule exI, rule refl)+

lemma Touch_refresh: "dr_entries d u \<noteq> None \<Longrightarrow> \<exists>e. fst (Directory_Touch d u t) = refresh d u True e"
  by (auto simp: Directory_Touch_def refresh_def stop_timer_entries)

definition expiry :: "Directory \<Rightarrow> nat" where
  "expiry d = tw_currentTick (dr_tw d) + max 1 (durationToTicks (dr_ttl d) (tw_tick (dr_tw d)))"

lemma refresh_effect:
  assumes ok: "dir_ok (Suc (Suc m)) d"
  shows "dir_ok m (refresh d u b e)"
    and "dr_genOf (refresh d u b e) = (dr_genOf d)(u \<mapsto> Suc (dr_nextGen d))" and "dr_nextGen (refresh d u b e) = Suc (dr_nextGen d)"
    and "dr_closures (refresh d u b e) = (dr_closures d)(Suc (dr_nextGen d) \<mapsto> u)"
    and "\<exists>i. dr_timers (refresh d u b e) u = Some i \<and> view (dr_tw (refresh d u b e)) i = Some (expiry d, 0, Suc (dr_nextGen d))"
    and "\<And>w j x. w \<noteq> u \<Longrightarrow> dr_timers d w = Some j \<Longrightarrow> view (dr_tw d) j = Some x \<Longrightarrow> view (dr_tw (refresh d u b e)) j = Some x"
    and "\<And>w. w \<noteq> u \<Longrightarrow> dr_timers (refresh d u b e) w = dr_timers d w"
    and "tw_currentTick (dr_tw (refresh d u b e)) = tw_currentTick (dr_tw d)" and "tw_tick (dr_tw (refresh d u b e)) = tw_tick (dr_tw d)"
    and "dr_entries (refresh d u b e) = (dr_entries d)(u \<mapsto> e)" and "dr_late (refresh d u b e) = dr_late d" and "dr_ttl (refresh d u b e) = dr_ttl d"
proof -
  define d1 where "d1 = (if b then stop_timer d u else d)\<lparr>dr_entries := (dr_entries d)(u \<mapsto> e)\<rparr>"
  note S = stop_timer_effect [OF ok, of u]
  from S dir_ok_Suc [OF ok] have ok1: "dir_ok (Suc m) d1" by (simp add: d1_def)
  note T = start_timer_effect [OF ok1]
  have r: "refresh d u b e = start_timer d1 u" by (simp add: refresh_def d1_def)
  have f: "dr_genOf d1 = dr_genOf d" "dr_nextGen d1 = dr_nextGen d" "dr_closures d1 = dr_closures d" "dr_timers d1 = dr_timers d"
    "tw_currentTick (dr_tw d1) = tw_currentTick (dr_tw d)" "tw_tick (dr_tw d1) = tw_tick (dr_tw d)" "dr_late d1 = dr_late d"
    "dr_ttl d1 = dr_ttl d" "dr_entries d1 = (dr_entries d)(u \<mapsto> e)"
    using S(3,4) by (simp_all add: d1_def)
  show "dir_ok m (refresh d u b e)" "dr_genOf (refresh d u b e) = (dr_genOf d)(u \<mapsto> Suc (dr_nextGen d))"
    "dr_nextGen (refresh d u b e) = Suc (dr_nextGen d)" "dr_closures (refresh d u b e) = (dr_closures d)(Suc (dr_nextGen d) \<mapsto> u)"
    "tw_currentTick (dr_tw (refresh d u b e)) = tw_currentTick (dr_tw d)" "tw_tick (dr_tw (refresh d u b e)) = tw_tick (dr_tw d)"
    "dr_entries (refresh d u b e) = (dr_entries d)(u \<mapsto> e)" "dr_late (refresh d u b e) = dr_late d" "dr_ttl (refresh d u b e) = dr_ttl d"
    unfolding r by (simp_all add: T f)
  show "\<exists>i. dr_timers (refresh d u b e) u = Some i \<and> view (dr_tw (refresh d u b e)) i = Some (expiry d, 0, Suc (dr_nextGen d))"
    unfolding r by (simp add: T f expiry_def)
  show "dr_timers (refresh d u b e) w = dr_timers d w" if "w \<noteq> u" for w unfolding r using that by (simp add: T f)
  show "view (dr_tw (refresh d u b e)) j = Some x" if "w \<noteq> u" "dr_timers d w = Some j" "view (dr_tw d) j = Some x" for w j x
  proof -
    have "dr_timers d u \<noteq> Some j"
    proof
      assume t: "dr_timers d u = Some j"
      obtain e v f where "x = (e, v, f)" by (cases x)
      with dir_okD(7) [OF ok t] dir_okD(7) [OF ok that(2)] that show False by fastforce
    qed
    then have v1: "view (dr_tw d1) j = Some x" using that(3) by (auto simp: d1_def S(2) split: option.splits)
    with T(7) have "j \<noteq> Suc (tw_nextID (dr_tw d1))" by auto
    with v1 show ?thesis unfolding r T(6) by simp
  qed
qed


lemma dir_step_ok:
  assumes ok: "dir_ok (Suc (Suc m)) d"
  shows "dir_ok m (dir_step d p)"
proof -
  note ok0 = dir_ok_Suc [OF dir_ok_Suc [OF ok]]
  have less: "dir_ok m d'" if "dr_tw d' = dr_tw d" "\<And>u j. dr_timers d' u = Some j \<Longrightarrow> dr_timers d u = Some j"
    "set (dr_late d') \<subseteq> set (dr_late d)" "dr_nextGen d' = dr_nextGen d" "dr_ttl d' = dr_ttl d" "dr_closures d' = dr_closures d" for d'
    by (rule dir_ok_less [OF ok0]) (use that dir_okD(1) [OF ok0] in simp_all)
  show ?thesis
  proof (cases p)
    case (DirRegister u gw lobby t)
    with Register_refresh [of d u gw lobby t] refresh_effect(1) [OF ok] show ?thesis by auto
  next
    case (DirTouch u t)
    show ?thesis
    proof (cases "dr_entries d u = None")
      case True
      with DirTouch ok0 show ?thesis by (simp add: Directory_Touch_def)
    next
      case False
      with DirTouch Touch_refresh [of d u t] refresh_effect(1) [OF ok] show ?thesis by auto
    qed
  next
    case (DirUnregister u)
    have s: "dir_ok m (stop_timer d u)" by (rule dir_ok_Suc [OF stop_timer_effect(1) [OF ok]])
    have "dir_ok m (forget (stop_timer d u) u)"
      by (rule dir_ok_less [OF s]) (use dir_okD(1) [OF s] in \<open>auto simp: forget_def split: if_splits\<close>)
    with DirUnregister ok0 show ?thesis by (simp add: Unregister_eq)
  next
    case (DirBindRoom u r g)
    then show ?thesis by (auto intro: less)
  next
    case DirTick
    obtain tw ready where "Advance (dr_tw d) = (tw, ready)" by fastforce
    from tick_effect(1) [OF dir_ok_Suc [OF ok] this] DirTick show ?thesis by simp
  next
    case (DirCallback u g)
    then show ?thesis
      using set_remove1_subset [of "(u, g)" "dr_late d"] ok0 by (auto intro!: less dest: expire_timers)
  qed
qed

section \<open>Life of an entry\<close>

text \<open>
  The state of the entry of \<open>u\<close> written at generation \<open>g\<close>, due at tick \<open>E\<close>: its timer is pending,
  or its callback is ready, or the entry is gone.
\<close>

definition awaits :: "Directory \<Rightarrow> int \<Rightarrow> nat \<Rightarrow> nat \<Rightarrow> bool" where
  "awaits d u g E \<longleftrightarrow> dr_entries d u \<noteq> None \<and> dr_genOf d u = Some g \<and> dr_closures d g = Some u \<and>
     (\<exists>i. dr_timers d u = Some i \<and> view (dr_tw d) i = Some (E, 0, g)) \<and> tw_currentTick (dr_tw d) < E"

definition due :: "Directory \<Rightarrow> int \<Rightarrow> nat \<Rightarrow> nat \<Rightarrow> bool" where
  "due d u g E \<longleftrightarrow> dr_genOf d u = Some g \<and> (u, g) \<in> set (dr_late d) \<and> E \<le> tw_currentTick (dr_tw d)"

definition entry_phase :: "Directory \<Rightarrow> int \<Rightarrow> nat \<Rightarrow> nat \<Rightarrow> bool" where
  "entry_phase d u g E \<longleftrightarrow> awaits d u g E \<or> due d u g E \<or> (dr_entries d u = None \<and> E \<le> tw_currentTick (dr_tw d))"

lemma entry_phase_tick:
  assumes ok: "dir_ok (Suc m) d" and ph: "entry_phase d u g E"
  shows "entry_phase (dir_step d DirTick) u g E \<and> tw_currentTick (dr_tw (dir_step d DirTick)) = Suc (tw_currentTick (dr_tw d))"
proof -
  obtain tw ready where adv: "Advance (dr_tw d) = (tw, ready)" by fastforce
  note t = tick_effect [OF ok adv]
  have now: "tw_currentTick (dr_tw (dir_step d DirTick)) = Suc (tw_currentTick (dr_tw d))" using t(2) by (simp add: adv)
  show ?thesis
  proof (cases "awaits d u g E")
    case True
    then obtain i where i: "dr_timers d u = Some i" "view (dr_tw d) i = Some (E, 0, g)" by (auto simp: awaits_def)
    show ?thesis
    proof (cases "Suc (tw_currentTick (dr_tw d)) < E")
      case True
      then have "view tw i = Some (E, 0, g)" using i t(3) by (simp add: fire_timer_def)
      with i \<open>awaits d u g E\<close> True t(2) now show ?thesis by (auto simp: entry_phase_def awaits_def adv)
    next
      case False
      then have "(i, g) \<in> set (map (\<lambda>t. (tk_id t, tk_fn t)) ready)" unfolding t(4) using i by auto
      then have "(u, g) \<in> (\<lambda>t. (the (dr_closures d (tk_fn t)), tk_fn t)) ` set ready"
        using \<open>awaits d u g E\<close> by (auto simp: awaits_def image_iff) (metis option.sel)
      with False \<open>awaits d u g E\<close> t(2) now show ?thesis by (auto simp: entry_phase_def awaits_def due_def adv)
    qed
  next
    case False
    with ph t(2) now show ?thesis by (auto simp: entry_phase_def due_def adv)
  qed
qed

lemma entry_phase_refresh:
  assumes ok: "dir_ok (Suc (Suc m)) d" and ph: "entry_phase d u g E" and w: "w \<noteq> u"
  shows "entry_phase (refresh d w b e) u g E"
proof -
  show ?thesis
  proof (cases "awaits d u g E")
    case True
    then obtain i where i: "dr_timers d u = Some i" "view (dr_tw d) i = Some (E, 0, g)" by (auto simp: awaits_def)
    with refresh_effect(6) [OF ok, of u w i] w have v: "view (dr_tw (refresh d w b e)) i = Some (E, 0, g)" by simp
    have "g \<le> dr_nextGen d" using dir_okD(4) [OF ok i(2)] by simp
    with v i w True refresh_effect [OF ok] show ?thesis by (auto simp: entry_phase_def awaits_def)
  next
    case False
    with ph w refresh_effect [OF ok] show ?thesis by (auto simp: entry_phase_def due_def)
  qed
qed


lemma entry_phase_stop:
  assumes ok: "dir_ok (Suc m) d" and ph: "entry_phase d u g E" and w: "w \<noteq> u"
  shows "entry_phase (forget (stop_timer d w) w) u g E"
proof -
  note S = stop_timer_effect [OF ok]
  show ?thesis
  proof (cases "awaits d u g E")
    case True
    then obtain i where i: "dr_timers d u = Some i" "view (dr_tw d) i = Some (E, 0, g)" "dr_closures d g = Some u" by (auto simp: awaits_def)
    have "dr_timers d w \<noteq> Some i" using dir_okD(7) [OF ok _ i(2), of w] i(3) w by auto
    then have "view (dr_tw (stop_timer d w)) i = Some (E, 0, g)" using i by (auto simp: S(2) split: option.splits)
    with i w True S(3) show ?thesis by (auto simp: entry_phase_def awaits_def forget_def)
  next
    case False
    with ph w S(3) show ?thesis by (auto simp: entry_phase_def due_def forget_def)
  qed
qed

lemma entry_phase_callback:
  assumes ok: "dir_ok m d" and ph: "entry_phase d u g E"
  shows "entry_phase (dir_step d (DirCallback w f)) u g E"
proof (cases "(w, f) \<in> set (dr_late d)")
  case late: True
  let ?d = "d\<lparr>dr_late := remove1 (w, f) (dr_late d)\<rparr>"
  have step: "dir_step d (DirCallback w f) = expire ?d w f" using late by simp
  have "f \<noteq> g" if "awaits d u g E" using that dir_okD(9) [OF ok late] by (auto simp: awaits_def)
  then consider "w = u \<and> f = g \<and> \<not> awaits d u g E" | "w = u \<and> f \<noteq> g" | "w \<noteq> u" by blast
  then show ?thesis
  proof cases
    case 1
    with ph show ?thesis unfolding step by (auto simp: entry_phase_def due_def expire_def forget_def)
  next
    case 2
    have keep: "(u, g) \<in> set (remove1 (w, f) (dr_late d))" if "(u, g) \<in> set (dr_late d)" using that 2 by (simp add: in_set_remove1)
    show ?thesis
    proof (cases "dr_genOf d u = Some g")
      case True
      then have "expire ?d w f = ?d" using 2 by (simp add: expire_def)
      with ph keep show ?thesis unfolding step by (auto simp: entry_phase_def due_def awaits_def)
    next
      case False
      with ph show ?thesis unfolding step by (auto simp: entry_phase_def due_def awaits_def expire_def forget_def)
    qed
  next
    case 3
    have keep: "(u, g) \<in> set (remove1 (w, f) (dr_late d))" if "(u, g) \<in> set (dr_late d)" using that 3 by (simp add: in_set_remove1)
    with ph 3 show ?thesis unfolding step by (auto simp: entry_phase_def due_def awaits_def)
  qed
qed (use ph in simp)

lemma entry_phase_step:
  assumes ok: "dir_ok (Suc (Suc m)) d" and ph: "entry_phase d u g E" and p: "\<not> concerns u p"
  shows "entry_phase (dir_step d p) u g E
    \<and> tw_currentTick (dr_tw (dir_step d p)) = tw_currentTick (dr_tw d) + (if p = DirTick then 1 else 0)"
proof (cases p)
  case (DirRegister w gw lobby t)
  with p Register_refresh [of d w gw lobby t] entry_phase_refresh [OF ok ph] refresh_effect(8) [OF ok] show ?thesis by auto
next
  case (DirTouch w t)
  show ?thesis
  proof (cases "dr_entries d w = None")
    case True
    with DirTouch ph show ?thesis by (simp add: Directory_Touch_def)
  next
    case False
    with p DirTouch Touch_refresh [of d w t] entry_phase_refresh [OF ok ph] refresh_effect(8) [OF ok] show ?thesis by auto
  qed
next
  case (DirUnregister w)
  with p entry_phase_stop [OF dir_ok_Suc [OF ok] ph, of w] stop_timer_effect(3) [OF ok, of w] ph show ?thesis
    by (simp add: Unregister_eq) (simp add: forget_def)
next
  case (DirBindRoom w r f)
  have "(dr_entries (fst (Directory_BindRoom d w r f)) u \<noteq> None) = (dr_entries d u \<noteq> None)" by simp
  with ph DirBindRoom show ?thesis by (simp add: entry_phase_def awaits_def due_def)
next
  case DirTick
  with entry_phase_tick [OF dir_ok_Suc [OF ok] ph] show ?thesis by simp
next
  case (DirCallback w f)
  with entry_phase_callback [OF ok ph, of w f] show ?thesis by simp
qed

lemma dir_run_ok: "dir_ok (2 * length ps + m) d \<Longrightarrow> dir_ok m (foldl dir_step d ps)"
proof (induction ps arbitrary: d)
  case (Cons p ps)
  from Cons.prems have "dir_ok (Suc (Suc (2 * length ps + m))) d" by simp
  from Cons.IH [OF dir_step_ok [OF this]] show ?case by simp
qed simp

lemma entry_phase_run:
  assumes "dir_ok (2 * length ps) d" and "entry_phase d u g E" and "\<forall>p \<in> set ps. \<not> concerns u p"
  shows "entry_phase (foldl dir_step d ps) u g E
    \<and> tw_currentTick (dr_tw (foldl dir_step d ps)) = tw_currentTick (dr_tw d) + ticks_in ps"
  using assms
proof (induction ps arbitrary: d)
  case (Cons p ps)
  have ok: "dir_ok (Suc (Suc (2 * length ps))) d" using Cons.prems(1) by simp
  note st = entry_phase_step [OF ok Cons.prems(2), of p]
  with Cons.IH [OF dir_step_ok [OF ok], of p] Cons.prems(3) show ?case by (auto simp: ticks_in_def)
qed (simp add: ticks_in_def)

lemma refresh_phase:
  assumes "dir_ok (Suc (Suc m)) d"
  shows "entry_phase (refresh d u b e) u (dr_nextGen (refresh d u b e)) (expiry d)"
proof -
  have "tw_currentTick (dr_tw d) < expiry d" by (simp add: expiry_def)
  with refresh_effect [OF assms] show ?thesis by (simp add: entry_phase_def awaits_def)
qed

lemma dir_ok_New:
  assumes "wheel_room m tw" and "ttl < 2 ^ 62" and "view tw = Map.empty"
  shows "dir_ok m (NewDirectory tw ttl)"
  using assms by (simp add: dir_ok_def NewDirectory_def wheel_room_def)

lemma view_New: "view (NewWithLevelCount tick slots n) = Map.empty"
  by (simp add: NewWithLevelCount_def Let_def view_def fun_eq_iff)


definition ttl_ticks :: "Directory \<Rightarrow> nat" where
  "ttl_ticks d = max 1 (durationToTicks (dr_ttl d) (tw_tick (dr_tw d)))"

lemma ttl_ticks_step:
  assumes ok: "dir_ok (Suc (Suc m)) d"
  shows "ttl_ticks (dir_step d p) = ttl_ticks d"
proof (cases p)
  case (DirRegister w gw lobby t)
  with Register_refresh [of d w gw lobby t] refresh_effect(9,12) [OF ok] show ?thesis by (auto simp: ttl_ticks_def)
next
  case (DirTouch w t)
  show ?thesis
  proof (cases "dr_entries d w = None")
    case False
    with DirTouch Touch_refresh [of d w t] refresh_effect(9,12) [OF ok] show ?thesis by (auto simp: ttl_ticks_def)
  qed (simp add: DirTouch Directory_Touch_def)
next
  case DirTick
  obtain tw ready where adv: "Advance (dr_tw d) = (tw, ready)" by fastforce
  have "(\<lambda>k. durationToTicks k (tw_tick tw)) = (\<lambda>k. durationToTicks k (tw_tick (dr_tw d)))"
    using wheel.advance_law [OF dir_okD(1) [OF dir_ok_Suc [OF ok]] adv] by blast
  from fun_cong [OF this] DirTick adv show ?thesis by (simp add: ttl_ticks_def)
qed (use stop_timer_effect(4) [OF ok] in \<open>simp_all add: ttl_ticks_def Unregister_eq forget_def\<close>)

lemma ttl_ticks_run: "dir_ok (2 * length ps + m) d \<Longrightarrow> ttl_ticks (foldl dir_step d ps) = ttl_ticks d"
proof (induction ps arbitrary: d)
  case (Cons p ps)
  from Cons.prems have ok: "dir_ok (Suc (Suc (2 * length ps + m))) d" by simp
  from Cons.IH [OF dir_step_ok [OF ok]] ttl_ticks_step [OF ok] show ?case by simp
qed simp

text \<open>C5: Online entries expire exactly on time. In every history of the directory, after a user is
  registered or touched and as long as it is neither registered, touched nor unregistered
  again, the entry is found until the time to live, in ticks rounded up, has passed, whatever
  other users do and whichever late callbacks of earlier registrations run; after that many
  ticks the entry is gone as soon as its own callback has run.\<close>

theorem entry_lives_exactly_ttl:
  assumes "0 < tick" and "tick < 2 ^ 62" and "0 < slots" and "slots ^ 3 < 2 ^ 64" and "ttl < 2 ^ 62"
    and "length before + length after < 2 ^ 60"
    and "d = foldl dir_step (NewDirectory (NewTimeWheel tick slots) ttl) before"
    and "d1 = fst (Directory_Register d uid gw lobby t) \<or> d1 = fst (Directory_Touch d uid t) \<and> Query d uid \<noteq> None"
    and "\<forall>p \<in> set after. \<not> concerns uid p" and "d2 = foldl dir_step d1 after"
  shows "(ticks_in after < max 1 (durationToTicks ttl tick) \<longrightarrow> Query d2 uid \<noteq> None)
    \<and> (max 1 (durationToTicks ttl tick) \<le> ticks_in after \<longrightarrow> Query (dir_step d2 (DirCallback uid (dr_nextGen d1))) uid = None)"
proof -
  let ?new = "NewDirectory (NewTimeWheel tick slots) ttl" and ?m = "Suc (Suc (2 * length after))"
  have "nat slots ^ 3 < 2 ^ 64" using assms(3,4) by (simp add: nat_power_eq [symmetric])
  then have "wheel_room (2 * length before + ?m) (NewTimeWheel tick slots)"
    unfolding NewTimeWheel_def using assms(1-3,6) by (intro wheel_room_New) (simp_all add: defaultLevelCount_def)
  then have ok0: "dir_ok (2 * length before + ?m) ?new" using assms(5) by (simp add: dir_ok_New NewTimeWheel_def view_New)
  then have ok: "dir_ok ?m d" unfolding assms(7) by (rule dir_run_ok)
  have ttl: "ttl_ticks d = max 1 (durationToTicks ttl tick)"
    unfolding assms(7) ttl_ticks_run [OF ok0] using assms(1) by (simp add: ttl_ticks_def NewDirectory_def NewTimeWheel_def NewWithLevelCount_def Let_def)
  obtain b e where d1: "d1 = refresh d uid b e"
    using assms(8) Register_refresh [of d uid gw lobby t] Touch_refresh [of d uid t] by (auto simp: Query_def)
  have ok1: "dir_ok (2 * length after) d1" unfolding d1 by (rule refresh_effect(1) [OF ok])
  define g E where "g = dr_nextGen d1" and "E = tw_currentTick (dr_tw d) + max 1 (durationToTicks ttl tick)"
  have ph1: "entry_phase d1 uid g E" using refresh_phase [OF ok, of uid b e] ttl by (simp add: d1 g_def E_def expiry_def ttl_ticks_def)
  have "tw_currentTick (dr_tw d1) = tw_currentTick (dr_tw d)" unfolding d1 by (rule refresh_effect(8) [OF ok])
  with entry_phase_run [OF ok1 ph1 assms(9)] have ph: "entry_phase d2 uid g E"
    and now: "tw_currentTick (dr_tw d2) = tw_currentTick (dr_tw d) + ticks_in after" by (simp_all add: assms(10))
  have "Query d2 uid \<noteq> None" if "ticks_in after < max 1 (durationToTicks ttl tick)"
    using that now ph unfolding E_def by (auto simp: entry_phase_def due_def awaits_def Query_def)
  moreover have "Query (dir_step d2 (DirCallback uid g)) uid = None" if "max 1 (durationToTicks ttl tick) \<le> ticks_in after"
    using that now ph unfolding E_def by (auto simp: entry_phase_def due_def awaits_def Query_def expire_def forget_def)
  ultimately show ?thesis by (simp add: g_def)
qed

theorem entry_lives_exactly_ttl_witness:
  "Query (fst (Directory_Register (NewDirectory (NewTimeWheel 1 8) 2) 7 ''gate-1'' ''lobby-1'' 0)) 7 \<noteq> None
   \<and> Query (dir_step (foldl dir_step (fst (Directory_Register (NewDirectory (NewTimeWheel 1 8) 2) 7 ''gate-1'' ''lobby-1'' 0))
       [DirTick, DirRegister 8 ''gate-2'' ''lobby-1'' 5, DirTick])
     (DirCallback 7 (dr_nextGen (fst (Directory_Register (NewDirectory (NewTimeWheel 1 8) 2) 7 ''gate-1'' ''lobby-1'' 0))))) 7 = None"
proof -
  have k: "durationToTicks 2 1 = 2" by (simp add: durationToTicks_def wrap_s64_def)
  note c = entry_lives_exactly_ttl [of 1 8 2 "[]" _ _ _ 7 "''gate-1''" "''lobby-1''" 0, OF _ _ _ _ _ _ refl disjI1 [OF refl] _ refl, unfolded k]
  show ?thesis using c [of "[]"] c [of "[DirTick, DirRegister 8 ''gate-2'' ''lobby-1'' 5, DirTick]"]
    by (simp add: ticks_in_def)
qed

text \<open>Moving to another room keeps the entry's clock; the room survives a new login.\<close>

lemma register_keeps_room:
  "Query d uid = Some e \<Longrightarrow> Query (fst (Directory_Register d uid gw lobby t)) uid =
     Some \<lparr>en_UID = uid, en_GatewayNodeID = gw, en_LobbyNodeID = lobby, en_LoginTime = t, en_LastActive = t,
       en_RoomNodeID = en_RoomNodeID e, en_GameID = en_GameID e\<rparr>"
  by (simp add: Query_def Directory_Register_def Let_def start_timer_def scheduleExpire_def split: prod.splits)

end
