(* ===== verification/Rpc_Stubs.thy ===== *)
theory Rpc_Stubs
  imports Gate Sdk_Client Rpc_Compose
begin

text \<open>
  The typed layer of remote calls: the stubs, routes and registrations that are generated from the
  protocol files (\<^verbatim>\<open>protocol/gen\<close>), the handler of the lobby (\<^verbatim>\<open>internal/server/lobby/handler.go\<close>) with the way
  of a frame through the module, and the spans of traced calls
  (\<^verbatim>\<open>rpc/span.go\<close>). The encoding of messages belongs to the protobuf library; a pair of functions stands
  for it, with the law that what it has encoded it decodes.
\<close>

section \<open>Messages\<close>

type_synonym 'm proto = "('m \<Rightarrow> string + bytes) \<times> (bytes \<Rightarrow> string + 'm)"

definition proto_Marshal :: "'m proto \<Rightarrow> 'm \<Rightarrow> string + bytes" where "proto_Marshal = fst"
definition proto_Unmarshal :: "'m proto \<Rightarrow> bytes \<Rightarrow> string + 'm" where "proto_Unmarshal = snd"

definition proto_law :: "'m proto \<Rightarrow> bool" where
  "proto_law p \<longleftrightarrow> (\<forall>m b. proto_Marshal p m = Inr b \<longrightarrow> proto_Unmarshal p b = Inr m)"

record CS_Ping_Req = pq_Text :: string
record SC_Pong_Rsp = pr_Text :: string

section \<open>Handlers and their registration\<close>

text \<open>
  A handler returns the replies that it makes and how it ends; behind \<^verbatim>\<open>RecoverRoute\<close> it always ends
  with an error value.
\<close>

type_synonym replies = "(bytes option \<times> goerror) list"
type_synonym RouteHandler = "Ctx \<Rightarrow> bytes \<Rightarrow> replies \<times> handler_result"
type_synonym route_table = "(string \<rightharpoonup> (Ctx \<Rightarrow> bytes \<Rightarrow> replies \<times> goerror)) option"

definition RecoverRoute :: "string \<Rightarrow> RouteHandler \<Rightarrow> Ctx \<Rightarrow> bytes \<Rightarrow> replies \<times> goerror" where
  "RecoverRoute route h ctx body = (case h ctx body of (rs, r) \<Rightarrow> (rs, recover_route route r))"

definition OnceReply :: "replies \<Rightarrow> replies" where
  "OnceReply rs = on_delivered (foldl once_reply \<lparr>on_called = False, on_delivered = []\<rparr> rs)"

definition ReplyProto :: "'p proto \<Rightarrow> ('p option \<times> goerror) list \<Rightarrow> replies" where
  "ReplyProto p rs = OnceReply (map (\<lambda>(rsp, err). reply_proto (proto_Marshal p) rsp err) rs)"

text \<open>A method of a service: its typed replies, and the value of a panic.\<close>

type_synonym ('q, 'p) service_method = "Ctx \<Rightarrow> 'q \<Rightarrow> ('p option \<times> goerror) list \<times> string option"

definition ended :: "string option \<Rightarrow> handler_result" where
  "ended panic = (case panic of None \<Rightarrow> Returned NoError | Some v \<Rightarrow> Panicked v)"

text \<open>The closures that are generated for a request and for a notification.\<close>

definition request_route :: "'q proto \<Rightarrow> 'p proto \<Rightarrow> ('q, 'p) service_method \<Rightarrow> RouteHandler" where
  "request_route pq pp srv ctx body =
     (case proto_Unmarshal pq body of
        Inl e \<Rightarrow> ([], Returned (errcode_New ERR_UNMARSHAL e))
      | Inr req \<Rightarrow> (case srv ctx req of (rs, panic) \<Rightarrow> (ReplyProto pp rs, ended panic)))"

definition notify_route :: "'q proto \<Rightarrow> (Ctx \<Rightarrow> 'q \<Rightarrow> string option) \<Rightarrow> RouteHandler" where
  "notify_route pq srv ctx body =
     (case proto_Unmarshal pq body of
        Inl e \<Rightarrow> ([], Returned (errcode_New ERR_UNMARSHAL e))
      | Inr ntf \<Rightarrow> ([], ended (srv ctx ntf)))"

text \<open>\<^verbatim>\<open>MustRegister\<close>: \<open>None\<close> is a panic.\<close>

definition MustRegister :: "route_table \<Rightarrow> string \<Rightarrow> (Ctx \<Rightarrow> bytes \<Rightarrow> replies \<times> goerror) \<Rightarrow> route_table option" where
  "MustRegister d route h = (case rpc_Register d route (Some h) of (d1, e) \<Rightarrow> if e = NoError then Some d1 else None)"

definition New_rpc_Dispatcher :: route_table where "New_rpc_Dispatcher = Some Map.empty"

definition RouteLobbyHandlerPing :: string where "RouteLobbyHandlerPing = ''LobbyHandler/Ping''"
definition RouteLobbyRemoteTest :: string where "RouteLobbyRemoteTest = ''LobbyRemote/Test''"
definition RouteLobbyRemoteTestNtf :: string where "RouteLobbyRemoteTestNtf = ''LobbyRemote/TestNtf''"

definition RegisterLobbyHandler :: "'q proto \<Rightarrow> 'p proto \<Rightarrow> route_table \<Rightarrow> ('q, 'p) service_method option \<Rightarrow> route_table option" where
  "RegisterLobbyHandler pq pp d srv =
     (case srv of
        None \<Rightarrow> Some d
      | Some ping \<Rightarrow>
          if d = None then Some d
          else MustRegister d RouteLobbyHandlerPing (RecoverRoute RouteLobbyHandlerPing (request_route pq pp ping)))"

definition RegisterLobbyRemote :: "'q proto \<Rightarrow> 'p proto \<Rightarrow> 'n proto \<Rightarrow> route_table \<Rightarrow> (('q, 'p) service_method \<times> (Ctx \<Rightarrow> 'n \<Rightarrow> string option)) option \<Rightarrow> route_table option" where
  "RegisterLobbyRemote pq pp pn d srv =
     (case srv of
        None \<Rightarrow> Some d
      | Some (test, testNtf) \<Rightarrow>
          if d = None then Some d
          else Option.bind (MustRegister d RouteLobbyRemoteTest (RecoverRoute RouteLobbyRemoteTest (request_route pq pp test)))
            (\<lambda>d1. MustRegister d1 RouteLobbyRemoteTestNtf (RecoverRoute RouteLobbyRemoteTestNtf (notify_route pn testNtf))))"

section \<open>The handler of the lobby\<close>

definition Lobby_Ping :: "(CS_Ping_Req, SC_Pong_Rsp) service_method" where
  "Lobby_Ping ctx req = ([(Some \<lparr>pr_Text = (if pq_Text req \<noteq> [] then ''pong:'' @ pq_Text req else ''pong'')\<rparr>, NoError)], None)"

text \<open>\<^verbatim>\<open>dispatchRoute\<close> and \<^verbatim>\<open>handleRagentFrame\<close>: the responses that a frame makes the lobby send.\<close>

definition dispatchRoute :: "route_table \<Rightarrow> int \<Rightarrow> RPCWireHeader \<Rightarrow> bytes \<Rightarrow> route_outcome" where
  "dispatchRoute d now head body =
     (case rpc_Dispatch d (hdr_Route head) of
        Inl e \<Rightarrow> NoRoute e
      | Inr h \<Rightarrow> (case h (inboundCtx now head) body of (rs, e) \<Rightarrow> Handled (OnceReply rs) e))"

definition handleRagentFrame :: "route_table \<Rightarrow> int \<Rightarrow> u32 \<Rightarrow> Frame \<Rightarrow> outboundFrame list" where
  "handleRagentFrame d now nodeID frame =
     (if frm_Type frame = FrameRpcRequest \<or> frm_Type frame = FrameRpcNotify then
        (case DecodeRPCWireHeader (frm_Header frame) of
           Some (Inr head) \<Rightarrow> handleInbound nodeID frame (dispatchRoute d now head (frm_Body frame))
         | _ \<Rightarrow> [])
      else [])"

section \<open>Stubs\<close>

text \<open>A stub is its target; the engine that \<^verbatim>\<open>Init\<close> gives to all stubs of a package is an argument.\<close>

record Stub = sb_target :: Target

definition NewStub :: "u32 \<Rightarrow> Stub" where
  "NewStub serverType = \<lparr>sb_target = \<lparr>tg_ServerType = serverType, tg_Mode = RoutingAny, tg_Key = [], tg_NodeID = 0, tg_Deadline = 0\<rparr>\<rparr>"

definition Stub_At :: "Stub \<Rightarrow> u32 \<Rightarrow> Stub" where "Stub_At s nodeID = s\<lparr>sb_target := At (sb_target s) nodeID\<rparr>"
definition Stub_ByHash :: "Stub \<Rightarrow> string \<Rightarrow> Stub" where "Stub_ByHash s key = s\<lparr>sb_target := ByHash (sb_target s) key\<rparr>"
definition Stub_Broadcast :: "Stub \<Rightarrow> Stub" where "Stub_Broadcast s = s\<lparr>sb_target := Target_Broadcast (sb_target s)\<rparr>"
definition Stub_Timeout :: "Stub \<Rightarrow> int \<Rightarrow> Stub" where "Stub_Timeout s d = s\<lparr>sb_target := Timeout (sb_target s) d\<rparr>"

definition serverTypeLobby :: u32 where "serverTypeLobby = 2"

definition LobbyStub :: Stub where "LobbyStub = NewStub serverTypeLobby"

text \<open>
  \<^verbatim>\<open>typedCall\<close>: the engine afterwards, and what the callback is given at once. \<open>cb\<close> is \<open>None\<close> for a nil
  callback, \<open>on\<close> the identifier of the closure that is handed to the engine and \<open>sent\<close> the result of the transport.
\<close>

definition typedCall ::
  "Core option \<Rightarrow> Stub option \<Rightarrow> int \<Rightarrow> Ctx \<Rightarrow> string \<Rightarrow> string + bytes \<Rightarrow> bool \<Rightarrow> nat \<Rightarrow> goerror \<Rightarrow> Core option \<times> (bytes option \<times> goerror) option" where
  "typedCall core s now ctx route encoded cb on sent =
     (case (core, s) of
        (Some c, Some stub) \<Rightarrow>
          (case encoded of
             Inl e \<Rightarrow> (core, if cb then Some (None, Plain e) else None)
           | Inr body \<Rightarrow> (Some (Call c now (sb_target stub) route body ctx (Some on) sent), None))
      | _ \<Rightarrow> (core, if cb then Some (None, errcode_New ERR_INTERNAL ''rpc stub not initialized'') else None))"

text \<open>The closure itself: what it gives to the callback.\<close>

definition typedCall_result :: "Ctx \<Rightarrow> bool \<Rightarrow> bytes option \<Rightarrow> ErrCode \<Rightarrow> (bytes option \<times> goerror) option" where
  "typedCall_result ctx cb payload code =
     (if Stale ctx then None else if \<not> cb then None
      else if code \<noteq> OK then Some (None, errcode_From code) else Some (payload, NoError))"

definition typedSend :: "Core option \<Rightarrow> Stub option \<Rightarrow> Ctx \<Rightarrow> string \<Rightarrow> string + bytes \<Rightarrow> Core option" where
  "typedSend core s ctx route encoded =
     (case (core, s, encoded) of
        (Some c, Some stub, Inr body) \<Rightarrow> Some (Send c (sb_target stub) route body ctx)
      | _ \<Rightarrow> core)"

text \<open>\<^verbatim>\<open>LobbyStub.Test\<close> always passes a closure of its own; \<open>None\<close> is the panic of calling a nil callback.\<close>

definition LobbyStub_Test :: "'q proto \<Rightarrow> Core option \<Rightarrow> Stub option \<Rightarrow> int \<Rightarrow> Ctx \<Rightarrow> 'q \<Rightarrow> nat \<Rightarrow> goerror \<Rightarrow> Core option \<times> (bytes option \<times> goerror) option" where
  "LobbyStub_Test pq core s now ctx req on sent = typedCall core s now ctx RouteLobbyRemoteTest (proto_Marshal pq req) True on sent"

definition Test_callback :: "'p proto \<Rightarrow> bool \<Rightarrow> bytes option \<times> goerror \<Rightarrow> ('p option \<times> goerror) option" where
  "Test_callback pp cb r =
     (if \<not> cb then None
      else case r of (body, err) \<Rightarrow>
        if err \<noteq> NoError then Some (None, err)
        else (case proto_Unmarshal pp (payload_bytes body) of
                Inl e \<Rightarrow> Some (None, Plain e)
              | Inr rsp \<Rightarrow> Some (Some rsp, NoError)))"

definition LobbyStub_TestNtf :: "'n proto \<Rightarrow> Core option \<Rightarrow> Stub option \<Rightarrow> Ctx \<Rightarrow> 'n \<Rightarrow> Core option" where
  "LobbyStub_TestNtf pn core s ctx ntf = typedSend core s ctx RouteLobbyRemoteTestNtf (proto_Marshal pn ntf)"

section \<open>The route table of the gate\<close>

definition RouteTable :: "(u32 \<times> RouteEntry) list" where
  "RouteTable = [(2054, \<lparr>re_CmdID = 2054, re_ServerType = serverTypeLobby, re_Route = RouteLobbyHandlerPing, re_RspCmdID = 2055\<rparr>)]"

definition AuthWhitelist :: "u32 \<rightharpoonup> bool" where
  "AuthWhitelist = [2054 \<mapsto> True]"

section \<open>Registered routes\<close>

lemma OnceReply_eq [simp]: "OnceReply rs = take 1 rs"
  by (simp add: OnceReply_def once_reply_delivers_first)

lemma ReplyProto_eq: "ReplyProto p rs = (case rs of [] \<Rightarrow> [] | (rsp, err) # _ \<Rightarrow> [reply_proto (proto_Marshal p) rsp err])"
  by (cases rs) (auto simp: ReplyProto_def)

lemma MustRegister_new:
  "MustRegister (Some m) route h = (if route \<noteq> [] \<and> m route = None then Some (Some (m(route \<mapsto> h))) else None)"
  by (simp add: MustRegister_def rpc_Register_def errcode_New_def)

lemmas route_names = RouteLobbyHandlerPing_def RouteLobbyRemoteTest_def RouteLobbyRemoteTestNtf_def

lemma RegisterLobbyHandler_new:
  "RegisterLobbyHandler pq pp New_rpc_Dispatcher (Some ping) =
     Some (Some [RouteLobbyHandlerPing \<mapsto> RecoverRoute RouteLobbyHandlerPing (request_route pq pp ping)])"
  by (simp add: RegisterLobbyHandler_def New_rpc_Dispatcher_def MustRegister_new route_names)

lemma RegisterLobbyRemote_new:
  "RegisterLobbyRemote pq pp pn New_rpc_Dispatcher (Some (test, ntf)) =
     Some (Some [RouteLobbyRemoteTest \<mapsto> RecoverRoute RouteLobbyRemoteTest (request_route pq pp test),
                 RouteLobbyRemoteTestNtf \<mapsto> RecoverRoute RouteLobbyRemoteTestNtf (notify_route pn ntf)])"
  by (simp add: RegisterLobbyRemote_def New_rpc_Dispatcher_def MustRegister_new route_names)

text \<open>Registering a service twice panics.\<close>

lemma registered_twice:
  "RegisterLobbyHandler pq pp New_rpc_Dispatcher (Some ping) = Some d \<Longrightarrow> RegisterLobbyHandler pq pp d (Some ping') = None"
  by (auto simp: RegisterLobbyHandler_new) (simp add: RegisterLobbyHandler_def MustRegister_new)

section \<open>A typed call\<close>

lemma dispatchRoute_registered:
  "m (hdr_Route head) = Some (RecoverRoute r h) \<Longrightarrow>
   dispatchRoute (Some m) now head body =
     (case h (inboundCtx now head) body of (rs, e) \<Rightarrow> Handled (take 1 rs) (recover_route r e))"
  by (simp add: dispatchRoute_def rpc_Dispatch_def RecoverRoute_def split: prod.splits)

lemma handleRagentFrame_request:
  "header_fits head \<Longrightarrow>
   handleRagentFrame d now nid (rpc_frame FrameRpcRequest head body) =
     handleInbound nid (rpc_frame FrameRpcRequest head body) (dispatchRoute d now head body)"
  by (simp add: handleRagentFrame_def rpc_frame_def EncodeRPCWireHeader_decodes)

text \<open>The response of a server with a code and a body, and the two outcomes of a dispatch that make one.\<close>

definition response :: "u32 \<Rightarrow> RPCWireHeader \<Rightarrow> ErrCode \<Rightarrow> bytes \<Rightarrow> outboundFrame" where
  "response nid head code body = SendRPCFrame FrameRpcResponse ((responseHead head nid)\<lparr>hdr_ErrCode := code\<rparr>) body"

lemma handleInbound_response:
  assumes "header_fits head" and "hdr_SeqID head \<noteq> 0"
  shows "handleInbound nid (rpc_frame FrameRpcRequest head body) (Handled rs e) =
      map (\<lambda>r. response nid head (CodeOf (snd r)) (payload_bytes (fst r))) (take 1 rs) @ (if CodeOf e \<noteq> OK then [response nid head (CodeOf e) []] else [])"
    and "handleInbound nid (rpc_frame FrameRpcRequest head body) (NoRoute e) = (if CodeOf e \<noteq> OK then [response nid head (CodeOf e) []] else [])"
  using EncodeRPCWireHeader_decodes [OF assms(1)] assms(2)
  by (simp_all add: handleInbound_def rpc_frame_def Let_def response_def)

text \<open>What the caller of a method is promised: the first reply, or the error of a method that panics without one.\<close>

definition typed_answer :: "'p proto \<Rightarrow> ('p option \<times> goerror) list \<times> string option \<Rightarrow> ('p option \<times> goerror) option" where
  "typed_answer pp done =
     (case done of
        ((rsp, err) # _, _) \<Rightarrow>
          Some (if err \<noteq> NoError then (None, errcode_From (CodeOf err))
                else (case Option.bind rsp (\<lambda>m. case proto_Marshal pp m of Inl _ \<Rightarrow> None | Inr _ \<Rightarrow> Some m) of
                        None \<Rightarrow> (None, errcode_From ERR_INTERNAL)
                      | Some m \<Rightarrow> (Some m, NoError)))
      | ([], panic) \<Rightarrow> map_option (\<lambda>_. (None, errcode_From ERR_INTERNAL)) panic)"

text \<open>What the callback of a stub is given for a response.\<close>

definition delivered :: "'p proto \<Rightarrow> Ctx \<Rightarrow> outboundFrame \<Rightarrow> ('p option \<times> goerror) option" where
  "delivered pp ctx out =
     Option.bind (typedCall_result ctx True (Some (frm_Body (out_frame out))) (hdr_ErrCode (out_wire out))) (Test_callback pp True)"

lemma delivered_response:
  assumes "\<not> Stale ctx"
  shows "delivered pp ctx (response nid head code body) =
    Some (if code \<noteq> OK then (None, errcode_From code)
          else case proto_Unmarshal pp body of Inl e \<Rightarrow> (None, Plain e) | Inr m \<Rightarrow> (Some m, NoError))"
  using assms
  by (simp add: delivered_def response_def SendRPCFrame_def typedCall_result_def Test_callback_def payload_bytes_def errcode_From_def split: sum.splits)

text \<open>The first response to a request decides what the caller is given.\<close>

lemma request_route_answered:
  assumes "header_fits head" and "hdr_SeqID head \<noteq> 0" and "m (hdr_Route head) = Some (RecoverRoute r (request_route pq pp srv))"
    and "proto_law pp" and "proto_Unmarshal pq body = Inr req" and "srv (inboundCtx now head) req = (rs, panic)"
    and "\<forall>(rsp, err) \<in> set rs. err \<noteq> NoError \<longrightarrow> CodeOf err \<noteq> OK" and "\<not> Stale ctx"
  shows "(case handleRagentFrame (Some m) now nid (rpc_frame FrameRpcRequest head body) of
            [] \<Rightarrow> typed_answer pp (rs, panic) = None
          | out # _ \<Rightarrow> hdr_SeqID (out_wire out) = hdr_SeqID head \<and> hdr_DestNodeID (out_wire out) = hdr_SrcNodeID head
                \<and> delivered pp ctx out = typed_answer pp (rs, panic))"
proof -
  have d: "dispatchRoute (Some m) now head body = Handled (ReplyProto pp rs) (recover_route r (ended panic))"
    using dispatchRoute_registered [where m = m and head = head and r = r and h = "request_route pq pp srv", OF assms(3), of now body] assms(5,6)
    by (cases rs) (auto simp: request_route_def ReplyProto_eq)
  note out = handleRagentFrame_request [OF assms(1), of "Some m" now nid body, unfolded d, unfolded handleInbound_response(1) [OF assms(1,2)]]
  have wire: "out_wire (response nid head c b) = (responseHead head nid)\<lparr>hdr_ErrCode := c\<rparr>" for c b
    by (simp add: response_def SendRPCFrame_def)
  have codes: "ERR_INTERNAL \<noteq> OK" by (simp add: errcode_consts)
  show ?thesis
  proof (cases rs)
    case Nil
    then show ?thesis unfolding out using assms(8) codes
      by (cases panic) (simp_all add: ReplyProto_eq ended_def recover_route_def wire delivered_response typed_answer_def)
  next
    case (Cons x xs)
    obtain rsp err where x: "x = (rsp, err)" by fastforce
    have e: "err \<noteq> NoError \<longrightarrow> CodeOf err \<noteq> OK" using assms(7) by (auto simp: Cons x)
    have "delivered pp ctx (response nid head (CodeOf (snd (reply_proto (proto_Marshal pp) rsp err))) (payload_bytes (fst (reply_proto (proto_Marshal pp) rsp err))))
        = typed_answer pp (rs, panic)"
      unfolding delivered_response [OF assms(8)] Cons x using e codes assms(4)
      by (auto simp: typed_answer_def reply_proto_def payload_bytes_def proto_law_def split: option.splits sum.splits)
    then show ?thesis unfolding out by (simp add: Cons x ReplyProto_eq wire)
  qed
qed

text \<open>The header that the engine made for its last call, and the frame of that call.\<close>

definition call_header :: "Core \<Rightarrow> Header" where
  "call_header core = fst (snd (last (rc_frames core)))"

definition call_frame :: "u32 \<Rightarrow> Target \<Rightarrow> Core \<Rightarrow> bytes \<Rightarrow> Frame" where
  "call_frame nid t core body = as_frame (SendFrame nid t (call_header core) body)"

lemma sdk_header_fits:
  "length (rh_RoutingKey h) \<le> 0xFFFF \<Longrightarrow> length (rh_Route h) \<le> 0xFFFF \<Longrightarrow> header_fits (sdk_header nid t h)"
  using length_dec_u32 [of "tg_NodeID t"] by (simp add: sdk_header_def header_fits_def Let_def)

lemma sdk_header_keeps [simp]: "hdr_SeqID (sdk_header nid t h) = rh_SeqID h" "hdr_Route (sdk_header nid t h) = rh_Route h"
  by (simp_all add: sdk_header_def Let_def)

lemma call_made:
  assumes "core1 = Call core now t route body ctx (Some cb) NoError"
  shows "rh_SeqID (call_header core1) = rc_seq core + 1" and "rh_RoutingKey (call_header core1) = tg_Key t" and "rh_Route (call_header core1) = route"
    and "rc_frames core1 = rc_frames core @ [(t, call_header core1, body)]"
    and "\<exists>f. map_of (rc_pending core1) (rc_seq core + 1) = Some f \<and> inf_onResult f = cb"
  by (auto simp: assms call_header_def Call_def call_start_def register_def Let_def)

lemma call_frame_request:
  assumes "core1 = Call core now t route body ctx (Some cb) NoError" and "rc_seq core + 1 \<noteq> 0"
  shows "call_frame nid t core1 body = rpc_frame FrameRpcRequest (sdk_header nid t (call_header core1)) body"
  using assms(2) call_made(1) [OF assms(1)] by (simp add: call_frame_def as_frame_SendFrame)

text \<open>C15: A typed call returns what the method replies. The request of a stub is encoded, framed, dispatched to the
  registered method and decoded there; if the method replies, the first response carries the number of the call and
  the callback of the stub is given the message or the code of the error of the first reply; a method that panics
  before it replies gives \<^verbatim>\<open>ERR_INTERNAL\<close>, one that does nothing is not answered and left to the timeout.\<close>

theorem typed_call_answered:
  assumes "proto_law pq" and "proto_law pp" and "proto_Marshal pq req = Inr body"
    and reg: "RegisterLobbyRemote pq pp pn New_rpc_Dispatcher (Some (test, ntf)) = Some d"
    and call: "LobbyStub_Test pq (Some core) (Some s) t0 ctx req cb NoError = (Some core1, at_once)"
    and "length (tg_Key (sb_target s)) \<le> 0xFFFF" and "rc_seq core + 1 \<noteq> 0" and "\<not> Stale ctx"
    and head: "head = sdk_header caller (sb_target s) (call_header core1)"
    and "\<forall>(rsp, err) \<in> set (fst (test (inboundCtx now head) req)). err \<noteq> NoError \<longrightarrow> CodeOf err \<noteq> OK"
  shows "at_once = None
    \<and> (case handleRagentFrame d now nid (call_frame caller (sb_target s) core1 body) of
         [] \<Rightarrow> typed_answer pp (test (inboundCtx now head) req) = None
       | out # _ \<Rightarrow> hdr_SeqID (out_wire out) = rc_seq core + 1 \<and> hdr_DestNodeID (out_wire out) = hdr_SrcNodeID head
            \<and> delivered pp ctx out = typed_answer pp (test (inboundCtx now head) req))"
proof -
  have c: "core1 = Call core t0 (sb_target s) RouteLobbyRemoteTest body ctx (Some cb) NoError" "at_once = None"
    using call assms(3) by (simp_all add: LobbyStub_Test_def typedCall_def)
  note made = call_made [OF c(1)]
  let ?m = "[RouteLobbyRemoteTest \<mapsto> RecoverRoute RouteLobbyRemoteTest (request_route pq pp test),
             RouteLobbyRemoteTestNtf \<mapsto> RecoverRoute RouteLobbyRemoteTestNtf (notify_route pn ntf)]"
  have d: "d = Some ?m" using reg by (simp add: RegisterLobbyRemote_new)
  have fits: "header_fits head" using assms(6) by (simp add: head made sdk_header_fits route_names)
  have seq: "hdr_SeqID head = rc_seq core + 1" and route: "?m (hdr_Route head) = Some (RecoverRoute RouteLobbyRemoteTest (request_route pq pp test))"
    by (simp_all add: head made route_names)
  have "proto_Unmarshal pq body = Inr req" using assms(1,3) by (simp add: proto_law_def)
  moreover obtain rs panic where "test (inboundCtx now head) req = (rs, panic)" by fastforce
  ultimately show ?thesis
    using request_route_answered [where m = ?m and r = RouteLobbyRemoteTest, OF fits _ route assms(2), of body req now rs panic ctx nid]
      call_frame_request [OF c(1) assms(7), of caller] assms(7,8,10) c(2)
    by (simp add: d seq flip: head split: list.splits)
qed

text \<open>Messages that are byte strings, and a method that replies twice and then panics.\<close>

definition plain_proto :: "bytes proto" where "plain_proto = (Inr, Inr)"

definition rev_method :: "(bytes, bytes) service_method" where
  "rev_method ctx req = ([(Some (rev req), NoError), (None, Plain ''late'')], Some ''panic'')"

theorem typed_call_answered_witness:
  "\<exists>d core1 out rest.
     RegisterLobbyRemote plain_proto plain_proto plain_proto New_rpc_Dispatcher (Some (rev_method, \<lambda>_ _. None)) = Some d
     \<and> LobbyStub_Test plain_proto (Some (New 100)) (Some (Stub_At LobbyStub 4)) 0 Background [1, 2] 7 NoError = (Some core1, None)
     \<and> handleRagentFrame d 0 4 (call_frame 3 (sb_target (Stub_At LobbyStub 4)) core1 [1, 2]) = out # rest
     \<and> delivered plain_proto Background out = Some (Some [2, 1], NoError)"
proof -
  let ?p = plain_proto and ?s = "Stub_At LobbyStub 4"
  have m: "proto_Marshal ?p x = Inr x" for x by (simp add: plain_proto_def proto_Marshal_def)
  obtain d where d: "RegisterLobbyRemote ?p ?p ?p New_rpc_Dispatcher (Some (rev_method, \<lambda>_ _. None)) = Some d"
    using RegisterLobbyRemote_new by blast
  obtain core1 where c: "LobbyStub_Test ?p (Some (New 100)) (Some ?s) 0 Background [1, 2] 7 NoError = (Some core1, None)"
    by (simp add: LobbyStub_Test_def typedCall_def m)
  have law: "proto_law ?p" by (simp add: proto_law_def plain_proto_def proto_Marshal_def proto_Unmarshal_def)
  have ans: "typed_answer ?p (rev_method cx [1, 2]) = Some (Some [2, 1], NoError)" for cx by (simp add: typed_answer_def rev_method_def m)
  have t: "\<not> Stale Background" "rc_seq (New 100) + 1 \<noteq> 0" "length (tg_Key (sb_target ?s)) \<le> 0xFFFF"
    by (simp_all add: Stale_def Background_def New_def Stub_At_def LobbyStub_def NewStub_def At_def)
  have ok: "\<forall>(rsp, err) \<in> set (fst (rev_method cx [1, 2])). err \<noteq> NoError \<longrightarrow> CodeOf err \<noteq> OK" for cx
    by (simp add: rev_method_def errcode_consts)
  show ?thesis
  proof (cases "handleRagentFrame d 0 4 (call_frame 3 (sb_target ?s) core1 [1, 2])")
    case Nil
    then show ?thesis using typed_call_answered [OF law law m d c t(3,2,1) refl ok, of 0 3 4] ans by simp
  next
    case (Cons out rest)
    then show ?thesis using typed_call_answered [OF law law m d c t(3,2,1) refl ok, of 0 3 4] ans d c by auto
  qed
qed

section \<open>Errors and the commands of the gate\<close>

text \<open>A body that does not decode and a route that nobody has registered are answered with their codes.\<close>

lemma bad_body_answered:
  assumes "header_fits head" and "hdr_SeqID head \<noteq> 0" and "m (hdr_Route head) = Some (RecoverRoute r (request_route pq pp srv))"
    and "proto_Unmarshal pq body = Inl e"
  shows "handleRagentFrame (Some m) now nid (rpc_frame FrameRpcRequest head body) = [response nid head ERR_UNMARSHAL []]"
proof -
  have "dispatchRoute (Some m) now head body = Handled [] (errcode_New ERR_UNMARSHAL e)"
    using dispatchRoute_registered [where m = m and head = head and r = r and h = "request_route pq pp srv", OF assms(3), of now body] assms(4)
    by (simp add: request_route_def recover_route_def)
  then show ?thesis
    unfolding handleRagentFrame_request [OF assms(1)] using handleInbound_response(1) [OF assms(1,2), of nid body "[]" "errcode_New ERR_UNMARSHAL e"]
    by (simp add: errcode_consts)
qed

lemma unknown_route_answered:
  assumes "header_fits head" and "hdr_SeqID head \<noteq> 0" and "m (hdr_Route head) = None"
  shows "handleRagentFrame (Some m) now nid (rpc_frame FrameRpcRequest head body) = [response nid head ERR_NO_ROUTE []]"
proof -
  have "dispatchRoute (Some m) now head body = NoRoute (errcode_New ERR_NO_ROUTE (''route not found: '' @ hdr_Route head))"
    by (simp add: dispatchRoute_def rpc_Dispatch_def assms(3))
  then show ?thesis
    unfolding handleRagentFrame_request [OF assms(1)] using handleInbound_response(2) [OF assms(1,2), of nid body "errcode_New ERR_NO_ROUTE (''route not found: '' @ hdr_Route head)"]
    by (simp add: errcode_consts)
qed

text \<open>
  Every route in the table of the gate is registered at the server that the table names, and what the
  lobby answers to a ping is the text of the request behind a prefix.
\<close>

lemma ping_answered:
  assumes "header_fits head" and "hdr_SeqID head \<noteq> 0" and "hdr_Route head = re_Route entry" and "(2054, entry) \<in> set RouteTable"
    and "RegisterLobbyHandler pq pp New_rpc_Dispatcher (Some Lobby_Ping) = Some d"
    and "proto_Unmarshal pq body = Inr req" and "proto_Marshal pp \<lparr>pr_Text = (if pq_Text req = [] then ''pong'' else ''pong:'' @ pq_Text req)\<rparr> = Inr out"
  shows "handleRagentFrame d now nid (rpc_frame FrameRpcRequest head body) = [response nid head OK out]"
proof -
  let ?m = "[RouteLobbyHandlerPing \<mapsto> RecoverRoute RouteLobbyHandlerPing (request_route pq pp Lobby_Ping)]"
  have d: "d = Some ?m" using assms(5) by (simp add: RegisterLobbyHandler_new)
  have r: "?m (hdr_Route head) = Some (RecoverRoute RouteLobbyHandlerPing (request_route pq pp Lobby_Ping))"
    using assms(3,4) by (simp add: RouteTable_def)
  have o: "proto_Marshal pp \<lparr>pr_Text = (if pq_Text req \<noteq> [] then ''pong:'' @ pq_Text req else ''pong'')\<rparr> = Inr out"
    using assms(7) by (simp split: if_splits)
  have "dispatchRoute (Some ?m) now head body = Handled [(Some out, NoError)] NoError"
    using dispatchRoute_registered [where m = ?m and head = head and r = RouteLobbyHandlerPing and h = "request_route pq pp Lobby_Ping", OF r, of now body]
    by (simp add: request_route_def assms(6) Lobby_Ping_def ReplyProto_eq reply_proto_def o recover_route_def ended_def)
  then show ?thesis
    unfolding handleRagentFrame_request [OF assms(1)] d using handleInbound_response(1) [OF assms(1,2), of nid body "[(Some out, NoError)]" NoError]
    by (simp add: payload_bytes_def)
qed

lemma ping_needs_no_login: "(cmd, entry) \<in> set RouteTable \<Longrightarrow> re_ServerType entry = serverTypeLobby \<and> re_CmdID entry = cmd \<and> AuthWhitelist cmd = Some True"
  by (auto simp: RouteTable_def AuthWhitelist_def)

text \<open>
  \<^verbatim>\<open>typedCall\<close> accepts a nil callback, but the stub of a request wraps it in a closure that calls it: a call with a nil
  callback panics when its result arrives, on success and on failure.
\<close>

lemma nil_callback_panics:
  assumes "\<not> Stale ctx"
  shows "\<exists>r. typedCall_result ctx True payload code = Some r \<and> Test_callback pp False r = None"
  using assms by (simp add: typedCall_result_def Test_callback_def)

end
