(* ===== verification/Agent_Runtime.thy ===== *)
theory Agent_Runtime
  imports Agent_Router App_Lifecycle
begin

text \<open>
  The RouterAgent as a process (\<^verbatim>\<open>agent/runtime.go\<close>, \<^verbatim>\<open>uds_server.go\<close>, \<^verbatim>\<open>tcp_server.go\<close>,
  \<^verbatim>\<open>keepalive.go\<close>, \<^verbatim>\<open>queue_stats.go\<close>): construction, start and stop, and the work of its goroutines, which
  post frames and membership events to the main loop. What sockets and the registry answer is an
  argument; the order of all steps is an event history.
\<close>

section \<open>Data\<close>

record KeepAlive =
  ka_interval :: int
  ka_timeout :: int

definition NewKeepAlive :: "int \<Rightarrow> int \<Rightarrow> KeepAlive" where
  "NewKeepAlive interval timeout =
     \<lparr>ka_interval = (if interval \<le> 0 then 5 * 10 ^ 9 else interval), ka_timeout = (if timeout \<le> 0 then 10 * 10 ^ 9 else timeout)\<rparr>"

text \<open>What a goroutine posts to the main loop.\<close>

datatype agent_task = FrameTask conn_ptr Frame | PeerTask Frame string | MemberTask member_event

text \<open>No poster, the one that \<^verbatim>\<open>Init\<close> installs then and which runs a task at once, or the queue of the main loop.\<close>

datatype poster = NoPoster | InlinePoster | QueuePoster

text \<open>Steps of \<^verbatim>\<open>AfterInit\<close> and \<^verbatim>\<open>BeforeShutdown\<close> in the order in which they are done.\<close>

datatype agent_effect = UdsListens string | LoopsStart | SelfRegisters u32 string | Discovers | TcpListens string
  | StopSignalled | RegistryCloses | UdsCloses | TcpCloses

text \<open>
  \<open>sv_tasks\<close> is what is posted and not run. The listening address is copied into the forwarder and
  the peer table; \<open>ag_listenAddr\<close> is the forwarder's copy. \<open>sv_uds\<close> and \<open>sv_tcp\<close> are \<open>None\<close> for a nil
  server, and otherwise tell whether it listens.
\<close>

record AgentServer =
  sv_agent :: Agent
  sv_poster :: poster
  sv_tasks :: "agent_task list"
  sv_ready :: Ready
  sv_nodeID :: u32
  sv_nodeIDText :: string
  sv_sockPath :: string
  sv_listenAddr :: string
  sv_keepalive :: KeepAlive
  sv_onPeerFrame :: bool
  sv_uds :: "bool option"
  sv_tcp :: "bool option"
  sv_stopped :: bool
  sv_effects :: "agent_effect list"

definition defaultSockPath :: string where "defaultSockPath = ''/run/routeragent/ra.sock''"

definition NewAgentServer :: "int \<Rightarrow> (conn_ptr \<Rightarrow> UDSConn) \<Rightarrow> (link_ptr \<Rightarrow> tcpPeerLink) \<Rightarrow> AgentServer" where
  "NewAgentServer now uds links =
     \<lparr>sv_agent = \<lparr>ag_memberTable = NewMemberTable, ag_localConns = [], ag_remoteSeq = NewRemoteSeqMap (Some 0), ag_incomingSeq = [], ag_peerMgr = NewPeerMgr,
        ag_metrics = NewMetrics, ag_uds = uds, ag_links = links, ag_dials = [], ag_now = now, ag_listenAddr = [], ag_registry = None,
        ag_waiters = Map.empty, ag_waiterSeq = 0\<rparr>,
      sv_poster = NoPoster, sv_tasks = [], sv_ready = NewReady, sv_nodeID = 0, sv_nodeIDText = [], sv_sockPath = defaultSockPath, sv_listenAddr = [],
      sv_keepalive = NewKeepAlive (5 * 10 ^ 9) (10 * 10 ^ 9), sv_onPeerFrame = True, sv_uds = None, sv_tcp = None, sv_stopped = False, sv_effects = []\<rparr>"

definition SetPoster :: "AgentServer \<Rightarrow> poster \<Rightarrow> AgentServer" where
  "SetPoster sv poster = sv\<lparr>sv_poster := poster\<rparr>"

definition SetNodeID :: "AgentServer \<Rightarrow> string \<Rightarrow> u32 \<Rightarrow> AgentServer" where
  "SetNodeID sv txt i = sv\<lparr>sv_nodeIDText := txt, sv_nodeID := i\<rparr>"

definition SetRegistry :: "AgentServer \<Rightarrow> RegistryState option \<Rightarrow> AgentServer" where
  "SetRegistry sv registry = sv\<lparr>sv_agent := (sv_agent sv)\<lparr>ag_registry := registry\<rparr>\<rparr>"

definition ApplyConfig :: "AgentServer \<Rightarrow> string \<Rightarrow> string \<Rightarrow> int \<Rightarrow> AgentServer" where
  "ApplyConfig sv sockPath listenAddr heartbeatSec =
     (let sv1 = (if sockPath \<noteq> [] then sv\<lparr>sv_sockPath := sockPath\<rparr> else sv);
          sv2 = sv1\<lparr>sv_listenAddr := listenAddr\<rparr>
      in if 0 < heartbeatSec then
           let interval = wrap_s64 (heartbeatSec * 10 ^ 9) in sv2\<lparr>sv_keepalive := NewKeepAlive interval (wrap_s64 (interval * 2))\<rparr>
         else sv2)"

section \<open>Start and stop\<close>

definition set_fwd_addr :: "AgentServer \<Rightarrow> AgentServer" where
  "set_fwd_addr sv = sv\<lparr>sv_agent := (sv_agent sv)\<lparr>ag_listenAddr := sv_listenAddr sv\<rparr>\<rparr>"

definition AgentServer_Init :: "AgentServer \<Rightarrow> AgentServer \<times> string option" where
  "AgentServer_Init sv =
     (let sv1 = (if sv_poster sv = NoPoster then sv\<lparr>sv_poster := InlinePoster\<rparr> else sv) in
      if sv_listenAddr sv1 = [] then (sv1, Some ''routeragent listen_addr is required'')
      else ((set_fwd_addr sv1)\<lparr>sv_onPeerFrame := True\<rparr>, None))"

text \<open>\<^verbatim>\<open>UDSServer.Listen\<close> and \<^verbatim>\<open>TCPServer.Listen\<close>; the argument is the answer of the system.\<close>

definition Uds_Listen :: "string \<Rightarrow> string option \<Rightarrow> string option \<Rightarrow> string option" where
  "Uds_Listen path mkdirErr listenErr =
     (if path = [] then Some ''uds path is empty'' else case mkdirErr of Some e \<Rightarrow> Some e | None \<Rightarrow> listenErr)"

definition Tcp_Listen :: "string \<Rightarrow> string option \<Rightarrow> string option" where
  "Tcp_Listen addr listenErr = (if addr = [] then Some ''tcp addr is empty'' else listenErr)"

definition agent_failed :: "AgentServer \<Rightarrow> string \<Rightarrow> AgentServer \<times> string option" where
  "agent_failed sv e = (sv\<lparr>sv_ready := Ready_Fail (sv_ready sv) e\<rparr>, Some e)"

definition agent_did :: "AgentServer \<Rightarrow> agent_effect list \<Rightarrow> AgentServer" where
  "agent_did sv es = sv\<lparr>sv_effects := sv_effects sv @ es\<rparr>"

definition start_tcp :: "AgentServer \<Rightarrow> string option \<Rightarrow> AgentServer \<times> string option" where
  "start_tcp sv tcpErr =
     (if sv_listenAddr sv \<noteq> [] then
        let sv1 = (set_fwd_addr sv)\<lparr>sv_agent := (sv_agent (set_fwd_addr sv))\<lparr>ag_peerMgr := PeerMgr_SetListenAddr (ag_peerMgr (sv_agent sv)) (sv_listenAddr sv)\<rparr>, sv_tcp := Some False\<rparr>
        in case Tcp_Listen (sv_listenAddr sv) tcpErr of
             Some e \<Rightarrow> agent_failed sv1 e
           | None \<Rightarrow> (agent_did (sv1\<lparr>sv_tcp := Some True\<rparr>) [TcpListens (sv_listenAddr sv)], None)
      else (sv, None))"

definition start_registry :: "AgentServer \<Rightarrow> string option \<Rightarrow> string option \<Rightarrow> AgentServer \<times> string option" where
  "start_registry sv registerErr discoverErr =
     (if ag_registry (sv_agent sv) = None then (sv, None)
      else
        case registerErr of
          Some e \<Rightarrow> agent_failed sv e
        | None \<Rightarrow>
            let sv1 = agent_did sv [SelfRegisters (sv_nodeID sv) (sv_listenAddr sv)] in
            (case discoverErr of Some e \<Rightarrow> agent_failed sv1 e | None \<Rightarrow> (agent_did sv1 [Discovers], None)))"

definition AgentServer_AfterInit :: "AgentServer \<Rightarrow> string option \<Rightarrow> string option \<Rightarrow> string option \<Rightarrow> string option \<Rightarrow> string option \<Rightarrow> AgentServer \<times> string option" where
  "AgentServer_AfterInit sv mkdirErr udsErr registerErr discoverErr tcpErr =
     (let sv1 = sv\<lparr>sv_uds := Some False\<rparr> in
      case Uds_Listen (sv_sockPath sv) mkdirErr udsErr of
        Some e \<Rightarrow> agent_failed sv1 e
      | None \<Rightarrow>
          (case start_registry (agent_did (sv1\<lparr>sv_uds := Some True\<rparr>) [UdsListens (sv_sockPath sv), LoopsStart]) registerErr discoverErr of
             (sv2, Some e) \<Rightarrow> (sv2, Some e)
           | (sv2, None) \<Rightarrow>
               (case start_tcp sv2 tcpErr of
                  (sv3, Some e) \<Rightarrow> (sv3, Some e)
                | (sv3, None) \<Rightarrow> (sv3\<lparr>sv_ready := Ready_Done (sv_ready sv3)\<rparr>, None))))"

definition AgentServer_WaitReady :: "AgentServer \<Rightarrow> string option \<Rightarrow> string option option" where
  "AgentServer_WaitReady sv ctxErr = WaitReady (sv_ready sv) ctxErr"

definition AgentServer_BeforeShutdown :: "AgentServer \<Rightarrow> AgentServer" where
  "AgentServer_BeforeShutdown sv =
     agent_did (sv\<lparr>sv_stopped := True, sv_uds := map_option (\<lambda>_. False) (sv_uds sv), sv_tcp := map_option (\<lambda>_. False) (sv_tcp sv)\<rparr>)
       ((if sv_stopped sv then [] else [StopSignalled])
        @ (if ag_registry (sv_agent sv) = None then [] else [RegistryCloses])
        @ (case sv_uds sv of None \<Rightarrow> [] | Some _ \<Rightarrow> [UdsCloses]) @ (case sv_tcp sv of None \<Rightarrow> [] | Some _ \<Rightarrow> [TcpCloses]))"

section \<open>The goroutines and the main loop\<close>

text \<open>A frame of a peer goes to the router if a handler is set.\<close>

definition run_agent_task :: "bool \<Rightarrow> Agent \<Rightarrow> agent_task \<Rightarrow> Agent" where
  "run_agent_task onPeerFrame a t =
     (case t of FrameTask c f \<Rightarrow> handleFrame a c f
      | PeerTask f key \<Rightarrow> if onPeerFrame then HandlePeerFrame a f key else a
      | MemberTask ev \<Rightarrow> a\<lparr>ag_memberTable := on_member_event (ag_memberTable a) ev\<rparr>)"

definition agent_post :: "AgentServer \<Rightarrow> agent_task \<Rightarrow> AgentServer" where
  "agent_post sv t =
     (if sv_poster sv = QueuePoster then sv\<lparr>sv_tasks := sv_tasks sv @ [t]\<rparr>
      else sv\<lparr>sv_agent := run_agent_task (sv_onPeerFrame sv) (sv_agent sv) t\<rparr>)"

text \<open>\<^verbatim>\<open>handleConn\<close>: one frame of a business connection, and the end of its receive loop.\<close>

definition conn_frame :: "AgentServer \<Rightarrow> conn_ptr \<Rightarrow> Frame \<Rightarrow> AgentServer" where
  "conn_frame sv c f = agent_post sv (FrameTask c f)"

definition conn_over :: "AgentServer \<Rightarrow> conn_ptr \<Rightarrow> AgentServer" where
  "conn_over sv c =
     (let a = removeConn (sv_agent sv) c in sv\<lparr>sv_agent := a\<lparr>ag_uds := (ag_uds a)(c := UDSConn_Close (ag_uds a c))\<rparr>\<rparr>)"

definition peer_frame :: "AgentServer \<Rightarrow> string \<Rightarrow> Frame \<Rightarrow> AgentServer" where
  "peer_frame sv key f = agent_post sv (PeerTask f key)"

definition run_next :: "AgentServer \<Rightarrow> AgentServer" where
  "run_next sv =
     (case sv_tasks sv of [] \<Rightarrow> sv
      | t # ts \<Rightarrow> sv\<lparr>sv_tasks := ts, sv_agent := run_agent_task (sv_onPeerFrame sv) (sv_agent sv) t\<rparr>)"

definition cleanup_tick :: "AgentServer \<Rightarrow> int \<Rightarrow> AgentServer" where
  "cleanup_tick sv now = sv\<lparr>sv_agent := cleanupIncomingPeerSeq (sv_agent sv) now\<rparr>"

text \<open>\<^verbatim>\<open>Dial\<close> of the forwarder, and its two shortcuts.\<close>

definition Fwd_Dial :: "Agent \<Rightarrow> string \<Rightarrow> dial_net \<Rightarrow> link_ptr \<Rightarrow> (nat \<Rightarrow> bool) \<Rightarrow> (nat \<Rightarrow> bool) \<Rightarrow> Agent \<times> dial_error option" where
  "Fwd_Dial a addr net pl werr race =
     (case dialConn a addr 0 net pl werr race of
        (a1, Inl e) \<Rightarrow> (a1, Some e)
      | (a1, Inr peerListenAddr) \<Rightarrow> (attach_link a1 (peerKey peerListenAddr 0) pl ''outgoing'', None))"

definition ForwardFrame :: "Agent \<Rightarrow> string \<Rightarrow> Frame \<Rightarrow> Agent \<times> agent_error option" where
  "ForwardFrame a addr f = SendOrQueue a addr 0 (plain_outbound f)"

definition Fwd_Handshake :: "Agent \<Rightarrow> string \<Rightarrow> u32 \<Rightarrow> Agent \<times> agent_error option" where
  "Fwd_Handshake a addr nodeID = SendOrQueue a addr 0 (plain_outbound \<lparr>frm_Type = FrameHandshake, frm_Header = [], frm_Body = PutUint32 nodeID\<rparr>)"


section \<open>What changes the set of local connections\<close>

lemma localConns_peers [simp]:
  "ag_localConns (link_close a lo) = ag_localConns a" "ag_localConns (dial_failed a key) = ag_localConns a" "ag_localConns (startDial a addr st) = ag_localConns a"
  "ag_localConns (fst (sendPeerOutbound a l i)) = ag_localConns a" "ag_localConns (link_ended a key l) = ag_localConns a"
  by (simp_all add: link_close_def dial_failed_def startDial_def sendPeerOutbound_def link_ended_def link_send_eq Let_def split: option.splits prod.splits)

lemma localConns_queues [simp]:
  "ag_localConns (fst (queue_outbound a addr st i)) = ag_localConns a" "ag_localConns (FlushPending a l ps) = ag_localConns a" "ag_localConns (fail_all a ps) = ag_localConns a"
proof -
  show "ag_localConns (fst (queue_outbound a addr st i)) = ag_localConns a"
    by (simp add: queue_outbound_def Let_def split: option.splits prod.splits)
  show "ag_localConns (FlushPending a l ps) = ag_localConns a" by (induction a l ps rule: FlushPending.induct) simp_all
  show "ag_localConns (fail_all a ps) = ag_localConns a" by (induction a ps rule: fail_all.induct) simp_all
qed

lemma localConns_SendOrQueue [simp]: "ag_localConns (fst (SendOrQueue a addr st i)) = ag_localConns a"
proof (cases "sendPeerOutbound a (the (fst (getLink (ag_peerMgr a) (peerKey addr st)))) i")
  case (Pair a1 e)
  then have "ag_localConns a1 = ag_localConns a" using localConns_peers(4) [of a _ i] by (metis fst_conv)
  with Pair show ?thesis by (auto simp: SendOrQueue_def split: option.splits prod.splits PeerState.splits)
qed

lemma localConns_attach [simp]:
  "ag_localConns (attach_link a key pl dir) = ag_localConns a" "ag_localConns (run_dial a addr st net pl werr race) = ag_localConns a"
  "ag_localConns (fst (HandleIncomingPeer a inp wfail pl werr race)) = ag_localConns a"
  by (simp_all add: attach_link_def run_dial_def dialConn_def HandleIncomingPeer_def Let_def split: option.splits prod.splits dial_net.splits sum.splits)

lemma localConns_forward [simp]: "ag_localConns (forward_targets a c f h s ts) = ag_localConns a"
  by (induction a c f h s ts rule: forward_targets.induct) (simp_all add: Let_def split: option.splits)

lemma localConns_router [simp]: "ag_localConns (RouteFrame a c f) = ag_localConns a" "ag_localConns (HandlePeerFrame a f key) = ag_localConns a"
proof -
  have "ag_localConns (SendResponseViaPeer a s n g) = ag_localConns a" for a s n g
    by (simp add: SendResponseViaPeer_def Let_def split: option.splits prod.splits bool.splits PeerState.splits)
  moreover have "ag_localConns (routeLegacyFrame a f) = ag_localConns a" for a
    by (simp add: routeLegacyFrame_def split: option.splits prod.splits sum.splits)
  ultimately show "ag_localConns (RouteFrame a c f) = ag_localConns a"
    by (simp add: RouteFrame_def forwardRPC_def Let_def split: option.splits prod.splits sum.splits bool.splits)
  have "ag_localConns (deliverToLocal a n f) = ag_localConns a" for a n
    by (auto simp: deliverToLocal_def uds_send_Some split: option.splits)
  then show "ag_localConns (HandlePeerFrame a f key) = ag_localConns a"
    by (simp add: HandlePeerFrame_def peer_response_def peer_request_def Let_def split: option.splits prod.splits sum.splits)
qed

lemma handleFrame_local:
  "Local_Get (ag_localConns (handleFrame a c f)) n = Some d \<Longrightarrow> d = c \<or> Local_Get (ag_localConns a) n = Some d"
  "wf_map (ag_localConns a) \<Longrightarrow> wf_map (ag_localConns (handleFrame a c f))"
  by (auto simp: handleFrame_def handleHandshake_def handleBroadcastSent_def registry_put_def Let_def split: if_splits option.splits prod.splits bool.splits)

lemma removeConn_local: "ag_localConns (removeConn a c) = fst (Local_Remove (ag_localConns a) c)"
  by (simp add: removeConn_def Let_def)

section \<open>Histories of an agent\<close>

datatype agent_event =
    ConnFrame conn_ptr Frame
  | ConnOver conn_ptr
  | PeerFrame string Frame
  | Membership member_event
  | RunNext
  | CleanupTick int
  | Dialled string u32 dial_net link_ptr "nat \<Rightarrow> bool" "nat \<Rightarrow> bool"
  | PeerArrives bytes bool link_ptr "nat \<Rightarrow> bool" "nat \<Rightarrow> bool"
  | LinkOver string link_ptr

definition on_agent :: "(Agent \<Rightarrow> Agent) \<Rightarrow> AgentServer \<Rightarrow> AgentServer" where
  "on_agent f sv = sv\<lparr>sv_agent := f (sv_agent sv)\<rparr>"

fun agent_event_step :: "AgentServer \<Rightarrow> agent_event \<Rightarrow> AgentServer" where
  "agent_event_step sv (ConnFrame c f) = conn_frame sv c f"
| "agent_event_step sv (ConnOver c) = conn_over sv c"
| "agent_event_step sv (PeerFrame key f) = peer_frame sv key f"
| "agent_event_step sv (Membership ev) = agent_post sv (MemberTask ev)"
| "agent_event_step sv RunNext = run_next sv"
| "agent_event_step sv (CleanupTick now) = cleanup_tick sv now"
| "agent_event_step sv (Dialled addr st net pl werr race) = on_agent (\<lambda>a. run_dial a addr st net pl werr race) sv"
| "agent_event_step sv (PeerArrives inp wfail pl werr race) = on_agent (\<lambda>a. fst (HandleIncomingPeer a inp wfail pl werr race)) sv"
| "agent_event_step sv (LinkOver key pl) = on_agent (\<lambda>a. link_ended a key pl) sv"

text \<open>The connections that are over, and the histories in which a connection is over only when its frames have been handled.\<close>

definition overs :: "agent_event list \<Rightarrow> conn_ptr set" where
  "overs evs = {c. ConnOver c \<in> set evs}"

fun drained :: "AgentServer \<Rightarrow> conn_ptr set \<Rightarrow> agent_event list \<Rightarrow> bool" where
  "drained sv over [] = True"
| "drained sv over (ev # evs) =
     ((case ev of ConnFrame c f \<Rightarrow> c \<notin> over | ConnOver c \<Rightarrow> (\<forall>f. FrameTask c f \<notin> set (sv_tasks sv)) | _ \<Rightarrow> True)
      \<and> drained (agent_event_step sv ev) (case ev of ConnOver c \<Rightarrow> insert c over | _ \<Rightarrow> over) evs)"

definition conns_ok :: "AgentServer \<Rightarrow> conn_ptr set \<Rightarrow> bool" where
  "conns_ok sv over \<longleftrightarrow> wf_map (ag_localConns (sv_agent sv)) \<and> (\<forall>n c. Local_Get (ag_localConns (sv_agent sv)) n = Some c \<longrightarrow> c \<notin> over)
     \<and> (\<forall>c f. FrameTask c f \<in> set (sv_tasks sv) \<longrightarrow> c \<notin> over)"

lemma conns_ok_task:
  assumes "conns_ok sv over" and "\<forall>c f. t = FrameTask c f \<longrightarrow> c \<notin> over"
  shows "conns_ok (sv\<lparr>sv_agent := run_agent_task b (sv_agent sv) t\<rparr>) over"
proof (cases t)
  case (FrameTask c f)
  with assms handleFrame_local [of "sv_agent sv" c f] show ?thesis by (fastforce simp: conns_ok_def run_agent_task_def)
qed (use assms in \<open>auto simp: conns_ok_def run_agent_task_def\<close>)

lemma conns_ok_run: "conns_ok sv over \<Longrightarrow> conns_ok (run_next sv) over"
proof (cases "sv_tasks sv")
  case (Cons t ts)
  assume ok: "conns_ok sv over"
  with Cons have "conns_ok (sv\<lparr>sv_tasks := ts\<rparr>) over" "\<forall>c f. t = FrameTask c f \<longrightarrow> c \<notin> over" by (auto simp: conns_ok_def)
  from conns_ok_task [OF this, of "sv_onPeerFrame sv"] Cons show ?thesis by (simp add: run_next_def)
qed (simp add: run_next_def)

lemma conns_ok_post:
  assumes "conns_ok sv over" and "\<forall>c f. t = FrameTask c f \<longrightarrow> c \<notin> over"
  shows "conns_ok (agent_post sv t) over"
  using assms conns_ok_task [OF assms] by (auto simp: agent_post_def conns_ok_def)

lemma conns_ok_over:
  assumes "conns_ok sv over" and "\<forall>f. FrameTask c f \<notin> set (sv_tasks sv)"
  shows "conns_ok (conn_over sv c) (insert c over)"
  using assms by (auto simp: conns_ok_def conn_over_def removeConn_local Local_Get_Remove Let_def split: if_splits)

lemma conns_ok_step:
  assumes "conns_ok sv over" and "drained sv over (ev # evs)"
  shows "conns_ok (agent_event_step sv ev) (case ev of ConnOver c \<Rightarrow> insert c over | _ \<Rightarrow> over)"
proof (cases ev)
  case RunNext then show ?thesis using conns_ok_run [OF assms(1)] by simp
next
  case (ConnOver c) then show ?thesis using conns_ok_over [OF assms(1), of c] assms(2) by simp
next
  case (ConnFrame c f) then show ?thesis using conns_ok_post [OF assms(1), of "FrameTask c f"] assms(2) by (simp add: conn_frame_def)
next
  case (PeerFrame key f) then show ?thesis using conns_ok_post [OF assms(1), of "PeerTask f key"] by (simp add: peer_frame_def)
next
  case (Membership e) then show ?thesis using conns_ok_post [OF assms(1), of "MemberTask e"] by simp
qed (use assms in \<open>auto simp: conns_ok_def cleanup_tick_def cleanupIncomingPeerSeq_def on_agent_def\<close>)

lemma conns_ok_history:
  "conns_ok sv over \<Longrightarrow> drained sv over evs \<Longrightarrow> conns_ok (foldl agent_event_step sv evs) (over \<union> overs evs)"
proof (induction evs arbitrary: sv over)
  case (Cons ev evs)
  let ?over = "case ev of ConnOver c \<Rightarrow> insert c over | _ \<Rightarrow> over"
  have "?over \<union> overs evs = over \<union> overs (ev # evs)" by (auto simp: overs_def split: agent_event.splits)
  then show ?case using Cons.IH [OF conns_ok_step [OF Cons.prems]] Cons.prems(2) by simp
qed (simp add: overs_def)

text \<open>C34: An agent routes to living business processes only: in every history of frames, membership events,
  dials, links and disconnects in which a connection is over only when its queued frames have been
  handled, no node is bound to a connection that is over, in whatever order processes come, go and
  come back under the same node.\<close>

theorem closed_conns_unrouted:
  assumes "drained (SetPoster (NewAgentServer now uds links) p) {} evs"
    and "Local_Get (ag_localConns (sv_agent (foldl agent_event_step (SetPoster (NewAgentServer now uds links) p) evs))) n = Some c"
  shows "ConnOver c \<notin> set evs"
proof -
  have "conns_ok (SetPoster (NewAgentServer now uds links) p) {}" by (simp add: conns_ok_def SetPoster_def NewAgentServer_def Local_Get_def)
  from conns_ok_history [OF this assms(1)] assms(2) show ?thesis by (auto simp: conns_ok_def overs_def)
qed

text \<open>The frame with which node \<open>i\<close> introduces itself.\<close>

definition hello :: "u32 \<Rightarrow> Frame" where
  "hello i = \<lparr>frm_Type = FrameHandshake, frm_Header = [], frm_Body = PutUint32 i\<rparr>"

lemma hello_handled:
  "ag_registry a = None \<Longrightarrow> ag_localConns (handleFrame a c (hello i)) = Register (ag_localConns a) i c \<and> ag_registry (handleFrame a c (hello i)) = None"
  by (simp add: handleFrame_def hello_def handleHandshake_def registry_put_def Let_def uds_send_Some)

text \<open>Node 7 reconnects on connection 2 before connection 1 is over.\<close>

theorem closed_conns_unrouted_witness:
  "let sv0 = SetPoster (NewAgentServer 0 (\<lambda>_. NewUDSConn) (\<lambda>_. new_link [] (\<lambda>_. False) (\<lambda>_. True))) QueuePoster;
       evs = [ConnFrame 1 (hello 7), RunNext, ConnFrame 2 (hello 7), RunNext, ConnOver 1]
   in Local_Get (ag_localConns (sv_agent (foldl agent_event_step sv0 evs))) 7 = Some 2 \<and> ConnOver 2 \<notin> set evs"
proof -
  let ?sv0 = "SetPoster (NewAgentServer 0 (\<lambda>_. NewUDSConn) (\<lambda>_. new_link [] (\<lambda>_. False) (\<lambda>_. True))) QueuePoster"
  let ?evs = "[ConnFrame 1 (hello 7), RunNext, ConnFrame 2 (hello 7), RunNext, ConnOver 1]"
  note ev = conn_frame_def agent_post_def run_next_def run_agent_task_def conn_over_def hello_handled removeConn_local
  have new: "sv_tasks ?sv0 = []" "ag_registry (sv_agent ?sv0) = None" "ag_localConns (sv_agent ?sv0) = []" "sv_poster ?sv0 = QueuePoster"
    by (simp_all add: NewAgentServer_def SetPoster_def)
  have "Local_Get (ag_localConns (sv_agent (foldl agent_event_step ?sv0 ?evs))) 7 = Some 2"
    by (simp add: ev new Let_def Local_Get_Remove Register_def Local_Get_def Local_Remove_def mput_def mdel_def)
  moreover have "drained ?sv0 {} ?evs" by (simp add: ev new Let_def)
  ultimately show ?thesis using closed_conns_unrouted [of 0 "\<lambda>_. NewUDSConn" "\<lambda>_. new_link [] (\<lambda>_. False) (\<lambda>_. True)" QueuePoster ?evs 7 2] by (simp add: Let_def)
qed

text \<open>
  The end of a connection is handled at once and its frames are handled later by the main loop: a
  handshake that waits there binds the node to the closed connection, and nothing removes it.
\<close>

lemma late_handshake_strands_node:
  assumes "sv_poster sv = QueuePoster" and "sv_tasks sv = []" and "ag_registry (sv_agent sv) = None" and "wf_map (ag_localConns (sv_agent sv))"
  shows "Local_Get (ag_localConns (sv_agent (foldl agent_event_step sv [ConnFrame c (hello i), ConnOver c, RunNext]))) i = Some c"
proof -
  let ?a = "removeConn (sv_agent sv) c"
  have "ag_registry (forget_nodes a ns) = None" if "ag_registry a = None" for a ns
    using that by (induction a ns rule: forget_nodes.induct) (simp_all add: registry_delete_def)
  then have "ag_registry ?a = None" using assms(3) by (simp add: removeConn_def Let_def count_metric_def)
  then show ?thesis using assms by (simp add: conn_frame_def agent_post_def conn_over_def run_next_def run_agent_task_def hello_handled Let_def)
qed

section \<open>Starting an agent\<close>

lemma ready_results: "WaitReady (Ready_Fail NewReady e) c = Some (Some e)" "WaitReady (Ready_Done NewReady) c = Some None"
  by (simp_all add: WaitReady_def Ready_Fail_def Ready_Done_def NewReady_def)

text \<open>
  What a start consists of: its steps in order, each with its outcome and what it does if it
  succeeds. The first failure ends the start.
\<close>

type_synonym start_step = "string option \<times> agent_effect list"

definition start_steps :: "AgentServer \<Rightarrow> string option \<Rightarrow> string option \<Rightarrow> string option \<Rightarrow> string option \<Rightarrow> string option \<Rightarrow> start_step list" where
  "start_steps sv mk u r d t =
     [(if sv_sockPath sv = [] then Some ''uds path is empty'' else None, []), (mk, []), (u, [UdsListens (sv_sockPath sv), LoopsStart])]
     @ (if ag_registry (sv_agent sv) \<noteq> None then [(r, [SelfRegisters (sv_nodeID sv) (sv_listenAddr sv)]), (d, [Discovers])] else [])
     @ (if sv_listenAddr sv \<noteq> [] then [(t, [TcpListens (sv_listenAddr sv)])] else [])"

definition steps_done :: "start_step list \<Rightarrow> agent_effect list" where
  "steps_done steps = concat (map snd (takeWhile (\<lambda>s. fst s = None) steps))"

definition first_error :: "start_step list \<Rightarrow> string option" where
  "first_error steps = (case dropWhile (\<lambda>s. fst s = None) steps of [] \<Rightarrow> None | s # _ \<Rightarrow> fst s)"

lemma steps_simps [simp]:
  "steps_done [] = []" "steps_done ((None, es) # steps) = es @ steps_done steps" "steps_done ((Some x, es) # steps) = []"
  "first_error [] = None" "first_error ((None, es) # steps) = first_error steps" "first_error ((Some x, es) # steps) = Some x"
  by (simp_all add: steps_done_def first_error_def)

definition registry_steps :: "AgentServer \<Rightarrow> string option \<Rightarrow> string option \<Rightarrow> start_step list" where
  "registry_steps sv r d =
     (if ag_registry (sv_agent sv) \<noteq> None then [(r, [SelfRegisters (sv_nodeID sv) (sv_listenAddr sv)]), (d, [Discovers])] else [])"

definition tcp_steps :: "AgentServer \<Rightarrow> string option \<Rightarrow> start_step list" where
  "tcp_steps sv t = (if sv_listenAddr sv \<noteq> [] then [(t, [TcpListens (sv_listenAddr sv)])] else [])"

lemma steps_append:
  "first_error (xs @ ys) = (case first_error xs of None \<Rightarrow> first_error ys | Some x \<Rightarrow> Some x)"
  "steps_done (xs @ ys) = steps_done xs @ (if first_error xs = None then steps_done ys else [])"
proof (induction xs)
  case (Cons x xs)
  obtain out es where x: "x = (out, es)" by (cases x)
  { case 1 show ?case using Cons by (cases out) (simp_all add: x) }
  { case 2 show ?case using Cons by (cases out) (simp_all add: x) }
qed simp_all

text \<open>The two parts of a start after the socket, in terms of their steps.\<close>

lemma start_registry_steps:
  assumes "start_registry sv r d = (sv', e)"
  shows "e = first_error (registry_steps sv r d) \<and> sv_effects sv' = sv_effects sv @ steps_done (registry_steps sv r d)
    \<and> sv_ready sv' = (case e of None \<Rightarrow> sv_ready sv | Some x \<Rightarrow> Ready_Fail (sv_ready sv) x) \<and> sv_listenAddr sv' = sv_listenAddr sv"
  using assms by (cases r; cases d; auto simp: start_registry_def registry_steps_def agent_failed_def agent_did_def Let_def split: if_splits)

lemma start_tcp_steps:
  assumes "start_tcp sv t = (sv', e)"
  shows "e = first_error (tcp_steps sv t) \<and> sv_effects sv' = sv_effects sv @ steps_done (tcp_steps sv t)
    \<and> sv_ready sv' = (case e of None \<Rightarrow> sv_ready sv | Some x \<Rightarrow> Ready_Fail (sv_ready sv) x)"
  using assms by (cases t; auto simp: start_tcp_def tcp_steps_def Tcp_Listen_def set_fwd_addr_def agent_failed_def agent_did_def Let_def split: if_splits)

lemma AfterInit_cases:
  "Uds_Listen (sv_sockPath sv) mk u = Some x \<Longrightarrow> AgentServer_AfterInit sv mk u r d t
     = (sv\<lparr>sv_uds := Some False, sv_ready := Ready_Fail (sv_ready sv) x\<rparr>, Some x)"
  "Uds_Listen (sv_sockPath sv) mk u = None \<Longrightarrow> start_registry (agent_did (sv\<lparr>sv_uds := Some True\<rparr>) [UdsListens (sv_sockPath sv), LoopsStart]) r d = (sv2, e2)
     \<Longrightarrow> start_tcp sv2 t = (sv3, e3) \<Longrightarrow> AgentServer_AfterInit sv mk u r d t
     = (if e2 \<noteq> None then (sv2, e2) else if e3 \<noteq> None then (sv3, e3) else (sv3\<lparr>sv_ready := Ready_Done (sv_ready sv3)\<rparr>, None))"
  by (auto simp: AgentServer_AfterInit_def agent_failed_def Let_def split: option.splits)

text \<open>C35: An agent that starts reports exactly what happened. The steps of a start are the socket, the
  registration and the discovery if there is a registry, and the listener if there is an address.
  Waiting for readiness gives the error of the first step that failed, whatever the later outcomes
  would have been, and no error exactly if every step succeeded; and exactly the steps before the
  first failed one have been done, in this order.\<close>

theorem agent_start_reported:
  assumes "sv_ready sv = NewReady" and "sv_effects sv = []" and "AgentServer_AfterInit sv mk u r d t = (sv', e)"
  shows "e = first_error (start_steps sv mk u r d t) \<and> AgentServer_WaitReady sv' ctxErr = Some e
    \<and> sv_effects sv' = steps_done (start_steps sv mk u r d t)"
proof -
  define uds where "uds = [(if sv_sockPath sv = [] then Some ''uds path is empty'' else None, []), (mk, []), (u, [UdsListens (sv_sockPath sv), LoopsStart])]"
  have st: "start_steps sv mk u r d t = uds @ registry_steps sv r d @ tcp_steps sv t"
    by (simp add: start_steps_def registry_steps_def tcp_steps_def uds_def)
  have uds: "Uds_Listen (sv_sockPath sv) mk u = first_error uds"
    "steps_done uds = (if first_error uds = None then [UdsListens (sv_sockPath sv), LoopsStart] else [])"
    by (cases "sv_sockPath sv = []"; cases mk; cases u; simp add: uds_def Uds_Listen_def)+
  show ?thesis
  proof (cases "first_error uds")
    case (Some x)
    then have "Uds_Listen (sv_sockPath sv) mk u = Some x" using uds(1) by simp
    from AfterInit_cases(1) [OF this, of r d t] assms(3)
    have "sv' = sv\<lparr>sv_uds := Some False, sv_ready := Ready_Fail (sv_ready sv) x\<rparr>" "e = Some x" by simp_all
    moreover have "first_error (start_steps sv mk u r d t) = Some x" "steps_done (start_steps sv mk u r d t) = []"
      unfolding st steps_append(1) [of uds] steps_append(2) [of uds] using Some uds(2) by simp_all
    ultimately show ?thesis using assms(1,2) by (simp add: AgentServer_WaitReady_def ready_results)
  next
    case None
    then have un: "Uds_Listen (sv_sockPath sv) mk u = None" using uds(1) by simp
    define sv1 where "sv1 = agent_did (sv\<lparr>sv_uds := Some True\<rparr>) [UdsListens (sv_sockPath sv), LoopsStart]"
    obtain sv2 e2 where r2: "start_registry sv1 r d = (sv2, e2)" by fastforce
    obtain sv3 e3 where r3: "start_tcp sv2 t = (sv3, e3)" by fastforce
    have "registry_steps sv1 r d = registry_steps sv r d" by (simp add: sv1_def registry_steps_def agent_did_def)
    note R = start_registry_steps [OF r2, unfolded this]
    have eff1: "sv_effects sv1 = [UdsListens (sv_sockPath sv), LoopsStart]" "sv_ready sv1 = NewReady" "sv_listenAddr sv1 = sv_listenAddr sv"
      using assms(1,2) by (simp_all add: sv1_def agent_did_def)
    have "tcp_steps sv2 t = tcp_steps sv t" using R eff1(3) by (simp add: tcp_steps_def)
    note T = start_tcp_steps [OF r3, unfolded this]
    have all: "first_error (start_steps sv mk u r d t) = (case e2 of None \<Rightarrow> e3 | Some x \<Rightarrow> Some x)"
      "steps_done (start_steps sv mk u r d t) = [UdsListens (sv_sockPath sv), LoopsStart] @ steps_done (registry_steps sv r d)
         @ (if e2 = None then steps_done (tcp_steps sv t) else [])"
      unfolding st steps_append(1) [of uds] steps_append(2) [of uds] steps_append [of "registry_steps sv r d"] using None uds(2) R T by (simp_all split: option.split)
    from AfterInit_cases(2) [OF un r2 [unfolded sv1_def] r3] assms(3)
    have res: "(sv', e) = (if e2 \<noteq> None then (sv2, e2) else if e3 \<noteq> None then (sv3, e3) else (sv3\<lparr>sv_ready := Ready_Done (sv_ready sv3)\<rparr>, None))" by simp
    consider x where "e2 = Some x" | x where "e2 = None" "e3 = Some x" | "e2 = None" "e3 = None" by (cases e2; cases e3) simp_all
    then show ?thesis by cases (use res R T eff1 all in \<open>simp_all add: AgentServer_WaitReady_def ready_results\<close>)
  qed
qed

text \<open>An agent whose start succeeds, and one whose discovery and listener both fail.\<close>

theorem agent_start_reported_witness:
  "let sv = fst (AgentServer_Init (ApplyConfig (SetRegistry (SetNodeID (NewAgentServer 0 (\<lambda>_. NewUDSConn) (\<lambda>_. new_link [] (\<lambda>_. False) (\<lambda>_. True))) ''1.7.1'' 67329)
         (Some \<lparr>rg_calls = [], rg_putErr = (\<lambda>_. False)\<rparr>)) [] ''ra1:9000'' 0));
       started = AgentServer_AfterInit sv None None None None None;
       failed = AgentServer_AfterInit sv None None None (Some ''down'') (Some ''in use'')
   in AgentServer_WaitReady (fst started) None = Some None
      \<and> sv_effects (fst started) = [UdsListens defaultSockPath, LoopsStart, SelfRegisters 67329 ''ra1:9000'', Discovers, TcpListens ''ra1:9000'']
      \<and> AgentServer_WaitReady (fst failed) None = Some (Some ''down'')
      \<and> sv_effects (fst failed) = [UdsListens defaultSockPath, LoopsStart, SelfRegisters 67329 ''ra1:9000'']"
proof -
  let ?in = "fst (AgentServer_Init (ApplyConfig (SetRegistry (SetNodeID (NewAgentServer 0 (\<lambda>_. NewUDSConn) (\<lambda>_. new_link [] (\<lambda>_. False) (\<lambda>_. True))) ''1.7.1'' 67329)
         (Some \<lparr>rg_calls = [], rg_putErr = (\<lambda>_. False)\<rparr>)) [] ''ra1:9000'' 0))"
  note defs = AgentServer_Init_def ApplyConfig_def SetRegistry_def SetNodeID_def NewAgentServer_def set_fwd_addr_def Let_def
  have sv: "sv_ready ?in = NewReady" "sv_effects ?in = []" "sv_sockPath ?in = defaultSockPath" "sv_listenAddr ?in = ''ra1:9000''" "sv_nodeID ?in = 67329"
    "ag_registry (sv_agent ?in) \<noteq> None" "defaultSockPath \<noteq> []" by (simp_all add: defs) (simp add: defaultSockPath_def)
  obtain s1 e1 s2 e2 where r: "AgentServer_AfterInit ?in None None None None None = (s1, e1)"
    "AgentServer_AfterInit ?in None None None (Some ''down'') (Some ''in use'') = (s2, e2)" by fastforce
  from agent_start_reported [OF sv(1,2) r(1), of None] agent_start_reported [OF sv(1,2) r(2), of None] r show ?thesis
    unfolding Let_def start_steps_def using sv(3-7) by simp
qed

text \<open>
  The node is in the registry before its listener is open, and stays there if the listener cannot be
  opened.
\<close>

lemma registered_without_listener:
  assumes "AgentServer_AfterInit sv None None None None (Some e) = (sv', err)" and "sv_sockPath sv \<noteq> []" and "sv_listenAddr sv \<noteq> []"
    and "ag_registry (sv_agent sv) \<noteq> None"
  shows "err = Some e \<and> SelfRegisters (sv_nodeID sv) (sv_listenAddr sv) \<in> set (sv_effects sv') \<and> sv_tcp sv' = Some False"
  using assms by (auto simp: AgentServer_AfterInit_def Uds_Listen_def start_registry_def start_tcp_def Tcp_Listen_def agent_did_def agent_failed_def set_fwd_addr_def Let_def)

section \<open>Accept loops\<close>

text \<open>
  \<^verbatim>\<open>Serve\<close> of both servers: an error of \<^verbatim>\<open>Accept\<close> ends the loop after the stop signal and is ignored
  before; every connection is handed to a handler goroutine, or closed when there is no handler.
\<close>

datatype 'c accept = AcceptErr bool | Accepted 'c

fun serve_loop :: "bool \<Rightarrow> 'c accept list \<Rightarrow> 'c list \<times> 'c list" where
  "serve_loop handler [] = ([], [])"
| "serve_loop handler (AcceptErr stopped # rs) = (if stopped then ([], []) else serve_loop handler rs)"
| "serve_loop handler (Accepted c # rs) =
     (case serve_loop handler rs of (hs, cs) \<Rightarrow> if handler then (c # hs, cs) else (hs, c # cs))"

definition Serve :: "bool \<Rightarrow> bool \<Rightarrow> 'c accept list \<Rightarrow> 'c list \<times> 'c list" where
  "Serve listening handler rs = (if listening then serve_loop handler rs else ([], []))"

definition Tcp_Serve :: "bool \<Rightarrow> bool \<Rightarrow> 'c accept list \<Rightarrow> 'c list \<times> 'c list" where
  "Tcp_Serve listening handler rs = (if listening then serve_loop handler rs else ([], []))"

lemma serve_all: "AcceptErr True \<notin> set rs \<Longrightarrow> serve_loop True rs = (concat (map (\<lambda>r. case r of Accepted c \<Rightarrow> [c] | AcceptErr _ \<Rightarrow> []) rs), [])"
  by (induction rs rule: list.induct) (auto split: accept.splits)

section \<open>Statistics\<close>

definition sanitizeMetricKey :: "string \<Rightarrow> string" where
  "sanitizeMetricKey s =
     (let b = foldl (\<lambda>b r. b @ [if metric_char r then r else CHR ''_'']) [] s in if b = [] then ''unknown'' else b)"

text \<open>The counters that the code never changes are constantly zero.\<close>

definition Metrics_Snapshot :: "Metrics \<Rightarrow> int \<Rightarrow> (string, int) gomap" where
  "Metrics_Snapshot m remoteSeqPending =
     [(''peer_connect_total'', mt_PeerConnectTotal m), (''peer_connect_fail_total'', mt_PeerConnectFailTotal m),
      (''peer_disconnect_total'', mt_PeerDisconnectTotal m), (''forward_total'', mt_ForwardTotal m), (''remote_seq_timeout'', 0),
      (''late_response'', mt_LateResponse m), (''unknown_seq'', 0), (''peer_disconnect_drop'', 0), (''route_miss'', mt_RouteMiss m),
      (''remote_seq_pending'', remoteSeqPending), (''waiter_count'', 0)]"

definition peer_metrics :: "(link_ptr \<Rightarrow> tcpPeerLink) \<Rightarrow> (string, int) gomap \<Rightarrow> PeerInfo \<Rightarrow> (string, int) gomap" where
  "peer_metrics links out peer =
     (case pi_Link peer of
        None \<Rightarrow> out
      | Some l \<Rightarrow>
          let key = ''peer_'' @ sanitizeMetricKey (pi_Addr peer); link = links l in
          foldl (\<lambda>m (k, v). mput (key @ k) v m) out
            [(''_send_len'', int (length (tl_sendCh link))), (''_send_cap'', int sendChCap), (''_send_max'', tl_maxSendLen link),
             (''_prio_len'', int (length (tl_prioSendCh link))), (''_prio_cap'', int prioSendChCap), (''_prio_max'', tl_maxPrioLen link)])"

definition MetricsSnapshot :: "Agent \<Rightarrow> (string, int) gomap" where
  "MetricsSnapshot a =
     (let out = mput ''remote_seq_pending_current'' (PendingLen (ag_remoteSeq a))
                  (mput ''incoming_peer_seq'' (int (Incoming_Len (ag_incomingSeq a))) (Metrics_Snapshot (ag_metrics a) (PendingLen (ag_remoteSeq a))))
      in foldl (peer_metrics (ag_links a)) out (PeerMgr_List (ag_peerMgr a)))"

text \<open>The peers that are logged, and whether the line on the state of the agent is.\<close>

definition logQueueStatsIfActive :: "Agent \<Rightarrow> string list \<times> bool" where
  "logQueueStatsIfActive a =
     (let active = filter (\<lambda>p. case pi_Link p of None \<Rightarrow> False | Some l \<Rightarrow> tl_sendCh (ag_links a l) \<noteq> [] \<or> tl_prioSendCh (ag_links a l) \<noteq> []) (PeerMgr_List (ag_peerMgr a))
      in (map pi_Addr active, active \<noteq> [] \<or> Incoming_Len (ag_incomingSeq a) \<noteq> 0 \<or> PendingLen (ag_remoteSeq a) \<noteq> 0))"

text \<open>Two peers whose addresses differ in punctuation only share their metrics.\<close>

lemma metric_keys_collide: "sanitizeMetricKey ''10.0.0.1:9000'' = sanitizeMetricKey ''10_0.0.1:9000''"
  by code_simp

end
