(* ===== verification/Server_Modules.thy ===== *)
theory Server_Modules
  imports Sdk_Conn Acceptors App_Lifecycle Config_Gen Lobby_Stores Lobby_Loop Online_Directory Rpc_Stubs Agent_Runtime
begin

text \<open>
  The modules of the servers (\<^verbatim>\<open>internal/server/*/module.go\<close>): what they build when they are initialised,
  start and stop, with every resource that they hold. The answers of the system to each step are
  arguments. \<open>Executables\<close> runs them inside the application.
\<close>

section \<open>What a module may hold\<close>

text \<open>Connections, listeners and goroutines that live until the module is stopped.\<close>

datatype resource = AgentSocket nat | TcpListener | WsListener | MongoConnection | LobbyLoop | WheelLoop | ScanLoop | UdsListener

text \<open>The engine with its timeout scan, which \<^verbatim>\<open>New\<close> starts and \<^verbatim>\<open>Close\<close> stops.\<close>

record CoreRun =
  cr_core :: Core
  cr_scanning :: bool

definition New_Core :: CoreRun where
  "New_Core = \<lparr>cr_core = New (3 * 10 ^ 9), cr_scanning = True\<rparr>"

definition Core_Close :: "CoreRun \<Rightarrow> CoreRun" where
  "Core_Close c = c\<lparr>cr_scanning := False\<rparr>"

definition scan_tick :: "CoreRun \<Rightarrow> int \<Rightarrow> CoreRun" where
  "scan_tick c now = (if cr_scanning c then c\<lparr>cr_core := scanExpired (cr_core c) now\<rparr> else c)"

text \<open>The answers of the system while a module starts: the database, the agent, the listeners.\<close>

record start_env =
  se_dial :: "string option"
  se_ping :: "string option"
  se_agent :: dial_outcome
  se_tcp :: "string option"
  se_ws :: "string option"
  se_tasks :: "lobby_event list"

section \<open>Gate\<close>

datatype any_acceptor = TCPAcc acceptor | WSAcc acceptor

record GateModule =
  gm_ready :: Ready
  gm_sessions :: "SessionManager option"
  gm_dispatcher :: "Gate Dispatcher option"
  gm_rpcCore :: "CoreRun option"
  gm_client :: "ClientConn option"
  gm_cfg :: "Gate_Config option"
  gm_stopped :: bool
  gm_acceptors :: "any_acceptor list"

definition NewGateModule :: GateModule where
  "NewGateModule = \<lparr>gm_ready = NewReady, gm_sessions = None, gm_dispatcher = None, gm_rpcCore = None, gm_client = None,
     gm_cfg = None, gm_stopped = False, gm_acceptors = []\<rparr>"

text \<open>The checks at the begin of every \<^verbatim>\<open>Init\<close>: the entry, its content, and whether the application can post.\<close>

definition init_checks :: "string \<Rightarrow> ('c, 'l) LobbyConfigs \<Rightarrow> bool \<Rightarrow> string + 'l" where
  "init_checks name st poster =
     (if lc_lobby st = None then Inl (name @ '' config entry is nil'')
      else case LobbyConfig st of
        None \<Rightarrow> Inl (name @ '' config is nil'')
      | Some cfg \<Rightarrow> if \<not> poster then Inl (name @ '' app does not implement poster'') else Inr cfg)"

definition ST_GATESVR :: u32 where "ST_GATESVR = 1"

definition Gate_Init :: "(Common_Config, Gate_Config) LobbyConfigs \<Rightarrow> bool \<Rightarrow> u32 \<Rightarrow> string \<Rightarrow> GateModule \<Rightarrow> GateModule \<times> string option" where
  "Gate_Init st poster nodeID stack m =
     (case init_checks ''gate'' st poster of
        Inl e \<Rightarrow> (m\<lparr>gm_cfg := LobbyConfig st\<rparr>, Some e)
      | Inr cfg \<Rightarrow>
          (m\<lparr>gm_cfg := Some cfg, gm_sessions := Some NewSessionManager,
             gm_dispatcher := Some (gate_dispatcher ST_GATESVR stack AuthWhitelist RouteTable),
             gm_client := Some (NewClient nodeID (ga_RouteragentSockPath cfg)), gm_rpcCore := Some New_Core\<rparr>, None))"

definition acceptor_Listen :: "string option \<Rightarrow> any_acceptor \<Rightarrow> any_acceptor \<times> string option" where
  "acceptor_Listen r acc =
     (case acc of TCPAcc a \<Rightarrow> map_prod TCPAcc id (TCP_Listen r a) | WSAcc a \<Rightarrow> map_prod WSAcc id (WS_Listen r a))"

definition acceptor_Close :: "any_acceptor \<Rightarrow> any_acceptor" where
  "acceptor_Close acc = (case acc of TCPAcc a \<Rightarrow> TCPAcc (fst (TCP_Close None a)) | WSAcc a \<Rightarrow> WSAcc (fst (WS_Close a)))"

definition startAcceptor :: "string option \<Rightarrow> any_acceptor \<Rightarrow> GateModule \<Rightarrow> GateModule \<times> string option" where
  "startAcceptor r acc m =
     (case acceptor_Listen r acc of
        (acc1, Some e) \<Rightarrow> (m, Some e)
      | (acc1, None) \<Rightarrow> (m\<lparr>gm_acceptors := gm_acceptors m @ [acc1]\<rparr>, None))"

text \<open>One configured listener: an empty address is skipped, an error fails the start.\<close>

definition gate_listens :: "string \<Rightarrow> string option \<Rightarrow> any_acceptor \<Rightarrow> GateModule \<Rightarrow> GateModule \<times> string option" where
  "gate_listens addr r acc m =
     (if addr = [] then (m, None)
      else case startAcceptor r acc m of
        (m1, Some e) \<Rightarrow> (m1\<lparr>gm_ready := Ready_Fail (gm_ready m1) e\<rparr>, Some e)
      | (m1, None) \<Rightarrow> (m1, None))"

definition Gate_AfterInit :: "start_env \<Rightarrow> GateModule \<Rightarrow> GateModule \<times> string option" where
  "Gate_AfterInit env m =
     (let cfg = the (gm_cfg m) in
      case Client_Connect (se_agent env) (the (gm_client m)) of
        (c, Some e) \<Rightarrow> (m\<lparr>gm_client := Some c, gm_ready := Ready_Fail (gm_ready m) e\<rparr>, Some e)
      | (c, None) \<Rightarrow>
          (case gate_listens (ga_ListenTcp cfg) (se_tcp env) (TCPAcc (NewTCPAcceptor (ga_ListenTcp cfg))) (m\<lparr>gm_client := Some c\<rparr>) of
             (m1, Some e) \<Rightarrow> (m1, Some e)
           | (m1, None) \<Rightarrow>
               (case gate_listens (ga_ListenWs cfg) (se_ws env) (WSAcc (NewWSAcceptor (ga_ListenWs cfg) ''/'')) m1 of
                  (m2, Some e) \<Rightarrow> (m2, Some e)
                | (m2, None) \<Rightarrow> (m2\<lparr>gm_ready := Ready_Done (gm_ready m2)\<rparr>, None))))"

definition Gate_BeforeShutdown :: "GateModule \<Rightarrow> GateModule" where
  "Gate_BeforeShutdown m =
     m\<lparr>gm_stopped := True, gm_acceptors := map acceptor_Close (gm_acceptors m),
       gm_rpcCore := map_option Core_Close (gm_rpcCore m), gm_client := map_option (\<lambda>c. fst (Client_Close None c)) (gm_client m)\<rparr>"

text \<open>
  The listener of a WebSocket acceptor is closed by a goroutine that \<^verbatim>\<open>Close\<close> wakes up; it counts as held until
  then.
\<close>

fun acceptor_held :: "any_acceptor \<Rightarrow> resource set" where
  "acceptor_held (TCPAcc a) = (if ac_ln a then {TcpListener} else {})"
| "acceptor_held (WSAcc a) = (if ac_ln a \<and> \<not> ac_done a then {WsListener} else {})"

definition client_held :: "ClientConn option \<Rightarrow> resource set" where
  "client_held c = (case c of None \<Rightarrow> {} | Some c \<Rightarrow> AgentSocket ` ck_open c)"

text \<open>
  What the gate module itself holds and has to release. Accepted client connections belong to their own loops (theory \<open>Gate\<close>),
  which end with the connection, and a connection that waits in the channel of an acceptor to nobody yet (theory \<open>Acceptors\<close>);
  stopping the module closes neither, and they are not counted here.
\<close>

definition gate_held :: "GateModule \<Rightarrow> resource set" where
  "gate_held m = client_held (gm_client m) \<union> (\<Union>acc \<in> set (gm_acceptors m). acceptor_held acc)
     \<union> (case gm_rpcCore m of Some c \<Rightarrow> if cr_scanning c then {ScanLoop} else {} | None \<Rightarrow> {})"

text \<open>
  What happens while the gate runs: its connection to the agent, the timeout scan, and its acceptors, which accept and
  hand over connections without changing whether they listen.
\<close>

datatype gate_work = GateClient client_event | GateAccepts nat acceptor | GateScans int

definition accepts :: "acceptor \<Rightarrow> acceptor \<Rightarrow> acceptor" where
  "accepts a b = (if ac_ln b = ac_ln a \<and> ac_done b = ac_done a then b else a)"

fun gate_runs :: "GateModule \<Rightarrow> gate_work \<Rightarrow> GateModule" where
  "gate_runs m (GateClient ev) = m\<lparr>gm_client := map_option (\<lambda>c. client_step c ev) (gm_client m)\<rparr>"
| "gate_runs m (GateAccepts i b) =
     (if i < length (gm_acceptors m)
      then m\<lparr>gm_acceptors := (gm_acceptors m)[i := (case gm_acceptors m ! i of TCPAcc a \<Rightarrow> TCPAcc (accepts a b) | WSAcc a \<Rightarrow> WSAcc (accepts a b))]\<rparr>
      else m)"
| "gate_runs m (GateScans now) = m\<lparr>gm_rpcCore := map_option (\<lambda>c. scan_tick c now) (gm_rpcCore m)\<rparr>"

section \<open>Lobby\<close>

text \<open>The runtime before \<^verbatim>\<open>Start\<close>, with its loop, and after the loop has ended.\<close>

datatype runtime_phase = Idle Runtime | Looping Loop | Ended Runtime

definition phase_Start :: "runtime_phase \<Rightarrow> runtime_phase" where
  "phase_Start p = (case p of Idle rt \<Rightarrow> Looping (Runtime_Start rt) | _ \<Rightarrow> p)"

text \<open>\<^verbatim>\<open>Stop\<close> waits for the end of the loop; \<open>None\<close> is that it waits for ever, for a loop that was never started.\<close>

definition phase_Stop :: "lobby_event list \<Rightarrow> runtime_phase \<Rightarrow> runtime_phase option" where
  "phase_Stop tasks p = (case p of Idle rt \<Rightarrow> None | Looping lp \<Rightarrow> Some (Ended (Runtime_Stop lp tasks)) | Ended rt \<Rightarrow> Some p)"

record LobbyModule =
  lm_ready :: Ready
  lm_cfg :: "Lobby_Config option"
  lm_client :: "ClientConn option"
  lm_runtime :: "runtime_phase option"
  lm_mongoClient :: "MongoClient option"
  lm_rpcDispatcher :: route_table
  lm_stopOnce :: bool

definition NewLobbyModule :: LobbyModule where
  "NewLobbyModule = \<lparr>lm_ready = NewReady, lm_cfg = None, lm_client = None, lm_runtime = None, lm_mongoClient = None, lm_rpcDispatcher = None, lm_stopOnce = False\<rparr>"

definition newRuntime :: "string \<Rightarrow> Runtime" where
  "newRuntime nodeID = NewRuntime \<lparr>rc_NodeID = nodeID, rc_Store = True, rc_MailStore = True, rc_OfflineStore = True, rc_QueueSize = 0, rc_Tick = 0, rc_FlushInterval = 0\<rparr>"

text \<open>The registration of the handler on a new dispatcher cannot panic (\<open>RegisterLobbyHandler_new\<close>).\<close>

definition Lobby_Init ::
  "CS_Ping_Req proto \<Rightarrow> SC_Pong_Rsp proto \<Rightarrow> (Common_Config, Lobby_Config) LobbyConfigs \<Rightarrow> bool \<Rightarrow> string \<Rightarrow> u32 \<Rightarrow> start_env \<Rightarrow> LobbyModule \<Rightarrow> LobbyModule \<times> string option" where
  "Lobby_Init pq pp st poster nodeName nodeID env m =
     (case init_checks ''lobby'' st poster of
        Inl e \<Rightarrow> (m\<lparr>lm_cfg := LobbyConfig st\<rparr>, Some e)
      | Inr cfg \<Rightarrow>
          (case CommonConfig st of
             None \<Rightarrow> (m\<lparr>lm_cfg := Some cfg\<rparr>, Some ''common config is nil'')
           | Some common \<Rightarrow>
               (case Mongo_Connect (se_dial env) (se_ping env) (mg_Database (co_Mongo common)) of
                  Inl e \<Rightarrow> (m\<lparr>lm_cfg := Some cfg\<rparr>, Some (''connect mongo: '' @ e))
                | Inr mc \<Rightarrow>
                    (m\<lparr>lm_cfg := Some cfg, lm_mongoClient := Some mc, lm_runtime := Some (Idle (newRuntime nodeName)),
                       lm_rpcDispatcher := the (RegisterLobbyHandler pq pp New_rpc_Dispatcher (Some Lobby_Ping)),
                       lm_client := Some (NewClient nodeID (lo_RouteragentSockPath cfg))\<rparr>, None))))"

definition close_mongo :: "LobbyModule \<Rightarrow> LobbyModule" where
  "close_mongo m = m\<lparr>lm_mongoClient := map_option (\<lambda>c. fst (Mongo_Close c None)) (lm_mongoClient m)\<rparr>"

text \<open>The runtime is stopped before the database is closed; \<open>None\<close> is that the call never returns.\<close>

definition stop_runtime :: "lobby_event list \<Rightarrow> LobbyModule \<Rightarrow> LobbyModule option" where
  "stop_runtime tasks m =
     (case lm_runtime m of
        None \<Rightarrow> Some m
      | Some p \<Rightarrow> (case phase_Stop tasks p of None \<Rightarrow> None | Some p1 \<Rightarrow> Some (m\<lparr>lm_runtime := Some p1\<rparr>)))"

definition Lobby_AfterInit :: "start_env \<Rightarrow> LobbyModule \<Rightarrow> (LobbyModule \<times> string option) option" where
  "Lobby_AfterInit env m =
     (let m1 = m\<lparr>lm_runtime := map_option phase_Start (lm_runtime m)\<rparr> in
      case Client_Connect (se_agent env) (the (lm_client m1)) of
        (c, Some e) \<Rightarrow>
          map_option (\<lambda>m2. (close_mongo m2, Some e))
            (stop_runtime (se_tasks env) (m1\<lparr>lm_client := Some c, lm_ready := Ready_Fail (lm_ready m1) e\<rparr>))
      | (c, None) \<Rightarrow> Some (m1\<lparr>lm_client := Some c, lm_ready := Ready_Done (lm_ready m1)\<rparr>, None))"

definition Lobby_BeforeShutdown :: "lobby_event list \<Rightarrow> LobbyModule \<Rightarrow> LobbyModule option" where
  "Lobby_BeforeShutdown tasks m =
     (if lm_stopOnce m then Some m
      else map_option close_mongo
        (stop_runtime tasks (m\<lparr>lm_stopOnce := True, lm_client := map_option (\<lambda>c. fst (Client_Close None c)) (lm_client m)\<rparr>)))"

fun phase_held :: "runtime_phase \<Rightarrow> resource set" where
  "phase_held (Looping lp) = {LobbyLoop}"
| "phase_held _ = {}"

definition lobby_held :: "LobbyModule \<Rightarrow> resource set" where
  "lobby_held m = client_held (lm_client m) \<union> (case lm_runtime m of Some p \<Rightarrow> phase_held p | None \<Rightarrow> {})
     \<union> (case lm_mongoClient m of Some c \<Rightarrow> if mc_cancelled c then {} else {MongoConnection} | None \<Rightarrow> {})"

datatype lobby_work = LobbyClient client_event | LobbyRuns loop_event

fun lobby_runs :: "LobbyModule \<Rightarrow> lobby_work \<Rightarrow> LobbyModule" where
  "lobby_runs m (LobbyClient ev) = m\<lparr>lm_client := map_option (\<lambda>c. client_step c ev) (lm_client m)\<rparr>"
| "lobby_runs m (LobbyRuns ev) =
     m\<lparr>lm_runtime := map_option (\<lambda>p. case p of Looping lp \<Rightarrow> Looping (loop_step lp ev) | _ \<Rightarrow> p) (lm_runtime m)\<rparr>"

section \<open>Online, match and room\<close>

text \<open>The goroutines that drive a wheel, one for each call of \<^verbatim>\<open>Start\<close>; \<^verbatim>\<open>Close\<close> ends them all and may come first.\<close>

record WheelRun =
  wr_loops :: nat
  wr_closed :: bool

definition Wheel_Start :: "WheelRun \<Rightarrow> WheelRun" where "Wheel_Start w = w\<lparr>wr_loops := Suc (wr_loops w)\<rparr>"
definition Wheel_Close :: "WheelRun \<Rightarrow> WheelRun" where "Wheel_Close w = w\<lparr>wr_closed := True\<rparr>"

record OnlineModule =
  om_ready :: Ready
  om_cfg :: "Online_Config option"
  om_client :: "ClientConn option"
  om_tw :: "WheelRun option"
  om_dir :: "Directory option"
  om_stopOnce :: bool

definition NewOnlineModule :: OnlineModule where
  "NewOnlineModule = \<lparr>om_ready = NewReady, om_cfg = None, om_client = None, om_tw = None, om_dir = None, om_stopOnce = False\<rparr>"

definition Online_Init :: "(Common_Config, Online_Config) LobbyConfigs \<Rightarrow> bool \<Rightarrow> u32 \<Rightarrow> OnlineModule \<Rightarrow> OnlineModule \<times> string option" where
  "Online_Init st poster nodeID m =
     (case init_checks ''online'' st poster of
        Inl e \<Rightarrow> (m\<lparr>om_cfg := LobbyConfig st\<rparr>, Some e)
      | Inr cfg \<Rightarrow>
          (m\<lparr>om_cfg := Some cfg, om_client := Some (NewClient nodeID (on_RouteragentSockPath cfg)),
             om_tw := Some \<lparr>wr_loops = 0, wr_closed = False\<rparr>,
             om_dir := Some (NewDirectory (NewTimeWheel (100 * 10 ^ 6) 512) (30 * 10 ^ 9))\<rparr>, None))"

definition Online_AfterInit :: "start_env \<Rightarrow> OnlineModule \<Rightarrow> OnlineModule \<times> string option" where
  "Online_AfterInit env m =
     (case Client_Connect (se_agent env) (the (om_client m)) of
        (c, Some e) \<Rightarrow> (m\<lparr>om_client := Some c, om_ready := Ready_Fail (om_ready m) e\<rparr>, Some e)
      | (c, None) \<Rightarrow> (m\<lparr>om_client := Some c, om_tw := map_option Wheel_Start (om_tw m), om_ready := Ready_Done (om_ready m)\<rparr>, None))"

definition Online_BeforeShutdown :: "OnlineModule \<Rightarrow> OnlineModule" where
  "Online_BeforeShutdown m =
     (if om_stopOnce m then m
      else m\<lparr>om_stopOnce := True, om_client := map_option (\<lambda>c. fst (Client_Close None c)) (om_client m), om_tw := map_option Wheel_Close (om_tw m)\<rparr>)"

definition online_held :: "OnlineModule \<Rightarrow> resource set" where
  "online_held m = client_held (om_client m) \<union> (case om_tw m of Some w \<Rightarrow> if 0 < wr_loops w \<and> \<not> wr_closed w then {WheelLoop} else {} | None \<Rightarrow> {})"

datatype online_work = OnlineClient client_event | OnlineDirectory dir_op

fun online_runs :: "OnlineModule \<Rightarrow> online_work \<Rightarrow> OnlineModule" where
  "online_runs m (OnlineClient ev) = m\<lparr>om_client := map_option (\<lambda>c. client_step c ev) (om_client m)\<rparr>"
| "online_runs m (OnlineDirectory op) = m\<lparr>om_dir := map_option (\<lambda>d. dir_step d op) (om_dir m)\<rparr>"

text \<open>The modules of the match and room servers are the same up to names; they have no handlers yet.\<close>

record 'c ClientModule =
  cm_ready :: Ready
  cm_cfg :: "'c option"
  cm_client :: "ClientConn option"
  cm_stopOnce :: bool

definition NewClientModule :: "'c ClientModule" where
  "NewClientModule = \<lparr>cm_ready = NewReady, cm_cfg = None, cm_client = None, cm_stopOnce = False\<rparr>"

definition client_Init :: "string \<Rightarrow> ('c \<Rightarrow> string) \<Rightarrow> ('k, 'c) LobbyConfigs \<Rightarrow> bool \<Rightarrow> u32 \<Rightarrow> 'c ClientModule \<Rightarrow> 'c ClientModule \<times> string option" where
  "client_Init name sock st poster nodeID m =
     (case init_checks name st poster of
        Inl e \<Rightarrow> (m\<lparr>cm_cfg := LobbyConfig st\<rparr>, Some e)
      | Inr cfg \<Rightarrow> (m\<lparr>cm_cfg := Some cfg, cm_client := Some (NewClient nodeID (sock cfg))\<rparr>, None))"

definition Match_Init :: "(Common_Config, Match_Config) LobbyConfigs \<Rightarrow> bool \<Rightarrow> u32 \<Rightarrow> Match_Config ClientModule \<Rightarrow> Match_Config ClientModule \<times> string option" where
  "Match_Init = client_Init ''match'' mt_RouteragentSockPath"

definition Room_Init :: "(Common_Config, Room_Config) LobbyConfigs \<Rightarrow> bool \<Rightarrow> u32 \<Rightarrow> Room_Config ClientModule \<Rightarrow> Room_Config ClientModule \<times> string option" where
  "Room_Init = client_Init ''room'' ro_RouteragentSockPath"

definition client_AfterInit :: "start_env \<Rightarrow> 'c ClientModule \<Rightarrow> 'c ClientModule \<times> string option" where
  "client_AfterInit env m =
     (case Client_Connect (se_agent env) (the (cm_client m)) of
        (c, Some e) \<Rightarrow> (m\<lparr>cm_client := Some c, cm_ready := Ready_Fail (cm_ready m) e\<rparr>, Some e)
      | (c, None) \<Rightarrow> (m\<lparr>cm_client := Some c, cm_ready := Ready_Done (cm_ready m)\<rparr>, None))"

definition client_BeforeShutdown :: "'c ClientModule \<Rightarrow> 'c ClientModule" where
  "client_BeforeShutdown m =
     (if cm_stopOnce m then m else m\<lparr>cm_stopOnce := True, cm_client := map_option (\<lambda>c. fst (Client_Close None c)) (cm_client m)\<rparr>)"

definition Match_AfterInit :: "start_env \<Rightarrow> Match_Config ClientModule \<Rightarrow> Match_Config ClientModule \<times> string option" where
  [simp]: "Match_AfterInit = client_AfterInit"

definition Room_AfterInit :: "start_env \<Rightarrow> Room_Config ClientModule \<Rightarrow> Room_Config ClientModule \<times> string option" where
  [simp]: "Room_AfterInit = client_AfterInit"

definition Match_BeforeShutdown :: "Match_Config ClientModule \<Rightarrow> Match_Config ClientModule" where
  [simp]: "Match_BeforeShutdown = client_BeforeShutdown"

definition Room_BeforeShutdown :: "Room_Config ClientModule \<Rightarrow> Room_Config ClientModule" where
  [simp]: "Room_BeforeShutdown = client_BeforeShutdown"

definition client_runs :: "'c ClientModule \<Rightarrow> client_event \<Rightarrow> 'c ClientModule" where
  "client_runs m ev = m\<lparr>cm_client := map_option (\<lambda>c. client_step c ev) (cm_client m)\<rparr>"

section \<open>RouterAgent\<close>

text \<open>The adapter of the agent; a nil runtime is \<open>None\<close>.\<close>

definition Routeragent_Init :: "bool \<Rightarrow> string \<Rightarrow> u32 \<Rightarrow> AgentServer option \<Rightarrow> AgentServer option \<times> string option" where
  "Routeragent_Init poster nodeName nodeID rt =
     (case rt of
        None \<Rightarrow> (None, Some ''routeragent runtime is nil'')
      | Some sv \<Rightarrow>
          let sv1 = (if poster then SetPoster sv QueuePoster else sv)
          in (case AgentServer_Init (SetNodeID sv1 nodeName nodeID) of (sv2, r) \<Rightarrow> (Some sv2, r)))"

definition Routeragent_AfterInit ::
  "AgentServer option \<Rightarrow> string option \<Rightarrow> string option \<Rightarrow> string option \<Rightarrow> string option \<Rightarrow> string option \<Rightarrow> AgentServer option \<times> string option" where
  "Routeragent_AfterInit rt mkdirErr udsErr registerErr discoverErr tcpErr =
     (case rt of
        None \<Rightarrow> (None, Some ''routeragent runtime is nil'')
      | Some sv \<Rightarrow> (case AgentServer_AfterInit sv mkdirErr udsErr registerErr discoverErr tcpErr of (sv1, r) \<Rightarrow> (Some sv1, r)))"

definition Routeragent_WaitReady :: "AgentServer option \<Rightarrow> string option \<Rightarrow> string option option" where
  "Routeragent_WaitReady rt ctxErr =
     (case rt of None \<Rightarrow> Some (Some ''routeragent runtime is nil'') | Some sv \<Rightarrow> AgentServer_WaitReady sv ctxErr)"

definition Routeragent_BeforeShutdown :: "AgentServer option \<Rightarrow> AgentServer option" where
  "Routeragent_BeforeShutdown rt = map_option AgentServer_BeforeShutdown rt"

section \<open>The contract of a module\<close>

text \<open>
  What the application relies on: a start ends and its outcome is what is reported to those who wait, work does not
  change that, and a stop ends, releases everything and has no effect when it is repeated.
\<close>

locale server_module =
  fixes afterInit :: "start_env \<Rightarrow> 'm \<Rightarrow> ('m \<times> string option) option"
    and runs :: "'m \<Rightarrow> 'w \<Rightarrow> 'm"
    and beforeShutdown :: "lobby_event list \<Rightarrow> 'm \<Rightarrow> 'm option"
    and ready :: "'m \<Rightarrow> Ready"
    and held :: "'m \<Rightarrow> resource set"
    and initialised :: "'m \<Rightarrow> bool"
    and started :: "'m \<Rightarrow> bool"
  assumes starts: "initialised m \<Longrightarrow> \<exists>m' r. afterInit env m = Some (m', r) \<and> started m' \<and> ready m' = \<lparr>rd_closed = True, rd_err = r\<rparr>"
    and keeps: "started m \<Longrightarrow> started (runs m w) \<and> ready (runs m w) = ready m"
    and stops: "started m \<Longrightarrow> \<exists>m'. beforeShutdown tasks m = Some m' \<and> held m' = {} \<and> ready m' = ready m \<and> (\<forall>tasks'. beforeShutdown tasks' m' = Some m')"
begin

lemma keeps_all: "started m \<Longrightarrow> started (foldl runs m ws) \<and> ready (foldl runs m ws) = ready m"
  by (induction ws arbitrary: m) (simp_all add: keeps)

lemma lifecycle:
  assumes "initialised m"
  shows "\<exists>m1 r m2. afterInit env m = Some (m1, r) \<and> WaitReady (ready m1) ctxErr = Some r
    \<and> beforeShutdown tasks (foldl runs m1 ws) = Some m2 \<and> held m2 = {} \<and> WaitReady (ready m2) ctxErr = Some r
    \<and> beforeShutdown tasks' m2 = Some m2"
proof -
  obtain m1 r where m1: "afterInit env m = Some (m1, r)" "started m1" "ready m1 = \<lparr>rd_closed = True, rd_err = r\<rparr>"
    using starts [OF assms] by blast
  note m2 = keeps_all [OF m1(2), of ws]
  obtain m3 where m3: "beforeShutdown tasks (foldl runs m1 ws) = Some m3" "held m3 = {}" "ready m3 = ready m1" "\<forall>t. beforeShutdown t m3 = Some m3"
    using stops [of "foldl runs m1 ws" tasks] m2 by auto
  show ?thesis
    by (rule exI [of _ m1], rule exI [of _ r], rule exI [of _ m3]) (use m1 m3 in \<open>simp add: WaitReady_def\<close>)
qed

end

section \<open>The modules keep it\<close>

definition client_ok :: "ClientConn option \<Rightarrow> bool" where
  "client_ok c = (case c of None \<Rightarrow> True | Some c \<Rightarrow> conn_inv c)"

definition fresh_client :: "ClientConn option \<Rightarrow> bool" where
  "fresh_client c = (case c of None \<Rightarrow> False | Some c \<Rightarrow> unused c)"

lemma link_close: "client_ok c \<Longrightarrow> client_held (map_option (\<lambda>c. fst (Client_Close e c)) c) = {}"
  by (cases c) (simp_all add: client_ok_def client_held_def Close_inv)

lemma link_step: "client_ok c \<Longrightarrow> client_ok (map_option (\<lambda>c. client_step c ev) c)"
  by (cases c) (simp_all add: client_ok_def client_step_inv)

lemma link_connect: "fresh_client c \<Longrightarrow> Client_Connect net (the c) = (c', r) \<Longrightarrow> client_ok (Some c')"
  using Connect_inv by (auto simp: fresh_client_def client_ok_def split: option.splits)

lemma link_close_again [simp]:
  "map_option (\<lambda>c. fst (Client_Close e c)) (map_option (\<lambda>c. fst (Client_Close e' c)) c) = map_option (\<lambda>c. fst (Client_Close e' c)) c"
  by (cases c) simp_all

lemma ready_new [simp]:
  "Ready_Done NewReady = \<lparr>rd_closed = True, rd_err = None\<rparr>" "Ready_Fail NewReady e = \<lparr>rd_closed = True, rd_err = Some e\<rparr>"
  by (simp_all add: Ready_Done_def Ready_Fail_def NewReady_def)

definition gate_initialised :: "GateModule \<Rightarrow> bool" where
  "gate_initialised m \<longleftrightarrow> gm_ready m = NewReady \<and> fresh_client (gm_client m) \<and> gm_acceptors m = []"

fun acceptor_ok :: "any_acceptor \<Rightarrow> bool" where
  "acceptor_ok (TCPAcc a) \<longleftrightarrow> \<not> (ac_done a \<and> ac_ln a)"
| "acceptor_ok (WSAcc a) \<longleftrightarrow> True"

definition gate_started :: "GateModule \<Rightarrow> bool" where
  "gate_started m \<longleftrightarrow> client_ok (gm_client m) \<and> list_all acceptor_ok (gm_acceptors m)"

lemma acceptor_closed: "acceptor_ok acc \<Longrightarrow> acceptor_held (acceptor_Close acc) = {} \<and> acceptor_Close (acceptor_Close acc) = acceptor_Close acc"
  by (cases acc) (auto simp: acceptor_Close_def TCP_Close_def WS_Close_def)

lemma gate_listens_new:
  assumes "gate_listens addr r acc m = (m', e)" and "acc = TCPAcc (NewTCPAcceptor a) \<or> acc = WSAcc (NewWSAcceptor a p)"
  shows "gm_client m' = gm_client m \<and> (list_all acceptor_ok (gm_acceptors m) \<longrightarrow> list_all acceptor_ok (gm_acceptors m'))
    \<and> gm_ready m' = (case e of None \<Rightarrow> gm_ready m | Some x \<Rightarrow> Ready_Fail (gm_ready m) x)"
  using assms
  by (auto simp: gate_listens_def startAcceptor_def acceptor_Listen_def TCP_Listen_def WS_Listen_def listen_once_def NewTCPAcceptor_def
      split: if_splits prod.splits option.splits)

lemma gate_starts:
  assumes "gate_initialised m" and "Gate_AfterInit env m = (m', r)"
  shows "gate_started m' \<and> gm_ready m' = \<lparr>rd_closed = True, rd_err = r\<rparr>"
proof -
  let ?cfg = "the (gm_cfg m)"
  obtain c e where c: "Client_Connect (se_agent env) (the (gm_client m)) = (c, e)" by fastforce
  have i: "gm_ready m = NewReady" "gm_acceptors m = []" "client_ok (Some c)" using assms(1) link_connect [OF _ c] by (simp_all add: gate_initialised_def)
  obtain m1 e1 where m1: "gate_listens (ga_ListenTcp ?cfg) (se_tcp env) (TCPAcc (NewTCPAcceptor (ga_ListenTcp ?cfg))) (m\<lparr>gm_client := Some c\<rparr>) = (m1, e1)" by fastforce
  obtain m2 e2 where m2: "gate_listens (ga_ListenWs ?cfg) (se_ws env) (WSAcc (NewWSAcceptor (ga_ListenWs ?cfg) ''/'')) m1 = (m2, e2)" by fastforce
  have g1: "gm_client m1 = Some c" "list_all acceptor_ok (gm_acceptors m1)" "gm_ready m1 = (case e1 of None \<Rightarrow> NewReady | Some x \<Rightarrow> Ready_Fail NewReady x)"
    using gate_listens_new [OF m1, OF disjI1 [OF refl]] i by (cases e1; simp)+
  have g2: "gm_client m2 = Some c" "list_all acceptor_ok (gm_acceptors m2)" "gm_ready m2 = (case e2 of None \<Rightarrow> gm_ready m1 | Some x \<Rightarrow> Ready_Fail (gm_ready m1) x)"
    using gate_listens_new [OF m2, OF disjI2 [OF refl]] g1 by simp_all
  show ?thesis
  proof (cases e)
    case (Some x)
    then show ?thesis using assms(2) i by (auto simp: Gate_AfterInit_def c gate_started_def)
  next
    case None
    then show ?thesis using assms(2) i g1 g2
      by (cases e1; cases e2) (auto simp: Gate_AfterInit_def c m1 m2 gate_started_def)
  qed
qed

lemma gate_keeps: "gate_started m \<Longrightarrow> gate_started (gate_runs m w) \<and> gm_ready (gate_runs m w) = gm_ready m"
proof (cases w)
  case (GateAccepts i b)
  assume s: "gate_started m"
  show ?thesis
  proof (cases "i < length (gm_acceptors m)")
    case True
    then have "acceptor_ok (gm_acceptors m ! i)" using s by (simp add: gate_started_def list_all_length)
    then have "acceptor_ok (case gm_acceptors m ! i of TCPAcc a \<Rightarrow> TCPAcc (accepts a b) | WSAcc a \<Rightarrow> WSAcc (accepts a b))"
      by (auto simp: accepts_def split: any_acceptor.splits)
    with s True show ?thesis by (auto simp: GateAccepts gate_started_def list_all_iff dest: set_update_subset_insert [THEN subsetD])
  qed (use s in \<open>simp add: GateAccepts\<close>)
qed (simp_all add: gate_started_def link_step)

lemma gate_stops:
  assumes "gate_started m"
  shows "gate_held (Gate_BeforeShutdown m) = {} \<and> gm_ready (Gate_BeforeShutdown m) = gm_ready m
    \<and> Gate_BeforeShutdown (Gate_BeforeShutdown m) = Gate_BeforeShutdown m"
proof -
  have "\<forall>acc \<in> set (gm_acceptors m). acceptor_held (acceptor_Close acc) = {} \<and> acceptor_Close (acceptor_Close acc) = acceptor_Close acc"
    using assms acceptor_closed by (auto simp: gate_started_def list_all_iff)
  moreover have "client_ok (gm_client m)" using assms by (simp add: gate_started_def)
  ultimately show ?thesis
    by (auto simp: Gate_BeforeShutdown_def gate_held_def link_close Core_Close_def option.map_comp comp_def split: option.splits intro!: GateModule.equality)
qed

interpretation gate_md: server_module "\<lambda>env m. Some (Gate_AfterInit env m)" gate_runs "\<lambda>_ m. Some (Gate_BeforeShutdown m)" gm_ready gate_held gate_initialised gate_started
proof
  fix m and env :: start_env assume "gate_initialised m"
  then show "\<exists>m' r. Some (Gate_AfterInit env m) = Some (m', r) \<and> gate_started m' \<and> gm_ready m' = \<lparr>rd_closed = True, rd_err = r\<rparr>"
    using gate_starts by (cases "Gate_AfterInit env m") auto
qed (use gate_keeps gate_stops in auto)

definition lobby_initialised :: "LobbyModule \<Rightarrow> bool" where
  "lobby_initialised m \<longleftrightarrow> lm_ready m = NewReady \<and> fresh_client (lm_client m) \<and> \<not> lm_stopOnce m"

definition runtime_runs :: "runtime_phase option \<Rightarrow> bool" where
  "runtime_runs p = (case p of Some (Idle rt) \<Rightarrow> False | _ \<Rightarrow> True)"

definition lobby_started :: "LobbyModule \<Rightarrow> bool" where
  "lobby_started m \<longleftrightarrow> client_ok (lm_client m) \<and> runtime_runs (lm_runtime m) \<and> \<not> lm_stopOnce m"

lemma runtime_started [simp]: "runtime_runs (map_option phase_Start p)"
  by (auto simp: runtime_runs_def phase_Start_def split: option.splits runtime_phase.splits)

lemma stop_runtime_ends:
  assumes "runtime_runs (lm_runtime m)"
  obtains p where "stop_runtime tasks m = Some (m\<lparr>lm_runtime := p\<rparr>)" and "(case p of Some q \<Rightarrow> phase_held q | None \<Rightarrow> {}) = {}" and "runtime_runs p"
proof (cases "lm_runtime m")
  case None
  then have "m\<lparr>lm_runtime := None\<rparr> = m" by (intro LobbyModule.equality) simp_all
  with None that [of None] show ?thesis by (simp add: stop_runtime_def runtime_runs_def)
next
  case (Some q)
  then show ?thesis using assms that [of "phase_Stop tasks q"]
    by (cases q) (auto simp: stop_runtime_def phase_Stop_def runtime_runs_def)
qed

lemma lobby_starts:
  assumes "lobby_initialised m"
  shows "\<exists>m' r. Lobby_AfterInit env m = Some (m', r) \<and> lobby_started m' \<and> lm_ready m' = \<lparr>rd_closed = True, rd_err = r\<rparr>"
proof -
  obtain c e where c: "Client_Connect (se_agent env) (the (lm_client m)) = (c, e)" by fastforce
  have i: "lm_ready m = NewReady" "\<not> lm_stopOnce m" "client_ok (Some c)" using assms link_connect [OF _ c] by (simp_all add: lobby_initialised_def)
  show ?thesis
  proof (cases e)
    case None
    with i c show ?thesis by (simp add: Lobby_AfterInit_def lobby_started_def)
  next
    case (Some x)
    let ?m1 = "m\<lparr>lm_runtime := map_option phase_Start (lm_runtime m), lm_client := Some c, lm_ready := Ready_Fail NewReady x\<rparr>"
    obtain p where "stop_runtime (se_tasks env) ?m1 = Some (?m1\<lparr>lm_runtime := p\<rparr>)" "runtime_runs p"
      by (rule stop_runtime_ends [of ?m1 "se_tasks env"]) simp_all
    with i c Some show ?thesis by (simp add: Lobby_AfterInit_def lobby_started_def close_mongo_def)
  qed
qed

lemma lobby_keeps: "lobby_started m \<Longrightarrow> lobby_started (lobby_runs m w) \<and> lm_ready (lobby_runs m w) = lm_ready m"
  by (cases w) (auto simp: lobby_started_def link_step runtime_runs_def split: option.splits runtime_phase.splits)

lemma lobby_stops:
  assumes "lobby_started m"
  shows "\<exists>m'. Lobby_BeforeShutdown tasks m = Some m' \<and> lobby_held m' = {} \<and> lm_ready m' = lm_ready m \<and> (\<forall>tasks'. Lobby_BeforeShutdown tasks' m' = Some m')"
proof -
  let ?m1 = "m\<lparr>lm_stopOnce := True, lm_client := map_option (\<lambda>c. fst (Client_Close None c)) (lm_client m)\<rparr>"
  have s: "client_ok (lm_client m)" "runtime_runs (lm_runtime ?m1)" "\<not> lm_stopOnce m" using assms by (simp_all add: lobby_started_def)
  obtain p where p: "stop_runtime tasks ?m1 = Some (?m1\<lparr>lm_runtime := p\<rparr>)" "(case p of Some q \<Rightarrow> phase_held q | None \<Rightarrow> {}) = {}"
    by (rule stop_runtime_ends [OF s(2)])
  have "client_held (lm_client ?m1) = {}" using link_close [OF s(1)] by simp
  with p s(3) show ?thesis
    by (auto simp: Lobby_BeforeShutdown_def close_mongo_def lobby_held_def Mongo_Close_def split: option.splits)
qed

interpretation lobby_md: server_module Lobby_AfterInit lobby_runs Lobby_BeforeShutdown lm_ready lobby_held lobby_initialised lobby_started
  by unfold_locales (use lobby_starts lobby_keeps lobby_stops in auto)

definition online_initialised :: "OnlineModule \<Rightarrow> bool" where
  "online_initialised m \<longleftrightarrow> om_ready m = NewReady \<and> fresh_client (om_client m) \<and> \<not> om_stopOnce m"

definition online_started :: "OnlineModule \<Rightarrow> bool" where
  "online_started m \<longleftrightarrow> client_ok (om_client m) \<and> \<not> om_stopOnce m"

interpretation online_md: server_module "\<lambda>env m. Some (Online_AfterInit env m)" online_runs "\<lambda>_ m. Some (Online_BeforeShutdown m)" om_ready online_held online_initialised online_started
proof
  fix m and env :: start_env assume i: "online_initialised m"
  obtain c e where c: "Client_Connect (se_agent env) (the (om_client m)) = (c, e)" by fastforce
  have "client_ok (Some c)" using i link_connect [OF _ c] by (simp add: online_initialised_def)
  with i c show "\<exists>m' r. Some (Online_AfterInit env m) = Some (m', r) \<and> online_started m' \<and> om_ready m' = \<lparr>rd_closed = True, rd_err = r\<rparr>"
    by (cases e) (simp_all add: Online_AfterInit_def online_initialised_def online_started_def)
next
  fix m w assume "online_started m"
  then show "online_started (online_runs m w) \<and> om_ready (online_runs m w) = om_ready m"
    by (cases w) (simp_all add: online_started_def link_step)
next
  fix m and tasks :: "lobby_event list" assume "online_started m"
  then show "\<exists>m'. Some (Online_BeforeShutdown m) = Some m' \<and> online_held m' = {} \<and> om_ready m' = om_ready m \<and> (\<forall>tasks'. Some (Online_BeforeShutdown m') = Some m')"
    by (auto simp: Online_BeforeShutdown_def online_started_def online_held_def link_close Wheel_Close_def split: option.splits)
qed

definition client_initialised :: "'c ClientModule \<Rightarrow> bool" where
  "client_initialised m \<longleftrightarrow> cm_ready m = NewReady \<and> fresh_client (cm_client m) \<and> \<not> cm_stopOnce m"

definition client_started :: "'c ClientModule \<Rightarrow> bool" where
  "client_started m \<longleftrightarrow> client_ok (cm_client m) \<and> \<not> cm_stopOnce m"

interpretation client_md: server_module "\<lambda>env m. Some (client_AfterInit env m)" client_runs "\<lambda>_ m. Some (client_BeforeShutdown m)" cm_ready "\<lambda>m. client_held (cm_client m)" client_initialised client_started
proof
  fix m :: "'c ClientModule" and env :: start_env assume i: "client_initialised m"
  obtain c e where c: "Client_Connect (se_agent env) (the (cm_client m)) = (c, e)" by fastforce
  have "client_ok (Some c)" using i link_connect [OF _ c] by (simp add: client_initialised_def)
  with i c show "\<exists>m' r. Some (client_AfterInit env m) = Some (m', r) \<and> client_started m' \<and> cm_ready m' = \<lparr>rd_closed = True, rd_err = r\<rparr>"
    by (cases e) (simp_all add: client_AfterInit_def client_initialised_def client_started_def)
next
  fix m :: "'c ClientModule" and w assume "client_started m"
  then show "client_started (client_runs m w) \<and> cm_ready (client_runs m w) = cm_ready m"
    by (simp add: client_started_def client_runs_def link_step)
next
  fix m :: "'c ClientModule" and tasks :: "lobby_event list" assume "client_started m"
  then show "\<exists>m'. Some (client_BeforeShutdown m) = Some m' \<and> client_held (cm_client m') = {} \<and> cm_ready m' = cm_ready m \<and> (\<forall>tasks'. Some (client_BeforeShutdown m') = Some m')"
    by (auto simp: client_BeforeShutdown_def client_started_def link_close)
qed

section \<open>All servers\<close>

text \<open>The values behind the interface \<^verbatim>\<open>app.Module\<close>, and what each is initialised with.\<close>

datatype server = GateServer GateModule | LobbyServer LobbyModule | OnlineServer OnlineModule
  | MatchServer "Match_Config ClientModule" | RoomServer "Room_Config ClientModule"

datatype server_setup =
    GateSetup "(Common_Config, Gate_Config) LobbyConfigs" string
  | LobbySetup "(Common_Config, Lobby_Config) LobbyConfigs" "CS_Ping_Req proto" "SC_Pong_Rsp proto"
  | OnlineSetup "(Common_Config, Online_Config) LobbyConfigs"
  | MatchSetup "(Common_Config, Match_Config) LobbyConfigs"
  | RoomSetup "(Common_Config, Room_Config) LobbyConfigs"

datatype server_work = GateWork gate_work | LobbyWork lobby_work | OnlineWork online_work | ClientWork client_event

text \<open>A new module that is initialised; \<open>name\<close> and \<open>nodeID\<close> are those of the node.\<close>

fun server_Init :: "server_setup \<Rightarrow> bool \<Rightarrow> string \<Rightarrow> u32 \<Rightarrow> start_env \<Rightarrow> server \<times> string option" where
  "server_Init (GateSetup st stack) poster name nodeID env = map_prod GateServer id (Gate_Init st poster nodeID stack NewGateModule)"
| "server_Init (LobbySetup st pq pp) poster name nodeID env = map_prod LobbyServer id (Lobby_Init pq pp st poster name nodeID env NewLobbyModule)"
| "server_Init (OnlineSetup st) poster name nodeID env = map_prod OnlineServer id (Online_Init st poster nodeID NewOnlineModule)"
| "server_Init (MatchSetup st) poster name nodeID env = map_prod MatchServer id (Match_Init st poster nodeID NewClientModule)"
| "server_Init (RoomSetup st) poster name nodeID env = map_prod RoomServer id (Room_Init st poster nodeID NewClientModule)"

fun server_AfterInit :: "start_env \<Rightarrow> server \<Rightarrow> (server \<times> string option) option" where
  "server_AfterInit env (GateServer m) = Some (map_prod GateServer id (Gate_AfterInit env m))"
| "server_AfterInit env (LobbyServer m) = map_option (map_prod LobbyServer id) (Lobby_AfterInit env m)"
| "server_AfterInit env (OnlineServer m) = Some (map_prod OnlineServer id (Online_AfterInit env m))"
| "server_AfterInit env (MatchServer m) = Some (map_prod MatchServer id (Match_AfterInit env m))"
| "server_AfterInit env (RoomServer m) = Some (map_prod RoomServer id (Room_AfterInit env m))"

fun server_runs :: "server \<Rightarrow> server_work \<Rightarrow> server" where
  "server_runs (GateServer m) (GateWork w) = GateServer (gate_runs m w)"
| "server_runs (LobbyServer m) (LobbyWork w) = LobbyServer (lobby_runs m w)"
| "server_runs (OnlineServer m) (OnlineWork w) = OnlineServer (online_runs m w)"
| "server_runs (MatchServer m) (ClientWork w) = MatchServer (client_runs m w)"
| "server_runs (RoomServer m) (ClientWork w) = RoomServer (client_runs m w)"
| "server_runs m _ = m"

fun server_BeforeShutdown :: "lobby_event list \<Rightarrow> server \<Rightarrow> server option" where
  "server_BeforeShutdown tasks (GateServer m) = Some (GateServer (Gate_BeforeShutdown m))"
| "server_BeforeShutdown tasks (LobbyServer m) = map_option LobbyServer (Lobby_BeforeShutdown tasks m)"
| "server_BeforeShutdown tasks (OnlineServer m) = Some (OnlineServer (Online_BeforeShutdown m))"
| "server_BeforeShutdown tasks (MatchServer m) = Some (MatchServer (Match_BeforeShutdown m))"
| "server_BeforeShutdown tasks (RoomServer m) = Some (RoomServer (Room_BeforeShutdown m))"

fun server_ready :: "server \<Rightarrow> Ready" where
  "server_ready (GateServer m) = gm_ready m"
| "server_ready (LobbyServer m) = lm_ready m"
| "server_ready (OnlineServer m) = om_ready m"
| "server_ready (MatchServer m) = cm_ready m"
| "server_ready (RoomServer m) = cm_ready m"

definition server_WaitReady :: "server \<Rightarrow> string option \<Rightarrow> string option option" where
  "server_WaitReady m ctxErr = WaitReady (server_ready m) ctxErr"

fun server_held :: "server \<Rightarrow> resource set" where
  "server_held (GateServer m) = gate_held m"
| "server_held (LobbyServer m) = lobby_held m"
| "server_held (OnlineServer m) = online_held m"
| "server_held (MatchServer m) = client_held (cm_client m)"
| "server_held (RoomServer m) = client_held (cm_client m)"

fun server_initialised :: "server \<Rightarrow> bool" where
  "server_initialised (GateServer m) = gate_initialised m"
| "server_initialised (LobbyServer m) = lobby_initialised m"
| "server_initialised (OnlineServer m) = online_initialised m"
| "server_initialised (MatchServer m) = client_initialised m"
| "server_initialised (RoomServer m) = client_initialised m"

fun server_started :: "server \<Rightarrow> bool" where
  "server_started (GateServer m) = gate_started m"
| "server_started (LobbyServer m) = lobby_started m"
| "server_started (OnlineServer m) = online_started m"
| "server_started (MatchServer m) = client_started m"
| "server_started (RoomServer m) = client_started m"

interpretation servers: server_module server_AfterInit server_runs server_BeforeShutdown server_ready server_held server_initialised server_started
proof
  fix m and env :: start_env assume s: "server_initialised m"
  show "\<exists>m' r. server_AfterInit env m = Some (m', r) \<and> server_started m' \<and> server_ready m' = \<lparr>rd_closed = True, rd_err = r\<rparr>"
  proof (cases m)
    case (GateServer g)
    with s gate_md.starts [of g env] show ?thesis by auto
  next
    case (LobbyServer g)
    with s lobby_md.starts [of g env] show ?thesis by auto
  next
    case (OnlineServer g)
    with s online_md.starts [of g env] show ?thesis by auto
  next
    case (MatchServer g)
    with s client_md.starts [of g env] show ?thesis by auto
  next
    case (RoomServer g)
    with s client_md.starts [of g env] show ?thesis by auto
  qed
next
  fix m w assume "server_started m"
  then show "server_started (server_runs m w) \<and> server_ready (server_runs m w) = server_ready m"
    using gate_md.keeps lobby_md.keeps online_md.keeps client_md.keeps by (cases m; cases w) simp_all
next
  fix m tasks assume s: "server_started m"
  show "\<exists>m'. server_BeforeShutdown tasks m = Some m' \<and> server_held m' = {} \<and> server_ready m' = server_ready m \<and> (\<forall>tasks'. server_BeforeShutdown tasks' m' = Some m')"
  proof (cases m)
    case (GateServer g)
    with s gate_md.stops [of g] show ?thesis by auto
  next
    case (LobbyServer g)
    with s lobby_md.stops [of g tasks] show ?thesis by auto
  next
    case (OnlineServer g)
    with s online_md.stops [of g] show ?thesis by auto
  next
    case (MatchServer g)
    with s client_md.stops [of g] show ?thesis by auto
  next
    case (RoomServer g)
    with s client_md.stops [of g] show ?thesis by auto
  qed
qed

lemma server_Init_ok: "server_Init su poster name nodeID env = (m, None) \<Longrightarrow> server_initialised m"
  by (cases su)
    (auto simp: Gate_Init_def Lobby_Init_def Online_Init_def Match_Init_def Room_Init_def client_Init_def gate_initialised_def lobby_initialised_def
      online_initialised_def client_initialised_def NewGateModule_def NewLobbyModule_def NewOnlineModule_def NewClientModule_def fresh_client_def
      split: sum.splits option.splits)

text \<open>C17: The modules of the gate, lobby, online, match and room servers release the resources that they own. After an
  initialisation without error the start always ends; its outcome, success or the error of the step that failed, is
  what the application sees when it waits for the module, now and later. Whatever the module does in between, losing
  its connection to the agent included, a stop ends and leaves none of these behind: the connection to the agent, the
  listeners with their accept loops, the timeout scan, the database client and the goroutines of the runtime; a second
  stop changes nothing. The sockets and loops of accepted clients, and connections that are still queued in an acceptor
  (\<open>queued_conn_left_open\<close>), are not among them.\<close>

theorem modules_release_all:
  assumes "server_Init su poster name nodeID env0 = (m, None)"
  shows "\<exists>m1 r m2. server_AfterInit env m = Some (m1, r) \<and> server_WaitReady m1 ctxErr = Some r
    \<and> server_BeforeShutdown tasks (foldl server_runs m1 ws) = Some m2 \<and> server_held m2 = {} \<and> server_WaitReady m2 ctxErr = Some r
    \<and> server_BeforeShutdown tasks' m2 = Some m2"
  unfolding server_WaitReady_def by (rule servers.lifecycle [OF server_Init_ok [OF assms]])

text \<open>A gate with both listeners, whose WebSocket address is taken.\<close>

definition demo_gate :: "(Common_Config, Gate_Config) LobbyConfigs" where
  "demo_gate = \<lparr>lc_common = None,
     lc_lobby = Some \<lparr>ce_path = ''gate.yaml'',
       ce_data = Some \<lparr>ga_ListenTcp = '':1'', ga_ListenWs = '':2'', ga_MaxConn = 1, ga_HeartbeatSec = 1,
         ga_LoggerGroup = \<lparr>lg_Main = demo_log, lg_Res = demo_log, lg_Tracing = demo_log\<rparr>, ga_RouteragentSockPath = ''s''\<rparr>\<rparr>,
     lc_hooks = []\<rparr>"

definition demo_env :: "string option \<Rightarrow> start_env" where
  "demo_env ws = \<lparr>se_dial = None, se_ping = None, se_agent = AckIs 5 (ack_frame 1), se_tcp = None, se_ws = ws, se_tasks = []\<rparr>"

lemma demo_initialised: "\<exists>m. server_Init (GateSetup demo_gate []) True ''1.1.1'' 3 (demo_env None) = (m, None)"
  by (simp add: Gate_Init_def init_checks_def demo_gate_def LobbyConfig_def)

theorem modules_release_all_witness:
  "\<exists>m m1 r m2. server_Init (GateSetup demo_gate []) True ''1.1.1'' 3 (demo_env None) = (m, None)
    \<and> server_AfterInit (demo_env (Some ''in use'')) m = Some (m1, r)
    \<and> server_BeforeShutdown [] (foldl server_runs m1 [GateWork (GateClient (SocketFails None))]) = Some m2 \<and> server_held m2 = {}"
proof -
  obtain m where m: "server_Init (GateSetup demo_gate []) True ''1.1.1'' 3 (demo_env None) = (m, None)" using demo_initialised by blast
  from m modules_release_all [OF m, of "demo_env (Some ''in use'')" None "[]" "[GateWork (GateClient (SocketFails None))]" "[]"] show ?thesis by blast
qed

section \<open>Weak points\<close>

text \<open>
  A gate whose second listener cannot be opened fails its start and keeps the first listener, the connection to the
  agent and the timeout scan; the application does not stop a module that failed to start.
\<close>

lemma failed_gate_keeps_listener:
  "\<exists>m m1 e. server_Init (GateSetup demo_gate []) True ''1.1.1'' 3 (demo_env None) = (m, None)
     \<and> server_AfterInit (demo_env (Some ''in use'')) m = Some (m1, Some e) \<and> {TcpListener, AgentSocket 5, ScanLoop} \<subseteq> server_held m1"
proof -
  have ack: "ack_accepted (ack_frame 1)" by simp
  note defs = Gate_Init_def init_checks_def demo_gate_def LobbyConfig_def NewGateModule_def demo_env_def Gate_AfterInit_def NewClient_def
    Client_Connect_def gate_listens_def startAcceptor_def acceptor_Listen_def TCP_Listen_def WS_Listen_def listen_once_def NewWSAcceptor_def NewTCPAcceptor_def
  show ?thesis by (simp add: defs ack raw_open_def gate_held_def client_held_def New_Core_def Let_def)
qed

text \<open>A lobby that is stopped before its runtime was started never ends.\<close>

lemma stop_before_start_hangs:
  "lm_runtime m = Some (Idle rt) \<Longrightarrow> \<not> lm_stopOnce m \<Longrightarrow> Lobby_BeforeShutdown tasks m = None"
  by (simp add: Lobby_BeforeShutdown_def stop_runtime_def phase_Stop_def)

text \<open>An engine that is closed no longer ends its open calls: their callbacks are never run.\<close>

lemma closed_core_never_times_out: "foldl scan_tick (Core_Close c) ts = Core_Close c"
  by (induction ts) (simp_all add: scan_tick_def Core_Close_def)

end
