(* ===== verification/Log_Rotate.thy ===== *)
theory Log_Rotate
  imports Go_Strconv "HOL-Library.Sublist"
begin

text \<open>
  The rotating log writer (\<^verbatim>\<open>pkg/logger/rotate.go\<close>) over a file system with inodes: the directory of the
  writer maps names to files, symbolic links or directories, and an open file is an inode, so that a
  writer keeps writing to a file that has been renamed. Names are relative to that directory. The
  time and the outcome of each system call are arguments; errors that the code ignores leave the
  file system unchanged.
\<close>

section \<open>Time and the file system\<close>

text \<open>The civil time that names are made of, and the instant that is recorded in the file system.\<close>

record gotime =
  tm_year :: nat
  tm_month :: nat
  tm_day :: nat
  tm_hour :: nat
  tm_unix :: int

definition pad :: "nat \<Rightarrow> nat \<Rightarrow> string" where
  "pad k n = replicate (k - length (dec_nat n)) CHR ''0'' @ dec_nat n"

datatype dirent = RegFile nat | Symlink string | Directory

record inode =
  in_data :: bytes
  in_mtime :: int

record filesys =
  fs_dir :: "(string, dirent) gomap"
  fs_inodes :: "nat \<Rightarrow> inode"
  fs_next :: nat

record faults =
  ft_mkdir :: "string option"
  ft_open :: "string option"
  ft_fstat :: "string option"
  ft_stat :: "string \<Rightarrow> bool"
  ft_rename :: "string \<Rightarrow> bool"
  ft_remove :: "string \<Rightarrow> bool"
  ft_symlink :: bool
  ft_link :: bool
  ft_readdir :: bool
  ft_info :: "string \<Rightarrow> bool"
  ft_write :: "(nat \<times> string) option"
  ft_close :: "string option"
  ft_sync :: "string option"

definition no_faults :: faults where
  "no_faults = \<lparr>ft_mkdir = None, ft_open = None, ft_fstat = None, ft_stat = \<lambda>n. False, ft_rename = \<lambda>n. False, ft_remove = \<lambda>n. False,
     ft_symlink = False, ft_link = False, ft_readdir = False, ft_info = \<lambda>n. False, ft_write = None, ft_close = None, ft_sync = None\<rparr>"

abbreviation entry :: "filesys \<Rightarrow> string \<Rightarrow> dirent option" where
  "entry fs n \<equiv> map_of (fs_dir fs) n"

text \<open>A link is followed once.\<close>

definition followed :: "filesys \<Rightarrow> string \<Rightarrow> string" where
  "followed fs n = (case entry fs n of Some (Symlink t) \<Rightarrow> t | _ \<Rightarrow> n)"

text \<open>\<^verbatim>\<open>Stat\<close> answers that a name does not exist; another error counts as a name that exists.\<close>

definition not_exist :: "faults \<Rightarrow> filesys \<Rightarrow> string \<Rightarrow> bool" where
  "not_exist ft fs n \<longleftrightarrow> \<not> ft_stat ft n \<and> entry fs (followed fs n) = None"

definition os_rename :: "faults \<Rightarrow> string \<Rightarrow> string \<Rightarrow> filesys \<Rightarrow> filesys" where
  "os_rename ft a b fs =
     (case entry fs a of
        None \<Rightarrow> fs
      | Some d \<Rightarrow> if ft_rename ft a \<or> a = b \<or> entry fs b = Some Directory then fs else fs\<lparr>fs_dir := mput b d (mdel a (fs_dir fs))\<rparr>)"

definition os_remove :: "faults \<Rightarrow> string \<Rightarrow> filesys \<Rightarrow> filesys" where
  "os_remove ft n fs = (if ft_remove ft n then fs else fs\<lparr>fs_dir := mdel n (fs_dir fs)\<rparr>)"

text \<open>\<^verbatim>\<open>O_CREATE | O_APPEND | O_WRONLY\<close>.\<close>

definition os_open :: "faults \<Rightarrow> int \<Rightarrow> string \<Rightarrow> filesys \<Rightarrow> filesys \<times> (string + nat)" where
  "os_open ft now n fs =
     (case ft_open ft of
        Some e \<Rightarrow> (fs, Inl e)
      | None \<Rightarrow>
          let t = followed fs n in
          (case entry fs t of
             Some (RegFile i) \<Rightarrow> (fs, Inr i)
           | None \<Rightarrow>
               (fs\<lparr>fs_dir := mput t (RegFile (fs_next fs)) (fs_dir fs), fs_inodes := (fs_inodes fs)(fs_next fs := \<lparr>in_data = [], in_mtime = now\<rparr>),
                   fs_next := Suc (fs_next fs)\<rparr>, Inr (fs_next fs))
           | Some _ \<Rightarrow> (fs, Inl ''open'')))"

definition os_append :: "int \<Rightarrow> nat \<Rightarrow> bytes \<Rightarrow> filesys \<Rightarrow> filesys" where
  "os_append now i p fs = fs\<lparr>fs_inodes := (fs_inodes fs)(i := \<lparr>in_data = in_data (fs_inodes fs i) @ p, in_mtime = now\<rparr>)\<rparr>"

section \<open>The writer\<close>

record RotateConfig =
  rc_Dir :: string
  rc_Basename :: string
  rc_MaxSizeMB :: int
  rc_MaxBackups :: int
  rc_RotateByHour :: bool

text \<open>The file is nil, or an inode and whether it is open.\<close>

record rotatingWriter =
  rw_cfg :: RotateConfig
  rw_file :: "(nat \<times> bool) option"
  rw_written :: int
  rw_hour :: string

definition currentHour :: "gotime \<Rightarrow> string" where
  "currentHour t = pad 4 (tm_year t) @ pad 2 (tm_month t) @ pad 2 (tm_day t) @ ''-'' @ pad 2 (tm_hour t)"

definition currentFilename :: "RotateConfig \<Rightarrow> string \<Rightarrow> string" where
  "currentFilename cfg hour = (if rc_RotateByHour cfg then rc_Basename cfg @ ''.'' @ hour @ ''.log'' else rc_Basename cfg @ ''.log'')"

definition seqFilename :: "RotateConfig \<Rightarrow> string \<Rightarrow> nat \<Rightarrow> string" where
  "seqFilename cfg hour k =
     (if rc_RotateByHour cfg then rc_Basename cfg @ ''.'' @ hour @ ''.'' @ dec_nat k @ ''.log'' else rc_Basename cfg @ ''.'' @ dec_nat k @ ''.log'')"

definition updateSymlinkLocked :: "faults \<Rightarrow> RotateConfig \<Rightarrow> string \<Rightarrow> filesys \<Rightarrow> filesys" where
  "updateSymlinkLocked ft cfg target fs =
     (let link = rc_Basename cfg @ ''.log'';
          fs1 = os_remove ft link fs
      in if entry fs1 link \<noteq> None then fs1
         else if \<not> ft_symlink ft then fs1\<lparr>fs_dir := mput link (Symlink target) (fs_dir fs1)\<rparr>
         else (case entry fs1 target of
                 Some d \<Rightarrow> if ft_link ft then fs1 else fs1\<lparr>fs_dir := mput link d (fs_dir fs1)\<rparr>
               | None \<Rightarrow> fs1))"

text \<open>The candidates of the clean-up: the names of the writer other than the link and the current file.\<close>

definition is_backup :: "RotateConfig \<Rightarrow> string \<Rightarrow> string \<times> dirent \<Rightarrow> bool" where
  "is_backup cfg hour e \<longleftrightarrow> snd e \<noteq> Directory \<and> fst e \<noteq> rc_Basename cfg @ ''.log'' \<and> fst e \<noteq> currentFilename cfg hour
     \<and> prefix (rc_Basename cfg @ ''.'') (fst e) \<and> suffix ''.log'' (fst e)"

definition mtime_of :: "filesys \<Rightarrow> dirent \<Rightarrow> int" where
  "mtime_of fs d = (case d of RegFile i \<Rightarrow> in_mtime (fs_inodes fs i) | _ \<Rightarrow> 0)"

text \<open>The order of the directory is any; entries with equal times are sorted in any order in the source.\<close>

definition candidates :: "faults \<Rightarrow> RotateConfig \<Rightarrow> string \<Rightarrow> filesys \<Rightarrow> string list" where
  "candidates ft cfg hour fs =
     map fst (sort_key (\<lambda>e. - mtime_of fs (snd e)) (filter (\<lambda>e. is_backup cfg hour e \<and> \<not> ft_info ft (fst e)) (fs_dir fs)))"

definition cleanOldFilesLocked :: "faults \<Rightarrow> RotateConfig \<Rightarrow> string \<Rightarrow> filesys \<Rightarrow> filesys" where
  "cleanOldFilesLocked ft cfg hour fs =
     (if rc_MaxBackups cfg \<le> 0 \<or> ft_readdir ft then fs
      else foldl (\<lambda>fs n. os_remove ft n fs) fs (drop (nat (rc_MaxBackups cfg)) (candidates ft cfg hour fs)))"

definition openLocked :: "faults \<Rightarrow> gotime \<Rightarrow> rotatingWriter \<Rightarrow> filesys \<Rightarrow> rotatingWriter \<times> filesys \<times> string option" where
  "openLocked ft now w fs =
     (let h = currentHour now; name = currentFilename (rw_cfg w) h in
      case os_open ft (tm_unix now) name fs of
        (fs1, Inl e) \<Rightarrow> (w, fs1, Some e)
      | (fs1, Inr i) \<Rightarrow>
          (case ft_fstat ft of
             Some e \<Rightarrow> (w, fs1, Some e)
           | None \<Rightarrow>
               let w1 = w\<lparr>rw_file := Some (i, True), rw_written := int (length (in_data (fs_inodes fs1 i))), rw_hour := h\<rparr>;
                   fs2 = (if rc_RotateByHour (rw_cfg w) then updateSymlinkLocked ft (rw_cfg w) name fs1 else fs1)
               in (w1, cleanOldFilesLocked ft (rw_cfg w) h fs2, None)))"

text \<open>The search for the largest number in use stops at a gap or beyond 9999.\<close>

function max_seq :: "(nat \<Rightarrow> bool) \<Rightarrow> nat \<Rightarrow> nat" where
  "max_seq free k = (if free (k + 1) then k else if k + 1 > 9999 then k + 1 else max_seq free (k + 1))"
  by auto
termination
  by (relation "measure (\<lambda>(free, k). 10000 - k)") auto

declare max_seq.simps [simp del]

definition shift_step :: "faults \<Rightarrow> RotateConfig \<Rightarrow> string \<Rightarrow> filesys \<Rightarrow> nat \<Rightarrow> filesys" where
  "shift_step ft cfg hour fs k = os_rename ft (seqFilename cfg hour k) (seqFilename cfg hour (k + 1)) fs"

definition shiftAndArchiveLocked :: "faults \<Rightarrow> RotateConfig \<Rightarrow> string \<Rightarrow> filesys \<Rightarrow> filesys" where
  "shiftAndArchiveLocked ft cfg hour fs =
     (let maxSeq = max_seq (\<lambda>k. not_exist ft fs (seqFilename cfg hour k)) 0;
          fs1 = foldl (shift_step ft cfg hour) fs (rev [1..<maxSeq + 1])
      in os_rename ft (currentFilename cfg hour) (seqFilename cfg hour 1) fs1)"

definition rotateLocked :: "faults \<Rightarrow> gotime \<Rightarrow> rotatingWriter \<Rightarrow> filesys \<Rightarrow> rotatingWriter \<times> filesys \<times> string option" where
  "rotateLocked ft now w fs =
     (case rw_file w of
        None \<Rightarrow> openLocked ft now w fs
      | Some f \<Rightarrow>
          let w1 = w\<lparr>rw_file := None\<rparr>; newHour = currentHour now; sameHour = (rc_RotateByHour (rw_cfg w) \<and> newHour = rw_hour w);
              fs1 = (if sameHour \<or> \<not> rc_RotateByHour (rw_cfg w) then shiftAndArchiveLocked ft (rw_cfg w) (rw_hour w) fs else fs)
          in openLocked ft now w1 fs1)"

definition needRotate :: "rotatingWriter \<Rightarrow> gotime \<Rightarrow> int \<Rightarrow> bool" where
  "needRotate w now writeLen \<longleftrightarrow>
     (rc_RotateByHour (rw_cfg w) \<and> currentHour now \<noteq> rw_hour w)
     \<or> (0 < rc_MaxSizeMB (rw_cfg w) \<and> wrap_s64 (rc_MaxSizeMB (rw_cfg w) * 1024 * 1024) < wrap_s64 (rw_written w + writeLen))"

text \<open>A write to a nil or closed file fails; a write may be partial.\<close>

definition write_file :: "faults \<Rightarrow> gotime \<Rightarrow> bytes \<Rightarrow> rotatingWriter \<Rightarrow> filesys \<Rightarrow> filesys \<times> nat \<times> string option" where
  "write_file ft now p w fs =
     (case rw_file w of
        None \<Rightarrow> (fs, 0, Some ''invalid argument'')
      | Some (i, False) \<Rightarrow> (fs, 0, Some ''file already closed'')
      | Some (i, True) \<Rightarrow>
          (case ft_write ft of
             None \<Rightarrow> (os_append (tm_unix now) i p fs, length p, None)
           | Some (n, e) \<Rightarrow> (os_append (tm_unix now) i (take n p) fs, min n (length p), Some e)))"

definition Rotating_Write :: "faults \<Rightarrow> gotime \<Rightarrow> bytes \<Rightarrow> rotatingWriter \<Rightarrow> filesys \<Rightarrow> rotatingWriter \<times> filesys \<times> nat \<times> string option" where
  "Rotating_Write ft now p w fs =
     (case (if needRotate w now (int (length p)) then rotateLocked ft now w fs else (w, fs, None)) of
        (w1, fs1, Some e) \<Rightarrow> (w1, fs1, 0, Some e)
      | (w1, fs1, None) \<Rightarrow>
          (case write_file ft now p w1 fs1 of
             (fs2, n, e) \<Rightarrow> (w1\<lparr>rw_written := wrap_s64 (rw_written w1 + int n)\<rparr>, fs2, n, e)))"

definition Rotating_Close :: "faults \<Rightarrow> rotatingWriter \<Rightarrow> rotatingWriter \<times> string option" where
  "Rotating_Close ft w =
     (case rw_file w of
        None \<Rightarrow> (w, None)
      | Some (i, False) \<Rightarrow> (w, Some ''file already closed'')
      | Some (i, True) \<Rightarrow> (w\<lparr>rw_file := Some (i, False)\<rparr>, ft_close ft))"

definition Rotating_Sync :: "faults \<Rightarrow> rotatingWriter \<Rightarrow> string option" where
  "Rotating_Sync ft w = (case rw_file w of None \<Rightarrow> None | Some (i, False) \<Rightarrow> Some ''file already closed'' | Some (i, True) \<Rightarrow> ft_sync ft)"

definition Rotating_Rotate :: "faults \<Rightarrow> gotime \<Rightarrow> rotatingWriter \<Rightarrow> filesys \<Rightarrow> rotatingWriter \<times> filesys \<times> string option" where
  "Rotating_Rotate ft now w fs = rotateLocked ft now w fs"

definition NewRotatingWriter :: "faults \<Rightarrow> gotime \<Rightarrow> RotateConfig \<Rightarrow> filesys \<Rightarrow> filesys \<times> (string + rotatingWriter)" where
  "NewRotatingWriter ft now cfg fs =
     (let cfg1 = (if rc_Dir cfg = [] then cfg\<lparr>rc_Dir := ''.''\<rparr> else cfg) in
      case ft_mkdir ft of
        Some e \<Rightarrow> (fs, Inl e)
      | None \<Rightarrow>
          (case openLocked ft now \<lparr>rw_cfg = cfg1, rw_file = None, rw_written = 0, rw_hour = []\<rparr> fs of
             (w, fs1, Some e) \<Rightarrow> (fs1, Inl e)
           | (w, fs1, None) \<Rightarrow> (fs1, Inr w)))"

section \<open>File names\<close>

lemma dot_split: "CHR ''.'' \<notin> set x \<Longrightarrow> CHR ''.'' \<notin> set y \<Longrightarrow> x @ CHR ''.'' # u = y @ CHR ''.'' # v \<longleftrightarrow> x = y \<and> u = v"
proof (induction x arbitrary: y)
  case Nil
  then show ?case by (cases y) auto
next
  case (Cons a x)
  then show ?case by (cases y) auto
qed

lemma currentHour_no_dot [simp]: "CHR ''.'' \<notin> set (currentHour t)"
  by (auto simp: currentHour_def pad_def dec_nat_clean)

lemma seq_inj:
  assumes "CHR ''.'' \<notin> set h" and "CHR ''.'' \<notin> set h'" and "seqFilename cfg h k = seqFilename cfg h' k'"
  shows "k = k' \<and> (rc_RotateByHour cfg \<longrightarrow> h = h')"
proof (cases "rc_RotateByHour cfg")
  case True
  with assms(3) have "h @ CHR ''.'' # (dec_nat k @ ''.log'') = h' @ CHR ''.'' # (dec_nat k' @ ''.log'')" by (simp add: seqFilename_def)
  with dot_split [OF assms(1,2)] have "h = h'" "dec_nat k = dec_nat k'" by auto
  with dec_nat_inj show ?thesis by blast
qed (use assms(3) dec_nat_inj in \<open>auto simp: seqFilename_def\<close>)

lemma current_inj:
  assumes "CHR ''.'' \<notin> set h" and "CHR ''.'' \<notin> set h'" and "rc_RotateByHour cfg"
  shows "currentFilename cfg h = currentFilename cfg h' \<longleftrightarrow> h = h'"
  using assms dot_split [OF assms(1,2)] by (auto simp: currentFilename_def)

lemma current_not_seq [simp]:
  assumes "CHR ''.'' \<notin> set h" and "CHR ''.'' \<notin> set h'"
  shows "currentFilename cfg h \<noteq> seqFilename cfg h' k" and "seqFilename cfg h' k \<noteq> currentFilename cfg h"
proof -
  show *: "currentFilename cfg h \<noteq> seqFilename cfg h' k"
  proof (cases "rc_RotateByHour cfg")
    case True
    have "''log'' \<noteq> dec_nat k @ ''.log''"
    proof
      assume "''log'' = dec_nat k @ ''.log''"
      from arg_cong [OF this, of length] show False by simp
    qed
    with True dot_split [OF assms, of "''log''" "dec_nat k @ ''.log''"] show ?thesis by (simp add: currentFilename_def seqFilename_def)
  next
    case False
    show ?thesis
    proof
      assume "currentFilename cfg h = seqFilename cfg h' k"
      from arg_cong [OF this, of length] False show False by (simp add: currentFilename_def seqFilename_def)
    qed
  qed
  then show "seqFilename cfg h' k \<noteq> currentFilename cfg h" by simp
qed

definition log_name :: "RotateConfig \<Rightarrow> string \<Rightarrow> bool" where
  "log_name cfg n \<longleftrightarrow> (\<exists>h. CHR ''.'' \<notin> set h \<and> (n = currentFilename cfg h \<or> (\<exists>k. n = seqFilename cfg h k)))"

lemma link_not_log: "rc_RotateByHour cfg \<Longrightarrow> \<not> log_name cfg (rc_Basename cfg @ ''.log'')"
proof
  assume h: "rc_RotateByHour cfg" and "log_name cfg (rc_Basename cfg @ ''.log'')"
  then obtain x where "rc_Basename cfg @ ''.log'' = rc_Basename cfg @ ''.'' @ x @ ''.log''" by (auto simp: log_name_def currentFilename_def seqFilename_def)
  from arg_cong [OF this, of length] show False by simp
qed

section \<open>The log of an hour\<close>

definition content :: "filesys \<Rightarrow> string \<Rightarrow> bytes" where
  "content fs n = (case entry fs n of Some (RegFile i) \<Rightarrow> in_data (fs_inodes fs i) | _ \<Rightarrow> [])"

text \<open>From the oldest archive to the current file. Without rotation by the hour there is one log.\<close>

definition hour_log :: "RotateConfig \<Rightarrow> filesys \<Rightarrow> string \<Rightarrow> bytes" where
  "hour_log cfg fs h = concat (map (\<lambda>k. content fs (seqFilename cfg h k)) (rev [1..<10001])) @ content fs (currentFilename cfg h)"

text \<open>Log names are plain files, and no file has two names.\<close>

definition fs_ok :: "RotateConfig \<Rightarrow> filesys \<Rightarrow> bool" where
  "fs_ok cfg fs \<longleftrightarrow> (\<forall>n i. entry fs n = Some (RegFile i) \<longrightarrow> i < fs_next fs)
     \<and> (\<forall>a b i. entry fs a = Some (RegFile i) \<and> entry fs b = Some (RegFile i) \<longrightarrow> a = b)
     \<and> (\<forall>n. log_name cfg n \<longrightarrow> entry fs n = None \<or> (\<exists>i. entry fs n = Some (RegFile i)))"

definition archives :: "RotateConfig \<Rightarrow> filesys \<Rightarrow> string \<Rightarrow> nat set" where
  "archives cfg fs h = {k \<in> {1..10000}. entry fs (seqFilename cfg h k) \<noteq> None}"

lemma finite_archives [simp]: "finite (archives cfg fs h)"
  by (simp add: archives_def)

definition room :: "RotateConfig \<Rightarrow> filesys \<Rightarrow> nat \<Rightarrow> bool" where
  "room cfg fs n \<longleftrightarrow> (\<forall>h. CHR ''.'' \<notin> set h \<longrightarrow> card (archives cfg fs h) + n < 10000)"

lemma log_nameI: "CHR ''.'' \<notin> set h \<Longrightarrow> log_name cfg (currentFilename cfg h)" "CHR ''.'' \<notin> set h \<Longrightarrow> log_name cfg (seqFilename cfg h k)"
  by (auto simp: log_name_def)

lemma content_cong: "entry fs' n' = entry fs n \<Longrightarrow> fs_inodes fs' = fs_inodes fs \<Longrightarrow> content fs' n' = content fs n"
  unfolding content_def by (simp only:)

lemma hour_log_cong:
  assumes "\<And>n. log_name cfg n \<Longrightarrow> content fs' n = content fs n" and "CHR ''.'' \<notin> set h"
  shows "hour_log cfg fs' h = hour_log cfg fs h"
  using assms log_nameI by (simp add: hour_log_def)

lemma archives_cong:
  assumes "\<And>n. log_name cfg n \<Longrightarrow> entry fs n = None \<Longrightarrow> entry fs' n = None \<or> (\<exists>h. CHR ''.'' \<notin> set h \<and> n = currentFilename cfg h)" and "room cfg fs k"
  shows "room cfg fs' k"
proof -
  have "archives cfg fs' h \<subseteq> archives cfg fs h" if h: "CHR ''.'' \<notin> set h" for h
  proof -
    have "entry fs' (seqFilename cfg h j) = None" if "entry fs (seqFilename cfg h j) = None" for j
      using assms(1) [OF log_nameI(2) [OF h] that] current_not_seq(2) [OF _ h] by blast
    then show ?thesis unfolding archives_def by (intro Collect_mono_iff [THEN iffD2]) (metis (no_types, lifting))
  qed
  then have "card (archives cfg fs' h) \<le> card (archives cfg fs h)" if "CHR ''.'' \<notin> set h" for h
    using that by (intro card_mono) (auto simp: archives_def)
  with assms(2) show ?thesis unfolding room_def by (meson add_le_mono1 le_less_trans)
qed

subsection \<open>Opening\<close>

lemma no_faults_simps [simp]:
  "ft_mkdir no_faults = None" "ft_open no_faults = None" "ft_fstat no_faults = None" "ft_stat no_faults n = False" "ft_rename no_faults n = False"
  "ft_remove no_faults n = False" "ft_symlink no_faults = False" "ft_write no_faults = None" "ft_readdir no_faults = False" "ft_info no_faults n = False"
  by (simp_all add: no_faults_def)

lemma open_ok:
  assumes "fs_ok cfg fs" and "log_name cfg n"
  obtains fs1 i where "os_open no_faults now n fs = (fs1, Inr i)" and "entry fs1 n = Some (RegFile i)" and "fs_ok cfg fs1"
    and "\<And>m. content fs1 m = content fs m" and "\<And>m. m \<noteq> n \<Longrightarrow> entry fs1 m = entry fs m"
proof -
  have f: "followed fs n = n" using assms by (auto simp: followed_def fs_ok_def)
  show ?thesis
  proof (cases "entry fs n")
    case None
    let ?fs = "fs\<lparr>fs_dir := mput n (RegFile (fs_next fs)) (fs_dir fs), fs_inodes := (fs_inodes fs)(fs_next fs := \<lparr>in_data = [], in_mtime = now\<rparr>), fs_next := Suc (fs_next fs)\<rparr>"
    have fresh: "i < fs_next fs" if "entry fs m = Some (RegFile i)" for m i using that assms(1) by (auto simp: fs_ok_def)
    show ?thesis
    proof (rule that)
      show "os_open no_faults now n fs = (?fs, Inr (fs_next fs))" using None f by (simp add: os_open_def)
      have "i < fs_next ?fs" if "entry ?fs m = Some (RegFile i)" for m i using that fresh [of m i] by (auto split: if_splits)
      moreover have "a = b" if "entry ?fs a = Some (RegFile i)" "entry ?fs b = Some (RegFile i)" for a b i
        using that fresh [of a i] fresh [of b i] assms(1) unfolding fs_ok_def by (auto split: if_splits)
      moreover have "entry ?fs m = None \<or> (\<exists>i. entry ?fs m = Some (RegFile i))" if "log_name cfg m" for m
        using that assms(1) unfolding fs_ok_def by auto
      ultimately show "fs_ok cfg ?fs" unfolding fs_ok_def by blast
      show "content ?fs m = content fs m" for m
        using None fresh [of m] by (auto simp: content_def split: option.splits dirent.splits)
    qed auto
  next
    case (Some d)
    moreover have "entry fs n = None \<or> (\<exists>i. entry fs n = Some (RegFile i))" using assms unfolding fs_ok_def by blast
    ultimately obtain i where "d = RegFile i" by auto
    with Some f assms(1) show ?thesis by (intro that [of fs i]) (auto simp: os_open_def)
  qed
qed

lemma symlink_ok:
  assumes "fs_ok cfg fs" and "rc_RotateByHour cfg"
  shows "fs_ok cfg (updateSymlinkLocked no_faults cfg t fs) \<and> (\<forall>n. log_name cfg n \<longrightarrow> entry (updateSymlinkLocked no_faults cfg t fs) n = entry fs n)
    \<and> fs_inodes (updateSymlinkLocked no_faults cfg t fs) = fs_inodes fs"
proof -
  let ?l = "rc_Basename cfg @ ''.log''"
  have u: "updateSymlinkLocked no_faults cfg t fs = fs\<lparr>fs_dir := mput ?l (Symlink t) (mdel ?l (fs_dir fs))\<rparr>"
    by (simp add: updateSymlinkLocked_def os_remove_def Let_def)
  have "n \<noteq> ?l" if "log_name cfg n" for n using that link_not_log [OF assms(2)] by auto
  with assms(1) show ?thesis unfolding u fs_ok_def by (auto split: if_splits)
qed

lemma openLocked_ok:
  assumes "fs_ok cfg fs" and "rw_cfg w = cfg" and "rc_MaxBackups cfg \<le> 0" and "room cfg fs k"
  obtains w1 fs1 i where "openLocked no_faults now w fs = (w1, fs1, None)" and "rw_cfg w1 = cfg" and "rw_file w1 = Some (i, True)" and "rw_hour w1 = currentHour now"
    and "entry fs1 (currentFilename cfg (currentHour now)) = Some (RegFile i)" and "fs_ok cfg fs1" and "room cfg fs1 k"
    and "\<And>h. CHR ''.'' \<notin> set h \<Longrightarrow> hour_log cfg fs1 h = hour_log cfg fs h"
proof -
  let ?n = "currentFilename cfg (currentHour now)"
  have n: "log_name cfg ?n" by (simp add: log_nameI)
  obtain fs1 i where o: "os_open no_faults (tm_unix now) ?n fs = (fs1, Inr i)" "entry fs1 ?n = Some (RegFile i)" "fs_ok cfg fs1"
    "\<And>m. content fs1 m = content fs m" "\<And>m. m \<noteq> ?n \<Longrightarrow> entry fs1 m = entry fs m" using open_ok [OF assms(1) n] by metis
  define fs2 where "fs2 = (if rc_RotateByHour cfg then updateSymlinkLocked no_faults cfg ?n fs1 else fs1)"
  have 2: "fs_ok cfg fs2" "\<And>m. log_name cfg m \<Longrightarrow> entry fs2 m = entry fs1 m" "fs_inodes fs2 = fs_inodes fs1"
    using symlink_ok [OF o(3), of ?n] o(3) by (auto simp: fs2_def)
  have c: "content fs2 m = content fs m" if "log_name cfg m" for m using content_cong [OF 2(2) [OF that] 2(3)] o(4) [of m] by simp
  show ?thesis
  proof (rule that)
    show "openLocked no_faults now w fs = (w\<lparr>rw_file := Some (i, True), rw_written := int (length (in_data (fs_inodes fs1 i))), rw_hour := currentHour now\<rparr>, fs2, None)"
      using assms(2,3) o(1) by (simp add: openLocked_def Let_def cleanOldFilesLocked_def fs2_def)
    show "room cfg fs2 k"
      by (rule archives_cong [OF _ assms(4)]) (metis 2(2) o(5) currentHour_no_dot)
  qed (use assms(2) 2 o(2) n in \<open>auto intro: hour_log_cong c\<close>)
qed

subsection \<open>Archiving\<close>

lemma max_seq_spec:
  assumes "m = max_seq free k"
  shows "k \<le> m \<and> (\<forall>j. k < j \<and> j \<le> m \<longrightarrow> \<not> free j) \<and> (free (m + 1) \<or> 9999 < m)"
  using assms
proof (induction free k rule: max_seq.induct)
  case (1 free k)
  consider "free (k + 1)" | "\<not> free (k + 1)" "9999 < k + 1" | "\<not> free (k + 1)" "\<not> 9999 < k + 1" by blast
  then show ?case
  proof cases
    case 1
    then have "m = k" using "1.prems" by (simp add: max_seq.simps [of free k])
    with 1 show ?thesis by auto
  next
    case 2
    then have "m = k + 1" using "1.prems" by (simp add: max_seq.simps [of free k])
    with 2 show ?thesis by (auto simp: le_Suc_eq)
  next
    case 3
    then have "m = max_seq free (k + 1)" using "1.prems" by (simp add: max_seq.simps [of free k])
    from "1.IH" [OF 3 this] have IH: "k + 1 \<le> m" "\<And>j. k + 1 < j \<Longrightarrow> j \<le> m \<Longrightarrow> \<not> free j" "free (m + 1) \<or> 9999 < m" by auto
    have "\<not> free j" if "k < j" "j \<le> m" for j using IH(2) [of j] 3(1) that by (cases "j = k + 1") auto
    with IH show ?thesis by auto
  qed
qed

lemma rename_entry:
  assumes "entry fs a = Some (RegFile i)" and "entry fs b = None" and "a \<noteq> b"
  shows "entry (os_rename no_faults a b fs) = (entry fs)(a := None, b \<mapsto> RegFile i)" and "fs_inodes (os_rename no_faults a b fs) = fs_inodes fs"
    and "fs_next (os_rename no_faults a b fs) = fs_next fs"
  using assms by (auto simp: os_rename_def)

lemma rename_ok:
  assumes "fs_ok cfg fs" and "entry fs a = Some (RegFile i)" and "entry fs b = None" and "a \<noteq> b"
  shows "fs_ok cfg (os_rename no_faults a b fs)"
proof -
  note r = rename_entry [OF assms(2-4)]
  have F: "j < fs_next fs" if "entry fs n = Some (RegFile j)" for n j using that assms(1) unfolding fs_ok_def by blast
  have G: "x = y" if "entry fs x = Some (RegFile j)" "entry fs y = Some (RegFile j)" for x y j using that assms(1) unfolding fs_ok_def by blast
  have H: "entry fs n = None \<or> (\<exists>j. entry fs n = Some (RegFile j))" if "log_name cfg n" for n using that assms(1) unfolding fs_ok_def by blast
  show ?thesis
    unfolding fs_ok_def r
  proof (intro conjI allI impI)
    fix n j assume "((entry fs)(a := None, b \<mapsto> RegFile i)) n = Some (RegFile j)"
    then show "j < fs_next fs" using F assms(2) by (auto split: if_splits)
  next
    fix x y j assume "((entry fs)(a := None, b \<mapsto> RegFile i)) x = Some (RegFile j) \<and> ((entry fs)(a := None, b \<mapsto> RegFile i)) y = Some (RegFile j)"
    then have "x = b \<and> j = i \<or> x \<noteq> a \<and> entry fs x = Some (RegFile j)" "y = b \<and> j = i \<or> y \<noteq> a \<and> entry fs y = Some (RegFile j)"
      by (auto split: if_splits)
    then show "x = y" using G [of x j y] G [of x i a] G [of y i a] assms(2) by blast
  next
    fix n assume "log_name cfg n"
    then show "((entry fs)(a := None, b \<mapsto> RegFile i)) n = None \<or> (\<exists>j. ((entry fs)(a := None, b \<mapsto> RegFile i)) n = Some (RegFile j))" using H [of n] by auto
  qed
qed

text \<open>The numbers 1 to m move up by one.\<close>

lemma shift_entries:
  assumes h: "CHR ''.'' \<notin> set h" and "\<forall>j. 1 \<le> j \<and> j \<le> m \<longrightarrow> (\<exists>i. entry fs (seqFilename cfg h j) = Some (RegFile i))"
    and "entry fs (seqFilename cfg h (m + 1)) = None" and "fs' = foldl (shift_step no_faults cfg h) fs (rev [1..<m + 1])"
  shows "(\<forall>k \<ge> 1. entry fs' (seqFilename cfg h (k + 1)) = (if k \<le> m then entry fs (seqFilename cfg h k) else entry fs (seqFilename cfg h (k + 1))))
    \<and> entry fs' (seqFilename cfg h 1) = None
    \<and> (\<forall>n. (\<forall>k \<ge> 1. n \<noteq> seqFilename cfg h k) \<longrightarrow> entry fs' n = entry fs n) \<and> fs_inodes fs' = fs_inodes fs \<and> fs_next fs' = fs_next fs
    \<and> (fs_ok cfg fs \<longrightarrow> fs_ok cfg fs')"
  using assms(2-4)
proof (induction m arbitrary: fs)
  case 0
  then show ?case by simp
next
  case (Suc m)
  let ?s = "seqFilename cfg h"
  have inj: "?s a = ?s b \<longleftrightarrow> a = b" for a b using seq_inj [OF h h, of cfg a b] by auto
  obtain i where i: "entry fs (?s (Suc m)) = Some (RegFile i)" using Suc.prems(1) by auto
  define fs1 where "fs1 = shift_step no_faults cfg h fs (Suc m)"
  have f1: "entry fs1 = (entry fs)(?s (Suc m) := None, ?s (Suc m + 1) \<mapsto> RegFile i)" "fs_inodes fs1 = fs_inodes fs" "fs_next fs1 = fs_next fs"
    unfolding fs1_def shift_step_def using rename_entry [OF i Suc.prems(2)] inj by auto
  have ok1: "fs_ok cfg fs \<Longrightarrow> fs_ok cfg fs1" unfolding fs1_def shift_step_def using rename_ok [OF _ i Suc.prems(2)] inj by auto
  have fs': "fs' = foldl (shift_step no_faults cfg h) fs1 (rev [1..<m + 1])" using Suc.prems(3) by (simp add: fs1_def)
  have "\<forall>j. 1 \<le> j \<and> j \<le> m \<longrightarrow> (\<exists>i. entry fs1 (?s j) = Some (RegFile i))" "entry fs1 (?s (m + 1)) = None" using Suc.prems(1) f1(1) inj by auto
  from Suc.IH [OF this fs'] have IH: "\<And>k. 1 \<le> k \<Longrightarrow> entry fs' (?s (k + 1)) = (if k \<le> m then entry fs1 (?s k) else entry fs1 (?s (k + 1)))"
    "entry fs' (?s 1) = None" "\<And>n. \<forall>k \<ge> 1. n \<noteq> ?s k \<Longrightarrow> entry fs' n = entry fs1 n" "fs_inodes fs' = fs_inodes fs1" "fs_next fs' = fs_next fs1" "fs_ok cfg fs1 \<Longrightarrow> fs_ok cfg fs'" by auto
  have "entry fs' (?s (k + 1)) = (if k \<le> Suc m then entry fs (?s k) else entry fs (?s (k + 1)))" if "1 \<le> k" for k
  proof -
    consider "k \<le> m" | "k = Suc m" | "Suc m < k" by linarith
    then show ?thesis using IH(1) [OF that] i by cases (auto simp: f1(1) inj)
  qed
  moreover have "entry fs' n = entry fs n" if "\<forall>k \<ge> 1. n \<noteq> ?s k" for n
    using IH(3) [OF that] that [rule_format, of "Suc m"] that [rule_format, of "Suc m + 1"] by (simp add: f1(1))
  ultimately show ?case using IH(2,4-6) f1(2,3) ok1 by auto
qed

lemma shifted_concat:
  fixes c c' :: "nat \<Rightarrow> bytes"
  assumes "m + 1 < N" and "c' 1 = cur" and "\<And>k. 1 \<le> k \<Longrightarrow> k \<le> m \<Longrightarrow> c' (k + 1) = c k" and "\<And>k. m + 1 < k \<Longrightarrow> c' k = c k" and "c (m + 1) = []"
  shows "concat (map c' (rev [1..<N])) = concat (map c (rev [1..<N])) @ cur"
proof -
  have split: "[1..<N] = [1..<m + 2] @ [m + 2..<N]" 
    using upt_add_eq_append [of 1 "m + 2" "N - (m + 2)"] le_add_diff_inverse [of "m + 2" N] assms(1) by (simp only:)
  have top: "map c' (rev [m + 2..<N]) = map c (rev [m + 2..<N])" using assms(4) by simp
  define xs where "xs = [1..<m + 1]"
  have low: "[1..<m + 2] = 1 # map Suc xs" by (simp add: xs_def upt_conv_Cons map_Suc_upt)
  have eq: "map (c' \<circ> Suc) xs = map c xs" using assms(3) unfolding xs_def by (intro map_cong) auto
  have "concat (map c' (rev (1 # map Suc xs))) = concat (rev (map (c' \<circ> Suc) xs)) @ c' 1" by (simp add: rev_map)
  then have "concat (map c' (rev [1..<m + 2])) = concat (map c (rev xs)) @ cur" unfolding low eq using assms(2) by (simp add: rev_map)
  then have "concat (map c' (rev [1..<m + 2])) = concat (map c (rev [1..<m + 1])) @ cur" unfolding xs_def .
  moreover have "concat (map c (rev [1..<m + 2])) = concat (map c (rev [1..<m + 1]))" using assms(5) by simp
  ultimately show ?thesis unfolding split by (simp only: rev_append map_append concat_append top) simp
qed

text \<open>Archiving keeps the log of every hour and uses one more number at most.\<close>

lemma archive_ok:
  assumes ok: "fs_ok cfg fs" and h: "CHR ''.'' \<notin> set h" and cur: "entry fs (currentFilename cfg h) = Some (RegFile i)" and rm: "room cfg fs (Suc k)"
    and fs': "fs' = shiftAndArchiveLocked no_faults cfg h fs"
  shows "fs_ok cfg fs'" and "room cfg fs' k" and "\<And>h'. CHR ''.'' \<notin> set h' \<Longrightarrow> hour_log cfg fs' h' = hour_log cfg fs h'"
    and "entry fs' (seqFilename cfg h 1) = Some (RegFile i)" and "fs_inodes fs' = fs_inodes fs"
proof -
  let ?s = "seqFilename cfg h" and ?c = "currentFilename cfg h"
  have inj: "?s a = ?s b \<longleftrightarrow> a = b" for a b using seq_inj [OF h h, of cfg a b] by auto
  have plain: "entry fs n = None \<or> (\<exists>i. entry fs n = Some (RegFile i))" if "log_name cfg n" for n using that ok unfolding fs_ok_def by blast
  have free: "not_exist no_faults fs (?s j) \<longleftrightarrow> entry fs (?s j) = None" for j
    using plain [OF log_nameI(2) [OF h], of j] by (auto simp: not_exist_def followed_def)
  define m where "m = max_seq (\<lambda>k. not_exist no_faults fs (?s k)) 0"
  note ms = max_seq_spec [OF m_def]
  have used: "\<forall>j. 1 \<le> j \<and> j \<le> m \<longrightarrow> (\<exists>i. entry fs (?s j) = Some (RegFile i))"
    using ms plain [OF log_nameI(2) [OF h]] unfolding free by (metis One_nat_def Suc_le_eq)
  have bound: "m \<le> 9999"
  proof (rule ccontr)
    assume "\<not> m \<le> 9999"
    then have "{1..10000} \<subseteq> archives cfg fs h" using used by (auto simp: archives_def)
    then have "card {1..10000::nat} \<le> card (archives cfg fs h)" by (intro card_mono) (auto simp: archives_def)
    with rm h show False unfolding room_def by (metis One_nat_def card_atLeastAtMost diff_Suc_1 not_add_less1 linorder_not_less order.strict_trans1 add_leD1)
  qed
  then have top: "entry fs (?s (m + 1)) = None" using ms free by auto
  define fs1 where "fs1 = foldl (shift_step no_faults cfg h) fs (rev [1..<m + 1])"
  note S = shift_entries [OF h used top fs1_def]
  have S1: "entry fs1 (?s 1) = None" "\<And>n. \<forall>k \<ge> 1. n \<noteq> ?s k \<Longrightarrow> entry fs1 n = entry fs n" "fs_inodes fs1 = fs_inodes fs" "fs_next fs1 = fs_next fs"
    and S2: "\<And>k. 1 \<le> k \<Longrightarrow> entry fs1 (?s (k + 1)) = (if k \<le> m then entry fs (?s k) else entry fs (?s (k + 1)))" using S by auto
  have c1: "entry fs1 ?c = Some (RegFile i)" using S1(2) [of ?c] cur h by simp
  have f: "fs' = os_rename no_faults ?c (?s 1) fs1" by (simp add: fs' shiftAndArchiveLocked_def Let_def fs1_def m_def)
  have e: "entry fs' = (entry fs1)(?c := None, ?s 1 \<mapsto> RegFile i)" "fs_inodes fs' = fs_inodes fs" "fs_next fs' = fs_next fs"
    using rename_entry [OF c1 S1(1)] h S1(3,4) unfolding f by auto
  have other: "entry fs' n = entry fs n" if "n \<noteq> ?c" "\<forall>k \<ge> 1. n \<noteq> ?s k" for n using that S1(2) [OF that(2)] that(2) [rule_format, of 1] by (simp add: e(1))
  have numbered: "entry fs' (?s (k + 1)) = (if k = 0 then Some (RegFile i) else if k \<le> m then entry fs (?s k) else entry fs (?s (k + 1)))" for k
    using S2 [of k] h inj by (cases k) (auto simp: e(1))
  have gone: "entry fs' ?c = None" using h by (simp add: e(1))
  have "fs_ok cfg fs1" using S ok by simp
  show "entry fs' (?s 1) = Some (RegFile i)" "fs_inodes fs' = fs_inodes fs" using numbered [of 0] e(2) by simp_all
  from \<open>fs_ok cfg fs1\<close> show "fs_ok cfg fs'" unfolding f by (rule rename_ok [OF _ c1 S1(1)]) (use h in simp)
  have same: "seqFilename cfg h' = ?s \<and> currentFilename cfg h' = ?c" if "\<not> rc_RotateByHour cfg \<or> h' = h" for h'
    using that by (auto simp: seqFilename_def currentFilename_def)
  have away: "entry fs' n = entry fs n"
    if "rc_RotateByHour cfg" "h' \<noteq> h" "CHR ''.'' \<notin> set h'" "n = currentFilename cfg h' \<or> (\<exists>j. n = seqFilename cfg h' j)" for h' n
  proof (rule other)
    show "n \<noteq> ?c" using that(4) current_inj [OF that(3) h that(1)] that(2,3) h by auto
    show "\<forall>k \<ge> 1. n \<noteq> ?s k" using that(1,2,4) seq_inj [OF that(3) h, of cfg] current_not_seq [OF that(3) h, of cfg] by metis
  qed
  have "archives cfg fs' h' \<subseteq> insert (m + 1) (archives cfg fs h')" if h': "CHR ''.'' \<notin> set h'" for h'
  proof (cases "\<not> rc_RotateByHour cfg \<or> h' = h")
    case True
    have "entry fs (?s j) \<noteq> None \<or> j = m + 1" if "1 \<le> j" "entry fs' (?s j) \<noteq> None" for j
      using numbered [of "j - 1"] used that by (cases "j \<le> m") (auto split: if_splits)
    with same [OF True] show ?thesis by (auto simp: archives_def)
  next
    case False
    with away h' have "entry fs' (seqFilename cfg h' j) = entry fs (seqFilename cfg h' j)" for j by blast
    then show ?thesis by (auto simp: archives_def)
  qed
  then have "card (archives cfg fs' h') \<le> Suc (card (archives cfg fs h'))" if "CHR ''.'' \<notin> set h'" for h'
    using card_mono [of "insert (m + 1) (archives cfg fs h')" "archives cfg fs' h'"] that by (force simp: card_insert_if split: if_splits)
  then show "room cfg fs' k" using rm unfolding room_def by fastforce
  fix h' assume h': "CHR ''.'' \<notin> set h'"
  show "hour_log cfg fs' h' = hour_log cfg fs h'"
  proof (cases "\<not> rc_RotateByHour cfg \<or> h' = h")
    case True
    let ?f = "\<lambda>fs k. content fs (?s k)"
    have "concat (map (?f fs') (rev [1..<10001])) = concat (map (?f fs) (rev [1..<10001])) @ content fs ?c"
    proof (rule shifted_concat [where m = m])
      show "m + 1 < 10001" using bound by simp
      show "?f fs' 1 = content fs ?c" using numbered [of 0] cur by (simp add: content_def e(2))
      show "?f fs' (k + 1) = ?f fs k" if "1 \<le> k" "k \<le> m" for k using numbered [of k] that by (intro content_cong e(2)) simp
      show "?f fs' k = ?f fs k" if "m + 1 < k" for k using numbered [of "k - 1"] that by (intro content_cong e(2)) simp
      show "?f fs (m + 1) = []" using top by (simp add: content_def)
    qed
    moreover have "content fs' ?c = []" using gone by (simp add: content_def)
    ultimately show ?thesis unfolding hour_log_def same [OF True, THEN conjunct1] same [OF True, THEN conjunct2] by simp
  next
    case False
    with away h' have "content fs' (seqFilename cfg h' j) = content fs (seqFilename cfg h' j)" "content fs' (currentFilename cfg h') = content fs (currentFilename cfg h')" for j
      by (auto intro!: content_cong simp: e(2))
    then show ?thesis by (simp add: hour_log_def)
  qed
qed

subsection \<open>Writing\<close>

definition writer_ok :: "RotateConfig \<Rightarrow> rotatingWriter \<Rightarrow> filesys \<Rightarrow> bool" where
  "writer_ok cfg w fs \<longleftrightarrow> rw_cfg w = cfg \<and> CHR ''.'' \<notin> set (rw_hour w) \<and> fs_ok cfg fs
     \<and> (\<exists>i. rw_file w = Some (i, True) \<and> entry fs (currentFilename cfg (rw_hour w)) = Some (RegFile i))"

lemma append_ok:
  assumes "fs_ok cfg fs" and "entry fs n = Some (RegFile i)"
  shows "fs_ok cfg (os_append now i p fs)" and "entry (os_append now i p fs) = entry fs"
    and "content (os_append now i p fs) m = (if m = n then content fs n @ p else content fs m)"
proof -
  show "entry (os_append now i p fs) = entry fs" by (simp add: os_append_def)
  show "fs_ok cfg (os_append now i p fs)" using assms(1) by (simp add: os_append_def fs_ok_def)
  have other: "entry fs m \<noteq> Some (RegFile i)" if "m \<noteq> n" using that assms unfolding fs_ok_def by blast
  show "content (os_append now i p fs) m = (if m = n then content fs n @ p else content fs m)"
  proof (cases "m = n")
    case True
    with assms(2) show ?thesis by (simp add: content_def os_append_def)
  next
    case False
    with other show ?thesis by (cases "entry fs m") (simp_all add: content_def os_append_def split: dirent.splits)
  qed
qed

text \<open>The part of the writes that belongs to the log of an hour.\<close>

definition of_hour :: "RotateConfig \<Rightarrow> string \<Rightarrow> gotime \<Rightarrow> bool" where
  "of_hour cfg h t \<longleftrightarrow> (rc_RotateByHour cfg \<longrightarrow> currentHour t = h)"

lemma write_ok:
  assumes ok: "writer_ok cfg w fs" and mb: "rc_MaxBackups cfg \<le> 0" and rm: "room cfg fs (Suc k)"
  obtains w1 fs1 where "Rotating_Write no_faults now p w fs = (w1, fs1, length p, None)" and "writer_ok cfg w1 fs1" and "room cfg fs1 k"
    and "\<And>h. CHR ''.'' \<notin> set h \<Longrightarrow> hour_log cfg fs1 h = hour_log cfg fs h @ (if of_hour cfg h now then p else [])"
proof -
  obtain i where w: "rw_cfg w = cfg" "CHR ''.'' \<notin> set (rw_hour w)" "fs_ok cfg fs" "rw_file w = Some (i, True)"
    "entry fs (currentFilename cfg (rw_hour w)) = Some (RegFile i)" using ok by (auto simp: writer_ok_def)
  have less: "room cfg fs k" if "room cfg fs (Suc k)" for fs using that by (auto simp: room_def)
  let ?shift = "(rc_RotateByHour cfg \<and> currentHour now = rw_hour w) \<or> \<not> rc_RotateByHour cfg"
  define r where "r = (if needRotate w now (int (length p)) then rotateLocked no_faults now w fs else (w, fs, None))"
  have "\<exists>w1 fs1. r = (w1, fs1, None) \<and> writer_ok cfg w1 fs1 \<and> room cfg fs1 k \<and> (rc_RotateByHour cfg \<longrightarrow> rw_hour w1 = currentHour now)
      \<and> (\<forall>h. CHR ''.'' \<notin> set h \<longrightarrow> hour_log cfg fs1 h = hour_log cfg fs h)"
  proof (cases "needRotate w now (int (length p))")
    case False
    then show ?thesis using ok less [OF rm] w(1) by (auto simp: r_def needRotate_def)
  next
    case True
    define fs0 where "fs0 = (if ?shift then shiftAndArchiveLocked no_faults cfg (rw_hour w) fs else fs)"
    have 0: "fs_ok cfg fs0" "room cfg fs0 k" "\<And>h. CHR ''.'' \<notin> set h \<Longrightarrow> hour_log cfg fs0 h = hour_log cfg fs h"
      using archive_ok [OF w(3,2,5) rm refl] w(3) less [OF rm] unfolding fs0_def by (simp_all split: if_splits)
    have r: "r = openLocked no_faults now (w\<lparr>rw_file := None\<rparr>) fs0" using True w by (simp add: r_def rotateLocked_def Let_def fs0_def)
    obtain w1 fs1 j where "openLocked no_faults now (w\<lparr>rw_file := None\<rparr>) fs0 = (w1, fs1, None)" "rw_cfg w1 = cfg" "rw_file w1 = Some (j, True)"
      "rw_hour w1 = currentHour now" "entry fs1 (currentFilename cfg (currentHour now)) = Some (RegFile j)" "fs_ok cfg fs1" "room cfg fs1 k"
      "\<And>h. CHR ''.'' \<notin> set h \<Longrightarrow> hour_log cfg fs1 h = hour_log cfg fs0 h"
      by (rule openLocked_ok [OF 0(1) _ mb 0(2), of "w\<lparr>rw_file := None\<rparr>" now]) (use w(1) in simp, rule that)
    with r 0(3) show ?thesis by (auto simp: writer_ok_def)
  qed
  then obtain w1 fs1 where r1: "r = (w1, fs1, None)" and o1: "writer_ok cfg w1 fs1" "room cfg fs1 k" "rc_RotateByHour cfg \<Longrightarrow> rw_hour w1 = currentHour now"
    and l1: "\<And>h. CHR ''.'' \<notin> set h \<Longrightarrow> hour_log cfg fs1 h = hour_log cfg fs h" by blast
  obtain j where j: "rw_cfg w1 = cfg" "CHR ''.'' \<notin> set (rw_hour w1)" "fs_ok cfg fs1" "rw_file w1 = Some (j, True)"
    "entry fs1 (currentFilename cfg (rw_hour w1)) = Some (RegFile j)" using o1(1) by (auto simp: writer_ok_def)
  note A = append_ok [OF j(3,5), of "tm_unix now" p]
  let ?fs = "os_append (tm_unix now) j p fs1" and ?w = "w1\<lparr>rw_written := wrap_s64 (rw_written w1 + int (length p))\<rparr>"
  show ?thesis
  proof (rule that)
    show "Rotating_Write no_faults now p w fs = (?w, ?fs, length p, None)"
      using r1 j(4) by (simp add: Rotating_Write_def write_file_def flip: r_def)
    show "writer_ok cfg ?w ?fs" using j A(1,2) by (auto simp: writer_ok_def)
    show "room cfg ?fs k" using o1(2) A(2) by (simp add: room_def archives_def)
    fix h assume h: "CHR ''.'' \<notin> set h"
    have cur: "currentFilename cfg h = currentFilename cfg (rw_hour w1) \<longleftrightarrow> of_hour cfg h now"
      using o1(3) current_inj [OF h j(2)] by (cases "rc_RotateByHour cfg") (auto simp: of_hour_def currentFilename_def)
    have "content ?fs (seqFilename cfg h k) = content fs1 (seqFilename cfg h k)" for k using A(3) current_not_seq [OF j(2) h] by simp
    moreover have "content ?fs (currentFilename cfg h) = content fs1 (currentFilename cfg h) @ (if of_hour cfg h now then p else [])"
      using A(3) [of "currentFilename cfg h"] cur by auto
    ultimately have "hour_log cfg ?fs h = hour_log cfg fs1 h @ (if of_hour cfg h now then p else [])" by (simp add: hour_log_def)
    with l1 [OF h] show "hour_log cfg ?fs h = hour_log cfg fs h @ (if of_hour cfg h now then p else [])" by simp
  qed
qed

fun log_run :: "rotatingWriter \<Rightarrow> filesys \<Rightarrow> (gotime \<times> bytes) list \<Rightarrow> rotatingWriter \<times> filesys \<times> (nat \<times> string option) list" where
  "log_run w fs [] = (w, fs, [])"
| "log_run w fs ((t, p) # ops) =
     (case Rotating_Write no_faults t p w fs of
        (w1, fs1, n, e) \<Rightarrow> (case log_run w1 fs1 ops of (w2, fs2, rs) \<Rightarrow> (w2, fs2, (n, e) # rs)))"

lemma log_run_ok:
  assumes "writer_ok cfg w fs" and "rc_MaxBackups cfg \<le> 0" and "room cfg fs (length ops)"
  shows "\<exists>w1 fs1. log_run w fs ops = (w1, fs1, map (\<lambda>(t, p). (length p, None)) ops)
    \<and> (\<forall>h. CHR ''.'' \<notin> set h \<longrightarrow> hour_log cfg fs1 h = hour_log cfg fs h @ concat (map snd (filter (\<lambda>(t, p). of_hour cfg h t) ops)))"
  using assms(1,3)
proof (induction ops arbitrary: w fs)
  case (Cons x ops)
  obtain t p where x: "x = (t, p)" by (cases x)
  obtain w1 fs1 where 1: "Rotating_Write no_faults t p w fs = (w1, fs1, length p, None)" "writer_ok cfg w1 fs1" "room cfg fs1 (length ops)"
    "\<And>h. CHR ''.'' \<notin> set h \<Longrightarrow> hour_log cfg fs1 h = hour_log cfg fs h @ (if of_hour cfg h t then p else [])"
    by (rule write_ok [OF Cons.prems(1) assms(2), of "length ops" t p]) (use Cons.prems(2) in simp, rule that)
  from Cons.IH [OF 1(2,3)] 1(1,4) x show ?case by auto
qed simp

text \<open>C19: The rotation of a log loses nothing. Starting on any directory in which the names of the log are
  plain files, and with no limit on the number of backups, after every sequence of writes at any
  times (also when the clock goes back) each write has reported success, and the archives of an
  hour, from the highest number to the lowest, followed by its current file are what they were
  before, followed by what has been written in that hour, in order; without rotation by the hour this
  is the whole log. Assumed: \<^verbatim>\<open>MaxBackups\<close> is not positive, so that no clean-up deletes archives, no file operation
  fails, and there are free numbers below 10000 for the rotations.\<close>

theorem log_lossless:
  assumes "fs_ok cfg fs0" and "rc_Dir cfg \<noteq> []" and "rc_MaxBackups cfg \<le> 0" and "room cfg fs0 (length ops)"
  shows "\<exists>w fs w1 fs1. NewRotatingWriter no_faults now cfg fs0 = (fs, Inr w) \<and> log_run w fs ops = (w1, fs1, map (\<lambda>(t, p). (length p, None)) ops)
    \<and> (\<forall>h. CHR ''.'' \<notin> set h \<longrightarrow> hour_log cfg fs1 h = hour_log cfg fs0 h @ concat (map snd (filter (\<lambda>(t, p). of_hour cfg h t) ops)))"
proof -
  let ?w = "\<lparr>rw_cfg = cfg, rw_file = None, rw_written = 0, rw_hour = []\<rparr>"
  obtain w fs i where o: "openLocked no_faults now ?w fs0 = (w, fs, None)" "rw_cfg w = cfg" "rw_file w = Some (i, True)" "rw_hour w = currentHour now"
    "entry fs (currentFilename cfg (currentHour now)) = Some (RegFile i)" "fs_ok cfg fs" "room cfg fs (length ops)"
    "\<And>h. CHR ''.'' \<notin> set h \<Longrightarrow> hour_log cfg fs h = hour_log cfg fs0 h"
    by (rule openLocked_ok [OF assms(1) _ assms(3,4), of ?w now]) (simp, rule that)
  have "NewRotatingWriter no_faults now cfg fs0 = (fs, Inr w)" using o(1) assms(2) by (simp add: NewRotatingWriter_def)
  moreover have "writer_ok cfg w fs" using o by (simp add: writer_ok_def)
  ultimately show ?thesis using log_run_ok [OF _ assms(3) o(7)] o(8) by fastforce
qed

text \<open>A log of a megabyte that the next byte exceeds.\<close>

definition demo_rotate :: RotateConfig where
  "demo_rotate = \<lparr>rc_Dir = ''log'', rc_Basename = ''gate'', rc_MaxSizeMB = 1, rc_MaxBackups = 0, rc_RotateByHour = False\<rparr>"

definition demo_time :: gotime where
  "demo_time = \<lparr>tm_year = 2026, tm_month = 5, tm_day = 28, tm_hour = 2, tm_unix = 0\<rparr>"

definition empty_dir :: filesys where
  "empty_dir = \<lparr>fs_dir = [], fs_inodes = \<lambda>i. \<lparr>in_data = [], in_mtime = 0\<rparr>, fs_next = 0\<rparr>"

theorem log_lossless_witness:
  "\<exists>w fs w1 fs1. NewRotatingWriter no_faults demo_time demo_rotate empty_dir = (fs, Inr w)
    \<and> log_run w fs [(demo_time, replicate (1024 * 1024) 65), (demo_time, [66])] = (w1, fs1, [(1024 * 1024, None), (1, None)])
    \<and> hour_log demo_rotate fs1 [] = replicate (1024 * 1024) 65 @ [66]"
proof -
  let ?ops = "[(demo_time, replicate (1024 * 1024) 65), (demo_time, [66])] :: (gotime \<times> bytes) list"
  have "fs_ok demo_rotate empty_dir" "rc_Dir demo_rotate \<noteq> []" "rc_MaxBackups demo_rotate \<le> 0" "room demo_rotate empty_dir (length ?ops)"
    by (simp_all add: fs_ok_def empty_dir_def demo_rotate_def room_def archives_def)
  note * = log_lossless [OF this, of demo_time]
  have "hour_log demo_rotate empty_dir [] = []" by (simp add: hour_log_def content_def empty_dir_def)
  with * show ?thesis by (fastforce simp: of_hour_def demo_rotate_def simp del: replicate.simps)
qed

section \<open>Cleaning up\<close>

lemma removed_entries:
  "fs' = foldl (\<lambda>fs n. os_remove no_faults n fs) fs ns \<Longrightarrow> entry fs' n = (if n \<in> set ns then None else entry fs n) \<and> fs_inodes fs' = fs_inodes fs"
  by (induction ns arbitrary: fs) (auto simp: os_remove_def)

text \<open>
  The clean-up leaves the current file, the link and foreign names alone, keeps as many backups as
  configured, and a backup that it keeps is not older than one that it removes.
\<close>

lemma cleanup_keeps_newest:
  assumes "wf_map (fs_dir fs)" and "0 < rc_MaxBackups cfg" and "fs' = cleanOldFilesLocked no_faults cfg h fs"
    and "bs = {n. \<exists>d. entry fs n = Some d \<and> is_backup cfg h (n, d)}"
  shows "\<And>n. n \<notin> bs \<Longrightarrow> entry fs' n = entry fs n" and "card {n \<in> bs. entry fs' n \<noteq> None} = min (nat (rc_MaxBackups cfg)) (card bs)"
    and "\<And>n m d e. entry fs' n = Some d \<Longrightarrow> n \<in> bs \<Longrightarrow> entry fs m = Some e \<Longrightarrow> entry fs' m = None \<Longrightarrow> mtime_of fs e \<le> mtime_of fs d"
proof -
  define es where "es = sort_key (\<lambda>e. - mtime_of fs (snd e)) (filter (is_backup cfg h) (fs_dir fs))"
  have es: "set es = {e \<in> set (fs_dir fs). is_backup cfg h e}" "distinct (map fst es)" "sorted (map (\<lambda>e. - mtime_of fs (snd e)) es)"
    using assms(1) by (auto simp: es_def wf_map_def mkeys_def distinct_map intro: inj_on_subset)
  have cand: "candidates no_faults cfg h fs = map fst es" by (simp add: candidates_def es_def)
  let ?k = "nat (rc_MaxBackups cfg)"
  have f': "entry fs' n = (if n \<in> set (drop ?k (map fst es)) then None else entry fs n)" for n
    using removed_entries [of fs' fs "drop ?k (map fst es)" n] assms(2,3) cand by (simp add: cleanOldFilesLocked_def)
  have look: "entry fs n = Some d \<longleftrightarrow> (n, d) \<in> set (fs_dir fs)" for n d using wf_map_lookup [OF assms(1)] by auto
  have bs: "bs = set (map fst es)" unfolding assms(4) using es(1) by (auto simp: look image_iff)
  show "entry fs' n = entry fs n" if "n \<notin> bs" for n using that f' bs by (auto dest: in_set_dropD)
  have kept: "{n \<in> bs. entry fs' n \<noteq> None} = set (take ?k (map fst es))"
  proof -
    have "set (take ?k (map fst es)) \<inter> set (drop ?k (map fst es)) = {}" using es(2) by (rule set_take_disj_set_drop_if_distinct) simp
    moreover have "set (map fst es) = set (take ?k (map fst es)) \<union> set (drop ?k (map fst es))" by (metis append_take_drop_id set_append)
    moreover have "entry fs n \<noteq> None" if "n \<in> bs" for n using that assms(4) by auto
    ultimately show ?thesis unfolding bs f' using bs by auto
  qed
  have "card (set (take ?k (map fst es))) = min ?k (length es)" using distinct_card [OF distinct_take [OF es(2)], of ?k] by simp
  then show "card {n \<in> bs. entry fs' n \<noteq> None} = min ?k (card bs)" unfolding kept using distinct_card [OF es(2)] bs by simp
  fix n m d e assume a: "entry fs' n = Some d" "n \<in> bs" "entry fs m = Some e" "entry fs' m = None"
  have "n \<in> set (take ?k (map fst es))" using kept a(1,2) by blast
  then obtain i where i: "i < ?k" "i < length es" "fst (es ! i) = n" by (auto simp: in_set_conv_nth)
  have "m \<in> set (drop ?k (map fst es))" using a(3,4) f' [of m] by (auto split: if_splits)
  then obtain j where j: "?k + j < length es" "fst (es ! (?k + j)) = m" by (auto simp: in_set_conv_nth add.commute less_diff_conv)
  have "entry fs n = Some d" using a(1) f' [of n] by (auto split: if_splits)
  moreover have "es ! i \<in> set (fs_dir fs)" "es ! (?k + j) \<in> set (fs_dir fs)" using es(1) i(2) j(1) nth_mem by blast+
  ultimately have "snd (es ! i) = d" "snd (es ! (?k + j)) = e" using i(3) j(2) a(3) by (metis look option.inject prod.collapse)+
  moreover have "- mtime_of fs (snd (es ! i)) \<le> - mtime_of fs (snd (es ! (?k + j)))"
    using sorted_nth_mono [OF es(3), of i "?k + j"] i j by simp
  ultimately show "mtime_of fs e \<le> mtime_of fs d" by simp
qed

section \<open>Weak points\<close>

text \<open>A failed rotation by hand leaves the writer without a file, and no write opens one until a rotation is due.\<close>

lemma failed_rotate_silences:
  assumes "rw_file w = Some (i, True)" and "ft_open ft = Some e" and "(w1, fs1, r) = Rotating_Rotate ft now w fs" and "\<not> needRotate w1 now' (int (length p))"
    and "in_s64 (rw_written w)"
  shows "r = Some e \<and> Rotating_Write no_faults now' p w1 fs1 = (w1, fs1, 0, Some ''invalid argument'')"
proof -
  have "w1 = w\<lparr>rw_file := None\<rparr>" "r = Some e" using assms(1-3) by (auto simp: Rotating_Rotate_def rotateLocked_def openLocked_def os_open_def Let_def)
  with assms(4,5) show ?thesis by (simp add: Rotating_Write_def write_file_def wrap_s64_id)
qed

text \<open>A second writer of the same file keeps writing to it after the first one has archived it.\<close>

lemma second_writer_extends_archive:
  assumes "fs_ok cfg fs" and "CHR ''.'' \<notin> set h" and "entry fs (currentFilename cfg h) = Some (RegFile i)" and "room cfg fs (Suc k)"
  shows "content (os_append now i p (shiftAndArchiveLocked no_faults cfg h fs)) (seqFilename cfg h 1) = content fs (currentFilename cfg h) @ p"
proof -
  note A = archive_ok [OF assms refl]
  have "content (shiftAndArchiveLocked no_faults cfg h fs) (seqFilename cfg h 1) = content fs (currentFilename cfg h)"
    using A(4,5) assms(3) by (intro content_cong) simp_all
  with append_ok(3) [OF A(1,4)] show ?thesis by simp
qed

text \<open>Logs of another writer whose name continues with a dot count as backups; switching to hours deletes the plain log.\<close>

lemma foreign_log_is_backup: "is_backup (demo_rotate\<lparr>rc_MaxBackups := 3\<rparr>) [] (''gate.access.log'', RegFile 0)"
  by (simp add: is_backup_def demo_rotate_def currentFilename_def suffix_def)

lemma plain_log_deleted:
  "entry fs (rc_Basename cfg @ ''.log'') = Some (RegFile i) \<Longrightarrow> entry (updateSymlinkLocked no_faults cfg t fs) (rc_Basename cfg @ ''.log'') = Some (Symlink t)"
  by (simp add: updateSymlinkLocked_def os_remove_def Let_def)

end
