(* ===== verification/Loggers.thy ===== *)
theory Loggers
  imports Log_Rotate Config_Gen
begin

text \<open>
  Loggers (\<^verbatim>\<open>pkg/logger\<close> without the adapter of the logging library, \<^verbatim>\<open>internal/core/logger\<close>): levels and
  their texts, formats, paths of callers, the filter of the core logger, and the group of three file
  loggers of a server with its construction and shutdown. The logging library is third-party code: a
  backend is the pair of what it has enabled and what it has been given.
\<close>

section \<open>Levels\<close>

datatype Level = DebugLevel | InfoLevel | WarnLevel | ErrorLevel | FatalLevel

fun Level_String :: "Level \<Rightarrow> string" where
  "Level_String DebugLevel = ''debug''"
| "Level_String InfoLevel = ''info''"
| "Level_String WarnLevel = ''warn''"
| "Level_String ErrorLevel = ''error''"
| "Level_String FatalLevel = ''fatal''"

definition UnmarshalText :: "string \<Rightarrow> string + Level" where
  "UnmarshalText text =
     (if text = ''debug'' then Inr DebugLevel
      else if text = ''info'' \<or> text = [] then Inr InfoLevel
      else if text = ''warn'' \<or> text = ''warning'' then Inr WarnLevel
      else if text = ''error'' then Inr ErrorLevel
      else if text = ''fatal'' then Inr FatalLevel
      else Inl (''unknown log level '' @ quoted text))"

datatype Format = FormatConsole | FormatJSON

definition parseLevel :: "string \<Rightarrow> string + Level" where
  "parseLevel s = (case UnmarshalText s of Inl e \<Rightarrow> Inl (''parse log level: '' @ e) | Inr l \<Rightarrow> Inr l)"

definition parseFormat :: "string \<Rightarrow> string + Format" where
  "parseFormat s =
     (if s = [] \<or> s = ''console'' then Inr FormatConsole else if s = ''json'' then Inr FormatJSON
      else Inl (''unknown log format '' @ quoted s))"

lemma level_roundtrip [simp]: "UnmarshalText (Level_String l) = Inr l"
  by (cases l) (simp_all add: UnmarshalText_def)

text \<open>A validated configuration has a level and a format that can be parsed.\<close>

lemma validated_parses: "Log_Validate c = None \<Longrightarrow> (\<exists>l f. parseLevel (lc_Level c) = Inr l \<and> parseFormat (lc_Format c) = Inr f)"
  by (auto simp: Log_Validate_def log_levels_def log_formats_def parseLevel_def UnmarshalText_def parseFormat_def require_def split: if_splits)

section \<open>Paths of callers\<close>

fun split_slash :: "string \<Rightarrow> string list" where
  "split_slash [] = [[]]"
| "split_slash (c # s) = (if c = CHR ''/'' then [] # split_slash s else (case split_slash s of [] \<Rightarrow> [[c]] | p # ps \<Rightarrow> (c # p) # ps))"

fun join_slash :: "string list \<Rightarrow> string" where
  "join_slash [] = []"
| "join_slash [p] = p"
| "join_slash (p # q # ps) = p @ ''/'' @ join_slash (q # ps)"

definition trimCallerPath :: "string \<Rightarrow> nat \<Rightarrow> string" where
  "trimCallerPath full depth =
     (let parts = split_slash full in
      if length parts \<le> depth then full else join_slash (drop (length parts - depth) parts))"

lemma split_slash_nonempty [simp]: "split_slash s \<noteq> []"
  by (induction s) (auto split: list.splits)

lemma join_split: "join_slash (split_slash s) = s"
proof (induction s)
  case (Cons c s)
  obtain p ps where "split_slash s = p # ps" using split_slash_nonempty by (meson neq_Nil_conv)
  with Cons show ?case by (cases ps) auto
qed simp

lemma join_suffix: "0 < k \<Longrightarrow> k \<le> length ps \<Longrightarrow> suffix (join_slash (drop (length ps - k) ps)) (join_slash ps)"
proof (induction ps)
  case (Cons p ps)
  show ?case
  proof (cases "k = length (p # ps)")
    case False
    with Cons.prems have k: "k \<le> length ps" by simp
    then obtain q qs where "ps = q # qs" using Cons.prems(1) by (cases ps) auto
    then have "suffix (join_slash ps) (join_slash (p # ps))" by (auto simp: suffix_def)
    moreover have "drop (length (p # ps) - k) (p # ps) = drop (length ps - k) ps" using k by (simp add: Suc_diff_le)
    ultimately show ?thesis using Cons.IH [OF Cons.prems(1) k] by (metis suffix_order.trans)
  qed simp
qed simp

text \<open>The trimmed path is an end of the path.\<close>

lemma trim_suffix: "0 < depth \<Longrightarrow> suffix (trimCallerPath full depth) full"
  using join_suffix [of depth "split_slash full"] by (simp add: trimCallerPath_def Let_def join_split)

section \<open>The core logger\<close>

record backend =
  bk_enabled :: "Level \<Rightarrow> bool"
  bk_given :: "(Level \<times> string) list"

definition Backend_Log :: "backend \<Rightarrow> Level \<Rightarrow> string \<Rightarrow> backend" where
  "Backend_Log b l msg = b\<lparr>bk_given := bk_given b @ [(l, msg)]\<rparr>"

definition core_log :: "backend \<Rightarrow> Level \<Rightarrow> string \<Rightarrow> backend" where
  "core_log b l msg = (if l = DebugLevel \<and> \<not> bk_enabled b DebugLevel then b else Backend_Log b l msg)"

text \<open>The package functions: a core logger is asked first, the logger that does nothing does nothing.\<close>

definition emit_global :: "backend option \<Rightarrow> Level \<Rightarrow> string \<Rightarrow> backend option" where
  "emit_global g l msg = (case g of None \<Rightarrow> None | Some b \<Rightarrow> Some (if bk_enabled b l then Backend_Log b l msg else b))"

section \<open>The loggers of a server\<close>

record FileLoggerConfig =
  fl_Level :: Level
  fl_Format :: Format
  fl_StderrAlso :: bool
  fl_Rotate :: RotateConfig

text \<open>A file logger is its configuration and its writer; a writer that is closed has no open file.\<close>

record file_logger =
  lg_cfg :: FileLoggerConfig
  lg_rw :: rotatingWriter

definition NewZapFileLogger :: "faults \<Rightarrow> gotime \<Rightarrow> FileLoggerConfig \<Rightarrow> filesys \<Rightarrow> filesys \<times> (string + file_logger)" where
  "NewZapFileLogger ft now cfg fs =
     (case NewRotatingWriter ft now (fl_Rotate cfg) fs of
        (fs1, Inl e) \<Rightarrow> (fs1, Inl e)
      | (fs1, Inr rw) \<Rightarrow> (fs1, Inr \<lparr>lg_cfg = cfg, lg_rw = rw\<rparr>))"

definition LogCloser_Close :: "faults \<Rightarrow> file_logger \<Rightarrow> file_logger \<times> string option" where
  "LogCloser_Close ft l = (case Rotating_Close ft (lg_rw l) of (w, e) \<Rightarrow> (l\<lparr>lg_rw := w\<rparr>, e))"

definition newFileLogger :: "faults \<Rightarrow> gotime \<Rightarrow> bool \<Rightarrow> LogConfig \<Rightarrow> filesys \<Rightarrow> filesys \<times> (string + file_logger)" where
  "newFileLogger ft now daemon cfg fs =
     (case parseLevel (lc_Level cfg) of
        Inl e \<Rightarrow> (fs, Inl e)
      | Inr level \<Rightarrow>
          (case parseFormat (lc_Format cfg) of
             Inl e \<Rightarrow> (fs, Inl e)
           | Inr format \<Rightarrow>
               NewZapFileLogger ft now
                 \<lparr>fl_Level = level, fl_Format = format, fl_StderrAlso = (lc_StderrAlso cfg \<and> \<not> daemon),
                  fl_Rotate = \<lparr>rc_Dir = lc_Dir cfg, rc_Basename = lc_Basename cfg, rc_MaxSizeMB = lc_MaxSizeMb cfg,
                    rc_MaxBackups = lc_MaxBackups cfg, rc_RotateByHour = lc_RotateByHour cfg\<rparr>\<rparr> fs))"

text \<open>
  The group: the loggers that it holds, or the error with every logger that has been opened on the
  way. The faults of the three constructions are arguments.
\<close>

definition NewLoggerGroup :: "(nat \<Rightarrow> faults) \<Rightarrow> gotime \<Rightarrow> bool \<Rightarrow> LoggerGroupConfig \<Rightarrow> filesys \<Rightarrow> filesys \<times> (string \<times> file_logger list + file_logger list)" where
  "NewLoggerGroup ft now daemon cfg fs =
     (case newFileLogger (ft 0) now daemon (lg_Main cfg) fs of
        (fs1, Inl e) \<Rightarrow> (fs1, Inl (e, []))
      | (fs1, Inr main) \<Rightarrow>
          (case newFileLogger (ft 1) now daemon (lg_Res cfg) fs1 of
             (fs2, Inl e) \<Rightarrow> (fs2, Inl (e, [fst (LogCloser_Close (ft 1) main)]))
           | (fs2, Inr res) \<Rightarrow>
               (case newFileLogger (ft 2) now daemon (lg_Tracing cfg) fs2 of
                  (fs3, Inl e) \<Rightarrow> (fs3, Inl (e, [fst (LogCloser_Close (ft 2) main), fst (LogCloser_Close (ft 2) res)]))
                | (fs3, Inr tracing) \<Rightarrow> (fs3, Inr [main, res, tracing]))))"

definition LoggerGroup_Shutdown :: "faults \<Rightarrow> file_logger list \<Rightarrow> file_logger list \<times> string option list" where
  "LoggerGroup_Shutdown ft ls = (map (\<lambda>l. fst (LogCloser_Close ft l)) ls, map (\<lambda>l. snd (LogCloser_Close ft l)) ls)"

definition is_open :: "file_logger \<Rightarrow> bool" where
  "is_open l \<longleftrightarrow> (\<exists>i. rw_file (lg_rw l) = Some (i, True))"

lemma closed_after [simp]: "\<not> is_open (fst (LogCloser_Close ft l))"
  by (auto simp: is_open_def LogCloser_Close_def Rotating_Close_def split: option.splits prod.splits bool.splits)

lemma open_after: "newFileLogger ft now d cfg fs = (fs1, Inr l) \<Longrightarrow> is_open l"
  by (auto simp: newFileLogger_def NewZapFileLogger_def NewRotatingWriter_def openLocked_def is_open_def Let_def
      split: sum.splits prod.splits option.splits)

text \<open>
  No file stays open when the group cannot be made, all three are open when it can, and its
  shutdown closes them.
\<close>

lemma logger_group_balanced:
  "case NewLoggerGroup ft now d cfg fs of
     (fs1, Inl (e, ls)) \<Rightarrow> \<forall>l \<in> set ls. \<not> is_open l
   | (fs1, Inr ls) \<Rightarrow> length ls = 3 \<and> (\<forall>l \<in> set ls. is_open l) \<and> (\<forall>l \<in> set (fst (LoggerGroup_Shutdown ft' ls)). \<not> is_open l)"
  by (auto simp: NewLoggerGroup_def LoggerGroup_Shutdown_def split: sum.splits prod.splits dest!: open_after)

text \<open>
  The configuration of the lobby gives its three loggers one directory and one base name: a logger
  that is opened on a name that another one has open writes to the same file.
\<close>

lemma same_name_same_file:
  assumes "entry fs (currentFilename (rw_cfg w) (currentHour now)) = Some (RegFile i)"
  shows "rw_file (fst (openLocked no_faults now w fs)) = Some (i, True)"
  using assms by (simp add: openLocked_def Let_def os_open_def followed_def)

end
