(* ===== verification/Etcd_Registry.thy ===== *)
theory Etcd_Registry
  imports Discovery Node_Id
begin

text \<open>
  The registry of the RouterAgents (\<^verbatim>\<open>agent/discovery/etcd/registry.go\<close>): registration of nodes under a
  lease, keeping the lease alive and recovering it, and the discovery of nodes by an initial read and
  a watch. The etcd client is third-party code: its operations are the fields of \<open>etcd\<close> and the
  outcome of every call is an argument; an update that fails may have been executed. What etcd
  documents of its operations is \<open>etcd_laws\<close>. The JSON text of a node is represented by the value it
  parses to, and a text that does not parse by \<open>None\<close>.
\<close>

section \<open>Data\<close>

record nodeInfoJSON =
  nj_NodeID :: string
  nj_ServerType :: u32
  nj_RAAddr :: string
  nj_StartAt :: int

type_synonym etcd_value = "nodeInfoJSON option"

text \<open>Operations on the store of the cluster: write under a lease, delete, end of a lease, read.\<close>

record 's etcd =
  et_Put :: "'s \<Rightarrow> string \<Rightarrow> etcd_value \<Rightarrow> int \<Rightarrow> 's"
  et_Delete :: "'s \<Rightarrow> string \<Rightarrow> 's"
  et_EndLease :: "'s \<Rightarrow> int \<Rightarrow> 's"
  et_Get :: "'s \<Rightarrow> string \<Rightarrow> (etcd_value \<times> int) option"

record registeredNode =
  rn_nodeID :: u32
  rn_raAddr :: string
  rn_serverType :: u32
  rn_data :: nodeInfoJSON

record EtcdRegistry =
  er_prefix :: string
  er_lease :: int
  er_nodeID :: u32
  er_raAddr :: string
  er_stopped :: bool
  er_registered :: "(u32, registeredNode) gomap"
  er_keepaliveStarted :: bool

text \<open>The outcome of an update: success, or an error with whether it was executed nevertheless.\<close>

type_synonym outcome = "(string \<times> bool) option"

definition NodePrefix :: "string \<Rightarrow> string \<Rightarrow> u32 \<Rightarrow> string" where
  "NodePrefix clusterName clusterEnv worldID =
     ''/'' @ (if clusterName = [] then ''gameserver'' else clusterName) @ ''/'' @ clusterEnv @ ''/worlds/'' @ dec_nat (unat worldID) @ ''/nodes''"

definition NewEtcdRegistry :: "string list \<Rightarrow> string \<Rightarrow> string option \<Rightarrow> string + EtcdRegistry" where
  "NewEtcdRegistry endpoints prefix newErr =
     (if endpoints = [] then Inl ''etcd endpoints is empty''
      else
        case newErr of
          Some e \<Rightarrow> Inl (''etcd client: '' @ e)
        | None \<Rightarrow> Inr \<lparr>er_prefix = (if prefix = [] then ''/routeragent/nodes'' else prefix), er_lease = 0, er_nodeID = 0, er_raAddr = [],
                       er_stopped = False, er_registered = [], er_keepaliveStarted = False\<rparr>)"

definition nodeKey :: "EtcdRegistry \<Rightarrow> u32 \<Rightarrow> string" where
  "nodeKey r nodeID = er_prefix r @ ''/'' @ nodeid_String nodeID"

definition marshalNodeInfo :: "int \<Rightarrow> u32 \<Rightarrow> string \<Rightarrow> u32 \<Rightarrow> nodeInfoJSON" where
  "marshalNodeInfo now nodeID raAddr serverType =
     \<lparr>nj_NodeID = nodeid_String nodeID, nj_ServerType = serverType, nj_RAAddr = raAddr, nj_StartAt = now\<rparr>"

section \<open>Registration\<close>

text \<open>\<open>gr\<close> is the answer of a grant, asked only when there is no lease; the keepalive loop is started once.\<close>

definition ensureLease :: "EtcdRegistry \<Rightarrow> string + int \<Rightarrow> EtcdRegistry \<times> (string + int)" where
  "ensureLease r gr =
     (if er_lease r \<noteq> 0 then (r, Inr (er_lease r))
      else
        case gr of
          Inl e \<Rightarrow> (r, Inl (''etcd grant: '' @ e))
        | Inr lease \<Rightarrow> (r\<lparr>er_lease := lease, er_keepaliveStarted := True\<rparr>, Inr lease))"

definition rememberNode :: "EtcdRegistry \<Rightarrow> u32 \<Rightarrow> string \<Rightarrow> u32 \<Rightarrow> nodeInfoJSON \<Rightarrow> EtcdRegistry" where
  "rememberNode r nodeID raAddr serverType data =
     r\<lparr>er_registered := mput nodeID \<lparr>rn_nodeID = nodeID, rn_raAddr = raAddr, rn_serverType = serverType, rn_data = data\<rparr> (er_registered r)\<rparr>"

definition PutNode :: "'s etcd \<Rightarrow> int \<Rightarrow> string + int \<Rightarrow> outcome \<Rightarrow> EtcdRegistry \<Rightarrow> 's \<Rightarrow> u32 \<Rightarrow> string \<Rightarrow> u32 \<Rightarrow> EtcdRegistry \<times> 's \<times> string option" where
  "PutNode cli now gr out r s nodeID raAddr serverType =
     (case ensureLease r gr of
        (r1, Inl e) \<Rightarrow> (r1, s, Some e)
      | (r1, Inr lease) \<Rightarrow>
          let key = nodeKey r1 nodeID; data = marshalNodeInfo now nodeID raAddr serverType in
          case out of
            Some (e, executed) \<Rightarrow> (r1, if executed then et_Put cli s key (Some data) lease else s, Some (''etcd put: '' @ e))
          | None \<Rightarrow> (rememberNode r1 nodeID raAddr serverType data, et_Put cli s key (Some data) lease, None))"

text \<open>The transaction writes if the key has no version, that is, if it is absent.\<close>

definition txn_put :: "'s etcd \<Rightarrow> 's \<Rightarrow> string \<Rightarrow> etcd_value \<Rightarrow> int \<Rightarrow> 's \<times> bool" where
  "txn_put cli s key v lease = (if et_Get cli s key = None then (et_Put cli s key v lease, True) else (s, False))"

definition putNodeIfAbsent :: "'s etcd \<Rightarrow> int \<Rightarrow> string + int \<Rightarrow> outcome \<Rightarrow> EtcdRegistry \<Rightarrow> 's \<Rightarrow> u32 \<Rightarrow> string \<Rightarrow> u32 \<Rightarrow> EtcdRegistry \<times> 's \<times> string option" where
  "putNodeIfAbsent cli now gr out r s nodeID raAddr serverType =
     (case ensureLease r gr of
        (r1, Inl e) \<Rightarrow> (r1, s, Some e)
      | (r1, Inr lease) \<Rightarrow>
          let key = nodeKey r1 nodeID; data = marshalNodeInfo now nodeID raAddr serverType in
          case out of
            Some (e, executed) \<Rightarrow>
              (r1, if executed then fst (txn_put cli s key (Some data) lease) else s, Some (''etcd txn put-if-absent: '' @ e))
          | None \<Rightarrow>
              (case txn_put cli s key (Some data) lease of
                 (s1, False) \<Rightarrow> (r1, s1, Some (''etcd node already exists: key='' @ key @ '' node_id='' @ nodeid_String nodeID))
               | (s1, True) \<Rightarrow> (rememberNode r1 nodeID raAddr serverType data, s1, None)))"

definition Etcd_Register :: "'s etcd \<Rightarrow> int \<Rightarrow> string + int \<Rightarrow> outcome \<Rightarrow> EtcdRegistry \<Rightarrow> 's \<Rightarrow> u32 \<Rightarrow> string \<Rightarrow> u32 \<Rightarrow> EtcdRegistry \<times> 's \<times> string option" where
  "Etcd_Register cli now gr out r s nodeID raAddr serverType =
     putNodeIfAbsent cli now gr out (r\<lparr>er_nodeID := nodeID, er_raAddr := raAddr\<rparr>) s nodeID raAddr serverType"

definition DeleteNode :: "'s etcd \<Rightarrow> outcome \<Rightarrow> EtcdRegistry \<Rightarrow> 's \<Rightarrow> u32 \<Rightarrow> EtcdRegistry \<times> 's \<times> string option" where
  "DeleteNode cli out r s nodeID =
     (let r1 = r\<lparr>er_registered := mdel nodeID (er_registered r)\<rparr>; key = nodeKey r1 nodeID in
      case out of
        Some (e, executed) \<Rightarrow> (r1, if executed then et_Delete cli s key else s, Some e)
      | None \<Rightarrow> (r1, et_Delete cli s key, None))"

section \<open>The lease\<close>

datatype keepalive_answer = KeepOk | KeepNil | KeepErr string

definition lease_lost :: "EtcdRegistry \<Rightarrow> int \<Rightarrow> EtcdRegistry" where
  "lease_lost r lease = (if er_lease r = lease then r\<lparr>er_lease := 0\<rparr> else r)"

definition keepaliveOnce :: "EtcdRegistry \<Rightarrow> keepalive_answer \<Rightarrow> EtcdRegistry \<times> string option" where
  "keepaliveOnce r ka =
     (let lease = er_lease r in
      if lease = 0 then (r, None)
      else
        case ka of
          KeepErr e \<Rightarrow> (lease_lost r lease, Some (''etcd keepalive once lease='' @ dec_int lease @ '': '' @ e))
        | KeepNil \<Rightarrow> (lease_lost r lease, Some (''etcd keepalive once lease='' @ dec_int lease @ '' nil response''))
        | KeepOk \<Rightarrow> (r, None))"

text \<open>
  The recovery: under the lock it takes a new lease and copies the registered nodes; then it writes
  them one after the other.
\<close>

definition recover_begin :: "string + int \<Rightarrow> EtcdRegistry \<Rightarrow> EtcdRegistry \<times> (int \<times> registeredNode list) option \<times> string option" where
  "recover_begin gr r =
     (if er_lease r \<noteq> 0 then (r, None, None)
      else
        case gr of
          Inl e \<Rightarrow> (r, None, Some (''etcd grant: '' @ e))
        | Inr lease \<Rightarrow> (r\<lparr>er_lease := lease\<rparr>, Some (lease, map snd (er_registered r)), None))"

definition recover_put :: "'s etcd \<Rightarrow> int \<Rightarrow> outcome \<Rightarrow> EtcdRegistry \<Rightarrow> 's \<Rightarrow> registeredNode \<Rightarrow> EtcdRegistry \<times> 's \<times> string option" where
  "recover_put cli lease out r s reg =
     (let key = nodeKey r (rn_nodeID reg) in
      case out of
        Some (e, executed) \<Rightarrow>
          (lease_lost r lease, if executed then et_Put cli s key (Some (rn_data reg)) lease else s,
           Some (''etcd recover put key='' @ key @ '' node_id='' @ nodeid_String (rn_nodeID reg) @ '': '' @ e))
      | None \<Rightarrow> (r, et_Put cli s key (Some (rn_data reg)) lease, None))"

fun recover_puts :: "'s etcd \<Rightarrow> int \<Rightarrow> outcome list \<Rightarrow> EtcdRegistry \<Rightarrow> 's \<Rightarrow> registeredNode list \<Rightarrow> EtcdRegistry \<times> 's \<times> string option" where
  "recover_puts cli lease outs r s [] = (r, s, None)"
| "recover_puts cli lease outs r s (reg # regs) =
     (case recover_put cli lease (case outs of [] \<Rightarrow> None | out # _ \<Rightarrow> out) r s reg of
        (r1, s1, Some e) \<Rightarrow> (r1, s1, Some e)
      | (r1, s1, None) \<Rightarrow> recover_puts cli lease (tl outs) r1 s1 regs)"

definition recoverLease :: "'s etcd \<Rightarrow> string + int \<Rightarrow> outcome list \<Rightarrow> EtcdRegistry \<Rightarrow> 's \<Rightarrow> EtcdRegistry \<times> 's \<times> string option" where
  "recoverLease cli gr outs r s =
     (case recover_begin gr r of
        (r1, None, e) \<Rightarrow> (r1, s, e)
      | (r1, Some (lease, regs), e) \<Rightarrow> recover_puts cli lease outs r1 s regs)"

text \<open>One round of the keepalive loop, and its end when the registry is closed.\<close>

definition keepalive_tick :: "'s etcd \<Rightarrow> keepalive_answer \<Rightarrow> string + int \<Rightarrow> outcome list \<Rightarrow> EtcdRegistry \<Rightarrow> 's \<Rightarrow> EtcdRegistry \<times> 's" where
  "keepalive_tick cli ka gr outs r s =
     (case keepaliveOnce r ka of
        (r1, None) \<Rightarrow> (r1, s)
      | (r1, Some e) \<Rightarrow> (case recoverLease cli gr outs r1 s of (r2, s2, e2) \<Rightarrow> (r2, s2)))"

definition keepalive_stop :: "'s etcd \<Rightarrow> bool \<Rightarrow> EtcdRegistry \<Rightarrow> 's \<Rightarrow> EtcdRegistry \<times> 's" where
  "keepalive_stop cli executed r s =
     (r\<lparr>er_lease := 0\<rparr>, if er_lease r \<noteq> 0 \<and> executed then et_EndLease cli s (er_lease r) else s)"

definition Etcd_Close :: "EtcdRegistry \<Rightarrow> EtcdRegistry" where
  "Etcd_Close r = (if er_stopped r then r else r\<lparr>er_stopped := True\<rparr>)"

section \<open>Discovery\<close>

definition decodeNodeInfo :: "etcd_value \<Rightarrow> (NodeInfo \<times> u32) option" where
  "decodeNodeInfo data =
     (case data of
        None \<Rightarrow> None
      | Some info \<Rightarrow>
          (case nodeid_Parse (nj_NodeID info) of
             Inl _ \<Rightarrow> None
           | Inr i \<Rightarrow> Some (\<lparr>NodeID = i, RAAddr = nj_RAAddr info, StartAt = nj_StartAt info\<rparr>, nj_ServerType info)))"

text \<open>\<^verbatim>\<open>path.Base\<close> of the standard library.\<close>

definition path_Base :: "string \<Rightarrow> string" where
  "path_Base p =
     (if p = [] then ''.''
      else
        let q = rev (dropWhile (\<lambda>c. c = CHR ''/'') (rev p)); b = rev (takeWhile (\<lambda>c. c \<noteq> CHR ''/'') (rev q))
        in if b = [] then ''/'' else b)"

definition add_event :: "etcd_value \<Rightarrow> member_event list" where
  "add_event v = (case decodeNodeInfo v of None \<Rightarrow> [] | Some (node, serverType) \<Rightarrow> [PutNodeEvent node serverType])"

datatype watch_event = WatchPut string etcd_value | WatchDelete string

fun on_watch_event :: "watch_event \<Rightarrow> member_event list" where
  "on_watch_event (WatchPut key v) = add_event v"
| "on_watch_event (WatchDelete key) = (case nodeid_Parse (path_Base key) of Inl _ \<Rightarrow> [] | Inr i \<Rightarrow> [DeleteNodeEvent i])"

text \<open>What a round of the watch loop sees; the closed registry or channel ends the loop and an error is skipped.\<close>

datatype watch_response = WatchStopped | WatchClosed | WatchError | WatchEvents "watch_event list"

fun watch_loop :: "watch_response list \<Rightarrow> member_event list" where
  "watch_loop [] = []"
| "watch_loop (WatchStopped # rs) = []"
| "watch_loop (WatchClosed # rs) = []"
| "watch_loop (WatchError # rs) = watch_loop rs"
| "watch_loop (WatchEvents evs # rs) = concat (map on_watch_event evs) @ watch_loop rs"

text \<open>The calls of \<^verbatim>\<open>onAdd\<close> and \<^verbatim>\<open>onDel\<close>, first for the initial read, then for the watch.\<close>

definition Discover :: "string + (string \<times> etcd_value) list \<Rightarrow> watch_response list \<Rightarrow> string + member_event list" where
  "Discover got watch =
     (case got of
        Inl e \<Rightarrow> Inl (''etcd get: '' @ e)
      | Inr kvs \<Rightarrow> Inr (concat (map (\<lambda>kv. add_event (snd kv)) kvs) @ watch_loop watch))"

definition PeerAddr :: "'s etcd \<Rightarrow> bool \<Rightarrow> EtcdRegistry \<Rightarrow> 's \<Rightarrow> u32 \<Rightarrow> string option" where
  "PeerAddr cli failed r s nodeID =
     (if failed then None
      else
        case et_Get cli s (nodeKey r nodeID) of
          None \<Rightarrow> None
        | Some (v, _) \<Rightarrow> (case decodeNodeInfo v of None \<Rightarrow> None | Some (node, _) \<Rightarrow> Some (RAAddr node)))"

definition EtcdEndpointsFromEnv :: "(string \<Rightarrow> string) \<Rightarrow> string list" where
  "EtcdEndpointsFromEnv env = (let v = env ''ETCD_ENDPOINTS'' in if v \<noteq> [] then [v] else [])"

section \<open>What etcd documents\<close>

text \<open>A write is read back, a delete removes one key, and the end of a lease removes the keys written under it.\<close>

definition etcd_laws :: "'s etcd \<Rightarrow> bool" where
  "etcd_laws cli \<longleftrightarrow>
     (\<forall>s k v l k'. et_Get cli (et_Put cli s k v l) k' = (if k' = k then Some (v, l) else et_Get cli s k'))
   \<and> (\<forall>s k k'. et_Get cli (et_Delete cli s k) k' = (if k' = k then None else et_Get cli s k'))
   \<and> (\<forall>s l k. et_Get cli (et_EndLease cli s l) k =
        (case et_Get cli s k of None \<Rightarrow> None | Some (v, l') \<Rightarrow> if l' = l then None else Some (v, l')))"

lemma etcd_lawsD:
  assumes "etcd_laws cli"
  shows "et_Get cli (et_Put cli s k v l) k' = (if k' = k then Some (v, l) else et_Get cli s k')"
    and "et_Get cli (et_Delete cli s k) k' = (if k' = k then None else et_Get cli s k')"
    and "et_Get cli (et_EndLease cli s l) k = (case et_Get cli s k of None \<Rightarrow> None | Some (v, l') \<Rightarrow> if l' = l then None else Some (v, l'))"
  using assms by (simp_all add: etcd_laws_def)

lemma mem_mput: "p \<in> set (mput k v m) \<longleftrightarrow> p = (k, v) \<or> p \<in> set m \<and> fst p \<noteq> k"
  by (simp add: mput_def)

section \<open>Interleaved runs\<close>

text \<open>
  The operations lock the registry only for short sections; the calls of etcd run outside, but for
  the grants. Registrations and deletions are made by one goroutine, the main loop of the agent;
  the keepalive loop is another one. \<open>rr_main\<close> and \<open>rr_keeper\<close> say where they are: about to write or
  to remember a node, about to delete a key; waiting for the answer of a keepalive, having lost the
  lease, or writing the copied nodes under a new one. \<open>rr_used\<close> are the leases granted so far,
  \<open>rr_gone\<close> those that have ended.
\<close>

datatype caller =
    Free
  | Writing bool u32 string u32 nodeInfoJSON int
  | Written u32 string u32 nodeInfoJSON int
  | Deleting u32

datatype keeper = Resting | Asked int | Lost | Rewriting int "registeredNode list"

record 's registry_run =
  rr_reg :: EtcdRegistry
  rr_store :: 's
  rr_used :: "int set"
  rr_gone :: "int set"
  rr_main :: caller
  rr_keeper :: keeper

datatype registry_event =
    MainPut int "string + int" u32 string u32
  | MainRegister int "string + int" u32 string u32
  | MainWrite outcome
  | MainRemember
  | MainDelete u32
  | MainDeleteKey outcome
  | KeeperAsk
  | KeeperAnswer keepalive_answer
  | KeeperGrant "string + int"
  | KeeperPut outcome
  | LeaseEnds int

definition grants :: "EtcdRegistry \<Rightarrow> string + int \<Rightarrow> int set" where
  "grants r gr = (if er_lease r \<noteq> 0 then {} else case gr of Inl _ \<Rightarrow> {} | Inr l \<Rightarrow> {l})"

definition begin_write :: "'s registry_run \<Rightarrow> EtcdRegistry \<Rightarrow> bool \<Rightarrow> int \<Rightarrow> string + int \<Rightarrow> u32 \<Rightarrow> string \<Rightarrow> u32 \<Rightarrow> 's registry_run" where
  "begin_write x r absent now gr i ra st =
     (let y = x\<lparr>rr_used := rr_used x \<union> grants r gr\<rparr> in
      case ensureLease r gr of
        (r1, Inl e) \<Rightarrow> y\<lparr>rr_reg := r1\<rparr>
      | (r1, Inr lease) \<Rightarrow> y\<lparr>rr_reg := r1, rr_main := Writing absent i ra st (marshalNodeInfo now i ra st) lease\<rparr>)"

text \<open>A plain write always takes place, the transaction only if the key is absent.\<close>

definition node_write :: "'s etcd \<Rightarrow> bool \<Rightarrow> 's \<Rightarrow> string \<Rightarrow> etcd_value \<Rightarrow> int \<Rightarrow> 's \<times> bool" where
  "node_write cli absent s key v lease = (if absent then txn_put cli s key v lease else (et_Put cli s key v lease, True))"

definition main_write :: "'s etcd \<Rightarrow> outcome \<Rightarrow> 's registry_run \<Rightarrow> 's registry_run" where
  "main_write cli out x =
     (case rr_main x of
        Writing absent i ra st data lease \<Rightarrow>
          (case node_write cli absent (rr_store x) (nodeKey (rr_reg x) i) (Some data) lease of
             (s1, done) \<Rightarrow>
               (case out of
                  Some (e, executed) \<Rightarrow> x\<lparr>rr_store := if executed then s1 else rr_store x, rr_main := Free\<rparr>
                | None \<Rightarrow> x\<lparr>rr_store := s1, rr_main := if done then Written i ra st data lease else Free\<rparr>))
      | _ \<Rightarrow> x)"

definition main_delete_key :: "'s etcd \<Rightarrow> outcome \<Rightarrow> 's registry_run \<Rightarrow> 's registry_run" where
  "main_delete_key cli out x =
     (case rr_main x of
        Deleting i \<Rightarrow>
          x\<lparr>rr_store := if (case out of None \<Rightarrow> True | Some (e, executed) \<Rightarrow> executed) then et_Delete cli (rr_store x) (nodeKey (rr_reg x) i) else rr_store x, rr_main := Free\<rparr>
      | _ \<Rightarrow> x)"

definition keeper_grant :: "string + int \<Rightarrow> 's registry_run \<Rightarrow> 's registry_run" where
  "keeper_grant gr x =
     (case recover_begin gr (rr_reg x) of
        (r1, Some (lease, regs), e) \<Rightarrow> x\<lparr>rr_reg := r1, rr_used := insert lease (rr_used x), rr_keeper := Rewriting lease regs\<rparr>
      | (r1, None, e) \<Rightarrow> x\<lparr>rr_reg := r1, rr_keeper := Resting\<rparr>)"

definition keeper_put :: "'s etcd \<Rightarrow> outcome \<Rightarrow> 's registry_run \<Rightarrow> 's registry_run" where
  "keeper_put cli out x =
     (case rr_keeper x of
        Rewriting lease (reg # regs) \<Rightarrow>
          (case recover_put cli lease out (rr_reg x) (rr_store x) reg of
             (r1, s1, None) \<Rightarrow> x\<lparr>rr_reg := r1, rr_store := s1, rr_keeper := Rewriting lease regs\<rparr>
           | (r1, s1, Some e) \<Rightarrow> x\<lparr>rr_reg := r1, rr_store := s1, rr_keeper := Resting\<rparr>)
      | Rewriting lease [] \<Rightarrow> x\<lparr>rr_keeper := Resting\<rparr>
      | _ \<Rightarrow> x)"

fun registry_step :: "'s etcd \<Rightarrow> 's registry_run \<Rightarrow> registry_event \<Rightarrow> 's registry_run" where
  "registry_step cli x (MainPut now gr i ra st) = (if rr_main x = Free then begin_write x (rr_reg x) False now gr i ra st else x)"
| "registry_step cli x (MainRegister now gr i ra st) =
     (if rr_main x = Free then begin_write x ((rr_reg x)\<lparr>er_nodeID := i, er_raAddr := ra\<rparr>) True now gr i ra st else x)"
| "registry_step cli x (MainWrite out) = main_write cli out x"
| "registry_step cli x MainRemember =
     (case rr_main x of
        Written i ra st data lease \<Rightarrow> x\<lparr>rr_reg := rememberNode (rr_reg x) i ra st data, rr_main := Free\<rparr>
      | _ \<Rightarrow> x)"
| "registry_step cli x (MainDelete i) =
     (if rr_main x = Free then x\<lparr>rr_reg := (rr_reg x)\<lparr>er_registered := mdel i (er_registered (rr_reg x))\<rparr>, rr_main := Deleting i\<rparr> else x)"
| "registry_step cli x (MainDeleteKey out) = main_delete_key cli out x"
| "registry_step cli x KeeperAsk = (if rr_keeper x = Resting \<and> er_lease (rr_reg x) \<noteq> 0 then x\<lparr>rr_keeper := Asked (er_lease (rr_reg x))\<rparr> else x)"
| "registry_step cli x (KeeperAnswer ka) =
     (case rr_keeper x of
        Asked lease \<Rightarrow> if ka = KeepOk then x\<lparr>rr_keeper := Resting\<rparr> else x\<lparr>rr_reg := lease_lost (rr_reg x) lease, rr_keeper := Lost\<rparr>
      | _ \<Rightarrow> x)"
| "registry_step cli x (KeeperGrant gr) = (if rr_keeper x = Lost then keeper_grant gr x else x)"
| "registry_step cli x (KeeperPut out) = keeper_put cli out x"
| "registry_step cli x (LeaseEnds l) = x\<lparr>rr_store := et_EndLease cli (rr_store x) l, rr_gone := insert l (rr_gone x)\<rparr>"

definition registry_start :: "EtcdRegistry \<Rightarrow> 's \<Rightarrow> 's registry_run" where
  "registry_start r s = \<lparr>rr_reg = r, rr_store = s, rr_used = {}, rr_gone = {}, rr_main = Free, rr_keeper = Resting\<rparr>"

text \<open>Without interference the sections of an operation are the operation.\<close>

lemma put_sections:
  assumes "rr_main x = Free" and "PutNode cli now gr out (rr_reg x) (rr_store x) i ra st = (r1, s1, e)"
    and "y = foldl (registry_step cli) x [MainPut now gr i ra st, MainWrite out, MainRemember]"
  shows "rr_reg y = r1 \<and> rr_store y = s1 \<and> rr_main y = Free"
  using assms(1,2) unfolding assms(3)
  by (auto simp: PutNode_def begin_write_def main_write_def node_write_def rememberNode_def ensureLease_def nodeKey_def Let_def
      split: if_splits sum.splits option.splits)

lemma register_sections:
  assumes "rr_main x = Free" and "Etcd_Register cli now gr out (rr_reg x) (rr_store x) i ra st = (r1, s1, e)"
    and "y = foldl (registry_step cli) x [MainRegister now gr i ra st, MainWrite out, MainRemember]"
  shows "rr_reg y = r1 \<and> rr_store y = s1 \<and> rr_main y = Free"
  using assms(1,2) unfolding assms(3)
  by (auto simp: Etcd_Register_def putNodeIfAbsent_def begin_write_def main_write_def node_write_def txn_put_def rememberNode_def ensureLease_def
      nodeKey_def Let_def split: if_splits sum.splits option.splits)

lemma delete_sections:
  assumes "rr_main x = Free" and "DeleteNode cli out (rr_reg x) (rr_store x) i = (r1, s1, e)"
    and "y = foldl (registry_step cli) x [MainDelete i, MainDeleteKey out]"
  shows "rr_reg y = r1 \<and> rr_store y = s1 \<and> rr_main y = Free"
  using assms(1,2) unfolding assms(3)
  by (auto simp: DeleteNode_def main_delete_key_def nodeKey_def Let_def split: if_splits option.splits)

lemma resting_puts: "rr_keeper x = Resting \<Longrightarrow> foldl (registry_step cli) x (map KeeperPut outs) = x"
  by (induction outs arbitrary: x) (simp_all add: keeper_put_def)

lemma rewrite_sections:
  assumes "rr_keeper x = Rewriting lease regs" and "length outs = Suc (length regs)"
    and "recover_puts cli lease outs (rr_reg x) (rr_store x) regs = (r1, s1, e)"
  shows "foldl (registry_step cli) x (map KeeperPut outs) = x\<lparr>rr_reg := r1, rr_store := s1, rr_keeper := Resting\<rparr>"
  using assms
proof (induction regs arbitrary: x outs)
  case Nil
  then show ?case by (cases outs) (auto simp: keeper_put_def)
next
  case (Cons reg regs)
  obtain out outs' where outs: "outs = out # outs'" using Cons.prems(2) by (cases outs) auto
  obtain r2 s2 e2 where p: "recover_put cli lease out (rr_reg x) (rr_store x) reg = (r2, s2, e2)" using prod_cases3 by blast
  show ?case
  proof (cases e2)
    case None
    let ?x = "x\<lparr>rr_reg := r2, rr_store := s2, rr_keeper := Rewriting lease regs\<rparr>"
    have "foldl (registry_step cli) ?x (map KeeperPut outs') = ?x\<lparr>rr_reg := r1, rr_store := s1, rr_keeper := Resting\<rparr>"
      using Cons.prems None p by (intro Cons.IH) (simp_all add: outs)
    with Cons.prems(1) None p show ?thesis by (simp add: outs keeper_put_def)
  next
    case (Some err)
    with Cons.prems p have "r1 = r2" "s1 = s2" by (simp_all add: outs)
    with Cons.prems(1) Some p resting_puts [of "x\<lparr>rr_reg := r2, rr_store := s2, rr_keeper := Resting\<rparr>"] show ?thesis by (simp add: outs keeper_put_def)
  qed
qed

lemma tick_sections:
  assumes "rr_keeper x = Resting" and "keepalive_tick cli ka gr outs (rr_reg x) (rr_store x) = (r1, s1)"
    and "length outs = Suc (length (er_registered (rr_reg x)))"
    and "y = foldl (registry_step cli) x ([KeeperAsk, KeeperAnswer ka, KeeperGrant gr] @ map KeeperPut outs)"
  shows "rr_reg y = r1 \<and> rr_store y = s1 \<and> rr_keeper y = Resting"
proof -
  let ?r = "rr_reg x"
  consider (idle) "er_lease ?r = 0 \<or> ka = KeepOk" | (nogrant) err where "er_lease ?r \<noteq> 0" "ka \<noteq> KeepOk" "gr = Inl err"
    | (recover) l where "er_lease ?r \<noteq> 0" "ka \<noteq> KeepOk" "gr = Inr l" by (cases gr) auto
  then show ?thesis
  proof cases
    case idle
    with assms(1,2) show ?thesis unfolding assms(4)
      by (auto simp: resting_puts keepalive_tick_def keepaliveOnce_def Let_def split: if_splits)
  next
    case nogrant
    with assms(1,2) show ?thesis unfolding assms(4)
      by (cases ka) (auto simp: resting_puts keepalive_tick_def keepaliveOnce_def keeper_grant_def recoverLease_def recover_begin_def lease_lost_def Let_def)
  next
    case recover
    let ?x = "x\<lparr>rr_reg := ?r\<lparr>er_lease := l\<rparr>, rr_used := insert l (rr_used x), rr_keeper := Rewriting l (map snd (er_registered ?r))\<rparr>"
    have y: "y = foldl (registry_step cli) ?x (map KeeperPut outs)"
      using recover assms(1) by (cases ka) (auto simp: assms(4) keeper_grant_def recover_begin_def lease_lost_def)
    obtain e where "recover_puts cli l outs (?r\<lparr>er_lease := l\<rparr>) (rr_store x) (map snd (er_registered ?r)) = (r1, s1, e)"
      using recover assms(2) by (cases ka) (auto simp: keepalive_tick_def keepaliveOnce_def recoverLease_def recover_begin_def lease_lost_def split: prod.splits)
    with rewrite_sections [of ?x l "map snd (er_registered ?r)" outs cli r1 s1 e] assms(3) show ?thesis by (simp add: y)
  qed
qed

section \<open>Registered nodes stay visible\<close>

text \<open>
  The runs: a granted lease is a number other than zero that was never granted before; a
  registration takes a new lease only while no node is registered; the lease is not lost while a
  registration writes and remembers its node.
\<close>

definition granted_ok :: "int set \<Rightarrow> string + int \<Rightarrow> bool" where
  "granted_ok used gr \<longleftrightarrow> (case gr of Inl _ \<Rightarrow> True | Inr l \<Rightarrow> l \<noteq> 0 \<and> l \<notin> used)"

definition begin_ok :: "'s registry_run \<Rightarrow> string + int \<Rightarrow> bool" where
  "begin_ok x gr \<longleftrightarrow> granted_ok (rr_used x) gr \<and> (er_lease (rr_reg x) = 0 \<longrightarrow> er_registered (rr_reg x) = [])"

definition lease_held :: "'s registry_run \<Rightarrow> bool" where
  "lease_held x \<longleftrightarrow>
     (case rr_main x of
        Writing absent i ra st data lease \<Rightarrow> er_lease (rr_reg x) = lease
      | Written i ra st data lease \<Rightarrow> er_lease (rr_reg x) = lease
      | _ \<Rightarrow> True)"

fun event_ok :: "'s registry_run \<Rightarrow> registry_event \<Rightarrow> bool" where
  "event_ok x (MainPut now gr i ra st) = begin_ok x gr"
| "event_ok x (MainRegister now gr i ra st) = begin_ok x gr"
| "event_ok x (MainWrite out) = lease_held x"
| "event_ok x MainRemember = lease_held x"
| "event_ok x (KeeperGrant gr) = granted_ok (rr_used x) gr"
| "event_ok x (LeaseEnds l) = (l \<in> rr_used x)"
| "event_ok x ev = True"

fun run_ok :: "'s etcd \<Rightarrow> 's registry_run \<Rightarrow> registry_event list \<Rightarrow> bool" where
  "run_ok cli x [] = True"
| "run_ok cli x (ev # evs) = (event_ok x ev \<and> run_ok cli (registry_step cli x ev) evs)"

text \<open>The nodes that a recovery still has to write.\<close>

fun to_write :: "keeper \<Rightarrow> u32 set" where
  "to_write (Rewriting lease regs) = rn_nodeID ` set regs"
| "to_write k = {}"

definition names_node :: "u32 \<Rightarrow> nodeInfoJSON \<Rightarrow> bool" where
  "names_node i v \<longleftrightarrow> nj_NodeID v = nodeid_String i"

definition visible :: "'s etcd \<Rightarrow> EtcdRegistry \<Rightarrow> 's \<Rightarrow> u32 \<Rightarrow> bool" where
  "visible cli r s i \<longleftrightarrow> (\<exists>v. et_Get cli s (nodeKey r i) = Some (Some v, er_lease r) \<and> names_node i v)"

definition good_nodes :: "(u32, registeredNode) gomap \<Rightarrow> bool" where
  "good_nodes m \<longleftrightarrow> (\<forall>i reg. (i, reg) \<in> set m \<longrightarrow> rn_nodeID reg = i \<and> names_node i (rn_data reg))"

fun keeper_ok :: "EtcdRegistry \<Rightarrow> keeper \<Rightarrow> bool" where
  "keeper_ok r (Rewriting lease regs) = (er_lease r = lease \<and> lease \<noteq> 0 \<and> (\<forall>reg \<in> set regs. names_node (rn_nodeID reg) (rn_data reg)))"
| "keeper_ok r k = True"

fun main_ok :: "(u32 \<Rightarrow> bool) \<Rightarrow> EtcdRegistry \<Rightarrow> int set \<Rightarrow> caller \<Rightarrow> bool" where
  "main_ok shown r used (Writing absent i ra st data lease) = (names_node i data \<and> lease \<in> used)"
| "main_ok shown r used (Written i ra st data lease) = (names_node i data \<and> lease \<in> used \<and> (er_lease r = lease \<longrightarrow> shown i))"
| "main_ok shown r used (Deleting i) = (i \<notin> fst ` set (er_registered r))"
| "main_ok shown r used Free = True"

definition shown :: "'s etcd \<Rightarrow> 's registry_run \<Rightarrow> u32 \<Rightarrow> bool" where
  "shown cli x i \<longleftrightarrow> er_lease (rr_reg x) \<in> rr_gone x \<or> i \<in> to_write (rr_keeper x) \<or> visible cli (rr_reg x) (rr_store x) i"

definition registry_ok :: "'s etcd \<Rightarrow> 's registry_run \<Rightarrow> bool" where
  "registry_ok cli x \<longleftrightarrow> wf_map (er_registered (rr_reg x)) \<and> good_nodes (er_registered (rr_reg x))
     \<and> 0 \<notin> rr_used x \<and> rr_gone x \<subseteq> rr_used x \<and> (er_lease (rr_reg x) \<noteq> 0 \<longrightarrow> er_lease (rr_reg x) \<in> rr_used x)
     \<and> keeper_ok (rr_reg x) (rr_keeper x) \<and> main_ok (shown cli x) (rr_reg x) (rr_used x) (rr_main x)
     \<and> (er_lease (rr_reg x) \<noteq> 0 \<longrightarrow> (\<forall>i reg. (i, reg) \<in> set (er_registered (rr_reg x)) \<longrightarrow> shown cli x i))"

lemma nodeKey_inj [simp]: "nodeKey r i = nodeKey r j \<longleftrightarrow> i = j"
proof
  assume "nodeKey r i = nodeKey r j"
  then have "nodeid_Parse (nodeid_String i) = nodeid_Parse (nodeid_String j)" by (simp add: nodeKey_def)
  then show "i = j" by (simp add: nodeid_Parse_String)
qed simp

lemma nodeKey_upd [simp]:
  "nodeKey (r\<lparr>er_lease := l\<rparr>) = nodeKey r" "nodeKey (r\<lparr>er_registered := m\<rparr>) = nodeKey r" "nodeKey (r\<lparr>er_keepaliveStarted := b\<rparr>) = nodeKey r"
  "nodeKey (r\<lparr>er_nodeID := i\<rparr>) = nodeKey r" "nodeKey (r\<lparr>er_raAddr := a\<rparr>) = nodeKey r"
  by (simp_all add: nodeKey_def fun_eq_iff)

lemma names_marshal [simp]: "names_node i (marshalNodeInfo now i ra st)"
  by (simp add: names_node_def marshalNodeInfo_def)

lemma visible_decodes: "visible cli r s i \<Longrightarrow> \<exists>a. PeerAddr cli False r s i = Some a"
  by (auto simp: visible_def PeerAddr_def decodeNodeInfo_def names_node_def nodeid_Parse_String)

lemma visible_upd [simp]:
  "visible cli (r\<lparr>er_registered := m\<rparr>) s i = visible cli r s i" "visible cli (r\<lparr>er_keepaliveStarted := b\<rparr>) s i = visible cli r s i"
  "visible cli (r\<lparr>er_nodeID := j\<rparr>) s i = visible cli r s i" "visible cli (r\<lparr>er_raAddr := a\<rparr>) s i = visible cli r s i"
  by (simp_all add: visible_def)

lemma visible_put:
  assumes "etcd_laws cli" and "names_node j v" and "visible cli r s i \<or> i = j"
  shows "visible cli r (et_Put cli s (nodeKey r j) (Some v) (er_lease r)) i"
  using assms(2,3) by (auto simp: visible_def etcd_lawsD [OF assms(1)])

lemma visible_delete: "etcd_laws cli \<Longrightarrow> i \<noteq> j \<Longrightarrow> visible cli r (et_Delete cli s (nodeKey r j)) i = visible cli r s i"
  by (simp add: visible_def etcd_lawsD)

lemma visible_end: "etcd_laws cli \<Longrightarrow> er_lease r \<noteq> l \<Longrightarrow> visible cli r s i \<Longrightarrow> visible cli r (et_EndLease cli s l) i"
  by (auto simp: visible_def etcd_lawsD)

lemma main_ok_mono: "main_ok p r used m \<Longrightarrow> (\<And>i. p i \<Longrightarrow> q i) \<Longrightarrow> used \<subseteq> used' \<Longrightarrow> main_ok q r used' m"
  by (cases m) auto

text \<open>A change of the store that keeps what is shown keeps the invariant.\<close>

lemma registry_ok_store:
  assumes "registry_ok cli x" and "\<And>i. shown cli x i \<Longrightarrow> shown cli (x\<lparr>rr_store := s, rr_gone := g\<rparr>) i" and "g \<subseteq> rr_used x"
  shows "registry_ok cli (x\<lparr>rr_store := s, rr_gone := g\<rparr>)"
  using assms main_ok_mono [of "shown cli x" "rr_reg x" "rr_used x" "rr_main x" "shown cli (x\<lparr>rr_store := s, rr_gone := g\<rparr>)" "rr_used x"]
  by (auto simp: registry_ok_def)

lemma ok_begin:
  assumes ok: "registry_ok cli x" and m: "rr_main x = Free" and b: "begin_ok x gr"
    and r: "r = rr_reg x \<or> r = (rr_reg x)\<lparr>er_nodeID := j, er_raAddr := a\<rparr>"
  shows "registry_ok cli (begin_write x r absent now gr i ra st)"
proof -
  have f: "er_lease r = er_lease (rr_reg x)" "er_registered r = er_registered (rr_reg x)" "\<And>s k. visible cli r s k = visible cli (rr_reg x) s k"
    using r by auto
  have k: "keeper_ok r q = keeper_ok (rr_reg x) q" for q by (cases q) (simp_all add: f)
  show ?thesis
  proof (cases "er_lease (rr_reg x) = 0")
    case False
    then show ?thesis using ok m
      by (auto simp: begin_write_def ensureLease_def f grants_def registry_ok_def shown_def k Let_def)
  next
    case True
    then have none: "er_registered (rr_reg x) = []" using b by (simp add: begin_ok_def)
    have rest: "keeper_ok (r\<lparr>er_lease := l, er_keepaliveStarted := True\<rparr>) (rr_keeper x)" if "l \<noteq> 0" for l
      using ok True by (cases "rr_keeper x") (auto simp: registry_ok_def)
    show ?thesis
    proof (cases gr)
      case (Inl e)
      with True ok m none show ?thesis by (auto simp: begin_write_def ensureLease_def f grants_def registry_ok_def shown_def k Let_def)
    next
      case (Inr l)
      then have l: "l \<noteq> 0" "l \<notin> rr_used x" using b by (auto simp: begin_ok_def granted_ok_def)
      with Inr True ok m none rest [OF l(1)] show ?thesis
        by (auto simp: begin_write_def ensureLease_def f grants_def registry_ok_def good_nodes_def Let_def)
    qed
  qed
qed

lemma store_same [simp]: "x\<lparr>rr_store := rr_store x\<rparr> = x"
  by simp

lemma store_same_main: "x\<lparr>rr_store := rr_store x, rr_main := m\<rparr> = x\<lparr>rr_main := m\<rparr>"
  "x\<lparr>rr_store := rr_store x, rr_keeper := q\<rparr> = x\<lparr>rr_keeper := q\<rparr>"
  by simp_all

lemma shown_put:
  assumes "etcd_laws cli" and "names_node j v" and "lease = er_lease (rr_reg x)" and "shown cli x i \<or> i = j"
  shows "shown cli (x\<lparr>rr_store := et_Put cli (rr_store x) (nodeKey (rr_reg x) j) (Some v) lease\<rparr>) i"
  using assms(4) visible_put [OF assms(1,2), of "rr_reg x" "rr_store x" i] by (auto simp: shown_def assms(3))

lemma ok_write:
  assumes laws: "etcd_laws cli" and ok: "registry_ok cli x" and h: "lease_held x"
  shows "registry_ok cli (main_write cli out x)"
proof (cases "rr_main x")
  case (Writing absent i ra st data lease)
  have d: "names_node i data" "lease \<in> rr_used x" "er_lease (rr_reg x) = lease" using ok h Writing by (auto simp: registry_ok_def lease_held_def)
  let ?s = "et_Put cli (rr_store x) (nodeKey (rr_reg x) i) (Some data) lease"
  obtain s1 w where nw: "node_write cli absent (rr_store x) (nodeKey (rr_reg x) i) (Some data) lease = (s1, w)" by fastforce
  then have cases: "s1 = ?s \<and> w \<or> s1 = rr_store x \<and> \<not> w" by (auto simp: node_write_def txn_put_def split: if_splits)
  have keep: "shown cli x j \<Longrightarrow> shown cli (x\<lparr>rr_store := s, rr_main := m\<rparr>) j" if "s = ?s \<or> s = rr_store x" for s m j
    using that shown_put [OF laws d(1) d(3) [symmetric], of j] by (auto simp: shown_def)
  have new: "shown cli (x\<lparr>rr_store := ?s, rr_main := m\<rparr>) i" for m
    using shown_put [OF laws d(1) d(3) [symmetric], of i] by (simp add: shown_def)
  have "registry_ok cli (x\<lparr>rr_store := s, rr_main := m\<rparr>)"
    if "s = ?s \<or> s = rr_store x" "m = Free \<or> s = ?s \<and> m = Written i ra st data lease" for s m
    using that(2) ok keep [OF that(1)] new d by (auto simp: registry_ok_def)
  note step = this
  show ?thesis
  proof (cases out)
    case None
    with cases step [of s1 Free] step [of s1 "Written i ra st data lease"] show ?thesis by (auto simp: main_write_def Writing nw)
  next
    case (Some ee)
    with cases step [of s1 Free] step [of "rr_store x" Free] show ?thesis by (cases ee) (auto simp: main_write_def Writing nw)
  qed
qed (use ok in \<open>simp_all add: main_write_def\<close>)

lemma ok_remember:
  assumes ok: "registry_ok cli x" and h: "lease_held x" and m: "rr_main x = Written i ra st data lease"
  shows "registry_ok cli (x\<lparr>rr_reg := rememberNode (rr_reg x) i ra st data, rr_main := Free\<rparr>)"
proof -
  let ?y = "x\<lparr>rr_reg := rememberNode (rr_reg x) i ra st data, rr_main := Free\<rparr>"
  have sh: "shown cli ?y j = shown cli x j" for j by (simp add: shown_def rememberNode_def)
  have k: "keeper_ok (rememberNode (rr_reg x) i ra st data) q = keeper_ok (rr_reg x) q" for q by (cases q) (simp_all add: rememberNode_def)
  have "shown cli x i" "names_node i data" using ok h m by (auto simp: registry_ok_def lease_held_def)
  with ok show ?thesis unfolding registry_ok_def sh
    by (auto simp: k) (auto simp: rememberNode_def mem_mput good_nodes_def)
qed

lemma ok_delete:
  assumes ok: "registry_ok cli x"
  shows "registry_ok cli (x\<lparr>rr_reg := (rr_reg x)\<lparr>er_registered := mdel i (er_registered (rr_reg x))\<rparr>, rr_main := Deleting i\<rparr>)"
proof -
  let ?r = "(rr_reg x)\<lparr>er_registered := mdel i (er_registered (rr_reg x))\<rparr>"
  have sh: "shown cli (x\<lparr>rr_reg := ?r, rr_main := Deleting i\<rparr>) j = shown cli x j" for j by (simp add: shown_def)
  have k: "keeper_ok ?r q = keeper_ok (rr_reg x) q" for q by (cases q) simp_all
  from ok show ?thesis unfolding registry_ok_def sh by (auto simp: k good_nodes_def)
qed

lemma ok_delete_key:
  assumes laws: "etcd_laws cli" and ok: "registry_ok cli x"
  shows "registry_ok cli (main_delete_key cli out x)"
proof (cases "rr_main x")
  case (Deleting i)
  let ?y = "\<lambda>s. x\<lparr>rr_store := s, rr_main := Free\<rparr>"
  have "shown cli (?y (et_Delete cli (rr_store x) (nodeKey (rr_reg x) i))) j" if "shown cli x j" "j \<noteq> i" for j
    using that by (auto simp: shown_def visible_delete [OF laws])
  moreover have "i \<notin> fst ` set (er_registered (rr_reg x))" using ok Deleting by (simp add: registry_ok_def)
  then have "j \<noteq> i" if "(j, reg) \<in> set (er_registered (rr_reg x))" for j reg using that by force
  ultimately have "registry_ok cli (?y (et_Delete cli (rr_store x) (nodeKey (rr_reg x) i)))"
    using ok unfolding registry_ok_def by simp blast
  moreover have "registry_ok cli (?y (rr_store x))" using ok by (auto simp: registry_ok_def shown_def)
  ultimately show ?thesis by (simp add: main_delete_key_def Deleting)
qed (use ok in \<open>simp_all add: main_delete_key_def\<close>)

text \<open>Losing the lease leaves nothing to show.\<close>

lemma ok_lost:
  assumes ok: "registry_ok cli x" and q: "q = Resting \<or> q = Lost" and e: "er_lease (rr_reg x) = lease \<or> to_write (rr_keeper x) = {}"
    and s: "er_lease (rr_reg x) \<noteq> lease \<Longrightarrow> s = rr_store x"
  shows "registry_ok cli (x\<lparr>rr_reg := lease_lost (rr_reg x) lease, rr_store := s, rr_keeper := q\<rparr>)"
proof (cases "er_lease (rr_reg x) = lease")
  case True
  have "main_ok p ((rr_reg x)\<lparr>er_lease := 0\<rparr>) (rr_used x) (rr_main x)" for p using ok by (cases "rr_main x") (auto simp: registry_ok_def)
  with True ok q show ?thesis by (auto simp: registry_ok_def lease_lost_def)
next
  case False
  then have "shown cli x j \<Longrightarrow> shown cli (x\<lparr>rr_store := s, rr_keeper := q\<rparr>) j" for j using e s by (auto simp: shown_def)
  with False ok q s show ?thesis by (auto simp: registry_ok_def lease_lost_def elim!: main_ok_mono)
qed

lemma ok_answer:
  assumes ok: "registry_ok cli x" and k: "rr_keeper x = Asked lease"
  shows "registry_ok cli (x\<lparr>rr_keeper := Resting\<rparr>)" and "registry_ok cli (x\<lparr>rr_reg := lease_lost (rr_reg x) lease, rr_keeper := Lost\<rparr>)"
proof -
  have "shown cli (x\<lparr>rr_keeper := Resting\<rparr>) = shown cli x" by (simp add: shown_def k fun_eq_iff)
  then show "registry_ok cli (x\<lparr>rr_keeper := Resting\<rparr>)" using ok by (simp add: registry_ok_def)
  show "registry_ok cli (x\<lparr>rr_reg := lease_lost (rr_reg x) lease, rr_keeper := Lost\<rparr>)"
    using ok_lost [OF ok, of Lost lease "rr_store x"] by (simp add: k)
qed

lemma ok_grant:
  assumes ok: "registry_ok cli x" and k: "rr_keeper x = Lost" and g: "granted_ok (rr_used x) gr"
  shows "registry_ok cli (keeper_grant gr x)"
proof (cases "er_lease (rr_reg x) = 0 \<and> (\<exists>l. gr = Inr l)")
  case True
  then obtain l where l: "er_lease (rr_reg x) = 0" "gr = Inr l" "l \<noteq> 0" "l \<notin> rr_used x" using g by (auto simp: granted_ok_def)
  let ?r = "(rr_reg x)\<lparr>er_lease := l\<rparr>" and ?regs = "map snd (er_registered (rr_reg x))"
  have "main_ok p ?r (insert l (rr_used x)) (rr_main x)" for p using ok l by (cases "rr_main x") (auto simp: registry_ok_def)
  moreover have "keeper_ok ?r (Rewriting l ?regs)" using ok l(3) by (fastforce simp: registry_ok_def good_nodes_def)
  moreover have "i \<in> to_write (Rewriting l ?regs)" if "(i, reg) \<in> set (er_registered (rr_reg x))" for i reg
  proof -
    have "rn_nodeID reg = i" using ok that by (auto simp: registry_ok_def good_nodes_def)
    then show ?thesis using that by (force simp: image_iff)
  qed
  ultimately show ?thesis using ok l by (auto simp: keeper_grant_def recover_begin_def registry_ok_def shown_def)
next
  case False
  then have "keeper_grant gr x = x\<lparr>rr_keeper := Resting\<rparr>" by (cases gr) (auto simp: keeper_grant_def recover_begin_def)
  moreover have "shown cli (x\<lparr>rr_keeper := Resting\<rparr>) = shown cli x" by (simp add: shown_def k fun_eq_iff)
  ultimately show ?thesis using ok by (simp add: registry_ok_def)
qed

lemma ok_rewrite:
  assumes laws: "etcd_laws cli" and ok: "registry_ok cli x"
  shows "registry_ok cli (keeper_put cli out x)"
proof (cases "rr_keeper x")
  case (Rewriting lease all)
  have l: "er_lease (rr_reg x) = lease" using ok Rewriting by (simp add: registry_ok_def)
  show ?thesis
  proof (cases all)
    case Nil
    have "shown cli (x\<lparr>rr_keeper := Resting\<rparr>) = shown cli x" by (simp add: shown_def Rewriting Nil fun_eq_iff)
    then show ?thesis using ok by (auto simp: keeper_put_def Rewriting Nil registry_ok_def)
  next
    case (Cons reg regs)
    let ?s = "et_Put cli (rr_store x) (nodeKey (rr_reg x) (rn_nodeID reg)) (Some (rn_data reg)) lease"
    have n: "names_node (rn_nodeID reg) (rn_data reg)" using ok Rewriting Cons by (simp add: registry_ok_def)
    show ?thesis
    proof (cases out)
      case None
      let ?y = "x\<lparr>rr_store := ?s, rr_keeper := Rewriting lease regs\<rparr>"
      have "shown cli ?y j" if "shown cli x j" for j
        using that visible_put [OF laws n, of "rr_reg x" "rr_store x" j] l by (auto simp: shown_def Rewriting Cons)
      then have "registry_ok cli ?y" using ok Rewriting Cons by (auto simp: registry_ok_def elim!: main_ok_mono)
      then show ?thesis by (simp add: keeper_put_def Rewriting Cons recover_put_def None)
    next
      case (Some ee)
      have "registry_ok cli (x\<lparr>rr_reg := lease_lost (rr_reg x) lease, rr_store := s, rr_keeper := Resting\<rparr>)" for s
        by (rule ok_lost [OF ok]) (simp_all add: l)
      then show ?thesis by (cases ee) (simp add: keeper_put_def Rewriting Cons recover_put_def Some Let_def)
    qed
  qed
qed (use ok in \<open>simp_all add: keeper_put_def\<close>)

lemma ok_end:
  assumes laws: "etcd_laws cli" and ok: "registry_ok cli x" and l: "l \<in> rr_used x"
  shows "registry_ok cli (x\<lparr>rr_store := et_EndLease cli (rr_store x) l, rr_gone := insert l (rr_gone x)\<rparr>)"
proof (rule registry_ok_store [OF ok])
  show "insert l (rr_gone x) \<subseteq> rr_used x" using ok l by (auto simp: registry_ok_def)
  show "shown cli (x\<lparr>rr_store := et_EndLease cli (rr_store x) l, rr_gone := insert l (rr_gone x)\<rparr>) i" if "shown cli x i" for i
    using that visible_end [OF laws, of "rr_reg x" l "rr_store x" i] by (auto simp: shown_def)
qed

lemma registry_ok_step:
  assumes laws: "etcd_laws cli" and ok: "registry_ok cli x" and ev: "event_ok x ev"
  shows "registry_ok cli (registry_step cli x ev)"
proof (cases ev)
  case (MainPut now gr i ra st)
  with ok ev show ?thesis by (auto intro!: ok_begin)
next
  case (MainRegister now gr i ra st)
  with ok ev show ?thesis by (auto intro!: ok_begin)
next
  case MainRemember
  with ok ev ok_remember show ?thesis by (cases "rr_main x") auto
next
  case KeeperAsk
  have "shown cli (x\<lparr>rr_keeper := Asked l\<rparr>) = shown cli x" if "rr_keeper x = Resting" for l by (simp add: shown_def that fun_eq_iff)
  with KeeperAsk ok show ?thesis by (auto simp: registry_ok_def)
next
  case (KeeperAnswer ka)
  with ok ok_answer [OF ok] show ?thesis by (cases "rr_keeper x") simp_all
next
  case (LeaseEnds l)
  with ok_end [OF laws ok] ev show ?thesis by simp
qed (use assms in \<open>auto intro!: ok_write ok_delete ok_delete_key ok_grant ok_rewrite\<close>)

lemma registry_ok_run: "etcd_laws cli \<Longrightarrow> registry_ok cli x \<Longrightarrow> run_ok cli x evs \<Longrightarrow> registry_ok cli (foldl (registry_step cli) x evs)"
  by (induction evs arbitrary: x) (simp_all add: registry_ok_step)

lemma registry_ok_new: "NewEtcdRegistry eps prefix e = Inr r \<Longrightarrow> registry_ok cli (registry_start r s)"
  by (auto simp: NewEtcdRegistry_def registry_ok_def registry_start_def good_nodes_def split: if_splits option.splits)

text \<open>A recovery that is not disturbed and succeeds ends after one write per node.\<close>

lemma recovery_run:
  assumes "rr_keeper x = Rewriting lease regs"
  shows "run_ok cli x (replicate (Suc (length regs)) (KeeperPut None))
    \<and> (\<exists>s. foldl (registry_step cli) x (replicate (Suc (length regs)) (KeeperPut None)) = x\<lparr>rr_store := s, rr_keeper := Resting\<rparr>)"
  using assms
proof (induction regs arbitrary: x)
  case (Cons reg regs)
  let ?y = "registry_step cli x (KeeperPut None)"
  obtain s where y: "?y = x\<lparr>rr_store := s, rr_keeper := Rewriting lease regs\<rparr>" using Cons.prems by (simp add: keeper_put_def recover_put_def)
  from Cons.IH [of ?y] y Cons.prems show ?case by auto
next
  case Nil
  then show ?case by (simp add: keeper_put_def) (rule exI [of _ "rr_store x"], simp)
qed


text \<open>A client whose store is the map from keys to values and leases.\<close>

definition map_etcd :: "(string \<rightharpoonup> etcd_value \<times> int) etcd" where
  "map_etcd = \<lparr>et_Put = (\<lambda>s k v l. s(k \<mapsto> (v, l))), et_Delete = (\<lambda>s k. s(k := None)),
     et_EndLease = (\<lambda>s l k. case s k of None \<Rightarrow> None | Some (v, l') \<Rightarrow> if l' = l then None else Some (v, l')), et_Get = (\<lambda>s. s)\<rparr>"

lemma map_etcd_laws: "etcd_laws map_etcd"
  by (simp add: etcd_laws_def map_etcd_def)

definition fresh_registry :: EtcdRegistry where
  "fresh_registry = \<lparr>er_prefix = ''/n'', er_lease = 0, er_nodeID = 0, er_raAddr = [], er_stopped = False, er_registered = [], er_keepaliveStarted = False\<rparr>"

lemmas registry_eval = fresh_registry_def registry_start_def begin_write_def main_write_def node_write_def grants_def ensureLease_def rememberNode_def
  keeper_grant_def keeper_put_def recover_begin_def recover_put_def lease_lost_def granted_ok_def begin_ok_def lease_held_def mput_def mdel_def Let_def

text \<open>Two nodes are registered, the lease ends, the next keepalive fails; while the recovery writes, a third node is registered.\<close>

definition recovery_history :: "registry_event list" where
  "recovery_history = [MainPut 5 (Inr 11) 7 ''ra:1'' 2, MainWrite None, MainRemember, KeeperAsk, LeaseEnds 11, KeeperAnswer KeepNil,
     KeeperGrant (Inr 12), MainPut 6 (Inr 13) 8 ''ra:1'' 2, KeeperPut None, MainWrite None, KeeperPut None, MainRemember]"


section \<open>Discovery follows the store\<close>

text \<open>The agents of a cluster write node \<open>i\<close> under its own key, always with the server type \<open>stype i\<close>.\<close>

definition node_value :: "(u32 \<Rightarrow> u32) \<Rightarrow> u32 \<Rightarrow> etcd_value \<Rightarrow> bool" where
  "node_value stype i v \<longleftrightarrow> (\<exists>info. v = Some info \<and> names_node i info \<and> nj_ServerType info = stype i)"

definition well_keyed :: "EtcdRegistry \<Rightarrow> (u32 \<Rightarrow> u32) \<Rightarrow> string \<Rightarrow> etcd_value \<Rightarrow> bool" where
  "well_keyed r stype k v \<longleftrightarrow> (\<exists>i. k = nodeKey r i \<and> node_value stype i v)"

fun watch_ok :: "EtcdRegistry \<Rightarrow> (u32 \<Rightarrow> u32) \<Rightarrow> watch_event \<Rightarrow> bool" where
  "watch_ok r stype (WatchPut k v) = well_keyed r stype k v"
| "watch_ok r stype (WatchDelete k) = (\<exists>i. k = nodeKey r i)"

text \<open>The content of the store that a sequence of events leads to.\<close>

fun apply_watch :: "(string \<rightharpoonup> etcd_value) \<Rightarrow> watch_event \<Rightarrow> (string \<rightharpoonup> etcd_value)" where
  "apply_watch c (WatchPut k v) = c(k \<mapsto> v)"
| "apply_watch c (WatchDelete k) = c(k := None)"

definition stored_node :: "EtcdRegistry \<Rightarrow> (string \<rightharpoonup> etcd_value) \<Rightarrow> u32 \<Rightarrow> u32 \<rightharpoonup> NodeInfo" where
  "stored_node r c st i = (case c (nodeKey r i) of None \<Rightarrow> None
     | Some v \<Rightarrow> (case decodeNodeInfo v of None \<Rightarrow> None | Some (node, ty) \<Rightarrow> if ty = st then Some node else None))"

lemma nodeid_String_plain: "CHR ''/'' \<notin> set (nodeid_String i)" "nodeid_String i \<noteq> []"
proof -
  have "digit d \<noteq> CHR ''/''" if "d < 10" for d
    using that by (auto simp: digit_def char_of_eq_iff take_bit_eq_mod)
  then have "CHR ''/'' \<notin> set (dec_nat n)" for n
    using dec_nat_chars [of "CHR ''/''" n] by metis
  then show "CHR ''/'' \<notin> set (nodeid_String i)" by (simp add: nodeid_String_def split: prod.splits)
qed (simp add: nodeid_String_def split: prod.splits)

lemma path_Base_nodeKey [simp]: "path_Base (nodeKey r i) = nodeid_String i"
proof -
  obtain c cs where r: "rev (nodeid_String i) = c # cs" using nodeid_String_plain(2) by (meson neq_Nil_conv rev_is_Nil_conv)
  then have set: "set (nodeid_String i) = set (c # cs)" by (metis set_rev)
  then have c: "c \<noteq> CHR ''/''" "\<forall>x \<in> set (c # cs). x \<noteq> CHR ''/''" using nodeid_String_plain(1) by auto
  have "rev (nodeKey r i) = (c # cs) @ CHR ''/'' # rev (er_prefix r)" by (simp add: nodeKey_def r)
  then show ?thesis using c r unfolding path_Base_def by (auto simp: takeWhile_append2 nodeKey_def Let_def rev_swap)
qed

lemma decode_node_value: "node_value stype i v \<Longrightarrow> \<exists>node. decodeNodeInfo v = Some (node, stype i) \<and> NodeID node = i"
  by (auto simp: node_value_def names_node_def decodeNodeInfo_def nodeid_Parse_String)

definition content_ok :: "EtcdRegistry \<Rightarrow> (u32 \<Rightarrow> u32) \<Rightarrow> (string \<rightharpoonup> etcd_value) \<Rightarrow> bool" where
  "content_ok r stype c \<longleftrightarrow> (\<forall>i v. c (nodeKey r i) = Some v \<longrightarrow> node_value stype i v)"

lemma content_ok_watch: "content_ok r stype c \<Longrightarrow> watch_ok r stype ev \<Longrightarrow> content_ok r stype (apply_watch c ev)"
  by (cases ev) (auto simp: content_ok_def well_keyed_def)

lemma stored_other_type:
  assumes "content_ok r stype c" and "st \<noteq> stype i"
  shows "stored_node r c st i = None"
proof (cases "c (nodeKey r i)")
  case (Some v)
  with assms(1) have "node_value stype i v" by (simp add: content_ok_def)
  from decode_node_value [OF this] Some assms(2) show ?thesis by (auto simp: stored_node_def)
qed (simp add: stored_node_def)

lemma watch_put_event:
  assumes c: "content_ok r stype c" and k: "well_keyed r stype k v"
  shows "foldl reg_event (stored_node r c) (add_event v) = stored_node r (c(k \<mapsto> v))"
proof -
  obtain i where i: "k = nodeKey r i" "node_value stype i v" using k by (auto simp: well_keyed_def)
  obtain node where node: "decodeNodeInfo v = Some (node, stype i)" "NodeID node = i" using decode_node_value [OF i(2)] by blast
  have "((stored_node r c)(stype i := (stored_node r c (stype i))(i \<mapsto> node))) st j = stored_node r (c(k \<mapsto> v)) st j" for st j
    using stored_other_type [OF c, of st i] i node by (cases "j = i") (auto simp: stored_node_def)
  then show ?thesis using node by (simp add: add_event_def fun_eq_iff)
qed

lemma watch_event_follows:
  assumes "content_ok r stype c" and "watch_ok r stype ev"
  shows "foldl reg_event (stored_node r c) (on_watch_event ev) = stored_node r (apply_watch c ev)"
  using assms watch_put_event [OF assms(1)]
  by (cases ev) (auto simp: nodeid_Parse_String stored_node_def fun_eq_iff)

lemma watch_events_follow:
  "content_ok r stype c \<Longrightarrow> list_all (watch_ok r stype) evs \<Longrightarrow>
   foldl reg_event (stored_node r c) (concat (map on_watch_event evs)) = stored_node r (foldl apply_watch c evs)"
  by (induction evs arbitrary: c) (simp_all add: watch_event_follows content_ok_watch)

lemma add_events_put: "concat (map (\<lambda>kv. add_event (snd kv)) kvs) = concat (map on_watch_event (map (\<lambda>kv. WatchPut (fst kv) (snd kv)) kvs))"
  by (simp add: comp_def)

lemma watch_loop_events: "watch_loop (map WatchEvents batches) = concat (map on_watch_event (concat batches))"
  by (induction batches) simp_all

text \<open>C32: The member table of an agent follows the registry: after the initial read and the events of the
  watch, a node is registered for a server type exactly if the store that these events lead to holds a
  value for it with that type, and with that value's data; nodes that were deleted or whose lease ended are gone.\<close>

theorem discovery_mirrors_registry:
  assumes init: "list_all (\<lambda>(k, v). well_keyed r stype k v) kvs" and evs: "list_all (watch_ok r stype) (concat batches)"
    and d: "Discover (Inr kvs) (map WatchEvents batches) = Inr mevs"
  shows "registered (table_after mevs) = stored_node r (foldl apply_watch (foldl (\<lambda>c kv. c(fst kv \<mapsto> snd kv)) Map.empty kvs) (concat batches))"
proof -
  let ?puts = "map (\<lambda>kv. WatchPut (fst kv) (snd kv)) kvs"
  have "list_all (watch_ok r stype) (?puts @ concat batches)" using init evs by (auto simp: list_all_iff)
  moreover have "content_ok r stype Map.empty" "stored_node r Map.empty = (\<lambda>_. Map.empty)"
    by (simp_all add: content_ok_def stored_node_def fun_eq_iff)
  moreover have "mevs = concat (map on_watch_event (?puts @ concat batches))"
    using d by (simp add: Discover_def add_events_put watch_loop_events)
  ultimately have "registered_after mevs = stored_node r (foldl apply_watch Map.empty (?puts @ concat batches))"
    using watch_events_follow [of r stype Map.empty "?puts @ concat batches"] by (simp add: registered_after_def)
  then show ?thesis by (simp add: registered_table_after foldl_map)
qed

theorem discovery_mirrors_registry_witness:
  "let r = \<lparr>er_prefix = ''/n'', er_lease = 0, er_nodeID = 0, er_raAddr = [], er_stopped = False, er_registered = [], er_keepaliveStarted = False\<rparr>;
       v = (\<lambda>i a. Some (marshalNodeInfo 5 i a 2)); kvs = [(nodeKey r 7, v 7 ''a''), (nodeKey r 8, v 8 ''b'')];
       batches = [[WatchPut (nodeKey r 9) (v 9 ''c''), WatchDelete (nodeKey r 7)], [WatchPut (nodeKey r 8) (v 8 ''d'')]];
       mevs = (case Discover (Inr kvs) (map WatchEvents batches) of Inr m \<Rightarrow> m | Inl _ \<Rightarrow> [])
   in registered (table_after mevs) = stored_node r (foldl apply_watch (foldl (\<lambda>c kv. c(fst kv \<mapsto> snd kv)) Map.empty kvs) (concat batches))
      \<and> registered (table_after mevs) 2 7 = None \<and> map_option RAAddr (registered (table_after mevs) 2 8) = Some ''d''"
proof -
  let ?r = "\<lparr>er_prefix = ''/n'', er_lease = 0, er_nodeID = 0, er_raAddr = [], er_stopped = False, er_registered = [], er_keepaliveStarted = False\<rparr>"
  let ?v = "\<lambda>i a. Some (marshalNodeInfo 5 i a 2)"
  let ?kvs = "[(nodeKey ?r 7, ?v 7 ''a''), (nodeKey ?r 8, ?v 8 ''b'')]"
  let ?b = "[[WatchPut (nodeKey ?r 9) (?v 9 ''c''), WatchDelete (nodeKey ?r 7)], [WatchPut (nodeKey ?r 8) (?v 8 ''d'')]]"
  let ?m = "case Discover (Inr ?kvs) (map WatchEvents ?b) of Inr m \<Rightarrow> m | Inl _ \<Rightarrow> []"
  have val: "node_value (\<lambda>_. 2) i (?v i a)" for i a by (simp add: node_value_def marshalNodeInfo_def names_node_def)
  have "list_all (\<lambda>(k, v). well_keyed ?r (\<lambda>_. 2) k v) ?kvs" "list_all (watch_ok ?r (\<lambda>_. 2)) (concat ?b)"
    using val by (auto simp: well_keyed_def)
  from discovery_mirrors_registry [OF this, of ?m]
  have eq: "registered (table_after ?m) = stored_node ?r (foldl apply_watch (foldl (\<lambda>c kv. c(fst kv \<mapsto> snd kv)) Map.empty ?kvs) (concat ?b))"
    by (simp add: Discover_def)
  moreover have "registered (table_after ?m) 2 7 = None" "map_option RAAddr (registered (table_after ?m) 2 8) = Some ''d''"
    unfolding eq by (simp_all add: stored_node_def decodeNodeInfo_def marshalNodeInfo_def nodeid_Parse_String)
  ultimately show ?thesis unfolding Let_def by blast
qed

section \<open>Where registration or discovery falls short\<close>

text \<open>After a recovery that failed there is no lease, and the keepalive loop never recovers the nodes.\<close>

lemma recovery_gives_up:
  "keepalive_tick cli KeepNil (Inl e) outs r s = (r\<lparr>er_lease := 0\<rparr>, s)"
  "er_lease r = 0 \<Longrightarrow> keepalive_tick cli ka gr outs r s = (r, s)"
  by (cases "er_lease r = 0"; simp add: keepalive_tick_def keepaliveOnce_def recoverLease_def recover_begin_def lease_lost_def)+

text \<open>
  The recovery writes the nodes it copied under the lock: a node deleted after the copy and before
  its write is in the store again.
\<close>

lemma delete_during_recovery:
  assumes "etcd_laws cli" and "names_node (rn_nodeID reg) (rn_data reg)"
    and "DeleteNode cli None r s (rn_nodeID reg) = (r1, s1, e)" and "recover_puts cli (er_lease r1) [] r1 s1 [reg] = (r2, s2, e2)"
  shows "map_of (er_registered r2) (rn_nodeID reg) = None \<and> visible cli r2 s2 (rn_nodeID reg)"
  using assms(2-) by (auto simp: DeleteNode_def visible_def recover_put_def etcd_lawsD [OF assms(1)] Let_def)

text \<open>A registration that finds no lease takes a new one and writes its own node only.\<close>

lemma new_lease_forgets:
  assumes "etcd_laws cli" and "er_lease r = 0" and "j \<noteq> i" and "PutNode cli now (Inr l) None r s i ra st = (r1, s1, e)"
  shows "er_lease r1 = l \<and> map_of (er_registered r1) j = map_of (er_registered r) j \<and> PeerAddr cli False r1 s1 j = PeerAddr cli False r s j"
  using assms(2-) by (auto simp: PutNode_def ensureLease_def rememberNode_def PeerAddr_def etcd_lawsD [OF assms(1)] Let_def)

text \<open>
  A registration that has looked up its lease and writes after the keepalive loop has given this
  lease up and recovered: the node is registered, but under a lease that nobody keeps alive, and is
  gone when that lease ends although the registry has a lease.
\<close>

lemma written_under_lost_lease:
  "let x = foldl (registry_step map_etcd) (registry_start fresh_registry Map.empty) [MainPut 5 (Inr 11) 7 ''ra:1'' 2, KeeperAsk, KeeperAnswer KeepNil,
       KeeperGrant (Inr 12), KeeperPut None, MainWrite None, MainRemember, LeaseEnds 11]
   in er_lease (rr_reg x) = 12 \<and> 12 \<notin> rr_gone x \<and> rr_keeper x = Resting \<and> 7 \<in> fst ` set (er_registered (rr_reg x))
     \<and> PeerAddr map_etcd False (rr_reg x) (rr_store x) 7 = None"
  by (simp add: registry_eval map_etcd_def PeerAddr_def nodeKey_def)

text \<open>
  The watch starts at the revision of the store when it is created: a deletion between the read and
  the watch is not seen, and the node stays in the table.
\<close>

lemma watch_gap_keeps_node:
  assumes "decodeNodeInfo v = Some (node, st)" and "Discover (Inr [(k, v)]) (map WatchEvents []) = Inr mevs"
  shows "registered (table_after mevs) st (NodeID node) = Some node \<and> stored_node r (apply_watch [k \<mapsto> v] (WatchDelete k)) st (NodeID node) = None"
  using assms by (auto simp: Discover_def add_event_def registered_table_after registered_after_def stored_node_def)

end
