(* ===== verification/Executables.thy ===== *)
theory Executables
  imports Server_Modules Loggers Etcd_Registry
begin

text \<open>
  The executables (\<^verbatim>\<open>cmd/*/main.go\<close>), the builders of the servers (\<^verbatim>\<open>internal/server/*/builder.go\<close>) and the
  handling of daemons and PID files (\<^verbatim>\<open>internal/core/process\<close>). The command line arrives parsed; what the system
  answers is an argument. A panic of a builder is a value of the result.
\<close>

section \<open>Options\<close>

text \<open>The options of every server and the path of its own configuration.\<close>

record Options =
  op_PidFile :: string
  op_Daemon :: bool
  op_Pprof :: bool
  op_PprofAddr :: string
  op_CommonConfigPath :: string
  op_NodeID :: string
  op_ConfigPath :: string

text \<open>The values of the flags that are not given.\<close>

definition bindFlags :: "string \<Rightarrow> Options" where
  "bindFlags svr = \<lparr>op_PidFile = svr @ ''.pid'', op_Daemon = False, op_Pprof = False, op_PprofAddr = ''127.0.0.1:6060'',
     op_CommonConfigPath = [], op_NodeID = [], op_ConfigPath = []\<rparr>"

section \<open>Builders\<close>

definition NewBaseBuilder :: BaseBuilder where
  "NewBaseBuilder = \<lparr>bb_daemon = False, bb_pprof = False, bb_pprofAddr = [], bb_nodeID = [], bb_modules = [], bb_shutdownHooks = [], bb_reloadHooks = []\<rparr>"

definition SetDaemon :: "BaseBuilder \<Rightarrow> bool \<Rightarrow> BaseBuilder" where "SetDaemon b daemon = b\<lparr>bb_daemon := daemon\<rparr>"
definition SetPprof :: "BaseBuilder \<Rightarrow> bool \<Rightarrow> string \<Rightarrow> BaseBuilder" where "SetPprof b enabled addr = b\<lparr>bb_pprof := enabled, bb_pprofAddr := addr\<rparr>"
definition Builder_SetNodeID :: "BaseBuilder \<Rightarrow> string \<Rightarrow> BaseBuilder" where "Builder_SetNodeID b nodeID = b\<lparr>bb_nodeID := nodeID\<rparr>"

text \<open>Shutdown hook 0 closes the loggers, reload hook 0 is \<^verbatim>\<open>ReloadConfig\<close> of the server.\<close>

definition base_builder :: "Options \<Rightarrow> Module \<Rightarrow> BaseBuilder" where
  "base_builder o1 m =
     AddReloadHook (AddShutdownHook (AddModule (Builder_SetNodeID (SetPprof (SetDaemon NewBaseBuilder (op_Daemon o1)) (op_Pprof o1) (op_PprofAddr o1)) (op_NodeID o1)) m)
       (UserHook 0)) 0"

text \<open>The three steps that may panic, and what a builder leaves: the configuration of the package, the loggers, the builder.\<close>

definition must :: "string \<Rightarrow> string + 'a \<Rightarrow> string + 'a" where
  "must what r = (case r of Inl e \<Rightarrow> Inl (what @ '': '' @ e) | Inr x \<Rightarrow> Inr x)"

type_synonym 'l built = "(Common_Config, 'l) LobbyConfigs \<times> file_logger list \<times> BaseBuilder"

definition build_server ::
  "string \<Rightarrow> (string + Common_Config ConfigEntry) \<Rightarrow> (string + 'l ConfigEntry) \<Rightarrow> ('l \<Rightarrow> LoggerGroupConfig) \<Rightarrow>
   (nat \<Rightarrow> faults) \<Rightarrow> gotime \<Rightarrow> Options \<Rightarrow> Module \<Rightarrow> filesys \<Rightarrow> filesys \<times> (string + 'l built)" where
  "build_server name common own loggers ft now o1 m fs =
     (case must ''load common config'' common of
        Inl e \<Rightarrow> (fs, Inl e)
      | Inr c \<Rightarrow>
          (case must (''load '' @ name @ '' config'') own of
             Inl e \<Rightarrow> (fs, Inl e)
           | Inr l \<Rightarrow>
               (case NewLoggerGroup ft now (op_Daemon o1) (loggers (the (ce_data l))) fs of
                  (fs1, Inl (e, opened)) \<Rightarrow> (fs1, Inl (''init '' @ name @ '' logger: '' @ e))
                | (fs1, Inr ls) \<Rightarrow> (fs1, Inr (\<lparr>lc_common = Some c, lc_lobby = Some l, lc_hooks = []\<rparr>, ls, base_builder o1 m)))))"

definition NewGateBuilder :: "sources \<Rightarrow> Gate_Config decoders \<Rightarrow> (nat \<Rightarrow> faults) \<Rightarrow> gotime \<Rightarrow> Options \<Rightarrow> Module \<Rightarrow> filesys \<Rightarrow> filesys \<times> (string + Gate_Config built)" where
  "NewGateBuilder src dec ft now o1 =
     build_server ''gate'' (NewCommonConfigEntry src (fst dec) (op_CommonConfigPath o1)) (NewGateConfigEntry src (snd dec) (op_ConfigPath o1)) ga_LoggerGroup ft now o1"

definition NewLobbyBuilder :: "sources \<Rightarrow> Lobby_Config decoders \<Rightarrow> (nat \<Rightarrow> faults) \<Rightarrow> gotime \<Rightarrow> Options \<Rightarrow> Module \<Rightarrow> filesys \<Rightarrow> filesys \<times> (string + Lobby_Config built)" where
  "NewLobbyBuilder src dec ft now o1 =
     build_server ''lobby'' (NewCommonConfigEntry src (fst dec) (op_CommonConfigPath o1)) (NewLobbyConfigEntry src (snd dec) (op_ConfigPath o1)) lo_LoggerGroup ft now o1"

definition NewMatchBuilder :: "sources \<Rightarrow> Match_Config decoders \<Rightarrow> (nat \<Rightarrow> faults) \<Rightarrow> gotime \<Rightarrow> Options \<Rightarrow> Module \<Rightarrow> filesys \<Rightarrow> filesys \<times> (string + Match_Config built)" where
  "NewMatchBuilder src dec ft now o1 =
     build_server ''match'' (NewCommonConfigEntry src (fst dec) (op_CommonConfigPath o1)) (NewMatchConfigEntry src (snd dec) (op_ConfigPath o1)) mt_LoggerGroup ft now o1"

definition NewOnlineBuilder :: "sources \<Rightarrow> Online_Config decoders \<Rightarrow> (nat \<Rightarrow> faults) \<Rightarrow> gotime \<Rightarrow> Options \<Rightarrow> Module \<Rightarrow> filesys \<Rightarrow> filesys \<times> (string + Online_Config built)" where
  "NewOnlineBuilder src dec ft now o1 =
     build_server ''online'' (NewCommonConfigEntry src (fst dec) (op_CommonConfigPath o1)) (NewOnlineConfigEntry src (snd dec) (op_ConfigPath o1)) on_LoggerGroup ft now o1"

definition NewRoomBuilder :: "sources \<Rightarrow> Room_Config decoders \<Rightarrow> (nat \<Rightarrow> faults) \<Rightarrow> gotime \<Rightarrow> Options \<Rightarrow> Module \<Rightarrow> filesys \<Rightarrow> filesys \<times> (string + Room_Config built)" where
  "NewRoomBuilder src dec ft now o1 =
     build_server ''room'' (NewCommonConfigEntry src (fst dec) (op_CommonConfigPath o1)) (NewRoomConfigEntry src (snd dec) (op_ConfigPath o1)) ro_LoggerGroup ft now o1"

text \<open>The agent gets its runtime configured and a registry under the prefix of the cluster; \<open>etcdErr\<close> is the answer of the etcd client.\<close>

definition agent_runtime :: "Routeragent_Config \<Rightarrow> AgentServer \<Rightarrow> AgentServer" where
  "agent_runtime cfg sv = ApplyConfig sv (ra_SockPath cfg) (ra_ListenAddr cfg) (ra_HeartbeatSec cfg)"

definition NewRouteragentBuilder ::
  "sources \<Rightarrow> Routeragent_Config decoders \<Rightarrow> (nat \<Rightarrow> faults) \<Rightarrow> gotime \<Rightarrow> string option \<Rightarrow> AgentServer \<Rightarrow> Options \<Rightarrow> Module \<Rightarrow> filesys \<Rightarrow>
     filesys \<times> (string + Routeragent_Config built \<times> AgentServer \<times> EtcdRegistry)" where
  "NewRouteragentBuilder src dec ft now etcdErr sv o1 m fs =
     (case build_server ''routeragent'' (NewCommonConfigEntry src (fst dec) (op_CommonConfigPath o1)) (NewRouteragentConfigEntry src (snd dec) (op_ConfigPath o1)) ra_LoggerGroup ft now o1 m fs of
        (fs1, Inl e) \<Rightarrow> (fs1, Inl e)
      | (fs1, Inr (st, ls, b)) \<Rightarrow>
          let common = the (CommonConfig st);
              prefix = NodePrefix (cl_Name (co_Cluster common)) (cl_Env (co_Cluster common)) (cl_WorldId (co_Cluster common))
          in (case must ''init routeragent etcd registry'' (NewEtcdRegistry (et_Endpoints (co_Etcd common)) prefix etcdErr) of
                Inl e \<Rightarrow> (fs1, Inl e)
              | Inr reg \<Rightarrow> (fs1, Inr ((st, ls, b), agent_runtime (the (LobbyConfig st)) sv, reg))))"

section \<open>Daemons and PID files\<close>

text \<open>\<open>child\<close> tells whether the environment marks the process as the started one; the result tells whether a child was started.\<close>

definition StartDaemon :: "bool \<Rightarrow> string option \<Rightarrow> string option \<Rightarrow> bool \<times> string option" where
  "StartDaemon child startErr releaseErr =
     (if child then (False, None)
      else case startErr of Some e \<Rightarrow> (False, Some e) | None \<Rightarrow> (True, releaseErr))"

type_synonym pid_files = "string \<rightharpoonup> string"

definition WritePIDFile :: "string \<Rightarrow> nat \<Rightarrow> string option \<Rightarrow> pid_files \<Rightarrow> pid_files \<times> string option" where
  "WritePIDFile path pid writeErr files =
     (if path = [] then (files, None)
      else case writeErr of Some e \<Rightarrow> (files, Some e) | None \<Rightarrow> (files(path \<mapsto> dec_nat pid @ [CHR 0x0A]), None))"

text \<open>A file that does not exist is no error.\<close>

definition RemovePIDFile :: "string \<Rightarrow> string option \<Rightarrow> pid_files \<Rightarrow> pid_files \<times> string option" where
  "RemovePIDFile path removeErr files =
     (if path = [] then (files, None)
      else case removeErr of Some e \<Rightarrow> (files, if files path = None then None else Some e) | None \<Rightarrow> (files(path := None), None))"

section \<open>Main\<close>

text \<open>The answers of the system to a run of the program.\<close>

record run_env =
  re_child :: bool
  re_startErr :: "string option"
  re_releaseErr :: "string option"
  re_pid :: nat
  re_writeErr :: "string option"
  re_removeErr :: "string option"
  re_pprofFails :: bool
  re_inputs :: "loop_input list"

datatype exec_result = ExecError string | ExecBadNodeID nodeid_error | ExecPanics string | ExecParent | ExecRuns | ExecDone

text \<open>The checks of the options, in the order of the code.\<close>

definition check_options :: "string \<Rightarrow> string list \<Rightarrow> Options \<Rightarrow> exec_result option" where
  "check_options cfgName args o1 =
     (if args \<noteq> [] then Some (ExecError (''unexpected args: ['' @ join_space args @ '']''))
      else if op_CommonConfigPath o1 = [] then Some (ExecError ''common config path is required'')
      else if op_ConfigPath o1 = [] then Some (ExecError (cfgName @ '' config path is required''))
      else if op_NodeID o1 = [] then Some (ExecError ''nodeid is required'')
      else case nodeid_Parse (op_NodeID o1) of Inl e \<Rightarrow> Some (ExecBadNodeID e) | Inr _ \<Rightarrow> None)"

text \<open>The part behind the builder: the PID file is removed when \<^verbatim>\<open>Startup\<close> returns, whatever it returns.\<close>

definition run_app :: "string \<Rightarrow> run_env \<Rightarrow> Options \<Rightarrow> BaseBuilder \<Rightarrow> pid_files \<Rightarrow> pid_files \<times> exec_result" where
  "run_app svr env o1 b files =
     (case Build b of
        Inl e \<Rightarrow> (files, ExecError (''build '' @ svr @ '' app: '' @ e))
      | Inr app \<Rightarrow>
          (case WritePIDFile (op_PidFile o1) (re_pid env) (re_writeErr env) files of
             (files1, Some e) \<Rightarrow> (files1, ExecError (''write '' @ svr @ '' pid file: '' @ e))
           | (files1, None) \<Rightarrow>
               (case snd (Startup (re_pprofFails env) app (re_inputs env)) of
                  StartupFailed e \<Rightarrow> (fst (RemovePIDFile (op_PidFile o1) (re_removeErr env) files1), ExecError e)
                | StartupReturned \<Rightarrow> (fst (RemovePIDFile (op_PidFile o1) (re_removeErr env) files1), ExecDone)
                | _ \<Rightarrow> (files1, ExecRuns))))"

definition execute ::
  "string \<Rightarrow> string \<Rightarrow> run_env \<Rightarrow> string list \<Rightarrow> Options \<Rightarrow> (filesys \<Rightarrow> filesys \<times> (string + BaseBuilder)) \<Rightarrow> filesys \<Rightarrow> pid_files \<Rightarrow> filesys \<times> pid_files \<times> exec_result" where
  "execute cfgName svr env args o1 build fs files =
     (case check_options cfgName args o1 of
        Some r \<Rightarrow> (fs, files, r)
      | None \<Rightarrow>
          (case if op_Daemon o1 then StartDaemon (re_child env) (re_startErr env) (re_releaseErr env) else (False, None) of
             (_, Some e) \<Rightarrow> (fs, files, ExecError (''start '' @ svr @ '' daemon: '' @ e))
           | (True, None) \<Rightarrow> (fs, files, ExecParent)
           | (False, None) \<Rightarrow>
               (case build fs of
                  (fs1, Inl e) \<Rightarrow> (fs1, files, ExecPanics e)
                | (fs1, Inr b) \<Rightarrow> (fs1, run_app svr env o1 b files))))"

text \<open>The main functions of the six programs; they differ in names only.\<close>

definition built_only :: "filesys \<times> (string + 'a) \<Rightarrow> ('a \<Rightarrow> BaseBuilder) \<Rightarrow> filesys \<times> (string + BaseBuilder)" where
  "built_only r f = (fst r, map_sum id f (snd r))"

definition gatesvr_execute where
  "gatesvr_execute src dec ft now m env args o1 =
     execute ''gate'' ''gate'' env args o1 (\<lambda>fs. built_only (NewGateBuilder src dec ft now o1 m fs) (\<lambda>(st, ls, b). b))"

definition lobbysvr_execute where
  "lobbysvr_execute src dec ft now m env args o1 =
     execute ''lobby'' ''lobby'' env args o1 (\<lambda>fs. built_only (NewLobbyBuilder src dec ft now o1 m fs) (\<lambda>(st, ls, b). b))"

definition matchsvr_execute where
  "matchsvr_execute src dec ft now m env args o1 =
     execute ''match'' ''matchsvr'' env args o1 (\<lambda>fs. built_only (NewMatchBuilder src dec ft now o1 m fs) (\<lambda>(st, ls, b). b))"

definition onlinesvr_execute where
  "onlinesvr_execute src dec ft now m env args o1 =
     execute ''online'' ''onlinesvr'' env args o1 (\<lambda>fs. built_only (NewOnlineBuilder src dec ft now o1 m fs) (\<lambda>(st, ls, b). b))"

definition roomsvr_execute where
  "roomsvr_execute src dec ft now m env args o1 =
     execute ''room'' ''roomsvr'' env args o1 (\<lambda>fs. built_only (NewRoomBuilder src dec ft now o1 m fs) (\<lambda>(st, ls, b). b))"

definition routeragent_execute where
  "routeragent_execute src dec ft now etcdErr sv m env args o1 =
     execute ''routeragent'' ''routeragent'' env args o1
       (\<lambda>fs. built_only (NewRouteragentBuilder src dec ft now etcdErr sv o1 m fs) (\<lambda>((st, ls, b), sv, reg). b))"

section \<open>Builders\<close>

text \<open>A builder that does not panic has loaded both configurations and holds the loggers of its configuration.\<close>

lemma build_server_ok:
  assumes "build_server name common own loggers ft now o1 m fs = (fs1, Inr (st, ls, b))"
  shows "lc_common st \<noteq> None \<and> lc_lobby st \<noteq> None \<and> common = Inr (the (lc_common st)) \<and> own = Inr (the (lc_lobby st))
    \<and> NewLoggerGroup ft now (op_Daemon o1) (loggers (the (ce_data (the (lc_lobby st))))) fs = (fs1, Inr ls) \<and> b = base_builder o1 m"
proof (cases common; cases own)
  fix c l assume cl: "common = Inr c" "own = Inr l"
  obtain fs2 g where g: "NewLoggerGroup ft now (op_Daemon o1) (loggers (the (ce_data l))) fs = (fs2, g)" by fastforce
  with assms cl show ?thesis by (cases g) (auto simp: build_server_def must_def)
qed (use assms in \<open>simp_all add: build_server_def must_def\<close>)

lemma NewConfigEntry_loaded: "NewConfigEntry path load check = Inr e \<Longrightarrow> load path = Inr (the (ce_data e)) \<and> ce_data e \<noteq> None"
  by (auto simp: NewConfigEntry_def Entry_Reload_def split: sum.splits option.splits)

text \<open>The application that is built has the one module, the hooks and the number of the node that the options name.\<close>

lemma base_builder_fields:
  "bb_modules (base_builder o1 m) = [m]" "bb_shutdownHooks (base_builder o1 m) = [UserHook 0]" "bb_reloadHooks (base_builder o1 m) = [0]"
  "bb_nodeID (base_builder o1 m) = op_NodeID o1" "bb_daemon (base_builder o1 m) = op_Daemon o1" "bb_pprof (base_builder o1 m) = op_Pprof o1"
  by (simp_all add: base_builder_def NewBaseBuilder_def SetDaemon_def SetPprof_def Builder_SetNodeID_def AddModule_def AddShutdownHook_def AddReloadHook_def)

lemma base_builder_builds:
  assumes "mo_name m \<noteq> []"
  shows "\<exists>app. Build (base_builder o1 m) = Inr app \<and> ba_modulesArray app = [m] \<and> ba_shutdownHooks app = [UserHook 0] \<and> ba_reloadHooks app = [0]
    \<and> ba_nodeID app = op_NodeID o1 \<and> ba_daemon app = op_Daemon o1 \<and> ba_pprof app = op_Pprof o1"
proof -
  let ?b = "base_builder o1 m"
  define app where "app = NewBaseApp (bb_daemon ?b) (bb_pprof ?b) (bb_pprofAddr ?b) (bb_nodeID ?b) (bb_shutdownHooks ?b) (bb_reloadHooks ?b)"
  have f: "ba_modulesArray app = []" "ba_modulesMap app = []" "ba_shutdownHooks app = [UserHook 0]" "ba_reloadHooks app = [0]"
    "ba_nodeID app = op_NodeID o1" "ba_daemon app = op_Daemon o1" "ba_pprof app = op_Pprof o1"
    by (simp_all add: app_def NewBaseApp_def base_builder_fields)
  have "Build ?b = register_all app [m]" by (simp add: Build_def app_def base_builder_fields)
  also have "\<dots> = Inr (app\<lparr>ba_modulesMap := mput (mo_name m) m [], ba_modulesArray := [m]\<rparr>)"
    using assms f by (simp add: RegisterModule_def validateModule_def)
  finally show ?thesis using f by simp
qed

section \<open>PID files\<close>

text \<open>
  The file of a process exists while the process runs and is gone after it has ended; a run that does not reach the
  application touches nothing, and no run touches another file.
\<close>

lemma run_app_pid:
  assumes "run_app svr env o1 b files = (files1, r)" and "op_PidFile o1 \<noteq> []"
  shows "(\<forall>path. path \<noteq> op_PidFile o1 \<longrightarrow> files1 path = files path) \<and> (r = ExecRuns \<longrightarrow> files1 (op_PidFile o1) = Some (dec_nat (re_pid env) @ [CHR 0x0A]))
    \<and> (r = ExecDone \<longrightarrow> re_removeErr env = None \<longrightarrow> files1 (op_PidFile o1) = None) \<and> r \<noteq> ExecParent \<and> (\<forall>e. r \<noteq> ExecPanics e)"
proof (cases "Build b")
  case (Inr app)
  show ?thesis
  proof (cases "re_writeErr env")
    case None
    obtain app1 sr where "Startup (re_pprofFails env) app (re_inputs env) = (app1, sr)" by fastforce
    with None Inr assms show ?thesis
      by (cases sr; cases "re_removeErr env") (auto simp: run_app_def WritePIDFile_def RemovePIDFile_def)
  qed (use Inr assms in \<open>auto simp: run_app_def WritePIDFile_def\<close>)
qed (use assms in \<open>auto simp: run_app_def\<close>)

lemma check_options_result: "check_options cfgName args o1 = Some r \<Longrightarrow> r \<notin> {ExecRuns, ExecDone, ExecParent} \<and> (\<forall>e. r \<noteq> ExecPanics e)"
  by (auto simp: check_options_def split: if_splits sum.splits)

lemma execute_cases:
  assumes "execute cfgName svr env args o1 build fs files = (fs1, files1, r)"
  obtains "files1 = files" and "r \<noteq> ExecRuns" and "r \<noteq> ExecDone" and "r = ExecParent \<longrightarrow> fs1 = fs"
    | b where "run_app svr env o1 b files = (files1, r)"
proof (cases "check_options cfgName args o1")
  case (Some x)
  then show ?thesis using assms that(1) check_options_result [OF Some] by (simp add: execute_def)
next
  case None
  obtain started e where d: "(if op_Daemon o1 then StartDaemon (re_child env) (re_startErr env) (re_releaseErr env) else (False, None)) = (started, e)" by fastforce
  obtain fs2 br where b: "build fs = (fs2, br)" by fastforce
  show ?thesis using assms that None unfolding execute_def None d b
    by (cases e; cases started; cases br) auto
qed

lemma pid_file_lifecycle:
  assumes "execute cfgName svr env args o1 build fs files = (fs1, files1, r)" and "op_PidFile o1 \<noteq> []"
  shows "(path \<noteq> op_PidFile o1 \<longrightarrow> files1 path = files path)
    \<and> (r = ExecRuns \<longrightarrow> files1 (op_PidFile o1) = Some (dec_nat (re_pid env) @ [CHR 0x0A]))
    \<and> (r = ExecDone \<longrightarrow> re_removeErr env = None \<longrightarrow> files1 (op_PidFile o1) = None)
    \<and> (r = ExecParent \<longrightarrow> files1 = files \<and> fs1 = fs) \<and> (\<forall>e. r = ExecPanics e \<longrightarrow> files1 = files)"
  using assms(1)
proof (cases rule: execute_cases)
  case (2 b)
  from run_app_pid [OF this assms(2)] show ?thesis by blast
qed auto

text \<open>
  The PID file is written without looking at what is there: a second start of a running server replaces the number
  in the file, fails when it cannot listen, and removes the file of the first.
\<close>

lemma second_instance_removes_pid:
  assumes "op_PidFile o1 \<noteq> []" and "Build b = Inr app" and "re_writeErr env = None" and "re_removeErr env = None"
    and "snd (Startup (re_pprofFails env) app (re_inputs env)) = StartupFailed e"
  shows "run_app svr env o1 b (files(op_PidFile o1 \<mapsto> running)) = (files(op_PidFile o1 := None), ExecError e)"
  using assms by (simp add: run_app_def WritePIDFile_def RemovePIDFile_def)

end
