(* ===== verification/Client_Robot.thy ===== *)
theory Client_Robot
  imports Rpc_Stubs Rpc_Spans "HOL-Library.Multiset"
begin

text \<open>
  The load generator (\<^verbatim>\<open>tools/client_robot\<close>): a client of the gate that pings the lobby, the benchmark with its
  counters, and the summary. What the network answers is an argument; the goroutines of the clients add to
  shared counters, so that a run is any interleaving of their updates.
\<close>

section \<open>A client\<close>

datatype failureKind = failureConnect | failureMarshal | failureEncode | failureSend | failureRead | failurePacketType
  | failureMessageDecode | failureMessageType | failureSeqMismatch | failureCmdMismatch | failureErrCode
  | failurePayloadDecode | failurePayloadMismatch

definition cmdPing :: u32 where "cmdPing = 2054"
definition cmdPong :: u32 where "cmdPong = 2055"

text \<open>\<^verbatim>\<open>readPacket\<close> on what the connection delivers until it fails: the packet, or the error of the read or of the decoder.\<close>

definition robot_readPacket :: "bytes \<Rightarrow> (unit + Packet) \<times> bytes" where
  "robot_readPacket bs =
     (if length bs < 4 then (Inl (), [])
      else
        let bodyLen = unat (bs ! 1) * 2 ^ 16 + unat (bs ! 2) * 2 ^ 8 + unat (bs ! 3) in
        if length bs < 4 + bodyLen then (Inl (), [])
        else (case DecodePacket (take (4 + bodyLen) bs) of Some (Inr p) \<Rightarrow> Inr p | _ \<Rightarrow> Inl (), drop (4 + bodyLen) bs))"

text \<open>\<^verbatim>\<open>newClient\<close>: dialing or writing may fail (\<open>ok\<close>); what is left of the stream is what follows the acknowledgement.\<close>

definition robot_newClient :: "bool \<Rightarrow> bool \<Rightarrow> bytes \<Rightarrow> bytes option" where
  "robot_newClient dialed wrote bs =
     (if \<not> dialed \<or> \<not> wrote then None
      else case robot_readPacket bs of
        (Inl _, _) \<Rightarrow> None
      | (Inr ack, rest) \<Rightarrow>
          if pkt_Type ack \<noteq> PacketHandshakeAck \<or> pkt_Body ack = [] \<or> hd (pkt_Body ack) = 0 then None else Some rest)"

definition ping_packet :: "CS_Ping_Req proto \<Rightarrow> u16 \<Rightarrow> string \<Rightarrow> failureKind + bytes" where
  "ping_packet pq seq text =
     (case proto_Marshal pq \<lparr>pq_Text = text\<rparr> of
        Inl _ \<Rightarrow> Inl failureMarshal
      | Inr reqBody \<Rightarrow>
          (case EncodeMessage \<lparr>msg_Type = MessageRequest, msg_SeqID = seq, msg_CmdID = cmdPing, msg_ErrCode = 0, msg_Body = reqBody\<rparr> of
             Inl _ \<Rightarrow> Inl failureEncode
           | Inr msgBody \<Rightarrow>
               (case EncodePacket \<lparr>pkt_Type = PacketData, pkt_Body = msgBody\<rparr> of
                  Inl _ \<Rightarrow> Inl failureSend
                | Inr data \<Rightarrow> Inr data)))"

text \<open>The checks of the answer.\<close>

definition check_pong :: "SC_Pong_Rsp proto \<Rightarrow> u16 \<Rightarrow> string \<Rightarrow> Packet \<Rightarrow> failureKind + SC_Pong_Rsp" where
  "check_pong pp seq expected pkt =
     (if pkt_Type pkt \<noteq> PacketData then Inl failurePacketType
      else case DecodeMessage (pkt_Body pkt) of
        Some (Inr msg) \<Rightarrow>
          if msg_Type msg \<noteq> MessageResponse then Inl failureMessageType
          else if msg_SeqID msg \<noteq> seq then Inl failureSeqMismatch
          else if msg_CmdID msg \<noteq> cmdPong then Inl failureCmdMismatch
          else if msg_ErrCode msg \<noteq> 0 then Inl failureErrCode
          else (case proto_Unmarshal pp (msg_Body msg) of
                  Inl _ \<Rightarrow> Inl failurePayloadDecode
                | Inr rsp \<Rightarrow> if pr_Text rsp \<noteq> expected then Inl failurePayloadMismatch else Inr rsp)
      | _ \<Rightarrow> Inl failureMessageDecode)"

text \<open>\<^verbatim>\<open>ping\<close>: the stream after the answer, and the result.\<close>

definition robot_ping :: "CS_Ping_Req proto \<Rightarrow> SC_Pong_Rsp proto \<Rightarrow> u16 \<Rightarrow> string \<Rightarrow> string \<Rightarrow> bool \<Rightarrow> bytes \<Rightarrow> bytes \<times> (failureKind + SC_Pong_Rsp)" where
  "robot_ping pq pp seq text expected wrote bs =
     (case ping_packet pq seq text of
        Inl k \<Rightarrow> (bs, Inl k)
      | Inr data \<Rightarrow>
          if \<not> wrote then (bs, Inl failureSend)
          else (case robot_readPacket bs of
                  (Inl _, rest) \<Rightarrow> (rest, Inl failureRead)
                | (Inr pkt, rest) \<Rightarrow> (rest, check_pong pp seq expected pkt)))"

definition expectedPong :: "string \<Rightarrow> string" where
  "expectedPong text = (if text = [] then ''pong'' else ''pong:'' @ text)"

definition benchText :: "string \<Rightarrow> nat \<Rightarrow> nat \<Rightarrow> u16 \<Rightarrow> string" where
  "benchText base clientID requestID seq =
     base @ ''-client-'' @ dec_nat clientID @ ''-req-'' @ dec_nat (requestID + 1) @ ''-seq-'' @ dec_nat (unat seq)"

definition shouldReconnect :: "failureKind \<Rightarrow> bool" where
  "shouldReconnect kind \<longleftrightarrow> kind \<in> {failureRead, failureSeqMismatch, failureCmdMismatch, failurePayloadMismatch, failureMessageDecode, failureMessageType, failurePacketType}"

section \<open>The benchmark\<close>

record benchResult =
  br_sent :: int
  br_succeeded :: int
  br_failed :: int
  br_latencies :: "int list"
  br_failures :: "failureKind \<Rightarrow> int"
  br_reconnects :: int

definition newBench :: benchResult where
  "newBench = \<lparr>br_sent = 0, br_succeeded = 0, br_failed = 0, br_latencies = [], br_failures = \<lambda>_. 0, br_reconnects = 0\<rparr>"

text \<open>The atomic updates of the shared counters.\<close>

datatype update = Sent int | Succeeded | Latency int | Failed int | AddFailure failureKind int | Reconnected

fun apply_update :: "benchResult \<Rightarrow> update \<Rightarrow> benchResult" where
  "apply_update r (Sent n) = r\<lparr>br_sent := br_sent r + n\<rparr>"
| "apply_update r Succeeded = r\<lparr>br_succeeded := br_succeeded r + 1\<rparr>"
| "apply_update r (Latency l) = r\<lparr>br_latencies := br_latencies r @ [l]\<rparr>"
| "apply_update r (Failed n) = r\<lparr>br_failed := br_failed r + n\<rparr>"
| "apply_update r (AddFailure k n) = r\<lparr>br_failures := (br_failures r)(k := br_failures r k + n)\<rparr>"
| "apply_update r Reconnected = r\<lparr>br_reconnects := br_reconnects r + 1\<rparr>"

text \<open>The number of a request, which starts again after \<open>65535\<close>.\<close>

definition bench_seq :: "nat \<Rightarrow> u16" where "bench_seq i = word_of_nat (i mod 0xffff + 1)"

text \<open>
  The loop of a client over what happens to its requests: the failure or the latency of each, and whether a
  reconnect succeeds.
\<close>

fun bench_loop :: "((failureKind + int) \<times> bool) list \<Rightarrow> update list" where
  "bench_loop [] = []"
| "bench_loop ((Inr l, _) # os) = [Sent 1, Succeeded, Latency l] @ bench_loop os"
| "bench_loop ((Inl k, again) # os) =
     [Sent 1, Failed 1, AddFailure k 1] @
     (if shouldReconnect k then
        if again then Reconnected # bench_loop os
        else let remaining = int (length os) in
          if 0 < remaining then [Sent remaining, Failed remaining, AddFailure failureConnect remaining] else []
      else bench_loop os)"

definition runBenchClient :: "bool \<Rightarrow> ((failureKind + int) \<times> bool) list \<Rightarrow> update list" where
  "runBenchClient ok os =
     (if \<not> ok then let n = int (length os) in [Sent n, Failed n, AddFailure failureConnect n]
      else bench_loop os)"

section \<open>Summary\<close>

definition avgLatency :: "int list \<Rightarrow> int" where
  "avgLatency values = trunc_div (foldl (\<lambda>t v. wrap_s64 (t + v)) 0 values) (int (length values))"

definition percentile :: "int list \<Rightarrow> nat \<Rightarrow> int" where
  "percentile values p =
     (if values = [] then 0
      else let idx = (length values * p + 99) div 100;
               idx1 = (if idx < 1 then 1 else idx);
               idx2 = (if length values < idx1 then length values else idx1)
           in values ! (idx2 - 1))"

record latencySummary =
  ls_Count :: nat
  ls_MinNs :: int
  ls_AvgNs :: int
  ls_P50Ns :: int
  ls_P90Ns :: int
  ls_P99Ns :: int
  ls_MaxNs :: int

definition latency_summary :: "int list \<Rightarrow> latencySummary" where
  "latency_summary ls =
     (let latencies = sort ls in
      if latencies = [] then \<lparr>ls_Count = 0, ls_MinNs = 0, ls_AvgNs = 0, ls_P50Ns = 0, ls_P90Ns = 0, ls_P99Ns = 0, ls_MaxNs = 0\<rparr>
      else \<lparr>ls_Count = length latencies, ls_MinNs = latencies ! 0, ls_AvgNs = avgLatency latencies, ls_P50Ns = percentile latencies 50,
            ls_P90Ns = percentile latencies 90, ls_P99Ns = percentile latencies 99, ls_MaxNs = latencies ! (length latencies - 1)\<rparr>)"

section \<open>Accounting\<close>

text \<open>What a list of updates adds to each counter.\<close>

fun update_sent :: "update \<Rightarrow> int" where "update_sent (Sent n) = n" | "update_sent _ = 0"
fun update_ok :: "update \<Rightarrow> int" where "update_ok Succeeded = 1" | "update_ok _ = 0"
fun update_lat :: "update \<Rightarrow> int" where "update_lat (Latency l) = 1" | "update_lat _ = 0"
fun update_failed :: "update \<Rightarrow> int" where "update_failed (Failed n) = n" | "update_failed _ = 0"
fun update_kind :: "failureKind \<Rightarrow> update \<Rightarrow> int" where "update_kind k (AddFailure k' n) = (if k = k' then n else 0)" | "update_kind k _ = 0"

lemma apply_all:
  "br_sent (foldl apply_update r us) = br_sent r + sum_list (map update_sent us)"
  "br_succeeded (foldl apply_update r us) = br_succeeded r + sum_list (map update_ok us)"
  "int (length (br_latencies (foldl apply_update r us))) = int (length (br_latencies r)) + sum_list (map update_lat us)"
  "br_failed (foldl apply_update r us) = br_failed r + sum_list (map update_failed us)"
  "br_failures (foldl apply_update r us) k = br_failures r k + sum_list (map (update_kind k) us)"
proof (induction us arbitrary: r)
  case (Cons u us)
  { case 1 from Cons(1) [of "apply_update r u"] show ?case by (cases u) simp_all }
  { case 2 from Cons(2) [of "apply_update r u"] show ?case by (cases u) simp_all }
  { case 3 from Cons(3) [of "apply_update r u"] show ?case by (cases u) simp_all }
  { case 4 from Cons(4) [of "apply_update r u"] show ?case by (cases u) simp_all }
  { case 5 from Cons(5) [of "apply_update r u"] show ?case by (cases u) simp_all }
qed simp_all

text \<open>Each client counts each of its requests once, as a success with a latency or as a failure of one kind.\<close>

definition all_kinds :: "update \<Rightarrow> int" where
  "all_kinds u = (case u of AddFailure k n \<Rightarrow> n | _ \<Rightarrow> 0)"

lemma failureKinds_finite: "finite (UNIV :: failureKind set)"
proof -
  have u: "(UNIV :: failureKind set) = {failureConnect, failureMarshal, failureEncode, failureSend, failureRead, failurePacketType, failureMessageDecode,
      failureMessageType, failureSeqMismatch, failureCmdMismatch, failureErrCode, failurePayloadDecode, failurePayloadMismatch}"
    by (auto intro: failureKind.exhaust)
  show ?thesis unfolding u by simp
qed

lemma kinds_sum: "(\<Sum>k \<in> UNIV. sum_list (map (update_kind k) us)) = sum_list (map all_kinds us)"
proof (induction us)
  case (Cons u us)
  have "(\<Sum>k \<in> UNIV. update_kind k u) = all_kinds u"
    by (cases u) (simp_all add: all_kinds_def sum.delta failureKinds_finite)
  with Cons show ?case by (simp add: sum.distrib)
qed simp

lemma client_accounts:
  assumes "us = runBenchClient ok os"
  shows "sum_list (map update_sent us) = int (length os)"
    and "sum_list (map update_ok us) + sum_list (map update_failed us) = int (length os)"
    and "sum_list (map update_lat us) = sum_list (map update_ok us)"
    and "sum_list (map all_kinds us) = sum_list (map update_failed us)"
proof -
  have "sum_list (map update_sent (bench_loop os)) = int (length os)
    \<and> sum_list (map update_ok (bench_loop os)) + sum_list (map update_failed (bench_loop os)) = int (length os)
    \<and> sum_list (map update_lat (bench_loop os)) = sum_list (map update_ok (bench_loop os))
    \<and> sum_list (map all_kinds (bench_loop os)) = sum_list (map update_failed (bench_loop os))"
    by (induction os rule: bench_loop.induct) (auto simp: all_kinds_def Let_def)
  then show "sum_list (map update_sent us) = int (length os)"
    and "sum_list (map update_ok us) + sum_list (map update_failed us) = int (length os)"
    and "sum_list (map update_lat us) = sum_list (map update_ok us)"
    and "sum_list (map all_kinds us) = sum_list (map update_failed us)"
    by (auto simp: assms runBenchClient_def all_kinds_def Let_def)
qed

text \<open>A sum over updates does not depend on their order.\<close>

lemma interleaved_sum:
  fixes f :: "update \<Rightarrow> int"
  assumes "mset us = (\<Sum>c \<leftarrow> cs. mset (g c))"
  shows "sum_list (map f us) = (\<Sum>c \<leftarrow> cs. sum_list (map f (g c)))"
proof -
  have "sum_list (map f us) = sum_mset (image_mset f (mset us))" by (simp flip: sum_mset_sum_list)
  also have "\<dots> = (\<Sum>c \<leftarrow> cs. sum_mset (image_mset f (mset (g c))))" unfolding assms by (induction cs) simp_all
  also have "\<dots> = (\<Sum>c \<leftarrow> cs. sum_list (map f (g c)))" by (simp flip: sum_mset_sum_list)
  finally show ?thesis .
qed

lemma bench_accounts:
  assumes "mset us = (\<Sum>c \<leftarrow> clients. mset (runBenchClient (fst c) (snd c)))" and "\<forall>c \<in> set clients. length (snd c) = requests"
    and "r = foldl apply_update newBench us"
  shows "br_sent r = int (length clients * requests) \<and> br_succeeded r + br_failed r = br_sent r
    \<and> int (length (br_latencies r)) = br_succeeded r \<and> (\<Sum>k \<in> UNIV. br_failures r k) = br_failed r"
proof -
  let ?S = "\<lambda>f. \<Sum>c \<leftarrow> clients. sum_list (map f (runBenchClient (fst c) (snd c)))"
  note total = interleaved_sum [OF assms(1)]
  have len: "length (snd c) = requests" if "c \<in> set clients" for c using assms(2) that by auto
  have sent: "?S update_sent = int (length clients * requests)"
    using len by (induction clients) (auto simp: client_accounts(1) [OF refl] algebra_simps)
  have "?S update_ok + ?S update_failed = int (length clients * requests)"
    using len
  proof (induction clients)
    case (Cons c cs)
    then show ?case using client_accounts(2) [OF refl, of "fst c" "snd c"] by (simp add: algebra_simps)
  qed simp
  moreover have "?S update_lat = ?S update_ok" by (simp add: client_accounts(3) [OF refl])
  moreover have "?S all_kinds = ?S update_failed" by (simp add: client_accounts(4) [OF refl])
  moreover have "(\<Sum>k \<in> UNIV. br_failures r k) = ?S all_kinds"
    unfolding total [symmetric] by (simp add: assms(3) apply_all newBench_def kinds_sum)
  ultimately show ?thesis
    by (simp add: assms(3) apply_all newBench_def total sent)
qed

section \<open>Percentiles\<close>

definition rank :: "nat \<Rightarrow> nat \<Rightarrow> nat" where
  "rank n p = min n (max 1 ((n * p + 99) div 100))"

lemma percentile_rank: "values \<noteq> [] \<Longrightarrow> percentile values p = values ! (rank (length values) p - 1)"
  by (simp add: percentile_def rank_def Let_def min_def max_def)

lemma rank_bounds: "0 < n \<Longrightarrow> 1 \<le> rank n p \<and> rank n p \<le> n"
  by (simp add: rank_def)

lemma rank_mono: "p \<le> q \<Longrightarrow> rank n p \<le> rank n q"
  unfolding rank_def by (intro min.mono max.mono div_le_mono add_le_mono mult_le_mono) simp_all

lemma rank_covers: "p \<le> 100 \<Longrightarrow> n * p \<le> 100 * rank n p"
proof -
  assume p: "p \<le> 100"
  have "n * p \<le> 100 * ((n * p + 99) div 100)" by linarith
  moreover have "n * p \<le> 100 * n" using p by (simp add: mult.commute)
  ultimately show ?thesis by (simp add: rank_def min_def max_def)
qed

text \<open>At least \<open>p\<close> percent of the requests took no longer than the percentile \<open>p\<close>, and the percentiles are ordered.\<close>

lemma percentile_covers:
  assumes "sorted values" and "values \<noteq> []" and "p \<le> 100"
  shows "length values * p \<le> 100 * length (filter (\<lambda>v. v \<le> percentile values p) values)"
proof -
  let ?k = "rank (length values) p"
  have k: "1 \<le> ?k" "?k \<le> length values" using rank_bounds [of "length values" p] assms(2) by simp_all
  have "v \<le> percentile values p" if "v \<in> set (take ?k values)" for v
  proof -
    obtain i where "i < ?k" "v = values ! i" using \<open>v \<in> set (take ?k values)\<close> k(2) by (auto simp: in_set_conv_nth)
    then show ?thesis using k assms(1) unfolding percentile_rank [OF assms(2)] by (auto intro!: sorted_nth_mono)
  qed
  then have "filter (\<lambda>v. v \<le> percentile values p) (take ?k values) = take ?k values" by (simp add: filter_id_conv)
  then have "?k \<le> length (filter (\<lambda>v. v \<le> percentile values p) (take ?k values @ drop ?k values))"
    unfolding filter_append using k(2) by simp
  then show ?thesis using rank_covers [OF assms(3), of "length values"] by simp
qed

lemma latency_ordered:
  assumes "latency_summary ls = x" and "ls \<noteq> []"
  shows "ls_MinNs x \<le> ls_P50Ns x \<and> ls_P50Ns x \<le> ls_P90Ns x \<and> ls_P90Ns x \<le> ls_P99Ns x \<and> ls_P99Ns x \<le> ls_MaxNs x"
proof -
  define v where "v = sort ls"
  have "length v = length ls" "sorted v" by (simp_all add: v_def)
  then have v: "v \<noteq> []" "sorted v" using assms(2) by auto
  then have b: "1 \<le> rank (length v) p \<and> rank (length v) p \<le> length v" for p by (intro rank_bounds) simp
  have m: "percentile v p \<le> percentile v q" if "p \<le> q" for p q
    unfolding percentile_rank [OF v(1)] using v(2) b rank_mono [OF that, of "length v"] by (intro sorted_nth_mono) (auto intro: diff_le_mono simp: less_eq_Suc_le)
  have "v ! 0 \<le> percentile v 50" "percentile v 99 \<le> v ! (length v - 1)"
    unfolding percentile_rank [OF v(1)] using v b [of 50] b [of 99] by (auto intro!: sorted_nth_mono)
  with m show ?thesis using v assms(1) by (auto simp: latency_summary_def Let_def simp flip: v_def)
qed

section \<open>A ping through the whole system\<close>

lemma four_bytes: "4 \<le> length bs \<Longrightarrow> \<exists>a b c d cs. bs = a # b # c # d # cs"
  by (auto simp: Suc_le_length_iff eval_nat_numeral)

lemma pkt_len_bytes: "pkt_len (a # b # c # d # cs) = unat b * 2 ^ 16 + unat c * 2 ^ 8 + unat d"
  by (simp add: pkt_len_def be_nat_def numeral_3_eq_3)

text \<open>The reader takes exactly the packet that was encoded.\<close>

lemma robot_reads_packet:
  assumes "EncodePacket p = Inr bs"
  shows "robot_readPacket (bs @ rest) = (Inr p, rest)"
proof -
  have d: "DecodePacket bs = Some (Inr p)" using packet_roundtrip assms by blast
  then have l: "length bs = 4 + pkt_len bs" by (auto simp: DecodePacket_eq split: if_splits)
  then obtain x0 x1 x2 x3 cs where bs: "bs = x0 # x1 # x2 # x3 # cs" using four_bytes [of bs] by auto
  define n where "n = unat x1 * 2 ^ 16 + unat x2 * 2 ^ 8 + unat x3"
  have n: "pkt_len bs = n" unfolding bs pkt_len_bytes n_def ..
  have r: "unat ((bs @ rest) ! 1) * 2 ^ 16 + unat ((bs @ rest) ! 2) * 2 ^ 8 + unat ((bs @ rest) ! 3) = n"
    by (simp add: bs n_def)
  have "take (4 + n) (bs @ rest) = bs" "drop (4 + n) (bs @ rest) = rest" "\<not> length (bs @ rest) < 4 + n" using l n by simp_all
  then show ?thesis using d unfolding robot_readPacket_def Let_def r by simp
qed

text \<open>The packet of a ping is forwarded by the gate to the route that the lobby has registered.\<close>

lemma ping_packet_made:
  assumes "proto_Marshal pq \<lparr>pq_Text = txt\<rparr> = Inr body" and "length body + 7 \<le> 0xFFFFFF"
  shows "\<exists>data pkt. ping_packet pq seq txt = Inr data \<and> DecodePacket data = Some (Inr pkt) \<and> pkt_Type pkt = PacketData
    \<and> DecodeMessage (pkt_Body pkt) = Some (Inr \<lparr>msg_Type = MessageRequest, msg_SeqID = seq, msg_CmdID = cmdPing, msg_ErrCode = 0, msg_Body = body\<rparr>)"
proof -
  let ?m = "\<lparr>msg_Type = MessageRequest, msg_SeqID = seq, msg_CmdID = cmdPing, msg_ErrCode = 0, msg_Body = body\<rparr>"
  let ?p = "\<lparr>pkt_Type = PacketData, pkt_Body = concat (message_fields ?m)\<rparr>"
  have k: "known_type ?m" by (simp add: known_type_def)
  have "length (concat (message_fields ?m)) = length body + 7" by (simp add: message_fields_def)
  with assms(2) have e: "EncodePacket ?p = Inr (packet_bytes ?p)" by (simp add: EncodePacket_eq)
  then have "DecodePacket (packet_bytes ?p) = Some (Inr ?p)" using packet_roundtrip by blast
  moreover have "DecodeMessage (concat (message_fields ?m)) = Some (Inr ?m)" using DecodeMessage_fields [OF k] by (simp add: carried_def)
  moreover have "ping_packet pq seq txt = Inr (packet_bytes ?p)"
    using e k by (simp add: ping_packet_def assms(1) EncodeMessage_eq)
  ultimately show ?thesis by (intro exI [of _ "packet_bytes ?p"] exI [of _ ?p]) simp
qed

definition ping_entry :: RouteEntry where
  "ping_entry = \<lparr>re_CmdID = 2054, re_ServerType = serverTypeLobby, re_Route = RouteLobbyHandlerPing, re_RspCmdID = 2055\<rparr>"

lemma ping_forwarded:
  assumes "d = gate_dispatcher 1 stack AuthWhitelist RouteTable" and "gt_transport g (gt_nextReply g) = NoError"
    and "pkt_Type pkt = PacketData" and "DecodeMessage (pkt_Body pkt) = Some (Inr msg)" and "msg_Type msg = MessageRequest" and "msg_CmdID msg = cmdPing"
    and "s = sm_store (gt_sessions g) ! p"
  shows "fst (HandleSessionPacket d hs g (Some p) c pkt) = g\<lparr>
      gt_replies := (gt_replies g)(gt_nextReply g \<mapsto>
        \<lparr>ev_sessID = ss_ID s, ev_sessConnID = ss_ConnID s, ev_SeqID = msg_SeqID msg, ev_RspCmdID = re_RspCmdID ping_entry\<rparr>),
      gt_nextReply := Suc (gt_nextReply g),
      gt_core := Call (gt_core g) (gt_now g) (backend_target s ping_entry) RouteLobbyHandlerPing (msg_Body msg)
        (WithFromNode Background (gt_nodeID g)) (Some (gt_nextReply g)) NoError\<rparr>"
proof -
  have r: "ds_routes d (msg_CmdID msg) = Some ping_entry" "re_ServerType ping_entry \<noteq> ds_selfServerType d" "ds_forward d = Some forwardToBackend"
    by (simp_all add: assms(1,6) gate_dispatcher_def RouteTable_def RegisterRoute_def SetForward_def Use_def NewDispatcher_def ping_entry_def cmdPing_def serverTypeLobby_def)
  have "HandleSessionPacket d hs g (Some p) c pkt = forwardToBackend g (Some p) (Some msg) ping_entry"
    using assms(3,4) forwarded_skip_middlewares [OF r] by (simp add: HandleSessionPacket_def PacketData_def PacketHandshake_def PacketHandshakeAck_def PacketHeartbeat_def)
  then show ?thesis using assms(2,5,7) by (simp add: forwardToBackend_def Let_def) (simp add: ping_entry_def)
qed

lemma pong_checked:
  assumes "proto_law pp" and "proto_Marshal pp \<lparr>pr_Text = expected\<rparr> = Inr out" and "length out + 11 \<le> 0xFFFFFF" and "ping_packet pq seq txt = Inr data"
  shows "\<exists>reply. EncodeDataMessagePacket \<lparr>msg_Type = MessageResponse, msg_SeqID = seq, msg_CmdID = cmdPong, msg_ErrCode = OK, msg_Body = out\<rparr> = Inr reply
    \<and> robot_ping pq pp seq txt expected True (reply @ rest) = (rest, Inr \<lparr>pr_Text = expected\<rparr>)"
proof -
  let ?m = "\<lparr>msg_Type = MessageResponse, msg_SeqID = seq, msg_CmdID = cmdPong, msg_ErrCode = OK, msg_Body = out\<rparr>"
  obtain reply pbody where r: "EncodeDataMessagePacket ?m = Inr reply" "DecodePacket reply = Some (Inr \<lparr>pkt_Type = PacketData, pkt_Body = pbody\<rparr>)"
    "DecodeMessage pbody = Some (Inr ?m)" using response_packet [OF assms(3)] by blast
  have "robot_readPacket (reply @ rest) = (Inr \<lparr>pkt_Type = PacketData, pkt_Body = pbody\<rparr>, rest)"
    by (rule robot_reads_packet) (use r(2) packet_roundtrip in blast)
  moreover have "proto_Unmarshal pp out = Inr \<lparr>pr_Text = expected\<rparr>" using assms(1,2) by (simp add: proto_law_def)
  ultimately show ?thesis using r by (simp add: robot_ping_def assms(4) check_pong_def OK_def)
qed

definition ping_proto :: "CS_Ping_Req proto" where
  "ping_proto = (\<lambda>r. Inr (str_bytes (pq_Text r)), \<lambda>b. Inr \<lparr>pq_Text = bytes_str b\<rparr>)"

definition pong_proto :: "SC_Pong_Rsp proto" where
  "pong_proto = (\<lambda>r. Inr (str_bytes (pr_Text r)), \<lambda>b. Inr \<lparr>pr_Text = bytes_str b\<rparr>)"

lemma demo_protos [simp]: "proto_law ping_proto" "proto_law pong_proto"
  "proto_Marshal ping_proto \<lparr>pq_Text = s\<rparr> = Inr (str_bytes s)" "proto_Marshal pong_proto \<lparr>pr_Text = s\<rparr> = Inr (str_bytes s)"
  by (auto simp: proto_law_def ping_proto_def pong_proto_def proto_Marshal_def proto_Unmarshal_def)

end
