(* ===== verification/Gen_Routes.thy ===== *)
theory Gen_Routes
  imports Rpc_Stubs Go_Strings "HOL-Library.Multiset" "HOL-Library.Char_ord" "HOL-Library.List_Lexorder" "HOL-Library.AList"
begin

text \<open>
  The generator of the route table of the gate, \<^verbatim>\<open>tools/gen_routes\<close>. A protocol file is a text; the generator finds its
  messages and services with regular expressions and braces, and makes an entry of the table for every method of a
  frontend service whose request has a command. The iteration over the services of a file has no defined order, which
  is an argument of the model. Shown: a block ends at the brace that closes it; the table holds exactly the methods
  described, its commands are distinct and the output does not depend on the order of the iteration; the table of the
  repository is the one made of its protocol file. Comments are not recognised.
\<close>

section \<open>Regular expressions\<close>

text \<open>
  The expressions of the generator are sequences of literals, repetitions of a class of characters, and groups that
  capture a non-empty repetition. Repetitions are greedy: the longest run is tried first.
\<close>

datatype rx = Lit string | Many "char \<Rightarrow> bool" | Many1 "char \<Rightarrow> bool" | Capture "char \<Rightarrow> bool"

record regex =
  re_line_start :: bool
  re_items :: "rx list"

definition is_digit :: "char \<Rightarrow> bool" where
  "is_digit c \<longleftrightarrow> (48::nat) \<le> of_char c \<and> (of_char c :: nat) \<le> 57"

definition is_word :: "char \<Rightarrow> bool" where
  "is_word c \<longleftrightarrow> is_digit c \<or> (65::nat) \<le> of_char c \<and> (of_char c :: nat) \<le> 90 \<or> (97::nat) \<le> of_char c \<and> (of_char c :: nat) \<le> 122 \<or> c = CHR 0x5F"

definition is_qualified :: "char \<Rightarrow> bool" where "is_qualified c \<longleftrightarrow> is_word c \<or> c = CHR 0x2E"

text \<open>The ways to split a string after a run of a class, the longest run first.\<close>

fun runs :: "(char \<Rightarrow> bool) \<Rightarrow> string \<Rightarrow> (string \<times> string) list" where
  "runs p [] = [([], [])]"
| "runs p (c # cs) = (if p c then map (\<lambda>(a, b). (c # a, b)) (runs p cs) else []) @ [([], c # cs)]"

primrec first_some :: "('a \<Rightarrow> 'b option) \<Rightarrow> 'a list \<Rightarrow> 'b option" where
  "first_some f [] = None"
| "first_some f (x # xs) = (case f x of None \<Rightarrow> first_some f xs | Some y \<Rightarrow> Some y)"

text \<open>The groups of the preferred match at the start of a string, and what follows the match.\<close>

fun rx_match :: "rx list \<Rightarrow> string \<Rightarrow> (string list \<times> string) option" where
  "rx_match [] s = Some ([], s)"
| "rx_match (Lit l # rs) s = (if HasPrefix s l then rx_match rs (drop (length l) s) else None)"
| "rx_match (Many p # rs) s = first_some (\<lambda>(a, b). rx_match rs b) (runs p s)"
| "rx_match (Many1 p # rs) s = first_some (\<lambda>(a, b). if a = [] then None else rx_match rs b) (runs p s)"
| "rx_match (Capture p # rs) s =
     first_some (\<lambda>(a, b). if a = [] then None else map_option (\<lambda>(cs, r). (a # cs, r)) (rx_match rs b)) (runs p s)"

text \<open>
  The matches from left to right without overlap: where each starts and ends, and its groups. \<open>skip\<close> characters belong
  to the previous match, and \<open>bol\<close> says that a line starts here. No expression matches the empty string.
\<close>

fun find_from :: "regex \<Rightarrow> int \<Rightarrow> nat \<Rightarrow> bool \<Rightarrow> string \<Rightarrow> (int \<times> int \<times> string list) list" where
  "find_from re i skip bol [] = []"
| "find_from re i (Suc skip) bol (c # cs) = find_from re (i + 1) skip (c = CHR 0x0A) cs"
| "find_from re i 0 bol (c # cs) =
     (case (if re_line_start re \<and> \<not> bol then None else rx_match (re_items re) (c # cs)) of
        None \<Rightarrow> find_from re (i + 1) 0 (c = CHR 0x0A) cs
      | Some (caps, rest) \<Rightarrow>
          let n = Suc (length cs) - length rest in
          (i, i + int n, caps) # find_from re (i + 1) (n - 1) (c = CHR 0x0A) cs)"

definition FindAll :: "regex \<Rightarrow> string \<Rightarrow> (int \<times> int \<times> string list) list" where
  "FindAll re s = find_from re 0 0 True s"

definition blockRE :: "string \<Rightarrow> regex" where
  "blockRE word = \<lparr>re_line_start = True, re_items = [Many is_space, Lit word, Many1 is_space, Capture is_word, Many is_space, Lit ''{'']\<rparr>"

definition optionRE :: "string \<Rightarrow> rx \<Rightarrow> regex" where
  "optionRE name val = \<lparr>re_line_start = False, re_items = [Lit ''option'', Many is_space, Lit (''(protocol.common.'' @ name @ '')''), Many is_space,
     Lit ''='', Many is_space, val, Many is_space, Lit '';'']\<rparr>"

definition serviceStartRE :: regex where "serviceStartRE = blockRE ''service''"
definition messageStartRE :: regex where "messageStartRE = blockRE ''message''"
definition rpcRE :: regex where
  "rpcRE = \<lparr>re_line_start = False, re_items = [Lit ''rpc'', Many1 is_space, Capture is_word, Many is_space, Lit ''('', Capture is_qualified, Lit '')'',
     Many is_space, Lit ''returns'', Many is_space, Lit ''('', Capture is_qualified, Lit '')'']\<rparr>"
definition cmdIDRE :: regex where "cmdIDRE = optionRE ''cmd_id'' (Capture is_digit)"
definition noAuthRE :: regex where "noAuthRE = optionRE ''no_auth'' (Lit ''true'')"
definition kindRE :: regex where "kindRE = optionRE ''kind'' (Capture is_word)"
definition serverTypeRE :: regex where "serverTypeRE = optionRE ''server_type'' (Capture is_word)"

definition firstMatch :: "regex \<Rightarrow> string \<Rightarrow> string" where
  "firstMatch re s = (case FindAll re s of (_, _, c # _) # _ \<Rightarrow> c | _ \<Rightarrow> [])"

definition MatchString :: "regex \<Rightarrow> string \<Rightarrow> bool" where
  "MatchString re s \<longleftrightarrow> FindAll re s \<noteq> []"

section \<open>Blocks\<close>

fun brace_loop :: "string \<Rightarrow> int \<Rightarrow> int \<Rightarrow> int option" where
  "brace_loop [] i depth = None"
| "brace_loop (c # cs) i depth =
     (if c = CHR ''{'' then brace_loop cs (i + 1) (depth + 1)
      else if c = CHR ''}'' then (if depth - 1 = 0 then Some i else brace_loop cs (i + 1) (depth - 1))
      else brace_loop cs (i + 1) depth)"

definition matchBrace :: "string \<Rightarrow> int \<Rightarrow> int option" where
  "matchBrace text open = brace_loop (drop (nat open) text) open 0"

datatype gen_error = ReadError string | MissingBrace string string | UnmatchedBrace string string | ReservedCmd string string | DuplicateCmd string

definition block_of :: "string \<Rightarrow> string \<Rightarrow> int \<times> int \<times> string list \<Rightarrow> gen_error + (string \<times> string) option" where
  "block_of path text m =
     (case m of
        (_, e, name # _) \<Rightarrow>
          let open = e - 1 in
          if open < 0 \<or> int (length text) \<le> open \<or> text ! nat open \<noteq> CHR ''{'' then Inl (MissingBrace path name)
          else (case matchBrace text open of
                  None \<Rightarrow> Inl (UnmatchedBrace path name)
                | Some close \<Rightarrow> Inr (Some (name, take (nat (close - open) - 1) (drop (nat open + 1) text))))
      | (_, _, []) \<Rightarrow> Inr None)"

fun put_blocks :: "string \<Rightarrow> string \<Rightarrow> (string \<times> string) list \<Rightarrow> (int \<times> int \<times> string list) list \<Rightarrow> gen_error + (string \<times> string) list" where
  "put_blocks path text out [] = Inr out"
| "put_blocks path text out (m # ms) =
     (case block_of path text m of
        Inl e \<Rightarrow> Inl e
      | Inr None \<Rightarrow> put_blocks path text out ms
      | Inr (Some (name, body)) \<Rightarrow> put_blocks path text (AList.update name body out) ms)"

definition extractBlocks :: "string \<Rightarrow> string \<Rightarrow> regex \<Rightarrow> gen_error + (string \<times> string) list" where
  "extractBlocks path text startRE = put_blocks path text [] (FindAll startRE text)"

section \<open>Routes\<close>

record routeItem =
  ri_CmdID :: string
  ri_ServerType :: string
  ri_Service :: string
  ri_Method :: string
  ri_Route :: string
  ri_RspCmdID :: string
  ri_NoAuth :: bool

definition serverTypeToConst :: "string \<Rightarrow> string" where
  "serverTypeToConst name =
     (let t = TrimSpace name in
      if t = ''ST_GATESVR'' then ''serverTypeGate''
      else if t = ''ST_LOBBYSVR'' then ''serverTypeLobby''
      else if t = ''ST_ROUTERAGENT'' then ''serverTypeRouterAgent''
      else name)"

definition routeConstName :: "string \<Rightarrow> string \<Rightarrow> string" where
  "routeConstName serviceName methodName = ''Route'' @ serviceName @ methodName"

definition rsp_cmd :: "(string \<times> string) list \<Rightarrow> string \<Rightarrow> string" where
  "rsp_cmd messages output =
     (if output \<noteq> ''google.protobuf.Empty'' then
        (case map_of messages output of
           None \<Rightarrow> ''0''
         | Some outputMsg \<Rightarrow> let c = firstMatch cmdIDRE outputMsg in if c = [] then ''0'' else c)
      else ''0'')"

definition scan_rpc :: "string \<Rightarrow> (string \<times> string) list \<Rightarrow> string \<Rightarrow> string \<Rightarrow> string list \<Rightarrow> gen_error + routeItem list" where
  "scan_rpc path messages name serverType caps =
     (let rpcName = caps ! 0; input = caps ! 1; output = caps ! 2 in
      case map_of messages input of
        None \<Rightarrow> Inr []
      | Some inputMsg \<Rightarrow>
          let cmdID = firstMatch cmdIDRE inputMsg in
          if cmdID = [] then Inr []
          else if cmdID = ''0'' then Inl (ReservedCmd path input)
          else Inr [\<lparr>ri_CmdID = cmdID, ri_ServerType = serverTypeToConst serverType, ri_Service = name, ri_Method = rpcName,
                 ri_Route = name @ ''/'' @ rpcName, ri_RspCmdID = rsp_cmd messages output, ri_NoAuth = MatchString noAuthRE inputMsg\<rparr>])"

text \<open>The loops append the items of each round and end at the first error.\<close>

fun collect_items :: "('a \<Rightarrow> 'e + 'b list) \<Rightarrow> 'a list \<Rightarrow> 'e + 'b list" where
  "collect_items f [] = Inr []"
| "collect_items f (x # xs) =
     (case f x of
        Inl e \<Rightarrow> Inl e
      | Inr ys \<Rightarrow> (case collect_items f xs of Inl e \<Rightarrow> Inl e | Inr zs \<Rightarrow> Inr (ys @ zs)))"

definition scan_service :: "string \<Rightarrow> (string \<times> string) list \<Rightarrow> string \<times> string \<Rightarrow> gen_error + routeItem list" where
  "scan_service path messages svc =
     (case svc of (name, body) \<Rightarrow>
        if firstMatch kindRE body \<noteq> ''FRONTEND'' then Inr []
        else let serverType = firstMatch serverTypeRE body in
          if serverType = [] then Inr []
          else collect_items (\<lambda>(_, _, caps). scan_rpc path messages name serverType caps) (FindAll rpcRE body))"

text \<open>A file with its path and what reading it gives; \<open>ord\<close> is the order in which the services of a file are visited.\<close>

definition scan_file :: "((string \<times> string) list \<Rightarrow> (string \<times> string) list) \<Rightarrow> string \<times> string option \<Rightarrow> gen_error + routeItem list" where
  "scan_file ord f =
     (case f of
        (path, None) \<Rightarrow> Inl (ReadError path)
      | (path, Some text) \<Rightarrow>
          (case extractBlocks path text messageStartRE of
             Inl e \<Rightarrow> Inl e
           | Inr messages \<Rightarrow>
               (case extractBlocks path text serviceStartRE of
                  Inl e \<Rightarrow> Inl e
                | Inr services \<Rightarrow> collect_items (scan_service path messages) (ord services))))"

fun dup_cmd :: "string set \<Rightarrow> routeItem list \<Rightarrow> string option" where
  "dup_cmd seen [] = None"
| "dup_cmd seen (it # its) = (if ri_CmdID it \<in> seen then Some (ri_CmdID it) else dup_cmd (insert (ri_CmdID it) seen) its)"

definition scanRoutes :: "((string \<times> string) list \<Rightarrow> (string \<times> string) list) \<Rightarrow> (string \<times> string option) list \<Rightarrow> gen_error + routeItem list" where
  "scanRoutes ord files =
     (case collect_items (scan_file ord) files of
        Inl e \<Rightarrow> Inl e
      | Inr items \<Rightarrow>
          (case dup_cmd {} items of
             Some c \<Rightarrow> Inl (DuplicateCmd c)
           | None \<Rightarrow> Inr (sort_key ri_CmdID items)))"

section \<open>The generated file\<close>

definition const_line :: "routeItem \<Rightarrow> string" where
  "const_line r = tab @ routeConstName (ri_Service r) (ri_Method r) @ '' = '' @ go_quoted (ri_Route r) @ nl"

definition table_line :: "routeItem \<Rightarrow> string" where
  "table_line r = tab @ ri_CmdID r @ '': {ServerType: '' @ ri_ServerType r @ '', Route: '' @ routeConstName (ri_Service r) (ri_Method r)
     @ '', RspCmdID: '' @ ri_RspCmdID r @ ''},'' @ nl"

definition auth_line :: "routeItem \<Rightarrow> string" where
  "auth_line r = tab @ ri_CmdID r @ '': true,'' @ nl"

text \<open>The comments of the output are bytes in UTF-8.\<close>

definition utf8 :: "nat list \<Rightarrow> string" where "utf8 bs = map char_of bs"

definition renderRoutes :: "routeItem list \<Rightarrow> string" where
  "renderRoutes routes =
     ''package rpc'' @ nl @ nl
     @ ''// RouteEntry '' @ utf8 [0xE6, 0x8F, 0x8F, 0xE8, 0xBF, 0xB0, 0xE4, 0xB8, 0x80, 0xE6, 0x9D, 0xA1, 0xE5, 0xB7, 0xB2, 0xE7, 0x94, 0x9F, 0xE6, 0x88, 0x90, 0xE7, 0x9A, 0x84, 0xE8, 0xB7, 0xAF, 0xE7, 0x94, 0xB1] @ nl
     @ ''type RouteEntry struct {'' @ nl
     @ tab @ ''ServerType uint32'' @ nl
     @ tab @ ''Route string'' @ nl
     @ tab @ ''RspCmdID uint32'' @ nl
     @ ''}'' @ nl @ nl
     @ ''const ('' @ nl
     @ concat (map const_line routes)
     @ '')'' @ nl @ nl
     @ ''// RouteTable '' @ utf8 [0xE6, 0x98, 0xAF, 0xE5, 0xAE, 0xA2, 0xE6, 0x88, 0xB7, 0xE7, 0xAB, 0xAF, 0xE5, 0x85, 0xA5, 0xE5, 0x8F, 0xA3, 0xE8, 0xB7, 0xAF, 0xE7, 0x94, 0xB1, 0xE8, 0xA1, 0xA8] @ nl
     @ ''var RouteTable = map[uint32]RouteEntry{'' @ nl
     @ concat (map table_line routes)
     @ ''}'' @ nl @ nl
     @ ''// AuthWhitelist '' @ utf8 [0xE8, 0xA1, 0xA8, 0xE7, 0xA4, 0xBA, 0xE5, 0x85, 0x8D, 0xE9, 0x89, 0xB4, 0xE6, 0x9D, 0x83, 0xE7, 0x9A, 0x84] @ '' CmdID '' @ utf8 [0xE9, 0x9B, 0x86, 0xE5, 0x90, 0x88] @ nl
     @ ''var AuthWhitelist = map[uint32]bool{'' @ nl
     @ concat (map auth_line (filter ri_NoAuth routes))
     @ ''}'' @ nl"

section \<open>What the expressions match\<close>

text \<open>The language of a sequence, with the groups of each of its strings.\<close>

inductive rx_lang :: "rx list \<Rightarrow> string \<Rightarrow> string list \<Rightarrow> bool" where
  lang_nil: "rx_lang [] [] []"
| lang_lit: "rx_lang rs s cs \<Longrightarrow> rx_lang (Lit l # rs) (l @ s) cs"
| lang_many: "\<forall>c \<in> set a. p c \<Longrightarrow> rx_lang rs s cs \<Longrightarrow> rx_lang (Many p # rs) (a @ s) cs"
| lang_many1: "\<forall>c \<in> set a. p c \<Longrightarrow> a \<noteq> [] \<Longrightarrow> rx_lang rs s cs \<Longrightarrow> rx_lang (Many1 p # rs) (a @ s) cs"
| lang_capture: "\<forall>c \<in> set a. p c \<Longrightarrow> a \<noteq> [] \<Longrightarrow> rx_lang rs s cs \<Longrightarrow> rx_lang (Capture p # rs) (a @ s) (a # cs)"

lemma first_some_Some: "first_some f xs = Some y \<Longrightarrow> \<exists>x \<in> set xs. f x = Some y"
  by (induction xs) (auto split: option.splits)

lemma first_some_None [simp]: "first_some f xs = None \<longleftrightarrow> (\<forall>x \<in> set xs. f x = None)"
  by (induction xs) (auto split: option.splits)

lemma set_runs: "(a, b) \<in> set (runs p s) \<longleftrightarrow> s = a @ b \<and> (\<forall>c \<in> set a. p c)"
  by (induction s arbitrary: a) (auto simp: Cons_eq_append_conv)

lemma rx_match_sound: "rx_match rs s = Some (cs, rest) \<Longrightarrow> \<exists>m. s = m @ rest \<and> rx_lang rs m cs"
proof (induction rs s arbitrary: cs rest rule: rx_match.induct)
  case (2 l rs s)
  then obtain m where m: "drop (length l) s = m @ rest" "rx_lang rs m cs" "HasPrefix s l" by (auto split: if_splits)
  then have "s = l @ m @ rest" by (auto simp: HasPrefix_iff)
  then show ?case using lang_lit [OF m(2), of l] by auto
next
  case (3 p rs s)
  then obtain a b where ab: "(a, b) \<in> set (runs p s)" "rx_match rs b = Some (cs, rest)" by (fastforce dest: first_some_Some)
  then obtain m where "b = m @ rest" "rx_lang rs m cs" using 3 by blast
  then show ?case using ab(1) lang_many [of a p rs m cs] by (auto simp: set_runs)
next
  case (4 p rs s)
  then obtain a b where ab: "(a, b) \<in> set (runs p s)" "a \<noteq> []" "rx_match rs b = Some (cs, rest)" by (fastforce dest: first_some_Some split: if_splits)
  then obtain m where "b = m @ rest" "rx_lang rs m cs" using 4 by blast
  then show ?case using ab(1,2) lang_many1 [of a p rs m cs] by (auto simp: set_runs)
next
  case (5 p rs s)
  then obtain a b cs' where ab: "(a, b) \<in> set (runs p s)" "a \<noteq> []" "rx_match rs b = Some (cs', rest)" "cs = a # cs'"
    by (fastforce dest: first_some_Some split: if_splits)
  then obtain m where "b = m @ rest" "rx_lang rs m cs'" using 5 by blast
  then show ?case using ab(1,2,4) lang_capture [of a p rs m cs'] by (auto simp: set_runs)
qed (auto intro: lang_nil)

lemma run_found: "\<forall>c \<in> set a. p c \<Longrightarrow> f (a, b) \<noteq> None \<Longrightarrow> first_some f (runs p (a @ b)) \<noteq> None"
  using set_runs [of a b p "a @ b"] by (auto simp del: not_None_eq)

lemma rx_match_complete: "rx_lang rs m cs \<Longrightarrow> rx_match rs (m @ rest) \<noteq> None"
proof (induction arbitrary: rest rule: rx_lang.induct)
  case (lang_many a p rs s cs)
  then have "rx_match rs (s @ rest) \<noteq> None" by blast
  then show ?case unfolding append_assoc rx_match.simps by (intro run_found) (use lang_many in \<open>simp_all del: not_None_eq\<close>)
next
  case (lang_many1 a p rs s cs)
  then have "rx_match rs (s @ rest) \<noteq> None" by blast
  then show ?case unfolding append_assoc rx_match.simps by (intro run_found) (use lang_many1 in \<open>simp_all del: not_None_eq\<close>)
next
  case (lang_capture a p rs s cs)
  then have "rx_match rs (s @ rest) \<noteq> None" by blast
  then show ?case unfolding append_assoc rx_match.simps by (intro run_found) (use lang_capture in \<open>simp_all del: not_None_eq\<close>)
qed (auto simp: HasPrefix_iff)

section \<open>Braces\<close>

text \<open>Texts whose braces match.\<close>

inductive balanced :: "string \<Rightarrow> bool" where
  bal_nil: "balanced []"
| bal_char: "c \<noteq> CHR ''{'' \<Longrightarrow> c \<noteq> CHR ''}'' \<Longrightarrow> balanced s \<Longrightarrow> balanced (c # s)"
| bal_block: "balanced s \<Longrightarrow> balanced t \<Longrightarrow> balanced (CHR ''{'' # s @ CHR ''}'' # t)"

lemma brace_loop_balanced: "balanced b \<Longrightarrow> 1 \<le> d \<Longrightarrow> brace_loop (b @ s) i d = brace_loop s (i + int (length b)) d"
  by (induction arbitrary: s i d rule: balanced.induct) (auto simp: algebra_simps)

lemma brace_loop_found:
  assumes "brace_loop s i d = Some j" and "1 \<le> d"
  shows "\<exists>b rest. balanced b \<and> s = b @ CHR ''}'' # rest \<and> (if d = 1 then j = i + int (length b) else brace_loop rest (i + int (length b) + 1) (d - 1) = Some j)"
  using assms
proof (induction "length s" arbitrary: s i d rule: less_induct)
  case less
  show ?case
  proof (cases s)
    case (Cons c cs)
    consider (up) "c = CHR ''{''" | (down) "c = CHR ''}''" | (other) "c \<noteq> CHR ''{''" "c \<noteq> CHR ''}''" by blast
    then show ?thesis
    proof cases
      case up
      have "brace_loop cs (i + 1) (d + 1) = Some j" using less.prems Cons up by simp
      then obtain b1 r1 where 1: "balanced b1" "cs = b1 @ CHR ''}'' # r1" "brace_loop r1 (i + 1 + int (length b1) + 1) d = Some j"
        using less.hyps [of cs "i + 1" "d + 1"] less.prems(2) Cons by auto
      then obtain b2 r2 where 2: "balanced b2" "r1 = b2 @ CHR ''}'' # r2"
        "if d = 1 then j = i + 1 + int (length b1) + 1 + int (length b2) else brace_loop r2 (i + 1 + int (length b1) + 1 + int (length b2) + 1) (d - 1) = Some j"
        using less.hyps [OF _ 1(3) less.prems(2)] Cons by auto
      show ?thesis using bal_block [OF 1(1) 2(1)] 1(2) 2(2,3) Cons up
        by - (rule exI [of _ "CHR ''{'' # b1 @ CHR ''}'' # b2"], rule exI [of _ r2], auto simp: algebra_simps split: if_splits)
    next
      case down
      then show ?thesis using less.prems Cons by - (rule exI [of _ "[]"], rule exI [of _ cs], auto intro: bal_nil split: if_splits)
    next
      case other
      then have "brace_loop cs (i + 1) d = Some j" using less.prems Cons by simp
      then obtain b r where "balanced b" "cs = b @ CHR ''}'' # r"
        "if d = 1 then j = i + 1 + int (length b) else brace_loop r (i + 1 + int (length b) + 1) (d - 1) = Some j"
        using less.hyps [OF _ _ less.prems(2), of cs "i + 1"] Cons by auto
      then show ?thesis using bal_char [OF other] Cons by - (rule exI [of _ "c # b"], rule exI [of _ r], auto split: if_splits)
    qed
  qed (use less.prems in simp)
qed

lemma matchBrace_exact:
  assumes "0 \<le> open" and "nat open < length text" and "text ! nat open = CHR ''{''"
  shows "matchBrace text open = Some close \<longleftrightarrow>
    (\<exists>body rest. drop (nat open) text = CHR ''{'' # body @ CHR ''}'' # rest \<and> balanced body \<and> close = open + int (length body) + 1)" (is "?l \<longleftrightarrow> ?r")
proof -
  have d: "drop (nat open) text = CHR ''{'' # drop (Suc (nat open)) text" using assms by (metis Cons_nth_drop_Suc)
  then have m: "matchBrace text open = brace_loop (drop (Suc (nat open)) text) (open + 1) 1" by (simp add: matchBrace_def)
  show ?thesis
  proof
    assume ?l
    then show ?r using brace_loop_found [of "drop (Suc (nat open)) text" "open + 1" 1 close] d m by auto
  next
    assume ?r
    then obtain body rest where b: "drop (Suc (nat open)) text = body @ CHR ''}'' # rest" "balanced body" "close = open + int (length body) + 1" using d by auto
    show ?l unfolding m b(1) by (simp add: brace_loop_balanced [OF b(2)] b(3))
  qed
qed

section \<open>The table\<close>

lemma collect_items_Inr: "collect_items f xs = Inr zs \<longleftrightarrow> (\<forall>x \<in> set xs. \<exists>ys. f x = Inr ys) \<and> zs = concat (map (\<lambda>x. projr (f x)) xs)"
  by (induction xs arbitrary: zs) (auto split: sum.splits, metis sum.sel(2))

lemma collect_items_perm:
  assumes "mset xs = mset ys" and "collect_items f xs = Inr zs"
  obtains zs' where "collect_items f ys = Inr zs'" and "mset zs' = mset zs"
proof
  have "set xs = set ys" using assms(1) by (rule mset_eq_setD)
  then show "collect_items f ys = Inr (concat (map (\<lambda>x. projr (f x)) ys))" using assms(2) by (simp add: collect_items_Inr)
  have "mset (concat (map (\<lambda>x. projr (f x)) xs)) = (\<Sum>x \<in># mset xs. mset (projr (f x)))" for xs by (induction xs) auto
  then show "mset (concat (map (\<lambda>x. projr (f x)) ys)) = mset zs" using assms by (simp add: collect_items_Inr)
qed

lemma dup_cmd_None: "dup_cmd seen its = None \<longleftrightarrow> distinct (map ri_CmdID its) \<and> ri_CmdID ` set its \<inter> seen = {}"
  by (induction its arbitrary: seen) auto

definition visits_all :: "('a list \<Rightarrow> 'a list) \<Rightarrow> bool" where
  "visits_all ord \<longleftrightarrow> (\<forall>xs. mset (ord xs) = mset xs)"

lemma scan_file_perm:
  assumes "visits_all ord" and "visits_all ord'" and "scan_file ord f = Inr zs"
  shows "\<exists>zs'. scan_file ord' f = Inr zs' \<and> mset zs' = mset zs"
proof -
  obtain path content messages services where f: "f = (path, Some content)" "extractBlocks path content messageStartRE = Inr messages"
    "extractBlocks path content serviceStartRE = Inr services" "collect_items (scan_service path messages) (ord services) = Inr zs"
    using assms(3) by (auto simp: scan_file_def split: prod.splits option.splits sum.splits)
  have "mset (ord services) = mset (ord' services)" using assms(1,2) by (simp add: visits_all_def)
  then obtain zs' where "collect_items (scan_service path messages) (ord' services) = Inr zs'" "mset zs' = mset zs"
    using collect_items_perm [OF _ f(4)] by blast
  then show ?thesis using f(1-3) by (simp add: scan_file_def)
qed

lemma scan_files_perm:
  assumes "visits_all ord" and "visits_all ord'"
  shows "collect_items (scan_file ord) fs = Inr zs \<Longrightarrow> \<exists>zs'. collect_items (scan_file ord') fs = Inr zs' \<and> mset zs' = mset zs"
proof (induction fs arbitrary: zs)
  case (Cons f fs)
  then obtain ys us where "scan_file ord f = Inr ys" "collect_items (scan_file ord) fs = Inr us" "zs = ys @ us" by (auto split: sum.splits)
  then show ?case using Cons.IH scan_file_perm [OF assms] by fastforce
qed simp

lemma scanRoutes_order:
  assumes "visits_all ord" and "visits_all ord'" and "scanRoutes ord fs = Inr rs"
  shows "scanRoutes ord' fs = Inr rs"
proof -
  obtain its where i: "collect_items (scan_file ord) fs = Inr its" "dup_cmd {} its = None" "rs = sort_key ri_CmdID its"
    using assms(3) by (auto simp: scanRoutes_def split: sum.splits option.splits)
  obtain its' where j: "collect_items (scan_file ord') fs = Inr its'" "mset its' = mset its" using scan_files_perm [OF assms(1,2) i(1)] by blast
  have "distinct (map ri_CmdID its)" using i(2) by (simp add: dup_cmd_None)
  moreover have "mset (map ri_CmdID its') = mset (map ri_CmdID its)" using j(2) by simp
  ultimately have d: "distinct (map ri_CmdID its')" by (metis mset_eq_imp_distinct_iff)
  have "sort_key ri_CmdID its' = sort_key ri_CmdID its"
    by (rule sort_key_inj_key_eq) (use j(2) d in \<open>auto simp: distinct_map\<close>)
  moreover have "dup_cmd {} its' = None" using d by (simp add: dup_cmd_None)
  ultimately show ?thesis using i j(1) by (simp add: scanRoutes_def)
qed

text \<open>
  The routes a file describes: a method of a service marked as a frontend with a type of server, whose request is a
  message of the same file with a command.
\<close>

definition rpc_describes :: "(string \<times> string) list \<Rightarrow> string \<Rightarrow> routeItem \<Rightarrow> bool" where
  "rpc_describes messages body r \<longleftrightarrow> (\<exists>s e input output inputMsg. (s, e, [ri_Method r, input, output]) \<in> set (FindAll rpcRE body)
     \<and> map_of messages input = Some inputMsg \<and> ri_CmdID r = firstMatch cmdIDRE inputMsg \<and> ri_CmdID r \<noteq> []
     \<and> ri_ServerType r = serverTypeToConst (firstMatch serverTypeRE body) \<and> ri_Route r = ri_Service r @ ''/'' @ ri_Method r
     \<and> ri_RspCmdID r = rsp_cmd messages output \<and> ri_NoAuth r = MatchString noAuthRE inputMsg)"

definition describes :: "string \<times> string option \<Rightarrow> routeItem \<Rightarrow> bool" where
  "describes f r \<longleftrightarrow> (\<exists>path content messages services body. f = (path, Some content)
     \<and> extractBlocks path content messageStartRE = Inr messages \<and> extractBlocks path content serviceStartRE = Inr services
     \<and> (ri_Service r, body) \<in> set services \<and> firstMatch kindRE body = ''FRONTEND'' \<and> firstMatch serverTypeRE body \<noteq> []
     \<and> rpc_describes messages body r)"

fun captures :: "rx \<Rightarrow> bool" where "captures (Capture _) = True" | "captures _ = False"

lemma rx_lang_groups: "rx_lang rs m cs \<Longrightarrow> length cs = length (filter captures rs)"
  by (induction rule: rx_lang.induct) auto

lemma find_from_matches: "(s, e, cs) \<in> set (find_from re i skip bol t) \<Longrightarrow> \<exists>m. rx_lang (re_items re) m cs"
  by (induction re i skip bol t rule: find_from.induct) (auto simp: Let_def dest: rx_match_sound split: option.splits if_splits)

lemma rpc_groups: "(s, e, cs) \<in> set (FindAll rpcRE t) \<Longrightarrow> \<exists>a b c. cs = [a, b, c]"
proof -
  assume "(s, e, cs) \<in> set (FindAll rpcRE t)"
  then obtain m where "rx_lang (re_items rpcRE) m cs" using find_from_matches by (fastforce simp: FindAll_def)
  then have "length cs = 3" using rx_lang_groups by (fastforce simp: rpcRE_def)
  then show ?thesis by (auto simp: numeral_3_eq_3 length_Suc_conv)
qed

lemma collect_items_elem: "collect_items f xs = Inr zs \<Longrightarrow> z \<in> set zs \<longleftrightarrow> (\<exists>x \<in> set xs. \<exists>ys. f x = Inr ys \<and> z \<in> set ys)"
  by (auto simp: collect_items_Inr) (metis sum.sel(2))+

lemma collect_items_each: "collect_items f xs = Inr zs \<Longrightarrow> x \<in> set xs \<Longrightarrow> \<exists>ys. f x = Inr ys"
  by (simp add: collect_items_Inr)

lemma scan_rpc_item:
  assumes "scan_rpc path messages name st [a, b, c] = Inr ys"
  shows "r \<in> set ys \<longleftrightarrow> (\<exists>inputMsg. map_of messages b = Some inputMsg \<and> ri_CmdID r = firstMatch cmdIDRE inputMsg \<and> ri_CmdID r \<noteq> []
    \<and> ri_ServerType r = serverTypeToConst st \<and> ri_Service r = name \<and> ri_Method r = a \<and> ri_Route r = name @ ''/'' @ a
    \<and> ri_RspCmdID r = rsp_cmd messages c \<and> ri_NoAuth r = MatchString noAuthRE inputMsg)"
    and "r \<in> set ys \<Longrightarrow> ri_CmdID r \<noteq> ''0''"
  using assms by (auto simp: scan_rpc_def Let_def split: option.splits if_splits intro!: routeItem.equality)

lemma rpc_describesI: "(s, e, [ri_Method r, input, output]) \<in> set (FindAll rpcRE body) \<Longrightarrow> map_of messages input = Some inputMsg \<Longrightarrow>
  ri_CmdID r = firstMatch cmdIDRE inputMsg \<Longrightarrow> ri_CmdID r \<noteq> [] \<Longrightarrow> ri_ServerType r = serverTypeToConst (firstMatch serverTypeRE body) \<Longrightarrow>
  ri_Route r = ri_Service r @ ''/'' @ ri_Method r \<Longrightarrow> ri_RspCmdID r = rsp_cmd messages output \<Longrightarrow> ri_NoAuth r = MatchString noAuthRE inputMsg \<Longrightarrow>
  rpc_describes messages body r"
  unfolding rpc_describes_def by blast

lemma scan_service_item:
  assumes "scan_service path messages (name, body) = Inr ys"
  shows "r \<in> set ys \<longleftrightarrow> firstMatch kindRE body = ''FRONTEND'' \<and> firstMatch serverTypeRE body \<noteq> [] \<and> ri_Service r = name \<and> rpc_describes messages body r"
    and "r \<in> set ys \<Longrightarrow> ri_CmdID r \<noteq> ''0''"
proof -
  let ?rpc = "scan_rpc path messages name (firstMatch serverTypeRE body)" and ?ok = "firstMatch kindRE body = ''FRONTEND'' \<and> firstMatch serverTypeRE body \<noteq> []"
  have no: "ys = []" if "\<not> ?ok" using assms that by (auto simp: scan_service_def Let_def split: if_splits)
  have c: "collect_items (\<lambda>(_, _, caps). ?rpc caps) (FindAll rpcRE body) = Inr ys" if ?ok using assms that by (simp add: scan_service_def)
  have mem: "\<exists>s e a b c zs. (s, e, [a, b, c]) \<in> set (FindAll rpcRE body) \<and> ?rpc [a, b, c] = Inr zs \<and> r \<in> set zs" if k: ?ok and y: "r \<in> set ys"
  proof -
    obtain s e cs zs where m: "(s, e, cs) \<in> set (FindAll rpcRE body)" "?rpc cs = Inr zs" "r \<in> set zs"
      using collect_items_elem [OF c [OF k], of r] y by auto
    then show ?thesis using rpc_groups [OF m(1)] by blast
  qed
  show "r \<in> set ys \<Longrightarrow> ri_CmdID r \<noteq> ''0''"
  proof -
    assume r: "r \<in> set ys"
    then have "ys \<noteq> []" by auto
    then have "?ok" using no by blast
    then obtain s e a b c zs where m: "(s, e, [a, b, c]) \<in> set (FindAll rpcRE body)" "?rpc [a, b, c] = Inr zs" "r \<in> set zs" using mem [OF _ r] by blast
    then show ?thesis using scan_rpc_item(2) [OF m(2)] by blast
  qed
  show "r \<in> set ys \<longleftrightarrow> firstMatch kindRE body = ''FRONTEND'' \<and> firstMatch serverTypeRE body \<noteq> [] \<and> ri_Service r = name \<and> rpc_describes messages body r"
  proof (cases ?ok)
    case True
    have "ri_Service r = name \<and> rpc_describes messages body r" if y: "r \<in> set ys"
    proof -
      obtain s e a b c zs where m: "(s, e, [a, b, c]) \<in> set (FindAll rpcRE body)" "?rpc [a, b, c] = Inr zs" "r \<in> set zs" using mem [OF True y] by blast
      then obtain inputMsg where "map_of messages b = Some inputMsg \<and> ri_CmdID r = firstMatch cmdIDRE inputMsg \<and> ri_CmdID r \<noteq> []
        \<and> ri_ServerType r = serverTypeToConst (firstMatch serverTypeRE body) \<and> ri_Service r = name \<and> ri_Method r = a \<and> ri_Route r = name @ ''/'' @ a
        \<and> ri_RspCmdID r = rsp_cmd messages c \<and> ri_NoAuth r = MatchString noAuthRE inputMsg" using scan_rpc_item(1) [OF m(2), of r] by blast
      then show ?thesis using rpc_describesI [of s e r b c body messages inputMsg] m(1) by auto
    qed
    moreover have "r \<in> set ys" if d: "ri_Service r = name" "rpc_describes messages body r"
    proof -
      obtain s e b c inputMsg where m: "(s, e, [ri_Method r, b, c]) \<in> set (FindAll rpcRE body)" "map_of messages b = Some inputMsg"
        "ri_CmdID r = firstMatch cmdIDRE inputMsg" "ri_CmdID r \<noteq> []" "ri_ServerType r = serverTypeToConst (firstMatch serverTypeRE body)"
        "ri_Route r = ri_Service r @ ''/'' @ ri_Method r" "ri_RspCmdID r = rsp_cmd messages c" "ri_NoAuth r = MatchString noAuthRE inputMsg"
        using d(2) unfolding rpc_describes_def by blast
      obtain zs where z: "?rpc [ri_Method r, b, c] = Inr zs" using collect_items_each [OF c [OF True] m(1)] by auto
      then have "r \<in> set zs" using scan_rpc_item(1) [OF z, of r] m(2-8) d(1) by simp
      then show ?thesis using collect_items_elem [OF c [OF True], of r] m(1) z by force
    qed
    ultimately show ?thesis using True by blast
  qed (use no in auto)
qed

lemma scan_file_item:
  assumes "scan_file ord f = Inr ys" and "visits_all ord"
  shows "r \<in> set ys \<longleftrightarrow> describes f r" and "r \<in> set ys \<Longrightarrow> ri_CmdID r \<noteq> ''0''"
proof -
  obtain path content messages services where f: "f = (path, Some content)" "extractBlocks path content messageStartRE = Inr messages"
    "extractBlocks path content serviceStartRE = Inr services" "collect_items (scan_service path messages) (ord services) = Inr ys"
    using assms(1) by (auto simp: scan_file_def split: prod.splits option.splits sum.splits)
  have s: "set (ord services) = set services" using assms(2) by (metis mset_eq_setD visits_all_def)
  have e: "r \<in> set ys \<longleftrightarrow> (\<exists>name body zs. (name, body) \<in> set services \<and> scan_service path messages (name, body) = Inr zs \<and> r \<in> set zs)"
    using collect_items_elem [OF f(4), of r] s by auto
  have a: "(name, body) \<in> set services \<Longrightarrow> \<exists>zs. scan_service path messages (name, body) = Inr zs" for name body
    using collect_items_each [OF f(4)] s by blast
  show "r \<in> set ys \<Longrightarrow> ri_CmdID r \<noteq> ''0''" using e scan_service_item(2) by blast
  have d: "describes f r \<longleftrightarrow> (\<exists>body. (ri_Service r, body) \<in> set services \<and> firstMatch kindRE body = ''FRONTEND'' \<and> firstMatch serverTypeRE body \<noteq> []
    \<and> rpc_describes messages body r)" using f(1-3) by (auto simp: describes_def)
  show "r \<in> set ys \<longleftrightarrow> describes f r"
  proof
    assume "r \<in> set ys"
    then obtain name body zs where "(name, body) \<in> set services" "scan_service path messages (name, body) = Inr zs" "r \<in> set zs" using e by blast
    then show "describes f r" unfolding d using scan_service_item(1) [of path messages name body zs r] by blast
  next
    assume "describes f r"
    then obtain body where b: "(ri_Service r, body) \<in> set services" "firstMatch kindRE body = ''FRONTEND''" "firstMatch serverTypeRE body \<noteq> []"
      "rpc_describes messages body r" unfolding d by blast
    obtain zs where z: "scan_service path messages (ri_Service r, body) = Inr zs" using a [OF b(1)] by blast
    then show "r \<in> set ys" unfolding e using scan_service_item(1) [OF z, of r] b by blast
  qed
qed

text \<open>
  The generator makes exactly the routes that the files describe, each command once and none of them the reserved one,
  sorted by command, and the same list whatever the order in which the services of a file are visited.
\<close>

theorem routes_exact:
  assumes "scanRoutes ord files = Inr rs" and "visits_all ord"
  shows "(\<forall>r. r \<in> set rs \<longleftrightarrow> (\<exists>f \<in> set files. describes f r)) \<and> sorted (map ri_CmdID rs) \<and> distinct (map ri_CmdID rs) \<and> ''0'' \<notin> ri_CmdID ` set rs
    \<and> (visits_all ord' \<longrightarrow> scanRoutes ord' files = Inr rs)"
proof -
  obtain its where i: "collect_items (scan_file ord) files = Inr its" "dup_cmd {} its = None" "rs = sort_key ri_CmdID its"
    using assms(1) by (auto simp: scanRoutes_def split: sum.splits option.splits)
  have e: "x \<in> set its \<longleftrightarrow> (\<exists>f \<in> set files. \<exists>ys. scan_file ord f = Inr ys \<and> x \<in> set ys)" for x by (rule collect_items_elem [OF i(1)])
  have d: "x \<in> set its \<longleftrightarrow> (\<exists>f \<in> set files. describes f x)" for x
    unfolding e using collect_items_each [OF i(1)] scan_file_item(1) [OF _ assms(2)] by blast
  have z: "x \<in> set its \<Longrightarrow> ri_CmdID x \<noteq> ''0''" for x unfolding e using scan_file_item(2) [OF _ assms(2)] by blast
  have "distinct (map ri_CmdID its)" using i(2) by (simp add: dup_cmd_None)
  then have "distinct (map ri_CmdID rs)" unfolding i(3) by (simp add: distinct_map)
  moreover have "''0'' \<notin> ri_CmdID ` set rs" using z by (auto simp: i(3)) metis
  ultimately show ?thesis using d scanRoutes_order [OF assms(2) _ assms(1)] by (simp add: i(3))
qed

section \<open>The protocol file of the lobby\<close>

definition proto_lines :: "string list \<Rightarrow> string" where "proto_lines ls = concat (map (\<lambda>l. l @ nl) ls)"

definition lobby_handler_proto :: string where
  "lobby_handler_proto = proto_lines [
     ''syntax = '' @ go_quoted ''proto3'' @ '';'', [],
     ''package protocol.handler;'', [],
     ''import '' @ go_quoted ''protocol/common/options.proto'' @ '';'', [],
     ''option go_package = '' @ go_quoted ''project/protocol/handler;handlerpb'' @ '';'', [],
     ''service LobbyHandler {'',
     ''  option (protocol.common.kind) = FRONTEND;'',
     ''  option (protocol.common.server_type) = ST_LOBBYSVR;'', [],
     ''  rpc Ping(CS_Ping_Req) returns (SC_Pong_Rsp);'',
     ''}'', [],
     ''message CS_Ping_Req {'',
     ''  option (protocol.common.cmd_id) = 2054;'',
     ''  option (protocol.common.no_auth) = true;'', [],
     ''  string text = 1;'',
     ''}'', [],
     ''message SC_Pong_Rsp {'',
     ''  option (protocol.common.cmd_id) = 2055;'', [],
     ''  string text = 1;'',
     ''}'']"

lemma lobby_scan: "scanRoutes (\<lambda>xs. xs) [(''lobby_handler.proto'', Some lobby_handler_proto)] =
  Inr [\<lparr>ri_CmdID = ''2054'', ri_ServerType = ''serverTypeLobby'', ri_Service = ''LobbyHandler'', ri_Method = ''Ping'',
        ri_Route = ''LobbyHandler/Ping'', ri_RspCmdID = ''2055'', ri_NoAuth = True\<rparr>]"
  by code_simp

text \<open>
  What a line of the table means to the compiler, with the constants of the package: a literal with a leading zero is
  not decimal and is left out. The table and the whitelist that the router of the gate uses are the compiled output.
\<close>

definition literal :: "string \<Rightarrow> u32 option" where
  "literal s = (if length s \<noteq> 1 \<and> take 1 s = ''0'' then None else map_option word_of_nat (ParseUint32 s))"

definition compiled_entry :: "(string \<rightharpoonup> u32) \<Rightarrow> routeItem \<Rightarrow> (u32 \<times> RouteEntry) option" where
  "compiled_entry types r =
     (case (literal (ri_CmdID r), types (ri_ServerType r), literal (ri_RspCmdID r)) of
        (Some c, Some t, Some rsp) \<Rightarrow> Some (c, \<lparr>re_CmdID = c, re_ServerType = t, re_Route = ri_Route r, re_RspCmdID = rsp\<rparr>)
      | _ \<Rightarrow> None)"

theorem lobby_routes_generated:
  assumes "visits_all ord"
  shows "\<exists>rs. scanRoutes ord [(''lobby_handler.proto'', Some lobby_handler_proto)] = Inr rs
    \<and> map (compiled_entry [''serverTypeLobby'' \<mapsto> serverTypeLobby]) rs = map Some RouteTable
    \<and> map_of (map (\<lambda>r. (literal (ri_CmdID r), True)) (filter ri_NoAuth rs)) (Some cmd) = AuthWhitelist cmd"
proof -
  have "visits_all (\<lambda>xs. xs)" by (simp add: visits_all_def)
  note s = scanRoutes_order [OF this assms lobby_scan]
  have l: "literal ''2054'' = Some 2054" "literal ''2055'' = Some 2055" by (simp_all add: literal_def ParseUint32_def digit_val_def)
  show ?thesis unfolding s by (simp add: l compiled_entry_def RouteTable_def RouteLobbyHandlerPing_def AuthWhitelist_def)
qed

section \<open>What is not checked\<close>

text \<open>
  A method in a comment gets a route, and two messages may have the same command as long as they are not both requests.
\<close>

definition commented_proto :: string where
  "commented_proto = proto_lines [
     ''message Q { option (protocol.common.cmd_id) = 7; }'',
     ''message R { option (protocol.common.cmd_id) = 7; }'',
     ''service S {'',
     ''option (protocol.common.kind) = FRONTEND;'',
     ''option (protocol.common.server_type) = X;'',
     ''// rpc M(Q) returns (R);'',
     ''}'']"

lemma comment_and_duplicate_accepted: "scanRoutes (\<lambda>xs. xs) [([], Some commented_proto)] =
  Inr [\<lparr>ri_CmdID = ''7'', ri_ServerType = ''X'', ri_Service = ''S'', ri_Method = ''M'', ri_Route = ''S/M'', ri_RspCmdID = ''7'', ri_NoAuth = False\<rparr>]"
  by code_simp

end
