(* ===== verification/Gen_Stubs.thy ===== *)
theory Gen_Stubs
  imports Gen_Routes
begin

text \<open>
  The plugin that generates the typed stubs, \<^verbatim>\<open>tools/protoc-gen-svcstub\<close>. The descriptors that the compiler of the protocol
  files hands to the plugin are arguments; the options are read from the text of the file with the expressions of
  \<open>Gen_Routes\<close>. Shown: what is generated obeys the naming rules, frontend methods have commands, and commands are
  distinct within a service, but not within a file. The generated text is modelled line by line.
\<close>

section \<open>Descriptors and specifications\<close>

record proto_method =
  pm_GoName :: string
  pm_InputName :: string
  pm_InputPkg :: string
  pm_OutputName :: string
  pm_OutputPkg :: string
  pm_OutputFull :: "string option"

record proto_service =
  ps_GoName :: string
  ps_Methods :: "proto_method list"

record proto_file =
  pd_Path :: string
  pd_Generate :: bool
  pd_GoImportPath :: string
  pd_Services :: "proto_service list"
  pd_Text :: "string option"

datatype serviceKind = kindFrontend | kindBackend

record methodSpec =
  ms_Name :: string
  ms_Notify :: bool
  ms_InputType :: string
  ms_InputPkg :: string
  ms_OutputType :: string
  ms_OutputPkg :: string
  ms_ShortPkg :: string
  ms_CmdID :: string
  ms_RspCmdID :: string

record serviceSpec =
  ss_Name :: string
  ss_Kind :: serviceKind
  ss_BaseName :: string
  ss_FileBaseName :: string
  ss_ServerTypeConst :: string
  ss_Methods :: "methodSpec list"

datatype stub_error = TextError gen_error | ServiceNotFound string | BadServiceName string | NoServerType string
  | NotNtf string | NotReq string | NotRsp string | FrontendRsp string | NoCmd string | DuplicateCmdID string string

section \<open>Names\<close>

definition kindSuffix :: "serviceKind \<Rightarrow> string" where
  "kindSuffix kind = (if kind = kindFrontend then ''Handler'' else ''Remote'')"

definition detectKind :: "string \<Rightarrow> string \<Rightarrow> serviceKind" where
  "detectKind serviceName body =
     (let m = firstMatch kindRE body in
      if m = ''FRONTEND'' then kindFrontend
      else if m = ''BACKEND'' then kindBackend
      else if HasSuffix serviceName (kindSuffix kindFrontend) then kindFrontend
      else kindBackend)"

definition lintServiceName :: "string \<Rightarrow> serviceKind \<Rightarrow> stub_error option" where
  "lintServiceName name kind = (if \<not> HasSuffix name (kindSuffix kind) then Some (BadServiceName name) else None)"

definition lintMethodName :: "string \<Rightarrow> string \<Rightarrow> string \<Rightarrow> bool \<Rightarrow> serviceKind \<Rightarrow> stub_error option" where
  "lintMethodName methodName inputName outputName notify kind =
     (if notify \<and> \<not> HasSuffix inputName ''_Ntf'' then Some (NotNtf methodName)
      else if \<not> notify \<and> \<not> HasSuffix inputName ''_Req'' then Some (NotReq methodName)
      else if \<not> notify \<and> \<not> HasSuffix outputName ''_Rsp'' then Some (NotRsp methodName)
      else if kind = kindFrontend \<and> HasSuffix inputName ''_Rsp'' then Some (FrontendRsp methodName)
      else None)"

definition isEmptyOutput :: "proto_method \<Rightarrow> bool" where
  "isEmptyOutput m \<longleftrightarrow> pm_OutputFull m = Some ''google.protobuf.Empty''"

definition lastSeg :: "string \<Rightarrow> string" where
  "lastSeg path = rev (takeWhile (\<lambda>c. c \<noteq> CHR 0x2F) (rev path))"

definition isUpper :: "char \<Rightarrow> bool" where "isUpper c \<longleftrightarrow> (65::nat) \<le> of_char c \<and> (of_char c :: nat) \<le> 90"
definition isLower :: "char \<Rightarrow> bool" where "isLower c \<longleftrightarrow> (97::nat) \<le> of_char c \<and> (of_char c :: nat) \<le> 122"

text \<open>\<^verbatim>\<open>toSnake\<close> after the character \<open>prev\<close>, if there is one.\<close>

fun snake_from :: "char option \<Rightarrow> string \<Rightarrow> string" where
  "snake_from prev [] = []"
| "snake_from prev (c # cs) =
     (case prev of
        None \<Rightarrow> []
      | Some p \<Rightarrow>
          if \<not> isUpper c then []
          else if isLower p then ''_''
          else if isUpper p \<and> cs \<noteq> [] \<and> isLower (hd cs) then ''_''
          else []) @ to_lower c # snake_from (Some c) cs"

definition toSnake :: "string \<Rightarrow> string" where "toSnake s = snake_from None s"

section \<open>Reading the services\<close>

definition parse_method :: "proto_file \<Rightarrow> serviceKind \<Rightarrow> (string \<times> string) list \<Rightarrow> string set \<Rightarrow> proto_method \<Rightarrow> stub_error + methodSpec" where
  "parse_method f kind messages cmdSeen m =
     (let notify = isEmptyOutput m;
          inputName = pm_InputName m;
          inputPkg = (if pm_InputPkg m = [] then pd_GoImportPath f else pm_InputPkg m);
          outputName = (if notify then [] else pm_OutputName m);
          outputPkg = (if notify then [] else if pm_OutputPkg m = [] then pd_GoImportPath f else pm_OutputPkg m) in
      case lintMethodName (pm_GoName m) inputName outputName notify kind of
        Some e \<Rightarrow> Inl e
      | None \<Rightarrow>
          let body = (\<lambda>n. case map_of messages n of None \<Rightarrow> [] | Some b \<Rightarrow> b);
              id0 = firstMatch cmdIDRE (body inputName);
              cmdID = (if id0 = [] then ''0'' else id0);
              rspID = firstMatch cmdIDRE (body outputName) in
          if cmdID = ''0'' \<and> kind = kindFrontend then Inl (NoCmd (pm_GoName m))
          else if cmdID \<in> cmdSeen \<and> cmdID \<noteq> ''0'' then Inl (DuplicateCmdID (pm_GoName m) cmdID)
          else Inr \<lparr>ms_Name = pm_GoName m, ms_Notify = notify, ms_InputType = inputName, ms_InputPkg = inputPkg, ms_OutputType = outputName,
                 ms_OutputPkg = outputPkg, ms_ShortPkg = lastSeg inputPkg, ms_CmdID = cmdID,
                 ms_RspCmdID = (if \<not> notify \<and> rspID \<noteq> [] then rspID else ''0'')\<rparr>)"

fun parse_methods_from :: "proto_file \<Rightarrow> serviceKind \<Rightarrow> (string \<times> string) list \<Rightarrow> string set \<Rightarrow> proto_method list \<Rightarrow> stub_error + methodSpec list" where
  "parse_methods_from f kind messages cmdSeen [] = Inr []"
| "parse_methods_from f kind messages cmdSeen (m # ms) =
     (case parse_method f kind messages cmdSeen m of
        Inl e \<Rightarrow> Inl e
      | Inr spec \<Rightarrow>
          let seen = (if ms_CmdID spec \<noteq> ''0'' then insert (ms_CmdID spec) cmdSeen else cmdSeen) in
          (case parse_methods_from f kind messages seen ms of Inl e \<Rightarrow> Inl e | Inr specs \<Rightarrow> Inr (spec # specs)))"

text \<open>An error of the extraction is ignored: there are no messages then.\<close>

definition parseMethods :: "proto_file \<Rightarrow> proto_service \<Rightarrow> serviceKind \<Rightarrow> string \<Rightarrow> stub_error + methodSpec list" where
  "parseMethods f s kind protoText =
     (let messages = (case extractBlocks [] protoText messageStartRE of Inl _ \<Rightarrow> [] | Inr ms \<Rightarrow> ms) in
      parse_methods_from f kind messages {} (ps_Methods s))"

definition parse_service :: "proto_file \<Rightarrow> string \<Rightarrow> (string \<times> string) list \<Rightarrow> proto_service \<Rightarrow> stub_error + serviceSpec" where
  "parse_service f content services s =
     (case map_of services (ps_GoName s) of
        None \<Rightarrow> Inl (ServiceNotFound (ps_GoName s))
      | Some body \<Rightarrow>
          let kind = detectKind (ps_GoName s) body in
          (case lintServiceName (ps_GoName s) kind of
             Some e \<Rightarrow> Inl e
           | None \<Rightarrow>
               let base = TrimSuffix (ps_GoName s) (kindSuffix kind); serverType = firstMatch serverTypeRE body in
               if serverType = [] then Inl (NoServerType (ps_GoName s))
               else (case parseMethods f s kind content of
                       Inl e \<Rightarrow> Inl e
                     | Inr methods \<Rightarrow> Inr \<lparr>ss_Name = ps_GoName s, ss_Kind = kind, ss_BaseName = base, ss_FileBaseName = toSnake base,
                         ss_ServerTypeConst = serverTypeToConst serverType, ss_Methods = methods\<rparr>)))"

fun parse_services :: "proto_file \<Rightarrow> string \<Rightarrow> (string \<times> string) list \<Rightarrow> proto_service list \<Rightarrow> stub_error + serviceSpec list" where
  "parse_services f content services [] = Inr []"
| "parse_services f content services (s # ss) =
     (case parse_service f content services s of
        Inl e \<Rightarrow> Inl e
      | Inr spec \<Rightarrow> (case parse_services f content services ss of Inl e \<Rightarrow> Inl e | Inr specs \<Rightarrow> Inr (spec # specs)))"

definition parseFile :: "proto_file \<Rightarrow> stub_error + serviceSpec list" where
  "parseFile f =
     (case pd_Text f of
        None \<Rightarrow> Inl (TextError (ReadError (pd_Path f)))
      | Some content \<Rightarrow>
          (case extractBlocks (pd_Path f) content serviceStartRE of
             Inl e \<Rightarrow> Inl (TextError e)
           | Inr services \<Rightarrow> parse_services f content services (pd_Services f)))"

section \<open>Generated text\<close>

text \<open>The lines that are written with \<^verbatim>\<open>g.P\<close>.\<close>

definition tab2 :: string where "tab2 = tab @ tab"
definition tab3 :: string where "tab3 = tab @ tab @ tab"

definition sigTyped :: "methodSpec \<Rightarrow> string" where
  "sigTyped m =
     (if ms_Notify m then ms_Name m @ ''(ctx corerpc.Ctx, ntf *'' @ ms_ShortPkg m @ ''.'' @ ms_InputType m @ '')''
      else ms_Name m @ ''(ctx corerpc.Ctx, req *'' @ ms_ShortPkg m @ ''.'' @ ms_InputType m @ '', reply corerpc.Reply[*'' @ ms_ShortPkg m @ ''.'' @ ms_OutputType m @ ''])'')"

definition typeImports :: "string list \<Rightarrow> methodSpec list \<Rightarrow> string list" where
  "typeImports skip ms = filter (\<lambda>p. p \<noteq> [] \<and> p \<notin> set skip) (concat (map (\<lambda>m. [ms_InputPkg m, ms_OutputPkg m]) ms))"

definition writeGroup :: "string list \<Rightarrow> (string \<times> string) list \<Rightarrow> string list" where
  "writeGroup paths forcedAliases =
     map (\<lambda>p. tab @ (case map_of forcedAliases p of None \<Rightarrow> lastSeg p | Some a \<Rightarrow> a) @ '' '' @ [dquote] @ p @ [dquote]) paths"

definition sortAndWriteImports :: "string list \<Rightarrow> (string \<times> string) list \<Rightarrow> string list" where
  "sortAndWriteImports imps forcedAliases =
     (if imps = [] then []
      else
        let ps = remdups imps;
            is_project = (\<lambda>p. HasPrefix p ''project/'');
            third = sort (filter (\<lambda>p. Contains p ''.'' \<and> \<not> is_project p) ps);
            project = sort (filter is_project ps);
            std = sort (filter (\<lambda>p. \<not> Contains p ''.'' \<and> \<not> is_project p) ps) in
        [''import (''] @ writeGroup std forcedAliases
        @ (if third \<noteq> [] \<and> (std \<noteq> [] \<or> project \<noteq> []) then [[]] else []) @ writeGroup third forcedAliases
        @ (if project \<noteq> [] \<and> (std \<noteq> [] \<or> third \<noteq> []) then [[]] else []) @ writeGroup project forcedAliases
        @ ['')''])"

definition core_alias :: "(string \<times> string) list" where "core_alias = [(''project/internal/core/rpc'', ''corerpc'')]"

definition route_line :: "serviceSpec \<Rightarrow> methodSpec \<Rightarrow> string" where
  "route_line spec m = tab @ routeConstName (ss_Name spec) (ms_Name m) @ '' = '' @ [dquote] @ ss_Name spec @ ''/'' @ ms_Name m @ [dquote]"

definition notify_lines :: "serviceSpec \<Rightarrow> methodSpec \<Rightarrow> string list" where
  "notify_lines spec m =
     (let route = ss_Name spec @ ''/'' @ ms_Name m; routeConst = routeConstName (ss_Name spec) (ms_Name m) in
     [tab @ ''// '' @ route @ '' (Notify)'',
      tab @ ''d.MustRegister('' @ routeConst @ '', corerpc.RecoverRoute('' @ routeConst @ '', func(ctx corerpc.Ctx, body []byte, reply func([]byte, error)) error {'',
      tab2 @ ''var ntf '' @ ms_ShortPkg m @ ''.'' @ ms_InputType m,
      tab2 @ ''if err := proto.Unmarshal(body, &ntf); err != nil {'',
      tab3 @ ''return errcode.New(errcode.ERR_UNMARSHAL, err.Error())'',
      tab2 @ ''}'',
      tab2 @ ''srv.'' @ ms_Name m @ ''(ctx, &ntf)'',
      tab2 @ ''return nil'',
      tab @ ''}))''])"

definition request_lines :: "serviceSpec \<Rightarrow> methodSpec \<Rightarrow> string list" where
  "request_lines spec m =
     (let route = ss_Name spec @ ''/'' @ ms_Name m; routeConst = routeConstName (ss_Name spec) (ms_Name m) in
     [tab @ ''// '' @ route @ '' (Req/Rsp)'',
      tab @ ''d.MustRegister('' @ routeConst @ '', corerpc.RecoverRoute('' @ routeConst @ '', func(ctx corerpc.Ctx, body []byte, reply func([]byte, error)) error {'',
      tab2 @ ''var req '' @ ms_ShortPkg m @ ''.'' @ ms_InputType m,
      tab2 @ ''if err := proto.Unmarshal(body, &req); err != nil {'',
      tab3 @ ''return errcode.New(errcode.ERR_UNMARSHAL, err.Error())'',
      tab2 @ ''}'',
      tab2 @ ''srv.'' @ ms_Name m @ ''(ctx, &req, corerpc.ReplyProto[*'' @ ms_ShortPkg m @ ''.'' @ ms_OutputType m @ ''](reply))'',
      tab2 @ ''return nil'',
      tab @ ''}))''])"

definition writeServiceFile :: "serviceSpec \<Rightarrow> string \<Rightarrow> string \<times> string list" where
  "writeServiceFile spec dir =
     (dir @ ''/'' @ ss_FileBaseName spec @ ''_'' @ dir @ ''.go'',
     [''// Code generated by protoc-gen-svcstub. DO NOT EDIT.'',
      ''package '' @ dir,
      []]
     @ sortAndWriteImports (typeImports [''project/internal/core/rpc''] (ss_Methods spec)
         @ [''project/internal/core/errcode'', ''project/internal/core/rpc'', ''google.golang.org/protobuf/proto'']) core_alias
     @ [[],
      ''const ('']
     @ map (route_line spec) (ss_Methods spec)
     @ ['')'',
      [],
      ''type '' @ ss_Name spec @ '' interface {'']
     @ map (\<lambda>m. tab @ sigTyped m) (ss_Methods spec)
     @ [''}'',
      [],
      ''func Register'' @ ss_Name spec @ ''(d *corerpc.Dispatcher, srv '' @ ss_Name spec @ '') {'',
      tab @ ''if d == nil || srv == nil {'',
      tab2 @ ''return'',
      tab @ ''}'']
     @ concat (map (\<lambda>m. if ms_Notify m then notify_lines spec m else request_lines spec m) (ss_Methods spec))
     @ [''}''])"

definition stub_type_lines :: "string list" where
  "stub_type_lines =
     [''type Stub struct {'',
      tab @ ''core   *corerpc.Core'',
      tab @ ''target corerpc.Target'',
      ''}'',
      [],
      ''func NewStub(core *corerpc.Core, serverType uint32) *Stub {'',
      tab @ ''return &Stub{core: core, target: corerpc.Target{ServerType: serverType}}'',
      ''}'',
      [],
      ''func (s *Stub) At(nodeID uint32) *Stub {'',
      tab @ ''cp := *s'',
      tab @ ''cp.target = cp.target.At(nodeID)'',
      tab @ ''return &cp'',
      ''}'',
      [],
      ''func (s *Stub) ByHash(key string) *Stub {'',
      tab @ ''cp := *s'',
      tab @ ''cp.target = cp.target.ByHash(key)'',
      tab @ ''return &cp'',
      ''}'',
      [],
      ''func (s *Stub) Broadcast() *Stub {'',
      tab @ ''cp := *s'',
      tab @ ''cp.target = cp.target.Broadcast()'',
      tab @ ''return &cp'',
      ''}'',
      [],
      ''func (s *Stub) Timeout(d time.Duration) *Stub {'',
      tab @ ''cp := *s'',
      tab @ ''cp.target = cp.target.Timeout(d)'',
      tab @ ''return &cp'',
      ''}'',
      []]"

definition typed_call_lines :: "string list" where
  "typed_call_lines =
     [''func (s *Stub) typedCall(ctx corerpc.Ctx, route string, req proto.Message, cb func([]byte, error)) {'',
      tab @ ''if s == nil || s.core == nil {'',
      tab2 @ ''if cb != nil {'',
      tab3 @ ''cb(nil, errcode.New(errcode.ERR_INTERNAL, '' @ [dquote] @ ''rpc stub not initialized'' @ [dquote] @ ''))'',
      tab2 @ ''}'',
      tab2 @ ''return'',
      tab @ ''}'',
      tab @ ''body, err := proto.Marshal(req)'',
      tab @ ''if err != nil {'',
      tab2 @ ''if cb != nil {'',
      tab3 @ ''cb(nil, err)'',
      tab2 @ ''}'',
      tab2 @ ''return'',
      tab @ ''}'',
      tab @ ''s.core.Call(s.target, route, body, ctx, func(payload []byte, code errcode.ErrCode) {'',
      tab2 @ ''if ctx.Stale() {'',
      tab3 @ ''return'',
      tab2 @ ''}'',
      tab2 @ ''if cb == nil {'',
      tab3 @ ''return'',
      tab2 @ ''}'',
      tab2 @ ''if code != errcode.OK {'',
      tab3 @ ''cb(nil, errcode.From(code))'',
      tab3 @ ''return'',
      tab2 @ ''}'',
      tab2 @ ''cb(payload, nil)'',
      tab @ ''})'',
      ''}'',
      []]"

definition typed_send_lines :: "string list" where
  "typed_send_lines =
     [''func (s *Stub) typedSend(ctx corerpc.Ctx, route string, ntf proto.Message) {'',
      tab @ ''if s == nil || s.core == nil {'',
      tab2 @ ''return'',
      tab @ ''}'',
      tab @ ''body, err := proto.Marshal(ntf)'',
      tab @ ''if err != nil {'',
      tab2 @ ''return'',
      tab @ ''}'',
      tab @ ''s.core.Send(s.target, route, body, ctx)'',
      ''}'',
      []]"

definition stub_method_lines :: "serviceSpec \<Rightarrow> methodSpec \<Rightarrow> string list" where
  "stub_method_lines spec m =
     (let stubName = ss_BaseName spec @ ''Stub''; routeConst = routeConstName (ss_Name spec) (ms_Name m) in
      (if ms_Notify m then
     [''func (s *'' @ stubName @ '') '' @ ms_Name m @ ''(ctx corerpc.Ctx, ntf *'' @ ms_ShortPkg m @ ''.'' @ ms_InputType m @ '') {'',
      tab @ ''s.typedSend(ctx, '' @ routeConst @ '', ntf)'',
      ''}'']
       else
     [''func (s *'' @ stubName @ '') '' @ ms_Name m @ ''(ctx corerpc.Ctx, req *'' @ ms_ShortPkg m @ ''.'' @ ms_InputType m @ '', cb func(*'' @ ms_ShortPkg m @ ''.'' @ ms_OutputType m @ '', error)) {'',
      tab @ ''s.typedCall(ctx, '' @ routeConst @ '', req, func(body []byte, err error) {'',
      tab2 @ ''if err != nil {'',
      tab3 @ ''cb(nil, err)'',
      tab3 @ ''return'',
      tab2 @ ''}'',
      tab2 @ ''var rsp '' @ ms_ShortPkg m @ ''.'' @ ms_OutputType m,
      tab2 @ ''if uerr := proto.Unmarshal(body, &rsp); uerr != nil {'',
      tab3 @ ''cb(nil, uerr)'',
      tab3 @ ''return'',
      tab2 @ ''}'',
      tab2 @ ''cb(&rsp, nil)'',
      tab @ ''})'',
      ''}'']) @ [[]])"

definition stub_lines :: "serviceSpec \<Rightarrow> string list" where
  "stub_lines spec =
     (let stubName = ss_BaseName spec @ ''Stub'' in
     [''type '' @ stubName @ '' struct{ *Stub }'',
      []]
     @ concat (map (stub_method_lines spec) (ss_Methods spec)))"

definition compose_lines :: "string list" where
  "compose_lines =
     [[],
      ''type Next = corerpc.Next'',
      [],
      ''type Sequence = corerpc.Sequence'',
      [],
      ''func Join2[A, B any](ctx corerpc.Ctx, a func(func(*A, error)), b func(func(*B, error)), done func(*A, *B, error)) {'',
      tab @ ''corerpc.Join2(ctx, a, b, done)'',
      ''}'',
      [],
      ''func Join3[A, B, C any](ctx corerpc.Ctx, a func(func(*A, error)), b func(func(*B, error)), c func(func(*C, error)), done func(*A, *B, *C, error)) {'',
      tab @ ''corerpc.Join3(ctx, a, b, c, done)'',
      ''}'',
      [],
      ''func Join4[A, B, C, D any](ctx corerpc.Ctx, a func(func(*A, error)), b func(func(*B, error)), c func(func(*C, error)), d func(func(*D, error)), done func(*A, *B, *C, *D, error)) {'',
      tab @ ''corerpc.Join4(ctx, a, b, c, d, done)'',
      ''}'',
      [],
      ''func Each[T, R any](ctx corerpc.Ctx, items []T, step func(T, func(*R, error)), done func([]*R, error)) {'',
      tab @ ''corerpc.Each(ctx, items, step, done)'',
      ''}'',
      [],
      ''func Seq(ctx corerpc.Ctx) *Sequence { return corerpc.Seq(ctx) }'']"

definition hasBackendMethods :: "serviceSpec list \<Rightarrow> bool" where
  "hasBackendMethods specs \<longleftrightarrow> (\<exists>spec \<in> set specs. ss_Methods spec \<noteq> [])"

definition writeRPCFile :: "serviceSpec list \<Rightarrow> string \<times> string list" where
  "writeRPCFile specs =
     (''rpc.go'',
     [''// Code generated by protoc-gen-svcstub. DO NOT EDIT.'',
      ''package rpc'',
      []]
     @ sortAndWriteImports ([''time'', ''google.golang.org/protobuf/proto'', ''project/internal/core/errcode'', ''project/internal/core/rpc'']
         @ concat (map (\<lambda>spec. typeImports [''project/internal/core/rpc'', ''project/internal/core/errcode''] (ss_Methods spec)) specs)) core_alias
     @ [[],
      ''const ('',
      tab @ ''serverTypeGate        = 1'',
      tab @ ''serverTypeLobby       = 2'',
      tab @ ''serverTypeRouterAgent = 6'',
      '')'',
      []]
     @ (if hasBackendMethods specs then [''const (''] @ concat (map (\<lambda>spec. map (route_line spec) (ss_Methods spec)) specs) @ ['')'',
      []] else [])
     @ stub_type_lines @ typed_call_lines @ typed_send_lines
     @ concat (map stub_lines specs)
     @ (if specs \<noteq> [] then [''var ('']
         @ map (\<lambda>spec. tab @ ss_BaseName spec @ '' = &'' @ ss_BaseName spec @ ''Stub{Stub: NewStub(nil, '' @ ss_ServerTypeConst spec @ '')}'') specs @ ['')'',
      []] else [])
     @ [''func Init(core *corerpc.Core) {''] @ map (\<lambda>spec. tab @ ss_BaseName spec @ ''.Stub.core = core'') specs @ [''}'']
     @ compose_lines)"

text \<open>\<^verbatim>\<open>run\<close>: the files in the order in which they are made.\<close>

fun run_files :: "proto_file list \<Rightarrow> stub_error + serviceSpec list" where
  "run_files [] = Inr []"
| "run_files (f # fs) =
     (if \<not> pd_Generate f then run_files fs
      else case parseFile f of
        Inl e \<Rightarrow> Inl e
      | Inr specs \<Rightarrow> (case run_files fs of Inl e \<Rightarrow> Inl e | Inr rest \<Rightarrow> Inr (specs @ rest)))"

definition stub_run :: "proto_file list \<Rightarrow> stub_error + (string \<times> string list) list" where
  "stub_run fs =
     (case run_files fs of
        Inl e \<Rightarrow> Inl e
      | Inr specs \<Rightarrow>
          Inr (map (\<lambda>spec. writeServiceFile spec (case ss_Kind spec of kindFrontend \<Rightarrow> ''handler'' | kindBackend \<Rightarrow> ''remote'')) specs
               @ [writeRPCFile (sort_key ss_Name (filter (\<lambda>spec. ss_Kind spec = kindBackend) specs))]))"

section \<open>Rules\<close>

definition method_ok :: "serviceKind \<Rightarrow> methodSpec \<Rightarrow> bool" where
  "method_ok kind m \<longleftrightarrow>
     (if ms_Notify m then HasSuffix (ms_InputType m) ''_Ntf'' \<and> ms_RspCmdID m = ''0''
      else HasSuffix (ms_InputType m) ''_Req'' \<and> HasSuffix (ms_OutputType m) ''_Rsp'')
     \<and> (kind = kindFrontend \<longrightarrow> ms_CmdID m \<noteq> ''0'')"

lemma if_Inr: "(if a then Inl x else if b then Inl y else Inr z) = Inr w \<longleftrightarrow> \<not> a \<and> \<not> b \<and> z = w" by simp

lemma lintMethodName_None: "lintMethodName n i out notify kind = None \<longleftrightarrow>
  (if notify then HasSuffix i ''_Ntf'' else HasSuffix i ''_Req'' \<and> HasSuffix out ''_Rsp'') \<and> (kind = kindFrontend \<longrightarrow> \<not> HasSuffix i ''_Rsp'')"
  by (simp add: lintMethodName_def)

lemma parse_method_ok:
  assumes "parse_method f kind messages seen m = Inr spec"
  shows "method_ok kind spec \<and> (ms_CmdID spec \<noteq> ''0'' \<longrightarrow> ms_CmdID spec \<notin> seen) \<and> ms_Name spec = pm_GoName m"
proof -
  have l: "lintMethodName (pm_GoName m) (pm_InputName m) (if isEmptyOutput m then [] else pm_OutputName m) (isEmptyOutput m) kind = None"
    using assms by (auto simp: parse_method_def Let_def split: option.split_asm)
  note a = assms [unfolded parse_method_def Let_def l option.case if_Inr]
  have "ms_Name spec = pm_GoName m" "ms_Notify spec = isEmptyOutput m" "ms_InputType spec = pm_InputName m"
    "ms_OutputType spec = (if isEmptyOutput m then [] else pm_OutputName m)" "isEmptyOutput m \<Longrightarrow> ms_RspCmdID spec = ''0''"
    "\<not> (ms_CmdID spec = ''0'' \<and> kind = kindFrontend)" "\<not> (ms_CmdID spec \<in> seen \<and> ms_CmdID spec \<noteq> ''0'')"
    using a by (auto split del: if_split)
  then show ?thesis using l by (auto simp: lintMethodName_None method_ok_def split: if_split_asm)
qed

lemma parse_methods_ok:
  assumes "parse_methods_from f kind messages seen ms = Inr specs"
  shows "(\<forall>s \<in> set specs. method_ok kind s \<and> (ms_CmdID s \<noteq> ''0'' \<longrightarrow> ms_CmdID s \<notin> seen))
    \<and> distinct (filter (\<lambda>c. c \<noteq> ''0'') (map ms_CmdID specs)) \<and> map ms_Name specs = map pm_GoName ms"
  using assms
proof (induction ms arbitrary: seen specs)
  case (Cons m ms)
  obtain s ss where s: "parse_method f kind messages seen m = Inr s" "specs = s # ss"
    "parse_methods_from f kind messages (if ms_CmdID s \<noteq> ''0'' then insert (ms_CmdID s) seen else seen) ms = Inr ss"
    using Cons.prems by (auto simp: Let_def split: sum.splits)
  show ?case using parse_method_ok [OF s(1)] Cons.IH [OF s(3)] s(2) by (auto split: if_splits)
qed simp

text \<open>
  A specification that is generated: the name of the service ends as its kind demands, the methods are those of the
  descriptor, they obey the naming rules, those of a frontend have a command, and no command occurs twice.
\<close>

theorem stubs_linted:
  assumes "run_files fs = Inr specs" and "spec \<in> set specs"
  shows "\<exists>f \<in> set fs. \<exists>s \<in> set (pd_Services f). pd_Generate f \<and> ss_Name spec = ps_GoName s \<and> ss_Name spec = ss_BaseName spec @ kindSuffix (ss_Kind spec)
    \<and> ss_FileBaseName spec = toSnake (ss_BaseName spec) \<and> map ms_Name (ss_Methods spec) = map pm_GoName (ps_Methods s)
    \<and> (\<forall>m \<in> set (ss_Methods spec). method_ok (ss_Kind spec) m) \<and> distinct (filter (\<lambda>c. c \<noteq> ''0'') (map ms_CmdID (ss_Methods spec)))"
proof -
  have one: "ss_Name spec = ps_GoName s \<and> ss_Name spec = ss_BaseName spec @ kindSuffix (ss_Kind spec)
    \<and> ss_FileBaseName spec = toSnake (ss_BaseName spec) \<and> map ms_Name (ss_Methods spec) = map pm_GoName (ps_Methods s)
    \<and> (\<forall>m \<in> set (ss_Methods spec). method_ok (ss_Kind spec) m) \<and> distinct (filter (\<lambda>c. c \<noteq> ''0'') (map ms_CmdID (ss_Methods spec)))"
    if sp: "parse_service f content services s = Inr spec" for f content services s
  proof -
    obtain body where b: "map_of services (ps_GoName s) = Some body" using sp by (auto simp: parse_service_def split: option.split_asm)
    let ?k = "detectKind (ps_GoName s) body"
    have l: "lintServiceName (ps_GoName s) ?k = None" using sp b by (auto simp: parse_service_def Let_def split: option.split_asm)
    obtain ms where m: "parseMethods f s ?k content = Inr ms" using sp b l by (auto simp: parse_service_def Let_def split: if_splits sum.split_asm)
    have spec: "ss_Name spec = ps_GoName s" "ss_Kind spec = ?k" "ss_BaseName spec = TrimSuffix (ps_GoName s) (kindSuffix ?k)"
      "ss_FileBaseName spec = toSnake (ss_BaseName spec)" "ss_Methods spec = ms"
      using sp b l m by (auto simp: parse_service_def Let_def split: if_splits)
    have "HasSuffix (ps_GoName s) (kindSuffix ?k)" using l by (auto simp: lintServiceName_def split: if_splits)
    then have "TrimSuffix (ps_GoName s) (kindSuffix ?k) @ kindSuffix ?k = ps_GoName s" unfolding HasSuffix_iff by (metis TrimSuffix_append)
    moreover have "parse_methods_from f ?k (case extractBlocks [] content messageStartRE of Inl _ \<Rightarrow> [] | Inr ms \<Rightarrow> ms) {} (ps_Methods s) = Inr ms"
      using m by (simp add: parseMethods_def)
    ultimately show ?thesis using parse_methods_ok [of f ?k _ "{}" "ps_Methods s" ms] unfolding spec by auto
  qed
  have many: "parse_services f content services ss = Inr specs' \<Longrightarrow> spec \<in> set specs' \<Longrightarrow> \<exists>s \<in> set ss. parse_service f content services s = Inr spec" for f content services ss specs'
    by (induction ss arbitrary: specs') (auto split: sum.split_asm)
  have in_file: "parseFile f = Inr specs' \<Longrightarrow> spec \<in> set specs' \<Longrightarrow> \<exists>content services. \<exists>s \<in> set (pd_Services f). parse_service f content services s = Inr spec" for f specs'
    using many by (fastforce simp: parseFile_def split: option.split_asm sum.split_asm)
  have "\<exists>f \<in> set fs. pd_Generate f \<and> (\<exists>specs'. parseFile f = Inr specs' \<and> spec \<in> set specs')"
    using assms by (induction fs arbitrary: specs) (auto split: if_splits sum.split_asm)
  then obtain f specs' where "f \<in> set fs" "pd_Generate f" "parseFile f = Inr specs'" "spec \<in> set specs'" by blast
  then show ?thesis using in_file one by blast
qed

text \<open>The third rule of the methods never fires: the input of a method that passed the first two does not end in \<^verbatim>\<open>_Rsp\<close>.\<close>

lemma frontend_rule_redundant: "lintMethodName n i out notify kind \<noteq> Some (FrontendRsp n')"
  by (auto simp: lintMethodName_def HasSuffix_def) (cases "rev i"; auto split: if_splits)+

text \<open>The set of commands seen is made anew for every service: two services of a file may use the same command.\<close>

definition shared_cmd_method :: proto_method where
  "shared_cmd_method = \<lparr>pm_GoName = ''M'', pm_InputName = ''Q_Req'', pm_InputPkg = ''a/b'', pm_OutputName = ''Q_Rsp'', pm_OutputPkg = ''a/c'', pm_OutputFull = None\<rparr>"

definition shared_cmd_file :: proto_file where
  "shared_cmd_file = \<lparr>pd_Path = [], pd_Generate = True, pd_GoImportPath = ''a/b'',
     pd_Services = [\<lparr>ps_GoName = ''AHandler'', ps_Methods = [shared_cmd_method]\<rparr>, \<lparr>ps_GoName = ''BHandler'', ps_Methods = [shared_cmd_method]\<rparr>],
     pd_Text = Some (proto_lines [''message Q_Req {option (protocol.common.cmd_id) = 7;}'', ''service AHandler {option (protocol.common.server_type) = X;}'',
       ''service BHandler {option (protocol.common.server_type) = X;}''])\<rparr>"

lemma command_shared_by_services:
  "map_sum id (map (\<lambda>spec. (ss_Name spec, map ms_CmdID (ss_Methods spec)))) (run_files [shared_cmd_file]) = Inr [(''AHandler'', [''7'']), (''BHandler'', [''7''])]"
  by code_simp

text \<open>A response of another package than the request is written with the package of the request.\<close>

lemma response_package_lost:
  "map_sum id (map (\<lambda>spec. map (\<lambda>m. (ms_OutputPkg m, sigTyped m)) (ss_Methods spec))) (run_files [shared_cmd_file\<lparr>pd_Services := take 1 (pd_Services shared_cmd_file)\<rparr>])
     = Inr [[(''a/c'', ''M(ctx corerpc.Ctx, req *b.Q_Req, reply corerpc.Reply[*b.Q_Rsp])'')]]"
  by code_simp

section \<open>Names of files\<close>

lemma toSnake_lower: "c \<in> set (toSnake s) \<Longrightarrow> \<not> isUpper c"
proof -
  have l: "\<not> isUpper (to_lower c)" for c by (auto simp: to_lower_def isUpper_def Let_def)
  have u: "\<not> isUpper (CHR ''_'')" by (simp add: isUpper_def)
  have "c \<in> set (snake_from prev s) \<Longrightarrow> \<not> isUpper c" for prev
    by (induction s arbitrary: prev) (use l u in \<open>auto split: option.split_asm if_split_asm\<close>)
  then show "c \<in> set (toSnake s) \<Longrightarrow> \<not> isUpper c" by (simp add: toSnake_def)
qed

end
