(* ===== verification/Gen_Config.thy ===== *)
theory Gen_Config
  imports Go_Strings
begin

text \<open>
  The generator of the configuration code, \<^verbatim>\<open>tools/configgen\<close>: its reader of the schema, line by line, and the five files
  it writes. The recursion over nested messages is a function with fuel. Shown: no field is both reloadable and taken
  from the environment; the generated check of a reload compares exactly the leaves that are not marked as reloadable,
  for every schema without recursive messages, and passes exactly when all of them agree. A recursive message makes the
  generator run forever, and a repeated field without a name makes it panic.
\<close>

section \<open>Schema\<close>

record fieldInfo =
  fi_GoName :: string
  fi_GoType :: string
  fi_YamlName :: string
  fi_Message :: bool
  fi_Repeated :: bool
  fi_Required :: bool
  fi_Reload :: bool
  fi_Env :: bool
  fi_EnumValues :: "string list"

record messageInfo =
  mi_Name :: string
  mi_Fields :: "fieldInfo list"
  mi_Root :: bool
  mi_Server :: string
  mi_Common :: bool

datatype config_error = ReadSchema string | BothReloadAndEnv string

definition stripComment :: "string \<Rightarrow> string" where
  "stripComment line = TrimSpace (case Index line ''//'' of Some idx \<Rightarrow> take idx line | None \<Rightarrow> line)"

definition parseOptionString :: "string \<Rightarrow> string" where
  "parseOptionString line =
     (case Index line [dquote] of
        None \<Rightarrow> []
      | Some idx \<Rightarrow>
          let line' = drop (idx + 1) line in
          (case Index line' [dquote] of None \<Rightarrow> [] | Some end_ \<Rightarrow> take end_ line'))"

text \<open>The message after an option line, and whether the line is one.\<close>

definition parseMessageOption :: "messageInfo \<Rightarrow> string \<Rightarrow> messageInfo \<times> bool" where
  "parseMessageOption msg line =
     (if Contains line ''(config.root)'' then (msg\<lparr>mi_Root := Contains line ''true''\<rparr>, True)
      else if Contains line ''(config.server)'' then (msg\<lparr>mi_Server := parseOptionString line\<rparr>, True)
      else if Contains line ''(config.common)'' then (msg\<lparr>mi_Common := Contains line ''true''\<rparr>, True)
      else (msg, HasPrefix line ''option ''))"

definition goType :: "string \<Rightarrow> bool \<Rightarrow> string \<times> bool" where
  "goType protoType repeated =
     (let (base, message) =
        (if protoType = ''string'' then (''string'', False)
         else if protoType \<in> {''int32'', ''sint32'', ''sfixed32''} then (''int32'', False)
         else if protoType \<in> {''int64'', ''sint64'', ''sfixed64''} then (''int64'', False)
         else if protoType \<in> {''uint32'', ''fixed32''} then (''uint32'', False)
         else if protoType \<in> {''uint64'', ''fixed64''} then (''uint64'', False)
         else if protoType = ''bool'' then (''bool'', False)
         else if protoType = ''float'' then (''float32'', False)
         else if protoType = ''double'' then (''float64'', False)
         else (protoType, True))
      in if repeated then (''[]'' @ base, message) else (base, message))"

definition parseEnumValues :: "string \<Rightarrow> string list" where
  "parseEnumValues options =
     (let needle = ''config.enum_values) = '' @ [dquote] in
      case Index options needle of
        None \<Rightarrow> []
      | Some idx \<Rightarrow>
          let rest = drop (idx + length needle) options in
          (case Index rest [dquote] of
             None \<Rightarrow> []
           | Some end_ \<Rightarrow> filter (\<lambda>p. p \<noteq> []) (map TrimSpace (split_on (CHR 0x2C) (take end_ rest)))))"

definition pascal_part :: "string \<Rightarrow> string" where
  "pascal_part part = (case part of [] \<Rightarrow> [] | c # cs \<Rightarrow> to_upper c # cs)"

definition snakeToPascal :: "string \<Rightarrow> string" where
  "snakeToPascal s = concat (map pascal_part (split_on (CHR 0x5F) s))"

text \<open>\<open>None\<close> is the panic of an index out of range, and \<open>Some (Inr None)\<close> a line that is no field.\<close>

definition make_field :: "string \<Rightarrow> bool \<Rightarrow> string list \<Rightarrow> (config_error + fieldInfo option) option" where
  "make_field options repeated parts =
     (case parts of
        protoType # protoName # _ \<Rightarrow>
          let (gt, message) = goType protoType repeated;
              reload = Contains options ''config.reload''; env = Contains options ''config.env'' in
          if reload \<and> env then Some (Inl (BothReloadAndEnv protoName))
          else Some (Inr (Some \<lparr>fi_GoName = snakeToPascal protoName, fi_GoType = gt, fi_YamlName = protoName, fi_Message = message,
                 fi_Repeated = repeated, fi_Required = Contains options ''config.required'', fi_Reload = reload, fi_Env = env,
                 fi_EnumValues = parseEnumValues options\<rparr>))
      | _ \<Rightarrow> None)"

definition parseField :: "string \<Rightarrow> (config_error + fieldInfo option) option" where
  "parseField line0 =
     (let line = TrimSuffix line0 '';'' in
      if line = [] \<or> HasPrefix line ''option '' \<or> HasPrefix line ''import '' then Some (Inr None)
      else
        let (options, line1) = (case Index line ''['' of None \<Rightarrow> ([], line) | Some idx \<Rightarrow> (drop idx line, TrimSpace (take idx line)));
            line2 = (case Index line1 ''='' of None \<Rightarrow> line1 | Some idx \<Rightarrow> TrimSpace (take idx line1));
            parts = Fields line2 in
        if length parts < 2 then Some (Inr None)
        else if hd parts = ''repeated'' then make_field options True (tl parts)
        else make_field options False parts)"

text \<open>The lines of a message: the message at its closing brace or at the end of the text, and the lines after it.\<close>

fun parse_fields :: "string list \<Rightarrow> messageInfo \<Rightarrow> (config_error + messageInfo \<times> string list) option" where
  "parse_fields [] msg = Some (Inr (msg, []))"
| "parse_fields (l # ls) msg =
     (let fieldLine = stripComment (TrimSpace l) in
      if fieldLine = ''}'' then Some (Inr (msg, ls))
      else if fieldLine = [] then parse_fields ls msg
      else case parseMessageOption msg fieldLine of
        (msg', True) \<Rightarrow> parse_fields ls msg'
      | (msg', False) \<Rightarrow>
          (case parseField fieldLine of
             None \<Rightarrow> None
           | Some (Inl e) \<Rightarrow> Some (Inl e)
           | Some (Inr None) \<Rightarrow> parse_fields ls msg'
           | Some (Inr (Some fld)) \<Rightarrow> parse_fields ls (msg'\<lparr>mi_Fields := mi_Fields msg' @ [fld]\<rparr>)))"

definition newMessage :: "string \<Rightarrow> messageInfo" where
  "newMessage name = \<lparr>mi_Name = name, mi_Fields = [], mi_Root = False, mi_Server = [], mi_Common = False\<rparr>"

lemma parse_fields_shorter: "parse_fields ls msg = Some (Inr (msg', rest)) \<Longrightarrow> length rest \<le> length ls"
  by (induction ls arbitrary: msg) (auto simp: Let_def intro: le_SucI split: if_splits prod.splits bool.splits option.splits sum.splits)

function parse_messages :: "string list \<Rightarrow> (config_error + messageInfo list) option" where
  "parse_messages [] = Some (Inr [])"
| "parse_messages (l # ls) =
     (let line = stripComment (TrimSpace l) in
      if \<not> HasPrefix line ''message '' \<or> \<not> Contains line ''{'' then parse_messages ls
      else
        let name = TrimSpace (TrimSuffix (TrimPrefix line ''message '') ''{'') in
        case parse_fields ls (newMessage name) of
          None \<Rightarrow> None
        | Some (Inl e) \<Rightarrow> Some (Inl e)
        | Some (Inr (msg, rest)) \<Rightarrow>
            (case parse_messages rest of
               None \<Rightarrow> None
             | Some (Inl e) \<Rightarrow> Some (Inl e)
             | Some (Inr msgs) \<Rightarrow> Some (Inr (msg # msgs))))"
  by pat_completeness auto
termination
  by (relation "measure length") (auto dest!: parse_fields_shorter)

definition parseProto :: "string \<times> string option \<Rightarrow> (config_error + messageInfo list) option" where
  "parseProto f =
     (case f of
        (path, None) \<Rightarrow> Some (Inl (ReadSchema path))
      | (path, Some data) \<Rightarrow> parse_messages (split_on (CHR 0x0A) data))"

text \<open>The files in the order of their names; \<open>base\<close> gives the last part of a path.\<close>

fun parseSchemaDir :: "(string \<Rightarrow> string) \<Rightarrow> (string \<times> string option) list \<Rightarrow> (config_error + messageInfo list) option" where
  "parseSchemaDir base [] = Some (Inr [])"
| "parseSchemaDir base (f # fs) =
     (if base (fst f) = ''options.proto'' then parseSchemaDir base fs
      else case parseProto f of
        None \<Rightarrow> None
      | Some (Inl e) \<Rightarrow> Some (Inl e)
      | Some (Inr parsed) \<Rightarrow>
          (case parseSchemaDir base fs of
             None \<Rightarrow> None
           | Some (Inl e) \<Rightarrow> Some (Inl e)
           | Some (Inr msgs) \<Rightarrow> Some (Inr (parsed @ msgs))))"

section \<open>Generated files\<close>

definition gen_header :: string where
  "gen_header = ''// Code generated by tools/configgen. DO NOT EDIT.'' @ nl @ ''package configgen'' @ nl @ nl"

definition config_field :: "fieldInfo \<Rightarrow> string" where
  "config_field f = tab @ fi_GoName f @ '' '' @ fi_GoType f @ '' `yaml:'' @ [dquote] @ fi_YamlName f @ [dquote] @ ''`'' @ nl"

definition renderConfig :: "messageInfo list \<Rightarrow> string" where
  "renderConfig messages = gen_header @
     concat (map (\<lambda>msg. ''type '' @ mi_Name msg @ '' struct {'' @ nl @ concat (map config_field (mi_Fields msg)) @ ''}'' @ nl @ nl) messages)"

definition requiredExpr :: "string \<Rightarrow> string \<Rightarrow> bool \<Rightarrow> string" where
  "requiredExpr name gt repeated =
     (if repeated then ''len('' @ name @ '') == 0''
      else if gt = ''string'' then name @ '' == '' @ [dquote, dquote]
      else if gt \<in> {''int32'', ''int64'', ''uint32'', ''uint64'', ''float32'', ''float64''} then name @ '' == 0''
      else [])"

fun comma_list :: "string list \<Rightarrow> string" where
  "comma_list [] = []"
| "comma_list [v] = v"
| "comma_list (v # vs) = v @ '', '' @ comma_list vs"

definition return_errorf :: "string \<Rightarrow> string \<Rightarrow> string" where
  "return_errorf fmt rest = ''return fmt.Errorf('' @ [dquote] @ fmt @ [dquote] @ rest @ '')'' @ nl"

definition required_text :: "fieldInfo \<Rightarrow> string \<Rightarrow> string" where
  "required_text f yamlName =
     (let expr = requiredExpr (''cfg.'' @ fi_GoName f) (fi_GoType f) (fi_Repeated f) in
      if fi_Required f \<and> expr \<noteq> [] then tab @ ''if '' @ expr @ '' {'' @ nl @ tab @ tab @ return_errorf (yamlName @ '' is required'') [] @ tab @ ''}'' @ nl else [])"

definition enum_text :: "fieldInfo \<Rightarrow> string \<Rightarrow> string" where
  "enum_text f yamlName =
     (if fi_EnumValues f \<noteq> [] \<and> fi_GoType f = ''string'' then
        tab @ ''if cfg.'' @ fi_GoName f @ '' != '' @ [dquote, dquote] @ '' {'' @ nl @ tab @ tab @ ''switch cfg.'' @ fi_GoName f @ '' {'' @ nl
        @ tab @ tab @ ''case '' @ comma_list (map go_quoted (fi_EnumValues f)) @ '':'' @ nl @ tab @ tab @ ''default:'' @ nl
        @ tab @ tab @ tab @ return_errorf (yamlName @ ''=%q is invalid'') ('', cfg.'' @ fi_GoName f) @ tab @ tab @ ''}'' @ nl @ tab @ ''}'' @ nl
      else [])"

definition writeFieldValidation :: "fieldInfo \<Rightarrow> string \<Rightarrow> string" where
  "writeFieldValidation f yamlName =
     (if fi_Message f \<and> \<not> fi_Repeated f then
        tab @ ''if err := cfg.'' @ fi_GoName f @ ''.Validate(); err != nil {'' @ nl @ tab @ tab @ return_errorf (yamlName @ '': %w'') '', err'' @ tab @ ''}'' @ nl
      else required_text f yamlName @ enum_text f yamlName)"

definition renderValidate :: "messageInfo list \<Rightarrow> string" where
  "renderValidate messages = gen_header @ ''import '' @ go_quoted ''fmt'' @ nl @ nl @
     concat (map (\<lambda>msg. ''func (cfg *'' @ mi_Name msg @ '') Validate() error {'' @ nl
       @ tab @ ''if cfg == nil {'' @ nl @ tab @ tab @ return_errorf ''config is nil'' [] @ tab @ ''}'' @ nl
       @ concat (map (\<lambda>f. writeFieldValidation f (fi_YamlName f)) (mi_Fields msg)) @ tab @ ''return nil'' @ nl @ ''}'' @ nl @ nl) messages)"

definition load_text :: "messageInfo \<Rightarrow> string" where
  "load_text msg =
     (let name = TrimSuffix (mi_Name msg) ''Config''; key = ToLower name;
          failed = (\<lambda>what. tab @ tab @ ''return nil, fmt.Errorf('' @ [dquote] @ what @ '' '' @ key @ '' config: %w'' @ [dquote] @ '', err)'' @ nl @ tab @ ''}'' @ nl) in
      ''func Load'' @ name @ ''(path string) (*'' @ mi_Name msg @ '', error) {'' @ nl
      @ tab @ ''cfg, err := config.LoadYAML[*'' @ mi_Name msg @ ''](path)'' @ nl
      @ tab @ ''if err != nil {'' @ nl @ failed ''load''
      @ tab @ ''if err := cfg.Validate(); err != nil {'' @ nl @ failed ''validate''
      @ tab @ ''return cfg, nil'' @ nl @ ''}'' @ nl @ nl)"

definition rootMessages :: "messageInfo list \<Rightarrow> messageInfo list" where
  "rootMessages messages = filter mi_Root messages"

definition renderLoader :: "messageInfo list \<Rightarrow> string" where
  "renderLoader messages = gen_header @ ''import ('' @ nl @ tab @ go_quoted ''fmt'' @ nl @ nl @ tab @ go_quoted ''project/internal/core/config'' @ nl @ '')'' @ nl @ nl
     @ concat (map load_text (filter mi_Root messages))"

definition entry_text :: "messageInfo \<Rightarrow> string" where
  "entry_text msg =
     (let name = TrimSuffix (mi_Name msg) ''Config'' in
      ''func New'' @ name @ ''ConfigEntry(path string) (*config.ConfigEntry['' @ mi_Name msg @ ''], error) {'' @ nl
      @ tab @ ''return config.NewConfigEntry(path, Load'' @ name @ '', Check'' @ name @ ''Reload)'' @ nl @ ''}'' @ nl @ nl)"

definition renderEntry :: "messageInfo list \<Rightarrow> string" where
  "renderEntry messages = gen_header @ ''import '' @ go_quoted ''project/internal/core/config'' @ nl @ nl @ concat (map entry_text (rootMessages messages))"

definition messageMap :: "messageInfo list \<Rightarrow> (string \<rightharpoonup> messageInfo)" where
  "messageMap messages = foldl (\<lambda>out msg. out(mi_Name msg \<mapsto> msg)) Map.empty messages"

text \<open>The checks of \<^verbatim>\<open>writeReloadChecks\<close>, each with both expressions and the path of its message; \<open>None\<close> is a run that has not ended.\<close>

type_synonym check = "string \<times> string \<times> string"

definition reload_field :: "(messageInfo \<Rightarrow> string \<Rightarrow> string \<Rightarrow> string \<Rightarrow> check list option) \<Rightarrow> (string \<rightharpoonup> messageInfo)
    \<Rightarrow> string \<Rightarrow> string \<Rightarrow> string \<Rightarrow> fieldInfo \<Rightarrow> check list option" where
  "reload_field nested msgMap candidate current pre f =
     (let path = (if pre \<noteq> [] then pre @ ''.'' @ fi_YamlName f else fi_YamlName f);
          candidateExpr = candidate @ ''.'' @ fi_GoName f;
          currentExpr = current @ ''.'' @ fi_GoName f in
      if fi_Message f \<and> \<not> fi_Repeated f then
        (case msgMap (fi_GoType f) of
           Some child \<Rightarrow> nested child candidateExpr currentExpr path
         | None \<Rightarrow> Some [])
      else if fi_Reload f then Some []
      else Some [(candidateExpr, currentExpr, path)])"

fun writeReloadChecks :: "nat \<Rightarrow> (string \<rightharpoonup> messageInfo) \<Rightarrow> messageInfo \<Rightarrow> string \<Rightarrow> string \<Rightarrow> string \<Rightarrow> check list option" where
  "writeReloadChecks 0 msgMap msg candidate current pre = None"
| "writeReloadChecks (Suc n) msgMap msg candidate current pre =
     map_option concat (those (map (reload_field (writeReloadChecks n msgMap) msgMap candidate current pre) (mi_Fields msg)))"

definition check_text :: "check \<Rightarrow> string" where
  "check_text c =
     (case c of (candidateExpr, currentExpr, path) \<Rightarrow>
        tab @ ''if !reflect.DeepEqual('' @ candidateExpr @ '', '' @ currentExpr @ '') {'' @ nl
        @ tab @ tab @ return_errorf (path @ '' cannot reload'') [] @ tab @ ''}'' @ nl)"

definition reload_text :: "nat \<Rightarrow> (string \<rightharpoonup> messageInfo) \<Rightarrow> messageInfo \<Rightarrow> string option" where
  "reload_text n msgMap msg =
     (let name = TrimSuffix (mi_Name msg) ''Config'' in
      map_option (\<lambda>checks. ''func Check'' @ name @ ''Reload(candidate *'' @ mi_Name msg @ '', current *'' @ mi_Name msg @ '') error {'' @ nl
        @ tab @ ''if candidate == nil || current == nil {'' @ nl @ tab @ tab @ ''return nil'' @ nl @ tab @ ''}'' @ nl
        @ concat (map check_text checks) @ tab @ ''return nil'' @ nl @ ''}'' @ nl @ nl)
        (writeReloadChecks n msgMap msg ''candidate'' ''current'' []))"

definition renderReload :: "nat \<Rightarrow> messageInfo list \<Rightarrow> string option" where
  "renderReload n messages =
     map_option (\<lambda>ts. gen_header @ ''import ('' @ nl @ tab @ go_quoted ''fmt'' @ nl @ tab @ go_quoted ''reflect'' @ nl @ '')'' @ nl @ nl @ concat ts)
       (those (map (reload_text n (messageMap messages)) (rootMessages messages)))"

section \<open>Flags\<close>

lemma parseField_flags: "parseField line = Some (Inr (Some f)) \<Longrightarrow> \<not> (fi_Reload f \<and> fi_Env f)"
  by (auto simp: parseField_def make_field_def Let_def split: if_splits option.splits list.splits prod.splits)

lemma parseMessageOption_fields: "mi_Fields (fst (parseMessageOption msg line)) = mi_Fields msg"
  by (simp add: parseMessageOption_def)

definition flags_ok :: "messageInfo \<Rightarrow> bool" where
  "flags_ok msg \<longleftrightarrow> (\<forall>f \<in> set (mi_Fields msg). \<not> (fi_Reload f \<and> fi_Env f))"

lemma parse_fields_flags: "parse_fields ls msg = Some (Inr (msg', rest)) \<Longrightarrow> flags_ok msg \<Longrightarrow> flags_ok msg'"
proof (induction ls arbitrary: msg)
  case (Cons l ls)
  let ?l = "stripComment (TrimSpace l)"
  obtain m b where o: "parseMessageOption msg ?l = (m, b)" by fastforce
  then have m: "flags_ok m" using Cons.prems(2) parseMessageOption_fields [of msg ?l] by (simp add: flags_ok_def)
  consider "?l = ''}''" | "?l = []" | "?l \<noteq> ''}''" "?l \<noteq> []" b | "?l \<noteq> ''}''" "?l \<noteq> []" "\<not> b" "parseField ?l = Some (Inr None)"
    | f where "?l \<noteq> ''}''" "?l \<noteq> []" "\<not> b" "parseField ?l = Some (Inr (Some f))"
    using Cons.prems(1) o by (cases b) (auto simp: Let_def split: if_splits option.splits sum.splits)
  then show ?case
  proof cases
    case (5 f)
    then have "flags_ok (m\<lparr>mi_Fields := mi_Fields m @ [f]\<rparr>)" using m parseField_flags by (auto simp: flags_ok_def)
    then show ?thesis using Cons 5 o by (simp add: Let_def)
  qed (use Cons m o in \<open>auto simp: Let_def\<close>)
qed simp

lemma parse_messages_flags: "parse_messages ls = Some (Inr msgs) \<Longrightarrow> msg \<in> set msgs \<Longrightarrow> flags_ok msg"
proof (induction ls arbitrary: msgs rule: parse_messages.induct)
  case (2 l ls)
  have new: "flags_ok (newMessage name)" for name by (simp add: flags_ok_def newMessage_def)
  show ?case
    using 2 parse_fields_flags [OF _ new] by (fastforce simp: Let_def split: if_splits option.splits sum.splits)
qed simp

text \<open>A repeated field of which only the type is given has two parts on its line and one after the keyword.\<close>

lemma repeated_without_name_panics: "parseField ''repeated string = 1;'' = None"
  by code_simp

section \<open>Checks of a reload\<close>

text \<open>The leaves of a message that are not reloadable, by the Go names and by the YAML names of their path.\<close>

inductive frozen_leaf :: "(string \<rightharpoonup> messageInfo) \<Rightarrow> messageInfo \<Rightarrow> string list \<Rightarrow> string list \<Rightarrow> bool" for m where
  leaf: "f \<in> set (mi_Fields msg) \<Longrightarrow> \<not> (fi_Message f \<and> \<not> fi_Repeated f) \<Longrightarrow> \<not> fi_Reload f \<Longrightarrow> frozen_leaf m msg [fi_GoName f] [fi_YamlName f]"
| part: "f \<in> set (mi_Fields msg) \<Longrightarrow> fi_Message f \<Longrightarrow> \<not> fi_Repeated f \<Longrightarrow> m (fi_GoType f) = Some child \<Longrightarrow> frozen_leaf m child gs ys \<Longrightarrow>
    frozen_leaf m msg (fi_GoName f # gs) (fi_YamlName f # ys)"

definition dotted :: "string \<Rightarrow> string list \<Rightarrow> string" where
  "dotted s xs = concat (s # map (\<lambda>x. ''.'' @ x) xs)"

definition yaml_path :: "string \<Rightarrow> string list \<Rightarrow> string" where
  "yaml_path pre ys = (if pre \<noteq> [] then dotted pre ys else dotted (hd ys) (tl ys))"

lemma dotted_Cons: "dotted s (x # xs) = dotted (s @ ''.'' @ x) xs" by (simp add: dotted_def)

lemma frozen_leaf_ne: "frozen_leaf m msg gs ys \<Longrightarrow> ys \<noteq> []" by (auto elim: frozen_leaf.cases)

definition named :: "messageInfo \<Rightarrow> bool" where
  "named msg \<longleftrightarrow> (\<forall>f \<in> set (mi_Fields msg). fi_YamlName f \<noteq> [])"

lemma those_map_mem: "those (map F xs) = Some css \<Longrightarrow> x \<in> set (concat css) \<longleftrightarrow> (\<exists>f \<in> set xs. \<exists>cs. F f = Some cs \<and> x \<in> set cs)"
  by (induction xs arbitrary: css) (auto split: option.splits)

lemma those_map_each: "those (map F xs) = Some css \<Longrightarrow> f \<in> set xs \<Longrightarrow> \<exists>cs. F f = Some cs"
  by (induction xs arbitrary: css) (auto split: option.splits)

lemma yaml_path_Cons: "y \<noteq> [] \<Longrightarrow> ys \<noteq> [] \<Longrightarrow> yaml_path (if pre \<noteq> [] then pre @ ''.'' @ y else y) ys = yaml_path pre (y # ys)"
  by (cases ys) (auto simp: yaml_path_def dotted_def)

lemma writeReloadChecks_exact:
  assumes "\<forall>x \<in> insert msg (ran m). named x" and "writeReloadChecks n m msg ca cu pre = Some checks"
  shows "c \<in> set checks \<longleftrightarrow> (\<exists>gs ys. frozen_leaf m msg gs ys \<and> c = (dotted ca gs, dotted cu gs, yaml_path pre ys))"
  using assms
proof (induction n arbitrary: msg ca cu pre checks)
  case (Suc n)
  let ?F = "reload_field (writeReloadChecks n m) m ca cu pre"
  obtain css where t: "those (map ?F (mi_Fields msg)) = Some css" "checks = concat css" using Suc.prems(2) by auto
  have mem: "c \<in> set checks \<longleftrightarrow> (\<exists>f \<in> set (mi_Fields msg). \<exists>cs. ?F f = Some cs \<and> c \<in> set cs)"
    unfolding t(2) by (rule those_map_mem [OF t(1)])
  show ?case (is "_ \<longleftrightarrow> ?r")
  proof
    assume "c \<in> set checks"
    then obtain f cs where f: "f \<in> set (mi_Fields msg)" "?F f = Some cs" "c \<in> set cs" unfolding mem by blast
    have y: "fi_YamlName f \<noteq> []" using f(1) Suc.prems(1) by (simp add: named_def)
    show ?r
    proof (cases "fi_Message f \<and> \<not> fi_Repeated f")
      case True
      then obtain child where ch: "m (fi_GoType f) = Some child" using f(2,3) by (auto simp: reload_field_def split: option.splits)
      then have "\<forall>x \<in> insert child (ran m). named x" using Suc.prems(1) by (auto intro: ranI)
      then obtain gs ys where g: "frozen_leaf m child gs ys" "c = (dotted (ca @ ''.'' @ fi_GoName f) gs, dotted (cu @ ''.'' @ fi_GoName f) gs,
          yaml_path (if pre \<noteq> [] then pre @ ''.'' @ fi_YamlName f else fi_YamlName f) ys)"
        using Suc.IH f(2,3) True ch by (auto simp: reload_field_def)
      then have "frozen_leaf m msg (fi_GoName f # gs) (fi_YamlName f # ys)" using frozen_leaf.part [where m = m and f = f] f(1) True ch by blast
      then show ?thesis using g(2) yaml_path_Cons [OF y frozen_leaf_ne [OF g(1)], of pre]
        by (intro exI [of _ "fi_GoName f # gs"] exI [of _ "fi_YamlName f # ys"]) (simp add: dotted_Cons)
    next
      case False
      then have "\<not> fi_Reload f" "c = (ca @ ''.'' @ fi_GoName f, cu @ ''.'' @ fi_GoName f, if pre \<noteq> [] then pre @ ''.'' @ fi_YamlName f else fi_YamlName f)"
        using f(2,3) by (auto simp: reload_field_def Let_def split: if_splits)
      then show ?thesis using leaf [OF f(1) False] by (intro exI [of _ "[fi_GoName f]"] exI [of _ "[fi_YamlName f]"]) (simp add: dotted_def yaml_path_def)
    qed
  next
    assume ?r
    then obtain gs ys where g: "frozen_leaf m msg gs ys" and c: "c = (dotted ca gs, dotted cu gs, yaml_path pre ys)" by blast
    from g show "c \<in> set checks"
    proof cases
      case (leaf f)
      then have f: "f \<in> set (mi_Fields msg)" "\<not> (fi_Message f \<and> \<not> fi_Repeated f)" "\<not> fi_Reload f" "gs = [fi_GoName f]" "ys = [fi_YamlName f]" by blast+
      have F: "?F f = Some [c]" using f(2,3) by (auto simp: c f(4,5) reload_field_def Let_def dotted_def yaml_path_def)
      show ?thesis unfolding mem by (rule bexI [OF _ f(1)], rule exI [of _ "[c]"]) (simp add: F)
    next
      case (part f child gs' ys')
      then have f: "f \<in> set (mi_Fields msg)" "fi_Message f" "\<not> fi_Repeated f" "m (fi_GoType f) = Some child" "frozen_leaf m child gs' ys'"
        "gs = fi_GoName f # gs'" "ys = fi_YamlName f # ys'" by blast+
      have y: "fi_YamlName f \<noteq> []" using f(1) Suc.prems(1) by (simp add: named_def)
      have "\<forall>x \<in> insert child (ran m). named x" using Suc.prems(1) f(4) by (auto intro: ranI)
      note named = this
      obtain cs where cs: "?F f = Some cs" using those_map_each [OF t(1) f(1)] by blast
      then have "writeReloadChecks n m child (ca @ ''.'' @ fi_GoName f) (cu @ ''.'' @ fi_GoName f)
          (if pre \<noteq> [] then pre @ ''.'' @ fi_YamlName f else fi_YamlName f) = Some cs" using f(2-4) by (simp add: reload_field_def Let_def)
      note in_cs = Suc.IH [OF named this]
      have "c = (dotted (ca @ ''.'' @ fi_GoName f) gs', dotted (cu @ ''.'' @ fi_GoName f) gs', yaml_path (if pre \<noteq> [] then pre @ ''.'' @ fi_YamlName f else fi_YamlName f) ys')"
        unfolding c f(6,7) dotted_Cons yaml_path_Cons [OF y frozen_leaf_ne [OF f(5)]] ..
      then have "c \<in> set cs" unfolding in_cs using f(5) by blast
      then show ?thesis unfolding mem using f(1) cs by blast
    qed
  qed
qed simp

text \<open>A schema without recursive messages has ranks; the recursion then ends.\<close>

definition ranked :: "(messageInfo \<Rightarrow> nat) \<Rightarrow> (string \<rightharpoonup> messageInfo) \<Rightarrow> bool" where
  "ranked rank m \<longleftrightarrow> (\<forall>msg f child. f \<in> set (mi_Fields msg) \<longrightarrow> fi_Message f \<longrightarrow> \<not> fi_Repeated f \<longrightarrow> m (fi_GoType f) = Some child \<longrightarrow> rank child < rank msg)"

lemma those_map_total: "\<forall>f \<in> set xs. \<exists>cs. F f = Some cs \<Longrightarrow> \<exists>css. those (map F xs) = Some css"
  by (induction xs) auto

lemma writeReloadChecks_ends: "ranked rank m \<Longrightarrow> rank msg < n \<Longrightarrow> \<exists>checks. writeReloadChecks n m msg ca cu pre = Some checks"
proof (induction n arbitrary: msg ca cu pre)
  case (Suc n)
  have "\<exists>cs. reload_field (writeReloadChecks n m) m ca cu pre f = Some cs" if f: "f \<in> set (mi_Fields msg)" for f
  proof (cases "fi_Message f \<and> \<not> fi_Repeated f")
    case True
    have "rank child < n" if "m (fi_GoType f) = Some child" for child
    proof -
      have "rank child < rank msg" using Suc.prems(1) f True that unfolding ranked_def by blast
      then show ?thesis using Suc.prems(2) by simp
    qed
    then show ?thesis using Suc.IH [OF Suc.prems(1)] True by (cases "m (fi_GoType f)") (simp_all add: reload_field_def Let_def)
  qed (auto simp: reload_field_def Let_def)
  then show ?case using those_map_total [of "mi_Fields msg" "reload_field (writeReloadChecks n m) m ca cu pre"] by auto
qed simp

lemma those_map_mono: "those (map F xs) = Some css \<Longrightarrow> (\<And>f cs. f \<in> set xs \<Longrightarrow> F f = Some cs \<Longrightarrow> G f = Some cs) \<Longrightarrow> those (map G xs) = Some css"
  by (induction xs arbitrary: css) (auto split: option.splits)

lemma writeReloadChecks_fuel: "writeReloadChecks n m msg ca cu pre = Some checks \<Longrightarrow> n \<le> k \<Longrightarrow> writeReloadChecks k m msg ca cu pre = Some checks"
proof (induction n arbitrary: k msg ca cu pre checks)
  case (Suc n)
  then obtain j where k: "k = Suc j" "n \<le> j" by (cases k) auto
  obtain css where c: "those (map (reload_field (writeReloadChecks n m) m ca cu pre) (mi_Fields msg)) = Some css" "checks = concat css"
    using Suc.prems(1) by auto
  have "reload_field (writeReloadChecks j m) m ca cu pre f = Some cs" if "reload_field (writeReloadChecks n m) m ca cu pre f = Some cs" for f cs
    using that Suc.IH [OF _ k(2)] by (auto simp: reload_field_def Let_def split: if_splits option.splits)
  then show ?case using those_map_mono [OF c(1), of "reload_field (writeReloadChecks j m) m ca cu pre"] by (simp add: k(1) c(2))
qed simp

lemma recursive_message_diverges:
  assumes "f \<in> set (mi_Fields msg)" and "fi_Message f" and "\<not> fi_Repeated f" and "m (fi_GoType f) = Some msg"
  shows "writeReloadChecks n m msg ca cu pre = None"
proof (induction n arbitrary: ca cu pre)
  case (Suc n)
  have "reload_field (writeReloadChecks n m) m ca cu pre f = None" using Suc assms(2-4) by (simp add: reload_field_def Let_def)
  then have "those (map (reload_field (writeReloadChecks n m) m ca cu pre) (mi_Fields msg)) = None"
    using those_map_each [OF _ assms(1), of "reload_field (writeReloadChecks n m) m ca cu pre"] by (metis not_None_eq)
  then show ?case by simp
qed simp

section \<open>What the generated check does\<close>

text \<open>A configuration as a tree of fields, and the value of an expression on it.\<close>

datatype cval = CStr string | CInt int | CBool bool | CList "cval list" | CStruct "(string \<times> cval) list"

fun field_at :: "cval \<Rightarrow> string list \<Rightarrow> cval option" where
  "field_at v [] = Some v"
| "field_at (CStruct fs) (g # gs) = (case map_of fs g of None \<Rightarrow> None | Some v \<Rightarrow> field_at v gs)"
| "field_at _ (g # gs) = None"

definition expr_at :: "cval \<Rightarrow> string \<Rightarrow> cval option" where
  "expr_at v e = field_at v (tl (split_on (CHR ''.'') e))"

text \<open>The statements of the check in their order: the first difference is reported.\<close>

fun run_checks :: "cval \<Rightarrow> cval \<Rightarrow> check list \<Rightarrow> string option" where
  "run_checks candidate current [] = None"
| "run_checks candidate current ((a, b, path) # cs) =
     (if expr_at candidate a \<noteq> expr_at current b then Some (path @ '' cannot reload'') else run_checks candidate current cs)"

definition plain_names :: "messageInfo \<Rightarrow> bool" where
  "plain_names msg \<longleftrightarrow> (\<forall>f \<in> set (mi_Fields msg). CHR ''.'' \<notin> set (fi_GoName f) \<and> fi_YamlName f \<noteq> [])"

lemma frozen_leaf_plain: "frozen_leaf m msg gs ys \<Longrightarrow> \<forall>x \<in> insert msg (ran m). plain_names x \<Longrightarrow> \<forall>g \<in> set gs. CHR ''.'' \<notin> set g"
  by (induction rule: frozen_leaf.induct) (auto simp: plain_names_def intro: ranI)

lemma split_dotted: "CHR ''.'' \<notin> set s \<Longrightarrow> \<forall>g \<in> set gs. CHR ''.'' \<notin> set g \<Longrightarrow> split_on (CHR ''.'') (dotted s gs) = s # gs"
  by (induction gs arbitrary: s) (auto simp: dotted_def)

lemma run_checks_None: "run_checks a b cs = None \<longleftrightarrow> (\<forall>x y p. (x, y, p) \<in> set cs \<longrightarrow> expr_at a x = expr_at b y)"
  by (induction a b cs rule: run_checks.induct) (auto, blast)

lemma run_checks_Some: "run_checks a b cs = Some e \<Longrightarrow> \<exists>x y p. (x, y, p) \<in> set cs \<and> expr_at a x \<noteq> expr_at b y \<and> e = p @ '' cannot reload''"
proof (induction cs)
  case (Cons c cs)
  obtain x y p where c: "c = (x, y, p)" by (rule prod_cases3)
  show ?case
  proof (cases "expr_at a x = expr_at b y")
    case True
    then have "run_checks a b cs = Some e" using Cons.prems c by simp
    then obtain x' y' p' where "(x', y', p') \<in> set cs" "expr_at a x' \<noteq> expr_at b y'" "e = p' @ '' cannot reload''" using Cons.IH by blast
    then show ?thesis by - (rule exI [of _ x'], rule exI [of _ y'], rule exI [of _ p'], simp)
  next
    case False
    then have "e = p @ '' cannot reload''" using Cons.prems c by simp
    then show ?thesis using False c by - (rule exI [of _ x], rule exI [of _ y], rule exI [of _ p], simp)
  qed
qed simp

text \<open>
  The check that is generated for a message accepts a new configuration exactly when it agrees with the current one on
  every leaf that is not marked as reloadable, and otherwise names such a leaf that differs. Generation ends for every
  schema without recursive messages.
\<close>

theorem reload_check_exact:
  assumes "ranked rank m" and "\<forall>x \<in> insert msg (ran m). plain_names x"
  shows "\<exists>checks. (\<forall>n > rank msg. writeReloadChecks n m msg ''candidate'' ''current'' [] = Some checks)
    \<and> (run_checks a b checks = None \<longleftrightarrow> (\<forall>gs ys. frozen_leaf m msg gs ys \<longrightarrow> field_at a gs = field_at b gs))
    \<and> (\<forall>e. run_checks a b checks = Some e \<longrightarrow> (\<exists>gs ys. frozen_leaf m msg gs ys \<and> field_at a gs \<noteq> field_at b gs \<and> e = yaml_path [] ys @ '' cannot reload''))"
proof -
  obtain checks where c: "writeReloadChecks (Suc (rank msg)) m msg ''candidate'' ''current'' [] = Some checks"
    using writeReloadChecks_ends [OF assms(1), of msg "Suc (rank msg)"] by blast
  have n: "\<forall>x \<in> insert msg (ran m). named x" using assms(2) by (auto simp: plain_names_def named_def)
  note ex = writeReloadChecks_exact [OF n c]
  have at: "expr_at v (dotted s gs) = field_at v gs" if "frozen_leaf m msg gs ys" "CHR ''.'' \<notin> set s" for v s gs ys
    using split_dotted [OF that(2) frozen_leaf_plain [OF that(1) assms(2)]] by (simp add: expr_at_def)
  have w: "CHR ''.'' \<notin> set ''candidate''" "CHR ''.'' \<notin> set ''current''" by simp_all
  have "run_checks a b checks = None \<longleftrightarrow> (\<forall>gs ys. frozen_leaf m msg gs ys \<longrightarrow> expr_at a (dotted ''candidate'' gs) = expr_at b (dotted ''current'' gs))"
    unfolding run_checks_None ex by blast
  then have 1: "run_checks a b checks = None \<longleftrightarrow> (\<forall>gs ys. frozen_leaf m msg gs ys \<longrightarrow> field_at a gs = field_at b gs)"
    using at [OF _ w(1)] at [OF _ w(2)] by simp
  have 2: "\<exists>gs ys. frozen_leaf m msg gs ys \<and> field_at a gs \<noteq> field_at b gs \<and> e = yaml_path [] ys @ '' cannot reload''" if r: "run_checks a b checks = Some e" for e
  proof -
    obtain x y p where x: "(x, y, p) \<in> set checks" "expr_at a x \<noteq> expr_at b y" "e = p @ '' cannot reload''" using run_checks_Some [OF r] by blast
    then obtain gs ys where "frozen_leaf m msg gs ys" "x = dotted ''candidate'' gs" "y = dotted ''current'' gs" "p = yaml_path [] ys" using ex by blast
    then show ?thesis using x(2,3) at [OF _ w(1), of gs ys a] at [OF _ w(2), of gs ys b] by auto
  qed
  have 0: "\<forall>n > rank msg. writeReloadChecks n m msg ''candidate'' ''current'' [] = Some checks" using writeReloadChecks_fuel [OF c] by simp
  show ?thesis by (intro exI [of _ checks] conjI 0 1 allI impI 2)
qed

end
