(* ===== verification/Config_Schema.thy ===== *)
theory Config_Schema
  imports Gen_Config Config_Gen
begin

text \<open>
  The schema of the lobby and of the loggers, \<^verbatim>\<open>config/schema/lobby.proto\<close> and \<^verbatim>\<open>config/schema/types.proto\<close>, read by the
  model of the generator. Shown: the check that the generator makes of them is the check of the reload that the lobby
  runs, for all configurations.
\<close>

definition with_opts :: "string \<Rightarrow> string list \<Rightarrow> string" where
  "with_opts decl opts = ''  '' @ decl @ '' ['' @ comma_list opts @ ''];''"

definition opt_true :: "string \<Rightarrow> string" where "opt_true x = ''(config.'' @ x @ '') = true''"

definition enum_opt :: "string \<Rightarrow> string" where "enum_opt vs = ''(config.enum_values) = '' @ go_quoted vs"

definition schema_header :: "string list" where
  "schema_header = [''syntax = '' @ go_quoted ''proto3'' @ '';'', [], ''package config;'', [], ''import '' @ go_quoted ''config/schema/options.proto'' @ '';'']"

definition package_lines :: "string list" where
  "package_lines = [[], ''option go_package = '' @ go_quoted ''project/config/gen;configgen'' @ '';'', []]"

definition server_line :: string where "server_line = ''  option (config.server) = '' @ go_quoted ''lobbysvr'' @ '';''"

definition lobby_proto :: "string list" where
  "lobby_proto = (schema_header @ [''import '' @ go_quoted ''config/schema/types.proto'' @ '';''] @ package_lines) @ [
     ''message LobbyConfig {'',
     ''  option (config.root) = true;'',
     server_line,
     [],
     with_opts ''int32 max_player = 1'' [opt_true ''required''],
     with_opts ''int32 heartbeat_sec = 2'' [opt_true ''required'', opt_true ''reload''],
     with_opts ''string routeragent_sock_path = 3'' [opt_true ''required'', opt_true ''env''],
     ''  LoggerGroupConfig logger_group = 4;'',
     ''}'',
     []]"

definition types_proto :: "string list" where
  "types_proto = (schema_header @ package_lines) @ [
     ''message LogConfig {'',
     with_opts ''string level = 1'' [enum_opt ''debug,info,warn,error,fatal''],
     with_opts ''string format = 2'' [enum_opt ''console,json''],
     ''  bool stderr_also = 3;'',
     with_opts ''string dir = 4'' [opt_true ''required'', opt_true ''env''],
     with_opts ''string basename = 5'' [opt_true ''required''],
     ''  int32 max_size_mb = 6;'',
     ''  int32 max_backups = 7;'',
     ''  bool rotate_by_hour = 8;'',
     ''}'',
     [],
     ''message LoggerGroupConfig {'',
     ''  LogConfig main    = 1;'',
     ''  LogConfig res     = 2;'',
     ''  LogConfig tracing = 3;'',
     ''}'']"

definition fld :: "string \<Rightarrow> string \<Rightarrow> string \<Rightarrow> fieldInfo" where
  "fld go gt yaml = \<lparr>fi_GoName = go, fi_GoType = gt, fi_YamlName = yaml, fi_Message = False, fi_Repeated = False,
     fi_Required = False, fi_Reload = False, fi_Env = False, fi_EnumValues = []\<rparr>"

definition lobby_message :: messageInfo where
  "lobby_message = \<lparr>mi_Name = ''LobbyConfig'', mi_Fields = [
       (fld ''MaxPlayer'' ''int32'' ''max_player'')\<lparr>fi_Required := True\<rparr>,
       (fld ''HeartbeatSec'' ''int32'' ''heartbeat_sec'')\<lparr>fi_Required := True, fi_Reload := True\<rparr>,
       (fld ''RouteragentSockPath'' ''string'' ''routeragent_sock_path'')\<lparr>fi_Required := True, fi_Env := True\<rparr>,
       (fld ''LoggerGroup'' ''LoggerGroupConfig'' ''logger_group'')\<lparr>fi_Message := True\<rparr>],
     mi_Root = True, mi_Server = ''lobbysvr'', mi_Common = False\<rparr>"

definition log_message :: messageInfo where
  "log_message = (newMessage ''LogConfig'')\<lparr>mi_Fields := [
       (fld ''Level'' ''string'' ''level'')\<lparr>fi_EnumValues := [''debug'', ''info'', ''warn'', ''error'', ''fatal'']\<rparr>,
       (fld ''Format'' ''string'' ''format'')\<lparr>fi_EnumValues := [''console'', ''json'']\<rparr>,
       fld ''StderrAlso'' ''bool'' ''stderr_also'',
       (fld ''Dir'' ''string'' ''dir'')\<lparr>fi_Required := True, fi_Env := True\<rparr>,
       (fld ''Basename'' ''string'' ''basename'')\<lparr>fi_Required := True\<rparr>,
       fld ''MaxSizeMb'' ''int32'' ''max_size_mb'', fld ''MaxBackups'' ''int32'' ''max_backups'', fld ''RotateByHour'' ''bool'' ''rotate_by_hour'']\<rparr>"

definition group_message :: messageInfo where
  "group_message = (newMessage ''LoggerGroupConfig'')\<lparr>mi_Fields := map (\<lambda>(go, y). (fld go ''LogConfig'' y)\<lparr>fi_Message := True\<rparr>)
     [(''Main'', ''main''), (''Res'', ''res''), (''Tracing'', ''tracing'')]\<rparr>"

section \<open>Reading the schema\<close>

definition field_line :: "string \<Rightarrow> fieldInfo \<Rightarrow> bool" where
  "field_line l f =
     (let t = stripComment (TrimSpace l) in
      t \<noteq> ''}'' \<and> t \<noteq> [] \<and> snd (parseMessageOption (newMessage []) t) = False \<and> parseField t = Some (Inr (Some f)))"

lemma parse_fields_line: "field_line l f \<Longrightarrow> parse_fields (l # ls) msg = parse_fields ls (msg\<lparr>mi_Fields := mi_Fields msg @ [f]\<rparr>)"
  by (auto simp: field_line_def parseMessageOption_def Let_def split: if_splits)

lemma parse_fields_lines: "list_all2 field_line ls fs \<Longrightarrow> parse_fields (ls @ rest) msg = parse_fields rest (msg\<lparr>mi_Fields := mi_Fields msg @ fs\<rparr>)"
  by (induction arbitrary: msg rule: list_all2_induct) (simp_all add: parse_fields_line del: parse_fields.simps)

lemma parse_messages_skip: "\<forall>l \<in> set hs. \<not> HasPrefix (stripComment (TrimSpace l)) ''message '' \<Longrightarrow> parse_messages (hs @ ls) = parse_messages ls"
  by (induction hs) auto

lemma schema_lines:
  "field_line (with_opts ''int32 max_player = 1'' [opt_true ''required'']) ((fld ''MaxPlayer'' ''int32'' ''max_player'')\<lparr>fi_Required := True\<rparr>)"
  "field_line (with_opts ''int32 heartbeat_sec = 2'' [opt_true ''required'', opt_true ''reload'']) ((fld ''HeartbeatSec'' ''int32'' ''heartbeat_sec'')\<lparr>fi_Required := True, fi_Reload := True\<rparr>)"
  "field_line (with_opts ''string routeragent_sock_path = 3'' [opt_true ''required'', opt_true ''env'']) ((fld ''RouteragentSockPath'' ''string'' ''routeragent_sock_path'')\<lparr>fi_Required := True, fi_Env := True\<rparr>)"
  "field_line ''  LoggerGroupConfig logger_group = 4;'' ((fld ''LoggerGroup'' ''LoggerGroupConfig'' ''logger_group'')\<lparr>fi_Message := True\<rparr>)"
  by code_simp+

lemma logger_lines:
  "field_line (with_opts ''string level = 1'' [enum_opt ''debug,info,warn,error,fatal'']) ((fld ''Level'' ''string'' ''level'')\<lparr>fi_EnumValues := [''debug'', ''info'', ''warn'', ''error'', ''fatal'']\<rparr>)"
  "field_line (with_opts ''string format = 2'' [enum_opt ''console,json'']) ((fld ''Format'' ''string'' ''format'')\<lparr>fi_EnumValues := [''console'', ''json'']\<rparr>)"
  "field_line ''  bool stderr_also = 3;'' (fld ''StderrAlso'' ''bool'' ''stderr_also'')"
  "field_line (with_opts ''string dir = 4'' [opt_true ''required'', opt_true ''env'']) ((fld ''Dir'' ''string'' ''dir'')\<lparr>fi_Required := True, fi_Env := True\<rparr>)"
  "field_line (with_opts ''string basename = 5'' [opt_true ''required'']) ((fld ''Basename'' ''string'' ''basename'')\<lparr>fi_Required := True\<rparr>)"
  "field_line ''  int32 max_size_mb = 6;'' (fld ''MaxSizeMb'' ''int32'' ''max_size_mb'')"
  "field_line ''  int32 max_backups = 7;'' (fld ''MaxBackups'' ''int32'' ''max_backups'')"
  "field_line ''  bool rotate_by_hour = 8;'' (fld ''RotateByHour'' ''bool'' ''rotate_by_hour'')"
  by code_simp+

lemma group_lines:
  "field_line ''  LogConfig main    = 1;'' ((fld ''Main'' ''LogConfig'' ''main'')\<lparr>fi_Message := True\<rparr>)"
  "field_line ''  LogConfig res     = 2;'' ((fld ''Res'' ''LogConfig'' ''res'')\<lparr>fi_Message := True\<rparr>)"
  "field_line ''  LogConfig tracing = 3;'' ((fld ''Tracing'' ''LogConfig'' ''tracing'')\<lparr>fi_Message := True\<rparr>)"
  by code_simp+

lemma header_lines:
  "\<forall>l \<in> set (schema_header @ [''import '' @ go_quoted ''config/schema/types.proto'' @ '';''] @ package_lines). \<not> HasPrefix (stripComment (TrimSpace l)) ''message ''"
  "\<forall>l \<in> set (schema_header @ package_lines). \<not> HasPrefix (stripComment (TrimSpace l)) ''message ''"
  by code_simp+

lemma brace_lines:
  "stripComment (TrimSpace ''}'') = ''}''" "stripComment (TrimSpace []) = []"
  "stripComment (TrimSpace ''message LobbyConfig {'') = ''message LobbyConfig {''" "stripComment (TrimSpace ''message LogConfig {'') = ''message LogConfig {''"
  "stripComment (TrimSpace ''message LoggerGroupConfig {'') = ''message LoggerGroupConfig {''"
  by code_simp+

lemma message_names:
  "TrimSpace (TrimSuffix (TrimPrefix ''message LobbyConfig {'' ''message '') ''{'') = ''LobbyConfig''" "TrimSpace (TrimSuffix (TrimPrefix ''message LogConfig {'' ''message '') ''{'') = ''LogConfig''"
  "TrimSpace (TrimSuffix (TrimPrefix ''message LoggerGroupConfig {'' ''message '') ''{'') = ''LoggerGroupConfig''"
  "Contains ''message LobbyConfig {'' ''{''" "Contains ''message LogConfig {'' ''{''" "Contains ''message LoggerGroupConfig {'' ''{''"
  by code_simp+

lemma lobby_options:
  "parse_fields (''  option (config.root) = true;'' # ls) msg = parse_fields ls (msg\<lparr>mi_Root := True\<rparr>)"
  "parse_fields (server_line # ls) msg = parse_fields ls (msg\<lparr>mi_Server := ''lobbysvr''\<rparr>)"
proof -
  have 1: "stripComment (TrimSpace ''  option (config.root) = true;'') = ''option (config.root) = true;''"
    "Contains ''option (config.root) = true;'' ''(config.root)''" "Contains ''option (config.root) = true;'' ''true''" by code_simp+
  let ?s = "CHR ''o'' # (''ption (config.server) = '' @ go_quoted ''lobbysvr'' @ '';'')"
  have 2: "stripComment (TrimSpace server_line) = ?s" "\<not> Contains ?s ''(config.root)''"
    "Contains ?s ''(config.server)''" "parseOptionString ?s = ''lobbysvr''" by code_simp+
  show "parse_fields (''  option (config.root) = true;'' # ls) msg = parse_fields ls (msg\<lparr>mi_Root := True\<rparr>)"
    unfolding parse_fields.simps 1(1) by (simp add: parseMessageOption_def 1)
  show "parse_fields (server_line # ls) msg = parse_fields ls (msg\<lparr>mi_Server := ''lobbysvr''\<rparr>)"
    unfolding parse_fields.simps 2(1) by (simp add: parseMessageOption_def 2 del: append_Cons)
qed

lemma parse_fields_ends: "parse_fields (''}'' # ls) msg = Some (Inr (msg, ls))" "parse_fields ([] # ls) msg = parse_fields ls msg"
  by (simp_all add: brace_lines)

lemma parse_message:
  assumes "stripComment (TrimSpace l) = t" and "HasPrefix t ''message ''" and "Contains t ''{''" and "TrimSpace (TrimSuffix (TrimPrefix t ''message '') ''{'') = name"
    and "parse_fields ls (newMessage name) = Some (Inr (msg, rest))" and "parse_messages rest = Some (Inr msgs)"
  shows "parse_messages (l # ls) = Some (Inr (msg # msgs))"
  using assms by simp

lemmas schema_reading = parse_fields_ends lobby_options schema_lines [THEN parse_fields_line] logger_lines [THEN parse_fields_line] group_lines [THEN parse_fields_line]

lemma lobby_parsed: "parse_messages lobby_proto = Some (Inr [lobby_message])"
  unfolding lobby_proto_def parse_messages_skip [OF header_lines(1)]
  by (rule parse_message [OF brace_lines(3) _ message_names(4,1)], simp, simp add: schema_reading lobby_message_def newMessage_def del: parse_fields.simps,
    simp add: brace_lines)

lemma types_parsed: "parse_messages types_proto = Some (Inr [log_message, group_message])"
proof -
  have "parse_messages (''message LoggerGroupConfig {'' # ''  LogConfig main    = 1;'' # ''  LogConfig res     = 2;'' # ''  LogConfig tracing = 3;'' # [''}'']) = Some (Inr [group_message])"
    by (rule parse_message [OF brace_lines(5) _ message_names(6,3)], simp, simp add: schema_reading group_message_def newMessage_def del: parse_fields.simps, simp)
  then have g: "parse_messages ([] # ''message LoggerGroupConfig {'' # ''  LogConfig main    = 1;'' # ''  LogConfig res     = 2;'' # ''  LogConfig tracing = 3;'' # [''}'']) = Some (Inr [group_message])"
    using parse_messages_skip [of "[[]]"] by (simp add: brace_lines)
  show ?thesis
    unfolding types_proto_def parse_messages_skip [OF header_lines(2)]
    by (rule parse_message [OF brace_lines(4) _ message_names(5,2) _ g], simp, simp add: schema_reading log_message_def newMessage_def del: parse_fields.simps)
qed

section \<open>The check of the lobby\<close>

definition log_value :: "LogConfig \<Rightarrow> cval" where
  "log_value c = CStruct [(''Level'', CStr (lc_Level c)), (''Format'', CStr (lc_Format c)), (''StderrAlso'', CBool (lc_StderrAlso c)), (''Dir'', CStr (lc_Dir c)),
     (''Basename'', CStr (lc_Basename c)), (''MaxSizeMb'', CInt (lc_MaxSizeMb c)), (''MaxBackups'', CInt (lc_MaxBackups c)), (''RotateByHour'', CBool (lc_RotateByHour c))]"

definition lobby_value :: "Lobby_Config \<Rightarrow> cval" where
  "lobby_value c = CStruct [(''MaxPlayer'', CInt (lo_MaxPlayer c)), (''HeartbeatSec'', CInt (lo_HeartbeatSec c)), (''RouteragentSockPath'', CStr (lo_RouteragentSockPath c)),
     (''LoggerGroup'', CStruct [(''Main'', log_value (lg_Main (lo_LoggerGroup c))), (''Res'', log_value (lg_Res (lo_LoggerGroup c))), (''Tracing'', log_value (lg_Tracing (lo_LoggerGroup c)))])]"

definition lobby_schema :: "messageInfo list" where "lobby_schema = [lobby_message, log_message, group_message]"

definition log_paths :: "string \<Rightarrow> string \<Rightarrow> (string list \<times> string) list" where
  "log_paths go name = map (\<lambda>(g, y). ([''LoggerGroup'', go, g], ''logger_group.'' @ name @ ''.'' @ y))
     [(''Level'', ''level''), (''Format'', ''format''), (''StderrAlso'', ''stderr_also''), (''Dir'', ''dir''), (''Basename'', ''basename''),
      (''MaxSizeMb'', ''max_size_mb''), (''MaxBackups'', ''max_backups''), (''RotateByHour'', ''rotate_by_hour'')]"

definition lobby_paths :: "(string list \<times> string) list" where
  "lobby_paths = [([''MaxPlayer''], ''max_player''), ([''RouteragentSockPath''], ''routeragent_sock_path'')]
     @ log_paths ''Main'' ''main'' @ log_paths ''Res'' ''res'' @ log_paths ''Tracing'' ''tracing''"

lemma lobby_checks:
  "writeReloadChecks 3 (messageMap lobby_schema) lobby_message ''candidate'' ''current'' [] =
     Some (map (\<lambda>(gs, p). (dotted ''candidate'' gs, dotted ''current'' gs, p)) lobby_paths)"
  by code_simp

lemma run_dotted:
  assumes "\<forall>(gs, p) \<in> set ps. \<forall>g \<in> set gs. CHR ''.'' \<notin> set g"
  shows "run_checks a b (map (\<lambda>(gs, p). (dotted ''candidate'' gs, dotted ''current'' gs, p)) ps) =
    foldr (\<lambda>(gs, p). frozen p (field_at a gs = field_at b gs)) ps None"
  using assms by (induction ps) (auto simp: expr_at_def split_dotted frozen_def)

lemma lobby_paths_plain: "\<forall>(gs, p) \<in> set lobby_paths. \<forall>g \<in> set gs. CHR ''.'' \<notin> set g"
  by code_simp

lemma log_paths_run:
  assumes "\<And>g. field_at a (''LoggerGroup'' # go # g) = field_at (log_value c) g" and "\<And>g. field_at b (''LoggerGroup'' # go # g) = field_at (log_value d) g"
  shows "foldr (\<lambda>(gs, p). frozen p (field_at a gs = field_at b gs)) (log_paths go name) rest = log_frozen name c d rest"
  by (simp add: log_paths_def log_frozen_def assms) (simp add: log_value_def)

text \<open>
  The checks that the generator makes of the two schema files are the check of a reload that the lobby runs: on every
  pair of configurations both report the same field, or none.
\<close>

theorem lobby_reload_generated:
  "\<exists>msgs checks. parse_messages lobby_proto = Some (Inr [lobby_message]) \<and> parse_messages types_proto = Some (Inr msgs)
    \<and> (\<forall>n \<ge> 3. writeReloadChecks n (messageMap (lobby_message # msgs)) lobby_message ''candidate'' ''current'' [] = Some checks)
    \<and> (\<forall>a b. run_checks (lobby_value a) (lobby_value b) checks = CheckLobbyReload a b)"
proof -
  let ?checks = "map (\<lambda>(gs, p). (dotted ''candidate'' gs, dotted ''current'' gs, p)) lobby_paths"
  have "run_checks (lobby_value a) (lobby_value b) ?checks = CheckLobbyReload a b" for a b
    unfolding run_dotted [OF lobby_paths_plain]
    unfolding lobby_paths_def foldr_append CheckLobbyReload_def loggers_frozen_def
    by (simp add: lobby_value_def log_paths_run [where c = "lg_Main (lo_LoggerGroup a)" and d = "lg_Main (lo_LoggerGroup b)"]
        log_paths_run [where c = "lg_Res (lo_LoggerGroup a)" and d = "lg_Res (lo_LoggerGroup b)"]
        log_paths_run [where c = "lg_Tracing (lo_LoggerGroup a)" and d = "lg_Tracing (lo_LoggerGroup b)"])
  moreover have "\<forall>n \<ge> 3. writeReloadChecks n (messageMap lobby_schema) lobby_message ''candidate'' ''current'' [] = Some ?checks"
    using writeReloadChecks_fuel [OF lobby_checks] by blast
  ultimately show ?thesis using lobby_parsed types_parsed unfolding lobby_schema_def by (intro exI [of _ "[log_message, group_message]"] exI [of _ ?checks]) blast
qed

end
