(* ===== verification/Server_Gen.thy ===== *)
theory Server_Gen
  imports Go_Strings
begin

text \<open>
  The generator of new servers, \<^verbatim>\<open>tools/servergen\<close>: checks of the names, the plan of files and values, and the writing of the
  plan. The template engine and the answers of the file system are arguments. Shown: a plan without force names only
  paths that do not exist and its execution changes nothing else; adding a server to the list of an environment keeps
  the servers and all other lines, and adding it again changes nothing.
\<close>

section \<open>Names\<close>

datatype ident_error = EmptyIdent | LeadingDigit | InvalidChar char

definition is_lower :: "char \<Rightarrow> bool" where "is_lower c \<longleftrightarrow> (97::nat) \<le> of_char c \<and> (of_char c :: nat) \<le> 122"
definition is_num :: "char \<Rightarrow> bool" where "is_num c \<longleftrightarrow> (48::nat) \<le> of_char c \<and> (of_char c :: nat) \<le> 57"

fun ident_from :: "bool \<Rightarrow> string \<Rightarrow> ident_error option" where
  "ident_from start [] = None"
| "ident_from start (c # cs) =
     (if is_lower c then ident_from False cs
      else if is_num c then (if start then Some LeadingDigit else ident_from False cs)
      else Some (InvalidChar c))"

definition validateIdent :: "string \<Rightarrow> ident_error option" where
  "validateIdent s = (if s = [] then Some EmptyIdent else ident_from True s)"

definition derivePackageName :: "string \<Rightarrow> string" where
  "derivePackageName name = (let pkg = TrimSuffix name ''svr'' in if pkg = [] then name else pkg)"

definition deriveTitle :: "string \<Rightarrow> string \<Rightarrow> string" where
  "deriveTitle name pkg =
     (let base = (if pkg = [] then derivePackageName name else pkg) in
      case base of [] \<Rightarrow> [] | c # cs \<Rightarrow> to_upper c # cs)"

fun csv_parts :: "string set \<Rightarrow> string list \<Rightarrow> string list" where
  "csv_parts seen [] = []"
| "csv_parts seen (p # ps) =
     (let part = TrimSpace p in
      if part = [] \<or> part \<in> seen then csv_parts seen ps
      else part # csv_parts (insert part seen) ps)"

definition splitCSV :: "string \<Rightarrow> string list" where
  "splitCSV s = csv_parts {} (split_on (CHR 0x2C) s)"

section \<open>The list of servers of an environment\<close>

definition leadingSpaces :: "string \<Rightarrow> string" where
  "leadingSpaces line = takeWhile (\<lambda>c. c = CHR 0x20 \<or> c = CHR 0x09) line"

definition svr_key :: string where "svr_key = ''svr_list:''"

text \<open>The lines before the key, its line, and the lines after it.\<close>

fun find_list :: "string list \<Rightarrow> (string list \<times> string \<times> string list) option" where
  "find_list [] = None"
| "find_list (l # ls) =
     (if TrimSpace l = svr_key then Some ([], l, ls)
      else map_option (\<lambda>(pre, h, rest). (l # pre, h, rest)) (find_list ls))"

text \<open>The items after the key, and the lines from the first one that belongs to something else.\<close>

fun svr_items :: "string \<Rightarrow> string list \<Rightarrow> string list \<times> string list" where
  "svr_items itemIndent [] = ([], [])"
| "svr_items itemIndent (l # ls) =
     (let trimmed = TrimSpace l in
      if trimmed = [] then svr_items itemIndent ls
      else if \<not> HasPrefix l (itemIndent @ ''-'') then ([], l # ls)
      else
        let item = TrimSpace (TrimPrefix (TrimSpace l) ''-''); (items, rest) = svr_items itemIndent ls in
        if item = [] then (items, rest) else (item # items, rest))"

fun join_lines :: "string list \<Rightarrow> string" where
  "join_lines [] = []"
| "join_lines [l] = l"
| "join_lines (l # ls) = l @ nl @ join_lines ls"

datatype list_error = ListNotFound | ListEmpty

definition addServiceToSvrList :: "string \<Rightarrow> string \<Rightarrow> list_error + string \<times> bool" where
  "addServiceToSvrList txt service =
     (case find_list (split_on (CHR 0x0A) txt) of
        None \<Rightarrow> Inl ListNotFound
      | Some (pre, h, after) \<Rightarrow>
          let indent = leadingSpaces h; itemIndent = indent @ ''  ''; (items, rest) = svr_items itemIndent after in
          if items = [] then Inl ListEmpty
          else if service \<in> set items then Inr (txt, False)
          else Inr (join_lines (pre @ [indent @ svr_key] @ map (\<lambda>i. itemIndent @ ''- '' @ i) (items @ [service]) @ [[]] @ rest), True))"

section \<open>Plan\<close>

record GeneratorConfig =
  gc_Name :: string
  gc_Pkg :: string
  gc_Kind :: string
  gc_RegisterEnv :: "string list"
  gc_DryRun :: bool
  gc_Force :: bool

record templateData =
  td_ServiceName :: string
  td_PackageName :: string
  td_Title :: string
  td_ConfigType :: string
  td_ConfigField :: string
  td_ServiceKind :: string
  td_CmdImport :: string
  td_ConfigFile :: string

record Generator =
  gn_root :: "string list"
  gn_cfg :: GeneratorConfig
  gn_data :: templateData

datatype sg_error = BadService string ident_error | EmptyPackage | BadPackage string ident_error | BadKind string | NoCwd | NoRoot
  | RenderFailed string | StatFailed string | TargetExists string | ReadValues string | BadValues string list_error | WriteError string | NameRequired

text \<open>Directories are lists of components; the root of the file system is its own parent.\<close>

function findRoot :: "(string list \<Rightarrow> bool) \<Rightarrow> string list \<Rightarrow> string list option" where
  "findRoot has_mod dir = (if has_mod dir then Some dir else if dir = [] then None else findRoot has_mod (butlast dir))"
  by pat_completeness auto
termination
  by (relation "measure (\<lambda>(_, d). length d)") auto

definition findProjectRoot :: "(string list \<Rightarrow> bool) \<Rightarrow> string list option \<Rightarrow> sg_error + string list" where
  "findProjectRoot has_mod cwd =
     (case cwd of None \<Rightarrow> Inl NoCwd | Some d \<Rightarrow> (case findRoot has_mod d of None \<Rightarrow> Inl NoRoot | Some r \<Rightarrow> Inr r))"

definition NewGenerator :: "(string list \<Rightarrow> bool) \<Rightarrow> string list option \<Rightarrow> GeneratorConfig \<Rightarrow> sg_error + Generator" where
  "NewGenerator has_mod cwd cfg =
     (let name = TrimSpace (gc_Name cfg) in
      case validateIdent name of Some e \<Rightarrow> Inl (BadService name e)
      | None \<Rightarrow>
          let p = TrimSpace (gc_Pkg cfg); pkg = (if p = [] then derivePackageName name else p) in
          if pkg = [] then Inl EmptyPackage
          else case validateIdent pkg of Some e \<Rightarrow> Inl (BadPackage pkg e)
          | None \<Rightarrow>
              let k = ToLower (TrimSpace (gc_Kind cfg)); kind = (if k = [] then ''standard'' else k) in
              if kind \<noteq> ''standard'' \<and> kind \<noteq> ''sidecar'' then Inl (BadKind (gc_Kind cfg))
              else case findProjectRoot has_mod cwd of Inl e \<Rightarrow> Inl e
              | Inr root \<Rightarrow>
                  let title = deriveTitle name pkg in
                  Inr \<lparr>gn_root = root, gn_cfg = cfg, gn_data = \<lparr>td_ServiceName = name, td_PackageName = pkg, td_Title = title,
                    td_ConfigType = title @ ''Config'', td_ConfigField = title @ ''ConfigPath'', td_ServiceKind = kind,
                    td_CmdImport = ''project/internal/server/'' @ pkg, td_ConfigFile = pkg @ ''.yaml''\<rparr>\<rparr>)"

datatype tmpl = cmdMainTemplate | cmdClaudeTemplate | serverBuilderTemplate | serverConfigTemplate | serverOptionsTemplate
  | serverClaudeTemplate | schemaTemplate | configTemplate | serverModuleTemplate

record plannedFile =
  pf_Path :: string
  pf_Content :: string
  pf_Overwrite :: bool

record Plan =
  pl_Files :: "plannedFile list"
  pl_ValueFiles :: "plannedFile list"

fun join_path :: "string list \<Rightarrow> string" where
  "join_path [] = []"
| "join_path [p] = p"
| "join_path (p # ps) = p @ ''/'' @ join_path ps"

definition abs_path :: "string list \<Rightarrow> string \<Rightarrow> string" where
  "abs_path root rel = concat (map (\<lambda>c. ''/'' @ c) root) @ ''/'' @ rel"

definition plan_specs :: "templateData \<Rightarrow> (string \<times> tmpl) list" where
  "plan_specs d =
     [(join_path [''cmd'', td_ServiceName d, ''main.go''], cmdMainTemplate),
      (join_path [''cmd'', td_ServiceName d, ''CLAUDE.md''], cmdClaudeTemplate),
      (join_path [''internal'', ''server'', td_PackageName d, ''builder.go''], serverBuilderTemplate),
      (join_path [''internal'', ''server'', td_PackageName d, ''config.go''], serverConfigTemplate),
      (join_path [''internal'', ''server'', td_PackageName d, ''options.go''], serverOptionsTemplate),
      (join_path [''internal'', ''server'', td_PackageName d, ''CLAUDE.md''], serverClaudeTemplate),
      (join_path [''config'', ''schema'', td_PackageName d @ ''.proto''], schemaTemplate),
      (join_path [''config'', td_PackageName d @ ''.yaml''], configTemplate)]
     @ (if td_ServiceKind d = ''standard'' then [(join_path [''internal'', ''server'', td_PackageName d, ''module.go''], serverModuleTemplate)] else [])"

text \<open>\<open>stat\<close> answers whether a path exists, or fails; \<open>read\<close> reads a file.\<close>

fun plan_files :: "(tmpl \<Rightarrow> templateData \<Rightarrow> string option) \<Rightarrow> (string \<Rightarrow> bool option) \<Rightarrow> Generator \<Rightarrow> (string \<times> tmpl) list \<Rightarrow> sg_error + plannedFile list" where
  "plan_files render stat g [] = Inr []"
| "plan_files render stat g ((path, t) # specs) =
     (case render t (gn_data g) of None \<Rightarrow> Inl (RenderFailed path)
      | Some content \<Rightarrow>
          (case stat (abs_path (gn_root g) path) of None \<Rightarrow> Inl (StatFailed path)
           | Some ex \<Rightarrow>
               if ex \<and> \<not> gc_Force (gn_cfg g) then Inl (TargetExists path)
               else (case plan_files render stat g specs of Inl e \<Rightarrow> Inl e
                     | Inr fs \<Rightarrow> Inr (\<lparr>pf_Path = path, pf_Content = content, pf_Overwrite = ex\<rparr> # fs))))"

fun plan_values :: "(string \<Rightarrow> string option) \<Rightarrow> Generator \<Rightarrow> string list \<Rightarrow> sg_error + plannedFile list" where
  "plan_values read g [] = Inr []"
| "plan_values read g (env # envs) =
     (let path = join_path [''config'', ''values'', env @ ''.yaml''] in
      case read (abs_path (gn_root g) path) of None \<Rightarrow> Inl (ReadValues env)
      | Some content \<Rightarrow>
          (case addServiceToSvrList content (td_ServiceName (gn_data g)) of Inl e \<Rightarrow> Inl (BadValues env e)
           | Inr (updated, changed) \<Rightarrow>
               (case plan_values read g envs of Inl e \<Rightarrow> Inl e
                | Inr fs \<Rightarrow> Inr ((if changed then [\<lparr>pf_Path = path, pf_Content = updated, pf_Overwrite = True\<rparr>] else []) @ fs))))"

definition gen_Plan :: "(tmpl \<Rightarrow> templateData \<Rightarrow> string option) \<Rightarrow> (string \<Rightarrow> bool option) \<Rightarrow> (string \<Rightarrow> string option) \<Rightarrow> Generator \<Rightarrow> sg_error + Plan" where
  "gen_Plan render stat read g =
     (case plan_files render stat g (plan_specs (gn_data g)) of Inl e \<Rightarrow> Inl e
      | Inr fs \<Rightarrow>
          (case plan_values read g (gc_RegisterEnv (gn_cfg g)) of Inl e \<Rightarrow> Inl e
           | Inr vs \<Rightarrow> Inr \<lparr>pl_Files = fs, pl_ValueFiles = vs\<rparr>))"

section \<open>Writing\<close>

text \<open>What a write does: the content is there, the directory could not be made, or only a part was written.\<close>

datatype write_res = Wrote | Mkdir_Failed | Write_Failed string

type_synonym files = "string \<rightharpoonup> string"

fun write_all :: "string list \<Rightarrow> (string \<Rightarrow> write_res) \<Rightarrow> plannedFile list \<Rightarrow> files \<Rightarrow> files \<times> sg_error option" where
  "write_all root r [] fs = (fs, None)"
| "write_all root r (f # pfs) fs =
     (let path = abs_path root (pf_Path f) in
      case r path of
        Wrote \<Rightarrow> write_all root r pfs (fs(path \<mapsto> pf_Content f))
      | Mkdir_Failed \<Rightarrow> (fs, Some (WriteError (pf_Path f)))
      | Write_Failed part \<Rightarrow> (fs(path \<mapsto> part), Some (WriteError (pf_Path f))))"

definition gen_Write :: "(string \<Rightarrow> write_res) \<Rightarrow> Generator \<Rightarrow> Plan \<Rightarrow> files \<Rightarrow> files \<times> sg_error option" where
  "gen_Write r g plan fs = write_all (gn_root g) r (pl_Files plan @ pl_ValueFiles plan) fs"

text \<open>\<^verbatim>\<open>run\<close> after the flags are parsed.\<close>

record cliOptions =
  cl_Name :: string
  cl_Pkg :: string
  cl_Kind :: string
  cl_RegisterEnv :: string
  cl_DryRun :: bool
  cl_Force :: bool

definition gen_run :: "(string list \<Rightarrow> bool) \<Rightarrow> string list option \<Rightarrow> (tmpl \<Rightarrow> templateData \<Rightarrow> string option) \<Rightarrow> (string \<Rightarrow> bool option)
    \<Rightarrow> (string \<Rightarrow> string option) \<Rightarrow> (string \<Rightarrow> write_res) \<Rightarrow> cliOptions \<Rightarrow> files \<Rightarrow> files \<times> sg_error option" where
  "gen_run has_mod cwd render stat read r opts fs =
     (if TrimSpace (cl_Name opts) = [] then (fs, Some NameRequired)
      else case NewGenerator has_mod cwd \<lparr>gc_Name = TrimSpace (cl_Name opts), gc_Pkg = TrimSpace (cl_Pkg opts), gc_Kind = TrimSpace (cl_Kind opts),
               gc_RegisterEnv = splitCSV (cl_RegisterEnv opts), gc_DryRun = cl_DryRun opts, gc_Force = cl_Force opts\<rparr> of
        Inl e \<Rightarrow> (fs, Some e)
      | Inr g \<Rightarrow>
          (case gen_Plan render stat read g of
             Inl e \<Rightarrow> (fs, Some e)
           | Inr plan \<Rightarrow> if cl_DryRun opts then (fs, None) else gen_Write r g plan fs))"

section \<open>Trimmed strings\<close>

definition is_trimmed :: "string \<Rightarrow> bool" where
  "is_trimmed s \<longleftrightarrow> s \<noteq> [] \<and> \<not> is_white (hd s) \<and> \<not> is_white (last s)"

lemma TrimSpace_white: "\<forall>c \<in> set w. is_white c \<Longrightarrow> is_trimmed s \<Longrightarrow> TrimSpace (w @ s) = s"
proof -
  assume w: "\<forall>c \<in> set w. is_white c" and s: "is_trimmed s"
  have "dropWhile is_white (w @ s) = s" using w s by (cases s) (auto simp: is_trimmed_def dropWhile_append2)
  moreover have "dropWhile is_white (rev s) = rev s" using s by (cases "rev s") (auto simp: is_trimmed_def hd_rev [symmetric])
  ultimately show ?thesis by (simp add: TrimSpace_def)
qed

lemma TrimSpace_trimmed: "TrimSpace s \<noteq> [] \<Longrightarrow> is_trimmed (TrimSpace s)"
  using TrimSpace_ends by (simp add: is_trimmed_def)

lemma set_TrimSpace: "set (TrimSpace s) \<subseteq> set s"
  unfolding TrimSpace_def by (metis set_dropWhileD set_rev subsetI)

lemma set_TrimPrefix: "set (TrimPrefix s p) \<subseteq> set s"
  by (auto simp: TrimPrefix_def dest: in_set_dropD)

section \<open>Lines\<close>

lemma split_on_no_sep: "l \<in> set (split_on c s) \<Longrightarrow> c \<notin> set l"
  by (induction c s arbitrary: l rule: split_on.induct) (auto split: if_splits list.splits)

lemma split_join: "ls \<noteq> [] \<Longrightarrow> \<forall>l \<in> set ls. CHR 0x0A \<notin> set l \<Longrightarrow> split_on (CHR 0x0A) (join_lines ls) = ls"
  by (induction ls rule: join_lines.induct) (auto simp: nl_def)

lemma find_list_Some: "find_list ls = Some (pre, h, after) \<longleftrightarrow> ls = pre @ h # after \<and> TrimSpace h = svr_key \<and> (\<forall>l \<in> set pre. TrimSpace l \<noteq> svr_key)"
proof (induction ls arbitrary: pre)
  case (Cons l ls)
  show ?case
  proof (cases "TrimSpace l = svr_key")
    case True
    then show ?thesis by (auto simp: Cons_eq_append_conv)
  next
    case False
    then show ?thesis using Cons by (cases pre) auto
  qed
qed simp

lemma svr_items_props:
  "svr_items ii ls = (items, rest) \<Longrightarrow> (\<forall>i \<in> set items. is_trimmed i \<and> set i \<subseteq> \<Union> (set ` set ls)) \<and> set rest \<subseteq> set ls \<and> svr_items ii rest = ([], rest)"
proof (induction ls arbitrary: items rest)
  case (Cons l ls)
  obtain its r where sub: "svr_items ii ls = (its, r)" by fastforce
  note IH = Cons.IH [OF sub]
  let ?item = "TrimSpace (TrimPrefix (TrimSpace l) ''-'')"
  have c: "set ?item \<subseteq> set l" using set_TrimSpace set_TrimPrefix by blast
  consider "TrimSpace l = []" | "TrimSpace l \<noteq> []" "\<not> HasPrefix l (ii @ ''-'')" | "TrimSpace l \<noteq> []" "HasPrefix l (ii @ ''-'')" by blast
  then show ?case
  proof cases
    case 1
    then show ?thesis using Cons.prems sub IH by auto
  next
    case 2
    then show ?thesis using Cons.prems by auto
  next
    case 3
    have "rest = r" "items = its \<or> items = ?item # its \<and> ?item \<noteq> []" using 3 Cons.prems sub by (auto simp: Let_def split: if_splits)
    then show ?thesis using IH TrimSpace_trimmed [of "TrimPrefix (TrimSpace l) ''-''"] c by fastforce
  qed
qed auto

lemma svr_items_again:
  assumes "\<forall>c \<in> set ii. is_white c" and "\<forall>i \<in> set items. is_trimmed i" and "svr_items ii rest = ([], rest)"
  shows "svr_items ii (map (\<lambda>i. ii @ ''- '' @ i) items @ [[]] @ rest) = (items, rest)"
  using assms(2)
proof (induction items)
  case Nil
  then show ?case using assms(3) by (simp add: TrimSpace_def)
next
  case (Cons i items)
  have i: "is_trimmed i" using Cons.prems by simp
  then have t: "is_trimmed (''- '' @ i)" by (auto simp: is_trimmed_def is_white_def is_space_def)
  have l: "TrimSpace (ii @ ''- '' @ i) = ''- '' @ i" by (rule TrimSpace_white [OF assms(1) t])
  have "TrimSpace ('' '' @ i) = i" by (rule TrimSpace_white [OF _ i]) (simp add: is_white_def is_space_def)
  then have it: "TrimSpace (TrimPrefix (''- '' @ i) ''-'') = i" by (simp add: TrimPrefix_def)
  have p: "HasPrefix (ii @ ''- '' @ i) (ii @ ''-'')" by (simp add: HasPrefix_iff)
  have "i \<noteq> []" using i by (simp add: is_trimmed_def)
  then show ?case using Cons.IH Cons.prems l it p by simp
qed

section \<open>Adding a server\<close>

lemma leadingSpaces_white: "\<forall>c \<in> set (leadingSpaces h). is_white c"
  by (auto simp: leadingSpaces_def is_white_def is_space_def dest: set_takeWhileD)

lemma leadingSpaces_key: "leadingSpaces (leadingSpaces h @ svr_key) = leadingSpaces h"
  by (simp add: leadingSpaces_def svr_key_def takeWhile_tail)

lemma ident_trimmed:
  assumes "validateIdent s = None"
  shows "is_trimmed s" and "CHR 0x0A \<notin> set s"
proof -
  have *: "ident_from b s = None \<Longrightarrow> \<forall>c \<in> set s. is_lower c \<or> is_num c" for b s by (induction s arbitrary: b) (auto split: if_splits)
  have "\<forall>c \<in> set s. is_lower c \<or> is_num c" "s \<noteq> []" using assms * by (auto simp: validateIdent_def split: if_splits)
  moreover have "is_lower c \<or> is_num c \<Longrightarrow> \<not> is_white c \<and> c \<noteq> CHR 0x0A" for c by (auto simp: is_lower_def is_num_def is_white_def is_space_def)
  ultimately show "is_trimmed s" "CHR 0x0A \<notin> set s" by (auto simp: is_trimmed_def)
qed

text \<open>
  Adding a server that is not in the list keeps the lines around the list and the servers in it, in their order, with
  the new one at the end; adding it again finds it and changes nothing.
\<close>

theorem add_service_exact:
  assumes "addServiceToSvrList txt service = Inr (out, True)" and "validateIdent service = None"
  shows "\<exists>pre h after items rest. split_on (CHR 0x0A) txt = pre @ h # after \<and> TrimSpace h = svr_key \<and> service \<notin> set items
    \<and> svr_items (leadingSpaces h @ ''  '') after = (items, rest)
    \<and> split_on (CHR 0x0A) out = pre @ (leadingSpaces h @ svr_key) # map (\<lambda>i. leadingSpaces h @ ''  - '' @ i) (items @ [service]) @ [] # rest
    \<and> svr_items (leadingSpaces h @ ''  '') (map (\<lambda>i. leadingSpaces h @ ''  - '' @ i) (items @ [service]) @ [] # rest) = (items @ [service], rest)
    \<and> addServiceToSvrList out service = Inr (out, False)"
proof -
  obtain pre h after where f: "find_list (split_on (CHR 0x0A) txt) = Some (pre, h, after)"
    using assms(1) by (auto simp: addServiceToSvrList_def split: option.splits)
  let ?ii = "leadingSpaces h @ ''  ''"
  obtain items rest where it: "svr_items ?ii after = (items, rest)" by fastforce
  let ?new = "map (\<lambda>i. ?ii @ ''- '' @ i) (items @ [service])"
  let ?lines = "pre @ [leadingSpaces h @ svr_key] @ ?new @ [[]] @ rest"
  have o: "out = join_lines ?lines" "service \<notin> set items" using assms(1) f it by (auto simp: addServiceToSvrList_def Let_def split: if_splits)
  have ls: "split_on (CHR 0x0A) txt = pre @ h # after" "TrimSpace h = svr_key" "\<forall>l \<in> set pre. TrimSpace l \<noteq> svr_key" using f by (simp_all add: find_list_Some)
  have clean: "\<forall>l \<in> set (pre @ h # after). CHR 0x0A \<notin> set l" using split_on_no_sep ls(1) by metis
  have p: "\<forall>i \<in> set items. is_trimmed i \<and> set i \<subseteq> \<Union> (set ` set after)" "set rest \<subseteq> set after" "svr_items ?ii rest = ([], rest)"
    using svr_items_props [OF it] by auto
  have white: "\<forall>c \<in> set ?ii. is_white c" using leadingSpaces_white by (auto simp: is_white_def is_space_def)
  have nonl: "CHR 0x0A \<notin> set (leadingSpaces h)" by (auto simp: leadingSpaces_def dest: set_takeWhileD)
  have "CHR 0x0A \<notin> set i" if "i \<in> set items" for i using p(1) that clean by fastforce
  then have "\<forall>l \<in> set ?lines. CHR 0x0A \<notin> set l"
    using clean p(1,2) nonl ident_trimmed(2) [OF assms(2)] by (auto simp: svr_key_def)
  then have s: "split_on (CHR 0x0A) out = ?lines" unfolding o(1) by (intro split_join) auto
  have k: "is_trimmed svr_key" by (simp add: is_trimmed_def svr_key_def is_white_def is_space_def)
  have f': "find_list ?lines = Some (pre, leadingSpaces h @ svr_key, ?new @ [[]] @ rest)"
    using ls(3) TrimSpace_white [OF leadingSpaces_white k] by (simp add: find_list_Some)
  have it': "svr_items ?ii (?new @ [[]] @ rest) = (items @ [service], rest)"
    by (rule svr_items_again [OF white _ p(3)]) (use p(1) ident_trimmed(1) [OF assms(2)] in auto)
  have "addServiceToSvrList out service = Inr (out, False)"
    unfolding addServiceToSvrList_def s f' option.case prod.case leadingSpaces_key Let_def it' by simp
  then show ?thesis using ls(1,2) o(2) it s it' by (intro exI [of _ pre] exI [of _ h] exI [of _ after] exI [of _ items] exI [of _ rest]) simp
qed

theorem add_service_exact_witness:
  "\<exists>pre h after items rest. split_on (CHR 0x0A) (''svr_list:'' @ nl @ ''  - a'') = pre @ h # after \<and> TrimSpace h = svr_key \<and> ''b'' \<notin> set items
    \<and> addServiceToSvrList (''svr_list:'' @ nl @ ''  - a'' @ nl @ ''  - b'' @ nl) ''b'' = Inr (''svr_list:'' @ nl @ ''  - a'' @ nl @ ''  - b'' @ nl, False)"
proof -
  have 1: "addServiceToSvrList (''svr_list:'' @ nl @ ''  - a'') ''b'' = Inr (''svr_list:'' @ nl @ ''  - a'' @ nl @ ''  - b'' @ nl, True)" by code_simp
  have 2: "validateIdent ''b'' = None" by code_simp
  show ?thesis using add_service_exact [OF 1 2] by blast
qed

text \<open>
  A comment after an item is read as a part of its name, so the server is added a second time; and a list whose items
  are not indented, which is the same to YAML, counts as empty.
\<close>

lemma commented_item_added_again:
  "addServiceToSvrList (''svr_list:'' @ nl @ ''  - a # x'') ''a'' = Inr (''svr_list:'' @ nl @ ''  - a # x'' @ nl @ ''  - a'' @ nl, True)"
  by code_simp

lemma flush_list_refused: "addServiceToSvrList (''svr_list:'' @ nl @ ''- a'') ''b'' = Inl ListEmpty"
  by code_simp

section \<open>Executing a plan\<close>

lemma abs_path_inj [simp]: "abs_path root p = abs_path root q \<longleftrightarrow> p = q"
  by (simp add: abs_path_def)

lemma plan_files_new:
  "plan_files render stat g specs = Inr fs \<Longrightarrow> \<not> gc_Force (gn_cfg g) \<Longrightarrow> f \<in> set fs \<Longrightarrow> stat (abs_path (gn_root g) (pf_Path f)) = Some False"
  by (induction specs arbitrary: fs) (auto split: option.splits if_splits sum.splits)

lemma write_all_frame: "write_all root r pfs fs = (fs', res) \<Longrightarrow> p \<notin> (\<lambda>f. abs_path root (pf_Path f)) ` set pfs \<Longrightarrow> fs' p = fs p"
  by (induction pfs arbitrary: fs) (auto simp: Let_def split: write_res.splits)

lemma write_all_done:
  "write_all root r pfs fs = (fs', None) \<Longrightarrow> distinct (map pf_Path pfs) \<Longrightarrow> f \<in> set pfs \<Longrightarrow> fs' (abs_path root (pf_Path f)) = Some (pf_Content f)"
proof (induction pfs arbitrary: fs)
  case (Cons a pfs)
  have w: "write_all root r pfs (fs(abs_path root (pf_Path a) \<mapsto> pf_Content a)) = (fs', None)"
    using Cons.prems(1) by (auto simp: Let_def split: write_res.splits)
  show ?case
  proof (cases "f = a")
    case True
    then have "abs_path root (pf_Path f) \<notin> (\<lambda>f. abs_path root (pf_Path f)) ` set pfs" using Cons.prems(2) by auto
    then show ?thesis using write_all_frame [OF w] True by simp
  qed (use Cons w in auto)
qed simp

lemma NewGenerator_cfg: "NewGenerator has_mod cwd cfg = Inr g \<Longrightarrow> gn_cfg g = cfg"
  by (auto simp: NewGenerator_def Let_def split: if_splits sum.splits option.splits)

text \<open>
  Without force a run changes no existing file except the values of a registered environment, whatever fails: neither
  when the names are refused, nor when the plan cannot be made, nor when a write fails halfway.
\<close>

theorem existing_files_kept:
  assumes "gen_run has_mod cwd render stat read r opts fs = (fs', res)" and "\<not> cl_Force opts"
    and "\<And>p b. stat p = Some b \<Longrightarrow> b = (fs p \<noteq> None)" and "fs p \<noteq> None" and "fs' p \<noteq> fs p"
  shows "\<not> cl_DryRun opts \<and> (\<exists>root. \<exists>env \<in> set (splitCSV (cl_RegisterEnv opts)). p = abs_path root (join_path [''config'', ''values'', env @ ''.yaml'']))"
proof -
  obtain g plan where g: "gn_cfg g = \<lparr>gc_Name = TrimSpace (cl_Name opts), gc_Pkg = TrimSpace (cl_Pkg opts), gc_Kind = TrimSpace (cl_Kind opts),
       gc_RegisterEnv = splitCSV (cl_RegisterEnv opts), gc_DryRun = cl_DryRun opts, gc_Force = cl_Force opts\<rparr>"
    "gen_Plan render stat read g = Inr plan" "\<not> cl_DryRun opts" "gen_Write r g plan fs = (fs', res)"
    using assms(1,5) NewGenerator_cfg by (fastforce simp: gen_run_def split: if_splits sum.splits)
  obtain vs where pl: "plan_files render stat g (plan_specs (gn_data g)) = Inr (pl_Files plan)" "plan_values read g (splitCSV (cl_RegisterEnv opts)) = Inr vs" "pl_ValueFiles plan = vs"
    using g(1,2) by (auto simp: gen_Plan_def split: sum.splits)
  have v: "plan_values read g envs = Inr vs \<Longrightarrow> f \<in> set vs \<Longrightarrow> \<exists>env \<in> set envs. pf_Path f = join_path [''config'', ''values'', env @ ''.yaml'']" for envs vs f
    by (induction envs arbitrary: vs) (auto simp: Let_def split: option.splits sum.splits if_splits)
  have "p \<in> (\<lambda>f. abs_path (gn_root g) (pf_Path f)) ` set (pl_Files plan @ pl_ValueFiles plan)"
    using write_all_frame g(4) assms(5) unfolding gen_Write_def by blast
  moreover have "p \<noteq> abs_path (gn_root g) (pf_Path f)" if "f \<in> set (pl_Files plan)" for f
    using plan_files_new [OF pl(1) _ that] assms(2-4) g(1) by auto
  ultimately obtain f where "f \<in> set vs" "p = abs_path (gn_root g) (pf_Path f)" using pl(3) by auto
  then obtain env where "env \<in> set (splitCSV (cl_RegisterEnv opts))" "p = abs_path (gn_root g) (join_path [''config'', ''values'', env @ ''.yaml''])"
    using v [OF pl(2)] by metis
  then show ?thesis using g(3) by blast
qed

end
