(* ===== verification/Spec2Isabelle.thy ===== *)
theory Spec2Isabelle
  imports Discovery Event_Loop Frame_Pool Rpc_Spans Executables Client_Robot Gen_Stubs Config_Schema Server_Gen
begin

text \<open>
  \<^bold>\<open>Verification of the BidServer backend.\<close>

  BidServer is a distributed game backend written in Go. Clients talk to a \<^emph>\<open>gate\<close> over TCP; the gate
  keeps sessions, answers local commands and forwards the others by RPC to business servers such as
  the \<^emph>\<open>lobby\<close>. Every host runs a \<^emph>\<open>RouterAgent\<close>: business processes connect to it over a Unix socket
  with the SDK, the agents know from a registry which node lives behind which agent, and route
  frames to local processes or over TCP links to other agents. The lobby is a single-threaded
  runtime over asynchronous stores; timers run on a hierarchical time wheel; a directory keeps who
  is online where.

  \<^bold>\<open>Theories and the code they model\<close> (paths below \<^verbatim>\<open>src/\<close>).

  \<^item> \<open>Go_Prelude\<close>, \<open>Go_Strconv\<close>: machine types, big-endian integers, slices with capacity, checked
    indexing (\<open>None\<close> is a panic), maps that are iterated, decimal conversions, generic lemmas.
  \<^item> \<open>Node_Id\<close>: \<^verbatim>\<open>internal/core/nodeid\<close>, \<^verbatim>\<open>internal/core/errcode\<close>. \<open>Codec\<close>: \<^verbatim>\<open>internal/core/codec\<close>.
    \<open>Wire\<close>, \<open>Rpc_Wire\<close>: \<^verbatim>\<open>internal/core/ragent/wire\<close> and the frame writer of the SDK. Shown: decoders
    invert encoders and never panic, in-place writers equal their two-step reference.
  \<^item> \<open>Framing\<close>: read and batched write loops of all connections. Shown: what is queued on one side
    arrives exactly and in order on the other, for every batching and every cut of the stream.
  \<^item> \<open>Discovery\<close>: \<^verbatim>\<open>agent/discovery\<close>. Shown: the sorted table refines a map of registrations; selection
    does not depend on the order of events. \<open>Etcd_Registry\<close>: \<^verbatim>\<open>agent/discovery/etcd\<close>; registered nodes
    stay visible across lost leases while calls and recovery interleave at the sections of the mutex, and the table of an agent follows the content of the store.
  \<^item> \<open>Seq_Tables\<close>, \<open>Links\<close>, \<open>Peer_Mgr\<close>, \<open>Forwarder\<close>, \<open>Agent_Router\<close>: \<^verbatim>\<open>internal/core/ragent/agent\<close>. Shown:
    correlation exactly once, conservation of waiting frames, the fate of every request while other goroutines run between the steps of the
    forwarder, and the round trip of a request between two agents under interference. \<open>Agent_Runtime\<close>: start, stop and the
    event histories of the whole process; shown: readiness reports what happened, nodes are bound to
    living connections only.
  \<^item> \<open>Rpc_Core\<close>, \<open>Rpc_Compose\<close>: \<^verbatim>\<open>internal/core/rpc\<close>. Shown: every callback runs exactly once, at the
    latest with the first scan after its deadline; joins and loops complete once. \<open>Rpc_Stubs\<close>: the generated
    stubs, routes and registrations (\<^verbatim>\<open>protocol/gen\<close>) and the handler of the lobby; shown: a typed call is given the
    first reply of the remote method. \<open>Rpc_Spans\<close>: the spans of traced calls and their text.
  \<^item> \<open>Sdk_Client\<close>, \<open>Sdk_Conn\<close>: \<^verbatim>\<open>internal/core/ragent/sdk\<close>, its connection to the agent and the inbound path of
    the lobby and gate modules.
    \<open>Frame_Pool\<close>: the buffers of received frames as cells of a store; shown: frames in use never share a
    buffer and are not overwritten.
  \<^item> \<open>Session\<close>, \<open>Gate\<close>: \<^verbatim>\<open>internal/core/session\<close>, \<^verbatim>\<open>internal/core/conn\<close>, \<^verbatim>\<open>internal/core/dispatcher\<close>,
    \<^verbatim>\<open>internal/server/gate\<close>; \<open>Acceptors\<close>: \<^verbatim>\<open>internal/core/acceptor\<close>. Shown: sessions found by connection and by user are the same ones,
    the latter as long as no address is used again, authentication is
    enforced for local commands, answers reach the session that asked, accepted connections are handed over or
    closed, a WebSocket carries the packets that a TCP connection carries.
  \<^item> \<open>Time_Wheel\<close>: \<^verbatim>\<open>pkg/timewheel\<close>, refines a set of timers. \<open>Online_Directory\<close>:
    \<^verbatim>\<open>internal/server/online/internal\<close>, entries live exactly their time to live.
  \<^item> \<open>Event_Loop\<close>: \<^verbatim>\<open>pkg/taskqueue\<close> as a step relation of producers and main loop, \<^verbatim>\<open>pkg/event\<close>.
  \<^item> \<open>Op_Dedup\<close>, \<open>Lobby_Components\<close>, \<open>Lobby_Player\<close>, \<open>Lobby_Runtime\<close>, \<open>Lobby_Loop\<close>:
    \<^verbatim>\<open>internal/server/lobby/internal\<close>. Shown: retries are harmless, money is neither invented nor
    overdrawn, saved players are restored, logins are answered once, periodic saves and shutdown. The store is a document
    per user, a failed save may have been written, and no change is lost while the saves of a user complete in order. \<open>Lobby_Stores\<close>: the player, offline and mail stores
    and \<^verbatim>\<open>pkg/mongo\<close> over a driver that is a parameter with documented laws; shown: the offline store
    is a queue per user, a mail is claimed once, a replay of at most 128 settlements that is repeated after a crash charges nothing.
  \<^item> \<open>App_Lifecycle\<close>: \<^verbatim>\<open>internal/core/app\<close>; \<open>Config\<close>: \<^verbatim>\<open>internal/core/config\<close> and the reload of a server;
    \<open>Config_Gen\<close>: \<^verbatim>\<open>config/gen\<close>, the validation and the reload checks of all servers. Shown: a reload changes
    the heartbeat interval and nothing else. \<open>Log_Rotate\<close>, \<open>Loggers\<close>: \<^verbatim>\<open>pkg/logger\<close> and \<^verbatim>\<open>internal/core/logger\<close>
    over a file system with inodes; shown: rotation without clean-up loses nothing, the clean-up keeps the newest files.
  \<^item> \<open>Server_Modules\<close>: the modules of all servers (\<^verbatim>\<open>internal/server/*/module.go\<close>) with the resources that they hold;
    shown: every stop releases what the module owns (accepted client connections are not counted). \<open>Executables\<close>: \<^verbatim>\<open>cmd\<close>, the builders and \<^verbatim>\<open>internal/core/process\<close>; shown: what
    a builder that does not panic has built, and that a PID file lives as long as its process.
  \<^item> \<open>Client_Robot\<close>: \<^verbatim>\<open>tools/client_robot\<close>, a client of the gate and its statistics. Shown in this theory: a call between two hosts is answered by the
    handler of the target, and a ping of a client by the lobby, through gate, engine, SDK and both agents. \<open>Go_Strings\<close>: functions on texts. \<open>Gen_Routes\<close>, \<open>Gen_Stubs\<close>, \<open>Gen_Config\<close>, \<open>Server_Gen\<close>: the
    generators \<^verbatim>\<open>tools/gen_routes\<close>, \<^verbatim>\<open>tools/protoc-gen-svcstub\<close>, \<^verbatim>\<open>tools/configgen\<close>, \<^verbatim>\<open>tools/servergen\<close>; shown: the routes
    made are exactly those described, in any order of iteration, the naming rules hold, a generated check of a reload
    compares exactly the frozen fields, existing files are kept. \<open>Config_Schema\<close>: the check made of the schema of the lobby is
    the check that the lobby runs.

  \<^bold>\<open>Conventions.\<close> A struct is a record, a Go map that is only looked up is a partial function, one
  that is iterated an association list; sharing through pointers is a store indexed by numbers.
  Unsigned integers are words, \<^verbatim>\<open>int64\<close> values are integers with the wrap-around written out. Errors
  are values of a sum or option type and panics are \<open>None\<close> or a flag. The clock, the bytes read, the
  outcome of writes, dials and store requests and the choices of \<^verbatim>\<open>select\<close> are arguments, so the
  theorems quantify over them; concurrency under a mutex is a sequence of operations in any
  order, the task queue is an inductive step relation.

  \<^bold>\<open>Interfaces\<close> are locales with interpretations on the model: frame formats and readers
  (\<open>Framing\<close>), frame sinks (\<open>Links\<close>), node selection (\<open>Discovery\<close>), correlation tables (\<open>Seq_Tables\<close>), timer services
  (\<open>Time_Wheel\<close>, used by \<open>Online_Directory\<close> and \<open>Lobby_Loop\<close>), idempotent stores (\<open>Lobby_Components\<close>), changes that are marked until they are stored (\<open>Lobby_Runtime\<close>),
  replayed messages (\<open>Lobby_Stores\<close>), reloadable configurations (\<open>Config_Gen\<close>), countdowns (\<open>Rpc_Compose\<close>), server
  modules (\<open>Server_Modules\<close>).

  \<^bold>\<open>Bounds and fuel.\<close> \<open>write_loop\<close> of \<open>Links\<close> takes a list of choices and is proved to drain with
  enough rounds; \<open>Flush\<close> of \<open>Event_Loop\<close> has fuel because tasks may post tasks, \<open>writeReloadChecks\<close> of \<open>Gen_Config\<close> because messages
  may be recursive; more than the nesting of the messages is enough. All other loops
  terminate structurally or by a measure. Theorems about the wheel assume fewer than \<open>2 ^ 62\<close>
  operations and durations below \<open>2 ^ 62\<close> nanoseconds, so that 64-bit ticks do not wrap.

  \<^bold>\<open>Not modelled.\<close> The database driver, the etcd client, the YAML parser, the protobuf runtime, the parser of the
  command line and the logging library (parameters of the model where their behaviour matters), message types
  generated by protoc, the HTTP handlers of the profiling server, the templates of the server generator, and the copies
  of other projects under \<^verbatim>\<open>third_projects\<close>.
\<close>

section \<open>A call from end to end\<close>

text \<open>An agent routes a header to node \<open>n\<close> of another agent over the open link \<open>l\<close>.\<close>

definition routes_to :: "Agent \<Rightarrow> RPCWireHeader \<Rightarrow> u32 \<Rightarrow> link_ptr \<Rightarrow> bool" where
  "routes_to a head n l \<longleftrightarrow> n \<noteq> 0 \<and> pickTargets a head = [n] \<and> Local_Get (ag_localConns a) n = None
     \<and> (\<exists>info. GetByNodeID (ag_memberTable a) n = Some info \<and> RAAddr info \<noteq> [] \<and> peer_ready a (peerKey (RAAddr info) (hdr_ServerType head)) l)"

lemma client_answered:
  assumes "header_fits h" and "cl_core cl = Some core" and "map_of (rc_pending core) (hdr_SeqID h) = Some f"
  shows "\<exists>core'. cl_core (client_on_frame cl (rpc_frame FrameRpcResponse h body)) = Some core' \<and> map_of (rc_pending core') (hdr_SeqID h) = None
    \<and> rc_calls core' = rc_calls core @ [\<lparr>dp_seq = hdr_SeqID h, dp_callback = inf_onResult f, dp_payload = Some body, dp_code = hdr_ErrCode h\<rparr>]"
  using EncodeRPCWireHeader_decodes [OF assms(1)] assms(2,3)
  by (simp add: client_on_frame_def rpc_frame_def OnResponse_def take_pending_def finish_with_def)

lemma responseHead_err [simp]: "header_fits (h\<lparr>hdr_ErrCode := c\<rparr>) = header_fits h" "header_fits (h\<lparr>hdr_SeqID := s\<rparr>) = header_fits h"
  by (simp_all add: header_fits_def)

text \<open>
  The way of a call and its answer. The call of node \<open>nid\<close> is routed by its agent \<open>a\<close> over link \<open>l\<close> to agent \<open>b\<close>, which
  delivers it under its number to the process of node \<open>n\<close>; the response that this process makes of the
  request, with any code and body, is routed back and dispatched once to the callback of the call.
\<close>

lemma call_and_answer:
  assumes call: "core1 = Call core now t route body ctx (Some cb) NoError"
    and "rc_seq core + 1 \<noteq> 0" and "length (tg_Key t) \<le> 0xFFFF" and "length route \<le> 0xFFFF"
    and head: "head = sdk_header nid t (call_header core1)" and "routes_to a head n l"
    and "remote_ok (ag_remoteSeq a)" and "length ops < remote_room (ag_remoteSeq a)" and seq: "seq = rs_seq (ag_remoteSeq a) + 1"
    and req: "req = rpc_frame FrameRpcRequest (retarget head seq n) body"
    and "hosts b n d" and "key \<noteq> []"
    and b1: "map_of (ag_incomingSeq b1) seq = map_of (ag_incomingSeq (HandlePeerFrame b req key)) seq"
    and "peer_ready b1 key k" and "Local_Get (ag_localConns b1) (hdr_SrcNodeID head) = None"
    and "GetByNodeID (ag_memberTable b1) (hdr_SrcNodeID head) \<noteq> None" and "hdr_SrcNodeID head \<noteq> 0"
    and a1: "ag_remoteSeq a1 = foldl remote_step (ag_remoteSeq (RouteFrame a c (call_frame nid t core1 body))) ops"
    and "RemotePop seq \<notin> set ops" and "RemoteConnGone c \<notin> set ops" and "\<not> uc_done (ag_uds a1 c)"
    and core2: "cl_core cl = Some core2" "map_of (rc_pending core2) (rc_seq core + 1) = map_of (rc_pending core1) (rc_seq core + 1)"
  shows "header_fits (retarget head seq n)" and "hdr_SeqID (retarget head seq n) \<noteq> 0" and "hdr_Route (retarget head seq n) = route"
    and "as_frame rsp = rpc_frame FrameRpcResponse ((responseHead (retarget head seq n) n)\<lparr>hdr_ErrCode := code\<rparr>) out \<Longrightarrow>
      tl_sendCh (ag_links (RouteFrame a c (call_frame nid t core1 body)) l) = tl_sendCh (ag_links a l) @ [req]
      \<and> uc_sent (ag_uds (HandlePeerFrame b req key) d) = uc_sent (ag_uds b d) @ [req]
      \<and> tl_prioSendCh (ag_links (RouteFrame b1 d (as_frame rsp)) k) = tl_prioSendCh (ag_links b1 k) @ [as_frame rsp]
      \<and> (\<exists>frame core3. uc_sent (ag_uds (HandlePeerFrame a1 (as_frame rsp) key') c) = uc_sent (ag_uds a1 c) @ [frame]
           \<and> cl_core (client_on_frame cl frame) = Some core3 \<and> map_of (rc_pending core3) (rc_seq core + 1) = None
           \<and> rc_calls core3 = rc_calls core2 @ [\<lparr>dp_seq = rc_seq core + 1, dp_callback = cb, dp_payload = Some out, dp_code = code\<rparr>])"
proof -
  note made = call_made [OF call]
  have fits: "header_fits head" using assms(3,4) by (simp add: head made sdk_header_fits)
  have hseq: "hdr_SeqID head = rc_seq core + 1" by (simp add: head made)
  have cf: "call_frame nid t core1 body = rpc_frame FrameRpcRequest head body"
    using call_frame_request [OF call assms(2)] by (simp add: head)
  obtain info where info: "GetByNodeID (ag_memberTable a) n = Some info" "RAAddr info \<noteq> []" "peer_ready a (peerKey (RAAddr info) (hdr_ServerType head)) l"
    and rt: "n \<noteq> 0" "pickTargets a head = [n]" "Local_Get (ag_localConns a) n = None"
    using assms(6) by (auto simp: routes_to_def)
  let ?h = "retarget head seq n" and ?rh = "(responseHead (retarget head seq n) n)\<lparr>hdr_ErrCode := code\<rparr>"
  show h: "header_fits ?h" using fits retarget_fits by simp
  have hs: "hdr_SeqID ?h = seq" "hdr_SrcNodeID ?h = hdr_SrcNodeID head" by (simp_all add: retarget_def)
  have "seq \<noteq> 0" using unat_suc_seq(1) [of "ag_remoteSeq a"] assms(8) by (metis seq gr_zeroI less_zeroE unat_0 nat.distinct(1))
  then show "hdr_SeqID ?h \<noteq> 0" by (simp add: hs)
  show "hdr_Route ?h = route" by (simp add: retarget_def head made)
  have rh: "header_fits ?rh" "hdr_DestNodeID ?rh = hdr_SrcNodeID head" "hdr_SeqID ?rh = seq" "hdr_ErrCode ?rh = code" using h hs by simp_all
  have nz: "hdr_SeqID head \<noteq> 0" using assms(2) hseq by simp
  assume rsp: "as_frame rsp = rpc_frame FrameRpcResponse ?rh out"
  note legs = request_response_between_agents [OF fits nz rt(2,1) info(1,2) rt(3) info(3) assms(7,8) a1 [unfolded cf] assms(19) [unfolded seq] assms(20,21) assms(11,12)
      req [unfolded seq], of b1 k ?rh "as_frame rsp" out key']
  let ?reply = "rpc_frame FrameRpcResponse (?rh\<lparr>hdr_SeqID := hdr_SeqID head\<rparr>) out"
  obtain f where f: "map_of (rc_pending core2) (rc_seq core + 1) = Some f" "inf_onResult f = cb" using made(5) core2(2) by auto
  have "\<exists>core3. cl_core (client_on_frame cl ?reply) = Some core3 \<and> map_of (rc_pending core3) (rc_seq core + 1) = None
     \<and> rc_calls core3 = rc_calls core2 @ [\<lparr>dp_seq = rc_seq core + 1, dp_callback = cb, dp_payload = Some out, dp_code = code\<rparr>]"
    using client_answered [of "?rh\<lparr>hdr_SeqID := hdr_SeqID head\<rparr>" cl core2 f out] f core2(1) rh hseq by simp
  with legs b1 assms(14-17) rh rsp seq cf show
    "tl_sendCh (ag_links (RouteFrame a c (call_frame nid t core1 body)) l) = tl_sendCh (ag_links a l) @ [req]
      \<and> uc_sent (ag_uds (HandlePeerFrame b req key) d) = uc_sent (ag_uds b d) @ [req]
      \<and> tl_prioSendCh (ag_links (RouteFrame b1 d (as_frame rsp)) k) = tl_prioSendCh (ag_links b1 k) @ [as_frame rsp]
      \<and> (\<exists>frame core3. uc_sent (ag_uds (HandlePeerFrame a1 (as_frame rsp) key') c) = uc_sent (ag_uds a1 c) @ [frame]
           \<and> cl_core (client_on_frame cl frame) = Some core3 \<and> map_of (rc_pending core3) (rc_seq core + 1) = None
           \<and> rc_calls core3 = rc_calls core2 @ [\<lparr>dp_seq = rc_seq core + 1, dp_callback = cb, dp_payload = Some out, dp_code = code\<rparr>])" by auto
qed

text \<open>C1: A remote call returns what the handler replies. A business process on node \<open>nid\<close> calls a route
  on another host: the frame that the engine and the SDK make is routed by the local agent over
  the link to the agent of the target, delivered to the target process under a number of the agent,
  answered by its handler, routed back over the link it came from, delivered on the connection of
  the caller with the number of the call, and the callback of the call is dispatched once with the
  payload and error code of the handler. This holds for every interleaving in which, in between, the
  target's agent keeps the tracked request (no other peer uses the same number, \<open>b1\<close>; see
  \<open>incoming_seq_collision\<close> for what happens otherwise) and the node of the caller registered, the links
  between the agents stay connected with room in their channels, the caller's agent does not answer
  the number otherwise or lose the connection of the caller (\<open>a1\<close>: any other allocations, responses and
  disconnects), and the caller leaves the call open (\<open>core2\<close>).\<close>

theorem rpc_end_to_end:
  assumes call: "core1 = Call core now t route body ctx (Some cb) NoError"
    and "rc_seq core + 1 \<noteq> 0" and "length (tg_Key t) \<le> 0xFFFF" and "length route \<le> 0xFFFF"
    and head: "head = sdk_header nid t (call_header core1)" and "routes_to a head n l"
    and "remote_ok (ag_remoteSeq a)" and "length ops < remote_room (ag_remoteSeq a)" and seq: "seq = rs_seq (ag_remoteSeq a) + 1"
    and req: "req = rpc_frame FrameRpcRequest (retarget head seq n) body"
    and "hosts b n d" and "key \<noteq> []"
    and resp: "handleInbound n req (Handled [(p, e)] NoError) = [rsp]"
    and b1: "map_of (ag_incomingSeq b1) seq = map_of (ag_incomingSeq (HandlePeerFrame b req key)) seq"
    and "peer_ready b1 key k" and "Local_Get (ag_localConns b1) (hdr_SrcNodeID head) = None"
    and "GetByNodeID (ag_memberTable b1) (hdr_SrcNodeID head) \<noteq> None" and "hdr_SrcNodeID head \<noteq> 0"
    and a1: "ag_remoteSeq a1 = foldl remote_step (ag_remoteSeq (RouteFrame a c (call_frame nid t core1 body))) ops"
    and "RemotePop seq \<notin> set ops" and "RemoteConnGone c \<notin> set ops" and "\<not> uc_done (ag_uds a1 c)"
    and core2: "cl_core cl = Some core2" "map_of (rc_pending core2) (rc_seq core + 1) = map_of (rc_pending core1) (rc_seq core + 1)"
  shows "tl_sendCh (ag_links (RouteFrame a c (call_frame nid t core1 body)) l) = tl_sendCh (ag_links a l) @ [req]
    \<and> uc_sent (ag_uds (HandlePeerFrame b req key) d) = uc_sent (ag_uds b d) @ [req]
    \<and> tl_prioSendCh (ag_links (RouteFrame b1 d (as_frame rsp)) k) = tl_prioSendCh (ag_links b1 k) @ [as_frame rsp]
    \<and> (\<exists>frame core3. uc_sent (ag_uds (HandlePeerFrame a1 (as_frame rsp) key') c) = uc_sent (ag_uds a1 c) @ [frame]
         \<and> cl_core (client_on_frame cl frame) = Some core3 \<and> map_of (rc_pending core3) (rc_seq core + 1) = None
         \<and> rc_calls core3 = rc_calls core2 @ [\<lparr>dp_seq = rc_seq core + 1, dp_callback = cb, dp_payload = Some (payload_bytes p), dp_code = CodeOf e\<rparr>])"
proof -
  note way = call_and_answer [OF assms(1-12) b1 assms(15-18) a1 assms(20-22) core2]
  have "rsp = SendRPCFrame FrameRpcResponse ((responseHead (retarget head seq n) n)\<lparr>hdr_ErrCode := CodeOf e\<rparr>) (payload_bytes p)"
    using resp handleInbound_single [OF way(1,2), of n body p e] by (simp add: req)
  then show ?thesis by (intro way(4)) simp
qed

text \<open>Node 77 calls node 4 on the second of two agents with a link between them.\<close>

definition wit_target :: Target where
  "wit_target = \<lparr>tg_ServerType = 0, tg_Mode = RoutingDirect, tg_Key = [], tg_NodeID = 4, tg_Deadline = 0\<rparr>"

definition wit_call :: Core where
  "wit_call = Call (New 0) 0 wit_target ''r'' [1] Background (Some 3) NoError"

theorem rpc_end_to_end_witness:
  "let head = sdk_header 77 wit_target (call_header wit_call); req = rpc_frame FrameRpcRequest (retarget head 1 4) [1];
       rsp = hd (handleInbound 4 req (Handled [(Some [2], NoError)] NoError));
       a1 = wit_a\<lparr>ag_remoteSeq := ag_remoteSeq (RouteFrame wit_a 5 (call_frame 77 wit_target wit_call [1]))\<rparr>;
       cl = \<lparr>cl_nodeID = 77, cl_core = Some wit_call, cl_handler = True, cl_posted = [], cl_sent = []\<rparr>
   in \<exists>frame core3. uc_sent (ag_uds (HandlePeerFrame a1 (as_frame rsp) []) 5) = [frame] \<and> cl_core (client_on_frame cl frame) = Some core3
        \<and> rc_calls core3 = [\<lparr>dp_seq = 1, dp_callback = 3, dp_payload = Some [2], dp_code = OK\<rparr>]"
proof -
  let ?head = "sdk_header 77 wit_target (call_header wit_call)"
  let ?req = "rpc_frame FrameRpcRequest (retarget ?head 1 4) [1]"
  let ?rsp = "hd (handleInbound 4 ?req (Handled [(Some [2], NoError)] NoError))"
  let ?a1 = "wit_a\<lparr>ag_remoteSeq := ag_remoteSeq (RouteFrame wit_a 5 (call_frame 77 wit_target wit_call [1]))\<rparr>"
  let ?b1 = "wit_b\<lparr>ag_incomingSeq := ag_incomingSeq (HandlePeerFrame wit_b ?req (peerKey ''ra1:9000'' 0))\<rparr>"
  let ?cl = "\<lparr>cl_nodeID = 77, cl_core = Some wit_call, cl_handler = True, cl_posted = [], cl_sent = []\<rparr>"
  note made = call_made [OF wit_call_def]
  have core: "rc_seq (New 0) + 1 = 1" "tg_Key wit_target = []" "tg_NodeID wit_target = 4" "tg_Mode wit_target = RoutingDirect" "tg_ServerType wit_target = 0"
    by (simp_all add: New_def wit_target_def)
  have "rh_ServerType (call_header wit_call) = 0" "rh_SrcNodeID (call_header wit_call) = 0"
    by (simp_all add: wit_call_def wit_target_def call_header_def Call_def call_start_def register_def Background_def Let_def)
  then have head: "hdr_SrcNodeID ?head = 77" "hdr_ServerType ?head = 0" "hdr_RoutingMode ?head = RoutingModeDirect" "hdr_RoutingKey ?head = dec_nat 4"
    by (simp_all add: sdk_header_def core routingModeToWire_def Let_def)
  have fits: "header_fits (retarget ?head 1 4)" "hdr_SeqID (retarget ?head 1 4) = 1"
    by (rule retarget_fits, rule sdk_header_fits) (simp_all add: made core retarget_def)
  have "ParseUint32 (dec_nat 4) = Some 4" by (simp add: ParseUint32_dec)
  then have "pickTargets wit_a ?head = [4]" using head by (simp add: pickTargets_def parseNodeIDKey_def)
  then have "routes_to wit_a ?head 4 1" using wit_scenario head by (auto simp: routes_to_def)
  moreover have "handleInbound 4 ?req (Handled [(Some [2], NoError)] NoError) = [?rsp]"
    using handleInbound_single [OF fits(1)] fits(2) by simp
  moreover have "peerKey ''ra1:9000'' 0 \<noteq> []" "peer_ready ?b1 (peerKey ''ra1:9000'' 0) 2" using wit_scenario by (simp_all add: peerKey_def peer_ready_def)
  moreover have "uc_sent (ag_uds ?a1 5) = []" "\<not> uc_done (ag_uds ?a1 5)" using wit_scenario by simp_all
  ultimately show ?thesis
    using rpc_end_to_end [OF wit_call_def _ _ _ refl, where nid = 77 and a = wit_a and n = 4 and l = 1 and ops = "[]" and seq = 1 and req = ?req and b = wit_b and d = 8
        and key = "peerKey ''ra1:9000'' 0" and p = "Some [2]" and e = NoError and rsp = ?rsp and ?b1.0 = ?b1 and k = 2 and ?a1.0 = ?a1 and c = 5 and cl = ?cl
        and ?core2.0 = wit_call and key' = "[]"]
      wit_scenario head core by (auto simp: payload_bytes_def CodeOf_def wit_call_def Call_def call_start_def register_def New_def Let_def)
qed


section \<open>A ping from the client to the lobby and back\<close>

text \<open>C16: A ping of a client is answered by the lobby, from the packet of the client to the packet that
  the client reads. The gate decodes the packet and calls the route of the command; the frame that its engine and SDK make
  is routed by the agent of the gate to the agent of the lobby and delivered to the lobby process, whose
  registered handler answers this very frame with one response; the response is routed back, and the callback that the gate
  runs for it sends one packet to the connection of the client. That packet, followed by anything, passes
  every check of the client, which reads the text it expects and nothing beyond the packet. As for every remote call,
  in between the agents keep the request, the links and the connection of the gate, and the gate
  keeps the call open; the session must still be the one of its connection.\<close>

theorem ping_end_to_end:
  assumes "proto_law pq" and "proto_law pp"
    and "proto_Marshal pq \<lparr>pq_Text = txt\<rparr> = Inr body" and "length body + 7 \<le> 0xFFFFFF"
    and "proto_Marshal pp \<lparr>pr_Text = expectedPong txt\<rparr> = Inr out" and "length out + 11 \<le> 0xFFFFFF"
    and sent: "ping_packet pq sq txt = Inr data" "DecodePacket data = Some (Inr pkt)"
    and gate: "ds = gate_dispatcher 1 stack AuthWhitelist RouteTable" "gt_sessions g = foldl session_step NewSessionManager evs"
    and "p < length (sm_store (gt_sessions g))" and s: "s = sm_store (gt_sessions g) ! p" and "ss_Conn s = Some cn" and "length (ss_ConnID s) \<le> 0xFFFF"
    and "gt_transport g (gt_nextReply g) = NoError" and "rc_seq (gt_core g) + 1 \<noteq> 0"
    and g1: "g1 = fst (HandleSessionPacket ds hs g (Some p) cn pkt)"
    and t: "t = backend_target s ping_entry" and "head = sdk_header nid t (call_header (gt_core g1))" and "routes_to a head n l"
    and "remote_ok (ag_remoteSeq a)" and "length ops < remote_room (ag_remoteSeq a)" and "seq = rs_seq (ag_remoteSeq a) + 1"
    and req: "req = rpc_frame FrameRpcRequest (retarget head seq n) body" and "hosts b n d" and "key \<noteq> []"
    and lobby: "RegisterLobbyHandler pq pp New_rpc_Dispatcher (Some Lobby_Ping) = Some routes"
    and "map_of (ag_incomingSeq b1) seq = map_of (ag_incomingSeq (HandlePeerFrame b req key)) seq"
    and "peer_ready b1 key k" and "Local_Get (ag_localConns b1) (hdr_SrcNodeID head) = None"
    and "GetByNodeID (ag_memberTable b1) (hdr_SrcNodeID head) \<noteq> None" and "hdr_SrcNodeID head \<noteq> 0"
    and "ag_remoteSeq a1 = foldl remote_step (ag_remoteSeq (RouteFrame a c (call_frame nid t (gt_core g1) body))) ops"
    and "RemotePop seq \<notin> set ops" and "RemoteConnGone c \<notin> set ops" and "\<not> uc_done (ag_uds a1 c)"
    and g2: "cl_core cl = Some (gt_core g2)" "map_of (rc_pending (gt_core g2)) (rc_seq (gt_core g) + 1) = map_of (rc_pending (gt_core g1)) (rc_seq (gt_core g) + 1)"
    and "gt_replies g2 (gt_nextReply g) = gt_replies g1 (gt_nextReply g)"
    and "gt_sessions g2 = foldl session_step (gt_sessions g1) evs'" and "length (evs @ evs') < 2 ^ 64"
    and "GetByConnID (gt_sessions g2) (ss_ConnID s) = Some p"
  shows "tl_sendCh (ag_links (RouteFrame a c (call_frame nid t (gt_core g1) body)) l) = tl_sendCh (ag_links a l) @ [req]
    \<and> uc_sent (ag_uds (HandlePeerFrame b req key) d) = uc_sent (ag_uds b d) @ [req]
    \<and> (\<exists>rsp frame core3 called reply. handleRagentFrame routes now n req = [rsp]
        \<and> tl_prioSendCh (ag_links (RouteFrame b1 d (as_frame rsp)) k) = tl_prioSendCh (ag_links b1 k) @ [as_frame rsp]
        \<and> uc_sent (ag_uds (HandlePeerFrame a1 (as_frame rsp) key') c) = uc_sent (ag_uds a1 c) @ [frame]
        \<and> cl_core (client_on_frame cl frame) = Some core3 \<and> rc_calls core3 = rc_calls (gt_core g2) @ [called]
        \<and> run_dispatched (g2\<lparr>gt_core := core3\<rparr>) called = send_to_client (g2\<lparr>gt_core := core3\<rparr>) cn reply
        \<and> robot_ping pq pp sq txt (expectedPong txt) True (reply @ rest) = (rest, Inr \<lparr>pr_Text = expectedPong txt\<rparr>))"
proof -
  let ?msg = "\<lparr>msg_Type = MessageRequest, msg_SeqID = sq, msg_CmdID = cmdPing, msg_ErrCode = 0, msg_Body = body\<rparr>"
  let ?env = "\<lparr>ev_sessID = ss_ID s, ev_sessConnID = ss_ConnID s, ev_SeqID = sq, ev_RspCmdID = re_RspCmdID ping_entry\<rparr>"
  have pkt: "pkt_Type pkt = PacketData" "DecodeMessage (pkt_Body pkt) = Some (Inr ?msg)"
    using ping_packet_made [OF assms(3,4), of sq] sent by auto
  have fw: "g1 = g\<lparr>gt_replies := (gt_replies g)(gt_nextReply g \<mapsto> ?env), gt_nextReply := Suc (gt_nextReply g),
      gt_core := Call (gt_core g) (gt_now g) t RouteLobbyHandlerPing body (WithFromNode Background (gt_nodeID g)) (Some (gt_nextReply g)) NoError\<rparr>"
    using ping_forwarded [OF gate(1) assms(15) pkt _ _ s] by (simp add: g1 t)
  then have call: "gt_core g1 = Call (gt_core g) (gt_now g) t RouteLobbyHandlerPing body (WithFromNode Background (gt_nodeID g)) (Some (gt_nextReply g)) NoError"
    by simp
  have "tg_Key t = ss_ConnID s" by (simp add: t backend_target_def Let_def ByHash_def At_def)
  then have lens: "length (tg_Key t) \<le> 0xFFFF" "length RouteLobbyHandlerPing \<le> 0xFFFF" using assms(14) by (simp_all add: RouteLobbyHandlerPing_def)
  note way = call_and_answer [OF call assms(16) lens assms(19-26) assms(28-36) g2]
  have entry: "re_RspCmdID ping_entry = cmdPong" "re_Route ping_entry = RouteLobbyHandlerPing" "(2054, ping_entry) \<in> set RouteTable"
    by (simp_all add: ping_entry_def cmdPong_def RouteTable_def)
  have u: "proto_Unmarshal pq body = Inr \<lparr>pq_Text = txt\<rparr>" using assms(1,3) by (simp add: proto_law_def)
  have m: "proto_Marshal pp \<lparr>pr_Text = (if pq_Text \<lparr>pq_Text = txt\<rparr> = [] then ''pong'' else ''pong:'' @ pq_Text \<lparr>pq_Text = txt\<rparr>)\<rparr> = Inr out"
    using assms(5) by (simp add: expectedPong_def split: if_splits)
  let ?rsp = "response n (retarget head seq n) OK out"
  have route: "hdr_Route (retarget head seq n) = re_Route ping_entry" using way(3) entry(2) by simp
  have answer: "handleRagentFrame routes now n req = [?rsp]"
    unfolding req by (rule ping_answered [OF way(1,2) route entry(3) lobby u m])
  have "as_frame ?rsp = rpc_frame FrameRpcResponse ((responseHead (retarget head seq n) n)\<lparr>hdr_ErrCode := OK\<rparr>) out"
    by (simp add: response_def)
  note legs = way(4) [OF this, of key']
  obtain reply where r: "EncodeDataMessagePacket \<lparr>msg_Type = MessageResponse, msg_SeqID = sq, msg_CmdID = cmdPong, msg_ErrCode = OK, msg_Body = out\<rparr> = Inr reply"
    "robot_ping pq pp sq txt (expectedPong txt) True (reply @ rest) = (rest, Inr \<lparr>pr_Text = expectedPong txt\<rparr>)"
    using pong_checked [OF assms(2,5,6) sent(1), of rest] by blast
  have m2: "gt_sessions g2 = foldl session_step NewSessionManager (evs @ evs')" using assms(40) by (simp add: fw gate(2))
  have sess: "p < length (sm_store (gt_sessions g2)) \<and> ss_ID (sm_store (gt_sessions g2) ! p) = ss_ID s
      \<and> ss_Conn (sm_store (gt_sessions g2) ! p) = ss_Conn s \<and> ss_ConnID (sm_store (gt_sessions g2) ! p) = ss_ConnID s"
    using session_steps_keep [OF sessions_ok_history, of p evs evs'] assms(11) s gate(2) by (simp add: m2)
  have ids: "ids_ok (gt_sessions g2)" "sessions_ok (gt_sessions g2)"
    unfolding m2 using ids_ok_history [OF assms(41)] sessions_ok_history by blast+
  have "run_dispatched (g2\<lparr>gt_core := core3\<rparr>) \<lparr>dp_seq = sn, dp_callback = gt_nextReply g, dp_payload = Some out, dp_code = OK\<rparr>
      = send_to_client (g2\<lparr>gt_core := core3\<rparr>) cn reply" for core3 sn
  proof -
    have "gt_replies g2 (gt_nextReply g) = Some ?env" using assms(39) by (simp add: fw)
    then show ?thesis
      using reply_callback_guard [OF ids, of "g2\<lparr>gt_core := core3\<rparr>" p cn ?env OK out reply] sess assms(13,42) r(1) entry(1)
      by (simp add: run_dispatched_def)
  qed
  with legs answer r(2) show ?thesis by blast
qed

text \<open>A client that has logged in with the lobby node 4 pings it through a gate on node 77.\<close>

definition ping_gate :: Gate where
  "ping_gate = Gate.demo_gate\<lparr>gt_nodeID := 77,
     gt_sessions := foldl session_step NewSessionManager [Connects \<lparr>cn_ptr = 1, cn_RemoteAddr = ''a''\<rparr>, Binds ''a'' 7 [serverTypeLobby \<mapsto> 4]]\<rparr>"

definition ping_a :: Agent where
  "ping_a = wit_a\<lparr>ag_peerMgr := fst (Attach NewPeerMgr (peerKey ''ra2:9000'' serverTypeLobby) 1 ''outgoing'')\<rparr>"

lemma ping_session:
  "gt_sessions ping_gate = foldl session_step NewSessionManager [Connects \<lparr>cn_ptr = 1, cn_RemoteAddr = ''a''\<rparr>, Binds ''a'' 7 [serverTypeLobby \<mapsto> 4]]"
  "0 < length (sm_store (gt_sessions ping_gate))" "ss_Conn (sm_store (gt_sessions ping_gate) ! 0) = Some \<lparr>cn_ptr = 1, cn_RemoteAddr = ''a''\<rparr>"
  "ss_ConnID (sm_store (gt_sessions ping_gate) ! 0) = ''a''" "GetByConnID (gt_sessions ping_gate) ''a'' = Some 0"
  "gt_transport ping_gate (gt_nextReply ping_gate) = NoError" "gt_core ping_gate = New 0" "rc_seq (New 0) + 1 = 1" "gt_nodeID ping_gate = 77"
  "backend_target (sm_store (gt_sessions ping_gate) ! 0) ping_entry =
     \<lparr>tg_ServerType = serverTypeLobby, tg_Mode = RoutingDirect, tg_Key = ''a'', tg_NodeID = 4, tg_Deadline = 0\<rparr>"
  by (simp_all add: ping_gate_def Gate.demo_gate_def session_ops GetByConnID_def New_def backend_target_def ping_entry_def bound_node_def
      ByHash_def At_def serverTypeLobby_def Let_def)

lemma ping_scenario:
  "rs_seq (ag_remoteSeq ping_a) = 0" "remote_ok (ag_remoteSeq ping_a)" "0 < remote_room (ag_remoteSeq ping_a)"
  "GetByNodeID (ag_memberTable ping_a) 4 = Some \<lparr>NodeID = 4, RAAddr = ''ra2:9000'', StartAt = 0\<rparr>" "Local_Get (ag_localConns ping_a) 4 = None"
  "peer_ready ping_a (peerKey ''ra2:9000'' serverTypeLobby) 1" "\<not> uc_done (ag_uds ping_a c)" "uc_sent (ag_uds ping_a c) = []"
  using wit_scenario by (simp_all add: ping_a_def peer_ready_def attach_New_ready)

text \<open>The states after each stage: the gate has forwarded the packet, the agents have routed the request.\<close>

definition ping_data :: bytes where
  "ping_data = (case ping_packet ping_proto 9 ''hi'' of Inr data \<Rightarrow> data | Inl _ \<Rightarrow> [])"

definition ping_sent :: Packet where
  "ping_sent = (case DecodePacket ping_data of Some (Inr pkt) \<Rightarrow> pkt | _ \<Rightarrow> \<lparr>pkt_Type = 0, pkt_Body = []\<rparr>)"

definition ping_g1 :: Gate where
  "ping_g1 = fst (HandleSessionPacket (gate_dispatcher 1 [] AuthWhitelist RouteTable) None ping_gate (Some 0) \<lparr>cn_ptr = 1, cn_RemoteAddr = ''a''\<rparr> ping_sent)"

definition ping_target :: Target where
  "ping_target = backend_target (sm_store (gt_sessions ping_gate) ! 0) ping_entry"

definition ping_head :: RPCWireHeader where
  "ping_head = sdk_header 77 ping_target (call_header (gt_core ping_g1))"

definition ping_req :: Frame where
  "ping_req = rpc_frame FrameRpcRequest (retarget ping_head 1 4) (str_bytes ''hi'')"

definition ping_a1 :: Agent where
  "ping_a1 = ping_a\<lparr>ag_remoteSeq := ag_remoteSeq (RouteFrame ping_a 5 (call_frame 77 ping_target (gt_core ping_g1) (str_bytes ''hi'')))\<rparr>"

definition ping_b1 :: Agent where
  "ping_b1 = wit_b\<lparr>ag_incomingSeq := ag_incomingSeq (HandlePeerFrame wit_b ping_req (peerKey ''ra1:9000'' 0))\<rparr>"

lemma ping_stages:
  "ping_packet ping_proto 9 ''hi'' = Inr ping_data" "DecodePacket ping_data = Some (Inr ping_sent)"
  "gt_sessions ping_g1 = gt_sessions ping_gate" "routes_to ping_a ping_head 4 1" "hdr_SrcNodeID ping_head = 77"
proof -
  let ?msg = "\<lparr>msg_Type = MessageRequest, msg_SeqID = 9, msg_CmdID = cmdPing, msg_ErrCode = 0, msg_Body = str_bytes ''hi''\<rparr>"
  have "length (str_bytes ''hi'') + 7 \<le> 0xFFFFFF" by simp
  from ping_packet_made [OF demo_protos(3) this, of 9] show made: "ping_packet ping_proto 9 ''hi'' = Inr ping_data"
    and dec: "DecodePacket ping_data = Some (Inr ping_sent)" by (auto simp: ping_data_def ping_sent_def)
  have "pkt_Type ping_sent = PacketData" "DecodeMessage (pkt_Body ping_sent) = Some (Inr ?msg)"
    using ping_packet_made [OF demo_protos(3) \<open>length _ + 7 \<le> _\<close>, of 9] made dec by auto
  note fw = ping_forwarded [where stack = "[]" and hs = None and c = "\<lparr>cn_ptr = 1, cn_RemoteAddr = ''a''\<rparr>" and p = 0, OF refl ping_session(6) this _ _ refl, folded ping_g1_def]
  show "gt_sessions ping_g1 = gt_sessions ping_gate" by (subst fw) simp_all
  have core: "gt_core ping_g1 = Call (New 0) (gt_now ping_gate) ping_target RouteLobbyHandlerPing (str_bytes ''hi'')
      (WithFromNode Background 77) (Some (gt_nextReply ping_gate)) NoError"
    by (subst fw) (simp_all add: ping_target_def ping_session(7,9))
  have tg: "ping_target = \<lparr>tg_ServerType = serverTypeLobby, tg_Mode = RoutingDirect, tg_Key = ''a'', tg_NodeID = 4, tg_Deadline = 0\<rparr>"
    by (simp add: ping_target_def ping_session(10))
  have "rh_ServerType (call_header (gt_core ping_g1)) = serverTypeLobby" "rh_SrcNodeID (call_header (gt_core ping_g1)) = 77"
    by (simp_all add: core tg call_header_def Call_def call_start_def register_def WithFromNode_def Background_def Let_def)
  then have head: "hdr_SrcNodeID ping_head = 77" "hdr_ServerType ping_head = serverTypeLobby" "hdr_RoutingMode ping_head = RoutingModeDirect"
    "hdr_RoutingKey ping_head = dec_nat 4"
    by (simp_all add: ping_head_def sdk_header_def tg routingModeToWire_def serverTypeLobby_def Let_def)
  show "hdr_SrcNodeID ping_head = 77" by (fact head(1))
  have "ParseUint32 (dec_nat 4) = Some 4" by (simp add: ParseUint32_dec)
  then have "pickTargets ping_a ping_head = [4]" using head by (simp add: pickTargets_def parseNodeIDKey_def)
  then show "routes_to ping_a ping_head 4 1" using ping_scenario head by (auto simp: routes_to_def)
qed

theorem ping_end_to_end_witness:
  "\<exists>routes rsp frame core3 called reply. RegisterLobbyHandler ping_proto pong_proto New_rpc_Dispatcher (Some Lobby_Ping) = Some routes
    \<and> handleRagentFrame routes 0 4 ping_req = [rsp] \<and> uc_sent (ag_uds (HandlePeerFrame ping_a1 (as_frame rsp) []) 5) = [frame]
    \<and> cl_core (client_on_frame \<lparr>cl_nodeID = 77, cl_core = Some (gt_core ping_g1), cl_handler = True, cl_posted = [], cl_sent = []\<rparr> frame) = Some core3
    \<and> rc_calls core3 = rc_calls (gt_core ping_g1) @ [called]
    \<and> run_dispatched (ping_g1\<lparr>gt_core := core3\<rparr>) called = send_to_client (ping_g1\<lparr>gt_core := core3\<rparr>) \<lparr>cn_ptr = 1, cn_RemoteAddr = ''a''\<rparr> reply
    \<and> robot_ping ping_proto pong_proto 9 ''hi'' ''pong:hi'' True (reply @ [1]) = ([1], Inr \<lparr>pr_Text = ''pong:hi''\<rparr>)"
proof -
  let ?cl = "\<lparr>cl_nodeID = 77, cl_core = Some (gt_core ping_g1), cl_handler = True, cl_posted = [], cl_sent = []\<rparr>"
  let ?evs = "[Connects \<lparr>cn_ptr = 1, cn_RemoteAddr = ''a''\<rparr>, Binds ''a'' 7 [serverTypeLobby \<mapsto> 4]]"
  obtain routes where r: "RegisterLobbyHandler ping_proto pong_proto New_rpc_Dispatcher (Some Lobby_Ping) = Some routes"
    using RegisterLobbyHandler_new by blast
  have p: "expectedPong ''hi'' = ''pong:hi''" by (simp add: expectedPong_def)
  have small: "length (str_bytes ''hi'') + 7 \<le> 0xFFFFFF" "length (str_bytes (expectedPong ''hi'')) + 11 \<le> 0xFFFFFF" by (simp_all add: p)
  have ready: "peerKey ''ra1:9000'' 0 \<noteq> []" "peer_ready ping_b1 (peerKey ''ra1:9000'' 0) 2" "Local_Get (ag_localConns ping_b1) 77 = None"
    "GetByNodeID (ag_memberTable ping_b1) 77 \<noteq> None" "\<not> uc_done (ag_uds ping_a1 5)" "uc_sent (ag_uds ping_a1 5) = []"
    using wit_scenario ping_scenario by (simp_all add: ping_b1_def ping_a1_def peerKey_def peer_ready_def)
  have "\<exists>rsp frame core3 called reply. handleRagentFrame routes 0 4 ping_req = [rsp]
        \<and> tl_prioSendCh (ag_links (RouteFrame ping_b1 8 (as_frame rsp)) 2) = tl_prioSendCh (ag_links ping_b1 2) @ [as_frame rsp]
        \<and> uc_sent (ag_uds (HandlePeerFrame ping_a1 (as_frame rsp) []) 5) = uc_sent (ag_uds ping_a1 5) @ [frame]
        \<and> cl_core (client_on_frame ?cl frame) = Some core3 \<and> rc_calls core3 = rc_calls (gt_core ping_g1) @ [called]
        \<and> run_dispatched (ping_g1\<lparr>gt_core := core3\<rparr>) called = send_to_client (ping_g1\<lparr>gt_core := core3\<rparr>) \<lparr>cn_ptr = 1, cn_RemoteAddr = ''a''\<rparr> reply
        \<and> robot_ping ping_proto pong_proto 9 ''hi'' (expectedPong ''hi'') True (reply @ [1]) = ([1], Inr \<lparr>pr_Text = expectedPong ''hi''\<rparr>)"
    by (rule ping_end_to_end [where ops = "[]" and evs = ?evs and evs' = "[]" and stack = "[]" and seq = 1 and b = wit_b and nid = 77 and l = 1 and g = ping_gate and p = 0,
          THEN conjunct2, THEN conjunct2,
          OF demo_protos(1,2,3) small(1) demo_protos(4) small(2) ping_stages(1,2) refl ping_session(1,2) refl ping_session(3) _ ping_session(6) _ ping_g1_def ping_target_def
            ping_head_def ping_stages(4) ping_scenario(2)])
      (use ready r ping_session ping_scenario ping_stages(3,5) wit_scenario in \<open>simp_all add: ping_req_def ping_b1_def ping_a1_def\<close>)
  with r ready(6) show ?thesis unfolding p by (metis append_Nil)
qed

section \<open>Untrusted input\<close>

text \<open>C39: Bytes from the network never make a decoder panic: for every input the decoders of client packets
  and messages, agent frames, RPC headers, route bodies and broadcast acknowledgements return a
  result or an error, that is, every index and slice expression in them is within its bounds.\<close>

theorem decoders_never_panic:
  "DecodePacket data \<noteq> None \<and> DecodeMessage data \<noteq> None \<and> DecodeFrame data \<noteq> None \<and> DecodeRPCWireHeader data \<noteq> None
   \<and> DecodeRouteBody data \<noteq> None \<and> DecodeBroadcastSent data \<noteq> None"
  by (intro conjI DecodePacket_total DecodeMessage_total DecodeFrame_total DecodeRPCWireHeader_total DecodeRouteBody_total DecodeBroadcastSent_total)

end
